(* ===== verification/Oram_Prelude.thy ===== *)
theory Oram_Prelude
  imports Main "HOL-Library.Word" "HOL-Library.Multiset"
begin

text \<open>
  Shared vocabulary of the development: the machine types of the crate, its error type
  (src/src/error.rs), the two ways fallible code is modelled (a result \<open>error + 'a\<close> for
  pure code, a state-and-error computation for code behind \<open>&mut self\<close>), little-endian
  integers, slices, and the list, word and multiset facts the components share.
\<close>

unbundle bit_operations_syntax

section \<open>Types\<close>

type_synonym u8 = "8 word"
type_synonym u32 = "32 word"
type_synonym u64 = "64 word"
type_synonym bytes = "8 word list"

text \<open>
  \<open>usize\<close> is modelled by \<^typ>\<open>nat\<close>: the crate targets 64-bit machines, and where it guards a
  size computation itself (\<open>checked_mul\<close>, \<open>checked_next_power_of_two\<close>) the guard is modelled
  at 64 bits below. The \<open>enum Error\<close> keeps its variants; a message is kept as its format
  string, without the interpolated values. \<open>Panic\<close> is not a variant of the source: it stands for
  a Rust panic (\<open>expect\<close> on \<open>None\<close>, an out-of-range slice), which ends the call too.
\<close>

datatype error =
    InvalidParams string
  | InvalidInput string
  | StashOverflow nat nat
  | BlockNotFound u64
  | Io string
  | Bincode
  | Hex
  | Aead
  | Panic string

type_synonym 'a result = "error + 'a"

text \<open>A call behind \<open>&mut self\<close>: the state is returned on the error path too.\<close>

type_synonym ('s, 'a) comp = "'s \<Rightarrow> 'a result \<times> 's"

named_theorems comp_simps \<open>evaluation rules of the computation combinators\<close>
named_theorems wf_simps \<open>lengths and well-formedness facts shared across components\<close>

section \<open>Results\<close>

fun rbind :: "'a result \<Rightarrow> ('a \<Rightarrow> 'b result) \<Rightarrow> 'b result" where
  "rbind (Inl e) f = Inl e"
| "rbind (Inr a) f = f a"

definition ensure :: "bool \<Rightarrow> error \<Rightarrow> unit result" where
  "ensure b e = (if b then Inr () else Inl e)"

definition ok_or :: "'a option \<Rightarrow> error \<Rightarrow> 'a result" where
  "ok_or x e = (case x of None \<Rightarrow> Inl e | Some a \<Rightarrow> Inr a)"

fun rmapM :: "('a \<Rightarrow> 'b result) \<Rightarrow> 'a list \<Rightarrow> 'b list result" where
  "rmapM f [] = Inr []"
| "rmapM f (x # xs) = rbind (f x) (\<lambda>y. rbind (rmapM f xs) (\<lambda>ys. Inr (y # ys)))"

fun rfoldM :: "('a \<Rightarrow> 'b \<Rightarrow> 'b result) \<Rightarrow> 'a list \<Rightarrow> 'b \<Rightarrow> 'b result" where
  "rfoldM f [] b = Inr b"
| "rfoldM f (x # xs) b = rbind (f x b) (rfoldM f xs)"

lemma rbind_Inr_iff [simp]: "rbind m f = Inr b \<longleftrightarrow> (\<exists>a. m = Inr a \<and> f a = Inr b)"
  by (cases m) auto

lemma rbind_Inr_right [simp]: "rbind m Inr = m"
  by (cases m) auto

lemma ensure_simps [simp]:
  "ensure True e = Inr ()" "ensure False e = Inl e"
  "ensure b e = Inr u \<longleftrightarrow> b"
  by (auto simp: ensure_def)

lemma rbind_ensure: "rbind (ensure b e) f = (if b then f () else Inl e)"
  by simp

lemma ok_or_simps [simp]: "ok_or None e = Inl e" "ok_or (Some a) e = Inr a"
  by (auto simp: ok_or_def)

lemma rmapM_Inr: "(\<And>x. x \<in> set xs \<Longrightarrow> f x = Inr (g x)) \<Longrightarrow> rmapM f xs = Inr (map g xs)"
  by (induction xs) auto

lemma rmapM_Inr_iff: "rmapM f xs = Inr ys \<longleftrightarrow> list_all2 (\<lambda>x y. f x = Inr y) xs ys"
proof (induction xs arbitrary: ys)
  case Nil
  then show ?case by auto
next
  case (Cons x xs)
  then show ?case by (cases ys) (auto simp: list_all2_Cons1)
qed

lemma rmapM_source: "rmapM f xs = Inr ys \<Longrightarrow> y \<in> set ys \<Longrightarrow> \<exists>x. x \<in> set xs \<and> f x = Inr y"
proof (induction xs arbitrary: ys)
  case (Cons x xs)
  then obtain z zs where "f x = Inr z" "rmapM f xs = Inr zs" "ys = z # zs" by auto
  with Cons show ?case by (metis list.set_intros set_ConsD)
qed simp

lemma rfoldM_append: "rfoldM f (xs @ ys) b = rbind (rfoldM f xs b) (rfoldM f ys)"
proof (induction xs arbitrary: b)
  case (Cons x xs)
  then show ?case by (cases "f x b") auto
qed simp

section \<open>Computations with state and errors\<close>

definition ret :: "'a \<Rightarrow> ('s, 'a) comp" where
  "ret a = (\<lambda>s. (Inr a, s))"

definition fail :: "error \<Rightarrow> ('s, 'a) comp" where
  "fail e = (\<lambda>s. (Inl e, s))"

definition lift :: "'a result \<Rightarrow> ('s, 'a) comp" where
  "lift r = (\<lambda>s. (r, s))"

definition bnd :: "('s, 'a) comp \<Rightarrow> ('a \<Rightarrow> ('s, 'b) comp) \<Rightarrow> ('s, 'b) comp" where
  "bnd m f = (\<lambda>s. case m s of (Inl e, s') \<Rightarrow> (Inl e, s') | (Inr a, s') \<Rightarrow> f a s')"

definition gets :: "('s \<Rightarrow> 'a) \<Rightarrow> ('s, 'a) comp" where
  "gets f = (\<lambda>s. (Inr (f s), s))"

definition modify :: "('s \<Rightarrow> 's) \<Rightarrow> ('s, unit) comp" where
  "modify f = (\<lambda>s. (Inr (), f s))"

definition require :: "bool \<Rightarrow> error \<Rightarrow> ('s, unit) comp" where
  "require b e = (if b then ret () else fail e)"

text \<open>Running a computation of a field (a store inside a wrapper or the controller).\<close>

definition zoom :: "('s \<Rightarrow> 't) \<Rightarrow> ('t \<Rightarrow> 's \<Rightarrow> 's) \<Rightarrow> ('t, 'a) comp \<Rightarrow> ('s, 'a) comp" where
  "zoom g p m = (\<lambda>s. case m (g s) of (r, t) \<Rightarrow> (r, p t s))"

fun cmapM :: "('a \<Rightarrow> ('s, 'b) comp) \<Rightarrow> 'a list \<Rightarrow> ('s, 'b list) comp" where
  "cmapM f [] = ret []"
| "cmapM f (x # xs) = bnd (f x) (\<lambda>y. bnd (cmapM f xs) (\<lambda>ys. ret (y # ys)))"

fun citer :: "('a \<Rightarrow> ('s, unit) comp) \<Rightarrow> 'a list \<Rightarrow> ('s, unit) comp" where
  "citer f [] = ret ()"
| "citer f (x # xs) = bnd (f x) (\<lambda>_. citer f xs)"

lemma ret_run [comp_simps]: "ret a s = (Inr a, s)"
  by (simp add: ret_def)

lemma fail_run [comp_simps]: "fail e s = (Inl e, s)"
  by (simp add: fail_def)

lemma lift_run [comp_simps]: "lift r s = (r, s)"
  by (simp add: lift_def)

lemma gets_run [comp_simps]: "gets f s = (Inr (f s), s)"
  by (simp add: gets_def)

lemma modify_run [comp_simps]: "modify f s = (Inr (), f s)"
  by (simp add: modify_def)

lemma require_run [comp_simps]: "require b e s = (if b then (Inr (), s) else (Inl e, s))"
  by (simp add: require_def ret_def fail_def)

lemma bnd_Inr [comp_simps]: "m s = (Inr a, s') \<Longrightarrow> bnd m f s = f a s'"
  by (simp add: bnd_def)

lemma bnd_Inl [comp_simps]: "m s = (Inl e, s') \<Longrightarrow> bnd m f s = (Inl e, s')"
  by (simp add: bnd_def)

lemma bnd_ret_run [comp_simps]: "bnd (ret a) f s = f a s"
  by (simp add: bnd_def ret_def)

lemma bnd_fail_run [comp_simps]: "bnd (fail e) f s = (Inl e, s)"
  by (simp add: bnd_def fail_def)

lemma bnd_gets_run [comp_simps]: "bnd (gets g) f s = f (g s) s"
  by (simp add: bnd_def gets_def)

lemma bnd_modify_run [comp_simps]: "bnd (modify g) f s = f () (g s)"
  by (simp add: bnd_def modify_def)

lemma bnd_lift_Inr_run [comp_simps]: "bnd (lift (Inr a)) f s = f a s"
  by (simp add: bnd_def lift_def)

lemma bnd_lift_Inl_run [comp_simps]: "bnd (lift (Inl e)) f s = (Inl e, s)"
  by (simp add: bnd_def lift_def)

lemma bnd_require_run [comp_simps]: "bnd (require b e) f s = (if b then f () s else (Inl e, s))"
  by (simp add: bnd_def require_def ret_def fail_def)

lemma zoom_run [comp_simps]: "m (g s) = (r, t) \<Longrightarrow> zoom g p m s = (r, p t s)"
  by (simp add: zoom_def)

lemma bnd_Inr_iff:
  "bnd m f s = (Inr b, s'') \<longleftrightarrow> (\<exists>a s'. m s = (Inr a, s') \<and> f a s' = (Inr b, s''))"
  by (auto simp: bnd_def split: prod.splits sum.splits)

lemma zoom_Inr_iff: "zoom g u m s = (Inr a, s') \<longleftrightarrow> (\<exists>t. m (g s) = (Inr a, t) \<and> s' = u t s)"
  by (auto simp: zoom_def split: prod.splits)

lemma citer_lift_Inr: "citer (\<lambda>x. lift (f x)) xs s = (Inr (), s') \<longleftrightarrow> s' = s \<and> (\<forall>x \<in> set xs. f x = Inr ())"
  by (induction xs) (auto simp: comp_simps bnd_Inr_iff)

lemma cmapM_append:
  "cmapM f (xs @ ys) = bnd (cmapM f xs) (\<lambda>us. bnd (cmapM f ys) (\<lambda>vs. ret (us @ vs)))"
  by (induction xs) (auto simp: bnd_def ret_def fun_eq_iff split: prod.splits sum.splits)

lemma citer_append: "citer f (xs @ ys) = bnd (citer f xs) (\<lambda>_. citer f ys)"
  by (induction xs) (auto simp: bnd_def ret_def fun_eq_iff split: prod.splits sum.splits)

lemma citer_require_all:
  "(\<And>x. x \<in> set xs \<Longrightarrow> P x) \<Longrightarrow> citer (\<lambda>x. require (P x) (e x)) xs s = (Inr (), s)"
  by (induction xs) (simp_all add: comp_simps)

section \<open>Unsigned arithmetic with overflow checks\<close>

definition checked_add_u64 :: "u64 \<Rightarrow> u64 \<Rightarrow> u64 option" where
  "checked_add_u64 a b = (if unat a + unat b < 2 ^ 64 then Some (a + b) else None)"

definition checked_mul_u64 :: "u64 \<Rightarrow> u64 \<Rightarrow> u64 option" where
  "checked_mul_u64 a b = (if unat a * unat b < 2 ^ 64 then Some (a * b) else None)"

definition checked_sub_u64 :: "u64 \<Rightarrow> u64 \<Rightarrow> u64 option" where
  "checked_sub_u64 a b = (if b \<le> a then Some (a - b) else None)"

definition checked_mul_usize :: "nat \<Rightarrow> nat \<Rightarrow> nat option" where
  "checked_mul_usize a b = (if a * b < 2 ^ 64 then Some (a * b) else None)"

text \<open>
  Unchecked products and sums of \<open>usize\<close> in a release build wrap at 64 bits (a debug build panics).
  Where the operands come from a file or a caller and nothing has bounded them yet, the model keeps
  the wrapping.
\<close>

definition usize_mul :: "nat \<Rightarrow> nat \<Rightarrow> nat" where
  "usize_mul a b = a * b mod 2 ^ 64"

definition usize_add :: "nat \<Rightarrow> nat \<Rightarrow> nat" where
  "usize_add a b = (a + b) mod 2 ^ 64"

lemma usize_mul_exact [simp]: "a * b < 2 ^ 64 \<Longrightarrow> usize_mul a b = a * b"
  by (simp add: usize_mul_def)

lemma usize_add_exact [simp]: "a + b < 2 ^ 64 \<Longrightarrow> usize_add a b = a + b"
  by (simp add: usize_add_def)

lemma usize_mul_lt [simp]: "usize_mul a b < 2 ^ 64"
  by (simp add: usize_mul_def)

definition div_ceil :: "nat \<Rightarrow> nat \<Rightarrow> nat" where
  "div_ceil a b = (a + b - 1) div b"

text \<open>\<open>usize::is_power_of_two\<close>, \<open>trailing_zeros\<close> (of a non-zero value) and \<open>next_power_of_two\<close>.\<close>

fun is_power_of_two :: "nat \<Rightarrow> bool" where
  "is_power_of_two n = (if 1 < n \<and> even n then is_power_of_two (n div 2) else n = 1)"

fun trailing_zeros :: "nat \<Rightarrow> nat" where
  "trailing_zeros n = (if 0 < n \<and> even n then Suc (trailing_zeros (n div 2)) else 0)"

function pow2_at_least :: "nat \<Rightarrow> nat \<Rightarrow> nat" where
  "pow2_at_least p n = (if 0 < p \<and> p < n then pow2_at_least (2 * p) n else p)"
  by pat_completeness auto
termination
  by (relation "measure (\<lambda>(p, n). n - p)") auto

definition checked_next_power_of_two :: "nat \<Rightarrow> nat option" where
  "checked_next_power_of_two n =
     (let p = pow2_at_least 1 n in if p < 2 ^ 64 then Some p else None)"

declare is_power_of_two.simps [simp del] trailing_zeros.simps [simp del]
  pow2_at_least.simps [simp del]

lemma unat_word_of_nat_u64 [simp]: "n < 2 ^ 64 \<Longrightarrow> unat (word_of_nat n :: u64) = n"
  by (simp add: unat_of_nat)

lemma unat_word_of_nat_u32 [simp]: "n < 2 ^ 32 \<Longrightarrow> unat (word_of_nat n :: u32) = n"
  by (simp add: unat_of_nat)

lemma word_of_nat_unat_u64 [simp]: "(word_of_nat (unat w) :: u64) = w"
  by simp

lemma unat_minus_one_u64: "unat (- 1 :: u64) = 2 ^ 64 - 1"
  by (simp add: unsigned_minus_1_eq_mask mask_eq_exp_minus_1)

lemma add_mod_inj:
  fixes n :: nat
  assumes "a < n" and "b < n" and "(s + a) mod n = (s + b) mod n"
  shows "a = b"
proof (rule ccontr)
  have *: "n dvd y - x" if "(s + x) mod n = (s + y) mod n" and "x \<le> y" for x y
    using that mod_eq_dvd_iff_nat [of "s + x" "s + y" n] by simp
  assume "a \<noteq> b"
  then consider "a < b" | "b < a" by linarith
  then show False
    using * [of a b] * [of b a] assms by cases (auto dest!: dvd_imp_le)
qed

lemma unat_checked_add_u64: "checked_add_u64 a b = Some c \<Longrightarrow> unat c = unat a + unat b"
  by (auto simp: checked_add_u64_def unat_word_ariths split: if_splits)

lemma unat_checked_mul_u64: "checked_mul_u64 a b = Some c \<Longrightarrow> unat c = unat a * unat b"
  by (auto simp: checked_mul_u64_def unat_word_ariths split: if_splits)

lemma unat_checked_sub_u64: "checked_sub_u64 a b = Some c \<Longrightarrow> unat c = unat a - unat b \<and> unat b \<le> unat a"
  by (auto simp: checked_sub_u64_def unat_sub word_le_nat_alt split: if_splits)

lemma is_power_of_two_iff: "is_power_of_two n \<longleftrightarrow> (\<exists>k. n = 2 ^ k)"
proof (induction n rule: is_power_of_two.induct)
  case (1 n)
  show ?case
  proof
    assume "is_power_of_two n"
    then consider "n = 1" | "1 < n" "even n" "is_power_of_two (n div 2)"
      by (auto simp: is_power_of_two.simps [of n] split: if_splits)
    then show "\<exists>k. n = 2 ^ k"
    proof cases
      case 1
      then show ?thesis by (intro exI [of _ 0]) simp
    next
      case 2
      then obtain k where "n div 2 = 2 ^ k" using "1.IH" by blast
      with 2 have "n = 2 ^ Suc k" by (metis dvd_mult_div_cancel power_Suc)
      then show ?thesis by blast
    qed
  next
    assume "\<exists>k. n = 2 ^ k"
    then obtain k where k: "n = 2 ^ k" by blast
    show "is_power_of_two n"
    proof (cases k)
      case 0
      with k show ?thesis by (simp add: is_power_of_two.simps)
    next
      case (Suc j)
      with k have h: "even n" "n div 2 = 2 ^ j" by auto
      moreover from k Suc have "1 < n" by (simp only: one_less_power)
      ultimately have "1 < n" "is_power_of_two (n div 2)" using "1.IH" by blast+
      with h show ?thesis by (simp add: is_power_of_two.simps [of n])
    qed
  qed
qed

lemma trailing_zeros_power [simp]: "trailing_zeros (2 ^ k) = k"
  by (induction k) (simp_all add: trailing_zeros.simps)

lemma pow2_at_least_power: "is_power_of_two p \<Longrightarrow> is_power_of_two (pow2_at_least p n)"
proof (induction p n rule: pow2_at_least.induct)
  case (1 p n)
  show ?case
  proof (cases "0 < p \<and> p < n")
    case True
    from "1.prems" have "is_power_of_two (2 * p)"
      by (auto simp: is_power_of_two_iff intro: exI [of _ "Suc k" for k])
    with True "1.IH" show ?thesis by (simp add: pow2_at_least.simps [of p n])
  next
    case False
    then have "pow2_at_least p n = p" by (subst pow2_at_least.simps) auto
    with "1.prems" show ?thesis by simp
  qed
qed

lemma pow2_at_least_ge: "0 < p \<Longrightarrow> n \<le> pow2_at_least p n \<and> p \<le> pow2_at_least p n"
proof (induction p n rule: pow2_at_least.induct)
  case (1 p n)
  then show ?case
    by (cases "p < n") (fastforce simp: pow2_at_least.simps [of p n])+
qed

lemma pow2_at_least_less: "0 < p \<Longrightarrow> p < n \<Longrightarrow> pow2_at_least p n < 2 * n"
proof (induction p n rule: pow2_at_least.induct)
  case (1 p n)
  show ?case
  proof (cases "2 * p < n")
    case True
    with 1 show ?thesis by (simp add: pow2_at_least.simps [of p n])
  next
    case False
    with 1 show ?thesis
      by (simp add: pow2_at_least.simps [of p n] pow2_at_least.simps [of "2 * p" n])
  qed
qed

section \<open>Little-endian integers\<close>

fun le_bytes_nat :: "nat \<Rightarrow> nat \<Rightarrow> bytes" where
  "le_bytes_nat 0 x = []"
| "le_bytes_nat (Suc n) x = word_of_nat (x mod 256) # le_bytes_nat n (x div 256)"

fun nat_of_le_bytes :: "bytes \<Rightarrow> nat" where
  "nat_of_le_bytes [] = 0"
| "nat_of_le_bytes (b # bs) = unat b + 256 * nat_of_le_bytes bs"

definition u64_to_le_bytes :: "u64 \<Rightarrow> bytes" where
  "u64_to_le_bytes w = le_bytes_nat 8 (unat w)"

definition u64_from_le_bytes :: "bytes \<Rightarrow> u64" where
  "u64_from_le_bytes bs = word_of_nat (nat_of_le_bytes bs)"

definition u32_to_le_bytes :: "u32 \<Rightarrow> bytes" where
  "u32_to_le_bytes w = le_bytes_nat 4 (unat w)"

definition u32_from_le_bytes :: "bytes \<Rightarrow> u32" where
  "u32_from_le_bytes bs = word_of_nat (nat_of_le_bytes bs)"

text \<open>\<open>usize::to_le_bytes\<close> on a 64-bit target.\<close>

definition usize_to_le_bytes :: "nat \<Rightarrow> bytes" where
  "usize_to_le_bytes n = le_bytes_nat 8 n"

lemma length_le_bytes_nat [simp]: "length (le_bytes_nat n x) = n"
  by (induction n arbitrary: x) auto

lemma nat_of_le_bytes_le_bytes_nat: "nat_of_le_bytes (le_bytes_nat n x) = x mod 256 ^ n"
proof (induction n arbitrary: x)
  case (Suc n)
  have "unat (word_of_nat (x mod 256) :: u8) = x mod 256"
    by (simp add: unat_of_nat)
  moreover have "x mod (256 * 256 ^ n) = 256 * (x div 256 mod 256 ^ n) + x mod 256"
    by (rule mod_mult2_eq)
  ultimately show ?case using Suc by simp
qed simp

lemma le_bytes_nat_nat_of_le_bytes: "length bs = n \<Longrightarrow> le_bytes_nat n (nat_of_le_bytes bs) = bs"
proof (induction bs arbitrary: n)
  case (Cons b bs)
  have "unat b < 256" using unsigned_less [of b, where 'a = nat] by simp
  with Cons show ?case by (cases n) auto
qed simp

lemma nat_of_le_bytes_bound: "nat_of_le_bytes bs < 256 ^ length bs"
proof (induction bs)
  case (Cons b bs)
  have "unat b < 256" using unsigned_less [of b, where 'a = nat] by simp
  with Cons show ?case by (simp add: le_simps)
qed simp

lemma length_u64_to_le_bytes [simp]: "length (u64_to_le_bytes w) = 8"
  by (simp add: u64_to_le_bytes_def)

lemma length_u32_to_le_bytes [simp]: "length (u32_to_le_bytes w) = 4"
  by (simp add: u32_to_le_bytes_def)

lemma length_usize_to_le_bytes [simp]: "length (usize_to_le_bytes w) = 8"
  by (simp add: usize_to_le_bytes_def)

lemma u64_from_to_le_bytes [simp]: "u64_from_le_bytes (u64_to_le_bytes w) = w"
  using unsigned_less [of w, where 'a = nat]
  by (simp add: u64_from_le_bytes_def u64_to_le_bytes_def nat_of_le_bytes_le_bytes_nat)

lemma u32_from_to_le_bytes [simp]: "u32_from_le_bytes (u32_to_le_bytes w) = w"
  using unsigned_less [of w, where 'a = nat]
  by (simp add: u32_from_le_bytes_def u32_to_le_bytes_def nat_of_le_bytes_le_bytes_nat)

lemma u64_to_from_le_bytes: "length bs = 8 \<Longrightarrow> u64_to_le_bytes (u64_from_le_bytes bs) = bs"
  using nat_of_le_bytes_bound [of bs]
  by (simp add: u64_from_le_bytes_def u64_to_le_bytes_def unat_of_nat le_bytes_nat_nat_of_le_bytes)

lemma u32_to_from_le_bytes: "length bs = 4 \<Longrightarrow> u32_to_le_bytes (u32_from_le_bytes bs) = bs"
  using nat_of_le_bytes_bound [of bs]
  by (simp add: u32_from_le_bytes_def u32_to_le_bytes_def unat_of_nat le_bytes_nat_nat_of_le_bytes)

lemma usize_to_le_bytes_inj:
  assumes "a < 2 ^ 64" and "b < 2 ^ 64" and "usize_to_le_bytes a = usize_to_le_bytes b"
  shows "a = b"
proof -
  have "nat_of_le_bytes (le_bytes_nat 8 a) = nat_of_le_bytes (le_bytes_nat 8 b)"
    using assms(3) by (simp add: usize_to_le_bytes_def)
  then have "a mod 256 ^ 8 = b mod 256 ^ 8"
    by (simp only: nat_of_le_bytes_le_bytes_nat)
  moreover have "(256 :: nat) ^ 8 = 2 ^ 64" by simp
  ultimately show ?thesis using assms(1,2) by (simp only: mod_less)
qed

text \<open>A byte-string literal \<open>b"..."\<close>.\<close>

definition byte_string :: "string \<Rightarrow> bytes" where
  "byte_string s = map of_char s"

section \<open>Slices\<close>

text \<open>\<open>xs[a..b]\<close> and \<open>out[start..start + src.len()].copy_from_slice(src)\<close>, inside the bounds.\<close>

definition slice :: "nat \<Rightarrow> nat \<Rightarrow> 'a list \<Rightarrow> 'a list" where
  "slice a b xs = take (b - a) (drop a xs)"

definition copy_into :: "nat \<Rightarrow> 'a list \<Rightarrow> 'a list \<Rightarrow> 'a list" where
  "copy_into start src out = take start out @ src @ drop (start + length src) out"

lemma length_slice [simp]: "b \<le> length xs \<Longrightarrow> length (slice a b xs) = b - a"
  by (simp add: slice_def)

lemma length_copy_into [simp]:
  "start + length src \<le> length out \<Longrightarrow> length (copy_into start src out) = length out"
  by (simp add: copy_into_def)

lemma nth_copy_into:
  assumes "start + length src \<le> length out" and "i < length out"
  shows "copy_into start src out ! i =
    (if start \<le> i \<and> i < start + length src then src ! (i - start) else out ! i)"
  using assms by (auto simp: copy_into_def nth_append min_def)

lemma nth_slice: "b \<le> length xs \<Longrightarrow> i < b - a \<Longrightarrow> slice a b xs ! i = xs ! (a + i)"
  by (simp add: slice_def)

lemma slice_copy_into_same [simp]:
  "start + length src \<le> length out \<Longrightarrow> slice start (start + length src) (copy_into start src out) = src"
  by (simp add: slice_def copy_into_def)

lemma slice_copy_into_other:
  assumes "start + length src \<le> length out" and "b \<le> length out"
    and "b \<le> start \<or> start + length src \<le> a"
  shows "slice a b (copy_into start src out) = slice a b out"
  using assms by (intro nth_equalityI) (auto simp: nth_slice nth_copy_into)

text \<open>\<open>chunks_exact(n)\<close>: the consecutive chunks of \<open>n\<close> elements; a shorter rest is dropped.\<close>

function chunks_exact :: "nat \<Rightarrow> 'a list \<Rightarrow> 'a list list" where
  "chunks_exact n xs = (if 0 < n \<and> n \<le> length xs then take n xs # chunks_exact n (drop n xs) else [])"
  by pat_completeness auto
termination
  by (relation "measure (\<lambda>(n, xs). length xs)") auto

declare chunks_exact.simps [simp del]

lemma chunks_exact_append:
  "0 < n \<Longrightarrow> length xs = n \<Longrightarrow> chunks_exact n (xs @ ys) = xs # chunks_exact n ys"
  by (subst chunks_exact.simps) simp

lemma chunks_exact_Nil [simp]: "0 < n \<Longrightarrow> chunks_exact n [] = []"
  by (subst chunks_exact.simps) simp

lemma chunks_exact_concat:
  "0 < n \<Longrightarrow> (\<And>x. x \<in> set xss \<Longrightarrow> length x = n) \<Longrightarrow> chunks_exact n (concat xss) = xss"
  by (induction xss) (auto simp: chunks_exact_append)

lemma chunks_exact_lengths: "x \<in> set (chunks_exact n xs) \<Longrightarrow> length x = n"
proof (induction n xs rule: chunks_exact.induct)
  case (1 n xs)
  then show ?case by (auto simp: chunks_exact.simps [of n xs] split: if_splits)
qed

lemma chunks_exact_mult:
  "0 < n \<Longrightarrow> length xs = k * n \<Longrightarrow>
    concat (chunks_exact n xs) = xs \<and> length (chunks_exact n xs) = k"
proof (induction k arbitrary: xs)
  case (Suc k)
  then have "length (drop n xs) = k * n" by simp
  with Suc show ?case by (subst (1 2) chunks_exact.simps) simp
qed simp

section \<open>Lists\<close>

lemma mset_eq_remove_nth:
  "i < length xs \<Longrightarrow> mset xs = add_mset (xs ! i) (mset (take i xs @ drop (Suc i) xs))"
  by (metis add_mset_commute id_take_nth_drop mset.simps(2) mset_append union_mset_add_mset_right)

lemma mset_update_nth:
  "i < length xs \<Longrightarrow> add_mset (xs ! i) (mset (xs[i := x])) = add_mset x (mset xs)"
  by (simp add: mset_update insert_DiffM2 nth_mem_mset)

lemma nth_concat_equal:
  assumes "\<And>x. x \<in> set xss \<Longrightarrow> length x = n" and "i < length xss" and "j < n"
  shows "concat xss ! (i * n + j) = xss ! i ! j"
  using assms
proof (induction xss arbitrary: i)
  case (Cons x xss)
  then show ?case by (cases i) (auto simp: nth_append add.assoc)
qed simp

lemma length_concat_equal:
  "(\<And>x. x \<in> set xss \<Longrightarrow> length x = n) \<Longrightarrow> length (concat xss) = length xss * n"
  by (induction xss) auto

lemma slice_concat:
  assumes "\<And>x. x \<in> set xs \<Longrightarrow> length x = k" and "i < length xs"
  shows "slice (i * k) (i * k + k) (concat xs) = xs ! i"
  using assms
proof (induction xs arbitrary: i)
  case (Cons x xs)
  then show ?case by (cases i) (auto simp: slice_def)
qed simp

lemma filter_positions:
  "filter P xs = map (\<lambda>i. xs ! i) (filter (\<lambda>i. P (xs ! i)) [0..<length xs])"
proof (induction xs rule: rev_induct)
  case (snoc x xs)
  have "map (\<lambda>i. (xs @ [x]) ! i) (filter (\<lambda>i. P ((xs @ [x]) ! i)) [0..<length xs]) =
      map (\<lambda>i. xs ! i) (filter (\<lambda>i. P (xs ! i)) [0..<length xs])"
    by (auto simp: nth_append intro!: map_cong filter_cong)
  with snoc show ?case by simp
qed simp

lemma length_filter_split:
  "(\<And>i. i \<in> set xs \<Longrightarrow> Q i \<Longrightarrow> P i) \<Longrightarrow>
    length (filter P xs) = length (filter Q xs) + length (filter (\<lambda>i. P i \<and> \<not> Q i) xs)"
  by (induction xs) auto

lemma filter_mset_split:
  "(\<And>x. x \<in># M \<Longrightarrow> Q x \<Longrightarrow> P x) \<Longrightarrow>
    filter_mset (\<lambda>x. P x \<and> \<not> Q x) M + filter_mset Q M = filter_mset P M"
  by (induction M) auto

end
