(* ===== verification/Oram_Params.thy ===== *)
theory Oram_Params
  imports Oram_Prelude
begin

text \<open>
  The sizing parameters of src/src/params.rs and the geometry of the bucket tree: a complete
  binary tree in heap order (root 0, children \<open>2 * i + 1\<close> and \<open>2 * i + 2\<close>), addressed by the
  root-to-leaf path of a leaf label.
\<close>

section \<open>Parameters\<close>

record oram_params =
  logical_blocks :: nat
  block_size :: nat
  bucket_size :: nat
  leaves :: nat
  stash_capacity :: nat

definition with_leaves :: "nat \<Rightarrow> nat \<Rightarrow> nat \<Rightarrow> oram_params result" where
  "with_leaves logical_blocks' block_size' leaves' =
     (if logical_blocks' = 0 then Inl (InvalidParams ''logical_blocks must be > 0'')
      else if block_size' = 0 then Inl (InvalidParams ''block_size must be > 0'')
      else if \<not> is_power_of_two leaves' \<or> leaves' < 2 then
        Inl (InvalidParams ''leaves must be a power of two >= 2'')
      else if leaves' > 2 ^ 32 - 1 then
        Inl (InvalidParams ''leaves must fit in u32 leaf labels'')
      else Inr \<lparr>logical_blocks = logical_blocks', block_size = block_size', bucket_size = 4,
                leaves = leaves', stash_capacity = 512\<rparr>)"

text \<open>
  \<open>OramParams::new\<close>: in a release build \<open>next_power_of_two\<close> wraps to 0 on overflow (a debug
  build panics), and \<open>with_leaves\<close> then rejects it.
\<close>

definition params_new :: "nat \<Rightarrow> nat \<Rightarrow> oram_params result" where
  "params_new logical_blocks' block_size' =
     (let leaves' = (case checked_next_power_of_two (max logical_blocks' 2) of
                       Some p \<Rightarrow> p | None \<Rightarrow> 0)
      in with_leaves logical_blocks' block_size' leaves')"

definition leaf_bits :: "oram_params \<Rightarrow> nat" where
  "leaf_bits p = trailing_zeros (leaves p)"

definition height :: "oram_params \<Rightarrow> nat" where
  "height p = leaf_bits p + 1"

definition with_bucket_size :: "oram_params \<Rightarrow> nat \<Rightarrow> oram_params result" where
  "with_bucket_size p z =
     (if z = 0 then Inl (InvalidParams ''bucket_size must be > 0'')
      else Inr (p\<lparr>bucket_size := z\<rparr>))"

definition with_stash_capacity :: "oram_params \<Rightarrow> nat \<Rightarrow> oram_params result" where
  "with_stash_capacity p c =
     (if c < bucket_size p * height p then
        Inl (InvalidParams ''stash_capacity should be at least bucket_size * height'')
      else Inr (p\<lparr>stash_capacity := c\<rparr>))"

definition bucket_count :: "oram_params \<Rightarrow> nat" where
  "bucket_count p = leaves p * 2 - 1"

text \<open>\<open>OramBlock::serialized_len\<close> (src/src/block.rs) is needed for \<open>bucket_bytes\<close>.\<close>

definition serialized_len :: "nat \<Rightarrow> nat" where
  "serialized_len block_size' = 1 + 8 + 4 + block_size'"

definition bucket_bytes :: "oram_params \<Rightarrow> nat" where
  "bucket_bytes p = bucket_size p * serialized_len (block_size p)"

definition node_index :: "oram_params \<Rightarrow> nat \<Rightarrow> u32 \<Rightarrow> nat" where
  "node_index p depth leaf =
     (let level_offset = 2 ^ depth - 1
      in if depth = 0 then level_offset
         else let shift = leaf_bits p - depth
              in level_offset + (drop_bit shift (unat leaf) AND (2 ^ depth - 1)))"

definition path_nodes :: "oram_params \<Rightarrow> u32 \<Rightarrow> nat list" where
  "path_nodes p leaf = map (\<lambda>depth. node_index p depth leaf) [0..<height p]"

definition node_contains_leaf :: "oram_params \<Rightarrow> nat \<Rightarrow> nat \<Rightarrow> u32 \<Rightarrow> bool" where
  "node_contains_leaf p depth node_idx leaf \<longleftrightarrow> node_index p depth leaf = node_idx"

section \<open>Well-formed parameters\<close>

text \<open>
  What every constructor of \<^typ>\<open>oram_params\<close> establishes. The last two conjuncts say that the
  vectors the controller allocates (the position map and the eviction candidates) have a length
  that a \<open>usize\<close> holds.
\<close>

definition params_ok :: "oram_params \<Rightarrow> bool" where
  "params_ok p \<longleftrightarrow>
     0 < logical_blocks p \<and> 0 < block_size p \<and> 0 < bucket_size p \<and>
     is_power_of_two (leaves p) \<and> 2 \<le> leaves p \<and> leaves p < 2 ^ 32 \<and>
     logical_blocks p < 2 ^ 64 \<and>
     stash_capacity p + height p * bucket_size p < 2 ^ 64"

lemma params_ok_pos:
  assumes "params_ok p"
  shows "0 < logical_blocks p" "0 < block_size p" "0 < bucket_size p" "0 < leaves p"
    "2 \<le> leaves p" "logical_blocks p < 2 ^ 64"
  using assms by (auto simp: params_ok_def)

lemma leaves_eq: "is_power_of_two (leaves p) \<Longrightarrow> leaves p = 2 ^ leaf_bits p"
  by (auto simp: is_power_of_two_iff leaf_bits_def)

lemma params_ok_leaves: "params_ok p \<Longrightarrow> leaves p = 2 ^ leaf_bits p"
  by (rule leaves_eq) (simp add: params_ok_def)

lemma params_ok_leaf_bits: "params_ok p \<Longrightarrow> 0 < leaf_bits p \<and> leaf_bits p < 32"
proof -
  assume ok: "params_ok p"
  have "2 \<le> (2 :: nat) ^ leaf_bits p"
    using ok params_ok_leaves [OF ok] by (simp add: params_ok_def)
  then have "leaf_bits p \<noteq> 0" by (cases "leaf_bits p") auto
  moreover have "(2 :: nat) ^ leaf_bits p < 2 ^ 32"
    using ok params_ok_leaves [OF ok] by (simp add: params_ok_def)
  ultimately show ?thesis using power_less_imp_less_exp [of 2 "leaf_bits p" 32] by simp
qed

lemma height_pos [simp]: "0 < height p"
  by (simp add: height_def)

lemma with_leaves_ok:
  assumes "with_leaves n b l = Inr p" and "n < 2 ^ 64"
  shows "params_ok p \<and> logical_blocks p = n \<and> block_size p = b \<and> leaves p = l"
proof -
  from assms have p: "p = \<lparr>logical_blocks = n, block_size = b, bucket_size = 4, leaves = l, stash_capacity = 512\<rparr>"
    and l: "is_power_of_two l" "2 \<le> l" "l < 2 ^ 32" "0 < n" "0 < b"
    by (auto simp: with_leaves_def split: if_splits)
  have "(2 :: nat) ^ leaf_bits p < 2 ^ 32"
    using l leaves_eq [of p] by (simp add: p)
  then have "leaf_bits p < 32" by (rule power_less_imp_less_exp [rotated]) simp
  with p l assms(2) show ?thesis by (simp add: params_ok_def height_def)
qed

lemma params_new_ok:
  assumes "0 < n" and "0 < b" and "n \<le> 2 ^ 31"
  shows "\<exists>p. params_new n b = Inr p \<and> params_ok p \<and> n \<le> leaves p"
proof -
  let ?l = "pow2_at_least 1 (max n 2)"
  have pow: "is_power_of_two ?l"
    by (rule pow2_at_least_power) (simp add: is_power_of_two.simps)
  have ge: "max n 2 \<le> ?l"
    using pow2_at_least_ge [of 1 "max n 2"] by simp
  have less: "?l < 2 * max n 2"
    by (rule pow2_at_least_less) auto
  from pow obtain k where k: "?l = 2 ^ k" by (auto simp: is_power_of_two_iff)
  have "(2 :: nat) ^ k < 2 ^ 32" using k less assms(3) by simp
  then have lt: "?l < 2 ^ 32" using k by simp
  have new: "params_new n b = with_leaves n b ?l"
    using lt by (simp add: params_new_def checked_next_power_of_two_def Let_def)
  have "?l \<le> 4294967295" using lt by simp
  then obtain p where "with_leaves n b ?l = Inr p"
    using assms pow ge by (simp add: with_leaves_def)
  with new ge assms with_leaves_ok [of n b ?l p] show ?thesis by auto
qed

section \<open>The bucket tree\<close>

text \<open>A root-to-descendant path of a heap-ordered tree with \<open>n\<close> nodes.\<close>

definition is_child :: "nat \<Rightarrow> nat \<Rightarrow> bool" where
  "is_child parent child \<longleftrightarrow> child = 2 * parent + 1 \<or> child = 2 * parent + 2"

definition root_path :: "nat \<Rightarrow> nat list \<Rightarrow> bool" where
  "root_path n path \<longleftrightarrow>
     path \<noteq> [] \<and> hd path = 0 \<and> successively is_child path \<and> (\<forall>i \<in> set path. i < n)"

lemma node_index_eq:
  assumes "params_ok p" and "unat leaf < leaves p" and "d < height p"
  shows "node_index p d leaf = 2 ^ d - 1 + unat leaf div 2 ^ (leaf_bits p - d)"
proof -
  have d: "d \<le> leaf_bits p" using assms(3) by (simp add: height_def)
  have "unat leaf < 2 ^ (leaf_bits p - d) * 2 ^ d"
    using assms(2) d params_ok_leaves [OF assms(1)] by (simp flip: power_add)
  then have lt: "unat leaf div 2 ^ (leaf_bits p - d) < 2 ^ d"
    by (simp add: less_mult_imp_div_less mult.commute)
  have "m AND (2 ^ d - 1) = m" if "m < 2 ^ d" for m :: nat
    using that by (metis mask_eq_exp_minus_1 take_bit_eq_mask take_bit_nat_eq_self)
  with lt show ?thesis
    using assms by (auto simp: node_index_def Let_def drop_bit_nat_def)
qed

lemma length_path_nodes [simp]: "length (path_nodes p leaf) = height p"
  by (simp add: path_nodes_def)

lemma nth_path_nodes [simp]: "d < height p \<Longrightarrow> path_nodes p leaf ! d = node_index p d leaf"
  by (simp add: path_nodes_def)

lemma node_index_bounds:
  assumes "params_ok p" and "unat leaf < leaves p" and "d < height p"
  shows "2 ^ d - 1 \<le> node_index p d leaf" and "node_index p d leaf < 2 ^ Suc d - 1"
proof -
  have d: "d \<le> leaf_bits p" using assms(3) by (simp add: height_def)
  have "unat leaf < 2 ^ (leaf_bits p - d) * 2 ^ d"
    using assms(2) d params_ok_leaves [OF assms(1)] by (simp flip: power_add)
  then have "unat leaf div 2 ^ (leaf_bits p - d) < 2 ^ d"
    by (simp add: less_mult_imp_div_less mult.commute)
  then show "2 ^ d - 1 \<le> node_index p d leaf" "node_index p d leaf < 2 ^ Suc d - 1"
    using node_index_eq [OF assms] by auto
qed

lemma node_index_less_count:
  assumes "params_ok p" and "unat leaf < leaves p" and "d < height p"
  shows "node_index p d leaf < bucket_count p"
proof -
  have "(2 :: nat) ^ Suc d \<le> 2 ^ Suc (leaf_bits p)"
    using assms(3) by (intro power_increasing) (auto simp: height_def)
  moreover have "bucket_count p = 2 ^ Suc (leaf_bits p) - 1"
    using params_ok_leaves [OF assms(1)] by (simp add: bucket_count_def)
  moreover have "node_index p d leaf < 2 ^ Suc d - 1"
    using assms by (rule node_index_bounds)
  ultimately show ?thesis by linarith
qed

lemma node_index_child:
  assumes "params_ok p" and "unat leaf < leaves p" and "Suc d < height p"
  shows "is_child (node_index p d leaf) (node_index p (Suc d) leaf)"
proof -
  have d: "Suc d \<le> leaf_bits p" using assms(3) by (simp add: height_def)
  let ?m = "leaf_bits p - Suc d"
  let ?q = "unat leaf div 2 ^ ?m"
  have e: "leaf_bits p - d = Suc ?m" using d by linarith
  have q: "unat leaf div 2 ^ (leaf_bits p - d) = ?q div 2"
    by (simp only: e power_Suc2 div_mult2_eq)
  have "node_index p d leaf = 2 ^ d - 1 + ?q div 2"
    using node_index_eq [of p leaf d] assms q by simp
  moreover have "node_index p (Suc d) leaf = 2 ^ Suc d - 1 + ?q"
    using node_index_eq [of p leaf "Suc d"] assms by simp
  moreover obtain c :: nat where "2 ^ d = Suc c" using not0_implies_Suc [of "2 ^ d"] by auto
  ultimately have "node_index p d leaf = c + ?q div 2" "node_index p (Suc d) leaf = 2 * c + 1 + ?q"
    by auto
  then show ?thesis unfolding is_child_def by (cases "even ?q") (auto elim!: evenE oddE)
qed

lemma root_path_path_nodes:
  assumes "params_ok p" and "unat leaf < leaves p"
  shows "root_path (bucket_count p) (path_nodes p leaf)"
proof -
  have "path_nodes p leaf \<noteq> []" by (simp add: path_nodes_def)
  moreover have "hd (path_nodes p leaf) = 0"
    using \<open>path_nodes p leaf \<noteq> []\<close> by (simp add: hd_conv_nth node_index_def)
  moreover have "successively is_child (path_nodes p leaf)"
    using node_index_child [OF assms] by (simp add: successively_conv_nth)
  moreover have "\<forall>i \<in> set (path_nodes p leaf). i < bucket_count p"
    using node_index_less_count [OF assms] by (auto simp: path_nodes_def)
  ultimately show ?thesis by (simp add: root_path_def)
qed

lemma node_index_depth_inj:
  assumes "params_ok p" and "unat l < leaves p" and "unat l' < leaves p"
    and "d < height p" and "d' < height p" and "node_index p d l = node_index p d' l'"
  shows "d = d'"
proof (rule ccontr)
  assume "d \<noteq> d'"
  then consider "Suc d \<le> d'" | "Suc d' \<le> d" by linarith
  then show False
  proof cases
    case 1
    then have "(2 :: nat) ^ Suc d \<le> 2 ^ d'" by (intro power_increasing) auto
    with node_index_bounds [of p l d] node_index_bounds [of p l' d'] assms show False by linarith
  next
    case 2
    then have "(2 :: nat) ^ Suc d' \<le> 2 ^ d" by (intro power_increasing) auto
    with node_index_bounds [of p l d] node_index_bounds [of p l' d'] assms show False by linarith
  qed
qed

lemma distinct_path_nodes:
  assumes "params_ok p" and "unat leaf < leaves p"
  shows "distinct (path_nodes p leaf)"
  using node_index_depth_inj [OF assms(1,2,2)] by (auto simp: distinct_conv_nth)

text \<open>Two paths that meet at a depth agree at every smaller depth.\<close>

lemma node_index_prefix:
  assumes "params_ok p" and "unat l < leaves p" and "unat l' < leaves p"
    and "d < height p" and "e \<le> d" and "node_index p d l = node_index p d l'"
  shows "node_index p e l = node_index p e l'"
proof -
  let ?b = "leaf_bits p"
  obtain c :: nat where c: "2 ^ d = Suc c" using not0_implies_Suc [of "2 ^ d"] by auto
  with assms have "unat l div 2 ^ (?b - d) = unat l' div 2 ^ (?b - d)"
    by (simp add: node_index_eq [of p l d] node_index_eq [of p l' d])
  then have "unat l div 2 ^ (?b - d) div 2 ^ (d - e) = unat l' div 2 ^ (?b - d) div 2 ^ (d - e)"
    by simp
  moreover have "?b - d + (d - e) = ?b - e"
    using assms(4,5) by (simp add: height_def)
  ultimately have "unat l div 2 ^ (?b - e) = unat l' div 2 ^ (?b - e)"
    by (simp only: flip: div_mult2_eq power_add)
  then show ?thesis using assms by (simp add: node_index_eq)
qed

text \<open>A node of the path of one leaf lies on the path of another exactly when the paths meet there.\<close>

lemma in_path_nodes_iff:
  assumes "params_ok p" and "unat l < leaves p" and "unat l' < leaves p" and "d < height p"
  shows "node_index p d l \<in> set (path_nodes p l') \<longleftrightarrow> node_contains_leaf p d (node_index p d l) l'"
proof
  assume "node_index p d l \<in> set (path_nodes p l')"
  then obtain e where "e < height p" "node_index p d l = node_index p e l'"
    by (auto simp: path_nodes_def)
  with node_index_depth_inj [OF assms(1,2,3,4)] show "node_contains_leaf p d (node_index p d l) l'"
    by (auto simp: node_contains_leaf_def)
next
  assume "node_contains_leaf p d (node_index p d l) l'"
  then show "node_index p d l \<in> set (path_nodes p l')"
    using assms(4) by (metis length_path_nodes node_contains_leaf_def nth_mem nth_path_nodes)
qed

end
