(* ===== verification/Page_Store.thy ===== *)
theory Page_Store
  imports Oram_Params
begin

text \<open>
  The page stores of src/src/store.rs. A trait is a record of operations over a state type
  (\<open>page_store\<close> for \<open>PageStore\<close>, \<open>path_page_store\<close> for \<open>PathPageStore\<close>), its default methods are
  functions of the required ones, and an \<open>impl\<close> is a value of the record; a wrapper takes the
  record of the store it wraps. The contracts the controller relies on are the locales
  \<open>page_io\<close>, \<open>page_store_spec\<close> and \<open>path_store_spec\<close>: a store holds a vector of pages, reads
  return its entries, writes replace them, and nothing else changes.

  \<open>read_page(idx, out)\<close> is modelled with \<open>out.len()\<close> as argument and the bytes left in \<open>out\<close> as
  result.
\<close>

section \<open>The traits\<close>

text \<open>Trusted state of the authenticated stores (src/src/merkle.rs, src/src/embedded_tree.rs).\<close>

record tiered_merkle_state =
  tm_store_id :: bytes
  tm_page_count :: nat
  tm_page_size :: nat
  tm_trusted_levels :: nat
  tm_hash_page_size :: nat
  tm_trusted_hashes :: "bytes list"

record embedded_tree_state =
  et_store_id :: bytes
  et_page_count :: nat
  et_logical_page_size :: nat
  et_root_hash :: bytes

record 's page_store =
  ps_page_size :: "'s \<Rightarrow> nat"
  ps_page_count :: "'s \<Rightarrow> nat"
  ps_read_page :: "nat \<Rightarrow> nat \<Rightarrow> ('s, bytes) comp"
  ps_write_page :: "nat \<Rightarrow> bytes \<Rightarrow> ('s, unit) comp"
  ps_read_pages :: "nat list \<Rightarrow> ('s, bytes list) comp"
  ps_write_pages :: "nat list \<Rightarrow> bytes list \<Rightarrow> ('s, unit) comp"
  ps_flush :: "('s, unit) comp"
  ps_tiered_merkle_state :: "'s \<Rightarrow> tiered_merkle_state option"

record 's path_page_store =
  pp_page_size :: "'s \<Rightarrow> nat"
  pp_page_count :: "'s \<Rightarrow> nat"
  pp_read_path_pages :: "nat list \<Rightarrow> ('s, bytes list) comp"
  pp_write_path_pages :: "nat list \<Rightarrow> bytes list \<Rightarrow> ('s, unit) comp"
  pp_read_paths_pages :: "nat list list \<Rightarrow> ('s, bytes list list) comp"
  pp_write_paths_pages :: "nat list list \<Rightarrow> bytes list list \<Rightarrow> ('s, unit) comp"
  pp_flush :: "('s, unit) comp"
  pp_tiered_merkle_state :: "'s \<Rightarrow> tiered_merkle_state option"
  pp_embedded_tree_state :: "'s \<Rightarrow> embedded_tree_state option"

text \<open>The default methods of \<open>PageStore\<close>.\<close>

definition default_read_pages ::
  "('s \<Rightarrow> nat) \<Rightarrow> (nat \<Rightarrow> nat \<Rightarrow> ('s, bytes) comp) \<Rightarrow> nat list \<Rightarrow> ('s, bytes list) comp" where
  "default_read_pages page_size read_page page_indices =
     bnd (gets page_size) (\<lambda>n. cmapM (\<lambda>page_idx. read_page page_idx n) page_indices)"

definition default_write_pages ::
  "('s \<Rightarrow> nat) \<Rightarrow> (nat \<Rightarrow> bytes \<Rightarrow> ('s, unit) comp) \<Rightarrow> nat list \<Rightarrow> bytes list \<Rightarrow> ('s, unit) comp" where
  "default_write_pages page_size write_page page_indices pages =
     bnd (require (length page_indices = length pages)
            (InvalidInput ''page index count {} != page count {}'')) (\<lambda>_.
     bnd (gets page_size) (\<lambda>n.
     citer (\<lambda>(page_idx, page).
        bnd (require (length page = n) (InvalidInput ''page len {} != page_size {}'')) (\<lambda>_.
        write_page page_idx page)) (zip page_indices pages)))"

text \<open>
  \<open>impl<T: PageStore> PathPageStore for T\<close>. A batch of paths is one flat batch of pages, and the
  pages read are handed back path by path.
\<close>

fun split_like :: "'b list list \<Rightarrow> 'a list \<Rightarrow> 'a list list" where
  "split_like [] xs = []"
| "split_like (p # ps) xs = take (length p) xs # split_like ps (drop (length p) xs)"

definition blanket_read_paths_pages :: "'s page_store \<Rightarrow> nat list list \<Rightarrow> ('s, bytes list list) comp" where
  "blanket_read_paths_pages ps paths =
     bnd (ps_read_pages ps (concat paths)) (\<lambda>flat_pages.
       if length flat_pages < length (concat paths) then
         fail (Panic ''flat page count matches path lengths'')
       else ret (split_like paths flat_pages))"

definition blanket_write_paths_pages ::
  "'s page_store \<Rightarrow> nat list list \<Rightarrow> bytes list list \<Rightarrow> ('s, unit) comp" where
  "blanket_write_paths_pages ps paths pages =
     bnd (require (length paths = length pages)
            (InvalidInput ''path count {} != page-path count {}'')) (\<lambda>_.
     bnd (citer (\<lambda>(path, path_pages).
            require (length path = length path_pages)
              (InvalidInput ''path length {} != page count {}'')) (zip paths pages)) (\<lambda>_.
     ps_write_pages ps (concat paths) (concat pages)))"

definition path_of_page_store :: "'s page_store \<Rightarrow> 's path_page_store" where
  "path_of_page_store ps =
     \<lparr>pp_page_size = ps_page_size ps,
      pp_page_count = ps_page_count ps,
      pp_read_path_pages = ps_read_pages ps,
      pp_write_path_pages = ps_write_pages ps,
      pp_read_paths_pages = blanket_read_paths_pages ps,
      pp_write_paths_pages = blanket_write_paths_pages ps,
      pp_flush = ps_flush ps,
      pp_tiered_merkle_state = ps_tiered_merkle_state ps,
      pp_embedded_tree_state = (\<lambda>_. None)\<rparr>"

definition check_page :: "nat \<Rightarrow> nat \<Rightarrow> nat \<Rightarrow> nat \<Rightarrow> unit result" where
  "check_page page_count page_size page_idx len =
     (if page_idx \<ge> page_count then Inl (InvalidInput ''page_idx {} out of range {}'')
      else if len \<noteq> page_size then Inl (InvalidInput ''page buffer len {} != page_size {}'')
      else Inr ())"

section \<open>MemPageStore\<close>

record mem_store =
  mem_page_size :: nat
  mem_pages :: bytes

definition mem_new :: "nat \<Rightarrow> nat \<Rightarrow> mem_store result" where
  "mem_new page_count page_size =
     (if page_count = 0 \<or> page_size = 0 then
        Inl (InvalidInput ''page_count and page_size must be > 0'')
      else Inr \<lparr>mem_page_size = page_size, mem_pages = replicate (page_count * page_size) 0\<rparr>)"

definition mem_page_count :: "mem_store \<Rightarrow> nat" where
  "mem_page_count s = length (mem_pages s) div mem_page_size s"

definition mem_read_page :: "nat \<Rightarrow> nat \<Rightarrow> (mem_store, bytes) comp" where
  "mem_read_page page_idx len =
     bnd (gets (\<lambda>s. check_page (mem_page_count s) (mem_page_size s) page_idx len)) (\<lambda>r.
     bnd (lift r) (\<lambda>_.
     gets (\<lambda>s. let start = page_idx * mem_page_size s
               in slice start (start + mem_page_size s) (mem_pages s))))"

definition mem_write_page :: "nat \<Rightarrow> bytes \<Rightarrow> (mem_store, unit) comp" where
  "mem_write_page page_idx input =
     bnd (gets (\<lambda>s. check_page (mem_page_count s) (mem_page_size s) page_idx (length input))) (\<lambda>r.
     bnd (lift r) (\<lambda>_.
     modify (\<lambda>s. s\<lparr>mem_pages := copy_into (page_idx * mem_page_size s) input (mem_pages s)\<rparr>)))"

definition mem_store_ops :: "mem_store page_store" where
  "mem_store_ops =
     \<lparr>ps_page_size = mem_page_size,
      ps_page_count = mem_page_count,
      ps_read_page = mem_read_page,
      ps_write_page = mem_write_page,
      ps_read_pages = default_read_pages mem_page_size mem_read_page,
      ps_write_pages = default_write_pages mem_page_size mem_write_page,
      ps_flush = ret (),
      ps_tiered_merkle_state = (\<lambda>_. None)\<rparr>"

section \<open>Contracts\<close>

text \<open>
  The contents of a store are a map from page indices to page bytes; an index without an entry is
  a page that cannot be read yet (an AEAD page never written). A call that succeeds keeps the
  store usable and its dimensions.
\<close>

definition kept :: "('s \<Rightarrow> bool) \<Rightarrow> ('s \<Rightarrow> nat) \<Rightarrow> ('s \<Rightarrow> nat) \<Rightarrow> 's \<Rightarrow> 's \<Rightarrow> bool" where
  "kept ok page_size page_count s s' \<longleftrightarrow>
     ok s' \<and> page_size s' = page_size s \<and> page_count s' = page_count s"

lemma kept_refl: "ok s \<Longrightarrow> kept ok page_size page_count s s"
  by (simp add: kept_def)

lemma kept_trans:
  "kept ok page_size page_count s s' \<Longrightarrow> kept ok page_size page_count s' s'' \<Longrightarrow>
    kept ok page_size page_count s s''"
  by (simp add: kept_def)

lemma keptD:
  assumes "kept ok page_size page_count s s'"
  shows "ok s'" "page_size s' = page_size s" "page_count s' = page_count s"
  using assms by (auto simp: kept_def)

locale page_io =
  fixes page_size :: "'s \<Rightarrow> nat"
    and page_count :: "'s \<Rightarrow> nat"
    and read_page :: "nat \<Rightarrow> nat \<Rightarrow> ('s, bytes) comp"
    and write_page :: "nat \<Rightarrow> bytes \<Rightarrow> ('s, unit) comp"
    and ok :: "'s \<Rightarrow> bool"
    and pages :: "'s \<Rightarrow> nat \<rightharpoonup> bytes"
  assumes page_index: "ok s \<Longrightarrow> pages s i = Some p \<Longrightarrow> i < page_count s"
    and page_length: "ok s \<Longrightarrow> pages s i = Some p \<Longrightarrow> length p = page_size s"
    and read_page: "ok s \<Longrightarrow> pages s i = Some p \<Longrightarrow>
      \<exists>s'. read_page i (page_size s) s = (Inr p, s') \<and> kept ok page_size page_count s s' \<and>
        pages s' = pages s"
    and write_page: "ok s \<Longrightarrow> i < page_count s \<Longrightarrow> length p = page_size s \<Longrightarrow>
      \<exists>s'. write_page i p s = (Inr (), s') \<and> kept ok page_size page_count s s' \<and>
        pages s' = (pages s)(i \<mapsto> p)"
begin

text \<open>The default batch methods are the single-page methods in sequence; the last write wins.\<close>

lemma cmapM_read:
  assumes "ok s" and "\<And>i. i \<in> set idxs \<Longrightarrow> pages s i = Some (f i)"
  shows "\<exists>s'. cmapM (\<lambda>i. read_page i (page_size s)) idxs s = (Inr (map f idxs), s') \<and>
    kept ok page_size page_count s s' \<and> pages s' = pages s"
  using assms
proof (induction idxs arbitrary: s)
  case Nil
  then show ?case by (simp add: comp_simps kept_refl)
next
  case (Cons i idxs)
  from Cons.prems obtain s1 where s1: "read_page i (page_size s) s = (Inr (f i), s1)"
    "kept ok page_size page_count s s1" "pages s1 = pages s"
    using read_page by (metis list.set_intros(1))
  with Cons.prems keptD [OF s1(2)] obtain s2 where
    "cmapM (\<lambda>i. read_page i (page_size s)) idxs s1 = (Inr (map f idxs), s2)"
    "kept ok page_size page_count s1 s2" "pages s2 = pages s1"
    using Cons.IH [of s1] by auto
  with s1 show ?case by (auto simp: comp_simps intro: kept_trans)
qed

lemma default_read:
  assumes "ok s" and "\<And>i. i \<in> set idxs \<Longrightarrow> pages s i = Some (f i)"
  shows "\<exists>s'. default_read_pages page_size read_page idxs s = (Inr (map f idxs), s') \<and>
    kept ok page_size page_count s s' \<and> pages s' = pages s"
  using cmapM_read [OF assms] by (simp add: default_read_pages_def comp_simps)

lemma default_write:
  assumes "ok s" and "length idxs = length pgs" and "\<And>i. i \<in> set idxs \<Longrightarrow> i < page_count s"
    and "\<And>p. p \<in> set pgs \<Longrightarrow> length p = page_size s"
  shows "\<exists>s'. default_write_pages page_size write_page idxs pgs s = (Inr (), s') \<and>
    kept ok page_size page_count s s' \<and> pages s' = (pages s)(idxs [\<mapsto>] pgs)"
proof -
  let ?w = "\<lambda>n. \<lambda>(i, p). bnd (require (length p = n) (InvalidInput ''page len {} != page_size {}''))
    (\<lambda>_. write_page i p)"
  have "\<exists>s'. citer (?w (page_size s)) (zip idxs pgs) s = (Inr (), s') \<and>
    kept ok page_size page_count s s' \<and> pages s' = (pages s)(idxs [\<mapsto>] pgs)"
    using assms(2,1,3,4)
  proof (induction idxs pgs arbitrary: s rule: list_induct2)
    case Nil
    then show ?case by (simp add: comp_simps kept_refl)
  next
    case (Cons i idxs p pgs)
    from Cons.prems obtain s1 where s1: "write_page i p s = (Inr (), s1)"
      "kept ok page_size page_count s s1" "pages s1 = (pages s)(i \<mapsto> p)"
      using write_page by (metis list.set_intros(1))
    have "\<exists>s2. citer (?w (page_size s1)) (zip idxs pgs) s1 = (Inr (), s2) \<and>
        kept ok page_size page_count s1 s2 \<and> pages s2 = (pages s1)(idxs [\<mapsto>] pgs)"
      using keptD [OF s1(2)] Cons.prems by (intro Cons.IH) auto
    then obtain s2 where s2: "citer (?w (page_size s)) (zip idxs pgs) s1 = (Inr (), s2)"
      "kept ok page_size page_count s1 s2" "pages s2 = (pages s1)(idxs [\<mapsto>] pgs)"
      using keptD [OF s1(2)] by auto
    have "citer (?w (page_size s)) (zip (i # idxs) (p # pgs)) s = (Inr (), s2)"
      using s1(1) s2(1) Cons.prems by (simp add: comp_simps)
    moreover have "pages s2 = (pages s)(i # idxs [\<mapsto>] p # pgs)"
      by (simp only: s2(3) s1(3) map_upds_Cons)
    ultimately show ?case using kept_trans [OF s1(2) s2(2)] by blast
  qed
  with assms(2) show ?thesis by (simp add: default_write_pages_def comp_simps)
qed

end

text \<open>The contract of \<open>PageStore\<close>.\<close>

locale page_store_spec =
  page_io "ps_page_size ps" "ps_page_count ps" "ps_read_page ps" "ps_write_page ps" ok pages
  for ps :: "'s page_store" and ok and pages +
  assumes read_pages: "ok s \<Longrightarrow> (\<And>i. i \<in> set idxs \<Longrightarrow> pages s i = Some (f i)) \<Longrightarrow>
      \<exists>s'. ps_read_pages ps idxs s = (Inr (map f idxs), s') \<and>
        kept ok (ps_page_size ps) (ps_page_count ps) s s' \<and> pages s' = pages s"
    and write_pages: "ok s \<Longrightarrow> length idxs = length pgs \<Longrightarrow>
      (\<And>i. i \<in> set idxs \<Longrightarrow> i < ps_page_count ps s) \<Longrightarrow>
      (\<And>p. p \<in> set pgs \<Longrightarrow> length p = ps_page_size ps s) \<Longrightarrow>
      \<exists>s'. ps_write_pages ps idxs pgs s = (Inr (), s') \<and>
        kept ok (ps_page_size ps) (ps_page_count ps) s s' \<and> pages s' = (pages s)(idxs [\<mapsto>] pgs)"
    and flush: "ok s \<Longrightarrow>
      \<exists>s'. ps_flush ps s = (Inr (), s') \<and>
        kept ok (ps_page_size ps) (ps_page_count ps) s s' \<and> pages s' = pages s"

text \<open>
  The contract of \<open>PathPageStore\<close>, which is all the controller uses: paths start at the root, and
  a batch write gives every page one value, also where paths overlap.
\<close>

definition overwrite :: "(nat \<rightharpoonup> bytes) \<Rightarrow> (nat \<Rightarrow> bytes) \<Rightarrow> nat list \<Rightarrow> nat \<rightharpoonup> bytes" where
  "overwrite m f idxs = (\<lambda>i. if i \<in> set idxs then Some (f i) else m i)"

locale path_store_spec =
  fixes pp :: "'s path_page_store"
    and ok :: "'s \<Rightarrow> bool"
    and pages :: "'s \<Rightarrow> nat \<rightharpoonup> bytes"
  assumes page_index: "ok s \<Longrightarrow> pages s i = Some p \<Longrightarrow> i < pp_page_count pp s"
    and page_length: "ok s \<Longrightarrow> pages s i = Some p \<Longrightarrow> length p = pp_page_size pp s"
    and read_path: "ok s \<Longrightarrow> root_path (pp_page_count pp s) path \<Longrightarrow>
      (\<And>i. i \<in> set path \<Longrightarrow> pages s i = Some (f i)) \<Longrightarrow>
      \<exists>s'. pp_read_path_pages pp path s = (Inr (map f path), s') \<and>
        kept ok (pp_page_size pp) (pp_page_count pp) s s' \<and> pages s' = pages s"
    and write_path: "ok s \<Longrightarrow> root_path (pp_page_count pp s) path \<Longrightarrow>
      (\<And>i. i \<in> set path \<Longrightarrow> length (f i) = pp_page_size pp s) \<Longrightarrow>
      (\<And>i. i \<in> set path \<Longrightarrow> pages s i \<noteq> None) \<Longrightarrow>
      \<exists>s'. pp_write_path_pages pp path (map f path) s = (Inr (), s') \<and>
        kept ok (pp_page_size pp) (pp_page_count pp) s s' \<and> pages s' = overwrite (pages s) f path"
    and read_paths: "ok s \<Longrightarrow> (\<And>path. path \<in> set paths \<Longrightarrow> root_path (pp_page_count pp s) path) \<Longrightarrow>
      (\<And>i. i \<in> set (concat paths) \<Longrightarrow> pages s i = Some (f i)) \<Longrightarrow>
      \<exists>s'. pp_read_paths_pages pp paths s = (Inr (map (map f) paths), s') \<and>
        kept ok (pp_page_size pp) (pp_page_count pp) s s' \<and> pages s' = pages s"
    and write_paths: "ok s \<Longrightarrow> (\<And>path. path \<in> set paths \<Longrightarrow> root_path (pp_page_count pp s) path) \<Longrightarrow>
      (\<And>i. i \<in> set (concat paths) \<Longrightarrow> length (f i) = pp_page_size pp s) \<Longrightarrow>
      (\<And>i. i \<in> set (concat paths) \<Longrightarrow> pages s i \<noteq> None) \<Longrightarrow>
      \<exists>s'. pp_write_paths_pages pp paths (map (map f) paths) s = (Inr (), s') \<and>
        kept ok (pp_page_size pp) (pp_page_count pp) s s' \<and>
        pages s' = overwrite (pages s) f (concat paths)"
    and flush_paths: "ok s \<Longrightarrow>
      \<exists>s'. pp_flush pp s = (Inr (), s') \<and>
        kept ok (pp_page_size pp) (pp_page_count pp) s s' \<and> pages s' = pages s"

lemma map_upds_map: "m(idxs [\<mapsto>] map f idxs) = overwrite m f idxs"
  by (induction idxs arbitrary: m) (auto simp: overwrite_def fun_eq_iff)

lemma split_like_map: "split_like paths (map f (concat paths)) = map (map f) paths"
  by (induction paths) auto

text \<open>Every page store is a path store (the blanket implementation).\<close>

sublocale page_store_spec \<subseteq> blanket: path_store_spec "path_of_page_store ps" ok pages
proof unfold_locales
  fix s i p
  assume "ok s" "pages s i = Some p"
  then show "i < pp_page_count (path_of_page_store ps) s"
    "length p = pp_page_size (path_of_page_store ps) s"
    by (simp_all add: path_of_page_store_def page_index page_length)
next
  fix s path and f :: "nat \<Rightarrow> bytes"
  assume "ok s" "\<And>i. i \<in> set path \<Longrightarrow> pages s i = Some (f i)"
  then show "\<exists>s'. pp_read_path_pages (path_of_page_store ps) path s = (Inr (map f path), s') \<and>
      kept ok (pp_page_size (path_of_page_store ps)) (pp_page_count (path_of_page_store ps)) s s' \<and>
      pages s' = pages s"
    by (simp add: path_of_page_store_def read_pages)
next
  fix s path and f :: "nat \<Rightarrow> bytes"
  assume "ok s" "root_path (pp_page_count (path_of_page_store ps) s) path"
    "\<And>i. i \<in> set path \<Longrightarrow> length (f i) = pp_page_size (path_of_page_store ps) s"
  then show "\<exists>s'. pp_write_path_pages (path_of_page_store ps) path (map f path) s = (Inr (), s') \<and>
      kept ok (pp_page_size (path_of_page_store ps)) (pp_page_count (path_of_page_store ps)) s s' \<and>
      pages s' = overwrite (pages s) f path"
    using write_pages [of s path "map f path"]
    by (auto simp: path_of_page_store_def root_path_def map_upds_map)
next
  fix s paths and f :: "nat \<Rightarrow> bytes"
  assume "ok s" "\<And>i. i \<in> set (concat paths) \<Longrightarrow> pages s i = Some (f i)"
  then obtain s' where "ps_read_pages ps (concat paths) s = (Inr (map f (concat paths)), s')"
    "kept ok (ps_page_size ps) (ps_page_count ps) s s'" "pages s' = pages s"
    using read_pages by metis
  then show "\<exists>s'. pp_read_paths_pages (path_of_page_store ps) paths s = (Inr (map (map f) paths), s') \<and>
      kept ok (pp_page_size (path_of_page_store ps)) (pp_page_count (path_of_page_store ps)) s s' \<and>
      pages s' = pages s"
    by (simp add: path_of_page_store_def blanket_read_paths_pages_def comp_simps split_like_map)
next
  fix s paths and f :: "nat \<Rightarrow> bytes"
  assume *: "ok s" "\<And>path. path \<in> set paths \<Longrightarrow> root_path (pp_page_count (path_of_page_store ps) s) path"
    "\<And>i. i \<in> set (concat paths) \<Longrightarrow> length (f i) = pp_page_size (path_of_page_store ps) s"
  have "citer (\<lambda>(path, path_pages). require (length path = length path_pages)
      (InvalidInput ''path length {} != page count {}'')) (zip paths (map (map f) paths)) s = (Inr (), s)"
    by (induction paths) (auto simp: comp_simps)
  moreover have "\<exists>s'. ps_write_pages ps (concat paths) (map f (concat paths)) s = (Inr (), s') \<and>
      kept ok (ps_page_size ps) (ps_page_count ps) s s' \<and>
      pages s' = (pages s)(concat paths [\<mapsto>] map f (concat paths))"
    using * by (intro write_pages) (auto simp: path_of_page_store_def root_path_def)
  ultimately show "\<exists>s'. pp_write_paths_pages (path_of_page_store ps) paths (map (map f) paths) s = (Inr (), s') \<and>
      kept ok (pp_page_size (path_of_page_store ps)) (pp_page_count (path_of_page_store ps)) s s' \<and>
      pages s' = overwrite (pages s) f (concat paths)"
    by (auto simp: path_of_page_store_def blanket_write_paths_pages_def comp_simps map_upds_map
        simp flip: map_concat)
next
  fix s
  assume "ok s"
  then show "\<exists>s'. pp_flush (path_of_page_store ps) s = (Inr (), s') \<and>
      kept ok (pp_page_size (path_of_page_store ps)) (pp_page_count (path_of_page_store ps)) s s' \<and>
      pages s' = pages s"
    by (simp add: path_of_page_store_def flush)
qed

section \<open>MemPageStore meets the contract\<close>

definition mem_ok :: "mem_store \<Rightarrow> bool" where
  "mem_ok s \<longleftrightarrow> 0 < mem_page_size s \<and> length (mem_pages s) = mem_page_count s * mem_page_size s"

definition mem_contents :: "mem_store \<Rightarrow> nat \<rightharpoonup> bytes" where
  "mem_contents s i =
     (if i < mem_page_count s
      then Some (slice (i * mem_page_size s) (i * mem_page_size s + mem_page_size s) (mem_pages s))
      else None)"

lemma page_range_bound: "i < n \<Longrightarrow> i * k + k \<le> n * (k :: nat)"
  by (metis Suc_leI add.commute mult_Suc mult_le_mono1)

lemma page_range_disjoint:
  fixes i j k :: nat
  shows "i \<noteq> j \<Longrightarrow> i * k + k \<le> j * k \<or> j * k + k \<le> i * k"
  using page_range_bound [of i j k] page_range_bound [of j i k] by linarith

lemma mem_read_page_eq:
  "mem_ok s \<Longrightarrow> mem_contents s i = Some p \<Longrightarrow> mem_read_page i (mem_page_size s) s = (Inr p, s)"
  by (auto simp: mem_read_page_def comp_simps check_page_def mem_contents_def Let_def split: if_splits)

lemma mem_write_page_eq:
  assumes "mem_ok s" and "i < mem_page_count s" and "length p = mem_page_size s"
  shows "\<exists>s'. mem_write_page i p s = (Inr (), s') \<and>
    kept mem_ok mem_page_size mem_page_count s s' \<and> mem_contents s' = (mem_contents s)(i \<mapsto> p)"
proof -
  let ?k = "mem_page_size s"
  let ?s' = "s\<lparr>mem_pages := copy_into (i * ?k) p (mem_pages s)\<rparr>"
  have len: "length (mem_pages s) = mem_page_count s * ?k"
    using assms(1) by (simp add: mem_ok_def)
  have fits: "i * ?k + length p \<le> length (mem_pages s)"
    using page_range_bound [OF assms(2), of ?k] len assms(3) by simp
  have cnt: "mem_page_count ?s' = mem_page_count s"
    using fits by (simp add: mem_page_count_def)
  have "mem_contents ?s' j = ((mem_contents s)(i \<mapsto> p)) j" for j
  proof (cases "j = i \<or> \<not> j < mem_page_count s")
    case True
    then show ?thesis using cnt fits assms(2,3)
      using slice_copy_into_same [OF fits] by (auto simp: mem_contents_def)
  next
    case False
    then show ?thesis
      using cnt slice_copy_into_other [OF fits, of "j * ?k + ?k" "j * ?k"]
        page_range_disjoint [of j i ?k] page_range_bound [of j "mem_page_count s" ?k] len assms(3)
      by (auto simp: mem_contents_def)
  qed
  then have "mem_contents ?s' = (mem_contents s)(i \<mapsto> p)" by blast
  moreover have "mem_ok ?s'" using assms(1) cnt fits by (simp add: mem_ok_def)
  ultimately show ?thesis
    using assms(2,3) cnt by (simp add: mem_write_page_def comp_simps check_page_def kept_def)
qed

interpretation mem_io: page_io mem_page_size mem_page_count mem_read_page mem_write_page
  mem_ok mem_contents
proof unfold_locales
  fix s i p
  assume s: "mem_ok s" "mem_contents s i = Some p"
  then show i: "i < mem_page_count s" by (auto simp: mem_contents_def split: if_splits)
  show "length p = mem_page_size s"
    using s page_range_bound [OF i, of "mem_page_size s"]
    by (auto simp: mem_contents_def mem_ok_def split: if_splits)
  show "\<exists>s'. mem_read_page i (mem_page_size s) s = (Inr p, s') \<and>
      kept mem_ok mem_page_size mem_page_count s s' \<and> mem_contents s' = mem_contents s"
    using mem_read_page_eq [OF s] s(1) by (simp add: kept_refl)
qed (rule mem_write_page_eq)

interpretation mem: page_store_spec mem_store_ops mem_ok mem_contents
proof unfold_locales
  show "\<exists>s'. ps_flush mem_store_ops s = (Inr (), s') \<and>
      kept mem_ok (ps_page_size mem_store_ops) (ps_page_count mem_store_ops) s s' \<and>
      mem_contents s' = mem_contents s" if "mem_ok s" for s
    using that by (simp add: mem_store_ops_def comp_simps kept_refl)
qed (simp_all add: mem_store_ops_def mem_io.page_index mem_io.page_length mem_io.read_page
    mem_io.write_page mem_io.default_read mem_io.default_write)

lemma mem_new_ok:
  assumes "mem_new n k = Inr s"
  shows "mem_ok s \<and> mem_page_size s = k \<and> mem_page_count s = n \<and>
    (\<forall>i < n. mem_contents s i = Some (replicate k 0))"
proof -
  from assms have k: "0 < k" and s: "mem_page_size s = k" "mem_pages s = replicate (n * k) 0"
    by (auto simp: mem_new_def split: if_splits)
  have "slice (i * k) (i * k + k) (replicate (n * k) (0 :: u8)) = replicate k 0" if "i < n" for i
    using page_range_bound [OF that, of k] by (simp add: slice_def)
  with k s show ?thesis by (simp add: mem_ok_def mem_page_count_def mem_contents_def)
qed

end
