(* ===== verification/Store_Wrappers.thy ===== *)
theory Store_Wrappers
  imports Page_Store
begin

text \<open>
  The transparent wrappers of src/src/store.rs: \<open>FrontCachedPageStore\<close>, which keeps a prefix of
  the pages in trusted memory until \<open>flush\<close>, and \<open>TracingStore\<close>, which logs the page indices the
  storage observes. Both meet the page-store contract over any store that does.
\<close>

section \<open>FrontCachedPageStore\<close>

record 's front_cached =
  fc_inner :: 's
  fc_cached_pages :: nat
  fc_page_size :: nat
  fc_cached :: bytes
  fc_dirty :: "bool list"

abbreviation fc_zoom :: "('s, 'a) comp \<Rightarrow> ('s front_cached, 'a) comp" where
  "fc_zoom \<equiv> zoom fc_inner (\<lambda>t s. s\<lparr>fc_inner := t\<rparr>)"

text \<open>\<open>FrontCachedPageStore::new\<close> consumes the inner store and reads the cached prefix.\<close>

definition fc_new :: "'s page_store \<Rightarrow> 's \<Rightarrow> nat \<Rightarrow> 's front_cached result" where
  "fc_new ps inner cached_pages =
     (if cached_pages > ps_page_count ps inner then
        Inl (InvalidInput ''cached_pages {} > page_count {}'')
      else
        let page_size = ps_page_size ps inner
        in case cmapM (\<lambda>page_idx. ps_read_page ps page_idx page_size) [0..<cached_pages] inner of
             (Inl e, _) \<Rightarrow> Inl e
           | (Inr pages, inner') \<Rightarrow>
               Inr \<lparr>fc_inner = inner', fc_cached_pages = cached_pages, fc_page_size = page_size,
                    fc_cached = concat pages, fc_dirty = replicate cached_pages False\<rparr>)"

definition fc_new_zeroed :: "'s page_store \<Rightarrow> 's \<Rightarrow> nat \<Rightarrow> 's front_cached result" where
  "fc_new_zeroed ps inner cached_pages =
     (if cached_pages > ps_page_count ps inner then
        Inl (InvalidInput ''cached_pages {} > page_count {}'')
      else
        let page_size = ps_page_size ps inner
        in Inr \<lparr>fc_inner = inner, fc_cached_pages = cached_pages, fc_page_size = page_size,
                fc_cached = replicate (cached_pages * page_size) 0,
                fc_dirty = replicate cached_pages False\<rparr>)"

definition fc_page_count :: "'s page_store \<Rightarrow> 's front_cached \<Rightarrow> nat" where
  "fc_page_count ps s = ps_page_count ps (fc_inner s)"

text \<open>The cached copy of a page (\<open>self.cached[self.cached_range(page_idx)]\<close>) and its update.\<close>

definition fc_cached_page :: "'s front_cached \<Rightarrow> nat \<Rightarrow> bytes" where
  "fc_cached_page s page_idx =
     (let start = page_idx * fc_page_size s in slice start (start + fc_page_size s) (fc_cached s))"

definition fc_put :: "nat \<Rightarrow> bytes \<Rightarrow> 's front_cached \<Rightarrow> 's front_cached" where
  "fc_put page_idx input s =
     s\<lparr>fc_cached := copy_into (page_idx * fc_page_size s) input (fc_cached s),
       fc_dirty := (fc_dirty s)[page_idx := True]\<rparr>"

definition fc_read_page :: "'s page_store \<Rightarrow> nat \<Rightarrow> nat \<Rightarrow> ('s front_cached, bytes) comp" where
  "fc_read_page ps page_idx len =
     bnd (gets (\<lambda>s. check_page (fc_page_count ps s) (fc_page_size s) page_idx len)) (\<lambda>r.
     bnd (lift r) (\<lambda>_.
     bnd (gets fc_cached_pages) (\<lambda>n.
     if page_idx < n then gets (\<lambda>s. fc_cached_page s page_idx)
     else fc_zoom (ps_read_page ps page_idx len))))"

definition fc_write_page :: "'s page_store \<Rightarrow> nat \<Rightarrow> bytes \<Rightarrow> ('s front_cached, unit) comp" where
  "fc_write_page ps page_idx input =
     bnd (gets (\<lambda>s. check_page (fc_page_count ps s) (fc_page_size s) page_idx (length input))) (\<lambda>r.
     bnd (lift r) (\<lambda>_.
     bnd (gets fc_cached_pages) (\<lambda>n.
     if page_idx < n then modify (fc_put page_idx input)
     else fc_zoom (ps_write_page ps page_idx input))))"

text \<open>
  The first loop of \<open>read_pages\<close> checks every index and fills the cached positions; the uncached
  ones are read in one inner batch, in order, and put back at their positions.
\<close>

definition fc_read_pages :: "'s page_store \<Rightarrow> nat list \<Rightarrow> ('s front_cached, bytes list) comp" where
  "fc_read_pages ps page_indices =
     bnd (gets (fc_page_count ps)) (\<lambda>page_count.
     bnd (citer (\<lambda>page_idx. require (page_idx < page_count)
            (InvalidInput ''page_idx {} out of range {}'')) page_indices) (\<lambda>_.
     bnd (gets (\<lambda>s. map (\<lambda>page_idx. if page_idx < fc_cached_pages s then fc_cached_page s page_idx
                                else replicate (fc_page_size s) 0) page_indices)) (\<lambda>pages.
     bnd (gets fc_cached_pages) (\<lambda>n.
       let inner_positions = filter (\<lambda>pos. n \<le> page_indices ! pos) [0..<length page_indices];
           inner_indices = filter (\<lambda>page_idx. n \<le> page_idx) page_indices
       in if inner_indices = [] then ret pages
          else bnd (fc_zoom (ps_read_pages ps inner_indices)) (\<lambda>inner_pages.
               ret (fold (\<lambda>(pos, page) pages. pages[pos := page])
                      (zip inner_positions inner_pages) pages))))))"

text \<open>
  The loop of \<open>write_pages\<close>: each page is checked in turn, then cached or queued for the inner
  batch. A check that fails leaves the pages cached so far in the cache.
\<close>

fun fc_write_loop ::
  "nat \<Rightarrow> (nat \<times> bytes) list \<Rightarrow> (nat \<times> bytes) list \<Rightarrow> ('s front_cached, (nat \<times> bytes) list) comp" where
  "fc_write_loop page_count [] inner = ret inner"
| "fc_write_loop page_count ((page_idx, page) # rest) inner =
     bnd (require (page_idx < page_count) (InvalidInput ''page_idx {} out of range {}'')) (\<lambda>_.
     bnd (gets (\<lambda>s. length page = fc_page_size s)) (\<lambda>fits.
     bnd (require fits (InvalidInput ''page len {} != page_size {}'')) (\<lambda>_.
     bnd (gets fc_cached_pages) (\<lambda>n.
     if page_idx < n then
       bnd (modify (fc_put page_idx page)) (\<lambda>_. fc_write_loop page_count rest inner)
     else fc_write_loop page_count rest (inner @ [(page_idx, page)])))))"

definition fc_write_pages :: "'s page_store \<Rightarrow> nat list \<Rightarrow> bytes list \<Rightarrow> ('s front_cached, unit) comp" where
  "fc_write_pages ps page_indices pages =
     bnd (require (length page_indices = length pages)
            (InvalidInput ''page index count {} != page count {}'')) (\<lambda>_.
     bnd (gets (fc_page_count ps)) (\<lambda>page_count.
     bnd (fc_write_loop page_count (zip page_indices pages) []) (\<lambda>inner.
     if inner = [] then ret ()
     else fc_zoom (ps_write_pages ps (map fst inner) (map snd inner)))))"

text \<open>The loop of \<open>flush\<close> writes back a dirty page and marks it clean.\<close>

definition fc_flush_page :: "'s page_store \<Rightarrow> nat \<Rightarrow> ('s front_cached, unit) comp" where
  "fc_flush_page ps page_idx =
     bnd (gets (\<lambda>s. fc_dirty s ! page_idx)) (\<lambda>d.
     if d then
       bnd (gets (\<lambda>s. fc_cached_page s page_idx)) (\<lambda>page.
       bnd (fc_zoom (ps_write_page ps page_idx page)) (\<lambda>_.
       modify (\<lambda>s. s\<lparr>fc_dirty := (fc_dirty s)[page_idx := False]\<rparr>)))
     else ret ())"

definition fc_flush :: "'s page_store \<Rightarrow> ('s front_cached, unit) comp" where
  "fc_flush ps =
     bnd (gets fc_cached_pages) (\<lambda>n.
     bnd (citer (fc_flush_page ps) [0..<n]) (\<lambda>_.
     fc_zoom (ps_flush ps)))"

definition front_cached_ops :: "'s page_store \<Rightarrow> 's front_cached page_store" where
  "front_cached_ops ps =
     \<lparr>ps_page_size = fc_page_size,
      ps_page_count = fc_page_count ps,
      ps_read_page = fc_read_page ps,
      ps_write_page = fc_write_page ps,
      ps_read_pages = fc_read_pages ps,
      ps_write_pages = fc_write_pages ps,
      ps_flush = fc_flush ps,
      ps_tiered_merkle_state = (\<lambda>_. None)\<rparr>"

section \<open>TracingStore\<close>

datatype trace_event = ReadEv nat | WriteEv nat

record 's tracing =
  tr_inner :: 's
  tr_trace :: "trace_event list"

abbreviation tr_zoom :: "('s, 'a) comp \<Rightarrow> ('s tracing, 'a) comp" where
  "tr_zoom \<equiv> zoom tr_inner (\<lambda>t s. s\<lparr>tr_inner := t\<rparr>)"

definition tracing_new :: "'s \<Rightarrow> 's tracing" where
  "tracing_new inner = \<lparr>tr_inner = inner, tr_trace = []\<rparr>"

definition take_trace :: "('s tracing, trace_event list) comp" where
  "take_trace = bnd (gets tr_trace) (\<lambda>t. bnd (modify (\<lambda>s. s\<lparr>tr_trace := []\<rparr>)) (\<lambda>_. ret t))"

definition tr_log :: "trace_event \<Rightarrow> ('s tracing, unit) comp" where
  "tr_log e = modify (\<lambda>s. s\<lparr>tr_trace := tr_trace s @ [e]\<rparr>)"

definition tr_read_page :: "'s page_store \<Rightarrow> nat \<Rightarrow> nat \<Rightarrow> ('s tracing, bytes) comp" where
  "tr_read_page ps page_idx len =
     bnd (tr_log (ReadEv page_idx)) (\<lambda>_. tr_zoom (ps_read_page ps page_idx len))"

definition tr_write_page :: "'s page_store \<Rightarrow> nat \<Rightarrow> bytes \<Rightarrow> ('s tracing, unit) comp" where
  "tr_write_page ps page_idx input =
     bnd (tr_log (WriteEv page_idx)) (\<lambda>_. tr_zoom (ps_write_page ps page_idx input))"

definition tracing_ops :: "'s page_store \<Rightarrow> 's tracing page_store" where
  "tracing_ops ps =
     \<lparr>ps_page_size = ps_page_size ps \<circ> tr_inner,
      ps_page_count = ps_page_count ps \<circ> tr_inner,
      ps_read_page = tr_read_page ps,
      ps_write_page = tr_write_page ps,
      ps_read_pages = default_read_pages (ps_page_size ps \<circ> tr_inner) (tr_read_page ps),
      ps_write_pages = default_write_pages (ps_page_size ps \<circ> tr_inner) (tr_write_page ps),
      ps_flush = tr_zoom (ps_flush ps),
      ps_tiered_merkle_state = (\<lambda>_. None)\<rparr>"

section \<open>FrontCachedPageStore meets the contract\<close>

lemma nth_fold_update:
  "i < length xs \<Longrightarrow>
    fold (\<lambda>(pos, x) xs. xs[pos := x]) (zip ps (map g ps)) xs ! i = (if i \<in> set ps then g i else xs ! i)"
  by (induction ps arbitrary: xs) (auto simp: nth_list_update)

lemma length_fold_update [simp]:
  "length (fold (\<lambda>(pos, x) xs. xs[pos := x]) l xs) = length xs"
  by (induction l arbitrary: xs) (auto split: prod.split)

text \<open>A sequence of page updates restricted to the indices that satisfy a predicate.\<close>

lemma map_upds_filter:
  assumes "P i" and "m i = m' i"
  shows "(m(map fst l [\<mapsto>] map snd l)) i =
    (m'(map fst (filter (P \<circ> fst) l) [\<mapsto>] map snd (filter (P \<circ> fst) l))) i"
  using assms(2)
proof (induction l arbitrary: m m')
  case (Cons x l)
  have "(m(fst x \<mapsto> snd x)) i = (if P (fst x) then m'(fst x \<mapsto> snd x) else m') i"
    using assms(1) Cons.prems by auto
  then show ?case
    using Cons.IH [of "m(fst x \<mapsto> snd x)" "if P (fst x) then m'(fst x \<mapsto> snd x) else m'"]
    by (cases "P (fst x)") (simp_all del: fun_upd_apply)
qed simp

lemma map_upds_filter_other:
  assumes "\<not> P i"
  shows "(m(map fst (filter (P \<circ> fst) l) [\<mapsto>] map snd (filter (P \<circ> fst) l))) i = m i"
  using assms by (intro map_upds_apply_nontin) auto

definition fc_ok :: "'s page_store \<Rightarrow> ('s \<Rightarrow> bool) \<Rightarrow> 's front_cached \<Rightarrow> bool" where
  "fc_ok ps ok s \<longleftrightarrow>
     ok (fc_inner s) \<and> fc_page_size s = ps_page_size ps (fc_inner s) \<and>
     fc_cached_pages s \<le> ps_page_count ps (fc_inner s) \<and>
     length (fc_cached s) = fc_cached_pages s * fc_page_size s \<and>
     length (fc_dirty s) = fc_cached_pages s"

definition fc_contents :: "('s \<Rightarrow> nat \<rightharpoonup> bytes) \<Rightarrow> 's front_cached \<Rightarrow> nat \<rightharpoonup> bytes" where
  "fc_contents pages s i =
     (if i < fc_cached_pages s then Some (fc_cached_page s i) else pages (fc_inner s) i)"

text \<open>Every clean cached page agrees with the wrapped store.\<close>

definition fc_coherent :: "('s \<Rightarrow> nat \<rightharpoonup> bytes) \<Rightarrow> 's front_cached \<Rightarrow> bool" where
  "fc_coherent pages s \<longleftrightarrow>
     (\<forall>i < fc_cached_pages s. \<not> fc_dirty s ! i \<longrightarrow> pages (fc_inner s) i = Some (fc_cached_page s i))"

lemma fc_put_simps [simp]:
  "fc_inner (fc_put i p s) = fc_inner s" "fc_page_size (fc_put i p s) = fc_page_size s"
  "fc_cached_pages (fc_put i p s) = fc_cached_pages s"
  "fc_dirty (fc_put i p s) = (fc_dirty s)[i := True]"
  by (simp_all add: fc_put_def)

lemma fc_cached_page_put:
  assumes "fc_ok ps ok s" and "i < fc_cached_pages s" and "j < fc_cached_pages s"
    and "length p = fc_page_size s"
  shows "fc_cached_page (fc_put i p s) j = (if j = i then p else fc_cached_page s j)"
proof -
  let ?k = "fc_page_size s"
  have len: "length (fc_cached s) = fc_cached_pages s * ?k"
    using assms(1) by (simp add: fc_ok_def)
  have fits: "i * ?k + length p \<le> length (fc_cached s)"
    using page_range_bound [OF assms(2), of ?k] len assms(4) by simp
  show ?thesis
    using slice_copy_into_same [OF fits] slice_copy_into_other [OF fits, of "j * ?k + ?k" "j * ?k"]
      page_range_disjoint [of j i ?k] page_range_bound [OF assms(3), of ?k] len assms(4)
    by (auto simp: fc_cached_page_def fc_put_def Let_def)
qed

lemma fc_put_ok:
  assumes "fc_ok ps ok s" and "i < fc_cached_pages s" and "length p = fc_page_size s"
  shows "fc_ok ps ok (fc_put i p s)" and "fc_contents pages (fc_put i p s) = (fc_contents pages s)(i \<mapsto> p)"
    and "fc_coherent pages s \<Longrightarrow> fc_coherent pages (fc_put i p s)"
proof -
  show "fc_ok ps ok (fc_put i p s)"
    using assms page_range_bound [OF assms(2), of "fc_page_size s"]
    by (auto simp: fc_ok_def fc_put_def)
  show "fc_contents pages (fc_put i p s) = (fc_contents pages s)(i \<mapsto> p)"
    using assms(2) fc_cached_page_put [OF assms(1,2) _ assms(3)]
    by (auto simp: fc_contents_def fun_eq_iff)
  show "fc_coherent pages s \<Longrightarrow> fc_coherent pages (fc_put i p s)"
    using assms(1,2) fc_cached_page_put [OF assms(1,2) _ assms(3)]
    by (auto simp: fc_coherent_def nth_list_update fc_ok_def)
qed

text \<open>Replacing the wrapped store by one with the same dimensions keeps the wrapper usable.\<close>

lemma fc_inner_kept:
  assumes "fc_ok ps ok s" and "kept ok (ps_page_size ps) (ps_page_count ps) (fc_inner s) t"
  shows "kept (fc_ok ps ok) fc_page_size (fc_page_count ps) s (s\<lparr>fc_inner := t\<rparr>)"
  using assms by (auto simp: kept_def fc_ok_def fc_page_count_def)

lemma fc_cached_page_inner [simp]:
  "fc_cached_page (s\<lparr>fc_inner := t\<rparr>) i = fc_cached_page s i"
  "fc_cached_page (s\<lparr>fc_dirty := d\<rparr>) i = fc_cached_page s i"
  by (simp_all add: fc_cached_page_def)

lemma fc_contents_inner:
  "fc_contents pages (s\<lparr>fc_inner := t\<rparr>) i =
    (if i < fc_cached_pages s then fc_contents pages s i else pages t i)"
  by (simp add: fc_contents_def)

lemma length_fc_cached_page:
  "fc_ok ps ok s \<Longrightarrow> i < fc_cached_pages s \<Longrightarrow> length (fc_cached_page s i) = fc_page_size s"
  using page_range_bound [of i "fc_cached_pages s" "fc_page_size s"]
  by (simp add: fc_cached_page_def Let_def fc_ok_def)

context page_store_spec
begin

lemma fc_contents_Some:
  assumes "fc_ok ps ok s" and "fc_contents pages s i = Some p"
  shows "length p = fc_page_size s" and "i < fc_page_count ps s"
  using assms length_fc_cached_page [OF assms(1), of i] page_index [of "fc_inner s" i p]
    page_length [of "fc_inner s" i p]
  by (auto simp: fc_contents_def fc_ok_def fc_page_count_def split: if_splits)

lemma fc_read_page:
  assumes "fc_ok ps ok s" and "fc_contents pages s i = Some p"
  shows "\<exists>s'. fc_read_page ps i (fc_page_size s) s = (Inr p, s') \<and>
    kept (fc_ok ps ok) fc_page_size (fc_page_count ps) s s' \<and> fc_contents pages s' = fc_contents pages s \<and>
    (fc_coherent pages s \<longrightarrow> fc_coherent pages s')"
proof (cases "i < fc_cached_pages s")
  case True
  then show ?thesis using assms fc_contents_Some [OF assms]
    by (auto simp: fc_read_page_def comp_simps check_page_def fc_contents_def kept_refl)
next
  case False
  then obtain t where t: "ps_read_page ps i (fc_page_size s) (fc_inner s) = (Inr p, t)"
    "kept ok (ps_page_size ps) (ps_page_count ps) (fc_inner s) t" "pages t = pages (fc_inner s)"
    using assms read_page [of "fc_inner s" i p] by (auto simp: fc_contents_def fc_ok_def)
  with False show ?thesis
    using fc_contents_Some [OF assms] fc_inner_kept [OF assms(1) t(2)]
    by (auto simp: fc_read_page_def comp_simps check_page_def fc_contents_inner fun_eq_iff fc_coherent_def)
      (auto simp: fc_contents_def)
qed

lemma fc_write_page:
  assumes "fc_ok ps ok s" and "i < fc_page_count ps s" and "length p = fc_page_size s"
  shows "\<exists>s'. fc_write_page ps i p s = (Inr (), s') \<and>
    kept (fc_ok ps ok) fc_page_size (fc_page_count ps) s s' \<and>
    fc_contents pages s' = (fc_contents pages s)(i \<mapsto> p) \<and>
    (fc_coherent pages s \<longrightarrow> fc_coherent pages s')"
proof (cases "i < fc_cached_pages s")
  case True
  then show ?thesis using assms fc_put_ok [OF assms(1) True assms(3)]
    by (simp add: fc_write_page_def comp_simps check_page_def kept_def fc_page_count_def)
next
  case False
  then obtain t where t: "ps_write_page ps i p (fc_inner s) = (Inr (), t)"
    "kept ok (ps_page_size ps) (ps_page_count ps) (fc_inner s) t" "pages t = (pages (fc_inner s))(i \<mapsto> p)"
    using assms write_page [of "fc_inner s" i p] by (auto simp: fc_ok_def fc_page_count_def)
  with False show ?thesis
    using assms fc_inner_kept [OF assms(1) t(2)]
    by (auto simp: fc_write_page_def comp_simps check_page_def fc_contents_inner fun_eq_iff fc_coherent_def)
      (auto simp: fc_contents_def)
qed

lemma fc_read_pages:
  assumes "fc_ok ps ok s" and "\<And>i. i \<in> set idxs \<Longrightarrow> fc_contents pages s i = Some (f i)"
  shows "\<exists>s'. fc_read_pages ps idxs s = (Inr (map f idxs), s') \<and>
    kept (fc_ok ps ok) fc_page_size (fc_page_count ps) s s' \<and> fc_contents pages s' = fc_contents pages s \<and>
    (fc_coherent pages s \<longrightarrow> fc_coherent pages s')"
proof -
  let ?n = "fc_cached_pages s" and ?inner = "filter (\<lambda>i. fc_cached_pages s \<le> i) idxs"
  let ?pos = "filter (\<lambda>pos. ?n \<le> idxs ! pos) [0..<length idxs]"
  let ?pages = "map (\<lambda>i. if i < ?n then fc_cached_page s i else replicate (fc_page_size s) 0) idxs"
  have cached: "fc_cached_page s i = f i" if "i \<in> set idxs" "i < ?n" for i
    using assms(2) [OF that(1)] that(2) by (simp add: fc_contents_def)
  have chk: "citer (\<lambda>i. require (i < fc_page_count ps s) (InvalidInput ''page_idx {} out of range {}'')) idxs s
      = (Inr (), s)"
    using fc_contents_Some(2) [OF assms(1) assms(2)] by (rule citer_require_all)
  have "\<exists>t. ps_read_pages ps ?inner (fc_inner s) = (Inr (map f ?inner), t) \<and>
      kept ok (ps_page_size ps) (ps_page_count ps) (fc_inner s) t \<and> pages t = pages (fc_inner s)"
    using assms(1) by (intro read_pages) (auto simp: fc_ok_def dest: assms(2) simp: fc_contents_def)
  then obtain t where t: "ps_read_pages ps ?inner (fc_inner s) = (Inr (map f ?inner), t)"
    "kept ok (ps_page_size ps) (ps_page_count ps) (fc_inner s) t" "pages t = pages (fc_inner s)" by blast
  have inner: "map f ?inner = map (\<lambda>pos. f (idxs ! pos)) ?pos"
    by (subst filter_positions) simp
  have filled: "fold (\<lambda>(pos, page) pages. pages[pos := page]) (zip ?pos (map f ?inner)) ?pages = map f idxs"
    unfolding inner using cached by (intro nth_equalityI) (auto simp: nth_fold_update)
  show ?thesis
  proof (cases "?inner = []")
    case True
    then have "?pages = map f idxs" using cached by (auto simp: filter_empty_conv)
    with True chk assms(1) show ?thesis
      by (simp add: fc_read_pages_def comp_simps Let_def kept_refl)
  next
    case False
    have "zoom fc_inner (\<lambda>t s. s\<lparr>fc_inner := t\<rparr>) (ps_read_pages ps ?inner) s =
        (Inr (map f ?inner), s\<lparr>fc_inner := t\<rparr>)"
      using t(1) by (simp add: comp_simps)
    then have "fc_read_pages ps idxs s = (Inr (map f idxs), s\<lparr>fc_inner := t\<rparr>)"
      using False chk filled by (simp add: fc_read_pages_def comp_simps Let_def)
    moreover have "fc_contents pages (s\<lparr>fc_inner := t\<rparr>) = fc_contents pages s"
      using t(3) by (auto simp: fc_contents_def fun_eq_iff)
    moreover have "fc_coherent pages s \<longrightarrow> fc_coherent pages (s\<lparr>fc_inner := t\<rparr>)"
      using t(3) by (simp add: fc_coherent_def)
    ultimately show ?thesis using fc_inner_kept [OF assms(1) t(2)] by blast
  qed
qed

lemma fc_write_loop:
  assumes "fc_ok ps ok s" and "\<And>i p. (i, p) \<in> set l \<Longrightarrow> i < n \<and> length p = fc_page_size s"
  shows "\<exists>s'. fc_write_loop n l inner s = (Inr (inner @ filter ((\<lambda>i. fc_cached_pages s \<le> i) \<circ> fst) l), s') \<and>
    fc_ok ps ok s' \<and> fc_inner s' = fc_inner s \<and> fc_cached_pages s' = fc_cached_pages s \<and>
    (\<forall>i < fc_cached_pages s. fc_contents pages s' i = ((fc_contents pages s)(map fst l [\<mapsto>] map snd l)) i) \<and>
    (fc_coherent pages s \<longrightarrow> fc_coherent pages s')"
  using assms
proof (induction l arbitrary: s inner)
  case Nil
  then show ?case by (simp add: comp_simps)
next
  case (Cons x rest)
  obtain i p where x: "x = (i, p)" by (cases x)
  let ?k = "fc_cached_pages s"
  have ip: "i < n" "length p = fc_page_size s" using Cons.prems(2) [of i p] x by auto
  show ?case
  proof (cases "i < ?k")
    case True
    note put = fc_put_ok [OF Cons.prems(1) True ip(2)]
    have "\<exists>s'. fc_write_loop n rest inner (fc_put i p s) =
        (Inr (inner @ filter ((\<lambda>j. fc_cached_pages (fc_put i p s) \<le> j) \<circ> fst) rest), s') \<and>
      fc_ok ps ok s' \<and> fc_inner s' = fc_inner (fc_put i p s) \<and>
      fc_cached_pages s' = fc_cached_pages (fc_put i p s) \<and>
      (\<forall>j < fc_cached_pages (fc_put i p s). fc_contents pages s' j =
        ((fc_contents pages (fc_put i p s))(map fst rest [\<mapsto>] map snd rest)) j) \<and>
      (fc_coherent pages (fc_put i p s) \<longrightarrow> fc_coherent pages s')"
      using Cons.prems(2) by (intro Cons.IH put(1)) auto
    with True ip put(2,3) [of pages] show ?thesis by (simp add: comp_simps x comp_def del: fun_upd_apply) blast
  next
    case False
    have "\<exists>s'. fc_write_loop n rest (inner @ [(i, p)]) s =
        (Inr ((inner @ [(i, p)]) @ filter ((\<lambda>i. fc_cached_pages s \<le> i) \<circ> fst) rest), s') \<and>
      fc_ok ps ok s' \<and> fc_inner s' = fc_inner s \<and> fc_cached_pages s' = fc_cached_pages s \<and>
      (\<forall>j < fc_cached_pages s. fc_contents pages s' j =
        ((fc_contents pages s)(map fst rest [\<mapsto>] map snd rest)) j) \<and>
      (fc_coherent pages s \<longrightarrow> fc_coherent pages s')"
      using Cons.prems by (intro Cons.IH) auto
    moreover have "((fc_contents pages s)(map fst rest [\<mapsto>] map snd rest)) j =
        ((fc_contents pages s)(map fst ((i, p) # rest) [\<mapsto>] map snd ((i, p) # rest))) j" if "j < ?k" for j
      using False that
        map_upds_filter [of "\<lambda>j. j < ?k" j "fc_contents pages s" "(fc_contents pages s)(i \<mapsto> p)" rest]
        map_upds_filter [of "\<lambda>j. j < ?k" j "(fc_contents pages s)(i \<mapsto> p)" "(fc_contents pages s)(i \<mapsto> p)" rest]
      by auto
    ultimately show ?thesis using False ip by (simp add: comp_simps x comp_def)
  qed
qed

lemma fc_write_pages:
  assumes "fc_ok ps ok s" and "length idxs = length pgs" and "\<And>i. i \<in> set idxs \<Longrightarrow> i < fc_page_count ps s"
    and "\<And>p. p \<in> set pgs \<Longrightarrow> length p = fc_page_size s"
  shows "\<exists>s'. fc_write_pages ps idxs pgs s = (Inr (), s') \<and>
    kept (fc_ok ps ok) fc_page_size (fc_page_count ps) s s' \<and>
    fc_contents pages s' = (fc_contents pages s)(idxs [\<mapsto>] pgs) \<and>
    (fc_coherent pages s \<longrightarrow> fc_coherent pages s')"
proof -
  let ?l = "zip idxs pgs" and ?k = "fc_cached_pages s"
  let ?P = "\<lambda>i. ?k \<le> i"
  let ?inner = "filter (?P \<circ> fst) ?l"
  have l: "map fst ?l = idxs" "map snd ?l = pgs" using assms(2) by simp_all
  have in_l: "i < fc_page_count ps s \<and> length p = fc_page_size s" if "(i, p) \<in> set ?l" for i p
    using that assms(3,4) by (meson in_set_zipE)
  obtain s1 where s1: "fc_write_loop (fc_page_count ps s) ?l [] s = (Inr ?inner, s1)" "fc_ok ps ok s1"
    "fc_inner s1 = fc_inner s" "fc_cached_pages s1 = ?k"
    "\<And>i. i < ?k \<Longrightarrow> fc_contents pages s1 i = ((fc_contents pages s)(idxs [\<mapsto>] pgs)) i"
    "fc_coherent pages s \<longrightarrow> fc_coherent pages s1"
    using fc_write_loop [of s ?l "fc_page_count ps s" "[]", OF assms(1) in_l] by (auto simp: l)
  have size: "fc_page_size s1 = fc_page_size s"
    using s1(2,3) assms(1) by (simp add: fc_ok_def)
  have "\<exists>t. ps_write_pages ps (map fst ?inner) (map snd ?inner) (fc_inner s1) = (Inr (), t) \<and>
      kept ok (ps_page_size ps) (ps_page_count ps) (fc_inner s1) t \<and>
      pages t = (pages (fc_inner s1))(map fst ?inner [\<mapsto>] map snd ?inner)"
    using s1(2,3) assms(1,3,4) by (intro write_pages)
      (auto simp: fc_ok_def fc_page_count_def elim!: in_set_zipE)
  then obtain t where t: "ps_write_pages ps (map fst ?inner) (map snd ?inner) (fc_inner s1) = (Inr (), t)"
    "kept ok (ps_page_size ps) (ps_page_count ps) (fc_inner s1) t"
    "pages t = (pages (fc_inner s1))(map fst ?inner [\<mapsto>] map snd ?inner)" by blast
  have high: "((pages (fc_inner s1))(map fst ?inner [\<mapsto>] map snd ?inner)) i =
      ((fc_contents pages s)(idxs [\<mapsto>] pgs)) i" if "?k \<le> i" for i
    using map_upds_filter [of ?P i "fc_contents pages s" "pages (fc_inner s1)" ?l] that
    by (simp add: l s1(3) fc_contents_def)
  show ?thesis
  proof (cases "?inner = []")
    case True
    have "fc_contents pages s1 i = ((fc_contents pages s)(idxs [\<mapsto>] pgs)) i" for i
      using high [of i] s1(4,5) True by (cases "i < ?k") (auto simp: fc_contents_def)
    moreover have "fc_write_pages ps idxs pgs s = (Inr (), s1)"
      using True s1(1) assms(2) by (simp add: fc_write_pages_def comp_simps)
    ultimately show ?thesis using s1(2,3,6) size by (auto simp: kept_def fc_page_count_def)
  next
    case False
    let ?s2 = "s1\<lparr>fc_inner := t\<rparr>"
    have "fc_contents pages ?s2 i = ((fc_contents pages s)(idxs [\<mapsto>] pgs)) i" for i
      using high [of i] s1(4,5) t(3) by (cases "i < ?k") (auto simp: fc_contents_inner)
    moreover have "zoom fc_inner (\<lambda>t s. s\<lparr>fc_inner := t\<rparr>)
        (ps_write_pages ps (map fst ?inner) (map snd ?inner)) s1 = (Inr (), ?s2)"
      using t(1) by (simp add: comp_simps)
    then have "fc_write_pages ps idxs pgs s = (Inr (), ?s2)"
      using False s1(1) assms(2) by (simp add: fc_write_pages_def comp_simps)
    moreover have "kept (fc_ok ps ok) fc_page_size (fc_page_count ps) s ?s2"
      using fc_inner_kept [OF s1(2) t(2)] s1(3) size by (simp add: kept_def fc_page_count_def)
    moreover have "fc_coherent pages ?s2" if "fc_coherent pages s1"
    proof -
      have "pages t i = pages (fc_inner s1) i" if "i < ?k" for i
        using that by (auto simp: t(3) intro!: map_upds_filter_other)
      with \<open>fc_coherent pages s1\<close> s1(4) show ?thesis by (simp add: fc_coherent_def)
    qed
    ultimately show ?thesis using s1(6) by auto
  qed
qed

text \<open>
  The loop of \<open>flush\<close>: dirty pages reach the wrapped store and become clean; on a coherent cache
  the wrapped store ends up with the cached contents.
\<close>

definition fc_flushed :: "'s front_cached \<Rightarrow> 's front_cached \<Rightarrow> bool" where
  "fc_flushed s s' \<longleftrightarrow>
     kept (fc_ok ps ok) fc_page_size (fc_page_count ps) s s' \<and>
     fc_cached_pages s' = fc_cached_pages s \<and> fc_contents pages s' = fc_contents pages s \<and>
     (fc_coherent pages s \<longrightarrow> fc_coherent pages s')"

lemma fc_flush_page_clean:
  assumes "fc_ok ps ok s" and "i < fc_cached_pages s"
  shows "\<exists>s'. fc_flush_page ps i s = (Inr (), s') \<and> fc_flushed s s' \<and>
    (\<forall>j. fc_dirty s' ! j \<longrightarrow> j \<noteq> i \<and> fc_dirty s ! j)"
proof (cases "fc_dirty s ! i")
  case True
  let ?p = "fc_cached_page s i"
  have len: "length ?p = ps_page_size ps (fc_inner s)" "i < ps_page_count ps (fc_inner s)"
    using assms length_fc_cached_page [OF assms] by (auto simp: fc_ok_def)
  then obtain t where t: "ps_write_page ps i ?p (fc_inner s) = (Inr (), t)"
    "kept ok (ps_page_size ps) (ps_page_count ps) (fc_inner s) t"
    "pages t = (pages (fc_inner s))(i \<mapsto> ?p)"
    using write_page [of "fc_inner s" i ?p] assms(1) by (auto simp: fc_ok_def)
  let ?s' = "s\<lparr>fc_inner := t, fc_dirty := (fc_dirty s)[i := False]\<rparr>"
  have "zoom fc_inner (\<lambda>t s. s\<lparr>fc_inner := t\<rparr>) (ps_write_page ps i ?p) s = (Inr (), s\<lparr>fc_inner := t\<rparr>)"
    using t(1) by (simp add: comp_simps)
  then have run: "fc_flush_page ps i s = (Inr (), ?s')"
    using True by (simp add: fc_flush_page_def comp_simps)
  have "kept (fc_ok ps ok) fc_page_size (fc_page_count ps) s ?s'"
    using fc_inner_kept [OF assms(1) t(2)] by (simp add: kept_def fc_ok_def fc_page_count_def)
  moreover have "fc_contents pages ?s' = fc_contents pages s"
    using assms(2) t(3) by (auto simp: fc_contents_def fun_eq_iff)
  moreover have "fc_coherent pages s \<Longrightarrow> fc_coherent pages ?s'"
    using t(3) by (auto simp: fc_coherent_def nth_list_update split: if_splits)
  moreover have "\<forall>j. fc_dirty ?s' ! j \<longrightarrow> j \<noteq> i \<and> fc_dirty s ! j"
    using assms by (auto simp: nth_list_update fc_ok_def)
  ultimately show ?thesis using run by (auto simp: fc_flushed_def)
next
  case False
  then show ?thesis using assms(1)
    by (auto simp: fc_flush_page_def comp_simps fc_flushed_def kept_refl)
qed

lemma fc_flush_loop:
  assumes "fc_ok ps ok s" and "n \<le> fc_cached_pages s"
  shows "\<exists>s'. citer (fc_flush_page ps) [0..<n] s = (Inr (), s') \<and> fc_flushed s s' \<and>
    (\<forall>j < n. \<not> fc_dirty s' ! j)"
  using assms(2)
proof (induction n)
  case 0
  then show ?case using assms(1) by (auto simp: comp_simps fc_flushed_def kept_refl)
next
  case (Suc n)
  then obtain s1 where s1: "citer (fc_flush_page ps) [0..<n] s = (Inr (), s1)" "fc_flushed s s1"
    "\<forall>j < n. \<not> fc_dirty s1 ! j" by auto
  moreover have "fc_ok ps ok s1" "n < fc_cached_pages s1"
    using s1(2) Suc.prems by (auto simp: fc_flushed_def kept_def)
  ultimately obtain s2 where "fc_flush_page ps n s1 = (Inr (), s2)" "fc_flushed s1 s2"
    "\<forall>j. fc_dirty s2 ! j \<longrightarrow> j \<noteq> n \<and> fc_dirty s1 ! j"
    using fc_flush_page_clean by blast
  with s1 show ?case
    by (auto simp: citer_append comp_simps fc_flushed_def less_Suc_eq intro: kept_trans)
qed

lemma fc_flush_spec:
  assumes "fc_ok ps ok s"
  shows "\<exists>s'. fc_flush ps s = (Inr (), s') \<and>
    kept (fc_ok ps ok) fc_page_size (fc_page_count ps) s s' \<and> fc_contents pages s' = fc_contents pages s \<and>
    (fc_coherent pages s \<longrightarrow> pages (fc_inner s') = fc_contents pages s)"
proof -
  obtain s1 where s1: "citer (fc_flush_page ps) [0..<fc_cached_pages s] s = (Inr (), s1)" "fc_flushed s s1"
    "\<forall>j < fc_cached_pages s. \<not> fc_dirty s1 ! j"
    using fc_flush_loop [OF assms] by blast
  have ok1: "fc_ok ps ok s1" using s1(2) by (simp add: fc_flushed_def kept_def)
  then obtain t where t: "ps_flush ps (fc_inner s1) = (Inr (), t)"
    "kept ok (ps_page_size ps) (ps_page_count ps) (fc_inner s1) t" "pages t = pages (fc_inner s1)"
    using flush by (auto simp: fc_ok_def)
  have same: "fc_contents pages (s1\<lparr>fc_inner := t\<rparr>) = fc_contents pages s1"
    using t(3) by (auto simp: fc_contents_def fun_eq_iff)
  have "pages (fc_inner s1) = fc_contents pages s1" if "fc_coherent pages s"
    using that s1(2,3) by (auto simp: fc_flushed_def fc_coherent_def fc_contents_def fun_eq_iff)
  moreover have "zoom fc_inner (\<lambda>t s. s\<lparr>fc_inner := t\<rparr>) (ps_flush ps) s1 = (Inr (), s1\<lparr>fc_inner := t\<rparr>)"
    using t(1) by (simp add: comp_simps)
  then have "fc_flush ps s = (Inr (), s1\<lparr>fc_inner := t\<rparr>)"
    using s1(1) by (simp add: fc_flush_def comp_simps)
  ultimately show ?thesis
    using same t(3) s1(2) kept_trans [OF _ fc_inner_kept [OF ok1 t(2)], of s]
    by (auto simp: fc_flushed_def)
qed

text \<open>Coherence is kept by every operation, so it can be part of the invariant or be left out.\<close>

lemma front_cached_spec:
  "page_store_spec (front_cached_ops ps) (fc_ok ps ok) (fc_contents pages)" (is ?A)
  and front_cached_coherent_spec:
  "page_store_spec (front_cached_ops ps) (\<lambda>s. fc_ok ps ok s \<and> fc_coherent pages s) (fc_contents pages)" (is ?B)
proof -
  have "page_store_spec (front_cached_ops ps) (\<lambda>s. fc_ok ps ok s \<and> (c \<longrightarrow> fc_coherent pages s)) (fc_contents pages)" for c
  proof unfold_locales
    fix s i and p :: bytes
    assume s: "fc_ok ps ok s \<and> (c \<longrightarrow> fc_coherent pages s)" "fc_contents pages s i = Some p"
    then show "i < ps_page_count (front_cached_ops ps) s" "length p = ps_page_size (front_cached_ops ps) s"
      by (simp_all add: front_cached_ops_def fc_contents_Some)
    from s fc_read_page [of s i p] show "\<exists>s'. ps_read_page (front_cached_ops ps) i (ps_page_size (front_cached_ops ps) s) s = (Inr p, s') \<and>
        kept (\<lambda>s. fc_ok ps ok s \<and> (c \<longrightarrow> fc_coherent pages s)) (ps_page_size (front_cached_ops ps)) (ps_page_count (front_cached_ops ps)) s s' \<and>
        fc_contents pages s' = fc_contents pages s"
      by (auto simp: front_cached_ops_def kept_def)
  next
    fix s i and p :: bytes
    assume "fc_ok ps ok s \<and> (c \<longrightarrow> fc_coherent pages s)" "i < ps_page_count (front_cached_ops ps) s"
      "length p = ps_page_size (front_cached_ops ps) s"
    with fc_write_page [of s i p] show "\<exists>s'. ps_write_page (front_cached_ops ps) i p s = (Inr (), s') \<and>
        kept (\<lambda>s. fc_ok ps ok s \<and> (c \<longrightarrow> fc_coherent pages s)) (ps_page_size (front_cached_ops ps)) (ps_page_count (front_cached_ops ps)) s s' \<and>
        fc_contents pages s' = (fc_contents pages s)(i \<mapsto> p)"
      by (auto simp: front_cached_ops_def kept_def)
  next
    fix s idxs and f :: "nat \<Rightarrow> bytes"
    assume s: "fc_ok ps ok s \<and> (c \<longrightarrow> fc_coherent pages s)" "\<And>i. i \<in> set idxs \<Longrightarrow> fc_contents pages s i = Some (f i)"
    then obtain s' where "fc_read_pages ps idxs s = (Inr (map f idxs), s')"
      "kept (fc_ok ps ok) fc_page_size (fc_page_count ps) s s'" "fc_contents pages s' = fc_contents pages s"
      "fc_coherent pages s \<longrightarrow> fc_coherent pages s'"
      using fc_read_pages [of s idxs f] by blast
    with s(1) show "\<exists>s'. ps_read_pages (front_cached_ops ps) idxs s = (Inr (map f idxs), s') \<and>
        kept (\<lambda>s. fc_ok ps ok s \<and> (c \<longrightarrow> fc_coherent pages s)) (ps_page_size (front_cached_ops ps)) (ps_page_count (front_cached_ops ps)) s s' \<and>
        fc_contents pages s' = fc_contents pages s"
      by (auto simp: front_cached_ops_def kept_def)
  next
    fix s idxs and pgs :: "bytes list"
    assume s: "fc_ok ps ok s \<and> (c \<longrightarrow> fc_coherent pages s)" "length idxs = length pgs"
      "\<And>i. i \<in> set idxs \<Longrightarrow> i < ps_page_count (front_cached_ops ps) s"
      "\<And>p. p \<in> set pgs \<Longrightarrow> length p = ps_page_size (front_cached_ops ps) s"
    then obtain s' where "fc_write_pages ps idxs pgs s = (Inr (), s')"
      "kept (fc_ok ps ok) fc_page_size (fc_page_count ps) s s'" "fc_contents pages s' = (fc_contents pages s)(idxs [\<mapsto>] pgs)"
      "fc_coherent pages s \<longrightarrow> fc_coherent pages s'"
      using fc_write_pages [of s idxs pgs] by (auto simp: front_cached_ops_def)
    with s(1) show "\<exists>s'. ps_write_pages (front_cached_ops ps) idxs pgs s = (Inr (), s') \<and>
        kept (\<lambda>s. fc_ok ps ok s \<and> (c \<longrightarrow> fc_coherent pages s)) (ps_page_size (front_cached_ops ps)) (ps_page_count (front_cached_ops ps)) s s' \<and>
        fc_contents pages s' = (fc_contents pages s)(idxs [\<mapsto>] pgs)"
      by (auto simp: front_cached_ops_def kept_def)
  next
    fix s assume "fc_ok ps ok s \<and> (c \<longrightarrow> fc_coherent pages s)"
    with fc_flush_spec [of s] show "\<exists>s'. ps_flush (front_cached_ops ps) s = (Inr (), s') \<and>
        kept (\<lambda>s. fc_ok ps ok s \<and> (c \<longrightarrow> fc_coherent pages s)) (ps_page_size (front_cached_ops ps)) (ps_page_count (front_cached_ops ps)) s s' \<and>
        fc_contents pages s' = fc_contents pages s"
      by (auto simp: front_cached_ops_def kept_def fc_coherent_def fc_contents_def fun_eq_iff split: if_splits)
  qed
  from this [of False] this [of True] show ?A ?B by simp_all
qed

end

text \<open>
  C15. Flushing a front cache over any store that meets the page-store contract succeeds, leaves
  the visible contents and the dimensions alone, and, when clean cached pages agree with the
  wrapped store, writes back exactly the pages that differ: afterwards the wrapped store alone
  holds the contents the wrapper showed.
\<close>

theorem front_cache_flush:
  assumes "page_store_spec ps ok pages" and "fc_ok ps ok s" and "fc_coherent pages s"
  shows "\<exists>s'. fc_flush ps s = (Inr (), s') \<and> fc_ok ps ok s' \<and>
    fc_contents pages s' = fc_contents pages s \<and> pages (fc_inner s') = fc_contents pages s"
  using page_store_spec.fc_flush_spec [OF assms(1,2)] assms(3) by (auto simp: kept_def)

interpretation cached_mem: page_store_spec "front_cached_ops mem_store_ops"
  "fc_ok mem_store_ops mem_ok" "fc_contents mem_contents"
  by (rule mem.front_cached_spec)

definition cached_example :: "mem_store front_cached" where
  "cached_example =
     \<lparr>fc_inner = \<lparr>mem_page_size = 1, mem_pages = [7, 8, 9]\<rparr>, fc_cached_pages = 2, fc_page_size = 1,
      fc_cached = [7, 5], fc_dirty = [False, True]\<rparr>"

theorem front_cache_flush_witness:
  "\<exists>s'. fc_flush mem_store_ops cached_example = (Inr (), s') \<and> fc_ok mem_store_ops mem_ok s' \<and>
    fc_contents mem_contents s' = fc_contents mem_contents cached_example \<and>
    mem_contents (fc_inner s') = fc_contents mem_contents cached_example"
proof (rule front_cache_flush [OF mem.page_store_spec_axioms])
  show "fc_ok mem_store_ops mem_ok cached_example"
    by (simp add: fc_ok_def cached_example_def mem_store_ops_def mem_ok_def mem_page_count_def)
  show "fc_coherent mem_contents cached_example"
    by (auto simp: fc_coherent_def cached_example_def mem_contents_def mem_page_count_def
        fc_cached_page_def slice_def less_Suc_eq numeral_2_eq_2)
qed

text \<open>The two constructors: \<open>new\<close> starts from a coherent cache that shows the wrapped contents.\<close>

lemma fc_new_spec:
  assumes "page_store_spec ps ok pages" and "ok inner" and "fc_new ps inner n = Inr s"
    and "\<And>i. i < n \<Longrightarrow> pages inner i = Some (f i)"
  shows "fc_ok ps ok s \<and> fc_coherent pages s \<and> fc_contents pages s = pages inner \<and> fc_cached_pages s = n"
proof -
  have io: "page_io (ps_page_size ps) (ps_page_count ps) (ps_read_page ps) (ps_write_page ps) ok pages"
    using assms(1) by (simp add: page_store_spec_def)
  let ?k = "ps_page_size ps inner"
  obtain t where t: "cmapM (\<lambda>i. ps_read_page ps i ?k) [0..<n] inner = (Inr (map f [0..<n]), t)"
    "kept ok (ps_page_size ps) (ps_page_count ps) inner t" "pages t = pages inner"
    using page_io.cmapM_read [OF io assms(2), of "[0..<n]" f] assms(4) by auto
  have le: "n \<le> ps_page_count ps inner" using assms(3) by (auto simp: fc_new_def split: if_splits)
  with assms(3) t(1) have s: "s = \<lparr>fc_inner = t, fc_cached_pages = n, fc_page_size = ?k,
      fc_cached = concat (map f [0..<n]), fc_dirty = replicate n False\<rparr>"
    by (auto simp: fc_new_def Let_def)
  have len: "length (f i) = ?k" if "i < n" for i
    using page_io.page_length [OF io assms(2) assms(4) [OF that]] .
  have lens: "length p = ?k" if "p \<in> set (map f [0..<n])" for p
    using that len by auto
  have total: "length (concat (map f [0..<n])) = n * ?k"
    using length_concat_equal [of "map f [0..<n]" ?k, OF lens] by simp
  have page: "fc_cached_page s i = f i" if "i < n" for i
    using that len total nth_concat_equal [of "map f [0..<n]" ?k i, OF lens] page_range_bound [OF that, of ?k]
    by (intro nth_equalityI) (auto simp: s fc_cached_page_def Let_def nth_slice)
  have "fc_ok ps ok s" using t(2) le total by (simp add: s fc_ok_def kept_def)
  moreover have "fc_contents pages s = pages inner"
    using page assms(4) t(3) by (auto simp: fc_contents_def fun_eq_iff s)
  moreover have "fc_coherent pages s"
    using page assms(4) t(3) by (auto simp: fc_coherent_def s)
  ultimately show ?thesis by (simp add: s)
qed

section \<open>TracingStore meets the contract and logs every page index\<close>

definition tr_ok :: "('s \<Rightarrow> bool) \<Rightarrow> 's tracing \<Rightarrow> bool" where
  "tr_ok ok s = ok (tr_inner s)"

definition tr_contents :: "('s \<Rightarrow> nat \<rightharpoonup> bytes) \<Rightarrow> 's tracing \<Rightarrow> nat \<rightharpoonup> bytes" where
  "tr_contents pages s = pages (tr_inner s)"

lemma tr_kept:
  "kept (tr_ok ok) (sz \<circ> tr_inner) (cnt \<circ> tr_inner) s (s\<lparr>tr_inner := t, tr_trace := l\<rparr>) \<longleftrightarrow>
    kept ok sz cnt (tr_inner s) t"
  by (simp add: kept_def tr_ok_def)

context page_store_spec
begin

lemma tr_read_page:
  assumes "tr_ok ok s" and "tr_contents pages s i = Some p"
  shows "\<exists>s'. tr_read_page ps i (ps_page_size ps (tr_inner s)) s = (Inr p, s') \<and>
    kept (tr_ok ok) (ps_page_size ps \<circ> tr_inner) (ps_page_count ps \<circ> tr_inner) s s' \<and>
    tr_contents pages s' = tr_contents pages s"
proof -
  obtain t where t: "ps_read_page ps i (ps_page_size ps (tr_inner s)) (tr_inner s) = (Inr p, t)"
    "kept ok (ps_page_size ps) (ps_page_count ps) (tr_inner s) t" "pages t = pages (tr_inner s)"
    using assms read_page [of "tr_inner s" i p] by (auto simp: tr_ok_def tr_contents_def)
  then have "tr_read_page ps i (ps_page_size ps (tr_inner s)) s =
      (Inr p, s\<lparr>tr_inner := t, tr_trace := tr_trace s @ [ReadEv i]\<rparr>)"
    by (simp add: tr_read_page_def tr_log_def comp_simps zoom_def)
  with t show ?thesis by (simp add: tr_kept tr_contents_def)
qed

lemma tr_write_page:
  assumes "tr_ok ok s" and "i < ps_page_count ps (tr_inner s)" and "length p = ps_page_size ps (tr_inner s)"
  shows "\<exists>s'. tr_write_page ps i p s = (Inr (), s') \<and>
    kept (tr_ok ok) (ps_page_size ps \<circ> tr_inner) (ps_page_count ps \<circ> tr_inner) s s' \<and>
    tr_contents pages s' = (tr_contents pages s)(i \<mapsto> p)"
proof -
  obtain t where t: "ps_write_page ps i p (tr_inner s) = (Inr (), t)"
    "kept ok (ps_page_size ps) (ps_page_count ps) (tr_inner s) t" "pages t = (pages (tr_inner s))(i \<mapsto> p)"
    using assms write_page [of "tr_inner s" i p] by (auto simp: tr_ok_def)
  then have "tr_write_page ps i p s = (Inr (), s\<lparr>tr_inner := t, tr_trace := tr_trace s @ [WriteEv i]\<rparr>)"
    by (simp add: tr_write_page_def tr_log_def comp_simps zoom_def)
  with t show ?thesis by (simp add: tr_kept tr_contents_def)
qed

lemma tracing_io:
  "page_io (ps_page_size ps \<circ> tr_inner) (ps_page_count ps \<circ> tr_inner) (tr_read_page ps) (tr_write_page ps)
    (tr_ok ok) (tr_contents pages)"
proof unfold_locales
  fix s i p
  assume s: "tr_ok ok s" "tr_contents pages s i = Some p"
  then show "i < (ps_page_count ps \<circ> tr_inner) s" "length p = (ps_page_size ps \<circ> tr_inner) s"
    by (auto simp: tr_ok_def tr_contents_def page_index page_length)
  from tr_read_page [OF s] show "\<exists>s'. tr_read_page ps i ((ps_page_size ps \<circ> tr_inner) s) s = (Inr p, s') \<and>
      kept (tr_ok ok) (ps_page_size ps \<circ> tr_inner) (ps_page_count ps \<circ> tr_inner) s s' \<and>
      tr_contents pages s' = tr_contents pages s" by simp
qed (simp add: tr_write_page)

lemma tracing_spec: "page_store_spec (tracing_ops ps) (tr_ok ok) (tr_contents pages)"
proof -
  note io = tracing_io
  have "\<exists>s'. tr_zoom (ps_flush ps) s = (Inr (), s') \<and>
      kept (tr_ok ok) (ps_page_size ps \<circ> tr_inner) (ps_page_count ps \<circ> tr_inner) s s' \<and>
      tr_contents pages s' = tr_contents pages s" if ok_s: "tr_ok ok s" for s
  proof -
    obtain t where "ps_flush ps (tr_inner s) = (Inr (), t)"
      "kept ok (ps_page_size ps) (ps_page_count ps) (tr_inner s) t" "pages t = pages (tr_inner s)"
      using ok_s flush [of "tr_inner s"] by (auto simp: tr_ok_def)
    then show ?thesis using tr_kept [where s = s and t = t and l = "tr_trace s"]
      by (simp add: comp_simps tr_contents_def)
  qed
  then show ?thesis
    using io page_io.default_read [OF io] page_io.default_write [OF io]
    by (simp add: page_store_spec_def page_store_spec_axioms_def tracing_ops_def)
qed

end

text \<open>Whatever the wrapped store answers, a batch is logged page by page until the first error.\<close>

lemma tr_read_page_trace:
  "tr_trace (snd (tr_read_page ps i n s)) = tr_trace s @ [ReadEv i]"
  by (simp add: tr_read_page_def tr_log_def comp_simps zoom_def split: prod.split)

lemma tr_write_page_trace:
  "tr_trace (snd (tr_write_page ps i p s)) = tr_trace s @ [WriteEv i]"
  by (simp add: tr_write_page_def tr_log_def comp_simps zoom_def split: prod.split)

lemma tr_read_pages_trace:
  assumes "default_read_pages sz (tr_read_page ps) idxs s = (Inr pgs, s')"
  shows "tr_trace s' = tr_trace s @ map ReadEv idxs"
proof -
  have "cmapM (\<lambda>i. tr_read_page ps i n) idxs s = (Inr pgs, s') \<Longrightarrow>
      tr_trace s' = tr_trace s @ map ReadEv idxs" for n
  proof (induction idxs arbitrary: s pgs)
    case (Cons i idxs)
    then obtain q s1 qs where "tr_read_page ps i n s = (Inr q, s1)"
      "cmapM (\<lambda>i. tr_read_page ps i n) idxs s1 = (Inr qs, s')"
      by (auto simp: bnd_Inr_iff comp_simps)
    with Cons.IH tr_read_page_trace [of ps i n s] show ?case by fastforce
  qed (simp add: comp_simps)
  with assms show ?thesis by (auto simp: default_read_pages_def comp_simps)
qed

lemma tr_write_pages_trace:
  assumes "default_write_pages sz (tr_write_page ps) idxs pgs s = (Inr (), s')"
  shows "tr_trace s' = tr_trace s @ map WriteEv idxs"
proof -
  have "citer (\<lambda>(i, p). bnd (require (length p = n) e) (\<lambda>_. tr_write_page ps i p)) l s = (Inr (), s') \<Longrightarrow>
      tr_trace s' = tr_trace s @ map (WriteEv \<circ> fst) l" for n e l
  proof (induction l arbitrary: s)
    case (Cons x l)
    let ?w = "\<lambda>(i, p). bnd (require (length p = n) e) (\<lambda>_. tr_write_page ps i p)"
    from Cons.prems obtain s1 where s1: "?w x s = (Inr (), s1)" "citer ?w l s1 = (Inr (), s')"
      by (auto simp: bnd_Inr_iff)
    from s1(1) have "tr_write_page ps (fst x) (snd x) s = (Inr (), s1)"
      by (cases x) (simp add: bnd_require_run split: if_splits)
    with Cons.IH [OF s1(2)] tr_write_page_trace [of ps "fst x" "snd x" s] show ?case by simp
  qed (simp add: comp_simps)
  moreover have "length idxs = length pgs"
    using assms by (auto simp: default_write_pages_def comp_simps split: if_splits)
  ultimately show ?thesis
    using assms by (fastforce simp: default_write_pages_def comp_simps simp flip: map_map)
qed

interpretation traced_mem: page_store_spec "tracing_ops mem_store_ops" "tr_ok mem_ok"
  "tr_contents mem_contents"
  by (rule mem.tracing_spec)

end
