(* ===== verification/File_Store.thy ===== *)
theory File_Store
  imports Page_Store
begin

text \<open>
  \<open>FilePageStore\<close> of src/src/store.rs: a page store over one file, with batches that read and write
  sorted runs of consecutive pages by one positioned transfer each. The operating system may
  transfer fewer bytes than asked for, or fail; the loops of \<open>read_exact_at\<close> and \<open>write_all_at\<close> are
  modelled with that.
\<close>

section \<open>Files\<close>

text \<open>
  An open file: its bytes, and what the operating system will do with the calls on it.
  \<open>fd_step n\<close> is the outcome of the n-th call: a transfer moves at most so many bytes, and any call
  may be an I/O error.
\<close>

record os_file =
  fd_bytes :: bytes
  fd_calls :: nat
  fd_step :: "nat \<Rightarrow> nat option"

definition io_next :: "(os_file, nat) comp" where
  "io_next f =
     ((case fd_step f (fd_calls f) of None \<Rightarrow> Inl (Io ''transfer failed'') | Some k \<Rightarrow> Inr k),
      f\<lparr>fd_calls := fd_calls f + 1\<rparr>)"

text \<open>\<open>File::read_at\<close> and \<open>File::write_at\<close>: no transfer reaches past the end of the file; a write extends it.\<close>

definition read_at :: "nat \<Rightarrow> nat \<Rightarrow> (os_file, bytes) comp" where
  "read_at len offset =
     bnd io_next (\<lambda>k.
     gets (\<lambda>f. take (min k len) (drop offset (fd_bytes f))))"

definition write_at :: "bytes \<Rightarrow> nat \<Rightarrow> (os_file, nat) comp" where
  "write_at input offset =
     bnd io_next (\<lambda>k.
     let moved = take k input in
     bnd (modify (\<lambda>f. f\<lparr>fd_bytes := copy_into offset moved
       (fd_bytes f @ replicate (offset + length moved - length (fd_bytes f)) 0)\<rparr>)) (\<lambda>_.
     ret (length moved)))"

text \<open>
  \<open>read_exact_at\<close> and \<open>write_all_at\<close>; every turn moves at least one byte, or the loop ends. The
  bytes read so far are the filled front of \<open>out\<close>.
\<close>

function read_exact_at :: "nat \<Rightarrow> nat \<Rightarrow> os_file \<Rightarrow> bytes result \<times> os_file" where
  "read_exact_at len offset f =
     (if len = 0 then (Inr [], f)
      else case read_at len offset f of
          (Inl e, f) \<Rightarrow> (Inl e, f)
        | (Inr read, f) \<Rightarrow>
            if length read = 0 then (Inl (Io ''failed to fill whole page''), f)
            else case read_exact_at (len - length read) (offset + length read) f of
                (Inl e, f) \<Rightarrow> (Inl e, f)
              | (Inr rest, f) \<Rightarrow> (Inr (read @ rest), f))"
  by pat_completeness auto
termination
  by (relation "measure (\<lambda>(len, offset, f). len)") auto

function write_all_at :: "bytes \<Rightarrow> nat \<Rightarrow> os_file \<Rightarrow> unit result \<times> os_file" where
  "write_all_at input offset f =
     (if input = [] then (Inr (), f)
      else case write_at input offset f of
          (Inl e, f) \<Rightarrow> (Inl e, f)
        | (Inr written, f) \<Rightarrow>
            if written = 0 then (Inl (Io ''failed to write whole page''), f)
            else write_all_at (drop written input) (offset + written) f)"
  by pat_completeness auto
termination
  by (relation "measure (\<lambda>(input, offset, f). length input)") auto

declare read_exact_at.simps [simp del] write_all_at.simps [simp del]

section \<open>The store\<close>

record file_store =
  fs_page_size :: nat
  fs_page_count :: nat
  fs_file :: os_file

abbreviation on_file :: "(os_file, 'a) comp \<Rightarrow> (file_store, 'a) comp" where
  "on_file \<equiv> zoom fs_file (\<lambda>t s. s\<lparr>fs_file := t\<rparr>)"

text \<open>
  \<open>File::set_len\<close>, and \<open>open\<close> on the file's old contents (empty when it was created). Opening the
  file and setting its length are calls of the operating system too, and each may fail.
\<close>

definition set_len :: "nat \<Rightarrow> os_file \<Rightarrow> os_file" where
  "set_len n f = f\<lparr>fd_bytes := take n (fd_bytes f) @ replicate (n - length (fd_bytes f)) 0\<rparr>"

definition file_open :: "nat \<Rightarrow> nat \<Rightarrow> (os_file, file_store) comp" where
  "file_open page_count page_size =
     (if page_count = 0 \<or> page_size = 0 then lift (Inl (InvalidInput ''page_count and page_size must be > 0''))
      else
        bnd io_next (\<lambda>_.
        bnd io_next (\<lambda>_.
        bnd (modify (set_len (usize_mul page_count page_size))) (\<lambda>_.
        gets (\<lambda>f. \<lparr>fs_page_size = page_size, fs_page_count = page_count, fs_file = f\<rparr>)))))"

definition file_offset :: "nat \<Rightarrow> file_store \<Rightarrow> nat result" where
  "file_offset page_idx s =
     (if page_idx \<ge> fs_page_count s then Inl (InvalidInput ''page_idx {} out of range {}'')
      else Inr (usize_mul page_idx (fs_page_size s)))"

definition file_read_page :: "nat \<Rightarrow> nat \<Rightarrow> (file_store, bytes) comp" where
  "file_read_page page_idx len =
     bnd (gets (\<lambda>s. check_page (fs_page_count s) (fs_page_size s) page_idx len)) (\<lambda>r.
     bnd (lift r) (\<lambda>_.
     bnd (gets (file_offset page_idx)) (\<lambda>r.
     bnd (lift r) (\<lambda>offset.
     on_file (read_exact_at len offset)))))"

definition file_write_page :: "nat \<Rightarrow> bytes \<Rightarrow> (file_store, unit) comp" where
  "file_write_page page_idx input =
     bnd (gets (\<lambda>s. check_page (fs_page_count s) (fs_page_size s) page_idx (length input))) (\<lambda>r.
     bnd (lift r) (\<lambda>_.
     bnd (gets (file_offset page_idx)) (\<lambda>r.
     bnd (lift r) (\<lambda>offset.
     on_file (write_all_at input offset)))))"

definition page_order :: "nat list \<Rightarrow> nat list" where
  "page_order page_indices = [0..<length page_indices]"

definition has_duplicate_pages :: "nat list \<Rightarrow> nat list \<Rightarrow> bool" where
  "has_duplicate_pages page_indices sorted_order =
     list_ex (\<lambda>(a, b). page_indices ! a = page_indices ! b) (zip sorted_order (tl sorted_order))"

text \<open>
  The inner loop that extends a run: from the position \<open>prev\<close> on, the positions whose pages follow
  one another, and the rest of the order.
\<close>

fun extend_run :: "file_store \<Rightarrow> nat list \<Rightarrow> nat \<Rightarrow> nat list \<Rightarrow> (nat list \<times> nat list) result" where
  "extend_run s page_indices prev [] = Inr ([], [])"
| "extend_run s page_indices prev (pos # order) =
     (if page_indices ! pos \<noteq> page_indices ! prev + 1 then Inr ([], pos # order)
      else
        rbind (file_offset (page_indices ! pos) s) (\<lambda>_.
        rbind (extend_run s page_indices pos order) (\<lambda>(run, rest). Inr (pos # run, rest))))"

lemma extend_run_append: "extend_run s idxs prev order = Inr (run, rest) \<Longrightarrow> order = run @ rest"
  by (induction order arbitrary: prev run) (auto split: if_splits)

text \<open>One run: its first offset is checked, then the run is extended; result: the run, its offset, the rest.\<close>

definition next_run :: "file_store \<Rightarrow> nat list \<Rightarrow> nat \<Rightarrow> nat list \<Rightarrow> (nat list \<times> nat \<times> nat list) result" where
  "next_run s page_indices pos order =
     rbind (file_offset (page_indices ! pos) s) (\<lambda>offset.
     rbind (extend_run s page_indices pos order) (\<lambda>(run, rest).
     Inr (pos # run, offset, rest)))"

lemma next_run_append: "next_run s idxs pos order = Inr (run, offset, rest) \<Longrightarrow> pos # order = run @ rest \<and> run \<noteq> []"
  by (auto simp: next_run_def dest: extend_run_append)

lemma next_run_shorter: "next_run s idxs pos order = Inr (run, offset, rest) \<Longrightarrow> length rest < Suc (length order)"
  using next_run_append [of s idxs pos order run offset rest] by (cases run) auto

text \<open>Handing the bytes of a run back to the positions it was asked for at.\<close>

fun scatter_run :: "nat \<Rightarrow> bytes \<Rightarrow> nat list \<Rightarrow> nat \<Rightarrow> bytes list \<Rightarrow> bytes list" where
  "scatter_run page_size run_buf [] run_pos pages = pages"
| "scatter_run page_size run_buf (original_pos # run) run_pos pages =
     (let start = run_pos * page_size in
      scatter_run page_size run_buf run (run_pos + 1)
        (pages[original_pos := slice start (start + page_size) run_buf]))"

function read_runs :: "nat list \<Rightarrow> nat list \<Rightarrow> bytes list \<Rightarrow> file_store \<Rightarrow> bytes list result \<times> file_store" where
  "read_runs page_indices [] pages s = (Inr pages, s)"
| "read_runs page_indices (pos # order) pages s =
     (case next_run s page_indices pos order of
        Inl e \<Rightarrow> (Inl e, s)
      | Inr (run, offset, rest) \<Rightarrow>
          (case on_file (read_exact_at (length run * fs_page_size s) offset) s of
             (Inl e, s) \<Rightarrow> (Inl e, s)
           | (Inr run_buf, s) \<Rightarrow>
               read_runs page_indices rest (scatter_run (fs_page_size s) run_buf run 0 pages) s))"
  by pat_completeness auto
termination
  by (relation "measure (\<lambda>(idxs, order, pages, s). length order)") (auto dest: next_run_shorter)

definition file_read_pages :: "nat list \<Rightarrow> (file_store, bytes list) comp" where
  "file_read_pages page_indices =
     bnd (gets fs_page_size) (\<lambda>page_size.
     let pages = replicate (length page_indices) (replicate page_size 0);
         order = sort_key (\<lambda>pos. page_indices ! pos) (page_order page_indices)
     in read_runs page_indices order pages)"

function write_runs :: "nat list \<Rightarrow> bytes list \<Rightarrow> nat list \<Rightarrow> file_store \<Rightarrow> unit result \<times> file_store" where
  "write_runs page_indices pages [] s = (Inr (), s)"
| "write_runs page_indices pages (pos # order) s =
     (case next_run s page_indices pos order of
        Inl e \<Rightarrow> (Inl e, s)
      | Inr (run, offset, rest) \<Rightarrow>
          (let run_buf = concat (map ((!) pages) run) in
           case on_file (write_all_at run_buf offset) s of
             (Inl e, s) \<Rightarrow> (Inl e, s)
           | (Inr _, s) \<Rightarrow> write_runs page_indices pages rest s))"
  by pat_completeness auto
termination
  by (relation "measure (\<lambda>(idxs, pages, order, s). length order)") (auto dest: next_run_shorter)

definition file_write_pages :: "nat list \<Rightarrow> bytes list \<Rightarrow> (file_store, unit) comp" where
  "file_write_pages page_indices pages =
     bnd (require (length page_indices = length pages)
            (InvalidInput ''page index count {} != page count {}'')) (\<lambda>_.
     bnd (gets fs_page_size) (\<lambda>page_size.
     bnd (citer (\<lambda>page. require (length page = page_size) (InvalidInput ''page len {} != page_size {}'')) pages) (\<lambda>_.
     let order = sort_key (\<lambda>pos. page_indices ! pos) (page_order page_indices) in
     if has_duplicate_pages page_indices order then
       citer (\<lambda>(page_idx, page). file_write_page page_idx page) (zip page_indices pages)
     else write_runs page_indices pages order)))"

text \<open>\<open>flush\<close> calls \<open>sync_all\<close>, which can fail and changes no bytes.\<close>

definition file_flush :: "(file_store, unit) comp" where
  "file_flush = bnd (on_file io_next) (\<lambda>_. ret ())"

definition file_store_ops :: "file_store page_store" where
  "file_store_ops =
     \<lparr>ps_page_size = fs_page_size,
      ps_page_count = fs_page_count,
      ps_read_page = file_read_page,
      ps_write_page = file_write_page,
      ps_read_pages = file_read_pages,
      ps_write_pages = file_write_pages,
      ps_flush = file_flush,
      ps_tiered_merkle_state = (\<lambda>_. None)\<rparr>"

section \<open>Transfers\<close>

lemma copy_into_append:
  assumes "off + length a + length b \<le> length xs"
  shows "copy_into (off + length a) b (copy_into off a xs) = copy_into off (a @ b) xs"
  using assms by (intro nth_equalityI) (auto simp: nth_copy_into nth_append)

text \<open>Whatever the operating system does, a read that succeeds returns the bytes of the file.\<close>

lemma read_at_cases:
  "read_at len off f = (r, f') \<Longrightarrow> fd_bytes f' = fd_bytes f \<and> fd_step f' = fd_step f \<and>
    (case r of Inl e \<Rightarrow> fd_step f (fd_calls f) = None
     | Inr bs \<Rightarrow> \<exists>k. fd_step f (fd_calls f) = Some k \<and> bs = take (min k len) (drop off (fd_bytes f)))"
  by (auto simp: read_at_def io_next_def bnd_def gets_def split: option.splits)

lemma read_exact_at_frame:
  "read_exact_at len off f = (r, f') \<Longrightarrow> fd_bytes f' = fd_bytes f \<and> fd_step f' = fd_step f"
proof (induction len off f arbitrary: r f' rule: read_exact_at.induct)
  case (1 len off f)
  then show ?case
    by (auto simp: read_exact_at.simps [of len off f] split: if_splits prod.splits sum.splits
        dest: read_at_cases)
qed

lemma read_exact_at_Inr:
  "read_exact_at len off f = (Inr bs, f') \<Longrightarrow> bs = take len (drop off (fd_bytes f)) \<and> length bs = len"
proof (induction len off f arbitrary: bs f' rule: read_exact_at.induct)
  case (1 len off f)
  show ?case
  proof (cases "len = 0")
    case True
    with "1.prems" show ?thesis by (simp add: read_exact_at.simps)
  next
    case False
    with "1.prems" obtain a f1 rest where a: "read_at len off f = (Inr a, f1)" "length a \<noteq> 0"
      "read_exact_at (len - length a) (off + length a) f1 = (Inr rest, f')" "bs = a @ rest"
      by (auto simp: read_exact_at.simps [of len off f] split: if_splits prod.splits sum.splits)
    from read_at_cases [OF a(1)] obtain k where k: "a = take (min k len) (drop off (fd_bytes f))"
      "fd_bytes f1 = fd_bytes f" by auto
    then have le: "length a \<le> len" by simp
    have a': "a = take (length a) (drop off (fd_bytes f))" unfolding k(1) by (simp add: min_def)
    from "1.IH" [OF False a(1) [symmetric] refl a(2,3)] k(2)
    have "rest = take (len - length a) (drop (off + length a) (fd_bytes f))" "length rest = len - length a" by auto
    with a' le a(4) take_add [of "length a" "len - length a" "drop off (fd_bytes f)"] show ?thesis
      by (simp add: add.commute)
  qed
qed

text \<open>Calls that move something.\<close>

definition fd_live :: "os_file \<Rightarrow> bool" where
  "fd_live f \<longleftrightarrow> (\<forall>n. \<exists>k > 0. fd_step f n = Some k)"

lemma read_exact_at_live:
  assumes "fd_live f" and "off + len \<le> length (fd_bytes f)"
  shows "\<exists>f'. read_exact_at len off f = (Inr (slice off (off + len) (fd_bytes f)), f')"
  using assms
proof (induction len off f rule: read_exact_at.induct)
  case (1 len off f)
  show ?case
  proof (cases "len = 0")
    case True
    then show ?thesis by (simp add: read_exact_at.simps slice_def)
  next
    case False
    from "1.prems"(1) obtain k where k: "0 < k" "fd_step f (fd_calls f) = Some k" by (auto simp: fd_live_def)
    let ?a = "take (min k len) (drop off (fd_bytes f))" and ?f = "f\<lparr>fd_calls := fd_calls f + 1\<rparr>"
    have a: "read_at len off f = (Inr ?a, ?f)" using k(2) by (simp add: read_at_def io_next_def bnd_def gets_def)
    have len: "length ?a = min k len" using "1.prems"(2) by simp
    then have ne: "length ?a \<noteq> 0" using k(1) False by simp
    have "\<exists>f'. read_exact_at (len - length ?a) (off + length ?a) ?f =
        (Inr (slice (off + length ?a) (off + length ?a + (len - length ?a)) (fd_bytes ?f)), f')"
      using "1.prems" len by (intro "1.IH" [OF False a [symmetric] refl ne]) (simp_all add: fd_live_def)
    then obtain rest f' where "read_exact_at (len - length ?a) (off + length ?a) ?f = (Inr rest, f')" by blast
    with False a ne have "read_exact_at len off f = (Inr (?a @ rest), f')"
      by (simp add: read_exact_at.simps [of len off f])
    from this read_exact_at_Inr [OF this] show ?thesis by (simp add: slice_def)
  qed
qed

text \<open>A write, also one that fails, leaves a front of its input in place.\<close>

lemma write_all_at_cases:
  assumes "write_all_at input off f = (r, f')" and "off + length input \<le> length (fd_bytes f)"
  shows "fd_step f' = fd_step f \<and> (\<exists>n \<le> length input. fd_bytes f' = copy_into off (take n input) (fd_bytes f) \<and>
    (r = Inr () \<longrightarrow> n = length input))"
  using assms
proof (induction input off f arbitrary: r f' rule: write_all_at.induct)
  case (1 input off f)
  show ?case
  proof (cases "input = []")
    case True
    with "1.prems" show ?thesis by (simp add: write_all_at.simps copy_into_def)
  next
    case False
    show ?thesis
    proof (cases "fd_step f (fd_calls f)")
      case None
      with False "1.prems" show ?thesis
        by (simp add: write_all_at.simps write_at_def io_next_def bnd_def) (auto simp: copy_into_def intro!: exI [of _ 0])
    next
      case (Some k)
      let ?w = "min k (length input)"
      let ?f = "f\<lparr>fd_calls := fd_calls f + 1, fd_bytes := copy_into off (take k input) (fd_bytes f)\<rparr>"
      have "off + length (take k input) - length (fd_bytes f) = 0" using "1.prems"(2) by simp
      then have w: "write_at input off f = (Inr ?w, ?f)"
        using Some by (simp add: write_at_def io_next_def bnd_def modify_def ret_def min.commute)
      show ?thesis
      proof (cases "?w = 0")
        case True
        with False have "k = 0" by (simp add: min_def split: if_splits)
        then have "take k input = []" by simp
        with True False w "1.prems"(1) show ?thesis
          by (auto simp: write_all_at.simps [of input off f] copy_into_def intro!: exI [of _ 0])
      next
        case False': False
        have fits: "off + length (take k input) \<le> length (fd_bytes f)" using "1.prems"(2) by simp
        have "write_all_at input off f = write_all_at (drop ?w input) (off + ?w) ?f"
          by (subst write_all_at.simps) (simp only: False False' w if_False prod.case sum.case)
        with "1.prems"(1) have "write_all_at (drop ?w input) (off + ?w) ?f = (r, f')" by simp
        moreover have "off + ?w + length (drop ?w input) \<le> length (fd_bytes ?f)"
          using "1.prems"(2) fits by simp
        ultimately obtain n where n: "fd_step f' = fd_step f" "n \<le> length (drop ?w input)"
          "fd_bytes f' = copy_into (off + ?w) (take n (drop ?w input)) (fd_bytes ?f)"
          "r = Inr () \<longrightarrow> n = length (drop ?w input)"
          using "1.IH" [OF False w [symmetric] refl False'] by auto
        have tk: "take k input = take ?w input" by (simp add: min_def)
        have "fd_bytes f' = copy_into off (take (?w + n) input) (fd_bytes f)"
          unfolding n(3) using copy_into_append [of off "take ?w input" "take n (drop ?w input)" "fd_bytes f"] n(2)
            "1.prems"(2) by (simp add: tk take_add)
        with n show ?thesis by (auto intro!: exI [of _ "?w + n"])
      qed
    qed
  qed
qed

lemma write_all_at_live:
  assumes "fd_live f" and "off + length input \<le> length (fd_bytes f)"
  shows "\<exists>f'. write_all_at input off f = (Inr (), f')"
  using assms
proof (induction input off f rule: write_all_at.induct)
  case (1 input off f)
  show ?case
  proof (cases "input = []")
    case True
    then show ?thesis by (simp add: write_all_at.simps)
  next
    case False
    from "1.prems"(1) obtain k where k: "0 < k" "fd_step f (fd_calls f) = Some k" by (auto simp: fd_live_def)
    let ?w = "min k (length input)"
    let ?f = "f\<lparr>fd_calls := fd_calls f + 1, fd_bytes := copy_into off (take k input) (fd_bytes f)\<rparr>"
    have "off + length (take k input) - length (fd_bytes f) = 0" using "1.prems"(2) by simp
    then have w: "write_at input off f = (Inr ?w, ?f)"
      using k(2) by (simp add: write_at_def io_next_def bnd_def modify_def ret_def min.commute)
    have ne: "?w \<noteq> 0" using k(1) False by simp
    have "\<exists>f'. write_all_at (drop ?w input) (off + ?w) ?f = (Inr (), f')"
      using "1.prems" by (intro "1.IH" [OF False w [symmetric] refl ne]) (simp_all add: fd_live_def)
    with False w ne show ?thesis by (simp add: write_all_at.simps [of input off f])
  qed
qed

end
