(* ===== verification/File_Refinement.thy ===== *)
theory File_Refinement
  imports File_Store
begin

text \<open>
  \<open>FilePageStore\<close> (src/src/store.rs) refines the in-memory store: on a file whose transfers make
  progress, every operation returns what \<open>MemPageStore\<close> returns on the file's bytes and leaves the
  bytes it leaves, however the transfers are cut into pieces; so the file store meets the contract
  of a page store. On a file that fails, a read that succeeds is still right and a write damages
  at most its own page.
\<close>

section \<open>The file as a store in memory\<close>

definition as_mem :: "file_store \<Rightarrow> mem_store" where
  "as_mem s = \<lparr>mem_page_size = fs_page_size s, mem_pages = fd_bytes (fs_file s)\<rparr>"

definition file_sized :: "file_store \<Rightarrow> bool" where
  "file_sized s \<longleftrightarrow>
     0 < fs_page_size s \<and> length (fd_bytes (fs_file s)) = fs_page_count s * fs_page_size s \<and>
     fs_page_count s * fs_page_size s < 2 ^ 64"

definition file_ok :: "file_store \<Rightarrow> bool" where
  "file_ok s \<longleftrightarrow> file_sized s \<and> fd_live (fs_file s)"

definition file_contents :: "file_store \<Rightarrow> nat \<rightharpoonup> bytes" where
  "file_contents s = mem_contents (as_mem s)"

lemma as_mem_simps [simp]:
  "mem_page_size (as_mem s) = fs_page_size s" "mem_pages (as_mem s) = fd_bytes (fs_file s)"
  by (simp_all add: as_mem_def)

lemma as_mem_count: "file_sized s \<Longrightarrow> mem_page_count (as_mem s) = fs_page_count s"
  by (simp add: mem_page_count_def file_sized_def)

lemma as_mem_ok: "file_sized s \<Longrightarrow> mem_ok (as_mem s)"
  by (simp add: mem_ok_def as_mem_count) (simp add: file_sized_def)

lemma file_offset_eq:
  assumes "file_sized s" and "i < fs_page_count s"
  shows "file_offset i s = Inr (i * fs_page_size s)" "i * fs_page_size s + fs_page_size s \<le> length (fd_bytes (fs_file s))"
proof -
  show le: "i * fs_page_size s + fs_page_size s \<le> length (fd_bytes (fs_file s))"
    using assms page_range_bound [OF assms(2), of "fs_page_size s"] by (simp add: file_sized_def)
  then have "i * fs_page_size s < 2 ^ 64" using assms(1) by (simp add: file_sized_def)
  with assms show "file_offset i s = Inr (i * fs_page_size s)" by (simp add: file_offset_def)
qed

text \<open>Two stores with the same pages have the same bytes.\<close>

lemma mem_store_eqI:
  assumes "mem_ok a" and "mem_ok b" and "mem_page_size a = mem_page_size b" and "mem_page_count a = mem_page_count b"
    and "mem_contents a = mem_contents b"
  shows "a = b"
proof -
  let ?k = "mem_page_size a"
  have k: "0 < ?k" and len: "length (mem_pages a) = mem_page_count a * ?k" "length (mem_pages b) = mem_page_count a * ?k"
    using assms by (simp_all add: mem_ok_def)
  have "mem_pages a ! p = mem_pages b ! p" if p: "p < mem_page_count a * ?k" for p
  proof -
    let ?i = "p div ?k" and ?r = "p mod ?k"
    have i: "?i < mem_page_count a" using p k by (simp add: less_mult_imp_div_less)
    have r: "?r < ?k" and sum: "?i * ?k + ?r = p" using k by simp_all
    have le: "?i * ?k + ?k \<le> mem_page_count a * ?k" by (rule page_range_bound [OF i])
    from assms(5) i assms(3,4) have "slice (?i * ?k) (?i * ?k + ?k) (mem_pages a) = slice (?i * ?k) (?i * ?k + ?k) (mem_pages b)"
      by (auto simp: mem_contents_def dest: fun_cong [of _ _ ?i])
    then have "slice (?i * ?k) (?i * ?k + ?k) (mem_pages a) ! ?r = slice (?i * ?k) (?i * ?k + ?k) (mem_pages b) ! ?r" by simp
    with nth_slice [of "?i * ?k + ?k" "mem_pages a" ?r "?i * ?k"] nth_slice [of "?i * ?k + ?k" "mem_pages b" ?r "?i * ?k"]
      len le r sum show ?thesis by simp
  qed
  with len have "mem_pages a = mem_pages b" by (intro nth_equalityI) simp_all
  with assms(3) show ?thesis by (cases a; cases b) simp
qed

section \<open>Single pages\<close>

lemma file_read_page_run:
  assumes "file_sized s" and "i < fs_page_count s"
  shows "file_read_page i (fs_page_size s) s =
    (case read_exact_at (fs_page_size s) (i * fs_page_size s) (fs_file s) of (r, f) \<Rightarrow> (r, s\<lparr>fs_file := f\<rparr>))"
  using assms(2) file_offset_eq(1) [OF assms]
  by (simp add: file_read_page_def check_page_def comp_simps bnd_gets_run bnd_lift_Inr_run zoom_def)

lemma file_write_page_run:
  assumes "file_sized s" and "i < fs_page_count s" and "length p = fs_page_size s"
  shows "file_write_page i p s =
    (case write_all_at p (i * fs_page_size s) (fs_file s) of (r, f) \<Rightarrow> (r, s\<lparr>fs_file := f\<rparr>))"
  using assms(2,3) file_offset_eq(1) [OF assms(1,2)]
  by (simp add: file_write_page_def check_page_def comp_simps bnd_gets_run bnd_lift_Inr_run zoom_def)

lemma file_page_error:
  assumes "\<not> i < fs_page_count s \<or> len \<noteq> fs_page_size s"
  shows "\<exists>e. file_read_page i len s = (Inl e, s)" "len = length p \<Longrightarrow> \<exists>e. file_write_page i p s = (Inl e, s)"
  using assms by (auto simp: file_read_page_def file_write_page_def check_page_def comp_simps bnd_gets_run bnd_lift_Inl_run)

lemma fd_live_step: "fd_step f' = fd_step f \<Longrightarrow> fd_live f \<Longrightarrow> fd_live f'"
  by (simp add: fd_live_def)

lemma file_read_page_refines:
  assumes "file_ok s"
  shows "fst (file_read_page i len s) = fst (mem_read_page i len (as_mem s)) \<and>
    as_mem (snd (file_read_page i len s)) = as_mem s \<and> file_ok (snd (file_read_page i len s)) \<and>
    fs_page_count (snd (file_read_page i len s)) = fs_page_count s"
proof (cases "i < fs_page_count s \<and> len = fs_page_size s")
  case True
  have sized: "file_sized s" and live: "fd_live (fs_file s)" using assms by (simp_all add: file_ok_def)
  note off = file_offset_eq [OF sized conjunct1 [OF True]]
  obtain f' where f: "read_exact_at (fs_page_size s) (i * fs_page_size s) (fs_file s) =
      (Inr (slice (i * fs_page_size s) (i * fs_page_size s + fs_page_size s) (fd_bytes (fs_file s))), f')"
    using read_exact_at_live [OF live off(2)] by blast
  have eqs: "fd_bytes f' = fd_bytes (fs_file s)" "fd_step f' = fd_step (fs_file s)" using read_exact_at_frame [OF f] by simp_all
  have "mem_read_page i len (as_mem s) =
      (Inr (slice (i * fs_page_size s) (i * fs_page_size s + fs_page_size s) (fd_bytes (fs_file s))), as_mem s)"
    using True as_mem_count [OF sized] by (simp add: mem_read_page_def check_page_def comp_simps Let_def)
  moreover have "file_read_page i len s =
      (Inr (slice (i * fs_page_size s) (i * fs_page_size s + fs_page_size s) (fd_bytes (fs_file s))), s\<lparr>fs_file := f'\<rparr>)"
    using True file_read_page_run [OF sized conjunct1 [OF True]] f by simp
  moreover have "file_ok (s\<lparr>fs_file := f'\<rparr>)"
    using sized live eqs fd_live_step [OF eqs(2)] by (simp add: file_ok_def file_sized_def)
  ultimately show ?thesis using eqs by (simp add: as_mem_def)
next
  case False
  with as_mem_count [of s] assms show ?thesis
    by (auto simp: file_ok_def file_read_page_def mem_read_page_def check_page_def comp_simps)
qed

lemma file_write_page_refines:
  assumes "file_ok s"
  shows "fst (file_write_page i p s) = fst (mem_write_page i p (as_mem s)) \<and>
    as_mem (snd (file_write_page i p s)) = snd (mem_write_page i p (as_mem s)) \<and> file_ok (snd (file_write_page i p s)) \<and>
    fs_page_count (snd (file_write_page i p s)) = fs_page_count s"
proof (cases "i < fs_page_count s \<and> length p = fs_page_size s")
  case True
  have sized: "file_sized s" and live: "fd_live (fs_file s)" using assms by (simp_all add: file_ok_def)
  note off = file_offset_eq [OF sized conjunct1 [OF True]]
  have le: "i * fs_page_size s + length p \<le> length (fd_bytes (fs_file s))" using off(2) True by simp
  obtain f' where f: "write_all_at p (i * fs_page_size s) (fs_file s) = (Inr (), f')"
    using write_all_at_live [OF live le] by blast
  have eqs: "fd_step f' = fd_step (fs_file s)" "fd_bytes f' = copy_into (i * fs_page_size s) p (fd_bytes (fs_file s))"
    using write_all_at_cases [OF f le] by auto
  have "mem_write_page i p (as_mem s) = (Inr (), (as_mem s)\<lparr>mem_pages := copy_into (i * fs_page_size s) p (fd_bytes (fs_file s))\<rparr>)"
    using True as_mem_count [OF sized] by (simp add: mem_write_page_def check_page_def comp_simps)
  moreover have "file_write_page i p s = (Inr (), s\<lparr>fs_file := f'\<rparr>)"
    using True file_write_page_run [OF sized] f by simp
  moreover have "file_ok (s\<lparr>fs_file := f'\<rparr>)"
    using sized live eqs fd_live_step [OF eqs(1)] le by (simp add: file_ok_def file_sized_def)
  ultimately show ?thesis using eqs by (simp add: as_mem_def)
next
  case False
  with as_mem_count [of s] assms show ?thesis
    by (auto simp: file_ok_def file_write_page_def mem_write_page_def check_page_def comp_simps)
qed

section \<open>Runs\<close>

lemma extend_run_ok:
  assumes "\<And>p. p \<in> set order \<Longrightarrow> idxs ! p < fs_page_count s"
  shows "\<exists>run rest. extend_run s idxs prev order = Inr (run, rest) \<and> order = run @ rest \<and>
    (\<forall>i < length run. idxs ! (run ! i) = idxs ! prev + Suc i)"
  using assms
proof (induction order arbitrary: prev)
  case (Cons pos order)
  show ?case
  proof (cases "idxs ! pos = idxs ! prev + 1")
    case True
    obtain run rest where r: "extend_run s idxs pos order = Inr (run, rest)" "order = run @ rest"
      "\<forall>i < length run. idxs ! (run ! i) = idxs ! pos + Suc i" using Cons.IH [of pos] Cons.prems by auto
    have "idxs ! pos < fs_page_count s" using Cons.prems by simp
    then have "file_offset (idxs ! pos) s = Inr (usize_mul (idxs ! pos) (fs_page_size s))"
      by (simp add: file_offset_def)
    with True r show ?thesis
      by (intro exI [of _ "pos # run"] exI [of _ rest]) (auto simp: nth_Cons' simp del: rbind_Inr_iff)
  qed simp
qed simp

lemma next_run_ok:
  assumes "file_sized s" and "\<And>p. p \<in> set (pos # order) \<Longrightarrow> idxs ! p < fs_page_count s"
  shows "\<exists>run rest. next_run s idxs pos order = Inr (run, idxs ! pos * fs_page_size s, rest) \<and> pos # order = run @ rest \<and>
    run \<noteq> [] \<and> (\<forall>i < length run. idxs ! (run ! i) = idxs ! pos + i)"
proof -
  from assms(2) obtain run rest where "extend_run s idxs pos order = Inr (run, rest)" "order = run @ rest"
    "\<forall>i < length run. idxs ! (run ! i) = idxs ! pos + Suc i" using extend_run_ok [of order idxs s pos] by auto
  with file_offset_eq(1) [OF assms(1), of "idxs ! pos"] assms(2) show ?thesis
    by (intro exI [of _ "pos # run"] exI [of _ rest]) (auto simp: next_run_def nth_Cons' simp del: rbind_Inr_iff)
qed

text \<open>The pages of a run lie in the file, one after the other.\<close>

lemma run_fits:
  assumes "file_sized s" and "run \<noteq> []" and "\<forall>i < length run. idxs ! (run ! i) = first + i"
    and "\<forall>p \<in> set run. idxs ! p < fs_page_count s"
  shows "first + length run \<le> fs_page_count s"
    "first * fs_page_size s + length run * fs_page_size s \<le> length (fd_bytes (fs_file s))"
proof -
  have "idxs ! (run ! (length run - 1)) = first + (length run - 1)" using assms(2,3) by simp
  moreover have "run ! (length run - 1) \<in> set run" using assms(2) by simp
  ultimately have "first + (length run - 1) < fs_page_count s" using assms(4) by metis
  then show le: "first + length run \<le> fs_page_count s" using assms(2) by (cases run) auto
  have "(first + length run) * fs_page_size s \<le> fs_page_count s * fs_page_size s" using le by (rule mult_le_mono1)
  then show "first * fs_page_size s + length run * fs_page_size s \<le> length (fd_bytes (fs_file s))"
    using assms(1) by (simp add: file_sized_def add_mult_distrib)
qed

lemma scatter_run_nth:
  assumes "distinct run" and "\<forall>p \<in> set run. p < length pages"
  shows "length (scatter_run k buf run m pages) = length pages \<and>
    (\<forall>q < length pages. q \<notin> set run \<longrightarrow> scatter_run k buf run m pages ! q = pages ! q) \<and>
    (\<forall>i < length run. scatter_run k buf run m pages ! (run ! i) = slice ((m + i) * k) ((m + i) * k + k) buf)"
  using assms
proof (induction run arbitrary: m pages)
  case (Cons p run)
  let ?pages = "pages[p := slice (m * k) (m * k + k) buf]"
  note IH = Cons.IH [of ?pages "m + 1"]
  have "scatter_run k buf run (m + 1) ?pages ! p = slice (m * k) (m * k + k) buf" using IH Cons.prems by auto
  with IH Cons.prems show ?case by (auto simp: Let_def nth_Cons' less_Suc_eq_0_disj)
qed simp

lemma slice_slice: "b' \<le> b - a \<Longrightarrow> slice a' b' (slice a b xs) = slice (a + a') (a + b') xs"
  by (simp add: slice_def drop_take min_def add.commute)

lemma file_contents_page:
  "file_sized s \<Longrightarrow> i < fs_page_count s \<Longrightarrow>
    file_contents s i = Some (slice (i * fs_page_size s) (i * fs_page_size s + fs_page_size s) (fd_bytes (fs_file s)))"
  by (simp add: file_contents_def mem_contents_def as_mem_count)

lemma file_ok_frame:
  assumes "file_ok s" and "fd_step f' = fd_step (fs_file s)" and "length (fd_bytes f') = length (fd_bytes (fs_file s))"
  shows "file_ok (s\<lparr>fs_file := f'\<rparr>)"
  using assms fd_live_step [OF assms(2)] by (simp add: file_ok_def file_sized_def)

text \<open>A batch read that succeeds is right, also on a file that may fail; on a live file it succeeds.\<close>

definition gathered :: "file_store \<Rightarrow> nat list \<Rightarrow> nat list \<Rightarrow> bytes list \<Rightarrow> bytes list \<Rightarrow> bool" where
  "gathered s idxs order pages pages' \<longleftrightarrow>
     length pages' = length pages \<and>
     (\<forall>q < length pages. pages' ! q = (if q \<in> set order then the (file_contents s (idxs ! q)) else pages ! q))"

lemma gathered_run:
  assumes "file_sized s" and "distinct run" and "run \<noteq> []" and "\<forall>i < length run. idxs ! (run ! i) = first + i"
    and "\<forall>p \<in> set run. p < length pages \<and> idxs ! p < fs_page_count s"
  shows "gathered s idxs run pages (scatter_run (fs_page_size s) (slice (first * fs_page_size s)
    (first * fs_page_size s + length run * fs_page_size s) (fd_bytes (fs_file s))) run 0 pages)"
proof -
  let ?k = "fs_page_size s"
  let ?buf = "slice (first * ?k) (first * ?k + length run * ?k) (fd_bytes (fs_file s))"
  have fits: "first + length run \<le> fs_page_count s" using run_fits [OF assms(1,3,4)] assms(5) by simp
  note scatter = scatter_run_nth [OF assms(2), of pages ?k ?buf 0]
  have "scatter_run ?k ?buf run 0 pages ! q = the (file_contents s (idxs ! q))" if q: "q \<in> set run" for q
  proof -
    from q obtain i where i: "i < length run" "q = run ! i" by (auto simp: in_set_conv_nth)
    have "Suc i * ?k \<le> length run * ?k" using i(1) by (intro mult_le_mono1) simp
    then have "slice (i * ?k) (i * ?k + ?k) ?buf = slice (first * ?k + i * ?k) (first * ?k + (i * ?k + ?k)) (fd_bytes (fs_file s))"
      by (intro slice_slice) simp
    with scatter i assms(4,5) file_contents_page [OF assms(1), of "first + i"] fits show ?thesis
      by (simp add: algebra_simps)
  qed
  with scatter assms(5) show ?thesis by (auto simp: gathered_def)
qed

lemma read_runs_cases:
  assumes "read_runs idxs order pages s = (r, s')" and "file_sized s" and "distinct order"
    and "\<forall>p \<in> set order. p < length pages \<and> idxs ! p < fs_page_count s"
  shows "as_mem s' = as_mem s \<and> fs_page_count s' = fs_page_count s \<and> fd_step (fs_file s') = fd_step (fs_file s) \<and>
    (\<forall>pages'. r = Inr pages' \<longrightarrow> gathered s idxs order pages pages') \<and> (fd_live (fs_file s) \<longrightarrow> (\<exists>pages'. r = Inr pages'))"
  using assms
proof (induction idxs order pages s rule: read_runs.induct)
  case (2 idxs pos order pages s)
  let ?k = "fs_page_size s"
  obtain run rest where nr: "next_run s idxs pos order = Inr (run, idxs ! pos * ?k, rest)" "pos # order = run @ rest"
    "run \<noteq> []" "\<forall>i < length run. idxs ! (run ! i) = idxs ! pos + i"
    using next_run_ok [OF "2.prems"(2)] "2.prems"(4) by metis
  have runs: "distinct run" "distinct rest" "set run \<inter> set rest = {}" "set (pos # order) = set run \<union> set rest"
    using "2.prems"(3) unfolding nr(2) by auto
  then have in_range: "\<forall>p \<in> set run. p < length pages \<and> idxs ! p < fs_page_count s"
    "\<forall>p \<in> set rest. p < length pages \<and> idxs ! p < fs_page_count s"
    using "2.prems"(4) by blast+
  have fits: "idxs ! pos * ?k + length run * ?k \<le> length (fd_bytes (fs_file s))"
    using run_fits [OF "2.prems"(2) nr(3,4)] in_range(1) by simp
  obtain x f' where f: "read_exact_at (length run * ?k) (idxs ! pos * ?k) (fs_file s) = (x, f')" by force
  have eqs: "fd_bytes f' = fd_bytes (fs_file s)" "fd_step f' = fd_step (fs_file s)" using read_exact_at_frame [OF f] by simp_all
  let ?s = "s\<lparr>fs_file := f'\<rparr>"
  have mem: "as_mem ?s = as_mem s" using eqs by (simp add: as_mem_def)
  have on: "on_file (read_exact_at (length run * ?k) (idxs ! pos * ?k)) s = (x, ?s)" using f by (simp add: zoom_def)
  show ?case
  proof (cases x)
    case (Inl e)
    with "2.prems"(1) nr(1) on have "r = Inl e" "s' = ?s" by simp_all
    moreover have "\<not> fd_live (fs_file s)" using read_exact_at_live [OF _ fits] f Inl by auto
    ultimately show ?thesis using mem eqs by simp
  next
    case (Inr buf)
    have buf: "buf = slice (idxs ! pos * ?k) (idxs ! pos * ?k + length run * ?k) (fd_bytes (fs_file s))"
      using read_exact_at_Inr f Inr by (simp add: slice_def)
    let ?pages = "scatter_run ?k buf run 0 pages"
    have gathered: "gathered s idxs run pages ?pages"
      unfolding buf by (rule gathered_run [OF "2.prems"(2) runs(1) nr(3,4) in_range(1)])
    then have lens: "length ?pages = length pages" by (simp add: gathered_def)
    have ps: "fs_page_size ?s = ?k" by simp
    have sized: "file_sized ?s" using "2.prems"(2) eqs by (simp add: file_sized_def)
    have "read_runs idxs rest ?pages ?s = (r, s')" using "2.prems"(1) nr(1) on Inr by simp
    from "2.IH" [OF nr(1) refl refl on [symmetric] Inr, unfolded ps, OF this sized runs(2)] in_range(2) lens
    have IH: "as_mem s' = as_mem ?s" "fs_page_count s' = fs_page_count s" "fd_step (fs_file s') = fd_step f'"
      "\<And>pages'. r = Inr pages' \<Longrightarrow> gathered ?s idxs rest ?pages pages'" "fd_live f' \<Longrightarrow> \<exists>pages'. r = Inr pages'"
      by auto
    have "gathered s idxs (pos # order) pages pages'" if "r = Inr pages'" for pages'
      using IH(4) [OF that] gathered runs(3,4) mem by (auto simp: gathered_def file_contents_def)
    with IH mem eqs fd_live_step [OF eqs(2)] show ?thesis by auto
  qed
qed (auto simp: gathered_def)

lemma read_runs_ok:
  assumes "file_ok s" and "distinct order" and "\<forall>p \<in> set order. p < length pages \<and> idxs ! p < fs_page_count s"
  shows "\<exists>pages' s'. read_runs idxs order pages s = (Inr pages', s') \<and> gathered s idxs order pages pages' \<and>
    file_ok s' \<and> as_mem s' = as_mem s \<and> fs_page_count s' = fs_page_count s"
proof -
  obtain r s' where r: "read_runs idxs order pages s = (r, s')" by force
  from read_runs_cases [OF r _ assms(2,3)] assms(1) show ?thesis
    by (auto simp: r file_ok_def file_sized_def as_mem_def fd_live_def)
qed

lemma slice_copy_into_inside:
  assumes "off + length src \<le> length out" and "off \<le> a" and "b \<le> off + length src"
  shows "slice a b (copy_into off src out) = slice (a - off) (b - off) src"
proof (rule nth_equalityI)
  show "length (slice a b (copy_into off src out)) = length (slice (a - off) (b - off) src)"
    using assms by simp
  show "slice a b (copy_into off src out) ! i = slice (a - off) (b - off) src ! i"
    if "i < length (slice a b (copy_into off src out))" for i
    using assms that by (auto simp: nth_slice nth_copy_into)
qed

lemma page_of_copy:
  assumes "\<And>d. d \<in> set ds \<Longrightarrow> length d = k" and "a * k + length ds * k \<le> length xs" and "j * k + k \<le> length xs"
  shows "slice (j * k) (j * k + k) (copy_into (a * k) (concat ds) xs) =
    (if a \<le> j \<and> j < a + length ds then ds ! (j - a) else slice (j * k) (j * k + k) xs)"
proof -
  have len: "length (concat ds) = length ds * k" using assms(1) by (rule length_concat_equal)
  have fits: "a * k + length (concat ds) \<le> length xs" using assms(2) len by simp
  show ?thesis
  proof (cases "a \<le> j \<and> j < a + length ds")
    case True
    then have ak: "a * k \<le> j * k" by (intro mult_le_mono1) simp
    from True have "Suc j * k \<le> (a + length ds) * k" by (intro mult_le_mono1) simp
    then have "j * k + k \<le> a * k + length (concat ds)" using len by (simp add: add_mult_distrib)
    then have "slice (j * k) (j * k + k) (copy_into (a * k) (concat ds) xs) =
        slice (j * k - a * k) (j * k + k - a * k) (concat ds)"
      by (rule slice_copy_into_inside [OF fits ak])
    also have "\<dots> = slice ((j - a) * k) ((j - a) * k + k) (concat ds)" using ak by (simp add: diff_mult_distrib)
    also have "\<dots> = ds ! (j - a)" using True assms(1) by (intro slice_concat) auto
    finally show ?thesis using True by simp
  next
    case False
    then consider "Suc j * k \<le> a * k" | "(a + length ds) * k \<le> j * k" by (metis Suc_leI mult_le_mono1 not_le)
    then have "j * k + k \<le> a * k \<or> a * k + length (concat ds) \<le> j * k"
      by cases (simp_all add: len add_mult_distrib)
    with False slice_copy_into_other [OF fits assms(3)] show ?thesis by auto
  qed
qed

lemma map_of_keys_None: "(\<And>p. p \<in> set xs \<Longrightarrow> f p \<noteq> j) \<Longrightarrow> map_of (map (\<lambda>p. (f p, g p)) xs) j = None"
  by (induction xs) auto

lemma map_of_keys_Some:
  "distinct (map f xs) \<Longrightarrow> p \<in> set xs \<Longrightarrow> map_of (map (\<lambda>p. (f p, g p)) xs) (f p) = Some (g p)"
  by (intro map_of_is_SomeI) (auto simp: o_def)

lemma write_run_ok:
  assumes "file_ok s" and "run \<noteq> []" and "\<forall>i < length run. idxs ! (run ! i) = first + i"
    and "\<forall>p \<in> set run. idxs ! p < fs_page_count s \<and> length (pgs ! p) = fs_page_size s"
  shows "\<exists>f'. on_file (write_all_at (concat (map ((!) pgs) run)) (first * fs_page_size s)) s = (Inr (), s\<lparr>fs_file := f'\<rparr>) \<and>
    file_ok (s\<lparr>fs_file := f'\<rparr>) \<and>
    file_contents (s\<lparr>fs_file := f'\<rparr>) = file_contents s ++ map_of (map (\<lambda>p. (idxs ! p, pgs ! p)) run)"
proof -
  let ?k = "fs_page_size s" and ?ds = "map ((!) pgs) run"
  have sized: "file_sized s" and live: "fd_live (fs_file s)" using assms(1) by (simp_all add: file_ok_def)
  have fits: "first + length run \<le> fs_page_count s" "first * ?k + length run * ?k \<le> length (fd_bytes (fs_file s))"
    using run_fits [OF sized assms(2,3)] assms(4) by simp_all
  have ds: "length d = ?k" if "d \<in> set ?ds" for d using that assms(4) by auto
  then have "length (concat ?ds) = length ?ds * ?k" by (rule length_concat_equal)
  with fits(2) have le: "first * ?k + length (concat ?ds) \<le> length (fd_bytes (fs_file s))" by simp
  obtain f' where f: "write_all_at (concat ?ds) (first * ?k) (fs_file s) = (Inr (), f')"
    using write_all_at_live [OF live le] by blast
  have eqs: "fd_step f' = fd_step (fs_file s)" "fd_bytes f' = copy_into (first * ?k) (concat ?ds) (fd_bytes (fs_file s))"
    using write_all_at_cases [OF f le] by auto
  let ?s = "s\<lparr>fs_file := f'\<rparr>" and ?m = "map_of (map (\<lambda>p. (idxs ! p, pgs ! p)) run)"
  have ok: "file_ok ?s" using le eqs by (intro file_ok_frame [OF assms(1)]) simp_all
  have inj: "distinct (map ((!) idxs) run)"
    using assms(3) by (auto simp: distinct_conv_nth)
  have "file_contents ?s j = (file_contents s ++ ?m) j" for j
  proof (cases "j < fs_page_count s")
    case False
    then have "?m j = None" using assms(4) by (intro map_of_keys_None) auto
    with False as_mem_count [OF sized] as_mem_count [of ?s] ok show ?thesis
      by (simp add: file_contents_def mem_contents_def map_add_def file_ok_def)
  next
    case True
    have page: "file_contents ?s j = Some (slice (j * ?k) (j * ?k + ?k) (fd_bytes f'))"
      using file_contents_page [of ?s j] ok True by (simp add: file_ok_def)
    have jk: "j * ?k + ?k \<le> length (fd_bytes (fs_file s))" by (rule file_offset_eq(2) [OF sized True])
    note slice = page_of_copy [of ?ds ?k first "fd_bytes (fs_file s)" j, OF ds _ jk]
    show ?thesis
    proof (cases "first \<le> j \<and> j < first + length run")
      case True
      then have i: "j - first < length run" "idxs ! (run ! (j - first)) = j" using assms(3) by auto
      have "?m j = Some (pgs ! (run ! (j - first)))"
        using map_of_keys_Some [OF inj, of "run ! (j - first)" "(!) pgs"] i by simp
      with True i(1) page slice fits(2) eqs(2) show ?thesis by (simp add: map_add_def)
    next
      case False
      have "?m j = None"
        using False assms(3) by (intro map_of_keys_None) (auto simp: in_set_conv_nth)
      with False page slice fits(2) eqs(2) file_contents_page [OF sized \<open>j < fs_page_count s\<close>]
      show ?thesis by (auto simp: map_add_def)
    qed
  qed
  then have "file_contents ?s = file_contents s ++ ?m" by blast
  with ok f show ?thesis by (auto simp: zoom_def)
qed

lemma write_runs_ok:
  assumes "file_ok s" and "distinct (map ((!) idxs) order)"
    and "\<forall>p \<in> set order. idxs ! p < fs_page_count s \<and> length (pgs ! p) = fs_page_size s"
  shows "\<exists>s'. write_runs idxs pgs order s = (Inr (), s') \<and> file_ok s' \<and>
    fs_page_size s' = fs_page_size s \<and> fs_page_count s' = fs_page_count s \<and>
    file_contents s' = file_contents s ++ map_of (map (\<lambda>p. (idxs ! p, pgs ! p)) order)"
  using assms
proof (induction idxs pgs order s rule: write_runs.induct)
  case (2 idxs pgs pos order s)
  let ?k = "fs_page_size s"
  have sized: "file_sized s" using "2.prems"(1) by (simp add: file_ok_def)
  obtain run rest where nr: "next_run s idxs pos order = Inr (run, idxs ! pos * ?k, rest)" "pos # order = run @ rest"
    "run \<noteq> []" "\<forall>i < length run. idxs ! (run ! i) = idxs ! pos + i"
    using next_run_ok [OF sized] "2.prems"(3) by metis
  have dist: "distinct (map ((!) idxs) (run @ rest))" using "2.prems"(2) unfolding nr(2) .
  have pages: "\<forall>p \<in> set (run @ rest). idxs ! p < fs_page_count s \<and> length (pgs ! p) = ?k"
    using "2.prems"(3) unfolding nr(2) .
  obtain f' where f: "on_file (write_all_at (concat (map ((!) pgs) run)) (idxs ! pos * ?k)) s = (Inr (), s\<lparr>fs_file := f'\<rparr>)"
    "file_ok (s\<lparr>fs_file := f'\<rparr>)"
    "file_contents (s\<lparr>fs_file := f'\<rparr>) = file_contents s ++ map_of (map (\<lambda>p. (idxs ! p, pgs ! p)) run)"
    using write_run_ok [OF "2.prems"(1) nr(3,4)] pages by auto
  have "\<exists>s'. write_runs idxs pgs rest (s\<lparr>fs_file := f'\<rparr>) = (Inr (), s') \<and> file_ok s' \<and>
    fs_page_size s' = fs_page_size (s\<lparr>fs_file := f'\<rparr>) \<and> fs_page_count s' = fs_page_count (s\<lparr>fs_file := f'\<rparr>) \<and>
    file_contents s' = file_contents (s\<lparr>fs_file := f'\<rparr>) ++ map_of (map (\<lambda>p. (idxs ! p, pgs ! p)) rest)"
    using dist pages f(2) by (intro "2.IH" [OF nr(1) refl refl refl f(1) [symmetric] refl]) simp_all
  then obtain s' where r: "write_runs idxs pgs rest (s\<lparr>fs_file := f'\<rparr>) = (Inr (), s')" "file_ok s'"
    "fs_page_size s' = ?k" "fs_page_count s' = fs_page_count s"
    "file_contents s' = file_contents s ++ map_of (map (\<lambda>p. (idxs ! p, pgs ! p)) run) ++
      map_of (map (\<lambda>p. (idxs ! p, pgs ! p)) rest)"
    using f(3) by auto
  have "dom (map_of (map (\<lambda>p. (idxs ! p, pgs ! p)) run)) \<inter> dom (map_of (map (\<lambda>p. (idxs ! p, pgs ! p)) rest)) = {}"
    using dist by (auto simp: dom_map_of_conv_image_fst)
  from map_add_comm [OF this] have "file_contents s' = file_contents s ++ map_of (map (\<lambda>p. (idxs ! p, pgs ! p)) (run @ rest))"
    unfolding r(5) map_append map_of_append by (metis map_add_assoc)
  moreover have "write_runs idxs pgs (pos # order) s = (Inr (), s')" using nr(1) f(1) r(1) by simp
  ultimately show ?case using r(2-4) unfolding nr(2) by (intro exI [of _ s']) simp
qed simp

section \<open>The contract\<close>

lemma file_kept:
  "file_ok s' \<Longrightarrow> as_mem s' = as_mem s \<Longrightarrow> fs_page_count s' = fs_page_count s \<Longrightarrow>
    kept file_ok fs_page_size fs_page_count s s' \<and> file_contents s' = file_contents s"
  by (auto simp: kept_def file_contents_def as_mem_def)

interpretation file_io: page_io fs_page_size fs_page_count file_read_page file_write_page file_ok file_contents
proof unfold_locales
  fix s i p
  assume s: "file_ok s" "file_contents s i = Some p"
  then have m: "mem_ok (as_mem s)" "mem_contents (as_mem s) i = Some p" "mem_page_count (as_mem s) = fs_page_count s"
    by (simp_all add: file_ok_def file_contents_def as_mem_ok as_mem_count)
  show "i < fs_page_count s" using mem_io.page_index [OF m(1,2)] m(3) by simp
  show "length p = fs_page_size s" using mem_io.page_length [OF m(1,2)] by simp
  have "mem_read_page i (fs_page_size s) (as_mem s) = (Inr p, as_mem s)" using mem_read_page_eq [OF m(1,2)] by simp
  with file_read_page_refines [OF s(1), of i "fs_page_size s"]
  show "\<exists>s'. file_read_page i (fs_page_size s) s = (Inr p, s') \<and> kept file_ok fs_page_size fs_page_count s s' \<and>
      file_contents s' = file_contents s"
    using file_kept [of "snd (file_read_page i (fs_page_size s) s)" s]
    by (intro exI [of _ "snd (file_read_page i (fs_page_size s) s)"]) (simp add: prod_eq_iff)
next
  fix s i and p :: bytes
  assume s: "file_ok s" "i < fs_page_count s" "length p = fs_page_size s"
  have m: "mem_ok (as_mem s)" "mem_page_count (as_mem s) = fs_page_count s"
    using s(1) by (simp_all add: file_ok_def as_mem_ok as_mem_count)
  obtain m' where "mem_write_page i p (as_mem s) = (Inr (), m')" "kept mem_ok mem_page_size mem_page_count (as_mem s) m'"
    "mem_contents m' = (mem_contents (as_mem s))(i \<mapsto> p)"
    using mem_write_page_eq [OF m(1), of i p] s(2,3) m(2) by auto
  with file_write_page_refines [OF s(1), of i p]
  show "\<exists>s'. file_write_page i p s = (Inr (), s') \<and> kept file_ok fs_page_size fs_page_count s s' \<and>
      file_contents s' = (file_contents s)(i \<mapsto> p)"
    by (intro exI [of _ "snd (file_write_page i p s)"])
      (auto simp: kept_def file_contents_def prod_eq_iff dest: arg_cong [of _ _ mem_page_size])
qed

lemma page_order_facts:
  "set (sort_key f (page_order idxs)) = {..<length idxs}" "distinct (sort_key f (page_order idxs))"
  by (auto simp: page_order_def)

lemma file_read_pages_ok:
  assumes "file_ok s" and "\<And>i. i \<in> set idxs \<Longrightarrow> file_contents s i = Some (f i)"
  shows "\<exists>s'. file_read_pages idxs s = (Inr (map f idxs), s') \<and> file_ok s' \<and> as_mem s' = as_mem s \<and>
    fs_page_count s' = fs_page_count s"
proof -
  let ?order = "sort_key (\<lambda>pos. idxs ! pos) (page_order idxs)"
  let ?pages = "replicate (length idxs) (replicate (fs_page_size s) 0)"
  note order = page_order_facts [of "\<lambda>pos. idxs ! pos" idxs]
  have "\<forall>p \<in> set ?order. p < length ?pages \<and> idxs ! p < fs_page_count s"
    using file_io.page_index [OF assms(1)] assms(2) order(1) by simp
  from read_runs_ok [OF assms(1) order(2) this] obtain pages' s' where r: "read_runs idxs ?order ?pages s = (Inr pages', s')"
    "length pages' = length idxs" "\<forall>q < length idxs. pages' ! q = the (file_contents s (idxs ! q))"
    "file_ok s'" "as_mem s' = as_mem s" "fs_page_count s' = fs_page_count s"
    using order(1) by (auto simp: gathered_def)
  have "pages' = map f idxs" using r(2,3) assms(2) by (intro nth_equalityI) simp_all
  with r show ?thesis by (simp add: file_read_pages_def comp_simps Let_def)
qed

lemma sorted_adjacent_distinct:
  "sorted xs \<Longrightarrow> \<not> list_ex (\<lambda>(a, b). a = b) (zip xs (tl xs)) \<Longrightarrow> distinct xs"
proof (induction xs)
  case (Cons x xs)
  then show ?case by (cases xs) auto
qed simp

lemma no_duplicate_pages:
  assumes "\<not> has_duplicate_pages idxs (sort_key (\<lambda>pos. idxs ! pos) (page_order idxs))"
  shows "distinct (map ((!) idxs) (sort_key (\<lambda>pos. idxs ! pos) (page_order idxs)))"
proof (rule sorted_adjacent_distinct)
  let ?order = "sort_key (\<lambda>pos. idxs ! pos) (page_order idxs)"
  show "sorted (map ((!) idxs) ?order)" by simp
  have "zip (map ((!) idxs) ?order) (tl (map ((!) idxs) ?order)) =
      map (\<lambda>(a, b). (idxs ! a, idxs ! b)) (zip ?order (tl ?order))"
    by (simp add: map_tl [symmetric] zip_map_map)
  with assms show "\<not> list_ex (\<lambda>(a, b). a = b) (zip (map ((!) idxs) ?order) (tl (map ((!) idxs) ?order)))"
    by (auto simp: has_duplicate_pages_def list_ex_iff)
qed

lemma upds_as_map_of:
  assumes "distinct (map ((!) idxs) order)" and "set order = {..<length idxs}" and "distinct order"
    and "length idxs = length pgs"
  shows "m(idxs [\<mapsto>] pgs) = m ++ map_of (map (\<lambda>p. (idxs ! p, pgs ! p)) order)"
proof -
  let ?h = "\<lambda>p. (idxs ! p, pgs ! p)"
  have zip: "zip idxs pgs = map ?h [0..<length idxs]" using assms(4) by (intro nth_equalityI) simp_all
  have "mset order = mset [0..<length idxs]"
    using assms(2,3) by (metis set_eq_iff_mset_eq_distinct distinct_upt lessThan_atLeast0 set_upt)
  then have "mset (map ((!) idxs) order) = mset (map ((!) idxs) [0..<length idxs])" by simp
  then have d: "distinct (map ((!) idxs) [0..<length idxs])" using assms(1) mset_eq_imp_distinct_iff by blast
  have "map_of (rev (zip idxs pgs)) = map_of (map ?h order)"
  proof (rule map_of_eqI)
    show "set (map fst (rev (zip idxs pgs))) = set (map fst (map ?h order))"
      unfolding zip by (simp add: assms(2) image_comp o_def lessThan_atLeast0)
    show "\<forall>k \<in> set (map fst (rev (zip idxs pgs))). map_of (rev (zip idxs pgs)) k = map_of (map ?h order) k"
    proof
      fix k assume "k \<in> set (map fst (rev (zip idxs pgs)))"
      then obtain p where p: "p < length idxs" "k = idxs ! p" unfolding zip by auto
      have "map_of (rev (zip idxs pgs)) k = Some (pgs ! p)"
        unfolding p(2) zip by (intro map_of_is_SomeI) (use d p(1) in \<open>auto simp: o_def simp flip: rev_map\<close>)
      also have "\<dots> = map_of (map ?h order) k"
        unfolding p(2) using assms(1,2) p(1) by (intro map_of_keys_Some [symmetric]) simp_all
      finally show "map_of (rev (zip idxs pgs)) k = map_of (map ?h order) k" .
    qed
  qed
  then show ?thesis by (simp add: map_upds_def)
qed

lemma require_True_bnd: "bnd (require True e) f = f ()"
  by (simp add: fun_eq_iff comp_simps)

lemma citer_write_pages:
  "(\<And>p. p \<in> set pgs \<Longrightarrow> length p = n) \<Longrightarrow>
    citer (\<lambda>(i, p). bnd (require (length p = n) e) (\<lambda>_. w i p)) (zip idxs pgs) = citer (\<lambda>(i, p). w i p) (zip idxs pgs)"
proof (induction pgs arbitrary: idxs)
  case (Cons p pgs)
  show ?case
  proof (cases idxs)
    case (Cons i js)
    with Cons.IH [of js] Cons.prems show ?thesis by (simp add: require_True_bnd)
  qed simp
qed simp

lemma file_write_pages_ok:
  assumes "file_ok s" and "length idxs = length pgs" and "\<And>i. i \<in> set idxs \<Longrightarrow> i < fs_page_count s"
    and "\<And>p. p \<in> set pgs \<Longrightarrow> length p = fs_page_size s"
  shows "\<exists>s'. file_write_pages idxs pgs s = (Inr (), s') \<and> kept file_ok fs_page_size fs_page_count s s' \<and>
    file_contents s' = (file_contents s)(idxs [\<mapsto>] pgs)"
proof -
  let ?order = "sort_key (\<lambda>pos. idxs ! pos) (page_order idxs)"
  note order = page_order_facts [of "\<lambda>pos. idxs ! pos" idxs]
  have req: "bnd (citer (\<lambda>page. require (length page = fs_page_size s) e) pgs) f s = f () s" for e and f :: "unit \<Rightarrow> (file_store, unit) comp"
    using assms(4) by (intro bnd_Inr citer_require_all)
  have start: "file_write_pages idxs pgs s =
      (if has_duplicate_pages idxs ?order then citer (\<lambda>(i, p). file_write_page i p) (zip idxs pgs) s
       else write_runs idxs pgs ?order s)"
    using assms(2) by (simp add: file_write_pages_def comp_simps bnd_gets_run req Let_def)
  show ?thesis
  proof (cases "has_duplicate_pages idxs ?order")
    case True
    have eq: "citer (\<lambda>(i, p). bnd (require (length p = fs_page_size s) e) (\<lambda>_. file_write_page i p)) (zip idxs pgs) =
        citer (\<lambda>(i, p). file_write_page i p) (zip idxs pgs)" for e
      by (rule citer_write_pages) (rule assms(4))
    have "default_write_pages fs_page_size file_write_page idxs pgs s = citer (\<lambda>(i, p). file_write_page i p) (zip idxs pgs) s"
      using assms(2) by (simp add: default_write_pages_def comp_simps bnd_gets_run eq)
    with True start file_io.default_write [OF assms] show ?thesis by simp
  next
    case False
    note dist = no_duplicate_pages [OF False]
    have "\<forall>p \<in> set ?order. idxs ! p < fs_page_count s \<and> length (pgs ! p) = fs_page_size s"
      using assms(2-4) order(1) by simp
    from write_runs_ok [OF assms(1) dist this] obtain s' where r: "write_runs idxs pgs ?order s = (Inr (), s')" "file_ok s'"
      "fs_page_size s' = fs_page_size s" "fs_page_count s' = fs_page_count s"
      "file_contents s' = file_contents s ++ map_of (map (\<lambda>p. (idxs ! p, pgs ! p)) ?order)" by blast
    from r(5) upds_as_map_of [OF dist order assms(2)] have "file_contents s' = (file_contents s)(idxs [\<mapsto>] pgs)" by simp
    with False start r(1-4) show ?thesis by (simp add: kept_def)
  qed
qed

lemma file_flush_ok:
  assumes "file_ok s"
  shows "\<exists>s'. file_flush s = (Inr (), s') \<and> file_ok s' \<and> as_mem s' = as_mem s \<and> fs_page_count s' = fs_page_count s"
proof -
  from assms obtain k where k: "fd_step (fs_file s) (fd_calls (fs_file s)) = Some k" by (auto simp: file_ok_def fd_live_def)
  let ?f = "(fs_file s)\<lparr>fd_calls := fd_calls (fs_file s) + 1\<rparr>"
  have "file_flush s = (Inr (), s\<lparr>fs_file := ?f\<rparr>)"
    using k by (simp add: file_flush_def bnd_def zoom_def io_next_def ret_def)
  moreover have "file_ok (s\<lparr>fs_file := ?f\<rparr>)" by (intro file_ok_frame [OF assms]) simp_all
  ultimately show ?thesis by (simp add: as_mem_def)
qed

interpretation disk: page_store_spec file_store_ops file_ok file_contents
proof unfold_locales
  show "\<exists>s'. ps_read_pages file_store_ops idxs s = (Inr (map f idxs), s') \<and>
      kept file_ok (ps_page_size file_store_ops) (ps_page_count file_store_ops) s s' \<and> file_contents s' = file_contents s"
    if "file_ok s" "\<And>i. i \<in> set idxs \<Longrightarrow> file_contents s i = Some (f i)" for s idxs f
    using file_read_pages_ok [OF that] by (auto simp: file_store_ops_def dest!: file_kept)
  show "\<exists>s'. ps_flush file_store_ops s = (Inr (), s') \<and>
      kept file_ok (ps_page_size file_store_ops) (ps_page_count file_store_ops) s s' \<and> file_contents s' = file_contents s"
    if "file_ok s" for s
    using file_flush_ok [OF that] by (auto simp: file_store_ops_def dest!: file_kept)
qed (simp_all add: file_store_ops_def file_io.page_index file_io.page_length file_io.read_page file_io.write_page
    file_write_pages_ok)

section \<open>Properties\<close>

lemma mem_read_page_frame: "snd (mem_read_page i len m) = m"
  by (auto simp: mem_read_page_def bnd_def gets_def lift_def split: sum.splits)

lemma file_read_pages_cases:
  assumes "file_sized s" and "\<forall>j \<in> set idxs. j < fs_page_count s"
  shows "case file_read_pages idxs s of (r, s') \<Rightarrow>
    as_mem s' = as_mem s \<and> (\<forall>pgs. r = Inr pgs \<longrightarrow> map Some pgs = map (file_contents s) idxs)"
proof -
  let ?order = "sort_key (\<lambda>pos. idxs ! pos) (page_order idxs)"
  let ?pages = "replicate (length idxs) (replicate (fs_page_size s) 0)"
  note order = page_order_facts [of "\<lambda>pos. idxs ! pos" idxs]
  obtain r s' where r: "read_runs idxs ?order ?pages s = (r, s')" by force
  have "\<forall>p \<in> set ?order. p < length ?pages \<and> idxs ! p < fs_page_count s" using assms(2) order(1) by simp
  from read_runs_cases [OF r assms(1) order(2) this]
  have "as_mem s' = as_mem s" "\<And>pgs. r = Inr pgs \<Longrightarrow> gathered s idxs ?order ?pages pgs" by simp_all
  moreover have "map Some pgs = map (file_contents s) idxs" if "gathered s idxs ?order ?pages pgs" for pgs
    using that assms order(1) file_contents_page [OF assms(1)]
    by (auto simp: gathered_def list_eq_iff_nth_eq)
  ultimately show ?thesis using r by (simp add: file_read_pages_def comp_simps Let_def)
qed

text \<open>One operation on the file and the operation in memory it stands for.\<close>

definition refines_mem :: "(file_store, 'a) comp \<Rightarrow> (mem_store, 'a) comp \<Rightarrow> file_store \<Rightarrow> bool" where
  "refines_mem c m s \<longleftrightarrow>
     (case c s of (r, s') \<Rightarrow> m (as_mem s) = (r, as_mem s') \<and> file_ok s' \<and> fs_page_count s' = fs_page_count s)"

lemma mem_batch_unique:
  assumes "mem_ok m'" "mem_page_size m' = fs_page_size s'" "mem_page_count m' = fs_page_count s'"
    and "mem_contents m' = file_contents s'" and "file_ok s'"
  shows "m' = as_mem s'"
  using assms by (intro mem_store_eqI) (simp_all add: file_ok_def as_mem_ok as_mem_count file_contents_def)

text \<open>
  C36. The file store is the in-memory store on the bytes of the file. On a file whose transfers make
  progress (however few bytes each moves), every single-page call, valid or not, and every batch of
  pages that exist gives the result of \<open>MemPageStore\<close> and leaves the bytes it leaves: sorting a
  batch, joining consecutive pages into one transfer, and falling back to single writes when a page
  occurs twice are invisible.
\<close>

theorem file_store_refines_memory:
  assumes "file_ok s"
  shows "refines_mem (file_read_page i len) (mem_read_page i len) s \<and>
    refines_mem (file_write_page i p) (mem_write_page i p) s \<and>
    refines_mem file_flush (ps_flush mem_store_ops) s \<and>
    ((\<forall>j \<in> set idxs. j < fs_page_count s) \<longrightarrow>
      refines_mem (file_read_pages idxs) (ps_read_pages mem_store_ops idxs) s \<and>
      (length idxs = length pgs \<and> (\<forall>p \<in> set pgs. length p = fs_page_size s) \<longrightarrow>
        refines_mem (file_write_pages idxs pgs) (ps_write_pages mem_store_ops idxs pgs) s))"
proof -
  have sized: "file_sized s" using assms by (simp add: file_ok_def)
  note m = as_mem_ok [OF sized] as_mem_count [OF sized]
  have read: "refines_mem (file_read_pages idxs) (ps_read_pages mem_store_ops idxs) s"
    if "\<forall>j \<in> set idxs. j < fs_page_count s"
  proof -
    have c: "file_contents s j = Some (the (file_contents s j))" if "j \<in> set idxs" for j
      using file_contents_page [OF sized, of j] \<open>\<forall>j \<in> set idxs. j < fs_page_count s\<close> that by simp
    obtain s' where "file_read_pages idxs s = (Inr (map (\<lambda>j. the (file_contents s j)) idxs), s')" "file_ok s'"
      "as_mem s' = as_mem s" "fs_page_count s' = fs_page_count s"
      using file_read_pages_ok [OF assms c] by blast
    moreover obtain m' where "ps_read_pages mem_store_ops idxs (as_mem s) = (Inr (map (\<lambda>j. the (file_contents s j)) idxs), m')"
      "kept mem_ok mem_page_size mem_page_count (as_mem s) m'" "mem_contents m' = mem_contents (as_mem s)"
      using mem.read_pages [OF m(1), of idxs "\<lambda>j. the (file_contents s j)"] c
      by (auto simp: file_contents_def mem_store_ops_def)
    moreover from this have "m' = as_mem s" using m(1) by (intro mem_store_eqI) (auto simp: kept_def)
    ultimately show ?thesis by (simp add: refines_mem_def)
  qed
  have wr: "refines_mem (file_write_pages idxs pgs) (ps_write_pages mem_store_ops idxs pgs) s"
    if w: "\<forall>j \<in> set idxs. j < fs_page_count s" "length idxs = length pgs" "\<forall>p \<in> set pgs. length p = fs_page_size s"
  proof -
    obtain s' where s': "file_write_pages idxs pgs s = (Inr (), s')" "kept file_ok fs_page_size fs_page_count s s'"
      "file_contents s' = (file_contents s)(idxs [\<mapsto>] pgs)"
      using file_write_pages_ok [OF assms w(2)] w(1,3) by auto
    moreover obtain m' where m': "ps_write_pages mem_store_ops idxs pgs (as_mem s) = (Inr (), m')"
      "kept mem_ok mem_page_size mem_page_count (as_mem s) m'" "mem_contents m' = (mem_contents (as_mem s))(idxs [\<mapsto>] pgs)"
      using mem.write_pages [OF m(1) w(2)] w(1,3) m(2) by (auto simp: mem_store_ops_def)
    moreover have "m' = as_mem s'"
      using s'(2,3) m'(2,3) m(2) by (intro mem_batch_unique) (simp_all add: kept_def file_contents_def)
    ultimately show ?thesis by (simp add: refines_mem_def kept_def)
  qed
  have "refines_mem (file_read_page i len) (mem_read_page i len) s"
    using file_read_page_refines [OF assms, of i len] mem_read_page_frame [of i len "as_mem s"]
    by (simp add: refines_mem_def prod_eq_iff split_beta)
  moreover have "refines_mem (file_write_page i p) (mem_write_page i p) s"
    using file_write_page_refines [OF assms, of i p] by (simp add: refines_mem_def prod_eq_iff split_beta)
  moreover have "refines_mem file_flush (ps_flush mem_store_ops) s"
    using file_flush_ok [OF assms] by (auto simp: refines_mem_def mem_store_ops_def comp_simps)
  ultimately show ?thesis using read wr by blast
qed

text \<open>Three pages of two bytes, moved byte by byte.\<close>

definition slow_file :: "nat option \<Rightarrow> file_store" where
  "slow_file step = \<lparr>fs_page_size = 2, fs_page_count = 3,
     fs_file = \<lparr>fd_bytes = [1, 2, 3, 4, 5, 6], fd_calls = 0, fd_step = (\<lambda>n. if n < 2 then Some 1 else step)\<rparr>\<rparr>"

theorem file_store_refines_memory_witness:
  "refines_mem (file_read_pages [2, 0, 1, 2]) (ps_read_pages mem_store_ops [2, 0, 1, 2]) (slow_file (Some 1)) \<and>
    refines_mem (file_write_pages [1, 1] [[7, 7], [8, 8]]) (ps_write_pages mem_store_ops [1, 1] [[7, 7], [8, 8]])
      (slow_file (Some 1))"
proof -
  have "file_ok (slow_file (Some 1))" by (auto simp: file_ok_def file_sized_def fd_live_def slow_file_def)
  from file_store_refines_memory [OF this, where idxs = "[2, 0, 1, 2]"]
    file_store_refines_memory [OF this, where idxs = "[1, 1]" and pgs = "[[7, 7], [8, 8]]"]
  show ?thesis by (simp add: slow_file_def)
qed

text \<open>
  C37. Failing transfers cannot corrupt other pages or fake a read. On any file of the right length,
  whatever the transfers move and whenever they fail: a read of a page, or a batch of reads of pages
  that exist, that returns data returns the stored pages, and reads change nothing; a write that
  succeeds has stored its page, and a write that fails has left every other page as it was.
\<close>

theorem file_faults_contained:
  assumes "file_sized s" and "i < fs_page_count s"
  shows "(case file_read_page i (fs_page_size s) s of (r, s') \<Rightarrow>
      as_mem s' = as_mem s \<and> (\<forall>p. r = Inr p \<longrightarrow> file_contents s i = Some p)) \<and>
    ((\<forall>j \<in> set idxs. j < fs_page_count s) \<longrightarrow> (case file_read_pages idxs s of (r, s') \<Rightarrow>
      as_mem s' = as_mem s \<and> (\<forall>pgs. r = Inr pgs \<longrightarrow> map Some pgs = map (file_contents s) idxs))) \<and>
    (length p = fs_page_size s \<longrightarrow> (case file_write_page i p s of (r, s') \<Rightarrow>
      file_sized s' \<and> (\<forall>j. j \<noteq> i \<longrightarrow> file_contents s' j = file_contents s j) \<and>
      (r = Inr () \<longrightarrow> file_contents s' i = Some p)))"
proof -
  let ?k = "fs_page_size s"
  note off = file_offset_eq [OF assms]
  obtain r f where f: "read_exact_at ?k (i * ?k) (fs_file s) = (r, f)" by force
  have one: "case file_read_page i ?k s of (r, s') \<Rightarrow>
      as_mem s' = as_mem s \<and> (\<forall>p. r = Inr p \<longrightarrow> file_contents s i = Some p)"
    using file_read_page_run [OF assms] f read_exact_at_frame [OF f] read_exact_at_Inr [of ?k "i * ?k" "fs_file s" _ f]
      file_contents_page [OF assms] by (auto simp: as_mem_def slice_def)
  have many: "case file_read_pages idxs s of (r, s') \<Rightarrow>
      as_mem s' = as_mem s \<and> (\<forall>pgs. r = Inr pgs \<longrightarrow> map Some pgs = map (file_contents s) idxs)"
    if "\<forall>j \<in> set idxs. j < fs_page_count s" by (rule file_read_pages_cases [OF assms(1) that])
  have store: "case file_write_page i p s of (r, s') \<Rightarrow>
      file_sized s' \<and> (\<forall>j. j \<noteq> i \<longrightarrow> file_contents s' j = file_contents s j) \<and>
      (r = Inr () \<longrightarrow> file_contents s' i = Some p)" if len: "length p = ?k"
  proof -
    have le: "i * ?k + length p \<le> length (fd_bytes (fs_file s))" using off(2) len by simp
    obtain r f where w: "write_all_at p (i * ?k) (fs_file s) = (r, f)" by force
    from write_all_at_cases [OF w le] obtain n where n: "n \<le> length p"
      "fd_bytes f = copy_into (i * ?k) (take n p) (fd_bytes (fs_file s))" "r = Inr () \<longrightarrow> n = length p" by blast
    have same: "length (fd_bytes f) = length (fd_bytes (fs_file s))" using n(1,2) le by simp
    then have sized: "file_sized (s\<lparr>fs_file := f\<rparr>)" using assms(1) by (simp add: file_sized_def)
    have "file_contents (s\<lparr>fs_file := f\<rparr>) j = file_contents s j" if "j \<noteq> i" for j
    proof (cases "j < fs_page_count s")
      case True
      have "slice (j * ?k) (j * ?k + ?k) (copy_into (i * ?k) (take n p) (fd_bytes (fs_file s))) =
          slice (j * ?k) (j * ?k + ?k) (fd_bytes (fs_file s))"
        using page_range_disjoint [OF that, of ?k] file_offset_eq(2) [OF assms(1) True] n(1) le len
        by (intro slice_copy_into_other) auto
      with True sized n(2) file_contents_page [OF assms(1) True] file_contents_page [OF sized, of j] show ?thesis by simp
    next
      case False
      with as_mem_count [OF assms(1)] as_mem_count [OF sized] show ?thesis
        by (simp add: file_contents_def mem_contents_def)
    qed
    moreover have "file_contents (s\<lparr>fs_file := f\<rparr>) i = Some p" if "r = Inr ()"
      using file_contents_page [OF sized, of i] assms(2) n le that len
        slice_copy_into_same [of "i * ?k" p "fd_bytes (fs_file s)"] by simp
    ultimately show ?thesis using file_write_page_run [OF assms len] w sized by simp
  qed
  from one many store show ?thesis by blast
qed

theorem file_faults_contained_witness:
  "case file_write_page 1 [7, 8] (slow_file None) of (r, s') \<Rightarrow>
    file_sized s' \<and> file_contents s' 0 = file_contents (slow_file None) 0"
proof -
  have "file_sized (slow_file None)" "1 < fs_page_count (slow_file None)" by (simp_all add: file_sized_def slow_file_def)
  from file_faults_contained [OF this, where p = "[7, 8]"] show ?thesis by (auto simp: slow_file_def)
qed

end
