(* ===== verification/Constant_Time.thy ===== *)
theory Constant_Time
  imports Oram_Prelude
begin

text \<open>
  The selection helpers of src/src/ct.rs. They wrap the crate \<open>subtle\<close>, which is not part of the
  repository: its operations are a parameter, the record \<open>subtle\<close>, and what its documentation
  promises of them is the locale \<open>subtle_spec\<close>. Under it every helper equals the branching
  expression it replaces (the rules collected in \<open>ct_simps\<close>), so the components above reason
  about plain conditionals while their definitions keep the constant-shape code.
\<close>

named_theorems ct_simps \<open>constant-shape code as conditionals\<close>

section \<open>The interface to the crate subtle\<close>

record 'c subtle =
  choice_from :: "u8 \<Rightarrow> 'c"
  unwrap_u8 :: "'c \<Rightarrow> u8"
  choice_not :: "'c \<Rightarrow> 'c"
  choice_and :: "'c \<Rightarrow> 'c \<Rightarrow> 'c"
  choice_or :: "'c \<Rightarrow> 'c \<Rightarrow> 'c"
  ct_eq_u64 :: "u64 \<Rightarrow> u64 \<Rightarrow> 'c"
  ct_eq_u32 :: "u32 \<Rightarrow> u32 \<Rightarrow> 'c"
  ct_eq_usize :: "nat \<Rightarrow> nat \<Rightarrow> 'c"
  conditional_assign_u8 :: "u8 \<Rightarrow> u8 \<Rightarrow> 'c \<Rightarrow> u8"
  conditional_assign_u32 :: "u32 \<Rightarrow> u32 \<Rightarrow> 'c \<Rightarrow> u32"
  conditional_assign_u64 :: "u64 \<Rightarrow> u64 \<Rightarrow> 'c \<Rightarrow> u64"

text \<open>\<open>conditional_assign d s c\<close> is the value of \<open>*self\<close> afterwards.\<close>

locale subtle_spec =
  fixes sb :: "'c subtle"
  assumes unwrap_bit: "unwrap_u8 sb c = 0 \<or> unwrap_u8 sb c = 1"
    and unwrap_from: "x = 0 \<or> x = 1 \<Longrightarrow> unwrap_u8 sb (choice_from sb x) = x"
    and unwrap_not: "unwrap_u8 sb (choice_not sb c) = 1 - unwrap_u8 sb c"
    and unwrap_and: "unwrap_u8 sb (choice_and sb c d) = unwrap_u8 sb c AND unwrap_u8 sb d"
    and unwrap_or: "unwrap_u8 sb (choice_or sb c d) = unwrap_u8 sb c OR unwrap_u8 sb d"
    and unwrap_eq_u64: "unwrap_u8 sb (ct_eq_u64 sb a b) = (if a = b then 1 else 0)"
    and unwrap_eq_u32: "unwrap_u8 sb (ct_eq_u32 sb a' b') = (if a' = b' then 1 else 0)"
    and unwrap_eq_usize: "unwrap_u8 sb (ct_eq_usize sb i j) = (if i = j then 1 else 0)"
    and assign_u8: "conditional_assign_u8 sb x y c = (if unwrap_u8 sb c = 1 then y else x)"
    and assign_u32: "conditional_assign_u32 sb a' b' c = (if unwrap_u8 sb c = 1 then b' else a')"
    and assign_u64: "conditional_assign_u64 sb a b c = (if unwrap_u8 sb c = 1 then b else a)"

section \<open>The helpers\<close>

definition choice_from_bool :: "'c subtle \<Rightarrow> bool \<Rightarrow> 'c" where
  "choice_from_bool sb value = choice_from sb (if value then 1 else 0)"

definition ct_not :: "'c subtle \<Rightarrow> 'c \<Rightarrow> 'c" where
  "ct_not sb choice = choice_not sb choice"

definition ct_and :: "'c subtle \<Rightarrow> 'c \<Rightarrow> 'c \<Rightarrow> 'c" where
  "ct_and sb lhs rhs = choice_and sb lhs rhs"

definition ct_or :: "'c subtle \<Rightarrow> 'c \<Rightarrow> 'c \<Rightarrow> 'c" where
  "ct_or sb lhs rhs = choice_or sb lhs rhs"

definition mask8 :: "'c subtle \<Rightarrow> 'c \<Rightarrow> u8" where
  "mask8 sb choice = 0 - unwrap_u8 sb choice"

definition mask32 :: "'c subtle \<Rightarrow> 'c \<Rightarrow> u32" where
  "mask32 sb choice = 0 - ucast (unwrap_u8 sb choice)"

definition mask64 :: "'c subtle \<Rightarrow> 'c \<Rightarrow> u64" where
  "mask64 sb choice = 0 - ucast (unwrap_u8 sb choice)"

definition is_zero_u64 :: "'c subtle \<Rightarrow> u64 \<Rightarrow> 'c" where
  "is_zero_u64 sb value = ct_eq_u64 sb value 0"

definition eq_u64 :: "'c subtle \<Rightarrow> u64 \<Rightarrow> u64 \<Rightarrow> 'c" where
  "eq_u64 sb lhs rhs = ct_eq_u64 sb lhs rhs"

definition eq_u32 :: "'c subtle \<Rightarrow> u32 \<Rightarrow> u32 \<Rightarrow> 'c" where
  "eq_u32 sb lhs rhs = ct_eq_u32 sb lhs rhs"

definition eq_usize :: "'c subtle \<Rightarrow> nat \<Rightarrow> nat \<Rightarrow> 'c" where
  "eq_usize sb lhs rhs = ct_eq_usize sb lhs rhs"

definition cmov_u8 :: "'c subtle \<Rightarrow> u8 \<Rightarrow> u8 \<Rightarrow> 'c \<Rightarrow> u8" where
  "cmov_u8 sb dst src choice = conditional_assign_u8 sb dst src choice"

definition cmov_u32 :: "'c subtle \<Rightarrow> u32 \<Rightarrow> u32 \<Rightarrow> 'c \<Rightarrow> u32" where
  "cmov_u32 sb dst src choice = conditional_assign_u32 sb dst src choice"

definition cmov_u64 :: "'c subtle \<Rightarrow> u64 \<Rightarrow> u64 \<Rightarrow> 'c \<Rightarrow> u64" where
  "cmov_u64 sb dst src choice = conditional_assign_u64 sb dst src choice"

text \<open>The one hand-written mask: \<open>usize\<close> arithmetic at 64 bits.\<close>

definition cmov_usize :: "'c subtle \<Rightarrow> nat \<Rightarrow> nat \<Rightarrow> 'c \<Rightarrow> nat" where
  "cmov_usize sb dst src choice =
     (let mask = 0 - (ucast (unwrap_u8 sb choice) :: u64);
          d = word_of_nat dst; s = word_of_nat src
      in unat (d XOR ((d XOR s) AND mask)))"

definition cmov_bytes :: "'c subtle \<Rightarrow> bytes \<Rightarrow> bytes \<Rightarrow> 'c \<Rightarrow> bytes" where
  "cmov_bytes sb dst src choice =
     map2 (\<lambda>d s. conditional_assign_u8 sb d s choice) dst src @ drop (length src) dst"

text \<open>
  The masked clear of a payload: \<open>clear_payload_volatile_if\<close> in src/src/block.rs and its twin
  \<open>clear_payload_if\<close> in src/src/circuit.rs (the volatile accesses and \<open>black_box\<close> are compiler
  barriers).
\<close>

definition clear_payload_volatile_if :: "'c subtle \<Rightarrow> bytes \<Rightarrow> 'c \<Rightarrow> bytes" where
  "clear_payload_volatile_if sb payload choice =
     (let keep_mask = NOT (mask8 sb choice) in map (\<lambda>byte. byte AND keep_mask) payload)"

definition clear_payload_if :: "'c subtle \<Rightarrow> bytes \<Rightarrow> 'c \<Rightarrow> bytes" where
  "clear_payload_if sb payload choice =
     (let keep_mask = NOT (mask8 sb choice) in map (\<lambda>byte. byte AND keep_mask) payload)"

text \<open>Whether a choice is taken.\<close>

definition chosen :: "'c subtle \<Rightarrow> 'c \<Rightarrow> bool" where
  "chosen sb c \<longleftrightarrow> unwrap_u8 sb c = 1"

section \<open>The helpers are the conditionals they replace\<close>

lemma map2_const_right: "length xs = length ys \<Longrightarrow> map2 (\<lambda>x y. y) xs ys = ys"
  by (induction xs ys rule: list_induct2) auto

lemma map2_const_left: "length xs = length ys \<Longrightarrow> map2 (\<lambda>x y. x) xs ys = xs"
  by (induction xs ys rule: list_induct2) auto

context subtle_spec
begin

lemma unwrap_chosen: "unwrap_u8 sb c = (if chosen sb c then 1 else 0)"
  using unwrap_bit [of c] by (auto simp: chosen_def)

lemma chosen_from_bool [ct_simps]: "chosen sb (choice_from_bool sb b) = b"
  by (simp add: chosen_def choice_from_bool_def unwrap_from)

lemma chosen_not [ct_simps]: "chosen sb (ct_not sb c) = (\<not> chosen sb c)"
  using unwrap_bit [of c] by (auto simp: chosen_def ct_not_def unwrap_not)

lemma chosen_and [ct_simps]: "chosen sb (ct_and sb c d) = (chosen sb c \<and> chosen sb d)"
  using unwrap_bit [of c] unwrap_bit [of d] by (auto simp: chosen_def ct_and_def unwrap_and)

lemma chosen_or [ct_simps]: "chosen sb (ct_or sb c d) = (chosen sb c \<or> chosen sb d)"
  using unwrap_bit [of c] unwrap_bit [of d] by (auto simp: chosen_def ct_or_def unwrap_or)

lemma chosen_eq_u64 [ct_simps]: "chosen sb (eq_u64 sb a b) = (a = b)"
  by (simp add: chosen_def eq_u64_def unwrap_eq_u64)

lemma chosen_is_zero_u64 [ct_simps]: "chosen sb (is_zero_u64 sb a) = (a = 0)"
  by (simp add: chosen_def is_zero_u64_def unwrap_eq_u64)

lemma chosen_eq_u32 [ct_simps]: "chosen sb (eq_u32 sb a b) = (a = b)"
  by (simp add: chosen_def eq_u32_def unwrap_eq_u32)

lemma chosen_eq_usize [ct_simps]: "chosen sb (eq_usize sb a b) = (a = b)"
  by (simp add: chosen_def eq_usize_def unwrap_eq_usize)

lemma cmov_u8_if [ct_simps]: "cmov_u8 sb d s c = (if chosen sb c then s else d)"
  by (simp add: cmov_u8_def assign_u8 chosen_def)

lemma cmov_u32_if [ct_simps]: "cmov_u32 sb d' s' c = (if chosen sb c then s' else d')"
  by (simp add: cmov_u32_def assign_u32 chosen_def)

lemma cmov_u64_if [ct_simps]: "cmov_u64 sb d'' s'' c = (if chosen sb c then s'' else d'')"
  by (simp add: cmov_u64_def assign_u64 chosen_def)

lemma mask8_if: "mask8 sb c = (if chosen sb c then - 1 else 0)"
  by (simp add: mask8_def unwrap_chosen)

lemma mask32_if: "mask32 sb c = (if chosen sb c then - 1 else 0)"
  by (simp add: mask32_def unwrap_chosen)

lemma mask64_if: "mask64 sb c = (if chosen sb c then - 1 else 0)"
  by (simp add: mask64_def unwrap_chosen)

lemma cmov_usize_if:
  assumes "i < 2 ^ 64" and "j < 2 ^ 64"
  shows "cmov_usize sb i j c = (if chosen sb c then j else i)"
proof -
  have "(d :: u64) XOR (d XOR s) = s" for d s
    by (simp flip: xor.assoc)
  with assms show ?thesis
    by (simp add: cmov_usize_def unwrap_chosen Let_def unat_of_nat)
qed

lemma cmov_bytes_if [ct_simps]:
  "length dst = length src \<Longrightarrow> cmov_bytes sb dst src c = (if chosen sb c then src else dst)"
  by (simp add: cmov_bytes_def assign_u8 flip: chosen_def)
    (simp add: map2_const_right map2_const_left)

lemma length_cmov_bytes [simp]: "length (cmov_bytes sb dst src c) = length dst"
  by (simp add: cmov_bytes_def)

lemma clear_payload_volatile_if_if [ct_simps]:
  "clear_payload_volatile_if sb payload c =
     (if chosen sb c then replicate (length payload) 0 else payload)"
  by (simp add: clear_payload_volatile_if_def mask8_if Let_def map_replicate_const)

lemma clear_payload_if_if [ct_simps]:
  "clear_payload_if sb payload c = (if chosen sb c then replicate (length payload) 0 else payload)"
  by (simp add: clear_payload_if_def mask8_if Let_def map_replicate_const)

end

section \<open>The reference semantics of subtle\<close>

text \<open>
  The documented operations, read on \<^typ>\<open>bool\<close>. The theory's interpretation shows that the laws
  can hold together; the witnesses evaluate the model on it.
\<close>

definition bit_choice :: "bool subtle" where
  "bit_choice =
     \<lparr>choice_from = (\<lambda>x. x = 1),
      unwrap_u8 = (\<lambda>c. if c then 1 else 0),
      choice_not = Not,
      choice_and = (\<and>),
      choice_or = (\<or>),
      ct_eq_u64 = (=),
      ct_eq_u32 = (=),
      ct_eq_usize = (=),
      conditional_assign_u8 = (\<lambda>d s c. if c then s else d),
      conditional_assign_u32 = (\<lambda>d s c. if c then s else d),
      conditional_assign_u64 = (\<lambda>d s c. if c then s else d)\<rparr>"

interpretation bit_choice: subtle_spec bit_choice
  by unfold_locales (auto simp: bit_choice_def)

lemma chosen_bit_choice [simp]: "chosen bit_choice c = c"
  by (simp add: chosen_def bit_choice_def)

text \<open>The masked \<open>usize\<close> move is the conditional move, for all indices a \<open>usize\<close> can hold.\<close>

lemma cmov_usize_correct:
  "subtle_spec sb \<Longrightarrow> i < 2 ^ 64 \<Longrightarrow> j < 2 ^ 64 \<Longrightarrow>
    cmov_usize sb i j c = (if chosen sb c then j else i)"
  by (rule subtle_spec.cmov_usize_if)

end
