(* ===== verification/Oram_Block.thy ===== *)
theory Oram_Block
  imports Constant_Time Oram_Params
begin

text \<open>
  The fixed-size logical block of src/src/block.rs: its constructors, the masked moves the stash
  scans use, and its serialization. A buffer that the source writes through \<open>&mut [u8]\<close> is an
  argument and the new contents are the result.
\<close>

record oram_block =
  b_occupied :: bool
  b_logical_id :: u64
  b_leaf :: u32
  b_payload :: bytes

definition OCCUPIED :: u8 where "OCCUPIED = 1"
definition EMPTY :: u8 where "EMPTY = 0"

definition dummy :: "nat \<Rightarrow> oram_block" where
  "dummy block_size' =
     \<lparr>b_occupied = False, b_logical_id = - 1, b_leaf = - 1, b_payload = replicate block_size' 0\<rparr>"

definition real :: "u64 \<Rightarrow> u32 \<Rightarrow> bytes \<Rightarrow> nat \<Rightarrow> oram_block result" where
  "real logical_id leaf payload block_size' =
     (if length payload \<noteq> block_size' then Inl (InvalidInput ''payload len {} != block_size {}'')
      else Inr \<lparr>b_occupied = True, b_logical_id = logical_id, b_leaf = leaf, b_payload = payload\<rparr>)"

definition logical_id_choice :: "'c subtle \<Rightarrow> oram_block \<Rightarrow> u64 \<Rightarrow> 'c" where
  "logical_id_choice sb self logical_id =
     ct_and sb (choice_from_bool sb (b_occupied self)) (eq_u64 sb (b_logical_id self) logical_id)"

text \<open>\<open>occupied as u8\<close> and back.\<close>

definition u8_of_bool :: "bool \<Rightarrow> u8" where
  "u8_of_bool b = (if b then 1 else 0)"

definition cmov_from :: "'c subtle \<Rightarrow> oram_block \<Rightarrow> oram_block \<Rightarrow> 'c \<Rightarrow> oram_block" where
  "cmov_from sb self other choice =
     \<lparr>b_occupied = cmov_u8 sb (u8_of_bool (b_occupied self)) (u8_of_bool (b_occupied other)) choice \<noteq> 0,
      b_logical_id = cmov_u64 sb (b_logical_id self) (b_logical_id other) choice,
      b_leaf = cmov_u32 sb (b_leaf self) (b_leaf other) choice,
      b_payload = cmov_bytes sb (b_payload self) (b_payload other) choice\<rparr>"

definition clear_if :: "'c subtle \<Rightarrow> oram_block \<Rightarrow> 'c \<Rightarrow> oram_block" where
  "clear_if sb self choice =
     \<lparr>b_occupied = cmov_u8 sb (u8_of_bool (b_occupied self)) EMPTY choice \<noteq> 0,
      b_logical_id = cmov_u64 sb (b_logical_id self) (- 1) choice,
      b_leaf = cmov_u32 sb (b_leaf self) (- 1) choice,
      b_payload = clear_payload_volatile_if sb (b_payload self) choice\<rparr>"

definition encode_into :: "oram_block \<Rightarrow> bytes \<Rightarrow> nat \<Rightarrow> bytes result" where
  "encode_into self out block_size' =
     (if length out \<noteq> serialized_len block_size' then
        Inl (InvalidInput ''block output len {} != expected {}'')
      else if length (b_payload self) \<noteq> block_size' then
        Inl (InvalidInput ''payload len {} != block_size {}'')
      else
        let out = out[0 := if b_occupied self then OCCUPIED else EMPTY];
            out = copy_into 1 (u64_to_le_bytes (b_logical_id self)) out;
            out = copy_into 9 (u32_to_le_bytes (b_leaf self)) out
        in Inr (copy_into 13 (b_payload self) out))"

definition decode_from :: "bytes \<Rightarrow> nat \<Rightarrow> oram_block result" where
  "decode_from input block_size' =
     (if length input \<noteq> serialized_len block_size' then
        Inl (InvalidInput ''block input len {} != expected {}'')
      else rbind (if input ! 0 = EMPTY then Inr False
                  else if input ! 0 = OCCUPIED then Inr True
                  else Inl (InvalidInput ''invalid occupied byte {other}''))
        (\<lambda>occupied. Inr
          \<lparr>b_occupied = occupied,
           b_logical_id = u64_from_le_bytes (slice 1 9 input),
           b_leaf = u32_from_le_bytes (slice 9 13 input),
           b_payload = drop 13 input\<rparr>))"

section \<open>Masked moves\<close>

lemma u8_of_bool_simps [simp]: "u8_of_bool b \<noteq> 0 \<longleftrightarrow> b" "u8_of_bool b = 0 \<longleftrightarrow> \<not> b"
  by (auto simp: u8_of_bool_def)

lemma dummy_simps [simp]:
  "b_occupied (dummy n) = False" "b_logical_id (dummy n) = - 1" "b_leaf (dummy n) = - 1"
  "b_payload (dummy n) = replicate n 0"
  by (simp_all add: dummy_def)

context subtle_spec
begin

lemma chosen_logical_id_choice [ct_simps]:
  "chosen sb (logical_id_choice sb b i) \<longleftrightarrow> b_occupied b \<and> b_logical_id b = i"
  by (simp add: logical_id_choice_def ct_simps)

lemma cmov_from_if [ct_simps]:
  "length (b_payload a) = length (b_payload b) \<Longrightarrow>
    cmov_from sb a b c = (if chosen sb c then b else a)"
  by (auto simp: cmov_from_def ct_simps split: if_splits)

lemma clear_if_if [ct_simps]:
  "clear_if sb b c = (if chosen sb c then dummy (length (b_payload b)) else b)"
  by (simp add: clear_if_def dummy_def ct_simps EMPTY_def)

end

section \<open>Serialization\<close>

lemma block_encode_eq:
  assumes "length out = serialized_len n" and "length (b_payload b) = n"
  shows "encode_into b out n =
    Inr ((if b_occupied b then OCCUPIED else EMPTY) # u64_to_le_bytes (b_logical_id b) @
         u32_to_le_bytes (b_leaf b) @ b_payload b)"
proof -
  obtain x xs where out: "out = x # xs" and xs: "length xs = 12 + n"
    using assms(1) by (cases out) (auto simp: serialized_len_def)
  show ?thesis
    using assms xs by (simp add: encode_into_def out Let_def copy_into_def serialized_len_def)
qed

text \<open>
  A block of the configured size survives serialization: whatever the output buffer held,
  \<open>encode_into\<close> succeeds, and \<open>decode_from\<close> returns the same block.
\<close>

theorem block_roundtrip:
  assumes "length (b_payload b) = n" and "length out = serialized_len n"
  shows "\<exists>bytes. encode_into b out n = Inr bytes \<and> length bytes = serialized_len n \<and>
    decode_from bytes n = Inr b"
proof -
  have "decode_from ((if b_occupied b then OCCUPIED else EMPTY) # u64_to_le_bytes (b_logical_id b) @
      u32_to_le_bytes (b_leaf b) @ b_payload b) n = Inr b"
    using assms
    by (cases b) (simp add: decode_from_def serialized_len_def slice_def OCCUPIED_def EMPTY_def)
  with block_encode_eq [OF assms(2,1)] assms show ?thesis
    by (simp add: serialized_len_def)
qed

theorem block_roundtrip_witness:
  "\<exists>bytes. encode_into \<lparr>b_occupied = True, b_logical_id = 7, b_leaf = 3, b_payload = [1, 2, 3, 4]\<rparr>
      (replicate 17 0) 4 = Inr bytes \<and> length bytes = serialized_len 4 \<and>
    decode_from bytes 4 =
      Inr \<lparr>b_occupied = True, b_logical_id = 7, b_leaf = 3, b_payload = [1, 2, 3, 4]\<rparr>"
  by (rule block_roundtrip) (simp_all add: serialized_len_def)

text \<open>A buffer that \<open>decode_from\<close> accepts is the encoding of the block it returns.\<close>

lemma decode_from_inverse:
  assumes "decode_from input n = Inr b"
  shows "length (b_payload b) = n \<and> encode_into b input n = Inr input"
proof -
  have len: "length input = 13 + n"
    using assms by (auto simp: decode_from_def serialized_len_def split: if_splits)
  have split: "input = input ! 0 # slice 1 9 input @ slice 9 13 input @ drop 13 input"
    using len by (intro nth_equalityI) (auto simp: nth_append nth_slice nth_Cons' )
  from assms len have b: "b = \<lparr>b_occupied = (input ! 0 = OCCUPIED),
      b_logical_id = u64_from_le_bytes (slice 1 9 input),
      b_leaf = u32_from_le_bytes (slice 9 13 input), b_payload = drop 13 input\<rparr>"
    and tag: "input ! 0 = EMPTY \<or> input ! 0 = OCCUPIED"
    by (auto simp: decode_from_def serialized_len_def EMPTY_def OCCUPIED_def split: if_splits)
  have "length (b_payload b) = n" using b len by simp
  moreover have "encode_into b input n = Inr input"
    using block_encode_eq [of input n b] len tag split
    by (auto simp: b serialized_len_def u64_to_from_le_bytes u32_to_from_le_bytes)
  ultimately show ?thesis ..
qed

end
