(* ===== verification/Circuit_Buckets.thy ===== *)
theory Circuit_Buckets
  imports Oram_Block
begin

text \<open>
  The split buckets of src/src/circuit.rs: metadata slots and buckets, payload buckets, their page
  encodings, and the masked selection of a target block out of a bucket. A bucket struct has one
  field, its slots, and is modelled by that list.
\<close>

section \<open>CircuitMetaSlot\<close>

record meta_slot =
  m_occupied :: bool
  m_logical_id :: u64
  m_leaf :: u32

definition META_EMPTY :: u8 where "META_EMPTY = 0"
definition META_OCCUPIED :: u8 where "META_OCCUPIED = 1"

definition SERIALIZED_LEN :: nat where "SERIALIZED_LEN = 1 + 8 + 4"

definition meta_dummy :: meta_slot where
  "meta_dummy = \<lparr>m_occupied = False, m_logical_id = - 1, m_leaf = - 1\<rparr>"

definition meta_real :: "u64 \<Rightarrow> u32 \<Rightarrow> meta_slot" where
  "meta_real logical_id leaf = \<lparr>m_occupied = True, m_logical_id = logical_id, m_leaf = leaf\<rparr>"

definition meta_encode_into :: "meta_slot \<Rightarrow> bytes \<Rightarrow> bytes result" where
  "meta_encode_into self out =
     (if length out \<noteq> SERIALIZED_LEN then Inl (InvalidInput ''meta output len {} != expected {}'')
      else
        let out = out[0 := if m_occupied self then META_OCCUPIED else META_EMPTY];
            out = copy_into 1 (u64_to_le_bytes (m_logical_id self)) out
        in Inr (copy_into 9 (u32_to_le_bytes (m_leaf self)) out))"

definition meta_decode_from :: "bytes \<Rightarrow> meta_slot result" where
  "meta_decode_from input =
     (if length input \<noteq> SERIALIZED_LEN then Inl (InvalidInput ''meta input len {} != expected {}'')
      else rbind (if input ! 0 = META_EMPTY then Inr False
                  else if input ! 0 = META_OCCUPIED then Inr True
                  else Inl (InvalidInput ''invalid meta occupied byte {other}''))
        (\<lambda>occupied. Inr
          \<lparr>m_occupied = occupied,
           m_logical_id = u64_from_le_bytes (slice 1 9 input),
           m_leaf = u32_from_le_bytes (slice 9 13 input)\<rparr>))"

definition meta_logical_id_choice :: "'c subtle \<Rightarrow> meta_slot \<Rightarrow> u64 \<Rightarrow> 'c" where
  "meta_logical_id_choice sb self logical_id =
     ct_and sb (choice_from_bool sb (m_occupied self)) (eq_u64 sb (m_logical_id self) logical_id)"

definition meta_clear_if :: "'c subtle \<Rightarrow> meta_slot \<Rightarrow> 'c \<Rightarrow> meta_slot" where
  "meta_clear_if sb self choice =
     \<lparr>m_occupied = cmov_u8 sb (u8_of_bool (m_occupied self)) META_EMPTY choice \<noteq> 0,
      m_logical_id = cmov_u64 sb (m_logical_id self) (- 1) choice,
      m_leaf = cmov_u32 sb (m_leaf self) (- 1) choice\<rparr>"

definition meta_cmov_from :: "'c subtle \<Rightarrow> meta_slot \<Rightarrow> meta_slot \<Rightarrow> 'c \<Rightarrow> meta_slot" where
  "meta_cmov_from sb self other choice =
     \<lparr>m_occupied = cmov_u8 sb (u8_of_bool (m_occupied self)) (u8_of_bool (m_occupied other)) choice \<noteq> 0,
      m_logical_id = cmov_u64 sb (m_logical_id self) (m_logical_id other) choice,
      m_leaf = cmov_u32 sb (m_leaf self) (m_leaf other) choice\<rparr>"

section \<open>CircuitMetaBucket and CircuitPayloadBucket\<close>

type_synonym meta_bucket = "meta_slot list"
type_synonym payload_bucket = "bytes list"

definition circuit_meta_page_bytes :: "nat \<Rightarrow> nat" where
  "circuit_meta_page_bytes bucket_size' = bucket_size' * SERIALIZED_LEN"

definition circuit_payload_page_bytes :: "nat \<Rightarrow> nat \<Rightarrow> nat" where
  "circuit_payload_page_bytes bucket_size' block_size' = bucket_size' * block_size'"

definition meta_bucket_dummy :: "nat \<Rightarrow> meta_bucket" where
  "meta_bucket_dummy bucket_size' = replicate bucket_size' meta_dummy"

definition meta_bucket_encode_into :: "meta_bucket \<Rightarrow> nat \<Rightarrow> bytes \<Rightarrow> bytes result" where
  "meta_bucket_encode_into slots bucket_size' out =
     (if length slots \<noteq> bucket_size' then Inl (InvalidInput ''meta bucket has {} slots, expected {}'')
      else if length out \<noteq> circuit_meta_page_bytes bucket_size' then
        Inl (InvalidInput ''meta output len {} != expected {}'')
      else rfoldM (\<lambda>(i, slot) out.
             let start = i * SERIALIZED_LEN
             in rbind (meta_encode_into slot (slice start (start + SERIALIZED_LEN) out))
                  (\<lambda>b. Inr (copy_into start b out)))
           (enumerate 0 slots) out)"

definition meta_bucket_encode :: "meta_bucket \<Rightarrow> nat \<Rightarrow> bytes result" where
  "meta_bucket_encode slots bucket_size' =
     meta_bucket_encode_into slots bucket_size' (replicate (circuit_meta_page_bytes bucket_size') 0)"

definition meta_bucket_decode :: "bytes \<Rightarrow> nat \<Rightarrow> meta_bucket result" where
  "meta_bucket_decode input bucket_size' =
     (if length input \<noteq> circuit_meta_page_bytes bucket_size' then
        Inl (InvalidInput ''meta bucket input len {} != expected {}'')
      else rmapM meta_decode_from (chunks_exact SERIALIZED_LEN input))"

definition payload_bucket_dummy :: "nat \<Rightarrow> nat \<Rightarrow> payload_bucket" where
  "payload_bucket_dummy bucket_size' block_size' = map (\<lambda>_. replicate block_size' 0) [0..<bucket_size']"

definition payload_bucket_encode :: "payload_bucket \<Rightarrow> nat \<Rightarrow> nat \<Rightarrow> bytes result" where
  "payload_bucket_encode slots bucket_size' block_size' =
     (if length slots \<noteq> bucket_size' then Inl (InvalidInput ''payload bucket has {} slots, expected {}'')
      else rfoldM (\<lambda>(i, slot) out.
             if length slot \<noteq> block_size' then Inl (InvalidInput ''payload slot len {} != block_size {}'')
             else Inr (copy_into (i * block_size') slot out))
           (enumerate 0 slots) (replicate (circuit_payload_page_bytes bucket_size' block_size') 0))"

definition payload_bucket_decode :: "bytes \<Rightarrow> nat \<Rightarrow> nat \<Rightarrow> payload_bucket result" where
  "payload_bucket_decode input bucket_size' block_size' =
     (if length input \<noteq> circuit_payload_page_bytes bucket_size' block_size' then
        Inl (InvalidInput ''payload bucket input len {} != expected {}'')
      else Inr (chunks_exact block_size' input))"

section \<open>Selecting and removing the target of an access\<close>

definition cmov_block_from_meta_payload ::
  "'c subtle \<Rightarrow> oram_block \<Rightarrow> meta_slot \<Rightarrow> bytes \<Rightarrow> 'c \<Rightarrow> oram_block" where
  "cmov_block_from_meta_payload sb block meta payload choice =
     \<lparr>b_occupied = cmov_u8 sb (u8_of_bool (b_occupied block)) (u8_of_bool (m_occupied meta)) choice \<noteq> 0,
      b_logical_id = cmov_u64 sb (b_logical_id block) (m_logical_id meta) choice,
      b_leaf = cmov_u32 sb (b_leaf block) (m_leaf meta) choice,
      b_payload = cmov_bytes sb (b_payload block) payload choice\<rparr>"

text \<open>
  The loop over the zipped slots, with the block selected so far and the choice \<open>removed\<close> as
  accumulators. The slots beyond the shorter list stay as they are.
\<close>

fun select_and_remove_target_slots ::
  "'c subtle \<Rightarrow> u64 \<Rightarrow> meta_bucket \<Rightarrow> payload_bucket \<Rightarrow> oram_block \<Rightarrow> 'c \<Rightarrow>
    meta_bucket \<times> payload_bucket \<times> oram_block \<times> 'c" where
  "select_and_remove_target_slots sb logical_id (meta # metas) (payload # payloads) selected removed =
     (let matched = ct_and sb (meta_logical_id_choice sb meta logical_id) (ct_not sb removed);
          selected = cmov_block_from_meta_payload sb selected meta payload matched;
          meta = meta_clear_if sb meta matched;
          payload = clear_payload_if sb payload matched;
          removed = ct_or sb removed matched;
          (metas, payloads, selected, removed) =
            select_and_remove_target_slots sb logical_id metas payloads selected removed
      in (meta # metas, payload # payloads, selected, removed))"
| "select_and_remove_target_slots sb logical_id metas payloads selected removed =
     (metas, payloads, selected, removed)"

section \<open>Encodings\<close>

lemma SERIALIZED_LEN_eq [simp]: "SERIALIZED_LEN = 13"
  by (simp add: SERIALIZED_LEN_def)

lemma meta_dummy_simps [simp]:
  "m_occupied meta_dummy = False" "m_logical_id meta_dummy = - 1" "m_leaf meta_dummy = - 1"
  by (simp_all add: meta_dummy_def)

definition meta_bytes :: "meta_slot \<Rightarrow> bytes" where
  "meta_bytes s = (if m_occupied s then META_OCCUPIED else META_EMPTY) #
     u64_to_le_bytes (m_logical_id s) @ u32_to_le_bytes (m_leaf s)"

lemma length_meta_bytes [simp]: "length (meta_bytes s) = 13"
  by (simp add: meta_bytes_def)

lemma meta_encode_eq:
  assumes "length out = 13"
  shows "meta_encode_into s out = Inr (meta_bytes s)"
proof -
  obtain x xs where "out = x # xs" "length xs = 12" using assms by (cases out) auto
  then show ?thesis by (simp add: meta_encode_into_def Let_def copy_into_def meta_bytes_def)
qed

lemma meta_decode_bytes: "meta_decode_from (meta_bytes s) = Inr s"
  by (cases s) (simp add: meta_decode_from_def meta_bytes_def slice_def META_OCCUPIED_def META_EMPTY_def)

lemma meta_decode_inverse:
  assumes "meta_decode_from input = Inr s"
  shows "input = meta_bytes s"
proof -
  have len: "length input = 13"
    using assms by (auto simp: meta_decode_from_def split: if_splits)
  have "input = input ! 0 # slice 1 9 input @ slice 9 13 input"
    using len by (intro nth_equalityI) (auto simp: nth_append nth_slice nth_Cons')
  moreover have "input ! 0 = (if m_occupied s then META_OCCUPIED else META_EMPTY)"
    "m_logical_id s = u64_from_le_bytes (slice 1 9 input)" "m_leaf s = u32_from_le_bytes (slice 9 13 input)"
    using assms len by (auto simp: meta_decode_from_def split: if_splits)
  ultimately show ?thesis
    using len by (simp add: meta_bytes_def u64_to_from_le_bytes u32_to_from_le_bytes)
qed

lemma length_meta_page [simp]: "length (concat (map meta_bytes slots)) = length slots * 13"
  by (induction slots) auto

text \<open>Writing chunk after chunk of \<open>n\<close> bytes.\<close>

lemma rfoldM_copy_chunks:
  assumes "\<And>i x out'. x \<in> set xs \<Longrightarrow> length out' = length out \<Longrightarrow> i * n + n \<le> length out \<Longrightarrow>
      f (i, x) out' = Inr (copy_into (i * n) (g x) out')"
    and "\<And>x. x \<in> set xs \<Longrightarrow> length (g x) = n"
    and "(k + length xs) * n \<le> length out"
  shows "rfoldM f (enumerate k xs) out =
    Inr (take (k * n) out @ concat (map g xs) @ drop ((k + length xs) * n) out)"
  using assms
proof (induction xs arbitrary: k out)
  case (Cons x xs)
  let ?out = "copy_into (k * n) (g x) out"
  have fits: "k * n + n \<le> length out" using Cons.prems(3) by (simp add: algebra_simps)
  then have len: "length ?out = length out" using Cons.prems(2) by simp
  have take_out: "take (Suc k * n) ?out = take (k * n) out @ g x"
    using Cons.prems(2) fits by (simp add: copy_into_def add.commute)
  have drop_out: "drop (Suc (k + length xs) * n) ?out = drop (Suc (k + length xs) * n) out"
  proof -
    obtain j where j: "Suc (k + length xs) * n = k * n + (n + j)"
      by (rule that [of "length xs * n"]) (simp add: algebra_simps)
    show ?thesis unfolding j using Cons.prems(2) fits
      by (simp add: copy_into_def min_def ac_simps)
  qed
  have "rfoldM f (enumerate k (x # xs)) out = rfoldM f (enumerate (Suc k) xs) ?out"
    using Cons.prems(1) [of x out k] fits by simp
  also have "\<dots> = Inr (take (Suc k * n) ?out @ concat (map g xs) @ drop ((Suc k + length xs) * n) ?out)"
    using Cons.prems len by (intro Cons.IH) auto
  finally show ?case by (simp add: take_out drop_out del: mult_Suc)
qed simp

lemma meta_bucket_encode_into_eq:
  assumes "length slots = z" and "length out = z * 13"
  shows "meta_bucket_encode_into slots z out = Inr (concat (map meta_bytes slots))"
proof -
  have "rfoldM (\<lambda>(i, slot) out.
      let start = i * SERIALIZED_LEN
      in rbind (meta_encode_into slot (slice start (start + SERIALIZED_LEN) out))
           (\<lambda>b. Inr (copy_into start b out))) (enumerate 0 slots) out =
    Inr (take (0 * 13) out @ concat (map meta_bytes slots) @ drop ((0 + length slots) * 13) out)"
    using assms by (intro rfoldM_copy_chunks) (auto simp: Let_def meta_encode_eq)
  then show ?thesis using assms by (simp add: meta_bucket_encode_into_def circuit_meta_page_bytes_def)
qed

lemma meta_bucket_encode_eq:
  "length slots = z \<Longrightarrow> meta_bucket_encode slots z = Inr (concat (map meta_bytes slots))"
  by (simp add: meta_bucket_encode_def meta_bucket_encode_into_eq circuit_meta_page_bytes_def)

lemma meta_bucket_decode_eq:
  assumes "length slots = z"
  shows "meta_bucket_decode (concat (map meta_bytes slots)) z = Inr slots"
proof -
  have "chunks_exact 13 (concat (map meta_bytes slots)) = map meta_bytes slots"
    by (intro chunks_exact_concat) auto
  moreover have "rmapM meta_decode_from (map meta_bytes slots) = Inr slots"
    using rmapM_Inr_iff [of meta_decode_from "map meta_bytes slots" slots]
    by (auto simp: list_all2_map1 meta_decode_bytes list_all2_refl)
  ultimately show ?thesis
    using assms by (simp add: meta_bucket_decode_def circuit_meta_page_bytes_def)
qed

text \<open>A metadata page that decodes is the encoding of its slots.\<close>

lemma meta_bucket_decode_inverse:
  assumes "meta_bucket_decode page z = Inr slots"
  shows "length slots = z \<and> page = concat (map meta_bytes slots)"
proof -
  have len: "length page = z * 13" and dec: "rmapM meta_decode_from (chunks_exact 13 page) = Inr slots"
    using assms by (auto simp: meta_bucket_decode_def circuit_meta_page_bytes_def split: if_splits)
  have "list_all2 (\<lambda>c s. c = meta_bytes s) (chunks_exact 13 page) slots"
    using dec by (auto simp: rmapM_Inr_iff intro: meta_decode_inverse elim!: list_all2_mono)
  then have "chunks_exact 13 page = map meta_bytes slots"
    by (induction rule: list_all2_induct) auto
  with chunks_exact_mult [of 13 page z] len show ?thesis by (auto dest: arg_cong [where f = length])
qed

lemma payload_bucket_encode_eq:
  assumes "length slots = z" and "\<And>s. s \<in> set slots \<Longrightarrow> length s = n"
  shows "payload_bucket_encode slots z n = Inr (concat slots)"
proof -
  let ?out = "replicate (z * n) (0 :: u8)"
  have "rfoldM (\<lambda>(i, slot) out.
      if length slot \<noteq> n then Inl (InvalidInput ''payload slot len {} != block_size {}'')
      else Inr (copy_into (i * n) slot out)) (enumerate 0 slots) ?out =
    Inr (take (0 * n) ?out @ concat (map (\<lambda>s. s) slots) @ drop ((0 + length slots) * n) ?out)"
    using assms by (intro rfoldM_copy_chunks) auto
  then show ?thesis using assms(1) by (simp add: payload_bucket_encode_def circuit_payload_page_bytes_def)
qed

lemma payload_bucket_decode_eq:
  assumes "length slots = z" and "\<And>s. s \<in> set slots \<Longrightarrow> length s = n" and "0 < n"
  shows "payload_bucket_decode (concat slots) z n = Inr slots"
  using assms length_concat_equal [of slots n] chunks_exact_concat [of n slots]
  by (simp add: payload_bucket_decode_def circuit_payload_page_bytes_def)

lemma payload_bucket_decode_total:
  assumes "length page = z * n" and "0 < n"
  shows "\<exists>slots. payload_bucket_decode page z n = Inr slots \<and> length slots = z \<and>
    (\<forall>s \<in> set slots. length s = n) \<and> page = concat slots"
  using assms chunks_exact_mult [of n page z] chunks_exact_lengths [of _ n page]
  by (auto simp: payload_bucket_decode_def circuit_payload_page_bytes_def)

section \<open>Selection as a search\<close>

text \<open>The block a slot pair holds.\<close>

definition slot_block :: "meta_slot \<Rightarrow> bytes \<Rightarrow> oram_block" where
  "slot_block meta payload =
     \<lparr>b_occupied = m_occupied meta, b_logical_id = m_logical_id meta, b_leaf = m_leaf meta,
      b_payload = payload\<rparr>"

context subtle_spec
begin

lemma chosen_meta_logical_id_choice [ct_simps]:
  "chosen sb (meta_logical_id_choice sb m i) \<longleftrightarrow> m_occupied m \<and> m_logical_id m = i"
  by (simp add: meta_logical_id_choice_def ct_simps)

lemma meta_clear_if_if [ct_simps]:
  "meta_clear_if sb m c = (if chosen sb c then meta_dummy else m)"
  by (simp add: meta_clear_if_def meta_dummy_def ct_simps META_EMPTY_def)

lemma meta_cmov_from_if [ct_simps]:
  "meta_cmov_from sb m m' c = (if chosen sb c then m' else m)"
  by (auto simp: meta_cmov_from_def ct_simps split: if_splits)

lemma cmov_block_from_meta_payload_if [ct_simps]:
  "length (b_payload b) = length payload \<Longrightarrow>
    cmov_block_from_meta_payload sb b m payload c = (if chosen sb c then slot_block m payload else b)"
  by (auto simp: cmov_block_from_meta_payload_def slot_block_def ct_simps split: if_splits)

end

end
