(* ===== verification/Circuit_Stash.thy ===== *)
theory Circuit_Stash
  imports Circuit_Buckets
begin

text \<open>
  The fixed-capacity stash and the position map of \<open>CircuitOram\<close> (src/src/circuit.rs): the
  constant-shape scans that insert, look up and update blocks and leaves, and what each scan
  computes. The scans are functions of the list they walk; the controller in
  \<open>Circuit_Oram\<close> applies them to its fields.
\<close>

section \<open>Stash scans\<close>

text \<open>
  The loop \<open>for slot in &mut self.stash\<close> shared by \<open>insert_into_stash\<close> (\<open>present\<close> is the block's
  occupied choice) and \<open>insert_candidate_into_stash\<close> (\<open>present\<close> is \<open>insert_choice\<close>).
\<close>

fun stash_insert_loop ::
  "'c subtle \<Rightarrow> 'c \<Rightarrow> oram_block \<Rightarrow> 'c \<Rightarrow> oram_block list \<Rightarrow> oram_block list \<times> 'c" where
  "stash_insert_loop sb present block inserted [] = ([], inserted)"
| "stash_insert_loop sb present block inserted (slot # stash) =
     (let can_insert = ct_and sb (ct_and sb present (ct_not sb inserted))
            (ct_not sb (choice_from_bool sb (b_occupied slot)));
          slot = cmov_from sb slot block can_insert;
          inserted = ct_or sb inserted can_insert;
          (stash, inserted) = stash_insert_loop sb present block inserted stash
      in (slot # stash, inserted))"

definition insert_into_stash ::
  "'c subtle \<Rightarrow> oram_params \<Rightarrow> oram_block \<Rightarrow> (oram_block list, unit) comp" where
  "insert_into_stash sb p block = (\<lambda>stash.
     let block_occupied = choice_from_bool sb (b_occupied block);
         (stash, inserted) = stash_insert_loop sb block_occupied block (ct_not sb block_occupied) stash
     in if unwrap_u8 sb (ct_not sb inserted) = 1
        then (Inl (StashOverflow (stash_capacity p + 1) (stash_capacity p)), stash)
        else (Inr (), stash))"

definition insert_candidate_into_stash ::
  "'c subtle \<Rightarrow> oram_params \<Rightarrow> meta_slot \<Rightarrow> bytes \<Rightarrow> 'c \<Rightarrow> (oram_block list, unit) comp" where
  "insert_candidate_into_stash sb p meta payload insert_choice = (\<lambda>stash.
     if length payload \<noteq> block_size p then
       (Inl (InvalidInput ''payload len {} != block_size {}''), stash)
     else
       let block = \<lparr>b_occupied = True, b_logical_id = m_logical_id meta, b_leaf = m_leaf meta,
                    b_payload = payload\<rparr>;
           (stash, inserted) = stash_insert_loop sb insert_choice block (ct_not sb insert_choice) stash
       in if unwrap_u8 sb (ct_not sb inserted) = 1
          then (Inl (StashOverflow (stash_capacity p + 1) (stash_capacity p)), stash)
          else (Inr (), stash))"

definition pad_stash :: "oram_params \<Rightarrow> oram_block list \<Rightarrow> oram_block list" where
  "pad_stash p stash =
     (if length stash > stash_capacity p then stash
      else stash @ replicate (stash_capacity p - length stash) (dummy (block_size p)))"

definition occupied_stash_len :: "'c subtle \<Rightarrow> oram_block list \<Rightarrow> nat" where
  "occupied_stash_len sb stash =
     sum_list (map (\<lambda>block. unat (unwrap_u8 sb (choice_from_bool sb (b_occupied block)))) stash)"

definition check_stash :: "'c subtle \<Rightarrow> oram_params \<Rightarrow> oram_block list \<Rightarrow> unit result" where
  "check_stash sb p stash =
     (let occupied = occupied_stash_len sb stash
      in if occupied > stash_capacity p then Inl (StashOverflow occupied (stash_capacity p))
         else if length stash \<noteq> stash_capacity p then
           Inl (InvalidInput ''stash slots {} != stash_capacity {}'')
         else Inr ())"

text \<open>The two scans in the middle of \<open>access\<close> and \<open>access_batch\<close>: read out, then rewrite.\<close>

definition scan_stash_output :: "'c subtle \<Rightarrow> nat \<Rightarrow> u64 \<Rightarrow> oram_block list \<Rightarrow> bytes \<times> 'c" where
  "scan_stash_output sb block_size' logical_id stash =
     fold (\<lambda>block (output, found).
        let matched = logical_id_choice sb block logical_id
        in (cmov_bytes sb output (b_payload block) matched, ct_or sb found matched))
      stash (replicate block_size' 0, choice_from_bool sb False)"

definition scan_stash_update :: "'c subtle \<Rightarrow> u64 \<Rightarrow> bytes \<Rightarrow> u32 \<Rightarrow> oram_block list \<Rightarrow> oram_block list" where
  "scan_stash_update sb logical_id new_payload new_leaf stash =
     map (\<lambda>block.
        let matched = logical_id_choice sb block logical_id
        in block\<lparr>b_payload := cmov_bytes sb (b_payload block) new_payload matched,
                 b_leaf := cmov_u32 sb (b_leaf block) new_leaf matched\<rparr>) stash"

section \<open>Position map scans\<close>

definition scan_pos_map_lookup :: "'c subtle \<Rightarrow> u32 list \<Rightarrow> u64 \<Rightarrow> u32" where
  "scan_pos_map_lookup sb pos_map logical_id =
     fold (\<lambda>(idx, candidate_leaf) leaf.
        cmov_u32 sb leaf candidate_leaf (eq_u64 sb (word_of_nat idx) logical_id))
      (enumerate 0 pos_map) 0"

definition scan_pos_map_update :: "'c subtle \<Rightarrow> u32 list \<Rightarrow> u64 \<Rightarrow> u32 \<Rightarrow> u32 list" where
  "scan_pos_map_update sb pos_map logical_id new_leaf =
     map (\<lambda>(idx, leaf). cmov_u32 sb leaf new_leaf (eq_u64 sb (word_of_nat idx) logical_id))
       (enumerate 0 pos_map)"

definition scan_pos_map_lookup_batch :: "'c subtle \<Rightarrow> u32 list \<Rightarrow> u64 list \<Rightarrow> u32 list" where
  "scan_pos_map_lookup_batch sb pos_map logical_ids =
     fold (\<lambda>(idx, candidate_leaf) leaves'.
        map2 (\<lambda>logical_id leaf.
          cmov_u32 sb leaf candidate_leaf (eq_u64 sb (word_of_nat idx) logical_id)) logical_ids leaves')
      (enumerate 0 pos_map) (replicate (length logical_ids) 0)"

definition scan_pos_map_update_batch :: "'c subtle \<Rightarrow> u32 list \<Rightarrow> u64 list \<Rightarrow> u32 list \<Rightarrow> u32 list" where
  "scan_pos_map_update_batch sb pos_map logical_ids new_leaves =
     map (\<lambda>(idx, leaf).
        fold (\<lambda>(logical_id, new_leaf) leaf.
          cmov_u32 sb leaf new_leaf (eq_u64 sb (word_of_nat idx) logical_id))
        (zip logical_ids new_leaves) leaf)
      (enumerate 0 pos_map)"

definition batch_access_leaves :: "'c subtle \<Rightarrow> u64 list \<Rightarrow> u32 list \<Rightarrow> u32 list \<Rightarrow> u32 list" where
  "batch_access_leaves sb logical_ids old_leaves new_leaves =
     fold (\<lambda>i access_leaves.
        fold (\<lambda>j access_leaves.
          access_leaves[i := cmov_u32 sb (access_leaves ! i) (new_leaves ! j)
            (eq_u64 sb (logical_ids ! i) (logical_ids ! j))]) [0..<i] access_leaves)
      [0..<length logical_ids] old_leaves"

section \<open>What the stash scans compute\<close>

definition stash_wf :: "nat \<Rightarrow> oram_block list \<Rightarrow> bool" where
  "stash_wf n stash \<longleftrightarrow> (\<forall>b \<in> set stash. length (b_payload b) = n)"

definition has_free :: "oram_block list \<Rightarrow> bool" where
  "has_free stash \<longleftrightarrow> (\<exists>b \<in> set stash. \<not> b_occupied b)"

text \<open>Put a block into the first free slot.\<close>

fun stash_put :: "oram_block \<Rightarrow> oram_block list \<Rightarrow> oram_block list" where
  "stash_put b [] = []"
| "stash_put b (s # ss) = (if b_occupied s then s # stash_put b ss else b # ss)"

abbreviation real_blocks :: "oram_block list \<Rightarrow> oram_block multiset" where
  "real_blocks bs \<equiv> filter_mset b_occupied (mset bs)"

abbreviation occupied_count :: "oram_block list \<Rightarrow> nat" where
  "occupied_count bs \<equiv> length (filter b_occupied bs)"

lemma length_stash_put [simp]: "length (stash_put b ss) = length ss"
  by (induction ss) auto

lemma stash_wf_put: "stash_wf n ss \<Longrightarrow> length (b_payload b) = n \<Longrightarrow> stash_wf n (stash_put b ss)"
  by (induction ss) (auto simp: stash_wf_def)

lemma real_blocks_put:
  "has_free ss \<Longrightarrow> b_occupied b \<Longrightarrow> real_blocks (stash_put b ss) = add_mset b (real_blocks ss)"
  by (induction ss) (auto simp: has_free_def filter_id_conv)

lemma stash_put_full: "\<not> has_free ss \<Longrightarrow> stash_put b ss = ss"
  by (induction ss) (auto simp: has_free_def)

lemma has_free_iff: "has_free ss \<longleftrightarrow> occupied_count ss < length ss"
  by (induction ss) (auto simp: has_free_def less_Suc_eq_le)

lemma occupied_put:
  "has_free ss \<Longrightarrow> b_occupied b \<Longrightarrow> occupied_count (stash_put b ss) = Suc (occupied_count ss)"
  by (induction ss) (auto simp: has_free_def)

context subtle_spec
begin

lemma unwrap_not_iff [ct_simps]: "unwrap_u8 sb (ct_not sb c) = 1 \<longleftrightarrow> \<not> chosen sb c"
  using chosen_not [of c] by (simp add: chosen_def)

lemma stash_insert_loop_done:
  assumes "stash_wf n ss" and "length (b_payload b) = n" and "chosen sb ins \<or> \<not> chosen sb pr"
  shows "fst (stash_insert_loop sb pr b ins ss) = ss \<and>
    (chosen sb (snd (stash_insert_loop sb pr b ins ss)) \<longleftrightarrow> chosen sb ins)"
  using assms
proof (induction ss arbitrary: ins)
  case (Cons s ss)
  let ?can = "ct_and sb (ct_and sb pr (ct_not sb ins)) (ct_not sb (choice_from_bool sb (b_occupied s)))"
  have "\<not> chosen sb ?can" using Cons.prems(3) by (auto simp: ct_simps)
  with Cons.prems Cons.IH [of "ct_or sb ins ?can"] show ?case
    by (auto simp: Let_def ct_simps stash_wf_def split: prod.split)
qed simp

lemma stash_insert_loop_put:
  assumes "stash_wf n ss" and "length (b_payload b) = n" and "\<not> chosen sb ins" and "chosen sb pr"
  shows "fst (stash_insert_loop sb pr b ins ss) = stash_put b ss \<and>
    (chosen sb (snd (stash_insert_loop sb pr b ins ss)) \<longleftrightarrow> has_free ss)"
  using assms
proof (induction ss arbitrary: ins)
  case (Cons s ss)
  let ?can = "ct_and sb (ct_and sb pr (ct_not sb ins)) (ct_not sb (choice_from_bool sb (b_occupied s)))"
  have can: "chosen sb ?can \<longleftrightarrow> \<not> b_occupied s" using Cons.prems by (simp add: ct_simps)
  have ss: "stash_wf n ss" "length (b_payload s) = n" using Cons.prems(1) by (auto simp: stash_wf_def)
  show ?case
  proof (cases "b_occupied s")
    case True
    then have "\<not> chosen sb (ct_or sb ins ?can)" using can Cons.prems(3) by (simp add: ct_simps)
    with Cons.IH [OF ss(1) Cons.prems(2) this Cons.prems(4)] True can ss Cons.prems(2) show ?thesis
      by (auto simp: Let_def ct_simps has_free_def split: prod.split)
  next
    case False
    then have "chosen sb (ct_or sb ins ?can)" using can by (simp add: ct_simps)
    with stash_insert_loop_done [OF ss(1) Cons.prems(2), of "ct_or sb ins ?can" pr] False can ss Cons.prems(2)
    show ?thesis
      by (auto simp: Let_def ct_simps has_free_def split: prod.split)
  qed
qed (simp add: has_free_def)

lemma insert_into_stash_eq:
  assumes "stash_wf n ss" and "length (b_payload b) = n"
  shows "insert_into_stash sb p b ss =
    (if \<not> b_occupied b then (Inr (), ss)
     else if has_free ss then (Inr (), stash_put b ss)
     else (Inl (StashOverflow (stash_capacity p + 1) (stash_capacity p)), ss))"
proof -
  let ?c = "choice_from_bool sb (b_occupied b)"
  show ?thesis
    using stash_insert_loop_done [OF assms, of "ct_not sb ?c" ?c]
      stash_insert_loop_put [OF assms, of "ct_not sb ?c" ?c] stash_put_full [of ss b]
    by (cases "b_occupied b")
      (simp_all add: insert_into_stash_def Let_def ct_simps split_beta)
qed

lemma insert_candidate_into_stash_eq:
  assumes "stash_wf n ss" and "length payload = n" and "block_size p = n"
  shows "insert_candidate_into_stash sb p m payload c ss =
    (if \<not> chosen sb c then (Inr (), ss)
     else if has_free ss then (Inr (), stash_put (slot_block (m\<lparr>m_occupied := True\<rparr>) payload) ss)
     else (Inl (StashOverflow (stash_capacity p + 1) (stash_capacity p)), ss))"
proof -
  let ?b = "slot_block (m\<lparr>m_occupied := True\<rparr>) payload"
  have b: "\<lparr>b_occupied = True, b_logical_id = m_logical_id m, b_leaf = m_leaf m, b_payload = payload\<rparr> = ?b"
    by (simp add: slot_block_def)
  have len: "length (b_payload ?b) = n" using assms(2) by (simp add: slot_block_def)
  show ?thesis
    unfolding insert_candidate_into_stash_def b
    using stash_insert_loop_done [OF assms(1) len, of "ct_not sb c" c]
      stash_insert_loop_put [OF assms(1) len, of "ct_not sb c" c] stash_put_full [of ss ?b] assms(2,3)
    by (cases "chosen sb c") (simp_all add: Let_def ct_simps split_beta)
qed

lemma occupied_stash_len_eq: "occupied_stash_len sb ss = occupied_count ss"
proof -
  have "unat (unwrap_u8 sb (choice_from_bool sb b)) = of_bool b" for b
    using unwrap_chosen [of "choice_from_bool sb b"] by (simp add: ct_simps)
  then show ?thesis by (induction ss) (auto simp: occupied_stash_len_def)
qed

lemma check_stash_ok: "length ss = stash_capacity p \<Longrightarrow> check_stash sb p ss = Inr ()"
  by (simp add: check_stash_def occupied_stash_len_eq Let_def) (metis length_filter_le not_less)

text \<open>Without two blocks of one id, the read-out scan finds the block if there is one.\<close>

lemma scan_stash_output_fold:
  assumes "stash_wf n ss" and "length out = n"
  shows "fold (\<lambda>block (output, found).
      let matched = logical_id_choice sb block i
      in (cmov_bytes sb output (b_payload block) matched, ct_or sb found matched)) ss (out, fnd) = (out', fnd') \<Longrightarrow>
    length out' = n \<and>
    (chosen sb fnd' \<longleftrightarrow> chosen sb fnd \<or> (\<exists>b \<in> set ss. b_occupied b \<and> b_logical_id b = i)) \<and>
    (out' = out \<and> (\<forall>b \<in> set ss. \<not> (b_occupied b \<and> b_logical_id b = i)) \<or>
     (\<exists>b \<in> set ss. b_occupied b \<and> b_logical_id b = i \<and> out' = b_payload b))"
  using assms
proof (induction ss arbitrary: out fnd)
  case (Cons s ss)
  let ?m = "logical_id_choice sb s i"
  have len: "length (b_payload s) = n" "stash_wf n ss" using Cons.prems(2) by (auto simp: stash_wf_def)
  have "length (cmov_bytes sb out (b_payload s) ?m) = n" using Cons.prems(3) by simp
  from Cons.IH [OF _ len(2) this, of "ct_or sb fnd ?m"] Cons.prems(1) len Cons.prems(3)
  show ?case by (auto simp: ct_simps Let_def split: if_splits)
qed simp

lemma scan_stash_output_found:
  assumes "stash_wf n ss" and "b \<in> set ss" and "b_occupied b" and "b_logical_id b = i"
    and "\<And>b'. b' \<in> set ss \<Longrightarrow> b_occupied b' \<Longrightarrow> b_logical_id b' = i \<Longrightarrow> b' = b"
  shows "fst (scan_stash_output sb n i ss) = b_payload b \<and> chosen sb (snd (scan_stash_output sb n i ss))"
proof -
  obtain out fnd where r: "scan_stash_output sb n i ss = (out, fnd)"
    by (cases "scan_stash_output sb n i ss")
  have "chosen sb fnd" "\<exists>b' \<in> set ss. b_occupied b' \<and> b_logical_id b' = i \<and> out = b_payload b'"
    using scan_stash_output_fold [OF assms(1) _ r [unfolded scan_stash_output_def]] assms(2-4) by auto
  with r assms(5) show ?thesis by auto
qed

lemma scan_stash_update_eq:
  assumes "stash_wf n ss" and "length new_payload = n"
  shows "scan_stash_update sb i new_payload new_leaf ss =
    map (\<lambda>b. if b_occupied b \<and> b_logical_id b = i then b\<lparr>b_payload := new_payload, b_leaf := new_leaf\<rparr> else b) ss"
  using assms by (auto simp: scan_stash_update_def Let_def ct_simps stash_wf_def)

end

section \<open>What the position map scans compute\<close>

text \<open>The position map after a sequence of remaps.\<close>

definition remap :: "u64 list \<Rightarrow> u32 list \<Rightarrow> u32 list \<Rightarrow> u32 list" where
  "remap ids ls pos = fold (\<lambda>(i, l) pos. pos[unat i := l]) (zip ids ls) pos"

lemma remap_Nil [simp]: "remap [] ls pos = pos"
  by (simp add: remap_def)

lemma remap_Cons [simp]: "remap (i # ids) (l # ls) pos = remap ids ls (pos[unat i := l])"
  by (simp add: remap_def)

lemma length_remap [simp]: "length (remap ids ls pos) = length pos"
proof -
  have "length (fold (\<lambda>(i, l) pos. pos[unat i := l]) z pos) = length pos" for z :: "(u64 \<times> u32) list"
    by (induction z arbitrary: pos) auto
  then show ?thesis by (simp add: remap_def)
qed

lemma nth_remap:
  assumes "k < length pos"
  shows "remap ids ls pos ! k = fold (\<lambda>(i, l) x. if unat i = k then l else x) (zip ids ls) (pos ! k)"
proof -
  have "fold (\<lambda>(i, l) pos. pos[unat i := l]) z pos ! k =
      fold (\<lambda>(i, l) x. if unat i = k then l else x) z (pos ! k)" for z :: "(u64 \<times> u32) list"
    using assms by (induction z arbitrary: pos) (auto simp: nth_list_update)
  then show ?thesis by (simp add: remap_def)
qed

lemma word_of_nat_eq_iff_u64: "k < 2 ^ 64 \<Longrightarrow> (word_of_nat k :: u64) = i \<longleftrightarrow> k = unat i"
  by (metis unat_word_of_nat_u64 word_of_nat_unat_u64)

lemma fold_map2:
  assumes "length ls = length xs"
  shows "fold (\<lambda>y ls. map2 (f y) xs ls) ys ls = map2 (\<lambda>x l. fold (\<lambda>y. f y x) ys l) xs ls"
  using assms
proof (induction ys arbitrary: ls)
  case Nil
  then show ?case by (simp add: map2_const_right)
next
  case (Cons y ys)
  have "fold (\<lambda>y ls. map2 (f y) xs ls) (y # ys) ls =
      map2 (\<lambda>x l. fold (\<lambda>y. f y x) ys l) xs (map2 (f y) xs ls)"
    using Cons by simp
  also have "\<dots> = map2 (\<lambda>x l. fold (\<lambda>y. f y x) (y # ys) l) xs ls"
    using Cons.prems by (intro nth_equalityI) auto
  finally show ?case .
qed

context subtle_spec
begin

lemma pos_map_fold:
  assumes "k + length pos \<le> 2 ^ 64"
  shows "fold (\<lambda>(idx, c) l. cmov_u32 sb l c (eq_u64 sb (word_of_nat idx) i)) (enumerate k pos) l0 =
    (if k \<le> unat i \<and> unat i < k + length pos then pos ! (unat i - k) else l0)"
  using assms
proof (induction pos arbitrary: k l0)
  case (Cons c pos)
  have k: "k < 2 ^ 64" using Cons.prems by simp
  have "fold (\<lambda>(idx, c) l. cmov_u32 sb l c (eq_u64 sb (word_of_nat idx) i)) (enumerate k (c # pos)) l0 =
      fold (\<lambda>(idx, c) l. cmov_u32 sb l c (eq_u64 sb (word_of_nat idx) i)) (enumerate (Suc k) pos)
        (if k = unat i then c else l0)"
    by (simp add: ct_simps word_of_nat_eq_iff_u64 [OF k])
  also have "\<dots> = (if Suc k \<le> unat i \<and> unat i < Suc k + length pos then pos ! (unat i - Suc k)
      else if k = unat i then c else l0)"
    using Cons.prems by (intro Cons.IH) simp
  also have "\<dots> = (if k \<le> unat i \<and> unat i < k + length (c # pos) then (c # pos) ! (unat i - k) else l0)"
    by (auto simp: nth_Cons' Suc_diff_Suc)
  finally show ?case .
qed auto

lemma scan_pos_map_lookup_eq:
  "length pos \<le> 2 ^ 64 \<Longrightarrow> unat i < length pos \<Longrightarrow> scan_pos_map_lookup sb pos i = pos ! unat i"
  using pos_map_fold [of 0 pos i 0] by (simp add: scan_pos_map_lookup_def)

lemma scan_pos_map_update_eq:
  assumes "length pos \<le> 2 ^ 64"
  shows "scan_pos_map_update sb pos i l = pos[unat i := l]"
  using assms unfolding scan_pos_map_update_def
  by (intro nth_equalityI)
    (auto simp: nth_enumerate_eq ct_simps nth_list_update word_of_nat_eq_iff_u64 less_le_trans)

lemma scan_pos_map_lookup_batch_eq:
  assumes "length pos \<le> 2 ^ 64" and "\<And>i. i \<in> set ids \<Longrightarrow> unat i < length pos"
  shows "scan_pos_map_lookup_batch sb pos ids = map (\<lambda>i. pos ! unat i) ids"
proof -
  have "scan_pos_map_lookup_batch sb pos ids =
      map2 (\<lambda>i l. fold (\<lambda>(idx, c) l. cmov_u32 sb l c (eq_u64 sb (word_of_nat idx) i)) (enumerate 0 pos) l)
        ids (replicate (length ids) 0)"
    unfolding scan_pos_map_lookup_batch_def
    by (subst fold_map2 [symmetric]) (simp_all add: case_prod_unfold)
  also have "\<dots> = map (\<lambda>i. pos ! unat i) ids"
    using assms pos_map_fold [of 0 pos] by (intro nth_equalityI) auto
  finally show ?thesis .
qed

lemma scan_pos_map_update_batch_eq:
  assumes "length pos \<le> 2 ^ 64"
  shows "scan_pos_map_update_batch sb pos ids ls = remap ids ls pos"
proof (rule nth_equalityI)
  fix k
  assume "k < length (scan_pos_map_update_batch sb pos ids ls)"
  then have k: "k < length pos" by (simp add: scan_pos_map_update_batch_def)
  then have "(word_of_nat k :: u64) = i \<longleftrightarrow> unat i = k" for i
    using word_of_nat_eq_iff_u64 [of k i] assms by auto
  then show "scan_pos_map_update_batch sb pos ids ls ! k = remap ids ls pos ! k"
    using k by (simp add: scan_pos_map_update_batch_def nth_enumerate_eq nth_remap ct_simps)
qed (simp add: scan_pos_map_update_batch_def)

text \<open>
  The leaf a batch reads for its \<open>i\<close>-th access is the position the earlier accesses of the batch
  left for that block.
\<close>

lemma batch_access_leaves_nth:
  assumes "length old = length ids" and "i < length ids"
  shows "batch_access_leaves sb ids old new ! i =
    fold (\<lambda>j l. if ids ! i = ids ! j then new ! j else l) [0..<i] (old ! i)"
proof -
  let ?step = "\<lambda>i acc. fold (\<lambda>j acc. acc[i := cmov_u32 sb (acc ! i) (new ! j)
    (eq_u64 sb (ids ! i) (ids ! j))]) [0..<i] acc"
  have inner: "length (fold (\<lambda>j acc. acc[m := cmov_u32 sb (acc ! m) (new ! j)
        (eq_u64 sb (ids ! m) (ids ! j))]) js acc) = length acc \<and>
      (\<forall>k < length acc. fold (\<lambda>j acc. acc[m := cmov_u32 sb (acc ! m) (new ! j)
        (eq_u64 sb (ids ! m) (ids ! j))]) js acc ! k =
        (if k = m then fold (\<lambda>j l. if ids ! m = ids ! j then new ! j else l) js (acc ! m) else acc ! k))"
    for m js acc
    by (induction js arbitrary: acc) (auto simp: ct_simps nth_list_update)
  have "length (fold ?step [0..<n] old) = length ids \<and>
      (\<forall>k < length ids. fold ?step [0..<n] old ! k =
        (if k < n then fold (\<lambda>j l. if ids ! k = ids ! j then new ! j else l) [0..<k] (old ! k) else old ! k))" for n
  proof (induction n)
    case (Suc n)
    then show ?case
      using inner [where m = n and js = "[0..<n]" and acc = "fold ?step [0..<n] old"]
      by (auto simp: less_Suc_eq)
  qed (simp add: assms(1))
  with assms(2) show ?thesis by (simp add: batch_access_leaves_def)
qed

lemma batch_access_leaves_remap:
  assumes "length new = length ids" and "i < length ids" and "unat (ids ! i) < length pos"
    and "\<And>i. i \<in> set ids \<Longrightarrow> unat i < length pos"
  shows "batch_access_leaves sb ids (map (\<lambda>i. pos ! unat i) ids) new ! i =
    remap (take i ids) (take i new) pos ! unat (ids ! i)"
proof -
  have "zip (take i ids) (take i new) = map (\<lambda>j. (ids ! j, new ! j)) [0..<i]"
    using assms(1,2) by (intro nth_equalityI) auto
  then have "remap (take i ids) (take i new) pos ! unat (ids ! i) =
      fold (\<lambda>j x. if unat (ids ! j) = unat (ids ! i) then new ! j else x) [0..<i] (pos ! unat (ids ! i))"
    using assms(3) by (simp add: nth_remap fold_map comp_def)
  moreover have "(unat (ids ! j) = unat (ids ! i)) = (ids ! i = ids ! j)" for j
    by (auto simp: word_unat_eq_iff)
  ultimately show ?thesis
    using batch_access_leaves_nth [of "map (\<lambda>i. pos ! unat i) ids" ids i new] assms(2) by simp
qed

end

end
