(* ===== verification/Circuit_Eviction.thy ===== *)
theory Circuit_Eviction
  imports Circuit_Stash
begin

text \<open>
  The greedy eviction of one path (src/src/circuit.rs): \<open>plan_eviction_placements\<close> scans all
  candidates (stash slots, then path slots) for every slot of the path from the leaf up, and
  \<open>apply_eviction_plan_to_overlays\<close> rewrites stash and path accordingly. The second half shows
  what the constant-shape code computes: a greedy assignment that loses no block and never needs
  more stash slots than it frees.

  An overlay (\<open>BTreeMap<usize, Vec<u8>>\<close>) is a map from page indices to page bytes.
\<close>

type_synonym overlay = "nat \<rightharpoonup> bytes"

section \<open>The plan\<close>

record 'c candidate =
  c_meta :: meta_slot
  c_active :: 'c

record 'c placement =
  pl_candidate_idx :: nat
  pl_occupied :: 'c

record 'c eviction_plan =
  pn_candidates :: "'c candidate list"
  pn_placements :: "'c placement list list"
  pn_selected :: "'c list"
  pn_path_candidate_indices :: "nat list list"

definition placement_dummy :: "'c subtle \<Rightarrow> 'c placement" where
  "placement_dummy sb = \<lparr>pl_candidate_idx = 0, pl_occupied = choice_from_bool sb False\<rparr>"

definition eviction_candidate_count :: "oram_params \<Rightarrow> nat" where
  "eviction_candidate_count p = stash_capacity p + height p * bucket_size p"

definition node_contains_leaf_choice :: "'c subtle \<Rightarrow> oram_params \<Rightarrow> nat \<Rightarrow> nat \<Rightarrow> u32 \<Rightarrow> 'c" where
  "node_contains_leaf_choice sb p depth node_idx leaf =
     (let safe_leaf = word_of_nat (unat leaf AND (leaves p - 1))
      in eq_usize sb (node_index p depth safe_leaf) node_idx)"

definition stash_candidates :: "'c subtle \<Rightarrow> oram_block list \<Rightarrow> 'c candidate list" where
  "stash_candidates sb stash =
     map (\<lambda>block. \<lparr>c_meta = \<lparr>m_occupied = b_occupied block, m_logical_id = b_logical_id block,
                            m_leaf = b_leaf block\<rparr>,
                  c_active = choice_from_bool sb (b_occupied block)\<rparr>) stash"

text \<open>The loop over the buckets of the path that extends the candidates and notes their indices.\<close>

definition path_candidates ::
  "'c subtle \<Rightarrow> oram_params \<Rightarrow> meta_bucket list \<Rightarrow> 'c candidate list \<Rightarrow>
    ('c candidate list \<times> nat list list) result" where
  "path_candidates sb p path_meta candidates =
     rfoldM (\<lambda>(depth, bucket) (candidates, indices).
        if length bucket \<noteq> bucket_size p then
          Inl (InvalidInput ''metadata bucket at depth {} has {} slots, expected {}'')
        else Inr (fold (\<lambda>(slot_idx, meta) (candidates, indices).
               (candidates @ [\<lparr>c_meta = meta, c_active = choice_from_bool sb (m_occupied meta)\<rparr>],
                indices[depth := (indices ! depth)[slot_idx := length candidates]]))
             (enumerate 0 bucket) (candidates, indices)))
      (enumerate 0 path_meta) (candidates, replicate (height p) (replicate (bucket_size p) 0))"

text \<open>
  One slot of the path: the scan over all candidates, with the choices \<open>selected\<close>, \<open>placed\<close> and
  the index \<open>placement_idx\<close> as accumulators.
\<close>

definition place_slot ::
  "'c subtle \<Rightarrow> oram_params \<Rightarrow> nat \<Rightarrow> nat \<Rightarrow> 'c candidate list \<Rightarrow> 'c list \<Rightarrow> 'c placement \<times> 'c list" where
  "place_slot sb p depth node_idx candidates selected =
     (let (selected, placed, placement_idx) =
        fold (\<lambda>(candidate_idx, candidate) (selected, placed, placement_idx).
          let can_place = ct_and sb
                (ct_and sb (c_active candidate) (ct_not sb (selected ! candidate_idx)))
                (ct_and sb (ct_not sb placed)
                   (node_contains_leaf_choice sb p depth node_idx (m_leaf (c_meta candidate))))
          in (selected[candidate_idx := ct_or sb (selected ! candidate_idx) can_place],
              ct_or sb placed can_place,
              cmov_usize sb placement_idx candidate_idx can_place))
        (enumerate 0 candidates) (selected, choice_from_bool sb False, 0)
      in (\<lparr>pl_candidate_idx = placement_idx, pl_occupied = placed\<rparr>, selected))"

text \<open>\<open>for placement in &mut placements[depth]\<close>.\<close>

fun place_row ::
  "'c subtle \<Rightarrow> oram_params \<Rightarrow> nat \<Rightarrow> nat \<Rightarrow> 'c candidate list \<Rightarrow> 'c placement list \<Rightarrow> 'c list \<Rightarrow>
    'c placement list \<times> 'c list" where
  "place_row sb p depth node_idx candidates [] selected = ([], selected)"
| "place_row sb p depth node_idx candidates (_ # row) selected =
     (let (placement, selected) = place_slot sb p depth node_idx candidates selected;
          (row, selected) = place_row sb p depth node_idx candidates row selected
      in (placement # row, selected))"

definition plan_eviction_placements ::
  "'c subtle \<Rightarrow> oram_params \<Rightarrow> oram_block list \<Rightarrow> nat list \<Rightarrow> meta_bucket list \<Rightarrow> 'c eviction_plan result" where
  "plan_eviction_placements sb p stash path path_meta =
     (if length path \<noteq> height p \<or> length path_meta \<noteq> height p then
        Inl (InvalidInput ''eviction path metadata length does not match tree height'')
      else if length stash \<noteq> stash_capacity p then
        Inl (InvalidInput ''stash slots {} != stash_capacity {}'')
      else
        rbind (path_candidates sb p path_meta (stash_candidates sb stash))
          (\<lambda>(candidates, path_candidate_indices).
            let placements = replicate (height p) (replicate (bucket_size p) (placement_dummy sb));
                selected = replicate (length candidates) (choice_from_bool sb False);
                (placements, selected) =
                  fold (\<lambda>depth (placements, selected).
                    let (row, selected) =
                      place_row sb p depth (path ! depth) candidates (placements ! depth) selected
                    in (placements[depth := row], selected))
                  (rev [0..<height p]) (placements, selected)
            in Inr \<lparr>pn_candidates = candidates, pn_placements = placements, pn_selected = selected,
                    pn_path_candidate_indices = path_candidate_indices\<rparr>))"

section \<open>Applying the plan\<close>

definition path_metadata_from_overlay :: "oram_params \<Rightarrow> nat list \<Rightarrow> overlay \<Rightarrow> meta_bucket list result" where
  "path_metadata_from_overlay p path meta_overlay =
     rmapM (\<lambda>page_idx.
        rbind (ok_or (meta_overlay page_idx) (Panic ''eviction overlay includes every path page''))
          (\<lambda>meta_buf. meta_bucket_decode meta_buf (bucket_size p))) path"

text \<open>\<open>payloads[idx].copy_from_slice(src)\<close>, which panics on different lengths.\<close>

definition copy_payload :: "nat \<Rightarrow> bytes \<Rightarrow> bytes list \<Rightarrow> bytes list result" where
  "copy_payload idx src payloads =
     (if idx < length payloads \<and> length src = length (payloads ! idx) then Inr (payloads[idx := src])
      else Inl (Panic ''copy_from_slice''))"

definition load_eviction_payloads_from_overlay ::
  "oram_params \<Rightarrow> oram_block list \<Rightarrow> nat list \<Rightarrow> meta_bucket list \<Rightarrow> 'c eviction_plan \<Rightarrow> overlay \<Rightarrow>
    bytes list result" where
  "load_eviction_payloads_from_overlay p stash path path_meta plan payload_overlay =
     (if length path \<noteq> length path_meta \<or>
         length path \<noteq> length (pn_path_candidate_indices plan) \<or>
         length (pn_candidates plan) \<noteq> eviction_candidate_count p then
        Inl (InvalidInput ''eviction payload path length mismatch'')
      else
        rbind (rfoldM (\<lambda>slot payloads.
                 if slot < length stash then copy_payload slot (b_payload (stash ! slot)) payloads
                 else Inl (Panic ''index out of bounds''))
               [0..<min (stash_capacity p) (length (pn_candidates plan))]
               (replicate (length (pn_candidates plan)) (replicate (block_size p) 0)))
          (rfoldM (\<lambda>(depth, page_idx) payloads.
             rbind (ok_or (payload_overlay page_idx) (Panic ''eviction overlay includes every path page''))
               (\<lambda>payload_buf.
             rbind (payload_bucket_decode payload_buf (bucket_size p) (block_size p)) (\<lambda>bucket.
             rfoldM (\<lambda>(slot_idx, candidate_idx) payloads.
                 if slot_idx < length bucket then copy_payload candidate_idx (bucket ! slot_idx) payloads
                 else Inl (Panic ''index out of bounds''))
               (enumerate 0 (pn_path_candidate_indices plan ! depth)) payloads)))
           (enumerate 0 path)))"

text \<open>The double loop \<open>for depth .. for slot_idx ..\<close> over the candidates of the path.\<close>

definition path_slots :: "oram_params \<Rightarrow> (nat \<times> nat) list" where
  "path_slots p = List.product [0..<height p] [0..<bucket_size p]"

definition reinsert_choice :: "'c subtle \<Rightarrow> 'c eviction_plan \<Rightarrow> nat \<Rightarrow> 'c" where
  "reinsert_choice sb plan candidate_idx =
     ct_and sb (c_active (pn_candidates plan ! candidate_idx)) (ct_not sb (pn_selected plan ! candidate_idx))"

definition ensure_eviction_stash_capacity ::
  "'c subtle \<Rightarrow> oram_params \<Rightarrow> oram_block list \<Rightarrow> 'c eviction_plan \<Rightarrow> unit result" where
  "ensure_eviction_stash_capacity sb p stash plan =
     (let selected_stash = sum_list (map (\<lambda>slot.
            unat (unwrap_u8 sb (ct_and sb (c_active (pn_candidates plan ! slot)) (pn_selected plan ! slot))))
            [0..<stash_capacity p]);
          unselected_path = sum_list (map (\<lambda>(depth, slot_idx).
            unat (unwrap_u8 sb (reinsert_choice sb plan (pn_path_candidate_indices plan ! depth ! slot_idx))))
            (path_slots p));
          occupied = occupied_stash_len sb stash;
          free_after_selected_stash = stash_capacity p - occupied + selected_stash
      in if unselected_path > free_after_selected_stash then
           Inl (StashOverflow (occupied - selected_stash + unselected_path) (stash_capacity p))
         else Inr ())"

text \<open>The contents of one slot: a masked scan over all candidates.\<close>

definition placed_slot ::
  "'c subtle \<Rightarrow> nat \<Rightarrow> 'c candidate list \<Rightarrow> bytes list \<Rightarrow> 'c placement \<Rightarrow> meta_slot \<times> bytes" where
  "placed_slot sb block_size' candidates payloads placement =
     fold (\<lambda>(candidate_idx, candidate) (meta_slot, payload_slot).
        let select = ct_and sb (pl_occupied placement) (eq_usize sb (pl_candidate_idx placement) candidate_idx)
        in (meta_cmov_from sb meta_slot (c_meta candidate) select,
            cmov_bytes sb payload_slot (payloads ! candidate_idx) select))
      (enumerate 0 candidates) (meta_dummy, replicate block_size' 0)"

definition write_placements ::
  "'c subtle \<Rightarrow> oram_params \<Rightarrow> nat list \<Rightarrow> 'c eviction_plan \<Rightarrow> bytes list \<Rightarrow> overlay \<times> overlay \<Rightarrow>
    (overlay \<times> overlay) result" where
  "write_placements sb p path plan payloads overlays =
     rfoldM (\<lambda>(depth, page_idx) (meta_overlay, payload_overlay).
        let (meta_bucket, payload_bucket) =
              fold (\<lambda>(slot_idx, placement) (meta_bucket, payload_bucket).
                let (meta_slot, payload_slot) =
                  placed_slot sb (block_size p) (pn_candidates plan) payloads placement
                in (meta_bucket[slot_idx := meta_slot], payload_bucket[slot_idx := payload_slot]))
              (enumerate 0 (pn_placements plan ! depth))
              (meta_bucket_dummy (bucket_size p), payload_bucket_dummy (bucket_size p) (block_size p))
        in rbind (meta_bucket_encode meta_bucket (bucket_size p)) (\<lambda>meta_page.
           rbind (payload_bucket_encode payload_bucket (bucket_size p) (block_size p)) (\<lambda>payload_page.
           Inr (meta_overlay(page_idx \<mapsto> meta_page), payload_overlay(page_idx \<mapsto> payload_page)))))
      (enumerate 0 path) overlays"

definition apply_eviction_plan_to_overlays ::
  "'c subtle \<Rightarrow> oram_params \<Rightarrow> nat list \<Rightarrow> meta_bucket list \<Rightarrow> 'c eviction_plan \<Rightarrow> overlay \<times> overlay \<Rightarrow>
    (oram_block list, overlay \<times> overlay) comp" where
  "apply_eviction_plan_to_overlays sb p path path_meta plan overlays =
     bnd (gets (\<lambda>stash. load_eviction_payloads_from_overlay p stash path path_meta plan (snd overlays))) (\<lambda>r.
     bnd (lift r) (\<lambda>payloads.
     bnd (gets (\<lambda>stash. ensure_eviction_stash_capacity sb p stash plan)) (\<lambda>r.
     bnd (lift r) (\<lambda>_.
     bnd (modify (\<lambda>stash. fold (\<lambda>slot stash.
            stash[slot := clear_if sb (stash ! slot)
              (ct_and sb (c_active (pn_candidates plan ! slot)) (pn_selected plan ! slot))])
            [0..<stash_capacity p] stash)) (\<lambda>_.
     bnd (citer (\<lambda>(depth, slot_idx).
            let candidate_idx = pn_path_candidate_indices plan ! depth ! slot_idx
            in insert_candidate_into_stash sb p (c_meta (pn_candidates plan ! candidate_idx))
                 (payloads ! candidate_idx) (reinsert_choice sb plan candidate_idx))
            (path_slots p)) (\<lambda>_.
     lift (write_placements sb p path plan payloads overlays)))))))"

definition evict_path_in_overlays ::
  "'c subtle \<Rightarrow> oram_params \<Rightarrow> nat list \<Rightarrow> overlay \<times> overlay \<Rightarrow> (oram_block list, overlay \<times> overlay) comp" where
  "evict_path_in_overlays sb p path overlays =
     bnd (lift (path_metadata_from_overlay p path (fst overlays))) (\<lambda>deepest_meta.
     bnd (lift (path_metadata_from_overlay p path (fst overlays))) (\<lambda>target_meta.
     bnd (gets (\<lambda>stash. plan_eviction_placements sb p stash path target_meta)) (\<lambda>r.
     bnd (lift r) (\<lambda>plan.
     apply_eviction_plan_to_overlays sb p path target_meta plan overlays))))"

end
