(* ===== verification/Eviction_Schedule.thy ===== *)
theory Eviction_Schedule
  imports Oram_Params
begin

text \<open>
  The public deterministic eviction schedule (\<open>CircuitEvictionSchedule\<close> and \<open>reverse_bits_mod\<close>
  in src/src/circuit.rs): every access adds a fixed eviction debt, and draining it visits the
  leaves in reverse-bit order. The counters are 64-bit words with the source's overflow checks.
\<close>

record schedule =
  s_leaf_bits :: nat
  evictions_per_access :: u64
  issued_accesses :: u64
  completed_evictions :: u64

definition DEFAULT_EVICTIONS_PER_ACCESS :: u64 where
  "DEFAULT_EVICTIONS_PER_ACCESS = 2"

definition with_rate :: "oram_params \<Rightarrow> u64 \<Rightarrow> schedule" where
  "with_rate p rate =
     \<lparr>s_leaf_bits = leaf_bits p, evictions_per_access = rate,
      issued_accesses = 0, completed_evictions = 0\<rparr>"

definition schedule_new :: "oram_params \<Rightarrow> schedule" where
  "schedule_new p = with_rate p DEFAULT_EVICTIONS_PER_ACCESS"

definition pending_evictions :: "schedule \<Rightarrow> u64 result" where
  "pending_evictions s =
     rbind (ok_or (checked_mul_u64 (issued_accesses s) (evictions_per_access s))
              (InvalidInput ''eviction counter overflow''))
       (\<lambda>scheduled. ok_or (checked_sub_u64 scheduled (completed_evictions s))
          (InvalidInput ''completed evictions exceed schedule''))"

definition from_counters :: "oram_params \<Rightarrow> u64 \<Rightarrow> u64 \<Rightarrow> u64 \<Rightarrow> schedule result" where
  "from_counters p rate issued completed =
     (let s = \<lparr>s_leaf_bits = leaf_bits p, evictions_per_access = rate,
               issued_accesses = issued, completed_evictions = completed\<rparr>
      in rbind (pending_evictions s) (\<lambda>_. Inr s))"

definition record_access :: "(schedule, unit) comp" where
  "record_access =
     bnd (gets (\<lambda>s. checked_add_u64 (issued_accesses s) 1)) (\<lambda>r.
     bnd (lift (ok_or r (InvalidInput ''access counter overflow''))) (\<lambda>n.
     modify (\<lambda>s. s\<lparr>issued_accesses := n\<rparr>)))"

definition validate_for_params :: "schedule \<Rightarrow> oram_params \<Rightarrow> unit result" where
  "validate_for_params s p =
     (if s_leaf_bits s \<noteq> leaf_bits p then
        Inl (InvalidInput ''schedule leaf_bits {} != params leaf_bits {}'')
      else rbind (pending_evictions s) (\<lambda>_. Inr ()))"

definition reverse_bits_mod :: "u64 \<Rightarrow> nat \<Rightarrow> u32" where
  "reverse_bits_mod index leaf_bits' =
     (let mask = (if leaf_bits' = 32 then - 1 else push_bit leaf_bits' 1 - 1);
          low = ucast index AND mask
      in drop_bit (32 - leaf_bits') (word_reverse low))"

definition next_eviction_leaf :: "schedule \<Rightarrow> u32" where
  "next_eviction_leaf s = reverse_bits_mod (completed_evictions s) (s_leaf_bits s)"

definition complete_one_eviction :: "(schedule, u32 option) comp" where
  "complete_one_eviction =
     bnd (gets pending_evictions) (\<lambda>r. bnd (lift r) (\<lambda>pending.
       if pending = 0 then ret None
       else bnd (gets next_eviction_leaf) (\<lambda>leaf.
            bnd (gets (\<lambda>s. checked_add_u64 (completed_evictions s) 1)) (\<lambda>r.
            bnd (lift (ok_or r (InvalidInput ''eviction counter overflow''))) (\<lambda>n.
            bnd (modify (\<lambda>s. s\<lparr>completed_evictions := n\<rparr>)) (\<lambda>_.
            ret (Some leaf)))))))"

text \<open>\<open>for _ in 0..budget\<close> with \<open>break\<close> on \<open>None\<close>.\<close>

fun drain_loop :: "nat \<Rightarrow> (schedule, u32 list) comp" where
  "drain_loop 0 = ret []"
| "drain_loop (Suc budget) =
     bnd complete_one_eviction (\<lambda>r. case r of
       Some leaf \<Rightarrow> bnd (drain_loop budget) (\<lambda>leaves'. ret (leaf # leaves'))
     | None \<Rightarrow> ret [])"

definition drain_schedule :: "u64 \<Rightarrow> (schedule, u32 list) comp" where
  "drain_schedule budget = drain_loop (unat budget)"

definition eviction_leaf_at :: "oram_params \<Rightarrow> u64 \<Rightarrow> u32" where
  "eviction_leaf_at p eviction_index = reverse_bits_mod eviction_index (leaf_bits p)"

section \<open>Debt accounting\<close>

text \<open>The debt is representable and not overdrawn.\<close>

definition schedule_ok :: "schedule \<Rightarrow> bool" where
  "schedule_ok s \<longleftrightarrow>
     unat (issued_accesses s) * unat (evictions_per_access s) < 2 ^ 64 \<and>
     unat (completed_evictions s) \<le> unat (issued_accesses s) * unat (evictions_per_access s)"

definition debt :: "schedule \<Rightarrow> nat" where
  "debt s = unat (issued_accesses s) * unat (evictions_per_access s) - unat (completed_evictions s)"

lemma debt_bound: "schedule_ok s \<Longrightarrow> debt s < 2 ^ 64"
  unfolding schedule_ok_def debt_def by linarith

lemma pending_evictions_ok:
  assumes "schedule_ok s"
  shows "pending_evictions s = Inr (word_of_nat (debt s))"
proof -
  let ?m = "issued_accesses s * evictions_per_access s"
  have mul: "checked_mul_u64 (issued_accesses s) (evictions_per_access s) = Some ?m"
    using assms by (simp add: checked_mul_u64_def schedule_ok_def)
  then have un: "unat ?m = unat (issued_accesses s) * unat (evictions_per_access s)"
    by (rule unat_checked_mul_u64)
  with assms have le: "completed_evictions s \<le> ?m"
    by (simp add: schedule_ok_def word_le_nat_alt)
  have "unat (?m - completed_evictions s) = debt s"
    using le un by (simp add: debt_def unat_sub)
  then have "?m - completed_evictions s = word_of_nat (debt s)"
    by (metis word_of_nat_unat_u64)
  with mul le show ?thesis
    by (simp add: pending_evictions_def checked_sub_u64_def)
qed

lemma pending_evictions_Inr_iff: "(\<exists>n. pending_evictions s = Inr n) \<longleftrightarrow> schedule_ok s"
proof
  assume "\<exists>n. pending_evictions s = Inr n"
  then obtain m n where m: "checked_mul_u64 (issued_accesses s) (evictions_per_access s) = Some m"
    and n: "checked_sub_u64 m (completed_evictions s) = Some n"
    by (auto simp: pending_evictions_def ok_or_def split: option.splits)
  have "unat (issued_accesses s) * unat (evictions_per_access s) < 2 ^ 64"
    using m by (simp add: checked_mul_u64_def split: if_splits)
  with unat_checked_mul_u64 [OF m] unat_checked_sub_u64 [OF n] show "schedule_ok s"
    by (simp only: schedule_ok_def)
qed (auto simp: pending_evictions_ok)

lemma schedule_ok_new: "schedule_ok (with_rate p r)"
  by (simp add: schedule_ok_def with_rate_def)

lemma unat_debt_eq_0: "schedule_ok s \<Longrightarrow> word_of_nat (debt s) = (0 :: u64) \<longleftrightarrow> debt s = 0"
  using unat_word_of_nat_u64 [OF debt_bound [of s]] by (simp only: word_unat_eq_iff unat_0)

lemma complete_one_eviction_none:
  "schedule_ok s \<Longrightarrow> debt s = 0 \<Longrightarrow> complete_one_eviction s = (Inr None, s)"
  by (simp add: complete_one_eviction_def pending_evictions_ok comp_simps)

lemma complete_one_eviction_some:
  assumes "schedule_ok s" and "0 < debt s"
  shows "complete_one_eviction s =
    (Inr (Some (next_eviction_leaf s)), s\<lparr>completed_evictions := completed_evictions s + 1\<rparr>)"
    and "schedule_ok (s\<lparr>completed_evictions := completed_evictions s + 1\<rparr>)"
    and "debt (s\<lparr>completed_evictions := completed_evictions s + 1\<rparr>) = debt s - 1"
proof -
  have lt: "unat (completed_evictions s) + 1 < 2 ^ 64"
    using assms unfolding schedule_ok_def debt_def by linarith
  then have un: "unat (completed_evictions s + 1) = unat (completed_evictions s) + 1"
    by (simp add: unat_word_ariths)
  show "complete_one_eviction s =
    (Inr (Some (next_eviction_leaf s)), s\<lparr>completed_evictions := completed_evictions s + 1\<rparr>)"
    using assms lt unat_debt_eq_0 [OF assms(1)]
    by (simp add: complete_one_eviction_def pending_evictions_ok comp_simps checked_add_u64_def)
  show "schedule_ok (s\<lparr>completed_evictions := completed_evictions s + 1\<rparr>)"
    and "debt (s\<lparr>completed_evictions := completed_evictions s + 1\<rparr>) = debt s - 1"
    using assms un by (auto simp: schedule_ok_def debt_def)
qed

lemma drain_loop_eq:
  assumes "schedule_ok s" and "m = min n (debt s)"
  shows "drain_loop n s =
    (Inr (map (\<lambda>j. reverse_bits_mod (completed_evictions s + word_of_nat j) (s_leaf_bits s)) [0..<m]),
     s\<lparr>completed_evictions := completed_evictions s + word_of_nat m\<rparr>)"
  using assms
proof (induction n arbitrary: s m)
  case 0
  then show ?case by (simp add: comp_simps)
next
  case (Suc n)
  show ?case
  proof (cases "debt s = 0")
    case True
    with Suc.prems show ?thesis by (simp add: complete_one_eviction_none comp_simps)
  next
    case False
    let ?t = "s\<lparr>completed_evictions := completed_evictions s + 1\<rparr>"
    from Suc.prems False obtain k where m: "m = Suc k" "k = min n (debt ?t)"
      using complete_one_eviction_some(3) [of s] by (cases m) auto
    have upt: "[0..<Suc k] = 0 # map Suc [0..<k]"
      by (simp add: upt_conv_Cons map_Suc_upt del: upt_Suc)
    have "drain_loop n ?t =
      (Inr (map (\<lambda>j. reverse_bits_mod (completed_evictions ?t + word_of_nat j) (s_leaf_bits ?t)) [0..<k]),
       ?t\<lparr>completed_evictions := completed_evictions ?t + word_of_nat k\<rparr>)"
      using Suc.IH [of ?t k] complete_one_eviction_some [of s] Suc.prems False m by simp
    with Suc.prems(1) False show ?thesis
      unfolding m(1) upt
      by (simp add: complete_one_eviction_some comp_simps next_eviction_leaf_def o_def add_ac)
  qed
qed

lemma schedule_advance:
  assumes "schedule_ok s" and "m \<le> debt s"
  shows "schedule_ok (s\<lparr>completed_evictions := completed_evictions s + word_of_nat m\<rparr>) \<and>
    debt (s\<lparr>completed_evictions := completed_evictions s + word_of_nat m\<rparr>) = debt s - m"
proof -
  have lt: "unat (completed_evictions s) + m < 2 ^ 64"
    using assms unfolding schedule_ok_def debt_def by linarith
  then have "m < 2 ^ 64" by linarith
  with lt have "unat (completed_evictions s + word_of_nat m) = unat (completed_evictions s) + m"
    by (simp add: unat_word_ariths)
  with assms show ?thesis by (auto simp: schedule_ok_def debt_def)
qed

text \<open>
  C13. Draining the schedule: with \<open>budget\<close> paths allowed, exactly \<open>min budget pending\<close> evictions
  complete, their leaves are those of the global eviction indices that follow the completed ones,
  in order, and the debt falls by that number. The call never fails on a consistent schedule.
\<close>

theorem drain_schedule_correct:
  assumes "schedule_ok s" and "m = min (unat budget) (debt s)"
    and "s' = s\<lparr>completed_evictions := completed_evictions s + word_of_nat m\<rparr>"
  shows "drain_schedule budget s =
      (Inr (map (\<lambda>j. reverse_bits_mod (completed_evictions s + word_of_nat j) (s_leaf_bits s)) [0..<m]), s')
    \<and> schedule_ok s' \<and> debt s' = debt s - m"
  using drain_loop_eq [OF assms(1,2)] schedule_advance [of s m] assms
  by (simp add: drain_schedule_def)

lemma drain_schedule_example:
  "schedule_ok \<lparr>s_leaf_bits = 2, evictions_per_access = 2, issued_accesses = 3, completed_evictions = 1\<rparr>"
  "debt \<lparr>s_leaf_bits = 2, evictions_per_access = 2, issued_accesses = 3, completed_evictions = 1\<rparr> = 5"
  by (simp_all add: schedule_ok_def debt_def)

theorem drain_schedule_correct_witness:
  "drain_schedule 4 \<lparr>s_leaf_bits = 2, evictions_per_access = 2, issued_accesses = 3, completed_evictions = 1\<rparr> =
     (Inr (map (\<lambda>j. reverse_bits_mod (1 + word_of_nat j) 2) [0..<4]),
      \<lparr>s_leaf_bits = 2, evictions_per_access = 2, issued_accesses = 3, completed_evictions = 5\<rparr>)"
  using drain_schedule_correct [OF drain_schedule_example(1), of 4 4] drain_schedule_example(2)
  by simp

text \<open>Recording an access adds the configured debt.\<close>

lemma record_access_eq:
  assumes "unat (issued_accesses s) + 1 < 2 ^ 64"
  shows "record_access s = (Inr (), s\<lparr>issued_accesses := issued_accesses s + 1\<rparr>)"
  using assms by (simp add: record_access_def comp_simps checked_add_u64_def)

lemma record_access_overflow:
  assumes "issued_accesses s = - 1"
  shows "record_access s = (Inl (InvalidInput ''access counter overflow''), s)"
  using assms
  by (simp add: record_access_def comp_simps checked_add_u64_def unat_minus_one_u64)

section \<open>Reverse-bit order\<close>

lemma bit_reverse_bits_mod:
  assumes "0 < k" and "k \<le> 32"
  shows "bit (reverse_bits_mod i k) n \<longleftrightarrow> n < k \<and> bit i (k - Suc n)"
proof -
  have mask: "bit ((if k = 32 then - 1 else push_bit k 1 - 1) :: u32) m \<longleftrightarrow> m < 32 \<and> m < k" for m
  proof (cases "k = 32")
    case False
    have "push_bit k 1 - 1 = (mask k :: u32)" by (simp add: mask_eq_exp_minus_1)
    with False assms show ?thesis by (simp add: bit_mask_iff)
  qed auto
  have "bit (reverse_bits_mod i k) n \<longleftrightarrow>
      32 - k + n < 32 \<and> bit i (32 - Suc (32 - k + n)) \<and> 32 - Suc (32 - k + n) < k"
    using assms by (auto simp: reverse_bits_mod_def Let_def bit_drop_bit_eq bit_word_reverse_iff
        bit_and_iff bit_ucast_iff mask)
  moreover have "32 - k + n < 32 \<longleftrightarrow> n < k" "32 - Suc (32 - k + n) = k - Suc n"
    using assms by auto
  ultimately show ?thesis using assms by auto
qed

lemma reverse_bits_mod_less:
  assumes "0 < k" and "k < 32"
  shows "unat (reverse_bits_mod i k) < 2 ^ k"
proof -
  have "reverse_bits_mod i k = take_bit k (reverse_bits_mod i k)"
    using assms by (intro bit_word_eqI) (auto simp: bit_take_bit_iff bit_reverse_bits_mod)
  then have "unat (reverse_bits_mod i k) = take_bit k (unat (reverse_bits_mod i k))"
    by (metis unsigned_take_bit_eq)
  then show ?thesis by (metis take_bit_nat_less_exp)
qed

lemma eviction_leaf_in_range:
  "params_ok p \<Longrightarrow> unat (eviction_leaf_at p i) < leaves p"
  using params_ok_leaf_bits [of p] params_ok_leaves [of p] reverse_bits_mod_less [of "leaf_bits p" i]
  by (simp add: eviction_leaf_at_def)

text \<open>The node at depth \<open>d\<close> of an eviction path determines the eviction index modulo \<open>2 ^ d\<close>.\<close>

lemma eviction_node_inj:
  assumes "params_ok p" and "d \<le> leaf_bits p"
    and "node_index p d (eviction_leaf_at p i) = node_index p d (eviction_leaf_at p j)"
  shows "take_bit d i = take_bit d j"
proof -
  let ?k = "leaf_bits p"
  note k = params_ok_leaf_bits [OF assms(1)]
  have dh: "d < height p" using assms(2) by (simp add: height_def)
  obtain c :: nat where c: "2 ^ d = Suc c" using not0_implies_Suc [of "2 ^ d"] by auto
  have "drop_bit (?k - d) (unat (eviction_leaf_at p i)) = drop_bit (?k - d) (unat (eviction_leaf_at p j))"
    using assms(3) c node_index_eq [OF assms(1) eviction_leaf_in_range [OF assms(1)] dh, of i]
      node_index_eq [OF assms(1) eviction_leaf_in_range [OF assms(1)] dh, of j]
    by (simp add: drop_bit_nat_def)
  then have bits: "bit (unat (eviction_leaf_at p i)) (?k - d + m) = bit (unat (eviction_leaf_at p j)) (?k - d + m)" for m
    by (metis bit_drop_bit_eq comp_apply)
  show ?thesis
  proof (rule bit_word_eqI)
    fix n
    have "bit (eviction_leaf_at p i) (?k - Suc n) = bit (eviction_leaf_at p j) (?k - Suc n)" if "n < d"
    proof -
      have "?k - Suc n = ?k - d + (d - Suc n)" using that assms(2) by simp
      with bits [of "d - Suc n"] show ?thesis by (simp add: bit_unsigned_iff)
    qed
    then show "bit (take_bit d i) n = bit (take_bit d j) n"
      using k assms(2) by (auto simp: bit_take_bit_iff eviction_leaf_at_def bit_reverse_bits_mod)
  qed
qed

text \<open>
  C14. The reverse-bit order spreads the evictions evenly: for every depth \<open>d\<close> of the tree, any
  \<open>2 ^ d\<close> consecutive eviction indices (from any start, the counter's wrap-around included) visit
  every node of that depth exactly once. At the leaf level this is a full round over all leaves.
\<close>

theorem eviction_round_robin:
  assumes "params_ok p" and "d \<le> leaf_bits p"
  shows "bij_betw (\<lambda>j. node_index p d (eviction_leaf_at p (start + word_of_nat j)))
           {..<2 ^ d} {2 ^ d - 1..<2 ^ Suc d - 1}"
proof -
  let ?f = "\<lambda>j. node_index p d (eviction_leaf_at p (start + word_of_nat j))"
  have dh: "d < height p" using assms(2) by (simp add: height_def)
  have "d < 64" using assms params_ok_leaf_bits by fastforce
  have inj: "inj_on ?f {..<2 ^ d}"
  proof (rule inj_onI)
    fix a b :: nat
    assume ab: "a \<in> {..<2 ^ d}" "b \<in> {..<2 ^ d}" and "?f a = ?f b"
    then have "take_bit d (start + word_of_nat a) = take_bit d (start + word_of_nat b)"
      using eviction_node_inj [OF assms] by blast
    from arg_cong [OF this, of unat]
    have "unat (start + word_of_nat a) mod 2 ^ d = unat (start + word_of_nat b) mod 2 ^ d"
      by (simp only: unsigned_take_bit_eq flip: take_bit_eq_mod)
    moreover have "unat (start + word_of_nat n) mod 2 ^ d = (unat start + n) mod 2 ^ d" for n
    proof -
      have "(2 :: nat) ^ d dvd 2 ^ 64" using \<open>d < 64\<close> by (intro le_imp_power_dvd) simp
      then show ?thesis
        by (simp add: unat_word_ariths unat_of_nat mod_mod_cancel mod_add_right_eq)
    qed
    ultimately show "a = b" using ab add_mod_inj [of a "2 ^ d" b "unat start"] by simp
  qed
  have sub: "?f ` {..<2 ^ d} \<subseteq> {2 ^ d - 1..<2 ^ Suc d - 1}"
    using node_index_bounds [OF assms(1) eviction_leaf_in_range [OF assms(1)] dh] by auto
  have "card (?f ` {..<2 ^ d}) = card {2 ^ d - 1..<(2 :: nat) ^ Suc d - 1}"
    using inj by (simp add: card_image)
  with sub have "?f ` {..<2 ^ d} = {2 ^ d - 1..<2 ^ Suc d - 1}"
    by (intro card_subset_eq) auto
  with inj show ?thesis by (simp add: bij_betw_def)
qed

lemma params_ok_example:
  "params_ok \<lparr>logical_blocks = 4, block_size = 8, bucket_size = 2, leaves = 4, stash_capacity = 16\<rparr>"
  "leaf_bits \<lparr>logical_blocks = 4, block_size = 8, bucket_size = 2, leaves = 4, stash_capacity = 16\<rparr> = 2"
  by (simp_all add: params_ok_def is_power_of_two.simps trailing_zeros.simps leaf_bits_def height_def)

theorem eviction_round_robin_witness:
  "bij_betw (\<lambda>j. node_index
      \<lparr>logical_blocks = 4, block_size = 8, bucket_size = 2, leaves = 4, stash_capacity = 16\<rparr> 2
      (eviction_leaf_at
         \<lparr>logical_blocks = 4, block_size = 8, bucket_size = 2, leaves = 4, stash_capacity = 16\<rparr>
         (5 + word_of_nat j)))
    {..<2 ^ 2} {2 ^ 2 - 1..<2 ^ Suc 2 - 1}"
  by (rule eviction_round_robin) (simp_all add: params_ok_example)

end
