(* ===== verification/Oram_State.thy ===== *)
theory Oram_State
  imports Oram_Block Eviction_Schedule Page_Store
begin

text \<open>
  The trusted controller state and the store-authentication sidecar of src/src/state.rs: the two
  structs, their constructors and the magic checks.
\<close>

definition CIRCUIT_STATE_MAGIC :: bytes where
  "CIRCUIT_STATE_MAGIC = byte_string ''BPCIRC01''"

definition CIRCUIT_STORE_AUTH_MAGIC :: bytes where
  "CIRCUIT_STORE_AUTH_MAGIC = byte_string ''BPCSTA01''"

datatype auth_layout =
    TieredMerkle tiered_merkle_state tiered_merkle_state
  | EmbeddedTree embedded_tree_state embedded_tree_state

record store_auth_state =
  sa_magic :: bytes
  sa_layout :: auth_layout

definition store_auth_new :: "tiered_merkle_state \<Rightarrow> tiered_merkle_state \<Rightarrow> store_auth_state" where
  "store_auth_new meta payload =
     \<lparr>sa_magic = CIRCUIT_STORE_AUTH_MAGIC, sa_layout = TieredMerkle meta payload\<rparr>"

definition store_auth_new_embedded :: "embedded_tree_state \<Rightarrow> embedded_tree_state \<Rightarrow> store_auth_state" where
  "store_auth_new_embedded meta payload =
     \<lparr>sa_magic = CIRCUIT_STORE_AUTH_MAGIC, sa_layout = EmbeddedTree meta payload\<rparr>"

definition tiered_merkle :: "store_auth_state \<Rightarrow> (tiered_merkle_state \<times> tiered_merkle_state) option" where
  "tiered_merkle s = (case sa_layout s of TieredMerkle meta payload \<Rightarrow> Some (meta, payload) | EmbeddedTree _ _ \<Rightarrow> None)"

definition embedded_tree :: "store_auth_state \<Rightarrow> (embedded_tree_state \<times> embedded_tree_state) option" where
  "embedded_tree s = (case sa_layout s of EmbeddedTree meta payload \<Rightarrow> Some (meta, payload) | TieredMerkle _ _ \<Rightarrow> None)"

definition store_auth_validate_magic :: "store_auth_state \<Rightarrow> unit result" where
  "store_auth_validate_magic s =
     (if sa_magic s \<noteq> CIRCUIT_STORE_AUTH_MAGIC then
        Inl (InvalidInput ''invalid Circuit ORAM store-auth magic'')
      else Inr ())"

record 'r circuit_oram_state =
  cs_magic :: bytes
  cs_params :: oram_params
  cs_pos_map :: "u32 list"
  cs_stash :: "oram_block list"
  cs_rng :: 'r
  cs_schedule :: schedule
  cs_auth :: "store_auth_state option"

definition circuit_state_new ::
  "oram_params \<Rightarrow> u32 list \<Rightarrow> oram_block list \<Rightarrow> 'r \<Rightarrow> schedule \<Rightarrow> 'r circuit_oram_state" where
  "circuit_state_new p pos_map stash rng sched =
     \<lparr>cs_magic = CIRCUIT_STATE_MAGIC, cs_params = p, cs_pos_map = pos_map, cs_stash = stash,
      cs_rng = rng, cs_schedule = sched, cs_auth = None\<rparr>"

definition with_auth :: "'r circuit_oram_state \<Rightarrow> store_auth_state option \<Rightarrow> 'r circuit_oram_state" where
  "with_auth s auth = s\<lparr>cs_auth := auth\<rparr>"

definition circuit_state_validate_magic :: "'r circuit_oram_state \<Rightarrow> unit result" where
  "circuit_state_validate_magic s =
     (if cs_magic s \<noteq> CIRCUIT_STATE_MAGIC then
        Inl (InvalidInput ''invalid Circuit ORAM state magic'')
      else Inr ())"

end
