(* ===== verification/Circuit_Oram.thy ===== *)
theory Circuit_Oram
  imports Circuit_Eviction Oram_State
begin

text \<open>
  The controller \<open>CircuitOram\<close> of src/src/circuit.rs. Its fields are the record \<open>circuit_oram\<close>; a
  method behind \<open>&mut self\<close> is a computation on that record, which is returned as the method left
  it on the error path too. What the code takes from elsewhere is the record \<open>circuit_env\<close>: the
  choice operations of the crate \<open>subtle\<close>, the generator (\<open>next_u64\<close>), and the two stores
  (the type parameters \<open>M\<close> and \<open>P\<close>).
\<close>

section \<open>State and environment\<close>

record ('m, 'p, 'r) circuit_oram =
  co_params :: oram_params
  co_meta_store :: 'm
  co_payload_store :: 'p
  co_pos_map :: "u32 list"
  co_stash :: "oram_block list"
  co_rng :: 'r
  co_schedule :: schedule

record ('c, 'm, 'p, 'r) circuit_env =
  e_ct :: "'c subtle"
  e_next_u64 :: "'r \<Rightarrow> u64 \<times> 'r"
  e_meta :: "'m path_page_store"
  e_payload :: "'p path_page_store"

abbreviation on_meta :: "('m, 'a) comp \<Rightarrow> (('m, 'p, 'r) circuit_oram, 'a) comp" where
  "on_meta \<equiv> zoom co_meta_store (\<lambda>t o'. o'\<lparr>co_meta_store := t\<rparr>)"

abbreviation on_payload :: "('p, 'a) comp \<Rightarrow> (('m, 'p, 'r) circuit_oram, 'a) comp" where
  "on_payload \<equiv> zoom co_payload_store (\<lambda>t o'. o'\<lparr>co_payload_store := t\<rparr>)"

abbreviation on_stash :: "(oram_block list, 'a) comp \<Rightarrow> (('m, 'p, 'r) circuit_oram, 'a) comp" where
  "on_stash \<equiv> zoom co_stash (\<lambda>t o'. o'\<lparr>co_stash := t\<rparr>)"

abbreviation on_schedule :: "(schedule, 'a) comp \<Rightarrow> (('m, 'p, 'r) circuit_oram, 'a) comp" where
  "on_schedule \<equiv> zoom co_schedule (\<lambda>t o'. o'\<lparr>co_schedule := t\<rparr>)"

definition random_leaf :: "('r \<Rightarrow> u64 \<times> 'r) \<Rightarrow> oram_params \<Rightarrow> 'r \<Rightarrow> u32 \<times> 'r" where
  "random_leaf next_u64 p rng =
     (let (w, rng) = next_u64 rng in (ucast (w AND word_of_nat (leaves p - 1)), rng))"

text \<open>\<open>random_leaf(&self.params, &mut self.rng)\<close>.\<close>

definition draw_leaf :: "('c, 'm, 'p, 'r) circuit_env \<Rightarrow> (('m, 'p, 'r) circuit_oram, u32) comp" where
  "draw_leaf E = (\<lambda>self.
     let (leaf, rng) = random_leaf (e_next_u64 E) (co_params self) (co_rng self)
     in (Inr leaf, self\<lparr>co_rng := rng\<rparr>))"

text \<open>A run of \<open>random_leaf\<close> on a cloned generator.\<close>

fun random_leaves :: "('r \<Rightarrow> u64 \<times> 'r) \<Rightarrow> oram_params \<Rightarrow> nat \<Rightarrow> 'r \<Rightarrow> u32 list \<times> 'r" where
  "random_leaves next_u64 p 0 rng = ([], rng)"
| "random_leaves next_u64 p (Suc n) rng =
     (let (leaf, rng) = random_leaf next_u64 p rng;
          (ls, rng) = random_leaves next_u64 p n rng
      in (leaf # ls, rng))"

definition self_check_stash :: "('c, 'm, 'p, 'r) circuit_env \<Rightarrow> (('m, 'p, 'r) circuit_oram, unit) comp" where
  "self_check_stash E = (\<lambda>self. (check_stash (e_ct E) (co_params self) (co_stash self), self))"

section \<open>Page overlays\<close>

definition overlay_path_pages :: "nat list list \<Rightarrow> bytes list list \<Rightarrow> nat \<Rightarrow> overlay result" where
  "overlay_path_pages paths path_pages page_size =
     (if length paths \<noteq> length path_pages then
        Inl (InvalidInput ''path count {} != page-path count {}'')
      else rfoldM (\<lambda>(path, pages) overlay.
             if length path \<noteq> length pages then Inl (InvalidInput ''path length {} != page count {}'')
             else rfoldM (\<lambda>(page_idx, page) overlay.
                    if length page \<noteq> page_size then Inl (InvalidInput ''path page len {} != page_size {}'')
                    else case overlay page_idx of
                        Some existing \<Rightarrow>
                          if existing \<noteq> page then
                            Inl (InvalidInput ''batch read returned inconsistent bytes for page {}'')
                          else Inr overlay
                      | None \<Rightarrow> Inr (overlay(page_idx \<mapsto> page)))
                  (zip path pages) overlay)
           (zip paths path_pages) Map.empty)"

definition collect_overlay_paths :: "nat list list \<Rightarrow> overlay \<Rightarrow> bytes list list result" where
  "collect_overlay_paths paths overlay =
     rmapM (rmapM (\<lambda>page_idx.
       ok_or (overlay page_idx) (InvalidInput ''batch overlay missing requested page {}''))) paths"

section \<open>Removing the target of an access from its path\<close>

text \<open>
  The loop body \<open>read_and_remove_target_path\<close> and \<open>remove_target_from_overlays\<close> share: decode a
  bucket pair, select and remove the target, encode it again.
\<close>

definition remove_target_page ::
  "'c subtle \<Rightarrow> oram_params \<Rightarrow> u64 \<Rightarrow> bytes \<Rightarrow> bytes \<Rightarrow> oram_block \<Rightarrow> 'c \<Rightarrow>
    (bytes \<times> bytes \<times> oram_block \<times> 'c) result" where
  "remove_target_page sb p logical_id meta_buf payload_buf selected removed =
     rbind (meta_bucket_decode meta_buf (bucket_size p)) (\<lambda>meta_bucket.
     rbind (payload_bucket_decode payload_buf (bucket_size p) (block_size p)) (\<lambda>payload_bucket.
       let (meta_bucket, payload_bucket, selected, removed) =
         select_and_remove_target_slots sb logical_id meta_bucket payload_bucket selected removed
       in rbind (meta_bucket_encode meta_bucket (bucket_size p)) (\<lambda>meta_buf.
          rbind (payload_bucket_encode payload_bucket (bucket_size p) (block_size p)) (\<lambda>payload_buf.
          Inr (meta_buf, payload_buf, selected, removed)))))"

text \<open>\<open>for (meta_buf, payload_buf) in meta_pages.iter_mut().zip(&mut payload_pages)\<close>.\<close>

fun remove_target_pages ::
  "'c subtle \<Rightarrow> oram_params \<Rightarrow> u64 \<Rightarrow> bytes list \<Rightarrow> bytes list \<Rightarrow> oram_block \<Rightarrow> 'c \<Rightarrow>
    (bytes list \<times> bytes list \<times> oram_block \<times> 'c) result" where
  "remove_target_pages sb p logical_id (meta_buf # ms) (payload_buf # ps) selected removed =
     rbind (remove_target_page sb p logical_id meta_buf payload_buf selected removed)
       (\<lambda>(meta_buf, payload_buf, selected, removed).
     rbind (remove_target_pages sb p logical_id ms ps selected removed)
       (\<lambda>(ms, ps, selected, removed). Inr (meta_buf # ms, payload_buf # ps, selected, removed)))"
| "remove_target_pages sb p logical_id ms ps selected removed = Inr (ms, ps, selected, removed)"

definition read_and_remove_target_path ::
  "('c, 'm, 'p, 'r) circuit_env \<Rightarrow> u32 \<Rightarrow> u64 \<Rightarrow> (('m, 'p, 'r) circuit_oram, unit) comp" where
  "read_and_remove_target_path E leaf logical_id =
     bnd (gets co_params) (\<lambda>p.
       let path = path_nodes p leaf
       in bnd (on_meta (pp_read_path_pages (e_meta E) path)) (\<lambda>meta_pages.
          bnd (on_payload (pp_read_path_pages (e_payload E) path)) (\<lambda>payload_pages.
          bnd (lift (remove_target_pages (e_ct E) p logical_id meta_pages payload_pages
                 (dummy (block_size p)) (choice_from_bool (e_ct E) False)))
            (\<lambda>(meta_pages, payload_pages, selected, removed).
          bnd (on_stash (insert_into_stash (e_ct E) p selected)) (\<lambda>_.
          bnd (on_meta (pp_write_path_pages (e_meta E) path meta_pages)) (\<lambda>_.
          on_payload (pp_write_path_pages (e_payload E) path payload_pages)))))))"

definition remove_target_overlay_page ::
  "'c subtle \<Rightarrow> oram_params \<Rightarrow> u64 \<Rightarrow> nat \<Rightarrow> overlay \<times> overlay \<times> oram_block \<times> 'c \<Rightarrow>
    (overlay \<times> overlay \<times> oram_block \<times> 'c) result" where
  "remove_target_overlay_page sb p logical_id page_idx = (\<lambda>(meta_overlay, payload_overlay, selected, removed).
     rbind (ok_or (meta_overlay page_idx) (Panic ''batch overlay includes every path page'')) (\<lambda>meta_buf.
     rbind (ok_or (payload_overlay page_idx) (Panic ''batch overlay includes every path page'')) (\<lambda>payload_buf.
     rbind (remove_target_page sb p logical_id meta_buf payload_buf selected removed)
       (\<lambda>(meta_buf, payload_buf, selected, removed).
     Inr (meta_overlay(page_idx \<mapsto> meta_buf), payload_overlay(page_idx \<mapsto> payload_buf), selected, removed)))))"

definition remove_target_from_overlays ::
  "('c, 'm, 'p, 'r) circuit_env \<Rightarrow> nat list \<Rightarrow> u64 \<Rightarrow> overlay \<times> overlay \<Rightarrow>
    (('m, 'p, 'r) circuit_oram, overlay \<times> overlay) comp" where
  "remove_target_from_overlays E path logical_id overlays =
     bnd (gets co_params) (\<lambda>p.
     bnd (lift (rfoldM (remove_target_overlay_page (e_ct E) p logical_id) path
            (fst overlays, snd overlays, dummy (block_size p), choice_from_bool (e_ct E) False)))
       (\<lambda>(meta_overlay, payload_overlay, selected, removed).
     bnd (on_stash (insert_into_stash (e_ct E) p selected)) (\<lambda>_.
     ret (meta_overlay, payload_overlay))))"

section \<open>Accesses\<close>

text \<open>
  The two stash scans of an access with the check between them; \<open>update\<close> is the caller's closure
  on the payload. In \<open>access\<close> the leaf is drawn between the scans, in \<open>access_batch\<close> before.
\<close>

definition access_output :: "('c, 'm, 'p, 'r) circuit_env \<Rightarrow> u64 \<Rightarrow> (('m, 'p, 'r) circuit_oram, bytes) comp" where
  "access_output E logical_id =
     bnd (gets (\<lambda>self. scan_stash_output (e_ct E) (block_size (co_params self)) logical_id (co_stash self)))
       (\<lambda>(output, found).
     bnd (require (unwrap_u8 (e_ct E) (ct_not (e_ct E) found) \<noteq> 1) (BlockNotFound logical_id)) (\<lambda>_.
     ret output))"

definition access_rewrite ::
  "('c, 'm, 'p, 'r) circuit_env \<Rightarrow> u64 \<Rightarrow> bytes \<Rightarrow> u32 \<Rightarrow> (('m, 'p, 'r) circuit_oram, unit) comp" where
  "access_rewrite E logical_id new_payload new_leaf =
     modify (\<lambda>self. self\<lparr>co_stash :=
       scan_stash_update (e_ct E) logical_id new_payload new_leaf (co_stash self)\<rparr>)"

definition access ::
  "('c, 'm, 'p, 'r) circuit_env \<Rightarrow> u64 \<Rightarrow> (bytes \<Rightarrow> bytes) \<Rightarrow> (('m, 'p, 'r) circuit_oram, bytes) comp" where
  "access E logical_id update =
     bnd (gets (\<lambda>self. unat logical_id < logical_blocks (co_params self))) (\<lambda>in_range.
     bnd (require in_range (InvalidInput ''logical_id {logical_id} out of range'')) (\<lambda>_.
     bnd (gets (\<lambda>self. scan_pos_map_lookup (e_ct E) (co_pos_map self) logical_id)) (\<lambda>old_leaf.
     bnd (read_and_remove_target_path E old_leaf logical_id) (\<lambda>_.
     bnd (access_output E logical_id) (\<lambda>output.
     bnd (draw_leaf E) (\<lambda>new_leaf.
     bnd (modify (\<lambda>self. self\<lparr>co_pos_map :=
            scan_pos_map_update (e_ct E) (co_pos_map self) logical_id new_leaf\<rparr>)) (\<lambda>_.
     bnd (access_rewrite E logical_id (update output) new_leaf) (\<lambda>_.
     bnd (on_schedule record_access) (\<lambda>_.
     bnd (self_check_stash E) (\<lambda>_.
     ret output))))))))))"

definition read_block :: "('c, 'm, 'p, 'r) circuit_env \<Rightarrow> u64 \<Rightarrow> (('m, 'p, 'r) circuit_oram, bytes) comp" where
  "read_block E logical_id = access E logical_id (\<lambda>payload. payload)"

text \<open>
  The loop of \<open>access_batch\<close>. The closure is an \<open>FnMut\<close>: what it captures is the state \<open>f\<close>, which
  every call returns. The overlays are local: an error drops them.
\<close>

fun batch_loop ::
  "('c, 'm, 'p, 'r) circuit_env \<Rightarrow> ('f \<Rightarrow> u64 \<Rightarrow> bytes \<Rightarrow> bytes \<times> 'f) \<Rightarrow> (u64 \<times> u32 \<times> nat list) list \<Rightarrow>
    'f \<Rightarrow> overlay \<times> overlay \<Rightarrow> (('m, 'p, 'r) circuit_oram, bytes list \<times> 'f \<times> overlay \<times> overlay) comp" where
  "batch_loop E update [] f overlays = ret ([], f, overlays)"
| "batch_loop E update ((logical_id, new_leaf, path) # rest) f overlays =
     bnd (remove_target_from_overlays E path logical_id overlays) (\<lambda>overlays.
     bnd (access_output E logical_id) (\<lambda>output.
       let (new_payload, f) = update f logical_id output
       in bnd (access_rewrite E logical_id new_payload new_leaf) (\<lambda>_.
          bnd (on_schedule record_access) (\<lambda>_.
          bnd (batch_loop E update rest f overlays) (\<lambda>(outputs, f, overlays).
          ret (output # outputs, f, overlays))))))"

text \<open>The reads of the batch methods into overlays, and the write-back of the overlays.\<close>

definition read_overlays ::
  "('c, 'm, 'p, 'r) circuit_env \<Rightarrow> nat list list \<Rightarrow> (('m, 'p, 'r) circuit_oram, overlay \<times> overlay) comp" where
  "read_overlays E paths =
     bnd (gets co_params) (\<lambda>p.
     bnd (on_meta (pp_read_paths_pages (e_meta E) paths)) (\<lambda>meta_path_pages.
     bnd (on_payload (pp_read_paths_pages (e_payload E) paths)) (\<lambda>payload_path_pages.
     bnd (lift (overlay_path_pages paths meta_path_pages (circuit_meta_page_bytes (bucket_size p)))) (\<lambda>meta_overlay.
     bnd (lift (overlay_path_pages paths payload_path_pages
            (circuit_payload_page_bytes (bucket_size p) (block_size p)))) (\<lambda>payload_overlay.
     ret (meta_overlay, payload_overlay))))))"

definition write_overlays ::
  "('c, 'm, 'p, 'r) circuit_env \<Rightarrow> nat list list \<Rightarrow> overlay \<times> overlay \<Rightarrow> (('m, 'p, 'r) circuit_oram, unit) comp" where
  "write_overlays E paths overlays =
     bnd (lift (collect_overlay_paths paths (fst overlays))) (\<lambda>meta_write_pages.
     bnd (lift (collect_overlay_paths paths (snd overlays))) (\<lambda>payload_write_pages.
     bnd (on_meta (pp_write_paths_pages (e_meta E) paths meta_write_pages)) (\<lambda>_.
     on_payload (pp_write_paths_pages (e_payload E) paths payload_write_pages))))"

definition access_batch ::
  "('c, 'm, 'p, 'r) circuit_env \<Rightarrow> u64 list \<Rightarrow> ('f \<Rightarrow> u64 \<Rightarrow> bytes \<Rightarrow> bytes \<times> 'f) \<Rightarrow> 'f \<Rightarrow>
    (('m, 'p, 'r) circuit_oram, bytes list) comp" where
  "access_batch E logical_ids update f =
     (if logical_ids = [] then ret []
      else
        bnd (gets co_params) (\<lambda>p.
        bnd (citer (\<lambda>logical_id. require (unat logical_id < logical_blocks p)
               (InvalidInput ''logical_id {logical_id} out of range'')) logical_ids) (\<lambda>_.
        bnd (gets (\<lambda>self. scan_pos_map_lookup_batch (e_ct E) (co_pos_map self) logical_ids)) (\<lambda>old_leaves.
        bnd (gets (\<lambda>self. random_leaves (e_next_u64 E) p (length logical_ids) (co_rng self)))
          (\<lambda>(new_leaves, next_rng).
          let access_leaves = batch_access_leaves (e_ct E) logical_ids old_leaves new_leaves;
              paths = map (path_nodes p) access_leaves
          in bnd (read_overlays E paths) (\<lambda>overlays.
             bnd (batch_loop E update (zip logical_ids (zip new_leaves paths)) f overlays)
               (\<lambda>(outputs, f, overlays).
             bnd (modify (\<lambda>self. self\<lparr>co_pos_map :=
                    scan_pos_map_update_batch (e_ct E) (co_pos_map self) logical_ids new_leaves\<rparr>)) (\<lambda>_.
             bnd (modify (\<lambda>self. self\<lparr>co_rng := next_rng\<rparr>)) (\<lambda>_.
             bnd (write_overlays E paths overlays) (\<lambda>_.
             bnd (self_check_stash E) (\<lambda>_.
             ret outputs)))))))))))"

definition read_batch :: "('c, 'm, 'p, 'r) circuit_env \<Rightarrow> u64 list \<Rightarrow> (('m, 'p, 'r) circuit_oram, bytes list) comp" where
  "read_batch E logical_ids = access_batch E logical_ids (\<lambda>f _ payload. (payload, f)) ()"

definition read_and_rewrite_path :: "('c, 'm, 'p, 'r) circuit_env \<Rightarrow> u32 \<Rightarrow> (('m, 'p, 'r) circuit_oram, unit) comp" where
  "read_and_rewrite_path E leaf =
     bnd (gets (\<lambda>self. path_nodes (co_params self) leaf)) (\<lambda>path.
     bnd (on_meta (pp_read_path_pages (e_meta E) path)) (\<lambda>meta_pages.
     bnd (on_payload (pp_read_path_pages (e_payload E) path)) (\<lambda>payload_pages.
     bnd (on_meta (pp_write_path_pages (e_meta E) path meta_pages)) (\<lambda>_.
     on_payload (pp_write_path_pages (e_payload E) path payload_pages)))))"

definition dummy_access :: "('c, 'm, 'p, 'r) circuit_env \<Rightarrow> (('m, 'p, 'r) circuit_oram, unit) comp" where
  "dummy_access E =
     bnd (draw_leaf E) (\<lambda>leaf.
     bnd (read_and_rewrite_path E leaf) (\<lambda>_.
     bnd (on_schedule record_access) (\<lambda>_.
     self_check_stash E)))"

definition dummy_access_batch :: "('c, 'm, 'p, 'r) circuit_env \<Rightarrow> nat \<Rightarrow> (('m, 'p, 'r) circuit_oram, unit) comp" where
  "dummy_access_batch E n =
     (if n = 0 then ret ()
      else
        bnd (gets co_params) (\<lambda>p.
        bnd (cmapM (\<lambda>_. bnd (draw_leaf E) (\<lambda>leaf. ret (path_nodes p leaf))) [0..<n]) (\<lambda>paths.
        bnd (read_overlays E paths) (\<lambda>overlays.
        bnd (write_overlays E paths overlays) (\<lambda>_.
        bnd (citer (\<lambda>_. on_schedule record_access) [0..<n]) (\<lambda>_.
        self_check_stash E))))))"

section \<open>Background eviction\<close>

fun evict_paths ::
  "('c, 'm, 'p, 'r) circuit_env \<Rightarrow> nat list list \<Rightarrow> overlay \<times> overlay \<Rightarrow>
    (('m, 'p, 'r) circuit_oram, overlay \<times> overlay) comp" where
  "evict_paths E [] overlays = ret overlays"
| "evict_paths E (path # paths) overlays =
     bnd (gets co_params) (\<lambda>p.
     bnd (on_stash (evict_path_in_overlays (e_ct E) p path overlays)) (\<lambda>overlays.
     evict_paths E paths overlays))"

definition drain_evictions :: "('c, 'm, 'p, 'r) circuit_env \<Rightarrow> u64 \<Rightarrow> (('m, 'p, 'r) circuit_oram, u64) comp" where
  "drain_evictions E budget =
     bnd (gets (\<lambda>self. pending_evictions (co_schedule self))) (\<lambda>r.
     bnd (lift r) (\<lambda>pending.
       let to_drain = min budget pending
       in if to_drain = 0 then ret 0
          else
            bnd (gets co_params) (\<lambda>p.
            bnd (gets (\<lambda>self. completed_evictions (co_schedule self))) (\<lambda>start.
              let ls = map (\<lambda>offset. eviction_leaf_at p (start + word_of_nat offset)) [0..<unat to_drain];
                  paths = map (path_nodes p) ls
              in bnd (read_overlays E paths) (\<lambda>overlays.
                 bnd (evict_paths E paths overlays) (\<lambda>overlays.
                 bnd (write_overlays E paths overlays) (\<lambda>_.
                 bnd (citer (\<lambda>_. bnd (on_schedule complete_one_eviction) (\<lambda>_. ret ())) ls) (\<lambda>_.
                 bnd (self_check_stash E) (\<lambda>_.
                 ret to_drain)))))))))"

definition oram_flush :: "('c, 'm, 'p, 'r) circuit_env \<Rightarrow> (('m, 'p, 'r) circuit_oram, unit) comp" where
  "oram_flush E =
     bnd (on_meta (pp_flush (e_meta E))) (\<lambda>_. on_payload (pp_flush (e_payload E)))"

end
