(* ===== verification/Greedy_Eviction.thy ===== *)
theory Greedy_Eviction
  imports Circuit_Stash
begin

text \<open>
  The greedy path eviction as an abstract specification: candidates are indices, \<open>P d i\<close> says that
  candidate \<open>i\<close> may be placed at depth \<open>d\<close>, and every slot of the path, from the leaf up, takes the
  first candidate that fits and is not taken yet. It places every candidate at most once, and at
  least as many candidates as the path held before, so an eviction never fills the stash.
\<close>

section \<open>The greedy assignment\<close>

definition first_fit :: "(nat \<Rightarrow> bool) \<Rightarrow> bool list \<Rightarrow> nat option" where
  "first_fit P sel = find (\<lambda>i. P i \<and> \<not> sel ! i) [0..<length sel]"

fun greedy_row :: "(nat \<Rightarrow> bool) \<Rightarrow> nat \<Rightarrow> bool list \<Rightarrow> nat option list \<times> bool list" where
  "greedy_row P 0 sel = ([], sel)"
| "greedy_row P (Suc n) sel =
     (let r = first_fit P sel;
          sel = (case r of None \<Rightarrow> sel | Some i \<Rightarrow> sel[i := True]);
          (row, sel) = greedy_row P n sel
      in (r # row, sel))"

fun greedy_rows ::
  "(nat \<Rightarrow> nat \<Rightarrow> bool) \<Rightarrow> nat \<Rightarrow> nat list \<Rightarrow> bool list \<Rightarrow> nat option list list \<times> bool list" where
  "greedy_rows P z [] sel = ([], sel)"
| "greedy_rows P z (d # ds) sel =
     (let (row, sel) = greedy_row (P d) z sel;
          (rows, sel) = greedy_rows P z ds sel
      in (row # rows, sel))"

definition picks :: "nat option list \<Rightarrow> nat list" where
  "picks row = List.map_filter (\<lambda>r. r) row"

definition sel_set :: "bool list \<Rightarrow> nat set" where
  "sel_set sel = {i. i < length sel \<and> sel ! i}"

lemma picks_simps [simp]:
  "picks [] = []" "picks (None # row) = picks row" "picks (Some i # row) = i # picks row"
  by (simp_all add: picks_def map_filter_simps)

lemma picks_append [simp]: "picks (xs @ ys) = picks xs @ picks ys"
  by (simp add: picks_def map_filter_def)

lemma picks_length: "length (picks row) \<le> length row"
  by (simp add: picks_def map_filter_def)

lemma finite_sel_set [simp]: "finite (sel_set sel)"
  by (simp add: sel_set_def)

lemma first_fit_None: "first_fit P sel = None \<Longrightarrow> i < length sel \<Longrightarrow> P i \<Longrightarrow> sel ! i"
  by (auto simp: first_fit_def find_None_iff)

lemma first_fit_Some:
  "first_fit P sel = Some i \<Longrightarrow> i < length sel \<and> P i \<and> i \<notin> sel_set sel \<and>
    sel_set (sel[i := True]) = insert i (sel_set sel)"
  by (auto simp: first_fit_def find_Some_iff sel_set_def nth_list_update split: if_splits)

lemma greedy_row_props:
  assumes "greedy_row P n sel = (row, sel')"
  shows "length row = n \<and> length sel' = length sel \<and> distinct (picks row) \<and>
    sel_set sel' = sel_set sel \<union> set (picks row) \<and> set (picks row) \<inter> sel_set sel = {} \<and>
    (\<forall>i \<in> set (picks row). P i) \<and>
    (length (picks row) = n \<or> (\<forall>i < length sel. P i \<longrightarrow> i \<in> sel_set sel'))"
  using assms
proof (induction n arbitrary: sel row)
  case (Suc n)
  show ?case
  proof (cases "first_fit P sel")
    case None
    then obtain row' where row: "row = None # row'" "greedy_row P n sel = (row', sel')"
      using Suc.prems by (auto simp: Let_def split: prod.splits)
    note IH = Suc.IH [OF row(2)]
    have "\<forall>i < length sel. P i \<longrightarrow> i \<in> sel_set sel"
      using first_fit_None [OF None] by (auto simp: sel_set_def)
    with IH row show ?thesis by auto
  next
    case (Some i)
    then obtain row' where row: "row = Some i # row'" "greedy_row P n (sel[i := True]) = (row', sel')"
      using Suc.prems by (auto simp: Let_def split: prod.splits)
    note IH = Suc.IH [OF row(2)]
    from IH first_fit_Some [OF Some] row show ?thesis by auto
  qed
qed (simp add: sel_set_def)

lemma greedy_rows_append:
  "greedy_rows P z (ds @ es) sel =
    (let (rows, sel) = greedy_rows P z ds sel; (rows', sel) = greedy_rows P z es sel in (rows @ rows', sel))"
  by (induction ds arbitrary: sel) (auto simp: Let_def split_beta)

lemma greedy_rows_props:
  assumes "greedy_rows P z ds sel = (rows, sel')"
  shows "length rows = length ds \<and> (\<forall>row \<in> set rows. length row = z) \<and> length sel' = length sel \<and>
    distinct (concat (map picks rows)) \<and> sel_set sel' = sel_set sel \<union> set (concat (map picks rows)) \<and>
    set (concat (map picks rows)) \<inter> sel_set sel = {} \<and>
    (\<forall>k < length ds. \<forall>i \<in> set (picks (rows ! k)). P (ds ! k) i)"
  using assms
proof (induction ds arbitrary: sel rows)
  case (Cons d ds)
  obtain row sel1 where row: "greedy_row (P d) z sel = (row, sel1)" by fastforce
  obtain rows' where rows: "rows = row # rows'" "greedy_rows P z ds sel1 = (rows', sel')"
    using Cons.prems row by (auto split: prod.splits)
  from greedy_row_props [OF row] Cons.IH [OF rows(2)] show ?case
    unfolding rows(1) by (auto simp: nth_Cons')
qed simp

text \<open>
  The capacity argument. \<open>A d\<close> are the candidates the path held at depth \<open>d\<close>: at most \<open>z\<close>, and each
  may be placed at every depth up to \<open>d\<close>. At each depth either all \<open>z\<close> slots are filled, or
  everything that fits there has been placed.
\<close>

lemma greedy_capacity:
  assumes "greedy_rows P z (rev [d..<h]) sel = (rows, sel')" and "d \<le> h"
    and "\<And>d. d < h \<Longrightarrow> card (A d) \<le> z \<and> A d \<subseteq> {..<length sel}"
    and "\<And>d e i. d < h \<Longrightarrow> i \<in> A d \<Longrightarrow> e \<le> d \<Longrightarrow> P e i"
  shows "card (\<Union>e \<in> {d..<h}. A e) \<le> card (sel_set sel')"
  using assms(2,1)
proof (induction arbitrary: rows sel' rule: inc_induct)
  case base
  then show ?case by simp
next
  case (step d)
  have "rev [d..<h] = rev [Suc d..<h] @ [d]" using step.hyps by (simp add: upt_conv_Cons)
  then obtain rows1 sel1 row where 1: "greedy_rows P z (rev [Suc d..<h]) sel = (rows1, sel1)"
    and 2: "greedy_row (P d) z sel1 = (row, sel')"
    using step.prems by (auto simp: greedy_rows_append Let_def split: prod.splits)
  let ?U = "\<lambda>d. \<Union>e \<in> {d..<h}. A e"
  have "{d..<h} = insert d {Suc d..<h}" using step.hyps by auto
  then have U: "?U d = ?U (Suc d) \<union> A d" by auto
  have IH: "card (?U (Suc d)) \<le> card (sel_set sel1)" using step.IH [OF 1] .
  note row = greedy_row_props [OF 2]
  have len: "length sel1 = length sel" using greedy_rows_props [OF 1] by simp
  from row consider "length (picks row) = z" | "\<forall>i < length sel. P d i \<longrightarrow> i \<in> sel_set sel'"
    using len by auto
  then show ?case
  proof cases
    case 1
    have "card (sel_set sel') = card (sel_set sel1) + z"
      using row 1 by (simp add: card_Un_disjoint Int_commute distinct_card)
    moreover have "card (?U d) \<le> card (?U (Suc d)) + card (A d)"
      unfolding U by (rule card_Un_le)
    moreover have "card (A d) \<le> z" using assms(3) step.hyps by auto
    ultimately show ?thesis using IH by linarith
  next
    case 2
    have "?U d \<subseteq> sel_set sel'"
    proof
      fix i assume "i \<in> ?U d"
      then obtain e where e: "d \<le> e" "e < h" "i \<in> A e" by auto
      then have "i < length sel" "P d i" using assms(3) [of e] assms(4) [of e i d] by auto
      with 2 show "i \<in> sel_set sel'" by blast
    qed
    then show ?thesis by (intro card_mono) auto
  qed
qed

section \<open>Blocks\<close>

text \<open>The bucket a row of placements stands for.\<close>

definition row_bucket :: "nat \<Rightarrow> oram_block list \<Rightarrow> nat option list \<Rightarrow> oram_block list" where
  "row_bucket n cb row = map (\<lambda>r. case r of None \<Rightarrow> dummy n | Some i \<Rightarrow> cb ! i) row"

lemma real_blocks_row_bucket:
  "(\<And>i. i \<in> set (picks row) \<Longrightarrow> b_occupied (cb ! i)) \<Longrightarrow>
    real_blocks (row_bucket n cb row) = image_mset ((!) cb) (mset (picks row))"
proof (induction row)
  case (Cons r row)
  then show ?case by (cases r) (auto simp: row_bucket_def)
qed (simp add: row_bucket_def)

lemma real_blocks_positions:
  "real_blocks cb = image_mset ((!) cb) (filter_mset (\<lambda>i. b_occupied (cb ! i)) (mset [0..<length cb]))"
proof -
  have "mset (filter b_occupied cb) =
      mset (map ((!) cb) (filter (\<lambda>i. b_occupied (cb ! i)) [0..<length cb]))"
    by (subst filter_positions) (rule refl)
  then show ?thesis by (simp del: mset_upt)
qed

end
