(* ===== verification/Eviction_Refinement.thy ===== *)
theory Eviction_Refinement
  imports Circuit_Eviction Greedy_Eviction Page_Store
begin

text \<open>
  The eviction code of \<open>Circuit_Eviction\<close> implements the greedy assignment of \<open>Greedy_Eviction\<close>:
  the plan is the assignment, applying it always succeeds, moves blocks without losing,
  duplicating or altering any, keeps every block on the path of its leaf, and leaves the stash no
  fuller than before.
\<close>

section \<open>Buckets as lists of blocks\<close>

definition block_meta :: "oram_block \<Rightarrow> meta_slot" where
  "block_meta b = \<lparr>m_occupied = b_occupied b, m_logical_id = b_logical_id b, m_leaf = b_leaf b\<rparr>"

lemma block_meta_simps [simp]:
  "m_occupied (block_meta b) = b_occupied b" "m_logical_id (block_meta b) = b_logical_id b"
  "m_leaf (block_meta b) = b_leaf b" "slot_block (block_meta b) (b_payload b) = b"
  "block_meta (dummy n) = meta_dummy"
  by (simp_all add: block_meta_def slot_block_def dummy_def meta_dummy_def)

lemma slot_block_occupied: "b_occupied b \<Longrightarrow> slot_block ((block_meta b)\<lparr>m_occupied := True\<rparr>) (b_payload b) = b"
  by (simp add: block_meta_def slot_block_def)

definition meta_page :: "oram_block list \<Rightarrow> bytes" where
  "meta_page bs = concat (map meta_bytes (map block_meta bs))"

definition payload_page :: "oram_block list \<Rightarrow> bytes" where
  "payload_page bs = concat (map b_payload bs)"

definition bucket_wf :: "oram_params \<Rightarrow> oram_block list \<Rightarrow> bool" where
  "bucket_wf p bs \<longleftrightarrow> length bs = bucket_size p \<and> stash_wf (block_size p) bs"

definition overlay_holds :: "(nat \<Rightarrow> oram_block list) \<Rightarrow> overlay \<times> overlay \<Rightarrow> nat set \<Rightarrow> bool" where
  "overlay_holds T ov nodes \<longleftrightarrow>
     (\<forall>i \<in> nodes. fst ov i = Some (meta_page (T i)) \<and> snd ov i = Some (payload_page (T i)))"

lemma meta_bucket_decode_page:
  "bucket_wf p bs \<Longrightarrow> meta_bucket_decode (meta_page bs) (bucket_size p) = Inr (map block_meta bs)"
  by (simp add: meta_page_def bucket_wf_def meta_bucket_decode_eq del: map_map)

lemma payload_bucket_decode_page:
  "bucket_wf p bs \<Longrightarrow> 0 < block_size p \<Longrightarrow>
    payload_bucket_decode (payload_page bs) (bucket_size p) (block_size p) = Inr (map b_payload bs)"
  unfolding payload_page_def bucket_wf_def stash_wf_def
  by (intro payload_bucket_decode_eq) auto

lemma meta_bucket_encode_page:
  "bucket_wf p bs \<Longrightarrow> meta_bucket_encode (map block_meta bs) (bucket_size p) = Inr (meta_page bs)"
  by (simp add: meta_page_def bucket_wf_def meta_bucket_encode_eq)

lemma payload_bucket_encode_page:
  "bucket_wf p bs \<Longrightarrow>
    payload_bucket_encode (map b_payload bs) (bucket_size p) (block_size p) = Inr (payload_page bs)"
  unfolding payload_page_def bucket_wf_def stash_wf_def
  by (intro payload_bucket_encode_eq) auto

lemma length_meta_page_wf: "bucket_wf p bs \<Longrightarrow> length (meta_page bs) = circuit_meta_page_bytes (bucket_size p)"
  by (simp add: meta_page_def bucket_wf_def circuit_meta_page_bytes_def del: map_map)

lemma length_payload_page_wf:
  assumes "bucket_wf p bs"
  shows "length (payload_page bs) = circuit_payload_page_bytes (bucket_size p) (block_size p)"
  using assms length_concat_equal [of "map b_payload bs" "block_size p"]
  by (auto simp: payload_page_def bucket_wf_def stash_wf_def circuit_payload_page_bytes_def)

lemma path_metadata_from_overlay_eq:
  assumes "overlay_holds T ov (set path)" and "\<And>i. i \<in> set path \<Longrightarrow> bucket_wf p (T i)"
  shows "path_metadata_from_overlay p path (fst ov) = Inr (map (\<lambda>i. map block_meta (T i)) path)"
  using assms unfolding path_metadata_from_overlay_def
  by (intro rmapM_Inr) (auto simp: overlay_holds_def meta_bucket_decode_page)

section \<open>Candidates\<close>

definition block_candidate :: "'c subtle \<Rightarrow> oram_block \<Rightarrow> 'c candidate" where
  "block_candidate sb b = \<lparr>c_meta = block_meta b, c_active = choice_from_bool sb (b_occupied b)\<rparr>"

lemma stash_candidates_eq: "stash_candidates sb stash = map (block_candidate sb) stash"
  by (simp add: stash_candidates_def block_candidate_def block_meta_def)

lemma path_candidates_bucket:
  assumes "depth < length idxs" and "k + length bs = length (idxs ! depth)"
  shows "fold (\<lambda>(slot_idx, meta) (candidates, indices).
      (candidates @ [\<lparr>c_meta = meta, c_active = choice_from_bool sb (m_occupied meta)\<rparr>],
       indices[depth := (indices ! depth)[slot_idx := length candidates]]))
    (enumerate k (map block_meta bs)) (cands, idxs) =
    (cands @ map (block_candidate sb) bs,
     idxs[depth := take k (idxs ! depth) @ [length cands..<length cands + length bs]])"
  using assms
proof (induction bs arbitrary: k cands idxs)
  case (Cons b bs)
  have upd: "take (Suc k) ((idxs ! depth)[k := length cands]) = take k (idxs ! depth) @ [length cands]"
    using Cons.prems by (simp add: take_Suc_conv_app_nth)
  have "[length cands..<length cands + Suc (length bs)] =
      length cands # [Suc (length cands)..<Suc (length cands) + length bs]"
    by (simp add: upt_conv_Cons del: upt_Suc)
  then show ?case
    using Cons.prems Cons.IH [of "idxs[depth := (idxs ! depth)[k := length cands]]" "Suc k"
        "cands @ [block_candidate sb b]"]
    by (simp add: upd block_candidate_def del: upt_Suc)
qed simp

text \<open>The candidate indices of the slots at each depth of the path.\<close>

definition path_indices :: "nat \<Rightarrow> nat \<Rightarrow> nat \<Rightarrow> nat list list" where
  "path_indices n h z = map (\<lambda>d. [n + d * z..<n + d * z + z]) [0..<h]"

lemma path_candidates_eq:
  assumes "length bks = height p" and "\<And>bs. bs \<in> set bks \<Longrightarrow> length bs = bucket_size p"
  shows "path_candidates sb p (map (map block_meta) bks) cands =
    Inr (cands @ map (block_candidate sb) (concat bks),
         path_indices (length cands) (height p) (bucket_size p))"
proof -
  let ?z = "bucket_size p"
  define f where "f = (\<lambda>(depth, bucket) (candidates, indices).
        if length bucket \<noteq> bucket_size p then
          Inl (InvalidInput ''metadata bucket at depth {} has {} slots, expected {}'')
        else Inr (fold (\<lambda>(slot_idx, meta) (candidates, indices).
               (candidates @ [\<lparr>c_meta = meta, c_active = choice_from_bool sb (m_occupied meta)\<rparr>],
                indices[depth := (indices ! depth)[slot_idx := length candidates]]))
             (enumerate 0 bucket) (candidates, indices)))"
  have "rfoldM f (enumerate d (map (map block_meta) bks)) (cands, idxs) =
      Inr (cands @ map (block_candidate sb) (concat bks),
           take d idxs @ path_indices (length cands) (length bks) ?z)"
    if "d + length bks = length idxs" and "\<And>r. r \<in> set idxs \<Longrightarrow> length r = ?z"
      and "\<And>bs. bs \<in> set bks \<Longrightarrow> length bs = ?z" for d cands idxs bks
    using that
  proof (induction bks arbitrary: d cands idxs)
    case (Cons bs bks)
    let ?row = "[length cands..<length cands + ?z]"
    have d: "d < length idxs" "length (idxs ! d) = ?z" "length bs = ?z"
      using Cons.prems by auto
    have step: "f (d, map block_meta bs) (cands, idxs) =
        Inr (cands @ map (block_candidate sb) bs, idxs[d := ?row])"
      using d path_candidates_bucket [of d idxs 0 bs sb cands] by (simp add: f_def)
    have rest: "rfoldM f (enumerate (Suc d) (map (map block_meta) bks))
        (cands @ map (block_candidate sb) bs, idxs[d := ?row]) =
      Inr ((cands @ map (block_candidate sb) bs) @ map (block_candidate sb) (concat bks),
           take (Suc d) (idxs[d := ?row]) @
             path_indices (length (cands @ map (block_candidate sb) bs)) (length bks) ?z)"
      using Cons.prems d by (intro Cons.IH) (auto dest!: set_update_subset_insert [THEN subsetD])
    have tk: "take (Suc d) (idxs[d := ?row]) = take d idxs @ [?row]"
      using d by (simp add: take_Suc_conv_app_nth)
    have "path_indices (length cands) (Suc n) ?z = ?row # path_indices (length cands + ?z) n ?z" for n
      unfolding path_indices_def
      by (simp add: upt_conv_Cons algebra_simps map_Suc_upt [symmetric] del: upt_Suc map_Suc_upt)
    with step rest tk d show ?case by (simp add: add.assoc)
  qed (simp add: path_indices_def)
  from this [of 0 bks "replicate (height p) (replicate ?z 0)" cands] assms
  show ?thesis unfolding path_candidates_def f_def [symmetric] by simp
qed

section \<open>The plan is the greedy assignment\<close>

text \<open>Candidate \<open>i\<close> may go to the node of the path at depth \<open>d\<close>.\<close>

definition placeable :: "oram_params \<Rightarrow> nat list \<Rightarrow> oram_block list \<Rightarrow> nat \<Rightarrow> nat \<Rightarrow> bool" where
  "placeable p path cb d i \<longleftrightarrow>
     b_occupied (cb ! i) \<and>
     node_index p d (word_of_nat (unat (b_leaf (cb ! i)) AND (leaves p - 1))) = path ! d"

definition placement_opt :: "'c subtle \<Rightarrow> 'c placement \<Rightarrow> nat option" where
  "placement_opt sb pl = (if chosen sb (pl_occupied pl) then Some (pl_candidate_idx pl) else None)"

lemma find_snoc:
  "find P (xs @ [x]) = (case find P xs of None \<Rightarrow> if P x then Some x else None | Some i \<Rightarrow> Some i)"
  by (induction xs) auto

lemma enumerate_conv_upt: "enumerate 0 xs = map (\<lambda>i. (i, xs ! i)) [0..<length xs]"
  by (intro nth_equalityI) (auto simp: nth_enumerate_eq)

context subtle_spec
begin

lemma chosen_node_contains_leaf_choice [ct_simps]:
  "chosen sb (node_contains_leaf_choice sb p d n l) \<longleftrightarrow>
    node_index p d (word_of_nat (unat l AND (leaves p - 1))) = n"
  by (simp add: node_contains_leaf_choice_def Let_def ct_simps)

lemma place_slot_prefix:
  assumes "length selected = length cb" and "length cb < 2 ^ 64" and "k \<le> length cb"
    and "fold (\<lambda>(candidate_idx, candidate) (selected, placed, placement_idx).
          let can_place = ct_and sb
                (ct_and sb (c_active candidate) (ct_not sb (selected ! candidate_idx)))
                (ct_and sb (ct_not sb placed)
                   (node_contains_leaf_choice sb p d (path ! d) (m_leaf (c_meta candidate))))
          in (selected[candidate_idx := ct_or sb (selected ! candidate_idx) can_place],
              ct_or sb placed can_place,
              cmov_usize sb placement_idx candidate_idx can_place))
        (map (\<lambda>i. (i, block_candidate sb (cb ! i))) [0..<k])
        (selected, choice_from_bool sb False, 0) = (selected', placed, idx)"
  shows "let r = find (\<lambda>i. placeable p path cb d i \<and> \<not> chosen sb (selected ! i)) [0..<k]
    in map (chosen sb) selected' =
         (case r of None \<Rightarrow> map (chosen sb) selected | Some i \<Rightarrow> (map (chosen sb) selected)[i := True]) \<and>
       (chosen sb placed \<longleftrightarrow> r \<noteq> None) \<and> (\<forall>i. r = Some i \<longrightarrow> idx = i) \<and> idx < 2 ^ 64"
  using assms(3,4)
proof (induction k arbitrary: selected' placed idx)
  case 0
  then show ?case by (auto simp: ct_simps Let_def)
next
  case (Suc k)
  let ?P = "\<lambda>i. placeable p path cb d i \<and> \<not> chosen sb (selected ! i)"
  let ?f = "\<lambda>(candidate_idx, candidate) (selected, placed, placement_idx).
          let can_place = ct_and sb
                (ct_and sb (c_active candidate) (ct_not sb (selected ! candidate_idx)))
                (ct_and sb (ct_not sb placed)
                   (node_contains_leaf_choice sb p d (path ! d) (m_leaf (c_meta candidate))))
          in (selected[candidate_idx := ct_or sb (selected ! candidate_idx) can_place],
              ct_or sb placed can_place,
              cmov_usize sb placement_idx candidate_idx can_place)"
  obtain sel1 pl1 idx1 where prev:
    "fold ?f (map (\<lambda>i. (i, block_candidate sb (cb ! i))) [0..<k]) (selected, choice_from_bool sb False, 0) =
      (sel1, pl1, idx1)"
    by (rule prod_cases3)
  define can where "can = ct_and sb
      (ct_and sb (c_active (block_candidate sb (cb ! k))) (ct_not sb (sel1 ! k)))
      (ct_and sb (ct_not sb pl1)
        (node_contains_leaf_choice sb p d (path ! d) (m_leaf (c_meta (block_candidate sb (cb ! k))))))"
  have new: "selected' = sel1[k := ct_or sb (sel1 ! k) can]" "placed = ct_or sb pl1 can"
    "idx = cmov_usize sb idx1 k can"
    using Suc.prems(2) prev by (auto simp: can_def Let_def)
  define r where "r = find ?P [0..<k]"
  have IH: "map (chosen sb) sel1 =
      (case r of None \<Rightarrow> map (chosen sb) selected | Some i \<Rightarrow> (map (chosen sb) selected)[i := True])"
    "chosen sb pl1 \<longleftrightarrow> r \<noteq> None" "\<And>i. r = Some i \<Longrightarrow> idx1 = i" "idx1 < 2 ^ 64"
    using Suc.IH [OF _ prev] Suc.prems(1) by (auto simp: Let_def r_def)
  have len: "length sel1 = length cb"
    using arg_cong [OF IH(1), of length] assms(1) by (auto split: option.splits)
  have k: "k < length cb" "k < 2 ^ 64" using Suc.prems(1) assms(2) by simp_all
  have "chosen sb (sel1 ! k) = map (chosen sb) sel1 ! k" using k len by simp
  also have "\<dots> = (if r = Some k then True else chosen sb (selected ! k))"
    unfolding IH(1) using k assms(1) by (auto simp: nth_list_update split: option.splits)
  finally have selk: "chosen sb (sel1 ! k) = (r = Some k \<or> chosen sb (selected ! k))" by auto
  have can: "chosen sb can \<longleftrightarrow> r = None \<and> ?P k"
    using selk IH(2) by (auto simp: can_def ct_simps block_candidate_def placeable_def)
  have idx: "idx = (if chosen sb can then k else idx1)"
    unfolding new(3) using k(2) IH(4) by (simp add: cmov_usize_if)
  have map': "map (chosen sb) selected' = (map (chosen sb) sel1)[k := chosen sb (sel1 ! k) \<or> chosen sb can]"
    by (simp add: new(1) map_update ct_simps)
  have next_r: "find ?P [0..<Suc k] = (case r of None \<Rightarrow> if ?P k then Some k else None | Some i \<Rightarrow> Some i)"
    by (simp add: find_snoc r_def)
  show ?case
  proof (cases r)
    case None
    then have "map (chosen sb) selected' = (if ?P k then (map (chosen sb) selected)[k := True] else map (chosen sb) selected)"
      using map' can selk IH(1) k(1) assms(1) by (auto simp: list_update_same_conv)
    with None can idx IH(4) k(2) new(2) show ?thesis
      unfolding next_r by (auto simp: Let_def ct_simps IH(2))
  next
    case (Some i)
    then have "map (chosen sb) selected' = map (chosen sb) sel1"
      using map' can k(1) len by (simp add: list_update_same_conv)
    with Some can idx IH new(2) show ?thesis
      unfolding next_r by (auto simp: Let_def ct_simps)
  qed
qed

lemma place_slot_greedy:
  assumes "length selected = length cb" and "length cb < 2 ^ 64"
    and "place_slot sb p d (path ! d) (map (block_candidate sb) cb) selected = (pl, selected')"
  shows "placement_opt sb pl = first_fit (placeable p path cb d) (map (chosen sb) selected) \<and>
    map (chosen sb) selected' = (case placement_opt sb pl of None \<Rightarrow> map (chosen sb) selected
      | Some i \<Rightarrow> (map (chosen sb) selected)[i := True])"
proof -
  have en: "enumerate 0 (map (block_candidate sb) cb) =
      map (\<lambda>i. (i, block_candidate sb (cb ! i))) [0..<length cb]"
    by (simp add: enumerate_conv_upt)
  obtain placed idx where f: "fold (\<lambda>(candidate_idx, candidate) (selected, placed, placement_idx).
          let can_place = ct_and sb
                (ct_and sb (c_active candidate) (ct_not sb (selected ! candidate_idx)))
                (ct_and sb (ct_not sb placed)
                   (node_contains_leaf_choice sb p d (path ! d) (m_leaf (c_meta candidate))))
          in (selected[candidate_idx := ct_or sb (selected ! candidate_idx) can_place],
              ct_or sb placed can_place,
              cmov_usize sb placement_idx candidate_idx can_place))
        (map (\<lambda>i. (i, block_candidate sb (cb ! i))) [0..<length cb])
        (selected, choice_from_bool sb False, 0) = (selected', placed, idx)"
    and pl: "pl = \<lparr>pl_candidate_idx = idx, pl_occupied = placed\<rparr>"
    using assms(3) unfolding place_slot_def en by (auto split: prod.splits)
  have "first_fit (placeable p path cb d) (map (chosen sb) selected) =
      find (\<lambda>i. placeable p path cb d i \<and> \<not> chosen sb (selected ! i)) [0..<length cb]"
    unfolding first_fit_def using assms(1) by (auto intro!: find_cong)
  with place_slot_prefix [OF assms(1,2) order_refl f] pl show ?thesis
    by (auto simp: Let_def placement_opt_def)
qed

lemma place_row_greedy:
  assumes "length selected = length cb" and "length cb < 2 ^ 64"
    and "place_row sb p d (path ! d) (map (block_candidate sb) cb) row0 selected = (row, selected')"
  shows "greedy_row (placeable p path cb d) (length row0) (map (chosen sb) selected) =
    (map (placement_opt sb) row, map (chosen sb) selected')"
  using assms(1,3)
proof (induction row0 arbitrary: selected row)
  case (Cons x row0)
  obtain pl sel1 where slot: "place_slot sb p d (path ! d) (map (block_candidate sb) cb) selected = (pl, sel1)"
    by fastforce
  obtain row1 where row: "row = pl # row1"
    "place_row sb p d (path ! d) (map (block_candidate sb) cb) row0 sel1 = (row1, selected')"
    using Cons.prems(2) slot by (auto split: prod.splits)
  note g = place_slot_greedy [OF Cons.prems(1) assms(2) slot]
  have "length sel1 = length cb"
    using arg_cong [OF conjunct2 [OF g], of length] Cons.prems(1) by (auto split: option.splits)
  from Cons.IH [OF this row(2)] g show ?case
    by (auto simp: row(1) Let_def split: option.splits)
qed simp

lemma place_rows_greedy:
  assumes "length selected = length cb" and "length cb < 2 ^ 64"
    and "distinct ds" and "\<And>d. d \<in> set ds \<Longrightarrow> d < length placements \<and> length (placements ! d) = z"
    and "fold (\<lambda>depth (placements, selected).
        let (row, selected) =
          place_row sb p depth (path ! depth) (map (block_candidate sb) cb) (placements ! depth) selected
        in (placements[depth := row], selected)) ds (placements, selected) = (placements', selected')"
  shows "greedy_rows (placeable p path cb) z ds (map (chosen sb) selected) =
      (map (\<lambda>d. map (placement_opt sb) (placements' ! d)) ds, map (chosen sb) selected') \<and>
    length placements' = length placements \<and> (\<forall>d. d \<notin> set ds \<longrightarrow> placements' ! d = placements ! d)"
  using assms(1,3,4,5)
proof (induction ds arbitrary: selected placements)
  case (Cons d ds)
  obtain row sel1 where row:
    "place_row sb p d (path ! d) (map (block_candidate sb) cb) (placements ! d) selected = (row, sel1)"
    by fastforce
  note g = place_row_greedy [OF Cons.prems(1) assms(2) row]
  have len: "length sel1 = length cb"
    using greedy_row_props [OF g] Cons.prems(1) by simp
  have IH: "greedy_rows (placeable p path cb) z ds (map (chosen sb) sel1) =
      (map (\<lambda>d. map (placement_opt sb) (placements' ! d)) ds, map (chosen sb) selected') \<and>
    length placements' = length (placements[d := row]) \<and>
    (\<forall>e. e \<notin> set ds \<longrightarrow> placements' ! e = (placements[d := row]) ! e)"
    using Cons.prems row len by (intro Cons.IH) (auto simp: nth_list_update)
  with g Cons.prems(2,3) show ?case by (auto simp: nth_list_update)
qed simp

end

section \<open>Loading the payloads\<close>

lemma rfoldM_map: "rfoldM f (map g xs) b = rfoldM (\<lambda>x. f (g x)) xs b"
proof (induction xs arbitrary: b)
  case (Cons x xs)
  then show ?case by (cases "f (g x) b") auto
qed simp

lemma rfoldM_copy_payloads:
  assumes "\<And>s xs'. s < length src \<Longrightarrow> f s xs' = copy_payload (base + s) (src ! s) xs'"
    and "\<And>x. x \<in> set src \<Longrightarrow> length x = n" and "\<And>x. x \<in> set xs \<Longrightarrow> length x = n"
    and "base + length src \<le> length xs"
  shows "rfoldM f [0..<length src] xs = Inr (copy_into base src xs)"
proof -
  have "rfoldM f [0..<k] xs = Inr (take base xs @ take k src @ drop (base + k) xs)" if "k \<le> length src" for k
    using that
  proof (induction k)
    case (Suc k)
    let ?xs = "take base xs @ take k src @ drop (base + k) xs"
    have k: "k < length src" "base + k < length xs" using Suc.prems assms(4) by auto
    have at: "?xs ! (base + k) = xs ! (base + k)" "length ?xs = length xs"
      using k by (simp_all add: nth_append min_def)
    have "copy_payload (base + k) (src ! k) ?xs = Inr (?xs[base + k := src ! k])"
      unfolding copy_payload_def using k at assms(2,3) by simp
    moreover have "?xs[base + k := src ! k] = take base xs @ take (Suc k) src @ drop (base + Suc k) xs"
      using k by (auto simp: list_update_append take_Suc_conv_app_nth min_def drop_Suc
          Cons_nth_drop_Suc [symmetric] split: nat.split)
    ultimately show ?case using Suc k assms(1) by (simp add: rfoldM_append)
  qed simp
  from this [of "length src"] show ?thesis by (simp add: copy_into_def)
qed

lemma concat_path_length:
  "(\<And>i. i \<in> set path \<Longrightarrow> bucket_wf p (T i)) \<Longrightarrow>
    length (concat (map T path)) = length path * bucket_size p"
  by (induction path) (auto simp: bucket_wf_def)

lemma load_eviction_payloads_eq:
  assumes "overlay_holds T ov (set path)" and "\<And>i. i \<in> set path \<Longrightarrow> bucket_wf p (T i)"
    and "length path = height p" and "length path_meta = height p"
    and "length stash = stash_capacity p" and "stash_wf (block_size p) stash" and "0 < block_size p"
    and "pn_path_candidate_indices plan = path_indices (stash_capacity p) (height p) (bucket_size p)"
    and "length (pn_candidates plan) = eviction_candidate_count p"
  shows "load_eviction_payloads_from_overlay p stash path path_meta plan (snd ov) =
    Inr (map b_payload (stash @ concat (map T path)))"
proof -
  let ?z = "bucket_size p" and ?cap = "stash_capacity p" and ?h = "height p"
  let ?zero = "replicate (block_size p) (0 :: u8)"
  let ?f = "\<lambda>(depth, page_idx) payloads.
             rbind (ok_or (snd ov page_idx) (Panic ''eviction overlay includes every path page''))
               (\<lambda>payload_buf.
             rbind (payload_bucket_decode payload_buf (bucket_size p) (block_size p)) (\<lambda>bucket.
             rfoldM (\<lambda>(slot_idx, candidate_idx) payloads.
                 if slot_idx < length bucket then copy_payload candidate_idx (bucket ! slot_idx) payloads
                 else Inl (Panic ''index out of bounds''))
               (enumerate 0 (pn_path_candidate_indices plan ! depth)) payloads))"
  have first: "rfoldM (\<lambda>slot payloads.
        if slot < length stash then copy_payload slot (b_payload (stash ! slot)) payloads
        else Inl (Panic ''index out of bounds'')) [0..<?cap] (replicate (?cap + ?h * ?z) ?zero) =
      Inr (map b_payload stash @ replicate (?h * ?z) ?zero)"
    using rfoldM_copy_payloads [where base = 0 and src = "map b_payload stash" and n = "block_size p" and
        xs = "replicate (?cap + ?h * ?z) ?zero" and f = "\<lambda>slot payloads.
        if slot < length stash then copy_payload slot (b_payload (stash ! slot)) payloads
        else Inl (Panic ''index out of bounds'')"] assms(5,6)
    by (auto simp: stash_wf_def copy_into_def)
  have step: "?f (d, path ! d) (A @ replicate (Suc m * ?z) ?zero) =
      Inr (A @ map b_payload (T (path ! d)) @ replicate (m * ?z) ?zero)"
    if d: "d < ?h" and A: "length A = ?cap + d * ?z" "\<And>x. x \<in> set A \<Longrightarrow> length x = block_size p" for d A m
  proof -
    have wf: "bucket_wf p (T (path ! d))" using assms(2,3) d by simp
    have en: "enumerate 0 (pn_path_candidate_indices plan ! d) =
        map (\<lambda>s. (s, ?cap + d * ?z + s)) [0..<?z]"
      using d by (simp add: assms(8) path_indices_def enumerate_conv_upt)
    have "rfoldM (\<lambda>(slot_idx, candidate_idx) payloads.
          if slot_idx < length (map b_payload (T (path ! d)))
          then copy_payload candidate_idx (map b_payload (T (path ! d)) ! slot_idx) payloads
          else Inl (Panic ''index out of bounds''))
        (enumerate 0 (pn_path_candidate_indices plan ! d)) (A @ replicate (Suc m * ?z) ?zero) =
      Inr (copy_into (?cap + d * ?z) (map b_payload (T (path ! d))) (A @ replicate (Suc m * ?z) ?zero))"
    proof -
      let ?src = "map b_payload (T (path ! d))"
      have src: "length ?src = ?z" "\<And>x. x \<in> set ?src \<Longrightarrow> length x = block_size p"
        using wf by (auto simp: bucket_wf_def stash_wf_def)
      have "rfoldM (\<lambda>s payloads. if s < length ?src
            then copy_payload (?cap + d * ?z + s) (?src ! s) payloads
            else Inl (Panic ''index out of bounds'')) [0..<length ?src] (A @ replicate (Suc m * ?z) ?zero) =
          Inr (copy_into (?cap + d * ?z) ?src (A @ replicate (Suc m * ?z) ?zero))"
        using A src by (intro rfoldM_copy_payloads [where n = "block_size p"]) auto
      then show ?thesis unfolding en rfoldM_map src(1) by simp
    qed
    also have "copy_into (?cap + d * ?z) (map b_payload (T (path ! d))) (A @ replicate (Suc m * ?z) ?zero) =
        A @ map b_payload (T (path ! d)) @ replicate (m * ?z) ?zero"
      using wf A by (simp add: copy_into_def bucket_wf_def)
    finally show ?thesis
      using assms(1,3) d wf assms(7) by (simp add: overlay_holds_def payload_bucket_decode_page)
  qed
  have rows: "rfoldM ?f (map (\<lambda>d. (d, path ! d)) [0..<d]) (map b_payload stash @ replicate (?h * ?z) ?zero) =
      Inr (map b_payload (stash @ concat (map T (take d path))) @ replicate ((?h - d) * ?z) ?zero)"
    if "d \<le> ?h" for d
    using that
  proof (induction d)
    case (Suc d)
    let ?A = "map b_payload (stash @ concat (map T (take d path)))"
    have A: "length ?A = ?cap + d * ?z" "\<And>x. x \<in> set ?A \<Longrightarrow> length x = block_size p"
      using Suc.prems assms(2,3,5,6) concat_path_length [of "take d path" p T]
      by (auto simp: stash_wf_def bucket_wf_def dest!: in_set_takeD)
    have e: "Suc (?h - Suc d) = ?h - d" using Suc.prems by simp
    have "take (Suc d) path = take d path @ [path ! d]"
      using Suc.prems assms(3) by (simp add: take_Suc_conv_app_nth)
    with Suc step [of d ?A "?h - Suc d"] A show ?case
      unfolding e by (simp add: rfoldM_append)
  qed simp
  have "enumerate 0 path = map (\<lambda>d. (d, path ! d)) [0..<?h]"
    by (simp add: enumerate_conv_upt assms(3))
  with first rows [of ?h] show ?thesis
    using assms(3,4,8,9)
    by (simp add: load_eviction_payloads_from_overlay_def eviction_candidate_count_def path_indices_def)
qed

section \<open>Rewriting stash and path\<close>

lemma citer_map: "citer f (map g xs) = citer (\<lambda>x. f (g x)) xs"
  by (induction xs) auto

lemma concat_upt_blocks: "concat (map (\<lambda>d. [n + d * z..<n + d * z + z]) [0..<h]) = [n..<n + h * z]"
proof (induction h)
  case (Suc h)
  then show ?case using upt_add_eq_append [of n "n + h * z" z] by (simp add: add.assoc add.commute [of z])
qed simp

lemma path_slots_indices:
  "map (\<lambda>(d, s). path_indices n (height p) (bucket_size p) ! d ! s) (path_slots p) =
    [n..<n + height p * bucket_size p]"
proof -
  let ?h = "height p" and ?z = "bucket_size p"
  have "map (\<lambda>(d, s). path_indices n ?h ?z ! d ! s) (path_slots p) =
      concat (map (\<lambda>d. map (\<lambda>s. path_indices n ?h ?z ! d ! s) [0..<?z]) [0..<?h])"
    by (simp add: path_slots_def product_concat_map map_concat comp_def)
  also have "map (\<lambda>d. map (\<lambda>s. path_indices n ?h ?z ! d ! s) [0..<?z]) [0..<?h] =
      map (\<lambda>d. [n + d * ?z..<n + d * ?z + ?z]) [0..<?h]"
    by (auto simp: path_indices_def intro!: nth_equalityI)
  finally show ?thesis by (simp add: concat_upt_blocks)
qed

text \<open>The blocks of the new buckets.\<close>

definition row_tree ::
  "nat \<Rightarrow> oram_block list \<Rightarrow> nat list \<Rightarrow> (nat \<Rightarrow> nat option list) \<Rightarrow> (nat \<Rightarrow> oram_block list) \<Rightarrow>
    nat \<Rightarrow> oram_block list" where
  "row_tree n cb path rows T = (\<lambda>j.
     case map_of (zip path [0..<length path]) j of None \<Rightarrow> T j | Some d \<Rightarrow> row_bucket n cb (rows d))"

lemma row_tree_eq:
  assumes "distinct path"
  shows "d < length path \<Longrightarrow> row_tree n cb path rows T (path ! d) = row_bucket n cb (rows d)"
    and "j \<notin> set path \<Longrightarrow> row_tree n cb path rows T j = T j"
proof -
  show "d < length path \<Longrightarrow> row_tree n cb path rows T (path ! d) = row_bucket n cb (rows d)"
    using assms map_of_zip_nth [of path "[0..<length path]" d] by (simp add: row_tree_def)
  assume "j \<notin> set path"
  then have none: "map_of (zip path [0..<length path]) j = None" by (auto simp: map_of_eq_None_iff set_zip)
  show "row_tree n cb path rows T j = T j" unfolding row_tree_def none by simp
qed

lemma list_update_take_drop:
  assumes "k < length row" and "length xs = length row"
  shows "(map h (take k row) @ drop k xs)[k := h (row ! k)] = map h (take (Suc k) row) @ drop (Suc k) xs"
  using assms by (simp add: list_update_append take_Suc_conv_app_nth Cons_nth_drop_Suc [symmetric])

context subtle_spec
begin

lemma sum_chosen: "sum_list (map (\<lambda>x. unat (unwrap_u8 sb (c x))) xs) = length (filter (\<lambda>x. chosen sb (c x)) xs)"
  by (induction xs) (auto simp: unwrap_chosen)

lemma clear_stash_eq:
  assumes "length stash = n" and "stash_wf k stash"
  shows "fold (\<lambda>slot stash. stash[slot := clear_if sb (stash ! slot) (c slot)]) [0..<n] stash =
    map (\<lambda>i. if chosen sb (c i) then dummy k else stash ! i) [0..<n]"
proof -
  have "fold (\<lambda>slot stash. stash[slot := clear_if sb (stash ! slot) (c slot)]) [0..<m] stash =
      map (\<lambda>i. if i < m \<and> chosen sb (c i) then dummy k else stash ! i) [0..<n]" if "m \<le> n" for m
    using that
  proof (induction m)
    case 0
    then show ?case using assms(1) by (intro nth_equalityI) auto
  next
    case (Suc m)
    then show ?case using assms
      by (auto intro!: nth_equalityI simp: nth_list_update ct_simps stash_wf_def less_Suc_eq)
  qed
  from this [of n] show ?thesis by auto
qed

lemma reinsert_eq:
  assumes "stash_wf (block_size p) stash"
    and "\<And>i. i \<in> set idxs \<Longrightarrow> length (b_payload (cb ! i)) = block_size p"
    and "\<And>i. i \<in> set idxs \<Longrightarrow> chosen sb (c i) \<Longrightarrow> b_occupied (cb ! i)"
    and "occupied_count stash + length (filter (\<lambda>i. chosen sb (c i)) idxs) \<le> length stash"
  shows "\<exists>stash'. citer (\<lambda>i. insert_candidate_into_stash sb p (block_meta (cb ! i)) (b_payload (cb ! i)) (c i))
      idxs stash = (Inr (), stash') \<and> length stash' = length stash \<and> stash_wf (block_size p) stash' \<and>
    real_blocks stash' = real_blocks stash + image_mset ((!) cb) (mset (filter (\<lambda>i. chosen sb (c i)) idxs))"
  using assms
proof (induction idxs arbitrary: stash)
  case Nil
  then show ?case by (simp add: comp_simps)
next
  case (Cons i idxs)
  let ?b = "cb ! i"
  have ins: "insert_candidate_into_stash sb p (block_meta ?b) (b_payload ?b) (c i) stash =
      (if chosen sb (c i) then (Inr (), stash_put ?b stash) else (Inr (), stash))"
    using insert_candidate_into_stash_eq [OF Cons.prems(1), of "b_payload ?b" p "block_meta ?b" "c i"]
      Cons.prems(2-4) by (auto simp: slot_block_occupied has_free_iff)
  show ?case
  proof (cases "chosen sb (c i)")
    case True
    then have b: "b_occupied ?b" "length (b_payload ?b) = block_size p" using Cons.prems(2,3) by auto
    have free: "has_free stash" using Cons.prems(4) True by (simp add: has_free_iff)
    have "\<exists>stash'. citer (\<lambda>i. insert_candidate_into_stash sb p (block_meta (cb ! i)) (b_payload (cb ! i)) (c i))
        idxs (stash_put ?b stash) = (Inr (), stash') \<and> length stash' = length (stash_put ?b stash) \<and>
        stash_wf (block_size p) stash' \<and> real_blocks stash' = real_blocks (stash_put ?b stash) +
          image_mset ((!) cb) (mset (filter (\<lambda>i. chosen sb (c i)) idxs))"
      using Cons.prems True b free by (intro Cons.IH) (auto simp: stash_wf_put occupied_put)
    then show ?thesis using True ins b free by (auto simp: comp_simps real_blocks_put)
  next
    case False
    with Cons.IH [of stash] Cons.prems ins show ?thesis by (auto simp: comp_simps)
  qed
qed

lemma placed_slot_eq:
  assumes "\<And>b. b \<in> set cb \<Longrightarrow> length (b_payload b) = n"
    and "\<And>i. placement_opt sb pl = Some i \<Longrightarrow> i < length cb"
  shows "placed_slot sb n (map (block_candidate sb) cb) (map b_payload cb) pl =
    (let b = (case placement_opt sb pl of None \<Rightarrow> dummy n | Some i \<Rightarrow> cb ! i) in (block_meta b, b_payload b))"
proof -
  let ?f = "\<lambda>(candidate_idx, candidate) (meta_slot, payload_slot).
        let select = ct_and sb (pl_occupied pl) (eq_usize sb (pl_candidate_idx pl) candidate_idx)
        in (meta_cmov_from sb meta_slot (c_meta candidate) select,
            cmov_bytes sb payload_slot (map b_payload cb ! candidate_idx) select)"
  have "fold ?f (map (\<lambda>i. (i, block_candidate sb (cb ! i))) [0..<k]) (meta_dummy, replicate n 0) =
      (let b = (case placement_opt sb pl of None \<Rightarrow> dummy n | Some i \<Rightarrow> if i < k then cb ! i else dummy n)
       in (block_meta b, b_payload b))" if "k \<le> length cb" for k
    using that
  proof (induction k)
    case 0
    then show ?case by (auto split: option.split)
  next
    case (Suc k)
    have "length (b_payload (cb ! k)) = n" "length (b_payload (cb ! i)) = n" if "i < length cb" for i
      using Suc.prems assms(1) that by auto
    with Suc assms(2) show ?case
      by (auto simp: Let_def ct_simps block_candidate_def placement_opt_def less_Suc_eq split: if_splits)
  qed
  moreover have "enumerate 0 (map (block_candidate sb) cb) =
      map (\<lambda>i. (i, block_candidate sb (cb ! i))) [0..<length cb]"
    by (simp add: enumerate_conv_upt)
  ultimately have "placed_slot sb n (map (block_candidate sb) cb) (map b_payload cb) pl =
      (let b = (case placement_opt sb pl of None \<Rightarrow> dummy n | Some i \<Rightarrow> if i < length cb then cb ! i else dummy n)
       in (block_meta b, b_payload b))"
    unfolding placed_slot_def by (simp only: order_refl)
  with assms(2) show ?thesis by (auto simp: Let_def split: option.splits)
qed

lemma fold_placed_slots:
  assumes "length row = z" and "length mb = z" and "length pb = z"
  shows "fold (\<lambda>(slot_idx, placement) (meta_bucket, payload_bucket).
      let (meta_slot, payload_slot) = g placement
      in (meta_bucket[slot_idx := meta_slot], payload_bucket[slot_idx := payload_slot]))
    (enumerate 0 row) (mb, pb) = (map (fst \<circ> g) row, map (snd \<circ> g) row)"
proof -
  have "fold (\<lambda>(slot_idx, placement) (meta_bucket, payload_bucket).
      let (meta_slot, payload_slot) = g placement
      in (meta_bucket[slot_idx := meta_slot], payload_bucket[slot_idx := payload_slot]))
    (map (\<lambda>i. (i, row ! i)) [0..<k]) (mb, pb) =
    (map (fst \<circ> g) (take k row) @ drop k mb, map (snd \<circ> g) (take k row) @ drop k pb)" if "k \<le> z" for k
    using that
  proof (induction k)
    case (Suc k)
    with list_update_take_drop [of k row mb "fst \<circ> g"] list_update_take_drop [of k row pb "snd \<circ> g"] assms
    show ?case
      by (simp add: split_beta Let_def comp_def)
  qed simp
  from this [of z] show ?thesis using assms by (simp add: enumerate_conv_upt)
qed


lemma length_picks_bound: "i \<in> set (picks row) \<longleftrightarrow> Some i \<in> set row"
proof (induction row)
  case (Cons r row)
  then show ?case by (cases r) auto
qed simp

lemma row_bucket_wf:
  assumes "length row = bucket_size p" and "stash_wf (block_size p) cb"
    and "\<And>i. i \<in> set (picks row) \<Longrightarrow> i < length cb"
  shows "bucket_wf p (row_bucket (block_size p) cb row)"
  using assms by (auto simp: bucket_wf_def row_bucket_def stash_wf_def length_picks_bound split: option.split)

lemma write_placements_eq:
  assumes "distinct path" and "stash_wf (block_size p) cb"
    and "pn_candidates plan = map (block_candidate sb) cb"
    and "\<And>d. d < length path \<Longrightarrow> length (pn_placements plan ! d) = bucket_size p"
    and "\<And>d i. d < length path \<Longrightarrow> i \<in> set (picks (map (placement_opt sb) (pn_placements plan ! d))) \<Longrightarrow> i < length cb"
  shows "\<exists>ov'. write_placements sb p path plan (map b_payload cb) ov = Inr ov' \<and>
    (let T' = row_tree (block_size p) cb path (\<lambda>d. map (placement_opt sb) (pn_placements plan ! d)) T
     in overlay_holds T' ov' (set path) \<and>
        (\<forall>j. j \<notin> set path \<longrightarrow> fst ov' j = fst ov j \<and> snd ov' j = snd ov j))"
proof -
  let ?rows = "\<lambda>d. map (placement_opt sb) (pn_placements plan ! d)"
  let ?T' = "row_tree (block_size p) cb path ?rows T"
  define f where "f = (\<lambda>(depth, page_idx :: nat) (meta_overlay, payload_overlay).
        let (meta_bucket, payload_bucket) =
              fold (\<lambda>(slot_idx, placement) (meta_bucket, payload_bucket).
                let (meta_slot, payload_slot) =
                  placed_slot sb (block_size p) (pn_candidates plan) (map b_payload cb) placement
                in (meta_bucket[slot_idx := meta_slot], payload_bucket[slot_idx := payload_slot]))
              (enumerate 0 (pn_placements plan ! depth))
              (meta_bucket_dummy (bucket_size p), payload_bucket_dummy (bucket_size p) (block_size p))
        in rbind (meta_bucket_encode meta_bucket (bucket_size p)) (\<lambda>meta_page.
           rbind (payload_bucket_encode payload_bucket (bucket_size p) (block_size p)) (\<lambda>payload_page.
           Inr (meta_overlay(page_idx \<mapsto> meta_page), payload_overlay(page_idx \<mapsto> payload_page)))))"
  have step: "f (d, path ! d) (mo, po) =
      Inr (mo(path ! d \<mapsto> meta_page (?T' (path ! d))), po(path ! d \<mapsto> payload_page (?T' (path ! d))))"
    if d: "d < length path" for d mo po
  proof -
    let ?bs = "row_bucket (block_size p) cb (?rows d)"
    have T': "?T' (path ! d) = ?bs" using row_tree_eq(1) [OF assms(1) d] .
    have wf: "bucket_wf p ?bs" using assms(2,4,5) d by (intro row_bucket_wf) auto
    have pl: "placed_slot sb (block_size p) (map (block_candidate sb) cb) (map b_payload cb) pl =
        (let b = (case placement_opt sb pl of None \<Rightarrow> dummy (block_size p) | Some i \<Rightarrow> cb ! i) in (block_meta b, b_payload b))"
      if "pl \<in> set (pn_placements plan ! d)" for pl
    proof (rule placed_slot_eq)
      fix i assume "placement_opt sb pl = Some i"
      with that have "Some i \<in> set (?rows d)" by (simp add: image_eqI [of _ _ pl])
      then show "i < length cb" by (intro assms(5) [OF d]) (simp add: length_picks_bound)
    qed (use assms(2) in \<open>simp add: stash_wf_def\<close>)
    have buckets: "map (fst \<circ> placed_slot sb (block_size p) (pn_candidates plan) (map b_payload cb))
        (pn_placements plan ! d) = map block_meta ?bs"
      "map (snd \<circ> placed_slot sb (block_size p) (pn_candidates plan) (map b_payload cb))
        (pn_placements plan ! d) = map b_payload ?bs"
      using pl by (simp_all add: assms(3) row_bucket_def Let_def)
    show ?thesis
      using fold_placed_slots [where row = "pn_placements plan ! d" and z = "bucket_size p" and
          mb = "meta_bucket_dummy (bucket_size p)" and
          pb = "payload_bucket_dummy (bucket_size p) (block_size p)" and
          g = "placed_slot sb (block_size p) (pn_candidates plan) (map b_payload cb)"] assms(4) [OF d]
      by (simp add: f_def buckets T' meta_bucket_encode_page [OF wf] payload_bucket_encode_page [OF wf]
          meta_bucket_dummy_def payload_bucket_dummy_def del: map_map)
  qed
  have "\<exists>ov'. rfoldM f (map (\<lambda>d. (d, path ! d)) [0..<k]) ov = Inr ov' \<and>
      overlay_holds ?T' ov' (set (take k path)) \<and>
      (\<forall>j. j \<notin> set (take k path) \<longrightarrow> fst ov' j = fst ov j \<and> snd ov' j = snd ov j)"
    if "k \<le> length path" for k
    using that
  proof (induction k)
    case (Suc k)
    then obtain mo po where "rfoldM f (map (\<lambda>d. (d, path ! d)) [0..<k]) ov = Inr (mo, po)"
      "overlay_holds ?T' (mo, po) (set (take k path))"
      "\<forall>j. j \<notin> set (take k path) \<longrightarrow> mo j = fst ov j \<and> po j = snd ov j"
      by fastforce
    with step [of k mo po] Suc.prems show ?case
      by (auto simp: rfoldM_append take_Suc_conv_app_nth overlay_holds_def)
  qed (simp add: overlay_holds_def)
  from this [of "length path"] show ?thesis
    unfolding write_placements_def f_def [symmetric] by (simp add: enumerate_conv_upt Let_def)
qed

end

section \<open>Evicting one path\<close>

text \<open>A block that lies on the path of its leaf at node \<open>j\<close>.\<close>

definition block_at :: "oram_params \<Rightarrow> nat \<Rightarrow> oram_block \<Rightarrow> bool" where
  "block_at p j b \<longleftrightarrow> unat (b_leaf b) < leaves p \<and> j \<in> set (path_nodes p (b_leaf b))"

definition bucket_at :: "oram_params \<Rightarrow> nat \<Rightarrow> oram_block list \<Rightarrow> bool" where
  "bucket_at p j bs \<longleftrightarrow> bucket_wf p bs \<and> (\<forall>b \<in> set bs. b_occupied b \<longrightarrow> block_at p j b)"

definition stash_ok :: "oram_params \<Rightarrow> oram_block list \<Rightarrow> bool" where
  "stash_ok p stash \<longleftrightarrow> length stash = stash_capacity p \<and> stash_wf (block_size p) stash \<and>
     (\<forall>b \<in> set stash. b_occupied b \<longrightarrow> unat (b_leaf b) < leaves p)"

lemma safe_leaf:
  assumes "params_ok p" and "unat l < leaves p"
  shows "(word_of_nat (unat l AND (leaves p - 1)) :: u32) = l"
proof -
  have "unat l AND (2 ^ leaf_bits p - 1) = unat l"
    using assms params_ok_leaves [OF assms(1)]
    by (metis mask_eq_exp_minus_1 take_bit_eq_mask take_bit_nat_eq_self)
  then show ?thesis by (simp add: params_ok_leaves [OF assms(1)])
qed

lemma block_at_iff:
  assumes "params_ok p" and "unat leaf < leaves p" and "d < height p"
  shows "block_at p (path_nodes p leaf ! d) b \<longleftrightarrow>
    unat (b_leaf b) < leaves p \<and> node_index p d (b_leaf b) = path_nodes p leaf ! d"
  using assms in_path_nodes_iff [of p leaf "b_leaf b" d]
  by (auto simp: block_at_def node_contains_leaf_def)

text \<open>Everything known of a plan: it is a greedy assignment of the candidates \<open>cb\<close>.\<close>

definition greedy_plan ::
  "'c subtle \<Rightarrow> oram_params \<Rightarrow> nat list \<Rightarrow> oram_block list \<Rightarrow> 'c eviction_plan \<Rightarrow> bool" where
  "greedy_plan sb p path cb plan \<longleftrightarrow>
     pn_candidates plan = map (block_candidate sb) cb \<and>
     pn_path_candidate_indices plan = path_indices (stash_capacity p) (height p) (bucket_size p) \<and>
     length (pn_placements plan) = height p \<and> length (pn_selected plan) = length cb \<and>
     greedy_rows (placeable p path cb) (bucket_size p) (rev [0..<height p]) (replicate (length cb) False) =
       (map (\<lambda>d. map (placement_opt sb) (pn_placements plan ! d)) (rev [0..<height p]),
        map (chosen sb) (pn_selected plan))"

context subtle_spec
begin

lemma plan_is_greedy:
  assumes "params_ok p" and "length path = height p" and "length stash = stash_capacity p"
    and "\<And>j. j \<in> set path \<Longrightarrow> bucket_wf p (T j)"
  shows "\<exists>plan. plan_eviction_placements sb p stash path (map (\<lambda>i. map block_meta (T i)) path) = Inr plan \<and>
    greedy_plan sb p path (stash @ concat (map T path)) plan"
proof -
  let ?cb = "stash @ concat (map T path)" and ?h = "height p" and ?z = "bucket_size p"
  let ?c = "map (block_candidate sb) ?cb"
  have len: "length ?cb = stash_capacity p + ?h * ?z"
    using assms concat_path_length [of path p T] by simp
  then have small: "length ?cb < 2 ^ 64" using assms(1) by (simp add: params_ok_def)
  have cands: "path_candidates sb p (map (\<lambda>i. map block_meta (T i)) path) (stash_candidates sb stash) =
      Inr (?c, path_indices (stash_capacity p) ?h ?z)"
  proof -
    have "bs \<in> set (map T path) \<Longrightarrow> length bs = ?z" for bs
      using assms(4) by (auto simp: bucket_wf_def)
    from path_candidates_eq [where bks = "map T path" and sb = sb, OF _ this] assms(2,3) show ?thesis
      by (simp add: stash_candidates_eq comp_def)
  qed
  let ?sel = "replicate (length ?cb) (choice_from_bool sb False)"
  let ?pl = "replicate ?h (replicate ?z (placement_dummy sb))"
  obtain placements selected where rows: "fold (\<lambda>depth (placements, selected).
        let (row, selected) = place_row sb p depth (path ! depth) ?c (placements ! depth) selected
        in (placements[depth := row], selected)) (rev [0..<?h]) (?pl, ?sel) = (placements, selected)"
    by fastforce
  have g: "greedy_rows (placeable p path ?cb) ?z (rev [0..<?h]) (map (chosen sb) ?sel) =
      (map (\<lambda>d. map (placement_opt sb) (placements ! d)) (rev [0..<?h]), map (chosen sb) selected) \<and>
    length placements = length ?pl \<and> (\<forall>d. d \<notin> set (rev [0..<?h]) \<longrightarrow> placements ! d = ?pl ! d)"
    using small rows by (intro place_rows_greedy) auto
  from g have g': "greedy_rows (placeable p path ?cb) ?z (rev [0..<?h]) (replicate (length ?cb) False) =
      (map (\<lambda>d. map (placement_opt sb) (placements ! d)) (rev [0..<?h]), map (chosen sb) selected)"
    "length placements = ?h" by (simp_all add: chosen_from_bool)
  let ?plan = "\<lparr>pn_candidates = ?c, pn_placements = placements, pn_selected = selected,
    pn_path_candidate_indices = path_indices (stash_capacity p) ?h ?z\<rparr>"
  have "plan_eviction_placements sb p stash path (map (\<lambda>i. map block_meta (T i)) path) = Inr ?plan"
    using assms(2,3) rows unfolding plan_eviction_placements_def cands
    by (simp add: Let_def split: prod.splits)
  moreover have "length selected = length ?cb"
    using greedy_rows_props [OF g'(1)] by simp
  ultimately show ?thesis using g' by (intro exI [of _ ?plan]) (simp add: greedy_plan_def)
qed


text \<open>What a greedy plan says of rows and selected candidates.\<close>

lemma greedy_plan_rows:
  assumes "greedy_plan sb p path cb plan"
  defines "rows \<equiv> \<lambda>d. map (placement_opt sb) (pn_placements plan ! d)"
    and "sel \<equiv> map (chosen sb) (pn_selected plan)"
  shows "d < height p \<Longrightarrow> length (rows d) = bucket_size p"
    and "d < height p \<Longrightarrow> i \<in> set (picks (rows d)) \<Longrightarrow> placeable p path cb d i \<and> i < length cb"
    and "mset (concat (map (\<lambda>d. picks (rows d)) [0..<height p])) =
      filter_mset (\<lambda>i. sel ! i) (mset [0..<length cb])"
    and "i < length cb \<Longrightarrow> sel ! i \<Longrightarrow> b_occupied (cb ! i)"
proof -
  let ?h = "height p"
  have g: "greedy_rows (placeable p path cb) (bucket_size p) (rev [0..<?h]) (replicate (length cb) False) =
      (map rows (rev [0..<?h]), sel)"
    using assms by (simp add: greedy_plan_def)
  note props = greedy_rows_props [OF g]
  have empty: "sel_set (replicate (length cb) False) = {}" by (auto simp: sel_set_def)
  have len: "length sel = length cb" using props by simp
  show row: "length (rows d) = bucket_size p" if "d < ?h" for d using props that by auto
  have fit: "placeable p path cb d i" if "d < ?h" "i \<in> set (picks (rows d))" for d i
  proof -
    have "\<forall>k < ?h. \<forall>i \<in> set (picks (map rows (rev [0..<?h]) ! k)). placeable p path cb (rev [0..<?h] ! k) i"
      using props by simp
    from this [rule_format, of "?h - Suc d" i] that show ?thesis by (simp add: rev_nth)
  qed
  let ?all = "concat (map (\<lambda>d. picks (rows d)) [0..<?h])"
  have all: "set (concat (map picks (map rows (rev [0..<?h])))) = set ?all" by auto
  have sel: "sel_set sel = set ?all" using props empty all by simp
  have in_sel: "i < length cb \<and> sel ! i" if "d < ?h" "i \<in> set (picks (rows d))" for d i
    using that sel len by (auto simp: sel_set_def)
  show "placeable p path cb d i \<and> i < length cb" if "d < ?h" "i \<in> set (picks (rows d))" for d i
    using fit [OF that] in_sel [OF that] by simp
  have "mset (concat (map picks (map rows (rev [0..<?h])))) = mset ?all"
    by (simp add: rev_map [symmetric] mset_concat comp_def)
  moreover have "distinct (concat (map picks (map rows (rev [0..<?h]))))" using props by blast
  ultimately have "distinct ?all" by (metis mset_eq_imp_distinct_iff)
  then have "mset ?all = mset_set (sel_set sel)"
    unfolding sel by (simp only: mset_set_set)
  moreover have "sel_set sel = set (filter (\<lambda>i. sel ! i) [0..<length cb])"
    using len by (auto simp: sel_set_def)
  ultimately show "mset ?all = filter_mset (\<lambda>i. sel ! i) (mset [0..<length cb])"
    by (simp only: mset_set_set distinct_filter distinct_upt mset_filter)
  show "b_occupied (cb ! i)" if i: "i < length cb" "sel ! i" for i
  proof -
    have "i \<in> set ?all" using i sel len by (auto simp: sel_set_def)
    then obtain d where "d < ?h" "i \<in> set (picks (rows d))" by auto
    with fit show ?thesis by (auto simp: placeable_def)
  qed
qed

lemma greedy_plan_capacity:
  assumes "params_ok p" and "unat leaf < leaves p" and "path = path_nodes p leaf"
    and "cb = stash @ concat (map T path)" and "length stash = stash_capacity p"
    and "\<And>j. j \<in> set path \<Longrightarrow> bucket_at p j (T j)"
    and "greedy_plan sb p path cb plan"
  shows "length (filter (\<lambda>i. b_occupied (cb ! i) \<and> \<not> chosen sb (pn_selected plan ! i)) [stash_capacity p..<length cb])
    \<le> length (filter (\<lambda>i. chosen sb (pn_selected plan ! i)) [0..<stash_capacity p])"
proof -
  let ?h = "height p" and ?z = "bucket_size p" and ?n = "stash_capacity p" and ?N = "length cb"
  let ?sel = "map (chosen sb) (pn_selected plan)"
  let ?A = "\<lambda>d. {i \<in> {?n + d * ?z..<?n + d * ?z + ?z}. b_occupied (cb ! i)}"
  have path: "length path = ?h" using assms(3) by simp
  have N: "?N = ?n + ?h * ?z"
    using assms(4,5,6) concat_path_length [of path p T] path by (simp add: bucket_at_def)
  have sel_len: "length (pn_selected plan) = ?N" using assms(7) by (simp add: greedy_plan_def)
  have at: "cb ! (?n + d * ?z + s) \<in> set (T (path ! d))" if "d < ?h" "s < ?z" for d s
  proof -
    have "concat (map T path) ! (d * ?z + s) = map T path ! d ! s"
      using that path assms(6) by (intro nth_concat_equal) (auto simp: bucket_at_def bucket_wf_def)
    then have "cb ! (?n + d * ?z + s) = T (path ! d) ! s"
      using that path assms(4,5) by (simp add: nth_append add.assoc)
    then show ?thesis using that assms(6) [of "path ! d"] path by (simp add: bucket_at_def bucket_wf_def)
  qed
  have fits: "placeable p path cb e i" if d: "d < ?h" "i \<in> ?A d" "e \<le> d" for d e i
  proof -
    obtain s where s: "i = ?n + d * ?z + s" "s < ?z"
      using d(2) by (auto simp: le_iff_add)
    let ?b = "cb ! i"
    have b: "b_occupied ?b" "?b \<in> set (T (path ! d))" using d at s by auto
    then have "block_at p (path ! d) ?b" using assms(6) [of "path ! d"] d(1) path by (simp add: bucket_at_def)
    then have l: "unat (b_leaf ?b) < leaves p" "node_index p d (b_leaf ?b) = path ! d"
      using block_at_iff [OF assms(1,2) d(1)] assms(3) by auto
    have "node_index p e (b_leaf ?b) = node_index p e leaf"
      using d l assms(3) by (intro node_index_prefix [OF assms(1) l(1) assms(2) d(1) d(3)]) simp
    then show ?thesis
      using b(1) l(1) d assms(3) safe_leaf [OF assms(1) l(1)] by (simp add: placeable_def)
  qed
  have "card (\<Union>d \<in> {0..<?h}. ?A d) \<le> card (sel_set ?sel)"
  proof (rule greedy_capacity)
    show "greedy_rows (placeable p path cb) ?z (rev [0..<?h]) (replicate ?N False) =
        (map (\<lambda>d. map (placement_opt sb) (pn_placements plan ! d)) (rev [0..<?h]), ?sel)"
      using assms(7) by (simp add: greedy_plan_def)
    fix d assume d: "d < ?h"
    have "card (?A d) \<le> card {?n + d * ?z..<?n + d * ?z + ?z}" by (intro card_mono) auto
    moreover have "d * ?z + ?z \<le> ?h * ?z" using page_range_bound d .
    ultimately show "card (?A d) \<le> ?z \<and> ?A d \<subseteq> {..<length (replicate ?N False)}" using N by auto
  qed (use fits in auto)
  moreover have "(\<Union>d \<in> {0..<?h}. ?A d) = set (filter (\<lambda>i. b_occupied (cb ! i)) [?n..<?N])"
  proof -
    have "(\<Union>d \<in> {0..<?h}. ?A d) = {i \<in> (\<Union>d \<in> {0..<?h}. {?n + d * ?z..<?n + d * ?z + ?z}). b_occupied (cb ! i)}"
      by blast
    also have "(\<Union>d \<in> {0..<?h}. {?n + d * ?z..<?n + d * ?z + ?z}) = {?n..<?N}"
      using arg_cong [OF concat_upt_blocks [of ?n ?z ?h], of set] N by simp
    finally show ?thesis by auto
  qed
  moreover have "sel_set ?sel = set (filter (\<lambda>i. ?sel ! i) [0..<?N])"
    using sel_len by (auto simp: sel_set_def)
  ultimately have "length (filter (\<lambda>i. b_occupied (cb ! i)) [?n..<?N]) \<le>
      length (filter (\<lambda>i. ?sel ! i) [0..<?N])"
    by (simp only: distinct_card distinct_filter distinct_upt)
  also have "filter (\<lambda>i. ?sel ! i) [0..<?N] = filter (\<lambda>i. chosen sb (pn_selected plan ! i)) [0..<?N]"
    using sel_len by (intro filter_cong) auto
  also have "[0..<?N] = [0..<?n] @ [?n..<?N]" using N upt_add_eq_append [of 0 ?n "?h * ?z"] by simp
  finally have le: "length (filter (\<lambda>i. b_occupied (cb ! i)) [?n..<?N]) \<le>
      length (filter (\<lambda>i. chosen sb (pn_selected plan ! i)) [0..<?n]) +
      length (filter (\<lambda>i. chosen sb (pn_selected plan ! i)) [?n..<?N])" by simp
  have occ: "b_occupied (cb ! i)" if "i \<in> set [?n..<?N]" "chosen sb (pn_selected plan ! i)" for i
    using greedy_plan_rows(4) [OF assms(7), of i] that sel_len by simp
  have "length (filter (\<lambda>i. b_occupied (cb ! i)) [?n..<?N]) =
      length (filter (\<lambda>i. chosen sb (pn_selected plan ! i)) [?n..<?N]) +
      length (filter (\<lambda>i. b_occupied (cb ! i) \<and> \<not> chosen sb (pn_selected plan ! i)) [?n..<?N])"
    using occ by (rule length_filter_split)
  with le show ?thesis by linarith
qed


lemma citer_cong: "(\<And>x. x \<in> set xs \<Longrightarrow> f x = g x) \<Longrightarrow> citer f xs = citer g xs"
  by (induction xs) auto

text \<open>The accounting of \<open>apply_eviction_plan_to_overlays\<close> for a greedy plan.\<close>

lemma eviction_stash:
  assumes "params_ok p" and "unat leaf < leaves p" and "path = path_nodes p leaf"
    and "cb = stash @ concat (map T path)" and "stash_ok p stash"
    and "\<And>j. j \<in> set path \<Longrightarrow> bucket_at p j (T j)" and "greedy_plan sb p path cb plan"
  defines "sel \<equiv> \<lambda>i. chosen sb (pn_selected plan ! i)"
    and "cleared \<equiv> fold (\<lambda>slot stash. stash[slot := clear_if sb (stash ! slot)
      (ct_and sb (c_active (pn_candidates plan ! slot)) (pn_selected plan ! slot))])
      [0..<stash_capacity p] stash"
  shows "ensure_eviction_stash_capacity sb p stash plan = Inr ()"
    and "\<exists>stash'. citer (\<lambda>(depth, slot_idx).
            let candidate_idx = pn_path_candidate_indices plan ! depth ! slot_idx
            in insert_candidate_into_stash sb p (c_meta (pn_candidates plan ! candidate_idx))
                 (map b_payload cb ! candidate_idx) (reinsert_choice sb plan candidate_idx))
            (path_slots p) cleared = (Inr (), stash') \<and>
      length stash' = stash_capacity p \<and> stash_wf (block_size p) stash' \<and>
      real_blocks stash' = image_mset ((!) cb)
        (filter_mset (\<lambda>i. b_occupied (cb ! i) \<and> \<not> sel i) (mset [0..<length cb])) \<and>
      size (real_blocks stash') \<le> size (real_blocks stash)"
proof -
  let ?n = "stash_capacity p" and ?N = "length cb"
  let ?occ = "\<lambda>i. b_occupied (cb ! i)"
  have stash: "length stash = ?n" "stash_wf (block_size p) stash" using assms(5) by (auto simp: stash_ok_def)
  have path: "length path = height p" using assms(3) by simp
  have N: "?N = ?n + height p * bucket_size p"
    using assms(4,6) concat_path_length [of path p T] path stash by (simp add: bucket_at_def)
  have cands: "pn_candidates plan = map (block_candidate sb) cb"
    and idx: "pn_path_candidate_indices plan = path_indices ?n (height p) (bucket_size p)"
    and sel_len: "length (pn_selected plan) = ?N"
    using assms(7) by (simp_all add: greedy_plan_def)
  have occ: "?occ i" if "i < ?N" "sel i" for i
    using greedy_plan_rows(4) [OF assms(7), of i] that sel_len by (simp add: sel_def)
  have cb: "length (b_payload (cb ! i)) = block_size p" if "i < ?N" for i
  proof -
    have "cb ! i \<in> set cb" using that by simp
    then show ?thesis using assms(4,6) stash(2) by (auto simp: stash_wf_def bucket_at_def bucket_wf_def)
  qed
  have first: "cb ! i = stash ! i" if "i < ?n" for i using that assms(4) stash by (simp add: nth_append)
  have active: "chosen sb (ct_and sb (c_active (pn_candidates plan ! i)) (pn_selected plan ! i)) = sel i" if "i < ?N" for i
    using that occ cands by (auto simp: ct_simps block_candidate_def sel_def)
  have reins: "chosen sb (reinsert_choice sb plan i) = (?occ i \<and> \<not> sel i)" if "i < ?N" for i
    using that cands by (auto simp: ct_simps block_candidate_def sel_def reinsert_choice_def)
  have slots: "map (\<lambda>(d, s). pn_path_candidate_indices plan ! d ! s) (path_slots p) = [?n..<?N]"
    unfolding idx N by (rule path_slots_indices)
  let ?U = "filter (\<lambda>i. ?occ i \<and> \<not> sel i) [?n..<?N]" and ?S = "filter sel [0..<?n]"
  have cap: "length ?U \<le> length ?S"
    unfolding sel_def using greedy_plan_capacity [OF assms(1-4) stash(1) assms(6,7)] by simp
  have split: "occupied_count stash = length ?S + length (filter (\<lambda>i. ?occ i \<and> \<not> sel i) [0..<?n])"
  proof -
    have "occupied_count stash = length (filter ?occ [0..<?n])"
      by (subst filter_positions) (auto simp: stash(1) first intro!: arg_cong [where f = length] filter_cong)
    also have "\<dots> = length ?S + length (filter (\<lambda>i. ?occ i \<and> \<not> sel i) [0..<?n])"
      using occ N by (intro length_filter_split) auto
    finally show ?thesis .
  qed
  show "ensure_eviction_stash_capacity sb p stash plan = Inr ()"
  proof -
    have sel_sum: "sum_list (map (\<lambda>slot. unat (unwrap_u8 sb
        (ct_and sb (c_active (pn_candidates plan ! slot)) (pn_selected plan ! slot)))) [0..<?n]) = length ?S"
      unfolding sum_chosen using active N by (auto intro!: arg_cong [where f = length] filter_cong)
    have "map (\<lambda>(depth, slot_idx). unat (unwrap_u8 sb (reinsert_choice sb plan
        (pn_path_candidate_indices plan ! depth ! slot_idx)))) (path_slots p) =
      map (\<lambda>i. unat (unwrap_u8 sb (reinsert_choice sb plan i))) [?n..<?N]"
      unfolding slots [symmetric] by (simp add: case_prod_unfold)
    then have "sum_list (map (\<lambda>(depth, slot_idx). unat (unwrap_u8 sb (reinsert_choice sb plan
        (pn_path_candidate_indices plan ! depth ! slot_idx)))) (path_slots p)) = length ?U"
      using sum_chosen [of "reinsert_choice sb plan" "[?n..<?N]"] reins
      by (auto intro!: arg_cong [where f = length] filter_cong)
    with sel_sum cap show ?thesis
      unfolding ensure_eviction_stash_capacity_def Let_def by simp
  qed
  have cl: "cleared = map (\<lambda>i. if sel i then dummy (block_size p) else stash ! i) [0..<?n]"
    unfolding cleared_def using clear_stash_eq [OF stash] active N by auto
  have cl_real: "real_blocks cleared = image_mset ((!) cb) (filter_mset (\<lambda>i. ?occ i \<and> \<not> sel i) (mset [0..<?n]))"
  proof -
    have "filter b_occupied cleared = map (\<lambda>i. cb ! i) (filter (\<lambda>i. ?occ i \<and> \<not> sel i) [0..<?n])"
      unfolding cl filter_map using first by (auto simp: comp_def intro!: map_cong filter_cong split: if_splits)
    from arg_cong [OF this, of mset] show ?thesis by (simp del: mset_upt)
  qed
  have cl_wf: "stash_wf (block_size p) cleared" "length cleared = ?n"
    unfolding cl using stash by (auto simp: stash_wf_def)
  have cl_occ: "occupied_count cleared = length (filter (\<lambda>i. ?occ i \<and> \<not> sel i) [0..<?n])"
  proof -
    have "size (real_blocks cleared) = size (mset (filter (\<lambda>i. ?occ i \<and> \<not> sel i) [0..<?n]))"
      unfolding cl_real by (simp only: size_image_mset mset_filter)
    then show ?thesis by (simp only: size_mset flip: mset_filter)
  qed
  have U: "filter (\<lambda>i. chosen sb (reinsert_choice sb plan i)) [?n..<?N] = ?U"
    using reins by (auto intro!: filter_cong)
  have "\<exists>stash'. citer (\<lambda>i. insert_candidate_into_stash sb p (block_meta (cb ! i)) (b_payload (cb ! i))
        (reinsert_choice sb plan i)) [?n..<?N] cleared = (Inr (), stash') \<and>
      length stash' = length cleared \<and> stash_wf (block_size p) stash' \<and>
      real_blocks stash' = real_blocks cleared +
        image_mset ((!) cb) (mset (filter (\<lambda>i. chosen sb (reinsert_choice sb plan i)) [?n..<?N]))"
  proof (rule reinsert_eq)
    show "occupied_count cleared + length (filter (\<lambda>i. chosen sb (reinsert_choice sb plan i)) [?n..<?N]) \<le>
        length cleared"
      unfolding U cl_occ cl_wf(2) using cap split length_filter_le [of b_occupied stash] stash(1) by linarith
  qed (use cl_wf cb reins in auto)
  then obtain stash' where s': "citer (\<lambda>i. insert_candidate_into_stash sb p (block_meta (cb ! i))
        (b_payload (cb ! i)) (reinsert_choice sb plan i)) [?n..<?N] cleared = (Inr (), stash')"
    "length stash' = ?n" "stash_wf (block_size p) stash'"
    "real_blocks stash' = real_blocks cleared + image_mset ((!) cb) (mset ?U)"
    unfolding U cl_wf(2) by blast
  have run: "citer (\<lambda>(depth, slot_idx).
            let candidate_idx = pn_path_candidate_indices plan ! depth ! slot_idx
            in insert_candidate_into_stash sb p (c_meta (pn_candidates plan ! candidate_idx))
                 (map b_payload cb ! candidate_idx) (reinsert_choice sb plan candidate_idx))
            (path_slots p) =
      citer (\<lambda>i. insert_candidate_into_stash sb p (block_meta (cb ! i)) (b_payload (cb ! i))
        (reinsert_choice sb plan i)) [?n..<?N]"
  proof -
    have "citer (\<lambda>i. insert_candidate_into_stash sb p (block_meta (cb ! i)) (b_payload (cb ! i))
        (reinsert_choice sb plan i)) [?n..<?N] =
      citer (\<lambda>i. insert_candidate_into_stash sb p (c_meta (pn_candidates plan ! i)) (map b_payload cb ! i)
        (reinsert_choice sb plan i)) [?n..<?N]"
      using cands by (intro citer_cong) (auto simp: block_candidate_def)
    then show ?thesis unfolding slots [symmetric] citer_map by (simp add: Let_def case_prod_unfold)
  qed
  have up: "mset [0..<?N] = mset [0..<?n] + mset [?n..<?N]"
    using N upt_add_eq_append [of 0 ?n "height p * bucket_size p"] by (metis mset_append add_0 le0)
  have real: "real_blocks stash' = image_mset ((!) cb) (filter_mset (\<lambda>i. ?occ i \<and> \<not> sel i) (mset [0..<?N]))"
    unfolding s'(4) cl_real up by (simp only: mset_filter filter_union_mset image_mset_union)
  have "size (real_blocks stash') = occupied_count cleared + length ?U"
    unfolding s'(4) by (simp only: size_union size_image_mset size_mset flip: mset_filter)
  then have "size (real_blocks stash') \<le> occupied_count stash" using split cap cl_occ by linarith
  then have "size (real_blocks stash') \<le> size (real_blocks stash)" by (simp only: size_mset flip: mset_filter)
  with run s' real show "\<exists>stash'. citer (\<lambda>(depth, slot_idx).
            let candidate_idx = pn_path_candidate_indices plan ! depth ! slot_idx
            in insert_candidate_into_stash sb p (c_meta (pn_candidates plan ! candidate_idx))
                 (map b_payload cb ! candidate_idx) (reinsert_choice sb plan candidate_idx))
            (path_slots p) cleared = (Inr (), stash') \<and>
      length stash' = stash_capacity p \<and> stash_wf (block_size p) stash' \<and>
      real_blocks stash' = image_mset ((!) cb)
        (filter_mset (\<lambda>i. b_occupied (cb ! i) \<and> \<not> sel i) (mset [0..<length cb])) \<and>
      size (real_blocks stash') \<le> size (real_blocks stash)" by auto
qed


lemma eviction_tree:
  fixes T :: "nat \<Rightarrow> oram_block list"
  assumes "params_ok p" and "unat leaf < leaves p" and "path = path_nodes p leaf"
    and "greedy_plan sb p path cb plan" and "stash_wf (block_size p) cb"
    and "\<And>b. b \<in> set cb \<Longrightarrow> b_occupied b \<Longrightarrow> unat (b_leaf b) < leaves p"
  defines "T' \<equiv> row_tree (block_size p) cb path (\<lambda>d. map (placement_opt sb) (pn_placements plan ! d)) T"
  shows "j \<in> set path \<Longrightarrow> bucket_at p j (T' j)"
    and "real_blocks (concat (map T' path)) =
      image_mset ((!) cb) (filter_mset (\<lambda>i. chosen sb (pn_selected plan ! i)) (mset [0..<length cb]))"
proof -
  let ?h = "height p" and ?rows = "\<lambda>d. map (placement_opt sb) (pn_placements plan ! d)"
  note rows = greedy_plan_rows [OF assms(4)]
  have dist: "distinct path" using distinct_path_nodes [OF assms(1,2)] assms(3) by simp
  have len: "length path = ?h" using assms(3) by simp
  have sel_len: "length (pn_selected plan) = length cb" using assms(4) by (simp add: greedy_plan_def)
  have T': "T' (path ! d) = row_bucket (block_size p) cb (?rows d)" if "d < ?h" for d
    unfolding T'_def using row_tree_eq(1) [OF dist, of d] that len by simp
  have at: "b_occupied (cb ! i) \<and> block_at p (path ! d) (cb ! i)" if d: "d < ?h" "i \<in> set (picks (?rows d))" for d i
  proof -
    have i: "placeable p path cb d i" "i < length cb" using rows(2) [OF d] by auto
    then have occ: "b_occupied (cb ! i)" by (simp add: placeable_def)
    then have l: "unat (b_leaf (cb ! i)) < leaves p" using assms(6) i(2) by simp
    have "node_index p d (b_leaf (cb ! i)) = path ! d"
      using i(1) safe_leaf [OF assms(1) l] by (simp add: placeable_def)
    then show ?thesis using block_at_iff [OF assms(1,2) d(1)] occ l assms(3) by simp
  qed
  show "bucket_at p j (T' j)" if "j \<in> set path"
  proof -
    obtain d where d: "d < ?h" "path ! d = j" using \<open>j \<in> set path\<close> len by (auto simp: in_set_conv_nth)
    have "bucket_wf p (row_bucket (block_size p) cb (?rows d))"
      using rows(1,2) [OF d(1)] by (intro row_bucket_wf assms(5)) auto
    moreover have "block_at p j b" if b: "b \<in> set (row_bucket (block_size p) cb (?rows d))" "b_occupied b" for b
    proof -
      from b(1) obtain r where r: "b = (case r of None \<Rightarrow> dummy (block_size p) | Some i \<Rightarrow> cb ! i)" "r \<in> set (?rows d)"
        unfolding row_bucket_def set_map [of _ "map _ _"] by (rule imageE)
      obtain i where i: "r = Some i" using b(2) r(1) by (cases r) simp_all
      then have "Some i \<in> set (?rows d)" "b = cb ! i" using r by simp_all
      with at [of d i] d show ?thesis by (simp add: length_picks_bound)
    qed
    ultimately show ?thesis using T' [OF d(1)] d(2) by (simp add: bucket_at_def)
  qed
  have path: "path = map (\<lambda>d. path ! d) [0..<?h]" using len by (intro nth_equalityI) auto
  have "real_blocks (concat (map (\<lambda>d. T' (path ! d)) ds)) =
      image_mset ((!) cb) (mset (concat (map (\<lambda>d. picks (?rows d)) ds)))" if "set ds \<subseteq> {0..<?h}" for ds
    using that
  proof (induction ds)
    case (Cons d ds)
    then have "d < ?h" by simp
    then have "real_blocks (T' (path ! d)) = image_mset ((!) cb) (mset (picks (?rows d)))"
      unfolding T' [OF \<open>d < ?h\<close>] by (intro real_blocks_row_bucket) (simp only: at)
    with Cons show ?case by simp
  qed simp
  from this [of "[0..<?h]"] have "real_blocks (concat (map (\<lambda>d. T' (path ! d)) [0..<?h])) =
      image_mset ((!) cb) (mset (concat (map (\<lambda>d. picks (?rows d)) [0..<?h])))" by (simp del: mset_concat)
  also have "mset (concat (map (\<lambda>d. picks (?rows d)) [0..<?h])) =
      filter_mset (\<lambda>i. map (chosen sb) (pn_selected plan) ! i) (mset [0..<length cb])"
    by (rule rows(3))
  also have "\<dots> = filter_mset (\<lambda>i. chosen sb (pn_selected plan ! i)) (mset [0..<length cb])"
    using sel_len by (intro filter_mset_cong) auto
  also have "concat (map (\<lambda>d. T' (path ! d)) [0..<?h]) = concat (map T' path)"
    by (subst (2) path) (simp add: comp_def)
  finally show "real_blocks (concat (map T' path)) =
      image_mset ((!) cb) (filter_mset (\<lambda>i. chosen sb (pn_selected plan ! i)) (mset [0..<length cb]))" .
qed

lemma evict_path_spec:
  assumes "params_ok p" and "unat leaf < leaves p" and "path = path_nodes p leaf"
    and "stash_ok p stash" and "\<And>j. j \<in> set path \<Longrightarrow> bucket_at p j (T j)"
    and "overlay_holds T ov (set path)"
  shows "\<exists>ov' stash' T'. evict_path_in_overlays sb p path ov stash = (Inr ov', stash') \<and>
    stash_ok p stash' \<and> (\<forall>j \<in> set path. bucket_at p j (T' j)) \<and> overlay_holds T' ov' (set path) \<and>
    (\<forall>j. j \<notin> set path \<longrightarrow> T' j = T j \<and> fst ov' j = fst ov j \<and> snd ov' j = snd ov j) \<and>
    real_blocks stash' + real_blocks (concat (map T' path)) =
      real_blocks stash + real_blocks (concat (map T path)) \<and>
    size (real_blocks stash') \<le> size (real_blocks stash)"
proof -
  let ?cb = "stash @ concat (map T path)"
  have stash: "length stash = stash_capacity p" "stash_wf (block_size p) stash"
    using assms(4) by (auto simp: stash_ok_def)
  have len: "length path = height p" using assms(3) by simp
  have wf: "bucket_wf p (T j)" if "j \<in> set path" for j using assms(5) that by (simp add: bucket_at_def)
  have B: "0 < block_size p" using assms(1) by (simp add: params_ok_def)
  have cb_wf: "stash_wf (block_size p) ?cb"
    using stash(2) wf by (auto simp: stash_wf_def bucket_wf_def)
  have cb_leaf: "unat (b_leaf b) < leaves p" if "b \<in> set ?cb" "b_occupied b" for b
    using that assms(4,5) by (auto simp: stash_ok_def bucket_at_def block_at_def)
  obtain plan where plan: "plan_eviction_placements sb p stash path (map (\<lambda>i. map block_meta (T i)) path) = Inr plan"
    and greedy: "greedy_plan sb p path ?cb plan"
    using plan_is_greedy [where T = T, OF assms(1) len stash(1) wf] by blast
  have cands: "pn_candidates plan = map (block_candidate sb) ?cb"
    and idx: "pn_path_candidate_indices plan = path_indices (stash_capacity p) (height p) (bucket_size p)"
    using greedy by (simp_all add: greedy_plan_def)
  have "length (pn_candidates plan) = eviction_candidate_count p"
    using cands concat_path_length [of path p T] wf len stash by (simp add: eviction_candidate_count_def)
  then have load: "load_eviction_payloads_from_overlay p stash path (map (\<lambda>i. map block_meta (T i)) path) plan (snd ov) =
      Inr (map b_payload ?cb)"
    using len stash idx B by (intro load_eviction_payloads_eq assms(6) wf) auto
  note st = eviction_stash [OF assms(1-3) refl assms(4,5) greedy]
  from st(2) obtain stash' where run: "citer (\<lambda>(depth, slot_idx).
            let candidate_idx = pn_path_candidate_indices plan ! depth ! slot_idx
            in insert_candidate_into_stash sb p (c_meta (pn_candidates plan ! candidate_idx))
                 (map b_payload ?cb ! candidate_idx) (reinsert_choice sb plan candidate_idx))
            (path_slots p) (fold (\<lambda>slot stash. stash[slot := clear_if sb (stash ! slot)
      (ct_and sb (c_active (pn_candidates plan ! slot)) (pn_selected plan ! slot))])
      [0..<stash_capacity p] stash) = (Inr (), stash')"
    and s': "length stash' = stash_capacity p" "stash_wf (block_size p) stash'"
      "real_blocks stash' = image_mset ((!) ?cb) (filter_mset (\<lambda>i. b_occupied (?cb ! i) \<and>
        \<not> chosen sb (pn_selected plan ! i)) (mset [0..<length ?cb]))"
      "size (real_blocks stash') \<le> size (real_blocks stash)"
    by blast
  let ?T' = "row_tree (block_size p) ?cb path (\<lambda>d. map (placement_opt sb) (pn_placements plan ! d)) T"
  have tree: "bucket_at p j (?T' j)" if "j \<in> set path" for j
    by (rule eviction_tree(1) [OF assms(1-3) greedy cb_wf]) (use cb_leaf that in auto)
  have tree_real: "real_blocks (concat (map ?T' path)) =
      image_mset ((!) ?cb) (filter_mset (\<lambda>i. chosen sb (pn_selected plan ! i)) (mset [0..<length ?cb]))"
    by (rule eviction_tree(2) [OF assms(1-3) greedy cb_wf]) (use cb_leaf in auto)
  have row_len: "length (pn_placements plan ! d) = bucket_size p" if "d < length path" for d
    using greedy_plan_rows(1) [OF greedy, of d] that len by simp
  have row_idx: "i < length ?cb" if "d < length path"
    "i \<in> set (picks (map (placement_opt sb) (pn_placements plan ! d)))" for d i
    using greedy_plan_rows(2) [OF greedy, of d i] that len by simp
  have dist: "distinct path" using distinct_path_nodes [OF assms(1,2)] assms(3) by simp
  obtain ov' where ov': "write_placements sb p path plan (map b_payload ?cb) ov = Inr ov'"
    "overlay_holds ?T' ov' (set path)" "\<forall>j. j \<notin> set path \<longrightarrow> fst ov' j = fst ov j \<and> snd ov' j = snd ov j"
  proof -
    have "\<exists>ov'. write_placements sb p path plan (map b_payload ?cb) ov = Inr ov' \<and>
      (let T' = ?T' in overlay_holds T' ov' (set path) \<and>
        (\<forall>j. j \<notin> set path \<longrightarrow> fst ov' j = fst ov j \<and> snd ov' j = snd ov j))"
      by (rule write_placements_eq [OF dist cb_wf cands row_len row_idx])
    then show thesis using that by (auto simp only: Let_def)
  qed
  have evict: "evict_path_in_overlays sb p path ov stash = (Inr ov', stash')"
    using path_metadata_from_overlay_eq [OF assms(6) wf] plan load st(1) run ov'(1)
    by (simp add: evict_path_in_overlays_def apply_eviction_plan_to_overlays_def comp_simps)
  have occ: "b_occupied (?cb ! i)" if "i < length ?cb" "chosen sb (pn_selected plan ! i)" for i
    using greedy_plan_rows(4) [OF greedy, of i] that greedy by (simp add: greedy_plan_def)
  have "filter_mset (\<lambda>i. b_occupied (?cb ! i) \<and> \<not> chosen sb (pn_selected plan ! i)) (mset [0..<length ?cb]) +
      filter_mset (\<lambda>i. chosen sb (pn_selected plan ! i)) (mset [0..<length ?cb]) =
      filter_mset (\<lambda>i. b_occupied (?cb ! i)) (mset [0..<length ?cb])"
    using occ by (intro filter_mset_split) auto
  then have total: "real_blocks stash' + real_blocks (concat (map ?T' path)) = real_blocks ?cb"
    unfolding s'(3) tree_real real_blocks_positions [of ?cb] by (simp only: flip: image_mset_union)
  have "unat (b_leaf b) < leaves p" if "b \<in> set stash'" "b_occupied b" for b
  proof -
    have "b \<in># real_blocks stash' + real_blocks (concat (map ?T' path))" using that by simp
    then have "b \<in> set ?cb" unfolding total by auto
    then show ?thesis using cb_leaf that(2) by blast
  qed
  then have "stash_ok p stash'" using s' by (simp add: stash_ok_def)
  moreover have "\<forall>j. j \<notin> set path \<longrightarrow> ?T' j = T j" using row_tree_eq(2) [OF dist] by blast
  ultimately show ?thesis
    using evict tree ov'(2,3) total s'(4)
    by (intro exI [of _ ov'] exI [of _ stash'] exI [of _ ?T']) simp
qed

end

end
