(* ===== verification/Circuit_Invariant.thy ===== *)
theory Circuit_Invariant
  imports Circuit_Oram Eviction_Refinement
begin

text \<open>
  The invariant of the controller, on lists of blocks: stash and tree together hold every logical
  block exactly once, with the leaf of the position map and the payload of the abstract array
  \<open>D\<close>, and a block in the tree lies on the path of its leaf. The target removal and the rewrite
  of one access are shown to keep it.
\<close>

section \<open>Taking a block out of a path\<close>

fun take_first :: "nat \<Rightarrow> u64 \<Rightarrow> oram_block list \<Rightarrow> oram_block option \<times> oram_block list" where
  "take_first n i [] = (None, [])"
| "take_first n i (b # bs) =
     (if b_occupied b \<and> b_logical_id b = i then (Some b, dummy n # bs)
      else let (r, bs) = take_first n i bs in (r, b # bs))"

fun take_path ::
  "nat \<Rightarrow> u64 \<Rightarrow> (nat \<Rightarrow> oram_block list) \<Rightarrow> nat list \<Rightarrow> oram_block option \<times> (nat \<Rightarrow> oram_block list)" where
  "take_path n i T [] = (None, T)"
| "take_path n i T (j # js) =
     (case take_first n i (T j) of
        (Some b, bs) \<Rightarrow> (Some b, T(j := bs))
      | (None, _) \<Rightarrow> take_path n i T js)"

abbreviation option_mset :: "'a option \<Rightarrow> 'a multiset" where
  "option_mset r \<equiv> (case r of None \<Rightarrow> {#} | Some b \<Rightarrow> {#b#})"

lemma take_first_props:
  assumes "take_first n i bs = (r, bs')"
  shows "length bs' = length bs \<and> real_blocks bs = option_mset r + real_blocks bs' \<and>
    (\<forall>b. r = Some b \<longrightarrow> b \<in> set bs \<and> b_occupied b \<and> b_logical_id b = i) \<and>
    (r = None \<longrightarrow> bs' = bs \<and> (\<forall>b \<in> set bs. \<not> (b_occupied b \<and> b_logical_id b = i))) \<and>
    set bs' \<subseteq> insert (dummy n) (set bs)"
  using assms
proof (induction bs arbitrary: bs')
  case (Cons b bs)
  show ?case
  proof (cases "b_occupied b \<and> b_logical_id b = i")
    case False
    then obtain bs1 where "take_first n i bs = (r, bs1)" "bs' = b # bs1"
      using Cons.prems by (auto split: prod.splits)
    with Cons.IH [of bs1] False show ?thesis by auto
  qed (use Cons.prems in auto)
qed auto

lemma take_first_wf:
  assumes "take_first (block_size p) i bs = (r, bs')" and "bucket_at p j bs"
  shows "bucket_at p j bs'"
proof -
  have sub: "b = dummy (block_size p) \<or> b \<in> set bs" if "b \<in> set bs'" for b
    using take_first_props [OF assms(1)] that by auto
  have len: "length bs' = length bs" using take_first_props [OF assms(1)] by simp
  have "stash_wf (block_size p) bs'"
    using assms(2) by (auto simp: stash_wf_def bucket_at_def bucket_wf_def dest!: sub)
  moreover have "\<forall>b \<in> set bs'. b_occupied b \<longrightarrow> block_at p j b"
    using assms(2) by (auto simp: bucket_at_def dest!: sub)
  ultimately show ?thesis using assms(2) len by (simp add: bucket_at_def bucket_wf_def)
qed

lemma take_path_props:
  assumes "take_path (block_size p) i T path = (r, T')" and "\<And>j. j \<in> set path \<Longrightarrow> bucket_at p j (T j)"
  shows "(\<forall>j. j \<notin> set path \<longrightarrow> T' j = T j) \<and> (\<forall>j \<in> set path. bucket_at p j (T' j)) \<and>
    (\<forall>b. r = Some b \<longrightarrow> b_occupied b \<and> b_logical_id b = i \<and> (\<exists>j \<in> set path. b \<in> set (T j))) \<and>
    (r = None \<longrightarrow> T' = T \<and> (\<forall>j \<in> set path. \<forall>b \<in> set (T j). \<not> (b_occupied b \<and> b_logical_id b = i)))"
  using assms
proof (induction path)
  case (Cons j path)
  obtain r1 bs where 1: "take_first (block_size p) i (T j) = (r1, bs)"
    by (cases "take_first (block_size p) i (T j)")
  note props = take_first_props [OF 1]
  have at: "bucket_at p j bs" using take_first_wf [OF 1] Cons.prems(2) by simp
  show ?case
  proof (cases r1)
    case None
    with Cons.prems 1 have "take_path (block_size p) i T path = (r, T')" by simp
    from Cons.IH [OF this] Cons.prems(2) None props show ?thesis
      by (cases "j \<in> set path") simp_all
  next
    case (Some b)
    then have T': "T' = T(j := bs)" "r = Some b" using Cons.prems(1) 1 by simp_all
    have "b \<in> set (T j) \<and> b_occupied b \<and> b_logical_id b = i" using props Some by simp
    then show ?thesis using Cons.prems(2) at by (simp add: T')
  qed
qed simp

lemma take_path_real:
  assumes "take_path n i T path = (r, T')" and "distinct path"
  shows "real_blocks (concat (map T path)) = option_mset r + real_blocks (concat (map T' path))"
  using assms
proof (induction path)
  case (Cons j path)
  obtain r1 bs where 1: "take_first n i (T j) = (r1, bs)" by fastforce
  note props = take_first_props [OF 1]
  show ?case
  proof (cases r1)
    case None
    then have T': "take_path n i T path = (r, T')" using Cons.prems(1) 1 by simp
    have "T' j = T j"
      using Cons.prems(2) T'
    proof (induction path arbitrary: T')
      case (Cons k path)
      then show ?case by (auto split: prod.splits option.splits)
    qed simp
    with Cons.IH [OF T'] Cons.prems(2) show ?thesis by simp
  next
    case (Some b)
    then have "T' = T(j := bs)" "r = Some b" using Cons.prems(1) 1 by simp_all
    moreover have "map (T(j := bs)) path = map T path" using Cons.prems(2) by (intro map_cong) auto
    then have "real_blocks (concat (map (T(j := bs)) path)) = real_blocks (concat (map T path))"
      by (simp only:)
    ultimately show ?thesis using props Some by (simp del: mset_concat fun_upd_apply) (simp del: mset_concat)
  qed
qed simp

section \<open>The code takes the same block\<close>

context subtle_spec
begin

lemma select_and_remove_spec:
  assumes "stash_wf n bs" and "length (b_payload sel) = n"
    and "(if chosen sb rem then (None, bs) else take_first n i bs) = (r, bs')"
    and "select_and_remove_target_slots sb i (map block_meta bs) (map b_payload bs) sel rem = (ms, ps, sel', rem')"
  shows "ms = map block_meta bs' \<and> ps = map b_payload bs' \<and> sel' = (case r of None \<Rightarrow> sel | Some b \<Rightarrow> b) \<and>
    (chosen sb rem' \<longleftrightarrow> chosen sb rem \<or> r \<noteq> None)"
  using assms
proof (induction bs arbitrary: sel rem bs' ms ps r)
  case (Cons b bs)
  let ?m = "ct_and sb (meta_logical_id_choice sb (block_meta b) i) (ct_not sb rem)"
  let ?sel = "cmov_block_from_meta_payload sb sel (block_meta b) (b_payload b) ?m"
  have b: "length (b_payload b) = n" "stash_wf n bs" using Cons.prems(1) by (auto simp: stash_wf_def)
  have m: "chosen sb ?m \<longleftrightarrow> b_occupied b \<and> b_logical_id b = i \<and> \<not> chosen sb rem"
    by (auto simp: ct_simps)
  have sel: "?sel = (if chosen sb ?m then b else sel)"
    using b(1) Cons.prems(2) by (simp add: cmov_block_from_meta_payload_if)
  obtain ms1 ps1 where rest: "select_and_remove_target_slots sb i (map block_meta bs) (map b_payload bs)
      ?sel (ct_or sb rem ?m) = (ms1, ps1, sel', rem')"
    and ms: "ms = meta_clear_if sb (block_meta b) ?m # ms1" "ps = clear_payload_if sb (b_payload b) ?m # ps1"
    using Cons.prems(4) by (auto simp: Let_def split: prod.splits)
  obtain r1 bs1 where r1: "(if chosen sb (ct_or sb rem ?m) then (None, bs) else take_first n i bs) = (r1, bs1)"
    by fastforce
  have IH: "ms1 = map block_meta bs1 \<and> ps1 = map b_payload bs1 \<and>
    sel' = (case r1 of None \<Rightarrow> if chosen sb ?m then b else sel | Some b \<Rightarrow> b) \<and>
    (chosen sb rem' \<longleftrightarrow> chosen sb (ct_or sb rem ?m) \<or> r1 \<noteq> None)"
    using Cons.IH [OF b(2) _ r1 rest] b(1) Cons.prems(2) unfolding sel by (simp split: if_splits)
  show ?case
  proof (cases "chosen sb ?m")
    case True
    then have "r = Some b" "bs' = dummy n # bs" "r1 = None" "bs1 = bs"
      using m Cons.prems(3) r1 by (auto simp: ct_simps)
    with IH True ms b(1) show ?thesis by (auto simp: ct_simps)
  next
    case False
    then have "r = r1 \<and> bs' = b # bs1"
      using m Cons.prems(3) r1 by (auto simp: chosen_or split: if_splits prod.splits)
    with IH False ms show ?thesis
      by (auto simp: meta_clear_if_if clear_payload_if_if chosen_or)
  qed
qed (auto split: if_splits)

lemma remove_target_page_spec:
  assumes "bucket_at p j bs" and "0 < block_size p" and "length (b_payload sel) = block_size p"
    and "(if chosen sb rem then (None, bs) else take_first (block_size p) i bs) = (r, bs')"
  shows "\<exists>rem'. remove_target_page sb p i (meta_page bs) (payload_page bs) sel rem =
      Inr (meta_page bs', payload_page bs', (case r of None \<Rightarrow> sel | Some b \<Rightarrow> b), rem') \<and>
    (chosen sb rem' \<longleftrightarrow> chosen sb rem \<or> r \<noteq> None)"
proof -
  obtain ms ps sel' rem' where sr:
    "select_and_remove_target_slots sb i (map block_meta bs) (map b_payload bs) sel rem = (ms, ps, sel', rem')"
    by (rule prod_cases4)
  have wf: "bucket_wf p bs" using assms(1) by (simp add: bucket_at_def)
  have wf': "bucket_wf p bs'"
    using assms(1,4) take_first_wf [of p i bs r bs' j] by (auto simp: bucket_at_def split: if_splits)
  have "stash_wf (block_size p) bs" using wf by (simp add: bucket_wf_def)
  from select_and_remove_spec [OF this assms(3,4) sr] show ?thesis
    by (simp add: remove_target_page_def meta_bucket_decode_page [OF wf] sr
        payload_bucket_decode_page [OF wf assms(2)] meta_bucket_encode_page [OF wf']
        payload_bucket_encode_page [OF wf'])
qed


lemma remove_target_pages_spec:
  assumes "distinct path" and "\<And>j. j \<in> set path \<Longrightarrow> bucket_at p j (T j)" and "0 < block_size p"
    and "length (b_payload sel) = block_size p"
    and "(if chosen sb rem then (None, T) else take_path (block_size p) i T path) = (r, T')"
  shows "\<exists>rem'. remove_target_pages sb p i (map (\<lambda>j. meta_page (T j)) path) (map (\<lambda>j. payload_page (T j)) path) sel rem =
      Inr (map (\<lambda>j. meta_page (T' j)) path, map (\<lambda>j. payload_page (T' j)) path,
        (case r of None \<Rightarrow> sel | Some b \<Rightarrow> b), rem')"
  using assms
proof (induction path arbitrary: sel rem r T')
  case (Cons j path)
  obtain r1 bs where 1: "(if chosen sb rem then (None, T j) else take_first (block_size p) i (T j)) = (r1, bs)"
    by (rule prod.exhaust)
  obtain rem1 where page: "remove_target_page sb p i (meta_page (T j)) (payload_page (T j)) sel rem =
      Inr (meta_page bs, payload_page bs, (case r1 of None \<Rightarrow> sel | Some b \<Rightarrow> b), rem1)"
    "chosen sb rem1 \<longleftrightarrow> chosen sb rem \<or> r1 \<noteq> None"
    using remove_target_page_spec [OF _ Cons.prems(3,4) 1] Cons.prems(2) by (metis list.set_intros(1))
  have sel1: "length (b_payload (case r1 of None \<Rightarrow> sel | Some b \<Rightarrow> b)) = block_size p"
    using Cons.prems(2) [of j] Cons.prems(4) 1 take_first_props [of "block_size p" i "T j" r1 bs]
    by (auto simp: bucket_at_def bucket_wf_def stash_wf_def split: option.split if_splits)
  obtain r2 T2 where 2: "(if chosen sb rem1 then (None, T) else take_path (block_size p) i T path) = (r2, T2)"
    by (rule prod.exhaust)
  obtain rem' where rest: "remove_target_pages sb p i (map (\<lambda>j. meta_page (T j)) path)
      (map (\<lambda>j. payload_page (T j)) path) (case r1 of None \<Rightarrow> sel | Some b \<Rightarrow> b) rem1 =
    Inr (map (\<lambda>j. meta_page (T2 j)) path, map (\<lambda>j. payload_page (T2 j)) path,
      (case r2 of None \<Rightarrow> case r1 of None \<Rightarrow> sel | Some b \<Rightarrow> b | Some b \<Rightarrow> b), rem')"
    using Cons.IH [OF _ _ Cons.prems(3) sel1 2] Cons.prems(1,2) by auto
  have "bs = T' j \<and> map T2 path = map T' path \<and> r = (case r2 of None \<Rightarrow> r1 | Some b \<Rightarrow> Some b)"
  proof (cases "chosen sb rem1")
    case True
    then have "r2 = None" "T2 = T" using 2 by simp_all
    then show ?thesis
      using True page(2) 1 Cons.prems(1,5) by (auto split: if_splits)
  next
    case False
    then have "r1 = None" "\<not> chosen sb rem" "bs = T j" "take_path (block_size p) i T path = (r2, T2)"
      using page(2) 1 2 take_first_props [of "block_size p" i "T j" r1 bs] by auto
    moreover from this have "T2 j = T j"
      using take_path_props [of p i T path r2 T2] Cons.prems(1,2) by auto
    ultimately show ?thesis using 1 Cons.prems(5) by (auto split: option.split)
  qed
  then have "bs = T' j" "\<And>k. k \<in> set path \<Longrightarrow> T2 k = T' k" "r = (case r2 of None \<Rightarrow> r1 | Some b \<Rightarrow> Some b)"
    by (auto simp: map_eq_conv)
  then show ?case using page(1) rest by (auto cong: map_cong split: option.splits)
qed (auto split: if_splits)

end

text \<open>On an overlay, the removal is the removal on the pages of the path.\<close>

lemma remove_target_overlay_pages:
  assumes "distinct path" and "\<And>j. j \<in> set path \<Longrightarrow> mo j = Some (m j) \<and> po j = Some (q j)"
  shows "rfoldM (remove_target_overlay_page sb p i) path (mo, po, sel, rem) =
    rbind (remove_target_pages sb p i (map m path) (map q path) sel rem)
      (\<lambda>(ms, ps, sel, rem). Inr (mo(path [\<mapsto>] ms), po(path [\<mapsto>] ps), sel, rem))"
  using assms
proof (induction path arbitrary: mo po sel rem)
  case (Cons j path)
  have mq: "mo j = Some (m j)" "po j = Some (q j)" using Cons.prems by simp_all
  show ?case
  proof (cases "remove_target_page sb p i (m j) (q j) sel rem")
    case (Inl e)
    then have "remove_target_overlay_page sb p i j (mo, po, sel, rem) = Inl e"
      by (simp add: remove_target_overlay_page_def mq)
    with Inl show ?thesis by simp
  next
    case (Inr x)
    obtain mb pb sel1 rem1 where x: "x = (mb, pb, sel1, rem1)" by (rule prod_cases4)
    have step: "remove_target_overlay_page sb p i j (mo, po, sel, rem) =
        Inr (mo(j \<mapsto> mb), po(j \<mapsto> pb), sel1, rem1)"
      using Inr x by (simp add: remove_target_overlay_page_def mq)
    have "rfoldM (remove_target_overlay_page sb p i) path (mo(j \<mapsto> mb), po(j \<mapsto> pb), sel1, rem1) =
      rbind (remove_target_pages sb p i (map m path) (map q path) sel1 rem1)
        (\<lambda>(ms, ps, sel, rem). Inr ((mo(j \<mapsto> mb))(path [\<mapsto>] ms), (po(j \<mapsto> pb))(path [\<mapsto>] ps), sel, rem))"
      using Cons.prems by (intro Cons.IH) auto
    then show ?thesis using Inr x step
      by (cases "remove_target_pages sb p i (map m path) (map q path) sel1 rem1")
        (auto simp del: fun_upd_apply)
  qed
qed simp

section \<open>The invariant\<close>

definition model_block :: "u32 list \<Rightarrow> bytes list \<Rightarrow> nat \<Rightarrow> oram_block" where
  "model_block pos D i =
     \<lparr>b_occupied = True, b_logical_id = word_of_nat i, b_leaf = pos ! i, b_payload = D ! i\<rparr>"

definition model_blocks :: "u32 list \<Rightarrow> bytes list \<Rightarrow> oram_block multiset" where
  "model_blocks pos D = mset (map (model_block pos D) [0..<length D])"

definition tree_blocks :: "oram_params \<Rightarrow> (nat \<Rightarrow> oram_block list) \<Rightarrow> oram_block multiset" where
  "tree_blocks p T = real_blocks (concat (map T [0..<bucket_count p]))"

definition logical_inv ::
  "oram_params \<Rightarrow> (nat \<Rightarrow> oram_block list) \<Rightarrow> bytes list \<Rightarrow> u32 list \<Rightarrow> oram_block list \<Rightarrow> bool" where
  "logical_inv p T D pos stash \<longleftrightarrow>
     params_ok p \<and> (\<forall>j < bucket_count p. bucket_at p j (T j)) \<and> stash_ok p stash \<and>
     length D = logical_blocks p \<and> (\<forall>d \<in> set D. length d = block_size p) \<and>
     length pos = logical_blocks p \<and> (\<forall>l \<in> set pos. unat l < leaves p) \<and>
     real_blocks stash + tree_blocks p T = model_blocks pos D"

lemma real_blocks_concat_sum:
  "distinct xs \<Longrightarrow> real_blocks (concat (map T xs)) = (\<Sum>j \<in> set xs. real_blocks (T j))"
  by (induction xs) auto

lemma tree_blocks_change:
  assumes "distinct path" and "set path \<subseteq> {0..<bucket_count p}" and "\<And>j. j \<notin> set path \<Longrightarrow> T' j = T j"
  shows "tree_blocks p T' + real_blocks (concat (map T path)) =
    tree_blocks p T + real_blocks (concat (map T' path))"
proof -
  have split: "tree_blocks p S = (\<Sum>j \<in> {0..<bucket_count p} - set path. real_blocks (S j)) +
      real_blocks (concat (map S path))" for S
    using sum.subset_diff [OF assms(2), of "\<lambda>j. real_blocks (S j)"]
    by (simp add: tree_blocks_def real_blocks_concat_sum assms(1) del: mset_concat)
  have "(\<Sum>j \<in> {0..<bucket_count p} - set path. real_blocks (T' j)) =
      (\<Sum>j \<in> {0..<bucket_count p} - set path. real_blocks (T j))"
    using assms(3) by (intro sum.cong) auto
  then show ?thesis unfolding split [of T'] split [of T] by (simp add: ac_simps del: mset_concat)
qed

lemma path_in_tree:
  assumes "params_ok p" and "unat leaf < leaves p"
  shows "set (path_nodes p leaf) \<subseteq> {0..<bucket_count p}" "distinct (path_nodes p leaf)"
  using root_path_path_nodes [OF assms] distinct_path_nodes [OF assms] by (auto simp: root_path_def)

lemma model_block_simps [simp]:
  "b_occupied (model_block pos D i)" "b_logical_id (model_block pos D i) = word_of_nat i"
  "b_leaf (model_block pos D i) = pos ! i" "b_payload (model_block pos D i) = D ! i"
  by (simp_all add: model_block_def)

lemma logical_inv_D:
  assumes "logical_inv p T D pos stash"
  shows "params_ok p" "stash_ok p stash" "length D = logical_blocks p" "length pos = logical_blocks p"
    "\<And>j. j < bucket_count p \<Longrightarrow> bucket_at p j (T j)"
    "real_blocks stash + tree_blocks p T = model_blocks pos D" "0 < block_size p"
    "logical_blocks p < 2 ^ 64"
    "\<And>i. i < logical_blocks p \<Longrightarrow> unat (pos ! i) < leaves p \<and> length (D ! i) = block_size p"
  using assms by (auto simp: logical_inv_def params_ok_def)

text \<open>A real block with the id of a logical block is that block.\<close>

lemma model_block_unique:
  assumes "b \<in># model_blocks pos D" and "b_logical_id b = i" and "length D < 2 ^ 64"
  shows "b = model_block pos D (unat i)" and "unat i < length D"
  using assms by (auto simp: model_blocks_def)

lemma count_model_block:
  assumes "length D < 2 ^ 64" and "k < length D"
  shows "count (model_blocks pos D) (model_block pos D k) = 1"
proof -
  have "inj_on (model_block pos D) (set [0..<length D])"
  proof (rule inj_onI)
    fix a b
    assume "a \<in> set [0..<length D]" "b \<in> set [0..<length D]" "model_block pos D a = model_block pos D b"
    then have "(word_of_nat a :: u64) = word_of_nat b" "a < 2 ^ 64" "b < 2 ^ 64"
      using assms(1) by (auto dest: arg_cong [where f = b_logical_id])
    then show "a = b" using unat_word_of_nat_u64 by metis
  qed
  then have "distinct (map (model_block pos D) [0..<length D])" by (simp add: distinct_map)
  moreover have "model_block pos D k \<in> set (map (model_block pos D) [0..<length D])" using assms(2) by simp
  ultimately show ?thesis unfolding model_blocks_def by (simp only: distinct_count_atmost_1) auto
qed

lemma tree_block_on_path:
  assumes "logical_inv p T D pos stash" and "b \<in># tree_blocks p T"
  shows "\<exists>j \<in> set (path_nodes p (b_leaf b)). j < bucket_count p \<and> b \<in> set (T j) \<and> b_occupied b"
proof -
  obtain j where "j < bucket_count p" "b \<in> set (T j)" "b_occupied b"
    using assms(2) by (auto simp: tree_blocks_def)
  with logical_inv_D(5) [OF assms(1), of j] show ?thesis
    by (auto simp: bucket_at_def block_at_def)
qed

section \<open>One access\<close>

text \<open>The stash has room for the block, or already holds it.\<close>

definition access_fits :: "u64 \<Rightarrow> oram_block list \<Rightarrow> bool" where
  "access_fits i stash \<longleftrightarrow> has_free stash \<or> (\<exists>b \<in> set stash. b_occupied b \<and> b_logical_id b = i)"

definition rewrite_block :: "u64 \<Rightarrow> bytes \<Rightarrow> u32 \<Rightarrow> oram_block \<Rightarrow> oram_block" where
  "rewrite_block i v l b =
     (if b_occupied b \<and> b_logical_id b = i then b\<lparr>b_payload := v, b_leaf := l\<rparr> else b)"

definition moved_stash :: "oram_block option \<Rightarrow> oram_block list \<Rightarrow> oram_block list" where
  "moved_stash r stash = (case r of None \<Rightarrow> stash | Some b \<Rightarrow> stash_put b stash)"

text \<open>A block of the stash is not in the tree as well, and there is one of each id.\<close>

lemma stash_block_only:
  assumes "logical_inv p T D pos stash" and "unat i < logical_blocks p"
    and "model_block pos D (unat i) \<in> set stash"
  shows "b \<in># tree_blocks p T \<Longrightarrow> b_logical_id b \<noteq> i"
    and "b \<in> set stash \<Longrightarrow> b_occupied b \<Longrightarrow> b_logical_id b = i \<Longrightarrow> b = model_block pos D (unat i)"
proof -
  note inv = logical_inv_D [OF assms(1)]
  let ?m = "model_block pos D (unat i)"
  have uniq: "b = ?m" if "b \<in># real_blocks stash + tree_blocks p T" "b_logical_id b = i" for b
    using model_block_unique(1) [OF _ that(2)] that(1) inv(3,8) unfolding inv(6) by simp
  show "b \<in> set stash \<Longrightarrow> b_occupied b \<Longrightarrow> b_logical_id b = i \<Longrightarrow> b = ?m" using uniq by simp
  have "?m \<in># real_blocks stash" using assms(3) by simp
  then have "1 \<le> count (real_blocks stash) ?m" by (simp only: count_greater_eq_one_iff)
  moreover have "count (real_blocks stash) ?m + count (tree_blocks p T) ?m = 1"
    using arg_cong [OF inv(6), of "\<lambda>M. count M ?m"] count_model_block [of D "unat i" pos] inv(3,8) assms(2)
    by (simp only: count_union)
  ultimately have "?m \<notin># tree_blocks p T" by (simp only: not_in_iff)
  then show "b_logical_id b \<noteq> i" if "b \<in># tree_blocks p T" using that uniq [of b] by auto
qed

lemma target_found_in_tree:
  assumes "logical_inv p T D pos stash" and "unat i < logical_blocks p"
    and "take_path (block_size p) i T (path_nodes p (pos ! unat i)) = (r, T')"
  shows "r = None \<longleftrightarrow> (\<exists>b \<in> set stash. b_occupied b \<and> b_logical_id b = i)"
    and "r \<noteq> None \<Longrightarrow> r = Some (model_block pos D (unat i))"
proof -
  note inv = logical_inv_D [OF assms(1)]
  let ?path = "path_nodes p (pos ! unat i)" and ?m = "model_block pos D (unat i)"
  have leaf: "unat (pos ! unat i) < leaves p" using inv(9) assms(2) by simp
  have at: "bucket_at p j (T j)" if "j \<in> set ?path" for j
    using path_in_tree(1) [OF inv(1) leaf] inv(5) that by auto
  note tp = take_path_props [OF assms(3) at]
  have uniq: "b = ?m" if "b \<in># model_blocks pos D" "b_logical_id b = i" for b
    using model_block_unique(1) [OF that] inv(3,8) by simp
  show some: "r = Some ?m" if "r \<noteq> None"
  proof -
    obtain b where b: "r = Some b" using \<open>r \<noteq> None\<close> by blast
    with tp obtain j where "j \<in> set ?path" "b \<in> set (T j)" "b_occupied b" "b_logical_id b = i" by auto
    moreover from this have "b \<in># tree_blocks p T"
      using path_in_tree(1) [OF inv(1) leaf] by (auto simp: tree_blocks_def)
    then have "b \<in># model_blocks pos D" unfolding inv(6) [symmetric] by simp
    ultimately show ?thesis using uniq b by simp
  qed
  have m_in: "?m \<in># real_blocks stash + tree_blocks p T"
    unfolding inv(6) model_blocks_def using assms(2) inv(3) by simp
  have m_id: "b_logical_id ?m = i" by simp
  show "r = None \<longleftrightarrow> (\<exists>b \<in> set stash. b_occupied b \<and> b_logical_id b = i)"
  proof
    assume "r = None"
    then have none: "\<And>j b. j \<in> set ?path \<Longrightarrow> b \<in> set (T j) \<Longrightarrow> \<not> (b_occupied b \<and> b_logical_id b = i)"
      using tp by blast
    have "?m \<notin># tree_blocks p T"
      using tree_block_on_path [OF assms(1), of ?m] none [of _ ?m] m_id by (auto simp del: of_nat_unat)
    then have "?m \<in># real_blocks stash" using m_in by simp
    then show "\<exists>b \<in> set stash. b_occupied b \<and> b_logical_id b = i" using m_id by force
  next
    assume "\<exists>b \<in> set stash. b_occupied b \<and> b_logical_id b = i"
    then obtain b where b: "b \<in># real_blocks stash" "b_logical_id b = i" by auto
    then have "b \<in># real_blocks stash + tree_blocks p T" by simp
    then have "b = ?m" using uniq b(2) unfolding inv(6) by blast
    then have "?m \<in> set stash" using b(1) by auto
    note only = stash_block_only(1) [OF assms(1,2) this]
    show "r = None"
    proof (rule ccontr)
      assume "r \<noteq> None"
      with some tp obtain j where "j \<in> set ?path" "?m \<in> set (T j)" by blast
      then have "?m \<in># tree_blocks p T"
        using path_in_tree(1) [OF inv(1) leaf] by (auto simp: tree_blocks_def)
      with only [of ?m] show False by simp
    qed
  qed
qed

text \<open>Moving the target from its path to the stash.\<close>

lemma logical_inv_move:
  assumes "logical_inv p T D pos stash" and "unat i < logical_blocks p"
    and "take_path (block_size p) i T (path_nodes p (pos ! unat i)) = (r, T')"
    and "r \<noteq> None \<Longrightarrow> has_free stash"
  shows "logical_inv p T' D pos (moved_stash r stash)"
    and "model_block pos D (unat i) \<in> set (moved_stash r stash)"
proof -
  note inv = logical_inv_D [OF assms(1)] and found = target_found_in_tree [OF assms(1-3)]
  let ?path = "path_nodes p (pos ! unat i)" and ?m = "model_block pos D (unat i)"
  have leaf: "unat (pos ! unat i) < leaves p" "length (D ! unat i) = block_size p"
    using inv(9) assms(2) by simp_all
  note path = path_in_tree [OF inv(1) leaf(1)]
  have at0: "bucket_at p j (T j)" if "j \<in> set ?path" for j using path(1) inv(5) that by auto
  have tp: "\<And>j. j \<notin> set ?path \<Longrightarrow> T' j = T j" "\<And>j. j \<in> set ?path \<Longrightarrow> bucket_at p j (T' j)"
    using take_path_props [OF assms(3) at0] by auto
  have at: "bucket_at p j (T' j)" if "j < bucket_count p" for j
    using tp inv(5) that by (cases "j \<in> set ?path") auto
  have "tree_blocks p T' + option_mset r = tree_blocks p T"
    using tree_blocks_change [of ?path p T' T] path tp(1) take_path_real [OF assms(3) path(2)]
    by (simp add: ac_simps del: mset_concat)
  moreover have st: "real_blocks (moved_stash r stash) = real_blocks stash + option_mset r \<and>
      stash_ok p (moved_stash r stash)"
  proof (cases "r = None")
    case False
    then have r: "r = Some ?m" "has_free stash" using found(2) assms(4) by auto
    have "set (stash_put ?m stash) \<subseteq> insert ?m (set stash)" by (induction stash) auto
    then show ?thesis
      using r inv(2) leaf real_blocks_put [OF r(2), of ?m]
      by (auto simp: moved_stash_def stash_ok_def stash_wf_put)
  qed (use inv(2) in \<open>simp add: moved_stash_def\<close>)
  ultimately have blocks: "real_blocks (moved_stash r stash) + tree_blocks p T' = model_blocks pos D"
    unfolding inv(6) [symmetric] by (simp add: ac_simps)
  then show "logical_inv p T' D pos (moved_stash r stash)"
    using assms(1) at st by (simp add: logical_inv_def)
  show "?m \<in> set (moved_stash r stash)"
  proof (cases "r = None")
    case True
    with found(1) obtain b where b: "b \<in> set stash" "b_occupied b" "b_logical_id b = i" by blast
    then have "b \<in># real_blocks stash + tree_blocks p T" by simp
    then have "b = ?m" using model_block_unique(1) [OF _ b(3)] inv(3,8) unfolding inv(6) by simp
    with b(1) True show ?thesis by (simp add: moved_stash_def)
  next
    case False
    then have "?m \<in># real_blocks (moved_stash r stash)" using st found(2) by simp
    then show ?thesis by simp
  qed
qed

lemma rewrite_model_blocks:
  assumes "length D < 2 ^ 64" and "length pos = length D" and "unat i < length D"
  shows "image_mset (rewrite_block i v l) (model_blocks pos D) =
    model_blocks (pos[unat i := l]) (D[unat i := v])"
proof -
  have "rewrite_block i v l (model_block pos D k) = model_block (pos[unat i := l]) (D[unat i := v]) k"
    if "k < length D" for k
  proof -
    have "(word_of_nat k :: u64) = i \<longleftrightarrow> k = unat i"
      using that assms(1) by (intro word_of_nat_eq_iff_u64) simp
    then show ?thesis
      using that assms(2,3) by (auto simp: rewrite_block_def model_block_def nth_list_update)
  qed
  then show ?thesis
    by (auto simp: model_blocks_def simp del: mset_map intro!: arg_cong [of _ _ mset]
        simp: mset_map [symmetric])
qed

lemma logical_inv_rewrite:
  assumes "logical_inv p T D pos stash" and "unat i < logical_blocks p"
    and "model_block pos D (unat i) \<in> set stash" and "length v = block_size p" and "unat l < leaves p"
  shows "logical_inv p T (D[unat i := v]) (pos[unat i := l]) (map (rewrite_block i v l) stash)"
proof -
  note inv = logical_inv_D [OF assms(1)]
  have occ: "b_occupied (rewrite_block i v l b) = b_occupied b" for b by (simp add: rewrite_block_def)
  have "real_blocks (map (rewrite_block i v l) stash) = image_mset (rewrite_block i v l) (real_blocks stash)"
    by (simp add: filter_mset_image_mset occ)
  moreover have "rewrite_block i v l b = b" if "b \<in># tree_blocks p T" for b
    using stash_block_only(1) [OF assms(1-3) that] by (simp add: rewrite_block_def)
  then have "image_mset (rewrite_block i v l) (tree_blocks p T) = tree_blocks p T"
    by (simp cong: image_mset_cong)
  ultimately have "real_blocks (map (rewrite_block i v l) stash) + tree_blocks p T =
      image_mset (rewrite_block i v l) (model_blocks pos D)"
    unfolding inv(6) [symmetric] by (simp only: image_mset_union)
  also have "\<dots> = model_blocks (pos[unat i := l]) (D[unat i := v])"
    using inv(3,4,8) assms(2) by (intro rewrite_model_blocks) auto
  finally have blocks: "real_blocks (map (rewrite_block i v l) stash) + tree_blocks p T =
      model_blocks (pos[unat i := l]) (D[unat i := v])" .
  moreover have "stash_ok p (map (rewrite_block i v l) stash)"
    using inv(2) assms(4,5) by (auto simp: stash_ok_def stash_wf_def rewrite_block_def)
  moreover have "\<forall>d \<in> set (D[unat i := v]). length d = block_size p" "\<forall>k \<in> set (pos[unat i := l]). unat k < leaves p"
    using assms(1,4,5) by (auto simp: logical_inv_def dest!: subsetD [OF set_update_subset_insert])
  ultimately show ?thesis using assms(1) by (simp add: logical_inv_def)
qed

end
