(* ===== verification/Circuit_Correct.thy ===== *)
theory Circuit_Correct
  imports Circuit_Invariant
begin

text \<open>
  The controller against its specification, an array \<open>D\<close> of logical blocks. \<open>oram_inv\<close> relates a
  controller and its stores to \<open>D\<close>; an access reads and replaces one entry of \<open>D\<close>, dummy accesses,
  flushes and evictions leave \<open>D\<close> alone, and each method keeps \<open>oram_inv\<close>. The stores are any two
  stores that meet the path-store contract, the choice operations any that meet the contract of
  \<open>subtle\<close>, and the generator is arbitrary.
\<close>

section \<open>Stores that hold a tree\<close>

definition store_rep ::
  "'s path_page_store \<Rightarrow> ('s \<Rightarrow> bool) \<Rightarrow> ('s \<Rightarrow> nat \<rightharpoonup> bytes) \<Rightarrow> nat \<Rightarrow> nat \<Rightarrow> (nat \<Rightarrow> bytes) \<Rightarrow> 's \<Rightarrow> bool" where
  "store_rep pp ok pages n k f s \<longleftrightarrow>
     ok s \<and> pp_page_count pp s = n \<and> pp_page_size pp s = k \<and> (\<forall>i < n. pages s i = Some (f i))"

context path_store_spec
begin

lemma rep_read_path:
  assumes "store_rep pp ok pages n k f s" and "root_path n path"
  shows "\<exists>s'. pp_read_path_pages pp path s = (Inr (map f path), s') \<and> store_rep pp ok pages n k f s'"
  using read_path [of s path f] assms by (auto simp: store_rep_def kept_def root_path_def)

lemma rep_write_path:
  assumes "store_rep pp ok pages n k f s" and "root_path n path"
    and "\<And>i. i \<in> set path \<Longrightarrow> length (g i) = k" and "\<And>i. i \<notin> set path \<Longrightarrow> g i = f i"
  shows "\<exists>s'. pp_write_path_pages pp path (map g path) s = (Inr (), s') \<and> store_rep pp ok pages n k g s'"
  using write_path [of s path g] assms by (auto simp: store_rep_def kept_def root_path_def overwrite_def)

lemma rep_read_paths:
  assumes "store_rep pp ok pages n k f s" and "\<And>path. path \<in> set paths \<Longrightarrow> root_path n path"
  shows "\<exists>s'. pp_read_paths_pages pp paths s = (Inr (map (map f) paths), s') \<and> store_rep pp ok pages n k f s'"
proof -
  have "i < n" if "i \<in> set (concat paths)" for i using assms(2) that by (auto simp: root_path_def)
  then show ?thesis using read_paths [of s paths f] assms by (auto simp: store_rep_def kept_def)
qed

lemma rep_write_paths:
  assumes "store_rep pp ok pages n k f s" and "\<And>path. path \<in> set paths \<Longrightarrow> root_path n path"
    and "\<And>i. i \<in> set (concat paths) \<Longrightarrow> length (g i) = k" and "\<And>i. i \<notin> set (concat paths) \<Longrightarrow> g i = f i"
  shows "\<exists>s'. pp_write_paths_pages pp paths (map (map g) paths) s = (Inr (), s') \<and>
    store_rep pp ok pages n k g s'"
proof -
  have "i < n" if "i \<in> set (concat paths)" for i using assms(2) that by (auto simp: root_path_def)
  then show ?thesis
    using write_paths [of s paths g] assms by (auto simp: store_rep_def kept_def overwrite_def)
qed

lemma rep_flush:
  "store_rep pp ok pages n k f s \<Longrightarrow>
    \<exists>s'. pp_flush pp s = (Inr (), s') \<and> store_rep pp ok pages n k f s'"
  using flush_paths [of s] by (auto simp: store_rep_def kept_def)

end

section \<open>The environment and the invariant\<close>

text \<open>How the two stores of an environment are to be read: which states are usable, and their pages.\<close>

record ('m, 'p) store_views =
  v_meta_ok :: "'m \<Rightarrow> bool"
  v_meta_pages :: "'m \<Rightarrow> nat \<rightharpoonup> bytes"
  v_payload_ok :: "'p \<Rightarrow> bool"
  v_payload_pages :: "'p \<Rightarrow> nat \<rightharpoonup> bytes"

locale circuit_env_spec =
  ct: subtle_spec "e_ct E" +
  meta: path_store_spec "e_meta E" "v_meta_ok V" "v_meta_pages V" +
  payload: path_store_spec "e_payload E" "v_payload_ok V" "v_payload_pages V"
  for E :: "('c, 'm, 'p, 'r) circuit_env" and V :: "('m, 'p) store_views"

definition stores_hold ::
  "('c, 'm, 'p, 'r) circuit_env \<Rightarrow> ('m, 'p) store_views \<Rightarrow> oram_params \<Rightarrow> (nat \<Rightarrow> oram_block list) \<Rightarrow>
    'm \<Rightarrow> 'p \<Rightarrow> bool" where
  "stores_hold E V p T m q \<longleftrightarrow>
     store_rep (e_meta E) (v_meta_ok V) (v_meta_pages V) (bucket_count p)
       (circuit_meta_page_bytes (bucket_size p)) (\<lambda>j. meta_page (T j)) m \<and>
     store_rep (e_payload E) (v_payload_ok V) (v_payload_pages V) (bucket_count p)
       (circuit_payload_page_bytes (bucket_size p) (block_size p)) (\<lambda>j. payload_page (T j)) q"

definition oram_rep ::
  "('c, 'm, 'p, 'r) circuit_env \<Rightarrow> ('m, 'p) store_views \<Rightarrow> (nat \<Rightarrow> oram_block list) \<Rightarrow> bytes list \<Rightarrow>
    ('m, 'p, 'r) circuit_oram \<Rightarrow> bool" where
  "oram_rep E V T D self \<longleftrightarrow>
     logical_inv (co_params self) T D (co_pos_map self) (co_stash self) \<and>
     stores_hold E V (co_params self) T (co_meta_store self) (co_payload_store self)"

definition oram_inv ::
  "('c, 'm, 'p, 'r) circuit_env \<Rightarrow> ('m, 'p) store_views \<Rightarrow> bytes list \<Rightarrow> ('m, 'p, 'r) circuit_oram \<Rightarrow> bool" where
  "oram_inv E V D self \<longleftrightarrow> (\<exists>T. oram_rep E V T D self)"

text \<open>A generated leaf is one of the tree.\<close>

lemma random_leaf_bound:
  assumes "params_ok p" and "random_leaf next_u64 p rng = (leaf, rng')"
  shows "unat leaf < leaves p"
proof -
  define m :: u64 where "m = word_of_nat (leaves p - 1)"
  obtain w where w: "leaf = ucast (w AND m)"
    using assms(2) by (auto simp: random_leaf_def m_def split: prod.splits)
  have n: "2 \<le> leaves p" "leaves p < 2 ^ 32" using assms(1) by (auto simp: params_ok_def)
  have "unat m = leaves p - 1" unfolding m_def using n by (intro unat_word_of_nat_u64) simp
  moreover have "w AND m \<le> m" by (rule word_and_le1)
  ultimately have le: "unat (w AND m) \<le> leaves p - 1" by (simp add: word_le_nat_alt)
  then have "unat leaf = unat (w AND m)"
    using n unfolding w by (simp add: unsigned_ucast_eq take_bit_nat_eq_self)
  then show ?thesis using le n by simp
qed


section \<open>Moving the target into the stash\<close>

lemma tree_page_lengths:
  assumes "bucket_at p j bs"
  shows "length (meta_page bs) = circuit_meta_page_bytes (bucket_size p)"
    "length (payload_page bs) = circuit_payload_page_bytes (bucket_size p) (block_size p)"
  using assms by (simp_all add: bucket_at_def length_meta_page_wf length_payload_page_wf)

context circuit_env_spec
begin

lemma insert_moved:
  assumes "stash_ok p stash" and "\<And>b. r = Some b \<Longrightarrow> b_occupied b \<and> length (b_payload b) = block_size p"
  shows "insert_into_stash (e_ct E) p (case r of None \<Rightarrow> dummy (block_size p) | Some b \<Rightarrow> b) stash =
    (if r \<noteq> None \<and> \<not> has_free stash
     then (Inl (StashOverflow (stash_capacity p + 1) (stash_capacity p)), stash)
     else (Inr (), moved_stash r stash))"
  using assms ct.insert_into_stash_eq [of "block_size p" stash]
  by (cases r) (auto simp: stash_ok_def moved_stash_def)

lemma stores_read_path:
  assumes "stores_hold E V p T m q" and "params_ok p" and "unat leaf < leaves p"
  shows "\<exists>m' q'. pp_read_path_pages (e_meta E) (path_nodes p leaf) m =
      (Inr (map (\<lambda>j. meta_page (T j)) (path_nodes p leaf)), m') \<and>
    pp_read_path_pages (e_payload E) (path_nodes p leaf) q =
      (Inr (map (\<lambda>j. payload_page (T j)) (path_nodes p leaf)), q') \<and> stores_hold E V p T m' q'"
  using meta.rep_read_path payload.rep_read_path root_path_path_nodes [OF assms(2,3)] assms(1)
  unfolding stores_hold_def by blast

lemma stores_write_path:
  assumes "stores_hold E V p T m q" and "params_ok p" and "unat leaf < leaves p"
    and "\<And>j. j \<in> set (path_nodes p leaf) \<Longrightarrow> bucket_at p j (T' j)"
    and "\<And>j. j \<notin> set (path_nodes p leaf) \<Longrightarrow> T' j = T j"
  shows "\<exists>m' q'. pp_write_path_pages (e_meta E) (path_nodes p leaf)
      (map (\<lambda>j. meta_page (T' j)) (path_nodes p leaf)) m = (Inr (), m') \<and>
    pp_write_path_pages (e_payload E) (path_nodes p leaf)
      (map (\<lambda>j. payload_page (T' j)) (path_nodes p leaf)) q = (Inr (), q') \<and> stores_hold E V p T' m' q'"
proof -
  let ?path = "path_nodes p leaf" and ?n = "bucket_count p"
  have root: "root_path ?n ?path" by (rule root_path_path_nodes [OF assms(2,3)])
  note len = tree_page_lengths [OF assms(4)]
  have "\<exists>m'. pp_write_path_pages (e_meta E) ?path (map (\<lambda>j. meta_page (T' j)) ?path) m = (Inr (), m') \<and>
      store_rep (e_meta E) (v_meta_ok V) (v_meta_pages V) ?n (circuit_meta_page_bytes (bucket_size p))
        (\<lambda>j. meta_page (T' j)) m'"
    using assms(1) len(1) assms(5)
    by (intro meta.rep_write_path [OF _ root]) (auto simp: stores_hold_def)
  moreover have "\<exists>q'. pp_write_path_pages (e_payload E) ?path (map (\<lambda>j. payload_page (T' j)) ?path) q = (Inr (), q') \<and>
      store_rep (e_payload E) (v_payload_ok V) (v_payload_pages V) ?n
        (circuit_payload_page_bytes (bucket_size p) (block_size p)) (\<lambda>j. payload_page (T' j)) q'"
    using assms(1) len(2) assms(5)
    by (intro payload.rep_write_path [OF _ root]) (auto simp: stores_hold_def)
  ultimately show ?thesis by (auto simp: stores_hold_def)
qed

text \<open>The path read and the write-back of an access, with the target moved to the stash.\<close>

lemma read_and_remove_spec:
  assumes "oram_rep E V T D self" and "unat i < logical_blocks p" and "p = co_params self"
    and "take_path (block_size p) i T (path_nodes p (co_pos_map self ! unat i)) = (r, T')"
  shows "\<exists>m q. read_and_remove_target_path E (co_pos_map self ! unat i) i self =
    (if r \<noteq> None \<and> \<not> has_free (co_stash self)
     then (Inl (StashOverflow (stash_capacity p + 1) (stash_capacity p)),
       self\<lparr>co_meta_store := m, co_payload_store := q\<rparr>)
     else (Inr (), self\<lparr>co_meta_store := m, co_payload_store := q, co_stash := moved_stash r (co_stash self)\<rparr>)) \<and>
    stores_hold E V p (if r \<noteq> None \<and> \<not> has_free (co_stash self) then T else T') m q"
proof -
  let ?leaf = "co_pos_map self ! unat i"
  let ?path = "path_nodes p ?leaf"
  have inv0: "logical_inv p T D (co_pos_map self) (co_stash self)"
    and hold: "stores_hold E V p T (co_meta_store self) (co_payload_store self)"
    using assms(1,3) by (simp_all add: oram_rep_def)
  note inv = logical_inv_D [OF inv0]
  have leaf: "unat ?leaf < leaves p" "length (D ! unat i) = block_size p" using inv(9) assms(2) by simp_all
  note path = path_in_tree [OF inv(1) leaf(1)]
  have at: "bucket_at p j (T j)" if "j \<in> set ?path" for j using path(1) inv(5) that by auto
  note tp = take_path_props [OF assms(4) at]
  have r: "b_occupied b \<and> length (b_payload b) = block_size p" if "r = Some b" for b
    using target_found_in_tree(2) [OF inv0 assms(2,4)] leaf(2) that by auto
  obtain m1 q1 where rd: "pp_read_path_pages (e_meta E) ?path (co_meta_store self) =
      (Inr (map (\<lambda>j. meta_page (T j)) ?path), m1)"
    "pp_read_path_pages (e_payload E) ?path (co_payload_store self) =
      (Inr (map (\<lambda>j. payload_page (T j)) ?path), q1)" "stores_hold E V p T m1 q1"
    using stores_read_path [OF hold inv(1) leaf(1)] by blast
  obtain m2 q2 where wr: "pp_write_path_pages (e_meta E) ?path (map (\<lambda>j. meta_page (T' j)) ?path) m1 = (Inr (), m2)"
    "pp_write_path_pages (e_payload E) ?path (map (\<lambda>j. payload_page (T' j)) ?path) q1 = (Inr (), q2)"
    "stores_hold E V p T' m2 q2"
    using stores_write_path [OF rd(3) inv(1) leaf(1)] tp by blast
  obtain rem where rm: "remove_target_pages (e_ct E) p i (map (\<lambda>j. meta_page (T j)) ?path)
      (map (\<lambda>j. payload_page (T j)) ?path) (dummy (block_size p)) (choice_from_bool (e_ct E) False) =
    Inr (map (\<lambda>j. meta_page (T' j)) ?path, map (\<lambda>j. payload_page (T' j)) ?path,
      (case r of None \<Rightarrow> dummy (block_size p) | Some b \<Rightarrow> b), rem)"
    using ct.remove_target_pages_spec [OF path(2) at inv(7), of "dummy (block_size p)"
        "choice_from_bool (e_ct E) False" i r T'] assms(4)
    by (auto simp: ct_simps)
  have ins: "insert_into_stash (e_ct E) p (case r of None \<Rightarrow> dummy (block_size p) | Some b \<Rightarrow> b) (co_stash self) =
    (if r \<noteq> None \<and> \<not> has_free (co_stash self)
     then (Inl (StashOverflow (stash_capacity p + 1) (stash_capacity p)), co_stash self)
     else (Inr (), moved_stash r (co_stash self)))"
    using inv(2) r by (rule insert_moved)
  note run = read_and_remove_target_path_def comp_simps Let_def assms(3) [symmetric]
  show ?thesis
  proof (cases "r \<noteq> None \<and> \<not> has_free (co_stash self)")
    case True
    note rd rm ins [unfolded if_P [OF True]]
    then show ?thesis
      unfolding if_P [OF True] by (intro exI [of _ m1] exI [of _ q1]) (simp add: run)
  next
    case False
    note rd rm ins [unfolded if_not_P [OF False]] wr
    then show ?thesis
      unfolding if_not_P [OF False] by (intro exI [of _ m2] exI [of _ q2]) (simp add: run)
  qed
qed

section \<open>Accesses\<close>

lemma self_check_stash_ok:
  "length (co_stash self) = stash_capacity (co_params self) \<Longrightarrow> self_check_stash E self = (Inr (), self)"
  by (simp add: self_check_stash_def ct.check_stash_ok)

lemma access_output_ok:
  assumes "logical_inv p T D pos (co_stash self)" and "unat i < logical_blocks p"
    and "model_block pos D (unat i) \<in> set (co_stash self)" and "p = co_params self"
  shows "access_output E i self = (Inr (D ! unat i), self)"
proof -
  let ?out = "scan_stash_output (e_ct E) (block_size p) i (co_stash self)"
  have "stash_wf (block_size p) (co_stash self)"
    using logical_inv_D(2) [OF assms(1)] by (simp add: stash_ok_def)
  then have "fst ?out = D ! unat i \<and> chosen (e_ct E) (snd ?out)"
    using ct.scan_stash_output_found [OF _ assms(3)] stash_block_only(2) [OF assms(1-3)] by simp
  then show ?thesis
    by (cases ?out) (simp add: access_output_def comp_simps ct_simps assms(4) [symmetric])
qed

lemma access_rewrite_run:
  assumes "stash_ok p (co_stash self)" and "length v = block_size p"
  shows "access_rewrite E i v l self =
    (Inr (), self\<lparr>co_stash := map (rewrite_block i v l) (co_stash self)\<rparr>)"
  using assms ct.scan_stash_update_eq [of "block_size p" "co_stash self" v i l]
  by (simp add: access_rewrite_def comp_simps stash_ok_def rewrite_block_def)

lemma access_overflow:
  assumes "oram_rep E V T D self" and "unat i < logical_blocks (co_params self)"
    and "\<not> access_fits i (co_stash self)"
  shows "\<exists>m q. access E i update self =
      (Inl (StashOverflow (stash_capacity (co_params self) + 1) (stash_capacity (co_params self))),
       self\<lparr>co_meta_store := m, co_payload_store := q\<rparr>) \<and>
    stores_hold E V (co_params self) T m q"
proof -
  let ?p = "co_params self"
  have inv0: "logical_inv ?p T D (co_pos_map self) (co_stash self)"
    using assms(1) by (simp add: oram_rep_def)
  note inv = logical_inv_D [OF inv0]
  obtain r T' where tk: "take_path (block_size ?p) i T (path_nodes ?p (co_pos_map self ! unat i)) = (r, T')"
    by fastforce
  have "r \<noteq> None \<and> \<not> has_free (co_stash self)"
    using target_found_in_tree(1) [OF inv0 assms(2) tk] assms(3) by (auto simp: access_fits_def)
  with read_and_remove_spec [OF assms(1,2) refl tk] obtain m q where rd:
    "read_and_remove_target_path E (co_pos_map self ! unat i) i self =
      (Inl (StashOverflow (stash_capacity ?p + 1) (stash_capacity ?p)),
       self\<lparr>co_meta_store := m, co_payload_store := q\<rparr>)" "stores_hold E V ?p T m q"
    by auto
  have "scan_pos_map_lookup (e_ct E) (co_pos_map self) i = co_pos_map self ! unat i"
    using inv(4,8) assms(2) by (intro ct.scan_pos_map_lookup_eq) simp_all
  with rd assms(2) show ?thesis
    by (intro exI [of _ m] exI [of _ q]) (simp add: access_def comp_simps)
qed

lemma access_runs:
  assumes "oram_rep E V T D self" and "unat i < logical_blocks (co_params self)"
    and "access_fits i (co_stash self)" and "length (update (D ! unat i)) = block_size (co_params self)"
    and "random_leaf (e_next_u64 E) (co_params self) (co_rng self) = (l, rng)"
  shows "\<exists>m q stash. access E i update self =
      (let self' = self\<lparr>co_meta_store := m, co_payload_store := q, co_stash := stash, co_rng := rng,
                        co_pos_map := (co_pos_map self)[unat i := l]\<rparr>
       in case record_access (co_schedule self) of
            (Inl e, s) \<Rightarrow> (Inl e, self'\<lparr>co_schedule := s\<rparr>)
          | (Inr _, s) \<Rightarrow> (Inr (D ! unat i), self'\<lparr>co_schedule := s\<rparr>)) \<and>
    (\<exists>T'. stores_hold E V (co_params self) T' m q \<and>
       logical_inv (co_params self) T' (D[unat i := update (D ! unat i)]) ((co_pos_map self)[unat i := l]) stash)"
proof -
  let ?p = "co_params self" and ?i = "unat i" and ?v = "update (D ! unat i)"
  have inv0: "logical_inv ?p T D (co_pos_map self) (co_stash self)"
    using assms(1) by (simp add: oram_rep_def)
  note inv = logical_inv_D [OF inv0]
  have leaf: "unat l < leaves ?p" using random_leaf_bound [OF inv(1) assms(5)] .
  obtain r T' where tk: "take_path (block_size ?p) i T (path_nodes ?p (co_pos_map self ! ?i)) = (r, T')"
    by fastforce
  have fits: "r \<noteq> None \<Longrightarrow> has_free (co_stash self)"
    using target_found_in_tree(1) [OF inv0 assms(2) tk] assms(3) by (auto simp: access_fits_def)
  then have room: "\<not> (r \<noteq> None \<and> \<not> has_free (co_stash self))" by blast
  define stash1 where "stash1 = moved_stash r (co_stash self)"
  note move = logical_inv_move [OF inv0 assms(2) tk fits, folded stash1_def]
  note inv1 = logical_inv_D [OF move(1)]
  obtain m q where rd: "read_and_remove_target_path E (co_pos_map self ! ?i) i self =
      (Inr (), self\<lparr>co_meta_store := m, co_payload_store := q, co_stash := stash1\<rparr>)"
    and hold: "stores_hold E V ?p T' m q"
    using read_and_remove_spec [OF assms(1,2) refl tk, unfolded if_not_P [OF room]] unfolding stash1_def by blast
  define self1 where "self1 = self\<lparr>co_meta_store := m, co_payload_store := q, co_stash := stash1\<rparr>"
  have out: "access_output E i self1 = (Inr (D ! ?i), self1)"
    using move assms(2) by (intro access_output_ok) (simp_all add: self1_def)
  define pos where "pos = (co_pos_map self)[?i := l]"
  have len: "length (co_pos_map self) \<le> 2 ^ 64" "?i < length (co_pos_map self)"
    using inv(4,8) assms(2) by simp_all
  define self2 where "self2 = self1\<lparr>co_rng := rng, co_pos_map := pos\<rparr>"
  define stash2 where "stash2 = map (rewrite_block i ?v l) stash1"
  have rw: "access_rewrite E i ?v l self2 = (Inr (), self2\<lparr>co_stash := stash2\<rparr>)"
    using access_rewrite_run [of ?p self2 ?v i l] inv1(2) assms(4)
    by (simp add: self2_def self1_def stash2_def)
  note final = logical_inv_rewrite [OF move(1) assms(2) move(2) assms(4) leaf, folded stash2_def pos_def]
  have chk: "self_check_stash E (self2\<lparr>co_stash := stash2, co_schedule := s\<rparr>) =
      (Inr (), self2\<lparr>co_stash := stash2, co_schedule := s\<rparr>)" for s
    using logical_inv_D(2) [OF final]
    by (intro self_check_stash_ok) (simp add: self2_def self1_def stash_ok_def)
  have leaf_eq: "draw_leaf E self1 = (Inr l, self1\<lparr>co_rng := rng\<rparr>)"
    using assms(5) by (simp add: draw_leaf_def self1_def)
  have "access E i update self =
      (case record_access (co_schedule self) of
         (Inl e, s) \<Rightarrow> (Inl e, self2\<lparr>co_stash := stash2, co_schedule := s\<rparr>)
       | (Inr _, s) \<Rightarrow> (Inr (D ! ?i), self2\<lparr>co_stash := stash2, co_schedule := s\<rparr>))"
    using rd out rw chk leaf_eq assms(2) ct.scan_pos_map_lookup_eq [OF len]
      ct.scan_pos_map_update_eq [OF len(1), of i l]
    by (cases "record_access (co_schedule self)"; cases "fst (record_access (co_schedule self))")
      (simp_all add: access_def comp_simps self1_def [symmetric],
       simp_all add: self1_def self2_def pos_def comp_simps)
  then show ?thesis
    using hold final by (intro exI [of _ m] exI [of _ q] exI [of _ stash2])
      (auto simp: self2_def self1_def pos_def Let_def split: prod.splits sum.splits)
qed

end

end
