(* ===== verification/Circuit_Batch.thy ===== *)
theory Circuit_Batch
  imports Circuit_Correct
begin

text \<open>
  The methods of the controller that work on overlays of many paths: dummy batches, background
  eviction, and batches of accesses, which behave as the same accesses one after the other.
\<close>

section \<open>Overlays\<close>

lemma overlay_path_pages_eq:
  assumes "\<And>i. i \<in> set (concat paths) \<Longrightarrow> length (f i) = k"
  shows "overlay_path_pages paths (map (map f) paths) k = Inr (overwrite Map.empty f (concat paths))"
proof -
  define step where "step = (\<lambda>(page_idx, page) (overlay :: overlay).
    if length page \<noteq> k then Inl (InvalidInput ''path page len {} != page_size {}'')
    else case overlay page_idx of
        Some existing \<Rightarrow>
          if existing \<noteq> page then
            Inl (InvalidInput ''batch read returned inconsistent bytes for page {}'')
          else Inr overlay
      | None \<Rightarrow> Inr (overlay(page_idx \<mapsto> page)))"
  have inner: "rfoldM step (zip path (map f path)) (overwrite Map.empty f xs) =
      Inr (overwrite Map.empty f (xs @ path))" if "\<And>i. i \<in> set path \<Longrightarrow> length (f i) = k" for path xs
    using that
  proof (induction path arbitrary: xs)
    case (Cons i path)
    have "step (i, f i) (overwrite Map.empty f xs) = Inr (overwrite Map.empty f (xs @ [i]))"
      using Cons.prems by (auto simp: step_def overwrite_def fun_eq_iff)
    then show ?case using Cons.IH [of "xs @ [i]"] Cons.prems by simp
  qed simp
  have "rfoldM (\<lambda>(path, pages) overlay.
      if length path \<noteq> length pages then Inl (InvalidInput ''path length {} != page count {}'')
      else rfoldM step (zip path pages) overlay) (zip paths (map (map f) paths)) (overwrite Map.empty f xs) =
    Inr (overwrite Map.empty f (xs @ concat paths))" for xs
    using assms
  proof (induction paths arbitrary: xs)
    case (Cons path paths)
    then show ?case using inner [of path xs] Cons.IH [of "xs @ path"] by simp
  qed simp
  from this [of "[]"] show ?thesis
    unfolding overlay_path_pages_def step_def [symmetric] by (simp add: overwrite_def)
qed

lemma collect_overlay_paths_eq:
  assumes "\<And>i. i \<in> set (concat paths) \<Longrightarrow> ov i = Some (f i)"
  shows "collect_overlay_paths paths ov = Inr (map (map f) paths)"
proof -
  have "ov j = Some (f j)" if "path \<in> set paths" "j \<in> set path" for path j using assms [of j] that by auto
  then show ?thesis unfolding collect_overlay_paths_def by (intro rmapM_Inr) simp
qed

definition tree_paths :: "oram_params \<Rightarrow> nat list list \<Rightarrow> bool" where
  "tree_paths p paths \<longleftrightarrow> (\<forall>path \<in> set paths. \<exists>leaf. unat leaf < leaves p \<and> path = path_nodes p leaf)"

lemma tree_paths_map:
  "(\<And>l. l \<in> set ls \<Longrightarrow> unat l < leaves p) \<Longrightarrow> tree_paths p (map (path_nodes p) ls)"
  by (auto simp: tree_paths_def)

lemma tree_paths_root:
  "tree_paths p paths \<Longrightarrow> params_ok p \<Longrightarrow> path \<in> set paths \<Longrightarrow> root_path (bucket_count p) path"
  by (auto simp: tree_paths_def root_path_path_nodes)

lemma tree_paths_bound:
  assumes "tree_paths p paths" and "params_ok p" and "j \<in> set (concat paths)"
  shows "j < bucket_count p"
proof -
  obtain path where "path \<in> set paths" "j \<in> set path" using assms(3) by auto
  then show ?thesis using tree_paths_root [OF assms(1,2)] by (auto simp: root_path_def)
qed

context circuit_env_spec
begin

lemma read_overlays_ok:
  assumes "logical_inv p T D pos stash" and "p = co_params self" and "tree_paths p paths"
    and "stores_hold E V p T (co_meta_store self) (co_payload_store self)"
  shows "\<exists>m q ov. read_overlays E paths self = (Inr ov, self\<lparr>co_meta_store := m, co_payload_store := q\<rparr>) \<and>
    stores_hold E V p T m q \<and> overlay_holds T ov (set (concat paths))"
proof -
  note inv = logical_inv_D [OF assms(1)]
  note root = tree_paths_root [OF assms(3) inv(1)]
  have at: "bucket_at p j (T j)" if "j \<in> set (concat paths)" for j
    using tree_paths_bound [OF assms(3) inv(1) that] inv(5) by simp
  note len = tree_page_lengths [OF at]
  obtain m where m: "pp_read_paths_pages (e_meta E) paths (co_meta_store self) =
      (Inr (map (map (\<lambda>j. meta_page (T j))) paths), m)"
    "store_rep (e_meta E) (v_meta_ok V) (v_meta_pages V) (bucket_count p)
      (circuit_meta_page_bytes (bucket_size p)) (\<lambda>j. meta_page (T j)) m"
    using meta.rep_read_paths root assms(4) unfolding stores_hold_def by blast
  obtain q where q: "pp_read_paths_pages (e_payload E) paths (co_payload_store self) =
      (Inr (map (map (\<lambda>j. payload_page (T j))) paths), q)"
    "store_rep (e_payload E) (v_payload_ok V) (v_payload_pages V) (bucket_count p)
      (circuit_payload_page_bytes (bucket_size p) (block_size p)) (\<lambda>j. payload_page (T j)) q"
    using payload.rep_read_paths root assms(4) unfolding stores_hold_def by blast
  let ?ov = "(overwrite Map.empty (\<lambda>j. meta_page (T j)) (concat paths),
    overwrite Map.empty (\<lambda>j. payload_page (T j)) (concat paths))"
  have "read_overlays E paths self = (Inr ?ov, self\<lparr>co_meta_store := m, co_payload_store := q\<rparr>)"
    using m(1) q(1) overlay_path_pages_eq [OF len(1)] overlay_path_pages_eq [OF len(2)]
    by (simp add: read_overlays_def comp_simps assms(2) [symmetric])
  moreover have "overlay_holds T ?ov (set (concat paths))"
    by (simp add: overlay_holds_def overwrite_def)
  ultimately show ?thesis using m(2) q(2) by (auto simp: stores_hold_def)
qed

lemma write_overlays_ok:
  assumes "stores_hold E V p T (co_meta_store self) (co_payload_store self)" and "params_ok p"
    and "tree_paths p paths" and "overlay_holds T' ov (set (concat paths))"
    and "\<And>j. j \<in> set (concat paths) \<Longrightarrow> bucket_at p j (T' j)"
    and "\<And>j. j \<notin> set (concat paths) \<Longrightarrow> T' j = T j"
  shows "\<exists>m q. write_overlays E paths ov self = (Inr (), self\<lparr>co_meta_store := m, co_payload_store := q\<rparr>) \<and>
    stores_hold E V p T' m q"
proof -
  note root = tree_paths_root [OF assms(3,2)] and len = tree_page_lengths [OF assms(5)]
  have "\<exists>m. pp_write_paths_pages (e_meta E) paths (map (map (\<lambda>j. meta_page (T' j))) paths) (co_meta_store self) =
      (Inr (), m) \<and> store_rep (e_meta E) (v_meta_ok V) (v_meta_pages V) (bucket_count p)
        (circuit_meta_page_bytes (bucket_size p)) (\<lambda>j. meta_page (T' j)) m"
    using assms(1) root len(1) assms(6) unfolding stores_hold_def by (intro meta.rep_write_paths) auto
  moreover have "\<exists>q. pp_write_paths_pages (e_payload E) paths (map (map (\<lambda>j. payload_page (T' j))) paths)
      (co_payload_store self) = (Inr (), q) \<and>
      store_rep (e_payload E) (v_payload_ok V) (v_payload_pages V) (bucket_count p)
        (circuit_payload_page_bytes (bucket_size p) (block_size p)) (\<lambda>j. payload_page (T' j)) q"
    using assms(1) root len(2) assms(6) unfolding stores_hold_def by (intro payload.rep_write_paths) auto
  moreover have "collect_overlay_paths paths (fst ov) = Inr (map (map (\<lambda>j. meta_page (T' j))) paths)"
    "collect_overlay_paths paths (snd ov) = Inr (map (map (\<lambda>j. payload_page (T' j))) paths)"
    using assms(4) by (auto intro!: collect_overlay_paths_eq simp: overlay_holds_def)
  ultimately obtain m q where "write_overlays E paths ov self = (Inr (), self\<lparr>co_meta_store := m, co_payload_store := q\<rparr>)"
    "stores_hold E V p T' m q"
    by (auto simp: write_overlays_def stores_hold_def comp_simps)
  then show ?thesis by blast
qed

section \<open>Dummy accesses\<close>

lemma read_and_rewrite_ok:
  assumes "oram_rep E V T D self" and "unat leaf < leaves (co_params self)"
  shows "\<exists>m q. read_and_rewrite_path E leaf self =
      (Inr (), self\<lparr>co_meta_store := m, co_payload_store := q\<rparr>) \<and> stores_hold E V (co_params self) T m q"
proof -
  let ?p = "co_params self" and ?path = "path_nodes (co_params self) leaf"
  have inv0: "logical_inv ?p T D (co_pos_map self) (co_stash self)"
    and hold: "stores_hold E V ?p T (co_meta_store self) (co_payload_store self)"
    using assms(1) by (simp_all add: oram_rep_def)
  note inv = logical_inv_D [OF inv0]
  have at: "bucket_at ?p j (T j)" if "j \<in> set ?path" for j
    using path_in_tree(1) [OF inv(1) assms(2)] inv(5) that by auto
  obtain m1 q1 where rd: "pp_read_path_pages (e_meta E) ?path (co_meta_store self) =
      (Inr (map (\<lambda>j. meta_page (T j)) ?path), m1)"
    "pp_read_path_pages (e_payload E) ?path (co_payload_store self) =
      (Inr (map (\<lambda>j. payload_page (T j)) ?path), q1)" "stores_hold E V ?p T m1 q1"
    using stores_read_path [OF hold inv(1) assms(2)] by blast
  obtain m2 q2 where "pp_write_path_pages (e_meta E) ?path (map (\<lambda>j. meta_page (T j)) ?path) m1 = (Inr (), m2)"
    "pp_write_path_pages (e_payload E) ?path (map (\<lambda>j. payload_page (T j)) ?path) q1 = (Inr (), q2)"
    "stores_hold E V ?p T m2 q2"
    using stores_write_path [OF rd(3) inv(1) assms(2) at] by blast
  with rd show ?thesis
    by (intro exI [of _ m2] exI [of _ q2]) (simp add: read_and_rewrite_path_def comp_simps)
qed

lemma random_leaves_bound:
  assumes "params_ok p" and "random_leaves next_u64 p n rng = (ls, rng')"
  shows "length ls = n \<and> (\<forall>l \<in> set ls. unat l < leaves p)"
  using assms(2)
proof (induction n arbitrary: rng ls)
  case (Suc n)
  then show ?case
    using random_leaf_bound [OF assms(1)] by (fastforce split: prod.splits)
qed simp

lemma draw_paths:
  assumes "random_leaves (e_next_u64 E) (co_params self) (length xs) (co_rng self) = (ls, rng)"
  shows "cmapM (\<lambda>_. bnd (draw_leaf E) (\<lambda>leaf. ret (path_nodes (co_params self) leaf))) xs self =
    (Inr (map (path_nodes (co_params self)) ls), self\<lparr>co_rng := rng\<rparr>)"
  using assms
proof (induction xs arbitrary: self ls)
  case (Cons x xs)
  obtain l rng1 where l: "random_leaf (e_next_u64 E) (co_params self) (co_rng self) = (l, rng1)" by fastforce
  obtain ls' where ls: "random_leaves (e_next_u64 E) (co_params self) (length xs) rng1 = (ls', rng)" "ls = l # ls'"
    using Cons.prems l by (auto split: prod.splits)
  then show ?case
    using Cons.IH [of "self\<lparr>co_rng := rng1\<rparr>" ls'] l by (simp add: comp_simps draw_leaf_def)
qed (auto simp: comp_simps)

end

lemma record_accesses:
  assumes "unat (issued_accesses (co_schedule self)) + length xs < 2 ^ 64"
  shows "citer (\<lambda>_. on_schedule record_access) xs self =
    (Inr (), self\<lparr>co_schedule := (co_schedule self)
       \<lparr>issued_accesses := issued_accesses (co_schedule self) + word_of_nat (length xs)\<rparr>\<rparr>)"
  using assms
proof (induction xs arbitrary: self)
  case (Cons x xs)
  let ?s = "co_schedule self"
  let ?self = "self\<lparr>co_schedule := ?s\<lparr>issued_accesses := issued_accesses ?s + 1\<rparr>\<rparr>"
  have "record_access ?s = (Inr (), ?s\<lparr>issued_accesses := issued_accesses ?s + 1\<rparr>)"
    using Cons.prems by (intro record_access_eq) simp
  moreover have "unat (issued_accesses ?s + 1) + length xs < 2 ^ 64"
    using Cons.prems unat_word_ariths(1) [of "issued_accesses ?s" 1] by simp
  ultimately show ?case using Cons.IH [of ?self] by (simp add: comp_simps add_ac)
qed (simp add: comp_simps)

context circuit_env_spec
begin

lemma dummy_access_ok:
  assumes "oram_rep E V T D self" and "unat (issued_accesses (co_schedule self)) + 1 < 2 ^ 64"
    and "random_leaf (e_next_u64 E) (co_params self) (co_rng self) = (l, rng)"
  shows "\<exists>m q. dummy_access E self = (Inr (), self\<lparr>co_rng := rng, co_meta_store := m, co_payload_store := q,
      co_schedule := (co_schedule self)\<lparr>issued_accesses := issued_accesses (co_schedule self) + 1\<rparr>\<rparr>) \<and>
    stores_hold E V (co_params self) T m q"
proof -
  let ?self = "self\<lparr>co_rng := rng\<rparr>"
  have inv0: "logical_inv (co_params self) T D (co_pos_map self) (co_stash self)"
    using assms(1) by (simp add: oram_rep_def)
  note inv = logical_inv_D [OF inv0]
  have "oram_rep E V T D ?self" using assms(1) by (simp add: oram_rep_def)
  from read_and_rewrite_ok [OF this, of l] random_leaf_bound [OF inv(1) assms(3)]
  obtain m q where rd: "read_and_rewrite_path E l ?self =
      (Inr (), ?self\<lparr>co_meta_store := m, co_payload_store := q\<rparr>)" "stores_hold E V (co_params self) T m q"
    by auto
  have "length (co_stash self) = stash_capacity (co_params self)" using inv(2) by (simp add: stash_ok_def)
  then show ?thesis
    using rd assms(3) record_access_eq [OF assms(2)]
    by (intro exI [of _ m] exI [of _ q])
      (simp add: dummy_access_def draw_leaf_def comp_simps self_check_stash_ok)
qed

lemma dummy_access_batch_ok:
  assumes "oram_rep E V T D self" and "unat (issued_accesses (co_schedule self)) + n < 2 ^ 64"
    and "random_leaves (e_next_u64 E) (co_params self) n (co_rng self) = (ls, rng)" and "0 < n"
  shows "\<exists>m q. dummy_access_batch E n self = (Inr (), self\<lparr>co_rng := rng, co_meta_store := m, co_payload_store := q,
      co_schedule := (co_schedule self)\<lparr>issued_accesses := issued_accesses (co_schedule self) + word_of_nat n\<rparr>\<rparr>) \<and>
    stores_hold E V (co_params self) T m q"
proof -
  let ?p = "co_params self" and ?self = "self\<lparr>co_rng := rng\<rparr>"
  have inv0: "logical_inv ?p T D (co_pos_map self) (co_stash self)"
    and hold: "stores_hold E V ?p T (co_meta_store self) (co_payload_store self)"
    using assms(1) by (simp_all add: oram_rep_def)
  note inv = logical_inv_D [OF inv0]
  let ?paths = "map (path_nodes ?p) ls"
  have tp: "tree_paths ?p ?paths" using random_leaves_bound [OF inv(1) assms(3)] by (intro tree_paths_map) auto
  obtain m1 q1 ov where rd: "read_overlays E ?paths ?self =
      (Inr ov, ?self\<lparr>co_meta_store := m1, co_payload_store := q1\<rparr>)"
    "stores_hold E V ?p T m1 q1" "overlay_holds T ov (set (concat ?paths))"
    using read_overlays_ok [OF inv0, of ?self ?paths] tp hold by auto
  let ?self1 = "?self\<lparr>co_meta_store := m1, co_payload_store := q1\<rparr>"
  have at: "bucket_at ?p j (T j)" if "j \<in> set (concat ?paths)" for j
    using tree_paths_bound [OF tp inv(1) that] inv(5) by simp
  obtain m q where wr: "write_overlays E ?paths ov ?self1 =
      (Inr (), ?self1\<lparr>co_meta_store := m, co_payload_store := q\<rparr>)" "stores_hold E V ?p T m q"
    using write_overlays_ok [of ?p T ?self1 ?paths T ov] rd(2,3) inv(1) tp at by auto
  let ?self2 = "?self\<lparr>co_meta_store := m, co_payload_store := q\<rparr>"
  have rec: "citer (\<lambda>_. on_schedule record_access) [0..<n] ?self2 =
    (Inr (), ?self2\<lparr>co_schedule := (co_schedule self)
       \<lparr>issued_accesses := issued_accesses (co_schedule self) + word_of_nat n\<rparr>\<rparr>)"
    using record_accesses [of ?self2 "[0..<n]"] assms(2) by simp
  have "length (co_stash self) = stash_capacity ?p" using inv(2) by (simp add: stash_ok_def)
  then show ?thesis
    using rd(1) wr draw_paths [of self "[0..<n]" ls rng] assms(3,4) rec
    by (intro exI [of _ m] exI [of _ q])
      (simp add: dummy_access_batch_def comp_simps self_check_stash_ok)
qed

lemma flush_ok:
  assumes "oram_rep E V T D self"
  shows "\<exists>m q. oram_flush E self = (Inr (), self\<lparr>co_meta_store := m, co_payload_store := q\<rparr>) \<and>
    stores_hold E V (co_params self) T m q"
  using assms meta.rep_flush payload.rep_flush unfolding oram_rep_def stores_hold_def
  by (fastforce simp: oram_flush_def comp_simps)

section \<open>Background eviction\<close>

lemma evict_path_inv:
  assumes "logical_inv p T D pos stash" and "unat leaf < leaves p" and "path = path_nodes p leaf"
    and "overlay_holds T ov S" and "set path \<subseteq> S"
  shows "\<exists>ov' stash' T'. evict_path_in_overlays (e_ct E) p path ov stash = (Inr ov', stash') \<and>
    logical_inv p T' D pos stash' \<and> overlay_holds T' ov' S \<and> (\<forall>j. j \<notin> set path \<longrightarrow> T' j = T j) \<and>
    occupied_count stash' \<le> occupied_count stash"
proof -
  note inv = logical_inv_D [OF assms(1)]
  note tree = path_in_tree [OF inv(1) assms(2), folded assms(3)]
  have at: "bucket_at p j (T j)" if "j \<in> set path" for j using tree(1) inv(5) that by auto
  have "overlay_holds T ov (set path)" using assms(4,5) by (auto simp: overlay_holds_def)
  from ct.evict_path_spec [OF inv(1) assms(2,3) inv(2) at this] obtain ov' stash' T' where
    run: "evict_path_in_overlays (e_ct E) p path ov stash = (Inr ov', stash')"
    and ok: "stash_ok p stash'" "\<forall>j \<in> set path. bucket_at p j (T' j)" "overlay_holds T' ov' (set path)"
    and out: "\<And>j. j \<notin> set path \<Longrightarrow> T' j = T j \<and> fst ov' j = fst ov j \<and> snd ov' j = snd ov j"
    and real: "real_blocks stash' + real_blocks (concat (map T' path)) =
      real_blocks stash + real_blocks (concat (map T path))"
    and less: "size (real_blocks stash') \<le> size (real_blocks stash)"
    by blast
  have tb: "tree_blocks p T' + real_blocks (concat (map T path)) =
      tree_blocks p T + real_blocks (concat (map T' path))"
    using out by (intro tree_blocks_change tree) simp
  have "real_blocks stash' + tree_blocks p T' + real_blocks (concat (map T' path)) +
      real_blocks (concat (map T path)) =
    real_blocks stash + tree_blocks p T + real_blocks (concat (map T' path)) +
      real_blocks (concat (map T path))"
    using arg_cong2 [OF real tb, of "(+)"] by (simp add: ac_simps del: mset_concat)
  then have "real_blocks stash' + tree_blocks p T' = model_blocks pos D"
    unfolding inv(6) [symmetric] by (simp del: mset_concat)
  moreover have "bucket_at p j (T' j)" if "j < bucket_count p" for j
    using ok(2) out inv(5) that by (cases "j \<in> set path") auto
  ultimately have "logical_inv p T' D pos stash'" using assms(1) ok(1) by (simp add: logical_inv_def)
  moreover have "overlay_holds T' ov' S"
    using ok(3) assms(4) out unfolding overlay_holds_def by metis
  moreover have "occupied_count stash' \<le> occupied_count stash"
    using less by (simp flip: mset_filter)
  ultimately show ?thesis using run out by blast
qed

lemma evict_paths_inv:
  assumes "logical_inv p T D pos (co_stash self)" and "p = co_params self" and "tree_paths p paths"
    and "overlay_holds T ov S" and "set (concat paths) \<subseteq> S"
  shows "\<exists>ov' stash' T'. evict_paths E paths ov self = (Inr ov', self\<lparr>co_stash := stash'\<rparr>) \<and>
    logical_inv p T' D pos stash' \<and> overlay_holds T' ov' S \<and>
    (\<forall>j. j \<notin> set (concat paths) \<longrightarrow> T' j = T j) \<and> occupied_count stash' \<le> occupied_count (co_stash self)"
  using assms
proof (induction paths arbitrary: T ov self)
  case Nil
  then show ?case by (intro exI [of _ ov] exI [of _ "co_stash self"] exI [of _ T]) (simp add: comp_simps)
next
  case (Cons path paths)
  obtain leaf where leaf: "unat leaf < leaves p" "path = path_nodes p leaf"
    using Cons.prems(3) by (auto simp: tree_paths_def)
  have "set path \<subseteq> S" using Cons.prems(5) by simp
  from evict_path_inv [OF Cons.prems(1) leaf Cons.prems(4) this] obtain ov1 stash1 T1 where
    1: "evict_path_in_overlays (e_ct E) p path ov (co_stash self) = (Inr ov1, stash1)"
      "logical_inv p T1 D pos stash1" "overlay_holds T1 ov1 S" "\<forall>j. j \<notin> set path \<longrightarrow> T1 j = T j"
      "occupied_count stash1 \<le> occupied_count (co_stash self)"
    by blast
  let ?self = "self\<lparr>co_stash := stash1\<rparr>"
  have "\<exists>ov' stash' T'. evict_paths E paths ov1 ?self = (Inr ov', ?self\<lparr>co_stash := stash'\<rparr>) \<and>
      logical_inv p T' D pos stash' \<and> overlay_holds T' ov' S \<and>
      (\<forall>j. j \<notin> set (concat paths) \<longrightarrow> T' j = T1 j) \<and> occupied_count stash' \<le> occupied_count (co_stash ?self)"
    using 1 Cons.prems by (intro Cons.IH) (auto simp: tree_paths_def)
  then obtain ov' stash' T' where 2: "evict_paths E paths ov1 ?self = (Inr ov', self\<lparr>co_stash := stash'\<rparr>)"
    "logical_inv p T' D pos stash'" "overlay_holds T' ov' S"
    "\<forall>j. j \<notin> set (concat paths) \<longrightarrow> T' j = T1 j" "occupied_count stash' \<le> occupied_count stash1"
    by auto
  have "evict_paths E (path # paths) ov self = (Inr ov', self\<lparr>co_stash := stash'\<rparr>)"
    using 1(1) 2(1) by (simp add: comp_simps Cons.prems(2) [symmetric])
  with 1 2 show ?case by (intro exI [of _ ov'] exI [of _ stash'] exI [of _ T']) auto
qed

end

lemma complete_evictions:
  assumes "schedule_ok (co_schedule self)" and "length ls \<le> debt (co_schedule self)"
  shows "citer (\<lambda>_. bnd (on_schedule complete_one_eviction) (\<lambda>_. ret ())) ls self =
    (Inr (), self\<lparr>co_schedule := (co_schedule self)
       \<lparr>completed_evictions := completed_evictions (co_schedule self) + word_of_nat (length ls)\<rparr>\<rparr>)"
  using assms
proof (induction ls arbitrary: self)
  case (Cons l ls)
  let ?s = "co_schedule self"
  note one = complete_one_eviction_some [of ?s]
  let ?self = "self\<lparr>co_schedule := ?s\<lparr>completed_evictions := completed_evictions ?s + 1\<rparr>\<rparr>"
  have "0 < debt ?s" using Cons.prems(2) by simp
  then show ?case
    using Cons.IH [of ?self] one Cons.prems by (simp add: comp_simps add_ac)
qed (simp add: comp_simps)

context circuit_env_spec
begin

lemma drain_evictions_ok:
  assumes "oram_rep E V T D self" and "schedule_ok (co_schedule self)"
    and "n = min (unat budget) (debt (co_schedule self))"
  shows "\<exists>m q stash T'. drain_evictions E budget self = (Inr (word_of_nat n), self\<lparr>co_meta_store := m,
      co_payload_store := q, co_stash := stash, co_schedule := (co_schedule self)
        \<lparr>completed_evictions := completed_evictions (co_schedule self) + word_of_nat n\<rparr>\<rparr>) \<and>
    stores_hold E V (co_params self) T' m q \<and>
    logical_inv (co_params self) T' D (co_pos_map self) stash \<and>
    occupied_count stash \<le> occupied_count (co_stash self)"
proof -
  let ?p = "co_params self" and ?s = "co_schedule self"
  have n64: "n < 2 ^ 64" using debt_bound [OF assms(2)] assms(3) by linarith
  have "unat (min budget (word_of_nat (debt ?s))) = n"
    using debt_bound [OF assms(2)] assms(3)
    by (simp add: min_def word_le_nat_alt)
  then have mn: "min budget (word_of_nat (debt ?s)) = word_of_nat n" by (metis word_of_nat_unat_u64)
  note pend = pending_evictions_ok [OF assms(2)]
  show ?thesis
  proof (cases "n = 0")
    case True
    then show ?thesis
      using assms(1) pend mn
      by (intro exI [of _ "co_meta_store self"] exI [of _ "co_payload_store self"] exI [of _ "co_stash self"] exI [of _ T])
        (simp add: drain_evictions_def comp_simps Let_def oram_rep_def)
  next
    case False
    then have n0: "(word_of_nat n :: u64) \<noteq> 0"
      using n64 unat_word_of_nat_u64 [OF n64] by (metis unat_0)
    have inv0: "logical_inv ?p T D (co_pos_map self) (co_stash self)"
      and hold: "stores_hold E V ?p T (co_meta_store self) (co_payload_store self)"
      using assms(1) by (simp_all add: oram_rep_def)
    note inv = logical_inv_D [OF inv0]
    define ls where "ls = map (\<lambda>k. eviction_leaf_at ?p (completed_evictions ?s + word_of_nat k)) [0..<n]"
    let ?paths = "map (path_nodes ?p) ls"
    have tp: "tree_paths ?p ?paths"
      using eviction_leaf_in_range [OF inv(1)] by (intro tree_paths_map) (auto simp: ls_def)
    obtain m1 q1 ov where rd: "read_overlays E ?paths self =
        (Inr ov, self\<lparr>co_meta_store := m1, co_payload_store := q1\<rparr>)"
      "stores_hold E V ?p T m1 q1" "overlay_holds T ov (set (concat ?paths))"
      using read_overlays_ok [OF inv0 refl tp hold] by blast
    let ?self1 = "self\<lparr>co_meta_store := m1, co_payload_store := q1\<rparr>"
    have same: "logical_inv ?p T D (co_pos_map self) (co_stash ?self1)" "?p = co_params ?self1"
      using inv0 by simp_all
    obtain ov' stash T' where ev: "evict_paths E ?paths ov ?self1 = (Inr ov', ?self1\<lparr>co_stash := stash\<rparr>)"
      "logical_inv ?p T' D (co_pos_map self) stash" "overlay_holds T' ov' (set (concat ?paths))"
      "\<forall>j. j \<notin> set (concat ?paths) \<longrightarrow> T' j = T j" "occupied_count stash \<le> occupied_count (co_stash ?self1)"
      using evict_paths_inv [OF same(1,2) tp rd(3) order_refl] by blast
    note inv' = logical_inv_D [OF ev(2)]
    let ?self2 = "?self1\<lparr>co_stash := stash\<rparr>"
    have at: "bucket_at ?p j (T' j)" if "j \<in> set (concat ?paths)" for j
      using tree_paths_bound [OF tp inv(1) that] inv'(5) by simp
    have same2: "stores_hold E V ?p T (co_meta_store ?self2) (co_payload_store ?self2)" using rd(2) by simp
    obtain m q where wr: "write_overlays E ?paths ov' ?self2 =
        (Inr (), ?self2\<lparr>co_meta_store := m, co_payload_store := q\<rparr>)" "stores_hold E V ?p T' m q"
      using write_overlays_ok [OF same2 inv(1) tp ev(3) at ev(4) [rule_format]] by blast
    let ?self3 = "?self2\<lparr>co_meta_store := m, co_payload_store := q\<rparr>"
    let ?self4 = "?self3\<lparr>co_schedule := ?s\<lparr>completed_evictions := completed_evictions ?s + word_of_nat n\<rparr>\<rparr>"
    have cmp: "citer (\<lambda>_. bnd (on_schedule complete_one_eviction) (\<lambda>_. ret ())) ls ?self3 = (Inr (), ?self4)"
      using complete_evictions [of ?self3 ls] assms(2,3) by (simp add: ls_def)
    have "length stash = stash_capacity ?p" using inv'(2) by (simp add: stash_ok_def)
    then have chk: "self_check_stash E ?self4 = (Inr (), ?self4)" by (intro self_check_stash_ok) simp
    have "map (\<lambda>offset. eviction_leaf_at ?p (completed_evictions ?s + word_of_nat offset))
        [0..<unat (word_of_nat n :: u64)] = ls"
      using n64 by (simp add: ls_def)
    then have "drain_evictions E budget self = (Inr (word_of_nat n), ?self4)"
      unfolding drain_evictions_def
      by (simp only: comp_simps pend Let_def mn n0 if_False rd(1) ev(1) wr(1) cmp chk)
    then show ?thesis
      using wr(2) ev(2,5) by (intro exI [of _ m] exI [of _ q] exI [of _ stash] exI [of _ T']) simp
  qed
qed

end

section \<open>Batches of accesses\<close>

text \<open>The specification: the accesses of the batch on the array, one after the other.\<close>

fun batch_spec ::
  "('f \<Rightarrow> u64 \<Rightarrow> bytes \<Rightarrow> bytes \<times> 'f) \<Rightarrow> u64 list \<Rightarrow> 'f \<Rightarrow> bytes list \<Rightarrow> bytes list \<times> bytes list" where
  "batch_spec update [] f D = ([], D)"
| "batch_spec update (i # ids) f D =
     (let d = D ! unat i;
          (v, f) = update f i d;
          (outputs, D) = batch_spec update ids f (D[unat i := v])
      in (d # outputs, D))"

text \<open>The leaves the accesses of a batch read, with the remaps of the earlier ones.\<close>

fun batch_leaves :: "u64 list \<Rightarrow> u32 list \<Rightarrow> u32 list \<Rightarrow> u32 list" where
  "batch_leaves (i # ids) (l # ls) pos = pos ! unat i # batch_leaves ids ls (pos[unat i := l])"
| "batch_leaves _ _ pos = []"

lemma batch_leaves_nth:
  assumes "length ls = length ids"
  shows "length (batch_leaves ids ls pos) = length ids \<and>
    (\<forall>k < length ids. batch_leaves ids ls pos ! k = remap (take k ids) (take k ls) pos ! unat (ids ! k))"
  using assms
proof (induction ids ls pos rule: batch_leaves.induct)
  case (1 i ids l ls pos)
  then show ?case by (auto simp: nth_Cons split: nat.split)
qed auto

lemma remap_bound:
  assumes "\<forall>l \<in> set pos. P l" and "\<forall>l \<in> set ls. P l"
  shows "\<forall>l \<in> set (remap ids ls pos). P l"
  using assms
proof (induction ids arbitrary: ls pos)
  case (Cons i ids)
  show ?case
  proof (cases ls)
    case Nil
    then show ?thesis using Cons.prems by (simp add: remap_def)
  next
    case (Cons l ls')
    have "\<forall>l \<in> set (pos[unat i := l]). P l"
      using Cons.prems Cons by (auto dest!: subsetD [OF set_update_subset_insert])
    then show ?thesis using Cons.IH [of "pos[unat i := l]" ls'] Cons.prems Cons by simp
  qed
qed simp

lemma batch_leaves_bound:
  assumes "\<forall>l \<in> set pos. P l" and "\<forall>l \<in> set ls. P l" and "\<And>i. i \<in> set ids \<Longrightarrow> unat i < length pos"
  shows "\<forall>l \<in> set (batch_leaves ids ls pos). P l"
  using assms
proof (induction ids ls pos rule: batch_leaves.induct)
  case (1 i ids l ls pos)
  have "\<forall>l \<in> set (pos[unat i := l]). P l"
    using "1.prems"(1,2) by (auto dest!: subsetD [OF set_update_subset_insert])
  with 1 show ?case by simp
qed auto

text \<open>The stash never holds more than the logical blocks.\<close>

lemma occupied_bound:
  assumes "logical_inv p T D pos stash"
  shows "occupied_count stash \<le> logical_blocks p"
proof -
  have "size (real_blocks stash) \<le> size (model_blocks pos D)"
    unfolding logical_inv_D(6) [OF assms, symmetric] by simp
  then show ?thesis using logical_inv_D(3) [OF assms] by (simp add: model_blocks_def flip: mset_filter)
qed

lemma occupied_moved: "occupied_count (moved_stash r stash) \<le> Suc (occupied_count stash)"
proof -
  have "occupied_count (stash_put b stash) \<le> Suc (occupied_count stash)" for b
    by (induction stash) auto
  then show ?thesis by (simp add: moved_stash_def split: option.split)
qed

lemma occupied_rewrite: "occupied_count (map (rewrite_block i v l) stash) = occupied_count stash"
  by (induction stash) (auto simp: rewrite_block_def)

context subtle_spec
begin

lemma batch_access_leaves_eq:
  assumes "length ls = length ids" and "\<And>i. i \<in> set ids \<Longrightarrow> unat i < length pos"
  shows "batch_access_leaves sb ids (map (\<lambda>i. pos ! unat i) ids) ls = batch_leaves ids ls pos"
proof (rule nth_equalityI)
  have inner: "length (fold (\<lambda>j acc. acc[i := f acc j]) js acc) = length acc" for i js f and acc :: "u32 list"
    by (induction js arbitrary: acc) simp_all
  have "length (fold (\<lambda>i acc. fold (\<lambda>j acc. acc[i := f i acc j]) [0..<i] acc) is old) = length old"
    for "is" f and old :: "u32 list"
    by (induction "is" arbitrary: old) (simp_all add: inner)
  then have len: "length (batch_access_leaves sb ids old ls) = length old" for old
    unfolding batch_access_leaves_def .
  then show "length (batch_access_leaves sb ids (map (\<lambda>i. pos ! unat i) ids) ls) = length (batch_leaves ids ls pos)"
    using batch_leaves_nth [OF assms(1), of pos] by simp
  fix k
  assume "k < length (batch_access_leaves sb ids (map (\<lambda>i. pos ! unat i) ids) ls)"
  then have k: "k < length ids" using len by simp
  then show "batch_access_leaves sb ids (map (\<lambda>i. pos ! unat i) ids) ls ! k = batch_leaves ids ls pos ! k"
    using batch_access_leaves_remap [OF assms(1) k] assms(2) nth_mem [OF k] batch_leaves_nth [OF assms(1), of pos]
    by simp
qed

end

context circuit_env_spec
begin

lemma remove_target_from_overlays_ok:
  assumes "logical_inv p T D pos (co_stash self)" and "unat i < logical_blocks p" and "p = co_params self"
    and "take_path (block_size p) i T (path_nodes p (pos ! unat i)) = (r, T')"
    and "r \<noteq> None \<Longrightarrow> has_free (co_stash self)"
    and "overlay_holds T ov S" and "set (path_nodes p (pos ! unat i)) \<subseteq> S"
  shows "\<exists>ov'. remove_target_from_overlays E (path_nodes p (pos ! unat i)) i ov self =
      (Inr ov', self\<lparr>co_stash := moved_stash r (co_stash self)\<rparr>) \<and> overlay_holds T' ov' S"
proof -
  let ?path = "path_nodes p (pos ! unat i)"
  note inv = logical_inv_D [OF assms(1)]
  have leaf: "unat (pos ! unat i) < leaves p" "length (D ! unat i) = block_size p"
    using inv(9) assms(2) by simp_all
  note path = path_in_tree [OF inv(1) leaf(1)]
  have at: "bucket_at p j (T j)" if "j \<in> set ?path" for j using path(1) inv(5) that by auto
  note tp = take_path_props [OF assms(4) at]
  have r: "b_occupied b \<and> length (b_payload b) = block_size p" if "r = Some b" for b
    using target_found_in_tree(2) [OF assms(1,2,4)] leaf(2) that by auto
  obtain rem where rm: "remove_target_pages (e_ct E) p i (map (\<lambda>j. meta_page (T j)) ?path)
      (map (\<lambda>j. payload_page (T j)) ?path) (dummy (block_size p)) (choice_from_bool (e_ct E) False) =
    Inr (map (\<lambda>j. meta_page (T' j)) ?path, map (\<lambda>j. payload_page (T' j)) ?path,
      (case r of None \<Rightarrow> dummy (block_size p) | Some b \<Rightarrow> b), rem)"
    using ct.remove_target_pages_spec [OF path(2) at inv(7), of "dummy (block_size p)"
        "choice_from_bool (e_ct E) False" i r T'] assms(4)
    by (auto simp: ct_simps)
  have holds: "fst ov j = Some (meta_page (T j)) \<and> snd ov j = Some (payload_page (T j))" if "j \<in> set ?path" for j
    using assms(6,7) that by (auto simp: overlay_holds_def)
  let ?ov = "(overwrite (fst ov) (\<lambda>j. meta_page (T' j)) ?path, overwrite (snd ov) (\<lambda>j. payload_page (T' j)) ?path)"
  have pages: "rfoldM (remove_target_overlay_page (e_ct E) p i) ?path
      (fst ov, snd ov, dummy (block_size p), choice_from_bool (e_ct E) False) =
    Inr (fst ?ov, snd ?ov, (case r of None \<Rightarrow> dummy (block_size p) | Some b \<Rightarrow> b), rem)"
    by (subst remove_target_overlay_pages [OF path(2) holds]) (simp_all add: rm map_upds_map)
  have room: "\<not> (r \<noteq> None \<and> \<not> has_free (co_stash self))" using assms(5) by blast
  have ins: "insert_into_stash (e_ct E) p (case r of None \<Rightarrow> dummy (block_size p) | Some b \<Rightarrow> b) (co_stash self) =
      (Inr (), moved_stash r (co_stash self))"
    using insert_moved [of p "co_stash self" r] inv(2) r unfolding if_not_P [OF room] by blast
  have "remove_target_from_overlays E ?path i ov self =
      (Inr ?ov, self\<lparr>co_stash := moved_stash r (co_stash self)\<rparr>)"
    unfolding remove_target_from_overlays_def using ins
    by (simp add: comp_simps assms(3) [symmetric] pages [simplified])
  moreover have "overlay_holds T' ?ov S"
    using assms(6) tp unfolding overlay_holds_def overwrite_def by auto
  ultimately show ?thesis by blast
qed

text \<open>One access of the batch.\<close>

lemma batch_step:
  assumes "logical_inv p T D pos (co_stash self)" and "unat i < logical_blocks p" and "p = co_params self"
    and "has_free (co_stash self)" and "overlay_holds T ov S" and "set (path_nodes p (pos ! unat i)) \<subseteq> S"
    and "length v = block_size p" and "unat l < leaves p"
    and "unat (issued_accesses (co_schedule self)) + 1 < 2 ^ 64"
  shows "\<exists>ov' stash1 stash T' self'.
    remove_target_from_overlays E (path_nodes p (pos ! unat i)) i ov self = (Inr ov', self\<lparr>co_stash := stash1\<rparr>) \<and>
    access_output E i (self\<lparr>co_stash := stash1\<rparr>) = (Inr (D ! unat i), self\<lparr>co_stash := stash1\<rparr>) \<and>
    access_rewrite E i v l (self\<lparr>co_stash := stash1\<rparr>) = (Inr (), self\<lparr>co_stash := stash\<rparr>) \<and>
    on_schedule record_access (self\<lparr>co_stash := stash\<rparr>) = (Inr (), self') \<and>
    self' = self\<lparr>co_stash := stash, co_schedule := (co_schedule self)
      \<lparr>issued_accesses := issued_accesses (co_schedule self) + 1\<rparr>\<rparr> \<and>
    logical_inv p T' (D[unat i := v]) (pos[unat i := l]) stash \<and> overlay_holds T' ov' S \<and>
    (\<forall>j. j \<notin> set (path_nodes p (pos ! unat i)) \<longrightarrow> T' j = T j) \<and>
    occupied_count stash \<le> Suc (occupied_count (co_stash self))"
proof -
  obtain r T' where tk: "take_path (block_size p) i T (path_nodes p (pos ! unat i)) = (r, T')" by fastforce
  note inv = logical_inv_D [OF assms(1)]
  have leaf: "unat (pos ! unat i) < leaves p" using inv(9) assms(2) by simp
  have at: "bucket_at p j (T j)" if "j \<in> set (path_nodes p (pos ! unat i))" for j
    using path_in_tree(1) [OF inv(1) leaf] inv(5) that by auto
  define stash1 where "stash1 = moved_stash r (co_stash self)"
  note move = logical_inv_move [OF assms(1,2) tk assms(4), folded stash1_def]
  define self1 where "self1 = self\<lparr>co_stash := stash1\<rparr>"
  define stash where "stash = map (rewrite_block i v l) stash1"
  obtain ov' where rm: "remove_target_from_overlays E (path_nodes p (pos ! unat i)) i ov self = (Inr ov', self1)"
    "overlay_holds T' ov' S"
    using remove_target_from_overlays_ok [OF assms(1-3) tk assms(4-6)] unfolding self1_def stash1_def by blast
  have out: "access_output E i self1 = (Inr (D ! unat i), self1)"
    using move assms(2,3) by (intro access_output_ok) (simp_all add: self1_def)
  have rw: "access_rewrite E i v l self1 = (Inr (), self\<lparr>co_stash := stash\<rparr>)"
    using access_rewrite_run [of p self1 v i l] logical_inv_D(2) [OF move(1)] assms(7)
    by (simp add: self1_def stash_def)
  have rec: "on_schedule record_access (self\<lparr>co_stash := stash\<rparr>) = (Inr (), self\<lparr>co_stash := stash,
      co_schedule := (co_schedule self)\<lparr>issued_accesses := issued_accesses (co_schedule self) + 1\<rparr>\<rparr>)"
    using record_access_eq [OF assms(9)] by (simp add: comp_simps)
  have occ: "occupied_count stash \<le> Suc (occupied_count (co_stash self))"
    unfolding stash_def stash1_def occupied_rewrite by (rule occupied_moved)
  have "\<forall>j. j \<notin> set (path_nodes p (pos ! unat i)) \<longrightarrow> T' j = T j"
    using take_path_props [OF tk at] by blast
  with rm out rw rec occ logical_inv_rewrite [OF move(1) assms(2) move(2) assms(7,8), folded stash_def]
  show ?thesis unfolding self1_def by blast
qed

lemma batch_loop_ok:
  assumes "logical_inv p T D pos (co_stash self)" and "p = co_params self" and "length ls = length ids"
    and "\<And>i. i \<in> set ids \<Longrightarrow> unat i < logical_blocks p" and "\<And>l. l \<in> set ls \<Longrightarrow> unat l < leaves p"
    and "occupied_count (co_stash self) + length ids \<le> stash_capacity p \<or> logical_blocks p < stash_capacity p"
    and "\<And>f i d. length d = block_size p \<Longrightarrow> length (fst (update f i d)) = block_size p"
    and "unat (issued_accesses (co_schedule self)) + length ids < 2 ^ 64"
    and "overlay_holds T ov S" and "set (concat (map (path_nodes p) (batch_leaves ids ls pos))) \<subseteq> S"
  shows "\<exists>f' ov' stash T'.
    batch_loop E update (zip ids (zip ls (map (path_nodes p) (batch_leaves ids ls pos)))) f ov self =
      (Inr (fst (batch_spec update ids f D), f', ov'), self\<lparr>co_stash := stash, co_schedule := (co_schedule self)
        \<lparr>issued_accesses := issued_accesses (co_schedule self) + word_of_nat (length ids)\<rparr>\<rparr>) \<and>
    logical_inv p T' (snd (batch_spec update ids f D)) (remap ids ls pos) stash \<and> overlay_holds T' ov' S \<and>
    (\<forall>j. j \<notin> set (concat (map (path_nodes p) (batch_leaves ids ls pos))) \<longrightarrow> T' j = T j)"
  using assms
proof (induction ids arbitrary: ls pos T D ov f self)
  case Nil
  then show ?case
    by (intro exI [of _ f] exI [of _ ov] exI [of _ "co_stash self"] exI [of _ T]) (simp add: comp_simps)
next
  case (Cons i ids)
  obtain l ls' where ls: "ls = l # ls'" "length ls' = length ids" using Cons.prems(3) by (cases ls) auto
  note inv = logical_inv_D [OF Cons.prems(1)]
  let ?path = "path_nodes p (pos ! unat i)"
  obtain v f1 where v: "update f i (D ! unat i) = (v, f1)" by fastforce
  have i: "unat i < logical_blocks p" using Cons.prems(4) by simp
  have "length v = block_size p" using Cons.prems(7) [of "D ! unat i" f i] inv(9) [OF i] v by simp
  moreover have "has_free (co_stash self)"
    using Cons.prems(6) inv(2) occupied_bound [OF Cons.prems(1)] by (auto simp: has_free_iff stash_ok_def)
  moreover have path: "set ?path \<subseteq> S" using Cons.prems(10) ls by simp
  moreover have "unat l < leaves p" using Cons.prems(5) ls by simp
  moreover have "unat (issued_accesses (co_schedule self)) + 1 < 2 ^ 64" using Cons.prems(8) by simp
  ultimately obtain ov1 stash1 stash2 T1 self1 where st:
    "remove_target_from_overlays E ?path i ov self = (Inr ov1, self\<lparr>co_stash := stash1\<rparr>)"
    "access_output E i (self\<lparr>co_stash := stash1\<rparr>) = (Inr (D ! unat i), self\<lparr>co_stash := stash1\<rparr>)"
    "access_rewrite E i v l (self\<lparr>co_stash := stash1\<rparr>) = (Inr (), self\<lparr>co_stash := stash2\<rparr>)"
    "on_schedule record_access (self\<lparr>co_stash := stash2\<rparr>) = (Inr (), self1)"
    and self1: "self1 = self\<lparr>co_stash := stash2, co_schedule := (co_schedule self)
      \<lparr>issued_accesses := issued_accesses (co_schedule self) + 1\<rparr>\<rparr>"
    and inv1: "logical_inv p T1 (D[unat i := v]) (pos[unat i := l]) stash2" "overlay_holds T1 ov1 S"
      "\<forall>j. j \<notin> set ?path \<longrightarrow> T1 j = T j" "occupied_count stash2 \<le> Suc (occupied_count (co_stash self))"
    using batch_step [OF Cons.prems(1) i Cons.prems(2) _ Cons.prems(9)] by blast
  let ?s = "co_schedule self" and ?rest = "map (path_nodes p) (batch_leaves ids ls' (pos[unat i := l]))"
  have "unat (issued_accesses ?s + 1) + length ids < 2 ^ 64"
    using Cons.prems(8) unat_word_ariths(1) [of "issued_accesses ?s" 1] by simp
  then have "\<exists>f' ov' stash T'. batch_loop E update (zip ids (zip ls' ?rest)) f1 ov1 self1 =
      (Inr (fst (batch_spec update ids f1 (D[unat i := v])), f', ov'), self1\<lparr>co_stash := stash,
        co_schedule := (co_schedule self1)
          \<lparr>issued_accesses := issued_accesses (co_schedule self1) + word_of_nat (length ids)\<rparr>\<rparr>) \<and>
    logical_inv p T' (snd (batch_spec update ids f1 (D[unat i := v]))) (remap ids ls' (pos[unat i := l])) stash \<and>
    overlay_holds T' ov' S \<and> (\<forall>j. j \<notin> set (concat ?rest) \<longrightarrow> T' j = T1 j)"
    using inv1 Cons.prems ls by (intro Cons.IH) (auto simp: self1)
  then obtain f' ov' stash T' where rest: "batch_loop E update (zip ids (zip ls' ?rest)) f1 ov1 self1 =
      (Inr (fst (batch_spec update ids f1 (D[unat i := v])), f', ov'), self1\<lparr>co_stash := stash,
        co_schedule := (co_schedule self1)
          \<lparr>issued_accesses := issued_accesses (co_schedule self1) + word_of_nat (length ids)\<rparr>\<rparr>)"
    and inv2: "logical_inv p T' (snd (batch_spec update ids f1 (D[unat i := v]))) (remap ids ls' (pos[unat i := l])) stash"
      "overlay_holds T' ov' S" "\<forall>j. j \<notin> set (concat ?rest) \<longrightarrow> T' j = T1 j"
    by blast
  have "batch_loop E update (zip (i # ids) (zip ls (map (path_nodes p) (batch_leaves (i # ids) ls pos)))) f ov self =
      (Inr (fst (batch_spec update (i # ids) f D), f', ov'), self\<lparr>co_stash := stash, co_schedule := ?s
        \<lparr>issued_accesses := issued_accesses ?s + word_of_nat (length (i # ids))\<rparr>\<rparr>)"
    using rest by (simp add: ls(1) st v comp_simps Let_def split_beta) (simp add: self1 add_ac)
  moreover have "snd (batch_spec update (i # ids) f D) = snd (batch_spec update ids f1 (D[unat i := v]))"
    by (simp add: v Let_def split_beta)
  ultimately show ?case using inv1(3) inv2 by (intro exI conjI) (assumption | auto simp: ls(1))+
qed

lemma access_batch_ok:
  assumes "oram_rep E V T D self" and "p = co_params self" and "ids \<noteq> []"
    and "\<And>i. i \<in> set ids \<Longrightarrow> unat i < logical_blocks p"
    and "occupied_count (co_stash self) + length ids \<le> stash_capacity p \<or> logical_blocks p < stash_capacity p"
    and "\<And>f i d. length d = block_size p \<Longrightarrow> length (fst (update f i d)) = block_size p"
    and "unat (issued_accesses (co_schedule self)) + length ids < 2 ^ 64"
    and "random_leaves (e_next_u64 E) p (length ids) (co_rng self) = (ls, rng)"
  shows "\<exists>m q stash T'. access_batch E ids update f self =
      (Inr (fst (batch_spec update ids f D)), self\<lparr>co_meta_store := m, co_payload_store := q, co_stash := stash,
        co_schedule := (co_schedule self)
          \<lparr>issued_accesses := issued_accesses (co_schedule self) + word_of_nat (length ids)\<rparr>,
        co_pos_map := remap ids ls (co_pos_map self), co_rng := rng\<rparr>) \<and>
    stores_hold E V p T' m q \<and>
    logical_inv p T' (snd (batch_spec update ids f D)) (remap ids ls (co_pos_map self)) stash"
proof -
  have inv0: "logical_inv p T D (co_pos_map self) (co_stash self)"
    and hold: "stores_hold E V p T (co_meta_store self) (co_payload_store self)"
    using assms(1,2) by (simp_all add: oram_rep_def)
  note inv = logical_inv_D [OF inv0]
  have ls: "length ls = length ids" "\<forall>l \<in> set ls. unat l < leaves p"
    using random_leaves_bound [OF inv(1) assms(8)] by auto
  have ids: "unat i < length (co_pos_map self)" if "i \<in> set ids" for i using assms(4) inv(4) that by simp
  have pos64: "length (co_pos_map self) \<le> 2 ^ 64" using inv(4,8) by simp
  have pos: "\<forall>l \<in> set (co_pos_map self). unat l < leaves p" using inv0 by (simp add: logical_inv_def)
  define acc where "acc = batch_leaves ids ls (co_pos_map self)"
  define paths where "paths = map (path_nodes p) acc"
  have tp: "tree_paths p paths"
    unfolding paths_def using batch_leaves_bound [OF pos ls(2) ids] by (intro tree_paths_map) (simp add: acc_def)
  obtain m1 q1 ov where rd: "read_overlays E paths self =
      (Inr ov, self\<lparr>co_meta_store := m1, co_payload_store := q1\<rparr>)"
    "stores_hold E V p T m1 q1" "overlay_holds T ov (set (concat paths))"
    using read_overlays_ok [OF inv0 assms(2) tp hold] by blast
  let ?self1 = "self\<lparr>co_meta_store := m1, co_payload_store := q1\<rparr>" and ?spec = "batch_spec update ids f D"
  have "\<exists>f' ov' stash T'. batch_loop E update (zip ids (zip ls paths)) f ov ?self1 =
      (Inr (fst ?spec, f', ov'), ?self1\<lparr>co_stash := stash, co_schedule := (co_schedule ?self1)
        \<lparr>issued_accesses := issued_accesses (co_schedule ?self1) + word_of_nat (length ids)\<rparr>\<rparr>) \<and>
    logical_inv p T' (snd ?spec) (remap ids ls (co_pos_map self)) stash \<and>
    overlay_holds T' ov' (set (concat paths)) \<and> (\<forall>j. j \<notin> set (concat paths) \<longrightarrow> T' j = T j)"
    unfolding paths_def acc_def
    by (rule batch_loop_ok) (use inv0 assms ls rd(3) in \<open>simp_all add: paths_def acc_def\<close>)
  then obtain f' ov' stash T' where loop: "batch_loop E update (zip ids (zip ls paths)) f ov ?self1 =
      (Inr (fst ?spec, f', ov'), ?self1\<lparr>co_stash := stash, co_schedule := (co_schedule ?self1)
        \<lparr>issued_accesses := issued_accesses (co_schedule ?self1) + word_of_nat (length ids)\<rparr>\<rparr>)"
    and inv1: "logical_inv p T' (snd ?spec) (remap ids ls (co_pos_map self)) stash"
      "overlay_holds T' ov' (set (concat paths))" "\<forall>j. j \<notin> set (concat paths) \<longrightarrow> T' j = T j"
    by blast
  define self2 where "self2 = self\<lparr>co_meta_store := m1, co_payload_store := q1, co_stash := stash,
    co_schedule := (co_schedule self)\<lparr>issued_accesses := issued_accesses (co_schedule self) + word_of_nat (length ids)\<rparr>,
    co_pos_map := remap ids ls (co_pos_map self), co_rng := rng\<rparr>"
  have hold2: "stores_hold E V p T (co_meta_store self2) (co_payload_store self2)"
    using rd(2) by (simp add: self2_def)
  have at: "bucket_at p j (T' j)" if "j \<in> set (concat paths)" for j
    using tree_paths_bound [OF tp inv(1) that] logical_inv_D(5) [OF inv1(1)] by simp
  obtain m q where wr: "write_overlays E paths ov' self2 =
      (Inr (), self2\<lparr>co_meta_store := m, co_payload_store := q\<rparr>)" "stores_hold E V p T' m q"
    using write_overlays_ok [OF hold2 inv(1) tp inv1(2) at inv1(3) [rule_format]] by blast
  let ?self3 = "self2\<lparr>co_meta_store := m, co_payload_store := q\<rparr>"
  have "length stash = stash_capacity p" using logical_inv_D(2) [OF inv1(1)] by (simp add: stash_ok_def)
  then have chk: "self_check_stash E ?self3 = (Inr (), ?self3)"
    using assms(2) by (intro self_check_stash_ok) (simp add: self2_def)
  have rng: "citer (\<lambda>i. require (unat i < logical_blocks p) (InvalidInput ''logical_id {logical_id} out of range''))
      ids self = (Inr (), self)"
    using assms(4) by (rule citer_require_all)
  have leaves: "scan_pos_map_lookup_batch (e_ct E) (co_pos_map self) ids = map (\<lambda>i. co_pos_map self ! unat i) ids"
    "batch_access_leaves (e_ct E) ids (map (\<lambda>i. co_pos_map self ! unat i) ids) ls = acc"
    using ct.scan_pos_map_lookup_batch_eq [OF pos64 ids] ct.batch_access_leaves_eq [OF ls(1) ids]
    by (simp_all add: acc_def)
  have upd: "self\<lparr>co_meta_store := m1, co_payload_store := q1, co_stash := stash, co_schedule := s,
      co_pos_map := scan_pos_map_update_batch (e_ct E) (co_pos_map self) ids ls, co_rng := rng\<rparr> =
    self\<lparr>co_meta_store := m1, co_payload_store := q1, co_stash := stash, co_schedule := s,
      co_pos_map := remap ids ls (co_pos_map self), co_rng := rng\<rparr>" for s
    by (simp add: ct.scan_pos_map_update_batch_eq [OF pos64])
  have "access_batch E ids update f self = (Inr (fst ?spec), ?self3)"
    unfolding access_batch_def using assms(3) wr(1) chk
    by (simp add: comp_simps rng leaves assms(8) rd(1) loop Let_def assms(2) [symmetric] paths_def [symmetric])
      (simp add: upd self2_def [symmetric] comp_simps)
  then show ?thesis
    using wr(2) inv1(1) by (intro exI [of _ m] exI [of _ q] exI [of _ stash] exI [of _ T']) (simp add: self2_def)
qed

end

end
