(* ===== verification/Circuit_Build.thy ===== *)
theory Circuit_Build
  imports Circuit_Batch
begin

text \<open>
  Building a controller from trusted blocks, and reopening one from a snapshot (src/src/circuit.rs):
  \<open>build_trusted\<close>, \<open>build_trusted_from_iter\<close>, \<open>build_trusted_from_source\<close> and their helpers, the
  validation functions, \<open>from_state\<close>, \<open>snapshot\<close> and the authentication state of the stores. A
  finished build satisfies the invariant of the controller for the array of source blocks, and a
  controller reopened from its own snapshot is the same controller.
\<close>

section \<open>Block sources\<close>

record 's block_source =
  bs_logical_blocks :: "'s \<Rightarrow> nat"
  bs_block_size :: "'s \<Rightarrow> nat"
  bs_read_block :: "nat \<Rightarrow> ('s, bytes) comp"

record vec_block_source =
  vb_blocks :: "bytes list"
  vb_block_size :: nat

definition vec_source_new :: "bytes list \<Rightarrow> nat \<Rightarrow> vec_block_source" where
  "vec_source_new blocks block_size' = \<lparr>vb_blocks = blocks, vb_block_size = block_size'\<rparr>"

definition vec_read_block :: "nat \<Rightarrow> (vec_block_source, bytes) comp" where
  "vec_read_block logical_id =
     bnd (gets vb_blocks) (\<lambda>blocks.
       if logical_id < length blocks then ret (blocks ! logical_id)
       else fail (InvalidInput ''logical block {} out of range {}''))"

definition vec_source_ops :: "vec_block_source block_source" where
  "vec_source_ops =
     \<lparr>bs_logical_blocks = (\<lambda>s. length (vb_blocks s)), bs_block_size = vb_block_size,
      bs_read_block = vec_read_block\<rparr>"

definition read_source_block :: "oram_params \<Rightarrow> 's block_source \<Rightarrow> nat \<Rightarrow> ('s, bytes) comp" where
  "read_source_block p src logical_id =
     bnd (bs_read_block src logical_id) (\<lambda>payload.
     bnd (require (length payload = block_size p)
            (InvalidInput ''source payload for logical block {} has {} bytes, expected {}'')) (\<lambda>_.
     ret payload))"

section \<open>Validation\<close>

definition validate_circuit_stores ::
  "oram_params \<Rightarrow> 'm path_page_store \<Rightarrow> 'm \<Rightarrow> 'p path_page_store \<Rightarrow> 'p \<Rightarrow> unit result" where
  "validate_circuit_stores p meta_ops meta_store payload_ops payload_store =
     (if pp_page_count meta_ops meta_store \<noteq> bucket_count p then
        Inl (InvalidInput ''metadata store has {} pages, expected {}'')
      else if pp_page_size meta_ops meta_store \<noteq> circuit_meta_page_bytes (bucket_size p) then
        Inl (InvalidInput ''metadata page_size {} != expected {}'')
      else if pp_page_count payload_ops payload_store \<noteq> bucket_count p then
        Inl (InvalidInput ''payload store has {} pages, expected {}'')
      else if pp_page_size payload_ops payload_store \<noteq> circuit_payload_page_bytes (bucket_size p) (block_size p) then
        Inl (InvalidInput ''payload page_size {} != expected {}'')
      else Inr ())"

definition validate_block_source :: "oram_params \<Rightarrow> 's block_source \<Rightarrow> 's \<Rightarrow> unit result" where
  "validate_block_source p src s =
     (if bs_logical_blocks src s \<noteq> logical_blocks p then
        Inl (InvalidInput ''block source has {} logical blocks, expected {}'')
      else if bs_block_size src s \<noteq> block_size p then
        Inl (InvalidInput ''block source block_size {} != expected {}'')
      else Inr ())"

definition validate_circuit_state :: "oram_params \<Rightarrow> u32 list \<Rightarrow> oram_block list \<Rightarrow> schedule \<Rightarrow> unit result" where
  "validate_circuit_state p pos_map stash sched =
     (if length pos_map \<noteq> logical_blocks p then Inl (InvalidInput ''pos_map len {} != logical_blocks {}'')
      else
        rbind (rfoldM (\<lambda>leaf _. ensure (unat leaf < leaves p) (InvalidInput ''leaf {leaf} out of range'')) pos_map ()) (\<lambda>_.
        rbind (rfoldM (\<lambda>block _.
                 if length (b_payload block) \<noteq> block_size p then
                   Inl (InvalidInput ''stash payload len {} != block_size {}'')
                 else if b_occupied block \<and> unat (b_leaf block) \<ge> leaves p then
                   Inl (InvalidInput ''stash leaf {} out of range'')
                 else Inr ()) stash ()) (\<lambda>_.
        validate_for_params sched p)))"

definition store_auth_state_from_stores ::
  "'m path_page_store \<Rightarrow> 'm \<Rightarrow> 'p path_page_store \<Rightarrow> 'p \<Rightarrow> store_auth_state option" where
  "store_auth_state_from_stores meta_ops meta_store payload_ops payload_store =
     (case (pp_tiered_merkle_state meta_ops meta_store, pp_tiered_merkle_state payload_ops payload_store) of
        (Some meta, Some payload) \<Rightarrow> Some (store_auth_new meta payload)
      | _ \<Rightarrow>
          (case pp_embedded_tree_state meta_ops meta_store of
             None \<Rightarrow> None
           | Some meta \<Rightarrow>
               (case pp_embedded_tree_state payload_ops payload_store of
                  None \<Rightarrow> None
                | Some payload \<Rightarrow> Some (store_auth_new_embedded meta payload))))"

definition validate_bound_auth_state ::
  "store_auth_state option \<Rightarrow> 'm path_page_store \<Rightarrow> 'm \<Rightarrow> 'p path_page_store \<Rightarrow> 'p \<Rightarrow> unit result" where
  "validate_bound_auth_state expected meta_ops meta_store payload_ops payload_store =
     (case expected of
        None \<Rightarrow> Inr ()
      | Some expected \<Rightarrow>
          rbind (ok_or (store_auth_state_from_stores meta_ops meta_store payload_ops payload_store)
                  (InvalidInput ''Circuit ORAM state is bound to auth roots but stores expose no auth state''))
            (\<lambda>actual.
              if actual \<noteq> expected then
                Inl (InvalidInput ''Circuit ORAM auth roots do not match controller state'')
              else Inr ()))"

section \<open>Placing and writing the initial tree\<close>

text \<open>\<open>for slot_idx in 0..bucket_size\<close>: the first free slot of a bucket. Indexing panics out of range.\<close>

fun free_slot :: "meta_bucket \<Rightarrow> nat list \<Rightarrow> nat option result" where
  "free_slot slots [] = Inr None"
| "free_slot slots (slot_idx # idxs) =
     (if slot_idx \<ge> length slots then Inl (Panic ''index out of bounds'')
      else if \<not> m_occupied (slots ! slot_idx) then Inr (Some slot_idx)
      else free_slot slots idxs)"

fun place_on_nodes ::
  "oram_params \<Rightarrow> u64 \<Rightarrow> u32 \<Rightarrow> nat list \<Rightarrow> meta_bucket list \<Rightarrow> (bool \<times> meta_bucket list) result" where
  "place_on_nodes p logical_id leaf [] meta_buckets = Inr (False, meta_buckets)"
| "place_on_nodes p logical_id leaf (node_idx # nodes) meta_buckets =
     (if node_idx \<ge> length meta_buckets then Inl (Panic ''index out of bounds'')
      else rbind (free_slot (meta_buckets ! node_idx) [0..<bucket_size p]) (\<lambda>r. case r of
          Some slot_idx \<Rightarrow>
            Inr (True, meta_buckets[node_idx := (meta_buckets ! node_idx)[slot_idx := meta_real logical_id leaf]])
        | None \<Rightarrow> place_on_nodes p logical_id leaf nodes meta_buckets))"

definition place_initial_meta ::
  "oram_params \<Rightarrow> u64 \<Rightarrow> u32 \<Rightarrow> meta_bucket list \<Rightarrow> (bool \<times> meta_bucket list) result" where
  "place_initial_meta p logical_id leaf meta_buckets =
     place_on_nodes p logical_id leaf (rev (path_nodes p leaf)) meta_buckets"

text \<open>The buffer \<open>encoded\<close> is reused from bucket to bucket.\<close>

fun write_metadata_loop ::
  "oram_params \<Rightarrow> 'm page_store \<Rightarrow> (nat \<times> meta_bucket) list \<Rightarrow> bytes \<Rightarrow> ('m, unit) comp" where
  "write_metadata_loop p ps [] encoded = ret ()"
| "write_metadata_loop p ps ((node_idx, bucket) # rest) encoded =
     bnd (lift (meta_bucket_encode_into bucket (bucket_size p) encoded)) (\<lambda>encoded.
     bnd (ps_write_page ps node_idx encoded) (\<lambda>_.
     write_metadata_loop p ps rest encoded))"

definition write_initial_metadata :: "oram_params \<Rightarrow> 'm page_store \<Rightarrow> meta_bucket list \<Rightarrow> ('m, unit) comp" where
  "write_initial_metadata p ps meta_buckets =
     bnd (require (length meta_buckets = bucket_count p)
            (InvalidInput ''metadata bucket count {} != expected {}'')) (\<lambda>_.
     write_metadata_loop p ps (enumerate 0 meta_buckets)
       (replicate (circuit_meta_page_bytes (bucket_size p)) 0))"

text \<open>One payload page: the payloads of the occupied slots, zeros elsewhere.\<close>

fun fill_payload_page ::
  "oram_params \<Rightarrow> 's block_source \<Rightarrow> (nat \<times> meta_slot) list \<Rightarrow> bytes \<Rightarrow> ('s, bytes) comp" where
  "fill_payload_page p src [] encoded = ret encoded"
| "fill_payload_page p src ((slot_idx, meta) # slots) encoded =
     (if m_occupied meta then
        bnd (read_source_block p src (unat (m_logical_id meta))) (\<lambda>payload.
        fill_payload_page p src slots (copy_into (slot_idx * block_size p) payload encoded))
      else fill_payload_page p src slots encoded)"

definition write_initial_payloads ::
  "oram_params \<Rightarrow> 'p page_store \<Rightarrow> 's block_source \<Rightarrow> meta_bucket list \<Rightarrow> ('p \<times> 's, unit) comp" where
  "write_initial_payloads p ps src meta_buckets =
     bnd (require (length meta_buckets = bucket_count p)
            (InvalidInput ''metadata bucket count {} != expected {}'')) (\<lambda>_.
     citer (\<lambda>(node_idx, bucket).
       bnd (zoom snd (\<lambda>s (q, _). (q, s)) (fill_payload_page p src (enumerate 0 bucket)
              (replicate (circuit_payload_page_bytes (bucket_size p) (block_size p)) 0))) (\<lambda>encoded.
       zoom fst (\<lambda>q (_, s). (q, s)) (ps_write_page ps node_idx encoded)))
       (enumerate 0 meta_buckets))"

section \<open>Building\<close>

text \<open>\<open>for (logical_id, pos) in pos_map.iter_mut().enumerate()\<close>, with the ids still to place.\<close>

fun build_positions ::
  "('r \<Rightarrow> u64 \<times> 'r) \<Rightarrow> oram_params \<Rightarrow> nat list \<Rightarrow> 'r \<Rightarrow> meta_bucket list \<Rightarrow> (nat \<times> u32) list \<Rightarrow>
    (u32 list \<times> 'r \<times> meta_bucket list \<times> (nat \<times> u32) list) result" where
  "build_positions next_u64 p [] rng meta_buckets stash_ids = Inr ([], rng, meta_buckets, stash_ids)"
| "build_positions next_u64 p (logical_id # ids) rng meta_buckets stash_ids =
     (let (leaf, rng) = random_leaf next_u64 p rng
      in rbind (place_initial_meta p (word_of_nat logical_id) leaf meta_buckets) (\<lambda>(placed, meta_buckets).
           let stash_ids = (if placed then stash_ids else stash_ids @ [(logical_id, leaf)])
           in if \<not> placed \<and> length stash_ids > stash_capacity p then
                Inl (StashOverflow (length stash_ids) (stash_capacity p))
              else
                rbind (build_positions next_u64 p ids rng meta_buckets stash_ids)
                  (\<lambda>(ls, rng, meta_buckets, stash_ids). Inr (leaf # ls, rng, meta_buckets, stash_ids))))"

text \<open>Running a computation whose state is dropped on an error (the stores are moved in).\<close>

definition run_owned :: "('s, 'a) comp \<Rightarrow> 's \<Rightarrow> ('a \<times> 's) result" where
  "run_owned m s = (case m s of (Inl e, _) \<Rightarrow> Inl e | (Inr a, s') \<Rightarrow> Inr (a, s'))"

definition build_trusted_from_source ::
  "'c subtle \<Rightarrow> ('r \<Rightarrow> u64 \<times> 'r) \<Rightarrow> (bytes \<Rightarrow> 'r) \<Rightarrow> 'm page_store \<Rightarrow> 'p page_store \<Rightarrow> 's block_source \<Rightarrow>
    oram_params \<Rightarrow> 'm \<Rightarrow> 'p \<Rightarrow> 's \<Rightarrow> bytes \<Rightarrow> ('m, 'p, 'r) circuit_oram result" where
  "build_trusted_from_source sb next_u64 from_seed mps pps src p meta_store payload_store source seed =
     rbind (validate_circuit_stores p (path_of_page_store mps) meta_store (path_of_page_store pps) payload_store) (\<lambda>_.
     rbind (validate_block_source p src source) (\<lambda>_.
     rbind (build_positions next_u64 p [0..<logical_blocks p] (from_seed seed)
              (map (\<lambda>_. meta_bucket_dummy (bucket_size p)) [0..<bucket_count p]) [])
       (\<lambda>(pos_map, rng, meta_buckets, initial_stash_ids).
     rbind (run_owned (write_initial_metadata p mps meta_buckets) meta_store) (\<lambda>(_, meta_store).
     rbind (run_owned (write_initial_payloads p pps src meta_buckets) (payload_store, source))
       (\<lambda>(_, payload_store, source).
     rbind (run_owned (cmapM (\<lambda>(logical_id, leaf).
              bnd (read_source_block p src logical_id) (\<lambda>payload.
              lift (real (word_of_nat logical_id) leaf payload (block_size p)))) initial_stash_ids) source)
       (\<lambda>(stash, source).
       let oram = \<lparr>co_params = p, co_meta_store = meta_store, co_payload_store = payload_store,
                   co_pos_map = pos_map, co_stash = pad_stash p stash, co_rng = rng,
                   co_schedule = schedule_new p\<rparr>
       in rbind (check_stash sb p (co_stash oram)) (\<lambda>_. Inr oram)))))))"

definition build_trusted ::
  "'c subtle \<Rightarrow> ('r \<Rightarrow> u64 \<times> 'r) \<Rightarrow> (bytes \<Rightarrow> 'r) \<Rightarrow> 'm page_store \<Rightarrow> 'p page_store \<Rightarrow>
    oram_params \<Rightarrow> 'm \<Rightarrow> 'p \<Rightarrow> bytes list \<Rightarrow> bytes \<Rightarrow> ('m, 'p, 'r) circuit_oram result" where
  "build_trusted sb next_u64 from_seed mps pps p meta_store payload_store blocks seed =
     build_trusted_from_source sb next_u64 from_seed mps pps vec_source_ops p meta_store payload_store
       (vec_source_new blocks (block_size p)) seed"

definition build_trusted_from_iter ::
  "'c subtle \<Rightarrow> ('r \<Rightarrow> u64 \<times> 'r) \<Rightarrow> (bytes \<Rightarrow> 'r) \<Rightarrow> 'm page_store \<Rightarrow> 'p page_store \<Rightarrow>
    oram_params \<Rightarrow> 'm \<Rightarrow> 'p \<Rightarrow> bytes result list \<Rightarrow> bytes \<Rightarrow> ('m, 'p, 'r) circuit_oram result" where
  "build_trusted_from_iter sb next_u64 from_seed mps pps p meta_store payload_store blocks seed =
     rbind (rmapM (\<lambda>b. b) blocks) (\<lambda>blocks.
     build_trusted sb next_u64 from_seed mps pps p meta_store payload_store blocks seed)"

section \<open>Snapshots\<close>

definition oram_store_auth_state ::
  "('c, 'm, 'p, 'r) circuit_env \<Rightarrow> ('m, 'p, 'r) circuit_oram \<Rightarrow> store_auth_state option" where
  "oram_store_auth_state E self =
     store_auth_state_from_stores (e_meta E) (co_meta_store self) (e_payload E) (co_payload_store self)"

definition snapshot :: "('c, 'm, 'p, 'r) circuit_env \<Rightarrow> ('m, 'p, 'r) circuit_oram \<Rightarrow> 'r circuit_oram_state" where
  "snapshot E self =
     with_auth (circuit_state_new (co_params self) (co_pos_map self) (co_stash self) (co_rng self) (co_schedule self))
       (oram_store_auth_state E self)"

definition from_state ::
  "('c, 'm, 'p, 'r) circuit_env \<Rightarrow> 'm \<Rightarrow> 'p \<Rightarrow> 'r circuit_oram_state \<Rightarrow> ('m, 'p, 'r) circuit_oram result" where
  "from_state E meta_store payload_store state =
     rbind (validate_circuit_stores (cs_params state) (e_meta E) meta_store (e_payload E) payload_store) (\<lambda>_.
     rbind (validate_circuit_state (cs_params state) (cs_pos_map state) (cs_stash state) (cs_schedule state)) (\<lambda>_.
     rbind (validate_bound_auth_state (cs_auth state) (e_meta E) meta_store (e_payload E) payload_store) (\<lambda>_.
       let oram = \<lparr>co_params = cs_params state, co_meta_store = meta_store, co_payload_store = payload_store,
                   co_pos_map = cs_pos_map state, co_stash = pad_stash (cs_params state) (cs_stash state),
                   co_rng = cs_rng state, co_schedule = cs_schedule state\<rparr>
       in rbind (check_stash (e_ct E) (cs_params state) (co_stash oram)) (\<lambda>_. Inr oram))))"

section \<open>Where the build places the blocks\<close>

definition meta_buckets_ok :: "oram_params \<Rightarrow> meta_bucket list \<Rightarrow> bool" where
  "meta_buckets_ok p bk \<longleftrightarrow> length bk = bucket_count p \<and>
     (\<forall>j < bucket_count p. length (bk ! j) = bucket_size p \<and>
        (\<forall>m \<in> set (bk ! j). m = meta_dummy \<or>
           m_occupied m \<and> unat (m_leaf m) < leaves p \<and> j \<in> set (path_nodes p (m_leaf m))))"

abbreviation real_slots :: "meta_slot list \<Rightarrow> meta_slot multiset" where
  "real_slots ms \<equiv> filter_mset m_occupied (mset ms)"

lemma meta_real_simps [simp]:
  "m_occupied (meta_real i l)" "m_logical_id (meta_real i l) = i" "m_leaf (meta_real i l) = l"
  by (simp_all add: meta_real_def)

lemma free_slot_find:
  "(\<And>k. k \<in> set idxs \<Longrightarrow> k < length slots) \<Longrightarrow>
    free_slot slots idxs = Inr (find (\<lambda>k. \<not> m_occupied (slots ! k)) idxs)"
proof (induction idxs)
  case (Cons k idxs)
  have "k < length slots" using Cons.prems by simp
  then have "\<not> length slots \<le> k" by simp
  with Cons show ?case by simp
qed simp

lemma real_slots_update:
  assumes "j < length bk"
  shows "real_slots (concat (bk[j := b])) + real_slots (bk ! j) = real_slots (concat bk) + real_slots b"
  using assms
proof (induction bk arbitrary: j)
  case (Cons c bk)
  then show ?case
  proof (cases j)
    case (Suc i)
    with Cons have "real_slots (concat (bk[i := b])) + real_slots (bk ! i) = real_slots (concat bk) + real_slots b"
      by simp
    with Suc show ?thesis by (simp add: ac_simps del: mset_concat)
  qed (simp add: ac_simps del: mset_concat)
qed simp

lemma real_slots_put:
  "k < length ms \<Longrightarrow> \<not> m_occupied (ms ! k) \<Longrightarrow> m_occupied m \<Longrightarrow>
    real_slots (ms[k := m]) = add_mset m (real_slots ms)"
  by (simp add: mset_update)

lemma place_on_nodes_ok:
  assumes "meta_buckets_ok p bk" and "unat leaf < leaves p" and "set nodes \<subseteq> set (path_nodes p leaf)"
    and "\<And>j. j \<in> set nodes \<Longrightarrow> j < bucket_count p"
  shows "\<exists>placed bk'. place_on_nodes p i leaf nodes bk = Inr (placed, bk') \<and> meta_buckets_ok p bk' \<and>
    real_slots (concat bk') = real_slots (concat bk) + (if placed then {#meta_real i leaf#} else {#})"
  using assms(3,4)
proof (induction nodes)
  case Nil
  show ?case using assms(1) by (intro exI [of _ False] exI [of _ bk]) simp
next
  case (Cons j nodes)
  have j: "j < length bk" "length (bk ! j) = bucket_size p" "j \<in> set (path_nodes p leaf)" "j < bucket_count p"
    using assms(1) Cons.prems by (auto simp: meta_buckets_ok_def)
  have find: "free_slot (bk ! j) [0..<bucket_size p] =
      Inr (find (\<lambda>k. \<not> m_occupied (bk ! j ! k)) [0..<bucket_size p])"
    using j(2) by (intro free_slot_find) simp
  show ?case
  proof (cases "find (\<lambda>k. \<not> m_occupied (bk ! j ! k)) [0..<bucket_size p]")
    case None
    then show ?thesis using Cons j(1) find by auto
  next
    case (Some k)
    then have k: "k < length (bk ! j)" "\<not> m_occupied (bk ! j ! k)"
      using j(2) by (auto simp: find_Some_iff)
    let ?row = "(bk ! j)[k := meta_real i leaf]"
    have "real_slots (concat (bk[j := ?row])) + real_slots (bk ! j) =
        real_slots (concat bk) + {#meta_real i leaf#} + real_slots (bk ! j)"
      using real_slots_update [OF j(1), of ?row] real_slots_put [OF k, of "meta_real i leaf"]
      by (simp del: mset_concat)
    then have "real_slots (concat (bk[j := ?row])) = real_slots (concat bk) + {#meta_real i leaf#}"
      by (simp only: add_right_cancel)
    moreover have "\<forall>m \<in> set ?row. m = meta_dummy \<or>
        m_occupied m \<and> unat (m_leaf m) < leaves p \<and> j \<in> set (path_nodes p (m_leaf m))"
    proof
      fix m
      assume "m \<in> set ?row"
      then consider "m = meta_real i leaf" | "m \<in> set (bk ! j)"
        by (auto dest: subsetD [OF set_update_subset_insert])
      then show "m = meta_dummy \<or> m_occupied m \<and> unat (m_leaf m) < leaves p \<and> j \<in> set (path_nodes p (m_leaf m))"
        using assms(1,2) j(3,4) by cases (auto simp: meta_buckets_ok_def)
    qed
    then have "meta_buckets_ok p (bk[j := ?row])"
      using assms(1) j(1,2) unfolding meta_buckets_ok_def by (simp add: nth_list_update)
    ultimately show ?thesis using j(1) find Some
      by (intro exI [of _ True] exI [of _ "bk[j := ?row]"]) (simp del: mset_concat)
  qed
qed

lemma place_initial_meta_ok:
  assumes "meta_buckets_ok p bk" and "params_ok p" and "unat leaf < leaves p"
  shows "\<exists>placed bk'. place_initial_meta p i leaf bk = Inr (placed, bk') \<and> meta_buckets_ok p bk' \<and>
    real_slots (concat bk') = real_slots (concat bk) + (if placed then {#meta_real i leaf#} else {#})"
  unfolding place_initial_meta_def
  using path_in_tree(1) [OF assms(2,3)] by (intro place_on_nodes_ok assms) auto

definition stash_slots :: "(nat \<times> u32) list \<Rightarrow> meta_slot list" where
  "stash_slots = map (\<lambda>(i, l). meta_real (word_of_nat i) l)"

text \<open>
  The placement loop ends with every id placed once, in a bucket of its path or on the stash list,
  or with a stash overflow.
\<close>

lemma build_positions_ok:
  assumes "params_ok p" and "meta_buckets_ok p bk" and "length sids \<le> stash_capacity p"
    and "\<And>i l. (i, l) \<in> set sids \<Longrightarrow> unat l < leaves p"
    and "build_positions next_u64 p ids rng bk sids = Inr (ls, rng', bk', sids')"
  shows "length ls = length ids \<and> (\<forall>l \<in> set ls. unat l < leaves p) \<and> meta_buckets_ok p bk' \<and>
    length sids' \<le> stash_capacity p \<and> (\<forall>(i, l) \<in> set sids'. unat l < leaves p) \<and>
    real_slots (concat bk') + mset (stash_slots sids') =
      real_slots (concat bk) + mset (stash_slots sids) + mset (stash_slots (zip ids ls))"
  using assms(2-)
proof (induction ids arbitrary: rng bk sids ls)
  case Nil
  then show ?case by (auto simp: stash_slots_def)
next
  case (Cons i ids)
  obtain l rng1 where l: "random_leaf next_u64 p rng = (l, rng1)" by fastforce
  have leaf: "unat l < leaves p" using random_leaf_bound [OF assms(1) l] .
  obtain placed bk1 where pl: "place_initial_meta p (word_of_nat i) l bk = Inr (placed, bk1)"
    "meta_buckets_ok p bk1"
    "real_slots (concat bk1) = real_slots (concat bk) + (if placed then {#meta_real (word_of_nat i) l#} else {#})"
    using place_initial_meta_ok [OF Cons.prems(1) assms(1) leaf] by blast
  let ?sids = "if placed then sids else sids @ [(i, l)]"
  from Cons.prems(4) l pl(1) obtain ls' where
    rest: "build_positions next_u64 p ids rng1 bk1 ?sids = Inr (ls', rng', bk', sids')" "ls = l # ls'"
    and len: "length ?sids \<le> stash_capacity p"
    using Cons.prems(2) by (auto simp: Let_def split: if_splits prod.splits)
  have "\<And>i l. (i, l) \<in> set ?sids \<Longrightarrow> unat l < leaves p"
    using Cons.prems(3) leaf by (auto split: if_splits)
  from Cons.IH [OF pl(2) len this rest(1)] rest(2) leaf pl(3) show ?case
    by (auto simp: stash_slots_def ac_simps simp del: mset_concat split: if_splits)
qed

lemma build_positions_error:
  assumes "params_ok p" and "meta_buckets_ok p bk" and "build_positions next_u64 p ids rng bk sids = Inl e"
  shows "\<exists>n \<le> length sids + length ids. e = StashOverflow n (stash_capacity p) \<and> stash_capacity p < n"
  using assms(2-)
proof (induction ids arbitrary: rng bk sids e)
  case (Cons i ids)
  obtain l rng1 where l: "random_leaf next_u64 p rng = (l, rng1)" by fastforce
  obtain placed bk1 where pl: "place_initial_meta p (word_of_nat i) l bk = Inr (placed, bk1)"
    "meta_buckets_ok p bk1"
    using place_initial_meta_ok [OF Cons.prems(1) assms(1) random_leaf_bound [OF assms(1) l]] by blast
  define sids1 where "sids1 = (if placed then sids else sids @ [(i, l)])"
  have len: "length sids1 \<le> Suc (length sids)" by (simp add: sids1_def)
  have run: "build_positions next_u64 p (i # ids) rng bk sids =
      (if \<not> placed \<and> length sids1 > stash_capacity p then Inl (StashOverflow (length sids1) (stash_capacity p))
       else rbind (build_positions next_u64 p ids rng1 bk1 sids1)
         (\<lambda>(ls, rng, meta_buckets, stash_ids). Inr (l # ls, rng, meta_buckets, stash_ids)))"
    by (simp add: l pl(1) Let_def sids1_def)
  show ?case
  proof (cases "\<not> placed \<and> length sids1 > stash_capacity p")
    case True
    with run Cons.prems(2) have "e = StashOverflow (length sids1) (stash_capacity p)" by simp
    with True len show ?thesis by (intro exI [of _ "length sids1"]) simp
  next
    case False
    have "build_positions next_u64 p ids rng1 bk1 sids1 = Inl e"
      using run False Cons.prems(2)
      by (cases "build_positions next_u64 p ids rng1 bk1 sids1") (auto split: prod.splits)
    from Cons.IH [OF pl(2) this] len show ?thesis by (auto intro: order_trans)
  qed
qed simp

section \<open>The tree a build writes\<close>

definition built_block :: "nat \<Rightarrow> bytes list \<Rightarrow> meta_slot \<Rightarrow> oram_block" where
  "built_block n D m = (if m_occupied m then slot_block m (D ! unat (m_logical_id m)) else dummy n)"

lemma built_block_simps [simp]:
  "b_occupied (built_block n D m) = m_occupied m"
  "m_occupied m \<Longrightarrow> b_leaf (built_block n D m) = m_leaf m"
  "m = meta_dummy \<or> m_occupied m \<Longrightarrow> block_meta (built_block n D m) = m"
  by (auto simp: built_block_def slot_block_def dummy_def block_meta_def meta_dummy_def)

text \<open>A source of the blocks \<open>D\<close>.\<close>

locale block_source_spec =
  fixes src :: "'s block_source" and ok :: "'s \<Rightarrow> bool" and D :: "bytes list"
  assumes source_size: "ok s \<Longrightarrow> bs_logical_blocks src s = length D"
    and source_read: "ok s \<Longrightarrow> i < length D \<Longrightarrow> \<exists>s'. bs_read_block src i s = (Inr (D ! i), s') \<and> ok s'"
    and source_block_size: "ok s \<Longrightarrow> ok s' \<Longrightarrow> bs_block_size src s' = bs_block_size src s"
begin

lemma read_source_ok:
  assumes "ok s" and "i < length D" and "length (D ! i) = block_size p"
  shows "\<exists>s'. read_source_block p src i s = (Inr (D ! i), s') \<and> ok s'"
  using source_read [OF assms(1,2)] assms(3) by (auto simp: read_source_block_def comp_simps)

lemma fill_payload_page_ok:
  assumes "ok s" and "\<forall>d \<in> set D. length d = block_size p"
    and "\<And>m. m \<in> set ms \<Longrightarrow> m_occupied m \<Longrightarrow> unat (m_logical_id m) < length D"
    and "(k + length ms) * block_size p \<le> length out"
    and "\<And>j. k * block_size p \<le> j \<Longrightarrow> j < length out \<Longrightarrow> out ! j = 0"
  shows "\<exists>s'. fill_payload_page p src (enumerate k ms) out s =
      (Inr (take (k * block_size p) out @ payload_page (map (built_block (block_size p) D) ms) @
         drop ((k + length ms) * block_size p) out), s') \<and> ok s'"
  using assms
proof (induction ms arbitrary: k out s)
  case Nil
  then show ?case by (simp add: comp_simps payload_page_def)
next
  case (Cons m ms)
  let ?n = "block_size p"
  have fits: "k * ?n + ?n \<le> length out" using Cons.prems(4) by (simp add: algebra_simps)
  obtain rest where rest: "Suc (k + length ms) * ?n = k * ?n + (?n + rest)"
    by (rule that [of "length ms * ?n"]) (simp add: algebra_simps)
  let ?d = "b_payload (built_block ?n D m)" and ?out = "copy_into (k * ?n) (b_payload (built_block ?n D m)) out"
  have d: "length ?d = ?n"
    using Cons.prems(2) Cons.prems(3) [of m] by (auto simp: built_block_def slot_block_def dummy_def)
  then have len: "length ?out = length out" using fits by simp
  have take_out: "take (Suc k * ?n) ?out = take (k * ?n) out @ ?d"
    using d fits by (simp add: copy_into_def add.commute)
  have drop_out: "drop (Suc (k + length ms) * ?n) ?out = drop (Suc (k + length ms) * ?n) out"
    unfolding rest using d fits by (simp add: copy_into_def min_def ac_simps)
  have zero: "?out ! j = 0" if "Suc k * ?n \<le> j" "j < length ?out" for j
  proof -
    have "\<not> j < k * ?n" "\<not> j - k * ?n < ?n" "k * ?n + ?n + (j - k * ?n - ?n) = j" "out ! j = 0"
      using that Cons.prems(5) [of j] len by auto
    then show ?thesis using d fits by (simp add: copy_into_def nth_append)
  qed
  have IH: "\<exists>s'. fill_payload_page p src (enumerate (Suc k) ms) ?out s1 =
      (Inr (take (Suc k * ?n) ?out @ payload_page (map (built_block ?n D) ms) @
         drop ((Suc k + length ms) * ?n) ?out), s') \<and> ok s'" if "ok s1" for s1
    using that Cons.prems(2-4) zero len by (intro Cons.IH) auto
  have eq: "take (Suc k * ?n) ?out @ payload_page (map (built_block ?n D) ms) @ drop ((Suc k + length ms) * ?n) ?out =
      take (k * ?n) out @ payload_page (map (built_block ?n D) (m # ms)) @ drop ((k + length (m # ms)) * ?n) out"
    by (simp add: take_out drop_out payload_page_def del: mult_Suc)
  show ?case
  proof (cases "m_occupied m")
    case True
    then have i: "unat (m_logical_id m) < length D" using Cons.prems(3) by simp
    then obtain s1 where "read_source_block p src (unat (m_logical_id m)) s = (Inr ?d, s1)" "ok s1"
      using read_source_ok [OF Cons.prems(1) i] Cons.prems(2) True
      by (auto simp: built_block_def slot_block_def)
    then show ?thesis using True IH [of s1] unfolding eq [symmetric] by (auto simp: comp_simps)
  next
    case False
    have "?out = out"
    proof (rule nth_equalityI)
      fix j
      assume "j < length ?out"
      then show "?out ! j = out ! j"
        using False d fits len Cons.prems(5) [of j]
        by (auto simp: copy_into_def nth_append built_block_def dummy_def)
    qed (rule len)
    then show ?thesis using False IH [OF Cons.prems(1)] unfolding eq [symmetric] by simp
  qed
qed

end

interpretation vec_source: block_source_spec vec_source_ops "\<lambda>s. vb_blocks s = D \<and> vb_block_size s = n" D
  for D n
  by unfold_locales (auto simp: vec_source_ops_def vec_read_block_def comp_simps)

section \<open>A finished build\<close>

context page_store_spec
begin

lemma write_metadata_ok:
  assumes "ok s" and "ps_page_size ps s = bucket_size p * 13" and "k + length bk \<le> ps_page_count ps s"
    and "\<And>b. b \<in> set bk \<Longrightarrow> length b = bucket_size p" and "length out = bucket_size p * 13"
  shows "\<exists>s'. write_metadata_loop p ps (enumerate k bk) out s = (Inr (), s') \<and>
    kept ok (ps_page_size ps) (ps_page_count ps) s s' \<and>
    (\<forall>i. pages s' i = (if k \<le> i \<and> i < k + length bk then Some (concat (map meta_bytes (bk ! (i - k)))) else pages s i))"
  using assms
proof (induction bk arbitrary: k out s)
  case Nil
  then show ?case by (auto simp: comp_simps kept_refl)
next
  case (Cons b bk)
  let ?page = "concat (map meta_bytes b)"
  have enc: "meta_bucket_encode_into b (bucket_size p) out = Inr ?page"
    using Cons.prems by (intro meta_bucket_encode_into_eq) auto
  have len: "length ?page = bucket_size p * 13" using Cons.prems(4) [of b] by simp
  obtain s1 where w: "ps_write_page ps k ?page s = (Inr (), s1)"
    "kept ok (ps_page_size ps) (ps_page_count ps) s s1" "pages s1 = (pages s)(k \<mapsto> ?page)"
    using write_page [OF Cons.prems(1), of k ?page] Cons.prems(2,3) len by auto
  note k1 = keptD [OF w(2)]
  obtain s2 where r: "write_metadata_loop p ps (enumerate (Suc k) bk) ?page s1 = (Inr (), s2)"
    "kept ok (ps_page_size ps) (ps_page_count ps) s1 s2"
    "\<forall>i. pages s2 i = (if Suc k \<le> i \<and> i < Suc k + length bk then Some (concat (map meta_bytes (bk ! (i - Suc k))))
      else pages s1 i)"
    using Cons.IH [OF k1(1), of "Suc k" ?page] k1 Cons.prems len by auto
  have "write_metadata_loop p ps (enumerate k (b # bk)) out s = (Inr (), s2)"
    using enc w(1) r(1) by (simp add: comp_simps)
  moreover have "pages s2 i = (if k \<le> i \<and> i < k + length (b # bk)
      then Some (concat (map meta_bytes ((b # bk) ! (i - k)))) else pages s i)" for i
    using r(3) w(3) by (auto simp: nth_Cons' Suc_diff_le)
  ultimately show ?case using kept_trans [OF w(2) r(2)] by blast
qed

end

locale circuit_build_spec =
  ct: subtle_spec sb +
  meta: page_store_spec mps "v_meta_ok V" "v_meta_pages V" +
  payload: page_store_spec pps "v_payload_ok V" "v_payload_pages V" +
  source: block_source_spec src sok D
  for sb :: "'c subtle" and mps :: "'m page_store" and pps :: "'p page_store"
    and V :: "('m, 'p) store_views" and src :: "'s block_source" and sok and D
begin

lemma write_payloads_ok:
  assumes "v_payload_ok V q" and "sok s" and "\<forall>d \<in> set D. length d = block_size p"
    and "ps_page_size pps q = bucket_size p * block_size p" and "k + length bk \<le> ps_page_count pps q"
    and "\<And>b. b \<in> set bk \<Longrightarrow> length b = bucket_size p"
    and "\<And>b m. b \<in> set bk \<Longrightarrow> m \<in> set b \<Longrightarrow> m_occupied m \<Longrightarrow> unat (m_logical_id m) < length D"
  shows "\<exists>q' s'. citer (\<lambda>(node_idx, bucket).
       bnd (zoom snd (\<lambda>s (q, _). (q, s)) (fill_payload_page p src (enumerate 0 bucket)
              (replicate (circuit_payload_page_bytes (bucket_size p) (block_size p)) 0))) (\<lambda>encoded.
       zoom fst (\<lambda>q (_, s). (q, s)) (ps_write_page pps node_idx encoded)))
       (enumerate k bk) (q, s) = (Inr (), (q', s')) \<and> sok s' \<and>
    kept (v_payload_ok V) (ps_page_size pps) (ps_page_count pps) q q' \<and>
    (\<forall>i. v_payload_pages V q' i = (if k \<le> i \<and> i < k + length bk
       then Some (payload_page (map (built_block (block_size p) D) (bk ! (i - k)))) else v_payload_pages V q i))"
  using assms
proof (induction bk arbitrary: k q s)
  case Nil
  then show ?case by (auto simp: comp_simps kept_refl)
next
  case (Cons b bk)
  define step where "step = (\<lambda>(node_idx, bucket).
       bnd (zoom snd (\<lambda>s (q, _). (q, s)) (fill_payload_page p src (enumerate 0 bucket)
              (replicate (circuit_payload_page_bytes (bucket_size p) (block_size p)) 0))) (\<lambda>encoded.
       zoom fst (\<lambda>q (_, s). (q, s)) (ps_write_page pps node_idx encoded)))"
  let ?n = "bucket_size p * block_size p" and ?page = "payload_page (map (built_block (block_size p) D) b)"
  have b: "length b = bucket_size p" using Cons.prems(6) by simp
  have "\<exists>s'. fill_payload_page p src (enumerate 0 b) (replicate ?n 0) s =
      (Inr (take (0 * block_size p) (replicate ?n 0) @ ?page @ drop ((0 + length b) * block_size p) (replicate ?n 0)), s') \<and> sok s'"
    using Cons.prems(2,3,7) b by (intro source.fill_payload_page_ok) auto
  then obtain s1 where f: "fill_payload_page p src (enumerate 0 b) (replicate ?n 0) s = (Inr ?page, s1)" "sok s1"
    using b by auto
  have "bucket_wf p (map (built_block (block_size p) D) b)"
    using b Cons.prems(3) Cons.prems(7) [of b]
    by (auto simp: bucket_wf_def stash_wf_def built_block_def slot_block_def dummy_def)
  then have len: "length ?page = ?n" by (simp add: length_payload_page_wf circuit_payload_page_bytes_def)
  obtain q1 where w: "ps_write_page pps k ?page q = (Inr (), q1)"
    "kept (v_payload_ok V) (ps_page_size pps) (ps_page_count pps) q q1"
    "v_payload_pages V q1 = (v_payload_pages V q)(k \<mapsto> ?page)"
    using payload.write_page [OF Cons.prems(1), of k ?page] Cons.prems(4,5) len by auto
  note k1 = keptD [OF w(2)]
  have st: "step (k, b) (q, s) = (Inr (), (q1, s1))"
    using f(1) w(1) by (simp add: step_def comp_simps circuit_payload_page_bytes_def)
  have "\<exists>q' s'. citer step (enumerate (Suc k) bk) (q1, s1) = (Inr (), (q', s')) \<and> sok s' \<and>
      kept (v_payload_ok V) (ps_page_size pps) (ps_page_count pps) q1 q' \<and>
      (\<forall>i. v_payload_pages V q' i = (if Suc k \<le> i \<and> i < Suc k + length bk
         then Some (payload_page (map (built_block (block_size p) D) (bk ! (i - Suc k)))) else v_payload_pages V q1 i))"
    unfolding step_def using k1 f(2) Cons.prems by (intro Cons.IH) auto
  then obtain q2 s2 where r: "citer step (enumerate (Suc k) bk) (q1, s1) = (Inr (), (q2, s2))" "sok s2"
    "kept (v_payload_ok V) (ps_page_size pps) (ps_page_count pps) q1 q2"
    "\<forall>i. v_payload_pages V q2 i = (if Suc k \<le> i \<and> i < Suc k + length bk
       then Some (payload_page (map (built_block (block_size p) D) (bk ! (i - Suc k)))) else v_payload_pages V q1 i)"
    by blast
  have "citer step (enumerate k (b # bk)) (q, s) = (Inr (), (q2, s2))"
    using st r(1) by (simp add: comp_simps)
  moreover have "v_payload_pages V q2 i = (if k \<le> i \<and> i < k + length (b # bk)
      then Some (payload_page (map (built_block (block_size p) D) ((b # bk) ! (i - k)))) else v_payload_pages V q i)" for i
    using r(4) w(3) by (auto simp: nth_Cons' Suc_diff_le)
  ultimately show ?case unfolding step_def [symmetric] using r(2) kept_trans [OF w(2) r(3)] by blast
qed

end

text \<open>What the build's tree and stash hold together.\<close>

lemma built_logical_inv:
  assumes "params_ok p" and "length D = logical_blocks p" and "\<forall>d \<in> set D. length d = block_size p"
    and "meta_buckets_ok p bk" and "length sids \<le> stash_capacity p"
    and "\<forall>(i, l) \<in> set sids. unat l < leaves p"
    and "length ls = logical_blocks p" and "\<forall>l \<in> set ls. unat l < leaves p"
    and "real_slots (concat bk) + mset (stash_slots sids) = mset (stash_slots (zip [0..<logical_blocks p] ls))"
  defines "T \<equiv> \<lambda>j. map (built_block (block_size p) D) (bk ! j)"
  shows "logical_inv p T D ls (pad_stash p (map (built_block (block_size p) D) (stash_slots sids)))"
    and "\<And>b m. b \<in> set bk \<Longrightarrow> m \<in> set b \<Longrightarrow> m_occupied m \<Longrightarrow> unat (m_logical_id m) < length D"
    and "\<And>i l. (i, l) \<in> set sids \<Longrightarrow> i < 2 ^ 64 \<Longrightarrow> i < length D"
proof -
  let ?b = "built_block (block_size p) D"
  have n64: "logical_blocks p < 2 ^ 64" using assms(1) by (simp add: params_ok_def)
  have slots: "\<exists>i < length D. m = meta_real (word_of_nat i) (ls ! i)"
    if "m \<in># real_slots (concat bk) + mset (stash_slots sids)" for m
    using that assms(2,7) unfolding assms(9) by (auto simp: stash_slots_def set_zip)
  show id_bound: "unat (m_logical_id m) < length D" if "b \<in> set bk" "m \<in> set b" "m_occupied m" for b m
    using slots [of m] that n64 assms(2) by fastforce
  have sid_bound: "unat (word_of_nat i :: u64) < length D" if "(i, l) \<in> set sids" for i l
  proof -
    have "meta_real (word_of_nat i) l \<in> set (stash_slots sids)" using that by (force simp: stash_slots_def)
    then obtain k where "k < length D" "meta_real (word_of_nat i) l = meta_real (word_of_nat k) (ls ! k)"
      using slots [of "meta_real (word_of_nat i) l"] by auto
    then show ?thesis using n64 assms(2) by (auto dest: arg_cong [of _ _ m_logical_id])
  qed
  then show "i < length D" if "(i, l) \<in> set sids" "i < 2 ^ 64" for i l using that by fastforce
  have len: "length (b_payload (?b m)) = block_size p" if "m_occupied m \<Longrightarrow> unat (m_logical_id m) < length D" for m
    using that assms(3) by (auto simp: built_block_def slot_block_def dummy_def)
  have at: "bucket_at p j (T j)" if j: "j < bucket_count p" for j
  proof -
    have "bk ! j \<in> set bk" using assms(4) j by (auto simp: meta_buckets_ok_def)
    then have "stash_wf (block_size p) (T j)" using id_bound len by (auto simp: stash_wf_def T_def)
    then show ?thesis
      using assms(4) j by (fastforce simp: bucket_at_def bucket_wf_def T_def block_at_def meta_buckets_ok_def)
  qed
  let ?st = "map ?b (stash_slots sids)"
  have stash: "pad_stash p ?st = ?st @ replicate (stash_capacity p - length sids) (dummy (block_size p))"
    using assms(5) by (simp add: pad_stash_def stash_slots_def)
  have ok: "stash_ok p (pad_stash p ?st)"
    unfolding stash using assms(5,6) sid_bound len
    by (fastforce simp: stash_ok_def stash_wf_def stash_slots_def)
  have cm: "concat (map T [0..<bucket_count p]) = map ?b (concat bk)"
  proof -
    have "map T [0..<bucket_count p] = map (map ?b) bk"
      using assms(4) by (intro nth_equalityI) (auto simp: T_def meta_buckets_ok_def)
    then show ?thesis by (simp only: map_concat)
  qed
  have "filter b_occupied (pad_stash p ?st) = ?st"
    unfolding stash by (auto simp: filter_id_conv stash_slots_def dummy_def)
  then have "real_blocks (pad_stash p ?st) = image_mset ?b (mset (stash_slots sids))"
    by (metis mset_filter mset_map)
  moreover have "tree_blocks p T = image_mset ?b (real_slots (concat bk))"
    unfolding tree_blocks_def cm by (simp add: filter_mset_image_mset del: mset_concat)
  ultimately have "real_blocks (pad_stash p ?st) + tree_blocks p T =
      image_mset ?b (mset (stash_slots (zip [0..<logical_blocks p] ls)))"
    unfolding assms(9) [symmetric] by (simp add: ac_simps del: mset_concat)
  also have "\<dots> = model_blocks ls D"
  proof -
    have "map ?b (stash_slots (zip [0..<logical_blocks p] ls)) = map (model_block ls D) [0..<length D]"
      using assms(2,7) n64
      by (intro nth_equalityI) (auto simp: stash_slots_def built_block_def slot_block_def model_block_def)
    then show ?thesis unfolding model_blocks_def by (simp only: mset_map [symmetric])
  qed
  finally show "logical_inv p T D ls (pad_stash p ?st)"
    using assms(1-3,7,8) at ok by (simp add: logical_inv_def)
qed

context circuit_build_spec
begin

lemma build_stash_ok:
  assumes "sok s" and "\<forall>d \<in> set D. length d = block_size p" and "\<forall>x \<in> set sids. fst x < length D"
    and "length D < 2 ^ 64"
  shows "\<exists>s'. cmapM (\<lambda>(logical_id, leaf). bnd (read_source_block p src logical_id) (\<lambda>payload.
      lift (real (word_of_nat logical_id) leaf payload (block_size p)))) sids s =
    (Inr (map (built_block (block_size p) D) (stash_slots sids)), s') \<and> sok s'"
  using assms
proof (induction sids arbitrary: s)
  case (Cons x sids)
  obtain i l where x: "x = (i, l)" by fastforce
  have i: "i < length D" using Cons.prems(3) x by simp
  then have di: "length (D ! i) = block_size p" using Cons.prems(2) by simp
  obtain s1 where s1: "read_source_block p src i s = (Inr (D ! i), s1)" "sok s1"
    using source.read_source_ok [OF Cons.prems(1) i di] by blast
  have "real (word_of_nat i) l (D ! i) (block_size p) =
      Inr (built_block (block_size p) D (meta_real (word_of_nat i) l))"
    using i di Cons.prems(4) by (simp add: real_def built_block_def slot_block_def)
  moreover obtain s2 where "cmapM (\<lambda>(logical_id, leaf). bnd (read_source_block p src logical_id) (\<lambda>payload.
      lift (real (word_of_nat logical_id) leaf payload (block_size p)))) sids s1 =
    (Inr (map (built_block (block_size p) D) (stash_slots sids)), s2)" "sok s2"
    using Cons.IH [OF s1(2) Cons.prems(2)] Cons.prems(3,4) by auto
  ultimately show ?case using s1(1) x
    by (intro exI [of _ s2]) (simp add: bnd_Inr lift_def comp_simps stash_slots_def)
qed (simp add: comp_simps stash_slots_def)

lemma meta_buckets_ok_dummy:
  "meta_buckets_ok p (map (\<lambda>_. meta_bucket_dummy (bucket_size p)) [0..<bucket_count p])"
  by (simp add: meta_buckets_ok_def meta_bucket_dummy_def)

lemma built_ids_bound:
  assumes "build_positions next_u64 p ids rng bk sids = Inr (ls, rng', bk', sids')"
  shows "fst ` set sids' \<subseteq> fst ` set sids \<union> set ids"
  using assms
proof (induction ids arbitrary: rng bk sids ls)
  case (Cons i ids)
  obtain l rng1 where l: "random_leaf next_u64 p rng = (l, rng1)" by fastforce
  obtain placed bk1 where pl: "place_initial_meta p (word_of_nat i) l bk = Inr (placed, bk1)"
    using Cons.prems l by (cases "place_initial_meta p (word_of_nat i) l bk") auto
  define sids1 where "sids1 = (if placed then sids else sids @ [(i, l)])"
  obtain ls' where "build_positions next_u64 p ids rng1 bk1 sids1 = Inr (ls', rng', bk', sids')"
    using Cons.prems by (auto simp: l pl Let_def sids1_def split: if_splits)
  from Cons.IH [OF this] show ?case by (auto simp: sids1_def split: if_splits)
qed simp

lemma build_ok:
  fixes next_u64 :: "'r \<Rightarrow> u64 \<times> 'r"
  defines "E \<equiv> \<lparr>e_ct = sb, e_next_u64 = next_u64, e_meta = path_of_page_store mps, e_payload = path_of_page_store pps\<rparr>"
  assumes "params_ok p" and "length D = logical_blocks p" and "\<forall>d \<in> set D. length d = block_size p"
    and m: "v_meta_ok V m" "ps_page_count mps m = bucket_count p"
      "ps_page_size mps m = circuit_meta_page_bytes (bucket_size p)"
    and q: "v_payload_ok V q" "ps_page_count pps q = bucket_count p"
      "ps_page_size pps q = circuit_payload_page_bytes (bucket_size p) (block_size p)"
    and s: "sok s" "bs_block_size src s = block_size p"
    and pos: "build_positions next_u64 p [0..<logical_blocks p] (from_seed seed)
      (map (\<lambda>_. meta_bucket_dummy (bucket_size p)) [0..<bucket_count p]) [] = Inr (ls, rng, bk, sids)"
  shows "\<exists>self. build_trusted_from_source sb next_u64 from_seed mps pps src p m q s seed = Inr self \<and>
    oram_inv E V D self \<and> co_params self = p \<and> co_schedule self = schedule_new p \<and> co_pos_map self = ls \<and>
    co_rng self = rng"
proof -
  let ?b = "built_block (block_size p) D"
  have n64: "length D < 2 ^ 64" using assms(2,3) by (simp add: params_ok_def)
  have nil: "mset (stash_slots []) = {#}"
    "real_slots (concat (map (\<lambda>_. meta_bucket_dummy (bucket_size p)) [0..<bucket_count p])) = {#}"
    by (auto simp: stash_slots_def meta_bucket_dummy_def)
  have bp: "length ls = logical_blocks p" "\<forall>l \<in> set ls. unat l < leaves p" "meta_buckets_ok p bk"
    "length sids \<le> stash_capacity p" "\<forall>(i, l) \<in> set sids. unat l < leaves p"
    "real_slots (concat bk) + mset (stash_slots sids) = mset (stash_slots (zip [0..<logical_blocks p] ls))"
    using build_positions_ok [OF assms(2) meta_buckets_ok_dummy _ _ pos] unfolding nil by auto
  note inv = built_logical_inv [OF assms(2,3,4) bp(3,4,5,1,2,6)]
  have len: "length bk = bucket_count p" "\<And>b. b \<in> set bk \<Longrightarrow> length b = bucket_size p"
    using bp(3) by (auto simp: meta_buckets_ok_def in_set_conv_nth)
  obtain m' where m': "write_initial_metadata p mps bk m = (Inr (), m')"
    "kept (v_meta_ok V) (ps_page_size mps) (ps_page_count mps) m m'"
    "\<forall>i < bucket_count p. v_meta_pages V m' i = Some (concat (map meta_bytes (bk ! i)))"
    using meta.write_metadata_ok [OF m(1), of p 0 bk "replicate (bucket_size p * 13) 0"] m len
    by (auto simp: write_initial_metadata_def comp_simps circuit_meta_page_bytes_def)
  obtain q' s' where q': "write_initial_payloads p pps src bk (q, s) = (Inr (), (q', s'))" "sok s'"
    "kept (v_payload_ok V) (ps_page_size pps) (ps_page_count pps) q q'"
    "\<forall>i < bucket_count p. v_payload_pages V q' i = Some (payload_page (map ?b (bk ! i)))"
    using write_payloads_ok [OF q(1) s(1) assms(4), of 0 bk] q len inv(2)
    by (auto simp: write_initial_payloads_def comp_simps circuit_payload_page_bytes_def)
  have ids: "\<forall>x \<in> set sids. fst x < length D"
    using built_ids_bound [OF pos] assms(3) by (auto simp: image_subset_iff)
  obtain s'' where st: "cmapM (\<lambda>(logical_id, leaf). bnd (read_source_block p src logical_id) (\<lambda>payload.
      lift (real (word_of_nat logical_id) leaf payload (block_size p)))) sids s' = (Inr (map ?b (stash_slots sids)), s'')"
    using build_stash_ok [OF q'(2) assms(4) ids n64] by blast
  define stash where "stash = pad_stash p (map ?b (stash_slots sids))"
  have stash: "length stash = stash_capacity p"
    using logical_inv_D(2) [OF inv(1)] by (simp add: stash_ok_def stash_def)
  let ?self = "\<lparr>co_params = p, co_meta_store = m', co_payload_store = q', co_pos_map = ls, co_stash = stash,
    co_rng = rng, co_schedule = schedule_new p\<rparr>"
  have "build_trusted_from_source sb next_u64 from_seed mps pps src p m q s seed = Inr ?self"
    using m q s pos m'(1) q'(1) st source.source_size [OF s(1)] assms(3) ct.check_stash_ok [OF stash]
    by (simp add: build_trusted_from_source_def validate_circuit_stores_def path_of_page_store_def
        validate_block_source_def run_owned_def stash_def [symmetric])
  moreover have "meta_page (map ?b (bk ! j)) = concat (map meta_bytes (bk ! j))" if "j < bucket_count p" for j
  proof -
    have "block_meta (?b x) = x" if x: "x \<in> set (bk ! j)" for x
    proof -
      have "x = meta_dummy \<or> m_occupied x" using bp(3) \<open>j < bucket_count p\<close> x by (auto simp: meta_buckets_ok_def)
      then show ?thesis by (rule built_block_simps(3))
    qed
    then have "map block_meta (map ?b (bk ! j)) = bk ! j" unfolding map_map by (intro map_idI) simp
    then show ?thesis by (simp only: meta_page_def)
  qed
  then have "oram_inv E V D ?self"
    using inv(1) m'(2,3) q'(3,4) m q unfolding oram_inv_def oram_rep_def
    by (intro exI [of _ "\<lambda>j. map ?b (bk ! j)"])
      (auto simp: stash_def stores_hold_def store_rep_def E_def path_of_page_store_def kept_def)
  ultimately show ?thesis by simp
qed

end

section \<open>Reopening a snapshot\<close>

lemma validate_circuit_state_iff:
  "validate_circuit_state p pos stash sched = Inr () \<longleftrightarrow>
     length pos = logical_blocks p \<and> (\<forall>l \<in> set pos. unat l < leaves p) \<and>
     (\<forall>b \<in> set stash. length (b_payload b) = block_size p \<and> (b_occupied b \<longrightarrow> unat (b_leaf b) < leaves p)) \<and>
     s_leaf_bits sched = leaf_bits p \<and> schedule_ok sched"
proof -
  have leaf: "rfoldM (\<lambda>leaf _. ensure (unat leaf < leaves p) e) ls () = Inr () \<longleftrightarrow> (\<forall>l \<in> set ls. unat l < leaves p)"
    for ls :: "u32 list" and e
    by (induction ls) auto
  have st: "rfoldM (\<lambda>block _. if length (b_payload block) \<noteq> block_size p then Inl e1
      else if b_occupied block \<and> unat (b_leaf block) \<ge> leaves p then Inl e2 else Inr ()) bs () = Inr () \<longleftrightarrow>
    (\<forall>b \<in> set bs. length (b_payload b) = block_size p \<and> (b_occupied b \<longrightarrow> unat (b_leaf b) < leaves p))" for bs e1 e2
    by (induction bs) (auto simp: not_le)
  have "validate_for_params sched p = Inr () \<longleftrightarrow> s_leaf_bits sched = leaf_bits p \<and> schedule_ok sched"
    using pending_evictions_Inr_iff [of sched] by (auto simp: validate_for_params_def)
  then show ?thesis by (simp add: validate_circuit_state_def leaf st)
qed

context circuit_env_spec
begin

lemma from_snapshot:
  assumes "oram_rep E V T D self" and "schedule_ok (co_schedule self)"
    and "s_leaf_bits (co_schedule self) = leaf_bits (co_params self)"
  shows "from_state E (co_meta_store self) (co_payload_store self) (snapshot E self) = Inr self"
proof -
  let ?p = "co_params self"
  have inv0: "logical_inv ?p T D (co_pos_map self) (co_stash self)"
    and hold: "stores_hold E V ?p T (co_meta_store self) (co_payload_store self)"
    using assms(1) by (simp_all add: oram_rep_def)
  have stash: "length (co_stash self) = stash_capacity ?p"
    using logical_inv_D(2) [OF inv0] by (simp add: stash_ok_def)
  then have "pad_stash ?p (co_stash self) = co_stash self" by (simp add: pad_stash_def)
  moreover have "validate_circuit_stores ?p (e_meta E) (co_meta_store self) (e_payload E) (co_payload_store self) = Inr ()"
    using hold by (simp add: validate_circuit_stores_def stores_hold_def store_rep_def)
  moreover have "validate_circuit_state ?p (co_pos_map self) (co_stash self) (co_schedule self) = Inr ()"
    using inv0 assms(2,3) by (auto simp: validate_circuit_state_iff logical_inv_def stash_ok_def stash_wf_def)
  moreover have "validate_bound_auth_state (oram_store_auth_state E self) (e_meta E) (co_meta_store self)
      (e_payload E) (co_payload_store self) = Inr ()"
    by (cases "oram_store_auth_state E self") (simp_all add: validate_bound_auth_state_def oram_store_auth_state_def)
  ultimately show ?thesis
    using ct.check_stash_ok [OF stash]
    by (simp add: from_state_def snapshot_def with_auth_def circuit_state_new_def Let_def)
qed

end

end
