(* ===== verification/Circuit_Theorems.thy ===== *)
theory Circuit_Theorems
  imports Circuit_Build
begin

text \<open>
  What the controller promises, for every environment that meets the contracts, and a concrete
  environment that does: in-memory stores, the choice operations on \<^typ>\<open>bool\<close>, and a counter as
  generator.
\<close>

section \<open>A concrete environment\<close>

definition counter_next :: "u64 \<Rightarrow> u64 \<times> u64" where
  "counter_next r = (r, r + 1)"

definition mem_env :: "(bool, mem_store, mem_store, u64) circuit_env" where
  "mem_env =
     \<lparr>e_ct = bit_choice, e_next_u64 = counter_next,
      e_meta = path_of_page_store mem_store_ops, e_payload = path_of_page_store mem_store_ops\<rparr>"

definition mem_views :: "(mem_store, mem_store) store_views" where
  "mem_views =
     \<lparr>v_meta_ok = mem_ok, v_meta_pages = mem_contents, v_payload_ok = mem_ok, v_payload_pages = mem_contents\<rparr>"

interpretation mem_circuit: circuit_env_spec mem_env mem_views
  unfolding circuit_env_spec_def mem_env_def mem_views_def
  by (simp add: bit_choice.subtle_spec_axioms mem.blanket.path_store_spec_axioms)

interpretation mem_build: circuit_build_spec bit_choice mem_store_ops mem_store_ops mem_views vec_source_ops
  "\<lambda>s. vb_blocks s = D \<and> vb_block_size s = n" D
  for D n
  unfolding circuit_build_spec_def mem_views_def
  by (simp add: bit_choice.subtle_spec_axioms mem.page_store_spec_axioms vec_source.block_source_spec_axioms)

section \<open>Building\<close>

lemma build_cases:
  assumes "circuit_build_spec sb mps pps V src sok D" and "params_ok p"
    and "length D = logical_blocks p" and "\<forall>d \<in> set D. length d = block_size p"
    and "v_meta_ok V m" and "ps_page_count mps m = bucket_count p"
    and "ps_page_size mps m = circuit_meta_page_bytes (bucket_size p)"
    and "v_payload_ok V q" and "ps_page_count pps q = bucket_count p"
    and "ps_page_size pps q = circuit_payload_page_bytes (bucket_size p) (block_size p)"
    and "sok s" and "bs_block_size src s = block_size p"
    and "E = \<lparr>e_ct = sb, e_next_u64 = next_u64, e_meta = path_of_page_store mps, e_payload = path_of_page_store pps\<rparr>"
    and "r = build_trusted_from_source sb next_u64 from_seed mps pps src p m q s seed"
  shows "(\<exists>self. r = Inr self \<and> oram_inv E V D self \<and> co_params self = p \<and> co_schedule self = schedule_new p) \<or>
      (\<exists>n. r = Inl (StashOverflow n (stash_capacity p)) \<and> stash_capacity p < n \<and> n \<le> logical_blocks p)"
proof -
  note build = circuit_build_spec.build_ok [OF assms(1-10) assms(11,12)]
  let ?bp = "build_positions next_u64 p [0..<logical_blocks p] (from_seed seed)
    (map (\<lambda>_. meta_bucket_dummy (bucket_size p)) [0..<bucket_count p]) []"
  show ?thesis
  proof (cases ?bp)
    case (Inr x)
    obtain ls rng bk sids where "x = (ls, rng, bk, sids)" by (rule prod_cases4)
    with Inr build [of next_u64 from_seed seed ls rng bk sids] assms(13,14) show ?thesis by auto
  next
    case (Inl e)
    have "validate_circuit_stores p (path_of_page_store mps) m (path_of_page_store pps) q = Inr ()"
      using assms(5-10) by (simp add: validate_circuit_stores_def path_of_page_store_def)
    moreover have "validate_block_source p src s = Inr ()"
      using block_source_spec.source_size [of src sok D s] assms(1,3,11,12)
      by (simp add: validate_block_source_def circuit_build_spec_def)
    ultimately have "r = Inl e" using Inl by (simp add: assms(14) build_trusted_from_source_def)
    with build_positions_error [OF assms(2) circuit_build_spec.meta_buckets_ok_dummy [OF assms(1)] Inl]
    show ?thesis by auto
  qed
qed

text \<open>
  C8. A build over any two page stores of the right dimensions and any source of the blocks \<open>D\<close>
  either reports a stash overflow beyond the configured capacity, or returns a controller that
  stands for exactly the array \<open>D\<close>; when the stash can hold all blocks, it always succeeds.
\<close>

theorem build_correct:
  assumes "circuit_build_spec sb mps pps V src sok D" and "params_ok p"
    and "length D = logical_blocks p" and "\<forall>d \<in> set D. length d = block_size p"
    and "v_meta_ok V m" and "ps_page_count mps m = bucket_count p"
    and "ps_page_size mps m = circuit_meta_page_bytes (bucket_size p)"
    and "v_payload_ok V q" and "ps_page_count pps q = bucket_count p"
    and "ps_page_size pps q = circuit_payload_page_bytes (bucket_size p) (block_size p)"
    and "sok s" and "bs_block_size src s = block_size p"
    and "E = \<lparr>e_ct = sb, e_next_u64 = next_u64, e_meta = path_of_page_store mps, e_payload = path_of_page_store pps\<rparr>"
    and "r = build_trusted_from_source sb next_u64 from_seed mps pps src p m q s seed"
  shows "(\<exists>self. r = Inr self \<and> oram_inv E V D self \<and> co_params self = p \<and> co_schedule self = schedule_new p) \<or>
      (\<exists>n. r = Inl (StashOverflow n (stash_capacity p)) \<and> stash_capacity p < n \<and> n \<le> logical_blocks p)"
  by (rule build_cases [OF assms])

text \<open>Three buckets of one slot, two blocks of one byte, and room for both in the stash.\<close>

definition small_params :: oram_params where
  "small_params = \<lparr>logical_blocks = 2, block_size = 1, bucket_size = 1, leaves = 2, stash_capacity = 3\<rparr>"

definition small_blocks :: "bytes list" where
  "small_blocks = [[7], [8]]"

definition small_meta :: mem_store where
  "small_meta = \<lparr>mem_page_size = 13, mem_pages = replicate 39 0\<rparr>"

definition small_payload :: mem_store where
  "small_payload = \<lparr>mem_page_size = 1, mem_pages = replicate 3 0\<rparr>"

definition small_source :: vec_block_source where
  "small_source = vec_source_new small_blocks 1"

definition small_build :: "(mem_store, mem_store, u64) circuit_oram result" where
  "small_build = build_trusted_from_source bit_choice counter_next (\<lambda>_. 0) mem_store_ops mem_store_ops
     vec_source_ops small_params small_meta small_payload small_source (replicate 32 0)"

definition small_oram :: "(mem_store, mem_store, u64) circuit_oram" where
  "small_oram = projr small_build"

lemma small_params_ok: "params_ok small_params"
  by (simp add: params_ok_def small_params_def height_def leaf_bits_def is_power_of_two.simps trailing_zeros.simps)

lemma small_bucket_count: "bucket_count small_params = 3"
  by (simp add: bucket_count_def small_params_def)

lemma small_params_simps:
  "logical_blocks small_params = 2" "block_size small_params = 1" "bucket_size small_params = 1"
  "leaves small_params = 2" "stash_capacity small_params = 3" "length small_blocks = 2"
  by (simp_all add: small_params_def small_blocks_def)

lemma small_build_setting:
  "length small_blocks = logical_blocks small_params" "\<forall>d \<in> set small_blocks. length d = block_size small_params"
  "v_meta_ok mem_views small_meta" "ps_page_count mem_store_ops small_meta = bucket_count small_params"
  "ps_page_size mem_store_ops small_meta = circuit_meta_page_bytes (bucket_size small_params)"
  "v_payload_ok mem_views small_payload" "ps_page_count mem_store_ops small_payload = bucket_count small_params"
  "ps_page_size mem_store_ops small_payload =
    circuit_payload_page_bytes (bucket_size small_params) (block_size small_params)"
  "vb_blocks small_source = small_blocks \<and> vb_block_size small_source = 1"
  "bs_block_size vec_source_ops small_source = block_size small_params"
  "mem_env = \<lparr>e_ct = bit_choice, e_next_u64 = counter_next, e_meta = path_of_page_store mem_store_ops,
    e_payload = path_of_page_store mem_store_ops\<rparr>"
  by (simp_all add: small_bucket_count small_params_simps small_blocks_def mem_views_def mem_store_ops_def
      small_meta_def small_payload_def mem_ok_def mem_page_count_def circuit_meta_page_bytes_def mem_env_def
      circuit_payload_page_bytes_def small_source_def vec_source_new_def vec_source_ops_def)

lemma small_oram_ok:
  "small_build = Inr small_oram" "oram_inv mem_env mem_views small_blocks small_oram"
  "co_params small_oram = small_params" "co_schedule small_oram = schedule_new small_params"
proof -
  obtain self where self: "small_build = Inr self" "oram_inv mem_env mem_views small_blocks self"
    "co_params self = small_params" "co_schedule self = schedule_new small_params"
    using build_cases [OF mem_build.circuit_build_spec_axioms small_params_ok small_build_setting small_build_def]
    by (auto simp: small_params_simps)
  have "small_oram = self" unfolding small_oram_def self(1) by simp
  with self show "small_build = Inr small_oram" "oram_inv mem_env mem_views small_blocks small_oram"
    "co_params small_oram = small_params" "co_schedule small_oram = schedule_new small_params"
    by simp_all
qed

theorem build_correct_witness:
  "\<exists>self. small_build = Inr self \<and> oram_inv mem_env mem_views small_blocks self \<and>
    co_params self = small_params \<and> co_schedule self = schedule_new small_params"
  using build_correct [OF mem_build.circuit_build_spec_axioms small_params_ok small_build_setting small_build_def]
  by (auto simp: small_params_simps)

section \<open>Accesses\<close>

lemma oram_invE:
  assumes "oram_inv E V D self"
  obtains T where "oram_rep E V T D self" "params_ok (co_params self)" "length D = logical_blocks (co_params self)"
    "length (co_stash self) = stash_capacity (co_params self)"
    "\<And>i. i < length D \<Longrightarrow> length (D ! i) = block_size (co_params self)"
proof -
  obtain T where T: "oram_rep E V T D self" using assms by (auto simp: oram_inv_def)
  then have inv0: "logical_inv (co_params self) T D (co_pos_map self) (co_stash self)" by (simp add: oram_rep_def)
  note inv = logical_inv_D [OF inv0]
  from that [OF T] inv show thesis by (simp add: stash_ok_def)
qed

lemma access_fits_roomy:
  assumes "oram_inv E V D self" and "logical_blocks (co_params self) < stash_capacity (co_params self)"
  shows "access_fits i (co_stash self)"
proof -
  obtain T where T: "oram_rep E V T D self" "length (co_stash self) = stash_capacity (co_params self)"
    using assms(1) by (rule oram_invE)
  then have "occupied_count (co_stash self) \<le> logical_blocks (co_params self)"
    by (auto simp: oram_rep_def intro: occupied_bound)
  with T(2) assms(2) show ?thesis by (auto simp: access_fits_def has_free_iff)
qed

text \<open>
  C2. An access with a free stash slot (or with its block in the stash already) returns the current
  payload of the logical block, whatever the leaf the generator draws, and leaves a controller for
  the array with that payload replaced by the closure's result; it adds one access to the schedule.
\<close>

theorem access_correct:
  assumes "circuit_env_spec E V" and "oram_inv E V D self" and "unat i < length D"
    and "access_fits i (co_stash self)" and "length (update (D ! unat i)) = block_size (co_params self)"
    and "unat (issued_accesses (co_schedule self)) + 1 < 2 ^ 64"
  shows "\<exists>self'. access E i update self = (Inr (D ! unat i), self') \<and>
    oram_inv E V (D[unat i := update (D ! unat i)]) self' \<and> co_params self' = co_params self \<and>
    co_schedule self' = (co_schedule self)\<lparr>issued_accesses := issued_accesses (co_schedule self) + 1\<rparr>"
proof -
  obtain T where T: "oram_rep E V T D self" "length D = logical_blocks (co_params self)"
    using assms(2) by (rule oram_invE)
  obtain l rng where l: "random_leaf (e_next_u64 E) (co_params self) (co_rng self) = (l, rng)" by fastforce
  from circuit_env_spec.access_runs [OF assms(1) T(1), of i update l rng] assms(3-5) l T(2) record_access_eq [OF assms(6)]
  show ?thesis by (auto simp: oram_inv_def oram_rep_def)
qed

theorem access_correct_witness:
  "\<exists>self'. access mem_env 1 (\<lambda>_. [9]) small_oram = (Inr [8], self') \<and>
    oram_inv mem_env mem_views [[7], [9]] self' \<and> co_params self' = small_params"
proof -
  have "\<exists>self'. access mem_env 1 (\<lambda>_. [9]) small_oram = (Inr (small_blocks ! unat (1 :: u64)), self') \<and>
    oram_inv mem_env mem_views (small_blocks[unat (1 :: u64) := [9]]) self' \<and> co_params self' = co_params small_oram \<and>
    co_schedule self' = (co_schedule small_oram)\<lparr>issued_accesses := issued_accesses (co_schedule small_oram) + 1\<rparr>"
    by (rule access_correct [OF mem_circuit.circuit_env_spec_axioms small_oram_ok(2)])
      (simp_all add: access_fits_roomy [OF small_oram_ok(2)] small_oram_ok small_params_simps schedule_new_def with_rate_def)
  then show ?thesis by (auto simp: small_blocks_def small_oram_ok(3))
qed

text \<open>
  C7. An access whose block would not fit into the stash fails with the stash-overflow error and
  changes nothing that matters: the contents, the position map, the stash, the schedule and the
  generator are as before, so the controller stays usable.
\<close>

theorem access_overflow_atomic:
  assumes "circuit_env_spec E V" and "oram_inv E V D self" and "unat i < length D"
    and "\<not> access_fits i (co_stash self)"
  shows "\<exists>self'. access E i update self =
      (Inl (StashOverflow (stash_capacity (co_params self) + 1) (stash_capacity (co_params self))), self') \<and>
    oram_inv E V D self' \<and> co_params self' = co_params self \<and> co_pos_map self' = co_pos_map self \<and>
    co_stash self' = co_stash self \<and> co_rng self' = co_rng self \<and> co_schedule self' = co_schedule self"
proof -
  obtain T where T: "oram_rep E V T D self" "length D = logical_blocks (co_params self)"
    using assms(2) by (rule oram_invE)
  from circuit_env_spec.access_overflow [OF assms(1) T(1) _ assms(4), of update] assms(3) T
  show ?thesis by (auto simp: oram_inv_def oram_rep_def)
qed

text \<open>A controller with two of its three blocks in a stash of two slots, and the third in a leaf bucket.\<close>

definition full_params :: oram_params where
  "full_params = \<lparr>logical_blocks = 3, block_size = 1, bucket_size = 1, leaves = 2, stash_capacity = 2\<rparr>"

definition full_blocks :: "bytes list" where
  "full_blocks = [[7], [8], [9]]"

definition full_tree :: "nat \<Rightarrow> oram_block list" where
  "full_tree j = [if j = 2 then model_block [0, 1, 1] full_blocks 2 else dummy 1]"

definition full_oram :: "(mem_store, mem_store, u64) circuit_oram" where
  "full_oram =
     \<lparr>co_params = full_params,
      co_meta_store = \<lparr>mem_page_size = 13, mem_pages = concat (map (\<lambda>j. meta_page (full_tree j)) [0..<3])\<rparr>,
      co_payload_store = \<lparr>mem_page_size = 1, mem_pages = concat (map (\<lambda>j. payload_page (full_tree j)) [0..<3])\<rparr>,
      co_pos_map = [0, 1, 1],
      co_stash = [model_block [0, 1, 1] full_blocks 0, model_block [0, 1, 1] full_blocks 1],
      co_rng = 0, co_schedule = schedule_new full_params\<rparr>"

lemma mem_store_rep:
  assumes "\<And>j. j < n \<Longrightarrow> length (f j) = k" and "0 < k"
  shows "store_rep (path_of_page_store mem_store_ops) mem_ok mem_contents n k f
    \<lparr>mem_page_size = k, mem_pages = concat (map f [0..<n])\<rparr>"
proof -
  have k: "length x = k" if "x \<in> set (map f [0..<n])" for x using assms(1) that by auto
  have len: "length (concat (map f [0..<n])) = n * k"
    using length_concat_equal [of "map f [0..<n]" k] k by simp
  have "slice (i * k) (i * k + k) (concat (map f [0..<n])) = f i" if "i < n" for i
    using slice_concat [of "map f [0..<n]" k i] k that by simp
  then show ?thesis using len assms(2)
    by (simp add: store_rep_def path_of_page_store_def mem_store_ops_def mem_ok_def mem_page_count_def mem_contents_def)
qed

lemma full_params_simps:
  "logical_blocks full_params = 3" "block_size full_params = 1" "bucket_size full_params = 1"
  "leaves full_params = 2" "stash_capacity full_params = 2" "bucket_count full_params = 3" "height full_params = 2"
  by (simp_all add: full_params_def bucket_count_def height_def leaf_bits_def trailing_zeros.simps)

lemma full_oram_ok: "oram_inv mem_env mem_views full_blocks full_oram"
proof -
  have "params_ok full_params"
    by (simp add: params_ok_def full_params_simps is_power_of_two.simps)
  moreover have path: "path_nodes full_params 1 = [0, 2]"
    by (simp add: path_nodes_def node_index_def full_params_simps leaf_bits_def trailing_zeros.simps upt_rec)
  have at: "bucket_at full_params j (full_tree j)" if "j < 3" for j
    using that by (simp add: bucket_at_def bucket_wf_def stash_wf_def block_at_def full_tree_def
        full_params_simps full_blocks_def path dummy_def)
  moreover have "real_blocks (co_stash full_oram) + tree_blocks full_params full_tree = model_blocks [0, 1, 1] full_blocks"
    by (simp add: tree_blocks_def model_blocks_def full_tree_def full_oram_def full_params_simps full_blocks_def
        upt_rec dummy_def numeral_3_eq_3 numeral_2_eq_2)
  moreover have "stash_ok full_params (co_stash full_oram)"
    by (simp add: stash_ok_def stash_wf_def full_oram_def full_params_simps full_blocks_def)
  ultimately have "logical_inv full_params full_tree full_blocks [0, 1, 1] (co_stash full_oram)"
    by (simp add: logical_inv_def full_params_simps full_blocks_def)
  moreover have "stores_hold mem_env mem_views full_params full_tree (co_meta_store full_oram) (co_payload_store full_oram)"
    using tree_page_lengths [OF at] mem_store_rep [of 3 "\<lambda>j. meta_page (full_tree j)" 13]
      mem_store_rep [of 3 "\<lambda>j. payload_page (full_tree j)" 1]
    by (simp add: stores_hold_def mem_env_def mem_views_def full_oram_def full_params_simps
        circuit_meta_page_bytes_def circuit_payload_page_bytes_def)
  ultimately have "oram_rep mem_env mem_views full_tree full_blocks full_oram"
    by (simp add: oram_rep_def full_oram_def)
  then show ?thesis by (auto simp: oram_inv_def)
qed

theorem access_overflow_atomic_witness:
  "\<exists>self'. access mem_env 2 (\<lambda>_. [5]) full_oram = (Inl (StashOverflow 3 2), self') \<and>
    oram_inv mem_env mem_views full_blocks self' \<and> co_stash self' = co_stash full_oram"
proof -
  have "\<not> access_fits 2 (co_stash full_oram)"
    by (simp add: access_fits_def has_free_def full_oram_def)
  from access_overflow_atomic [OF mem_circuit.circuit_env_spec_axioms full_oram_ok _ this, of "\<lambda>_. [5]"]
  show ?thesis by (auto simp: full_blocks_def full_oram_def full_params_simps)
qed

text \<open>
  C12. The last access the 64-bit counter cannot record: the call reports the overflow, but by then
  the block is read, remapped and rewritten, so the controller stands for the updated array while
  the caller receives an error and not the payload.
\<close>

theorem access_counter_overflow:
  assumes "circuit_env_spec E V" and "oram_inv E V D self" and "unat i < length D"
    and "access_fits i (co_stash self)" and "length (update (D ! unat i)) = block_size (co_params self)"
    and "issued_accesses (co_schedule self) = - 1"
  shows "\<exists>self'. access E i update self = (Inl (InvalidInput ''access counter overflow''), self') \<and>
    oram_inv E V (D[unat i := update (D ! unat i)]) self' \<and> co_schedule self' = co_schedule self"
proof -
  obtain T where T: "oram_rep E V T D self" "length D = logical_blocks (co_params self)"
    using assms(2) by (rule oram_invE)
  obtain l rng where l: "random_leaf (e_next_u64 E) (co_params self) (co_rng self) = (l, rng)" by fastforce
  from circuit_env_spec.access_runs [OF assms(1) T(1), of i update l rng] assms(3-5) l T(2)
    record_access_overflow [OF assms(6)]
  show ?thesis by (auto simp: oram_inv_def oram_rep_def)
qed

theorem access_counter_overflow_witness:
  "\<exists>self'. access mem_env 0 (\<lambda>_. [9])
      (small_oram\<lparr>co_schedule := (schedule_new small_params)\<lparr>issued_accesses := - 1\<rparr>\<rparr>) =
    (Inl (InvalidInput ''access counter overflow''), self') \<and> oram_inv mem_env mem_views [[9], [8]] self'"
proof -
  let ?self = "small_oram\<lparr>co_schedule := (schedule_new small_params)\<lparr>issued_accesses := - 1\<rparr>\<rparr>"
  have inv: "oram_inv mem_env mem_views small_blocks ?self"
    using small_oram_ok(2) by (simp add: oram_inv_def oram_rep_def)
  have "access_fits 0 (co_stash ?self)"
    using access_fits_roomy [OF small_oram_ok(2)] by (simp add: small_oram_ok(3) small_params_simps)
  from access_counter_overflow [OF mem_circuit.circuit_env_spec_axioms inv _ this, of "\<lambda>_. [9]"]
  show ?thesis by (simp add: small_oram_ok(3) small_params_simps) (auto simp: small_blocks_def)
qed

section \<open>Batches, dummy accesses and background eviction\<close>

text \<open>
  C3. A batch of accesses behaves as its accesses one after the other: the outputs and the final
  array are those of the sequential specification, also when ids repeat and when the closure keeps
  state between the calls, although the batch reads and writes every tree page at most once.
\<close>

theorem access_batch_sequential:
  assumes "circuit_env_spec E V" and "oram_inv E V D self" and "\<forall>i \<in> set ids. unat i < length D"
    and "occupied_count (co_stash self) + length ids \<le> stash_capacity (co_params self) \<or>
      logical_blocks (co_params self) < stash_capacity (co_params self)"
    and "\<forall>f i d. length d = block_size (co_params self) \<longrightarrow> length (fst (update f i d)) = block_size (co_params self)"
    and "unat (issued_accesses (co_schedule self)) + length ids < 2 ^ 64"
    and "batch_spec update ids f D = (outputs, D')"
  shows "\<exists>self'. access_batch E ids update f self = (Inr outputs, self') \<and> oram_inv E V D' self' \<and>
    co_params self' = co_params self \<and> co_schedule self' = (co_schedule self)
      \<lparr>issued_accesses := issued_accesses (co_schedule self) + word_of_nat (length ids)\<rparr>"
proof (cases "ids = []")
  case True
  then show ?thesis using assms(2,7) by (simp add: access_batch_def comp_simps)
next
  case False
  obtain T where T: "oram_rep E V T D self" "length D = logical_blocks (co_params self)"
    using assms(2) by (rule oram_invE)
  obtain ls rng where l: "random_leaves (e_next_u64 E) (co_params self) (length ids) (co_rng self) = (ls, rng)"
    by fastforce
  from circuit_env_spec.access_batch_ok [OF assms(1) T(1) refl False _ assms(4) _ assms(6) l, of update f]
    assms(3,5,7) T(2)
  show ?thesis by (auto simp: oram_inv_def oram_rep_def)
qed

theorem access_batch_sequential_witness:
  "\<exists>self'. access_batch mem_env [1, 0, 1] (\<lambda>n i d. ([n], n + 1)) 3 small_oram = (Inr [[8], [7], [3]], self') \<and>
    oram_inv mem_env mem_views [[4], [5]] self'"
proof -
  have "batch_spec (\<lambda>n i d. ([n], n + 1)) [1, 0, 1] 3 small_blocks = ([[8], [7], [3]], [[4], [5]])"
    by (simp add: small_blocks_def)
  from access_batch_sequential [OF mem_circuit.circuit_env_spec_axioms small_oram_ok(2) _ _ _ _ this]
  show ?thesis by (simp add: small_params_simps small_oram_ok schedule_new_def with_rate_def) blast
qed

text \<open>
  C11. Dummy accesses, in a batch of any size, succeed and leave the array alone. Of the controller
  they change only the two stores, the generator, which draws one leaf for each of them, and the
  counter of accesses, which grows by their number; position map, stash and the other counters of
  the schedule stay as they are.
\<close>

theorem dummy_batch_preserves:
  assumes "circuit_env_spec E V" and "oram_inv E V D self"
    and "unat (issued_accesses (co_schedule self)) + n < 2 ^ 64"
  shows "\<exists>m q self'. dummy_access_batch E n self = (Inr (), self') \<and> oram_inv E V D self' \<and>
    self' = self\<lparr>co_meta_store := m, co_payload_store := q,
      co_rng := snd (random_leaves (e_next_u64 E) (co_params self) n (co_rng self)),
      co_schedule := (co_schedule self)\<lparr>issued_accesses := issued_accesses (co_schedule self) + word_of_nat n\<rparr>\<rparr>"
proof (cases "n = 0")
  case True
  then show ?thesis using assms(2)
    by (intro exI [of _ "co_meta_store self"] exI [of _ "co_payload_store self"] exI [of _ self])
      (simp add: dummy_access_batch_def comp_simps)
next
  case False
  obtain T where T: "oram_rep E V T D self" using assms(2) by (auto simp: oram_inv_def)
  obtain ls rng where l: "random_leaves (e_next_u64 E) (co_params self) n (co_rng self) = (ls, rng)" by fastforce
  from circuit_env_spec.dummy_access_batch_ok [OF assms(1) T assms(3) l] False obtain m q where run:
    "dummy_access_batch E n self = (Inr (), self\<lparr>co_rng := rng, co_meta_store := m, co_payload_store := q,
      co_schedule := (co_schedule self)\<lparr>issued_accesses := issued_accesses (co_schedule self) + word_of_nat n\<rparr>\<rparr>)"
    "stores_hold E V (co_params self) T m q" by blast
  let ?self = "self\<lparr>co_rng := rng, co_meta_store := m, co_payload_store := q,
      co_schedule := (co_schedule self)\<lparr>issued_accesses := issued_accesses (co_schedule self) + word_of_nat n\<rparr>\<rparr>"
  have "oram_inv E V D ?self" using T run(2) by (auto simp: oram_inv_def oram_rep_def)
  with run(1) l show ?thesis by (intro exI [of _ m] exI [of _ q] exI [of _ ?self]) simp
qed

theorem dummy_batch_preserves_witness:
  "\<exists>self'. dummy_access_batch mem_env 5 full_oram = (Inr (), self') \<and> oram_inv mem_env mem_views full_blocks self' \<and>
    co_stash self' = co_stash full_oram"
  using dummy_batch_preserves [OF mem_circuit.circuit_env_spec_axioms full_oram_ok, of 5]
  by (auto simp: full_oram_def schedule_new_def with_rate_def)

text \<open>
  C4. Draining evictions never fails on a consistent schedule, however full the stash is: it evicts
  \<open>min budget debt\<close> paths of the public order, keeps the array, never makes the stash fuller, and
  reports and books exactly that many completed evictions.
\<close>

theorem drain_evictions_correct:
  assumes "circuit_env_spec E V" and "oram_inv E V D self" and "schedule_ok (co_schedule self)"
    and "n = min (unat budget) (debt (co_schedule self))"
  shows "\<exists>self'. drain_evictions E budget self = (Inr (word_of_nat n), self') \<and> oram_inv E V D self' \<and>
    co_params self' = co_params self \<and> co_pos_map self' = co_pos_map self \<and>
    occupied_count (co_stash self') \<le> occupied_count (co_stash self) \<and>
    schedule_ok (co_schedule self') \<and> debt (co_schedule self') = debt (co_schedule self) - n \<and>
    completed_evictions (co_schedule self') = completed_evictions (co_schedule self) + word_of_nat n"
proof -
  obtain T where T: "oram_rep E V T D self" using assms(2) by (auto simp: oram_inv_def)
  have "n \<le> debt (co_schedule self)" using assms(4) by simp
  with schedule_advance [OF assms(3) this] circuit_env_spec.drain_evictions_ok [OF assms(1) T assms(3,4)]
  show ?thesis by (fastforce simp: oram_inv_def oram_rep_def)
qed

theorem drain_evictions_correct_witness:
  "\<exists>self'. drain_evictions mem_env 3 (full_oram\<lparr>co_schedule := (schedule_new full_params)\<lparr>issued_accesses := 2\<rparr>\<rparr>) =
      (Inr 3, self') \<and> oram_inv mem_env mem_views full_blocks self' \<and> debt (co_schedule self') = 1"
proof -
  let ?s = "(schedule_new full_params)\<lparr>issued_accesses := 2\<rparr>"
  let ?self = "full_oram\<lparr>co_schedule := ?s\<rparr>"
  have inv: "oram_inv mem_env mem_views full_blocks ?self"
    using full_oram_ok by (simp add: oram_inv_def oram_rep_def)
  have s: "schedule_ok ?s" "debt ?s = 4"
    by (simp_all add: schedule_ok_def debt_def schedule_new_def with_rate_def DEFAULT_EVICTIONS_PER_ACCESS_def)
  then have "3 = min (unat (3 :: u64)) (debt (co_schedule ?self))" by simp
  from drain_evictions_correct [OF mem_circuit.circuit_env_spec_axioms inv _ this] s
  show ?thesis by auto
qed

section \<open>Snapshots\<close>

text \<open>
  C9. Reopening the stores with a controller's own snapshot gives the same controller back: all
  validation passes, the roots of authenticated stores included, and no field changes.
\<close>

theorem snapshot_roundtrip:
  assumes "circuit_env_spec E V" and "oram_inv E V D self" and "schedule_ok (co_schedule self)"
    and "s_leaf_bits (co_schedule self) = leaf_bits (co_params self)"
  shows "from_state E (co_meta_store self) (co_payload_store self) (snapshot E self) = Inr self"
  using assms circuit_env_spec.from_snapshot by (auto simp: oram_inv_def)

theorem snapshot_roundtrip_witness:
  "from_state mem_env (co_meta_store full_oram) (co_payload_store full_oram) (snapshot mem_env full_oram) =
    Inr full_oram"
  by (rule snapshot_roundtrip [OF mem_circuit.circuit_env_spec_axioms full_oram_ok])
    (simp_all add: full_oram_def schedule_new_def schedule_ok_new, simp add: with_rate_def)

text \<open>
  C10. A state file bound to authentication roots opens only with stores that show those very roots,
  and a state that opens has a position map and a stash within the tree, a stash filled up to its
  capacity, and a schedule that is not overdrawn.
\<close>

theorem from_state_safe:
  assumes "subtle_spec (e_ct E)" and "from_state E m q state = Inr self"
  shows "(\<forall>a. cs_auth state = Some a \<longrightarrow> store_auth_state_from_stores (e_meta E) m (e_payload E) q = Some a) \<and>
    length (co_pos_map self) = logical_blocks (co_params self) \<and>
    (\<forall>l \<in> set (co_pos_map self). unat l < leaves (co_params self)) \<and>
    stash_ok (co_params self) (co_stash self) \<and> schedule_ok (co_schedule self) \<and>
    pp_page_count (e_meta E) m = bucket_count (co_params self) \<and>
    pp_page_count (e_payload E) q = bucket_count (co_params self)"
proof -
  let ?p = "cs_params state" and ?st = "pad_stash (cs_params state) (cs_stash state)"
  have stores: "validate_circuit_stores ?p (e_meta E) m (e_payload E) q = Inr ()"
    and state: "validate_circuit_state ?p (cs_pos_map state) (cs_stash state) (cs_schedule state) = Inr ()"
    and auth: "validate_bound_auth_state (cs_auth state) (e_meta E) m (e_payload E) q = Inr ()"
    and chk: "check_stash (e_ct E) ?p ?st = Inr ()"
    and self: "co_params self = ?p" "co_pos_map self = cs_pos_map state" "co_stash self = ?st"
      "co_schedule self = cs_schedule state"
    using assms(2) by (auto simp: from_state_def Let_def)
  have "length ?st = stash_capacity ?p"
    using chk by (simp add: check_stash_def Let_def split: if_splits)
  moreover have "b \<in> set ?st \<Longrightarrow> b \<in> set (cs_stash state) \<or> b = dummy (block_size ?p)" for b
    by (auto simp: pad_stash_def split: if_splits)
  then have "\<forall>b \<in> set ?st. length (b_payload b) = block_size ?p \<and> (b_occupied b \<longrightarrow> unat (b_leaf b) < leaves ?p)"
    using state by (fastforce simp: validate_circuit_state_iff dummy_def)
  ultimately have "stash_ok ?p ?st" by (auto simp: stash_ok_def stash_wf_def)
  moreover have "\<forall>a. cs_auth state = Some a \<longrightarrow> store_auth_state_from_stores (e_meta E) m (e_payload E) q = Some a"
    using auth by (auto simp: validate_bound_auth_state_def ok_or_def split: option.splits if_splits)
  moreover have "pp_page_count (e_meta E) m = bucket_count ?p \<and> pp_page_count (e_payload E) q = bucket_count ?p"
    using stores by (auto simp: validate_circuit_stores_def split: if_splits)
  ultimately show ?thesis using state self by (simp add: validate_circuit_state_iff)
qed

theorem from_state_safe_witness:
  "stash_ok full_params (co_stash full_oram) \<and> schedule_ok (co_schedule full_oram) \<and>
    length (co_pos_map full_oram) = 3"
proof -
  have spec: "subtle_spec (e_ct mem_env)" by (simp add: mem_env_def bit_choice.subtle_spec_axioms)
  obtain T where T: "oram_rep mem_env mem_views T full_blocks full_oram" using full_oram_ok by (auto simp: oram_inv_def)
  have "from_state mem_env (co_meta_store full_oram) (co_payload_store full_oram) (snapshot mem_env full_oram) =
      Inr full_oram"
    by (rule mem_circuit.from_snapshot [OF T])
      (simp_all add: full_oram_def schedule_new_def schedule_ok_new, simp add: with_rate_def)
  from from_state_safe [OF spec this] show ?thesis by (simp add: full_oram_def full_params_simps)
qed

section \<open>Whole runs\<close>

text \<open>The operations of a client, what they run, and what they mean on the array.\<close>

datatype oram_op =
    Access u64 "bytes \<Rightarrow> bytes"
  | Batch "u64 list" "u64 \<Rightarrow> bytes \<Rightarrow> bytes"
  | Dummies nat
  | Drain u64
  | Flush

fun run_op :: "('c, 'm, 'p, 'r) circuit_env \<Rightarrow> oram_op \<Rightarrow> (('m, 'p, 'r) circuit_oram, bytes list) comp" where
  "run_op E (Access i f) = bnd (access E i f) (\<lambda>d. ret [d])"
| "run_op E (Batch ids f) = access_batch E ids (\<lambda>u i d. (f i d, u)) ()"
| "run_op E (Dummies n) = bnd (dummy_access_batch E n) (\<lambda>_. ret [])"
| "run_op E (Drain budget) = bnd (drain_evictions E budget) (\<lambda>_. ret [])"
| "run_op E Flush = bnd (oram_flush E) (\<lambda>_. ret [])"

fun spec_op :: "oram_op \<Rightarrow> bytes list \<Rightarrow> bytes list \<times> bytes list" where
  "spec_op (Access i f) D = ([D ! unat i], D[unat i := f (D ! unat i)])"
| "spec_op (Batch ids f) D = batch_spec (\<lambda>u i d. (f i d, u)) ids () D"
| "spec_op _ D = ([], D)"

fun spec_ops :: "oram_op list \<Rightarrow> bytes list \<Rightarrow> bytes list list \<times> bytes list" where
  "spec_ops [] D = ([], D)"
| "spec_ops (op # ops) D =
     (let (out, D) = spec_op op D; (outs, D) = spec_ops ops D in (out # outs, D))"

text \<open>An operation on ids of the array that keeps the payload size, and the accesses it counts.\<close>

fun op_ok :: "oram_params \<Rightarrow> oram_op \<Rightarrow> bool" where
  "op_ok p (Access i f) \<longleftrightarrow>
     unat i < logical_blocks p \<and> (\<forall>d. length d = block_size p \<longrightarrow> length (f d) = block_size p)"
| "op_ok p (Batch ids f) \<longleftrightarrow>
     (\<forall>i \<in> set ids. unat i < logical_blocks p) \<and>
     (\<forall>i d. length d = block_size p \<longrightarrow> length (f i d) = block_size p)"
| "op_ok p _ \<longleftrightarrow> True"

fun op_cost :: "oram_op \<Rightarrow> nat" where
  "op_cost (Access i f) = 1"
| "op_cost (Batch ids f) = length ids"
| "op_cost (Dummies n) = n"
| "op_cost _ = 0"

text \<open>The schedule can still count \<open>n\<close> accesses and their evictions.\<close>

definition schedule_room :: "schedule \<Rightarrow> nat \<Rightarrow> bool" where
  "schedule_room s n \<longleftrightarrow> schedule_ok s \<and> unat (issued_accesses s) + n < 2 ^ 64 \<and>
     (unat (issued_accesses s) + n) * unat (evictions_per_access s) < 2 ^ 64"

lemma schedule_room_issue:
  assumes "schedule_room s (k + n)"
  shows "schedule_room (s\<lparr>issued_accesses := issued_accesses s + word_of_nat k\<rparr>) n"
proof -
  let ?i = "unat (issued_accesses s)" and ?r = "unat (evictions_per_access s)"
  have "?i + k < 2 ^ 64" using assms by (simp add: schedule_room_def)
  then have un: "unat (issued_accesses s + word_of_nat k) = ?i + k" by (simp add: unat_word_ariths)
  have le: "?i * ?r \<le> (?i + k) * ?r" "(?i + k) * ?r \<le> (?i + (k + n)) * ?r" by (intro mult_le_mono1; simp)+
  have room: "unat (completed_evictions s) \<le> ?i * ?r" "?i + (k + n) < 2 ^ 64" "(?i + (k + n)) * ?r < 2 ^ 64"
    using assms by (simp_all add: schedule_room_def schedule_ok_def)
  then have "(?i + k) * ?r < 2 ^ 64" "unat (completed_evictions s) \<le> (?i + k) * ?r" using le by linarith+
  with room un show ?thesis by (simp add: schedule_room_def schedule_ok_def add.assoc)
qed

lemma schedule_room_complete:
  "schedule_room s n \<Longrightarrow> m \<le> debt s \<Longrightarrow>
    schedule_room (s\<lparr>completed_evictions := completed_evictions s + word_of_nat m\<rparr>) n"
  using schedule_advance [of s m] by (simp add: schedule_room_def)

lemma run_op_refines:
  assumes "circuit_env_spec E V" and "oram_inv E V D self"
    and "logical_blocks (co_params self) < stash_capacity (co_params self)"
    and "op_ok (co_params self) op" and "schedule_room (co_schedule self) (op_cost op + n)"
    and "spec_op op D = (out, D')"
  shows "\<exists>self'. run_op E op self = (Inr out, self') \<and> oram_inv E V D' self' \<and>
    co_params self' = co_params self \<and> schedule_room (co_schedule self') n \<and>
    s_leaf_bits (co_schedule self') = s_leaf_bits (co_schedule self)"
proof -
  obtain T where T: "oram_rep E V T D self" "length D = logical_blocks (co_params self)"
    "\<And>i. i < length D \<Longrightarrow> length (D ! i) = block_size (co_params self)"
    using oram_invE [OF assms(2)] by blast
  note room = schedule_room_issue [OF assms(5)]
  show ?thesis
  proof (cases op)
    case (Access i f)
    obtain l rng where l: "random_leaf (e_next_u64 E) (co_params self) (co_rng self) = (l, rng)" by fastforce
    have "unat (issued_accesses (co_schedule self)) + 1 < 2 ^ 64"
      using assms(5) Access by (simp add: schedule_room_def)
    with circuit_env_spec.access_runs [OF assms(1) T(1), of i f l rng] l T access_fits_roomy [OF assms(2,3)]
      assms(4,6) Access room
    show ?thesis by (auto simp: oram_inv_def oram_rep_def comp_simps record_access_eq)
  next
    case (Batch ids f)
    show ?thesis
    proof (cases "ids = []")
      case True
      then show ?thesis using assms(2,5,6) Batch by (auto simp: access_batch_def comp_simps)
    next
      case False
      obtain ls rng where "random_leaves (e_next_u64 E) (co_params self) (length ids) (co_rng self) = (ls, rng)"
        by fastforce
      moreover have "unat (issued_accesses (co_schedule self)) + length ids < 2 ^ 64"
        using assms(5) Batch by (simp add: schedule_room_def)
      ultimately show ?thesis
        using circuit_env_spec.access_batch_ok [OF assms(1) T(1) refl False, of "\<lambda>u i d. (f i d, u)" ls rng "()"]
          assms(3,4,6) Batch room
        by (auto simp: oram_inv_def oram_rep_def)
    qed
  next
    case (Dummies k)
    show ?thesis
    proof (cases "k = 0")
      case True
      then show ?thesis using assms(2,5,6) Dummies by (auto simp: dummy_access_batch_def comp_simps)
    next
      case False
      obtain ls rng where "random_leaves (e_next_u64 E) (co_params self) k (co_rng self) = (ls, rng)" by fastforce
      moreover have "unat (issued_accesses (co_schedule self)) + k < 2 ^ 64"
        using assms(5) Dummies by (simp add: schedule_room_def)
      ultimately obtain m q where "dummy_access_batch E k self = (Inr (), self\<lparr>co_rng := rng, co_meta_store := m,
          co_payload_store := q, co_schedule := (co_schedule self)
            \<lparr>issued_accesses := issued_accesses (co_schedule self) + word_of_nat k\<rparr>\<rparr>)"
        "stores_hold E V (co_params self) T m q"
        using circuit_env_spec.dummy_access_batch_ok [OF assms(1) T(1)] False by blast
      then show ?thesis using T(1) assms(6) Dummies room by (auto simp: oram_inv_def oram_rep_def comp_simps)
    qed
  next
    case (Drain budget)
    have ok: "schedule_ok (co_schedule self)" using assms(5) by (simp add: schedule_room_def)
    obtain m q stash T' where "drain_evictions E budget self =
        (Inr (word_of_nat (min (unat budget) (debt (co_schedule self)))), self\<lparr>co_meta_store := m, co_payload_store := q,
          co_stash := stash, co_schedule := (co_schedule self)\<lparr>completed_evictions :=
            completed_evictions (co_schedule self) + word_of_nat (min (unat budget) (debt (co_schedule self)))\<rparr>\<rparr>)"
      "stores_hold E V (co_params self) T' m q" "logical_inv (co_params self) T' D (co_pos_map self) stash"
      using circuit_env_spec.drain_evictions_ok [OF assms(1) T(1) ok refl] by blast
    with schedule_room_complete [of "co_schedule self" n] assms(5,6) Drain show ?thesis
      by (auto simp: oram_inv_def oram_rep_def comp_simps)
  next
    case Flush
    obtain m q where "oram_flush E self = (Inr (), self\<lparr>co_meta_store := m, co_payload_store := q\<rparr>)"
      "stores_hold E V (co_params self) T m q"
      using circuit_env_spec.flush_ok [OF assms(1) T(1)] by blast
    then show ?thesis using T(1) assms(5,6) Flush by (auto simp: oram_inv_def oram_rep_def comp_simps)
  qed
qed

text \<open>
  C1. Refinement of the whole controller: any sequence of accesses, batches, dummy batches,
  evictions and flushes runs without an error and returns what the same operations return on a
  plain array, when the stash is larger than the array and the counters do not run out. In
  particular every read returns the last value written.
\<close>

theorem runs_refine_array:
  assumes "circuit_env_spec E V" and "oram_inv E V D self"
    and "logical_blocks (co_params self) < stash_capacity (co_params self)"
    and "\<forall>op \<in> set ops. op_ok (co_params self) op"
    and "schedule_room (co_schedule self) (sum_list (map op_cost ops))"
    and "spec_ops ops D = (outs, D')"
  shows "\<exists>self'. cmapM (run_op E) ops self = (Inr outs, self') \<and> oram_inv E V D' self'"
  using assms(2-)
proof (induction ops arbitrary: D self outs)
  case Nil
  then show ?case by (simp add: comp_simps)
next
  case (Cons op ops)
  obtain out D1 outs' where spec: "spec_op op D = (out, D1)" "spec_ops ops D1 = (outs', D')" "outs = out # outs'"
    using Cons.prems(5) by (auto split: prod.splits)
  have "op_ok (co_params self) op" "schedule_room (co_schedule self) (op_cost op + sum_list (map op_cost ops))"
    using Cons.prems(3,4) by simp_all
  from run_op_refines [OF assms(1) Cons.prems(1,2) this spec(1)] obtain self1 where
    1: "run_op E op self = (Inr out, self1)" "oram_inv E V D1 self1"
      "co_params self1 = co_params self" "schedule_room (co_schedule self1) (sum_list (map op_cost ops))"
    by blast
  with Cons.IH [of D1 self1 outs'] Cons.prems spec show ?case by (auto simp: comp_simps)
qed

theorem runs_refine_array_witness:
  "\<exists>self'. cmapM (run_op mem_env)
      [Access 0 (\<lambda>_. [5]), Drain 2, Batch [1, 0] (\<lambda>i d. d), Dummies 4, Flush, Access 0 (\<lambda>d. d)] small_oram =
    (Inr [[[7]], [], [[8], [5]], [], [], [[5]]], self') \<and> oram_inv mem_env mem_views [[5], [8]] self'"
proof (rule runs_refine_array [OF mem_circuit.circuit_env_spec_axioms small_oram_ok(2)])
  show "schedule_room (co_schedule small_oram) (sum_list (map op_cost
      [Access 0 (\<lambda>_. [5]), Drain 2, Batch [1, 0] (\<lambda>i d. d), Dummies 4, Flush, Access 0 (\<lambda>d. d)]))"
    by (simp add: small_oram_ok(4) schedule_room_def schedule_new_def schedule_ok_new)
      (simp add: with_rate_def DEFAULT_EVICTIONS_PER_ACCESS_def)
qed (simp_all add: small_oram_ok(3) small_params_simps, simp add: small_blocks_def)

end
