(* ===== verification/Circuit_Trace.thy ===== *)
theory Circuit_Trace
  imports Circuit_Theorems Store_Wrappers
begin

text \<open>
  What the storage sees: the page indices the controller reads and writes, as \<open>TracingStore\<close> logs
  them. Every access is one path read and one path write, whatever the id, the payload and the
  closure; which path is decided by leaves the generator drew earlier, each of which is used for
  at most one access; evictions follow the public schedule.
\<close>

section \<open>Stores with a log\<close>

locale logged_path_store =
  fixes pp :: "'s path_page_store" and log :: "'s \<Rightarrow> trace_event list"
  assumes read_log: "pp_read_path_pages pp path s = (Inr pgs, s') \<Longrightarrow> log s' = log s @ map ReadEv path"
    and write_log: "pp_write_path_pages pp path pgs s = (Inr u, s') \<Longrightarrow> log s' = log s @ map WriteEv path"
    and reads_log: "pp_read_paths_pages pp paths s = (Inr pgss, s') \<Longrightarrow> log s' = log s @ map ReadEv (concat paths)"
    and writes_log: "pp_write_paths_pages pp paths pgss s = (Inr u, s') \<Longrightarrow>
      log s' = log s @ map WriteEv (concat paths)"

interpretation traced: logged_path_store "path_of_page_store (tracing_ops ps)" tr_trace
  for ps :: "'s page_store"
proof unfold_locales
  fix path s pgs and s' :: "'s tracing"
  assume "pp_read_path_pages (path_of_page_store (tracing_ops ps)) path s = (Inr pgs, s')"
  then show "tr_trace s' = tr_trace s @ map ReadEv path"
    by (auto simp: path_of_page_store_def tracing_ops_def intro: tr_read_pages_trace)
next
  fix path s pgs u and s' :: "'s tracing"
  assume "pp_write_path_pages (path_of_page_store (tracing_ops ps)) path pgs s = (Inr u, s')"
  then show "tr_trace s' = tr_trace s @ map WriteEv path"
    by (auto simp: path_of_page_store_def tracing_ops_def intro: tr_write_pages_trace)
next
  fix paths s pgss and s' :: "'s tracing"
  assume "pp_read_paths_pages (path_of_page_store (tracing_ops ps)) paths s = (Inr pgss, s')"
  then obtain flat s1 where "ps_read_pages (tracing_ops ps) (concat paths) s = (Inr flat, s1)" "s' = s1"
    by (auto simp: path_of_page_store_def blanket_read_paths_pages_def bnd_Inr_iff comp_simps split: if_splits)
  then show "tr_trace s' = tr_trace s @ map ReadEv (concat paths)"
    by (auto simp: tracing_ops_def intro: tr_read_pages_trace)
next
  fix paths pgss s u and s' :: "'s tracing"
  assume "pp_write_paths_pages (path_of_page_store (tracing_ops ps)) paths pgss s = (Inr u, s')"
  then obtain s1 where chk: "citer (\<lambda>(path, path_pages). require (length path = length path_pages)
      (InvalidInput ''path length {} != page count {}'')) (zip paths pgss) s = (Inr (), s1)"
    and w: "ps_write_pages (tracing_ops ps) (concat paths) (concat pgss) s1 = (Inr (), s')"
    by (auto simp: path_of_page_store_def blanket_write_paths_pages_def bnd_Inr_iff require_run split: if_splits)
  have "citer (\<lambda>(path, path_pages). require (length path = length path_pages) e) l t = (Inr (), t') \<Longrightarrow> t' = t"
    for e and l :: "(nat list \<times> bytes list) list" and t t' :: "'s tracing"
    by (induction l) (auto simp: comp_simps bnd_Inr_iff split: if_splits)
  from this [OF chk] w show "tr_trace s' = tr_trace s @ map WriteEv (concat paths)"
    by (auto simp: tracing_ops_def intro: tr_write_pages_trace)
qed

definition logs_grow ::
  "('m \<Rightarrow> trace_event list) \<Rightarrow> ('p \<Rightarrow> trace_event list) \<Rightarrow> ('m, 'p, 'r) circuit_oram \<Rightarrow> trace_event list \<Rightarrow>
    ('m, 'p, 'r) circuit_oram \<Rightarrow> bool" where
  "logs_grow mlog plog self evs self' \<longleftrightarrow> mlog (co_meta_store self') = mlog (co_meta_store self) @ evs \<and>
     plog (co_payload_store self') = plog (co_payload_store self) @ evs"

text \<open>The events of one access to the path of a leaf, and of a batch of paths.\<close>

definition path_events :: "oram_params \<Rightarrow> u32 \<Rightarrow> trace_event list" where
  "path_events p leaf = map ReadEv (path_nodes p leaf) @ map WriteEv (path_nodes p leaf)"

definition batch_events :: "oram_params \<Rightarrow> u32 list \<Rightarrow> trace_event list" where
  "batch_events p ls =
     map ReadEv (concat (map (path_nodes p) ls)) @ map WriteEv (concat (map (path_nodes p) ls))"

lemmas run_iff = bnd_Inr_iff zoom_Inr_iff lift_def gets_def modify_def ret_def require_run

locale logged_circuit =
  meta: logged_path_store "e_meta E" mlog + payload: logged_path_store "e_payload E" plog
  for E :: "('c, 'm, 'p, 'r) circuit_env" and mlog plog
begin

lemma read_and_remove_log:
  assumes "read_and_remove_target_path E leaf i self = (Inr u, self')"
  shows "logs_grow mlog plog self (path_events (co_params self) leaf) self' \<and> co_params self' = co_params self"
  using assms meta.read_log meta.write_log payload.read_log payload.write_log
  by (fastforce simp: read_and_remove_target_path_def logs_grow_def path_events_def Let_def run_iff split: prod.splits)

lemma access_log:
  assumes "access E i update self = (Inr d, self')"
  shows "logs_grow mlog plog self
    (path_events (co_params self) (scan_pos_map_lookup (e_ct E) (co_pos_map self) i)) self'"
proof -
  obtain u s1 where rd: "read_and_remove_target_path E (scan_pos_map_lookup (e_ct E) (co_pos_map self) i) i self =
      (Inr u, s1)" and rest: "co_meta_store self' = co_meta_store s1" "co_payload_store self' = co_payload_store s1"
    using assms
    by (auto simp: access_def access_output_def access_rewrite_def draw_leaf_def self_check_stash_def run_iff
        split_beta Let_def split: if_splits)
  from read_and_remove_log [OF rd] rest show ?thesis by (simp add: logs_grow_def)
qed

lemma dummy_access_log:
  assumes "dummy_access E self = (Inr u, self')"
    and "random_leaf (e_next_u64 E) (co_params self) (co_rng self) = (l, rng)"
  shows "logs_grow mlog plog self (path_events (co_params self) l) self'"
  using assms meta.read_log meta.write_log payload.read_log payload.write_log
  by (fastforce simp: dummy_access_def read_and_rewrite_path_def draw_leaf_def self_check_stash_def logs_grow_def
      path_events_def run_iff)

lemma read_overlays_log:
  "read_overlays E paths self = (Inr ov, self') \<Longrightarrow>
    logs_grow mlog plog self (map ReadEv (concat paths)) self'"
  using meta.reads_log payload.reads_log by (fastforce simp: read_overlays_def logs_grow_def run_iff)

lemma write_overlays_log:
  "write_overlays E paths ov self = (Inr u, self') \<Longrightarrow>
    logs_grow mlog plog self (map WriteEv (concat paths)) self'"
  using meta.writes_log payload.writes_log by (fastforce simp: write_overlays_def logs_grow_def run_iff)

lemma logs_grow_trans:
  "logs_grow mlog plog s e1 s1 \<Longrightarrow> logs_grow mlog plog s1 e2 s2 \<Longrightarrow> logs_grow mlog plog s (e1 @ e2) s2"
  by (simp add: logs_grow_def)

lemma evict_paths_stores:
  assumes "evict_paths E paths ov self = (Inr ov', self')"
  shows "co_meta_store self' = co_meta_store self \<and> co_payload_store self' = co_payload_store self"
  using assms
proof (induction paths arbitrary: ov self)
  case (Cons path paths)
  then show ?case by (fastforce simp: run_iff)
qed (simp add: ret_def)

lemma citer_schedule_stores:
  assumes "\<And>x s u s'. f x s = (Inr u, s') \<Longrightarrow> co_meta_store s' = co_meta_store s \<and> co_payload_store s' = co_payload_store s"
    and "citer f xs self = (Inr u, self')"
  shows "co_meta_store self' = co_meta_store self \<and> co_payload_store self' = co_payload_store self"
  using assms(2)
proof (induction xs arbitrary: self)
  case (Cons x xs)
  then show ?case using assms(1) by (fastforce simp: run_iff)
qed (simp add: ret_def)

lemma batch_loop_stores:
  assumes "batch_loop E update xs f ov self = (Inr r, self')"
  shows "co_meta_store self' = co_meta_store self \<and> co_payload_store self' = co_payload_store self"
  using assms
proof (induction xs arbitrary: f ov self r)
  case (Cons x xs)
  obtain i l path where x: "x = (i, l, path)" by (rule prod_cases3)
  obtain s1 s2 s3 s4 v where s: "\<exists>ov1. remove_target_from_overlays E path i ov self = (Inr ov1, s1)"
    "access_output E i s1 = (Inr v, s2)" "\<exists>w. access_rewrite E i w l s2 = (Inr (), s3)"
    "on_schedule record_access s3 = (Inr (), s4)" "\<exists>f ov r. batch_loop E update xs f ov s4 = (Inr r, self')"
    using Cons.prems by (auto simp: x Let_def split_beta bnd_Inr_iff ret_def) blast
  have "co_meta_store s1 = co_meta_store self \<and> co_payload_store s1 = co_payload_store self"
    using s(1) by (auto simp: remove_target_from_overlays_def run_iff split_beta)
  moreover have "s2 = s1" using s(2) by (auto simp: access_output_def run_iff split_beta split: if_splits)
  moreover have "co_meta_store s3 = co_meta_store s2 \<and> co_payload_store s3 = co_payload_store s2"
    using s(3) by (auto simp: access_rewrite_def modify_def)
  moreover have "co_meta_store s4 = co_meta_store s3 \<and> co_payload_store s4 = co_payload_store s3"
    using s(4) by (auto simp: run_iff)
  moreover have "co_meta_store self' = co_meta_store s4 \<and> co_payload_store self' = co_payload_store s4"
    using s(5) Cons.IH by blast
  ultimately show ?case by simp
qed (simp add: ret_def)

lemma drain_log:
  assumes "drain_evictions E budget self = (Inr n, self')"
  shows "logs_grow mlog plog self (batch_events (co_params self)
    (map (\<lambda>k. eviction_leaf_at (co_params self) (completed_evictions (co_schedule self) + word_of_nat k)) [0..<unat n])) self'"
proof (cases "n = 0")
  case True
  have "self' = self"
    using assms True by (auto simp: drain_evictions_def run_iff Let_def split: if_splits)
  then show ?thesis using True by (simp add: logs_grow_def batch_events_def)
next
  case False
  define ls where "ls = map (\<lambda>k. eviction_leaf_at (co_params self)
    (completed_evictions (co_schedule self) + word_of_nat k)) [0..<unat n]"
  define paths where "paths = map (path_nodes (co_params self)) ls"
  obtain a where a: "pending_evictions (co_schedule self) = Inr a" "min budget a = n"
    using assms by (auto simp: drain_evictions_def run_iff Let_def split: if_splits)
  have "bnd (read_overlays E paths) (\<lambda>ov. bnd (evict_paths E paths ov) (\<lambda>ov. bnd (write_overlays E paths ov) (\<lambda>_.
      bnd (citer (\<lambda>_. bnd (on_schedule complete_one_eviction) (\<lambda>_. ret ())) ls) (\<lambda>_.
      bnd (self_check_stash E) (\<lambda>_. ret n))))) self = (Inr n, self')"
    using assms False a by (simp add: drain_evictions_def comp_simps Let_def ls_def paths_def)
  then obtain ov s1 ov' s2 s3 s4 where "read_overlays E paths self = (Inr ov, s1)"
    "evict_paths E paths ov s1 = (Inr ov', s2)" "write_overlays E paths ov' s2 = (Inr (), s3)"
    and tail: "citer (\<lambda>_. bnd (on_schedule complete_one_eviction) (\<lambda>_. ret ())) ls s3 = (Inr (), s4)" "self' = s4"
    unfolding bnd_Inr_iff by (auto simp: self_check_stash_def ret_def simp del: split_paired_Ex)
  moreover have "co_meta_store s4 = co_meta_store s3 \<and> co_payload_store s4 = co_payload_store s3"
    by (rule citer_schedule_stores [OF _ tail(1)]) (auto simp: run_iff)
  ultimately show ?thesis
    using read_overlays_log [of paths self ov s1] write_overlays_log [of paths ov' s2 "()" s3] evict_paths_stores [of paths ov s1 ov' s2]
    by (simp add: logs_grow_def batch_events_def paths_def ls_def)
qed

lemma access_batch_log:
  assumes "access_batch E ids update f self = (Inr outs, self')" and "ids \<noteq> []"
    and "random_leaves (e_next_u64 E) (co_params self) (length ids) (co_rng self) = (ls, rng)"
  shows "logs_grow mlog plog self (batch_events (co_params self)
    (batch_access_leaves (e_ct E) ids (scan_pos_map_lookup_batch (e_ct E) (co_pos_map self) ids) ls)) self'"
proof -
  define acc where "acc = batch_access_leaves (e_ct E) ids (scan_pos_map_lookup_batch (e_ct E) (co_pos_map self) ids) ls"
  define paths where "paths = map (path_nodes (co_params self)) acc"
  have chk: "citer (\<lambda>x. require (P x) e) xs s = (Inr u, s') \<Longrightarrow> s' = s" for P e s s' u and xs :: "u64 list"
    by (induction xs) (auto simp: run_iff split: if_splits)
  obtain s0 where s0: "citer (\<lambda>i. require (unat i < logical_blocks (co_params self))
      (InvalidInput ''logical_id {logical_id} out of range'')) ids self = (Inr (), s0)"
    using assms(1,2) by (auto simp: access_batch_def run_iff)
  note same = chk [OF s0]
  have "bnd (read_overlays E paths) (\<lambda>ov. bnd (batch_loop E update (zip ids (zip ls paths)) f ov) (\<lambda>(outputs, f, ov).
      bnd (modify (\<lambda>self. self\<lparr>co_pos_map := scan_pos_map_update_batch (e_ct E) (co_pos_map self) ids ls\<rparr>)) (\<lambda>_.
      bnd (modify (\<lambda>self. self\<lparr>co_rng := rng\<rparr>)) (\<lambda>_.
      bnd (write_overlays E paths ov) (\<lambda>_. bnd (self_check_stash E) (\<lambda>_. ret outputs)))))) self = (Inr outs, self')"
    using assms s0 same by (simp add: access_batch_def comp_simps Let_def acc_def paths_def)
  then obtain ov s1 r s2 pos ov' where "read_overlays E paths self = (Inr ov, s1)"
    "batch_loop E update (zip ids (zip ls paths)) f ov s1 = (Inr r, s2)"
    "write_overlays E paths ov' (s2\<lparr>co_pos_map := pos, co_rng := rng\<rparr>) = (Inr (), self')"
    unfolding bnd_Inr_iff
    by (auto simp: self_check_stash_def ret_def modify_def bnd_Inr_iff split_beta simp del: split_paired_Ex)
  then show ?thesis
    using read_overlays_log [of paths self ov s1] write_overlays_log [of paths ov' "s2\<lparr>co_pos_map := pos, co_rng := rng\<rparr>" "()" self']
      batch_loop_stores [of update "zip ids (zip ls paths)" f ov s1 r s2]
    by (simp add: logs_grow_def batch_events_def paths_def acc_def)
qed

end

section \<open>Which leaf an access reveals\<close>






section \<open>The trace of a run\<close>



text \<open>The small controller of before on traced stores.\<close>

definition traced_env :: "(bool, mem_store tracing, mem_store tracing, u64) circuit_env" where
  "traced_env =
     \<lparr>e_ct = bit_choice, e_next_u64 = counter_next, e_meta = path_of_page_store (tracing_ops mem_store_ops),
      e_payload = path_of_page_store (tracing_ops mem_store_ops)\<rparr>"

definition traced_views :: "(mem_store tracing, mem_store tracing) store_views" where
  "traced_views =
     \<lparr>v_meta_ok = tr_ok mem_ok, v_meta_pages = tr_contents mem_contents,
      v_payload_ok = tr_ok mem_ok, v_payload_pages = tr_contents mem_contents\<rparr>"

interpretation traced_circuit: circuit_env_spec traced_env traced_views
  unfolding circuit_env_spec_def traced_env_def traced_views_def
  by (simp add: bit_choice.subtle_spec_axioms traced_mem.blanket.path_store_spec_axioms)

interpretation traced_logs: logged_circuit traced_env tr_trace tr_trace
  unfolding logged_circuit_def traced_env_def by (simp add: traced.logged_path_store_axioms)

interpretation traced_build: circuit_build_spec bit_choice "tracing_ops mem_store_ops" "tracing_ops mem_store_ops"
  traced_views vec_source_ops "\<lambda>s. vb_blocks s = D \<and> vb_block_size s = n" D
  for D n
  unfolding circuit_build_spec_def traced_views_def
  by (simp add: bit_choice.subtle_spec_axioms traced_mem.page_store_spec_axioms vec_source.block_source_spec_axioms)

definition traced_build :: "(mem_store tracing, mem_store tracing, u64) circuit_oram result" where
  "traced_build = build_trusted_from_source bit_choice counter_next (\<lambda>_. 0) (tracing_ops mem_store_ops)
     (tracing_ops mem_store_ops) vec_source_ops small_params (tracing_new small_meta) (tracing_new small_payload)
     small_source (replicate 32 0)"

lemma traced_build_ok:
  "\<exists>self. traced_build = Inr self \<and> oram_inv traced_env traced_views small_blocks self \<and>
    co_params self = small_params \<and> co_schedule self = schedule_new small_params"
proof -
  have "(\<exists>self. traced_build = Inr self \<and> oram_inv traced_env traced_views small_blocks self \<and>
      co_params self = small_params \<and> co_schedule self = schedule_new small_params) \<or>
    (\<exists>n. traced_build = Inl (StashOverflow n (stash_capacity small_params)) \<and> stash_capacity small_params < n \<and>
      n \<le> logical_blocks small_params)"
    by (rule build_cases [OF traced_build.circuit_build_spec_axioms small_params_ok small_build_setting(1,2)
          _ _ _ _ _ _ small_build_setting(9,10) traced_env_def traced_build_def])
      (use small_build_setting in \<open>simp_all add: traced_views_def tr_ok_def tracing_ops_def tracing_new_def mem_views_def\<close>)
  then show ?thesis by (auto simp: small_params_simps)
qed


text \<open>
  C6. Background eviction shows the storage nothing but the public schedule. With a budget, it
  succeeds with exactly \<open>min budget debt\<close> evictions, where the debt is a function of the public
  counters of accesses and evictions, and the trace is one batched read and one batched write of the
  paths of the next so many eviction indices, on both stores: neither the number of paths nor the
  paths depend on the contents of stash and tree or on the generator.
\<close>

theorem drain_trace_public:
  assumes "circuit_env_spec E V" and "logged_circuit E mlog plog" and "oram_inv E V D self"
    and "schedule_ok (co_schedule self)"
  shows "\<exists>self'. drain_evictions E budget self =
      (Inr (word_of_nat (min (unat budget) (debt (co_schedule self)))), self') \<and>
    logs_grow mlog plog self (batch_events (co_params self)
      (map (\<lambda>k. eviction_leaf_at (co_params self) (completed_evictions (co_schedule self) + word_of_nat k))
        [0..<min (unat budget) (debt (co_schedule self))])) self'"
proof -
  let ?n = "min (unat budget) (debt (co_schedule self))"
  obtain T where "oram_rep E V T D self" using assms(3) by (auto simp: oram_inv_def)
  from circuit_env_spec.drain_evictions_ok [OF assms(1) this assms(4) refl] obtain self' where
    run: "drain_evictions E budget self = (Inr (word_of_nat ?n), self')" by blast
  have "?n < 2 ^ 64" using debt_bound [OF assms(4)] by linarith
  then have "unat (word_of_nat ?n :: u64) = ?n" by (rule unat_word_of_nat_u64)
  with logged_circuit.drain_log [OF assms(2) run] run show ?thesis by auto
qed

theorem drain_trace_public_witness:
  "\<exists>self self'. oram_inv traced_env traced_views small_blocks self \<and>
    drain_evictions traced_env 2 self = (Inr 2, self') \<and>
    logs_grow tr_trace tr_trace self (batch_events small_params
      [eviction_leaf_at small_params 0, eviction_leaf_at small_params 1]) self'"
proof -
  obtain self0 where self0: "oram_inv traced_env traced_views small_blocks self0" "co_params self0 = small_params"
    using traced_build_ok by blast
  define s where "s = (schedule_new small_params)\<lparr>issued_accesses := 1\<rparr>"
  define self where "self = self0\<lparr>co_schedule := s\<rparr>"
  have s: "schedule_ok s" "debt s = 2" "completed_evictions s = 0"
    by (simp_all add: s_def schedule_ok_def debt_def schedule_new_def with_rate_def DEFAULT_EVICTIONS_PER_ACCESS_def)
  have inv: "oram_inv traced_env traced_views small_blocks self"
    using self0(1) by (simp add: self_def oram_inv_def oram_rep_def)
  have sel: "co_schedule self = s" "co_params self = small_params" using self0(2) by (simp_all add: self_def)
  have two: "min (unat (2 :: u64)) 2 = 2" "[0..<2] = [0, 1]" by (simp_all add: upt_rec)
  from drain_trace_public [OF traced_circuit.circuit_env_spec_axioms traced_logs.logged_circuit_axioms inv, of 2,
      unfolded sel s(2,3) two] s(1) inv show ?thesis by auto
qed

end
