(* ===== verification/Merkle_Hash.thy ===== *)
theory Merkle_Hash
  imports Page_Store
begin

text \<open>
  The hashes of src/src/merkle.rs and the tree they form. SHA-256 (crate \<open>sha2\<close>) is the parameter
  \<open>H\<close>: a function from byte strings to 32 bytes. The abstract object is \<open>tree_hash\<close>, the hash of a
  node of the complete binary tree over a list of leaves; what the stores keep is compared with it.
  A bounded output cannot be injective, so integrity rests on \<open>no_second_preimage\<close>: no other string
  has the hash of one of the finitely many strings the tree over the genuine pages was built from.
\<close>

section \<open>Hashing\<close>

definition LEAF_DOMAIN :: bytes where
  "LEAF_DOMAIN = byte_string ''bpir-oram-page-v1''"

definition EMPTY_LEAF_DOMAIN :: bytes where
  "EMPTY_LEAF_DOMAIN = byte_string ''bpir-oram-empty-page-v1''"

definition NODE_DOMAIN :: bytes where
  "NODE_DOMAIN = byte_string ''bpir-oram-node-v1''"

definition leaf_input :: "bytes \<Rightarrow> nat \<Rightarrow> bytes \<Rightarrow> bytes" where
  "leaf_input store_id page_idx page =
     LEAF_DOMAIN @ store_id @ u64_to_le_bytes (word_of_nat page_idx) @
     u64_to_le_bytes (word_of_nat (length page)) @ page"

definition node_input :: "nat \<Rightarrow> bytes \<Rightarrow> bytes \<Rightarrow> bytes" where
  "node_input node_idx left right =
     NODE_DOMAIN @ u64_to_le_bytes (word_of_nat node_idx) @ left @ right"

definition hash_leaf :: "(bytes \<Rightarrow> bytes) \<Rightarrow> bytes \<Rightarrow> nat \<Rightarrow> bytes \<Rightarrow> bytes" where
  "hash_leaf H store_id page_idx page = H (leaf_input store_id page_idx page)"

definition hash_empty_leaf :: "(bytes \<Rightarrow> bytes) \<Rightarrow> bytes \<Rightarrow> nat \<Rightarrow> nat \<Rightarrow> bytes" where
  "hash_empty_leaf H store_id page_idx page_size =
     H (EMPTY_LEAF_DOMAIN @ store_id @ u64_to_le_bytes (word_of_nat page_idx) @
        u64_to_le_bytes (word_of_nat page_size))"

definition hash_node :: "(bytes \<Rightarrow> bytes) \<Rightarrow> nat \<Rightarrow> bytes \<Rightarrow> bytes \<Rightarrow> bytes" where
  "hash_node H node_idx left right = H (node_input node_idx left right)"

text \<open>The comparison folds the differences of all bytes, without an early exit.\<close>

definition hash_eq :: "bytes \<Rightarrow> bytes \<Rightarrow> bool" where
  "hash_eq lhs rhs = (fold (\<lambda>(l, r) diff. diff OR (l XOR r)) (zip lhs rhs) 0 = 0)"

definition leaf_base_for_page_count :: "nat \<Rightarrow> nat result" where
  "leaf_base_for_page_count page_count =
     (if page_count = 0 then Inl (InvalidInput ''page_count must be > 0'')
      else ok_or (checked_next_power_of_two page_count) (InvalidInput ''page_count is too large''))"

definition sibling_node :: "nat \<Rightarrow> nat" where
  "sibling_node node_idx = node_idx XOR 1"

definition is_left_child :: "nat \<Rightarrow> bool" where
  "is_left_child node_idx \<longleftrightarrow> node_idx AND 1 = 0"

text \<open>The step both walks to the root take: the hash of the parent from a node and its sibling.\<close>

definition parent_hash :: "(bytes \<Rightarrow> bytes) \<Rightarrow> nat \<Rightarrow> bytes \<Rightarrow> bytes \<Rightarrow> bytes" where
  "parent_hash H node_idx current sibling =
     (let parent_idx = node_idx div 2
      in if is_left_child node_idx then hash_node H parent_idx current sibling
         else hash_node H parent_idx sibling current)"

section \<open>Facts on the helpers\<close>

lemma is_left_child_iff: "is_left_child n \<longleftrightarrow> even n"
  by (auto simp: is_left_child_def and_one_eq even_iff_mod_2_eq_zero)

lemma sibling_node_eq: "sibling_node n = (if even n then n + 1 else n - 1)"
  unfolding sibling_node_def xor_one_eq by simp

lemma hash_eq_zero:
  "fold (\<lambda>(l, r) diff. diff OR (l XOR r)) xs (d :: u8) = 0 \<longleftrightarrow> d = 0 \<and> (\<forall>(l, r) \<in> set xs. l = r)"
proof (induction xs arbitrary: d)
  case (Cons x xs)
  obtain l r where x: "x = (l, r)" by (cases x)
  have "l XOR r = 0 \<longleftrightarrow> l = r" by (auto simp: bit_eq_iff bit_simps)
  then show ?case using Cons [of "d OR (l XOR r)"] x by (auto simp: or_eq_0_iff)
qed simp

lemma hash_eq_iff: "length lhs = length rhs \<Longrightarrow> hash_eq lhs rhs \<longleftrightarrow> lhs = rhs"
  unfolding hash_eq_def hash_eq_zero
  by (induction lhs rhs rule: list_induct2) auto

lemma leaf_base_ok:
  assumes "leaf_base_for_page_count n = Inr lb"
  shows "n \<le> lb" "0 < lb" "\<exists>h. lb = 2 ^ h" "lb < 2 ^ 64"
  using assms pow2_at_least_ge [of 1 n] pow2_at_least_power [of 1 n] is_power_of_two.simps [of 1]
  by (auto simp: leaf_base_for_page_count_def checked_next_power_of_two_def Let_def ok_or_def
      is_power_of_two_iff [symmetric] split: if_splits option.splits)

lemma checked_next_power_of_two_fits:
  assumes "0 < n" and "n \<le> 2 ^ 63"
  shows "\<exists>lb. checked_next_power_of_two n = Some lb \<and> n \<le> lb \<and> 0 < lb"
proof -
  have "pow2_at_least 1 n < 2 ^ 64"
  proof (cases "n = 1")
    case True
    then show ?thesis by (simp add: pow2_at_least.simps)
  next
    case False
    with assms pow2_at_least_less [of 1 n] show ?thesis by simp
  qed
  with pow2_at_least_ge [of 1 n] show ?thesis by (auto simp: checked_next_power_of_two_def Let_def)
qed

lemma leaf_input_inj: "leaf_input sid i p = leaf_input sid i q \<Longrightarrow> p = q"
  by (simp add: leaf_input_def)

lemma node_input_inj:
  "node_input n l r = node_input n l' r' \<Longrightarrow> length l = length l' \<Longrightarrow> l = l' \<and> r = r'"
  by (simp add: node_input_def)

section \<open>The tree\<close>

text \<open>
  Nodes are numbered as in a heap: the root is 1, the children of \<open>n\<close> are \<open>2 n\<close> and \<open>2 n + 1\<close>, the
  leaf of page \<open>i\<close> is \<open>leaf_base + i\<close>.
\<close>

function tree_hash :: "(bytes \<Rightarrow> bytes) \<Rightarrow> nat \<Rightarrow> (nat \<Rightarrow> bytes) \<Rightarrow> nat \<Rightarrow> bytes" where
  "tree_hash H leaf_base leaf n =
     (if 0 < n \<and> n < leaf_base then
        hash_node H n (tree_hash H leaf_base leaf (2 * n)) (tree_hash H leaf_base leaf (2 * n + 1))
      else leaf (n - leaf_base))"
  by pat_completeness auto
termination
  by (relation "measure (\<lambda>(H, leaf_base, leaf, n). 2 * leaf_base - n)") auto

declare tree_hash.simps [simp del]

definition page_leaf :: "(bytes \<Rightarrow> bytes) \<Rightarrow> bytes \<Rightarrow> nat \<Rightarrow> nat \<Rightarrow> (nat \<Rightarrow> bytes) \<Rightarrow> nat \<Rightarrow> bytes" where
  "page_leaf H store_id page_count page_size D i =
     (if i < page_count then hash_leaf H store_id i (D i) else hash_empty_leaf H store_id i page_size)"

lemma tree_hash_leaf: "leaf_base \<le> n \<Longrightarrow> tree_hash H leaf_base leaf n = leaf (n - leaf_base)"
  by (subst tree_hash.simps) simp

lemma tree_hash_node:
  "0 < n \<Longrightarrow> n < leaf_base \<Longrightarrow> tree_hash H leaf_base leaf n =
    hash_node H n (tree_hash H leaf_base leaf (2 * n)) (tree_hash H leaf_base leaf (2 * n + 1))"
  by (subst tree_hash.simps) simp

text \<open>A walk from a leaf to the root computes the hashes of its ancestors from the siblings.\<close>

lemma parent_hash_tree:
  assumes "1 < n" and "n < 2 * leaf_base"
  shows "parent_hash H n (tree_hash H leaf_base leaf n) (tree_hash H leaf_base leaf (sibling_node n)) =
    tree_hash H leaf_base leaf (n div 2)"
proof (cases "even n")
  case True
  then obtain m where "n = 2 * m" by blast
  with assms show ?thesis
    by (simp add: parent_hash_def is_left_child_iff sibling_node_eq tree_hash_node [of m] Let_def)
next
  case False
  then obtain m where "n = 2 * m + 1" by (rule oddE)
  with assms show ?thesis
    by (simp add: parent_hash_def is_left_child_iff sibling_node_eq tree_hash_node [of m] Let_def)
qed

text \<open>\<open>is_above n m\<close>: node \<open>n\<close> is \<open>m\<close> or one of its ancestors.\<close>

definition is_above :: "nat \<Rightarrow> nat \<Rightarrow> bool" where
  "is_above n m \<longleftrightarrow> (\<exists>k. n = m div 2 ^ k)"

lemma is_above_refl [simp]: "is_above n n"
  unfolding is_above_def by (rule exI [of _ 0]) simp

lemma is_above_half: "is_above n m \<Longrightarrow> is_above (n div 2) m"
  by (auto simp: is_above_def div_mult2_eq [symmetric] mult.commute intro: exI [of _ "Suc k" for k])

lemma is_above_children: "is_above (2 * n) m \<or> is_above (2 * n + 1) m \<Longrightarrow> is_above n m"
  using is_above_half [of "2 * n" m] is_above_half [of "2 * n + 1" m] by auto

lemma is_above_iff_half: "is_above n m \<longleftrightarrow> n = m \<or> is_above n (m div 2)"
proof
  assume "is_above n m"
  then obtain k where "n = m div 2 ^ k" by (auto simp: is_above_def)
  then show "n = m \<or> is_above n (m div 2)"
    by (cases k) (auto simp: is_above_def div_mult2_eq)
next
  assume "n = m \<or> is_above n (m div 2)"
  then show "is_above n m"
  proof
    assume "is_above n (m div 2)"
    then obtain k where "n = m div 2 div 2 ^ k" by (auto simp: is_above_def)
    then have "n = m div 2 ^ Suc k" by (simp add: div_mult2_eq)
    then show ?thesis unfolding is_above_def by blast
  qed simp
qed

lemma is_above_zero [simp]: "is_above n 0 \<longleftrightarrow> n = 0"
  by (simp add: is_above_def)

lemma is_above_one: "0 < n \<Longrightarrow> is_above n 1 \<longleftrightarrow> n = 1"
  using is_above_iff_half [of n 1] by auto

lemma is_above_le: "is_above n m \<Longrightarrow> n \<le> m"
  by (auto simp: is_above_def)

lemma tree_hash_other:
  assumes "\<not> is_above n (leaf_base + i)" and "\<And>j. j \<noteq> i \<Longrightarrow> leaf j = leaf' j" and "0 < n"
  shows "tree_hash H leaf_base leaf n = tree_hash H leaf_base leaf' n"
  using assms(1,3,2)
proof (induction H leaf_base leaf n rule: tree_hash.induct)
  case (1 H leaf_base leaf n)
  show ?case
  proof (cases "n < leaf_base")
    case True
    moreover have "\<not> is_above (2 * n) (leaf_base + i)" "\<not> is_above (2 * n + 1) (leaf_base + i)"
      using is_above_children [of n "leaf_base + i"] "1.prems" by blast+
    ultimately show ?thesis using 1 by (simp add: tree_hash_node)
  next
    case False
    then have "n - leaf_base \<noteq> i" using "1.prems" by auto
    with False "1.prems" show ?thesis by (simp add: tree_hash_leaf)
  qed
qed

section \<open>Integrity\<close>

definition no_second_preimage :: "(bytes \<Rightarrow> bytes) \<Rightarrow> bytes set \<Rightarrow> bool" where
  "no_second_preimage H Q \<longleftrightarrow> (\<forall>x \<in> Q. \<forall>y. H y = H x \<longrightarrow> y = x)"

definition tree_inputs :: "(bytes \<Rightarrow> bytes) \<Rightarrow> nat \<Rightarrow> (nat \<Rightarrow> bytes) \<Rightarrow> bytes set" where
  "tree_inputs H leaf_base leaf =
     (\<lambda>n. node_input n (tree_hash H leaf_base leaf (2 * n)) (tree_hash H leaf_base leaf (2 * n + 1))) `
       {1..<leaf_base}"

definition page_inputs :: "bytes \<Rightarrow> nat \<Rightarrow> (nat \<Rightarrow> bytes) \<Rightarrow> bytes set" where
  "page_inputs store_id page_count D = (\<lambda>i. leaf_input store_id i (D i)) ` {..<page_count}"

locale sha256_spec =
  fixes H :: "bytes \<Rightarrow> bytes"
  assumes hash_length: "length (H x) = 32"
begin

lemma hash_lengths [simp]:
  "length (hash_leaf H sid i p) = 32" "length (hash_empty_leaf H sid i k) = 32"
  "length (hash_node H n l r) = 32" "length (parent_hash H n c s) = 32"
  by (simp_all add: hash_leaf_def hash_empty_leaf_def hash_node_def parent_hash_def hash_length Let_def)

lemma length_page_leaf [simp]: "length (page_leaf H sid n k D i) = 32"
  by (simp add: page_leaf_def)

lemma length_tree_hash:
  "(\<And>i. length (leaf i) = 32) \<Longrightarrow> length (tree_hash H leaf_base leaf n) = 32"
  by (subst tree_hash.simps) simp

text \<open>A parent that hashes to the genuine parent has the genuine children.\<close>

lemma parent_hash_genuine:
  assumes "no_second_preimage H (tree_inputs H leaf_base leaf)" and "\<And>i. length (leaf i) = 32"
    and "1 < n" and "n < 2 * leaf_base" and "length c = 32" and "length s = 32"
    and "parent_hash H n c s = tree_hash H leaf_base leaf (n div 2)"
  shows "c = tree_hash H leaf_base leaf n"
proof -
  let ?t = "tree_hash H leaf_base leaf" and ?m = "n div 2"
  have m: "0 < ?m" "?m < leaf_base" using assms(3,4) by auto
  then have gen: "node_input ?m (?t (2 * ?m)) (?t (2 * ?m + 1)) \<in> tree_inputs H leaf_base leaf"
    by (auto simp: tree_inputs_def)
  have eq: "node_input ?m l r = node_input ?m (?t (2 * ?m)) (?t (2 * ?m + 1))"
    if "H (node_input ?m l r) = ?t ?m" for l r
    using that gen assms(1) tree_hash_node [OF m, of H leaf]
    by (auto simp: no_second_preimage_def hash_node_def)
  have len: "length (?t k) = 32" for k using assms(2) by (rule length_tree_hash)
  show ?thesis
  proof (cases "even n")
    case True
    with assms(7) have "node_input ?m c s = node_input ?m (?t (2 * ?m)) (?t (2 * ?m + 1))"
      by (intro eq) (simp add: parent_hash_def is_left_child_iff hash_node_def Let_def)
    with True assms(5) len show ?thesis by (auto dest!: node_input_inj)
  next
    case False
    with assms(7) have "node_input ?m s c = node_input ?m (?t (2 * ?m)) (?t (2 * ?m + 1))"
      by (intro eq) (simp add: parent_hash_def is_left_child_iff hash_node_def Let_def)
    then have "c = ?t (2 * ?m + 1)" using assms(6) len by (auto dest!: node_input_inj)
    with False show ?thesis by simp
  qed
qed

lemma hash_leaf_genuine:
  assumes "no_second_preimage H (page_inputs sid n D)" and "i < n"
    and "hash_leaf H sid i p = hash_leaf H sid i (D i)"
  shows "p = D i"
  using assms leaf_input_inj [of sid i p "D i"]
  by (auto simp: no_second_preimage_def page_inputs_def hash_leaf_def)

end

end
