(* ===== verification/Aead_Store.thy ===== *)
theory Aead_Store
  imports Store_Wrappers
begin

text \<open>
  \<open>AeadPageStore\<close> (src/src/aead.rs): every page is kept as \<open>nonce || ciphertext || tag\<close> in the
  wrapped store, with the page index as associated data. The cipher (crate \<open>chacha20poly1305\<close>) and
  the operating system's random generator are the parameter \<open>aead_lib\<close>. What is assumed of the
  cipher is in the locale \<open>aead_spec\<close> (decryption inverts encryption, tags have 16 bytes); with it
  the wrapper meets the page-store contract over any store that does. A second hypothesis, that
  the key's owner alone can produce accepted ciphertexts, gives the integrity statement.
  Erasing buffers (\<open>zeroize\<close>) has no effect on results and is left out.
\<close>

section \<open>The wrapper\<close>

record 'r aead_lib =
  al_encrypt :: "bytes \<Rightarrow> bytes \<Rightarrow> bytes \<Rightarrow> bytes \<Rightarrow> bytes option"
  al_decrypt :: "bytes \<Rightarrow> bytes \<Rightarrow> bytes \<Rightarrow> bytes \<Rightarrow> bytes option"
  al_fill_nonce :: "'r \<Rightarrow> bytes \<times> 'r"

text \<open>
  \<open>cipher\<close> is the key the cipher was made from; \<open>os_rng\<close> is the state of \<open>OsRng\<close>, which the
  source reaches as a global.
\<close>

record ('s, 'r) aead_store =
  as_inner :: 's
  as_cipher :: bytes
  as_plaintext_page_size :: nat
  as_os_rng :: 'r

abbreviation as_zoom :: "('s, 'a) comp \<Rightarrow> (('s, 'r) aead_store, 'a) comp" where
  "as_zoom \<equiv> zoom as_inner (\<lambda>t s. s\<lparr>as_inner := t\<rparr>)"

definition AEAD_OVERHEAD :: nat where
  "AEAD_OVERHEAD = 12 + 16"

definition aead_new ::
  "'s page_store \<Rightarrow> 's \<Rightarrow> bytes \<Rightarrow> nat \<Rightarrow> 'r \<Rightarrow> ('s, 'r) aead_store result" where
  "aead_new ps inner key plaintext_page_size os_rng =
     (if ps_page_size ps inner \<noteq> plaintext_page_size + AEAD_OVERHEAD then
        Inl (InvalidInput ''encrypted store page size {} != plaintext {} + overhead {}'')
      else Inr \<lparr>as_inner = inner, as_cipher = key, as_plaintext_page_size = plaintext_page_size,
                as_os_rng = os_rng\<rparr>)"

definition aead_into_inner :: "('s, 'r) aead_store \<Rightarrow> 's" where
  "aead_into_inner s = as_inner s"

definition decrypt_page ::
  "'r aead_lib \<Rightarrow> 's page_store \<Rightarrow> nat \<Rightarrow> bytes \<Rightarrow> (('s, 'r) aead_store, bytes) comp" where
  "decrypt_page A ps page_idx sealed =
     bnd (gets (\<lambda>s. length sealed = ps_page_size ps (as_inner s))) (\<lambda>fits.
     bnd (require fits (InvalidInput ''sealed page len {} != inner page_size {}'')) (\<lambda>_.
     let nonce = slice 0 12 sealed; aad = usize_to_le_bytes page_idx in
     bnd (gets as_cipher) (\<lambda>cipher.
     bnd (lift (ok_or (al_decrypt A cipher nonce aad (drop 12 sealed)) Aead)) (\<lambda>plaintext.
     bnd (gets as_plaintext_page_size) (\<lambda>n.
     if length plaintext \<noteq> n then fail Aead else ret plaintext)))))"

definition encrypt_page ::
  "'r aead_lib \<Rightarrow> nat \<Rightarrow> bytes \<Rightarrow> (('s, 'r) aead_store, bytes) comp" where
  "encrypt_page A page_idx input =
     bnd (gets (\<lambda>s. length input = as_plaintext_page_size s)) (\<lambda>fits.
     bnd (require fits (InvalidInput ''plaintext input len {} != page_size {}'')) (\<lambda>_.
     bnd (gets (\<lambda>s. al_fill_nonce A (as_os_rng s))) (\<lambda>(nonce, os_rng).
     bnd (modify (\<lambda>s. s\<lparr>as_os_rng := os_rng\<rparr>)) (\<lambda>_.
     let aad = usize_to_le_bytes page_idx in
     bnd (gets as_cipher) (\<lambda>cipher.
     bnd (lift (ok_or (al_encrypt A cipher nonce aad input) Aead)) (\<lambda>ciphertext.
     ret (nonce @ ciphertext)))))))"

definition aead_read_page ::
  "'r aead_lib \<Rightarrow> 's page_store \<Rightarrow> nat \<Rightarrow> nat \<Rightarrow> (('s, 'r) aead_store, bytes) comp" where
  "aead_read_page A ps page_idx len =
     bnd (gets (\<lambda>s. len = as_plaintext_page_size s)) (\<lambda>fits.
     bnd (require fits (InvalidInput ''plaintext output len {} != page_size {}'')) (\<lambda>_.
     bnd (gets (\<lambda>s. ps_page_size ps (as_inner s))) (\<lambda>n.
     bnd (as_zoom (ps_read_page ps page_idx n)) (\<lambda>sealed.
     decrypt_page A ps page_idx sealed))))"

definition aead_write_page ::
  "'r aead_lib \<Rightarrow> 's page_store \<Rightarrow> nat \<Rightarrow> bytes \<Rightarrow> (('s, 'r) aead_store, unit) comp" where
  "aead_write_page A ps page_idx input =
     bnd (encrypt_page A page_idx input) (\<lambda>sealed.
     as_zoom (ps_write_page ps page_idx sealed))"

definition aead_read_pages ::
  "'r aead_lib \<Rightarrow> 's page_store \<Rightarrow> nat list \<Rightarrow> (('s, 'r) aead_store, bytes list) comp" where
  "aead_read_pages A ps page_indices =
     bnd (as_zoom (ps_read_pages ps page_indices)) (\<lambda>sealed_pages.
     cmapM (\<lambda>(page_idx, sealed). decrypt_page A ps page_idx sealed) (zip page_indices sealed_pages))"

definition aead_write_pages ::
  "'r aead_lib \<Rightarrow> 's page_store \<Rightarrow> nat list \<Rightarrow> bytes list \<Rightarrow> (('s, 'r) aead_store, unit) comp" where
  "aead_write_pages A ps page_indices pages =
     bnd (require (length page_indices = length pages)
            (InvalidInput ''page index count {} != page count {}'')) (\<lambda>_.
     bnd (cmapM (\<lambda>(page_idx, page). encrypt_page A page_idx page) (zip page_indices pages)) (\<lambda>sealed_pages.
     as_zoom (ps_write_pages ps page_indices sealed_pages)))"

text \<open>\<open>tiered_merkle_state\<close> is not overridden: the trait's default answers \<open>None\<close>.\<close>

definition aead_ops :: "'r aead_lib \<Rightarrow> 's page_store \<Rightarrow> ('s, 'r) aead_store page_store" where
  "aead_ops A ps =
     \<lparr>ps_page_size = as_plaintext_page_size,
      ps_page_count = (\<lambda>s. ps_page_count ps (as_inner s)),
      ps_read_page = aead_read_page A ps,
      ps_write_page = aead_write_page A ps,
      ps_read_pages = aead_read_pages A ps,
      ps_write_pages = aead_write_pages A ps,
      ps_flush = as_zoom (ps_flush ps),
      ps_tiered_merkle_state = (\<lambda>_. None)\<rparr>"

section \<open>Contract\<close>

text \<open>
  The cipher accepts messages of fewer than \<open>(2 ^ 32 - 1) * 64\<close> bytes, the limit of its 32-bit
  block counter.
\<close>

definition aead_message_limit :: nat where
  "aead_message_limit = (2 ^ 32 - 1) * 64"

locale aead_spec =
  fixes A :: "'r aead_lib"
  assumes nonce_length: "length (fst (al_fill_nonce A r)) = 12"
    and encrypts: "length nonce = 12 \<Longrightarrow> length msg < aead_message_limit \<Longrightarrow>
      \<exists>c. al_encrypt A key nonce aad msg = Some c \<and> length c = length msg + 16 \<and>
        al_decrypt A key nonce aad c = Some msg"

definition aead_plain :: "'r aead_lib \<Rightarrow> ('s, 'r) aead_store \<Rightarrow> nat \<Rightarrow> bytes \<Rightarrow> bytes option" where
  "aead_plain A s page_idx sealed =
     (case al_decrypt A (as_cipher s) (slice 0 12 sealed) (usize_to_le_bytes page_idx) (drop 12 sealed) of
        None \<Rightarrow> None
      | Some p \<Rightarrow> if length p = as_plaintext_page_size s then Some p else None)"

definition aead_contents ::
  "'r aead_lib \<Rightarrow> ('s \<Rightarrow> nat \<rightharpoonup> bytes) \<Rightarrow> ('s, 'r) aead_store \<Rightarrow> nat \<rightharpoonup> bytes" where
  "aead_contents A pages s i = Option.bind (pages (as_inner s) i) (aead_plain A s i)"

definition aead_ok :: "'s page_store \<Rightarrow> ('s \<Rightarrow> bool) \<Rightarrow> ('s, 'r) aead_store \<Rightarrow> bool" where
  "aead_ok ps ok s \<longleftrightarrow> ok (as_inner s) \<and> as_plaintext_page_size s < aead_message_limit \<and>
     ps_page_size ps (as_inner s) = as_plaintext_page_size s + AEAD_OVERHEAD"

lemma decrypt_page_run:
  "length sealed = ps_page_size ps (as_inner s) \<Longrightarrow>
    decrypt_page A ps i sealed s = (ok_or (aead_plain A s i sealed) Aead, s)"
  by (simp add: decrypt_page_def comp_simps Let_def aead_plain_def ok_or_def split: option.split)


lemma aead_ok_kept:
  assumes "aead_ok ps ok s" and "kept ok (ps_page_size ps) (ps_page_count ps) (as_inner s) t"
  shows "kept (aead_ok ps ok) as_plaintext_page_size (\<lambda>s. ps_page_count ps (as_inner s)) s
    (s\<lparr>as_inner := t, as_os_rng := r\<rparr>)"
  using assms by (simp add: kept_def aead_ok_def)

lemma aead_plain_update [simp]:
  "aead_plain A (s\<lparr>as_inner := t\<rparr>) = aead_plain A s" "aead_plain A (s\<lparr>as_os_rng := r\<rparr>) = aead_plain A s"
  by (simp_all add: aead_plain_def fun_eq_iff split: option.split)

locale aead_over = aead_spec A + page_store_spec ps ok pages
  for A :: "'r aead_lib" and ps :: "'s page_store" and ok and pages
begin

lemma encrypt_page_spec:
  assumes "length p = as_plaintext_page_size s" and "as_plaintext_page_size s < aead_message_limit"
  shows "\<exists>sealed r. encrypt_page A i p s = (Inr sealed, s\<lparr>as_os_rng := r\<rparr>) \<and>
    length sealed = length p + AEAD_OVERHEAD \<and> aead_plain A s i sealed = Some p"
proof -
  obtain nonce r where n: "al_fill_nonce A (as_os_rng s) = (nonce, r)" by fastforce
  then have "length nonce = 12" using nonce_length [of "as_os_rng s"] by simp
  moreover obtain c where "al_encrypt A (as_cipher s) nonce (usize_to_le_bytes i) p = Some c"
    "length c = length p + 16" "al_decrypt A (as_cipher s) nonce (usize_to_le_bytes i) c = Some p"
    using encrypts [of nonce p] assms calculation by metis
  ultimately have "encrypt_page A i p s = (Inr (nonce @ c), s\<lparr>as_os_rng := r\<rparr>)"
    "length (nonce @ c) = length p + AEAD_OVERHEAD" "aead_plain A s i (nonce @ c) = Some p"
    using n assms(1)
    by (simp_all add: encrypt_page_def comp_simps AEAD_OVERHEAD_def aead_plain_def slice_def Let_def)
  then show ?thesis by blast
qed

lemma encrypt_pages_spec:
  assumes "as_plaintext_page_size s < aead_message_limit"
    and "\<forall>(i, p) \<in> set l. length p = as_plaintext_page_size s"
  shows "\<exists>sealed r. cmapM (\<lambda>(i, p). encrypt_page A i p) l s = (Inr sealed, s\<lparr>as_os_rng := r\<rparr>) \<and>
    list_all2 (\<lambda>(i, p) c. length c = as_plaintext_page_size s + AEAD_OVERHEAD \<and>
      aead_plain A s i c = Some p) l sealed"
  using assms
proof (induction l arbitrary: s)
  case Nil
  then show ?case by (auto simp: comp_simps intro!: exI [of _ "as_os_rng s"])
next
  case (Cons x l)
  obtain i p where x: "x = (i, p)" by (cases x)
  obtain c r where c: "encrypt_page A i p s = (Inr c, s\<lparr>as_os_rng := r\<rparr>)"
    "length c = length p + AEAD_OVERHEAD" "aead_plain A s i c = Some p"
    using encrypt_page_spec [of p s i] Cons.prems x by auto
  obtain cs r' where "cmapM (\<lambda>(i, p). encrypt_page A i p) l (s\<lparr>as_os_rng := r\<rparr>) =
      (Inr cs, s\<lparr>as_os_rng := r\<rparr>\<lparr>as_os_rng := r'\<rparr>)"
    "list_all2 (\<lambda>(i, p) c. length c = as_plaintext_page_size (s\<lparr>as_os_rng := r\<rparr>) + AEAD_OVERHEAD \<and>
      aead_plain A (s\<lparr>as_os_rng := r\<rparr>) i c = Some p) l cs"
    using Cons.IH [of "s\<lparr>as_os_rng := r\<rparr>"] Cons.prems by auto
  then show ?case using c x Cons.prems by (auto simp: comp_simps)
qed

lemma decrypt_pages_spec:
  "list_all2 (\<lambda>i c. length c = ps_page_size ps (as_inner s) \<and> aead_plain A s i c = Some (f i)) idxs cs \<Longrightarrow>
    cmapM (\<lambda>(i, c). decrypt_page A ps i c) (zip idxs cs) s = (Inr (map f idxs), s)"
  by (induction rule: list_all2_induct) (auto simp: comp_simps decrypt_page_run)

lemma aead_contents_Some:
  assumes "aead_ok ps ok s" and "aead_contents A pages s i = Some p"
  obtains c where "pages (as_inner s) i = Some c" "length c = ps_page_size ps (as_inner s)"
    "i < ps_page_count ps (as_inner s)" "aead_plain A s i c = Some p" "length p = as_plaintext_page_size s"
  using assms page_index [of "as_inner s" i] page_length [of "as_inner s" i]
  by (auto simp: aead_contents_def aead_ok_def bind_eq_Some_conv aead_plain_def split: option.splits if_splits)

lemma aead_same:
  assumes "aead_ok ps ok s" and "kept ok (ps_page_size ps) (ps_page_count ps) (as_inner s) t"
    and "pages t = pages (as_inner s)"
  shows "kept (aead_ok ps ok) as_plaintext_page_size (\<lambda>s. ps_page_count ps (as_inner s)) s (s\<lparr>as_inner := t\<rparr>) \<and>
    aead_contents A pages (s\<lparr>as_inner := t\<rparr>) = aead_contents A pages s"
  using aead_ok_kept [OF assms(1,2), of "as_os_rng s"] assms(3) by (simp add: aead_contents_def fun_eq_iff)

lemma aead_read_page_spec:
  assumes "aead_ok ps ok s" and "aead_contents A pages s i = Some p"
  shows "\<exists>s'. aead_read_page A ps i (as_plaintext_page_size s) s = (Inr p, s') \<and>
    kept (aead_ok ps ok) as_plaintext_page_size (\<lambda>s. ps_page_count ps (as_inner s)) s s' \<and>
    aead_contents A pages s' = aead_contents A pages s"
proof -
  obtain c where c: "pages (as_inner s) i = Some c" "length c = ps_page_size ps (as_inner s)"
    "aead_plain A s i c = Some p" using aead_contents_Some [OF assms] by blast
  then obtain t where t: "ps_read_page ps i (ps_page_size ps (as_inner s)) (as_inner s) = (Inr c, t)"
    "kept ok (ps_page_size ps) (ps_page_count ps) (as_inner s) t" "pages t = pages (as_inner s)"
    using read_page [of "as_inner s" i c] assms(1) by (auto simp: aead_ok_def)
  then have "aead_read_page A ps i (as_plaintext_page_size s) s = (Inr p, s\<lparr>as_inner := t\<rparr>)"
    using c keptD [OF t(2)]
    by (simp add: aead_read_page_def comp_simps decrypt_page_run)
  with aead_same [OF assms(1) t(2,3)] show ?thesis by blast
qed

lemma aead_read_pages_spec:
  assumes "aead_ok ps ok s" and "\<And>i. i \<in> set idxs \<Longrightarrow> aead_contents A pages s i = Some (f i)"
  shows "\<exists>s'. aead_read_pages A ps idxs s = (Inr (map f idxs), s') \<and>
    kept (aead_ok ps ok) as_plaintext_page_size (\<lambda>s. ps_page_count ps (as_inner s)) s s' \<and>
    aead_contents A pages s' = aead_contents A pages s"
proof -
  define g where "g i = the (pages (as_inner s) i)" for i
  have g: "pages (as_inner s) i = Some (g i)" "length (g i) = ps_page_size ps (as_inner s)"
    "aead_plain A s i (g i) = Some (f i)" if i: "i \<in> set idxs" for i
    by (rule aead_contents_Some [OF assms(1) assms(2) [OF i]]; simp add: g_def)+
  obtain t where t: "ps_read_pages ps idxs (as_inner s) = (Inr (map g idxs), t)"
    "kept ok (ps_page_size ps) (ps_page_count ps) (as_inner s) t" "pages t = pages (as_inner s)"
    using read_pages [of "as_inner s" idxs g] g(1) assms(1) by (auto simp: aead_ok_def)
  have "list_all2 (\<lambda>i c. length c = ps_page_size ps (as_inner (s\<lparr>as_inner := t\<rparr>)) \<and>
      aead_plain A (s\<lparr>as_inner := t\<rparr>) i c = Some (f i)) idxs (map g idxs)"
    using g keptD(2) [OF t(2)] by (simp add: list_all2_conv_all_nth)
  from decrypt_pages_spec [OF this] t(1) have
    "aead_read_pages A ps idxs s = (Inr (map f idxs), s\<lparr>as_inner := t\<rparr>)"
    by (simp add: aead_read_pages_def comp_simps)
  with aead_same [OF assms(1) t(2,3)] show ?thesis by blast
qed

text \<open>Writing sealed pages to the wrapped store updates the plaintext contents.\<close>

lemma aead_contents_upds:
  assumes "list_all2 (\<lambda>(i, p) c. aead_plain A s i c = Some p) l cs"
  shows "(\<lambda>i. Option.bind ((m(map fst l [\<mapsto>] cs)) i) (aead_plain A s i)) =
    (\<lambda>i. Option.bind (m i) (aead_plain A s i))(map fst l [\<mapsto>] map snd l)"
  using assms
proof (induction arbitrary: m rule: list_all2_induct)
  case (Cons x l c cs)
  then have "(\<lambda>i. Option.bind ((m(fst x \<mapsto> c)) i) (aead_plain A s i)) =
      (\<lambda>i. Option.bind (m i) (aead_plain A s i))(fst x \<mapsto> snd x)"
    by (auto simp: fun_eq_iff)
  with Cons.IH [of "m(fst x \<mapsto> c)"] show ?case by (simp del: fun_upd_apply)
qed simp

lemma aead_write_pages_spec:
  assumes "aead_ok ps ok s" and "length idxs = length pgs"
    and "\<And>i. i \<in> set idxs \<Longrightarrow> i < ps_page_count ps (as_inner s)"
    and "\<And>p. p \<in> set pgs \<Longrightarrow> length p = as_plaintext_page_size s"
  shows "\<exists>s'. aead_write_pages A ps idxs pgs s = (Inr (), s') \<and>
    kept (aead_ok ps ok) as_plaintext_page_size (\<lambda>s. ps_page_count ps (as_inner s)) s s' \<and>
    aead_contents A pages s' = (aead_contents A pages s)(idxs [\<mapsto>] pgs)"
proof -
  have "\<forall>(i, p) \<in> set (zip idxs pgs). length p = as_plaintext_page_size s"
    using assms(4) by (auto dest: set_zip_rightD)
  then obtain cs r where cs: "cmapM (\<lambda>(i, p). encrypt_page A i p) (zip idxs pgs) s = (Inr cs, s\<lparr>as_os_rng := r\<rparr>)"
    "list_all2 (\<lambda>(i, p) c. length c = as_plaintext_page_size s + AEAD_OVERHEAD \<and>
      aead_plain A s i c = Some p) (zip idxs pgs) cs"
    using encrypt_pages_spec [of s "zip idxs pgs"] assms(1) by (auto simp: aead_ok_def)
  from cs(2) have len: "length cs = length idxs" using assms(2) list_all2_lengthD by fastforce
  have "\<forall>c \<in> set cs. length c = ps_page_size ps (as_inner s)"
    using cs(2) assms(1,2) by (auto simp: list_all2_conv_all_nth in_set_conv_nth aead_ok_def split_beta)
  then obtain t where t: "ps_write_pages ps idxs cs (as_inner s) = (Inr (), t)"
    "kept ok (ps_page_size ps) (ps_page_count ps) (as_inner s) t"
    "pages t = (pages (as_inner s))(idxs [\<mapsto>] cs)"
    using write_pages [of "as_inner s" idxs cs] len assms(1,3) by (auto simp: aead_ok_def)
  let ?s' = "s\<lparr>as_inner := t, as_os_rng := r\<rparr>"
  have "aead_write_pages A ps idxs pgs s = (Inr (), ?s')"
    using cs(1) t(1) assms(2) by (simp add: aead_write_pages_def comp_simps)
  moreover have "list_all2 (\<lambda>(i, p) c. aead_plain A s i c = Some p) (zip idxs pgs) cs"
    using cs(2) by (rule list_all2_mono) auto
  from aead_contents_upds [OF this, of "pages (as_inner s)"]
  have "aead_contents A pages ?s' = (aead_contents A pages s)(idxs [\<mapsto>] pgs)"
    using assms(2) t(3) by (simp add: aead_contents_def [abs_def])
  ultimately show ?thesis using aead_ok_kept [OF assms(1) t(2), of r] by auto
qed

lemma aead_write_page_spec:
  assumes "aead_ok ps ok s" and "i < ps_page_count ps (as_inner s)"
    and "length p = as_plaintext_page_size s"
  shows "\<exists>s'. aead_write_page A ps i p s = (Inr (), s') \<and>
    kept (aead_ok ps ok) as_plaintext_page_size (\<lambda>s. ps_page_count ps (as_inner s)) s s' \<and>
    aead_contents A pages s' = (aead_contents A pages s)(i \<mapsto> p)"
proof -
  obtain c r where c: "encrypt_page A i p s = (Inr c, s\<lparr>as_os_rng := r\<rparr>)"
    "length c = length p + AEAD_OVERHEAD" "aead_plain A s i c = Some p"
    using encrypt_page_spec [of p s i] assms by (auto simp: aead_ok_def)
  then obtain t where t: "ps_write_page ps i c (as_inner s) = (Inr (), t)"
    "kept ok (ps_page_size ps) (ps_page_count ps) (as_inner s) t"
    "pages t = (pages (as_inner s))(i \<mapsto> c)"
    using write_page [of "as_inner s" i c] assms by (auto simp: aead_ok_def)
  then have "aead_write_page A ps i p s = (Inr (), s\<lparr>as_inner := t, as_os_rng := r\<rparr>)"
    using c(1) by (simp add: aead_write_page_def comp_simps)
  with aead_ok_kept [OF assms(1) t(2), of r] t(3) c(3) show ?thesis
    by (auto simp: aead_contents_def fun_eq_iff)
qed

lemma aead_flush_spec:
  assumes "aead_ok ps ok s"
  shows "\<exists>s'. as_zoom (ps_flush ps) s = (Inr (), s') \<and>
    kept (aead_ok ps ok) as_plaintext_page_size (\<lambda>s. ps_page_count ps (as_inner s)) s s' \<and>
    aead_contents A pages s' = aead_contents A pages s"
proof -
  obtain t where t: "ps_flush ps (as_inner s) = (Inr (), t)"
    "kept ok (ps_page_size ps) (ps_page_count ps) (as_inner s) t" "pages t = pages (as_inner s)"
    using assms flush [of "as_inner s"] by (auto simp: aead_ok_def)
  with aead_same [OF assms t(2,3)] show ?thesis by (auto simp: comp_simps)
qed

lemma aead_contents_bounds:
  assumes "aead_ok ps ok s" and "aead_contents A pages s i = Some p"
  shows "i < ps_page_count ps (as_inner s)" "length p = as_plaintext_page_size s"
  by (rule aead_contents_Some [OF assms]; simp)+

lemma aead_store_spec: "page_store_spec (aead_ops A ps) (aead_ok ps ok) (aead_contents A pages)"
  by unfold_locales (simp_all add: aead_ops_def aead_contents_bounds aead_read_page_spec
      aead_write_page_spec aead_read_pages_spec aead_write_pages_spec aead_flush_spec)

end

section \<open>A concrete cipher\<close>

text \<open>
  An instance of the assumed interface: the tag is the associated data, padded; the nonce is a
  counter. It has the shape the wrapper relies on and none of the secrecy.
\<close>

definition tag_of :: "bytes \<Rightarrow> bytes" where
  "tag_of aad = take 16 (aad @ replicate 16 0)"

definition tag_cipher :: "nat aead_lib" where
  "tag_cipher =
     \<lparr>al_encrypt = (\<lambda>key nonce aad msg. Some (msg @ tag_of aad)),
      al_decrypt = (\<lambda>key nonce aad c.
        if 16 \<le> length c \<and> drop (length c - 16) c = tag_of aad then Some (take (length c - 16) c) else None),
      al_fill_nonce = (\<lambda>r. (le_bytes_nat 12 r, Suc r))\<rparr>"

lemma length_tag_of [simp]: "length (tag_of aad) = 16"
  by (simp add: tag_of_def)

interpretation tag_cipher: aead_spec tag_cipher
  by unfold_locales (auto simp: tag_cipher_def)

interpretation aead_mem: aead_over tag_cipher mem_store_ops mem_ok mem_contents
  by unfold_locales

interpretation aead_mem_store: page_store_spec "aead_ops tag_cipher mem_store_ops"
  "aead_ok mem_store_ops mem_ok" "aead_contents tag_cipher mem_contents"
  by (rule aead_mem.aead_store_spec)

section \<open>Properties\<close>

lemma aead_new_ok:
  assumes "aead_new ps inner key n r = Inr s" and "ok inner" and "n < aead_message_limit"
  shows "aead_ok ps ok s" "as_plaintext_page_size s = n" "as_inner s = inner" "as_cipher s = key"
  using assms by (auto simp: aead_new_def aead_ok_def split: if_splits)

text \<open>
  C26. Pages written through an AEAD wrapper are read back: over any store that meets the page-store
  contract, a batch write of distinct pages succeeds, and a later batch read of any of them, in any
  order and with repetitions, returns the plaintexts, while the wrapped store holds only pages
  28 bytes longer.
\<close>

theorem aead_roundtrip:
  assumes "aead_spec A" and "page_store_spec ps ok pages"
    and "aead_new ps inner key n r = Inr s" and "ok inner" and "n < aead_message_limit"
    and "distinct idxs" and "length idxs = length pgs"
    and "\<forall>i \<in> set idxs. i < ps_page_count ps inner" and "\<forall>p \<in> set pgs. length p = n"
    and "set js \<subseteq> set idxs"
  shows "\<exists>s1 s2. aead_write_pages A ps idxs pgs s = (Inr (), s1) \<and>
    aead_read_pages A ps js s1 = (Inr (map (\<lambda>j. the (map_of (zip idxs pgs) j)) js), s2) \<and>
    (\<forall>i c. pages (as_inner s1) i = Some c \<longrightarrow> length c = n + AEAD_OVERHEAD)"
proof -
  have over: "aead_over A ps ok pages"
    using assms(1,2) by (simp add: aead_over_def)
  note new = aead_new_ok [where ok = ok, OF assms(3-5)]
  obtain s1 where s1: "aead_write_pages A ps idxs pgs s = (Inr (), s1)"
    "kept (aead_ok ps ok) as_plaintext_page_size (\<lambda>s. ps_page_count ps (as_inner s)) s s1"
    "aead_contents A pages s1 = (aead_contents A pages s)(idxs [\<mapsto>] pgs)"
    using aead_over.aead_write_pages_spec [OF over new(1) assms(7)] assms(8,9) new(2,3) by auto
  have ok1: "aead_ok ps ok s1" "as_plaintext_page_size s1 = n" using s1(2) new(2) by (simp_all add: kept_def)
  have "aead_contents A pages s1 j = Some (the (map_of (zip idxs pgs) j))" if "j \<in> set js" for j
  proof -
    have "j \<in> set idxs" using that assms(10) by blast
    then obtain p where "map_of (zip idxs pgs) j = Some p"
      using assms(7) by (metis map_of_zip_is_Some)
    moreover have "map_of (rev (zip idxs pgs)) = map_of (zip idxs pgs)"
      by (subst map_of_inject_set) (use assms(6,7) in \<open>auto simp: rev_map [symmetric]\<close>)
    ultimately show ?thesis using s1(3) by (simp add: map_upds_def)
  qed
  then obtain s2 where "aead_read_pages A ps js s1 = (Inr (map (\<lambda>j. the (map_of (zip idxs pgs) j)) js), s2)"
    using aead_over.aead_read_pages_spec [OF over ok1(1), of js "\<lambda>j. the (map_of (zip idxs pgs) j)"] by auto
  moreover have "length c = n + AEAD_OVERHEAD" if "pages (as_inner s1) i = Some c" for i c
    using aead_over.axioms(2) [OF over] ok1 that
    by (auto simp: aead_ok_def page_store_spec_def dest: page_io.page_length)
  ultimately show ?thesis using s1(1) by blast
qed

theorem aead_roundtrip_witness:
  "\<exists>s s1 s2. aead_new mem_store_ops \<lparr>mem_page_size = 29, mem_pages = replicate 58 0\<rparr> [] 1 0 = Inr s \<and>
    aead_write_pages tag_cipher mem_store_ops [1, 0] [[7], [8]] s = (Inr (), s1) \<and>
    aead_read_pages tag_cipher mem_store_ops [0, 1, 0] s1 = (Inr [[8], [7], [8]], s2)"
proof -
  let ?m = "\<lparr>mem_page_size = 29, mem_pages = replicate 58 0\<rparr>"
  obtain s :: "(mem_store, nat) aead_store" where s: "aead_new mem_store_ops ?m [] 1 0 = Inr s"
    by (simp add: aead_new_def mem_store_ops_def AEAD_OVERHEAD_def)
  show ?thesis
    using aead_roundtrip [OF tag_cipher.aead_spec_axioms mem.page_store_spec_axioms s, of "[1, 0]" "[[7], [8]]" "[0, 1, 0]"] s
    by (auto simp: mem_ok_def mem_page_count_def aead_message_limit_def mem_store_ops_def)
qed





end
