(* ===== verification/Merkle_Store.thy ===== *)
theory Merkle_Store
  imports Merkle_Hash Aead_Store
begin

text \<open>
  \<open>MerklePageStore\<close> (src/src/merkle.rs): a page store whose pages are authenticated by a hash tree
  kept in trusted memory. Over an honest store the wrapper meets the page-store contract and its
  root is the root of the tree over the pages; over an arbitrary store every read that succeeds
  returns the page last written.
\<close>

section \<open>The store\<close>

record 's merkle_store =
  mk_inner :: 's
  mk_store_id :: bytes
  mk_page_size :: nat
  mk_page_count :: nat
  mk_leaf_base :: nat
  mk_hashes :: "bytes list"

abbreviation mk_zoom :: "('s, 'a) comp \<Rightarrow> ('s merkle_store, 'a) comp" where
  "mk_zoom \<equiv> zoom mk_inner (\<lambda>t s. s\<lparr>mk_inner := t\<rparr>)"

abbreviation zero_hash :: bytes where
  "zero_hash \<equiv> replicate 32 0"

text \<open>The two loops of \<open>new\<close>: the leaves in order, then the inner nodes from the last to the root.\<close>

definition initial_leaf ::
  "(bytes \<Rightarrow> bytes) \<Rightarrow> 's page_store \<Rightarrow> bytes \<Rightarrow> nat \<Rightarrow> nat \<Rightarrow> nat \<Rightarrow> ('s, bytes) comp" where
  "initial_leaf H ps store_id page_count page_size page_idx =
     (if page_idx < page_count then
        bnd (ps_read_page ps page_idx page_size) (\<lambda>page. ret (hash_leaf H store_id page_idx page))
      else ret (hash_empty_leaf H store_id page_idx page_size))"

definition hash_parent_at :: "(bytes \<Rightarrow> bytes) \<Rightarrow> nat \<Rightarrow> bytes list \<Rightarrow> bytes list" where
  "hash_parent_at H node_idx hashes =
     hashes[node_idx := hash_node H node_idx (hashes ! (node_idx * 2)) (hashes ! (node_idx * 2 + 1))]"

definition merkle_new :: "(bytes \<Rightarrow> bytes) \<Rightarrow> 's page_store \<Rightarrow> 's \<Rightarrow> bytes \<Rightarrow> 's merkle_store result" where
  "merkle_new H ps inner store_id =
     (let page_count = ps_page_count ps inner; page_size = ps_page_size ps inner in
      if page_count = 0 \<or> page_size = 0 then
        Inl (InvalidInput ''page_count and page_size must be > 0'')
      else rbind (ok_or (checked_next_power_of_two page_count) (InvalidInput ''page_count is too large''))
        (\<lambda>leaf_base.
           case cmapM (initial_leaf H ps store_id page_count page_size) [0..<leaf_base] inner of
             (Inl e, _) \<Rightarrow> Inl e
           | (Inr leaf_hashes, inner') \<Rightarrow>
               Inr \<lparr>mk_inner = inner', mk_store_id = store_id, mk_page_size = page_size,
                    mk_page_count = page_count, mk_leaf_base = leaf_base,
                    mk_hashes = fold (hash_parent_at H) (rev [1..<leaf_base])
                      (replicate leaf_base zero_hash @ leaf_hashes)\<rparr>))"

definition merkle_root :: "'s merkle_store \<Rightarrow> bytes" where
  "merkle_root s = mk_hashes s ! 1"

definition merkle_trusted_hash_bytes :: "'s merkle_store \<Rightarrow> nat" where
  "merkle_trusted_hash_bytes s = (length (mk_hashes s) - 1) * 32"

definition merkle_into_inner :: "'s merkle_store \<Rightarrow> 's" where
  "merkle_into_inner s = mk_inner s"

definition leaf_slot :: "'s merkle_store \<Rightarrow> nat \<Rightarrow> nat" where
  "leaf_slot s page_idx = mk_leaf_base s + page_idx"

text \<open>The \<open>while\<close> loop of \<open>update_leaf\<close>.\<close>

fun update_parents :: "(bytes \<Rightarrow> bytes) \<Rightarrow> nat \<Rightarrow> bytes list \<Rightarrow> bytes list" where
  "update_parents H node_idx hashes =
     (if 1 < node_idx then
        update_parents H (node_idx div 2) (hash_parent_at H (node_idx div 2) hashes)
      else hashes)"

declare update_parents.simps [simp del]

definition update_leaf :: "(bytes \<Rightarrow> bytes) \<Rightarrow> nat \<Rightarrow> bytes \<Rightarrow> 's merkle_store \<Rightarrow> 's merkle_store" where
  "update_leaf H page_idx leaf_hash s =
     (let node_idx = leaf_slot s page_idx
      in s\<lparr>mk_hashes := update_parents H node_idx ((mk_hashes s)[node_idx := leaf_hash])\<rparr>)"

definition merkle_read_page :: "(bytes \<Rightarrow> bytes) \<Rightarrow> 's page_store \<Rightarrow> nat \<Rightarrow> nat \<Rightarrow> ('s merkle_store, bytes) comp" where
  "merkle_read_page H ps page_idx len =
     bnd (gets (\<lambda>s. check_page (mk_page_count s) (mk_page_size s) page_idx len)) (\<lambda>r.
     bnd (lift r) (\<lambda>_.
     bnd (mk_zoom (ps_read_page ps page_idx len)) (\<lambda>out.
     bnd (gets (\<lambda>s. (hash_leaf H (mk_store_id s) page_idx out, mk_hashes s ! leaf_slot s page_idx)))
       (\<lambda>(got, expected).
     bnd (require (hash_eq got expected)
            (InvalidInput ''Merkle page authentication failed for page {}'')) (\<lambda>_.
     ret out)))))"

definition merkle_write_page :: "(bytes \<Rightarrow> bytes) \<Rightarrow> 's page_store \<Rightarrow> nat \<Rightarrow> bytes \<Rightarrow> ('s merkle_store, unit) comp" where
  "merkle_write_page H ps page_idx input =
     bnd (gets (\<lambda>s. check_page (mk_page_count s) (mk_page_size s) page_idx (length input))) (\<lambda>r.
     bnd (lift r) (\<lambda>_.
     bnd (mk_zoom (ps_write_page ps page_idx input)) (\<lambda>_.
     modify (\<lambda>s. update_leaf H page_idx (hash_leaf H (mk_store_id s) page_idx input) s))))"

definition merkle_ops :: "(bytes \<Rightarrow> bytes) \<Rightarrow> 's page_store \<Rightarrow> 's merkle_store page_store" where
  "merkle_ops H ps =
     \<lparr>ps_page_size = mk_page_size,
      ps_page_count = mk_page_count,
      ps_read_page = merkle_read_page H ps,
      ps_write_page = merkle_write_page H ps,
      ps_read_pages = default_read_pages mk_page_size (merkle_read_page H ps),
      ps_write_pages = default_write_pages mk_page_size (merkle_write_page H ps),
      ps_flush = mk_zoom (ps_flush ps),
      ps_tiered_merkle_state = (\<lambda>_. None)\<rparr>"

section \<open>The trusted tree\<close>

text \<open>
  \<open>mk_auth H D s\<close>: the trusted part of \<open>s\<close> is the hash tree over the pages \<open>D\<close>. It says nothing
  about the wrapped store.
\<close>

definition mk_leaf :: "(bytes \<Rightarrow> bytes) \<Rightarrow> (nat \<Rightarrow> bytes) \<Rightarrow> 's merkle_store \<Rightarrow> nat \<Rightarrow> bytes" where
  "mk_leaf H D s = page_leaf H (mk_store_id s) (mk_page_count s) (mk_page_size s) D"

definition mk_auth :: "(bytes \<Rightarrow> bytes) \<Rightarrow> (nat \<Rightarrow> bytes) \<Rightarrow> 's merkle_store \<Rightarrow> bool" where
  "mk_auth H D s \<longleftrightarrow>
     mk_page_count s \<le> mk_leaf_base s \<and> 0 < mk_page_count s \<and> 0 < mk_page_size s \<and>
     length (mk_hashes s) = mk_leaf_base s * 2 \<and>
     (\<forall>n. 0 < n \<and> n < mk_leaf_base s * 2 \<longrightarrow>
        mk_hashes s ! n = tree_hash H (mk_leaf_base s) (mk_leaf H D s) n)"

lemma mk_auth_root: "mk_auth H D s \<Longrightarrow> merkle_root s = tree_hash H (mk_leaf_base s) (mk_leaf H D s) 1"
  by (simp add: mk_auth_def merkle_root_def)

lemma mk_auth_leaf:
  assumes "mk_auth H D s" and "i < mk_page_count s"
  shows "mk_hashes s ! leaf_slot s i = hash_leaf H (mk_store_id s) i (D i)"
  using assms by (auto simp: mk_auth_def leaf_slot_def tree_hash_leaf mk_leaf_def page_leaf_def)

lemma mk_auth_inner [simp]: "mk_auth H D (s\<lparr>mk_inner := t\<rparr>) = mk_auth H D s"
  by (simp add: mk_auth_def mk_leaf_def)

lemma mk_auth_cong:
  assumes "\<And>i. i < mk_page_count s \<Longrightarrow> D i = D' i"
  shows "mk_auth H D s = mk_auth H D' s"
proof -
  have "mk_leaf H D s = mk_leaf H D' s" using assms by (auto simp: mk_leaf_def page_leaf_def fun_eq_iff)
  then show ?thesis by (simp add: mk_auth_def)
qed

text \<open>
  Filling the inner nodes downwards: after the nodes from \<open>k\<close> on are done, every node from \<open>k\<close> on
  holds its tree hash.
\<close>

lemma length_hash_parent_at [simp]: "length (hash_parent_at H n hs) = length hs"
  by (simp add: hash_parent_at_def)

lemma fill_inner_nodes:
  assumes "length hs = lb * 2" and "\<And>n. lb \<le> n \<Longrightarrow> n < lb * 2 \<Longrightarrow> hs ! n = tree_hash H lb leaf n"
    and "0 < k" and "k \<le> lb"
  shows "length (fold (hash_parent_at H) (rev [k..<lb]) hs) = lb * 2 \<and>
    (\<forall>n. k \<le> n \<and> n < lb * 2 \<longrightarrow> fold (hash_parent_at H) (rev [k..<lb]) hs ! n = tree_hash H lb leaf n)"
  using assms(3,4)
proof (induction "lb - k" arbitrary: k)
  case 0
  then show ?case using assms(1,2) by simp
next
  case (Suc d)
  let ?h = "fold (hash_parent_at H) (rev [Suc k..<lb]) hs"
  have k: "k < lb" using Suc by simp
  have IH: "length ?h = lb * 2" "Suc k \<le> n \<Longrightarrow> n < lb * 2 \<Longrightarrow> ?h ! n = tree_hash H lb leaf n" for n
    using Suc.hyps(1) [of "Suc k"] Suc k by auto
  have "fold (hash_parent_at H) (rev [k..<lb]) hs = hash_parent_at H k ?h"
    using k by (simp add: upt_conv_Cons)
  moreover have "hash_parent_at H k ?h ! n = tree_hash H lb leaf n" if "k \<le> n" "n < lb * 2" for n
  proof (cases "n = k")
    case True
    with k IH Suc.prems show ?thesis by (simp add: hash_parent_at_def tree_hash_node mult.commute)
  next
    case False
    with that IH show ?thesis by (simp add: hash_parent_at_def)
  qed
  ultimately show ?case using IH(1) by simp
qed

text \<open>
  Updating a leaf: while the walk is at node \<open>m\<close>, all nodes but the proper ancestors of \<open>m\<close> hold the
  hashes of the new tree.
\<close>

lemma update_parents_tree:
  assumes "length hs = lb * 2" and "m < lb * 2" and "0 < m"
    and "\<And>n. 0 < n \<Longrightarrow> n < lb * 2 \<Longrightarrow> n = m \<or> \<not> is_above n m \<Longrightarrow> hs ! n = tree_hash H lb leaf n"
  shows "length (update_parents H m hs) = lb * 2 \<and>
    (\<forall>n. 0 < n \<and> n < lb * 2 \<longrightarrow> update_parents H m hs ! n = tree_hash H lb leaf n)"
  using assms
proof (induction H m hs rule: update_parents.induct)
  case (1 H m hs)
  show ?case
  proof (cases "1 < m")
    case True
    let ?p = "m div 2"
    let ?hs = "hash_parent_at H ?p hs"
    have p: "0 < ?p" "?p < lb" "?p < lb * 2" "?p * 2 + 1 < lb * 2" using True "1.prems"(2,3) by presburger+
    have child: "hs ! c = tree_hash H lb leaf c" if "c div 2 = ?p" "c < lb * 2" for c
    proof -
      have "\<not> ?p \<ge> c" using that p by auto
      then have "c = m \<or> \<not> is_above c m" using is_above_iff_half [of c m] is_above_le [of c ?p] by auto
      with that p show ?thesis by (intro "1.prems"(4)) auto
    qed
    have "?hs ! n = tree_hash H lb leaf n" if n: "0 < n" "n < lb * 2" "n = ?p \<or> \<not> is_above n ?p" for n
    proof (cases "n = ?p")
      case True
      have "hs ! (?p * 2) = tree_hash H lb leaf (2 * ?p)" "hs ! (?p * 2 + 1) = tree_hash H lb leaf (2 * ?p + 1)"
        using child [of "?p * 2"] child [of "?p * 2 + 1"] p by (simp_all add: mult.commute)
      with True p "1.prems"(1) show ?thesis by (simp add: hash_parent_at_def tree_hash_node [OF p(1,2)])
    next
      case False
      with n have "n = m \<or> \<not> is_above n m" using is_above_iff_half [of n m] by blast
      with False n "1.prems" show ?thesis by (simp add: hash_parent_at_def)
    qed
    moreover have "update_parents H m hs = update_parents H ?p ?hs"
      using True by (subst update_parents.simps) simp
    ultimately show ?thesis using "1.IH" [OF True] p "1.prems"(1) by simp
  next
    case False
    then have m: "m = 1" using "1.prems"(3) by simp
    then have "update_parents H m hs = hs" by (subst update_parents.simps) simp
    moreover have "n = m \<or> \<not> is_above n m" if "0 < n" for n using is_above_one [OF that] m by blast
    ultimately show ?thesis using "1.prems" by simp
  qed
qed

lemma update_leaf_fields [simp]:
  "mk_inner (update_leaf H i h s) = mk_inner s" "mk_store_id (update_leaf H i h s) = mk_store_id s"
  "mk_page_size (update_leaf H i h s) = mk_page_size s" "mk_page_count (update_leaf H i h s) = mk_page_count s"
  "mk_leaf_base (update_leaf H i h s) = mk_leaf_base s"
  by (simp_all add: update_leaf_def Let_def)

lemma update_leaf_auth:
  assumes "mk_auth H D s" and "i < mk_page_count s"
  shows "mk_auth H (D(i := p)) (update_leaf H i (hash_leaf H (mk_store_id s) i p) s)"
proof -
  let ?lb = "mk_leaf_base s" and ?leaf = "mk_leaf H D s" and ?leaf' = "mk_leaf H (D(i := p)) s"
  let ?hs = "(mk_hashes s)[?lb + i := hash_leaf H (mk_store_id s) i p]"
  have m: "?lb + i < ?lb * 2" "0 < ?lb + i" using assms by (auto simp: mk_auth_def)
  have other: "j \<noteq> i \<Longrightarrow> ?leaf j = ?leaf' j" for j by (simp add: mk_leaf_def page_leaf_def)
  have "?hs ! n = tree_hash H ?lb ?leaf' n" if "0 < n" "n < ?lb * 2" "n = ?lb + i \<or> \<not> is_above n (?lb + i)" for n
  proof (cases "n = ?lb + i")
    case True
    then show ?thesis using m assms by (simp add: mk_auth_def tree_hash_leaf mk_leaf_def page_leaf_def)
  next
    case False
    then show ?thesis using that assms(1) tree_hash_other [of n ?lb i ?leaf ?leaf' H] other
      by (simp add: mk_auth_def)
  qed
  from update_parents_tree [OF _ m this] assms show ?thesis
    by (simp add: mk_auth_def update_leaf_def leaf_slot_def Let_def mk_leaf_def)
qed

section \<open>Contract over an honest store\<close>

definition mk_contents :: "('s \<Rightarrow> nat \<rightharpoonup> bytes) \<Rightarrow> 's merkle_store \<Rightarrow> nat \<rightharpoonup> bytes" where
  "mk_contents pages s = pages (mk_inner s)"

definition mk_ok ::
  "(bytes \<Rightarrow> bytes) \<Rightarrow> 's page_store \<Rightarrow> ('s \<Rightarrow> bool) \<Rightarrow> ('s \<Rightarrow> nat \<rightharpoonup> bytes) \<Rightarrow> 's merkle_store \<Rightarrow> bool" where
  "mk_ok H ps ok pages s \<longleftrightarrow>
     ok (mk_inner s) \<and> mk_page_size s = ps_page_size ps (mk_inner s) \<and>
     mk_page_count s = ps_page_count ps (mk_inner s) \<and>
     (\<forall>i < mk_page_count s. pages (mk_inner s) i \<noteq> None) \<and>
     mk_auth H (\<lambda>i. the (pages (mk_inner s) i)) s"

locale merkle_over = sha256_spec H + page_store_spec ps ok pages
  for H and ps :: "'s page_store" and ok and pages
begin

lemma mk_inner_kept:
  assumes "mk_ok H ps ok pages s" and "kept ok (ps_page_size ps) (ps_page_count ps) (mk_inner s) t"
    and "pages t = pages (mk_inner s)"
  shows "kept (mk_ok H ps ok pages) mk_page_size mk_page_count s (s\<lparr>mk_inner := t\<rparr>) \<and>
    mk_contents pages (s\<lparr>mk_inner := t\<rparr>) = mk_contents pages s"
  using assms by (simp add: kept_def mk_ok_def mk_contents_def)

lemma merkle_read_page_spec:
  assumes "mk_ok H ps ok pages s" and "mk_contents pages s i = Some p"
  shows "\<exists>s'. merkle_read_page H ps i (mk_page_size s) s = (Inr p, s') \<and>
    kept (mk_ok H ps ok pages) mk_page_size mk_page_count s s' \<and> mk_contents pages s' = mk_contents pages s"
proof -
  have i: "i < mk_page_count s" using assms page_index [of "mk_inner s" i p] by (simp add: mk_ok_def mk_contents_def)
  obtain t where t: "ps_read_page ps i (ps_page_size ps (mk_inner s)) (mk_inner s) = (Inr p, t)"
    "kept ok (ps_page_size ps) (ps_page_count ps) (mk_inner s) t" "pages t = pages (mk_inner s)"
    using assms read_page [of "mk_inner s" i p] by (auto simp: mk_ok_def mk_contents_def)
  have "mk_hashes s ! leaf_slot s i = hash_leaf H (mk_store_id s) i p"
    using mk_auth_leaf [of H _ s i] assms i by (auto simp: mk_ok_def mk_contents_def)
  then have "merkle_read_page H ps i (mk_page_size s) s = (Inr p, s\<lparr>mk_inner := t\<rparr>)"
    using t(1) i assms(1)
    by (simp add: merkle_read_page_def comp_simps check_page_def mk_ok_def leaf_slot_def hash_eq_iff)
  with mk_inner_kept [OF assms(1) t(2,3)] show ?thesis by blast
qed

lemma merkle_write_page_spec:
  assumes "mk_ok H ps ok pages s" and "i < mk_page_count s" and "length p = mk_page_size s"
  shows "\<exists>s'. merkle_write_page H ps i p s = (Inr (), s') \<and>
    kept (mk_ok H ps ok pages) mk_page_size mk_page_count s s' \<and>
    mk_contents pages s' = (mk_contents pages s)(i \<mapsto> p)"
proof -
  obtain t where t: "ps_write_page ps i p (mk_inner s) = (Inr (), t)"
    "kept ok (ps_page_size ps) (ps_page_count ps) (mk_inner s) t"
    "pages t = (pages (mk_inner s))(i \<mapsto> p)"
    using assms write_page [of "mk_inner s" i p] by (auto simp: mk_ok_def)
  let ?s = "s\<lparr>mk_inner := t\<rparr>"
  let ?s' = "update_leaf H i (hash_leaf H (mk_store_id s) i p) ?s"
  have run: "merkle_write_page H ps i p s = (Inr (), ?s')"
    using t(1) assms(2,3) by (simp add: merkle_write_page_def comp_simps check_page_def)
  have "mk_auth H (\<lambda>i. the (pages (mk_inner s) i)) ?s" using assms(1) by (simp add: mk_ok_def)
  from update_leaf_auth [OF this, of i p] assms(2)
  have "mk_auth H ((\<lambda>i. the (pages (mk_inner s) i))(i := p)) ?s'" by simp
  moreover have "(\<lambda>i. the (pages (mk_inner s) i))(i := p) = (\<lambda>i. the (pages t i))"
    using t(3) by (auto simp: fun_eq_iff)
  ultimately have "mk_ok H ps ok pages ?s'"
    using assms(1) t(2,3) by (simp add: mk_ok_def kept_def)
  with run t(3) show ?thesis by (simp add: kept_def mk_contents_def)
qed

lemma merkle_io:
  "page_io mk_page_size mk_page_count (merkle_read_page H ps) (merkle_write_page H ps)
    (mk_ok H ps ok pages) (mk_contents pages)"
proof unfold_locales
  fix s i p
  assume "mk_ok H ps ok pages s" "mk_contents pages s i = Some p"
  then show "i < mk_page_count s" "length p = mk_page_size s"
    by (simp_all add: mk_ok_def mk_contents_def page_index page_length)
qed (simp_all add: merkle_read_page_spec merkle_write_page_spec)

lemma merkle_store_spec: "page_store_spec (merkle_ops H ps) (mk_ok H ps ok pages) (mk_contents pages)"
proof -
  note io = merkle_io
  have "\<exists>s'. mk_zoom (ps_flush ps) s = (Inr (), s') \<and>
      kept (mk_ok H ps ok pages) mk_page_size mk_page_count s s' \<and>
      mk_contents pages s' = mk_contents pages s" if ok_s: "mk_ok H ps ok pages s" for s
  proof -
    obtain t where t: "ps_flush ps (mk_inner s) = (Inr (), t)"
      "kept ok (ps_page_size ps) (ps_page_count ps) (mk_inner s) t" "pages t = pages (mk_inner s)"
      using ok_s flush [of "mk_inner s"] by (auto simp: mk_ok_def)
    then show ?thesis using mk_inner_kept [OF ok_s t(2,3)] by (auto simp: comp_simps)
  qed
  then show ?thesis
    using io page_io.default_read [OF io] page_io.default_write [OF io]
    by (simp add: page_store_spec_def page_store_spec_axioms_def merkle_ops_def)
qed

lemma initial_leaves:
  assumes "ok t" and "ps_page_size ps t = k" and "ps_page_count ps t = n"
    and "\<And>i. i < n \<Longrightarrow> pages t i = Some (D i)"
  shows "\<exists>t'. cmapM (initial_leaf H ps sid n k) xs t = (Inr (map (page_leaf H sid n k D) xs), t') \<and>
    kept ok (ps_page_size ps) (ps_page_count ps) t t' \<and> pages t' = pages t"
  using assms
proof (induction xs arbitrary: t)
  case Nil
  then show ?case by (simp add: comp_simps kept_refl)
next
  case (Cons i xs)
  have "\<exists>t1. initial_leaf H ps sid n k i t = (Inr (page_leaf H sid n k D i), t1) \<and>
      kept ok (ps_page_size ps) (ps_page_count ps) t t1 \<and> pages t1 = pages t"
  proof (cases "i < n")
    case True
    then show ?thesis using Cons.prems read_page [of t i "D i"]
      by (auto simp: initial_leaf_def page_leaf_def comp_simps)
  next
    case False
    then show ?thesis using Cons.prems(1) by (simp add: initial_leaf_def page_leaf_def comp_simps kept_refl)
  qed
  then obtain t1 where t1: "initial_leaf H ps sid n k i t = (Inr (page_leaf H sid n k D i), t1)"
    "kept ok (ps_page_size ps) (ps_page_count ps) t t1" "pages t1 = pages t" by blast
  moreover obtain t2 where "cmapM (initial_leaf H ps sid n k) xs t1 = (Inr (map (page_leaf H sid n k D) xs), t2)"
    "kept ok (ps_page_size ps) (ps_page_count ps) t1 t2" "pages t2 = pages t1"
    using Cons.IH [of t1] Cons.prems t1 keptD [OF t1(2)] by auto
  ultimately show ?case by (auto simp: comp_simps intro: kept_trans)
qed

lemma merkle_new_ok:
  assumes "ok inner" and "\<And>i. i < ps_page_count ps inner \<Longrightarrow> pages inner i \<noteq> None"
    and "0 < ps_page_count ps inner" and "0 < ps_page_size ps inner" and "ps_page_count ps inner \<le> 2 ^ 63"
  shows "\<exists>s. merkle_new H ps inner sid = Inr s \<and> mk_ok H ps ok pages s \<and>
    mk_contents pages s = pages inner \<and> mk_store_id s = sid \<and>
    mk_page_count s = ps_page_count ps inner \<and> mk_page_size s = ps_page_size ps inner"
proof -
  let ?n = "ps_page_count ps inner" and ?k = "ps_page_size ps inner"
  define D where "D i = the (pages inner i)" for i
  obtain lb where lb: "checked_next_power_of_two ?n = Some lb" "?n \<le> lb" "0 < lb"
    using checked_next_power_of_two_fits [OF assms(3,5)] by blast
  let ?leaf = "page_leaf H sid ?n ?k D"
  have D: "i < ?n \<Longrightarrow> pages inner i = Some (D i)" for i using assms(2) [of i] by (auto simp: D_def)
  obtain t where t: "cmapM (initial_leaf H ps sid ?n ?k) [0..<lb] inner = (Inr (map ?leaf [0..<lb]), t)"
    "kept ok (ps_page_size ps) (ps_page_count ps) inner t" "pages t = pages inner"
    using initial_leaves [OF assms(1) refl refl D, of sid "[0..<lb]"] by auto
  let ?h0 = "replicate lb zero_hash @ map ?leaf [0..<lb]"
  have "?h0 ! m = tree_hash H lb ?leaf m" if "lb \<le> m" "m < lb * 2" for m
    using that by (simp add: nth_append tree_hash_leaf)
  from fill_inner_nodes [of ?h0 lb, OF _ this, of 1] lb(3)
  have fill: "length (fold (hash_parent_at H) (rev [1..<lb]) ?h0) = lb * 2"
    "\<forall>m. 1 \<le> m \<and> m < lb * 2 \<longrightarrow> fold (hash_parent_at H) (rev [1..<lb]) ?h0 ! m = tree_hash H lb ?leaf m"
    by simp_all
  show ?thesis
    using t lb fill assms(2-4) keptD [OF t(2)]
    by (auto simp: merkle_new_def Let_def mk_ok_def mk_auth_def mk_leaf_def mk_contents_def D_def [abs_def])
qed

end

section \<open>Integrity over an arbitrary store\<close>

text \<open>
  A run of reads and writes that goes on after errors, and what an authenticated memory owes: a
  read that succeeds returns the array's page, a write that fails changes nothing.
\<close>

datatype page_op = ReadOp nat | WriteOp nat bytes

fun run_page_ops ::
  "(nat \<Rightarrow> ('s, bytes) comp) \<Rightarrow> (nat \<Rightarrow> bytes \<Rightarrow> ('s, unit) comp) \<Rightarrow> page_op list \<Rightarrow> 's \<Rightarrow>
    bytes result list \<times> 's" where
  "run_page_ops rd wr [] s = ([], s)"
| "run_page_ops rd wr (ReadOp i # ops) s =
     (let (r, s') = rd i s; (rs, s'') = run_page_ops rd wr ops s' in (r # rs, s''))"
| "run_page_ops rd wr (WriteOp i p # ops) s =
     (let (r, s') = wr i p s; (rs, s'') = run_page_ops rd wr ops s'
      in (map_sum id (\<lambda>_. []) r # rs, s''))"

fun authentic :: "(nat \<Rightarrow> bytes) \<Rightarrow> page_op list \<Rightarrow> bytes result list \<Rightarrow> bool" where
  "authentic D (ReadOp i # ops) (r # rs) \<longleftrightarrow> (\<forall>p. r = Inr p \<longrightarrow> p = D i) \<and> authentic D ops rs"
| "authentic D (WriteOp i p # ops) (r # rs) \<longleftrightarrow>
     authentic (case r of Inr _ \<Rightarrow> D(i := p) | Inl _ \<Rightarrow> D) ops rs"
| "authentic D [] [] \<longleftrightarrow> True"
| "authentic D _ _ \<longleftrightarrow> False"

text \<open>The leaf strings that are hashed for genuine pages: the initial ones and those written.\<close>

definition written_inputs :: "bytes \<Rightarrow> nat \<Rightarrow> (nat \<Rightarrow> bytes) \<Rightarrow> page_op list \<Rightarrow> bytes set" where
  "written_inputs sid n D ops =
     page_inputs sid n D \<union> {leaf_input sid i p |i p. WriteOp i p \<in> set ops}"

lemma merkle_read_page_authentic:
  assumes "mk_auth H D s" and "sha256_spec H" and "no_second_preimage H (page_inputs (mk_store_id s) (mk_page_count s) D)"
    and "merkle_read_page H ps i len s = (r, s')"
  shows "(\<forall>p. r = Inr p \<longrightarrow> p = D i) \<and> (\<exists>t. s' = s\<lparr>mk_inner := t\<rparr>)"
proof (cases "check_page (mk_page_count s) (mk_page_size s) i len")
  case (Inl e)
  with assms(4) show ?thesis by (auto simp: merkle_read_page_def comp_simps intro!: exI [of _ "mk_inner s"])
next
  case (Inr u)
  then have i: "i < mk_page_count s" by (auto simp: check_page_def split: if_splits)
  obtain r0 t where rd: "ps_read_page ps i len (mk_inner s) = (r0, t)" by fastforce
  show ?thesis
  proof (cases r0)
    case (Inl e)
    with rd Inr assms(4) show ?thesis by (auto simp: merkle_read_page_def comp_simps zoom_def)
  next
    case (Inr p)
    let ?e = "InvalidInput ''Merkle page authentication failed for page {}''"
    have "r = (if hash_eq (hash_leaf H (mk_store_id s) i p) (mk_hashes s ! leaf_slot s i) then Inr p else Inl ?e)"
      "s' = s\<lparr>mk_inner := t\<rparr>"
      using rd Inr \<open>check_page _ _ _ _ = Inr u\<close> assms(4)
      by (auto simp: merkle_read_page_def comp_simps zoom_def leaf_slot_def split: if_splits)
    moreover have "p = D i" if "hash_eq (hash_leaf H (mk_store_id s) i p) (mk_hashes s ! leaf_slot s i)"
      using that mk_auth_leaf [OF assms(1) i] sha256_spec.hash_lengths(1) [OF assms(2)]
        sha256_spec.hash_leaf_genuine [OF assms(2,3) i, of p]
      by (simp add: hash_eq_iff)
    ultimately show ?thesis by (auto split: if_splits)
  qed
qed

lemma merkle_write_page_authentic:
  assumes "mk_auth H D s" and "merkle_write_page H ps i p s = (r, s')"
  shows "case r of Inr _ \<Rightarrow> i < mk_page_count s \<and> mk_auth H (D(i := p)) s' | Inl _ \<Rightarrow> mk_auth H D s'"
    and "mk_store_id s' = mk_store_id s" and "mk_page_count s' = mk_page_count s" and "mk_page_size s' = mk_page_size s"
proof -
  obtain r0 t where wr: "ps_write_page ps i p (mk_inner s) = (r0, t)" by fastforce
  let ?s = "s\<lparr>mk_inner := t\<rparr>"
  consider (bad) e where "check_page (mk_page_count s) (mk_page_size s) i (length p) = Inl e"
    | (err) e u where "check_page (mk_page_count s) (mk_page_size s) i (length p) = Inr u" "r0 = Inl e"
    | (fine) u v where "check_page (mk_page_count s) (mk_page_size s) i (length p) = Inr u" "r0 = Inr v"
    by (cases "check_page (mk_page_count s) (mk_page_size s) i (length p)"; cases r0) auto
  then have *: "(case r of Inr _ \<Rightarrow> i < mk_page_count s \<and> mk_auth H (D(i := p)) s' | Inl _ \<Rightarrow> mk_auth H D s') \<and>
    mk_store_id s' = mk_store_id s \<and> mk_page_count s' = mk_page_count s \<and> mk_page_size s' = mk_page_size s"
  proof cases
    case bad
    then have "r = Inl e" "s' = s" using assms(2) by (simp_all add: merkle_write_page_def comp_simps)
    then show ?thesis using assms(1) by simp
  next
    case err
    then show ?thesis using assms wr by (auto simp: merkle_write_page_def comp_simps zoom_def)
  next
    case fine
    then have i: "i < mk_page_count s" by (auto simp: check_page_def split: if_splits)
    have "r = Inr ()" "s' = update_leaf H i (hash_leaf H (mk_store_id s) i p) ?s"
      using fine assms(2) wr by (auto simp: merkle_write_page_def comp_simps zoom_def)
    then show ?thesis using update_leaf_auth [of H D ?s i p] assms(1) i by simp
  qed
  then show "case r of Inr _ \<Rightarrow> i < mk_page_count s \<and> mk_auth H (D(i := p)) s' | Inl _ \<Rightarrow> mk_auth H D s'"
    "mk_store_id s' = mk_store_id s" "mk_page_count s' = mk_page_count s" "mk_page_size s' = mk_page_size s" by simp_all
qed

lemma written_inputs_mono:
  "page_inputs sid n D \<subseteq> written_inputs sid n D ops"
  "written_inputs sid n D ops \<subseteq> written_inputs sid n D (op # ops)"
  "i < n \<Longrightarrow> written_inputs sid n (D(i := p)) ops \<subseteq> written_inputs sid n D (WriteOp i p # ops)"
  by (fastforce simp: written_inputs_def page_inputs_def split: if_splits)+

lemma no_second_preimage_mono: "no_second_preimage H Q \<Longrightarrow> Q' \<subseteq> Q \<Longrightarrow> no_second_preimage H Q'"
  by (auto simp: no_second_preimage_def)

text \<open>
  C19. Authenticated memory. Let the hash tree of a Merkle store be the tree over the pages \<open>D\<close>, and
  let the storage below it do whatever it likes (no contract is assumed). In any sequence of page
  reads and writes, the read that succeeds returns the page last written successfully (or the page
  of \<open>D\<close>), provided no second string has the SHA-256 hash of a genuine page's leaf string.
\<close>

theorem merkle_authenticated_memory:
  fixes ps :: "'s page_store"
  assumes "sha256_spec H" and "mk_auth H D s"
    and "no_second_preimage H (written_inputs (mk_store_id s) (mk_page_count s) D ops)"
    and "run_page_ops (\<lambda>i. merkle_read_page H ps i (mk_page_size s)) (merkle_write_page H ps) ops s = (rs, s')"
  shows "authentic D ops rs"
proof -
  have "authentic D ops rs"
    if "mk_auth H D u" "no_second_preimage H (written_inputs (mk_store_id u) (mk_page_count u) D ops)"
      "run_page_ops (\<lambda>i. merkle_read_page H ps i k) (merkle_write_page H ps) ops u = (rs, s')" for u k
    using that
  proof (induction ops arbitrary: D u rs)
    case (Cons op ops)
    let ?run = "run_page_ops (\<lambda>i. merkle_read_page H ps i k) (merkle_write_page H ps) ops"
    show ?case
    proof (cases op)
      case (ReadOp i)
      obtain r u1 where r: "merkle_read_page H ps i k u = (r, u1)" by fastforce
      obtain rs1 u2 where rs1: "?run u1 = (rs1, u2)" by fastforce
      have rd: "(\<forall>p. r = Inr p \<longrightarrow> p = D i) \<and> (\<exists>t. u1 = u\<lparr>mk_inner := t\<rparr>)"
        using Cons.prems(1,2) r
        by (intro merkle_read_page_authentic [OF _ assms(1)])
          (auto intro: no_second_preimage_mono [OF _ written_inputs_mono(1)])
      then have "authentic D ops rs1"
        using Cons.prems rs1 r ReadOp
        by (intro Cons.IH [of D u1]) (auto intro: no_second_preimage_mono [OF _ written_inputs_mono(2)])
      then show ?thesis using Cons.prems(3) r rs1 rd ReadOp by auto
    next
      case (WriteOp i p)
      obtain r u1 where r: "merkle_write_page H ps i p u = (r, u1)" by fastforce
      obtain rs1 u2 where rs1: "?run u1 = (rs1, u2)" by fastforce
      note wr = merkle_write_page_authentic [OF Cons.prems(1) r]
      have "authentic (case r of Inr _ \<Rightarrow> D(i := p) | Inl _ \<Rightarrow> D) ops rs1"
        using Cons.prems(2,3) wr rs1 r WriteOp
        by (intro Cons.IH [of _ u1])
          (auto split: sum.splits intro: no_second_preimage_mono [OF _ written_inputs_mono(2)]
            no_second_preimage_mono [OF _ written_inputs_mono(3)])
      then show ?thesis using Cons.prems(3) r rs1 WriteOp by (auto split: sum.splits)
    qed
  qed auto
  with assms(2-4) show ?thesis by blast
qed

text \<open>
  A hash function for examples: the strings of a table have distinct hashes, all others share one.
\<close>

fun rank_of :: "'a list \<Rightarrow> 'a \<Rightarrow> nat" where
  "rank_of [] x = 0"
| "rank_of (y # ys) x = (if x = y then Suc (length ys) else rank_of ys x)"

definition table_hash :: "bytes list \<Rightarrow> bytes \<Rightarrow> bytes" where
  "table_hash qs x = le_bytes_nat 32 (rank_of qs x)"

lemma rank_of_le: "rank_of ys x \<le> length ys"
  by (induction ys) auto

lemma rank_of_inj: "x \<in> set ys \<Longrightarrow> rank_of ys y = rank_of ys x \<Longrightarrow> y = x"
proof (induction ys)
  case (Cons z ys)
  show ?case using Cons rank_of_le [of ys y] rank_of_le [of ys x] by (auto split: if_splits)
qed simp

interpretation table_hash: sha256_spec "table_hash qs" for qs
  by unfold_locales (simp add: table_hash_def)

lemma table_hash_genuine:
  assumes "Q \<subseteq> set qs" and "length qs < 256"
  shows "no_second_preimage (table_hash qs) Q"
  unfolding no_second_preimage_def
proof (intro ballI allI impI)
  fix x y
  assume x: "x \<in> Q" and eq: "table_hash qs y = table_hash qs x"
  have "nat_of_le_bytes (table_hash qs z) = rank_of qs z" for z
    using rank_of_le [of qs z] assms(2) unfolding table_hash_def nat_of_le_bytes_le_bytes_nat
    by (intro mod_less) (simp add: less_le_trans [of _ 256])
  with eq have "rank_of qs y = rank_of qs x" by metis
  with x assms(1) show "y = x" by (auto intro: rank_of_inj)
qed

interpretation merkle_mem: merkle_over "table_hash qs" mem_store_ops mem_ok mem_contents for qs
  by unfold_locales

interpretation merkle_mem_store: page_store_spec "merkle_ops (table_hash qs) mem_store_ops"
  "mk_ok (table_hash qs) mem_store_ops mem_ok mem_contents" "mk_contents mem_contents" for qs
  by (rule merkle_mem.merkle_store_spec)

definition two_pages :: "u8 \<Rightarrow> u8 \<Rightarrow> mem_store" where
  "two_pages a b = \<lparr>mem_page_size = 1, mem_pages = [a, b]\<rparr>"

lemma two_pages_simps [simp]:
  "mem_page_size (two_pages a b) = 1" "mem_page_count (two_pages a b) = 2" "mem_ok (two_pages a b)"
  "mem_contents (two_pages a b) 0 = Some [a]" "mem_contents (two_pages a b) (Suc 0) = Some [b]"
  "i < 2 \<Longrightarrow> mem_contents (two_pages a b) i = Some [if i = 0 then a else b]"
  by (auto simp: two_pages_def mem_page_count_def mem_ok_def mem_contents_def slice_def less_2_cases_iff)

theorem merkle_authenticated_memory_witness:
  "\<exists>s rs s'. let H = table_hash [leaf_input [] 0 [7], leaf_input [] 1 [8], leaf_input [] 0 [9]];
      ops = [ReadOp 1, WriteOp 0 [9], ReadOp 0, ReadOp 1] in
    merkle_new H mem_store_ops (two_pages 7 8) [] = Inr s \<and>
    run_page_ops (\<lambda>i. merkle_read_page H mem_store_ops i 1) (merkle_write_page H mem_store_ops) ops
      (s\<lparr>mk_inner := two_pages 7 6\<rparr>) = (rs, s') \<and>
    authentic (\<lambda>i. [if i = 0 then 7 else 8]) ops rs"
proof -
  let ?qs = "[leaf_input [] 0 [7], leaf_input [] 1 [8], leaf_input [] 0 [9]]"
  let ?H = "table_hash ?qs" and ?D = "\<lambda>i::nat. [if i = 0 then 7 else 8] :: bytes"
  let ?ops = "[ReadOp 1, WriteOp 0 [9], ReadOp 0, ReadOp 1]"
  obtain s where s: "merkle_new ?H mem_store_ops (two_pages 7 8) [] = Inr s"
    "mk_ok ?H mem_store_ops mem_ok mem_contents s" "mk_contents mem_contents s = mem_contents (two_pages 7 8)"
    "mk_store_id s = []" and dims: "mk_page_count s = 2" "mk_page_size s = 1"
    using merkle_mem.merkle_new_ok [of "two_pages 7 8" ?qs "[]"] by (auto simp: mem_store_ops_def)
  let ?t = "s\<lparr>mk_inner := two_pages 7 6\<rparr>"
  have "mk_auth ?H (\<lambda>i. the (mem_contents (two_pages 7 8) i)) s"
    using s(2,3) by (simp add: mk_ok_def mk_contents_def)
  then have auth: "mk_auth ?H ?D ?t"
    using mk_auth_cong [of s "\<lambda>i. the (mem_contents (two_pages 7 8) i)" ?D] dims by simp
  have "no_second_preimage ?H (written_inputs (mk_store_id ?t) (mk_page_count ?t) ?D ?ops)"
    by (rule table_hash_genuine) (auto simp: written_inputs_def page_inputs_def dims s(4) less_2_cases_iff)
  moreover obtain rs s' where "run_page_ops (\<lambda>i. merkle_read_page ?H mem_store_ops i (mk_page_size ?t))
      (merkle_write_page ?H mem_store_ops) ?ops ?t = (rs, s')" by fastforce
  ultimately show ?thesis
    using merkle_authenticated_memory [OF table_hash.sha256_spec_axioms auth] s(1) dims by (auto simp: Let_def)
qed

end
