(* ===== verification/Tiered_Merkle.thy ===== *)
theory Tiered_Merkle
  imports Merkle_Store
begin

text \<open>
  \<open>TieredMerklePageStore\<close> (src/src/merkle.rs): the hash tree of a page store with its top levels in
  trusted memory and the lower nodes packed into the pages of a second store. The theory has the
  operations, the contract over honest stores (both meet the page-store contract), the round trip
  of the trusted state, what a read guarantees over dishonest stores, and what a write does not.
\<close>

section \<open>The store\<close>

record ('s, 'h) tiered_store =
  td_inner :: 's
  td_hash_store :: 'h
  td_store_id :: bytes
  td_page_size :: nat
  td_page_count :: nat
  td_leaf_base :: nat
  td_trusted_levels :: nat
  td_trusted_node_limit :: nat
  td_hashes_per_page :: nat
  td_disk_hash_nodes :: nat
  td_trusted_hashes :: "bytes list"

abbreviation td_zoom :: "('s, 'a) comp \<Rightarrow> (('s, 'h) tiered_store, 'a) comp" where
  "td_zoom \<equiv> zoom td_inner (\<lambda>t s. s\<lparr>td_inner := t\<rparr>)"

abbreviation td_hash_zoom :: "('h, 'a) comp \<Rightarrow> (('s, 'h) tiered_store, 'a) comp" where
  "td_hash_zoom \<equiv> zoom td_hash_store (\<lambda>t s. s\<lparr>td_hash_store := t\<rparr>)"

text \<open>Layout helpers. \<open>1usize.checked_shl(n)\<close> is \<open>None\<close> from 64 on.\<close>

definition trusted_node_limit :: "nat \<Rightarrow> nat \<Rightarrow> nat result" where
  "trusted_node_limit leaf_base trusted_levels =
     (let tree_levels = trailing_zeros leaf_base + 1 in
      if trusted_levels = 0 \<or> trusted_levels > tree_levels then
        Inl (InvalidInput ''trusted_levels {} out of range 1..={}'')
      else ok_or (if trusted_levels < 64 then Some (2 ^ trusted_levels) else None)
        (InvalidInput ''trusted_levels is too large''))"

definition hashes_per_page :: "nat \<Rightarrow> nat result" where
  "hashes_per_page page_size =
     (if page_size < 32 then Inl (InvalidInput ''hash store page_size {} must be at least 32'')
      else Inr (page_size div 32))"

definition disk_hash_nodes :: "nat \<Rightarrow> nat \<Rightarrow> nat" where
  "disk_hash_nodes leaf_base limit = leaf_base * 2 - limit"

definition pages_for_hash_nodes :: "nat \<Rightarrow> nat \<Rightarrow> nat" where
  "pages_for_hash_nodes hash_nodes per_page = div_ceil hash_nodes per_page"

definition required_hash_pages :: "nat \<Rightarrow> nat \<Rightarrow> nat \<Rightarrow> nat result" where
  "required_hash_pages page_count hash_page_size trusted_levels =
     rbind (leaf_base_for_page_count page_count) (\<lambda>leaf_base.
     rbind (trusted_node_limit leaf_base trusted_levels) (\<lambda>limit.
     rbind (hashes_per_page hash_page_size) (\<lambda>per_page.
     Inr (pages_for_hash_nodes (disk_hash_nodes leaf_base limit) per_page))))"

text \<open>Node hashes, in trusted memory or on disk.\<close>

definition check_node_idx :: "nat \<Rightarrow> (('s, 'h) tiered_store, unit) comp" where
  "check_node_idx node_idx =
     bnd (gets td_leaf_base) (\<lambda>leaf_base.
     require (\<not> (node_idx = 0 \<or> node_idx \<ge> leaf_base * 2)) (InvalidInput ''Merkle node {} out of range''))"

definition disk_hash_position :: "nat \<Rightarrow> ('s, 'h) tiered_store \<Rightarrow> (nat \<times> nat) result" where
  "disk_hash_position node_idx s =
     (if node_idx < td_trusted_node_limit s then
        Inl (InvalidInput ''Merkle node {} is trusted, not disk-backed'')
      else
        let disk_offset = node_idx - td_trusted_node_limit s in
        if disk_offset \<ge> td_disk_hash_nodes s then
          Inl (InvalidInput ''Merkle disk offset {} out of range {}'')
        else Inr (disk_offset div td_hashes_per_page s, disk_offset mod td_hashes_per_page s * 32))"

definition read_disk_hash :: "'h page_store \<Rightarrow> nat \<Rightarrow> (('s, 'h) tiered_store, bytes) comp" where
  "read_disk_hash hs node_idx =
     bnd (gets (disk_hash_position node_idx)) (\<lambda>r.
     bnd (lift r) (\<lambda>(page_idx, offset).
     bnd (gets (\<lambda>s. ps_page_size hs (td_hash_store s))) (\<lambda>n.
     bnd (td_hash_zoom (ps_read_page hs page_idx n)) (\<lambda>page.
     ret (slice offset (offset + 32) page)))))"

definition write_disk_hash :: "'h page_store \<Rightarrow> nat \<Rightarrow> bytes \<Rightarrow> (('s, 'h) tiered_store, unit) comp" where
  "write_disk_hash hs node_idx hash =
     bnd (gets (disk_hash_position node_idx)) (\<lambda>r.
     bnd (lift r) (\<lambda>(page_idx, offset).
     bnd (gets (\<lambda>s. ps_page_size hs (td_hash_store s))) (\<lambda>n.
     bnd (td_hash_zoom (ps_read_page hs page_idx n)) (\<lambda>page.
     td_hash_zoom (ps_write_page hs page_idx (copy_into offset hash page))))))"

definition read_hash :: "'h page_store \<Rightarrow> nat \<Rightarrow> (('s, 'h) tiered_store, bytes) comp" where
  "read_hash hs node_idx =
     bnd (check_node_idx node_idx) (\<lambda>_.
     bnd (gets td_trusted_node_limit) (\<lambda>limit.
     if node_idx < limit then gets (\<lambda>s. td_trusted_hashes s ! node_idx)
     else read_disk_hash hs node_idx))"

definition write_hash :: "'h page_store \<Rightarrow> nat \<Rightarrow> bytes \<Rightarrow> (('s, 'h) tiered_store, unit) comp" where
  "write_hash hs node_idx hash =
     bnd (check_node_idx node_idx) (\<lambda>_.
     bnd (gets td_trusted_node_limit) (\<lambda>limit.
     if node_idx < limit then
       modify (\<lambda>s. s\<lparr>td_trusted_hashes := (td_trusted_hashes s)[node_idx := hash]\<rparr>)
     else write_disk_hash hs node_idx hash))"

text \<open>\<open>rebuild_hashes\<close>: the leaves, then every level from the one above the leaves to the root.\<close>

definition rebuild_leaf ::
  "(bytes \<Rightarrow> bytes) \<Rightarrow> 's page_store \<Rightarrow> 'h page_store \<Rightarrow> nat \<Rightarrow> (('s, 'h) tiered_store, unit) comp" where
  "rebuild_leaf H ps hs page_idx =
     bnd (gets (\<lambda>s. (td_page_count s, td_page_size s, td_store_id s, td_leaf_base s)))
       (\<lambda>(page_count, page_size, store_id, leaf_base).
     bnd (if page_idx < page_count then
            bnd (td_zoom (ps_read_page ps page_idx page_size)) (\<lambda>page.
            ret (hash_leaf H store_id page_idx page))
          else ret (hash_empty_leaf H store_id page_idx page_size)) (\<lambda>hash.
     write_hash hs (leaf_base + page_idx) hash))"

definition rebuild_node :: "(bytes \<Rightarrow> bytes) \<Rightarrow> 'h page_store \<Rightarrow> nat \<Rightarrow> (('s, 'h) tiered_store, unit) comp" where
  "rebuild_node H hs node_idx =
     bnd (read_hash hs (node_idx * 2)) (\<lambda>left.
     bnd (read_hash hs (node_idx * 2 + 1)) (\<lambda>right.
     write_hash hs node_idx (hash_node H node_idx left right)))"

definition td_height :: "('s, 'h) tiered_store \<Rightarrow> nat" where
  "td_height s = trailing_zeros (td_leaf_base s)"

definition rebuild_hashes ::
  "(bytes \<Rightarrow> bytes) \<Rightarrow> 's page_store \<Rightarrow> 'h page_store \<Rightarrow> (('s, 'h) tiered_store, unit) comp" where
  "rebuild_hashes H ps hs =
     bnd (gets td_leaf_base) (\<lambda>leaf_base.
     bnd (citer (rebuild_leaf H ps hs) [0..<leaf_base]) (\<lambda>_.
     bnd (gets td_height) (\<lambda>height.
     citer (\<lambda>level. citer (rebuild_node H hs) [2 ^ level..<2 ^ (level + 1)]) (rev [0..<height]))))"

definition tiered_build ::
  "(bytes \<Rightarrow> bytes) \<Rightarrow> 's page_store \<Rightarrow> 'h page_store \<Rightarrow> 's \<Rightarrow> 'h \<Rightarrow> bytes \<Rightarrow> nat \<Rightarrow>
    ('s, 'h) tiered_store result" where
  "tiered_build H ps hs inner hash_store store_id trusted_levels =
     (let page_count = ps_page_count ps inner; page_size = ps_page_size ps inner in
      if page_count = 0 \<or> page_size = 0 then
        Inl (InvalidInput ''page_count and page_size must be > 0'')
      else
        rbind (leaf_base_for_page_count page_count) (\<lambda>leaf_base.
        rbind (trusted_node_limit leaf_base trusted_levels) (\<lambda>limit.
        rbind (hashes_per_page (ps_page_size hs hash_store)) (\<lambda>per_page.
        let nodes = disk_hash_nodes leaf_base limit;
            required = pages_for_hash_nodes nodes per_page in
        if ps_page_count hs hash_store < required then
          Inl (InvalidInput ''hash store has {} pages, need at least {}'')
        else
          (case rebuild_hashes H ps hs
             \<lparr>td_inner = inner, td_hash_store = hash_store, td_store_id = store_id,
              td_page_size = page_size, td_page_count = page_count, td_leaf_base = leaf_base,
              td_trusted_levels = trusted_levels, td_trusted_node_limit = limit,
              td_hashes_per_page = per_page, td_disk_hash_nodes = nodes,
              td_trusted_hashes = replicate limit zero_hash\<rparr> of
             (Inl e, _) \<Rightarrow> Inl e
           | (Inr _, store) \<Rightarrow> Inr store)))))"

definition from_trusted_state ::
  "'s page_store \<Rightarrow> 'h page_store \<Rightarrow> 's \<Rightarrow> 'h \<Rightarrow> tiered_merkle_state \<Rightarrow> ('s, 'h) tiered_store result" where
  "from_trusted_state ps hs inner hash_store state =
     (let page_count = ps_page_count ps inner; page_size = ps_page_size ps inner in
      if page_count \<noteq> tm_page_count state then
        Inl (InvalidInput ''data store page_count {} != trusted Merkle page_count {}'')
      else if page_size \<noteq> tm_page_size state then
        Inl (InvalidInput ''data store page_size {} != trusted Merkle page_size {}'')
      else if ps_page_size hs hash_store \<noteq> tm_hash_page_size state then
        Inl (InvalidInput ''hash store page_size {} != trusted Merkle hash_page_size {}'')
      else
        rbind (leaf_base_for_page_count page_count) (\<lambda>leaf_base.
        rbind (trusted_node_limit leaf_base (tm_trusted_levels state)) (\<lambda>limit.
        if length (tm_trusted_hashes state) \<noteq> limit then
          Inl (InvalidInput ''trusted hash count {} != expected {}'')
        else
          rbind (hashes_per_page (ps_page_size hs hash_store)) (\<lambda>per_page.
          let nodes = disk_hash_nodes leaf_base limit;
              required = pages_for_hash_nodes nodes per_page in
          if ps_page_count hs hash_store < required then
            Inl (InvalidInput ''hash store has {} pages, need at least {}'')
          else
            Inr \<lparr>td_inner = inner, td_hash_store = hash_store, td_store_id = tm_store_id state,
                 td_page_size = page_size, td_page_count = page_count, td_leaf_base = leaf_base,
                 td_trusted_levels = tm_trusted_levels state, td_trusted_node_limit = limit,
                 td_hashes_per_page = per_page, td_disk_hash_nodes = nodes,
                 td_trusted_hashes = tm_trusted_hashes state\<rparr>))))"

definition tiered_root :: "('s, 'h) tiered_store \<Rightarrow> bytes" where
  "tiered_root s = td_trusted_hashes s ! 1"

definition tiered_trusted_hash_bytes :: "('s, 'h) tiered_store \<Rightarrow> nat" where
  "tiered_trusted_hash_bytes s = (td_trusted_node_limit s - 1) * 32"

definition trusted_state :: "'h page_store \<Rightarrow> ('s, 'h) tiered_store \<Rightarrow> tiered_merkle_state" where
  "trusted_state hs s =
     \<lparr>tm_store_id = td_store_id s, tm_page_count = td_page_count s, tm_page_size = td_page_size s,
      tm_trusted_levels = td_trusted_levels s, tm_hash_page_size = ps_page_size hs (td_hash_store s),
      tm_trusted_hashes = td_trusted_hashes s\<rparr>"

definition tiered_into_parts :: "('s, 'h) tiered_store \<Rightarrow> 's \<times> 'h" where
  "tiered_into_parts s = (td_inner s, td_hash_store s)"

text \<open>
  The walk of \<open>verify_page_hash\<close> up to the trusted frontier. The frontier is at least 2 in every
  store the constructors make, so the walk never reaches node 0; the guard states it.
\<close>

function verify_walk ::
  "(bytes \<Rightarrow> bytes) \<Rightarrow> 'h page_store \<Rightarrow> nat \<Rightarrow> bytes \<Rightarrow> (('s, 'h) tiered_store, nat \<times> bytes) comp" where
  "verify_walk H hs node_idx current =
     bnd (gets td_trusted_node_limit) (\<lambda>limit.
     if limit \<le> node_idx \<and> 0 < node_idx then
       bnd (read_hash hs (sibling_node node_idx)) (\<lambda>sibling.
       verify_walk H hs (node_idx div 2) (parent_hash H node_idx current sibling))
     else ret (node_idx, current))"
  by pat_completeness auto
termination
  by (relation "measure (\<lambda>(H, hs, node_idx, current). node_idx)") auto

definition verify_page_hash ::
  "(bytes \<Rightarrow> bytes) \<Rightarrow> 'h page_store \<Rightarrow> nat \<Rightarrow> bytes \<Rightarrow> (('s, 'h) tiered_store, unit) comp" where
  "verify_page_hash H hs page_idx leaf_hash =
     bnd (gets td_leaf_base) (\<lambda>leaf_base.
     bnd (verify_walk H hs (leaf_base + page_idx) leaf_hash) (\<lambda>(node_idx, current).
     bnd (gets (\<lambda>s. td_trusted_hashes s ! node_idx)) (\<lambda>trusted.
     require (hash_eq current trusted)
       (InvalidInput ''Merkle page authentication failed for page {}''))))"

function update_walk ::
  "(bytes \<Rightarrow> bytes) \<Rightarrow> 'h page_store \<Rightarrow> nat \<Rightarrow> bytes \<Rightarrow> (('s, 'h) tiered_store, unit) comp" where
  "update_walk H hs node_idx current =
     (if 1 < node_idx then
        bnd (read_hash hs (sibling_node node_idx)) (\<lambda>sibling.
        let current = parent_hash H node_idx current sibling; node_idx = node_idx div 2 in
        bnd (write_hash hs node_idx current) (\<lambda>_.
        update_walk H hs node_idx current))
      else ret ())"
  by pat_completeness auto
termination
  by (relation "measure (\<lambda>(H, hs, node_idx, current). node_idx)") auto

declare verify_walk.simps [simp del] update_walk.simps [simp del]

definition update_page_hash ::
  "(bytes \<Rightarrow> bytes) \<Rightarrow> 'h page_store \<Rightarrow> nat \<Rightarrow> bytes \<Rightarrow> (('s, 'h) tiered_store, unit) comp" where
  "update_page_hash H hs page_idx leaf_hash =
     bnd (gets (\<lambda>s. td_leaf_base s + page_idx)) (\<lambda>node_idx.
     bnd (write_hash hs node_idx leaf_hash) (\<lambda>_.
     update_walk H hs node_idx leaf_hash))"

definition tiered_read_page ::
  "(bytes \<Rightarrow> bytes) \<Rightarrow> 's page_store \<Rightarrow> 'h page_store \<Rightarrow> nat \<Rightarrow> nat \<Rightarrow> (('s, 'h) tiered_store, bytes) comp" where
  "tiered_read_page H ps hs page_idx len =
     bnd (gets (\<lambda>s. check_page (td_page_count s) (td_page_size s) page_idx len)) (\<lambda>r.
     bnd (lift r) (\<lambda>_.
     bnd (td_zoom (ps_read_page ps page_idx len)) (\<lambda>out.
     bnd (gets td_store_id) (\<lambda>store_id.
     bnd (verify_page_hash H hs page_idx (hash_leaf H store_id page_idx out)) (\<lambda>_.
     ret out)))))"

definition tiered_write_page ::
  "(bytes \<Rightarrow> bytes) \<Rightarrow> 's page_store \<Rightarrow> 'h page_store \<Rightarrow> nat \<Rightarrow> bytes \<Rightarrow> (('s, 'h) tiered_store, unit) comp" where
  "tiered_write_page H ps hs page_idx input =
     bnd (gets (\<lambda>s. check_page (td_page_count s) (td_page_size s) page_idx (length input))) (\<lambda>r.
     bnd (lift r) (\<lambda>_.
     bnd (td_zoom (ps_write_page ps page_idx input)) (\<lambda>_.
     bnd (gets td_store_id) (\<lambda>store_id.
     update_page_hash H hs page_idx (hash_leaf H store_id page_idx input)))))"

definition tiered_ops ::
  "(bytes \<Rightarrow> bytes) \<Rightarrow> 's page_store \<Rightarrow> 'h page_store \<Rightarrow> ('s, 'h) tiered_store page_store" where
  "tiered_ops H ps hs =
     \<lparr>ps_page_size = td_page_size,
      ps_page_count = td_page_count,
      ps_read_page = tiered_read_page H ps hs,
      ps_write_page = tiered_write_page H ps hs,
      ps_read_pages = default_read_pages td_page_size (tiered_read_page H ps hs),
      ps_write_pages = default_write_pages td_page_size (tiered_write_page H ps hs),
      ps_flush = bnd (td_zoom (ps_flush ps)) (\<lambda>_. td_hash_zoom (ps_flush hs)),
      ps_tiered_merkle_state = (\<lambda>s. Some (trusted_state hs s))\<rparr>"

section \<open>Node hashes over an honest hash store\<close>

definition td_static :: "('s, 'h) tiered_store \<Rightarrow> bytes \<times> nat \<times> nat \<times> nat \<times> nat \<times> nat \<times> nat \<times> nat" where
  "td_static s = (td_store_id s, td_page_size s, td_page_count s, td_leaf_base s, td_trusted_levels s,
     td_trusted_node_limit s, td_hashes_per_page s, td_disk_hash_nodes s)"

definition td_required :: "('s, 'h) tiered_store \<Rightarrow> nat" where
  "td_required s = pages_for_hash_nodes (td_disk_hash_nodes s) (td_hashes_per_page s)"

text \<open>The layout the constructors establish.\<close>

definition td_layout :: "'h page_store \<Rightarrow> ('s, 'h) tiered_store \<Rightarrow> bool" where
  "td_layout hs s \<longleftrightarrow>
     0 < td_page_count s \<and> leaf_base_for_page_count (td_page_count s) = Inr (td_leaf_base s) \<and>
     trusted_node_limit (td_leaf_base s) (td_trusted_levels s) = Inr (td_trusted_node_limit s) \<and>
     hashes_per_page (ps_page_size hs (td_hash_store s)) = Inr (td_hashes_per_page s) \<and>
     td_disk_hash_nodes s = disk_hash_nodes (td_leaf_base s) (td_trusted_node_limit s) \<and>
     td_required s \<le> ps_page_count hs (td_hash_store s) \<and>
     length (td_trusted_hashes s) = td_trusted_node_limit s"

lemma td_layout_bounds:
  assumes "td_layout hs s"
  shows "2 \<le> td_trusted_node_limit s" "td_trusted_node_limit s \<le> td_leaf_base s * 2"
    "td_page_count s \<le> td_leaf_base s" "0 < td_leaf_base s" "0 < td_hashes_per_page s"
    "td_hashes_per_page s * 32 \<le> ps_page_size hs (td_hash_store s)"
    "td_leaf_base s = 2 ^ td_height s"
proof -
  obtain h where h: "td_leaf_base s = 2 ^ h" "td_page_count s \<le> td_leaf_base s" "0 < td_leaf_base s"
    using assms leaf_base_ok [of "td_page_count s" "td_leaf_base s"] by (auto simp: td_layout_def)
  have l: "0 < td_trusted_levels s" "td_trusted_levels s \<le> h + 1"
    "td_trusted_node_limit s = 2 ^ td_trusted_levels s"
    using assms h(1) by (auto simp: td_layout_def trusted_node_limit_def ok_or_def Let_def split: if_splits)
  show "2 \<le> td_trusted_node_limit s"
    using l(1,3) power_increasing [of 1 "td_trusted_levels s" "2 :: nat"] by simp
  show "td_trusted_node_limit s \<le> td_leaf_base s * 2"
    using l(2,3) h(1) power_increasing [of "td_trusted_levels s" "h + 1" "2 :: nat"] by simp
  show "td_page_count s \<le> td_leaf_base s" "0 < td_leaf_base s" by (fact h)+
  show "0 < td_hashes_per_page s" "td_hashes_per_page s * 32 \<le> ps_page_size hs (td_hash_store s)"
    using assms by (auto simp: td_layout_def hashes_per_page_def split: if_splits)
  show "td_leaf_base s = 2 ^ td_height s" using h(1) by (simp add: td_height_def)
qed

lemma div_ceil_bound: "0 < k \<Longrightarrow> d < n \<Longrightarrow> d div k < div_ceil n k"
proof -
  assume "0 < k" "d < n"
  then have "(d + k) div k \<le> (n + k - 1) div k" by (intro div_le_mono) simp
  moreover have "(d + k) div k = d div k + 1" using \<open>0 < k\<close> by (intro div_add_self2) simp
  ultimately show ?thesis by (simp add: div_ceil_def)
qed

lemma disk_hash_position_ok:
  assumes "td_layout hs s" and "td_trusted_node_limit s \<le> n" and "n < td_leaf_base s * 2"
  obtains pg off where "disk_hash_position n s = Inr (pg, off)" "pg < td_required s"
    "off + 32 \<le> ps_page_size hs (td_hash_store s)"
proof -
  let ?d = "n - td_trusted_node_limit s" and ?k = "td_hashes_per_page s"
  note b = td_layout_bounds [OF assms(1)]
  have d: "?d < td_disk_hash_nodes s" using assms by (auto simp: td_layout_def disk_hash_nodes_def)
  have "?d mod ?k < ?k" using b(5) by simp
  then have "?d mod ?k * 32 + 32 \<le> ps_page_size hs (td_hash_store s)"
    using page_range_bound [of "?d mod ?k" ?k 32] b(6) by linarith
  moreover have "?d div ?k < td_required s"
    using div_ceil_bound [OF b(5) d] by (simp add: td_required_def pages_for_hash_nodes_def)
  moreover have "disk_hash_position n s = Inr (?d div ?k, ?d mod ?k * 32)"
    using assms(2) d by (simp add: disk_hash_position_def Let_def)
  ultimately show ?thesis using that by blast
qed

lemma disk_hash_position_apart:
  assumes "disk_hash_position n s = Inr (pg, off)" and "disk_hash_position m s = Inr (pg, off')" and "n \<noteq> m"
  shows "off' + 32 \<le> off \<or> off + 32 \<le> off'"
proof -
  let ?l = "td_trusted_node_limit s" and ?k = "td_hashes_per_page s"
  have pos: "pg = (n - ?l) div ?k" "off = (n - ?l) mod ?k * 32" "?l \<le> n"
    "pg = (m - ?l) div ?k" "off' = (m - ?l) mod ?k * 32" "?l \<le> m"
    using assms(1,2) by (auto simp: disk_hash_position_def Let_def split: if_splits)
  then have "(n - ?l) mod ?k \<noteq> (m - ?l) mod ?k"
    using assms(3) by (metis div_mult_mod_eq eq_diff_iff)
  then show ?thesis using page_range_disjoint [of "(n - ?l) mod ?k" "(m - ?l) mod ?k" 32] pos by auto
qed

definition hash_at :: "('h \<Rightarrow> nat \<rightharpoonup> bytes) \<Rightarrow> ('s, 'h) tiered_store \<Rightarrow> nat \<Rightarrow> bytes" where
  "hash_at hpages s n =
     (if n < td_trusted_node_limit s then td_trusted_hashes s ! n
      else case disk_hash_position n s of
             Inr (pg, off) \<Rightarrow> slice off (off + 32) (the (hpages (td_hash_store s) pg))
           | Inl _ \<Rightarrow> [])"

definition td_shape :: "'h page_store \<Rightarrow> ('h \<Rightarrow> bool) \<Rightarrow> ('h \<Rightarrow> nat \<rightharpoonup> bytes) \<Rightarrow> ('s, 'h) tiered_store \<Rightarrow> bool" where
  "td_shape hs okh hpages s \<longleftrightarrow>
     td_layout hs s \<and> okh (td_hash_store s) \<and> (\<forall>j < td_required s. hpages (td_hash_store s) j \<noteq> None)"

definition td_frame :: "'h page_store \<Rightarrow> ('h \<Rightarrow> bool) \<Rightarrow> ('s, 'h) tiered_store \<Rightarrow> ('s, 'h) tiered_store \<Rightarrow> bool" where
  "td_frame hs okh s s' \<longleftrightarrow>
     td_inner s' = td_inner s \<and> td_static s' = td_static s \<and>
     kept okh (ps_page_size hs) (ps_page_count hs) (td_hash_store s) (td_hash_store s')"

lemma td_frameD:
  assumes "td_frame hs okh s s'"
  shows "td_inner s' = td_inner s" "td_store_id s' = td_store_id s" "td_page_size s' = td_page_size s"
    "td_page_count s' = td_page_count s" "td_leaf_base s' = td_leaf_base s"
    "td_trusted_node_limit s' = td_trusted_node_limit s" "td_height s' = td_height s"
    "td_required s' = td_required s" "disk_hash_position n s' = disk_hash_position n s"
  using assms by (auto simp: td_frame_def td_static_def td_required_def disk_hash_position_def td_height_def Let_def)

lemma td_frame_trans: "td_frame hs okh s s' \<Longrightarrow> td_frame hs okh s' s'' \<Longrightarrow> td_frame hs okh s s''"
  by (auto simp: td_frame_def intro: kept_trans)

lemma td_frame_layout:
  "td_frame hs okh s s' \<Longrightarrow> td_layout hs s \<Longrightarrow> length (td_trusted_hashes s') = length (td_trusted_hashes s) \<Longrightarrow>
    td_layout hs s'"
  by (auto simp: td_frame_def td_static_def td_layout_def td_required_def kept_def)

locale node_store = page_store_spec hs okh hpages
  for hs :: "'h page_store" and okh and hpages
begin

lemma td_frame_refl: "td_shape hs okh hpages s \<Longrightarrow> td_frame hs okh s s"
  by (simp add: td_frame_def td_shape_def kept_refl)

lemma read_hash_spec:
  assumes "td_shape hs okh hpages s" and "0 < n" and "n < td_leaf_base s * 2"
  shows "\<exists>s'. read_hash hs n s = (Inr (hash_at hpages s n), s') \<and> td_frame hs okh s s' \<and>
    td_shape hs okh hpages s' \<and> hash_at hpages s' = hash_at hpages s"
proof (cases "n < td_trusted_node_limit s")
  case True
  then show ?thesis using assms td_frame_refl [OF assms(1)]
    by (auto simp: read_hash_def check_node_idx_def comp_simps hash_at_def)
next
  case False
  have lay: "td_layout hs s" "okh (td_hash_store s)" using assms(1) by (auto simp: td_shape_def)
  obtain pg off where pos: "disk_hash_position n s = Inr (pg, off)" "pg < td_required s"
    using disk_hash_position_ok [OF lay(1)] False assms(3) by (metis not_less)
  then obtain page where page: "hpages (td_hash_store s) pg = Some page"
    using assms(1) by (auto simp: td_shape_def)
  then obtain t where t: "ps_read_page hs pg (ps_page_size hs (td_hash_store s)) (td_hash_store s) = (Inr page, t)"
    "kept okh (ps_page_size hs) (ps_page_count hs) (td_hash_store s) t" "hpages t = hpages (td_hash_store s)"
    using read_page [OF lay(2)] by blast
  let ?s' = "s\<lparr>td_hash_store := t\<rparr>"
  have fr: "td_frame hs okh s ?s'" using t(2) by (simp add: td_frame_def td_static_def)
  have "read_hash hs n s = (Inr (slice off (off + 32) page), ?s')"
    using False assms(2,3) pos(1) t(1)
    by (simp add: read_hash_def check_node_idx_def read_disk_hash_def comp_simps)
  moreover have "slice off (off + 32) page = hash_at hpages s n" using False pos(1) page by (simp add: hash_at_def)
  moreover have "hash_at hpages ?s' = hash_at hpages s"
    using t(3) td_frameD(9) [OF fr] by (simp add: hash_at_def fun_eq_iff split: sum.split)
  moreover have "td_shape hs okh hpages ?s'"
    using assms(1) td_frame_layout [OF fr lay(1)] t(2,3) td_frameD(8) [OF fr] by (simp add: td_shape_def kept_def)
  ultimately show ?thesis using fr by metis
qed

lemma write_hash_spec:
  assumes "td_shape hs okh hpages s" and "0 < n" and "n < td_leaf_base s * 2" and "length h = 32"
  shows "\<exists>s'. write_hash hs n h s = (Inr (), s') \<and> td_frame hs okh s s' \<and>
    td_shape hs okh hpages s' \<and>
    (\<forall>m. m < td_leaf_base s * 2 \<longrightarrow> hash_at hpages s' m = (if m = n then h else hash_at hpages s m))"
proof (cases "n < td_trusted_node_limit s")
  case True
  let ?s' = "s\<lparr>td_trusted_hashes := (td_trusted_hashes s)[n := h]\<rparr>"
  have "td_frame hs okh s ?s'" using assms(1) by (simp add: td_frame_def td_static_def kept_def td_shape_def)
  moreover from td_frame_layout [OF this] have "td_shape hs okh hpages ?s'"
    using assms(1) td_frameD(8) [OF calculation] by (simp add: td_shape_def)
  moreover have "write_hash hs n h s = (Inr (), ?s')"
    using True assms by (simp add: write_hash_def check_node_idx_def comp_simps)
  moreover have "hash_at hpages ?s' m = (if m = n then h else hash_at hpages s m)" for m
    using True assms(1) 
    by (auto simp: hash_at_def td_shape_def td_layout_def disk_hash_position_def Let_def split: sum.split)
  ultimately show ?thesis by blast
next
  case False
  have lay: "td_layout hs s" "okh (td_hash_store s)" using assms(1) by (auto simp: td_shape_def)
  obtain pg off where pos: "disk_hash_position n s = Inr (pg, off)" "pg < td_required s"
    "off + 32 \<le> ps_page_size hs (td_hash_store s)"
    using disk_hash_position_ok [OF lay(1)] False assms(3) by (metis not_less)
  then obtain page where page: "hpages (td_hash_store s) pg = Some page"
    using assms(1) by (auto simp: td_shape_def)
  then obtain t where t: "ps_read_page hs pg (ps_page_size hs (td_hash_store s)) (td_hash_store s) = (Inr page, t)"
    "kept okh (ps_page_size hs) (ps_page_count hs) (td_hash_store s) t" "hpages t = hpages (td_hash_store s)"
    using read_page [OF lay(2)] by blast
  have len: "length page = ps_page_size hs (td_hash_store s)" "pg < ps_page_count hs (td_hash_store s)"
    using page_length [OF lay(2) page] page_index [OF lay(2) page] by simp_all
  let ?page' = "copy_into off h page"
  have fits: "off + length h \<le> length page" using pos(3) len assms(4) by simp
  then obtain t' where t': "ps_write_page hs pg ?page' t = (Inr (), t')"
    "kept okh (ps_page_size hs) (ps_page_count hs) t t'" "hpages t' = (hpages t)(pg \<mapsto> ?page')"
    using write_page [of t pg ?page'] t(2) len by (auto simp: kept_def)
  let ?s' = "s\<lparr>td_hash_store := t'\<rparr>"
  have fr: "td_frame hs okh s ?s'" using kept_trans [OF t(2) t'(2)] by (simp add: td_frame_def td_static_def)
  have "write_hash hs n h s = (Inr (), ?s')"
    using False assms(2,3) pos(1) t(1) t'(1)
    by (simp add: write_hash_def check_node_idx_def write_disk_hash_def comp_simps)
  moreover have "td_shape hs okh hpages ?s'"
    using assms(1) td_frame_layout [OF fr lay(1)] t(3) t'(2,3) td_frameD(8) [OF fr] by (simp add: td_shape_def kept_def)
  moreover have "hash_at hpages ?s' m = (if m = n then h else hash_at hpages s m)" if m: "m < td_leaf_base s * 2" for m
  proof (cases "m < td_trusted_node_limit s")
    case True
    then show ?thesis using False by (auto simp: hash_at_def)
  next
    case m_disk: False
    obtain pg' off' where pos': "disk_hash_position m s = Inr (pg', off')"
      "off' + 32 \<le> ps_page_size hs (td_hash_store s)"
      using disk_hash_position_ok [OF lay(1)] m_disk m by (metis not_less)
    have at: "hash_at hpages ?s' m = slice off' (off' + 32) (the (hpages t' pg'))"
      "hash_at hpages s m = slice off' (off' + 32) (the (hpages (td_hash_store s) pg'))"
      using m_disk pos'(1) td_frameD(9) [OF fr] by (simp_all add: hash_at_def)
    show ?thesis
    proof (cases "m = n")
      case True
      then have "pg' = pg" "off' = off" using pos pos' by simp_all
      then show ?thesis using True at(1) t'(3) slice_copy_into_same [OF fits] assms(4) by simp
    next
      case False
      then show ?thesis
        using at t'(3) t(3) page pos'(2) len slice_copy_into_other [OF fits, of "off' + 32" off'] assms(4)
          disk_hash_position_apart [OF pos(1), of m off'] pos'(1)
        by (cases "pg' = pg") auto
    qed
  qed
  ultimately show ?thesis using fr by blast
qed

end

section \<open>Contract over honest stores\<close>

definition td_leaf :: "(bytes \<Rightarrow> bytes) \<Rightarrow> (nat \<Rightarrow> bytes) \<Rightarrow> ('s, 'h) tiered_store \<Rightarrow> nat \<Rightarrow> bytes" where
  "td_leaf H D s = page_leaf H (td_store_id s) (td_page_count s) (td_page_size s) D"

definition td_tree ::
  "(bytes \<Rightarrow> bytes) \<Rightarrow> (nat \<Rightarrow> bytes) \<Rightarrow> ('s, 'h) tiered_store \<Rightarrow> nat \<Rightarrow> bytes" where
  "td_tree H D s = tree_hash H (td_leaf_base s) (td_leaf H D s)"

definition td_contents :: "('s \<Rightarrow> nat \<rightharpoonup> bytes) \<Rightarrow> ('s, 'h) tiered_store \<Rightarrow> nat \<rightharpoonup> bytes" where
  "td_contents pages s = pages (td_inner s)"

definition td_honest ::
  "'s page_store \<Rightarrow> ('s \<Rightarrow> bool) \<Rightarrow> ('s \<Rightarrow> nat \<rightharpoonup> bytes) \<Rightarrow> 'h page_store \<Rightarrow> ('h \<Rightarrow> bool) \<Rightarrow>
    ('h \<Rightarrow> nat \<rightharpoonup> bytes) \<Rightarrow> ('s, 'h) tiered_store \<Rightarrow> bool" where
  "td_honest ps ok pages hs okh hpages s \<longleftrightarrow>
     td_shape hs okh hpages s \<and> ok (td_inner s) \<and> td_page_size s = ps_page_size ps (td_inner s) \<and>
     td_page_count s = ps_page_count ps (td_inner s) \<and>
     (\<forall>i < td_page_count s. pages (td_inner s) i \<noteq> None)"

definition td_ok ::
  "(bytes \<Rightarrow> bytes) \<Rightarrow> 's page_store \<Rightarrow> ('s \<Rightarrow> bool) \<Rightarrow> ('s \<Rightarrow> nat \<rightharpoonup> bytes) \<Rightarrow> 'h page_store \<Rightarrow>
    ('h \<Rightarrow> bool) \<Rightarrow> ('h \<Rightarrow> nat \<rightharpoonup> bytes) \<Rightarrow> ('s, 'h) tiered_store \<Rightarrow> bool" where
  "td_ok H ps ok pages hs okh hpages s \<longleftrightarrow>
     td_honest ps ok pages hs okh hpages s \<and>
     (\<forall>n. 0 < n \<and> n < td_leaf_base s * 2 \<longrightarrow>
        hash_at hpages s n = td_tree H (\<lambda>i. the (pages (td_inner s) i)) s n)"

lemma td_tree_frame: "td_frame hs okh s s' \<Longrightarrow> td_tree H D s' = td_tree H D s"
  by (simp add: td_tree_def td_leaf_def td_frameD(2-5) [of hs okh s s'])

lemma td_inner_update [simp]:
  "disk_hash_position n (s\<lparr>td_inner := t\<rparr>) = disk_hash_position n s"
  "hash_at hpages (s\<lparr>td_inner := t\<rparr>) = hash_at hpages s"
  "td_layout hs (s\<lparr>td_inner := t\<rparr>) = td_layout hs s"
  "td_shape hs okh hpages (s\<lparr>td_inner := t\<rparr>) = td_shape hs okh hpages s"
  "td_tree H D (s\<lparr>td_inner := t\<rparr>) = td_tree H D s"
proof -
  show pos: "disk_hash_position n (s\<lparr>td_inner := t\<rparr>) = disk_hash_position n s" for n
    by (simp add: disk_hash_position_def Let_def)
  show "hash_at hpages (s\<lparr>td_inner := t\<rparr>) = hash_at hpages s"
    by (simp add: hash_at_def pos fun_eq_iff split: sum.split)
qed (simp_all add: td_layout_def td_required_def td_shape_def td_tree_def td_leaf_def)

lemma td_tree_leaf: "i < td_page_count s \<Longrightarrow> td_tree H D s (td_leaf_base s + i) = hash_leaf H (td_store_id s) i (D i)"
  by (simp add: td_tree_def tree_hash_leaf td_leaf_def page_leaf_def)

lemma td_tree_other:
  "\<not> is_above n (td_leaf_base s + i) \<Longrightarrow> 0 < n \<Longrightarrow> td_tree H (D(i := p)) s n = td_tree H D s n"
  unfolding td_tree_def by (rule tree_hash_other) (auto simp: td_leaf_def page_leaf_def)

locale tiered_over =
  sha256_spec H + data: page_store_spec ps ok pages + node_store hs okh hpages
  for H and ps :: "'s page_store" and ok and pages and hs :: "'h page_store" and okh and hpages
begin

lemma length_td_tree [simp]: "length (td_tree H D s n) = 32"
  unfolding td_tree_def by (rule length_tree_hash) (simp add: td_leaf_def)

lemma verify_walk_spec:
  assumes "td_shape hs okh hpages s" and "0 < n" and "n < td_leaf_base s * 2"
    and "\<And>m. 0 < m \<Longrightarrow> m < td_leaf_base s * 2 \<Longrightarrow> hash_at hpages s m = td_tree H D s m"
  shows "\<exists>m s'. verify_walk H hs n (td_tree H D s n) s = (Inr (m, td_tree H D s m), s') \<and>
    0 < m \<and> m < td_trusted_node_limit s \<and> td_frame hs okh s s' \<and>
    td_shape hs okh hpages s' \<and> hash_at hpages s' = hash_at hpages s"
  using assms
proof (induction n arbitrary: s rule: less_induct)
  case (less n)
  have lim: "2 \<le> td_trusted_node_limit s"
    using less.prems(1) td_layout_bounds(1) by (auto simp: td_shape_def)
  show ?case
  proof (cases "td_trusted_node_limit s \<le> n")
    case True
    have sib: "0 < sibling_node n" "sibling_node n < td_leaf_base s * 2"
      using True lim less.prems(3) by (auto simp: sibling_node_eq elim!: oddE evenE)
    obtain s1 where s1: "read_hash hs (sibling_node n) s = (Inr (td_tree H D s (sibling_node n)), s1)"
      "td_frame hs okh s s1" "td_shape hs okh hpages s1" "hash_at hpages s1 = hash_at hpages s"
      using read_hash_spec [OF less.prems(1) sib] less.prems(4) [OF sib] by auto
    have par: "parent_hash H n (td_tree H D s n) (td_tree H D s (sibling_node n)) = td_tree H D s1 (n div 2)"
      using parent_hash_tree [of n "td_leaf_base s"] True lim less.prems(3) td_tree_frame [OF s1(2)]
      by (simp add: td_tree_def mult.commute)
    have half: "n div 2 < n" "0 < n div 2" "n div 2 < td_leaf_base s1 * 2"
      using True lim less.prems(3) td_frameD(5) [OF s1(2)] by auto
    obtain m s2 where s2: "verify_walk H hs (n div 2) (td_tree H D s1 (n div 2)) s1 = (Inr (m, td_tree H D s1 m), s2)"
      "0 < m" "m < td_trusted_node_limit s1" "td_frame hs okh s1 s2" "td_shape hs okh hpages s2"
      "hash_at hpages s2 = hash_at hpages s1"
      using less.IH [OF half(1) s1(3) half(2,3)] less.prems(4) s1(4) td_frameD(5) [OF s1(2)]
        td_tree_frame [OF s1(2), of H D] by auto
    have "verify_walk H hs n (td_tree H D s n) s = (Inr (m, td_tree H D s m), s2)"
      using True less.prems(2) s1(1) s2(1) par td_tree_frame [OF s1(2), of H D]
      by (subst verify_walk.simps) (simp add: comp_simps)
    with s2 s1(2,4) td_frameD(6) [OF s1(2)] show ?thesis by (auto intro: td_frame_trans)
  next
    case False
    then have "verify_walk H hs n (td_tree H D s n) s = (Inr (n, td_tree H D s n), s)"
      by (subst verify_walk.simps) (simp add: comp_simps)
    with False less.prems(1,2) td_frame_refl [OF less.prems(1)] show ?thesis by auto
  qed
qed

lemma update_walk_spec:
  assumes "td_shape hs okh hpages s" and "0 < m" and "m < td_leaf_base s * 2"
    and "\<And>n. 0 < n \<Longrightarrow> n < td_leaf_base s * 2 \<Longrightarrow> n = m \<or> \<not> is_above n m \<Longrightarrow> hash_at hpages s n = td_tree H D s n"
  shows "\<exists>s'. update_walk H hs m (td_tree H D s m) s = (Inr (), s') \<and>
    td_frame hs okh s s' \<and> td_shape hs okh hpages s' \<and>
    (\<forall>n. 0 < n \<and> n < td_leaf_base s * 2 \<longrightarrow> hash_at hpages s' n = td_tree H D s n)"
  using assms
proof (induction m arbitrary: s rule: less_induct)
  case (less m)
  show ?case
  proof (cases "1 < m")
    case True
    let ?p = "m div 2" and ?q = "sibling_node m"
    have q: "0 < ?q" "?q < td_leaf_base s * 2" "?q \<noteq> m" "?p < ?q"
      using True less.prems(3) by (auto simp: sibling_node_eq elim!: oddE evenE)
    then have "\<not> is_above ?q m" using is_above_iff_half [of ?q m] is_above_le [of ?q ?p] by auto
    then obtain s1 where s1: "read_hash hs ?q s = (Inr (td_tree H D s ?q), s1)"
      "td_frame hs okh s s1" "td_shape hs okh hpages s1" "hash_at hpages s1 = hash_at hpages s"
      using read_hash_spec [OF less.prems(1) q(1,2)] less.prems(4) [OF q(1,2)] by auto
    have par: "parent_hash H m (td_tree H D s m) (td_tree H D s ?q) = td_tree H D s ?p"
      using parent_hash_tree [of m "td_leaf_base s"] True less.prems(3) by (simp add: td_tree_def mult.commute)
    have p: "?p < m" "0 < ?p" "?p < td_leaf_base s1 * 2"
      using True less.prems(3) td_frameD(5) [OF s1(2)] by auto
    obtain s2 where s2: "write_hash hs ?p (td_tree H D s ?p) s1 = (Inr (), s2)" "td_frame hs okh s1 s2"
      "td_shape hs okh hpages s2"
      "\<forall>n. n < td_leaf_base s1 * 2 \<longrightarrow> hash_at hpages s2 n = (if n = ?p then td_tree H D s ?p else hash_at hpages s1 n)"
      using write_hash_spec [OF s1(3) p(2,3), of "td_tree H D s ?p"] by auto
    have fr: "td_frame hs okh s s2" using s1(2) s2(2) by (rule td_frame_trans)
    note tr = td_tree_frame [OF fr, of H D] and lb = td_frameD(5) [OF fr] td_frameD(5) [OF s1(2)]
    have "\<exists>s'. update_walk H hs ?p (td_tree H D s2 ?p) s2 = (Inr (), s') \<and> td_frame hs okh s2 s' \<and>
        td_shape hs okh hpages s' \<and>
        (\<forall>n. 0 < n \<and> n < td_leaf_base s2 * 2 \<longrightarrow> hash_at hpages s' n = td_tree H D s2 n)"
    proof (rule less.IH [OF p(1) s2(3) p(2)])
      show "?p < td_leaf_base s2 * 2" using p(3) lb by simp
      fix n assume n: "0 < n" "n < td_leaf_base s2 * 2" "n = ?p \<or> \<not> is_above n ?p"
      then have "n = m \<or> n = ?p \<or> \<not> is_above n m" using is_above_iff_half [of n m] by blast
      then show "hash_at hpages s2 n = td_tree H D s2 n"
        using n s2(4) s1(4) lb tr less.prems(4) by auto
    qed
    then obtain s' where "update_walk H hs ?p (td_tree H D s ?p) s2 = (Inr (), s')" "td_frame hs okh s2 s'"
      "td_shape hs okh hpages s'" "\<forall>n. 0 < n \<and> n < td_leaf_base s * 2 \<longrightarrow> hash_at hpages s' n = td_tree H D s n"
      using tr lb by auto
    moreover from this(1) have "update_walk H hs m (td_tree H D s m) s = (Inr (), s')"
      using True s1(1) s2(1) par by (subst update_walk.simps) (simp add: comp_simps Let_def)
    ultimately show ?thesis using td_frame_trans [OF fr] by blast
  next
    case False
    then have m: "m = 1" using less.prems(2) by simp
    then have "update_walk H hs m (td_tree H D s m) s = (Inr (), s)"
      by (subst update_walk.simps) (simp add: comp_simps)
    moreover have "n = m \<or> \<not> is_above n m" if "0 < n" for n using is_above_one [OF that] m by blast
    ultimately show ?thesis using less.prems td_frame_refl [OF less.prems(1)] by auto
  qed
qed

lemma td_inner_same:
  assumes "td_ok H ps ok pages hs okh hpages s"
    and "kept ok (ps_page_size ps) (ps_page_count ps) (td_inner s) t" and "pages t = pages (td_inner s)"
  shows "td_ok H ps ok pages hs okh hpages (s\<lparr>td_inner := t\<rparr>)"
  using assms by (simp add: td_ok_def td_honest_def kept_def)

lemma td_ok_frame:
  assumes "td_ok H ps ok pages hs okh hpages s" and "td_frame hs okh s s'" and "td_shape hs okh hpages s'"
    and "hash_at hpages s' = hash_at hpages s"
  shows "kept (td_ok H ps ok pages hs okh hpages) td_page_size td_page_count s s' \<and>
    td_contents pages s' = td_contents pages s"
  using assms(1,3,4) td_frameD [OF assms(2)] td_tree_frame [OF assms(2)]
  by (simp add: kept_def td_ok_def td_honest_def td_contents_def)

lemma tiered_read_page_spec:
  assumes "td_ok H ps ok pages hs okh hpages s" and "td_contents pages s i = Some p"
  shows "\<exists>s'. tiered_read_page H ps hs i (td_page_size s) s = (Inr p, s') \<and>
    kept (td_ok H ps ok pages hs okh hpages) td_page_size td_page_count s s' \<and>
    td_contents pages s' = td_contents pages s"
proof -
  have hon: "td_honest ps ok pages hs okh hpages s" using assms(1) by (simp add: td_ok_def)
  have i: "i < td_page_count s"
    using hon assms(2) data.page_index [of "td_inner s" i p] by (simp add: td_honest_def td_contents_def)
  obtain t where t: "ps_read_page ps i (td_page_size s) (td_inner s) = (Inr p, t)"
    "kept ok (ps_page_size ps) (ps_page_count ps) (td_inner s) t" "pages t = pages (td_inner s)"
    using hon assms(2) data.read_page [of "td_inner s" i p] by (auto simp: td_honest_def td_contents_def)
  let ?s = "s\<lparr>td_inner := t\<rparr>" and ?D = "\<lambda>i. the (pages t i)"
  have ok: "td_ok H ps ok pages hs okh hpages ?s" by (rule td_inner_same [OF assms(1) t(2,3)])
  then have shape: "td_shape hs okh hpages ?s" and lay: "td_layout hs ?s"
    by (auto simp: td_ok_def td_honest_def td_shape_def)
  have tree: "0 < n \<Longrightarrow> n < td_leaf_base ?s * 2 \<Longrightarrow> hash_at hpages ?s n = td_tree H ?D ?s n" for n
    using ok by (simp add: td_ok_def)
  have n: "0 < td_leaf_base ?s + i" "td_leaf_base ?s + i < td_leaf_base ?s * 2"
    using i td_layout_bounds(3,4) [OF lay] by auto
  obtain m s' where walk: "verify_walk H hs (td_leaf_base ?s + i) (td_tree H ?D ?s (td_leaf_base ?s + i)) ?s =
      (Inr (m, td_tree H ?D ?s m), s')" "0 < m" "m < td_trusted_node_limit ?s" "td_frame hs okh ?s s'"
      "td_shape hs okh hpages s'" "hash_at hpages s' = hash_at hpages ?s"
    using verify_walk_spec [OF shape n tree] by auto
  have leaf: "td_tree H ?D ?s (td_leaf_base ?s + i) = hash_leaf H (td_store_id s) i p"
    using i t(3) assms(2) td_tree_leaf [of i ?s H ?D] by (simp add: td_contents_def)
  have "td_trusted_hashes s' ! m = hash_at hpages s' m"
    using walk(3) td_frameD(6) [OF walk(4)] by (simp add: hash_at_def)
  also have "\<dots> = td_tree H ?D ?s m"
    using walk(2,3,6) tree [of m] td_layout_bounds(2) [OF lay] by simp
  finally have "tiered_read_page H ps hs i (td_page_size s) s = (Inr p, s')"
    using t(1) i walk(1) leaf
    by (simp add: tiered_read_page_def verify_page_hash_def check_page_def comp_simps hash_eq_iff)
  moreover have "kept (td_ok H ps ok pages hs okh hpages) td_page_size td_page_count s ?s"
    using ok by (simp add: kept_def)
  ultimately show ?thesis
    using td_ok_frame [OF ok walk(4-6)] t(3) by (auto simp: td_contents_def intro: kept_trans)
qed

text \<open>
  A write relies on the hashes of the nodes that are not on the way from its leaf to the root, and
  on no others.
\<close>

lemma tiered_write_page_general:
  assumes hon: "td_honest ps ok pages hs okh hpages s" and "i < td_page_count s" and "length p = td_page_size s"
    and off: "\<And>m. 0 < m \<Longrightarrow> m < td_leaf_base s * 2 \<Longrightarrow> \<not> is_above m (td_leaf_base s + i) \<Longrightarrow>
      hash_at hpages s m = td_tree H (\<lambda>i. the (pages (td_inner s) i)) s m"
  shows "\<exists>s'. tiered_write_page H ps hs i p s = (Inr (), s') \<and>
    kept (td_ok H ps ok pages hs okh hpages) td_page_size td_page_count s s' \<and>
    td_contents pages s' = (td_contents pages s)(i \<mapsto> p)"
proof -
  obtain t where t: "ps_write_page ps i p (td_inner s) = (Inr (), t)"
    "kept ok (ps_page_size ps) (ps_page_count ps) (td_inner s) t" "pages t = (pages (td_inner s))(i \<mapsto> p)"
    using hon assms(2,3) data.write_page [of "td_inner s" i p] by (auto simp: td_honest_def)
  let ?s = "s\<lparr>td_inner := t\<rparr>" and ?D = "\<lambda>i. the (pages t i)"
  have D: "?D = (\<lambda>i. the (pages (td_inner s) i))(i := p)" using t(3) by (auto simp: fun_eq_iff)
  have hon': "td_honest ps ok pages hs okh hpages ?s"
    using hon t(2,3) by (simp add: td_honest_def kept_def)
  then have shape: "td_shape hs okh hpages ?s" and lay: "td_layout hs ?s"
    by (auto simp: td_honest_def td_shape_def)
  let ?n = "td_leaf_base ?s + i"
  have n: "0 < ?n" "?n < td_leaf_base ?s * 2" using assms(2) td_layout_bounds(3,4) [OF lay] by auto
  have leaf: "td_tree H ?D ?s ?n = hash_leaf H (td_store_id s) i p"
    using assms(2) td_tree_leaf [of i ?s H ?D] t(3) by simp
  obtain s1 where s1: "write_hash hs ?n (td_tree H ?D ?s ?n) ?s = (Inr (), s1)" "td_frame hs okh ?s s1"
    "td_shape hs okh hpages s1"
    "\<forall>m. m < td_leaf_base ?s * 2 \<longrightarrow> hash_at hpages s1 m = (if m = ?n then td_tree H ?D ?s ?n else hash_at hpages ?s m)"
    using write_hash_spec [OF shape n, of "td_tree H ?D ?s ?n"] by auto
  note tr = td_tree_frame [OF s1(2), of H ?D] and lb = td_frameD(5) [OF s1(2)]
  have "\<exists>s'. update_walk H hs ?n (td_tree H ?D s1 ?n) s1 = (Inr (), s') \<and> td_frame hs okh s1 s' \<and>
      td_shape hs okh hpages s' \<and>
      (\<forall>m. 0 < m \<and> m < td_leaf_base s1 * 2 \<longrightarrow> hash_at hpages s' m = td_tree H ?D s1 m)"
  proof (rule update_walk_spec [OF s1(3)])
    show "0 < ?n" "?n < td_leaf_base s1 * 2" using n lb by simp_all
    fix m assume m: "0 < m" "m < td_leaf_base s1 * 2" "m = ?n \<or> \<not> is_above m ?n"
    show "hash_at hpages s1 m = td_tree H ?D s1 m"
    proof (cases "m = ?n")
      case False
      then have "td_tree H ?D ?s m = td_tree H (\<lambda>i. the (pages (td_inner s) i)) ?s m"
        unfolding D using m(1,3) by (intro td_tree_other) auto
      with False m lb tr s1(4) off [of m] show ?thesis by simp
    qed (use m lb tr s1(4) in simp)
  qed
  then obtain s' where s': "update_walk H hs ?n (td_tree H ?D ?s ?n) s1 = (Inr (), s')" "td_frame hs okh s1 s'"
    "td_shape hs okh hpages s'" "\<forall>m. 0 < m \<and> m < td_leaf_base ?s * 2 \<longrightarrow> hash_at hpages s' m = td_tree H ?D ?s m"
    using tr lb by auto
  have fr: "td_frame hs okh ?s s'" using s1(2) s'(2) by (rule td_frame_trans)
  have run: "tiered_write_page H ps hs i p s = (Inr (), s')"
    using t(1) assms(2,3) s1(1) s'(1) leaf
    by (simp add: tiered_write_page_def update_page_hash_def check_page_def comp_simps)
  have "td_ok H ps ok pages hs okh hpages s'"
    using hon' s'(3,4) td_frameD [OF fr] td_tree_frame [OF fr]
    by (simp add: td_ok_def td_honest_def)
  with run td_frameD [OF fr] t(3) show ?thesis by (simp add: kept_def td_contents_def)
qed

lemma tiered_write_page_spec:
  assumes "td_ok H ps ok pages hs okh hpages s" and "i < td_page_count s" and "length p = td_page_size s"
  shows "\<exists>s'. tiered_write_page H ps hs i p s = (Inr (), s') \<and>
    kept (td_ok H ps ok pages hs okh hpages) td_page_size td_page_count s s' \<and>
    td_contents pages s' = (td_contents pages s)(i \<mapsto> p)"
  using assms by (intro tiered_write_page_general) (simp_all add: td_ok_def)

lemma tiered_io:
  "page_io td_page_size td_page_count (tiered_read_page H ps hs) (tiered_write_page H ps hs)
    (td_ok H ps ok pages hs okh hpages) (td_contents pages)"
proof unfold_locales
  fix s :: "('s, 'h) tiered_store" and i p
  assume "td_ok H ps ok pages hs okh hpages s" "td_contents pages s i = Some p"
  then show "i < td_page_count s" "length p = td_page_size s"
    by (simp_all add: td_ok_def td_honest_def td_contents_def data.page_index data.page_length)
qed (simp_all add: tiered_read_page_spec tiered_write_page_spec)

lemma tiered_flush_spec:
  assumes "td_ok H ps ok pages hs okh hpages s"
  shows "\<exists>s'. bnd (td_zoom (ps_flush ps)) (\<lambda>_. td_hash_zoom (ps_flush hs)) s = (Inr (), s') \<and>
    kept (td_ok H ps ok pages hs okh hpages) td_page_size td_page_count s s' \<and>
    td_contents pages s' = td_contents pages s"
proof -
  obtain t where t: "ps_flush ps (td_inner s) = (Inr (), t)"
    "kept ok (ps_page_size ps) (ps_page_count ps) (td_inner s) t" "pages t = pages (td_inner s)"
    using assms data.flush [of "td_inner s"] by (auto simp: td_ok_def td_honest_def)
  let ?s = "s\<lparr>td_inner := t\<rparr>"
  have ok1: "td_ok H ps ok pages hs okh hpages ?s" by (rule td_inner_same [OF assms t(2,3)])
  then have lay: "td_layout hs ?s" and shape: "td_shape hs okh hpages ?s"
    by (auto simp: td_ok_def td_honest_def td_shape_def)
  obtain u where u: "ps_flush hs (td_hash_store ?s) = (Inr (), u)"
    "kept okh (ps_page_size hs) (ps_page_count hs) (td_hash_store ?s) u" "hpages u = hpages (td_hash_store ?s)"
    using ok1 flush [of "td_hash_store ?s"] by (auto simp: td_ok_def td_honest_def td_shape_def)
  let ?s' = "?s\<lparr>td_hash_store := u\<rparr>"
  have fr: "td_frame hs okh ?s ?s'" using u(2) by (simp add: td_frame_def td_static_def)
  have "td_shape hs okh hpages ?s'"
    using shape td_frame_layout [OF fr lay] u(2,3) td_frameD(8) [OF fr] by (simp add: td_shape_def kept_def)
  moreover have "hash_at hpages ?s' = hash_at hpages ?s"
    using u(3) td_frameD(9) [OF fr] by (simp add: hash_at_def fun_eq_iff split: sum.split)
  ultimately have "kept (td_ok H ps ok pages hs okh hpages) td_page_size td_page_count ?s ?s'"
    using td_ok_frame [OF ok1 fr] by blast
  then show ?thesis using t(1,3) u(1) by (simp add: comp_simps td_contents_def kept_def)
qed

lemma tiered_store_spec:
  "page_store_spec (tiered_ops H ps hs) (td_ok H ps ok pages hs okh hpages) (td_contents pages)"
  using tiered_io page_io.default_read [OF tiered_io] page_io.default_write [OF tiered_io] tiered_flush_spec
  by (simp add: page_store_spec_def page_store_spec_axioms_def tiered_ops_def)

text \<open>Building the tree: the steps keep everything but the node hashes.\<close>

definition td_keep :: "('s, 'h) tiered_store \<Rightarrow> ('s, 'h) tiered_store \<Rightarrow> bool" where
  "td_keep s s' \<longleftrightarrow>
     td_honest ps ok pages hs okh hpages s' \<and> td_static s' = td_static s \<and>
     pages (td_inner s') = pages (td_inner s)"

lemma td_keep_refl: "td_honest ps ok pages hs okh hpages s \<Longrightarrow> td_keep s s"
  by (simp add: td_keep_def)

lemma td_keep_trans: "td_keep s s' \<Longrightarrow> td_keep s' s'' \<Longrightarrow> td_keep s s''"
  by (simp add: td_keep_def)

lemma td_keepD:
  assumes "td_keep s s'"
  shows "td_honest ps ok pages hs okh hpages s'" "td_shape hs okh hpages s'" "td_leaf_base s' = td_leaf_base s"
    "td_page_count s' = td_page_count s" "pages (td_inner s') = pages (td_inner s)"
    "td_tree H D s' = td_tree H D s" "td_height s' = td_height s"
  using assms
  by (auto simp: td_keep_def td_honest_def td_static_def td_tree_def td_leaf_def td_height_def)

lemma td_keep_frame:
  "td_honest ps ok pages hs okh hpages s \<Longrightarrow> td_frame hs okh s s' \<Longrightarrow> td_shape hs okh hpages s' \<Longrightarrow> td_keep s s'"
  using td_frameD [of hs okh s s'] by (simp add: td_keep_def td_honest_def td_frame_def)

lemma rebuild_leaf_spec:
  assumes "td_honest ps ok pages hs okh hpages s" and "i < td_leaf_base s"
    and "D = (\<lambda>i. the (pages (td_inner s) i))"
  shows "\<exists>s'. rebuild_leaf H ps hs i s = (Inr (), s') \<and> td_keep s s' \<and>
    (\<forall>m < td_leaf_base s * 2. hash_at hpages s' m =
      (if m = td_leaf_base s + i then td_tree H D s m else hash_at hpages s m))"
proof -
  define n where "n = td_leaf_base s + i"
  define h where "h = td_tree H D s n"
  have h: "h = (if i < td_page_count s then hash_leaf H (td_store_id s) i (D i)
      else hash_empty_leaf H (td_store_id s) i (td_page_size s))"
    by (simp add: h_def n_def td_tree_def tree_hash_leaf td_leaf_def page_leaf_def)
  obtain t where t: "td_honest ps ok pages hs okh hpages (s\<lparr>td_inner := t\<rparr>)" "pages t = pages (td_inner s)"
    "(if i < td_page_count s then bnd (td_zoom (ps_read_page ps i (td_page_size s)))
        (\<lambda>page. ret (hash_leaf H (td_store_id s) i page))
      else ret (hash_empty_leaf H (td_store_id s) i (td_page_size s))) s = (Inr h, s\<lparr>td_inner := t\<rparr>)"
  proof (cases "i < td_page_count s")
    case True
    then obtain t where "ps_read_page ps i (td_page_size s) (td_inner s) = (Inr (D i), t)"
      "kept ok (ps_page_size ps) (ps_page_count ps) (td_inner s) t" "pages t = pages (td_inner s)"
      using assms(1,3) data.read_page [of "td_inner s" i "D i"] by (fastforce simp: td_honest_def)
    then show ?thesis using that [of t] True h assms(1) by (simp add: comp_simps td_honest_def kept_def)
  next
    case False
    then show ?thesis using that [of "td_inner s"] h assms(1) by (simp add: comp_simps)
  qed
  let ?s = "s\<lparr>td_inner := t\<rparr>"
  have shape: "td_shape hs okh hpages ?s" using t(1) by (simp only: td_honest_def)
  obtain s' where s': "write_hash hs n h ?s = (Inr (), s')" "td_frame hs okh ?s s'" "td_shape hs okh hpages s'"
    "\<forall>m. m < td_leaf_base ?s * 2 \<longrightarrow> hash_at hpages s' m = (if m = n then h else hash_at hpages ?s m)"
    using write_hash_spec [OF shape, of n h] assms(2) by (auto simp: n_def h_def)
  have "td_keep s ?s" using t(1,2) by (simp add: td_keep_def td_static_def)
  then have "td_keep s s'" using td_keep_frame [OF t(1) s'(2,3)] by (rule td_keep_trans)
  moreover have "rebuild_leaf H ps hs i s = (Inr (), s')"
    using t(3) s'(1) by (simp add: rebuild_leaf_def comp_simps n_def)
  ultimately show ?thesis using s'(4) by (auto simp: n_def h_def)
qed

lemma rebuild_leaves:
  assumes "td_honest ps ok pages hs okh hpages s" and "k \<le> td_leaf_base s"
    and "D = (\<lambda>i. the (pages (td_inner s) i))"
  shows "\<exists>s'. citer (rebuild_leaf H ps hs) [0..<k] s = (Inr (), s') \<and> td_keep s s' \<and>
    (\<forall>i < k. hash_at hpages s' (td_leaf_base s + i) = td_tree H D s (td_leaf_base s + i))"
  using assms(2)
proof (induction k)
  case 0
  then show ?case using td_keep_refl [OF assms(1)] by (auto simp: comp_simps)
next
  case (Suc k)
  then obtain s1 where s1: "citer (rebuild_leaf H ps hs) [0..<k] s = (Inr (), s1)" "td_keep s s1"
    "\<forall>i < k. hash_at hpages s1 (td_leaf_base s + i) = td_tree H D s (td_leaf_base s + i)" by auto
  note k1 = td_keepD [OF s1(2)]
  obtain s2 where "rebuild_leaf H ps hs k s1 = (Inr (), s2)" "td_keep s1 s2"
    "\<forall>m < td_leaf_base s * 2. hash_at hpages s2 m =
      (if m = td_leaf_base s + k then td_tree H D s m else hash_at hpages s1 m)"
    using rebuild_leaf_spec [OF k1(1), of k D] Suc.prems k1 assms(3) by auto
  with s1 Suc.prems show ?case
    by (auto simp: citer_append comp_simps less_Suc_eq intro: td_keep_trans)
qed

lemma rebuild_node_spec:
  assumes "td_honest ps ok pages hs okh hpages s" and "0 < n" and "n < td_leaf_base s"
    and "\<And>m. n < m \<Longrightarrow> n * 2 \<le> m \<Longrightarrow> m < td_leaf_base s * 2 \<Longrightarrow> hash_at hpages s m = td_tree H D s m"
  shows "\<exists>s'. rebuild_node H hs n s = (Inr (), s') \<and> td_keep s s' \<and>
    (\<forall>m < td_leaf_base s * 2. hash_at hpages s' m = (if m = n then td_tree H D s m else hash_at hpages s m))"
proof -
  have shape: "td_shape hs okh hpages s" using assms(1) by (simp only: td_honest_def)
  obtain s1 where s1: "read_hash hs (n * 2) s = (Inr (td_tree H D s (2 * n)), s1)" "td_frame hs okh s s1"
    "td_shape hs okh hpages s1" "hash_at hpages s1 = hash_at hpages s"
    using read_hash_spec [OF shape, of "n * 2"] assms(2,3) assms(4) [of "n * 2"] by (auto simp: mult.commute)
  obtain s2 where s2: "read_hash hs (n * 2 + 1) s1 = (Inr (td_tree H D s (2 * n + 1)), s2)" "td_frame hs okh s1 s2"
    "td_shape hs okh hpages s2" "hash_at hpages s2 = hash_at hpages s1"
    using read_hash_spec [OF s1(3), of "n * 2 + 1"] assms(2,3) assms(4) [of "n * 2 + 1"] s1(4) td_frameD(5) [OF s1(2)]
    by (auto simp: mult.commute)
  let ?h = "hash_node H n (td_tree H D s (2 * n)) (td_tree H D s (2 * n + 1))"
  have h: "?h = td_tree H D s n" unfolding td_tree_def by (rule tree_hash_node [symmetric]) (use assms in auto)
  have fr: "td_frame hs okh s s2" using s1(2) s2(2) by (rule td_frame_trans)
  obtain s3 where s3: "write_hash hs n ?h s2 = (Inr (), s3)" "td_frame hs okh s2 s3" "td_shape hs okh hpages s3"
    "\<forall>m. m < td_leaf_base s2 * 2 \<longrightarrow> hash_at hpages s3 m = (if m = n then ?h else hash_at hpages s2 m)"
    using write_hash_spec [OF s2(3), of n ?h] assms(2,3) td_frameD(5) [OF fr] by auto
  have "rebuild_node H hs n s = (Inr (), s3)"
    using s1(1) s2(1) s3(1) by (simp add: rebuild_node_def comp_simps)
  moreover have "td_keep s s3" using td_keep_frame [OF assms(1) td_frame_trans [OF fr s3(2)] s3(3)] .
  ultimately show ?thesis using s3(4) s2(4) s1(4) td_frameD(5) [OF fr] h by auto
qed

text \<open>One level, left to right: its nodes are right afterwards, and deeper nodes stay right.\<close>

lemma rebuild_level:
  assumes "td_honest ps ok pages hs okh hpages s" and "0 < a" and "b \<le> td_leaf_base s" and "a \<le> b" and "b \<le> a * 2"
    and "\<And>m. a * 2 \<le> m \<Longrightarrow> m < td_leaf_base s * 2 \<Longrightarrow> hash_at hpages s m = td_tree H D s m"
  shows "\<exists>s'. citer (rebuild_node H hs) [a..<b] s = (Inr (), s') \<and> td_keep s s' \<and>
    (\<forall>m. (a \<le> m \<and> m < b \<or> a * 2 \<le> m) \<and> m < td_leaf_base s * 2 \<longrightarrow> hash_at hpages s' m = td_tree H D s m)"
  using assms(4,3,5)
proof (induction b rule: dec_induct)
  case base
  then show ?case using td_keep_refl [OF assms(1)] assms(6) by (auto simp: comp_simps)
next
  case (step b)
  then obtain s1 where s1: "citer (rebuild_node H hs) [a..<b] s = (Inr (), s1)" "td_keep s s1"
    "\<forall>m. (a \<le> m \<and> m < b \<or> a * 2 \<le> m) \<and> m < td_leaf_base s * 2 \<longrightarrow> hash_at hpages s1 m = td_tree H D s m" by auto
  note k1 = td_keepD [OF s1(2)]
  obtain s2 where s2: "rebuild_node H hs b s1 = (Inr (), s2)" "td_keep s1 s2"
    "\<forall>m < td_leaf_base s * 2. hash_at hpages s2 m = (if m = b then td_tree H D s m else hash_at hpages s1 m)"
    using rebuild_node_spec [OF k1(1), of b D] step assms(2) s1(3) k1 by auto
  have "hash_at hpages s2 m = td_tree H D s m" if "a \<le> m \<and> m < Suc b \<or> a * 2 \<le> m" "m < td_leaf_base s * 2" for m
    using that s2(3) s1(3) by (auto simp: less_Suc_eq)
  moreover have "citer (rebuild_node H hs) [a..<Suc b] s = (Inr (), s2)"
    using s1(1) s2(1) step.hyps by (simp add: citer_append comp_simps)
  moreover have "td_keep s s2" using s1(2) s2(2) by (rule td_keep_trans)
  ultimately show ?case by blast
qed

lemma rebuild_levels:
  assumes "td_honest ps ok pages hs okh hpages s" and "k \<le> td_height s"
    and "\<And>m. 2 ^ k \<le> m \<Longrightarrow> m < td_leaf_base s * 2 \<Longrightarrow> hash_at hpages s m = td_tree H D s m"
  shows "\<exists>s'. citer (\<lambda>level. citer (rebuild_node H hs) [2 ^ level..<2 ^ (level + 1)]) (rev [0..<k]) s = (Inr (), s') \<and>
    td_keep s s' \<and> (\<forall>m. 0 < m \<and> m < td_leaf_base s * 2 \<longrightarrow> hash_at hpages s' m = td_tree H D s m)"
  using assms
proof (induction k arbitrary: s)
  case 0
  then show ?case using td_keep_refl [OF 0(1)] by (auto simp: comp_simps)
next
  case (Suc k)
  have "td_layout hs s" using Suc.prems(1) by (auto simp: td_honest_def td_shape_def)
  from td_layout_bounds(7) [OF this] have "(2 :: nat) ^ Suc k \<le> td_leaf_base s"
    using Suc.prems(2) power_increasing [of "Suc k" "td_height s" "2 :: nat"] by simp
  then obtain s1 where s1: "citer (rebuild_node H hs) [2 ^ k..<2 ^ (k + 1)] s = (Inr (), s1)" "td_keep s s1"
    "\<forall>m. (2 ^ k \<le> m \<and> m < 2 ^ (k + 1) \<or> 2 ^ k * 2 \<le> m) \<and> m < td_leaf_base s * 2 \<longrightarrow>
      hash_at hpages s1 m = td_tree H D s m"
    using rebuild_level [OF Suc.prems(1), of "2 ^ k" "2 ^ (k + 1)" D] Suc.prems(3) by (auto simp: mult.commute)
  note k1 = td_keepD [OF s1(2)]
  have "\<exists>s'. citer (\<lambda>level. citer (rebuild_node H hs) [2 ^ level..<2 ^ (level + 1)]) (rev [0..<k]) s1 = (Inr (), s') \<and>
      td_keep s1 s' \<and> (\<forall>m. 0 < m \<and> m < td_leaf_base s1 * 2 \<longrightarrow> hash_at hpages s' m = td_tree H D s1 m)"
    using Suc.prems(2) s1(3) k1 by (intro Suc.IH) auto
  with s1 k1 show ?case by (auto simp: comp_simps intro: td_keep_trans)
qed

lemma rebuild_hashes_spec:
  assumes "td_honest ps ok pages hs okh hpages s"
  shows "\<exists>s'. rebuild_hashes H ps hs s = (Inr (), s') \<and> td_keep s s' \<and> td_ok H ps ok pages hs okh hpages s'"
proof -
  define D where "D = (\<lambda>i. the (pages (td_inner s) i))"
  obtain s1 where s1: "citer (rebuild_leaf H ps hs) [0..<td_leaf_base s] s = (Inr (), s1)" "td_keep s s1"
    "\<forall>i < td_leaf_base s. hash_at hpages s1 (td_leaf_base s + i) = td_tree H D s (td_leaf_base s + i)"
    using rebuild_leaves [OF assms order_refl D_def] by blast
  note k1 = td_keepD [OF s1(2)]
  have lay: "td_layout hs s1" using k1(2) by (simp add: td_shape_def)
  have leaves: "hash_at hpages s1 m = td_tree H D s1 m" if "2 ^ td_height s1 \<le> m" "m < td_leaf_base s1 * 2" for m
    using that s1(3) td_layout_bounds(7) [OF lay] k1 by (auto dest!: spec [of _ "m - td_leaf_base s"])
  obtain s2 where s2: "citer (\<lambda>level. citer (rebuild_node H hs) [2 ^ level..<2 ^ (level + 1)]) (rev [0..<td_height s1]) s1 = (Inr (), s2)"
    "td_keep s1 s2" "\<forall>m. 0 < m \<and> m < td_leaf_base s1 * 2 \<longrightarrow> hash_at hpages s2 m = td_tree H D s1 m"
    using rebuild_levels [OF k1(1) order_refl leaves] by blast
  have "rebuild_hashes H ps hs s = (Inr (), s2)"
    using s1(1) s2(1) by (simp add: rebuild_hashes_def comp_simps)
  moreover have "td_ok H ps ok pages hs okh hpages s2"
    using td_keepD [OF s2(2)] s2(3) k1 by (simp add: td_ok_def D_def)
  ultimately show ?thesis using td_keep_trans [OF s1(2) s2(2)] by blast
qed

end

end
