(* ===== verification/Tiered_Theorems.thy ===== *)
theory Tiered_Theorems
  imports Tiered_Merkle
begin

text \<open>
  What \<open>TieredMerklePageStore\<close> promises: building it over two honest stores gives a page store with
  the same contents, its trusted state reopens it, a read over dishonest stores returns a genuine
  page or an error. And what its write does not promise: it takes the sibling hashes from the
  untrusted store without checking them.
\<close>

section \<open>Building and reopening\<close>

lemma td_layout_fresh:
  assumes "leaf_base_for_page_count n = Inr lb" and "trusted_node_limit lb l = Inr lim"
    and "hashes_per_page (ps_page_size hs hst) = Inr k"
    and "pages_for_hash_nodes (disk_hash_nodes lb lim) k \<le> ps_page_count hs hst" and "length th = lim"
  shows "td_layout hs \<lparr>td_inner = inner, td_hash_store = hst, td_store_id = sid, td_page_size = sz,
    td_page_count = n, td_leaf_base = lb, td_trusted_levels = l, td_trusted_node_limit = lim,
    td_hashes_per_page = k, td_disk_hash_nodes = disk_hash_nodes lb lim, td_trusted_hashes = th\<rparr>"
  using assms by (cases "n = 0") (auto simp: td_layout_def td_required_def leaf_base_for_page_count_def)

lemma tiered_build_spec:
  assumes "sha256_spec H" and "page_store_spec ps ok pages" and "page_store_spec hs okh hpages"
    and "ok inner" and "okh hash_store" and "0 < ps_page_size ps inner"
    and "\<forall>i < ps_page_count ps inner. pages inner i \<noteq> None"
    and "required_hash_pages (ps_page_count ps inner) (ps_page_size hs hash_store) levels = Inr need"
    and "need \<le> ps_page_count hs hash_store" and "\<forall>j < need. hpages hash_store j \<noteq> None"
  shows "\<exists>s. tiered_build H ps hs inner hash_store store_id levels = Inr s \<and>
    td_ok H ps ok pages hs okh hpages s \<and> td_contents pages s = pages inner \<and>
    td_store_id s = store_id \<and> td_trusted_levels s = levels \<and> td_page_count s = ps_page_count ps inner \<and>
    td_page_size s = ps_page_size ps inner \<and> td_required s = need \<and>
    (\<forall>n. 0 < n \<and> n < td_trusted_node_limit s \<longrightarrow>
      td_trusted_hashes s ! n = td_tree H (\<lambda>i. the (pages inner i)) s n)"
proof -
  have over: "tiered_over H ps ok pages hs okh hpages"
    using assms(1-3) by (simp add: tiered_over_def node_store_def)
  let ?n = "ps_page_count ps inner" and ?k = "ps_page_size hs hash_store"
  obtain lb lim per where l: "leaf_base_for_page_count ?n = Inr lb" "trusted_node_limit lb levels = Inr lim"
    "hashes_per_page ?k = Inr per" "need = pages_for_hash_nodes (disk_hash_nodes lb lim) per"
    using assms(8) by (auto simp: required_hash_pages_def)
  let ?s0 = "\<lparr>td_inner = inner, td_hash_store = hash_store, td_store_id = store_id,
    td_page_size = ps_page_size ps inner, td_page_count = ?n, td_leaf_base = lb, td_trusted_levels = levels,
    td_trusted_node_limit = lim, td_hashes_per_page = per, td_disk_hash_nodes = disk_hash_nodes lb lim,
    td_trusted_hashes = replicate lim zero_hash\<rparr>"
  have "td_layout hs ?s0" using l assms(9) by (intro td_layout_fresh) simp_all
  then have "td_honest ps ok pages hs okh hpages ?s0"
    using assms(4,5,7,10) l(4) by (simp add: td_honest_def td_shape_def td_required_def)
  then obtain s where s: "rebuild_hashes H ps hs ?s0 = (Inr (), s)"
    "tiered_over.td_keep ps ok pages hs okh hpages ?s0 s" "td_ok H ps ok pages hs okh hpages s"
    using tiered_over.rebuild_hashes_spec [OF over] by blast
  have run: "tiered_build H ps hs inner hash_store store_id levels = Inr s"
    using l s(1) assms(6,9) leaf_base_for_page_count_def [of 0]
    by (cases "?n = 0") (simp_all add: tiered_build_def Let_def del: rbind_Inr_iff)
  have st: "td_static s = td_static ?s0" "pages (td_inner s) = pages inner"
    using s(2) by (simp_all add: tiered_over.td_keep_def [OF over])
  have lay: "td_layout hs s" using s(3) by (simp add: td_ok_def td_honest_def td_shape_def)
  have "td_trusted_hashes s ! n = td_tree H (\<lambda>i. the (pages inner i)) s n"
    if n: "0 < n" "n < td_trusted_node_limit s" for n
  proof -
    have "hash_at hpages s n = td_tree H (\<lambda>i. the (pages (td_inner s) i)) s n"
      using s(3) n td_layout_bounds(2) [OF lay] by (simp add: td_ok_def)
    with n st(2) show ?thesis by (simp add: hash_at_def)
  qed
  with run s(3) st l(4) show ?thesis by (simp add: td_contents_def td_static_def td_required_def)
qed

text \<open>
  C20. Building a tiered Merkle store over readable honest stores, with a trusted depth and a hash
  store that fit, succeeds: the result is a well-formed store with the same pages, its trusted root
  is the root of the hash tree over them, and its trusted hashes are the top of that tree.
\<close>

theorem tiered_build_correct:
  assumes "sha256_spec H" and "page_store_spec ps ok pages" and "page_store_spec hs okh hpages"
    and "ok inner" and "okh hash_store" and "0 < ps_page_size ps inner"
    and "\<forall>i < ps_page_count ps inner. pages inner i \<noteq> None"
    and "required_hash_pages (ps_page_count ps inner) (ps_page_size hs hash_store) levels = Inr need"
    and "need \<le> ps_page_count hs hash_store" and "\<forall>j < need. hpages hash_store j \<noteq> None"
  shows "\<exists>s. tiered_build H ps hs inner hash_store store_id levels = Inr s \<and>
    td_ok H ps ok pages hs okh hpages s \<and> td_contents pages s = pages inner \<and>
    td_store_id s = store_id \<and> td_trusted_levels s = levels \<and> td_page_count s = ps_page_count ps inner \<and>
    td_page_size s = ps_page_size ps inner \<and>
    (\<forall>n. 0 < n \<and> n < td_trusted_node_limit s \<longrightarrow>
      td_trusted_hashes s ! n = td_tree H (\<lambda>i. the (pages inner i)) s n)"
  using tiered_build_spec [OF assms] by blast

definition hash_page :: mem_store where
  "hash_page = \<lparr>mem_page_size = 64, mem_pages = replicate 64 0\<rparr>"

lemma hash_page_simps [simp]:
  "mem_ok hash_page" "mem_page_size hash_page = 64" "mem_page_count hash_page = 1"
  "mem_contents hash_page 0 \<noteq> None"
  by (simp_all add: hash_page_def mem_ok_def mem_page_count_def mem_contents_def)

lemma two_page_layout: "required_hash_pages 2 64 1 = Inr 1"
proof -
  have "checked_next_power_of_two 2 = Some 2"
    by (simp add: checked_next_power_of_two_def Let_def pow2_at_least.simps)
  moreover have "trailing_zeros 2 = 1" using trailing_zeros_power [of 1] by simp
  ultimately show ?thesis
    by (simp add: required_hash_pages_def leaf_base_for_page_count_def trusted_node_limit_def
        hashes_per_page_def disk_hash_nodes_def pages_for_hash_nodes_def div_ceil_def Let_def)
qed

theorem tiered_build_correct_witness:
  "\<exists>s. tiered_build (table_hash []) mem_store_ops mem_store_ops (two_pages 7 8) hash_page [] 1 = Inr s \<and>
    td_contents mem_contents s = mem_contents (two_pages 7 8) \<and>
    (\<forall>n. 0 < n \<and> n < td_trusted_node_limit s \<longrightarrow> td_trusted_hashes s ! n =
      td_tree (table_hash []) (\<lambda>i. the (mem_contents (two_pages 7 8) i)) s n)"
proof -
  have "required_hash_pages (ps_page_count mem_store_ops (two_pages 7 8)) (ps_page_size mem_store_ops hash_page) 1 = Inr 1"
    using two_page_layout by (simp add: mem_store_ops_def)
  from tiered_build_correct [OF table_hash.sha256_spec_axioms mem.page_store_spec_axioms mem.page_store_spec_axioms
      _ _ _ _ this, where store_id = "[]"]
  show ?thesis by (auto simp: mem_store_ops_def)
qed

text \<open>
  The trusted state of a well-formed store reopens it: \<open>from_trusted_state\<close> over the two stores
  it was taken from gives back the same store, trusted root included.
\<close>

theorem trusted_state_roundtrip:
  assumes "td_honest ps ok pages hs okh hpages s"
  shows "from_trusted_state ps hs (fst (tiered_into_parts s)) (snd (tiered_into_parts s)) (trusted_state hs s) = Inr s"
proof -
  have lay: "td_layout hs s" using assms by (simp add: td_honest_def td_shape_def)
  then have "pages_for_hash_nodes (disk_hash_nodes (td_leaf_base s) (td_trusted_node_limit s)) (td_hashes_per_page s)
      \<le> ps_page_count hs (td_hash_store s)" by (auto simp: td_layout_def td_required_def)
  with lay show ?thesis
    using assms by (simp add: from_trusted_state_def tiered_into_parts_def trusted_state_def td_honest_def
        td_layout_def Let_def not_less del: rbind_Inr_iff)
qed

lemma two_page_dims:
  assumes "leaf_base_for_page_count 2 = Inr lb" and "trusted_node_limit lb 1 = Inr lim"
  shows "lb = 2" "lim = 2"
proof -
  show "lb = 2" using assms(1)
    by (simp add: leaf_base_for_page_count_def checked_next_power_of_two_def Let_def pow2_at_least.simps)
  then show "lim = 2" using assms(2) by (auto simp: trusted_node_limit_def Let_def split: if_splits)
qed

abbreviation mem_tiered_ok :: "bytes list \<Rightarrow> (mem_store, mem_store) tiered_store \<Rightarrow> bool" where
  "mem_tiered_ok qs \<equiv> td_ok (table_hash qs) mem_store_ops mem_ok mem_contents mem_store_ops mem_ok mem_contents"

interpretation tiered_mem: tiered_over "table_hash qs" mem_store_ops mem_ok mem_contents
  mem_store_ops mem_ok mem_contents for qs
  by unfold_locales

interpretation tiered_mem_store: page_store_spec "tiered_ops (table_hash qs) mem_store_ops mem_store_ops"
  "mem_tiered_ok qs" "td_contents mem_contents" for qs
  by (rule tiered_mem.tiered_store_spec)

text \<open>The example: two one-byte pages, only the root trusted.\<close>

lemma two_page_store:
  obtains s where "tiered_build (table_hash qs) mem_store_ops mem_store_ops (two_pages a b) hash_page [] 1 = Inr s"
    "mem_tiered_ok qs s" "td_contents mem_contents s = mem_contents (two_pages a b)"
    "td_page_count s = 2" "td_page_size s = 1" "td_store_id s = []" "td_leaf_base s = 2"
    "td_trusted_node_limit s = 2" "td_static s = ([], 1, 2, 2, 1, 2, 2, disk_hash_nodes 2 2)"
proof -
  let ?s0 = "\<lparr>td_inner = two_pages a b, td_hash_store = hash_page, td_store_id = [], td_page_size = 1,
    td_page_count = 2, td_leaf_base = 2, td_trusted_levels = 1, td_trusted_node_limit = 2,
    td_hashes_per_page = 2, td_disk_hash_nodes = disk_hash_nodes 2 2,
    td_trusted_hashes = replicate 2 zero_hash\<rparr>"
  obtain lb lim per where l: "leaf_base_for_page_count 2 = Inr lb" "trusted_node_limit lb 1 = Inr lim"
    "hashes_per_page 64 = Inr per" "pages_for_hash_nodes (disk_hash_nodes lb lim) per = 1"
    using two_page_layout by (auto simp: required_hash_pages_def)
  note d = two_page_dims [OF l(1,2)]
  have per: "per = 2" using l(3) by (simp add: hashes_per_page_def)
  have "td_layout mem_store_ops ?s0"
    using l d per by (intro td_layout_fresh) (simp_all add: mem_store_ops_def)
  then have "td_honest mem_store_ops mem_ok mem_contents mem_store_ops mem_ok mem_contents ?s0"
    using l(4) d per by (simp add: td_honest_def td_shape_def td_required_def mem_store_ops_def)
  from tiered_mem.rebuild_hashes_spec [OF this] obtain s where
    s: "rebuild_hashes (table_hash qs) mem_store_ops mem_store_ops ?s0 = (Inr (), s)"
    "tiered_mem.td_keep ?s0 s" "mem_tiered_ok qs s" by blast
  have "tiered_build (table_hash qs) mem_store_ops mem_store_ops (two_pages a b) hash_page [] 1 = Inr s"
    using l d per s(1) by (simp add: tiered_build_def Let_def mem_store_ops_def del: rbind_Inr_iff)
  moreover have "td_contents mem_contents s = mem_contents (two_pages a b)" "td_static s = td_static ?s0"
    using s(2) by (auto simp: tiered_mem.td_keep_def td_contents_def)
  ultimately show ?thesis using s(3) by (intro that [of s]) (auto simp: td_static_def)
qed

theorem trusted_state_roundtrip_witness:
  "\<exists>s. tiered_build (table_hash []) mem_store_ops mem_store_ops (two_pages 7 8) hash_page [] 1 = Inr s \<and>
    from_trusted_state mem_store_ops mem_store_ops (fst (tiered_into_parts s)) (snd (tiered_into_parts s))
      (trusted_state mem_store_ops s) = Inr s"
proof -
  obtain s where s: "tiered_build (table_hash []) mem_store_ops mem_store_ops (two_pages 7 8) hash_page [] 1 = Inr s"
    "mem_tiered_ok [] s" by (rule two_page_store)
  then have "td_honest mem_store_ops mem_ok mem_contents mem_store_ops mem_ok mem_contents s"
    by (simp add: td_ok_def)
  from trusted_state_roundtrip [OF this] s(1) show ?thesis by blast
qed

section \<open>Reads over a dishonest storage\<close>

text \<open>
  What Rust guarantees of any store: \<open>read_page\<close> fills the buffer it is given. The page size does
  not change when a page is read.
\<close>

definition full_buffers :: "'h page_store \<Rightarrow> bool" where
  "full_buffers hs \<longleftrightarrow>
     (\<forall>i n t. let (r, t') = ps_read_page hs i n t in
        ps_page_size hs t' = ps_page_size hs t \<and> (case r of Inr p \<Rightarrow> length p = n | Inl _ \<Rightarrow> True))"

lemma full_buffersD:
  "full_buffers hs \<Longrightarrow> ps_read_page hs i n t = (Inr p, t') \<Longrightarrow> length p = n \<and> ps_page_size hs t' = ps_page_size hs t"
  unfolding full_buffers_def by (drule spec [of _ i], drule spec [of _ n], drule spec [of _ t]) simp

lemma mem_full_buffers: "full_buffers mem_store_ops"
proof -
  have "length (slice (i * k) (i * k + k) xs) = k" if "i < length xs div k" for i k and xs :: bytes
  proof -
    have "i * k + k \<le> length xs div k * k" using page_range_bound [OF that] .
    also have "\<dots> \<le> length xs" by simp
    finally show ?thesis by simp
  qed
  then show ?thesis
    by (auto simp: full_buffers_def mem_store_ops_def mem_read_page_def comp_simps check_page_def
        mem_page_count_def Let_def)
qed

lemma read_hash_any:
  assumes "full_buffers hs" and "td_layout hs s" and "\<forall>m < td_trusted_node_limit s. 0 < m \<longrightarrow> length (td_trusted_hashes s ! m) = 32"
    and "ps_page_size hs u = ps_page_size hs (td_hash_store s)"
    and "read_hash hs n (s\<lparr>td_hash_store := u\<rparr>) = (Inr h, s')"
  shows "length h = 32 \<and> (\<exists>u'. s' = s\<lparr>td_hash_store := u'\<rparr> \<and> ps_page_size hs u' = ps_page_size hs (td_hash_store s))"
proof -
  let ?s = "s\<lparr>td_hash_store := u\<rparr>"
  from assms(5) have n: "0 < n" "n < td_leaf_base s * 2"
    by (auto simp: read_hash_def check_node_idx_def comp_simps bnd_Inr_iff split: if_splits)
  show ?thesis
  proof (cases "n < td_trusted_node_limit s")
    case True
    with assms(3-5) n show ?thesis by (auto simp: read_hash_def check_node_idx_def comp_simps)
  next
    case False
    then obtain pg off where pos: "disk_hash_position n s = Inr (pg, off)"
      "off + 32 \<le> ps_page_size hs (td_hash_store s)"
      using disk_hash_position_ok [OF assms(2), of n] n(2) by (metis not_less)
    have "disk_hash_position n ?s = disk_hash_position n s" by (simp add: disk_hash_position_def Let_def)
    with False assms(5) n pos obtain page u' where rd: "ps_read_page hs pg (ps_page_size hs u) u = (Inr page, u')"
      "h = slice off (off + 32) page" "s' = s\<lparr>td_hash_store := u'\<rparr>"
      by (auto simp: read_hash_def check_node_idx_def read_disk_hash_def comp_simps bnd_Inr_iff zoom_def
          split: prod.splits sum.splits)
    with full_buffersD [OF assms(1) rd(1)] pos(2) assms(4) show ?thesis by auto
  qed
qed

context sha256_spec
begin

lemma verify_walk_any:
  assumes "full_buffers hs" and "td_layout hs s"
    and "\<forall>m < td_trusted_node_limit s. 0 < m \<longrightarrow> length (td_trusted_hashes s ! m) = 32"
    and "no_second_preimage H (tree_inputs H (td_leaf_base s) (td_leaf H D s))"
    and "0 < n" and "n < td_leaf_base s * 2" and "length c = 32"
    and "ps_page_size hs u = ps_page_size hs (td_hash_store s)"
    and "verify_walk H hs n c (s\<lparr>td_hash_store := u\<rparr>) = (Inr (m, c'), s')"
  shows "0 < m \<and> m < td_trusted_node_limit s \<and> td_trusted_hashes s' = td_trusted_hashes s \<and>
    td_inner s' = td_inner s \<and> length c' = 32 \<and> (c' = td_tree H D s m \<longrightarrow> c = td_tree H D s n)"
  using assms(5-9)
proof (induction n arbitrary: c u rule: less_induct)
  case (less n)
  let ?s = "s\<lparr>td_hash_store := u\<rparr>"
  have lim: "2 \<le> td_trusted_node_limit s" using td_layout_bounds(1) [OF assms(2)] .
  show ?case
  proof (cases "td_trusted_node_limit s \<le> n")
    case True
    then obtain h s1 where h: "read_hash hs (sibling_node n) ?s = (Inr h, s1)"
      "verify_walk H hs (n div 2) (parent_hash H n c h) s1 = (Inr (m, c'), s')"
      using less.prems by (subst (asm) verify_walk.simps) (auto simp: comp_simps bnd_Inr_iff)
    from read_hash_any [OF assms(1-3) less.prems(4) h(1)] obtain u' where
      u': "length h = 32" "s1 = s\<lparr>td_hash_store := u'\<rparr>" "ps_page_size hs u' = ps_page_size hs (td_hash_store s)" by blast
    have half: "n div 2 < n" "0 < n div 2" "n div 2 < td_leaf_base s * 2" using True lim less.prems(2) by auto
    note IH = less.IH [OF half _ u'(3) h(2) [unfolded u'(2)]]
    have "parent_hash H n c h = td_tree H D s (n div 2) \<Longrightarrow> c = td_tree H D s n"
      unfolding td_tree_def using True lim less.prems(2,3) u'(1)
      by (intro parent_hash_genuine [OF assms(4), of n c h]) (auto simp: td_leaf_def mult.commute)
    with IH show ?thesis by simp
  next
    case False
    with less.prems show ?thesis
      by (subst (asm) verify_walk.simps) (auto simp: comp_simps)
  qed
qed

end

text \<open>
  C21. Integrity of tiered reads. Let the trusted hashes of a tiered store be the top of the hash
  tree over the pages \<open>D\<close>, and let both the data store and the hash store answer whatever they
  like (full buffers apart). A read that succeeds returns the page of \<open>D\<close>: rolled-back, invented or
  misplaced pages and hashes are refused, provided no second string has the SHA-256 hash of a
  string the genuine tree was built from.
\<close>

theorem tiered_read_authentic:
  assumes "sha256_spec H" and "full_buffers hs" and "td_layout hs s"
    and "\<forall>n. 0 < n \<and> n < td_trusted_node_limit s \<longrightarrow> td_trusted_hashes s ! n = td_tree H D s n"
    and "no_second_preimage H (page_inputs (td_store_id s) (td_page_count s) D \<union>
      tree_inputs H (td_leaf_base s) (td_leaf H D s))"
    and "tiered_read_page H ps hs i len s = (Inr p, s')"
  shows "p = D i"
proof -
  have len32: "length (td_tree H D s n) = 32" for n
    unfolding td_tree_def
    by (rule sha256_spec.length_tree_hash [OF assms(1)]) (simp add: td_leaf_def sha256_spec.length_page_leaf [OF assms(1)])
  have i: "i < td_page_count s"
    using assms(6) by (auto simp: tiered_read_page_def comp_simps check_page_def bnd_Inr_iff split: if_splits)
  obtain t m c' s1 where t: "verify_walk H hs (td_leaf_base s + i) (hash_leaf H (td_store_id s) i p) (s\<lparr>td_inner := t\<rparr>) =
      (Inr (m, c'), s1)" "hash_eq c' (td_trusted_hashes s1 ! m)"
    using assms(6) i
    by (auto simp: tiered_read_page_def comp_simps bnd_Inr_iff verify_page_hash_def zoom_def split: prod.splits if_splits)
  let ?t = "s\<lparr>td_inner := t\<rparr>"
  note b = td_layout_bounds [OF assms(3)]
  have leafs: "td_leaf H D ?t = td_leaf H D s" by (simp add: td_leaf_def fun_eq_iff page_leaf_def)
  have "verify_walk H hs (td_leaf_base s + i) (hash_leaf H (td_store_id s) i p) (?t\<lparr>td_hash_store := td_hash_store ?t\<rparr>) =
      (Inr (m, c'), s1)" using t(1) by simp
  then have walk: "0 < m \<and> m < td_trusted_node_limit ?t \<and> td_trusted_hashes s1 = td_trusted_hashes ?t \<and>
      td_inner s1 = td_inner ?t \<and> length c' = 32 \<and>
      (c' = td_tree H D ?t m \<longrightarrow> hash_leaf H (td_store_id s) i p = td_tree H D ?t (td_leaf_base s + i))"
    using assms(2-5) i b(3,4) leafs len32 sha256_spec.hash_lengths(1) [OF assms(1)]
    by (intro sha256_spec.verify_walk_any [OF assms(1,2), where u = "td_hash_store ?t"]) (auto simp: no_second_preimage_def)
  then have "c' = td_tree H D s m" using t(2) assms(4) len32 by (simp add: hash_eq_iff)
  with walk have "hash_leaf H (td_store_id s) i p = hash_leaf H (td_store_id s) i (D i)"
    using td_tree_leaf [OF i, of H D] by simp
  then show ?thesis
    using sha256_spec.hash_leaf_genuine [OF assms(1) _ i, of "td_store_id s" D p] assms(5)
    by (auto simp: no_second_preimage_def)
qed

text \<open>The table of a genuine two-page tree: its leaf strings and its root string.\<close>

definition two_page_table :: "u8 \<Rightarrow> u8 \<Rightarrow> bytes list" where
  "two_page_table a b =
     [leaf_input [] 0 [a], leaf_input [] 1 [b], node_input 1 (le_bytes_nat 32 3) (le_bytes_nat 32 2)]"

lemma leaf_input_neq: "a \<noteq> b \<Longrightarrow> leaf_input sid i [a] \<noteq> leaf_input sid j [b]"
proof
  assume "a \<noteq> b" "leaf_input sid i [a] = leaf_input sid j [b]"
  then have "last (leaf_input sid i [a]) = last (leaf_input sid j [b])" by simp
  with \<open>a \<noteq> b\<close> show False by (simp add: leaf_input_def)
qed

lemma two_page_table_genuine:
  assumes "a \<noteq> b" and "td_page_count s = 2" and "td_store_id s = []" and "td_leaf_base s = 2" and "D 0 = [a]" and "D 1 = [b]"
  shows "no_second_preimage (table_hash (two_page_table a b))
    (page_inputs (td_store_id s) (td_page_count s) D \<union>
     tree_inputs (table_hash (two_page_table a b)) (td_leaf_base s) (td_leaf (table_hash (two_page_table a b)) D s))"
proof (rule table_hash_genuine)
  let ?H = "table_hash (two_page_table a b)"
  have h: "hash_leaf ?H [] 0 [a] = le_bytes_nat 32 3" "hash_leaf ?H [] 1 [b] = le_bytes_nat 32 2"
    using leaf_input_neq [of b a "[]" 1 0] assms(1)
    unfolding hash_leaf_def table_hash_def two_page_table_def rank_of.simps
    by (simp_all del: le_bytes_nat.simps add: numeral_2_eq_2 numeral_3_eq_3)
  have "tree_hash ?H 2 (td_leaf ?H D s) 2 = le_bytes_nat 32 3" "tree_hash ?H 2 (td_leaf ?H D s) 3 = le_bytes_nat 32 2"
    using assms h by (simp_all add: tree_hash_leaf td_leaf_def page_leaf_def del: le_bytes_nat.simps)
  then have "tree_inputs ?H (td_leaf_base s) (td_leaf ?H D s) = {node_input 1 (le_bytes_nat 32 3) (le_bytes_nat 32 2)}"
    using assms(4) by (simp add: tree_inputs_def numeral_2_eq_2 numeral_3_eq_3 del: le_bytes_nat.simps)
  moreover have "page_inputs (td_store_id s) (td_page_count s) D = {leaf_input [] 0 [a], leaf_input [] 1 [b]}"
    using assms by (simp add: page_inputs_def numeral_2_eq_2 lessThan_Suc insert_commute)
  ultimately show "page_inputs (td_store_id s) (td_page_count s) D \<union>
      tree_inputs ?H (td_leaf_base s) (td_leaf ?H D s) \<subseteq> set (two_page_table a b)"
    by (simp add: two_page_table_def)
  show "length (two_page_table a b) < 256" by (simp add: two_page_table_def)
qed

theorem tiered_read_authentic_witness:
  "\<exists>s p s'. let H = table_hash (two_page_table 7 8) in
    tiered_build H mem_store_ops mem_store_ops (two_pages 7 8) hash_page [] 1 = Inr s \<and>
    tiered_read_page H mem_store_ops mem_store_ops 1 1 s = (Inr p, s') \<and> p = [8]"
proof -
  let ?H = "table_hash (two_page_table 7 8)"
  obtain s where s: "tiered_build ?H mem_store_ops mem_store_ops (two_pages 7 8) hash_page [] 1 = Inr s"
    "mem_tiered_ok (two_page_table 7 8) s" "td_contents mem_contents s = mem_contents (two_pages 7 8)"
    "td_page_count s = 2" "td_page_size s = 1" "td_store_id s = []" "td_leaf_base s = 2" "td_trusted_node_limit s = 2"
    by (rule two_page_store)
  let ?D = "\<lambda>i. the (mem_contents (td_inner s) i)"
  have D: "?D 0 = [7]" "?D 1 = [8]" using s(3) by (simp_all add: td_contents_def)
  have lay: "td_layout mem_store_ops s" using s(2) by (simp add: td_ok_def td_honest_def td_shape_def)
  have top: "\<forall>n. 0 < n \<and> n < td_trusted_node_limit s \<longrightarrow> td_trusted_hashes s ! n = td_tree ?H ?D s n"
  proof (intro allI impI)
    fix n assume "0 < n \<and> n < td_trusted_node_limit s"
    then show "td_trusted_hashes s ! n = td_tree ?H ?D s n"
      using s(2,7,8) by (auto simp: td_ok_def hash_at_def)
  qed
  have "no_second_preimage ?H (page_inputs (td_store_id s) (td_page_count s) ?D \<union>
      tree_inputs ?H (td_leaf_base s) (td_leaf ?H ?D s))"
    using s D by (intro two_page_table_genuine) simp_all
  note auth = tiered_read_authentic [OF table_hash.sha256_spec_axioms mem_full_buffers lay top this]
  obtain p s' where "tiered_read_page ?H mem_store_ops mem_store_ops 1 1 s = (Inr p, s')"
    using tiered_mem.tiered_read_page_spec [OF s(2), of 1 "[8]"] s(3,5) by auto
  with auth [OF this] D s(1) show ?thesis by (auto simp: Let_def)
qed

section \<open>What a write trusts\<close>

lemma is_above_root: "0 < m \<Longrightarrow> is_above 1 m"
proof (induction m rule: less_induct)
  case (less m)
  show ?case
  proof (cases "m = 1")
    case False
    with less.prems have "is_above 1 (m div 2)" by (intro less.IH) auto
    then show ?thesis using is_above_iff_half [of 1 m] by blast
  qed simp
qed

text \<open>
  C22. A write authenticates what the storage holds. \<open>update_page_hash\<close> reads the sibling hashes from
  the untrusted hash store and folds them into the trusted hashes without a check against the
  trusted frontier. With only the root in trusted memory: let the storage present any pages with
  the lower hashes that belong to them (whatever the trusted root says, which no read would
  accept). After one write to some page \<open>i\<close>, every other page the storage presented is read back
  without an error.
\<close>

theorem tiered_write_trusts_disk:
  assumes "sha256_spec H" and "page_store_spec ps ok pages" and "page_store_spec hs okh hpages"
    and "td_honest ps ok pages hs okh hpages t" and "td_trusted_levels t = 1"
    and "\<forall>n. td_trusted_node_limit t \<le> n \<and> n < td_leaf_base t * 2 \<longrightarrow>
      hash_at hpages t n = td_tree H (\<lambda>j. the (pages (td_inner t) j)) t n"
    and "i < td_page_count t" and "length p = td_page_size t" and "j < td_page_count t" and "j \<noteq> i"
  shows "\<exists>s1 s2. tiered_write_page H ps hs i p t = (Inr (), s1) \<and>
    tiered_read_page H ps hs j (td_page_size t) s1 = (Inr (the (pages (td_inner t) j)), s2)"
proof -
  have over: "tiered_over H ps ok pages hs okh hpages"
    using assms(1-3) by (simp add: tiered_over_def node_store_def)
  have lim: "td_trusted_node_limit t = 2"
    using assms(4,5) by (auto simp: td_honest_def td_shape_def td_layout_def trusted_node_limit_def Let_def split: if_splits)
  have "hash_at hpages t m = td_tree H (\<lambda>j. the (pages (td_inner t) j)) t m"
    if m: "0 < m" "m < td_leaf_base t * 2" "\<not> is_above m (td_leaf_base t + i)" for m
  proof -
    have "m \<noteq> 1" using m(3) is_above_root [of "td_leaf_base t + i"] m(2) by auto
    with m assms(6) lim show ?thesis by auto
  qed
  then obtain s1 where s1: "tiered_write_page H ps hs i p t = (Inr (), s1)" "td_ok H ps ok pages hs okh hpages s1"
    "td_contents pages s1 = (td_contents pages t)(i \<mapsto> p)" "td_page_size s1 = td_page_size t"
    using tiered_over.tiered_write_page_general [OF over assms(4,7,8)] by (auto simp: kept_def)
  have "td_contents pages s1 j = Some (the (pages (td_inner t) j))"
    using s1(3) assms(4,9,10) by (auto simp: td_contents_def td_honest_def)
  with tiered_over.tiered_read_page_spec [OF over s1(2) this] s1(1,4) show ?thesis by auto
qed

lemma td_layout_transfer:
  "td_layout hs s \<Longrightarrow> td_static s' = td_static s \<Longrightarrow> td_hash_store s' = td_hash_store s \<Longrightarrow>
    length (td_trusted_hashes s') = length (td_trusted_hashes s) \<Longrightarrow> td_layout hs s'"
  by (auto simp: td_layout_def td_static_def td_required_def)

theorem tiered_write_trusts_disk_witness:
  "\<exists>s fake s1 s2. let H = table_hash (two_page_table 7 8) in
    tiered_build H mem_store_ops mem_store_ops (two_pages 7 8) hash_page [] 1 = Inr s \<and>
    tiered_write_page H mem_store_ops mem_store_ops 0 [9]
      (s\<lparr>td_inner := two_pages 7 6, td_hash_store := fake\<rparr>) = (Inr (), s1) \<and>
    tiered_read_page H mem_store_ops mem_store_ops 1 1 s1 = (Inr [6], s2)"
proof -
  let ?qs = "two_page_table 7 8"
  let ?H = "table_hash ?qs"
  obtain s where s: "tiered_build ?H mem_store_ops mem_store_ops (two_pages 7 8) hash_page [] 1 = Inr s"
    "mem_tiered_ok ?qs s" "td_static s = ([], 1, 2, 2, 1, 2, 2, disk_hash_nodes 2 2)"
    by (rule two_page_store)
  obtain f where f: "mem_tiered_ok ?qs f" "td_contents mem_contents f = mem_contents (two_pages 7 6)"
    "td_static f = ([], 1, 2, 2, 1, 2, 2, disk_hash_nodes 2 2)"
    by (rule two_page_store [of ?qs 7 6])
  let ?t = "s\<lparr>td_inner := two_pages 7 6, td_hash_store := td_hash_store f\<rparr>"
  have st: "td_static ?t = td_static f" using s(3) f(3) by (simp add: td_static_def)
  have pos: "disk_hash_position n ?t = disk_hash_position n f" for n
    using st by (simp add: td_static_def disk_hash_position_def Let_def)
  have lay: "td_layout mem_store_ops s" "td_layout mem_store_ops f"
    using s(2) f(1) by (simp_all add: td_ok_def td_honest_def td_shape_def)
  have "length (td_trusted_hashes s) = length (td_trusted_hashes f)"
    using lay s(3) f(3) by (auto simp: td_layout_def td_static_def)
  then have "td_layout mem_store_ops ?t" by (intro td_layout_transfer [OF lay(2) st]) simp_all
  then have hon: "td_honest mem_store_ops mem_ok mem_contents mem_store_ops mem_ok mem_contents ?t"
    using f(1) st s(3) by (simp add: td_honest_def td_shape_def td_ok_def td_static_def td_required_def mem_store_ops_def)
  have low: "\<forall>n. td_trusted_node_limit ?t \<le> n \<and> n < td_leaf_base ?t * 2 \<longrightarrow>
      hash_at mem_contents ?t n = td_tree ?H (\<lambda>j. the (mem_contents (td_inner ?t) j)) ?t n"
  proof (intro allI impI)
    fix n assume n: "td_trusted_node_limit ?t \<le> n \<and> n < td_leaf_base ?t * 2"
    have "hash_at mem_contents ?t n = hash_at mem_contents f n"
      using n st by (simp add: hash_at_def pos td_static_def del: td_inner_update split: sum.split)
    also have "\<dots> = td_tree ?H (\<lambda>j. the (mem_contents (td_inner f) j)) f n"
      using f(1) n st s(3) by (simp add: td_ok_def td_static_def)
    also have "\<dots> = td_tree ?H (\<lambda>j. the (mem_contents (td_inner ?t) j)) ?t n"
      using f(2) st by (simp add: td_tree_def td_leaf_def td_static_def td_contents_def del: td_inner_update)
    finally show "hash_at mem_contents ?t n = td_tree ?H (\<lambda>j. the (mem_contents (td_inner ?t) j)) ?t n" .
  qed
  have "\<exists>s1 s2. tiered_write_page ?H mem_store_ops mem_store_ops 0 [9] ?t = (Inr (), s1) \<and>
      tiered_read_page ?H mem_store_ops mem_store_ops 1 (td_page_size ?t) s1 =
        (Inr (the (mem_contents (td_inner ?t) 1)), s2)"
    by (rule tiered_write_trusts_disk [OF table_hash.sha256_spec_axioms mem.page_store_spec_axioms
          mem.page_store_spec_axioms hon _ low]) (use s(3) in \<open>simp_all add: td_static_def\<close>)
  with s(1,3) show ?thesis by (auto simp: Let_def td_static_def)
qed

end
