(* ===== verification/Embedded_Tree.thy ===== *)
theory Embedded_Tree
  imports Merkle_Store
begin

text \<open>
  \<open>EmbeddedTreePageStore\<close> (src/src/embedded_tree.rs): bucket pages that carry the hashes of their
  two children, so that a path from the root authenticates itself against one trusted root hash.
  The theory has the operations, the contract of path stores over an honest page store (which is
  what the controller needs), and the guarantee over a dishonest one. A \<open>BTreeMap\<close> is a map, a
  \<open>BTreeSet\<close> a set that is iterated in increasing order.
\<close>

section \<open>Pages\<close>

definition PAGE_DOMAIN :: bytes where
  "PAGE_DOMAIN = byte_string ''bpir-oram-embedded-page-v1''"

definition CHILD_HASH_BYTES :: nat where
  "CHILD_HASH_BYTES = 32"

definition EMBEDDED_TREE_AUTH_BYTES_PER_PAGE :: nat where
  "EMBEDDED_TREE_AUTH_BYTES_PER_PAGE = CHILD_HASH_BYTES * 2"

record embedded_page =
  ep_logical :: bytes
  ep_left_hash :: bytes
  ep_right_hash :: bytes

record batch_cache =
  bc_root_hash :: bytes
  bc_pages :: "nat \<rightharpoonup> embedded_page"

record 's embedded_store =
  es_inner :: 's
  es_store_id :: bytes
  es_page_count :: nat
  es_logical_page_size :: nat
  es_physical_page_size :: nat
  es_root_hash :: bytes
  es_cache :: "batch_cache option"

abbreviation es_zoom :: "('s, 'a) comp \<Rightarrow> ('s embedded_store, 'a) comp" where
  "es_zoom \<equiv> zoom es_inner (\<lambda>t s. s\<lparr>es_inner := t\<rparr>)"

definition left_child :: "nat \<Rightarrow> nat" where
  "left_child page_idx = page_idx * 2 + 1"

definition right_child :: "nat \<Rightarrow> nat" where
  "right_child page_idx = page_idx * 2 + 2"

definition embedded_input :: "bytes \<Rightarrow> nat \<Rightarrow> bytes \<Rightarrow> bytes \<Rightarrow> bytes \<Rightarrow> bytes" where
  "embedded_input store_id page_idx logical left_hash right_hash =
     PAGE_DOMAIN @ store_id @ u64_to_le_bytes (word_of_nat page_idx) @
     u64_to_le_bytes (word_of_nat (length logical)) @ logical @ left_hash @ right_hash"

definition hash_embedded_page ::
  "(bytes \<Rightarrow> bytes) \<Rightarrow> bytes \<Rightarrow> nat \<Rightarrow> bytes \<Rightarrow> bytes \<Rightarrow> bytes \<Rightarrow> bytes" where
  "hash_embedded_page H store_id page_idx logical left_hash right_hash =
     H (embedded_input store_id page_idx logical left_hash right_hash)"

definition page_decode :: "bytes \<Rightarrow> nat \<Rightarrow> embedded_page result" where
  "page_decode input logical_page_size =
     (let expected = logical_page_size + EMBEDDED_TREE_AUTH_BYTES_PER_PAGE in
      if length input \<noteq> expected then Inl (InvalidInput ''embedded page len {} != expected {}'')
      else
        let left_start = logical_page_size; right_start = left_start + CHILD_HASH_BYTES in
        Inr \<lparr>ep_logical = slice 0 logical_page_size input,
             ep_left_hash = slice left_start right_start input,
             ep_right_hash = slice right_start (right_start + CHILD_HASH_BYTES) input\<rparr>)"

text \<open>\<open>encode\<close> fills a buffer of the given length.\<close>

definition page_encode :: "embedded_page \<Rightarrow> bytes \<Rightarrow> nat \<Rightarrow> bytes result" where
  "page_encode page out logical_page_size =
     (let expected = logical_page_size + EMBEDDED_TREE_AUTH_BYTES_PER_PAGE in
      if length out \<noteq> expected then Inl (InvalidInput ''embedded output len {} != expected {}'')
      else if length (ep_logical page) \<noteq> logical_page_size then
        Inl (InvalidInput ''logical page len {} != expected {}'')
      else
        let left_start = logical_page_size; right_start = left_start + CHILD_HASH_BYTES in
        Inr (copy_into right_start (ep_right_hash page)
              (copy_into left_start (ep_left_hash page) (copy_into 0 (ep_logical page) out))))"

definition page_hash :: "(bytes \<Rightarrow> bytes) \<Rightarrow> embedded_page \<Rightarrow> bytes \<Rightarrow> nat \<Rightarrow> bytes" where
  "page_hash H page store_id page_idx =
     hash_embedded_page H store_id page_idx (ep_logical page) (ep_left_hash page) (ep_right_hash page)"

definition page_child_hash :: "embedded_page \<Rightarrow> nat \<Rightarrow> nat \<Rightarrow> bytes result" where
  "page_child_hash page page_idx child_idx =
     (if child_idx = left_child page_idx then Inr (ep_left_hash page)
      else if child_idx = right_child page_idx then Inr (ep_right_hash page)
      else Inl (InvalidInput ''page {} is not a child of page {}''))"

definition set_child_hash :: "embedded_page \<Rightarrow> nat \<Rightarrow> nat \<Rightarrow> bytes \<Rightarrow> embedded_page result" where
  "set_child_hash page page_idx child_idx hash =
     (if child_idx = left_child page_idx then Inr (page\<lparr>ep_left_hash := hash\<rparr>)
      else if child_idx = right_child page_idx then Inr (page\<lparr>ep_right_hash := hash\<rparr>)
      else Inl (InvalidInput ''page {} is not a child of page {}''))"

definition child_hash :: "bytes list \<Rightarrow> nat \<Rightarrow> bytes" where
  "child_hash hashes child_idx = (if child_idx < length hashes then hashes ! child_idx else zero_hash)"

section \<open>Validation\<close>

definition validate_dimensions :: "'s page_store \<Rightarrow> 's \<Rightarrow> nat \<Rightarrow> nat \<Rightarrow> nat \<Rightarrow> unit result" where
  "validate_dimensions ps store page_count logical_page_size physical_page_size =
     (if page_count = 0 \<or> logical_page_size = 0 then
        Inl (InvalidInput ''page_count and logical_page_size must be > 0'')
      else if ps_page_count ps store \<noteq> page_count then
        Inl (InvalidInput ''store page_count {} != expected {}'')
      else if ps_page_size ps store \<noteq> physical_page_size then
        Inl (InvalidInput ''store page_size {} != embedded physical page_size {}'')
      else Inr ())"

fun validate_steps :: "nat \<Rightarrow> nat option \<Rightarrow> nat list \<Rightarrow> unit result" where
  "validate_steps page_count parent [] = Inr ()"
| "validate_steps page_count parent (page_idx # rest) =
     (if page_idx \<ge> page_count then Inl (InvalidInput ''path page {} out of range {}'')
      else case parent of
          Some p \<Rightarrow>
            if page_idx \<noteq> left_child p \<and> page_idx \<noteq> right_child p then
              Inl (InvalidInput ''path page {} is not a child of previous page {}'')
            else validate_steps page_count (Some page_idx) rest
        | None \<Rightarrow> validate_steps page_count (Some page_idx) rest)"

definition validate_path :: "nat list \<Rightarrow> nat \<Rightarrow> unit result" where
  "validate_path path page_count =
     (if path = [] then Inl (InvalidInput ''embedded tree path is empty'')
      else if path ! 0 \<noteq> 0 then Inl (InvalidInput ''embedded tree path must start at root'')
      else validate_steps page_count None path)"

section \<open>Opening\<close>

definition physical_page_size_for :: "nat \<Rightarrow> nat" where
  "physical_page_size_for logical_page_size = logical_page_size + EMBEDDED_TREE_AUTH_BYTES_PER_PAGE"

text \<open>The second loop of \<open>build\<close>: child hashes and page hashes from the last page to the root.\<close>

definition hash_page_at ::
  "(bytes \<Rightarrow> bytes) \<Rightarrow> bytes \<Rightarrow> nat \<Rightarrow> embedded_page list \<times> bytes list \<Rightarrow> embedded_page list \<times> bytes list" where
  "hash_page_at H store_id page_idx st =
     (let (pages, hashes) = st;
          page = (pages ! page_idx)\<lparr>ep_left_hash := child_hash hashes (left_child page_idx),
                                    ep_right_hash := child_hash hashes (right_child page_idx)\<rparr>
      in (pages[page_idx := page], hashes[page_idx := page_hash H page store_id page_idx]))"

definition embedded_build ::
  "(bytes \<Rightarrow> bytes) \<Rightarrow> 's page_store \<Rightarrow> 's \<Rightarrow> bytes \<Rightarrow> nat \<Rightarrow> 's embedded_store result" where
  "embedded_build H ps inner store_id logical_page_size =
     (let page_count = ps_page_count ps inner;
          physical_page_size = physical_page_size_for logical_page_size in
      rbind (validate_dimensions ps inner page_count logical_page_size physical_page_size) (\<lambda>_.
      case cmapM (\<lambda>page_idx. bnd (ps_read_page ps page_idx physical_page_size)
             (\<lambda>physical. lift (page_decode physical logical_page_size))) [0..<page_count] inner of
        (Inl e, _) \<Rightarrow> Inl e
      | (Inr pages, inner') \<Rightarrow>
          let (pages', hashes) = fold (hash_page_at H store_id) (rev [0..<page_count])
                (pages, replicate page_count zero_hash) in
          (case citer (\<lambda>(page_idx, page).
                  bnd (lift (page_encode page (replicate physical_page_size 0) logical_page_size))
                    (ps_write_page ps page_idx)) (enumerate 0 pages') inner' of
             (Inl e, _) \<Rightarrow> Inl e
           | (Inr _, inner'') \<Rightarrow>
               Inr \<lparr>es_inner = inner'', es_store_id = store_id, es_page_count = page_count,
                    es_logical_page_size = logical_page_size,
                    es_physical_page_size = physical_page_size, es_root_hash = hashes ! 0,
                    es_cache = None\<rparr>)))"

definition embedded_from_state :: "'s page_store \<Rightarrow> 's \<Rightarrow> embedded_tree_state \<Rightarrow> 's embedded_store result" where
  "embedded_from_state ps inner state =
     (let physical_page_size = physical_page_size_for (et_logical_page_size state) in
      rbind (validate_dimensions ps inner (et_page_count state) (et_logical_page_size state)
               physical_page_size) (\<lambda>_.
      Inr \<lparr>es_inner = inner, es_store_id = et_store_id state, es_page_count = et_page_count state,
           es_logical_page_size = et_logical_page_size state,
           es_physical_page_size = physical_page_size, es_root_hash = et_root_hash state,
           es_cache = None\<rparr>))"

definition embedded_state :: "'s embedded_store \<Rightarrow> embedded_tree_state" where
  "embedded_state s =
     \<lparr>et_store_id = es_store_id s, et_page_count = es_page_count s,
      et_logical_page_size = es_logical_page_size s, et_root_hash = es_root_hash s\<rparr>"

section \<open>Reading\<close>

text \<open>\<open>verify_path_from_pages\<close>: the walk down the path with the hash expected next.\<close>

fun verify_path_from_pages ::
  "(bytes \<Rightarrow> bytes) \<Rightarrow> nat list \<Rightarrow> (nat \<rightharpoonup> embedded_page) \<Rightarrow> bytes \<Rightarrow> bytes \<Rightarrow> unit result" where
  "verify_path_from_pages H [] pages store_id expected_hash = Inr ()"
| "verify_path_from_pages H (page_idx # rest) pages store_id expected_hash =
     (case pages page_idx of
        None \<Rightarrow> Inl (Panic ''verified path pages include every requested page'')
      | Some page \<Rightarrow>
          if \<not> hash_eq (page_hash H page store_id page_idx) expected_hash then
            Inl (InvalidInput ''embedded tree authentication failed for page {}'')
          else (case rest of
              [] \<Rightarrow> Inr ()
            | next_idx # _ \<Rightarrow>
                rbind (page_child_hash page page_idx next_idx)
                  (verify_path_from_pages H rest pages store_id)))"

definition cache_covers_paths :: "(nat \<rightharpoonup> embedded_page) \<Rightarrow> nat list list \<Rightarrow> bool" where
  "cache_covers_paths pages paths \<longleftrightarrow> list_all (\<lambda>page_idx. pages page_idx \<noteq> None) (concat paths)"

definition read_verified_paths ::
  "(bytes \<Rightarrow> bytes) \<Rightarrow> 's page_store \<Rightarrow> nat list list \<Rightarrow> ('s embedded_store, nat \<rightharpoonup> embedded_page) comp" where
  "read_verified_paths H ps paths =
     (if paths = [] then ret Map.empty
      else
        bnd (gets es_page_count) (\<lambda>page_count.
        bnd (citer (\<lambda>path. lift (validate_path path page_count)) paths) (\<lambda>_.
        let page_indices = sorted_list_of_set (set (concat paths)) in
        bnd (es_zoom (ps_read_pages ps page_indices)) (\<lambda>physical_pages.
        bnd (gets es_logical_page_size) (\<lambda>n.
        bnd (lift (rmapM (\<lambda>(page_idx, physical).
               rbind (page_decode physical n) (\<lambda>page. Inr (page_idx, page)))
               (zip page_indices physical_pages))) (\<lambda>decoded.
        let pages = Map.empty(map fst decoded [\<mapsto>] map snd decoded) in
        bnd (gets (\<lambda>s. (es_store_id s, es_root_hash s))) (\<lambda>(store_id, root_hash).
        bnd (citer (\<lambda>path. lift (verify_path_from_pages H path pages store_id root_hash)) paths) (\<lambda>_.
        ret pages))))))))"

definition es_read_paths ::
  "(bytes \<Rightarrow> bytes) \<Rightarrow> 's page_store \<Rightarrow> nat list list \<Rightarrow> ('s embedded_store, bytes list list) comp" where
  "es_read_paths H ps paths =
     bnd (read_verified_paths H ps paths) (\<lambda>pages.
     bnd (lift (rmapM (rmapM (\<lambda>page_idx. rbind (ok_or (pages page_idx)
            (Panic ''verified path pages include every requested page'')) (\<lambda>page. Inr (ep_logical page)))) paths))
       (\<lambda>logical_paths.
     bnd (modify (\<lambda>s. s\<lparr>es_cache := Some \<lparr>bc_root_hash = es_root_hash s, bc_pages = pages\<rparr>\<rparr>)) (\<lambda>_.
     ret logical_paths)))"

section \<open>Writing\<close>

text \<open>The overlay of \<open>write_paths\<close>: the decoded pages and the dirty set.\<close>

type_synonym overlay = "(nat \<rightharpoonup> embedded_page) \<times> nat set"

text \<open>First inner loop: the logical bytes of one path.\<close>

definition put_logical :: "nat \<Rightarrow> nat \<times> bytes \<Rightarrow> overlay \<Rightarrow> overlay result" where
  "put_logical logical_page_size entry ov =
     (let (page_idx, logical) = entry; (pages, dirty) = ov in
      if length logical \<noteq> logical_page_size then
        Inl (InvalidInput ''logical page len {} != expected {}'')
      else rbind (ok_or (pages page_idx) (Panic ''verified path pages include every requested page''))
        (\<lambda>page. Inr (pages(page_idx \<mapsto> page\<lparr>ep_logical := logical\<rparr>), insert page_idx dirty)))"

text \<open>Second inner loop, from the last page of the path to the root.\<close>

definition put_hash ::
  "(bytes \<Rightarrow> bytes) \<Rightarrow> bytes \<Rightarrow> nat \<Rightarrow> overlay \<times> (nat \<times> bytes) option \<Rightarrow>
    (overlay \<times> (nat \<times> bytes) option) result" where
  "put_hash H store_id page_idx st =
     (let ((pages, dirty), current_child) = st in
      rbind (ok_or (pages page_idx) (Panic ''verified path pages include every requested page'')) (\<lambda>page.
      rbind (case current_child of
               Some (child_idx, hash) \<Rightarrow> set_child_hash page page_idx child_idx hash
             | None \<Rightarrow> Inr page) (\<lambda>page.
      Inr ((pages(page_idx \<mapsto> page), insert page_idx dirty),
           Some (page_idx, page_hash H page store_id page_idx)))))"

definition write_one_path ::
  "(bytes \<Rightarrow> bytes) \<Rightarrow> nat list \<times> bytes list \<Rightarrow> overlay \<Rightarrow> ('s embedded_store, overlay) comp" where
  "write_one_path H entry ov =
     (let (path, logical_pages) = entry in
      bnd (require (length path = length logical_pages)
             (InvalidInput ''path length {} != logical page count {}'')) (\<lambda>_.
      bnd (gets es_page_count) (\<lambda>page_count.
      bnd (lift (validate_path path page_count)) (\<lambda>_.
      bnd (gets (\<lambda>s. (es_logical_page_size s, es_store_id s))) (\<lambda>(n, store_id).
      bnd (lift (rfoldM (put_logical n) (zip path logical_pages) ov)) (\<lambda>ov.
      bnd (lift (rfoldM (put_hash H store_id) (rev path) (ov, None))) (\<lambda>(ov, current_child).
      bnd (lift (ok_or current_child (Panic ''non-empty path''))) (\<lambda>(_, root).
      bnd (modify (\<lambda>s. s\<lparr>es_root_hash := root\<rparr>)) (\<lambda>_.
      ret ov)))))))))"

fun write_path_loop ::
  "(bytes \<Rightarrow> bytes) \<Rightarrow> (nat list \<times> bytes list) list \<Rightarrow> overlay \<Rightarrow> ('s embedded_store, overlay) comp" where
  "write_path_loop H [] ov = ret ov"
| "write_path_loop H (entry # rest) ov = bnd (write_one_path H entry ov) (write_path_loop H rest)"

text \<open>\<open>self.verified_batch_cache.take()\<close> empties the cache whether or not it can be used.\<close>

definition pages_to_update ::
  "(bytes \<Rightarrow> bytes) \<Rightarrow> 's page_store \<Rightarrow> nat list list \<Rightarrow> ('s embedded_store, nat \<rightharpoonup> embedded_page) comp" where
  "pages_to_update H ps paths =
     bnd (gets (\<lambda>s. (es_cache s, es_root_hash s))) (\<lambda>(cached, root_hash).
     bnd (modify (\<lambda>s. s\<lparr>es_cache := None\<rparr>)) (\<lambda>_.
     case cached of
       Some cache \<Rightarrow>
         if bc_root_hash cache = root_hash \<and> cache_covers_paths (bc_pages cache) paths
         then ret (bc_pages cache) else read_verified_paths H ps paths
     | None \<Rightarrow> read_verified_paths H ps paths))"

definition es_write_paths ::
  "(bytes \<Rightarrow> bytes) \<Rightarrow> 's page_store \<Rightarrow> nat list list \<Rightarrow> bytes list list \<Rightarrow> ('s embedded_store, unit) comp" where
  "es_write_paths H ps paths logical_paths =
     bnd (require (length paths = length logical_paths)
            (InvalidInput ''path count {} != logical path count {}'')) (\<lambda>_.
     if paths = [] then ret ()
     else
       bnd (pages_to_update H ps paths) (\<lambda>pages.
       bnd (write_path_loop H (zip paths logical_paths) (pages, {})) (\<lambda>(pages, dirty).
       let page_indices = sorted_list_of_set dirty in
       bnd (gets (\<lambda>s. (es_physical_page_size s, es_logical_page_size s))) (\<lambda>(k, n).
       bnd (lift (rmapM (\<lambda>page_idx. rbind (ok_or (pages page_idx) (Panic ''dirty page exists in overlay''))
              (\<lambda>page. page_encode page (replicate k 0) n)) page_indices)) (\<lambda>physical_pages.
       es_zoom (ps_write_pages ps page_indices physical_pages))))))"

definition es_read_path ::
  "(bytes \<Rightarrow> bytes) \<Rightarrow> 's page_store \<Rightarrow> nat list \<Rightarrow> ('s embedded_store, bytes list) comp" where
  "es_read_path H ps path =
     bnd (es_read_paths H ps [path]) (\<lambda>logical_paths.
     if logical_paths = [] then fail (Panic ''single requested path yields one path'')
     else ret (last logical_paths))"

definition es_write_path ::
  "(bytes \<Rightarrow> bytes) \<Rightarrow> 's page_store \<Rightarrow> nat list \<Rightarrow> bytes list \<Rightarrow> ('s embedded_store, unit) comp" where
  "es_write_path H ps path logical_pages = es_write_paths H ps [path] [logical_pages]"

definition embedded_ops :: "(bytes \<Rightarrow> bytes) \<Rightarrow> 's page_store \<Rightarrow> 's embedded_store path_page_store" where
  "embedded_ops H ps =
     \<lparr>pp_page_size = es_logical_page_size,
      pp_page_count = es_page_count,
      pp_read_path_pages = es_read_path H ps,
      pp_write_path_pages = es_write_path H ps,
      pp_read_paths_pages = es_read_paths H ps,
      pp_write_paths_pages = es_write_paths H ps,
      pp_flush = es_zoom (ps_flush ps),
      pp_tiered_merkle_state = (\<lambda>_. None),
      pp_embedded_tree_state = (\<lambda>s. Some (embedded_state s))\<rparr>"

end
