(* ===== verification/Embedded_Auth.thy ===== *)
theory Embedded_Auth
  imports Embedded_Tree
begin

text \<open>
  Correctness of the embedded authenticated tree. The genuine state of the tree over logical pages
  \<open>D\<close> is canonical: every page carries the hashes of its children, a missing child has the zero
  hash. Over an honest page store the path operations meet the path-store contract; over any store,
  a path that is read without an error is the genuine one.
\<close>

section \<open>Paths\<close>

lemma is_child_left_right: "is_child p c \<longleftrightarrow> c = left_child p \<or> c = right_child p"
  by (auto simp: is_child_def left_child_def right_child_def mult.commute)

lemma is_child_half: "is_child p c \<longleftrightarrow> 0 < c \<and> p + 1 = (c + 1) div 2"
  unfolding is_child_def by presburger

lemma validate_steps_iff:
  "validate_steps n parent path = Inr () \<longleftrightarrow> (\<forall>i \<in> set path. i < n) \<and> successively is_child path \<and>
    (\<forall>p. parent = Some p \<longrightarrow> path \<noteq> [] \<longrightarrow> is_child p (hd path))"
proof (induction n parent path rule: validate_steps.induct)
  case (2 n parent i rest)
  then show ?case
    by (cases rest; cases parent) (auto simp: is_child_left_right)
qed simp

lemma validate_path_iff: "validate_path path n = Inr () \<longleftrightarrow> root_path n path"
  by (cases path) (auto simp: validate_path_def root_path_def validate_steps_iff successively_Cons)

lemma validate_path_Inr: "validate_path path n = Inr u \<longleftrightarrow> root_path n path"
  using validate_path_iff by (cases u) simp

lemma root_path_step:
  assumes "root_path n path" and "Suc k < length path"
  shows "is_child (path ! k) (path ! Suc k)"
  using assms by (auto simp: root_path_def successively_conv_nth)

lemma root_path_first: "root_path n path \<Longrightarrow> path ! 0 = 0 \<and> 0 < length path"
  by (cases path) (auto simp: root_path_def)

lemma root_path_increasing:
  assumes "root_path n path" and "j < k" and "k < length path"
  shows "path ! j < path ! k"
  using assms(2,3)
proof (induction k)
  case (Suc k)
  have "path ! k < path ! Suc k" using root_path_step [OF assms(1) Suc.prems(2)] by (auto simp: is_child_def)
  with Suc show ?case by (cases "j = k") auto
qed simp

lemma root_path_distinct: "root_path n path \<Longrightarrow> distinct path"
  using root_path_increasing [of n path] by (auto simp: distinct_conv_nth nat_neq_iff)

lemma root_path_child:
  assumes "root_path n path" and "k < length path" and "c \<in> set path" and "is_child (path ! k) c"
  shows "Suc k < length path \<and> c = path ! Suc k"
proof -
  obtain a where a: "a < length path" "c = path ! a" using assms(3) by (auto simp: in_set_conv_nth)
  have "path ! 0 = 0" "0 < c" using root_path_first [OF assms(1)] assms(4) by (auto simp: is_child_half)
  then have "a \<noteq> 0" using a(2) by (intro notI) simp
  then obtain b where b: "a = Suc b" by (cases a) auto
  have "is_child (path ! b) c" using root_path_step [OF assms(1), of b] a b by simp
  with assms(4) have "path ! b = path ! k" by (simp add: is_child_half)
  then have "b = k" using root_path_distinct [OF assms(1)] assms(2) a b by (simp add: nth_eq_iff_index_eq)
  with a b show ?thesis by simp
qed

text \<open>A path from the root holds every ancestor of its pages.\<close>

lemma root_path_ancestors:
  assumes "root_path n path" and "j \<in> set path" and "is_above (a + 1) (j + 1)"
  shows "a \<in> set path"
proof -
  have "is_above (a + 1) (path ! k + 1) \<Longrightarrow> k < length path \<Longrightarrow> a \<in> set path" for k
  proof (induction k)
    case 0
    then show ?case using root_path_first [OF assms(1)] is_above_one [of "a + 1"] nth_mem [of 0 path] by auto
  next
    case (Suc k)
    have "path ! k + 1 = (path ! Suc k + 1) div 2"
      using root_path_step [OF assms(1) Suc.prems(2)] by (simp add: is_child_half)
    with Suc.prems(1) have "a + 1 = path ! Suc k + 1 \<or> is_above (a + 1) (path ! k + 1)"
      using is_above_iff_half [of "a + 1" "path ! Suc k + 1"] by simp
    with Suc show ?case by auto
  qed
  with assms(2,3) show ?thesis by (auto simp: in_set_conv_nth)
qed

section \<open>The genuine tree\<close>

function etree_hash :: "(bytes \<Rightarrow> bytes) \<Rightarrow> bytes \<Rightarrow> nat \<Rightarrow> (nat \<Rightarrow> bytes) \<Rightarrow> nat \<Rightarrow> bytes" where
  "etree_hash H sid n D i =
     (if i < n then hash_embedded_page H sid i (D i)
        (etree_hash H sid n D (left_child i)) (etree_hash H sid n D (right_child i))
      else zero_hash)"
  by pat_completeness auto
termination
  by (relation "measure (\<lambda>(H, sid, n, D, i). n - i)") (auto simp: left_child_def right_child_def)

declare etree_hash.simps [simp del]

definition etree_page :: "(bytes \<Rightarrow> bytes) \<Rightarrow> bytes \<Rightarrow> nat \<Rightarrow> (nat \<Rightarrow> bytes) \<Rightarrow> nat \<Rightarrow> embedded_page" where
  "etree_page H sid n D i =
     \<lparr>ep_logical = D i, ep_left_hash = etree_hash H sid n D (left_child i),
      ep_right_hash = etree_hash H sid n D (right_child i)\<rparr>"

lemma etree_hash_page: "i < n \<Longrightarrow> etree_hash H sid n D i = page_hash H (etree_page H sid n D i) sid i"
  by (subst etree_hash.simps) (simp add: page_hash_def etree_page_def)

lemma etree_hash_beyond: "n \<le> i \<Longrightarrow> etree_hash H sid n D i = zero_hash"
  by (subst etree_hash.simps) simp

lemma etree_page_child:
  "is_child i c \<Longrightarrow> page_child_hash (etree_page H sid n D i) i c = Inr (etree_hash H sid n D c)"
  by (auto simp: is_child_left_right page_child_hash_def etree_page_def left_child_def right_child_def)

lemma etree_hash_same:
  assumes "\<And>j. is_above (i + 1) (j + 1) \<Longrightarrow> D j = D' j"
  shows "etree_hash H sid n D i = etree_hash H sid n D' i"
  using assms
proof (induction H sid n D i rule: etree_hash.induct)
  case (1 H sid n D i)
  have "is_above (left_child i + 1) m \<or> is_above (right_child i + 1) m \<Longrightarrow> is_above (i + 1) m" for m
    using is_above_children [of "i + 1" m] by (simp add: left_child_def right_child_def mult.commute)
  then have "D j = D' j" if "is_above (left_child i + 1) (j + 1) \<or> is_above (right_child i + 1) (j + 1)" for j
    using that "1.prems" by blast
  moreover have "D i = D' i" by (rule "1.prems") simp
  ultimately show ?case
    using "1.IH" by (subst (1 2) etree_hash.simps) auto
qed

text \<open>Changing pages of one path changes no hash off the path.\<close>

lemma etree_hash_off_path:
  assumes "root_path m path" and "\<And>j. j \<notin> set path \<Longrightarrow> D j = D' j" and "i \<notin> set path"
  shows "etree_hash H sid n D i = etree_hash H sid n D' i"
proof (rule etree_hash_same)
  fix j assume "is_above (i + 1) (j + 1)"
  then have "j \<notin> set path" using root_path_ancestors [OF assms(1), of j i] assms(3) by blast
  then show "D j = D' j" by (rule assms(2))
qed

lemma etree_page_off_path:
  assumes "root_path m path" and "\<And>j. j \<notin> set path \<Longrightarrow> D j = D' j" and "i \<notin> set path"
  shows "etree_page H sid n D i = etree_page H sid n D' i"
proof -
  have "c \<notin> set path" if "is_child i c" for c
  proof
    assume "c \<in> set path"
    moreover have "is_above (i + 1) (c + 1)"
      using that is_above_iff_half [of "i + 1" "c + 1"] by (simp add: is_child_half)
    ultimately show False using root_path_ancestors [OF assms(1)] assms(3) by blast
  qed
  then have "etree_hash H sid n D c = etree_hash H sid n D' c" if "is_child i c" for c
    using that by (intro etree_hash_off_path [OF assms(1,2)]) auto
  with assms show ?thesis by (simp add: etree_page_def is_child_left_right)
qed

section \<open>Encoding\<close>

definition page_ok :: "nat \<Rightarrow> embedded_page \<Rightarrow> bool" where
  "page_ok k page \<longleftrightarrow> length (ep_logical page) = k \<and> length (ep_left_hash page) = 32 \<and> length (ep_right_hash page) = 32"

definition page_bytes :: "embedded_page \<Rightarrow> bytes" where
  "page_bytes page = ep_logical page @ ep_left_hash page @ ep_right_hash page"

lemma auth_bytes: "EMBEDDED_TREE_AUTH_BYTES_PER_PAGE = 64" "CHILD_HASH_BYTES = 32"
  by (simp_all add: EMBEDDED_TREE_AUTH_BYTES_PER_PAGE_def CHILD_HASH_BYTES_def)

lemma page_decode_bytes: "page_ok k page \<Longrightarrow> page_decode (page_bytes page) k = Inr page"
  by (auto simp: page_decode_def page_bytes_def page_ok_def auth_bytes slice_def Let_def)

lemma page_encode_bytes:
  "page_ok k page \<Longrightarrow> length out = physical_page_size_for k \<Longrightarrow> page_encode page out k = Inr (page_bytes page)"
  by (auto simp: page_encode_def page_bytes_def page_ok_def auth_bytes copy_into_def
      physical_page_size_for_def Let_def)

lemma page_decode_ok: "page_decode input k = Inr page \<Longrightarrow> page_ok k page \<and> length input = k + 64"
  by (auto simp: page_decode_def page_ok_def auth_bytes Let_def split: if_splits)

lemma length_page_bytes: "page_ok k page \<Longrightarrow> length (page_bytes page) = physical_page_size_for k"
  by (simp add: page_bytes_def page_ok_def physical_page_size_for_def auth_bytes)

lemma embedded_input_inj:
  assumes "embedded_input sid i l a b = embedded_input sid i l' a' b'"
    and "length l = length l'" and "length a = length a'"
  shows "l = l' \<and> a = a' \<and> b = b'"
  using assms by (simp add: embedded_input_def)

definition etree_inputs :: "(bytes \<Rightarrow> bytes) \<Rightarrow> bytes \<Rightarrow> nat \<Rightarrow> (nat \<Rightarrow> bytes) \<Rightarrow> bytes set" where
  "etree_inputs H sid n D =
     (\<lambda>i. embedded_input sid i (D i) (etree_hash H sid n D (left_child i)) (etree_hash H sid n D (right_child i))) ` {..<n}"

context sha256_spec
begin

lemma length_etree_hash [simp]: "length (etree_hash H sid n D i) = 32"
  by (subst etree_hash.simps) (simp add: hash_embedded_page_def hash_length)

lemma length_page_hash [simp]: "length (page_hash H page sid i) = 32"
  by (simp add: page_hash_def hash_embedded_page_def hash_length)

lemma etree_page_ok [simp]: "page_ok k (etree_page H sid n D i) \<longleftrightarrow> length (D i) = k"
  by (simp add: page_ok_def etree_page_def)

lemma page_hash_genuine:
  assumes "no_second_preimage H (etree_inputs H sid n D)" and "i < n" and "page_ok (length (D i)) page"
    and "page_hash H page sid i = etree_hash H sid n D i"
  shows "page = etree_page H sid n D i"
proof -
  let ?l = "etree_hash H sid n D (left_child i)" and ?r = "etree_hash H sid n D (right_child i)"
  have "embedded_input sid i (D i) ?l ?r \<in> etree_inputs H sid n D" using assms(2) by (auto simp: etree_inputs_def)
  moreover have "H (embedded_input sid i (ep_logical page) (ep_left_hash page) (ep_right_hash page)) =
      H (embedded_input sid i (D i) ?l ?r)"
    using assms(4) etree_hash_page [OF assms(2), of H sid D]
    by (simp add: page_hash_def hash_embedded_page_def etree_page_def)
  ultimately have "embedded_input sid i (ep_logical page) (ep_left_hash page) (ep_right_hash page) =
      embedded_input sid i (D i) ?l ?r"
    using assms(1) by (auto simp: no_second_preimage_def)
  from embedded_input_inj [OF this] assms(3) show ?thesis by (simp add: etree_page_def page_ok_def)
qed

lemma verify_path_honest:
  assumes "\<forall>i \<in> set path. i < n \<and> pages i = Some (etree_page H sid n D i)" and "successively is_child path"
    and "path \<noteq> [] \<Longrightarrow> exp = etree_hash H sid n D (hd path)"
  shows "verify_path_from_pages H path pages sid exp = Inr ()"
  using assms
proof (induction path arbitrary: exp)
  case (Cons i rest)
  have "hash_eq (page_hash H (etree_page H sid n D i) sid i) exp"
    using Cons.prems etree_hash_page [of i n H sid D] by (simp add: hash_eq_iff)
  with Cons show ?case
    by (cases rest) (auto simp: etree_page_child)
qed simp

text \<open>A path that verifies against the genuine root hash holds the genuine pages.\<close>

lemma verify_path_genuine:
  assumes "verify_path_from_pages H path pages sid exp = Inr ()"
    and "no_second_preimage H (etree_inputs H sid n D)"
    and "\<forall>i \<in> set path. i < n" and "successively is_child path" and "path \<noteq> [] \<Longrightarrow> exp = etree_hash H sid n D (hd path)"
    and "\<forall>i page. pages i = Some page \<longrightarrow> page_ok (length (D i)) page"
  shows "\<forall>i \<in> set path. pages i = Some (etree_page H sid n D i)"
  using assms(1,3-5)
proof (induction path arbitrary: exp)
  case (Cons i rest)
  then obtain page where page: "pages i = Some page" "hash_eq (page_hash H page sid i) exp"
    by (auto split: option.splits if_splits)
  have i: "i < n" "exp = etree_hash H sid n D i" using Cons.prems by simp_all
  then have "page = etree_page H sid n D i"
    using page assms(2,6) by (intro page_hash_genuine) (auto simp: hash_eq_iff)
  moreover have "\<forall>i \<in> set rest. pages i = Some (etree_page H sid n D i)"
  proof (cases rest)
    case (Cons q rest')
    then have q: "is_child i q" using Cons.prems(3) by simp
    have "verify_path_from_pages H (i # rest) pages sid exp =
        rbind (page_child_hash page i q) (verify_path_from_pages H rest pages sid)"
      using page Cons by simp
    then have "verify_path_from_pages H rest pages sid (etree_hash H sid n D q) = Inr ()"
      using Cons.prems(1) calculation etree_page_child [OF q] by (simp del: verify_path_from_pages.simps)
    then show ?thesis using Cons.prems(2,3) Cons by (intro Cons.IH) auto
  qed simp
  ultimately show ?case using page(1) by simp
qed simp

end

section \<open>Updating paths\<close>

definition upd_pages :: "(nat \<Rightarrow> bytes) \<Rightarrow> (nat \<times> bytes) list \<Rightarrow> nat \<Rightarrow> bytes" where
  "upd_pages D l = fold (\<lambda>(i, p) D. D(i := p)) l D"

definition apply_paths :: "(nat \<Rightarrow> bytes) \<Rightarrow> (nat list \<times> bytes list) list \<Rightarrow> nat \<Rightarrow> bytes" where
  "apply_paths D entries = fold (\<lambda>(path, pgs) D. upd_pages D (zip path pgs)) entries D"

lemma upd_pages_Cons: "upd_pages D ((i, p) # l) = upd_pages (D(i := p)) l"
  by (simp add: upd_pages_def)

lemma upd_pages_other: "i \<notin> fst ` set l \<Longrightarrow> upd_pages D l i = D i"
proof (induction l arbitrary: D)
  case (Cons x l)
  then show ?case by (cases x) (simp add: upd_pages_Cons)
qed (simp add: upd_pages_def)

lemma upd_pages_in: "i \<in> fst ` set l \<Longrightarrow> \<exists>p. (i, p) \<in> set l \<and> upd_pages D l i = p"
proof (induction l arbitrary: D)
  case (Cons x l)
  obtain j p where x: "x = (j, p)" by (cases x)
  show ?case
  proof (cases "i \<in> fst ` set l")
    case True
    from Cons.IH [OF this, of "D(j := p)"] x show ?thesis by (auto simp: upd_pages_Cons simp del: fun_upd_apply)
  next
    case False
    with Cons.prems x upd_pages_other [OF False, of "D(j := p)"] show ?thesis by (auto simp: upd_pages_Cons)
  qed
qed simp

lemma fst_set_zip [simp]: "length xs = length ys \<Longrightarrow> fst ` set (zip xs ys) = set xs"
  by (metis list.set_map map_fst_zip)

text \<open>The overlay holds the genuine pages over \<open>D\<close>.\<close>

definition agrees ::
  "(bytes \<Rightarrow> bytes) \<Rightarrow> bytes \<Rightarrow> nat \<Rightarrow> (nat \<Rightarrow> bytes) \<Rightarrow> (nat \<rightharpoonup> embedded_page) \<Rightarrow> bool" where
  "agrees H sid n D pages \<longleftrightarrow> (\<forall>i page. pages i = Some page \<longrightarrow> i < n \<and> page = etree_page H sid n D i)"

definition valid_entry :: "'s embedded_store \<Rightarrow> (nat \<rightharpoonup> embedded_page) \<Rightarrow> nat list \<times> bytes list \<Rightarrow> bool" where
  "valid_entry s m entry \<longleftrightarrow> root_path (es_page_count s) (fst entry) \<and> length (fst entry) = length (snd entry) \<and>
     (\<forall>p \<in> set (snd entry). length p = es_logical_page_size s) \<and> (\<forall>i \<in> set (fst entry). m i \<noteq> None)"

lemma put_logical_loop:
  assumes "\<forall>(i, p) \<in> set l. length p = k \<and> m i \<noteq> None"
  shows "rfoldM (put_logical k) l (m, d) =
    Inr (\<lambda>i. if i \<in> fst ` set l then Some ((the (m i))\<lparr>ep_logical := upd_pages D l i\<rparr>) else m i, d \<union> fst ` set l)"
  using assms
proof (induction l arbitrary: m d D)
  case (Cons x l)
  obtain i p where x: "x = (i, p)" by (cases x)
  obtain page where page: "m i = Some page" using Cons.prems x by auto
  let ?m = "m(i \<mapsto> page\<lparr>ep_logical := p\<rparr>)"
  have "put_logical k x (m, d) = Inr (?m, insert i d)"
    using Cons.prems x page by (simp add: put_logical_def)
  moreover have "rfoldM (put_logical k) l (?m, insert i d) =
      Inr (\<lambda>j. if j \<in> fst ` set l then Some ((the (?m j))\<lparr>ep_logical := upd_pages (D(i := p)) l j\<rparr>) else ?m j,
           insert i d \<union> fst ` set l)"
    using Cons.prems by (intro Cons.IH) auto
  moreover have "(\<lambda>j. if j \<in> fst ` set l then Some ((the (?m j))\<lparr>ep_logical := upd_pages (D(i := p)) l j\<rparr>) else ?m j) =
      (\<lambda>j. if j \<in> fst ` set (x # l) then Some ((the (m j))\<lparr>ep_logical := upd_pages D (x # l) j\<rparr>) else m j)"
    using page x by (auto simp: fun_eq_iff upd_pages_Cons upd_pages_other)
  ultimately show ?case using x by simp
qed simp

lemma put_logical_loop_Inr:
  assumes "rfoldM (put_logical k) l (m, d) = Inr r"
  shows "\<forall>(i, p) \<in> set l. length p = k \<and> m i \<noteq> None"
  using assms
proof (induction l arbitrary: m d)
  case (Cons x l)
  obtain i p where x: "x = (i, p)" by (cases x)
  from Cons.prems obtain ov where ov: "put_logical k x (m, d) = Inr ov" "rfoldM (put_logical k) l ov = Inr r" by auto
  with x obtain page where page: "length p = k" "m i = Some page"
    "rfoldM (put_logical k) l (m(i \<mapsto> page\<lparr>ep_logical := p\<rparr>), insert i d) = Inr r"
    by (auto simp: put_logical_def ok_or_def simp del: fun_upd_apply split: if_splits option.splits)
  with Cons.IH [OF page(3)] x show ?case by (fastforce split: if_splits)
qed simp

context sha256_spec
begin

lemma set_child_hash_update:
  assumes "is_child i q" and "\<And>c. is_child i c \<Longrightarrow> c \<noteq> q \<Longrightarrow> etree_hash H sid n D c = etree_hash H sid n D' c"
  shows "set_child_hash ((etree_page H sid n D i)\<lparr>ep_logical := D' i\<rparr>) i q (etree_hash H sid n D' q) =
    Inr (etree_page H sid n D' i)"
  using assms by (auto simp: set_child_hash_def etree_page_def is_child_left_right left_child_def right_child_def)

text \<open>The bottom-up loop rebuilds the hashes of one path.\<close>

lemma put_hash_loop:
  assumes "root_path n path" and "k \<le> length path" and "\<And>j. j \<notin> set path \<Longrightarrow> D j = D' j"
    and "\<And>i. i \<in> set path \<Longrightarrow> m i = Some ((etree_page H sid n D i)\<lparr>ep_logical := D' i\<rparr>)"
  shows "rfoldM (put_hash H sid) (rev (drop k path)) ((m, d), None) =
    Inr ((\<lambda>i. if i \<in> set (drop k path) then Some (etree_page H sid n D' i) else m i, d \<union> set (drop k path)),
         if k < length path then Some (path ! k, etree_hash H sid n D' (path ! k)) else None)"
  using assms(2)
proof (induction k rule: inc_induct)
  case (step k)
  let ?i = "path ! k"
  let ?m = "\<lambda>i. if i \<in> set (drop (Suc k) path) then Some (etree_page H sid n D' i) else m i"
  let ?st = "((?m, d \<union> set (drop (Suc k) path)),
    if Suc k < length path then Some (path ! Suc k, etree_hash H sid n D' (path ! Suc k)) else None)"
  have i: "?i \<in> set path" "?i < n" "k < length path"
    using step.hyps assms(1) by (auto simp: root_path_def)
  have "?i \<notin> set (drop (Suc k) path)"
    using root_path_distinct [OF assms(1)] step.hyps by (auto simp: in_set_conv_nth nth_eq_iff_index_eq)
  then have mi: "?m ?i = Some ((etree_page H sid n D ?i)\<lparr>ep_logical := D' ?i\<rparr>)" using assms(4) i by simp
  have off: "etree_hash H sid n D c = etree_hash H sid n D' c" if "c \<notin> set path" for c
    by (rule etree_hash_off_path [OF assms(1,3) that])
  have "put_hash H sid ?i ?st =
      Inr ((?m(?i \<mapsto> etree_page H sid n D' ?i), insert ?i (d \<union> set (drop (Suc k) path))),
           Some (?i, etree_hash H sid n D' ?i))"
  proof (cases "Suc k < length path")
    case True
    have "set_child_hash ((etree_page H sid n D ?i)\<lparr>ep_logical := D' ?i\<rparr>) ?i (path ! Suc k)
        (etree_hash H sid n D' (path ! Suc k)) = Inr (etree_page H sid n D' ?i)"
      using root_path_step [OF assms(1) True] off root_path_child [OF assms(1) i(3)]
      by (intro set_child_hash_update) blast+
    with True mi i show ?thesis
      by (simp add: put_hash_def etree_hash_page del: fun_upd_apply)
  next
    case False
    then have "etree_hash H sid n D c = etree_hash H sid n D' c" if "is_child ?i c" for c
      using that off root_path_child [OF assms(1) i(3)] by blast
    then have "(etree_page H sid n D ?i)\<lparr>ep_logical := D' ?i\<rparr> = etree_page H sid n D' ?i"
      by (simp add: etree_page_def is_child_left_right)
    with False mi i show ?thesis
      by (simp add: put_hash_def etree_hash_page del: fun_upd_apply)
  qed
  moreover have "drop k path = ?i # drop (Suc k) path" using i(3) by (simp add: Cons_nth_drop_Suc)
  moreover have "?m(?i \<mapsto> etree_page H sid n D' ?i) =
      (\<lambda>i. if i \<in> set (?i # drop (Suc k) path) then Some (etree_page H sid n D' i) else m i)"
    by (auto simp: fun_eq_iff)
  ultimately show ?case
    using step.IH i(3) by (simp add: rfoldM_append del: fun_upd_apply)
qed simp

lemma write_one_path_spec:
  assumes "root_path (es_page_count s) path" and "length path = length pgs"
    and "\<forall>p \<in> set pgs. length p = es_logical_page_size s"
    and "agrees H (es_store_id s) (es_page_count s) D m" and "\<forall>i \<in> set path. m i \<noteq> None"
    and "D' = upd_pages D (zip path pgs)"
  shows "write_one_path H (path, pgs) (m, d) s =
    (Inr (\<lambda>i. if m i = None then None else Some (etree_page H (es_store_id s) (es_page_count s) D' i),
          d \<union> set path),
     s\<lparr>es_root_hash := etree_hash H (es_store_id s) (es_page_count s) D' 0\<rparr>)"
proof -
  let ?sid = "es_store_id s" and ?n = "es_page_count s" and ?k = "es_logical_page_size s"
  let ?m1 = "\<lambda>i. if i \<in> set path then Some ((the (m i))\<lparr>ep_logical := D' i\<rparr>) else m i"
  have log: "rfoldM (put_logical ?k) (zip path pgs) (m, d) = Inr (?m1, d \<union> set path)"
    using put_logical_loop [of "zip path pgs" ?k m d D] assms(2,3,5,6)
    by (auto dest: set_zip_leftD set_zip_rightD)
  have off: "D j = D' j" if "j \<notin> set path" for j
    using that upd_pages_other [of j "zip path pgs" D] assms(2,6) by simp
  have off_page: "etree_page H ?sid ?n D i = etree_page H ?sid ?n D' i" if "i \<notin> set path" for i
    by (rule etree_page_off_path [OF assms(1) off that])
  have "rfoldM (put_hash H ?sid) (rev (drop 0 path)) ((?m1, d \<union> set path), None) =
      Inr ((\<lambda>i. if i \<in> set (drop 0 path) then Some (etree_page H ?sid ?n D' i) else ?m1 i, d \<union> set path \<union> set (drop 0 path)),
         if 0 < length path then Some (path ! 0, etree_hash H ?sid ?n D' (path ! 0)) else None)"
    using assms(4,5) by (intro put_hash_loop [OF assms(1) _ off]) (auto simp: agrees_def)
  moreover have "(\<lambda>i. if i \<in> set path then Some (etree_page H ?sid ?n D' i) else ?m1 i) =
      (\<lambda>i. if m i = None then None else Some (etree_page H ?sid ?n D' i))"
    using assms(4,5) off_page by (fastforce simp: fun_eq_iff agrees_def)
  ultimately show ?thesis
    using log assms(1,2) root_path_first [OF assms(1)] validate_path_iff [of path ?n]
    by (simp add: write_one_path_def comp_simps)
qed

lemma write_one_path_Inr:
  assumes "write_one_path H (path, pgs) (m, d) s = (Inr r, s')"
  shows "root_path (es_page_count s) path" "length path = length pgs"
    "\<forall>p \<in> set pgs. length p = es_logical_page_size s" "\<forall>i \<in> set path. m i \<noteq> None"
proof -
  from assms obtain ov where l: "length path = length pgs" "validate_path path (es_page_count s) = Inr ()"
    "rfoldM (put_logical (es_logical_page_size s)) (zip path pgs) (m, d) = Inr ov"
    by (auto simp: write_one_path_def bnd_Inr_iff comp_simps split: if_splits)
  show "root_path (es_page_count s) path" "length path = length pgs"
    using l(1,2) by (simp_all add: validate_path_iff)
  have "length (pgs ! j) = es_logical_page_size s \<and> m (path ! j) \<noteq> None" if "j < length path" for j
  proof -
    have "(path ! j, pgs ! j) \<in> set (zip path pgs)" using that l(1) by (auto simp: set_zip)
    with put_logical_loop_Inr [OF l(3)] show ?thesis by auto
  qed
  with l(1) show "\<forall>p \<in> set pgs. length p = es_logical_page_size s" "\<forall>i \<in> set path. m i \<noteq> None"
    by (simp_all add: all_set_conv_all_nth)
qed

lemma page_indices_sorted [simp]: "set (sorted_list_of_set (set xs)) = set xs" "distinct (sorted_list_of_set (set xs))"
  by simp_all

lemma apply_paths_Cons: "apply_paths D (e # es) = apply_paths (upd_pages D (zip (fst e) (snd e))) es"
  by (simp add: apply_paths_def split_beta)

text \<open>The loop over the paths: each works on the overlay the earlier ones left.\<close>

lemma write_path_loop_spec:
  assumes "agrees H (es_store_id s) (es_page_count s) D m" and "\<forall>e \<in> set entries. valid_entry s m e"
  shows "write_path_loop H entries (m, d) s =
    (Inr (\<lambda>i. if m i = None then None else Some (etree_page H (es_store_id s) (es_page_count s) (apply_paths D entries) i),
          d \<union> (\<Union>e \<in> set entries. set (fst e))),
     if entries = [] then s
     else s\<lparr>es_root_hash := etree_hash H (es_store_id s) (es_page_count s) (apply_paths D entries) 0\<rparr>)"
  using assms
proof (induction entries arbitrary: m d s D)
  case Nil
  then show ?case by (auto simp: comp_simps apply_paths_def fun_eq_iff agrees_def)
next
  case (Cons e es)
  let ?sid = "es_store_id s" and ?n = "es_page_count s"
  let ?D = "upd_pages D (zip (fst e) (snd e))"
  let ?m = "\<lambda>i. if m i = None then None else Some (etree_page H ?sid ?n ?D i)"
  let ?s = "s\<lparr>es_root_hash := etree_hash H ?sid ?n ?D 0\<rparr>"
  have one: "write_one_path H e (m, d) s = (Inr (?m, d \<union> set (fst e)), ?s)"
    using write_one_path_spec [of s "fst e" "snd e" D m ?D d] Cons.prems by (simp add: valid_entry_def)
  have "agrees H (es_store_id ?s) (es_page_count ?s) ?D ?m" using Cons.prems(1) by (auto simp: agrees_def)
  moreover have "\<forall>e \<in> set es. valid_entry ?s ?m e" using Cons.prems(2) by (auto simp: valid_entry_def)
  ultimately have "write_path_loop H es (?m, d \<union> set (fst e)) ?s =
    (Inr (\<lambda>i. if ?m i = None then None else Some (etree_page H ?sid ?n (apply_paths ?D es) i),
          d \<union> set (fst e) \<union> (\<Union>e \<in> set es. set (fst e))),
     if es = [] then ?s else ?s\<lparr>es_root_hash := etree_hash H ?sid ?n (apply_paths ?D es) 0\<rparr>)"
    using Cons.IH [of ?s ?D ?m "d \<union> set (fst e)"] by (simp cong: if_cong)
  moreover have "(\<lambda>i. if ?m i = None then None else Some (etree_page H ?sid ?n (apply_paths ?D es) i)) =
      (\<lambda>i. if m i = None then None else Some (etree_page H ?sid ?n (apply_paths ?D es) i))"
    by (auto simp: fun_eq_iff)
  ultimately show ?case using one by (auto simp: comp_simps apply_paths_Cons Un_assoc) (simp add: apply_paths_def)
qed

lemma write_path_loop_Inr:
  assumes "write_path_loop H entries (m, d) s = (Inr r, s')" and "agrees H (es_store_id s) (es_page_count s) D m"
  shows "\<forall>e \<in> set entries. valid_entry s m e"
  using assms
proof (induction entries arbitrary: m d s D)
  case (Cons e es)
  let ?D = "upd_pages D (zip (fst e) (snd e))"
  let ?m = "\<lambda>i. if m i = None then None else Some (etree_page H (es_store_id s) (es_page_count s) ?D i)"
  let ?s = "s\<lparr>es_root_hash := etree_hash H (es_store_id s) (es_page_count s) ?D 0\<rparr>"
  from Cons.prems(1) obtain r1 s1 where r1: "write_one_path H (fst e, snd e) (m, d) s = (Inr r1, s1)"
    "write_path_loop H es r1 s1 = (Inr r, s')" by (auto simp: bnd_Inr_iff)
  note v = write_one_path_Inr [OF r1(1)]
  have "r1 = (?m, d \<union> set (fst e))" "s1 = ?s"
    using write_one_path_spec [OF v(1-3) Cons.prems(2) v(4) refl, of d] r1(1) by simp_all
  moreover have "agrees H (es_store_id ?s) (es_page_count ?s) ?D ?m" using Cons.prems(2) by (auto simp: agrees_def)
  ultimately have "\<forall>e \<in> set es. valid_entry ?s ?m e" using Cons.IH [of ?m "d \<union> set (fst e)" ?s ?D] r1(2) by simp
  moreover have "valid_entry ?s ?m e' = valid_entry s m e'" for e' by (auto simp: valid_entry_def)
  moreover have "valid_entry s m e" using v by (simp add: valid_entry_def)
  ultimately show ?case by simp
qed simp

lemma apply_paths_off:
  assumes "\<forall>e \<in> set entries. root_path n (fst e) \<and> length (fst e) = length (snd e)"
    and "i \<notin> (\<Union>e \<in> set entries. set (fst e))"
  shows "etree_page H sid n (apply_paths D entries) i = etree_page H sid n D i \<and> apply_paths D entries i = D i"
  using assms
proof (induction entries arbitrary: D)
  case (Cons e es)
  let ?D = "upd_pages D (zip (fst e) (snd e))"
  have "etree_page H sid n D i = etree_page H sid n ?D i"
    using Cons.prems by (intro etree_page_off_path [of n "fst e"]) (auto simp: upd_pages_other)
  moreover have "?D i = D i" using Cons.prems by (intro upd_pages_other) auto
  ultimately show ?case using Cons by (simp add: apply_paths_Cons)
qed (simp add: apply_paths_def)

lemma apply_paths_lengths:
  assumes "\<forall>e \<in> set entries. length (fst e) = length (snd e) \<and> (\<forall>p \<in> set (snd e). length p = k)"
    and "length (D i) = k"
  shows "length (apply_paths D entries i) = k"
  using assms
proof (induction entries arbitrary: D)
  case (Cons e es)
  have "length (upd_pages D (zip (fst e) (snd e)) i) = k"
  proof (cases "i \<in> set (fst e)")
    case True
    then obtain p where "(i, p) \<in> set (zip (fst e) (snd e))" "upd_pages D (zip (fst e) (snd e)) i = p"
      using upd_pages_in [of i "zip (fst e) (snd e)" D] Cons.prems by auto
    then show ?thesis using Cons.prems(1) by (auto dest: set_zip_rightD)
  next
    case False
    then show ?thesis using Cons.prems by (simp add: upd_pages_other)
  qed
  with Cons show ?case by (simp add: apply_paths_Cons)
qed (simp add: apply_paths_def)

lemma upd_pages_map: "upd_pages D (zip path (map f path)) i = (if i \<in> set path then f i else D i)"
proof (cases "i \<in> set path")
  case True
  then obtain p where "(i, p) \<in> set (zip path (map f path))" "upd_pages D (zip path (map f path)) i = p"
    using upd_pages_in [of i "zip path (map f path)" D] by auto
  with True show ?thesis by (auto simp: set_zip)
qed (simp add: upd_pages_other)

lemma apply_paths_map:
  "apply_paths D (zip paths (map (map f) paths)) i = (if i \<in> set (concat paths) then f i else D i)"
proof (induction paths arbitrary: D)
  case (Cons path paths)
  then show ?case by (auto simp: apply_paths_Cons upd_pages_map)
qed (simp add: apply_paths_def)

end

section \<open>The trusted root\<close>

text \<open>
  \<open>es_auth H D s\<close>: the trusted root of \<open>s\<close> is that of the tree over the pages \<open>D\<close>, and a usable
  cache holds genuine pages. It says nothing about the wrapped store.
\<close>

definition es_auth :: "(bytes \<Rightarrow> bytes) \<Rightarrow> (nat \<Rightarrow> bytes) \<Rightarrow> 's embedded_store \<Rightarrow> bool" where
  "es_auth H D s \<longleftrightarrow>
     0 < es_page_count s \<and> 0 < es_logical_page_size s \<and>
     es_physical_page_size s = physical_page_size_for (es_logical_page_size s) \<and>
     (\<forall>i. length (D i) = es_logical_page_size s) \<and>
     es_root_hash s = etree_hash H (es_store_id s) (es_page_count s) D 0 \<and>
     (\<forall>c. es_cache s = Some c \<longrightarrow> bc_root_hash c = es_root_hash s \<longrightarrow>
        agrees H (es_store_id s) (es_page_count s) D (bc_pages c))"

lemma es_auth_inner [simp]: "es_auth H D (s\<lparr>es_inner := t\<rparr>) = es_auth H D s"
  by (simp add: es_auth_def)

lemma es_auth_take [simp]: "es_auth H D s \<Longrightarrow> es_auth H D (s\<lparr>es_cache := None\<rparr>)"
  by (simp add: es_auth_def)

lemma map_upds_in:
  "(Map.empty(map fst l [\<mapsto>] map snd l)) i = Some p \<Longrightarrow> (i, p) \<in> set l"
  by (auto simp: map_upds_def zip_map_fst_snd dest: map_of_SomeD)

context sha256_spec
begin

text \<open>Pages read from any store and verified are the genuine ones.\<close>

lemma read_verified_paths_genuine:
  assumes "es_auth H D s" and "no_second_preimage H (etree_inputs H (es_store_id s) (es_page_count s) D)"
    and "read_verified_paths H ps paths s = (Inr m, s')"
  shows "(\<exists>t. s' = s\<lparr>es_inner := t\<rparr>) \<and> agrees H (es_store_id s) (es_page_count s) D m \<and>
    (\<forall>i \<in> set (concat paths). m i = Some (etree_page H (es_store_id s) (es_page_count s) D i)) \<and>
    (\<forall>path \<in> set paths. root_path (es_page_count s) path)"
proof (cases "paths = []")
  case True
  with assms(3) show ?thesis
    by (auto simp: read_verified_paths_def comp_simps agrees_def intro!: exI [of _ "es_inner s"])
next
  case False
  let ?sid = "es_store_id s" and ?n = "es_page_count s" and ?k = "es_logical_page_size s"
  let ?idxs = "sorted_list_of_set (set (concat paths))"
  from False assms(3) obtain t phys dec where r: "\<forall>path \<in> set paths. validate_path path ?n = Inr ()"
    "rmapM (\<lambda>(i, physical). rbind (page_decode physical ?k) (\<lambda>page. Inr (i, page))) (zip ?idxs phys) = Inr dec"
    "m = Map.empty(map fst dec [\<mapsto>] map snd dec)"
    "\<forall>path \<in> set paths. verify_path_from_pages H path m ?sid (es_root_hash s) = Inr ()"
    "s' = s\<lparr>es_inner := t\<rparr>"
    unfolding read_verified_paths_def
    by (clarsimp simp: bnd_Inr_iff gets_run lift_run ret_run citer_lift_Inr zoom_def Let_def split_beta)
  have paths: "root_path ?n path" if "path \<in> set paths" for path
    using r(1) that by (simp add: validate_path_iff)
  have dec: "i \<in> set (concat paths) \<and> page_ok ?k page" if "m i = Some page" for i page
  proof -
    have "(i, page) \<in> set dec" by (rule map_upds_in) (use that r(3) in simp)
    from rmapM_source [OF r(2) this] obtain x where x: "x \<in> set (zip ?idxs phys)"
      "(case x of (i, physical) \<Rightarrow> rbind (page_decode physical ?k) (\<lambda>page. Inr (i, page))) = Inr (i, page)"
      by (elim exE conjE)
    obtain j physical where j: "x = (j, physical)" by (cases x)
    with x(2) have "j = i" "page_decode physical ?k = Inr page" by auto
    moreover have "j \<in> set ?idxs" using x(1) j set_zip_leftD by fast
    ultimately show ?thesis using page_decode_ok by (metis page_indices_sorted(1))
  qed
  have gen: "\<forall>i \<in> set path. m i = Some (etree_page H ?sid ?n D i)" if "path \<in> set paths" for path
    using paths [OF that] r(4) that assms(1,2) dec
    by (intro verify_path_genuine [of path m ?sid "es_root_hash s"]) (auto simp: root_path_def es_auth_def)
  then have all: "\<forall>i \<in> set (concat paths). m i = Some (etree_page H ?sid ?n D i)" by auto
  have "agrees H ?sid ?n D m"
    unfolding agrees_def
  proof (intro allI impI)
    fix i page assume "m i = Some page"
    with dec [OF this] all paths show "i < ?n \<and> page = etree_page H ?sid ?n D i" by (auto simp: root_path_def)
  qed
  with r(5) all paths show ?thesis by blast
qed

lemma pages_to_update_genuine:
  assumes "es_auth H D s" and "no_second_preimage H (etree_inputs H (es_store_id s) (es_page_count s) D)"
    and "pages_to_update H ps paths s = (Inr m, s')"
  shows "(\<exists>t. s' = s\<lparr>es_cache := None, es_inner := t\<rparr>) \<and> agrees H (es_store_id s) (es_page_count s) D m"
proof -
  let ?s = "s\<lparr>es_cache := None\<rparr>"
  have auth: "es_auth H D ?s" using assms(1) by simp
  have read: "(\<exists>t. s' = ?s\<lparr>es_inner := t\<rparr>) \<and> agrees H (es_store_id s) (es_page_count s) D m"
    if "read_verified_paths H ps paths ?s = (Inr m, s')"
    using read_verified_paths_genuine [OF auth _ that] assms(2) by simp
  show ?thesis
  proof (cases "es_cache s")
    case None
    with assms(3) read show ?thesis by (simp add: pages_to_update_def comp_simps)
  next
    case (Some c)
    show ?thesis
    proof (cases "bc_root_hash c = es_root_hash s \<and> cache_covers_paths (bc_pages c) paths")
      case True
      with Some assms(3) have "m = bc_pages c" "s' = ?s" by (simp_all add: pages_to_update_def comp_simps)
      with True Some assms(1) show ?thesis by (auto simp: es_auth_def intro: exI [of _ "es_inner s"])
    next
      case False
      with Some assms(3) have "read_verified_paths H ps paths ?s = (Inr m, s')"
        by (simp add: pages_to_update_def comp_simps split: if_splits)
      with read show ?thesis by simp
    qed
  qed
qed

lemma es_auth_root:
  assumes "es_auth H D s" and "\<forall>e \<in> set entries. length (fst e) = length (snd e) \<and>
      (\<forall>p \<in> set (snd e). length p = es_logical_page_size s)"
    and "D' = apply_paths D entries"
  shows "es_auth H D' (s\<lparr>es_cache := None, es_inner := t,
    es_root_hash := etree_hash H (es_store_id s) (es_page_count s) D' 0\<rparr>)"
  using assms(1) apply_paths_lengths [OF assms(2)] by (simp add: es_auth_def assms(3))

text \<open>A write that succeeds, over any store, moves the trusted root to the updated pages.\<close>

lemma es_write_paths_genuine:
  assumes "es_auth H D s" and "no_second_preimage H (etree_inputs H (es_store_id s) (es_page_count s) D)"
    and "es_write_paths H ps paths pgs s = (Inr (), s')"
  shows "es_auth H (apply_paths D (zip paths pgs)) s' \<and> es_store_id s' = es_store_id s \<and>
    es_page_count s' = es_page_count s"
proof (cases "paths = []")
  case True
  with assms(3) have "s' = s" by (auto simp: es_write_paths_def comp_simps split: if_splits)
  with True assms(1) show ?thesis by (simp add: apply_paths_def)
next
  case False
  let ?sid = "es_store_id s" and ?n = "es_page_count s" and ?D = "apply_paths D (zip paths pgs)"
  from False assms(3) obtain m s1 ov s2 t where r: "length paths = length pgs"
    "pages_to_update H ps paths s = (Inr m, s1)" "write_path_loop H (zip paths pgs) (m, {}) s1 = (Inr ov, s2)"
    "s' = s2\<lparr>es_inner := t\<rparr>"
    by (auto simp: es_write_paths_def bnd_Inr_iff zoom_Inr_iff comp_simps Let_def split: if_splits)
  from pages_to_update_genuine [OF assms(1,2) r(2)] obtain t1 where
    s1: "s1 = s\<lparr>es_cache := None, es_inner := t1\<rparr>" and ag: "agrees H ?sid ?n D m" by blast
  have ag1: "agrees H (es_store_id s1) (es_page_count s1) D m" using s1 ag by simp
  have val: "\<forall>e \<in> set (zip paths pgs). valid_entry s1 m e" by (rule write_path_loop_Inr [OF r(3) ag1])
  have ne: "zip paths pgs \<noteq> []" using False r(1) by (cases paths; cases pgs) auto
  have "s2 = s1\<lparr>es_root_hash := etree_hash H ?sid ?n ?D 0\<rparr>"
    using write_path_loop_spec [OF ag1 val, of "{}"] r(3) ne s1 by simp
  then have "s' = s\<lparr>es_cache := None, es_inner := t, es_root_hash := etree_hash H ?sid ?n ?D 0\<rparr>"
    using r(4) s1 by simp
  moreover have "\<forall>e \<in> set (zip paths pgs). length (fst e) = length (snd e) \<and>
      (\<forall>p \<in> set (snd e). length p = es_logical_page_size s)"
    using val s1 by (auto simp: valid_entry_def)
  ultimately show ?thesis using es_auth_root [OF assms(1)] by simp
qed

text \<open>A read that succeeds, over any store, returns the genuine pages.\<close>

lemma es_read_paths_genuine:
  assumes "es_auth H D s" and "no_second_preimage H (etree_inputs H (es_store_id s) (es_page_count s) D)"
    and "es_read_paths H ps paths s = (Inr out, s')"
  shows "out = map (map D) paths \<and> es_auth H D s' \<and> es_store_id s' = es_store_id s \<and>
    es_page_count s' = es_page_count s"
proof -
  let ?get = "\<lambda>m page_idx. rbind (ok_or (m page_idx) (Panic ''verified path pages include every requested page''))
      (\<lambda>page. Inr (ep_logical page))"
  from assms(3) obtain m s1 where r: "read_verified_paths H ps paths s = (Inr m, s1)"
    "rmapM (rmapM (?get m)) paths = Inr out" "s' = s1\<lparr>es_cache := Some \<lparr>bc_root_hash = es_root_hash s1, bc_pages = m\<rparr>\<rparr>"
    by (auto simp: es_read_paths_def bnd_Inr_iff comp_simps)
  from read_verified_paths_genuine [OF assms(1,2) r(1)] obtain t where t: "s1 = s\<lparr>es_inner := t\<rparr>"
    "agrees H (es_store_id s) (es_page_count s) D m"
    "\<forall>i \<in> set (concat paths). m i = Some (etree_page H (es_store_id s) (es_page_count s) D i)" by blast
  have "rmapM (rmapM (?get m)) paths = Inr (map (map D) paths)"
    using t(3) by (intro rmapM_Inr) (auto simp: etree_page_def)
  with r(2,3) t(1,2) assms(1) show ?thesis by (simp add: es_auth_def)
qed

end

section \<open>Contract over an honest store\<close>

definition es_rep ::
  "(bytes \<Rightarrow> bytes) \<Rightarrow> 's page_store \<Rightarrow> ('s \<Rightarrow> bool) \<Rightarrow> ('s \<Rightarrow> nat \<rightharpoonup> bytes) \<Rightarrow> (nat \<Rightarrow> bytes) \<Rightarrow>
    's embedded_store \<Rightarrow> bool" where
  "es_rep H ps ok pages D s \<longleftrightarrow>
     es_auth H D s \<and> ok (es_inner s) \<and> es_page_count s = ps_page_count ps (es_inner s) \<and>
     es_physical_page_size s = ps_page_size ps (es_inner s) \<and>
     (\<forall>i < es_page_count s. pages (es_inner s) i =
        Some (page_bytes (etree_page H (es_store_id s) (es_page_count s) D i)))"

definition es_ok ::
  "(bytes \<Rightarrow> bytes) \<Rightarrow> 's page_store \<Rightarrow> ('s \<Rightarrow> bool) \<Rightarrow> ('s \<Rightarrow> nat \<rightharpoonup> bytes) \<Rightarrow> 's embedded_store \<Rightarrow> bool" where
  "es_ok H ps ok pages s \<longleftrightarrow> (\<exists>D. es_rep H ps ok pages D s)"

definition es_contents :: "('s \<Rightarrow> nat \<rightharpoonup> bytes) \<Rightarrow> 's embedded_store \<Rightarrow> nat \<rightharpoonup> bytes" where
  "es_contents pages s i = map_option (take (es_logical_page_size s)) (pages (es_inner s) i)"

locale embedded_over = sha256_spec H + page_store_spec ps ok pages
  for H and ps :: "'s page_store" and ok and pages
begin

lemma es_contents_rep:
  assumes "es_rep H ps ok pages D s"
  shows "es_contents pages s i = (if i < es_page_count s then Some (D i) else None)"
proof (cases "i < es_page_count s")
  case True
  with assms show ?thesis by (simp add: es_rep_def es_contents_def page_bytes_def etree_page_def es_auth_def)
next
  case False
  have "pages (es_inner s) i = None"
    using False assms page_index [of "es_inner s" i] by (cases "pages (es_inner s) i") (auto simp: es_rep_def)
  with False show ?thesis by (simp add: es_contents_def)
qed

text \<open>The pages a batch decodes from an honest store, whatever the trusted root is.\<close>

lemma read_verified_paths_run:
  assumes "ok (es_inner s)" and "\<And>i. length (D i) = es_logical_page_size s"
    and "\<And>i. i < es_page_count s \<Longrightarrow> pages (es_inner s) i =
      Some (page_bytes (etree_page H (es_store_id s) (es_page_count s) D i))"
    and "\<forall>path \<in> set paths. root_path (es_page_count s) path" and "paths \<noteq> []"
    and "m = (\<lambda>i. if i \<in> set (concat paths) then Some (etree_page H (es_store_id s) (es_page_count s) D i) else None)"
  shows "\<exists>t. read_verified_paths H ps paths s =
      bnd (citer (\<lambda>path. lift (verify_path_from_pages H path m (es_store_id s) (es_root_hash s))) paths)
        (\<lambda>_. ret m) (s\<lparr>es_inner := t\<rparr>) \<and>
    kept ok (ps_page_size ps) (ps_page_count ps) (es_inner s) t \<and> pages t = pages (es_inner s)"
proof -
  let ?sid = "es_store_id s" and ?n = "es_page_count s" and ?k = "es_logical_page_size s"
  let ?G = "etree_page H ?sid ?n D"
  let ?idxs = "sorted_list_of_set (set (concat paths))"
  have lt: "i < ?n" if "i \<in> set (concat paths)" for i using assms(4) that by (auto simp: root_path_def)
  then have pg: "pages (es_inner s) i = Some (page_bytes (?G i))" if "i \<in> set ?idxs" for i
    using that assms(3) by simp
  obtain t where t: "ps_read_pages ps ?idxs (es_inner s) = (Inr (map (\<lambda>i. page_bytes (?G i)) ?idxs), t)"
    "kept ok (ps_page_size ps) (ps_page_count ps) (es_inner s) t" "pages t = pages (es_inner s)"
    using read_pages [of "es_inner s" ?idxs "\<lambda>i. page_bytes (?G i)"] pg assms(1) by auto
  let ?dec = "map (\<lambda>i. (i, ?G i)) ?idxs"
  have dec: "rmapM (\<lambda>(i, physical). rbind (page_decode physical ?k) (\<lambda>page. Inr (i, page)))
      (zip xs (map (\<lambda>i. page_bytes (?G i)) xs)) = Inr (map (\<lambda>i. (i, ?G i)) xs)" for xs
    using assms(2) by (induction xs) (simp_all add: page_decode_bytes)
  have m: "Map.empty(map fst ?dec [\<mapsto>] map snd ?dec) = m"
  proof -
    have "m(xs [\<mapsto>] map ?G xs) = (\<lambda>i. if i \<in> set xs then Some (?G i) else m i)" for xs m
      by (induction xs arbitrary: m) (auto simp: fun_eq_iff)
    from this [of Map.empty ?idxs] show ?thesis using assms(6) by (simp add: comp_def)
  qed
  have "citer (\<lambda>path. lift (validate_path path ?n)) paths s = (Inr (), s)"
    using assms(4) by (simp add: citer_lift_Inr validate_path_iff)
  then have "read_verified_paths H ps paths s =
      bnd (citer (\<lambda>path. lift (verify_path_from_pages H path m ?sid (es_root_hash s))) paths)
        (\<lambda>_. ret m) (s\<lparr>es_inner := t\<rparr>)"
    using assms(5) t(1) dec [of ?idxs] m
    by (simp add: read_verified_paths_def bnd_gets_run bnd_lift_Inr_run bnd_Inr zoom_run Let_def del: set_concat)
  with t show ?thesis by blast
qed

lemma read_verified_paths_spec:
  assumes "es_rep H ps ok pages D s" and "\<forall>path \<in> set paths. root_path (es_page_count s) path"
  shows "\<exists>t. read_verified_paths H ps paths s =
      (Inr (\<lambda>i. if i \<in> set (concat paths) then Some (etree_page H (es_store_id s) (es_page_count s) D i) else None),
       s\<lparr>es_inner := t\<rparr>) \<and>
    kept ok (ps_page_size ps) (ps_page_count ps) (es_inner s) t \<and> pages t = pages (es_inner s)"
proof (cases "paths = []")
  case True
  with assms(1) show ?thesis
    by (auto simp: read_verified_paths_def comp_simps es_rep_def kept_refl intro!: exI [of _ "es_inner s"])
next
  case False
  let ?sid = "es_store_id s" and ?n = "es_page_count s"
  let ?m = "\<lambda>i. if i \<in> set (concat paths) then Some (etree_page H ?sid ?n D i) else None"
  obtain t where t: "read_verified_paths H ps paths s =
      bnd (citer (\<lambda>path. lift (verify_path_from_pages H path ?m ?sid (es_root_hash s))) paths)
        (\<lambda>_. ret ?m) (s\<lparr>es_inner := t\<rparr>)"
    "kept ok (ps_page_size ps) (ps_page_count ps) (es_inner s) t" "pages t = pages (es_inner s)"
    using read_verified_paths_run [OF _ _ _ assms(2) False refl, of D] assms(1)
    by (auto simp: es_rep_def es_auth_def)
  have "verify_path_from_pages H path ?m ?sid (es_root_hash s) = Inr ()" if "path \<in> set paths" for path
  proof (rule verify_path_honest [where n = ?n])
    show "\<forall>i \<in> set path. i < ?n \<and> ?m i = Some (etree_page H ?sid ?n D i)"
      using that assms(2) by (auto simp: root_path_def)
    show "successively is_child path" "path \<noteq> [] \<Longrightarrow> es_root_hash s = etree_hash H ?sid ?n D (hd path)"
      using assms that by (auto simp: root_path_def es_rep_def es_auth_def)
  qed
  with t show ?thesis
    by (auto simp: bnd_Inr ret_run citer_lift_Inr [THEN iffD2])
qed

lemma es_read_paths_spec:
  assumes "es_rep H ps ok pages D s" and "\<forall>path \<in> set paths. root_path (es_page_count s) path"
  shows "\<exists>s'. es_read_paths H ps paths s = (Inr (map (map D) paths), s') \<and>
    es_rep H ps ok pages D s' \<and> es_logical_page_size s' = es_logical_page_size s \<and> es_page_count s' = es_page_count s"
proof -
  let ?m = "\<lambda>i. if i \<in> set (concat paths)
    then Some (etree_page H (es_store_id s) (es_page_count s) D i) else None"
  obtain t where t: "read_verified_paths H ps paths s = (Inr ?m, s\<lparr>es_inner := t\<rparr>)"
    "kept ok (ps_page_size ps) (ps_page_count ps) (es_inner s) t" "pages t = pages (es_inner s)"
    using read_verified_paths_spec [OF assms] by blast
  let ?s' = "s\<lparr>es_inner := t, es_cache := Some \<lparr>bc_root_hash = es_root_hash s, bc_pages = ?m\<rparr>\<rparr>"
  have "rmapM (rmapM (\<lambda>page_idx. rbind (ok_or (?m page_idx)
      (Panic ''verified path pages include every requested page'')) (\<lambda>page. Inr (ep_logical page)))) paths =
      Inr (map (map D) paths)"
    by (intro rmapM_Inr) (auto simp: etree_page_def)
  then have "es_read_paths H ps paths s = (Inr (map (map D) paths), ?s')"
    using t(1) by (simp add: es_read_paths_def comp_simps)
  moreover have "agrees H (es_store_id s) (es_page_count s) D ?m"
    using assms(2) by (auto simp: agrees_def root_path_def)
  then have "es_rep H ps ok pages D ?s'"
    using assms(1) t(2,3) by (simp add: es_rep_def es_auth_def kept_def)
  ultimately show ?thesis by (auto intro!: exI [of _ ?s'])
qed

lemma pages_to_update_spec:
  assumes "es_rep H ps ok pages D s" and "\<forall>path \<in> set paths. root_path (es_page_count s) path"
  shows "\<exists>m t. pages_to_update H ps paths s = (Inr m, s\<lparr>es_cache := None, es_inner := t\<rparr>) \<and>
    agrees H (es_store_id s) (es_page_count s) D m \<and> (\<forall>i \<in> set (concat paths). m i \<noteq> None) \<and>
    kept ok (ps_page_size ps) (ps_page_count ps) (es_inner s) t \<and> pages t = pages (es_inner s)"
proof -
  let ?s = "s\<lparr>es_cache := None\<rparr>"
  let ?m = "\<lambda>i. if i \<in> set (concat paths)
    then Some (etree_page H (es_store_id s) (es_page_count s) D i) else None"
  have "es_rep H ps ok pages D ?s" using assms(1) by (simp add: es_rep_def)
  from read_verified_paths_spec [OF this] assms(2) obtain t where t:
    "read_verified_paths H ps paths ?s = (Inr ?m, ?s\<lparr>es_inner := t\<rparr>)"
    "kept ok (ps_page_size ps) (ps_page_count ps) (es_inner s) t" "pages t = pages (es_inner s)"
    by (auto cong: if_cong)
  have ag: "agrees H (es_store_id s) (es_page_count s) D ?m"
    using assms(2) by (auto simp: agrees_def root_path_def)
  have read: ?thesis if "pages_to_update H ps paths s = read_verified_paths H ps paths ?s"
    using that t ag by (intro exI [of _ ?m] exI [of _ t]) auto
  show ?thesis
  proof (cases "es_cache s")
    case None
    then show ?thesis by (intro read) (simp add: pages_to_update_def comp_simps)
  next
    case (Some c)
    show ?thesis
    proof (cases "bc_root_hash c = es_root_hash s \<and> cache_covers_paths (bc_pages c) paths")
      case True
      then have "pages_to_update H ps paths s = (Inr (bc_pages c), s\<lparr>es_cache := None, es_inner := es_inner s\<rparr>)"
        using Some by (simp add: pages_to_update_def comp_simps)
      then show ?thesis
        using True Some assms(1)
        by (intro exI [of _ "bc_pages c"] exI [of _ "es_inner s"])
          (auto simp: es_rep_def es_auth_def cache_covers_paths_def list_all_iff kept_refl)
    next
      case False
      then show ?thesis using Some by (intro read) (auto simp: pages_to_update_def comp_simps)
    qed
  qed
qed

lemma es_write_paths_spec:
  assumes rep: "es_rep H ps ok pages D s" and paths: "\<forall>path \<in> set paths. root_path (es_page_count s) path"
    and len: "\<forall>i \<in> set (concat paths). length (f i) = es_logical_page_size s"
    and D': "D' = (\<lambda>i. if i \<in> set (concat paths) then f i else D i)"
  shows "\<exists>s'. es_write_paths H ps paths (map (map f) paths) s = (Inr (), s') \<and>
    es_rep H ps ok pages D' s' \<and> es_logical_page_size s' = es_logical_page_size s \<and> es_page_count s' = es_page_count s"
proof (cases "paths = []")
  case True
  then show ?thesis using rep D' by (simp add: es_write_paths_def comp_simps)
next
  case False
  let ?sid = "es_store_id s" and ?n = "es_page_count s" and ?k = "es_logical_page_size s"
  let ?es = "zip paths (map (map f) paths)"
  have new: "apply_paths D ?es = D'" using apply_paths_map [of D paths f] D' by (auto simp: fun_eq_iff)
  have es: "fst e \<in> set paths \<and> snd e = map f (fst e)" if "e \<in> set ?es" for e
    using that by (auto simp: set_zip)
  have fst_es: "(\<Union>e \<in> set ?es. set (fst e)) = set (concat paths)"
  proof -
    have "(\<Union>e \<in> set ?es. set (fst e)) = (\<Union>path \<in> set (map fst ?es). set path)" by (simp only: set_map UN_simps)
    also have "map fst ?es = paths" by simp
    finally show ?thesis by simp
  qed
  obtain m t where m: "pages_to_update H ps paths s = (Inr m, s\<lparr>es_cache := None, es_inner := t\<rparr>)"
    "agrees H ?sid ?n D m" "\<forall>i \<in> set (concat paths). m i \<noteq> None"
    "kept ok (ps_page_size ps) (ps_page_count ps) (es_inner s) t" "pages t = pages (es_inner s)"
    using pages_to_update_spec [OF rep paths] by blast
  let ?s1 = "s\<lparr>es_cache := None, es_inner := t\<rparr>"
  let ?m' = "\<lambda>i. if m i = None then None else Some (etree_page H ?sid ?n D' i)"
  let ?s2 = "?s1\<lparr>es_root_hash := etree_hash H ?sid ?n D' 0\<rparr>"
  have val: "\<forall>e \<in> set ?es. valid_entry ?s1 m e"
    using es paths len m(3) by (auto simp: valid_entry_def)
  have "?es \<noteq> []" using False by (cases paths) auto
  then have loop: "write_path_loop H ?es (m, {}) ?s1 = (Inr (?m', set (concat paths)), ?s2)"
    using write_path_loop_spec [OF _ val, of D "{}"] m(2) new fst_es by (simp cong: if_cong)
  have root: "es_auth H D' (s\<lparr>es_cache := None, es_inner := u, es_root_hash := etree_hash H ?sid ?n D' 0\<rparr>)" for u
    using es len rep by (intro es_auth_root [of D s ?es]) (auto simp: es_rep_def new)
  then have lenD: "length (D' i) = ?k" for i by (simp add: es_auth_def)
  let ?idxs = "sorted_list_of_set (set (concat paths))"
  let ?g = "\<lambda>i. page_bytes (etree_page H ?sid ?n D' i)"
  have phys: "es_physical_page_size s = physical_page_size_for ?k" "es_physical_page_size s = ps_page_size ps (es_inner s)"
    using rep by (simp_all add: es_rep_def es_auth_def)
  have enc: "rmapM (\<lambda>page_idx. rbind (ok_or (?m' page_idx) (Panic ''dirty page exists in overlay''))
      (\<lambda>page. page_encode page (replicate (es_physical_page_size s) 0) ?k)) ?idxs = Inr (map ?g ?idxs)"
  proof (rule rmapM_Inr)
    fix i assume "i \<in> set ?idxs"
    then have "i \<in> set (concat paths)" by (simp only: page_indices_sorted)
    with m(3) have "m i \<noteq> None" by blast
    then show "rbind (ok_or (?m' i) (Panic ''dirty page exists in overlay''))
      (\<lambda>page. page_encode page (replicate (es_physical_page_size s) 0) ?k) = Inr (?g i)"
      using lenD phys(1) by (simp add: page_encode_bytes)
  qed
  have glen: "length (?g i) = ps_page_size ps t" for i
    using lenD phys keptD(2) [OF m(4)] length_page_bytes [of ?k] by simp
  obtain u where u: "ps_write_pages ps ?idxs (map ?g ?idxs) t = (Inr (), u)"
    "kept ok (ps_page_size ps) (ps_page_count ps) t u" "pages u = (pages t)(?idxs [\<mapsto>] map ?g ?idxs)"
    using write_pages [of t ?idxs "map ?g ?idxs"] glen keptD [OF m(4)] paths rep
    by (auto simp: es_rep_def root_path_def)
  let ?s' = "s\<lparr>es_cache := None, es_inner := u, es_root_hash := etree_hash H ?sid ?n D' 0\<rparr>"
  have run: "es_write_paths H ps paths (map (map f) paths) s = (Inr (), ?s')"
    using False m(1) loop enc u(1) by (simp add: es_write_paths_def comp_simps Let_def del: set_concat)
  have "pages u i = Some (?g i)" if "i < ?n" for i
  proof (cases "i \<in> set (concat paths)")
    case True
    then show ?thesis using u(3) by (simp add: map_upds_map overwrite_def del: set_concat)
  next
    case False
    have "\<forall>e \<in> set ?es. root_path ?n (fst e) \<and> length (fst e) = length (snd e)" using es paths by auto
    from apply_paths_off [OF this, of i ?sid D] False fst_es new
    have "etree_page H ?sid ?n D' i = etree_page H ?sid ?n D i" by simp
    moreover have "pages u i = pages (es_inner s) i"
      using False u(3) m(5) by (simp add: map_upds_map overwrite_def del: set_concat)
    ultimately show ?thesis using rep that by (simp add: es_rep_def)
  qed
  then have "es_rep H ps ok pages D' ?s'"
    using root rep keptD [OF m(4)] keptD [OF u(2)] by (simp add: es_rep_def)
  with run show ?thesis by (intro exI [of _ ?s']) simp
qed

lemma es_contents_update:
  assumes "es_rep H ps ok pages D s" and "es_rep H ps ok pages D' s'" and "es_page_count s' = es_page_count s"
    and "D' = (\<lambda>i. if i \<in> set idxs then f i else D i)" and "\<forall>i \<in> set idxs. i < es_page_count s"
  shows "es_contents pages s' = overwrite (es_contents pages s) f idxs"
  using es_contents_rep [OF assms(1)] es_contents_rep [OF assms(2)] assms(3-5)
  by (auto simp: fun_eq_iff overwrite_def)

lemma es_read_paths_ok:
  assumes "es_ok H ps ok pages s" and "\<And>path. path \<in> set paths \<Longrightarrow> root_path (es_page_count s) path"
    and "\<And>i. i \<in> set (concat paths) \<Longrightarrow> es_contents pages s i = Some (f i)"
  shows "\<exists>s'. es_read_paths H ps paths s = (Inr (map (map f) paths), s') \<and>
    kept (es_ok H ps ok pages) es_logical_page_size es_page_count s s' \<and> es_contents pages s' = es_contents pages s"
proof -
  obtain D where D: "es_rep H ps ok pages D s" using assms(1) by (auto simp: es_ok_def)
  have "D i = f i" if "i \<in> set (concat paths)" for i
    using assms(3) [OF that] es_contents_rep [OF D, of i] by (simp split: if_splits)
  then have "map (map D) paths = map (map f) paths" by auto
  with es_read_paths_spec [OF D, of paths] assms(2) obtain s' where s':
    "es_read_paths H ps paths s = (Inr (map (map f) paths), s')" "es_rep H ps ok pages D s'"
    "es_logical_page_size s' = es_logical_page_size s" "es_page_count s' = es_page_count s" by auto
  then have "es_contents pages s' = es_contents pages s"
    using es_contents_rep [OF D] es_contents_rep [OF s'(2)] by (auto simp: fun_eq_iff)
  with s' show ?thesis by (auto simp: kept_def es_ok_def)
qed

lemma es_write_paths_ok:
  assumes "es_ok H ps ok pages s" and "\<And>path. path \<in> set paths \<Longrightarrow> root_path (es_page_count s) path"
    and "\<And>i. i \<in> set (concat paths) \<Longrightarrow> length (f i) = es_logical_page_size s"
  shows "\<exists>s'. es_write_paths H ps paths (map (map f) paths) s = (Inr (), s') \<and>
    kept (es_ok H ps ok pages) es_logical_page_size es_page_count s s' \<and>
    es_contents pages s' = overwrite (es_contents pages s) f (concat paths)"
proof -
  obtain D where D: "es_rep H ps ok pages D s" using assms(1) by (auto simp: es_ok_def)
  have 1: "\<forall>path \<in> set paths. root_path (es_page_count s) path" using assms(2) by blast
  have 2: "\<forall>i \<in> set (concat paths). length (f i) = es_logical_page_size s" using assms(3) by blast
  have 3: "\<forall>i \<in> set (concat paths). i < es_page_count s" using assms(2) by (auto simp: root_path_def)
  from es_write_paths_spec [OF D 1 2 refl] obtain s' where s':
    "es_write_paths H ps paths (map (map f) paths) s = (Inr (), s')"
    "es_rep H ps ok pages (\<lambda>i. if i \<in> set (concat paths) then f i else D i) s'"
    "es_logical_page_size s' = es_logical_page_size s" "es_page_count s' = es_page_count s" by blast
  with es_contents_update [OF D s'(2,4) refl 3] show ?thesis by (auto simp: kept_def es_ok_def)
qed

lemma embedded_store_spec:
  "path_store_spec (embedded_ops H ps) (es_ok H ps ok pages) (es_contents pages)"
proof unfold_locales
  fix s i p
  assume s: "es_ok H ps ok pages s" "es_contents pages s i = Some p"
  then obtain D where D: "es_rep H ps ok pages D s" by (auto simp: es_ok_def)
  with s(2) show "i < pp_page_count (embedded_ops H ps) s" "length p = pp_page_size (embedded_ops H ps) s"
    using es_contents_rep [OF D] by (auto simp: embedded_ops_def es_rep_def es_auth_def split: if_splits)
next
  fix s path and f :: "nat \<Rightarrow> bytes"
  assume "es_ok H ps ok pages s" "root_path (pp_page_count (embedded_ops H ps) s) path"
    "\<And>i. i \<in> set path \<Longrightarrow> es_contents pages s i = Some (f i)"
  then show "\<exists>s'. pp_read_path_pages (embedded_ops H ps) path s = (Inr (map f path), s') \<and>
      kept (es_ok H ps ok pages) (pp_page_size (embedded_ops H ps)) (pp_page_count (embedded_ops H ps)) s s' \<and>
      es_contents pages s' = es_contents pages s"
    using es_read_paths_ok [of s "[path]" f] by (auto simp: embedded_ops_def es_read_path_def comp_simps)
next
  fix s path and f :: "nat \<Rightarrow> bytes"
  assume "es_ok H ps ok pages s" "root_path (pp_page_count (embedded_ops H ps) s) path"
    "\<And>i. i \<in> set path \<Longrightarrow> length (f i) = pp_page_size (embedded_ops H ps) s"
  then show "\<exists>s'. pp_write_path_pages (embedded_ops H ps) path (map f path) s = (Inr (), s') \<and>
      kept (es_ok H ps ok pages) (pp_page_size (embedded_ops H ps)) (pp_page_count (embedded_ops H ps)) s s' \<and>
      es_contents pages s' = overwrite (es_contents pages s) f path"
    using es_write_paths_ok [of s "[path]" f] by (auto simp: embedded_ops_def es_write_path_def)
next
  fix s paths and f :: "nat \<Rightarrow> bytes"
  assume "es_ok H ps ok pages s"
    "\<And>path. path \<in> set paths \<Longrightarrow> root_path (pp_page_count (embedded_ops H ps) s) path"
    "\<And>i. i \<in> set (concat paths) \<Longrightarrow> es_contents pages s i = Some (f i)"
  then show "\<exists>s'. pp_read_paths_pages (embedded_ops H ps) paths s = (Inr (map (map f) paths), s') \<and>
      kept (es_ok H ps ok pages) (pp_page_size (embedded_ops H ps)) (pp_page_count (embedded_ops H ps)) s s' \<and>
      es_contents pages s' = es_contents pages s"
    using es_read_paths_ok [of s paths f] by (simp add: embedded_ops_def)
next
  fix s paths and f :: "nat \<Rightarrow> bytes"
  assume "es_ok H ps ok pages s"
    "\<And>path. path \<in> set paths \<Longrightarrow> root_path (pp_page_count (embedded_ops H ps) s) path"
    "\<And>i. i \<in> set (concat paths) \<Longrightarrow> length (f i) = pp_page_size (embedded_ops H ps) s"
  then show "\<exists>s'. pp_write_paths_pages (embedded_ops H ps) paths (map (map f) paths) s = (Inr (), s') \<and>
      kept (es_ok H ps ok pages) (pp_page_size (embedded_ops H ps)) (pp_page_count (embedded_ops H ps)) s s' \<and>
      es_contents pages s' = overwrite (es_contents pages s) f (concat paths)"
    using es_write_paths_ok [of s paths f] by (simp add: embedded_ops_def)
next
  fix s assume s: "es_ok H ps ok pages s"
  then obtain D where D: "es_rep H ps ok pages D s" by (auto simp: es_ok_def)
  then obtain t where t: "ps_flush ps (es_inner s) = (Inr (), t)"
    "kept ok (ps_page_size ps) (ps_page_count ps) (es_inner s) t" "pages t = pages (es_inner s)"
    using flush [of "es_inner s"] by (auto simp: es_rep_def)
  then have "es_rep H ps ok pages D (s\<lparr>es_inner := t\<rparr>)" using D by (simp add: es_rep_def kept_def)
  with t show "\<exists>s'. pp_flush (embedded_ops H ps) s = (Inr (), s') \<and>
      kept (es_ok H ps ok pages) (pp_page_size (embedded_ops H ps)) (pp_page_count (embedded_ops H ps)) s s' \<and>
      es_contents pages s' = es_contents pages s"
    by (auto simp: embedded_ops_def comp_simps kept_def es_ok_def es_contents_def fun_eq_iff)
qed

end

end
