(* ===== verification/Embedded_Theorems.thy ===== *)
theory Embedded_Theorems
  imports Embedded_Auth
begin

text \<open>
  What \<open>EmbeddedTreePageStore\<close> promises: a build authenticates exactly the logical pages it found,
  its trusted state reopens it, reads over a dishonest storage return the pages last written, and
  the one thing it does not promise: an error in the middle of a batch write.
\<close>

section \<open>Building\<close>

context embedded_over
begin

lemma hash_pages_loop:
  assumes "length pgs = n" and "length hs = n" and "j \<le> n" and "\<And>i. i < n \<Longrightarrow> ep_logical (pgs ! i) = D i"
  shows "\<exists>pgs' hs'. fold (hash_page_at H sid) (rev [j..<n]) (pgs, hs) = (pgs', hs') \<and>
    length pgs' = n \<and> length hs' = n \<and> (\<forall>i < j. pgs' ! i = pgs ! i) \<and>
    (\<forall>i. j \<le> i \<and> i < n \<longrightarrow> pgs' ! i = etree_page H sid n D i \<and> hs' ! i = etree_hash H sid n D i)"
  using assms(3)
proof (induction "n - j" arbitrary: j)
  case 0
  then show ?case using assms(1,2) by auto
next
  case (Suc d)
  have ih: "d = n - Suc j" "Suc j \<le> n" using Suc.hyps(2) by simp_all
  obtain pgs1 hs1 where r: "fold (hash_page_at H sid) (rev [Suc j..<n]) (pgs, hs) = (pgs1, hs1)"
    "length pgs1 = n" "length hs1 = n" "\<forall>i < Suc j. pgs1 ! i = pgs ! i"
    "\<forall>i. Suc j \<le> i \<and> i < n \<longrightarrow> pgs1 ! i = etree_page H sid n D i \<and> hs1 ! i = etree_hash H sid n D i"
    using Suc.hyps(1) [OF ih] by (elim exE conjE)
  have j: "j < n" using Suc.hyps(2) by simp
  have child: "child_hash hs1 c = etree_hash H sid n D c" if "j < c" for c
    using that r(3,5) by (simp add: child_hash_def etree_hash_beyond)
  have "(pgs1 ! j)\<lparr>ep_left_hash := child_hash hs1 (left_child j), ep_right_hash := child_hash hs1 (right_child j)\<rparr> =
      etree_page H sid n D j"
    using r(4) assms(4) [OF j] child by (simp add: etree_page_def left_child_def right_child_def)
  then have step: "hash_page_at H sid j (pgs1, hs1) =
      (pgs1[j := etree_page H sid n D j], hs1[j := etree_hash H sid n D j])"
    using etree_hash_page [OF j] by (simp add: hash_page_at_def Let_def)
  have "fold (hash_page_at H sid) (rev [j..<n]) (pgs, hs) = hash_page_at H sid j (pgs1, hs1)"
    using j r(1) by (simp add: upt_conv_Cons)
  with step r j show ?case by (auto simp: nth_list_update)
qed

lemma write_encoded_pages:
  assumes "ok t" and "\<forall>(i, page) \<in> set l. i < ps_page_count ps t \<and> page_ok k page"
    and "ps_page_size ps t = physical_page_size_for k"
  shows "\<exists>t'. citer (\<lambda>(i, page). bnd (lift (page_encode page (replicate (physical_page_size_for k) 0) k))
      (ps_write_page ps i)) l t = (Inr (), t') \<and>
    kept ok (ps_page_size ps) (ps_page_count ps) t t' \<and> pages t' = (pages t)(map fst l [\<mapsto>] map (\<lambda>x. page_bytes (snd x)) l)"
  using assms
proof (induction l arbitrary: t)
  case Nil
  then show ?case by (simp add: comp_simps kept_refl)
next
  case (Cons x l)
  obtain i page where x: "x = (i, page)" by (cases x)
  have page: "page_ok k page" "i < ps_page_count ps t" using Cons.prems(2) x by auto
  then obtain t1 where t1: "ps_write_page ps i (page_bytes page) t = (Inr (), t1)"
    "kept ok (ps_page_size ps) (ps_page_count ps) t t1" "pages t1 = (pages t)(i \<mapsto> page_bytes page)"
    using write_page [OF Cons.prems(1) page(2), of "page_bytes page"] Cons.prems(3) length_page_bytes [OF page(1)] by auto
  have enc: "page_encode page (replicate (physical_page_size_for k) 0) k = Inr (page_bytes page)"
    using page(1) by (simp add: page_encode_bytes)
  obtain t2 where t2: "citer (\<lambda>(i, page). bnd (lift (page_encode page (replicate (physical_page_size_for k) 0) k))
      (ps_write_page ps i)) l t1 = (Inr (), t2)" "kept ok (ps_page_size ps) (ps_page_count ps) t1 t2"
    "pages t2 = (pages t1)(map fst l [\<mapsto>] map (\<lambda>x. page_bytes (snd x)) l)"
    using Cons.IH [of t1] Cons.prems keptD [OF t1(2)] by auto
  have "(\<lambda>(i, page). bnd (lift (page_encode page (replicate (physical_page_size_for k) 0) k))
      (ps_write_page ps i)) x t = (Inr (), t1)"
    using x t1(1) enc by (simp add: bnd_lift_Inr_run)
  with t1 t2 x kept_trans [OF t1(2) t2(2)] show ?case by (simp add: bnd_Inr)
qed

definition decoded :: "nat \<Rightarrow> bytes \<Rightarrow> embedded_page" where
  "decoded k physical = \<lparr>ep_logical = take k physical, ep_left_hash = slice k (k + 32) physical,
     ep_right_hash = slice (k + 32) (k + 32 + 32) physical\<rparr>"

lemma page_decode_decoded: "length physical = physical_page_size_for k \<Longrightarrow> page_decode physical k = Inr (decoded k physical)"
  by (simp add: page_decode_def decoded_def physical_page_size_for_def auth_bytes slice_def Let_def)

lemma read_decoded_pages:
  assumes "ok u" and "ps_page_size ps u = physical_page_size_for k" and "\<forall>i \<in> set xs. pages u i = Some (P i)"
  shows "\<exists>t. cmapM (\<lambda>i. bnd (ps_read_page ps i (physical_page_size_for k)) (\<lambda>physical. lift (page_decode physical k))) xs u =
      (Inr (map (\<lambda>i. decoded k (P i)) xs), t) \<and>
    kept ok (ps_page_size ps) (ps_page_count ps) u t \<and> pages t = pages u"
  using assms
proof (induction xs arbitrary: u)
  case Nil
  then show ?case by (simp add: comp_simps kept_refl)
next
  case (Cons i xs)
  have i: "pages u i = Some (P i)" using Cons.prems(3) by simp
  obtain t1 where t1: "ps_read_page ps i (physical_page_size_for k) u = (Inr (P i), t1)"
    "kept ok (ps_page_size ps) (ps_page_count ps) u t1" "pages t1 = pages u"
    using read_page [OF Cons.prems(1) i] Cons.prems(2) by auto
  have "page_decode (P i) k = Inr (decoded k (P i))"
    using page_length [OF Cons.prems(1) i] Cons.prems(2) by (intro page_decode_decoded) simp
  moreover obtain t2 where "cmapM (\<lambda>i. bnd (ps_read_page ps i (physical_page_size_for k))
      (\<lambda>physical. lift (page_decode physical k))) xs t1 = (Inr (map (\<lambda>i. decoded k (P i)) xs), t2)"
    "kept ok (ps_page_size ps) (ps_page_count ps) t1 t2" "pages t2 = pages t1"
    using Cons.IH [of t1] Cons.prems t1(3) keptD [OF t1(2)] by auto
  moreover have "bnd (ps_read_page ps i (physical_page_size_for k)) (\<lambda>physical. lift (page_decode physical k)) u =
      (Inr (decoded k (P i)), t1)"
    using t1(1) calculation(1) by (simp add: bnd_Inr lift_run)
  ultimately show ?case using t1 by (auto simp: bnd_Inr ret_run intro: kept_trans)
qed

lemma embedded_build_spec:
  assumes "ok inner" and "0 < k" and "ps_page_size ps inner = physical_page_size_for k" and "0 < ps_page_count ps inner"
    and "\<And>i. i < ps_page_count ps inner \<Longrightarrow> pages inner i \<noteq> None"
    and "D = (\<lambda>i. if i < ps_page_count ps inner then take k (the (pages inner i)) else replicate k 0)"
  shows "\<exists>s. embedded_build H ps inner sid k = Inr s \<and> es_rep H ps ok pages D s \<and>
    es_page_count s = ps_page_count ps inner \<and> es_logical_page_size s = k \<and> es_store_id s = sid"
proof -
  let ?n = "ps_page_count ps inner" and ?K = "physical_page_size_for k"
  let ?G = "etree_page H sid ?n D"
  define P where "P i = the (pages inner i)" for i
  have P: "pages inner i = Some (P i)" "length (P i) = ?K" if "i < ?n" for i
    using assms(5) [OF that] page_length [OF assms(1), of i "P i"] assms(3) by (auto simp: P_def)
  have lenD: "length (D i) = k" for i
    using P(2) [of i] assms(6) by (auto simp: P_def physical_page_size_for_def)
  obtain t where t: "cmapM (\<lambda>i. bnd (ps_read_page ps i ?K) (\<lambda>physical. lift (page_decode physical k))) [0..<?n] inner =
      (Inr (map (\<lambda>i. decoded k (P i)) [0..<?n]), t)" "kept ok (ps_page_size ps) (ps_page_count ps) inner t"
    "pages t = pages inner"
    using read_decoded_pages [OF assms(1,3), of "[0..<?n]" P] P(1) by auto
  obtain pgs hs where h: "fold (hash_page_at H sid) (rev [0..<?n]) (map (\<lambda>i. decoded k (P i)) [0..<?n], replicate ?n zero_hash) = (pgs, hs)"
    "length pgs = ?n" "length hs = ?n" "\<forall>i < ?n. pgs ! i = ?G i \<and> hs ! i = etree_hash H sid ?n D i"
    using hash_pages_loop [of "map (\<lambda>i. decoded k (P i)) [0..<?n]" ?n "replicate ?n zero_hash" 0 D sid] assms(6)
    by (auto simp: decoded_def P_def)
  have pgs: "pgs = map ?G [0..<?n]" using h(2,4) by (auto intro: nth_equalityI)
  let ?l = "zip [0..<?n] pgs"
  have "\<forall>(i, page) \<in> set ?l. i < ps_page_count ps t \<and> page_ok k page"
    using pgs lenD keptD(3) [OF t(2)] by (auto simp: set_zip)
  then obtain u where u: "citer (\<lambda>(i, page). bnd (lift (page_encode page (replicate ?K 0) k)) (ps_write_page ps i)) ?l t = (Inr (), u)"
    "kept ok (ps_page_size ps) (ps_page_count ps) t u" "pages u = (pages t)(map fst ?l [\<mapsto>] map (\<lambda>x. page_bytes (snd x)) ?l)"
    using write_encoded_pages [of t ?l k] keptD [OF t(2)] assms(3) by auto
  let ?s = "\<lparr>es_inner = u, es_store_id = sid, es_page_count = ?n, es_logical_page_size = k,
    es_physical_page_size = ?K, es_root_hash = hs ! 0, es_cache = None\<rparr>"
  have run: "embedded_build H ps inner sid k = Inr ?s"
    using assms(2-4) t(1) h(1,2) u(1)
    by (simp add: embedded_build_def validate_dimensions_def Let_def enumerate_eq_zip)
  have "map fst ?l = [0..<?n]" "map (\<lambda>x. page_bytes (snd x)) ?l = map (\<lambda>i. page_bytes (?G i)) [0..<?n]"
    using pgs by (simp_all add: zip_map2 comp_def split_beta map_zip_map2 zip_same_conv_map)
  then have "pages u i = Some (page_bytes (?G i))" if "i < ?n" for i
    using u(3) that by (simp add: map_upds_map overwrite_def)
  moreover have "es_auth H D ?s"
    using assms(2,4) lenD h(4) by (simp add: es_auth_def)
  ultimately have "es_rep H ps ok pages D ?s"
    using keptD [OF t(2)] keptD [OF u(2)] assms(3) by (simp add: es_rep_def)
  with run show ?thesis by (intro exI [of _ ?s]) simp
qed

end

lemma etree_hash_cong:
  assumes "\<And>j. j < n \<Longrightarrow> D j = D' j"
  shows "etree_hash H sid n D i = etree_hash H sid n D' i"
  using assms
proof (induction H sid n D i rule: etree_hash.induct)
  case (1 H sid n D i)
  then show ?case by (subst (1 2) etree_hash.simps) auto
qed

text \<open>
  C23. Building the embedded tree over any readable store of pages with room for two hashes succeeds:
  the result shows exactly the logical part of every page, and its root is the hash of the
  tree over those logical pages.
\<close>

theorem embedded_build_correct:
  assumes "sha256_spec H" and "page_store_spec ps ok pages" and "ok inner" and "0 < k"
    and "ps_page_size ps inner = k + 64" and "0 < ps_page_count ps inner"
    and "\<forall>i < ps_page_count ps inner. pages inner i \<noteq> None"
  shows "\<exists>s. embedded_build H ps inner sid k = Inr s \<and> es_ok H ps ok pages s \<and>
    es_contents pages s = (\<lambda>i. map_option (take k) (pages inner i)) \<and>
    es_root_hash s = etree_hash H sid (ps_page_count ps inner) (\<lambda>i. take k (the (pages inner i))) 0"
proof -
  have over: "embedded_over H ps ok pages" using assms(1,2) by (simp add: embedded_over_def)
  define D where "D = (\<lambda>i. if i < ps_page_count ps inner then take k (the (pages inner i)) else replicate k 0)"
  obtain s where s: "embedded_build H ps inner sid k = Inr s" "es_rep H ps ok pages D s"
    "es_page_count s = ps_page_count ps inner" "es_logical_page_size s = k" "es_store_id s = sid"
    using embedded_over.embedded_build_spec [OF over assms(3,4) _ assms(6) _ D_def, of sid] assms(5,7)
    by (auto simp: physical_page_size_for_def auth_bytes)
  have "es_contents pages s i = map_option (take k) (pages inner i)" for i
  proof (cases "i < ps_page_count ps inner")
    case True
    then show ?thesis using embedded_over.es_contents_rep [OF over s(2), of i] s(3) assms(7) by (auto simp: D_def)
  next
    case False
    then have "pages inner i = None"
      using page_io.page_index [of "ps_page_size ps" "ps_page_count ps" "ps_read_page ps" "ps_write_page ps" ok pages inner i]
        assms(2,3) by (cases "pages inner i") (auto simp: page_store_spec_def)
    then show ?thesis using False embedded_over.es_contents_rep [OF over s(2), of i] s(3) by simp
  qed
  moreover have "es_root_hash s = etree_hash H sid (ps_page_count ps inner) D 0"
    using s by (simp add: es_rep_def es_auth_def)
  moreover have "etree_hash H sid (ps_page_count ps inner) D 0 =
      etree_hash H sid (ps_page_count ps inner) (\<lambda>i. take k (the (pages inner i))) 0"
    by (rule etree_hash_cong) (simp add: D_def)
  ultimately show ?thesis using s(1,2) by (auto simp: es_ok_def fun_eq_iff)
qed

text \<open>The examples: one or two pages of one logical byte.\<close>

interpretation embedded_mem: embedded_over "table_hash qs" mem_store_ops mem_ok mem_contents for qs
  by unfold_locales

interpretation embedded_mem_store: path_store_spec "embedded_ops (table_hash qs) mem_store_ops"
  "es_ok (table_hash qs) mem_store_ops mem_ok mem_contents" "es_contents mem_contents" for qs
  by (rule embedded_mem.embedded_store_spec)

definition one_page :: "u8 \<Rightarrow> mem_store" where
  "one_page a = \<lparr>mem_page_size = 65, mem_pages = a # replicate 64 0\<rparr>"

lemma one_page_simps [simp]:
  "mem_page_size (one_page a) = 65" "mem_page_count (one_page a) = 1" "mem_ok (one_page a)"
  "mem_contents (one_page a) i = (if i = 0 then Some (a # replicate 64 0) else None)"
  by (simp_all add: one_page_def mem_page_count_def mem_ok_def mem_contents_def slice_def)

theorem embedded_build_correct_witness:
  "\<exists>s. embedded_build (table_hash []) mem_store_ops (one_page 7) [] 1 = Inr s \<and>
    es_contents mem_contents s = (\<lambda>i. map_option (take 1) (mem_contents (one_page 7) i))"
  using embedded_build_correct [OF table_hash.sha256_spec_axioms mem.page_store_spec_axioms, of "one_page 7" 1 "[]" "[]"]
  by (auto simp: mem_store_ops_def)

text \<open>
  The trusted state of an embedded tree reopens it: \<open>from_state\<close> over the store it was taken
  from gives back the same store, with the same trusted root and an empty cache.
\<close>

theorem embedded_state_roundtrip:
  assumes "es_ok H ps ok pages s"
  shows "embedded_from_state ps (es_inner s) (embedded_state s) = Inr (s\<lparr>es_cache := None\<rparr>)"
  using assms
  by (auto simp: es_ok_def es_rep_def es_auth_def embedded_from_state_def embedded_state_def validate_dimensions_def)

lemma one_page_store:
  obtains s where "embedded_build (table_hash qs) mem_store_ops (one_page a) [] 1 = Inr s"
    "es_ok (table_hash qs) mem_store_ops mem_ok mem_contents s"
  using embedded_build_correct [OF table_hash.sha256_spec_axioms mem.page_store_spec_axioms, of "one_page a" 1 qs "[]"]
  by (auto simp: mem_store_ops_def)

theorem embedded_state_roundtrip_witness:
  "\<exists>s. embedded_build (table_hash []) mem_store_ops (one_page 7) [] 1 = Inr s \<and>
    embedded_from_state mem_store_ops (es_inner s) (embedded_state s) = Inr (s\<lparr>es_cache := None\<rparr>)"
proof -
  obtain s where s: "embedded_build (table_hash []) mem_store_ops (one_page 7) [] 1 = Inr s"
    "es_ok (table_hash []) mem_store_ops mem_ok mem_contents s" by (rule one_page_store)
  from embedded_state_roundtrip [OF s(2)] s(1) show ?thesis by blast
qed

section \<open>Integrity over an arbitrary store\<close>

datatype path_op = ReadPaths "nat list list" | WritePaths "nat list list" "bytes list list"

text \<open>A run of path operations; it goes on after failed reads and ends with the first failed write.\<close>

fun run_path_ops ::
  "(nat list list \<Rightarrow> ('s, bytes list list) comp) \<Rightarrow> (nat list list \<Rightarrow> bytes list list \<Rightarrow> ('s, unit) comp) \<Rightarrow>
    path_op list \<Rightarrow> 's \<Rightarrow> bytes list list result list \<times> 's" where
  "run_path_ops rd wr [] s = ([], s)"
| "run_path_ops rd wr (ReadPaths paths # ops) s =
     (let (r, s') = rd paths s; (rs, s'') = run_path_ops rd wr ops s' in (r # rs, s''))"
| "run_path_ops rd wr (WritePaths paths pgs # ops) s =
     (case wr paths pgs s of
        (Inl e, s') \<Rightarrow> ([Inl e], s')
      | (Inr _, s') \<Rightarrow> let (rs, s'') = run_path_ops rd wr ops s' in (Inr [] # rs, s''))"

fun authentic_paths :: "(nat \<Rightarrow> bytes) \<Rightarrow> path_op list \<Rightarrow> bytes list list result list \<Rightarrow> bool" where
  "authentic_paths D (ReadPaths paths # ops) (r # rs) \<longleftrightarrow>
     (\<forall>out. r = Inr out \<longrightarrow> out = map (map D) paths) \<and> authentic_paths D ops rs"
| "authentic_paths D (WritePaths paths pgs # ops) (r # rs) \<longleftrightarrow>
     (case r of Inr _ \<Rightarrow> authentic_paths (apply_paths D (zip paths pgs)) ops rs | Inl _ \<Rightarrow> rs = [])"
| "authentic_paths D [] [] \<longleftrightarrow> True"
| "authentic_paths D _ _ \<longleftrightarrow> False"

text \<open>The strings that are hashed for the genuine trees of such a run.\<close>

fun run_inputs :: "(bytes \<Rightarrow> bytes) \<Rightarrow> bytes \<Rightarrow> nat \<Rightarrow> (nat \<Rightarrow> bytes) \<Rightarrow> path_op list \<Rightarrow> bytes set" where
  "run_inputs H sid n D [] = etree_inputs H sid n D"
| "run_inputs H sid n D (ReadPaths paths # ops) = etree_inputs H sid n D \<union> run_inputs H sid n D ops"
| "run_inputs H sid n D (WritePaths paths pgs # ops) =
     etree_inputs H sid n D \<union> run_inputs H sid n (apply_paths D (zip paths pgs)) ops"

lemma citer_lift_state: "\<exists>r. citer (\<lambda>x. lift (f x)) xs s = (r, s)"
proof (induction xs)
  case (Cons x xs)
  then show ?case by (cases "f x") (auto simp: bnd_lift_Inr_run bnd_lift_Inl_run)
qed (simp add: ret_run)

lemma read_verified_paths_state:
  "read_verified_paths H ps paths s = (r, s') \<Longrightarrow> \<exists>t. s' = s\<lparr>es_inner := t\<rparr>"
proof -
  assume run: "read_verified_paths H ps paths s = (r, s')"
  show ?thesis
  proof (cases "paths = []")
    case True
    with run show ?thesis by (auto simp: read_verified_paths_def ret_run intro!: exI [of _ "es_inner s"])
  next
    case False
    let ?idxs = "sorted_list_of_set (set (concat paths))"
    obtain v where v: "citer (\<lambda>path. lift (validate_path path (es_page_count s))) paths s = (v, s)"
      using citer_lift_state [of "\<lambda>path. validate_path path (es_page_count s)" paths s] by blast
    obtain rp t where rp: "ps_read_pages ps ?idxs (es_inner s) = (rp, t)" by fastforce
    let ?s = "s\<lparr>es_inner := t\<rparr>"
    have "s' = s \<or> s' = ?s"
    proof (cases v)
      case (Inl e)
      with run False v show ?thesis by (simp add: read_verified_paths_def bnd_gets_run bnd_Inl)
    next
      case (Inr u)
      show ?thesis
      proof (cases rp)
        case (Inl e)
        with run False v Inr rp show ?thesis
          by (simp add: read_verified_paths_def bnd_gets_run bnd_Inr bnd_Inl zoom_run Let_def del: set_concat)
      next
        case (Inr phys)
        let ?dec = "rmapM (\<lambda>(page_idx, physical). rbind (page_decode physical (es_logical_page_size s))
          (\<lambda>page. Inr (page_idx, page))) (zip ?idxs phys)"
        show ?thesis
        proof (cases ?dec)
          case (Inl e)
          with run False v \<open>v = Inr u\<close> Inr rp show ?thesis
            by (simp add: read_verified_paths_def bnd_gets_run bnd_Inr bnd_lift_Inl_run zoom_run Let_def del: set_concat)
        next
          case dec: (Inr dec)
          let ?m = "Map.empty(map fst dec [\<mapsto>] map snd dec)"
          obtain w where w: "citer (\<lambda>path. lift (verify_path_from_pages H path ?m (es_store_id s) (es_root_hash s))) paths ?s = (w, ?s)"
            using citer_lift_state [of "\<lambda>path. verify_path_from_pages H path ?m (es_store_id s) (es_root_hash s)" paths ?s] by blast
          with run False v \<open>v = Inr u\<close> Inr rp dec show ?thesis
            by (cases w) (simp_all add: read_verified_paths_def bnd_gets_run bnd_Inr bnd_Inl bnd_lift_Inr_run ret_run zoom_run Let_def del: set_concat)
        qed
      qed
    qed
    then show ?thesis by (auto intro: exI [of _ "es_inner s"])
  qed
qed

lemma es_read_paths_any:
  assumes "sha256_spec H" and "es_auth H D s" and "no_second_preimage H (etree_inputs H (es_store_id s) (es_page_count s) D)"
    and "es_read_paths H ps paths s = (r, s')"
  shows "(\<forall>out. r = Inr out \<longrightarrow> out = map (map D) paths) \<and> es_auth H D s' \<and> es_store_id s' = es_store_id s \<and>
    es_page_count s' = es_page_count s"
proof (cases r)
  case (Inr out)
  then show ?thesis using sha256_spec.es_read_paths_genuine [OF assms(1-3)] assms(4) by blast
next
  case (Inl e)
  obtain r0 s0 where r0: "read_verified_paths H ps paths s = (r0, s0)" by fastforce
  then obtain t where t: "s0 = s\<lparr>es_inner := t\<rparr>" using read_verified_paths_state by blast
  have "s' = s0"
  proof (cases r0)
    case (Inl e')
    with r0 assms(4) show ?thesis by (simp add: es_read_paths_def bnd_Inl)
  next
    case (Inr m)
    with r0 assms(4) Inl show ?thesis
      by (auto simp: es_read_paths_def bnd_Inr bnd_def lift_run modify_run ret_run split: sum.splits)
  qed
  with t Inl assms(2) show ?thesis by simp
qed

text \<open>
  C24. Authenticated paths. Let the trusted root of an embedded tree be that of the tree over the
  pages \<open>D\<close>, and let the page store below do whatever it likes (no contract is assumed). In any
  sequence of batched path reads and writes, up to the first write that fails, every read that
  succeeds returns on every path the pages last written, whether the write went through the cache
  of verified pages or not, provided no second string has the SHA-256 hash of a page string of the
  genuine trees.
\<close>

theorem embedded_authenticated_memory:
  fixes ps :: "'s page_store"
  assumes "sha256_spec H" and "es_auth H D s"
    and "no_second_preimage H (run_inputs H (es_store_id s) (es_page_count s) D ops)"
    and "run_path_ops (es_read_paths H ps) (es_write_paths H ps) ops s = (rs, s')"
  shows "authentic_paths D ops rs"
  using assms(2-4)
proof (induction ops arbitrary: D s rs s')
  case (Cons op ops)
  let ?run = "run_path_ops (es_read_paths H ps) (es_write_paths H ps) ops"
  have now: "no_second_preimage H (etree_inputs H (es_store_id s) (es_page_count s) D)"
    using Cons.prems(2) by (cases op) (auto intro: no_second_preimage_mono)
  show ?case
  proof (cases op)
    case (ReadPaths paths)
    obtain r s1 where r: "es_read_paths H ps paths s = (r, s1)" by fastforce
    obtain rs1 s2 where rs1: "?run s1 = (rs1, s2)" by fastforce
    note rd = es_read_paths_any [OF assms(1) Cons.prems(1) now r]
    have "authentic_paths D ops rs1"
      using rd rs1 Cons.prems(2) ReadPaths
      by (intro Cons.IH [of D s1]) (auto intro: no_second_preimage_mono)
    then show ?thesis using Cons.prems(3) r rs1 rd ReadPaths by auto
  next
    case (WritePaths paths pgs)
    obtain r s1 where r: "es_write_paths H ps paths pgs s = (r, s1)" by fastforce
    show ?thesis
    proof (cases r)
      case (Inl e)
      then show ?thesis using Cons.prems(3) r WritePaths by auto
    next
      case (Inr u)
      obtain rs1 s2 where rs1: "?run s1 = (rs1, s2)" by fastforce
      have "authentic_paths (apply_paths D (zip paths pgs)) ops rs1"
        using sha256_spec.es_write_paths_genuine [OF assms(1) Cons.prems(1) now, of ps paths pgs s1] r Inr rs1
          Cons.prems(2) WritePaths
        by (intro Cons.IH [of _ s1]) (auto intro: no_second_preimage_mono)
      then show ?thesis using Cons.prems(3) r rs1 Inr WritePaths by auto
    qed
  qed
qed simp

theorem embedded_authenticated_memory_witness:
  "\<exists>s rs s'. let H = table_hash [embedded_input [] 0 [7] zero_hash zero_hash, embedded_input [] 0 [9] zero_hash zero_hash];
      ops = [ReadPaths [[0]], WritePaths [[0]] [[[9]]], ReadPaths [[0]]] in
    embedded_build H mem_store_ops (one_page 7) [] 1 = Inr s \<and>
    run_path_ops (es_read_paths H mem_store_ops) (es_write_paths H mem_store_ops) ops
      (s\<lparr>es_inner := one_page 3\<rparr>) = (rs, s') \<and>
    authentic_paths (\<lambda>i. if i = 0 then [7] else [0]) ops rs"
proof -
  let ?qs = "[embedded_input [] 0 [7] zero_hash zero_hash, embedded_input [] 0 [9] zero_hash zero_hash]"
  let ?H = "table_hash ?qs" and ?D = "\<lambda>i::nat. if i = 0 then [7] else [0] :: bytes"
  let ?ops = "[ReadPaths [[0]], WritePaths [[0]] [[[9]]], ReadPaths [[0]]]"
  have D: "?D = (\<lambda>i. if i < ps_page_count mem_store_ops (one_page 7)
      then take 1 (the (mem_contents (one_page 7) i)) else replicate 1 0)"
    by (auto simp: mem_store_ops_def)
  have "\<exists>s. embedded_build ?H mem_store_ops (one_page 7) [] 1 = Inr s \<and>
      es_rep ?H mem_store_ops mem_ok mem_contents ?D s \<and>
      es_page_count s = ps_page_count mem_store_ops (one_page 7) \<and> es_logical_page_size s = 1 \<and> es_store_id s = []"
    by (rule embedded_mem.embedded_build_spec [OF _ _ _ _ _ D])
      (simp_all add: mem_store_ops_def physical_page_size_for_def auth_bytes)
  then obtain s where s: "embedded_build ?H mem_store_ops (one_page 7) [] 1 = Inr s"
    "es_auth ?H ?D s" "es_page_count s = 1" "es_store_id s = []"
    by (auto simp: es_rep_def mem_store_ops_def)
  let ?t = "s\<lparr>es_inner := one_page 3\<rparr>"
  have inputs: "etree_inputs ?H [] 1 D = {embedded_input [] 0 (D 0) zero_hash zero_hash}" for D
    by (simp add: etree_inputs_def left_child_def right_child_def etree_hash_beyond lessThan_Suc)
  have "no_second_preimage ?H (run_inputs ?H (es_store_id ?t) (es_page_count ?t) ?D ?ops)"
    by (rule table_hash_genuine) (auto simp: s(3,4) inputs [simplified] apply_paths_def upd_pages_def)
  moreover obtain rs s' where "run_path_ops (es_read_paths ?H mem_store_ops) (es_write_paths ?H mem_store_ops) ?ops ?t = (rs, s')"
    by fastforce
  ultimately show ?thesis
    using embedded_authenticated_memory [OF table_hash.sha256_spec_axioms, of ?qs ?D ?t ?ops mem_store_ops rs s'] s
    by (auto simp: Let_def)
qed

section \<open>Errors in the middle of a batch write\<close>

text \<open>
  C25. \<open>write_paths\<close> moves the trusted root path by path, before the later paths are checked and
  before anything is written. If a later path of the batch is refused (here: a page count that does
  not match), the call returns the error, the store below is unchanged, but the trusted root is
  that of the pages after the first path: the tree can no longer be read.
\<close>

theorem embedded_write_error_moves_root:
  assumes "sha256_spec H" and "page_store_spec ps ok pages" and "es_rep H ps ok pages D s"
    and "root_path (es_page_count s) path1" and "root_path (es_page_count s) path2"
    and "\<forall>i \<in> set path1. length (f i) = es_logical_page_size s" and "length path2 \<noteq> length pgs2"
    and "D1 = (\<lambda>i. if i \<in> set path1 then f i else D i)"
    and "etree_hash H (es_store_id s) (es_page_count s) D1 0 \<noteq> etree_hash H (es_store_id s) (es_page_count s) D 0"
  shows "\<exists>s1 s2. es_write_paths H ps [path1, path2] [map f path1, pgs2] s =
      (Inl (InvalidInput ''path length {} != logical page count {}''), s1) \<and>
    pages (es_inner s1) = pages (es_inner s) \<and>
    es_read_path H ps path1 s1 = (Inl (InvalidInput ''embedded tree authentication failed for page {}''), s2)"
proof -
  have over: "embedded_over H ps ok pages" using assms(1,2) by (simp add: embedded_over_def)
  let ?sid = "es_store_id s" and ?n = "es_page_count s"
  obtain m t where m: "pages_to_update H ps [path1, path2] s = (Inr m, s\<lparr>es_cache := None, es_inner := t\<rparr>)"
    "agrees H ?sid ?n D m" "\<forall>i \<in> set (concat [path1, path2]). m i \<noteq> None"
    "kept ok (ps_page_size ps) (ps_page_count ps) (es_inner s) t" "pages t = pages (es_inner s)"
    using embedded_over.pages_to_update_spec [OF over assms(3), of "[path1, path2]"] assms(4,5) by auto
  let ?s1 = "s\<lparr>es_cache := None, es_inner := t\<rparr>"
  let ?s2 = "?s1\<lparr>es_root_hash := etree_hash H ?sid ?n D1 0\<rparr>"
  have D1: "D1 = upd_pages D (zip path1 (map f path1))" using assms(8) by (auto simp: sha256_spec.upd_pages_map [OF assms(1)])
  obtain ov where "write_one_path H (path1, map f path1) (m, {}) ?s1 = (Inr ov, ?s2)"
    using sha256_spec.write_one_path_spec [OF assms(1), of ?s1 path1 "map f path1" D m D1 "{}"] assms(4,6) m(2,3) D1
    by auto
  moreover have "write_one_path H (path2, pgs2) ov' u =
      (Inl (InvalidInput ''path length {} != logical page count {}''), u)" for ov' and u :: "'a embedded_store"
    using assms(7) by (simp add: write_one_path_def bnd_require_run)
  ultimately have run: "es_write_paths H ps [path1, path2] [map f path1, pgs2] s =
      (Inl (InvalidInput ''path length {} != logical page count {}''), ?s2)"
    using m(1) by (simp add: es_write_paths_def bnd_require_run bnd_Inr bnd_Inl)
  let ?m = "\<lambda>i. if i \<in> set (concat [path1]) then Some (etree_page H ?sid ?n D i) else None"
  have "\<exists>t'. read_verified_paths H ps [path1] ?s2 =
      bnd (citer (\<lambda>path. lift (verify_path_from_pages H path ?m (es_store_id ?s2) (es_root_hash ?s2))) [path1])
        (\<lambda>_. ret ?m) (?s2\<lparr>es_inner := t'\<rparr>) \<and>
    kept ok (ps_page_size ps) (ps_page_count ps) (es_inner ?s2) t' \<and> pages t' = pages (es_inner ?s2)"
    using assms(3,4) m(4,5)
    by (intro embedded_over.read_verified_paths_run [OF over, where D = D])
      (auto simp: es_rep_def es_auth_def kept_def cong: if_cong)
  then obtain t' where t': "read_verified_paths H ps [path1] ?s2 =
      bnd (citer (\<lambda>path. lift (verify_path_from_pages H path ?m ?sid (etree_hash H ?sid ?n D1 0))) [path1])
        (\<lambda>_. ret ?m) (?s2\<lparr>es_inner := t'\<rparr>)" by auto
  have path1: "path1 = 0 # tl path1" "0 < ?n" using assms(4) by (cases path1; auto simp: root_path_def)+
  from path1(1) obtain rest where rest: "path1 = 0 # rest" by blast
  have "\<not> hash_eq (page_hash H (etree_page H ?sid ?n D 0) ?sid 0) (etree_hash H ?sid ?n D1 0)"
    using assms(9) etree_hash_page [OF path1(2), of H ?sid D] sha256_spec.length_etree_hash [OF assms(1)]
      sha256_spec.length_page_hash [OF assms(1)]
    by (simp add: hash_eq_iff)
  then have "verify_path_from_pages H path1 ?m ?sid (etree_hash H ?sid ?n D1 0) =
      Inl (InvalidInput ''embedded tree authentication failed for page {}'')"
    using rest by simp
  then have "read_verified_paths H ps [path1] ?s2 =
      (Inl (InvalidInput ''embedded tree authentication failed for page {}''), ?s2\<lparr>es_inner := t'\<rparr>)"
    unfolding t' by (simp add: bnd_lift_Inl_run bnd_Inl)
  then have "es_read_path H ps path1 ?s2 =
      (Inl (InvalidInput ''embedded tree authentication failed for page {}''), ?s2\<lparr>es_inner := t'\<rparr>)"
    by (simp add: es_read_path_def es_read_paths_def bnd_Inl)
  with run m(5) show ?thesis by (intro exI [of _ ?s2] exI [of _ "?s2\<lparr>es_inner := t'\<rparr>"]) simp
qed

lemma one_page_tree:
  assumes "H = table_hash qs" and "D 0 = [a]"
  shows "etree_hash H [] 1 D 0 = table_hash qs (embedded_input [] 0 [a] zero_hash zero_hash)"
  using assms by (subst etree_hash.simps) (simp add: etree_hash_beyond left_child_def right_child_def hash_embedded_page_def)

theorem embedded_write_error_moves_root_witness:
  "\<exists>s s1 s2. let H = table_hash [embedded_input [] 0 [9] zero_hash zero_hash] in
    embedded_build H mem_store_ops (one_page 7) [] 1 = Inr s \<and>
    es_write_paths H mem_store_ops [[0], [0]] [[[9]], []] s =
      (Inl (InvalidInput ''path length {} != logical page count {}''), s1) \<and>
    es_read_path H mem_store_ops [0] s1 =
      (Inl (InvalidInput ''embedded tree authentication failed for page {}''), s2)"
proof -
  let ?qs = "[embedded_input [] 0 [9] zero_hash zero_hash]"
  let ?H = "table_hash ?qs" and ?D = "\<lambda>i::nat. if i = 0 then [7] else [0] :: bytes"
  have D: "?D = (\<lambda>i. if i < ps_page_count mem_store_ops (one_page 7)
      then take 1 (the (mem_contents (one_page 7) i)) else replicate 1 0)"
    by (auto simp: mem_store_ops_def)
  have "\<exists>s. embedded_build ?H mem_store_ops (one_page 7) [] 1 = Inr s \<and>
      es_rep ?H mem_store_ops mem_ok mem_contents ?D s \<and>
      es_page_count s = ps_page_count mem_store_ops (one_page 7) \<and> es_logical_page_size s = 1 \<and> es_store_id s = []"
    by (rule embedded_mem.embedded_build_spec [OF _ _ _ _ _ D])
      (simp_all add: mem_store_ops_def physical_page_size_for_def auth_bytes)
  then obtain s where s: "embedded_build ?H mem_store_ops (one_page 7) [] 1 = Inr s"
    "es_rep ?H mem_store_ops mem_ok mem_contents ?D s" "es_page_count s = 1" "es_store_id s = []"
    "es_logical_page_size s = 1"
    by (auto simp: mem_store_ops_def)
  have path: "root_path (es_page_count s) [0]" using s(3) by (simp add: root_path_def)
  let ?D1 = "\<lambda>i. if i \<in> set [0] then [9] else ?D i"
  have "embedded_input [] 0 [7] zero_hash zero_hash \<noteq> embedded_input [] 0 [9] zero_hash zero_hash"
    using embedded_input_inj [of "[]" 0 "[7]" zero_hash zero_hash "[9]" zero_hash zero_hash] by auto
  then have "rank_of ?qs (embedded_input [] 0 [7] zero_hash zero_hash) = 0"
    "rank_of ?qs (embedded_input [] 0 [9] zero_hash zero_hash) = 1" by simp_all
  moreover have "le_bytes_nat 32 1 \<noteq> le_bytes_nat 32 0"
    using nat_of_le_bytes_le_bytes_nat [of 32 1] nat_of_le_bytes_le_bytes_nat [of 32 0] by (metis mod_less one_less_numeral_iff power_gt1 semiring_norm(76) mod_0 zero_neq_one one_less_power zero_less_numeral)
  ultimately have "etree_hash ?H [] 1 ?D1 0 \<noteq> etree_hash ?H [] 1 ?D 0"
    using one_page_tree [OF refl, of ?D1 9 ?qs] one_page_tree [OF refl, of ?D 7 ?qs]
    by (simp add: table_hash_def del: le_bytes_nat.simps rank_of.simps)
  then have ne: "etree_hash ?H (es_store_id s) (es_page_count s) ?D1 0 \<noteq> etree_hash ?H (es_store_id s) (es_page_count s) ?D 0"
    unfolding s(3,4) .
  from embedded_write_error_moves_root [OF table_hash.sha256_spec_axioms mem.page_store_spec_axioms s(2) path path,
      of "\<lambda>_. [9]" "[]" ?D1] ne s(1,5)
  show ?thesis by (auto simp: Let_def)
qed

end
