(* ===== verification/Packed_Blocks.thy ===== *)
theory Packed_Blocks
  imports Circuit_Theorems
begin

text \<open>
  Packing fixed-size items into logical blocks, as the table readers of src/src/cuckoo.rs and
  src/src/direct.rs do: block \<open>b\<close> holds the items \<open>b * n\<close> to \<open>b * n + n - 1\<close>, and the last block is
  padded with zeros. What the two readers share is proved here once: where an item lies, that a
  block cut out of a flat file is the packed block, and that reads through the controller return
  the blocks and keep the array.
\<close>

section \<open>The packed array\<close>

definition packed_block :: "nat \<Rightarrow> nat \<Rightarrow> bytes list \<Rightarrow> nat \<Rightarrow> bytes" where
  "packed_block n k items b =
     concat (map (\<lambda>j. if b * n + j < length items then items ! (b * n + j) else replicate k 0) [0..<n])"

definition packed :: "nat \<Rightarrow> nat \<Rightarrow> bytes list \<Rightarrow> bytes list" where
  "packed n k items = map (packed_block n k items) [0..<div_ceil (length items) n]"

text \<open>The items of \<open>k\<close> bytes of a flat byte string, from an offset.\<close>

definition flat_items :: "nat \<Rightarrow> nat \<Rightarrow> nat \<Rightarrow> bytes \<Rightarrow> bytes list" where
  "flat_items offset k tot xs = map (\<lambda>i. slice (offset + i * k) (offset + i * k + k) xs) [0..<tot]"

lemma div_ceil_bounds:
  assumes "0 < n"
  shows "b < div_ceil m n \<longleftrightarrow> b * n < m"
proof -
  have "b < (m + n - 1) div n \<longleftrightarrow> Suc b \<le> (m + n - 1) div n" by auto
  also have "\<dots> \<longleftrightarrow> Suc b * n \<le> m + n - 1" using assms by (simp add: less_eq_div_iff_mult_less_eq)
  also have "\<dots> \<longleftrightarrow> b * n < m" using assms by (cases n) auto
  finally show ?thesis by (simp add: div_ceil_def)
qed

lemma div_ceil_item: "i < m \<Longrightarrow> 0 < n \<Longrightarrow> i div n < div_ceil m n"
  by (simp add: div_ceil_bounds) (metis div_times_less_eq_dividend le_less_trans)

lemma div_ceil_pos: "0 < m \<Longrightarrow> 0 < n \<Longrightarrow> 0 < div_ceil m n"
  using div_ceil_bounds [of n 0 m] by simp

lemma div_ceil_le: "0 < n \<Longrightarrow> div_ceil m n \<le> m"
proof (rule ccontr)
  assume "0 < n" and "\<not> div_ceil m n \<le> m"
  then have "m * n < m" using div_ceil_bounds [of n m m] by simp
  with \<open>0 < n\<close> show False by (cases n) auto
qed

lemma length_packed [simp]: "length (packed n k items) = div_ceil (length items) n"
  by (simp add: packed_def)

lemma length_packed_block:
  assumes "\<And>x. x \<in> set items \<Longrightarrow> length x = k"
  shows "length (packed_block n k items b) = n * k"
proof -
  have "length (packed_block n k items b) = length (map (\<lambda>j. b * n + j) [0..<n]) * k"
    unfolding packed_block_def by (subst length_concat_equal [of _ k]) (auto simp: assms)
  then show ?thesis by simp
qed

lemma packed_lengths:
  assumes "\<And>x. x \<in> set items \<Longrightarrow> length x = k" and "d \<in> set (packed n k items)"
  shows "length d = n * k"
  using assms by (auto simp: packed_def length_packed_block)

lemma packed_item:
  assumes "\<And>x. x \<in> set items \<Longrightarrow> length x = k" and "i < length items" and "0 < n"
  shows "slice (i mod n * k) (i mod n * k + k) (packed n k items ! (i div n)) = items ! i"
proof -
  let ?f = "\<lambda>j. if i div n * n + j < length items then items ! (i div n * n + j) else replicate k 0"
  have "slice (i mod n * k) (i mod n * k + k) (concat (map ?f [0..<n])) = map ?f [0..<n] ! (i mod n)"
    by (rule slice_concat) (use assms in \<open>auto split: if_splits\<close>)
  also have "\<dots> = items ! i" using assms(2,3) by simp
  finally show ?thesis using div_ceil_item [OF assms(2,3)] by (simp add: packed_def packed_block_def)
qed

lemma flat_items_lengths:
  "offset + tot * k \<le> length xs \<Longrightarrow> x \<in> set (flat_items offset k tot xs) \<Longrightarrow> length x = k"
proof -
  assume len: "offset + tot * k \<le> length xs" and "x \<in> set (flat_items offset k tot xs)"
  then obtain i where i: "i < tot" "x = slice (offset + i * k) (offset + i * k + k) xs"
    by (auto simp: flat_items_def)
  have "Suc i * k \<le> tot * k" using i(1) by (intro mult_le_mono1) simp
  with len have "offset + i * k + k \<le> length xs" by simp
  with i(2) show ?thesis by simp
qed

lemma length_flat_items [simp]: "length (flat_items offset k tot xs) = tot"
  by (simp add: flat_items_def)

text \<open>The bytes of the items of one block, padded, are the packed block.\<close>

lemma packed_block_flat:
  assumes "offset + tot * k \<le> length xs" and "b * n < tot" and "m = min (tot - b * n) n"
  shows "copy_into 0 (slice (offset + b * n * k) (offset + b * n * k + m * k) xs) (replicate (n * k) 0) =
    packed_block n k (flat_items offset k tot xs) b"
proof -
  let ?items = "flat_items offset k tot xs"
  have len: "length x = k" if "x \<in> set ?items" for x using flat_items_lengths [OF assms(1) that] .
  have mn: "m \<le> n" "b * n + m \<le> tot" using assms(2,3) by auto
  then have "(b * n + m) * k \<le> tot * k" "m * k \<le> n * k" by (simp_all add: mult_le_mono1)
  then have le: "offset + b * n * k + m * k \<le> length xs" "m * k \<le> n * k"
    using assms(1) by (simp_all add: algebra_simps)
  let ?s = "slice (offset + b * n * k) (offset + b * n * k + m * k) xs"
  have ls: "length ?s = m * k" using le(1) by simp
  show ?thesis
  proof (rule nth_equalityI)
    show "length (copy_into 0 ?s (replicate (n * k) 0)) = length (packed_block n k ?items b)"
      using le ls length_packed_block [of ?items k n b] len by simp
  next
    fix p assume "p < length (copy_into 0 ?s (replicate (n * k) 0))"
    then have p: "p < n * k" using le ls by simp
    then have k: "0 < k" by (cases k) auto
    define j and r where jr: "j = p div k" "r = p mod k"
    have j: "j < n" "r < k" "p = j * k + r" using p k by (auto simp: jr less_mult_imp_div_less)
    have "packed_block n k ?items b ! p =
        (if b * n + j < tot then ?items ! (b * n + j) else replicate k 0) ! r"
      unfolding packed_block_def j(3)
      by (subst nth_concat_equal [of _ k]) (use j(1,2) len in \<open>auto split: if_splits\<close>)
    also have "\<dots> = (if p < m * k then xs ! (offset + b * n * k + p) else 0)"
    proof (cases "j < m")
      case True
      then have "Suc j * k \<le> m * k" by (intro mult_le_mono1) simp
      moreover from True mn have lt: "b * n + j < tot" by simp
      moreover have "Suc (b * n + j) * k \<le> tot * k" using lt by (intro mult_le_mono1) simp
      ultimately show ?thesis using j assms(1)
        by (simp add: flat_items_def nth_slice algebra_simps)
    next
      case False
      then have "m * k \<le> j * k" by (intro mult_le_mono1) simp
      then have "\<not> p < m * k" unfolding j(3) by linarith
      moreover have "\<not> b * n + j < tot" using False j(1) assms(2,3) by auto
      ultimately show ?thesis using j(1,2) by simp
    qed
    also have "\<dots> = copy_into 0 ?s (replicate (n * k) 0) ! p"
      using p ls le by (simp add: nth_copy_into nth_slice)
    finally show "copy_into 0 ?s (replicate (n * k) 0) ! p = packed_block n k ?items b ! p" by simp
  qed
qed

section \<open>Reading through a controller\<close>

text \<open>
  The controller as its readers see it: it stands for the array \<open>D\<close>, cannot overflow its stash, can
  still count \<open>n\<close> accesses, and its schedule belongs to its tree.
\<close>

definition serves ::
  "('c, 'm, 'p, 'r) circuit_env \<Rightarrow> ('m, 'p) store_views \<Rightarrow> bytes list \<Rightarrow> nat \<Rightarrow>
    ('m, 'p, 'r) circuit_oram \<Rightarrow> bool" where
  "serves E V D n self \<longleftrightarrow>
     circuit_env_spec E V \<and> oram_inv E V D self \<and>
     logical_blocks (co_params self) < stash_capacity (co_params self) \<and>
     schedule_room (co_schedule self) n \<and> s_leaf_bits (co_schedule self) = leaf_bits (co_params self)"

lemma serves_size:
  assumes "serves E V D n self"
  shows "length D = logical_blocks (co_params self)" "length D < 2 ^ 64"
proof -
  from assms have "oram_inv E V D self" by (simp add: serves_def)
  then have "length D = logical_blocks (co_params self)" "params_ok (co_params self)" by (auto elim: oram_invE)
  then show "length D = logical_blocks (co_params self)" "length D < 2 ^ 64"
    by (simp_all add: params_ok_def)
qed

lemma serves_run:
  assumes "serves E V D (op_cost op + n) self" and "op_ok (co_params self) op" and "spec_op op D = (out, D')"
  shows "\<exists>self'. run_op E op self = (Inr out, self') \<and> serves E V D' n self' \<and> co_params self' = co_params self"
  using run_op_refines [of E V D self op n out D'] assms by (auto simp: serves_def)

lemma serves_read:
  assumes "serves E V D (Suc n) self" and "i < length D"
  shows "\<exists>self'. read_block E (word_of_nat i) self = (Inr (D ! i), self') \<and> serves E V D n self' \<and>
    co_params self' = co_params self"
proof -
  have i: "unat (word_of_nat i :: u64) = i" using assms(2) serves_size(2) [OF assms(1)] by simp
  have s: "serves E V D (op_cost (Access (word_of_nat i) (\<lambda>d. d)) + n) self"
    and ok: "op_ok (co_params self) (Access (word_of_nat i) (\<lambda>d. d))"
    using assms serves_size(1) [OF assms(1)] i by simp_all
  have "spec_op (Access (word_of_nat i) (\<lambda>d. d)) D = ([D ! i], D)" using i by simp
  from serves_run [OF s ok this] show ?thesis
    by (auto simp: read_block_def bnd_Inr_iff comp_simps)
qed

lemma serves_drain:
  assumes "serves E V D n self"
  shows "\<exists>k self'. drain_evictions E budget self = (Inr k, self') \<and> serves E V D n self' \<and>
    co_params self' = co_params self"
proof -
  have "serves E V D (op_cost (Drain budget) + n) self" "op_ok (co_params self) (Drain budget)"
    "spec_op (Drain budget) D = ([], D)" using assms by simp_all
  from serves_run [OF this] show ?thesis by (auto simp: bnd_Inr_iff comp_simps)
qed

lemma batch_spec_reads: "batch_spec (\<lambda>u i d. (d, ())) ids () D = (map (\<lambda>i. D ! unat i) ids, D)"
  by (induction ids) (simp_all add: Let_def)

lemma serves_read_batch:
  assumes "serves E V D (length is + n) self" and "\<And>i. i \<in> set is \<Longrightarrow> i < length D"
  shows "\<exists>self'. read_batch E (map word_of_nat is) self = (Inr (map ((!) D) is), self') \<and> serves E V D n self' \<and>
    co_params self' = co_params self"
proof -
  let ?op = "Batch (map word_of_nat is) (\<lambda>i d. d)"
  have i: "unat (word_of_nat i :: u64) = i" if "i \<in> set is" for i
    using assms(2) [OF that] serves_size(2) [OF assms(1)] by simp
  have "serves E V D (op_cost ?op + n) self" "op_ok (co_params self) ?op"
    using assms serves_size(1) [OF assms(1)] i by auto
  moreover have "spec_op ?op D = (map ((!) D) is, D)" using i by (auto simp: batch_spec_reads)
  ultimately show ?thesis using serves_run [of E V D ?op n self] by (simp add: read_batch_def)
qed

lemma serves_dummies:
  assumes "serves E V D (k + n) self"
  shows "\<exists>self'. dummy_access_batch E k self = (Inr (), self') \<and> serves E V D n self' \<and>
    co_params self' = co_params self"
proof -
  have "serves E V D (op_cost (Dummies k) + n) self" "op_ok (co_params self) (Dummies k)"
    "spec_op (Dummies k) D = ([], D)" using assms by simp_all
  from serves_run [OF this] show ?thesis by (auto simp: bnd_Inr_iff comp_simps)
qed

section \<open>The interface the table readers use\<close>

text \<open>
  A server of a fixed array of blocks: what the readers of cuckoo.rs and direct.rs call of the
  controller. \<open>ok D n s\<close> says that \<open>s\<close> serves the array \<open>D\<close> and can still count \<open>n\<close> accesses.
\<close>

locale block_server =
  fixes read :: "u64 \<Rightarrow> ('s, bytes) comp" and read_many :: "u64 list \<Rightarrow> ('s, bytes list) comp"
    and drain :: "u64 \<Rightarrow> ('s, u64) comp" and dummies :: "nat \<Rightarrow> ('s, unit) comp"
    and ok :: "bytes list \<Rightarrow> nat \<Rightarrow> 's \<Rightarrow> bool"
  assumes read_ok: "ok D (Suc n) s \<Longrightarrow> i < length D \<Longrightarrow>
      \<exists>s'. read (word_of_nat i) s = (Inr (D ! i), s') \<and> ok D n s'"
    and read_many_ok: "ok D (length is + n) s \<Longrightarrow> (\<And>i. i \<in> set is \<Longrightarrow> i < length D) \<Longrightarrow>
      \<exists>s'. read_many (map word_of_nat is) s = (Inr (map ((!) D) is), s') \<and> ok D n s'"
    and drain_ok: "ok D n s \<Longrightarrow> \<exists>k s'. drain b s = (Inr k, s') \<and> ok D n s'"
    and dummies_ok: "ok D (k + n) s \<Longrightarrow> \<exists>s'. dummies k s = (Inr (), s') \<and> ok D n s'"
begin

text \<open>One block, then the evictions that are due: the body of every sequential read.\<close>

lemma read_drain:
  assumes "ok D (Suc n) s" and "i < length D"
  obtains s1 k s2 where "read (word_of_nat i) s = (Inr (D ! i), s1)" "drain b s1 = (Inr k, s2)" "ok D n s2"
  using read_ok [OF assms] drain_ok by blast

lemma read_many_drain:
  assumes "ok D (length is + n) s" and "\<And>i. i \<in> set is \<Longrightarrow> i < length D"
  obtains s1 k s2 where "read_many (map word_of_nat is) s = (Inr (map ((!) D) is), s1)"
    "drain b s1 = (Inr k, s2)" "ok D n s2"
proof -
  obtain s1 where "read_many (map word_of_nat is) s = (Inr (map ((!) D) is), s1)" "ok D n s1"
    using read_many_ok [OF assms] by blast
  with that drain_ok [of D n s1 b] show thesis by blast
qed

lemma dummies_drain:
  assumes "ok D (k + n) s"
  obtains s1 m s2 where "dummies k s = (Inr (), s1)" "drain b s1 = (Inr m, s2)" "ok D n s2"
  using dummies_ok [OF assms] drain_ok by blast

end

interpretation oram_server: block_server "read_block E" "read_batch E" "drain_evictions E" "dummy_access_batch E"
  "\<lambda>D n s. serves E V D n s \<and> co_params s = p"
  for E :: "('c, 'm, 'p, 'r) circuit_env" and V :: "('m, 'p) store_views" and p :: oram_params
proof
  let ?ok = "\<lambda>D n s. serves E V D n s \<and> co_params s = p"
  fix D :: "bytes list" and n :: nat and s :: "('m, 'p, 'r) circuit_oram" and b :: u64
  show "\<exists>k s'. drain_evictions E b s = (Inr k, s') \<and> ?ok D n s'" if "?ok D n s"
    using serves_drain [of E V D n s] that by blast
  show "\<exists>s'. read_block E (word_of_nat i) s = (Inr (D ! i), s') \<and> ?ok D n s'"
    if "?ok D (Suc n) s" "i < length D" for i using serves_read [of E V D n s i] that by blast
  show "\<exists>s'. read_batch E (map word_of_nat is) s = (Inr (map ((!) D) is), s') \<and> ?ok D n s'"
    if "?ok D (length is + n) s" "\<And>i. i \<in> set is \<Longrightarrow> i < length D" for "is"
    using serves_read_batch [of E V D "is" n s] that by blast
  show "\<exists>s'. dummy_access_batch E k s = (Inr (), s') \<and> ?ok D n s'" if "?ok D (k + n) s" for k
    using serves_dummies [of E V D k n s] that by blast
qed

section \<open>Controllers fresh from a build\<close>

lemma schedule_new_leaf_bits: "s_leaf_bits (schedule_new p) = leaf_bits p"
  by (simp add: schedule_new_def with_rate_def)

lemma schedule_new_room: "n * 2 < 2 ^ 64 \<Longrightarrow> schedule_room (schedule_new p) n"
  by (simp add: schedule_room_def schedule_new_def schedule_ok_new)
    (simp add: with_rate_def DEFAULT_EVICTIONS_PER_ACCESS_def)

context circuit_build_spec
begin

text \<open>The environment a build hands over, and the controller it gives when the stash is roomy.\<close>

lemma build_env:
  "circuit_env_spec \<lparr>e_ct = sb, e_next_u64 = next_u64, e_meta = path_of_page_store mps,
    e_payload = path_of_page_store pps\<rparr> V"
  by (simp add: circuit_env_spec_def ct.subtle_spec_axioms meta.blanket.path_store_spec_axioms
      payload.blanket.path_store_spec_axioms)

lemma build_serves:
  assumes "params_ok p" and "length D = logical_blocks p" and "\<forall>d \<in> set D. length d = block_size p"
    and "v_meta_ok V m" and "ps_page_count mps m = bucket_count p"
    and "ps_page_size mps m = circuit_meta_page_bytes (bucket_size p)"
    and "v_payload_ok V q" and "ps_page_count pps q = bucket_count p"
    and "ps_page_size pps q = circuit_payload_page_bytes (bucket_size p) (block_size p)"
    and "sok s" and "bs_block_size src s = block_size p"
    and "E = \<lparr>e_ct = sb, e_next_u64 = next_u64, e_meta = path_of_page_store mps, e_payload = path_of_page_store pps\<rparr>"
    and "logical_blocks p < stash_capacity p" and "n * 2 < 2 ^ 64"
  shows "\<exists>oram. build_trusted_from_source sb next_u64 from_seed mps pps src p m q s seed = Inr oram \<and>
    serves E V D n oram \<and> co_params oram = p"
  using build_cases [OF circuit_build_spec_axioms assms(1-12) refl, of from_seed seed]
    assms(12,13) schedule_new_room [OF assms(14)] schedule_new_leaf_bits build_env
  by (auto simp: serves_def)

end

end
