(* ===== verification/Oram_Sizing.thy ===== *)
theory Oram_Sizing
  imports Packed_Blocks Aead_Store
begin

text \<open>
  Sizing an image: the computation that \<open>CuckooOramSizing::estimate\<close> (src/src/cuckoo.rs) and
  \<open>DirectOramSizing::estimate\<close> (src/src/direct.rs) share line by line. Their two records of options
  and of results differ in the names of two fields only. The floating-point field
  \<open>tree_slot_load_percent\<close>, which is for display, is left out.
\<close>

section \<open>Options and results\<close>

record oram_sizing =
  sz_per_block :: nat
  sz_leaf_divisor :: nat
  sz_bucket_size :: nat
  sz_stash_capacity :: nat
  sz_cache_levels :: nat

record image_estimate =
  ie_per_block :: nat
  ie_leaf_divisor :: nat
  ie_logical_blocks :: nat
  ie_block_payload_bytes :: nat
  ie_bucket_size :: nat
  ie_leaves :: nat
  ie_height :: nat
  ie_bucket_pages :: nat
  ie_page_plaintext_bytes :: nat
  ie_page_aead_bytes :: nat
  ie_image_plaintext_bytes :: nat
  ie_image_aead_bytes :: nat
  ie_pos_map_bytes :: nat
  ie_trusted_stash_bytes :: nat
  ie_trusted_state_floor_bytes :: nat
  ie_cached_pages :: nat
  ie_front_cache_plaintext_bytes :: nat
  ie_front_cache_aead_bytes :: nat
  ie_disk_pages_per_access_no_flush :: nat
  ie_disk_aead_bytes_per_access_no_flush :: nat

definition next_power_of_two_or_err :: "nat \<Rightarrow> nat result" where
  "next_power_of_two_or_err value' =
     ok_or (checked_next_power_of_two value') (InvalidParams ''value {value} exceeds usize next_power_of_two'')"

text \<open>\<open>OramParams::with_leaves(..)?.with_bucket_size(..)?.with_stash_capacity(..)?\<close>.\<close>

definition sizing_params :: "oram_sizing \<Rightarrow> nat \<Rightarrow> nat \<Rightarrow> nat \<Rightarrow> oram_params result" where
  "sizing_params sz logical_blocks' block_payload_bytes leaves' =
     rbind (with_leaves logical_blocks' block_payload_bytes leaves') (\<lambda>p.
     rbind (with_bucket_size p (sz_bucket_size sz)) (\<lambda>p.
     with_stash_capacity p (sz_stash_capacity sz)))"

definition effective_cache_levels :: "oram_sizing \<Rightarrow> oram_params \<Rightarrow> nat" where
  "effective_cache_levels sz p = min (sz_cache_levels sz) (height p)"

definition estimate_fields :: "oram_sizing \<Rightarrow> nat \<Rightarrow> nat \<Rightarrow> nat \<Rightarrow> oram_params \<Rightarrow> image_estimate" where
  "estimate_fields sz logical_blocks' block_payload_bytes leaves' p =
     (let page_plaintext_bytes = bucket_bytes p;
          page_aead_bytes = page_plaintext_bytes + AEAD_OVERHEAD;
          bucket_pages = bucket_count p;
          image_plaintext_bytes = usize_mul bucket_pages page_plaintext_bytes;
          image_aead_bytes = usize_mul bucket_pages page_aead_bytes;
          pos_map_bytes = usize_mul logical_blocks' 4;
          stash_slot_bytes = serialized_len block_payload_bytes;
          trusted_stash_bytes = usize_mul (sz_stash_capacity sz) stash_slot_bytes;
          trusted_state_floor_bytes = usize_add pos_map_bytes trusted_stash_bytes;
          cached_pages = (if effective_cache_levels sz p = 0 then 0 else 2 ^ effective_cache_levels sz p - 1);
          front_cache_plaintext_bytes = usize_mul cached_pages page_plaintext_bytes;
          front_cache_aead_bytes = usize_mul cached_pages page_aead_bytes;
          uncached_levels = height p - effective_cache_levels sz p;
          disk_pages_per_access_no_flush = uncached_levels * 2
      in \<lparr>ie_per_block = sz_per_block sz, ie_leaf_divisor = sz_leaf_divisor sz,
          ie_logical_blocks = logical_blocks', ie_block_payload_bytes = block_payload_bytes,
          ie_bucket_size = sz_bucket_size sz, ie_leaves = leaves', ie_height = height p,
          ie_bucket_pages = bucket_pages, ie_page_plaintext_bytes = page_plaintext_bytes,
          ie_page_aead_bytes = page_aead_bytes, ie_image_plaintext_bytes = image_plaintext_bytes,
          ie_image_aead_bytes = image_aead_bytes, ie_pos_map_bytes = pos_map_bytes,
          ie_trusted_stash_bytes = trusted_stash_bytes,
          ie_trusted_state_floor_bytes = trusted_state_floor_bytes, ie_cached_pages = cached_pages,
          ie_front_cache_plaintext_bytes = front_cache_plaintext_bytes,
          ie_front_cache_aead_bytes = front_cache_aead_bytes,
          ie_disk_pages_per_access_no_flush = disk_pages_per_access_no_flush,
          ie_disk_aead_bytes_per_access_no_flush = usize_mul disk_pages_per_access_no_flush page_aead_bytes\<rparr>)"

definition estimate_image :: "oram_sizing \<Rightarrow> nat \<Rightarrow> nat \<Rightarrow> image_estimate result" where
  "estimate_image sz logical_blocks' block_payload_bytes =
     (let target_leaves = max (div_ceil logical_blocks' (sz_leaf_divisor sz)) 2 in
      rbind (next_power_of_two_or_err target_leaves) (\<lambda>leaves'.
      rbind (sizing_params sz logical_blocks' block_payload_bytes leaves') (\<lambda>p.
      Inr (estimate_fields sz logical_blocks' block_payload_bytes leaves' p))))"

section \<open>What the sizes mean\<close>

lemma sizing_params_ok:
  assumes "sizing_params sz n b l = Inr p" and "n < 2 ^ 64" and "sz_stash_capacity sz + 33 * sz_bucket_size sz < 2 ^ 64"
  shows "params_ok p" "logical_blocks p = n" "block_size p = b" "leaves p = l"
    "bucket_size p = sz_bucket_size sz" "stash_capacity p = sz_stash_capacity sz"
proof -
  obtain p0 where p0: "with_leaves n b l = Inr p0" and
    p: "p = p0\<lparr>bucket_size := sz_bucket_size sz, stash_capacity := sz_stash_capacity sz\<rparr>" "sz_bucket_size sz \<noteq> 0"
    using assms(1) by (auto simp: sizing_params_def with_bucket_size_def with_stash_capacity_def split: if_splits)
  note ok = with_leaves_ok [OF p0 assms(2)]
  have lb: "leaf_bits p = leaf_bits p0" "height p = height p0" using p by (simp_all add: leaf_bits_def height_def)
  have "height p0 \<le> 33" using params_ok_leaf_bits [of p0] ok by (simp add: height_def)
  then have "height p0 * sz_bucket_size sz \<le> 33 * sz_bucket_size sz" by (rule mult_le_mono1)
  with assms(3) have "sz_stash_capacity sz + height p0 * sz_bucket_size sz < 2 ^ 64" by linarith
  with ok lb p show "params_ok p" "logical_blocks p = n" "block_size p = b" "leaves p = l"
    "bucket_size p = sz_bucket_size sz" "stash_capacity p = sz_stash_capacity sz"
    by (auto simp: params_ok_def)
qed

text \<open>The nodes of a path below the cached levels are those at index \<open>cached_pages\<close> and above.\<close>

lemma uncached_path_nodes:
  assumes "params_ok p" and "c \<le> height p" and "unat leaf < leaves p"
  shows "length (filter (\<lambda>j. 2 ^ c - 1 \<le> j) (path_nodes p leaf)) = height p - c"
proof -
  have iff: "2 ^ c - 1 \<le> node_index p d leaf \<longleftrightarrow> c \<le> d" if "d < height p" for d
  proof
    assume "2 ^ c - 1 \<le> node_index p d leaf"
    then have "(2 :: nat) ^ c - 1 < 2 ^ Suc d - 1" using node_index_bounds(2) [OF assms(1,3) that] by linarith
    then have "(2 :: nat) ^ c < 2 ^ Suc d" by linarith
    then show "c \<le> d" using power_less_imp_less_exp [of "2 :: nat" c "Suc d"] by simp
  next
    assume "c \<le> d"
    then have "(2 :: nat) ^ c - 1 \<le> 2 ^ d - 1" by (intro diff_le_mono power_increasing) simp_all
    then show "2 ^ c - 1 \<le> node_index p d leaf" using node_index_bounds(1) [OF assms(1,3) that] by linarith
  qed
  have "filter (\<lambda>j. 2 ^ c - 1 \<le> j) (path_nodes p leaf) = map (\<lambda>d. node_index p d leaf) (filter (\<lambda>d. c \<le> d) [0..<height p])"
    unfolding path_nodes_def filter_map comp_def
    by (intro arg_cong [where f = "map _"] filter_cong refl) (use iff in auto)
  also have "filter (\<lambda>d. c \<le> d) [0..<height p] = [c..<height p]"
    using upt_add_eq_append [of 0 c "height p - c"] assms(2) by simp
  finally show ?thesis by simp
qed

text \<open>
  C29. The page traffic an estimate reports is what the tree costs: with the front cache it sizes, the
  path of every leaf has exactly \<open>disk_pages_per_access / 2\<close> buckets outside the cache (each is read
  and written once), the cached prefix is part of the image, and the parameters behind the estimate
  are well formed.
\<close>

theorem estimate_path_cost:
  assumes "estimate_image sz n b = Inr e" and "n < 2 ^ 64"
    and "sz_stash_capacity sz + 33 * sz_bucket_size sz < 2 ^ 64"
  shows "\<exists>p. params_ok p \<and> logical_blocks p = n \<and> block_size p = b \<and> bucket_size p = ie_bucket_size e \<and>
    ie_bucket_pages e = bucket_count p \<and> ie_leaves e = leaves p \<and> ie_cached_pages e \<le> bucket_count p \<and>
    (\<forall>leaf. unat leaf < leaves p \<longrightarrow> ie_disk_pages_per_access_no_flush e =
      2 * length (filter (\<lambda>j. ie_cached_pages e \<le> j) (path_nodes p leaf)))"
proof -
  obtain l p where p: "sizing_params sz n b l = Inr p" and e: "e = estimate_fields sz n b l p"
    using assms(1) by (auto simp: estimate_image_def Let_def)
  note ok = sizing_params_ok [OF p assms(2,3)]
  let ?c = "effective_cache_levels sz p"
  have c: "?c \<le> height p" by (simp add: effective_cache_levels_def)
  have cached: "ie_cached_pages e = 2 ^ ?c - 1" by (simp add: e estimate_fields_def Let_def)
  have "(2 :: nat) ^ ?c \<le> 2 ^ height p" using c by (intro power_increasing) simp_all
  then have "ie_cached_pages e \<le> bucket_count p"
    using params_ok_leaves [OF ok(1)] by (simp add: cached bucket_count_def height_def mult.commute)
  moreover have "ie_disk_pages_per_access_no_flush e =
      2 * length (filter (\<lambda>j. ie_cached_pages e \<le> j) (path_nodes p leaf))" if "unat leaf < leaves p" for leaf
    using uncached_path_nodes [OF ok(1) c that] by (simp add: cached) (simp add: e estimate_fields_def Let_def)
  moreover have "ie_bucket_pages e = bucket_count p" "ie_leaves e = leaves p" "ie_bucket_size e = bucket_size p"
    using ok by (simp_all add: e estimate_fields_def Let_def)
  ultimately show ?thesis using ok by metis
qed

theorem estimate_path_cost_witness:
  "\<exists>e p. estimate_image \<lparr>sz_per_block = 1, sz_leaf_divisor = 1, sz_bucket_size = 2, sz_stash_capacity = 8,
      sz_cache_levels = 1\<rparr> 4 16 = Inr e \<and> leaves p = 4 \<and>
    ie_disk_pages_per_access_no_flush e = 2 * length (filter (\<lambda>j. ie_cached_pages e \<le> j) (path_nodes p 3))"
proof -
  let ?sz = "\<lparr>sz_per_block = 1, sz_leaf_divisor = 1, sz_bucket_size = 2, sz_stash_capacity = 8, sz_cache_levels = 1\<rparr>"
  have pow: "next_power_of_two_or_err 4 = Inr 4"
    by (simp add: next_power_of_two_or_err_def checked_next_power_of_two_def pow2_at_least.simps)
  have wl: "with_leaves 4 16 4 = Inr \<lparr>logical_blocks = 4, block_size = 16, bucket_size = 4, leaves = 4, stash_capacity = 512\<rparr>"
    by (simp add: with_leaves_def is_power_of_two.simps)
  have "\<exists>p. sizing_params ?sz 4 16 4 = Inr p"
    by (simp add: sizing_params_def wl with_bucket_size_def with_stash_capacity_def height_def leaf_bits_def
        trailing_zeros.simps)
  then obtain p0 where "sizing_params ?sz 4 16 4 = Inr p0" ..
  then have e: "estimate_image ?sz 4 16 = Inr (estimate_fields ?sz 4 16 4 p0)"
    "ie_leaves (estimate_fields ?sz 4 16 4 p0) = 4"
    by (simp_all add: estimate_image_def div_ceil_def pow estimate_fields_def Let_def)
  let ?e = "estimate_fields ?sz 4 16 4 p0"
  from estimate_path_cost [OF e(1)] obtain p where "ie_leaves ?e = leaves p"
    "\<forall>leaf. unat leaf < leaves p \<longrightarrow> ie_disk_pages_per_access_no_flush ?e =
      2 * length (filter (\<lambda>j. ie_cached_pages ?e \<le> j) (path_nodes p leaf))" by auto
  with e have "leaves p = 4 \<and> ie_disk_pages_per_access_no_flush ?e =
      2 * length (filter (\<lambda>j. ie_cached_pages ?e \<le> j) (path_nodes p 3))" by simp
  with e(1) show ?thesis by blast
qed

end
