(* ===== verification/Cuckoo_Table.thy ===== *)
theory Cuckoo_Table
  imports Packed_Blocks Oram_Sizing
begin

text \<open>
  The cuckoo tables of src/src/cuckoo.rs: parsing the header of a DPF/Harmony table file, the sizes
  it implies, the reader that packs consecutive bins into logical blocks (the source a controller
  is built from), and the reader that serves the original bins through a controller.

  The file system is a parameter: \<open>fs\<close> maps a path to the contents a call sees there, for
  \<open>File::open\<close> and for the memory map alike; a missing entry is an I/O error.
\<close>

section \<open>Headers\<close>

datatype cuckoo_level = CuckooIndex | CuckooChunk

datatype anchor_kind = LegacyAnchor | SnapshotAnchor | DeltaAnchor

definition INDEX_CUCKOO_FILE :: string where
  "INDEX_CUCKOO_FILE = ''batch_pir_cuckoo.bin''"

definition CHUNK_CUCKOO_FILE :: string where
  "CHUNK_CUCKOO_FILE = ''chunk_pir_cuckoo.bin''"

definition INDEX_MAGIC :: u64 where
  "INDEX_MAGIC = 0xBA7CC000C0000004"

definition CHUNK_MAGIC :: u64 where
  "CHUNK_MAGIC = 0xBA7CC000C0000002"

definition ANCHOR_MAGIC_SNAPSHOT_XOR :: u64 where
  "ANCHOR_MAGIC_SNAPSHOT_XOR = 0x0000000100000000"

definition ANCHOR_MAGIC_DELTA_XOR :: u64 where
  "ANCHOR_MAGIC_DELTA_XOR = 0x0000000200000000"

definition CHAIN_ANCHOR_BYTES :: nat where
  "CHAIN_ANCHOR_BYTES = 36"

definition DELTA_ANCHOR_BYTES :: nat where
  "DELTA_ANCHOR_BYTES = 72"

fun cuckoo_filename :: "cuckoo_level \<Rightarrow> string" where
  "cuckoo_filename CuckooIndex = INDEX_CUCKOO_FILE"
| "cuckoo_filename CuckooChunk = CHUNK_CUCKOO_FILE"

fun base_magic :: "cuckoo_level \<Rightarrow> u64" where
  "base_magic CuckooIndex = INDEX_MAGIC"
| "base_magic CuckooChunk = CHUNK_MAGIC"

fun base_header_size :: "cuckoo_level \<Rightarrow> nat" where
  "base_header_size CuckooIndex = 40"
| "base_header_size CuckooChunk = 32"

fun cuckoo_slot_size :: "cuckoo_level \<Rightarrow> nat" where
  "cuckoo_slot_size CuckooIndex = 13"
| "cuckoo_slot_size CuckooChunk = 44"

fun extra_header_bytes :: "anchor_kind \<Rightarrow> nat" where
  "extra_header_bytes LegacyAnchor = 0"
| "extra_header_bytes SnapshotAnchor = CHAIN_ANCHOR_BYTES"
| "extra_header_bytes DeltaAnchor = DELTA_ANCHOR_BYTES"

definition parse_anchor_kind :: "cuckoo_level \<Rightarrow> u64 \<Rightarrow> anchor_kind result" where
  "parse_anchor_kind level magic =
     (let base = base_magic level in
      if magic = base then Inr LegacyAnchor
      else if magic = base XOR ANCHOR_MAGIC_SNAPSHOT_XOR then Inr SnapshotAnchor
      else if magic = base XOR ANCHOR_MAGIC_DELTA_XOR then Inr DeltaAnchor
      else Inl (InvalidInput ''{} cuckoo table has unknown magic 0x{magic:016x}''))"

record cuckoo_table =
  cu_level :: cuckoo_level
  cu_path :: string
  cu_file_bytes :: nat
  cu_magic :: u64
  cu_anchor_kind :: anchor_kind
  cu_data_offset :: nat
  cu_k :: nat
  cu_slots_per_bin :: nat
  cu_bins_per_table :: nat
  cu_num_hashes :: nat
  cu_master_seed :: u64
  cu_tag_seed :: "u64 option"
  cu_slot_size :: nat

definition cuckoo_bin_size :: "cuckoo_table \<Rightarrow> nat" where
  "cuckoo_bin_size t = usize_mul (cu_slots_per_bin t) (cu_slot_size t)"

definition total_bins :: "cuckoo_table \<Rightarrow> nat" where
  "total_bins t = usize_mul (cu_k t) (cu_bins_per_table t)"

definition table_byte_size :: "cuckoo_table \<Rightarrow> nat" where
  "table_byte_size t = usize_mul (cu_bins_per_table t) (cuckoo_bin_size t)"

definition expected_file_bytes :: "cuckoo_table \<Rightarrow> nat" where
  "expected_file_bytes t = usize_add (cu_data_offset t) (usize_mul (cu_k t) (table_byte_size t))"

definition cuckoo_validate :: "cuckoo_table \<Rightarrow> unit result" where
  "cuckoo_validate t =
     (if cu_k t = 0 then Inl (InvalidInput ''{} cuckoo table has k=0'')
      else if cu_slots_per_bin t = 0 then Inl (InvalidInput ''{} cuckoo table has slots_per_bin=0'')
      else if cu_bins_per_table t = 0 then Inl (InvalidInput ''{} cuckoo table has bins_per_table=0'')
      else if cu_num_hashes t = 0 then Inl (InvalidInput ''{} cuckoo table has num_hashes=0'')
      else if cu_file_bytes t \<noteq> expected_file_bytes t then
        Inl (InvalidInput ''{} cuckoo file {} has {} bytes, expected {} from header'')
      else Inr ())"

text \<open>
  \<open>File::open\<close> on a path, and \<open>read_exact\<close> of the first \<open>n\<close> bytes. \<open>fs\<close> gives the bytes that the
  system hands over for a path; a path whose file is missing, or cannot be opened, measured, read or
  mapped (\<open>MmapOptions::map\<close>), has none. The code returns the I/O error in each of these cases.
\<close>

definition open_file :: "(string \<rightharpoonup> bytes) \<Rightarrow> string \<Rightarrow> bytes result" where
  "open_file fs path = ok_or (fs path) (Io ''No such file or directory'')"

definition read_header :: "nat \<Rightarrow> bytes \<Rightarrow> bytes result" where
  "read_header n file =
     (if length file < n then Inl (Io ''failed to fill whole buffer'') else Inr (take n file))"

definition cuckoo_from_file :: "(string \<rightharpoonup> bytes) \<Rightarrow> cuckoo_level \<Rightarrow> string \<Rightarrow> cuckoo_table result" where
  "cuckoo_from_file fs level path =
     rbind (open_file fs path) (\<lambda>file.
     rbind (read_header (base_header_size level) file) (\<lambda>prefix.
     let header = copy_into 0 prefix (replicate 40 0);
         magic = u64_from_le_bytes (slice 0 8 header) in
     rbind (parse_anchor_kind level magic) (\<lambda>anchor_kind.
     let info = \<lparr>cu_level = level, cu_path = path, cu_file_bytes = length file, cu_magic = magic,
           cu_anchor_kind = anchor_kind,
           cu_data_offset = base_header_size level + extra_header_bytes anchor_kind,
           cu_k = unat (u32_from_le_bytes (slice 8 12 header)),
           cu_slots_per_bin = unat (u32_from_le_bytes (slice 12 16 header)),
           cu_bins_per_table = unat (u32_from_le_bytes (slice 16 20 header)),
           cu_num_hashes = unat (u32_from_le_bytes (slice 20 24 header)),
           cu_master_seed = u64_from_le_bytes (slice 24 32 header),
           cu_tag_seed = (if level = CuckooIndex then Some (u64_from_le_bytes (slice 32 40 header)) else None),
           cu_slot_size = cuckoo_slot_size level\<rparr> in
     rbind (cuckoo_validate info) (\<lambda>_. Inr info))))"

text \<open>\<open>load_pair\<close>; \<open>join\<close> is \<open>Path::join\<close>.\<close>

definition load_pair ::
  "(string \<rightharpoonup> bytes) \<Rightarrow> (string \<Rightarrow> string \<Rightarrow> string) \<Rightarrow> string \<Rightarrow> (cuckoo_table \<times> cuckoo_table) result" where
  "load_pair fs join db_dir =
     rbind (cuckoo_from_file fs CuckooIndex (join db_dir (cuckoo_filename CuckooIndex))) (\<lambda>i.
     rbind (cuckoo_from_file fs CuckooChunk (join db_dir (cuckoo_filename CuckooChunk))) (\<lambda>c. Inr (i, c)))"

section \<open>Packed locations\<close>

record packed_location =
  lo_logical_block :: nat
  lo_byte_offset :: nat
  lo_byte_len :: nat

definition locate_packed_cuckoo_bin :: "nat \<Rightarrow> nat \<Rightarrow> nat \<Rightarrow> nat \<Rightarrow> packed_location result" where
  "locate_packed_cuckoo_bin total_bins' bins_per_block bin_size bin_id =
     (if bins_per_block = 0 then Inl (InvalidInput ''bins_per_block must be > 0'')
      else if bin_size = 0 then Inl (InvalidInput ''bin_size must be > 0'')
      else if bin_id \<ge> total_bins' then Inl (InvalidInput ''bin_id {} out of range {}'')
      else
        let slot_in_block = bin_id mod bins_per_block in
        Inr \<lparr>lo_logical_block = bin_id div bins_per_block,
             lo_byte_offset = usize_mul slot_in_block bin_size, lo_byte_len = bin_size\<rparr>)"

text \<open>\<open>block[location.byte_range()].to_vec()\<close>, which panics outside the block.\<close>

definition slice_location :: "packed_location \<Rightarrow> bytes \<Rightarrow> bytes result" where
  "slice_location loc block =
     (let end = usize_add (lo_byte_offset loc) (lo_byte_len loc) in
      if lo_byte_offset loc \<le> end \<and> end \<le> length block then Inr (slice (lo_byte_offset loc) end block)
      else Inl (Panic ''range out of range for slice''))"

section \<open>The packed block reader\<close>

record packed_reader =
  pr_table :: cuckoo_table
  pr_bins_per_block :: nat
  pr_logical_blocks :: nat
  pr_block_payload_bytes :: nat
  pr_next_block :: nat
  pr_mmap :: bytes

definition packed_open :: "(string \<rightharpoonup> bytes) \<Rightarrow> cuckoo_table \<Rightarrow> nat \<Rightarrow> packed_reader result" where
  "packed_open fs t bins_per_block =
     (if bins_per_block = 0 then Inl (InvalidInput ''bins_per_block must be > 0'')
      else rbind (open_file fs (cu_path t)) (\<lambda>mmap.
        Inr \<lparr>pr_table = t, pr_bins_per_block = bins_per_block,
             pr_logical_blocks = div_ceil (total_bins t) bins_per_block,
             pr_block_payload_bytes = usize_mul (cuckoo_bin_size t) bins_per_block,
             pr_next_block = 0, pr_mmap = mmap\<rparr>))"

text \<open>
  \<open>read_block\<close>: a block below the count starts below the number of bins, so the product and the
  difference that locate it cannot wrap; the byte counts can.
\<close>

definition packed_read_block :: "nat \<Rightarrow> packed_reader \<Rightarrow> bytes result" where
  "packed_read_block logical_block s =
     (if logical_block \<ge> pr_logical_blocks s then Inl (InvalidInput ''logical block {} out of range {}'')
      else
        let t = pr_table s;
            start_bin = logical_block * pr_bins_per_block s;
            remaining_bins = total_bins t - start_bin;
            bins_to_read = min remaining_bins (pr_bins_per_block s);
            bytes_to_read = usize_mul bins_to_read (cuckoo_bin_size t);
            offset = usize_add (cu_data_offset t) (usize_mul start_bin (cuckoo_bin_size t));
            end = usize_add offset bytes_to_read in
        if end > length (pr_mmap s) then
          Inl (InvalidInput ''logical block {} reaches byte {} past mapped file length {}'')
        else if bytes_to_read > pr_block_payload_bytes s \<or> offset > end then
          Inl (Panic ''range out of range for slice'')
        else Inr (copy_into 0 (slice offset end (pr_mmap s)) (replicate (pr_block_payload_bytes s) 0)))"

definition packed_read_bin :: "nat \<Rightarrow> packed_reader \<Rightarrow> bytes result" where
  "packed_read_bin bin_id s =
     (let t = pr_table s in
      rbind (locate_packed_cuckoo_bin (total_bins t) (pr_bins_per_block s) (cuckoo_bin_size t) bin_id) (\<lambda>location.
      rbind (packed_read_block (lo_logical_block location) s) (slice_location location)))"

text \<open>The iterator and the block source of the reader.\<close>

definition packed_next :: "packed_reader \<Rightarrow> bytes result option \<times> packed_reader" where
  "packed_next s =
     (if pr_next_block s \<ge> pr_logical_blocks s then (None, s)
      else
        let block_idx = pr_next_block s; s = s\<lparr>pr_next_block := pr_next_block s + 1\<rparr>
        in (Some (packed_read_block block_idx s), s))"

definition packed_source_ops :: "packed_reader block_source" where
  "packed_source_ops =
     \<lparr>bs_logical_blocks = pr_logical_blocks, bs_block_size = pr_block_payload_bytes,
      bs_read_block = (\<lambda>logical_id s. (packed_read_block logical_id s, s))\<rparr>"

section \<open>Reading bins through a controller\<close>

record ('m, 'p, 'r) cuckoo_bin_reader =
  cb_level :: cuckoo_level
  cb_total_bins :: nat
  cb_bins_per_block :: nat
  cb_bin_size :: nat
  cb_oram :: "('m, 'p, 'r) circuit_oram"

abbreviation on_cuckoo_oram :: "(('m, 'p, 'r) circuit_oram, 'a) comp \<Rightarrow> (('m, 'p, 'r) cuckoo_bin_reader, 'a) comp" where
  "on_cuckoo_oram \<equiv> zoom cb_oram (\<lambda>t s. s\<lparr>cb_oram := t\<rparr>)"

record cuckoo_bin_read =
  cr_bin_id :: nat
  cr_logical_block :: nat
  cr_byte_offset :: nat
  cr_payload :: bytes
  cr_drained_evictions :: u64

definition cuckoo_reader_new ::
  "cuckoo_table \<Rightarrow> nat \<Rightarrow> ('m, 'p, 'r) circuit_oram \<Rightarrow> ('m, 'p, 'r) cuckoo_bin_reader result" where
  "cuckoo_reader_new t bins_per_block oram =
     (if bins_per_block = 0 then Inl (InvalidInput ''bins_per_block must be > 0'')
      else if logical_blocks (co_params oram) \<noteq> div_ceil (total_bins t) bins_per_block then
        Inl (InvalidInput ''{} ORAM logical_blocks {} != packed cuckoo logical_blocks {}'')
      else if block_size (co_params oram) \<noteq> usize_mul (cuckoo_bin_size t) bins_per_block then
        Inl (InvalidInput ''{} ORAM block_size {} != packed cuckoo block_size {}'')
      else Inr \<lparr>cb_level = cu_level t, cb_total_bins = total_bins t, cb_bins_per_block = bins_per_block,
                cb_bin_size = cuckoo_bin_size t, cb_oram = oram\<rparr>)"

definition cuckoo_read_bin ::
  "('c, 'm, 'p, 'r) circuit_env \<Rightarrow> nat \<Rightarrow> u64 \<Rightarrow> (('m, 'p, 'r) cuckoo_bin_reader, cuckoo_bin_read) comp" where
  "cuckoo_read_bin E bin_id drain_per_access =
     bnd (gets (\<lambda>s. locate_packed_cuckoo_bin (cb_total_bins s) (cb_bins_per_block s) (cb_bin_size s) bin_id)) (\<lambda>r.
     bnd (lift r) (\<lambda>location.
     bnd (on_cuckoo_oram (read_block E (word_of_nat (lo_logical_block location)))) (\<lambda>block.
     bnd (lift (slice_location location block)) (\<lambda>payload.
     bnd (on_cuckoo_oram (drain_evictions E drain_per_access)) (\<lambda>drained_evictions.
     ret \<lparr>cr_bin_id = bin_id, cr_logical_block = lo_logical_block location,
          cr_byte_offset = lo_byte_offset location, cr_payload = payload,
          cr_drained_evictions = drained_evictions\<rparr>)))))"

section \<open>Sizing\<close>

type_synonym cuckoo_sizing = oram_sizing

record cuckoo_estimate = image_estimate +
  ce_level :: cuckoo_level
  ce_total_bins :: nat

definition cuckoo_estimate_sizes :: "cuckoo_sizing \<Rightarrow> cuckoo_table \<Rightarrow> cuckoo_estimate result" where
  "cuckoo_estimate_sizes sz t =
     (if sz_per_block sz = 0 then Inl (InvalidParams ''bins_per_block must be > 0'')
      else if sz_leaf_divisor sz = 0 then Inl (InvalidParams ''leaf_divisor must be > 0'')
      else rbind (estimate_image sz (div_ceil (total_bins t) (sz_per_block sz))
               (usize_mul (cuckoo_bin_size t) (sz_per_block sz)))
        (\<lambda>e. Inr (image_estimate.extend e (cuckoo_estimate.fields (cu_level t) (total_bins t)))))"

end
