(* ===== verification/Cuckoo_Theorems.thy ===== *)
theory Cuckoo_Theorems
  imports Cuckoo_Table
begin

text \<open>
  What the cuckoo adapter (src/src/cuckoo.rs) promises: the packed reader is a source of the packed
  bins of the file, so that a controller built from it serves exactly the bins of the table; and
  what the size check of the header does not catch.
\<close>

section \<open>Parsed tables\<close>

text \<open>The header's products fit in 64 bits; then the size check means what it says.\<close>

definition cuckoo_exact :: "cuckoo_table \<Rightarrow> bool" where
  "cuckoo_exact t \<longleftrightarrow>
     cu_data_offset t + cu_k t * (cu_bins_per_table t * (cu_slots_per_bin t * cu_slot_size t)) < 2 ^ 64"

definition cuckoo_bins :: "cuckoo_table \<Rightarrow> bytes \<Rightarrow> bytes list" where
  "cuckoo_bins t file = flat_items (cu_data_offset t) (cuckoo_bin_size t) (total_bins t) file"

lemma cuckoo_from_file_fields:
  assumes "cuckoo_from_file fs level path = Inr t"
  obtains bs where "fs path = Some bs" "cu_path t = path" "cu_file_bytes t = length bs" "cu_level t = level"
    "0 < cu_k t" "0 < cu_slots_per_bin t" "0 < cu_bins_per_table t" "0 < cu_slot_size t"
    "length bs = expected_file_bytes t"
  using assms
  by (cases level; cases "fs path")
    (auto simp: cuckoo_from_file_def open_file_def Let_def cuckoo_validate_def split: if_splits)

lemma cuckoo_exact_sizes:
  assumes "cuckoo_exact t" and "0 < cu_k t" "0 < cu_slots_per_bin t" "0 < cu_bins_per_table t" "0 < cu_slot_size t"
  shows "cuckoo_bin_size t = cu_slots_per_bin t * cu_slot_size t" "total_bins t = cu_k t * cu_bins_per_table t"
    "expected_file_bytes t = cu_data_offset t + total_bins t * cuckoo_bin_size t"
    "0 < cuckoo_bin_size t" "0 < total_bins t"
    "cu_data_offset t + total_bins t * cuckoo_bin_size t < 2 ^ 64"
proof -
  let ?s = "cu_slots_per_bin t * cu_slot_size t" and ?b = "cu_bins_per_table t"
  have s: "0 < ?s" using assms by simp
  have all: "cu_data_offset t + cu_k t * (?b * ?s) < 2 ^ 64" using assms(1) by (simp add: cuckoo_exact_def)
  have bs: "?b * ?s \<le> cu_k t * (?b * ?s)" using assms(2) by simp
  have "?s \<le> ?b * ?s" using assms(4) by simp
  with bs all have 1: "?s < 2 ^ 64" by linarith
  from s have "1 \<le> ?s" by simp
  then have "cu_k t * ?b * 1 \<le> cu_k t * ?b * ?s" by (rule mult_le_mono2)
  then have "cu_k t * ?b \<le> cu_k t * (?b * ?s)" by (simp only: mult.assoc mult_1_right)
  with all have 2: "cu_k t * ?b < 2 ^ 64" by linarith
  from 1 show k: "cuckoo_bin_size t = ?s" by (simp add: cuckoo_bin_size_def)
  from 2 show n: "total_bins t = cu_k t * ?b" by (simp add: total_bins_def)
  from bs all have "?b * ?s < 2 ^ 64" by linarith
  then have "table_byte_size t = ?b * ?s" by (simp add: table_byte_size_def k)
  with all show "expected_file_bytes t = cu_data_offset t + total_bins t * cuckoo_bin_size t"
    by (simp add: expected_file_bytes_def n k mult.assoc)
  from s k show "0 < cuckoo_bin_size t" by simp
  from assms n show "0 < total_bins t" by simp
  from all show "cu_data_offset t + total_bins t * cuckoo_bin_size t < 2 ^ 64" by (simp add: n k mult.assoc)
qed

section \<open>The packed reader is a block source\<close>

text \<open>A reader over a file that holds the whole table, with block sizes that do not wrap.\<close>

definition reader_ok :: "cuckoo_table \<Rightarrow> nat \<Rightarrow> bytes \<Rightarrow> packed_reader \<Rightarrow> bool" where
  "reader_ok t n file s \<longleftrightarrow>
     pr_table s = t \<and> pr_bins_per_block s = n \<and> pr_mmap s = file \<and> 0 < n \<and>
     pr_logical_blocks s = div_ceil (total_bins t) n \<and> pr_block_payload_bytes s = cuckoo_bin_size t * n \<and>
     cuckoo_bin_size t * n < 2 ^ 64 \<and>
     length file = cu_data_offset t + total_bins t * cuckoo_bin_size t \<and> length file < 2 ^ 64"

lemma packed_read_block_eq:
  assumes "reader_ok t n file s" and "b < div_ceil (total_bins t) n"
  shows "packed_read_block b s = Inr (packed n (cuckoo_bin_size t) (cuckoo_bins t file) ! b)"
proof -
  let ?k = "cuckoo_bin_size t" and ?off = "cu_data_offset t" and ?m = "min (total_bins t - b * n) n"
  have n: "0 < n" and len: "length file = ?off + total_bins t * ?k" "length file < 2 ^ 64" "?k * n < 2 ^ 64"
    using assms(1) by (simp_all add: reader_ok_def)
  have b: "b * n < total_bins t" using assms(2) div_ceil_bounds [OF n] by simp
  have le: "(b * n + ?m) * ?k \<le> total_bins t * ?k" "?m * ?k \<le> n * ?k"
    using b by (intro mult_le_mono1; simp)+
  then have "?off + (b * n * ?k + ?m * ?k) \<le> length file" using len(1) by (simp add: algebra_simps)
  with len(2) have lt: "?off + (b * n * ?k + ?m * ?k) < 2 ^ 64" by linarith
  from le(1) have fits: "\<not> length file < ?off + b * n * ?k + ?m * ?k" using len(1) by (simp add: add_mult_distrib)
  from lt have "b * n * ?k < 2 ^ 64" "?off + b * n * ?k < 2 ^ 64" "?m * ?k < 2 ^ 64" "?off + b * n * ?k + ?m * ?k < 2 ^ 64"
    by linarith+
  then have eqs: "usize_mul (b * n) ?k = b * n * ?k" "usize_add ?off (b * n * ?k) = ?off + b * n * ?k"
    "usize_mul ?m ?k = ?m * ?k" "usize_add (?off + b * n * ?k) (?m * ?k) = ?off + b * n * ?k + ?m * ?k" by simp_all
  have "packed_read_block b s = Inr (copy_into 0 (slice (?off + b * n * ?k) (?off + b * n * ?k + ?m * ?k) file)
      (replicate (n * ?k) 0))"
    using assms le(2) fits
    by (simp add: packed_read_block_def reader_ok_def Let_def eqs mult.commute [of n ?k])
  also have "\<dots> = Inr (packed_block n ?k (cuckoo_bins t file) b)"
    unfolding cuckoo_bins_def using len(1) b by (subst packed_block_flat) auto
  finally show ?thesis using assms(2) by (simp add: packed_def cuckoo_bins_def)
qed

interpretation packed_source: block_source_spec packed_source_ops "reader_ok t n bs"
  "packed n (cuckoo_bin_size t) (cuckoo_bins t bs)"
  for t :: cuckoo_table and n :: nat and bs :: bytes
proof
  show "bs_logical_blocks packed_source_ops s = length (packed n (cuckoo_bin_size t) (cuckoo_bins t bs))"
    if "reader_ok t n bs s" for s
    using that by (simp add: packed_source_ops_def reader_ok_def cuckoo_bins_def)
  show "\<exists>s'. bs_read_block packed_source_ops i s =
      (Inr (packed n (cuckoo_bin_size t) (cuckoo_bins t bs) ! i), s') \<and> reader_ok t n bs s'"
    if "reader_ok t n bs s" "i < length (packed n (cuckoo_bin_size t) (cuckoo_bins t bs))" for s i
    using that packed_read_block_eq [OF that(1), of i] by (simp add: packed_source_ops_def cuckoo_bins_def)
  show "bs_block_size packed_source_ops s' = bs_block_size packed_source_ops s"
    if "reader_ok t n bs s" "reader_ok t n bs s'" for s s'
    using that by (simp add: packed_source_ops_def reader_ok_def)
qed

lemma packed_open_ok:
  assumes "cuckoo_from_file fs level path = Inr t" and "cuckoo_exact t" and "fs path = Some file"
    and "packed_open fs t n = Inr s" and "cuckoo_bin_size t * n < 2 ^ 64"
  shows "reader_ok t n file s" "0 < cuckoo_bin_size t"
proof -
  from assms(1) obtain bs where f: "fs path = Some bs" "cu_path t = path" "0 < cu_k t" "0 < cu_slots_per_bin t"
    "0 < cu_bins_per_table t" "0 < cu_slot_size t" "length bs = expected_file_bytes t"
    by (rule cuckoo_from_file_fields)
  note sizes = cuckoo_exact_sizes [OF assms(2) f(3-6)]
  show "reader_ok t n file s" "0 < cuckoo_bin_size t"
    using assms(3-5) f sizes by (auto simp: packed_open_def reader_ok_def open_file_def split: if_splits)
qed

section \<open>Serving bins\<close>

lemma locate_bin:
  assumes "i < m" and "0 < n" "0 < k" "k * n < 2 ^ 64"
  shows "locate_packed_cuckoo_bin m n k i =
      Inr \<lparr>lo_logical_block = i div n, lo_byte_offset = i mod n * k, lo_byte_len = k\<rparr>"
    and "length block = n * k \<Longrightarrow> slice_location \<lparr>lo_logical_block = i div n, lo_byte_offset = i mod n * k,
      lo_byte_len = k\<rparr> block = Inr (slice (i mod n * k) (i mod n * k + k) block)"
proof -
  have "Suc (i mod n) * k \<le> n * k" using assms(2) by (intro mult_le_mono1) (simp add: Suc_leI)
  then have le: "i mod n * k + k \<le> n * k" by simp
  with assms(4) have lt: "i mod n * k + k < 2 ^ 64" by (simp add: mult.commute [of n k])
  then have "i mod n * k < 2 ^ 64" by linarith
  with assms show "locate_packed_cuckoo_bin m n k i =
      Inr \<lparr>lo_logical_block = i div n, lo_byte_offset = i mod n * k, lo_byte_len = k\<rparr>"
    by (simp add: locate_packed_cuckoo_bin_def)
  from le lt show "length block = n * k \<Longrightarrow> slice_location \<lparr>lo_logical_block = i div n, lo_byte_offset = i mod n * k,
      lo_byte_len = k\<rparr> block = Inr (slice (i mod n * k) (i mod n * k + k) block)"
    by (simp add: slice_location_def)
qed

text \<open>A reader over a controller that serves the packed bins.\<close>

definition bin_reader_ok ::
  "('c, 'm, 'p, 'r) circuit_env \<Rightarrow> ('m, 'p) store_views \<Rightarrow> bytes list \<Rightarrow> nat \<Rightarrow> nat \<Rightarrow> nat \<Rightarrow>
    ('m, 'p, 'r) cuckoo_bin_reader \<Rightarrow> bool" where
  "bin_reader_ok E V items n k room s \<longleftrightarrow>
     serves E V (packed n k items) room (cb_oram s) \<and> cb_total_bins s = length items \<and>
     cb_bins_per_block s = n \<and> cb_bin_size s = k \<and> 0 < n \<and> 0 < k \<and> k * n < 2 ^ 64 \<and>
     (\<forall>x \<in> set items. length x = k)"

lemma cuckoo_read_bin_ok:
  assumes "bin_reader_ok E V items n k (Suc room) s" and "i < length items"
  obtains read s' where "cuckoo_read_bin E i drain s = (Inr read, s')" "cr_payload read = items ! i"
    "cr_bin_id read = i" "bin_reader_ok E V items n k room s'" "co_params (cb_oram s') = co_params (cb_oram s)"
proof -
  let ?D = "packed n k items"
  have nk: "0 < n" "0 < k" "k * n < 2 ^ 64" and items: "\<And>x. x \<in> set items \<Longrightarrow> length x = k"
    and s: "serves E V ?D (Suc room) (cb_oram s)" "cb_total_bins s = length items" "cb_bins_per_block s = n"
      "cb_bin_size s = k"
    using assms(1) by (auto simp: bin_reader_ok_def)
  have b: "i div n < length ?D" using div_ceil_item [OF assms(2) nk(1)] by simp
  obtain o1 m o2 where o: "read_block E (word_of_nat (i div n)) (cb_oram s) = (Inr (?D ! (i div n)), o1)"
    "drain_evictions E drain o1 = (Inr m, o2)" "serves E V ?D room o2 \<and> co_params o2 = co_params (cb_oram s)"
    by (rule oram_server.read_drain [OF conjI [OF s(1) refl] b])
  have len: "length (?D ! (i div n)) = n * k"
    using packed_lengths [of items k "?D ! (i div n)" n] items b by auto
  let ?loc = "\<lparr>lo_logical_block = i div n, lo_byte_offset = i mod n * k, lo_byte_len = k\<rparr>"
  let ?r = "\<lparr>cr_bin_id = i, cr_logical_block = i div n, cr_byte_offset = i mod n * k,
      cr_payload = items ! i, cr_drained_evictions = m\<rparr>"
  have "slice_location ?loc (?D ! (i div n)) = Inr (items ! i)"
    using locate_bin(2) [OF assms(2) nk len] packed_item [OF items assms(2) nk(1)] by simp
  then have "cuckoo_read_bin E i drain s = (Inr ?r, s\<lparr>cb_oram := o2\<rparr>)"
    using o s by (simp add: cuckoo_read_bin_def locate_bin(1) [OF assms(2) nk] bnd_gets_run bnd_lift_Inr_run
        bnd_Inr [OF zoom_run] comp_simps)
  moreover have "bin_reader_ok E V items n k room (s\<lparr>cb_oram := o2\<rparr>)"
    using assms(1) o(3) by (simp add: bin_reader_ok_def)
  ultimately show thesis using that [of ?r "s\<lparr>cb_oram := o2\<rparr>"] o(3) by simp
qed

lemma cuckoo_read_bins_ok:
  assumes "bin_reader_ok E V items n k (length ids) s" and "\<forall>i \<in> set ids. i < length items"
  shows "\<exists>reads s'. cmapM (\<lambda>i. cuckoo_read_bin E i drain) ids s = (Inr reads, s') \<and>
    map cr_payload reads = map ((!) items) ids"
  using assms
proof (induction ids arbitrary: s)
  case Nil
  then show ?case by (simp add: comp_simps)
next
  case (Cons i ids)
  then have "bin_reader_ok E V items n k (Suc (length ids)) s" "i < length items" by simp_all
  then obtain r s1 where 1: "cuckoo_read_bin E i drain s = (Inr r, s1)" "cr_payload r = items ! i"
    "bin_reader_ok E V items n k (length ids) s1"
    using cuckoo_read_bin_ok [of E V items n k "length ids" s i drain] by blast
  from Cons.IH [OF 1(3)] Cons.prems(2) 1 show ?case by (auto simp: bnd_Inr_iff comp_simps)
qed

section \<open>From the file to the answers\<close>

text \<open>
  C28. From the table file to the answers. Parse a cuckoo table (whose header sizes do not wrap), pack
  \<open>n\<close> bins per block, build a controller from the packed reader over honest stores of the right
  dimensions with a roomy stash, and wrap it in a bin reader: every step succeeds, and any sequence
  of bin reads, with evictions drained in between at any rate, returns exactly the bytes the table
  file has for these bins.
\<close>

theorem cuckoo_bins_served:
  assumes "cuckoo_from_file fs level path = Inr t" and "cuckoo_exact t" and "fs path = Some table_bytes"
    and "packed_open fs t n = Inr rd" and "cuckoo_bin_size t * n < 2 ^ 64"
    and spec: "subtle_spec sb" "page_store_spec mps mok mpages" "page_store_spec pps pok ppages"
    and p: "params_ok p" "logical_blocks p = pr_logical_blocks rd" "block_size p = pr_block_payload_bytes rd"
      "logical_blocks p < stash_capacity p"
    and m: "mok m" "ps_page_count mps m = bucket_count p" "ps_page_size mps m = circuit_meta_page_bytes (bucket_size p)"
    and q: "pok q" "ps_page_count pps q = bucket_count p"
      "ps_page_size pps q = circuit_payload_page_bytes (bucket_size p) (block_size p)"
    and E: "E = \<lparr>e_ct = sb, e_next_u64 = next_u64, e_meta = path_of_page_store mps, e_payload = path_of_page_store pps\<rparr>"
    and ids: "\<forall>i \<in> set ids. i < total_bins t" "length ids * 2 < 2 ^ 64"
  shows "\<exists>oram br reads br'.
    build_trusted_from_source sb next_u64 from_seed mps pps packed_source_ops p m q rd seed = Inr oram \<and>
    cuckoo_reader_new t n oram = Inr br \<and>
    cmapM (\<lambda>i. cuckoo_read_bin E i drain) ids br = (Inr reads, br') \<and>
    map cr_payload reads = map (\<lambda>i. slice (cu_data_offset t + i * cuckoo_bin_size t)
      (cu_data_offset t + i * cuckoo_bin_size t + cuckoo_bin_size t) table_bytes) ids"
proof -
  let ?k = "cuckoo_bin_size t" and ?items = "cuckoo_bins t table_bytes"
  let ?V = "\<lparr>v_meta_ok = mok, v_meta_pages = mpages, v_payload_ok = pok, v_payload_pages = ppages\<rparr>"
  have rd: "reader_ok t n table_bytes rd" "0 < ?k" using packed_open_ok [OF assms(1-5)] by simp_all
  then have n: "0 < n" "?k * n < 2 ^ 64" and len: "cu_data_offset t + total_bins t * ?k \<le> length table_bytes"
    by (simp_all add: reader_ok_def)
  have items: "length ?items = total_bins t" "\<And>x. x \<in> set ?items \<Longrightarrow> length x = ?k"
    using flat_items_lengths [OF len] by (simp_all add: cuckoo_bins_def)
  have dims: "logical_blocks p = div_ceil (total_bins t) n" "block_size p = n * ?k"
    using rd(1) p(2,3) by (simp_all add: reader_ok_def)
  have build: "circuit_build_spec sb mps pps ?V packed_source_ops (reader_ok t n table_bytes) (packed n ?k ?items)"
    using spec packed_source.block_source_spec_axioms by (simp add: circuit_build_spec_def)
  have "\<forall>d \<in> set (packed n ?k ?items). length d = block_size p"
    using packed_lengths [of ?items ?k _ n] items(2) dims(2) by auto
  then obtain oram where o: "build_trusted_from_source sb next_u64 from_seed mps pps packed_source_ops p m q rd seed = Inr oram"
    "serves E ?V (packed n ?k ?items) (length ids) oram" "co_params oram = p"
    using circuit_build_spec.build_serves [OF build p(1) _ _ _ m(2,3) _ q(2,3) rd(1) _ E p(4) ids(2),
        of from_seed seed] m(1) q(1) dims p(3) items(1) by (auto simp: packed_source_ops_def)
  let ?br = "\<lparr>cb_level = cu_level t, cb_total_bins = total_bins t, cb_bins_per_block = n, cb_bin_size = ?k, cb_oram = oram\<rparr>"
  have br: "cuckoo_reader_new t n oram = Inr ?br"
    using o(3) n dims by (simp add: cuckoo_reader_new_def mult.commute)
  have "bin_reader_ok E ?V ?items n ?k (length ids) ?br"
    using o(2) items n rd(2) by (simp add: bin_reader_ok_def)
  then obtain reads br' where r: "cmapM (\<lambda>i. cuckoo_read_bin E i drain) ids ?br = (Inr reads, br')"
    "map cr_payload reads = map ((!) ?items) ids"
    using cuckoo_read_bins_ok [of E ?V ?items n ?k ids ?br drain] ids(1) items(1) by auto
  have "map ((!) ?items) ids = map (\<lambda>i. slice (cu_data_offset t + i * ?k) (cu_data_offset t + i * ?k + ?k) table_bytes) ids"
    using ids(1) by (simp add: cuckoo_bins_def flat_items_def)
  with o(1) br r show ?thesis by auto
qed

text \<open>A table file: header fields, then the data.\<close>

definition chunk_file :: "u32 \<Rightarrow> u32 \<Rightarrow> u32 \<Rightarrow> u32 \<Rightarrow> u64 \<Rightarrow> bytes \<Rightarrow> bytes" where
  "chunk_file k slots bins hashes seed data =
     u64_to_le_bytes CHUNK_MAGIC @ u32_to_le_bytes k @ u32_to_le_bytes slots @ u32_to_le_bytes bins @
     u32_to_le_bytes hashes @ u64_to_le_bytes seed @ data"

lemma chunk_file_parse:
  fixes path k slots bins hashes seed data
  defines "t \<equiv> \<lparr>cu_level = CuckooChunk, cu_path = path, cu_file_bytes = 32 + length data, cu_magic = CHUNK_MAGIC,
      cu_anchor_kind = LegacyAnchor, cu_data_offset = 32, cu_k = unat k, cu_slots_per_bin = unat slots,
      cu_bins_per_table = unat bins, cu_num_hashes = unat hashes, cu_master_seed = seed, cu_tag_seed = None,
      cu_slot_size = 44\<rparr>"
  assumes "fs path = Some (chunk_file k slots bins hashes seed data)"
  shows "cuckoo_from_file fs CuckooChunk path = rbind (cuckoo_validate t) (\<lambda>_. Inr t)"
  using assms(2) unfolding t_def
  by (simp add: cuckoo_from_file_def open_file_def read_header_def chunk_file_def Let_def copy_into_def slice_def
      parse_anchor_kind_def)

lemma unat_products:
  fixes k slots bins :: u32
  shows "expected_file_bytes \<lparr>cu_level = CuckooChunk, cu_path = path, cu_file_bytes = n, cu_magic = CHUNK_MAGIC,
      cu_anchor_kind = LegacyAnchor, cu_data_offset = 32, cu_k = unat k, cu_slots_per_bin = unat slots,
      cu_bins_per_table = unat bins, cu_num_hashes = h, cu_master_seed = seed, cu_tag_seed = None,
      cu_slot_size = 44\<rparr> = (32 + unat k * unat bins * unat slots * 44) mod 2 ^ 64"
    and "usize_mul (unat k) (unat bins) = unat k * unat bins"
proof -
  show "expected_file_bytes \<lparr>cu_level = CuckooChunk, cu_path = path, cu_file_bytes = n, cu_magic = CHUNK_MAGIC,
      cu_anchor_kind = LegacyAnchor, cu_data_offset = 32, cu_k = unat k, cu_slots_per_bin = unat slots,
      cu_bins_per_table = unat bins, cu_num_hashes = h, cu_master_seed = seed, cu_tag_seed = None,
      cu_slot_size = 44\<rparr> = (32 + unat k * unat bins * unat slots * 44) mod 2 ^ 64"
    by (simp add: expected_file_bytes_def table_byte_size_def cuckoo_bin_size_def usize_mul_def usize_add_def
        mod_simps mult.assoc del: power_numeral)
  have "unat k \<le> 2 ^ 32 - 1" "unat bins \<le> 2 ^ 32 - 1"
    using unsigned_less [of k, where 'a = nat] unsigned_less [of bins, where 'a = nat] by simp_all
  then have "unat k * unat bins \<le> (2 ^ 32 - 1) * (2 ^ 32 - 1)" by (rule mult_le_mono)
  then show "usize_mul (unat k) (unat bins) = unat k * unat bins" by simp
qed

text \<open>
  C30. What the size check of a header is worth. A chunk file is accepted exactly when none of its
  four counts is 0 and its length is the length its header implies, modulo 2 ^ 64: the products of
  \<open>validate\<close> wrap in a build without overflow checks. A longer or shorter file is refused, but when
  the implied length exceeds 2 ^ 64 a far shorter file passes, and the table reports all the bins
  that its header claims. (The witness: 32 bytes, a header and no data, claim 2 ^ 34 bins.)
\<close>

theorem cuckoo_header_wraps:
  assumes "fs path = Some (chunk_file k slots bins hashes seed data)"
  shows "((\<exists>t. cuckoo_from_file fs CuckooChunk path = Inr t) \<longleftrightarrow>
      k \<noteq> 0 \<and> slots \<noteq> 0 \<and> bins \<noteq> 0 \<and> hashes \<noteq> 0 \<and>
      32 + length data = (32 + unat k * unat bins * unat slots * 44) mod 2 ^ 64) \<and>
    (\<forall>t. cuckoo_from_file fs CuckooChunk path = Inr t \<longrightarrow>
      total_bins t = unat k * unat bins \<and> cu_slots_per_bin t = unat slots \<and> cu_file_bytes t = 32 + length data)"
  by (auto simp: chunk_file_parse [where fs = fs, OF assms] cuckoo_validate_def total_bins_def unat_eq_zero unat_products
      simp del: power_numeral split: if_splits)

theorem cuckoo_header_wraps_witness:
  "\<exists>t. cuckoo_from_file [''db'' \<mapsto> chunk_file 16 (2 ^ 30) (2 ^ 30) 1 0 []] CuckooChunk ''db'' = Inr t \<and>
    cu_file_bytes t = 32 \<and> total_bins t = 2 ^ 34"
proof -
  let ?fs = "[''db'' \<mapsto> chunk_file 16 (2 ^ 30) (2 ^ 30) 1 0 []]"
  have fs: "?fs ''db'' = Some (chunk_file 16 (2 ^ 30) (2 ^ 30) 1 0 [])" by simp
  note w = cuckoo_header_wraps [where fs = ?fs and path = "''db''", OF fs]
  have "\<exists>t. cuckoo_from_file ?fs CuckooChunk ''db'' = Inr t" by (rule iffD2 [OF conjunct1 [OF w]]) simp
  then obtain t where t: "cuckoo_from_file ?fs CuckooChunk ''db'' = Inr t" ..
  have "total_bins t = unat (16 :: u32) * unat (2 ^ 30 :: u32) \<and> cu_slots_per_bin t = unat (2 ^ 30 :: u32) \<and>
      cu_file_bytes t = 32 + length ([] :: bytes)"
    by (rule mp [OF spec [OF conjunct2 [OF w]] t])
  with t show ?thesis by auto
qed

text \<open>A table of two bins of one slot, and a controller for it with one bin per block.\<close>

definition tiny_file :: bytes where
  "tiny_file = chunk_file 1 1 2 1 0 (replicate 44 7 @ replicate 44 8)"

definition tiny_table :: cuckoo_table where
  "tiny_table = \<lparr>cu_level = CuckooChunk, cu_path = ''db'', cu_file_bytes = 120, cu_magic = CHUNK_MAGIC,
      cu_anchor_kind = LegacyAnchor, cu_data_offset = 32, cu_k = 1, cu_slots_per_bin = 1,
      cu_bins_per_table = 2, cu_num_hashes = 1, cu_master_seed = 0, cu_tag_seed = None, cu_slot_size = 44\<rparr>"

definition tiny_reader :: packed_reader where
  "tiny_reader = \<lparr>pr_table = tiny_table, pr_bins_per_block = 1, pr_logical_blocks = 2, pr_block_payload_bytes = 44,
      pr_next_block = 0, pr_mmap = tiny_file\<rparr>"

definition tiny_params :: oram_params where
  "tiny_params = \<lparr>logical_blocks = 2, block_size = 44, bucket_size = 1, leaves = 2, stash_capacity = 3\<rparr>"

lemma tiny_sizes: "total_bins tiny_table = 2" "cuckoo_bin_size tiny_table = 44" "cu_data_offset tiny_table = 32"
  by (simp_all add: total_bins_def cuckoo_bin_size_def tiny_table_def)

lemma tiny_opens:
  "cuckoo_from_file [''db'' \<mapsto> tiny_file] CuckooChunk ''db'' = Inr tiny_table" "cuckoo_exact tiny_table"
  "packed_open [''db'' \<mapsto> tiny_file] tiny_table 1 = Inr tiny_reader"
proof -
  show "cuckoo_from_file [''db'' \<mapsto> tiny_file] CuckooChunk ''db'' = Inr tiny_table"
    by (subst chunk_file_parse [of _ "''db''" 1 1 2 1 0 "replicate 44 7 @ replicate 44 8"])
      (simp_all add: tiny_file_def tiny_table_def cuckoo_validate_def expected_file_bytes_def table_byte_size_def
        cuckoo_bin_size_def)
  show "cuckoo_exact tiny_table" by (simp add: cuckoo_exact_def tiny_table_def)
  show "packed_open [''db'' \<mapsto> tiny_file] tiny_table 1 = Inr tiny_reader"
    by (simp add: packed_open_def open_file_def tiny_sizes tiny_reader_def div_ceil_def)
      (simp add: tiny_table_def)
qed

lemma tiny_params_ok: "params_ok tiny_params"
  by (simp add: params_ok_def tiny_params_def height_def leaf_bits_def is_power_of_two.simps trailing_zeros.simps)

theorem cuckoo_bins_served_witness:
  "\<exists>oram br reads br'.
    build_trusted_from_source bit_choice counter_next (\<lambda>_. 0) mem_store_ops mem_store_ops packed_source_ops tiny_params
      \<lparr>mem_page_size = 13, mem_pages = replicate 39 0\<rparr> \<lparr>mem_page_size = 44, mem_pages = replicate 132 0\<rparr>
      tiny_reader [] = Inr oram \<and>
    cuckoo_reader_new tiny_table 1 oram = Inr br \<and>
    cmapM (\<lambda>i. cuckoo_read_bin mem_env i 2) [1, 0, 1] br = (Inr reads, br') \<and>
    map cr_payload reads = map (\<lambda>i. slice (32 + i * 44) (32 + i * 44 + 44) tiny_file) [1, 0, 1]"
proof -
  have "bucket_count tiny_params = 3" by (simp add: bucket_count_def tiny_params_def)
  with cuckoo_bins_served [OF tiny_opens(1,2) _ tiny_opens(3) _ bit_choice.subtle_spec_axioms mem.page_store_spec_axioms
      mem.page_store_spec_axioms tiny_params_ok, of tiny_file
      "\<lparr>mem_page_size = 13, mem_pages = replicate 39 0\<rparr>" "\<lparr>mem_page_size = 44, mem_pages = replicate 132 0\<rparr>"
      mem_env counter_next "[1, 0, 1]" "\<lambda>_. 0" "[]" 2]
  show ?thesis
    by (simp add: tiny_sizes tiny_params_def tiny_reader_def mem_store_ops_def mem_ok_def mem_page_count_def
        circuit_meta_page_bytes_def circuit_payload_page_bytes_def mem_env_def)
qed

end
