(* ===== verification/Direct_Table.thy ===== *)
theory Direct_Table
  imports Cuckoo_Theorems
begin

text \<open>
  The direct tables of src/src/direct.rs: sizes of the source files, the metadata kept beside an
  image and its validation, packed locations, and the packed source of a chunk file.

  Double-precision arithmetic (the load factor) is a parameter, the record \<open>float_lib\<close>: nothing
  proved here depends on what it computes. The serialization crate \<open>bincode\<close> is a parameter too,
  and the file system is the map \<open>fs\<close> as for the cuckoo tables.
\<close>

section \<open>Constants\<close>

definition DIRECT_SCRIPT_HASH_SIZE :: nat where
  "DIRECT_SCRIPT_HASH_SIZE = 20"

definition DIRECT_INDEX_INPUT_RECORD_SIZE :: nat where
  "DIRECT_INDEX_INPUT_RECORD_SIZE = DIRECT_SCRIPT_HASH_SIZE + 4 + 1"

definition DIRECT_INDEX_SLOT_SIZE :: nat where
  "DIRECT_INDEX_SLOT_SIZE = 1 + DIRECT_INDEX_INPUT_RECORD_SIZE"

definition DIRECT_CHUNK_RECORD_SIZE :: nat where
  "DIRECT_CHUNK_RECORD_SIZE = 40"

definition DIRECT_METADATA_VERSION :: u32 where
  "DIRECT_METADATA_VERSION = 1"

lemmas direct_sizes =
  DIRECT_SCRIPT_HASH_SIZE_def DIRECT_INDEX_INPUT_RECORD_SIZE_def DIRECT_INDEX_SLOT_SIZE_def DIRECT_CHUNK_RECORD_SIZE_def

section \<open>Source tables\<close>

datatype direct_level = DirectIndex | DirectChunk

text \<open>
  \<open>fl_in_unit lf\<close> is \<open>lf > 0.0 && lf < 1.0\<close>, \<open>fl_bins r s lf\<close> is \<open>((r as f64) / (s as f64 * lf)).ceil() as usize\<close>,
  \<open>fl_ppb lf\<close> is \<open>(lf * 1_000_000_000.0).round() as u32\<close>, and \<open>fl_one\<close> is \<open>1.0\<close>.
\<close>

record 'f float_lib =
  fl_in_unit :: "'f \<Rightarrow> bool"
  fl_bins :: "nat \<Rightarrow> nat \<Rightarrow> 'f \<Rightarrow> nat"
  fl_ppb :: "'f \<Rightarrow> u32"
  fl_one :: 'f

record 'f direct_table =
  dt_level :: direct_level
  dt_path :: string
  dt_file_bytes :: nat
  dt_records :: nat
  dt_slots_per_bin :: nat
  dt_hash_fns :: nat
  dt_load_factor :: 'f
  dt_seed :: u64
  dt_total_items :: nat
  dt_item_size :: nat

definition compute_direct_index_bins :: "'f float_lib \<Rightarrow> nat \<Rightarrow> nat \<Rightarrow> 'f \<Rightarrow> nat result" where
  "compute_direct_index_bins F records slots_per_bin load_factor =
     (if records = 0 then Inr 0
      else let bins = fl_bins F records slots_per_bin load_factor in Inr (max bins 1))"

definition from_index_file ::
  "'f float_lib \<Rightarrow> (string \<rightharpoonup> bytes) \<Rightarrow> string \<Rightarrow> nat \<Rightarrow> nat \<Rightarrow> 'f \<Rightarrow> u64 \<Rightarrow> 'f direct_table result" where
  "from_index_file F fs path slots_per_bin hash_fns load_factor seed =
     (if slots_per_bin = 0 then Inl (InvalidInput ''slots_per_bin must be > 0'')
      else if hash_fns = 0 then Inl (InvalidInput ''hash_fns must be > 0'')
      else if \<not> fl_in_unit F load_factor then
        Inl (InvalidInput ''load_factor must be greater than 0 and less than 1'')
      else
        rbind (open_file fs path) (\<lambda>contents.
        let file_bytes = length contents in
        if file_bytes mod DIRECT_INDEX_INPUT_RECORD_SIZE \<noteq> 0 then
          Inl (InvalidInput ''direct index file {} has {} bytes, not a multiple of {}'')
        else
          let records = file_bytes div DIRECT_INDEX_INPUT_RECORD_SIZE in
          rbind (compute_direct_index_bins F records slots_per_bin load_factor) (\<lambda>total_items.
          Inr \<lparr>dt_level = DirectIndex, dt_path = path, dt_file_bytes = file_bytes, dt_records = records,
               dt_slots_per_bin = slots_per_bin, dt_hash_fns = hash_fns, dt_load_factor = load_factor,
               dt_seed = seed, dt_total_items = total_items,
               dt_item_size = usize_mul slots_per_bin DIRECT_INDEX_SLOT_SIZE\<rparr>)))"

definition from_chunks_file :: "'f float_lib \<Rightarrow> (string \<rightharpoonup> bytes) \<Rightarrow> string \<Rightarrow> 'f direct_table result" where
  "from_chunks_file F fs path =
     rbind (open_file fs path) (\<lambda>contents.
     let file_bytes = length contents in
     if file_bytes mod DIRECT_CHUNK_RECORD_SIZE \<noteq> 0 then
       Inl (InvalidInput ''direct chunks file {} has {} bytes, not a multiple of {}'')
     else
       let records = file_bytes div DIRECT_CHUNK_RECORD_SIZE in
       Inr \<lparr>dt_level = DirectChunk, dt_path = path, dt_file_bytes = file_bytes, dt_records = records,
            dt_slots_per_bin = 1, dt_hash_fns = 0, dt_load_factor = fl_one F, dt_seed = 0,
            dt_total_items = records, dt_item_size = DIRECT_CHUNK_RECORD_SIZE\<rparr>)"

section \<open>Metadata\<close>

record direct_metadata =
  dm_version :: u32
  dm_level :: direct_level
  dm_source_path :: string
  dm_source_file_bytes :: nat
  dm_source_records :: nat
  dm_total_items :: nat
  dm_item_size :: nat
  dm_items_per_block :: nat
  dm_slots_per_bin :: nat
  dm_hash_fns :: nat
  dm_load_factor_ppb :: u32
  dm_seed :: u64
  dm_logical_blocks :: nat
  dm_block_payload_bytes :: nat

definition metadata_from_info :: "'f float_lib \<Rightarrow> 'f direct_table \<Rightarrow> nat \<Rightarrow> direct_metadata result" where
  "metadata_from_info F info items_per_block =
     (if items_per_block = 0 then Inl (InvalidInput ''items_per_block must be > 0'')
      else
        let logical_blocks' = div_ceil (dt_total_items info) items_per_block;
            block_payload_bytes = usize_mul (dt_item_size info) items_per_block in
        Inr \<lparr>dm_version = DIRECT_METADATA_VERSION, dm_level = dt_level info, dm_source_path = dt_path info,
             dm_source_file_bytes = dt_file_bytes info, dm_source_records = dt_records info,
             dm_total_items = dt_total_items info, dm_item_size = dt_item_size info,
             dm_items_per_block = items_per_block, dm_slots_per_bin = dt_slots_per_bin info,
             dm_hash_fns = dt_hash_fns info, dm_load_factor_ppb = fl_ppb F (dt_load_factor info),
             dm_seed = dt_seed info, dm_logical_blocks = logical_blocks',
             dm_block_payload_bytes = block_payload_bytes\<rparr>)"

definition metadata_validate :: "direct_metadata \<Rightarrow> unit result" where
  "metadata_validate m =
     (if dm_version m \<noteq> DIRECT_METADATA_VERSION then Inl (InvalidInput ''unsupported direct metadata version {}'')
      else if dm_items_per_block m = 0 then Inl (InvalidInput ''direct metadata has items_per_block=0'')
      else if dm_item_size m = 0 then Inl (InvalidInput ''direct metadata has item_size=0'')
      else if dm_logical_blocks m \<noteq> div_ceil (dm_total_items m) (dm_items_per_block m) then
        Inl (InvalidInput ''direct metadata logical_blocks does not match total_items/items_per_block'')
      else if dm_block_payload_bytes m \<noteq> usize_mul (dm_item_size m) (dm_items_per_block m) then
        Inl (InvalidInput ''direct metadata block_payload_bytes does not match item_size/items_per_block'')
      else case dm_level m of
          DirectIndex \<Rightarrow>
            if dm_item_size m \<noteq> usize_mul (dm_slots_per_bin m) DIRECT_INDEX_SLOT_SIZE then
              Inl (InvalidInput ''direct index metadata item_size does not match slots_per_bin'')
            else if dm_slots_per_bin m = 0 \<or> dm_hash_fns m = 0 then
              Inl (InvalidInput ''direct index metadata requires slots_per_bin and hash_fns'')
            else Inr ()
        | DirectChunk \<Rightarrow>
            if dm_item_size m \<noteq> DIRECT_CHUNK_RECORD_SIZE then
              Inl (InvalidInput ''direct chunk metadata item_size does not match chunk size'')
            else Inr ())"

text \<open>
  \<open>save\<close> and \<open>load\<close>: \<open>ser\<close> and \<open>de\<close> stand for \<open>bincode::serialize\<close> and \<open>bincode::deserialize\<close>, the
  state is the file system. A failing \<open>fs::write\<close> is not modelled.
\<close>

definition metadata_save ::
  "(direct_metadata \<Rightarrow> bytes result) \<Rightarrow> string \<Rightarrow> direct_metadata \<Rightarrow> (string \<rightharpoonup> bytes, unit) comp" where
  "metadata_save ser path m =
     bnd (lift (ser m)) (\<lambda>contents. modify (\<lambda>fs. fs(path \<mapsto> contents)))"

definition metadata_load ::
  "(bytes \<Rightarrow> direct_metadata result) \<Rightarrow> string \<Rightarrow> (string \<rightharpoonup> bytes, direct_metadata) comp" where
  "metadata_load de path =
     bnd (gets (\<lambda>fs. open_file fs path)) (\<lambda>r.
     bnd (lift r) (\<lambda>contents.
     bnd (lift (de contents)) (\<lambda>metadata.
     bnd (lift (metadata_validate metadata)) (\<lambda>_.
     ret metadata))))"

section \<open>Packed locations and sizing\<close>

definition locate_packed_direct_item :: "nat \<Rightarrow> nat \<Rightarrow> nat \<Rightarrow> nat \<Rightarrow> packed_location result" where
  "locate_packed_direct_item total_items items_per_block item_size item_id =
     (if items_per_block = 0 then Inl (InvalidInput ''items_per_block must be > 0'')
      else if item_size = 0 then Inl (InvalidInput ''item_size must be > 0'')
      else if item_id \<ge> total_items then Inl (InvalidInput ''direct item_id {} out of range {}'')
      else
        let slot_in_block = item_id mod items_per_block in
        Inr \<lparr>lo_logical_block = item_id div items_per_block,
             lo_byte_offset = usize_mul slot_in_block item_size, lo_byte_len = item_size\<rparr>)"

definition locate_item :: "direct_metadata \<Rightarrow> nat \<Rightarrow> packed_location result" where
  "locate_item m item_id =
     locate_packed_direct_item (dm_total_items m) (dm_items_per_block m) (dm_item_size m) item_id"

type_synonym direct_sizing = oram_sizing

record direct_estimate = image_estimate +
  de_level :: direct_level
  de_source_records :: nat
  de_total_items :: nat
  de_item_size :: nat

definition direct_estimate_sizes :: "direct_sizing \<Rightarrow> 'f direct_table \<Rightarrow> direct_estimate result" where
  "direct_estimate_sizes sz t =
     (if sz_per_block sz = 0 then Inl (InvalidParams ''items_per_block must be > 0'')
      else if sz_leaf_divisor sz = 0 then Inl (InvalidParams ''leaf_divisor must be > 0'')
      else rbind (estimate_image sz (div_ceil (dt_total_items t) (sz_per_block sz))
               (usize_mul (dt_item_size t) (sz_per_block sz)))
        (\<lambda>e. Inr (image_estimate.extend e
          (direct_estimate.fields (dt_level t) (dt_records t) (dt_total_items t) (dt_item_size t)))))"

section \<open>The packed source of a chunk file\<close>

record chunk_reader =
  ck_metadata :: direct_metadata
  ck_next_block :: nat
  ck_mmap :: bytes

definition chunk_open ::
  "'f float_lib \<Rightarrow> (string \<rightharpoonup> bytes) \<Rightarrow> 'f direct_table \<Rightarrow> nat \<Rightarrow> chunk_reader result" where
  "chunk_open F fs info items_per_block =
     (if dt_level info \<noteq> DirectChunk then
        Inl (InvalidInput ''DirectChunkPackedBlockReader requires chunk table info'')
      else
        rbind (open_file fs (dt_path info)) (\<lambda>mmap.
        rbind (metadata_from_info F info items_per_block) (\<lambda>metadata.
        Inr \<lparr>ck_metadata = metadata, ck_next_block = 0, ck_mmap = mmap\<rparr>)))"

text \<open>As for the cuckoo reader, the start of a block below the count does not wrap.\<close>

definition chunk_read_block :: "nat \<Rightarrow> chunk_reader \<Rightarrow> bytes result" where
  "chunk_read_block logical_block s =
     (let m = ck_metadata s in
      if logical_block \<ge> dm_logical_blocks m then Inl (InvalidInput ''logical block {} out of range {}'')
      else
        let start_item = logical_block * dm_items_per_block m;
            remaining = dm_total_items m - start_item;
            items_to_read = min remaining (dm_items_per_block m);
            bytes_to_read = usize_mul items_to_read (dm_item_size m);
            offset = usize_mul start_item (dm_item_size m);
            end = usize_add offset bytes_to_read in
        if end > length (ck_mmap s) then
          Inl (InvalidInput ''direct chunk logical block {} reaches byte {} past mapped file length {}'')
        else if bytes_to_read > dm_block_payload_bytes m \<or> offset > end then
          Inl (Panic ''range out of range for slice'')
        else Inr (copy_into 0 (slice offset end (ck_mmap s)) (replicate (dm_block_payload_bytes m) 0)))"

definition chunk_read_chunk :: "nat \<Rightarrow> chunk_reader \<Rightarrow> bytes result" where
  "chunk_read_chunk chunk_id s =
     rbind (locate_item (ck_metadata s) chunk_id) (\<lambda>location.
     rbind (chunk_read_block (lo_logical_block location) s) (slice_location location))"

definition chunk_next :: "chunk_reader \<Rightarrow> bytes result option \<times> chunk_reader" where
  "chunk_next s =
     (if ck_next_block s \<ge> dm_logical_blocks (ck_metadata s) then (None, s)
      else
        let block_idx = ck_next_block s; s = s\<lparr>ck_next_block := ck_next_block s + 1\<rparr>
        in (Some (chunk_read_block block_idx s), s))"

definition chunk_source_ops :: "chunk_reader block_source" where
  "chunk_source_ops =
     \<lparr>bs_logical_blocks = (\<lambda>s. dm_logical_blocks (ck_metadata s)),
      bs_block_size = (\<lambda>s. dm_block_payload_bytes (ck_metadata s)),
      bs_read_block = (\<lambda>logical_id s. (chunk_read_block logical_id s, s))\<rparr>"

section \<open>Metadata survives a save\<close>

text \<open>What the two parsers establish of a table.\<close>

definition direct_table_ok :: "'f direct_table \<Rightarrow> bool" where
  "direct_table_ok t \<longleftrightarrow>
     (case dt_level t of
        DirectIndex \<Rightarrow> dt_item_size t = usize_mul (dt_slots_per_bin t) DIRECT_INDEX_SLOT_SIZE \<and>
          0 < dt_slots_per_bin t \<and> 0 < dt_hash_fns t
      | DirectChunk \<Rightarrow> dt_item_size t = DIRECT_CHUNK_RECORD_SIZE)"

lemma from_index_file_ok:
  assumes "from_index_file F fs path slots hash_fns lf seed = Inr t"
  shows "direct_table_ok t" "dt_level t = DirectIndex" "dt_path t = path" "dt_slots_per_bin t = slots"
    "dt_hash_fns t = hash_fns" "dt_seed t = seed" "0 < slots" "0 < hash_fns"
    "dt_records t = 0 \<longleftrightarrow> dt_total_items t = 0"
    "\<exists>contents. fs path = Some contents \<and> length contents = dt_records t * DIRECT_INDEX_INPUT_RECORD_SIZE"
proof -
  obtain contents where fs: "fs path = Some contents"
    using assms by (cases "fs path") (simp_all add: from_index_file_def open_file_def split: if_splits)
  have guards: "slots \<noteq> 0" "hash_fns \<noteq> 0" "fl_in_unit F lf"
    using assms by (simp_all add: from_index_file_def split: if_splits)
  obtain bins where c: "fs path = Some contents" "0 < slots" "0 < hash_fns"
    "length contents mod DIRECT_INDEX_INPUT_RECORD_SIZE = 0"
    "compute_direct_index_bins F (length contents div DIRECT_INDEX_INPUT_RECORD_SIZE) slots lf = Inr bins"
    "t = \<lparr>dt_level = DirectIndex, dt_path = path, dt_file_bytes = length contents,
      dt_records = length contents div DIRECT_INDEX_INPUT_RECORD_SIZE, dt_slots_per_bin = slots,
      dt_hash_fns = hash_fns, dt_load_factor = lf, dt_seed = seed, dt_total_items = bins,
      dt_item_size = usize_mul slots DIRECT_INDEX_SLOT_SIZE\<rparr>"
    using assms fs guards unfolding from_index_file_def open_file_def Let_def
    by (cases "length contents mod DIRECT_INDEX_INPUT_RECORD_SIZE = 0") auto
  then show "direct_table_ok t" "dt_level t = DirectIndex" "dt_path t = path" "dt_slots_per_bin t = slots"
    "dt_hash_fns t = hash_fns" "dt_seed t = seed" "0 < slots" "0 < hash_fns"
    by (simp_all add: direct_table_ok_def)
  show "dt_records t = 0 \<longleftrightarrow> dt_total_items t = 0"
    using c(5) unfolding c(6) compute_direct_index_bins_def Let_def by (simp split: if_splits)
  show "\<exists>contents. fs path = Some contents \<and> length contents = dt_records t * DIRECT_INDEX_INPUT_RECORD_SIZE"
    using c(1,4) unfolding c(6) by (intro exI [of _ contents]) (simp add: mod_0_imp_dvd)
qed

lemma from_chunks_file_ok:
  assumes "from_chunks_file F fs path = Inr t"
  shows "direct_table_ok t" "dt_level t = DirectChunk" "dt_path t = path" "dt_total_items t = dt_records t"
    "dt_item_size t = DIRECT_CHUNK_RECORD_SIZE"
    "\<exists>contents. fs path = Some contents \<and> length contents = dt_records t * DIRECT_CHUNK_RECORD_SIZE"
proof -
  obtain contents where fs: "fs path = Some contents"
    using assms by (cases "fs path") (simp_all add: from_chunks_file_def open_file_def)
  let ?m = "length contents mod DIRECT_CHUNK_RECORD_SIZE = 0"
  let ?t = "\<lparr>dt_level = DirectChunk, dt_path = path, dt_file_bytes = length contents,
      dt_records = length contents div DIRECT_CHUNK_RECORD_SIZE, dt_slots_per_bin = 1, dt_hash_fns = 0,
      dt_load_factor = fl_one F, dt_seed = 0, dt_total_items = length contents div DIRECT_CHUNK_RECORD_SIZE,
      dt_item_size = DIRECT_CHUNK_RECORD_SIZE\<rparr>"
  have "from_chunks_file F fs path = (if ?m then Inr ?t
      else Inl (InvalidInput ''direct chunks file {} has {} bytes, not a multiple of {}''))"
    by (simp add: from_chunks_file_def open_file_def fs Let_def)
  with assms have m: ?m and c: "t = ?t" by (cases ?m; simp only: if_True if_False sum.inject sum.distinct)+
  from c show "direct_table_ok t" "dt_level t = DirectChunk" "dt_path t = path" "dt_total_items t = dt_records t"
    "dt_item_size t = DIRECT_CHUNK_RECORD_SIZE"
    by (simp_all add: direct_table_ok_def)
  show "\<exists>contents. fs path = Some contents \<and> length contents = dt_records t * DIRECT_CHUNK_RECORD_SIZE"
    using fs m unfolding c by (intro exI [of _ contents]) (simp add: mod_0_imp_dvd)
qed

lemma metadata_from_info_fields:
  assumes "metadata_from_info F t n = Inr m"
  shows "0 < n" "dm_version m = DIRECT_METADATA_VERSION" "dm_level m = dt_level t"
    "dm_total_items m = dt_total_items t" "dm_item_size m = dt_item_size t" "dm_items_per_block m = n"
    "dm_slots_per_bin m = dt_slots_per_bin t" "dm_hash_fns m = dt_hash_fns t" "dm_seed m = dt_seed t"
    "dm_logical_blocks m = div_ceil (dt_total_items t) n"
    "dm_block_payload_bytes m = usize_mul (dt_item_size t) n"
proof -
  from assms show "0 < n" by (cases "n = 0") (simp_all add: metadata_from_info_def)
  with assms show "dm_version m = DIRECT_METADATA_VERSION" "dm_level m = dt_level t"
    "dm_total_items m = dt_total_items t" "dm_item_size m = dt_item_size t" "dm_items_per_block m = n"
    "dm_slots_per_bin m = dt_slots_per_bin t" "dm_hash_fns m = dt_hash_fns t" "dm_seed m = dt_seed t"
    "dm_logical_blocks m = div_ceil (dt_total_items t) n"
    "dm_block_payload_bytes m = usize_mul (dt_item_size t) n"
    by (simp_all add: metadata_from_info_def Let_def) auto
qed

lemma metadata_from_info_valid:
  assumes "metadata_from_info F t n = Inr m" and "direct_table_ok t" and "0 < dt_item_size t"
  shows "metadata_validate m = Inr ()"
proof -
  note f = metadata_from_info_fields [OF assms(1)]
  from f(1) assms(2,3) show ?thesis
    by (cases "dt_level t") (simp_all add: metadata_validate_def direct_table_ok_def f(2-))
qed

end
