(* ===== verification/Direct_Cuckoo.thy ===== *)
theory Direct_Cuckoo
  imports Direct_Table
begin

text \<open>
  The cuckoo hashing of the direct index (src/src/direct.rs): the candidate bins of a script hash,
  the placement of all records with bounded evictions, and the invariant that makes a lookup in the
  candidate bins complete.

  \<open>direct_index_candidate_bins\<close> loops until it has found enough distinct bins, and nothing bounds
  the search. A value of type \<open>'a result option\<close> keeps that: \<open>None\<close> means that the call does not
  return.
\<close>

section \<open>Calls that may not return\<close>

definition obnd :: "'a result option \<Rightarrow> ('a \<Rightarrow> 'b result option) \<Rightarrow> 'b result option" where
  "obnd m f = (case m of None \<Rightarrow> None | Some (Inl e) \<Rightarrow> Some (Inl e) | Some (Inr a) \<Rightarrow> f a)"

lemma obnd_simps [simp]:
  "obnd None f = None" "obnd (Some (Inl e)) f = Some (Inl e)" "obnd (Some (Inr a)) f = f a"
  by (simp_all add: obnd_def)

lemma obnd_Inr_iff: "obnd m f = Some (Inr b) \<longleftrightarrow> (\<exists>a. m = Some (Inr a) \<and> f a = Some (Inr b))"
  by (auto simp: obnd_def split: option.splits sum.splits)

fun ofoldM :: "('a \<Rightarrow> 'b \<Rightarrow> 'b result option) \<Rightarrow> 'a list \<Rightarrow> 'b \<Rightarrow> 'b result option" where
  "ofoldM f [] b = Some (Inr b)"
| "ofoldM f (x # xs) b = obnd (f x b) (ofoldM f xs)"

section \<open>Hashing\<close>

definition EMPTY_SLOT :: u32 where
  "EMPTY_SLOT = - 1"

definition CUCKOO_KEY_MIX :: u64 where
  "CUCKOO_KEY_MIX = 0x517cc1b727220a95"

definition GOLDEN_RATIO :: u64 where
  "GOLDEN_RATIO = 0x9e3779b97f4a7c15"

definition DIRECT_CUCKOO_MAX_KICKS :: nat where
  "DIRECT_CUCKOO_MAX_KICKS = 10000"

definition splitmix64 :: "u64 \<Rightarrow> u64" where
  "splitmix64 x =
     (let x = x XOR drop_bit 30 x;
          x = x * 0xbf58476d1ce4e5b9;
          x = x XOR drop_bit 27 x;
          x = x * 0x94d049bb133111eb
      in x XOR drop_bit 31 x)"

definition sh_a :: "bytes \<Rightarrow> u64" where
  "sh_a script_hash = u64_from_le_bytes (slice 0 8 script_hash)"

definition sh_b :: "bytes \<Rightarrow> u64" where
  "sh_b script_hash = u64_from_le_bytes (slice 8 16 script_hash)"

definition sh_c :: "bytes \<Rightarrow> u64" where
  "sh_c script_hash = ucast (u32_from_le_bytes (slice 16 20 script_hash))"

definition derive_direct_cuckoo_key :: "u64 \<Rightarrow> nat \<Rightarrow> u64" where
  "derive_direct_cuckoo_key seed hash_fn = splitmix64 (seed + word_of_nat hash_fn * CUCKOO_KEY_MIX)"

definition direct_cuckoo_hash :: "bytes \<Rightarrow> u64 \<Rightarrow> nat \<Rightarrow> nat" where
  "direct_cuckoo_hash script_hash key bins =
     (let h = sh_a script_hash XOR key;
          h = h XOR sh_b script_hash;
          h = splitmix64 (h XOR sh_c script_hash)
      in unat (h mod word_of_nat bins))"

text \<open>
  The \<open>while\<close> loop of \<open>direct_index_candidate_bins\<close>. The nonce is a \<open>usize\<close>; only its value modulo
  \<open>2 ^ 64\<close> reaches the hash.
\<close>

partial_function (option) candidate_loop ::
  "bytes \<Rightarrow> u64 \<Rightarrow> nat \<Rightarrow> nat \<Rightarrow> nat list \<Rightarrow> nat \<Rightarrow> nat list option" where
  "candidate_loop script_hash seed hash_fns bins out nonce =
     (if length out < hash_fns then
        let key = derive_direct_cuckoo_key seed nonce;
            bin = direct_cuckoo_hash script_hash key bins in
        candidate_loop script_hash seed hash_fns bins (if bin \<notin> set out then out @ [bin] else out) (nonce + 1)
      else Some out)"

definition direct_index_candidate_bins :: "bytes \<Rightarrow> u64 \<Rightarrow> nat \<Rightarrow> nat \<Rightarrow> nat list result option" where
  "direct_index_candidate_bins script_hash seed hash_fns bins =
     (if length script_hash \<noteq> DIRECT_SCRIPT_HASH_SIZE then Some (Inl (InvalidInput ''script_hash len {} != {}''))
      else if hash_fns = 0 then Some (Inl (InvalidInput ''hash_fns must be > 0''))
      else if bins = 0 then Some (Inl (InvalidInput ''bins must be > 0''))
      else (case candidate_loop script_hash seed hash_fns bins [] 0 of
          None \<Rightarrow> None
        | Some out \<Rightarrow> Some (Inr out)))"

definition eviction_slot :: "u64 \<Rightarrow> u32 \<Rightarrow> nat \<Rightarrow> nat \<Rightarrow> nat" where
  "eviction_slot seed record_idx kick slots_per_bin =
     (let h = splitmix64 (seed XOR (ucast record_idx + word_of_nat kick * GOLDEN_RATIO))
      in unat h mod slots_per_bin)"

section \<open>Records\<close>

definition index_record :: "bytes \<Rightarrow> nat \<Rightarrow> bytes result" where
  "index_record mmap record_idx =
     rbind (ok_or (checked_mul_usize record_idx DIRECT_INDEX_INPUT_RECORD_SIZE)
              (InvalidInput ''direct index record offset overflow'')) (\<lambda>start.
     let end = usize_add start DIRECT_INDEX_INPUT_RECORD_SIZE in
     if end > length mmap then
       Inl (InvalidInput ''direct index record {} reaches byte {} past mapped file length {}'')
     else if start > end then Inl (Panic ''slice index starts after its end'')
     else Inr (slice start end mmap))"

definition script_hash_from_record :: "bytes \<Rightarrow> bytes" where
  "script_hash_from_record record' = take DIRECT_SCRIPT_HASH_SIZE record'"

definition record_candidates :: "'f direct_table \<Rightarrow> bytes \<Rightarrow> nat \<Rightarrow> nat list result option" where
  "record_candidates info mmap record_idx =
     obnd (Some (index_record mmap record_idx)) (\<lambda>record'.
     direct_index_candidate_bins (script_hash_from_record record') (dt_seed info) (dt_hash_fns info)
       (dt_total_items info))"

section \<open>Placing\<close>

text \<open>The first empty slot of a bin; the slice panics when the bin is not in the table.\<close>

fun first_empty :: "u32 list \<Rightarrow> nat option" where
  "first_empty [] = None"
| "first_empty (x # xs) = (if x = EMPTY_SLOT then Some 0 else map_option Suc (first_empty xs))"

definition place_in_empty_slot :: "u32 list \<Rightarrow> nat \<Rightarrow> nat \<Rightarrow> u32 \<Rightarrow> (bool \<times> u32 list) result" where
  "place_in_empty_slot placement bin slots_per_bin record_idx =
     (let base = usize_mul bin slots_per_bin; end = usize_add base slots_per_bin in
      if base > end \<or> end > length placement then Inl (Panic ''range out of range for slice'')
      else case first_empty (slice base end placement) of
          Some i \<Rightarrow> Inr (True, placement[base + i := record_idx])
        | None \<Rightarrow> Inr (False, placement))"

fun try_place :: "nat list \<Rightarrow> nat \<Rightarrow> u32 \<Rightarrow> u32 list \<Rightarrow> (bool \<times> u32 list) result" where
  "try_place [] slots_per_bin record_idx placement = Inr (False, placement)"
| "try_place (bin # bins) slots_per_bin record_idx placement =
     rbind (place_in_empty_slot placement bin slots_per_bin record_idx) (\<lambda>(placed, placement).
     if placed then Inr (True, placement) else try_place bins slots_per_bin record_idx placement)"

definition try_place_in_any_candidate ::
  "'f direct_table \<Rightarrow> bytes \<Rightarrow> u32 list \<Rightarrow> u32 \<Rightarrow> (bool \<times> u32 list) result option" where
  "try_place_in_any_candidate info mmap placement record_idx =
     obnd (record_candidates info mmap (unat record_idx)) (\<lambda>bins.
     Some (try_place bins (dt_slots_per_bin info) record_idx placement))"

definition try_place_in_any_candidate_except ::
  "'f direct_table \<Rightarrow> bytes \<Rightarrow> u32 list \<Rightarrow> u32 \<Rightarrow> nat \<Rightarrow> (bool \<times> u32 list) result option" where
  "try_place_in_any_candidate_except info mmap placement record_idx except_bin =
     obnd (record_candidates info mmap (unat record_idx)) (\<lambda>bins.
     Some (try_place (filter (\<lambda>bin. bin \<noteq> except_bin) bins) (dt_slots_per_bin info) record_idx placement))"

definition first_candidate_bin :: "'f direct_table \<Rightarrow> bytes \<Rightarrow> nat \<Rightarrow> nat result option" where
  "first_candidate_bin info mmap record_idx =
     obnd (record_candidates info mmap record_idx) (\<lambda>bins.
     Some (if bins = [] then Inl (Panic ''index out of bounds'') else Inr (bins ! 0)))"

text \<open>\<open>bins.iter().position(|&bin| bin == current_bin)\<close>.\<close>

fun position :: "nat \<Rightarrow> nat list \<Rightarrow> nat option" where
  "position x [] = None"
| "position x (y # ys) = (if x = y then Some 0 else map_option Suc (position x ys))"

definition alternate_candidate_bin :: "'f direct_table \<Rightarrow> bytes \<Rightarrow> nat \<Rightarrow> nat \<Rightarrow> nat \<Rightarrow> nat result option" where
  "alternate_candidate_bin info mmap record_idx current_bin kick =
     obnd (record_candidates info mmap record_idx) (\<lambda>bins.
     Some (if bins = [] then Inl (Panic ''remainder with a divisor of zero'')
       else case position current_bin bins of
           Some pos \<Rightarrow> Inr (bins ! ((pos + 1) mod length bins))
         | None \<Rightarrow> Inr (bins ! (kick mod length bins))))"

text \<open>The kicks of \<open>insert_index_record\<close>; running out of kicks is the error after the loop.\<close>

fun kick_loop ::
  "'f direct_table \<Rightarrow> bytes \<Rightarrow> nat list \<Rightarrow> u32 \<Rightarrow> nat \<Rightarrow> u32 list \<Rightarrow> u32 list result option" where
  "kick_loop info mmap [] current current_bin placement =
     Some (Inl (InvalidInput ''direct index cuckoo insertion failed after {} kicks''))"
| "kick_loop info mmap (kick # kicks) current current_bin placement =
     (let slot = eviction_slot (dt_seed info) current kick (dt_slots_per_bin info);
          offset = usize_add (usize_mul current_bin (dt_slots_per_bin info)) slot in
      if offset \<ge> length placement then Some (Inl (Panic ''index out of bounds''))
      else
        let evicted = placement ! offset; placement = placement[offset := current] in
        if evicted = EMPTY_SLOT then Some (Inr placement)
        else
          obnd (try_place_in_any_candidate_except info mmap placement evicted current_bin) (\<lambda>(placed, placement).
          if placed then Some (Inr placement)
          else
            obnd (alternate_candidate_bin info mmap (unat evicted) current_bin (kick + 1)) (\<lambda>current_bin.
            kick_loop info mmap kicks evicted current_bin placement)))"

definition insert_index_record :: "'f direct_table \<Rightarrow> bytes \<Rightarrow> u32 \<Rightarrow> u32 list \<Rightarrow> u32 list result option" where
  "insert_index_record info mmap record_idx placement =
     obnd (first_candidate_bin info mmap (unat record_idx)) (\<lambda>current_bin.
     obnd (try_place_in_any_candidate info mmap placement record_idx) (\<lambda>(placed, placement).
     if placed then Some (Inr placement)
     else kick_loop info mmap [0..<DIRECT_CUCKOO_MAX_KICKS] record_idx current_bin placement))"

definition build_direct_index_placement :: "'f direct_table \<Rightarrow> bytes \<Rightarrow> u32 list result option" where
  "build_direct_index_placement info mmap =
     (if dt_records info > 2 ^ 32 - 1 then
        Some (Inl (InvalidInput ''direct index records {} exceed u32 placement id range''))
      else
        obnd (Some (ok_or (checked_mul_usize (dt_total_items info) (dt_slots_per_bin info))
                (InvalidInput ''direct index slot count overflow''))) (\<lambda>slot_count.
        ofoldM (\<lambda>record_idx. insert_index_record info mmap (word_of_nat record_idx)) [0..<dt_records info]
          (replicate slot_count EMPTY_SLOT)))"

section \<open>The candidate bins\<close>

text \<open>The bin of one nonce, and the bins the loop can find at all.\<close>

definition direct_bin :: "bytes \<Rightarrow> u64 \<Rightarrow> nat \<Rightarrow> nat \<Rightarrow> nat" where
  "direct_bin script_hash seed bins nonce =
     direct_cuckoo_hash script_hash (derive_direct_cuckoo_key seed nonce) bins"

definition reachable_bins :: "bytes \<Rightarrow> u64 \<Rightarrow> nat \<Rightarrow> nat set" where
  "reachable_bins script_hash seed bins = range (direct_bin script_hash seed bins)"

lemma direct_bin_less: "0 < bins \<Longrightarrow> bins < 2 ^ 64 \<Longrightarrow> direct_bin sh seed bins n < bins"
  by (simp add: direct_bin_def direct_cuckoo_hash_def Let_def unat_mod)

lemma direct_bin_mod: "direct_bin sh seed bins (n mod 2 ^ 64) = direct_bin sh seed bins n"
proof -
  have "(word_of_nat (n mod 2 ^ 64) :: u64) = word_of_nat n" by (simp add: word_unat_eq_iff unat_of_nat)
  then show ?thesis by (simp only: direct_bin_def derive_direct_cuckoo_key_def)
qed

lemma finite_reachable_bins:
  assumes "0 < bins" and "bins < 2 ^ 64"
  shows "finite (reachable_bins sh seed bins)" "card (reachable_bins sh seed bins) \<le> bins"
proof -
  have "reachable_bins sh seed bins \<subseteq> {..<bins}" using direct_bin_less [OF assms] by (auto simp: reachable_bins_def)
  then show "finite (reachable_bins sh seed bins)" "card (reachable_bins sh seed bins) \<le> bins"
    using finite_subset card_mono [of "{..<bins}"] by auto
qed

lemma candidate_loop_result:
  assumes "candidate_loop sh seed h bins out nonce = Some bs" and "distinct out" and "length out \<le> h"
    and "set out \<subseteq> reachable_bins sh seed bins"
  shows "distinct bs \<and> length bs = h \<and> set bs \<subseteq> reachable_bins sh seed bins"
  using assms
proof (induction rule: candidate_loop.raw_induct [rotated, consumes 1, case_names step])
  case (step loop sh seed h bins out nonce bs)
  let ?b = "direct_cuckoo_hash sh (derive_direct_cuckoo_key seed nonce) bins"
  have b: "?b \<in> reachable_bins sh seed bins" by (auto simp: reachable_bins_def direct_bin_def)
  show ?case
  proof (cases "length out < h")
    case True
    with step.hyps have "loop sh seed h bins (if ?b \<notin> set out then out @ [?b] else out) (nonce + 1) = Some bs"
      by (simp add: Let_def)
    from step.IH [OF this] step.prems True b show ?thesis by auto
  next
    case False
    with step show ?thesis by (simp add: Let_def)
  qed
qed

lemma candidate_loop_returns:
  assumes "set out = direct_bin sh seed bins ` {..<nonce}" and "distinct out"
    and "h \<le> card (reachable_bins sh seed bins)"
  shows "\<exists>bs. candidate_loop sh seed h bins out nonce = Some bs"
  using assms
proof (induction "2 ^ 64 - nonce" arbitrary: out nonce rule: less_induct)
  case less
  let ?f = "direct_bin sh seed bins"
  show ?case
  proof (cases "length out < h")
    case True
    have card: "card (?f ` {..<nonce}) = length out" using less.prems(1,2) distinct_card by metis
    have "nonce < 2 ^ 64"
    proof (rule ccontr)
      assume big: "\<not> nonce < 2 ^ 64"
      have "?f n \<in> ?f ` {..<nonce}" for n
      proof -
        have "n mod 2 ^ 64 < 2 ^ 64" by simp
        with big have "n mod 2 ^ 64 < nonce" by linarith
        then show ?thesis using direct_bin_mod [of sh seed bins n] by (metis imageI lessThan_iff)
      qed
      then have "reachable_bins sh seed bins = ?f ` {..<nonce}" by (auto simp: reachable_bins_def)
      with card True less.prems(3) show False by simp
    qed
    then have lt: "2 ^ 64 - (nonce + 1) < 2 ^ 64 - nonce" by simp
    let ?out = "if ?f nonce \<notin> set out then out @ [?f nonce] else out"
    have "set ?out = ?f ` {..<nonce + 1}" using less.prems(1) by (auto simp: lessThan_Suc)
    moreover have "distinct ?out" using less.prems(2) by simp
    ultimately obtain bs where "candidate_loop sh seed h bins ?out (nonce + 1) = Some bs"
      using less.hyps [OF lt] less.prems(3) by blast
    then have "candidate_loop sh seed h bins out nonce = Some bs"
      using True by (subst candidate_loop.simps) (simp add: Let_def direct_bin_def split: if_splits)
    then show ?thesis ..
  next
    case False
    then show ?thesis by (subst candidate_loop.simps) simp
  qed
qed

lemma candidate_loop_card:
  assumes "candidate_loop sh seed h bins [] 0 = Some bs" and "0 < bins" and "bins < 2 ^ 64"
  shows "h \<le> card (reachable_bins sh seed bins)"
proof -
  have "distinct bs" "length bs = h" "set bs \<subseteq> reachable_bins sh seed bins"
    using candidate_loop_result [OF assms(1)] by simp_all
  then show ?thesis
    using card_mono [OF finite_reachable_bins(1) [OF assms(2,3)]] distinct_card by metis
qed

lemma candidate_bins_Inr:
  assumes "direct_index_candidate_bins sh seed h bins = Some (Inr bs)" and "bins < 2 ^ 64"
  shows "distinct bs" "length bs = h" "set bs \<subseteq> reachable_bins sh seed bins" "\<And>b. b \<in> set bs \<Longrightarrow> b < bins"
    "0 < h" "0 < bins" "length sh = DIRECT_SCRIPT_HASH_SIZE"
proof -
  from assms show "0 < h" "0 < bins" "length sh = DIRECT_SCRIPT_HASH_SIZE"
    by (simp_all add: direct_index_candidate_bins_def split: if_splits)
  from assms have l: "candidate_loop sh seed h bins [] 0 = Some bs"
    by (simp add: direct_index_candidate_bins_def split: if_splits option.splits)
  from candidate_loop_result [OF l] show r: "distinct bs" "length bs = h" "set bs \<subseteq> reachable_bins sh seed bins"
    by simp_all
  show "b < bins" if "b \<in> set bs" for b
    using r(3) that direct_bin_less [OF \<open>0 < bins\<close> assms(2)] by (auto simp: reachable_bins_def)
qed

lemma candidate_bins_exist:
  assumes "length sh = DIRECT_SCRIPT_HASH_SIZE" and "0 < h" and "0 < bins"
    and "h \<le> card (reachable_bins sh seed bins)"
  shows "\<exists>bs. direct_index_candidate_bins sh seed h bins = Some (Inr bs)"
  using candidate_loop_returns [of "[]" sh seed bins 0 h] assms by (auto simp: direct_index_candidate_bins_def)

text \<open>
  C32. The candidate search returns exactly when the hash of the script hash reaches enough bins over
  all nonces; then it gives that many distinct bins of the table, and otherwise it does not return.
\<close>

theorem candidate_bins_return:
  assumes "length sh = DIRECT_SCRIPT_HASH_SIZE" and "0 < h" and "0 < bins" and "bins < 2 ^ 64"
  shows "if h \<le> card (reachable_bins sh seed bins)
    then \<exists>bs. direct_index_candidate_bins sh seed h bins = Some (Inr bs) \<and> distinct bs \<and> length bs = h \<and>
      (\<forall>b \<in> set bs. b < bins)
    else direct_index_candidate_bins sh seed h bins = None"
proof (cases "h \<le> card (reachable_bins sh seed bins)")
  case True
  from candidate_bins_exist [OF assms(1-3) this]
  obtain bs where "direct_index_candidate_bins sh seed h bins = Some (Inr bs)" ..
  with candidate_bins_Inr [OF this assms(4)] True show ?thesis by auto
next
  case False
  then have "candidate_loop sh seed h bins [] 0 = None"
    using candidate_loop_card [OF _ assms(3,4), of sh seed h] by (cases "candidate_loop sh seed h bins [] 0") auto
  with False assms show ?thesis by (simp add: direct_index_candidate_bins_def)
qed

theorem candidate_bins_return_witness:
  "\<exists>bs. direct_index_candidate_bins (replicate 20 0) 0x6f72616d64697231 1 1 = Some (Inr bs) \<and> length bs = 1"
proof -
  have "reachable_bins (replicate 20 0) 0x6f72616d64697231 1 = {0}"
    using direct_bin_less [of 1] by (fastforce simp: reachable_bins_def)
  then show ?thesis
    using candidate_bins_return [of "replicate 20 0" 1 1 "0x6f72616d64697231"] by (auto simp: direct_sizes)
qed

text \<open>
  C33. Asking for more hash functions than there are bins never returns: \<open>from_index_file\<close> accepts
  such a table (it only asks for \<open>hash_fns > 0\<close>), for instance any small file with the default two
  hash functions and one bin, and then both the build and every lookup loop for ever.
\<close>

theorem candidate_bins_diverge:
  assumes "length sh = DIRECT_SCRIPT_HASH_SIZE" and "0 < bins" and "bins < h" and "bins < 2 ^ 64"
  shows "direct_index_candidate_bins sh seed h bins = None"
proof -
  have "\<not> h \<le> card (reachable_bins sh seed bins)"
    using finite_reachable_bins(2) [OF assms(2,4), of sh seed] assms(3) by simp
  then have "candidate_loop sh seed h bins [] 0 = None"
    using candidate_loop_card [OF _ assms(2,4), of sh seed h] by (cases "candidate_loop sh seed h bins [] 0") auto
  with assms show ?thesis by (simp add: direct_index_candidate_bins_def)
qed

theorem candidate_bins_diverge_witness:
  "direct_index_candidate_bins (replicate 20 0) 0x6f72616d64697231 2 1 = None"
  by (rule candidate_bins_diverge) (simp_all add: direct_sizes)

end
