(* ===== verification/Direct_Placement.thy ===== *)
theory Direct_Placement
  imports Direct_Cuckoo
begin

text \<open>
  The placement of the direct index (src/src/direct.rs): \<open>build_direct_index_placement\<close>, when it
  returns without an error, puts every record into exactly one slot, a slot of one of the record's
  candidate bins, whatever evictions it took.
\<close>

section \<open>The invariant of the table\<close>

definition held :: "u32 list \<Rightarrow> u32 multiset" where
  "held placement = mset (filter (\<lambda>x. x \<noteq> EMPTY_SLOT) placement)"

definition in_candidate :: "'f direct_table \<Rightarrow> bytes \<Rightarrow> u32 \<Rightarrow> nat \<Rightarrow> bool" where
  "in_candidate info mmap r bin \<longleftrightarrow>
     (\<exists>bs. record_candidates info mmap (unat r) = Some (Inr bs) \<and> bin \<in> set bs)"

definition placement_ok :: "'f direct_table \<Rightarrow> bytes \<Rightarrow> u32 list \<Rightarrow> bool" where
  "placement_ok info mmap placement \<longleftrightarrow>
     length placement = dt_total_items info * dt_slots_per_bin info \<and>
     (\<forall>slot < length placement. placement ! slot \<noteq> EMPTY_SLOT \<longrightarrow>
        in_candidate info mmap (placement ! slot) (slot div dt_slots_per_bin info))"

text \<open>The dimensions that keep the slot arithmetic below 64 bits.\<close>

definition table_fits :: "'f direct_table \<Rightarrow> bool" where
  "table_fits info \<longleftrightarrow>
     dt_total_items info * dt_slots_per_bin info < 2 ^ 64 \<and> 0 < dt_slots_per_bin info \<and> dt_total_items info < 2 ^ 64"

lemma held_update:
  assumes "i < length placement" and "r \<noteq> EMPTY_SLOT"
  shows "placement ! i = EMPTY_SLOT \<Longrightarrow> held (placement[i := r]) = add_mset r (held placement)"
    and "placement ! i \<noteq> EMPTY_SLOT \<Longrightarrow>
      add_mset (placement ! i) (held (placement[i := r])) = add_mset r (held placement)"
proof -
  note u = mset_update_nth [OF assms(1), of r]
  have held: "held xs = filter_mset (\<lambda>x. x \<noteq> EMPTY_SLOT) (mset xs)" for xs by (simp add: held_def)
  have "filter_mset (\<lambda>x. x \<noteq> EMPTY_SLOT) (add_mset (placement ! i) (mset (placement[i := r]))) =
      filter_mset (\<lambda>x. x \<noteq> EMPTY_SLOT) (add_mset r (mset placement))" by (simp only: u)
  then show "placement ! i = EMPTY_SLOT \<Longrightarrow> held (placement[i := r]) = add_mset r (held placement)"
    and "placement ! i \<noteq> EMPTY_SLOT \<Longrightarrow>
      add_mset (placement ! i) (held (placement[i := r])) = add_mset r (held placement)"
    using assms(2) by (simp_all add: held)
qed

lemma placement_ok_update:
  assumes "placement_ok info mmap placement" and "slot < length placement"
    and "in_candidate info mmap r (slot div dt_slots_per_bin info)"
  shows "placement_ok info mmap (placement[slot := r])"
  using assms by (auto simp: placement_ok_def nth_list_update)

lemma slot_in_bin:
  assumes "bin < m" and "i < k"
  shows "bin * k + i < m * k" "(bin * k + i) div k = (bin :: nat)"
proof -
  have "Suc bin * k \<le> m * k" using assms(1) by (intro mult_le_mono1) simp
  with assms(2) show "bin * k + i < m * k" by simp
  show "(bin * k + i) div k = bin" using assms(2) by simp
qed

lemma first_empty_Some: "first_empty xs = Some i \<Longrightarrow> i < length xs \<and> xs ! i = EMPTY_SLOT"
  by (induction xs arbitrary: i) (auto split: if_splits)

lemma place_in_empty_slot_ok:
  assumes "placement_ok info mmap placement" and "table_fits info" and "bin < dt_total_items info"
    and "in_candidate info mmap r bin" and "r \<noteq> EMPTY_SLOT"
  shows "\<exists>b placement'. place_in_empty_slot placement bin (dt_slots_per_bin info) r = Inr (b, placement') \<and>
    (if b then placement_ok info mmap placement' \<and> held placement' = add_mset r (held placement)
     else placement' = placement)"
proof -
  let ?k = "dt_slots_per_bin info"
  have len: "length placement = dt_total_items info * ?k" using assms(1) by (simp add: placement_ok_def)
  have "Suc bin * ?k \<le> dt_total_items info * ?k" using assms(3) by (intro mult_le_mono1) simp
  then have le: "bin * ?k + ?k \<le> length placement" by (simp add: len)
  moreover have "length placement < 2 ^ 64" using assms(2) by (simp add: table_fits_def len)
  ultimately have lt: "bin * ?k + ?k < 2 ^ 64" by linarith
  then have "bin * ?k < 2 ^ 64" by linarith
  with lt have exact: "usize_mul bin ?k = bin * ?k" "usize_add (bin * ?k) ?k = bin * ?k + ?k" by simp_all
  show ?thesis
  proof (cases "first_empty (slice (bin * ?k) (bin * ?k + ?k) placement)")
    case None
    then show ?thesis using le by (intro exI [of _ False]) (simp add: place_in_empty_slot_def Let_def exact)
  next
    case (Some i)
    from first_empty_Some [OF this] le have i: "i < ?k" "placement ! (bin * ?k + i) = EMPTY_SLOT"
      using nth_slice [OF le, of i "bin * ?k"] by simp_all
    have slot: "bin * ?k + i < length placement" "(bin * ?k + i) div ?k = bin"
      using slot_in_bin [OF assms(3) i(1)] by (simp_all add: len)
    have "place_in_empty_slot placement bin ?k r = Inr (True, placement[bin * ?k + i := r])"
      using Some le by (simp add: place_in_empty_slot_def Let_def exact)
    moreover have "placement_ok info mmap (placement[bin * ?k + i := r])"
      using assms(1,4) slot by (intro placement_ok_update) simp_all
    ultimately show ?thesis using held_update(1) [OF slot(1) assms(5) i(2)] by (intro exI [of _ True]) simp
  qed
qed

lemma try_place_ok:
  assumes "placement_ok info mmap placement" and "table_fits info"
    and "\<And>b. b \<in> set bins \<Longrightarrow> b < dt_total_items info \<and> in_candidate info mmap r b" and "r \<noteq> EMPTY_SLOT"
  shows "\<exists>b placement'. try_place bins (dt_slots_per_bin info) r placement = Inr (b, placement') \<and>
    (if b then placement_ok info mmap placement' \<and> held placement' = add_mset r (held placement)
     else placement' = placement)"
  using assms
proof (induction bins)
  case (Cons bin bins)
  then have bin: "bin < dt_total_items info" "in_candidate info mmap r bin" by simp_all
  from place_in_empty_slot_ok [OF Cons.prems(1,2) bin Cons.prems(4)] obtain b p where
    "place_in_empty_slot placement bin (dt_slots_per_bin info) r = Inr (b, p)"
    "if b then placement_ok info mmap p \<and> held p = add_mset r (held placement) else p = placement" by blast
  with Cons show ?case by (cases b) auto
qed (auto intro: exI [of _ False])

text \<open>The candidates of a record, when the search returns.\<close>

lemma record_candidates_Inr:
  assumes "record_candidates info mmap r = Some (Inr bs)" and "table_fits info"
  shows "bs \<noteq> []" "\<And>b. b \<in> set bs \<Longrightarrow> b < dt_total_items info" "distinct bs" "length bs = dt_hash_fns info"
proof -
  from assms(1) obtain rec where c: "direct_index_candidate_bins (script_hash_from_record rec) (dt_seed info)
      (dt_hash_fns info) (dt_total_items info) = Some (Inr bs)"
    by (auto simp: record_candidates_def obnd_Inr_iff)
  from assms(2) have lt: "dt_total_items info < 2 ^ 64" by (simp add: table_fits_def)
  from candidate_bins_Inr [OF c lt] show "bs \<noteq> []" "\<And>b. b \<in> set bs \<Longrightarrow> b < dt_total_items info" "distinct bs"
    "length bs = dt_hash_fns info" by auto
qed

lemma try_candidates:
  assumes "placement_ok info mmap placement" and "table_fits info" and "r \<noteq> EMPTY_SLOT"
    and "record_candidates info mmap (unat r) = Some (Inr bs)" and "set bins \<subseteq> set bs"
    and "try_place bins (dt_slots_per_bin info) r placement = Inr (b, placement')"
  shows "if b then placement_ok info mmap placement' \<and> held placement' = add_mset r (held placement)
     else placement' = placement"
  using try_place_ok [OF assms(1,2) _ assms(3), of bins] record_candidates_Inr [OF assms(4,2)] assms(4-6)
  by (fastforce simp: in_candidate_def)

lemma position_Some: "position x xs = Some i \<Longrightarrow> i < length xs \<and> xs ! i = x"
  by (induction xs arbitrary: i) (auto split: if_splits)

lemma alternate_candidate:
  assumes "alternate_candidate_bin info mmap (unat r) current kick = Some (Inr b)"
  shows "in_candidate info mmap r b"
  using assms
  by (auto simp: alternate_candidate_bin_def obnd_Inr_iff in_candidate_def split: if_splits option.splits)

lemma first_candidate:
  assumes "first_candidate_bin info mmap (unat r) = Some (Inr b)"
  shows "in_candidate info mmap r b"
  using assms by (auto simp: first_candidate_bin_def obnd_Inr_iff in_candidate_def split: if_splits)

lemma in_candidate_less: "in_candidate info mmap r b \<Longrightarrow> table_fits info \<Longrightarrow> b < dt_total_items info"
  by (auto simp: in_candidate_def dest: record_candidates_Inr)

section \<open>Insertion keeps it\<close>

lemma kick_loop_ok:
  assumes "kick_loop info mmap kicks current bin placement = Some (Inr placement')" and "table_fits info"
    and "placement_ok info mmap placement" and "current \<noteq> EMPTY_SLOT" and "in_candidate info mmap current bin"
  shows "placement_ok info mmap placement' \<and> held placement' = add_mset current (held placement)"
  using assms
proof (induction kicks arbitrary: current bin placement)
  case (Cons kick kicks)
  let ?k = "dt_slots_per_bin info"
  let ?slot = "eviction_slot (dt_seed info) current kick ?k"
  have k: "0 < ?k" using Cons.prems(2) by (simp add: table_fits_def)
  have slot: "?slot < ?k" using k by (simp add: eviction_slot_def Let_def)
  have bin: "bin < dt_total_items info" using Cons.prems(2,5) by (simp add: in_candidate_less)
  have len: "length placement = dt_total_items info * ?k" using Cons.prems(3) by (simp add: placement_ok_def)
  let ?o = "bin * ?k + ?slot"
  have o: "?o < length placement" "?o div ?k = bin" using slot_in_bin [OF bin slot] by (simp_all add: len)
  moreover have "length placement < 2 ^ 64" using Cons.prems(2) by (simp add: table_fits_def len)
  ultimately have lt: "?o < 2 ^ 64" by linarith
  then have "bin * ?k < 2 ^ 64" by linarith
  with lt have exact: "usize_mul bin ?k = bin * ?k" "usize_add (bin * ?k) ?slot = ?o" by simp_all
  let ?e = "placement ! ?o" and ?p = "placement[?o := current]"
  have ok: "placement_ok info mmap ?p" using Cons.prems(3,5) o by (intro placement_ok_update) simp_all
  show ?case
  proof (cases "?e = EMPTY_SLOT")
    case True
    with Cons.prems(1) o(1) have "placement' = ?p" by (simp add: Let_def exact)
    with ok held_update(1) [OF o(1) Cons.prems(4) True] show ?thesis by simp
  next
    case False
    note held = held_update(2) [OF o(1) Cons.prems(4) False]
    from Cons.prems(1) False o(1) obtain b p where t:
      "try_place_in_any_candidate_except info mmap ?p ?e bin = Some (Inr (b, p))"
      and rest: "(if b then Some (Inr p) else obnd (alternate_candidate_bin info mmap (unat ?e) bin (kick + 1))
          (\<lambda>bin. kick_loop info mmap kicks ?e bin p)) = Some (Inr placement')"
      by (auto simp: Let_def exact obnd_Inr_iff)
    from t obtain bs where bs: "record_candidates info mmap (unat ?e) = Some (Inr bs)"
      "try_place (filter (\<lambda>b. b \<noteq> bin) bs) ?k ?e ?p = Inr (b, p)"
      by (auto simp: try_place_in_any_candidate_except_def obnd_Inr_iff)
    from try_candidates [OF ok Cons.prems(2) False bs(1) _ bs(2)]
    have placed: "if b then placement_ok info mmap p \<and> held p = add_mset ?e (held ?p) else p = ?p" by auto
    show ?thesis
    proof (cases b)
      case True
      with rest placed held show ?thesis by simp
    next
      case False
      with rest placed obtain bin' where
        "alternate_candidate_bin info mmap (unat ?e) bin (kick + 1) = Some (Inr bin')"
        "kick_loop info mmap kicks ?e bin' ?p = Some (Inr placement')"
        by (auto simp: obnd_Inr_iff)
      with Cons.IH [of ?e bin' ?p] Cons.prems(2) ok \<open>?e \<noteq> EMPTY_SLOT\<close> alternate_candidate held
      show ?thesis by metis
    qed
  qed
qed simp

lemma insert_index_record_ok:
  assumes "insert_index_record info mmap r placement = Some (Inr placement')" and "table_fits info"
    and "placement_ok info mmap placement" and "r \<noteq> EMPTY_SLOT"
  shows "placement_ok info mmap placement' \<and> held placement' = add_mset r (held placement)"
proof -
  from assms(1) obtain bin b p bs where
    bin: "first_candidate_bin info mmap (unat r) = Some (Inr bin)" and
    bs: "record_candidates info mmap (unat r) = Some (Inr bs)"
      "try_place bs (dt_slots_per_bin info) r placement = Inr (b, p)" and
    rest: "(if b then Some (Inr p) else kick_loop info mmap [0..<DIRECT_CUCKOO_MAX_KICKS] r bin p) = Some (Inr placement')"
    by (auto simp: insert_index_record_def try_place_in_any_candidate_def obnd_Inr_iff)
  have placed: "if b then placement_ok info mmap p \<and> held p = add_mset r (held placement) else p = placement"
    using try_candidates [OF assms(3,2,4) bs(1) _ bs(2)] by simp
  show ?thesis
  proof (cases b)
    case True
    with rest placed show ?thesis by simp
  next
    case False
    with rest placed have "kick_loop info mmap [0..<DIRECT_CUCKOO_MAX_KICKS] r bin placement = Some (Inr placement')"
      by simp
    from kick_loop_ok [OF this assms(2-4) first_candidate [OF bin]] show ?thesis .
  qed
qed

lemma insert_records_ok:
  assumes "ofoldM (\<lambda>r. insert_index_record info mmap (word_of_nat r)) rs placement = Some (Inr placement')"
    and "table_fits info" and "placement_ok info mmap placement" and "\<And>r. r \<in> set rs \<Longrightarrow> r < 2 ^ 32 - 1"
  shows "placement_ok info mmap placement' \<and> held placement' = mset (map word_of_nat rs) + held placement"
  using assms
proof (induction rs arbitrary: placement)
  case (Cons r rs)
  from Cons.prems(1) obtain p where p: "insert_index_record info mmap (word_of_nat r) placement = Some (Inr p)"
    "ofoldM (\<lambda>r. insert_index_record info mmap (word_of_nat r)) rs p = Some (Inr placement')"
    by (auto simp: obnd_Inr_iff)
  have "r < 2 ^ 32 - 1" using Cons.prems(4) by simp
  then have "unat (word_of_nat r :: u32) \<noteq> unat EMPTY_SLOT"
    by (simp add: unat_of_nat EMPTY_SLOT_def unsigned_minus_1_eq_mask mask_eq_exp_minus_1)
  then have "(word_of_nat r :: u32) \<noteq> EMPTY_SLOT" by metis
  from insert_index_record_ok [OF p(1) Cons.prems(2,3) this] Cons.IH [OF p(2) Cons.prems(2)] Cons.prems(4)
  show ?case by simp
qed simp

text \<open>A placement that is returned holds every record once, in one of its candidate bins.\<close>

lemma placement_holds:
  assumes "build_direct_index_placement info mmap = Some (Inr placement)" and "table_fits info"
  shows "length placement = dt_total_items info * dt_slots_per_bin info \<and>
    held placement = mset (map word_of_nat [0..<dt_records info]) \<and>
    (\<forall>slot < length placement. placement ! slot \<noteq> EMPTY_SLOT \<longrightarrow>
      unat (placement ! slot) < dt_records info \<and>
      in_candidate info mmap (placement ! slot) (slot div dt_slots_per_bin info)) \<and>
    (\<forall>r < dt_records info. \<exists>slot < length placement. placement ! slot = word_of_nat r)"
proof -
  let ?start = "replicate (dt_total_items info * dt_slots_per_bin info) EMPTY_SLOT"
  from assms(1) have few: "dt_records info \<le> 2 ^ 32 - 1" and
    run: "ofoldM (\<lambda>r. insert_index_record info mmap (word_of_nat r)) [0..<dt_records info] ?start = Some (Inr placement)"
    using assms(2) by (auto simp: build_direct_index_placement_def checked_mul_usize_def table_fits_def split: if_splits)
  have "placement_ok info mmap ?start" "held ?start = {#}" by (simp_all add: placement_ok_def held_def)
  with insert_records_ok [OF run assms(2)] few have ok: "placement_ok info mmap placement"
    and held: "held placement = mset (map word_of_nat [0..<dt_records info])" by auto
  have un: "unat (word_of_nat r :: u32) = r" if "r < dt_records info" for r using that few by (simp add: unat_of_nat)
  have set: "set (filter (\<lambda>x. x \<noteq> EMPTY_SLOT) placement) = word_of_nat ` {..<dt_records info}"
    using arg_cong [OF held, of set_mset] by (simp add: held_def lessThan_atLeast0)
  have "unat (placement ! slot) < dt_records info"
    if "slot < length placement" "placement ! slot \<noteq> EMPTY_SLOT" for slot
  proof -
    from that have "placement ! slot \<in> set (filter (\<lambda>x. x \<noteq> EMPTY_SLOT) placement)" by simp
    with set un show ?thesis by auto
  qed
  moreover have "\<exists>slot < length placement. placement ! slot = word_of_nat r" if "r < dt_records info" for r
  proof -
    from that have "word_of_nat r \<in> set (filter (\<lambda>x. x \<noteq> EMPTY_SLOT) placement)" unfolding set by blast
    then have "word_of_nat r \<in> set placement" by simp
    then show ?thesis by (simp add: in_set_conv_nth)
  qed
  ultimately show ?thesis using ok held by (simp add: placement_ok_def)
qed

text \<open>
  C31. The placement of a direct index. If \<open>build_direct_index_placement\<close> returns a table, it has
  \<open>slots_per_bin\<close> slots for every bin, and it holds every record of the file exactly once, in a slot
  of one of the record's candidate bins; all other slots are empty. No sequence of evictions loses
  or duplicates a record.
\<close>

theorem index_placement_complete:
  assumes "build_direct_index_placement info mmap = Some (Inr placement)" and "table_fits info"
  shows "length placement = dt_total_items info * dt_slots_per_bin info \<and>
    held placement = mset (map word_of_nat [0..<dt_records info]) \<and>
    (\<forall>slot < length placement. placement ! slot \<noteq> EMPTY_SLOT \<longrightarrow>
      unat (placement ! slot) < dt_records info \<and>
      in_candidate info mmap (placement ! slot) (slot div dt_slots_per_bin info)) \<and>
    (\<forall>r < dt_records info. \<exists>slot < length placement. placement ! slot = word_of_nat r)"
  by (rule placement_holds [OF assms])

text \<open>Two records, one bin of two slots.\<close>

definition pair_record :: "u8 \<Rightarrow> u32 \<Rightarrow> u8 \<Rightarrow> bytes" where
  "pair_record h start chunks = replicate 20 h @ u32_to_le_bytes start @ [chunks]"

definition pair_file :: bytes where
  "pair_file = pair_record 1 5 2 @ pair_record 9 7 3"

definition pair_table :: "unit direct_table" where
  "pair_table = \<lparr>dt_level = DirectIndex, dt_path = ''idx'', dt_file_bytes = 50, dt_records = 2, dt_slots_per_bin = 2,
      dt_hash_fns = 1, dt_load_factor = (), dt_seed = 0, dt_total_items = 1, dt_item_size = 52\<rparr>"

lemma one_bin_candidates: "length sh = 20 \<Longrightarrow> direct_index_candidate_bins sh seed 1 1 = Some (Inr [0])"
proof -
  assume sh: "length sh = 20"
  have "candidate_loop sh seed 1 1 [] 0 = Some [direct_cuckoo_hash sh (derive_direct_cuckoo_key seed 0) 1]"
    by (subst candidate_loop.simps, simp add: Let_def) (subst candidate_loop.simps, simp)
  moreover have "direct_cuckoo_hash sh key 1 = 0" for key by (simp add: direct_cuckoo_hash_def Let_def)
  ultimately show ?thesis using sh by (simp add: direct_index_candidate_bins_def direct_sizes)
qed

lemma pair_candidates: "r < 2 \<Longrightarrow> record_candidates pair_table pair_file r = Some (Inr [0])"
proof -
  assume r: "r < 2"
  have "length pair_file = 50" by (simp add: pair_file_def pair_record_def)
  with r have "\<exists>rec. index_record pair_file r = Inr rec \<and> length rec = 25"
    by (auto simp: index_record_def checked_mul_usize_def direct_sizes Let_def)
  then show ?thesis
    by (auto simp: record_candidates_def pair_table_def script_hash_from_record_def direct_sizes
        one_bin_candidates [simplified])
qed

lemma pair_fits: "table_fits pair_table"
  by (simp add: table_fits_def pair_table_def)

lemma pair_placement: "build_direct_index_placement pair_table pair_file = Some (Inr [0, 1])"
proof -
  have empty: "0 \<noteq> EMPTY_SLOT" by (simp add: EMPTY_SLOT_def)
  have k: "dt_slots_per_bin pair_table = 2" by (simp add: pair_table_def)
  have "insert_index_record pair_table pair_file 0 [EMPTY_SLOT, EMPTY_SLOT] = Some (Inr [0, EMPTY_SLOT])"
    "insert_index_record pair_table pair_file 1 [0, EMPTY_SLOT] = Some (Inr [0, 1])"
    using empty by (simp_all add: insert_index_record_def first_candidate_bin_def try_place_in_any_candidate_def
        pair_candidates place_in_empty_slot_def Let_def slice_def k)
  moreover have "dt_records pair_table = 2" "dt_total_items pair_table = 1" "[0..<2] = [0, 1 :: nat]"
    "replicate 2 EMPTY_SLOT = [EMPTY_SLOT, EMPTY_SLOT]"
    by (simp_all add: pair_table_def upt_rec numeral_2_eq_2)
  ultimately show ?thesis
    by (simp add: build_direct_index_placement_def checked_mul_usize_def k)
qed

theorem index_placement_complete_witness:
  "build_direct_index_placement pair_table pair_file = Some (Inr [0, 1]) \<and>
    held [0, 1] = mset (map word_of_nat [0..<2]) \<and> in_candidate pair_table pair_file 1 0"
proof -
  have "dt_records pair_table = 2" "dt_slots_per_bin pair_table = 2" by (simp_all add: pair_table_def)
  with index_placement_complete [OF pair_placement pair_fits]
  have "held [0, 1] = mset (map word_of_nat [0..<2])"
    and all: "\<forall>slot < 2. [0, 1] ! slot \<noteq> EMPTY_SLOT \<longrightarrow> in_candidate pair_table pair_file ([0, 1] ! slot) (slot div 2)"
    by (simp_all add: pair_table_def)
  moreover from all have "in_candidate pair_table pair_file 1 0"
    by (auto dest: spec [of _ 1] simp: EMPTY_SLOT_def)
  ultimately show ?thesis using pair_placement by simp
qed

end
