(* ===== verification/Direct_Reader.thy ===== *)
theory Direct_Reader
  imports Direct_Placement
begin

text \<open>
  The readers of the direct tables (src/src/direct.rs): the packed source of an index with its
  placement, the script-hash lookups through a controller, one by one or in one batch, and the
  chunk reads. A call that computes candidate bins may not return; then it is \<open>None\<close>.
\<close>

section \<open>The packed source of an index\<close>

record 'f index_reader =
  ix_info :: "'f direct_table"
  ix_metadata :: direct_metadata
  ix_next_block :: nat
  ix_mmap :: bytes
  ix_placement :: "u32 list"

definition index_build ::
  "'f float_lib \<Rightarrow> (string \<rightharpoonup> bytes) \<Rightarrow> 'f direct_table \<Rightarrow> nat \<Rightarrow> 'f index_reader result option" where
  "index_build F fs info items_per_block =
     (if dt_level info \<noteq> DirectIndex then
        Some (Inl (InvalidInput ''DirectIndexPackedBlockReader requires index table info''))
      else
        obnd (Some (open_file fs (dt_path info))) (\<lambda>mmap.
        obnd (build_direct_index_placement info mmap) (\<lambda>placement.
        Some (rbind (metadata_from_info F info items_per_block) (\<lambda>metadata.
          Inr \<lparr>ix_info = info, ix_metadata = metadata, ix_next_block = 0, ix_mmap = mmap,
               ix_placement = placement\<rparr>)))))"

text \<open>One slot of \<open>encode_bin\<close>; \<open>out\<close> is the slice of the payload the bin goes to.\<close>

definition encode_slot :: "'f index_reader \<Rightarrow> nat \<Rightarrow> nat \<Rightarrow> bytes \<Rightarrow> bytes result" where
  "encode_slot s base slot_idx out =
     (let slot_start = usize_mul slot_idx DIRECT_INDEX_SLOT_SIZE in
      if usize_add base slot_idx \<ge> length (ix_placement s) then Inl (Panic ''index out of bounds'')
      else if slot_start + DIRECT_INDEX_SLOT_SIZE > length out then Inl (Panic ''range out of range for slice'')
      else
        let entry_idx = ix_placement s ! usize_add base slot_idx in
        if entry_idx = EMPTY_SLOT then Inr (copy_into slot_start (replicate DIRECT_INDEX_SLOT_SIZE 0) out)
        else rbind (index_record (ix_mmap s) (unat entry_idx)) (\<lambda>record'.
          Inr (copy_into slot_start (1 # record') out)))"

definition encode_bin :: "'f index_reader \<Rightarrow> nat \<Rightarrow> bytes \<Rightarrow> bytes result" where
  "encode_bin s bin_id out =
     (if length out \<noteq> dm_item_size (ix_metadata s) then
        Inl (InvalidInput ''direct index bin output len {} != expected {}'')
      else
        rbind (ok_or (checked_mul_usize bin_id (dt_slots_per_bin (ix_info s)))
                 (InvalidInput ''direct index bin offset overflow'')) (\<lambda>base.
        rfoldM (encode_slot s base) [0..<dt_slots_per_bin (ix_info s)] out))"

definition encode_item :: "'f index_reader \<Rightarrow> nat \<Rightarrow> nat \<Rightarrow> bytes \<Rightarrow> bytes result" where
  "encode_item s start_item item_offset payload =
     (let bin_id = start_item + item_offset;
          byte_start = usize_mul item_offset (dm_item_size (ix_metadata s));
          byte_end = usize_add byte_start (dm_item_size (ix_metadata s)) in
      if byte_start > byte_end \<or> byte_end > length payload then Inl (Panic ''range out of range for slice'')
      else rbind (encode_bin s bin_id (slice byte_start byte_end payload)) (\<lambda>out.
        Inr (copy_into byte_start out payload)))"

definition index_read_block :: "nat \<Rightarrow> 'f index_reader \<Rightarrow> bytes result" where
  "index_read_block logical_block s =
     (let m = ix_metadata s in
      if logical_block \<ge> dm_logical_blocks m then Inl (InvalidInput ''logical block {} out of range {}'')
      else
        let start_item = logical_block * dm_items_per_block m;
            remaining = dm_total_items m - start_item;
            items_to_encode = min remaining (dm_items_per_block m) in
        rfoldM (encode_item s start_item) [0..<items_to_encode] (replicate (dm_block_payload_bytes m) 0))"

definition index_read_bin :: "nat \<Rightarrow> 'f index_reader \<Rightarrow> bytes result" where
  "index_read_bin bin_id s =
     rbind (locate_item (ix_metadata s) bin_id) (\<lambda>location.
     rbind (index_read_block (lo_logical_block location) s) (slice_location location))"

definition index_next :: "'f index_reader \<Rightarrow> bytes result option \<times> 'f index_reader" where
  "index_next s =
     (if ix_next_block s \<ge> dm_logical_blocks (ix_metadata s) then (None, s)
      else
        let block_idx = ix_next_block s; s = s\<lparr>ix_next_block := ix_next_block s + 1\<rparr>
        in (Some (index_read_block block_idx s), s))"

definition index_source_ops :: "'f index_reader block_source" where
  "index_source_ops =
     \<lparr>bs_logical_blocks = (\<lambda>s. dm_logical_blocks (ix_metadata s)),
      bs_block_size = (\<lambda>s. dm_block_payload_bytes (ix_metadata s)),
      bs_read_block = (\<lambda>logical_id s. (index_read_block logical_id s, s))\<rparr>"

section \<open>Selecting a record from a bin\<close>

text \<open>The three accumulators of a lookup: \<open>found\<close>, \<open>start_chunk_id\<close> and \<open>num_chunks\<close>.\<close>

type_synonym 'c selection = "'c \<times> u32 \<times> u8"

definition select_slot :: "'c subtle \<Rightarrow> bytes \<Rightarrow> bytes \<Rightarrow> nat \<Rightarrow> 'c selection \<Rightarrow> 'c selection" where
  "select_slot sb bin script_hash slot_idx acc =
     (let (found, start_chunk_id, num_chunks) = acc;
          slot_start = slot_idx * DIRECT_INDEX_SLOT_SIZE;
          slot = slice slot_start (slot_start + DIRECT_INDEX_SLOT_SIZE) bin;
          occupied = choice_from_bool sb (slot ! 0 = 1);
          diff = fold (\<lambda>i diff. diff OR (slot ! (1 + i) XOR script_hash ! i)) [0..<DIRECT_SCRIPT_HASH_SIZE] 0;
          is_match = ct_and sb occupied (is_zero_u64 sb (ucast diff));
          select = ct_and sb is_match (ct_not sb found);
          candidate_start = u32_from_le_bytes (slice 21 25 slot);
          candidate_chunks = slot ! 25
      in (ct_or sb found select, cmov_u32 sb start_chunk_id candidate_start select,
          cmov_u8 sb num_chunks candidate_chunks select))"

definition select_index_record_from_bin ::
  "'c subtle \<Rightarrow> bytes \<Rightarrow> nat \<Rightarrow> bytes \<Rightarrow> 'c selection \<Rightarrow> 'c selection result" where
  "select_index_record_from_bin sb bin slots_per_bin script_hash acc =
     (if length bin \<noteq> usize_mul slots_per_bin DIRECT_INDEX_SLOT_SIZE then
        Inl (InvalidInput ''direct index bin len {} != expected {}'')
      else Inr (fold (select_slot sb bin script_hash) [0..<slots_per_bin] acc))"

section \<open>Lookups through a controller\<close>

record ('m, 'p, 'r) direct_reader =
  dr_metadata :: direct_metadata
  dr_oram :: "('m, 'p, 'r) circuit_oram"

abbreviation on_direct_oram :: "(('m, 'p, 'r) circuit_oram, 'a) comp \<Rightarrow> (('m, 'p, 'r) direct_reader, 'a) comp" where
  "on_direct_oram \<equiv> zoom dr_oram (\<lambda>t s. s\<lparr>dr_oram := t\<rparr>)"

record index_lookup =
  il_script_hash :: bytes
  il_found :: bool
  il_start_chunk_id :: u32
  il_num_chunks :: u8
  il_candidate_bins :: "nat list"
  il_logical_blocks :: "nat list"
  il_drained_evictions :: u64

record index_batch_lookup =
  ib_lookups :: "index_lookup list"
  ib_drained_evictions :: u64

definition validate_oram_dimensions :: "direct_metadata \<Rightarrow> ('m, 'p, 'r) circuit_oram \<Rightarrow> unit result" where
  "validate_oram_dimensions m oram =
     (if logical_blocks (co_params oram) \<noteq> dm_logical_blocks m then
        Inl (InvalidInput ''direct {} ORAM logical_blocks {} != metadata logical_blocks {}'')
      else if block_size (co_params oram) \<noteq> dm_block_payload_bytes m then
        Inl (InvalidInput ''direct {} ORAM block_size {} != metadata block_payload_bytes {}'')
      else Inr ())"

definition index_reader_new ::
  "direct_metadata \<Rightarrow> ('m, 'p, 'r) circuit_oram \<Rightarrow> ('m, 'p, 'r) direct_reader result" where
  "index_reader_new m oram =
     rbind (metadata_validate m) (\<lambda>_.
     if dm_level m \<noteq> DirectIndex then Inl (InvalidInput ''CircuitDirectIndexReader requires index metadata'')
     else rbind (validate_oram_dimensions m oram) (\<lambda>_. Inr \<lparr>dr_metadata = m, dr_oram = oram\<rparr>))"

text \<open>The loop of \<open>lookup\<close> over the candidate bins: read the block, scan the bin, drain.\<close>

fun lookup_loop ::
  "('c, 'm, 'p, 'r) circuit_env \<Rightarrow> bytes \<Rightarrow> u64 \<Rightarrow> nat list \<Rightarrow> 'c selection \<times> nat list \<times> u64 \<Rightarrow>
    (('m, 'p, 'r) direct_reader, 'c selection \<times> nat list \<times> u64) comp" where
  "lookup_loop E script_hash drain_per_read [] acc = ret acc"
| "lookup_loop E script_hash drain_per_read (bin_id # bins) (selected, logical_blocks', drained_evictions) =
     bnd (gets dr_metadata) (\<lambda>m.
     bnd (lift (locate_item m bin_id)) (\<lambda>location.
     bnd (on_direct_oram (read_block E (word_of_nat (lo_logical_block location)))) (\<lambda>block.
     bnd (lift (slice_location location block)) (\<lambda>bin.
     bnd (lift (select_index_record_from_bin (e_ct E) bin (dm_slots_per_bin m) script_hash selected)) (\<lambda>selected.
     bnd (on_direct_oram (drain_evictions E drain_per_read)) (\<lambda>drained.
     lookup_loop E script_hash drain_per_read bins
       (selected, logical_blocks' @ [lo_logical_block location], drained_evictions + drained)))))))"

definition lookup_result :: "'c subtle \<Rightarrow> bytes \<Rightarrow> nat list \<Rightarrow> 'c selection \<times> nat list \<times> u64 \<Rightarrow> index_lookup" where
  "lookup_result sb script_hash candidate_bins = (\<lambda>((found, start_chunk_id, num_chunks), logical_blocks', drained).
     \<lparr>il_script_hash = script_hash, il_found = (unwrap_u8 sb found \<noteq> 0), il_start_chunk_id = start_chunk_id,
      il_num_chunks = num_chunks, il_candidate_bins = candidate_bins, il_logical_blocks = logical_blocks',
      il_drained_evictions = drained\<rparr>)"

definition reader_candidates :: "direct_metadata \<Rightarrow> bytes \<Rightarrow> nat list result option" where
  "reader_candidates m script_hash =
     direct_index_candidate_bins script_hash (dm_seed m) (dm_hash_fns m) (dm_total_items m)"

definition direct_lookup ::
  "('c, 'm, 'p, 'r) circuit_env \<Rightarrow> bytes \<Rightarrow> u64 \<Rightarrow> ('m, 'p, 'r) direct_reader \<Rightarrow>
    (index_lookup result \<times> ('m, 'p, 'r) direct_reader) option" where
  "direct_lookup E script_hash drain_per_read s =
     (case reader_candidates (dr_metadata s) script_hash of
        None \<Rightarrow> None
      | Some (Inl e) \<Rightarrow> Some (Inl e, s)
      | Some (Inr candidate_bins) \<Rightarrow>
          Some (bnd (lookup_loop E script_hash drain_per_read candidate_bins
                       ((choice_from_bool (e_ct E) False, 0, 0), [], 0)) (\<lambda>acc.
                ret (lookup_result (e_ct E) script_hash candidate_bins acc)) s))"

text \<open>The batched lookup: all candidate bins of all script hashes in one ORAM batch.\<close>

fun batch_locations ::
  "direct_metadata \<Rightarrow> bytes list \<Rightarrow> (nat list \<times> packed_location list) list result option" where
  "batch_locations m [] = Some (Inr [])"
| "batch_locations m (script_hash # hashes) =
     obnd (reader_candidates m script_hash) (\<lambda>candidate_bins.
     obnd (Some (rmapM (locate_item m) candidate_bins)) (\<lambda>locations.
     obnd (batch_locations m hashes) (\<lambda>rest. Some (Inr ((candidate_bins, locations) # rest)))))"

fun scan_blocks ::
  "'c subtle \<Rightarrow> nat \<Rightarrow> bytes \<Rightarrow> packed_location list \<Rightarrow> bytes list \<Rightarrow> 'c selection \<Rightarrow> 'c selection result" where
  "scan_blocks sb slots_per_bin script_hash [] blocks selected = Inr selected"
| "scan_blocks sb slots_per_bin script_hash (location # locations) [] selected =
     Inl (Panic ''flat blocks match candidate locations'')"
| "scan_blocks sb slots_per_bin script_hash (location # locations) (block # blocks) selected =
     rbind (slice_location location block) (\<lambda>bin.
     rbind (select_index_record_from_bin sb bin slots_per_bin script_hash selected)
       (scan_blocks sb slots_per_bin script_hash locations blocks))"

fun batch_lookups ::
  "'c subtle \<Rightarrow> nat \<Rightarrow> (bytes \<times> nat list \<times> packed_location list) list \<Rightarrow> bytes list \<Rightarrow> index_lookup list result" where
  "batch_lookups sb slots_per_bin [] blocks = Inr []"
| "batch_lookups sb slots_per_bin ((script_hash, candidate_bins, locations) # rest) blocks =
     rbind (scan_blocks sb slots_per_bin script_hash locations (take (length locations) blocks)
              (choice_from_bool sb False, 0, 0)) (\<lambda>selected.
     rbind (batch_lookups sb slots_per_bin rest (drop (length locations) blocks)) (\<lambda>lookups.
     Inr (lookup_result sb script_hash candidate_bins (selected, map lo_logical_block locations, 0) # lookups)))"

definition lookup_many_batched ::
  "('c, 'm, 'p, 'r) circuit_env \<Rightarrow> bytes list \<Rightarrow> u64 \<Rightarrow> ('m, 'p, 'r) direct_reader \<Rightarrow>
    (index_batch_lookup result \<times> ('m, 'p, 'r) direct_reader) option" where
  "lookup_many_batched E script_hashes drain_per_read s =
     (case batch_locations (dr_metadata s) script_hashes of
        None \<Rightarrow> None
      | Some (Inl e) \<Rightarrow> Some (Inl e, s)
      | Some (Inr located) \<Rightarrow>
          let flat_logical_ids = map lo_logical_block (concat (map snd located)) in
          Some (bnd (on_direct_oram (read_batch E (map word_of_nat flat_logical_ids))) (\<lambda>blocks.
                bnd (gets (\<lambda>s. dm_slots_per_bin (dr_metadata s))) (\<lambda>slots_per_bin.
                bnd (lift (batch_lookups (e_ct E) slots_per_bin (zip script_hashes located) blocks)) (\<lambda>lookups.
                bnd (on_direct_oram (drain_evictions E (drain_per_read * word_of_nat (length flat_logical_ids))))
                  (\<lambda>drained_evictions.
                ret \<lparr>ib_lookups = lookups, ib_drained_evictions = drained_evictions\<rparr>)))) s))"

definition lookup_batched ::
  "('c, 'm, 'p, 'r) circuit_env \<Rightarrow> bytes \<Rightarrow> u64 \<Rightarrow> ('m, 'p, 'r) direct_reader \<Rightarrow>
    (index_lookup result \<times> ('m, 'p, 'r) direct_reader) option" where
  "lookup_batched E script_hash drain_per_read s =
     (case lookup_many_batched E [script_hash] drain_per_read s of
        None \<Rightarrow> None
      | Some (r, s) \<Rightarrow>
          Some (rbind r (\<lambda>batch.
            if ib_lookups batch = [] then Inl (Panic ''single requested lookup yields one result'')
            else Inr ((last (ib_lookups batch))\<lparr>il_drained_evictions := ib_drained_evictions batch\<rparr>)), s))"

section \<open>Dummy reads\<close>

definition read_dummy_candidate ::
  "('c, 'm, 'p, 'r) circuit_env \<Rightarrow> u64 \<Rightarrow> (('m, 'p, 'r) direct_reader, u64) comp" where
  "read_dummy_candidate E drain_per_read =
     bnd (on_direct_oram (dummy_access E)) (\<lambda>_. on_direct_oram (drain_evictions E drain_per_read))"

definition read_dummy_candidates ::
  "('c, 'm, 'p, 'r) circuit_env \<Rightarrow> nat \<Rightarrow> u64 \<Rightarrow> (('m, 'p, 'r) direct_reader, u64) comp" where
  "read_dummy_candidates E count' drain_per_read =
     bnd (on_direct_oram (dummy_access_batch E count')) (\<lambda>_.
     on_direct_oram (drain_evictions E (drain_per_read * word_of_nat count')))"

definition lookup_dummy :: "('c, 'm, 'p, 'r) circuit_env \<Rightarrow> u64 \<Rightarrow> (('m, 'p, 'r) direct_reader, u64) comp" where
  "lookup_dummy E drain_per_read =
     bnd (gets (\<lambda>s. dm_hash_fns (dr_metadata s))) (\<lambda>hash_fns. read_dummy_candidates E hash_fns drain_per_read)"

definition lookup_dummy_many ::
  "('c, 'm, 'p, 'r) circuit_env \<Rightarrow> nat \<Rightarrow> u64 \<Rightarrow> (('m, 'p, 'r) direct_reader, u64) comp" where
  "lookup_dummy_many E lookups drain_per_read =
     bnd (gets (\<lambda>s. dm_hash_fns (dr_metadata s))) (\<lambda>hash_fns.
     read_dummy_candidates E (usize_mul hash_fns lookups) drain_per_read)"

section \<open>Chunks through a controller\<close>

record chunk_read =
  ch_chunk_id :: nat
  ch_logical_block :: nat
  ch_byte_offset :: nat
  ch_payload :: bytes
  ch_drained_evictions :: u64

record chunk_batch_read =
  cx_reads :: "chunk_read list"
  cx_drained_evictions :: u64

definition chunk_reader_new ::
  "direct_metadata \<Rightarrow> ('m, 'p, 'r) circuit_oram \<Rightarrow> ('m, 'p, 'r) direct_reader result" where
  "chunk_reader_new m oram =
     rbind (metadata_validate m) (\<lambda>_.
     if dm_level m \<noteq> DirectChunk then Inl (InvalidInput ''CircuitDirectChunkReader requires chunk metadata'')
     else rbind (validate_oram_dimensions m oram) (\<lambda>_. Inr \<lparr>dr_metadata = m, dr_oram = oram\<rparr>))"

definition chunk_result :: "nat \<Rightarrow> packed_location \<Rightarrow> bytes \<Rightarrow> u64 \<Rightarrow> chunk_read result" where
  "chunk_result chunk_id location block drained =
     rbind (slice_location location block) (\<lambda>payload.
     Inr \<lparr>ch_chunk_id = chunk_id, ch_logical_block = lo_logical_block location,
          ch_byte_offset = lo_byte_offset location, ch_payload = payload, ch_drained_evictions = drained\<rparr>)"

definition direct_read_chunk ::
  "('c, 'm, 'p, 'r) circuit_env \<Rightarrow> nat \<Rightarrow> u64 \<Rightarrow> (('m, 'p, 'r) direct_reader, chunk_read) comp" where
  "direct_read_chunk E chunk_id drain_per_access =
     bnd (gets dr_metadata) (\<lambda>m.
     bnd (lift (locate_item m chunk_id)) (\<lambda>location.
     bnd (on_direct_oram (read_block E (word_of_nat (lo_logical_block location)))) (\<lambda>block.
     bnd (lift (slice_location location block)) (\<lambda>payload.
     bnd (on_direct_oram (drain_evictions E drain_per_access)) (\<lambda>drained_evictions.
     ret \<lparr>ch_chunk_id = chunk_id, ch_logical_block = lo_logical_block location,
          ch_byte_offset = lo_byte_offset location, ch_payload = payload,
          ch_drained_evictions = drained_evictions\<rparr>)))))"

definition direct_read_chunks ::
  "('c, 'm, 'p, 'r) circuit_env \<Rightarrow> nat list \<Rightarrow> u64 \<Rightarrow> (('m, 'p, 'r) direct_reader, chunk_batch_read) comp" where
  "direct_read_chunks E chunk_ids drain_per_access =
     bnd (gets dr_metadata) (\<lambda>m.
     bnd (lift (rmapM (locate_item m) chunk_ids)) (\<lambda>locations.
     bnd (on_direct_oram (read_batch E (map (\<lambda>l. word_of_nat (lo_logical_block l)) locations))) (\<lambda>blocks.
     bnd (on_direct_oram (drain_evictions E (drain_per_access * word_of_nat (length chunk_ids)))) (\<lambda>drained.
     bnd (lift (rmapM (\<lambda>(chunk_id, location, block). chunk_result chunk_id location block 0)
            (zip chunk_ids (zip locations blocks)))) (\<lambda>reads.
     ret \<lparr>cx_reads = reads, cx_drained_evictions = drained\<rparr>)))))"

definition direct_read_dummy :: "('c, 'm, 'p, 'r) circuit_env \<Rightarrow> u64 \<Rightarrow> (('m, 'p, 'r) direct_reader, u64) comp" where
  "direct_read_dummy E drain_per_access =
     bnd (on_direct_oram (dummy_access E)) (\<lambda>_. on_direct_oram (drain_evictions E drain_per_access))"

definition direct_read_dummy_many ::
  "('c, 'm, 'p, 'r) circuit_env \<Rightarrow> nat \<Rightarrow> u64 \<Rightarrow> (('m, 'p, 'r) direct_reader, u64) comp" where
  "direct_read_dummy_many E count' drain_per_access =
     bnd (on_direct_oram (dummy_access_batch E count')) (\<lambda>_.
     on_direct_oram (drain_evictions E (drain_per_access * word_of_nat count')))"

end
