(* ===== verification/Direct_Index.thy ===== *)
theory Direct_Index
  imports Direct_Reader
begin

text \<open>
  The index of the direct tables as an array of bins (src/src/direct.rs): the packed reader of an
  index serves the encoding of its placement, and scanning the candidate bins of a script hash
  finds its record. The properties that rest on this are in \<open>Direct_Theorems\<close>.
\<close>

section \<open>Filling a buffer slot by slot\<close>

lemma rfoldM_fill:
  assumes "\<And>j out. j < m \<Longrightarrow> length out = l \<Longrightarrow> f j out = Inr (copy_into (j * k) (g j) out)"
    and "\<And>j. j < m \<Longrightarrow> length (g j) = k" and "m * k \<le> l" and "length out = l"
  shows "rfoldM f [0..<m] out = Inr (concat (map g [0..<m]) @ drop (m * k) out)"
  using assms(1-3)
proof (induction m)
  case (Suc m)
  let ?c = "concat (map g [0..<m])"
  have c: "length ?c = m * k" using Suc.prems(2) by (subst length_concat_equal [of _ k]) auto
  have "rfoldM f [0..<m] out = Inr (?c @ drop (m * k) out)"
    using Suc.prems by (intro Suc.IH) simp_all
  moreover have "rfoldM f [] = Inr" by (simp add: fun_eq_iff)
  ultimately have "rfoldM f [0..<Suc m] out = f m (?c @ drop (m * k) out)" by (simp add: rfoldM_append)
  also have "\<dots> = Inr (copy_into (m * k) (g m) (?c @ drop (m * k) out))"
    using Suc.prems c assms(4) by (intro Suc.prems(1)) simp_all
  also have "copy_into (m * k) (g m) (?c @ drop (m * k) out) = concat (map g [0..<Suc m]) @ drop (Suc m * k) out"
    using c Suc.prems(2) [of m] by (simp add: copy_into_def add.commute)
  finally show ?case .
qed simp

lemma packed_block_split:
  assumes "b * n < length items" and "m = min (length items - b * n) n"
  shows "packed_block n k items b =
    concat (map (\<lambda>j. items ! (b * n + j)) [0..<m]) @ replicate ((n - m) * k) 0"
proof -
  let ?f = "\<lambda>j. if b * n + j < length items then items ! (b * n + j) else replicate k 0"
  have m: "m \<le> n" "b * n + m \<le> length items" "m < n \<Longrightarrow> length items = b * n + m" using assms by auto
  have "[0..<n] = [0..<m] @ [m..<n]" using m(1) upt_add_eq_append [of 0 m "n - m"] by simp
  then have "packed_block n k items b = concat (map ?f [0..<m]) @ concat (map ?f [m..<n])"
    by (simp add: packed_block_def)
  moreover have "map ?f [0..<m] = map (\<lambda>j. items ! (b * n + j)) [0..<m]" using m(2) by auto
  moreover have "map ?f [m..<n] = replicate (n - m) (replicate k 0)"
    using m by (intro nth_equalityI) auto
  moreover have "concat (replicate i (replicate k 0)) = replicate (i * k) (0 :: u8)" for i
    by (induction i) (simp_all add: replicate_add)
  ultimately show ?thesis by simp
qed

section \<open>Slots and bins\<close>

definition input_record :: "bytes \<Rightarrow> nat \<Rightarrow> bytes" where
  "input_record mmap r =
     slice (r * DIRECT_INDEX_INPUT_RECORD_SIZE) (r * DIRECT_INDEX_INPUT_RECORD_SIZE + DIRECT_INDEX_INPUT_RECORD_SIZE) mmap"

definition slot_bytes :: "bytes \<Rightarrow> u32 \<Rightarrow> bytes" where
  "slot_bytes mmap e =
     (if e = EMPTY_SLOT then replicate DIRECT_INDEX_SLOT_SIZE 0 else 1 # input_record mmap (unat e))"

definition bin_slots :: "'f direct_table \<Rightarrow> bytes \<Rightarrow> u32 list \<Rightarrow> nat \<Rightarrow> bytes list" where
  "bin_slots info mmap placement b =
     map (\<lambda>j. slot_bytes mmap (placement ! (b * dt_slots_per_bin info + j))) [0..<dt_slots_per_bin info]"

definition index_items :: "'f direct_table \<Rightarrow> bytes \<Rightarrow> u32 list \<Rightarrow> bytes list" where
  "index_items info mmap placement = map (\<lambda>b. concat (bin_slots info mmap placement b)) [0..<dt_total_items info]"

text \<open>A placement of the records of a file, over a table whose sizes do not wrap.\<close>

definition index_ok :: "'f direct_table \<Rightarrow> bytes \<Rightarrow> u32 list \<Rightarrow> bool" where
  "index_ok info mmap placement \<longleftrightarrow>
     table_fits info \<and> length placement = dt_total_items info * dt_slots_per_bin info \<and>
     length mmap = dt_records info * DIRECT_INDEX_INPUT_RECORD_SIZE \<and>
     (\<forall>slot < length placement. placement ! slot \<noteq> EMPTY_SLOT \<longrightarrow> unat (placement ! slot) < dt_records info)"

lemma index_record_eq:
  assumes "length mmap = n * DIRECT_INDEX_INPUT_RECORD_SIZE" and "r < n" and "r < 2 ^ 32"
  shows "index_record mmap r = Inr (input_record mmap r)" "length (input_record mmap r) = DIRECT_INDEX_INPUT_RECORD_SIZE"
proof -
  have le: "r * 25 + 25 \<le> length mmap" using assms(1,2) by (simp add: direct_sizes)
  with assms(3) show "index_record mmap r = Inr (input_record mmap r)"
    by (simp add: index_record_def checked_mul_usize_def direct_sizes input_record_def Let_def)
  from le show "length (input_record mmap r) = DIRECT_INDEX_INPUT_RECORD_SIZE"
    by (simp add: input_record_def direct_sizes)
qed

lemma slot_bytes_length:
  assumes "index_ok info mmap placement" and "slot < length placement"
  shows "length (slot_bytes mmap (placement ! slot)) = DIRECT_INDEX_SLOT_SIZE"
proof (cases "placement ! slot = EMPTY_SLOT")
  case True
  then show ?thesis by (simp add: slot_bytes_def)
next
  case False
  with assms have r: "unat (placement ! slot) < dt_records info"
    "length mmap = dt_records info * DIRECT_INDEX_INPUT_RECORD_SIZE" by (auto simp: index_ok_def)
  have "unat (placement ! slot) < 2 ^ 32" using unsigned_less [of "placement ! slot", where 'a = nat] by simp
  from index_record_eq(2) [OF r(2,1) this] False show ?thesis
    by (simp add: slot_bytes_def DIRECT_INDEX_SLOT_SIZE_def)
qed

lemma bin_slot_index:
  assumes "index_ok info mmap placement" and "b < dt_total_items info" and "j < dt_slots_per_bin info"
  shows "b * dt_slots_per_bin info + j < length placement"
  using slot_in_bin(1) [OF assms(2,3)] assms(1) by (simp add: index_ok_def)

lemma bin_slots_lengths:
  assumes "index_ok info mmap placement" and "b < dt_total_items info" and "x \<in> set (bin_slots info mmap placement b)"
  shows "length x = DIRECT_INDEX_SLOT_SIZE"
  using assms by (auto simp: bin_slots_def intro!: slot_bytes_length bin_slot_index)

lemma index_items_lengths:
  assumes "index_ok info mmap placement" and "x \<in> set (index_items info mmap placement)"
  shows "length x = dt_slots_per_bin info * DIRECT_INDEX_SLOT_SIZE"
  using assms
  by (auto simp: index_items_def length_concat_equal [OF bin_slots_lengths [OF assms(1)]]) (simp add: bin_slots_def)

section \<open>The packed reader is a block source\<close>

definition index_reader_ok :: "'f direct_table \<Rightarrow> nat \<Rightarrow> bytes \<Rightarrow> u32 list \<Rightarrow> 'f index_reader \<Rightarrow> bool" where
  "index_reader_ok info n mmap placement s \<longleftrightarrow>
     index_ok info mmap placement \<and> ix_info s = info \<and> ix_mmap s = mmap \<and> ix_placement s = placement \<and>
     0 < n \<and> dm_items_per_block (ix_metadata s) = n \<and> dm_total_items (ix_metadata s) = dt_total_items info \<and>
     dm_item_size (ix_metadata s) = dt_slots_per_bin info * DIRECT_INDEX_SLOT_SIZE \<and>
     dm_logical_blocks (ix_metadata s) = div_ceil (dt_total_items info) n \<and>
     dm_block_payload_bytes (ix_metadata s) = n * (dt_slots_per_bin info * DIRECT_INDEX_SLOT_SIZE) \<and>
     n * (dt_slots_per_bin info * DIRECT_INDEX_SLOT_SIZE) < 2 ^ 64"

lemma encode_slot_eq:
  assumes "index_ok info mmap placement" and "ix_mmap s = mmap" "ix_placement s = placement"
    and "b < dt_total_items info" and "j < dt_slots_per_bin info"
    and "length out = dt_slots_per_bin info * DIRECT_INDEX_SLOT_SIZE" and "length out < 2 ^ 64"
  shows "encode_slot s (b * dt_slots_per_bin info) j out =
    Inr (copy_into (j * DIRECT_INDEX_SLOT_SIZE) (slot_bytes mmap (placement ! (b * dt_slots_per_bin info + j))) out)"
proof -
  let ?k = "dt_slots_per_bin info"
  have i: "b * ?k + j < length placement" by (rule bin_slot_index [OF assms(1,4,5)])
  moreover have "length placement < 2 ^ 64" using assms(1) by (simp add: index_ok_def table_fits_def)
  ultimately have lt: "b * ?k + j < 2 ^ 64" by linarith
  have "Suc j * DIRECT_INDEX_SLOT_SIZE \<le> length out"
    unfolding assms(6) using assms(5) by (intro mult_le_mono1) simp
  then have le: "j * DIRECT_INDEX_SLOT_SIZE + DIRECT_INDEX_SLOT_SIZE \<le> length out" by simp
  with assms(7) have "j * DIRECT_INDEX_SLOT_SIZE < 2 ^ 64" by linarith
  then have exact: "usize_mul j DIRECT_INDEX_SLOT_SIZE = j * DIRECT_INDEX_SLOT_SIZE"
    "usize_add (b * ?k) j = b * ?k + j" using lt by simp_all
  show ?thesis
  proof (cases "placement ! (b * ?k + j) = EMPTY_SLOT")
    case True
    with i le assms(2,3) show ?thesis
      by (simp add: encode_slot_def exact Let_def slot_bytes_def)
  next
    case False
    let ?e = "placement ! (b * ?k + j)"
    from False i assms(1) have "unat ?e < dt_records info" "length mmap = dt_records info * DIRECT_INDEX_INPUT_RECORD_SIZE"
      by (auto simp: index_ok_def)
    moreover have "unat ?e < 2 ^ 32" using unsigned_less [of ?e, where 'a = nat] by simp
    ultimately have "index_record mmap (unat ?e) = Inr (input_record mmap (unat ?e))"
      by (intro index_record_eq(1))
    with False i le assms(2,3) show ?thesis
      by (simp add: encode_slot_def exact Let_def slot_bytes_def)
  qed
qed

lemma encode_bin_eq:
  assumes "index_reader_ok info n mmap placement s" and "b < dt_total_items info"
    and "length out = dt_slots_per_bin info * DIRECT_INDEX_SLOT_SIZE"
  shows "encode_bin s b out = Inr (index_items info mmap placement ! b)"
proof -
  let ?k = "dt_slots_per_bin info" and ?g = "\<lambda>j. slot_bytes mmap (placement ! (b * dt_slots_per_bin info + j))"
  have ok: "index_ok info mmap placement" and s: "ix_info s = info" "ix_mmap s = mmap" "ix_placement s = placement"
    "dm_item_size (ix_metadata s) = ?k * DIRECT_INDEX_SLOT_SIZE" "0 < n" "n * (?k * DIRECT_INDEX_SLOT_SIZE) < 2 ^ 64"
    using assms(1) by (simp_all add: index_reader_ok_def)
  have "?k * DIRECT_INDEX_SLOT_SIZE \<le> n * (?k * DIRECT_INDEX_SLOT_SIZE)" using s(5) by simp
  with s(6) assms(3) have small: "length out < 2 ^ 64" by linarith
  have fits: "dt_total_items info * ?k < 2 ^ 64" using ok by (simp add: index_ok_def table_fits_def)
  have "b * ?k \<le> dt_total_items info * ?k" using assms(2) by (intro mult_le_mono1) simp
  with fits have "b * ?k < 2 ^ 64" by linarith
  then have base: "checked_mul_usize b ?k = Some (b * ?k)" by (simp add: checked_mul_usize_def)
  have "rfoldM (encode_slot s (b * ?k)) [0..<?k] out =
      Inr (concat (map ?g [0..<?k]) @ drop (?k * DIRECT_INDEX_SLOT_SIZE) out)"
  proof (rule rfoldM_fill [OF _ _ _ assms(3)])
    show "encode_slot s (b * ?k) j out = Inr (copy_into (j * DIRECT_INDEX_SLOT_SIZE) (?g j) out)"
      if "j < ?k" "length out = ?k * DIRECT_INDEX_SLOT_SIZE" for j out
      using that small assms(3) by (intro encode_slot_eq [OF ok s(2,3) assms(2)]) simp_all
    show "length (?g j) = DIRECT_INDEX_SLOT_SIZE" if "j < ?k" for j
      using that by (intro slot_bytes_length [OF ok] bin_slot_index [OF ok assms(2)])
  qed simp
  then show ?thesis using assms(2,3) s(1,4) base by (simp add: encode_bin_def index_items_def bin_slots_def)
qed

lemma index_read_block_eq:
  assumes "index_reader_ok info n mmap placement s" and "b < div_ceil (dt_total_items info) n"
  shows "index_read_block b s =
    Inr (packed n (dt_slots_per_bin info * DIRECT_INDEX_SLOT_SIZE) (index_items info mmap placement) ! b)"
proof -
  let ?k = "dt_slots_per_bin info * DIRECT_INDEX_SLOT_SIZE" and ?items = "index_items info mmap placement"
  let ?m = "min (dt_total_items info - b * n) n"
  have ok: "index_ok info mmap placement" and s: "0 < n" "n * ?k < 2 ^ 64" "dm_items_per_block (ix_metadata s) = n"
    "dm_total_items (ix_metadata s) = dt_total_items info" "dm_item_size (ix_metadata s) = ?k"
    "dm_block_payload_bytes (ix_metadata s) = n * ?k" "dm_logical_blocks (ix_metadata s) = div_ceil (dt_total_items info) n"
    using assms(1) by (simp_all add: index_reader_ok_def)
  have b: "b * n < dt_total_items info" using assms(2) div_ceil_bounds [OF s(1)] by simp
  have items: "length ?items = dt_total_items info" by (simp add: index_items_def)
  have len: "length (?items ! i) = ?k" if "i < dt_total_items info" for i
    using index_items_lengths [OF ok] that items by simp
  have in_range: "b * n + j < dt_total_items info" if "j < ?m" for j using that b by linarith
  have "rfoldM (encode_item s (b * n)) [0..<?m] (replicate (n * ?k) 0) =
      Inr (concat (map (\<lambda>j. ?items ! (b * n + j)) [0..<?m]) @ drop (?m * ?k) (replicate (n * ?k) 0))"
  proof (rule rfoldM_fill)
    fix j and out :: bytes
    assume j: "j < ?m" and out: "length out = n * ?k"
    have "Suc j * ?k \<le> n * ?k" using j by (intro mult_le_mono1) simp
    then have le: "j * ?k + ?k \<le> length out" unfolding out by simp
    with out s(2) have "j * ?k + ?k < 2 ^ 64" by linarith
    moreover from this have "j * ?k < 2 ^ 64" by linarith
    ultimately have exact: "usize_mul j ?k = j * ?k" "usize_add (j * ?k) ?k = j * ?k + ?k" by simp_all
    have "encode_bin s (b * n + j) (slice (j * ?k) (j * ?k + ?k) out) = Inr (?items ! (b * n + j))"
      using le by (intro encode_bin_eq [OF assms(1) in_range [OF j]]) simp
    with le show "encode_item s (b * n) j out = Inr (copy_into (j * ?k) (?items ! (b * n + j)) out)"
      by (simp add: encode_item_def s(5) exact Let_def)
  next
    show "length (?items ! (b * n + j)) = ?k" if "j < ?m" for j by (rule len [OF in_range [OF that]])
    show "?m * ?k \<le> n * ?k" by (intro mult_le_mono1) simp
  qed simp
  also have "drop (?m * ?k) (replicate (n * ?k) 0) = replicate ((n - ?m) * ?k) (0 :: u8)"
    by (simp add: diff_mult_distrib)
  also have "concat (map (\<lambda>j. ?items ! (b * n + j)) [0..<?m]) @ replicate ((n - ?m) * ?k) 0 =
      packed_block n ?k ?items b"
    using b by (intro packed_block_split [symmetric]) (simp_all add: items)
  finally show ?thesis using assms(2) by (simp add: index_read_block_def s(3-7) packed_def items)
qed

interpretation index_source: block_source_spec index_source_ops "index_reader_ok info n mmap placement"
  "packed n (dt_slots_per_bin info * DIRECT_INDEX_SLOT_SIZE) (index_items info mmap placement)"
  for info :: "'f direct_table" and n :: nat and mmap :: bytes and placement :: "u32 list"
proof
  let ?D = "packed n (dt_slots_per_bin info * DIRECT_INDEX_SLOT_SIZE) (index_items info mmap placement)"
  show "bs_logical_blocks index_source_ops s = length ?D" if "index_reader_ok info n mmap placement s" for s
    using that by (simp add: index_source_ops_def index_reader_ok_def index_items_def)
  show "\<exists>s'. bs_read_block index_source_ops i s = (Inr (?D ! i), s') \<and> index_reader_ok info n mmap placement s'"
    if "index_reader_ok info n mmap placement s" "i < length ?D" for s i
    using that index_read_block_eq [OF that(1), of i] by (simp add: index_source_ops_def index_items_def)
  show "bs_block_size index_source_ops s' = bs_block_size index_source_ops s"
    if "index_reader_ok info n mmap placement s" "index_reader_ok info n mmap placement s'" for s s'
    using that by (simp add: index_source_ops_def index_reader_ok_def)
qed

end
