(* ===== verification/Direct_Lookup.thy ===== *)
theory Direct_Lookup
  imports Direct_Index
begin

text \<open>
  Lookups in a direct index through a controller (src/src/direct.rs): the branch-free scan of a bin
  picks the first slot of the script hash, and a sequence of reads and one batch give the same
  answer, the record of the file.
\<close>

section \<open>The scan of a bin\<close>

definition matches :: "bytes \<Rightarrow> bytes \<Rightarrow> bool" where
  "matches script_hash slot \<longleftrightarrow> slot ! 0 = 1 \<and> slice 1 21 slot = script_hash"

fun scan_slot :: "bytes \<Rightarrow> bytes \<Rightarrow> bool \<times> u32 \<times> u8 \<Rightarrow> bool \<times> u32 \<times> u8" where
  "scan_slot script_hash slot (found, start, chunks) =
     (if \<not> found \<and> matches script_hash slot then (True, u32_from_le_bytes (slice 21 25 slot), slot ! 25)
      else (found, start, chunks))"

definition sel_view :: "'c subtle \<Rightarrow> 'c selection \<Rightarrow> bool \<times> u32 \<times> u8" where
  "sel_view sb = (\<lambda>(found, start, chunks). (chosen sb found, start, chunks))"

lemma ucast_zero_iff: "(ucast (a :: u8) :: u64) = 0 \<longleftrightarrow> a = 0"
proof -
  have "unat a < 2 ^ 64" using unsigned_less [of a, where 'a = nat] by simp
  then have "unat (word_of_nat (unat a) :: u64) = unat a" by (rule unat_word_of_nat_u64)
  moreover have "(ucast a :: u64) = word_of_nat (unat a)" by simp
  ultimately show ?thesis by (metis unsigned_0 unsigned_eq_0_iff)
qed

lemma fold_or_zero:
  "fold (\<lambda>i d. d OR g i) xs (d :: u8) = 0 \<longleftrightarrow> d = 0 \<and> (\<forall>x \<in> set xs. g x = 0)"
  by (induction xs arbitrary: d) (auto simp: or_eq_0_iff)

lemma xor_zero_iff: "(a :: u8) XOR b = 0 \<longleftrightarrow> a = b"
proof
  assume "a XOR b = 0"
  then have "(a XOR b) XOR b = b" by simp
  then show "a = b" by (simp add: xor.assoc)
qed simp

lemma slot_diff_zero:
  fixes slot :: bytes
  assumes "length slot = 26" and "length sh = 20"
  shows "fold (\<lambda>i diff. diff OR (slot ! (1 + i) XOR sh ! i)) [0..<DIRECT_SCRIPT_HASH_SIZE] 0 = 0 \<longleftrightarrow>
    slice 1 21 slot = sh"
proof -
  have "slice 1 21 slot = sh \<longleftrightarrow> (\<forall>i < 20. slot ! (1 + i) = sh ! i)"
    using assms by (auto simp: list_eq_iff_nth_eq nth_slice)
  moreover have "(\<forall>i \<in> set [0..<20]. slot ! (1 + i) XOR sh ! i = 0) \<longleftrightarrow> (\<forall>i < 20. slot ! (1 + i) = sh ! i)"
    by (auto simp: xor_zero_iff)
  ultimately show ?thesis by (simp add: fold_or_zero direct_sizes)
qed

lemma fold_scan_found: "fold (scan_slot sh) slots (True, st, nc) = (True, st, nc)"
  by (induction slots) simp_all

lemma fold_scan:
  "fold (scan_slot sh) slots (False, 0, 0) =
    (case find (matches sh) slots of None \<Rightarrow> (False, 0, 0)
     | Some slot \<Rightarrow> (True, u32_from_le_bytes (slice 21 25 slot), slot ! 25))"
  by (induction slots) (simp_all add: fold_scan_found)

context subtle_spec
begin

lemma select_slot_view:
  assumes "length bin = k * 26" and "j < k" and "length sh = 20"
  shows "sel_view sb (select_slot sb bin sh j acc) = scan_slot sh (slice (j * 26) (j * 26 + 26) bin) (sel_view sb acc)"
proof -
  have "Suc j * 26 \<le> k * 26" using assms(2) by (intro mult_le_mono1) simp
  then have len: "length (slice (j * 26) (j * 26 + 26) bin) = 26" using assms(1) by simp
  obtain f st nc where acc: "acc = (f, st, nc)" by (cases acc)
  show ?thesis using slot_diff_zero [OF len assms(3)]
    by (auto simp: acc select_slot_def sel_view_def Let_def ct_simps matches_def ucast_zero_iff DIRECT_INDEX_SLOT_SIZE_def
        DIRECT_INDEX_INPUT_RECORD_SIZE_def)
      (simp_all add: DIRECT_SCRIPT_HASH_SIZE_def)
qed

lemma select_bin_view:
  assumes "\<And>x. x \<in> set slots \<Longrightarrow> length x = DIRECT_INDEX_SLOT_SIZE" and "length sh = DIRECT_SCRIPT_HASH_SIZE"
    and "length slots * DIRECT_INDEX_SLOT_SIZE < 2 ^ 64"
  shows "\<exists>acc'. select_index_record_from_bin sb (concat slots) (length slots) sh acc = Inr acc' \<and>
    sel_view sb acc' = fold (scan_slot sh) slots (sel_view sb acc)"
proof -
  have len: "length (concat slots) = length slots * 26"
    using assms(1) by (subst length_concat_equal [of _ 26]) (auto simp: direct_sizes)
  have "sel_view sb (fold (select_slot sb (concat slots) sh) [0..<m] acc) =
      fold (scan_slot sh) (take m slots) (sel_view sb acc)" if "m \<le> length slots" for m
    using that
  proof (induction m)
    case (Suc m)
    then have m: "m < length slots" by simp
    have "slice (m * 26) (m * 26 + 26) (concat slots) = slots ! m"
      using assms(1) m by (intro slice_concat) (auto simp: direct_sizes)
    with Suc m select_slot_view [OF len m] assms(2) show ?case
      by (simp add: take_Suc_conv_app_nth DIRECT_SCRIPT_HASH_SIZE_def)
  qed simp
  from this [of "length slots"] show ?thesis
    using len assms(3) by (simp add: select_index_record_from_bin_def direct_sizes)
qed

end

section \<open>Served readers\<close>

text \<open>A reader whose controller serves the packed bins of a placement.\<close>

definition index_served ::
  "('c, 'm, 'p, 'r) circuit_env \<Rightarrow> ('m, 'p) store_views \<Rightarrow> 'f direct_table \<Rightarrow> nat \<Rightarrow> bytes \<Rightarrow> u32 list \<Rightarrow> nat \<Rightarrow>
    ('m, 'p, 'r) direct_reader \<Rightarrow> bool" where
  "index_served E V info n mmap placement room s \<longleftrightarrow>
     serves E V (packed n (dt_slots_per_bin info * DIRECT_INDEX_SLOT_SIZE) (index_items info mmap placement)) room (dr_oram s) \<and>
     index_ok info mmap placement \<and> 0 < n \<and> n * (dt_slots_per_bin info * DIRECT_INDEX_SLOT_SIZE) < 2 ^ 64 \<and>
     dm_total_items (dr_metadata s) = dt_total_items info \<and> dm_items_per_block (dr_metadata s) = n \<and>
     dm_item_size (dr_metadata s) = dt_slots_per_bin info * DIRECT_INDEX_SLOT_SIZE \<and>
     dm_slots_per_bin (dr_metadata s) = dt_slots_per_bin info \<and> dm_hash_fns (dr_metadata s) = dt_hash_fns info \<and>
     dm_seed (dr_metadata s) = dt_seed info"

lemma index_served_ct: "index_served E V info n mmap placement room s \<Longrightarrow> subtle_spec (e_ct E)"
  by (simp add: index_served_def serves_def circuit_env_spec_def)

lemma locate_item_eq:
  assumes "dm_total_items m = tot" "dm_items_per_block m = n" "dm_item_size m = k"
    and "i < tot" "0 < n" "0 < k" "k * n < 2 ^ 64"
  shows "locate_item m i = Inr \<lparr>lo_logical_block = i div n, lo_byte_offset = i mod n * k, lo_byte_len = k\<rparr>"
proof -
  have "locate_item m i = locate_packed_cuckoo_bin tot n k i"
    using assms by (simp add: locate_item_def locate_packed_direct_item_def locate_packed_cuckoo_bin_def Let_def)
  with locate_bin(1) [OF assms(4-7)] show ?thesis by simp
qed

lemma index_item_location:
  assumes "index_served E V info n mmap placement room s" and "b < dt_total_items info"
  defines "k \<equiv> dt_slots_per_bin info * DIRECT_INDEX_SLOT_SIZE"
  defines "D \<equiv> packed n k (index_items info mmap placement)"
  shows "locate_item (dr_metadata s) b =
      Inr \<lparr>lo_logical_block = b div n, lo_byte_offset = b mod n * k, lo_byte_len = k\<rparr>"
    and "b div n < length D"
    and "slice_location \<lparr>lo_logical_block = b div n, lo_byte_offset = b mod n * k, lo_byte_len = k\<rparr> (D ! (b div n)) =
      Inr (concat (bin_slots info mmap placement b))"
proof -
  have ok: "index_ok info mmap placement" and n: "0 < n" "k * n < 2 ^ 64"
    and m: "dm_total_items (dr_metadata s) = dt_total_items info" "dm_items_per_block (dr_metadata s) = n"
      "dm_item_size (dr_metadata s) = k"
    using assms(1) by (simp_all add: index_served_def k_def mult.commute)
  have k: "0 < k" using ok by (simp add: index_ok_def table_fits_def k_def direct_sizes)
  show "locate_item (dr_metadata s) b =
      Inr \<lparr>lo_logical_block = b div n, lo_byte_offset = b mod n * k, lo_byte_len = k\<rparr>"
    by (rule locate_item_eq [OF m assms(2) n(1) k n(2)])
  have b: "b < length (index_items info mmap placement)" using assms(2) by (simp add: index_items_def)
  show D: "b div n < length D" using div_ceil_item [OF b n(1)] by (simp add: D_def)
  have items: "length x = k" if "x \<in> set (index_items info mmap placement)" for x
    using index_items_lengths [OF ok that] by (simp add: k_def)
  have "length (D ! (b div n)) = n * k"
    using packed_lengths [of "index_items info mmap placement" k "D ! (b div n)" n] items D by (auto simp: D_def)
  from locate_bin(2) [OF assms(2) n(1) k n(2) this] packed_item [OF items b n(1)] assms(2)
  show "slice_location \<lparr>lo_logical_block = b div n, lo_byte_offset = b mod n * k, lo_byte_len = k\<rparr> (D ! (b div n)) =
      Inr (concat (bin_slots info mmap placement b))"
    by (simp add: D_def index_items_def)
qed

lemma index_select:
  assumes "index_served E V info n mmap placement room s" and "b < dt_total_items info"
    and "length sh = DIRECT_SCRIPT_HASH_SIZE"
  shows "\<exists>acc'. select_index_record_from_bin (e_ct E) (concat (bin_slots info mmap placement b))
      (dt_slots_per_bin info) sh acc = Inr acc' \<and>
    sel_view (e_ct E) acc' = fold (scan_slot sh) (bin_slots info mmap placement b) (sel_view (e_ct E) acc)"
proof -
  have ok: "index_ok info mmap placement" and n: "0 < n" "n * (dt_slots_per_bin info * DIRECT_INDEX_SLOT_SIZE) < 2 ^ 64"
    using assms(1) by (simp_all add: index_served_def)
  have "dt_slots_per_bin info * DIRECT_INDEX_SLOT_SIZE \<le> n * (dt_slots_per_bin info * DIRECT_INDEX_SLOT_SIZE)"
    using n(1) by simp
  with n(2) have "dt_slots_per_bin info * DIRECT_INDEX_SLOT_SIZE < 2 ^ 64" by linarith
  moreover have "length (bin_slots info mmap placement b) = dt_slots_per_bin info" by (simp add: bin_slots_def)
  ultimately show ?thesis
    using subtle_spec.select_bin_view [OF index_served_ct [OF assms(1)] _ assms(3), of "bin_slots info mmap placement b" acc]
      bin_slots_lengths [OF ok assms(2)] by auto
qed

section \<open>The sequential lookup\<close>

lemma lookup_loop_ok:
  assumes "index_served E V info n mmap placement (length bins + room) s"
    and "\<forall>b \<in> set bins. b < dt_total_items info" and "length sh = DIRECT_SCRIPT_HASH_SIZE"
  shows "\<exists>sel' dr' s'. lookup_loop E sh drain bins (sel, bl, dr) s = (Inr (sel', bl @ map (\<lambda>b. b div n) bins, dr'), s') \<and>
    sel_view (e_ct E) sel' = fold (scan_slot sh) (concat (map (bin_slots info mmap placement) bins)) (sel_view (e_ct E) sel) \<and>
    index_served E V info n mmap placement room s' \<and> dr_metadata s' = dr_metadata s"
  using assms(1,2)
proof (induction bins arbitrary: sel bl dr s)
  case Nil
  then show ?case by (simp add: comp_simps)
next
  case (Cons b bins)
  let ?D = "packed n (dt_slots_per_bin info * DIRECT_INDEX_SLOT_SIZE) (index_items info mmap placement)"
  from Cons.prems have b: "b < dt_total_items info" by simp
  note loc = index_item_location [OF Cons.prems(1) b]
  have s: "serves E V ?D (Suc (length bins + room)) (dr_oram s)" using Cons.prems(1) by (simp add: index_served_def)
  obtain o1 m o2 where o: "read_block E (word_of_nat (b div n)) (dr_oram s) = (Inr (?D ! (b div n)), o1)"
    "drain_evictions E drain o1 = (Inr m, o2)" 
    "serves E V ?D (length bins + room) o2 \<and> co_params o2 = co_params (dr_oram s)"
    by (rule oram_server.read_drain [OF conjI [OF s refl] loc(2)])
  obtain sel1 where sel: "select_index_record_from_bin (e_ct E) (concat (bin_slots info mmap placement b))
      (dt_slots_per_bin info) sh sel = Inr sel1"
    "sel_view (e_ct E) sel1 = fold (scan_slot sh) (bin_slots info mmap placement b) (sel_view (e_ct E) sel)"
    using index_select [OF Cons.prems(1) b assms(3)] by blast
  have m: "dm_slots_per_bin (dr_metadata s) = dt_slots_per_bin info" using Cons.prems(1) by (simp add: index_served_def)
  have "lookup_loop E sh drain (b # bins) (sel, bl, dr) s =
      lookup_loop E sh drain bins (sel1, bl @ [b div n], dr + m) (s\<lparr>dr_oram := o2\<rparr>)"
    using o loc sel m by (simp add: bnd_gets_run bnd_lift_Inr_run bnd_Inr [OF zoom_run] comp_simps)
  moreover have "index_served E V info n mmap placement (length bins + room) (s\<lparr>dr_oram := o2\<rparr>)"
    using Cons.prems(1) o(3) by (simp add: index_served_def)
  ultimately show ?case using Cons.IH [of "s\<lparr>dr_oram := o2\<rparr>" sel1 "bl @ [b div n]" "dr + m"] Cons.prems(2) sel(2)
    by auto
qed

text \<open>The answer the placement holds for a script hash, and a lookup that reports it.\<close>

definition index_answer :: "'f direct_table \<Rightarrow> bytes \<Rightarrow> u32 list \<Rightarrow> bytes \<Rightarrow> nat list \<Rightarrow> bool \<times> u32 \<times> u8" where
  "index_answer info mmap placement sh bins =
     fold (scan_slot sh) (concat (map (bin_slots info mmap placement) bins)) (False, 0, 0)"

definition answer_lookup :: "nat \<Rightarrow> bytes \<Rightarrow> nat list \<Rightarrow> bool \<times> u32 \<times> u8 \<Rightarrow> u64 \<Rightarrow> index_lookup" where
  "answer_lookup n sh bins = (\<lambda>(found, start, chunks) drained.
     \<lparr>il_script_hash = sh, il_found = found, il_start_chunk_id = start, il_num_chunks = chunks, il_candidate_bins = bins,
      il_logical_blocks = map (\<lambda>b. b div n) bins, il_drained_evictions = drained\<rparr>)"

definition candidates_of :: "'f direct_table \<Rightarrow> bytes \<Rightarrow> nat list result option" where
  "candidates_of info sh = direct_index_candidate_bins sh (dt_seed info) (dt_hash_fns info) (dt_total_items info)"

lemma served_candidates:
  assumes "index_served E V info n mmap placement room s"
  shows "reader_candidates (dr_metadata s) sh = candidates_of info sh"
  using assms by (simp add: index_served_def reader_candidates_def candidates_of_def)

lemma candidates_of_Inr:
  assumes "candidates_of info sh = Some (Inr bins)" and "table_fits info"
  shows "\<forall>b \<in> set bins. b < dt_total_items info" "length bins = dt_hash_fns info" "length sh = DIRECT_SCRIPT_HASH_SIZE"
  using candidate_bins_Inr [OF assms(1) [unfolded candidates_of_def]] assms(2) by (auto simp: table_fits_def)

lemma lookup_result_view:
  "subtle_spec sb \<Longrightarrow> lookup_result sb sh bins (sel, map (\<lambda>b. b div n) bins, dr) =
    answer_lookup n sh bins (sel_view sb sel) dr"
  using subtle_spec.unwrap_chosen [of sb]
  by (cases sel) (simp add: lookup_result_def answer_lookup_def sel_view_def)

lemma sel_view_start: "subtle_spec sb \<Longrightarrow> sel_view sb (choice_from_bool sb False, 0, 0) = (False, 0, 0)"
  by (simp add: sel_view_def subtle_spec.chosen_from_bool)

lemma direct_lookup_ok:
  assumes "index_served E V info n mmap placement (dt_hash_fns info + room) s"
    and "candidates_of info sh = Some (Inr bins)"
  shows "\<exists>dr s'. direct_lookup E sh drain s =
      Some (Inr (answer_lookup n sh bins (index_answer info mmap placement sh bins) dr), s') \<and>
    index_served E V info n mmap placement room s' \<and> dr_metadata s' = dr_metadata s"
proof -
  have fits: "table_fits info" using assms(1) by (simp add: index_served_def index_ok_def)
  note b = candidates_of_Inr [OF assms(2) fits] and ct = index_served_ct [OF assms(1)]
  have "index_served E V info n mmap placement (length bins + room) s" using assms(1) b(2) by simp
  from lookup_loop_ok [OF this b(1,3), of drain "(choice_from_bool (e_ct E) False, 0, 0)" "[]" 0]
  obtain sel dr s' where l: "lookup_loop E sh drain bins ((choice_from_bool (e_ct E) False, 0, 0), [], 0) s =
      (Inr (sel, map (\<lambda>b. b div n) bins, dr), s')"
    "sel_view (e_ct E) sel = index_answer info mmap placement sh bins"
    "index_served E V info n mmap placement room s'" "dr_metadata s' = dr_metadata s"
    by (auto simp: sel_view_start [OF ct] index_answer_def)
  then show ?thesis
    by (auto simp: direct_lookup_def served_candidates [OF assms(1)] assms(2) l(1) comp_simps
        lookup_result_view [OF ct, of sh bins sel n])
qed

text \<open>
  Several lookups one after the other, as a client makes them: the answers in order, or the first
  error; \<open>None\<close> when a lookup does not return.
\<close>

fun lookup_each ::
  "('c, 'm, 'p, 'r) circuit_env \<Rightarrow> u64 \<Rightarrow> bytes list \<Rightarrow> ('m, 'p, 'r) direct_reader \<Rightarrow>
    (index_lookup list result \<times> ('m, 'p, 'r) direct_reader) option" where
  "lookup_each E drain [] s = Some (Inr [], s)"
| "lookup_each E drain (sh # shs) s =
     (case direct_lookup E sh drain s of
        None \<Rightarrow> None
      | Some (Inl e, s) \<Rightarrow> Some (Inl e, s)
      | Some (Inr l, s) \<Rightarrow>
          (case lookup_each E drain shs s of
             None \<Rightarrow> None
           | Some (r, s) \<Rightarrow> Some (rbind r (\<lambda>ls. Inr (l # ls)), s)))"

lemma lookup_each_ok:
  assumes "index_served E V info n mmap placement (length queries * dt_hash_fns info + room) s"
    and "\<forall>sh \<in> set queries. candidates_of info sh = Some (Inr (cand sh))"
  shows "\<exists>drs s'. length drs = length queries \<and> lookup_each E drain queries s =
      Some (Inr (map (\<lambda>(sh, dr). answer_lookup n sh (cand sh) (index_answer info mmap placement sh (cand sh)) dr)
        (zip queries drs)), s') \<and>
    index_served E V info n mmap placement room s'"
  using assms
proof (induction queries arbitrary: s)
  case Nil
  then show ?case by simp
next
  case (Cons sh queries)
  from Cons.prems have "index_served E V info n mmap placement
      (dt_hash_fns info + (length queries * dt_hash_fns info + room)) s" "candidates_of info sh = Some (Inr (cand sh))"
    by (simp_all add: add.assoc)
  from direct_lookup_ok [OF this, of drain] obtain dr s1 where l: "direct_lookup E sh drain s =
      Some (Inr (answer_lookup n sh (cand sh) (index_answer info mmap placement sh (cand sh)) dr), s1)"
    "index_served E V info n mmap placement (length queries * dt_hash_fns info + room) s1" by blast
  from Cons.IH [OF l(2)] Cons.prems(2) obtain drs s2 where "length drs = length queries"
    "lookup_each E drain queries s1 =
      Some (Inr (map (\<lambda>(sh, dr). answer_lookup n sh (cand sh) (index_answer info mmap placement sh (cand sh)) dr)
        (zip queries drs)), s2)"
    "index_served E V info n mmap placement room s2" by auto
  with l(1) show ?case by (intro exI [of _ "dr # drs"] exI [of _ s2]) simp
qed

section \<open>The batched lookup\<close>

definition item_location :: "'f direct_table \<Rightarrow> nat \<Rightarrow> nat \<Rightarrow> packed_location" where
  "item_location info n b =
     \<lparr>lo_logical_block = b div n,
      lo_byte_offset = b mod n * (dt_slots_per_bin info * DIRECT_INDEX_SLOT_SIZE),
      lo_byte_len = dt_slots_per_bin info * DIRECT_INDEX_SLOT_SIZE\<rparr>"

lemma batch_locations_ok:
  assumes "index_served E V info n mmap placement room s"
    and "\<forall>sh \<in> set queries. candidates_of info sh = Some (Inr (cand sh))"
  shows "batch_locations (dr_metadata s) queries =
    Some (Inr (map (\<lambda>sh. (cand sh, map (item_location info n) (cand sh))) queries))"
  using assms(2)
proof (induction queries)
  case (Cons sh queries)
  have fits: "table_fits info" using assms(1) by (simp add: index_served_def index_ok_def)
  have c: "candidates_of info sh = Some (Inr (cand sh))" using Cons.prems by simp
  have "rmapM (locate_item (dr_metadata s)) (cand sh) = Inr (map (item_location info n) (cand sh))"
    using candidates_of_Inr(1) [OF c fits] index_item_location(1) [OF assms(1)]
    by (intro rmapM_Inr) (simp add: item_location_def)
  with Cons c served_candidates [OF assms(1)] show ?case by simp
qed simp

lemma scan_blocks_ok:
  assumes "index_served E V info n mmap placement room s" and "\<forall>b \<in> set bins. b < dt_total_items info"
    and "length sh = DIRECT_SCRIPT_HASH_SIZE"
  defines "D \<equiv> packed n (dt_slots_per_bin info * DIRECT_INDEX_SLOT_SIZE) (index_items info mmap placement)"
  shows "\<exists>sel'. scan_blocks (e_ct E) (dt_slots_per_bin info) sh (map (item_location info n) bins)
      (map (\<lambda>b. D ! (b div n)) bins) sel = Inr sel' \<and>
    sel_view (e_ct E) sel' = fold (scan_slot sh) (concat (map (bin_slots info mmap placement) bins)) (sel_view (e_ct E) sel)"
  using assms(2)
proof (induction bins arbitrary: sel)
  case (Cons b bins)
  then have b: "b < dt_total_items info" by simp
  obtain sel1 where sel: "select_index_record_from_bin (e_ct E) (concat (bin_slots info mmap placement b))
      (dt_slots_per_bin info) sh sel = Inr sel1"
    "sel_view (e_ct E) sel1 = fold (scan_slot sh) (bin_slots info mmap placement b) (sel_view (e_ct E) sel)"
    using index_select [OF assms(1) b assms(3)] by blast
  have "slice_location (item_location info n b) (D ! (b div n)) = Inr (concat (bin_slots info mmap placement b))"
    using index_item_location(3) [OF assms(1) b] by (simp add: item_location_def D_def)
  with Cons.IH [of sel1] Cons.prems sel show ?case by (simp del: rbind_Inr_iff)
qed simp

lemma batch_lookups_ok:
  assumes "index_served E V info n mmap placement room s"
    and "\<forall>sh \<in> set queries. candidates_of info sh = Some (Inr (cand sh))"
  defines "D \<equiv> packed n (dt_slots_per_bin info * DIRECT_INDEX_SLOT_SIZE) (index_items info mmap placement)"
  shows "batch_lookups (e_ct E) (dt_slots_per_bin info)
      (zip queries (map (\<lambda>sh. (cand sh, map (item_location info n) (cand sh))) queries))
      (concat (map (\<lambda>sh. map (\<lambda>b. D ! (b div n)) (cand sh)) queries)) =
    Inr (map (\<lambda>sh. answer_lookup n sh (cand sh) (index_answer info mmap placement sh (cand sh)) 0) queries)"
  using assms(2)
proof (induction queries)
  case (Cons sh queries)
  have fits: "table_fits info" using assms(1) by (simp add: index_served_def index_ok_def)
  have c: "candidates_of info sh = Some (Inr (cand sh))" using Cons.prems by simp
  note b = candidates_of_Inr [OF c fits] and ct = index_served_ct [OF assms(1)]
  obtain sel where sel: "scan_blocks (e_ct E) (dt_slots_per_bin info) sh (map (item_location info n) (cand sh))
      (map (\<lambda>b. D ! (b div n)) (cand sh)) (choice_from_bool (e_ct E) False, 0, 0) = Inr sel"
    "sel_view (e_ct E) sel = index_answer info mmap placement sh (cand sh)"
    using scan_blocks_ok [OF assms(1) b(1,3), of "(choice_from_bool (e_ct E) False, 0, 0)"]
    by (auto simp: sel_view_start [OF ct] index_answer_def D_def)
  have "map lo_logical_block (map (item_location info n) (cand sh)) = map (\<lambda>b. b div n) (cand sh)"
    by (simp add: item_location_def)
  with Cons sel lookup_result_view [OF ct, of sh "cand sh" sel n 0] show ?case
    by (simp del: rbind_Inr_iff map_map)
qed simp

lemma lookup_many_batched_ok:
  assumes "index_served E V info n mmap placement (length queries * dt_hash_fns info + room) s"
    and "\<forall>sh \<in> set queries. candidates_of info sh = Some (Inr (cand sh))"
  shows "\<exists>dr s'. lookup_many_batched E queries drain s =
      Some (Inr \<lparr>ib_lookups = map (\<lambda>sh. answer_lookup n sh (cand sh) (index_answer info mmap placement sh (cand sh)) 0) queries,
        ib_drained_evictions = dr\<rparr>, s') \<and>
    index_served E V info n mmap placement room s' \<and> co_params (dr_oram s') = co_params (dr_oram s)"
proof -
  let ?D = "packed n (dt_slots_per_bin info * DIRECT_INDEX_SLOT_SIZE) (index_items info mmap placement)"
  let ?located = "map (\<lambda>sh. (cand sh, map (item_location info n) (cand sh))) queries"
  let ?ids = "map (\<lambda>b. b div n) (concat (map cand queries))"
  have fits: "table_fits info" using assms(1) by (simp add: index_served_def index_ok_def)
  have c: "\<forall>b \<in> set (cand sh). b < dt_total_items info" "length (cand sh) = dt_hash_fns info" if "sh \<in> set queries" for sh
    using candidates_of_Inr [OF _ fits, of sh "cand sh"] assms(2) that by auto
  have flat: "map lo_logical_block (concat (map snd ?located)) = ?ids"
    by (simp add: map_concat o_def item_location_def)
  have "length (concat (map cand queries)) = length (map cand queries) * dt_hash_fns info"
    using c(2) by (intro length_concat_equal) auto
  then have len: "length ?ids = length queries * dt_hash_fns info" by simp
  with assms(1) have s: "serves E V ?D (length ?ids + room) (dr_oram s)"
    by (simp add: index_served_def)
  have ids: "i < length ?D" if "i \<in> set ?ids" for i
    using that c(1) index_item_location(2) [OF assms(1)] by auto
  obtain o1 m o2 where o: "read_batch E (map word_of_nat ?ids) (dr_oram s) = (Inr (map ((!) ?D) ?ids), o1)"
    "drain_evictions E (drain * word_of_nat (length ?ids)) o1 = (Inr m, o2)" 
    "serves E V ?D room o2 \<and> co_params o2 = co_params (dr_oram s)"
    by (rule oram_server.read_many_drain [OF conjI [OF s refl] ids])
  have m: "dm_slots_per_bin (dr_metadata s) = dt_slots_per_bin info" using assms(1) by (simp add: index_served_def)
  have blocks: "map ((!) ?D) ?ids = concat (map (\<lambda>sh. map (\<lambda>b. ?D ! (b div n)) (cand sh)) queries)"
    by (simp add: map_concat o_def)
  have "index_served E V info n mmap placement room (s\<lparr>dr_oram := o2\<rparr>)"
    "co_params (dr_oram (s\<lparr>dr_oram := o2\<rparr>)) = co_params (dr_oram s)"
    using assms(1) o(3) by (simp_all add: index_served_def)
  moreover have "lookup_many_batched E queries drain s =
      Some (Inr \<lparr>ib_lookups = map (\<lambda>sh. answer_lookup n sh (cand sh) (index_answer info mmap placement sh (cand sh)) 0) queries,
        ib_drained_evictions = m\<rparr>, s\<lparr>dr_oram := o2\<rparr>)"
    unfolding lookup_many_batched_def batch_locations_ok [OF assms] option.case sum.case Let_def flat
    using o m batch_lookups_ok [OF assms]
    by (simp add: bnd_gets_run bnd_lift_Inr_run bnd_Inr [OF zoom_run] comp_simps blocks del: map_map map_concat)
  ultimately show ?thesis by blast
qed

end
