(* ===== verification/Direct_Theorems.thy ===== *)
theory Direct_Theorems
  imports Direct_Lookup
begin

text \<open>
  What the direct tables promise (src/src/direct.rs), from the source file to the answers: a lookup
  by script hash finds exactly the records of the index file, one by one or in a batch, and a chunk
  read returns the bytes of the chunk file.
\<close>

section \<open>The answer is the record of the file\<close>

text \<open>
  The answer to a script hash over a file of \<open>n\<close> records: that of one of its records when it has
  any (duplicates are not excluded), otherwise not found with zero fields.
\<close>

definition record_of :: "bytes \<Rightarrow> nat \<Rightarrow> bytes \<Rightarrow> nat \<Rightarrow> bool" where
  "record_of mmap n sh r \<longleftrightarrow> r < n \<and> script_hash_from_record (input_record mmap r) = sh"

definition answers :: "bytes \<Rightarrow> nat \<Rightarrow> bytes \<Rightarrow> bool \<times> u32 \<times> u8 \<Rightarrow> bool" where
  "answers mmap n sh = (\<lambda>(found, start, chunks).
     (found \<longleftrightarrow> (\<exists>r. record_of mmap n sh r)) \<and>
     (if found then \<exists>r. record_of mmap n sh r \<and> start = u32_from_le_bytes (slice 20 24 (input_record mmap r)) \<and>
        chunks = input_record mmap r ! 24
      else start = 0 \<and> chunks = 0))"

lemma matches_slot_bytes:
  "matches sh (slot_bytes mmap e) \<longleftrightarrow> e \<noteq> EMPTY_SLOT \<and> script_hash_from_record (input_record mmap (unat e)) = sh"
  by (auto simp: matches_def slot_bytes_def direct_sizes slice_def script_hash_from_record_def)

lemma slot_fields:
  assumes "e \<noteq> EMPTY_SLOT"
  shows "slice 21 25 (slot_bytes mmap e) = slice 20 24 (input_record mmap (unat e))"
    "slot_bytes mmap e ! 25 = input_record mmap (unat e) ! 24"
  using assms by (simp_all add: slot_bytes_def slice_def)

lemma find_Some: "find P xs = Some x \<Longrightarrow> x \<in> set xs \<and> P x"
  by (induction xs) (auto split: if_splits)

lemma answer_lookup_fields:
  "(il_found (answer_lookup n sh bs a d), il_start_chunk_id (answer_lookup n sh bs a d),
    il_num_chunks (answer_lookup n sh bs a d)) = a"
  "il_script_hash (answer_lookup n sh bs a d) = sh"
  "answer_lookup n sh bs a d\<lparr>il_drained_evictions := d'\<rparr> = answer_lookup n sh bs a d'"
  by (cases a; simp add: answer_lookup_def)+

lemma placed_answer:
  assumes "build_direct_index_placement info mmap = Some (Inr placement)" and "table_fits info"
    and "length mmap = dt_records info * DIRECT_INDEX_INPUT_RECORD_SIZE"
    and "candidates_of info sh = Some (Inr bins)"
  shows "answers mmap (dt_records info) sh (index_answer info mmap placement sh bins)"
proof -
  let ?k = "dt_slots_per_bin info" and ?n = "dt_records info"
  let ?slots = "concat (map (bin_slots info mmap placement) bins)"
  have few: "?n \<le> 2 ^ 32 - 1" using assms(1) by (simp add: build_direct_index_placement_def split: if_splits)
  note holds = placement_holds [OF assms(1,2)]
  have sound: "\<exists>r. record_of mmap ?n sh r \<and> x = slot_bytes mmap (word_of_nat r) \<and> word_of_nat r \<noteq> EMPTY_SLOT \<and> r < 2 ^ 32"
    if x: "x \<in> set ?slots" "matches sh x" for x
  proof -
    from x(1) obtain b j where b: "b \<in> set bins" "j < ?k" "x = slot_bytes mmap (placement ! (b * ?k + j))"
      by (auto simp: bin_slots_def)
    have "b * ?k + j < length placement"
      using candidates_of_Inr(1) [OF assms(4,2)] b(1,2) slot_in_bin(1) holds by simp
    with holds x(2) b(3) few show ?thesis
      by (intro exI [of _ "unat (placement ! (b * ?k + j))"]) (auto simp: matches_slot_bytes record_of_def)
  qed
  have complete: "\<exists>x \<in> set ?slots. matches sh x" if r: "record_of mmap ?n sh r" for r
  proof -
    from r have r: "r < ?n" "script_hash_from_record (input_record mmap r) = sh" by (simp_all add: record_of_def)
    with few have un: "unat (word_of_nat r :: u32) = r" by (simp add: unat_of_nat)
    have "unat (word_of_nat r :: u32) \<noteq> unat EMPTY_SLOT"
      using un r(1) few by (simp add: EMPTY_SLOT_def unsigned_minus_1_eq_mask mask_eq_exp_minus_1)
    then have ne: "(word_of_nat r :: u32) \<noteq> EMPTY_SLOT" by metis
    from holds r(1) obtain slot where slot: "slot < length placement" "placement ! slot = word_of_nat r" by blast
    with holds ne have "in_candidate info mmap (word_of_nat r) (slot div ?k)" by metis
    then obtain bs where bs: "record_candidates info mmap r = Some (Inr bs)" "slot div ?k \<in> set bs"
      by (auto simp: in_candidate_def un)
    have "r < 2 ^ 32" using r(1) few by simp
    from index_record_eq(1) [OF assms(3) r(1) this] bs(1) assms(4) r(2) have "bs = bins"
      by (simp add: record_candidates_def candidates_of_def)
    moreover have "slot mod ?k < ?k" using assms(2) by (simp add: table_fits_def)
    moreover have "slot_bytes mmap (placement ! (slot div ?k * ?k + slot mod ?k)) = slot_bytes mmap (word_of_nat r)"
      using slot(2) by simp
    ultimately have "slot_bytes mmap (word_of_nat r) \<in> set (bin_slots info mmap placement (slot div ?k))" "bs = bins"
      unfolding bin_slots_def set_map by (auto intro!: image_eqI [of _ _ "slot mod ?k"])
    then have "slot_bytes mmap (word_of_nat r) \<in> set ?slots" using bs(2) by auto
    moreover have "matches sh (slot_bytes mmap (word_of_nat r))" using ne r(2) un by (simp add: matches_slot_bytes)
    ultimately show ?thesis by blast
  qed
  show ?thesis
  proof (cases "find (matches sh) ?slots")
    case None
    with complete have "\<nexists>r. record_of mmap ?n sh r" by (auto simp: find_None_iff)
    with None show ?thesis by (simp add: answers_def index_answer_def fold_scan)
  next
    case (Some x)
    from find_Some [OF this] have "x \<in> set ?slots" "matches sh x" by blast+
    from sound [OF this] obtain r where r: "record_of mmap ?n sh r" "x = slot_bytes mmap (word_of_nat r)"
      "(word_of_nat r :: u32) \<noteq> EMPTY_SLOT" "r < 2 ^ 32" by blast
    from slot_fields [OF r(3), of mmap] r(4) have
      "slice 21 25 x = slice 20 24 (input_record mmap r)" "x ! 25 = input_record mmap r ! 24"
      by (simp_all add: r(2))
    with Some r(1) show ?thesis by (auto simp: answers_def index_answer_def fold_scan)
  qed
qed

section \<open>From an index file to a served reader\<close>

lemma index_build_ok:
  assumes "from_index_file F fs path slots hash_fns lf seed = Inr t" and "fs path = Some mmap"
    and "table_fits t" and "n * (slots * DIRECT_INDEX_SLOT_SIZE) < 2 ^ 64"
    and "index_build F fs t n = Some (Inr rd)"
  shows "\<exists>placement. build_direct_index_placement t mmap = Some (Inr placement) \<and>
      index_reader_ok t n mmap placement rd"
    and "length mmap = dt_records t * DIRECT_INDEX_INPUT_RECORD_SIZE"
    and "metadata_from_info F t n = Inr (ix_metadata rd)" "metadata_validate (ix_metadata rd) = Inr ()"
proof -
  note t = from_index_file_ok [OF assms(1)]
  show len: "length mmap = dt_records t * DIRECT_INDEX_INPUT_RECORD_SIZE" using t(10) assms(2) by auto
  from assms(2,5) t(2,3) obtain placement m where b: "build_direct_index_placement t mmap = Some (Inr placement)"
    "metadata_from_info F t n = Inr m"
    "rd = \<lparr>ix_info = t, ix_metadata = m, ix_next_block = 0, ix_mmap = mmap, ix_placement = placement\<rparr>"
    by (auto simp: index_build_def open_file_def obnd_Inr_iff)
  then show "metadata_from_info F t n = Inr (ix_metadata rd)" by simp
  note f = metadata_from_info_fields [OF b(2)]
  have "slots * DIRECT_INDEX_SLOT_SIZE \<le> n * (slots * DIRECT_INDEX_SLOT_SIZE)" using f(1) by simp
  with assms(4) have lt: "slots * DIRECT_INDEX_SLOT_SIZE < 2 ^ 64" by linarith
  then have k: "dt_item_size t = slots * DIRECT_INDEX_SLOT_SIZE"
    using t(1,2,4) by (simp add: direct_table_ok_def)
  then have "0 < dt_item_size t" using t(7) by (simp add: direct_sizes)
  from metadata_from_info_valid [OF b(2) t(1) this] show "metadata_validate (ix_metadata rd) = Inr ()"
    by (simp add: b(3))
  note holds = placement_holds [OF b(1) assms(3)]
  have "index_ok t mmap placement" using assms(3) len holds by (simp add: index_ok_def)
  then have "index_reader_ok t n mmap placement rd"
    using f assms(4) by (simp add: index_reader_ok_def b(3) t(4) k mult.commute [of _ n])
  with b(1) show "\<exists>placement. build_direct_index_placement t mmap = Some (Inr placement) \<and>
      index_reader_ok t n mmap placement rd" by blast
qed

lemma index_reader_served:
  assumes t: "from_index_file F fs path slots hash_fns lf seed = Inr t" "fs path = Some mmap"
    and fits: "table_fits t" "n * (slots * DIRECT_INDEX_SLOT_SIZE) < 2 ^ 64"
    and rd: "index_build F fs t n = Some (Inr rd)"
    and spec: "subtle_spec sb" "page_store_spec mps mok mpages" "page_store_spec pps pok ppages"
    and p: "params_ok p" "logical_blocks p = dm_logical_blocks (ix_metadata rd)"
      "block_size p = dm_block_payload_bytes (ix_metadata rd)" "logical_blocks p < stash_capacity p"
    and m: "mok m" "ps_page_count mps m = bucket_count p" "ps_page_size mps m = circuit_meta_page_bytes (bucket_size p)"
    and q: "pok q" "ps_page_count pps q = bucket_count p"
      "ps_page_size pps q = circuit_payload_page_bytes (bucket_size p) (block_size p)"
    and E: "E = \<lparr>e_ct = sb, e_next_u64 = next_u64, e_meta = path_of_page_store mps, e_payload = path_of_page_store pps\<rparr>"
    and room: "room * 2 < 2 ^ 64"
    and V: "V = \<lparr>v_meta_ok = mok, v_meta_pages = mpages, v_payload_ok = pok, v_payload_pages = ppages\<rparr>"
  obtains placement oram br where
    "build_direct_index_placement t mmap = Some (Inr placement)"
    "build_trusted_from_source sb next_u64 from_seed mps pps index_source_ops p m q rd s0 = Inr oram"
    "index_reader_new (ix_metadata rd) oram = Inr br"
    "index_served E V t n mmap placement room br"
proof -
  note b = index_build_ok [OF t fits rd]
  from b(1) obtain placement where pl: "build_direct_index_placement t mmap = Some (Inr placement)"
    and ok: "index_reader_ok t n mmap placement rd" by blast
  let ?K = "dt_slots_per_bin t * DIRECT_INDEX_SLOT_SIZE" and ?items = "index_items t mmap placement"
  let ?D = "packed n ?K ?items"
  have iok: "index_ok t mmap placement" and meta: "dm_logical_blocks (ix_metadata rd) = div_ceil (dt_total_items t) n"
    "dm_block_payload_bytes (ix_metadata rd) = n * ?K"
    using ok by (simp_all add: index_reader_ok_def)
  have build: "circuit_build_spec sb mps pps V index_source_ops (index_reader_ok t n mmap placement) ?D"
    using spec index_source.block_source_spec_axioms unfolding V by (simp add: circuit_build_spec_def)
  have "\<forall>d \<in> set ?D. length d = block_size p"
    using packed_lengths [of ?items ?K _ n] index_items_lengths [OF iok] p(3) meta(2) by auto
  moreover have "length ?D = logical_blocks p" using p(2) meta(1) by (simp add: index_items_def)
  moreover have "bs_block_size index_source_ops rd = block_size p" using p(3) by (simp add: index_source_ops_def)
  ultimately obtain oram where o:
    "build_trusted_from_source sb next_u64 from_seed mps pps index_source_ops p m q rd s0 = Inr oram"
    "serves E V ?D room oram" "co_params oram = p"
    using circuit_build_spec.build_serves [OF build p(1) _ _ _ m(2,3) _ q(2,3) ok _ E p(4) room, of from_seed s0]
      m(1) q(1) by (auto simp: V)
  let ?br = "\<lparr>dr_metadata = ix_metadata rd, dr_oram = oram\<rparr>"
  have "dm_level (ix_metadata rd) = DirectIndex"
    using metadata_from_info_fields(3) [OF b(3)] from_index_file_ok(2) [OF t(1)] by simp
  then have new: "index_reader_new (ix_metadata rd) oram = Inr ?br"
    using b(4) o(3) p(2,3) by (simp add: index_reader_new_def validate_oram_dimensions_def)
  have "index_served E V t n mmap placement room ?br"
    using ok iok o(2) metadata_from_info_fields [OF b(3)] by (simp add: index_served_def index_reader_ok_def)
  with that pl o(1) new show thesis by blast
qed

text \<open>
  C34. Direct lookups find the records of the file. Take an index file whose placement was built, pack
  \<open>n\<close> bins per block, build a controller from the packed reader over honest stores of the right
  dimensions with a roomy stash, and wrap it in an index reader. Then any sequence of lookups of
  script hashes (for which the candidate search returns) succeeds, with evictions drained in between
  at any rate; every answer is that of a record of the file with this script hash, and not found
  exactly when the file has none. One batch of the same lookups gives the same answers.
\<close>

theorem direct_lookups_correct:
  assumes t: "from_index_file F fs path slots hash_fns lf seed = Inr t" "fs path = Some mmap"
    and fits: "table_fits t" "n * (slots * DIRECT_INDEX_SLOT_SIZE) < 2 ^ 64"
    and rd: "index_build F fs t n = Some (Inr rd)"
    and spec: "subtle_spec sb" "page_store_spec mps mok mpages" "page_store_spec pps pok ppages"
    and p: "params_ok p" "logical_blocks p = dm_logical_blocks (ix_metadata rd)"
      "block_size p = dm_block_payload_bytes (ix_metadata rd)" "logical_blocks p < stash_capacity p"
    and m: "mok m" "ps_page_count mps m = bucket_count p" "ps_page_size mps m = circuit_meta_page_bytes (bucket_size p)"
    and q: "pok q" "ps_page_count pps q = bucket_count p"
      "ps_page_size pps q = circuit_payload_page_bytes (bucket_size p) (block_size p)"
    and E: "E = \<lparr>e_ct = sb, e_next_u64 = next_u64, e_meta = path_of_page_store mps, e_payload = path_of_page_store pps\<rparr>"
    and queries: "\<forall>sh \<in> set queries. length sh = DIRECT_SCRIPT_HASH_SIZE \<and>
        hash_fns \<le> card (reachable_bins sh seed (dt_total_items t))"
      "length queries * hash_fns * 2 < 2 ^ 64"
  shows "\<exists>oram br ls br' batch br''.
    build_trusted_from_source sb next_u64 from_seed mps pps index_source_ops p m q rd s0 = Inr oram \<and>
    index_reader_new (ix_metadata rd) oram = Inr br \<and>
    lookup_each E drain queries br = Some (Inr ls, br') \<and>
    list_all2 (\<lambda>sh l. il_script_hash l = sh \<and>
      answers mmap (dt_records t) sh (il_found l, il_start_chunk_id l, il_num_chunks l)) queries ls \<and>
    lookup_many_batched E queries drain br = Some (Inr batch, br'') \<and>
    ib_lookups batch = map (\<lambda>l. l\<lparr>il_drained_evictions := 0\<rparr>) ls"
proof -
  define V where "V = \<lparr>v_meta_ok = mok, v_meta_pages = mpages, v_payload_ok = pok, v_payload_pages = ppages\<rparr>"
  obtain placement oram br where o: "build_direct_index_placement t mmap = Some (Inr placement)"
    "build_trusted_from_source sb next_u64 from_seed mps pps index_source_ops p m q rd s0 = Inr oram"
    "index_reader_new (ix_metadata rd) oram = Inr br"
    "index_served E V t n mmap placement (length queries * hash_fns) br"
    by (rule index_reader_served [OF t fits rd spec p m q E queries(2) V_def])
  note tf = from_index_file_ok [OF t(1)]
  note mf = metadata_from_info_fields [OF index_build_ok(3) [OF t fits rd]]
  have "0 < div_ceil (dt_total_items t) n" using p(1,2) mf(10) by (simp add: params_ok_def)
  with div_ceil_le [OF mf(1), of "dt_total_items t"] have tot: "0 < dt_total_items t" by simp
  have "\<exists>bs. candidates_of t sh = Some (Inr bs)" if "sh \<in> set queries" for sh
    using candidate_bins_exist [OF _ tf(8) tot, of sh seed] queries(1) that tf(5,6)
    by (simp add: candidates_of_def)
  then obtain cand where cand: "\<forall>sh \<in> set queries. candidates_of t sh = Some (Inr (cand sh))" by metis
  let ?a = "\<lambda>sh. index_answer t mmap placement sh (cand sh)"
  have ans: "answers mmap (dt_records t) sh (?a sh)" if "sh \<in> set queries" for sh
    using placed_answer [OF o(1) fits(1) index_build_ok(2) [OF t fits rd]] cand that by simp
  have served: "index_served E V t n mmap placement (length queries * dt_hash_fns t + 0) br" using o(4) tf(5) by simp
  obtain drs br' where l: "length drs = length queries" "lookup_each E drain queries br =
      Some (Inr (map (\<lambda>(sh, dr). answer_lookup n sh (cand sh) (?a sh) dr) (zip queries drs)), br')"
    using lookup_each_ok [OF served cand, of drain] by blast
  obtain dr br'' where b: "lookup_many_batched E queries drain br =
      Some (Inr \<lparr>ib_lookups = map (\<lambda>sh. answer_lookup n sh (cand sh) (?a sh) 0) queries, ib_drained_evictions = dr\<rparr>, br'')"
    using lookup_many_batched_ok [OF served cand, of drain] by blast
  let ?ls = "map (\<lambda>(sh, dr). answer_lookup n sh (cand sh) (?a sh) dr) (zip queries drs)"
  have "list_all2 (\<lambda>sh l. il_script_hash l = sh \<and>
      answers mmap (dt_records t) sh (il_found l, il_start_chunk_id l, il_num_chunks l)) queries ?ls"
    using l(1) ans by (auto simp: list_all2_conv_all_nth answer_lookup_fields)
  moreover have "map (\<lambda>sh. answer_lookup n sh (cand sh) (?a sh) 0) queries = map (\<lambda>l. l\<lparr>il_drained_evictions := 0\<rparr>) ?ls"
    using l(1) by (auto simp: list_eq_iff_nth_eq answer_lookup_fields)
  ultimately show ?thesis using o(2,3) l(2) b by auto
qed

text \<open>The index of two records in one bin.\<close>

definition unit_floats :: "unit float_lib" where
  "unit_floats = \<lparr>fl_in_unit = (\<lambda>_. True), fl_bins = (\<lambda>r s _. r div s), fl_ppb = (\<lambda>_. 950000000), fl_one = ()\<rparr>"

definition pair_metadata :: direct_metadata where
  "pair_metadata = \<lparr>dm_version = 1, dm_level = DirectIndex, dm_source_path = ''idx'', dm_source_file_bytes = 50,
      dm_source_records = 2, dm_total_items = 1, dm_item_size = 52, dm_items_per_block = 1, dm_slots_per_bin = 2,
      dm_hash_fns = 1, dm_load_factor_ppb = 950000000, dm_seed = 0, dm_logical_blocks = 1, dm_block_payload_bytes = 52\<rparr>"

definition pair_reader :: "unit index_reader" where
  "pair_reader = \<lparr>ix_info = pair_table, ix_metadata = pair_metadata, ix_next_block = 0, ix_mmap = pair_file,
      ix_placement = [0, 1]\<rparr>"

definition pair_params :: oram_params where
  "pair_params = \<lparr>logical_blocks = 1, block_size = 52, bucket_size = 1, leaves = 2, stash_capacity = 3\<rparr>"

lemma pair_opens:
  "from_index_file unit_floats [''idx'' \<mapsto> pair_file] ''idx'' 2 1 () 0 = Inr pair_table"
  "index_build unit_floats [''idx'' \<mapsto> pair_file] pair_table 1 = Some (Inr pair_reader)"
proof -
  have "length pair_file = 50" by (simp add: pair_file_def pair_record_def)
  then show "from_index_file unit_floats [''idx'' \<mapsto> pair_file] ''idx'' 2 1 () 0 = Inr pair_table"
    by (simp add: from_index_file_def open_file_def unit_floats_def compute_direct_index_bins_def direct_sizes
        pair_table_def Let_def)
  have "open_file [''idx'' \<mapsto> pair_file] (dt_path pair_table) = Inr pair_file" "dt_level pair_table = DirectIndex"
    "metadata_from_info unit_floats pair_table 1 = Inr pair_metadata"
    by (simp_all add: open_file_def pair_table_def pair_metadata_def metadata_from_info_def Let_def div_ceil_def
        DIRECT_METADATA_VERSION_def unit_floats_def)
  then show "index_build unit_floats [''idx'' \<mapsto> pair_file] pair_table 1 = Some (Inr pair_reader)"
    by (simp add: index_build_def pair_placement pair_reader_def)
qed

lemma pair_params_ok: "params_ok pair_params"
  by (simp add: params_ok_def pair_params_def height_def leaf_bits_def is_power_of_two.simps trailing_zeros.simps)

theorem direct_lookups_correct_witness:
  "\<exists>oram br ls br'.
    build_trusted_from_source bit_choice counter_next (\<lambda>_. 0) mem_store_ops mem_store_ops index_source_ops pair_params
      \<lparr>mem_page_size = 13, mem_pages = replicate 39 0\<rparr> \<lparr>mem_page_size = 52, mem_pages = replicate 156 0\<rparr>
      pair_reader [] = Inr oram \<and>
    index_reader_new pair_metadata oram = Inr br \<and>
    lookup_each mem_env 2 [replicate 20 9, replicate 20 4] br = Some (Inr ls, br') \<and>
    list_all2 (\<lambda>sh l. il_script_hash l = sh \<and>
      answers pair_file 2 sh (il_found l, il_start_chunk_id l, il_num_chunks l))
      [replicate 20 9, replicate 20 4] ls"
proof -
  have bins: "bucket_count pair_params = 3" by (simp add: bucket_count_def pair_params_def)
  have cands: "1 \<le> card (reachable_bins sh 0 (dt_total_items pair_table))" for sh
  proof -
    have "direct_bin sh 0 1 0 \<in> reachable_bins sh 0 1" by (auto simp: reachable_bins_def)
    then have "card (reachable_bins sh 0 1) \<noteq> 0" using finite_reachable_bins(1) [of 1 sh 0] by auto
    then show ?thesis by (simp add: pair_table_def)
  qed
  have fields: "dt_records pair_table = 2" "ix_metadata pair_reader = pair_metadata"
    by (simp_all add: pair_table_def pair_reader_def)
  from direct_lookups_correct [OF pair_opens(1) _ pair_fits _ pair_opens(2) bit_choice.subtle_spec_axioms
      mem.page_store_spec_axioms mem.page_store_spec_axioms pair_params_ok, of pair_file
      "\<lparr>mem_page_size = 13, mem_pages = replicate 39 0\<rparr>" "\<lparr>mem_page_size = 52, mem_pages = replicate 156 0\<rparr>"
      mem_env counter_next "[replicate 20 9, replicate 20 4]" "\<lambda>_. 0" "[]" 2] bins cands fields
  show ?thesis
    by (simp add: direct_sizes pair_params_def pair_metadata_def mem_store_ops_def mem_ok_def mem_page_count_def
        circuit_meta_page_bytes_def circuit_payload_page_bytes_def mem_env_def) blast
qed

end
