(* ===== verification/Direct_Chunks.thy ===== *)
theory Direct_Chunks
  imports Direct_Lookup
begin

text \<open>
  The chunk side of the direct tables (src/src/direct.rs): the packed reader of a chunk file is a
  source of its records, and chunk reads through a controller, one by one or in a batch, return the
  bytes of the file.
\<close>

section \<open>The packed reader is a block source\<close>

definition chunk_source_ok :: "nat \<Rightarrow> nat \<Rightarrow> bytes \<Rightarrow> chunk_reader \<Rightarrow> bool" where
  "chunk_source_ok tot n mmap s \<longleftrightarrow>
     0 < n \<and> n * DIRECT_CHUNK_RECORD_SIZE < 2 ^ 64 \<and> ck_mmap s = mmap \<and>
     length mmap = tot * DIRECT_CHUNK_RECORD_SIZE \<and> length mmap < 2 ^ 64 \<and>
     dm_total_items (ck_metadata s) = tot \<and> dm_items_per_block (ck_metadata s) = n \<and>
     dm_item_size (ck_metadata s) = DIRECT_CHUNK_RECORD_SIZE \<and>
     dm_logical_blocks (ck_metadata s) = div_ceil tot n \<and>
     dm_block_payload_bytes (ck_metadata s) = n * DIRECT_CHUNK_RECORD_SIZE"

definition chunk_items :: "nat \<Rightarrow> bytes \<Rightarrow> bytes list" where
  "chunk_items tot mmap = flat_items 0 DIRECT_CHUNK_RECORD_SIZE tot mmap"

lemma chunk_item: "i < tot \<Longrightarrow> chunk_items tot mmap ! i =
    slice (i * DIRECT_CHUNK_RECORD_SIZE) (i * DIRECT_CHUNK_RECORD_SIZE + DIRECT_CHUNK_RECORD_SIZE) mmap"
  by (simp add: chunk_items_def flat_items_def)

lemma chunk_read_block_eq:
  assumes "chunk_source_ok tot n mmap s" and "b < div_ceil tot n"
  shows "chunk_read_block b s = Inr (packed n DIRECT_CHUNK_RECORD_SIZE (chunk_items tot mmap) ! b)"
proof -
  let ?k = DIRECT_CHUNK_RECORD_SIZE and ?m = "min (tot - b * n) n"
  have n: "0 < n" and len: "length mmap = tot * ?k" "length mmap < 2 ^ 64"
    using assms(1) by (simp_all add: chunk_source_ok_def)
  have b: "b * n < tot" using assms(2) div_ceil_bounds [OF n] by simp
  have "(b * n + ?m) * ?k \<le> tot * ?k" using b by (intro mult_le_mono1) simp
  then have le: "b * n * ?k + ?m * ?k \<le> length mmap" by (simp add: len(1) add_mult_distrib)
  with len(2) have "b * n * ?k + ?m * ?k < 2 ^ 64" by linarith
  moreover from this have "b * n * ?k < 2 ^ 64" "?m * ?k < 2 ^ 64" by linarith+
  ultimately have eqs: "usize_mul (b * n) ?k = b * n * ?k" "usize_mul ?m ?k = ?m * ?k"
    "usize_add (b * n * ?k) (?m * ?k) = b * n * ?k + ?m * ?k" by simp_all
  have m: "?m * ?k \<le> n * ?k" by (intro mult_le_mono1) simp
  have "chunk_read_block b s =
      Inr (copy_into 0 (slice (0 + b * n * ?k) (0 + b * n * ?k + ?m * ?k) mmap) (replicate (n * ?k) 0))"
    using assms le m by (simp add: chunk_read_block_def chunk_source_ok_def Let_def eqs)
  also have "\<dots> = Inr (packed_block n ?k (chunk_items tot mmap) b)"
    unfolding chunk_items_def using len(1) b by (subst packed_block_flat) auto
  finally show ?thesis using assms(2) by (simp add: packed_def chunk_items_def)
qed

interpretation chunk_source: block_source_spec chunk_source_ops "chunk_source_ok tot n mmap"
  "packed n DIRECT_CHUNK_RECORD_SIZE (chunk_items tot mmap)"
  for tot n :: nat and mmap :: bytes
proof
  let ?D = "packed n DIRECT_CHUNK_RECORD_SIZE (chunk_items tot mmap)"
  show "bs_logical_blocks chunk_source_ops s = length ?D" if "chunk_source_ok tot n mmap s" for s
    using that by (simp add: chunk_source_ops_def chunk_source_ok_def chunk_items_def)
  show "\<exists>s'. bs_read_block chunk_source_ops i s = (Inr (?D ! i), s') \<and> chunk_source_ok tot n mmap s'"
    if "chunk_source_ok tot n mmap s" "i < length ?D" for s i
    using that chunk_read_block_eq [OF that(1), of i] by (simp add: chunk_source_ops_def chunk_items_def)
  show "bs_block_size chunk_source_ops s' = bs_block_size chunk_source_ops s"
    if "chunk_source_ok tot n mmap s" "chunk_source_ok tot n mmap s'" for s s'
    using that by (simp add: chunk_source_ops_def chunk_source_ok_def)
qed

section \<open>Chunk reads\<close>

definition chunk_served ::
  "('c, 'm, 'p, 'r) circuit_env \<Rightarrow> ('m, 'p) store_views \<Rightarrow> nat \<Rightarrow> nat \<Rightarrow> bytes \<Rightarrow> nat \<Rightarrow>
    ('m, 'p, 'r) direct_reader \<Rightarrow> bool" where
  "chunk_served E V tot n mmap room s \<longleftrightarrow>
     serves E V (packed n DIRECT_CHUNK_RECORD_SIZE (chunk_items tot mmap)) room (dr_oram s) \<and>
     0 < n \<and> n * DIRECT_CHUNK_RECORD_SIZE < 2 ^ 64 \<and> length mmap = tot * DIRECT_CHUNK_RECORD_SIZE \<and>
     dm_total_items (dr_metadata s) = tot \<and> dm_items_per_block (dr_metadata s) = n \<and>
     dm_item_size (dr_metadata s) = DIRECT_CHUNK_RECORD_SIZE"

definition chunk_location :: "nat \<Rightarrow> nat \<Rightarrow> packed_location" where
  "chunk_location n i =
     \<lparr>lo_logical_block = i div n, lo_byte_offset = i mod n * DIRECT_CHUNK_RECORD_SIZE,
      lo_byte_len = DIRECT_CHUNK_RECORD_SIZE\<rparr>"

definition chunk_answer :: "nat \<Rightarrow> nat \<Rightarrow> bytes \<Rightarrow> nat \<Rightarrow> u64 \<Rightarrow> chunk_read" where
  "chunk_answer tot n mmap i drained =
     \<lparr>ch_chunk_id = i, ch_logical_block = i div n, ch_byte_offset = i mod n * DIRECT_CHUNK_RECORD_SIZE,
      ch_payload = chunk_items tot mmap ! i, ch_drained_evictions = drained\<rparr>"

lemma chunk_item_location:
  assumes "chunk_served E V tot n mmap room s" and "i < tot"
  defines "D \<equiv> packed n DIRECT_CHUNK_RECORD_SIZE (chunk_items tot mmap)"
  shows "locate_item (dr_metadata s) i = Inr (chunk_location n i)"
    and "i div n < length D"
    and "slice_location (chunk_location n i) (D ! (i div n)) = Inr (chunk_items tot mmap ! i)"
proof -
  let ?k = DIRECT_CHUNK_RECORD_SIZE
  have n: "0 < n" "?k * n < 2 ^ 64" "0 < ?k" and len: "length mmap = tot * ?k"
    and m: "dm_total_items (dr_metadata s) = tot" "dm_items_per_block (dr_metadata s) = n"
      "dm_item_size (dr_metadata s) = ?k"
    using assms(1) by (simp_all add: chunk_served_def mult.commute direct_sizes)
  show "locate_item (dr_metadata s) i = Inr (chunk_location n i)"
    using locate_item_eq [OF m assms(2) n(1,3,2)] by (simp add: chunk_location_def)
  have i: "i < length (chunk_items tot mmap)" using assms(2) by (simp add: chunk_items_def)
  show D: "i div n < length D" using div_ceil_item [OF i n(1)] by (simp add: D_def)
  have items: "length x = ?k" if "x \<in> set (chunk_items tot mmap)" for x
    using flat_items_lengths [of 0 tot ?k mmap x] that len by (simp add: chunk_items_def)
  have "length (D ! (i div n)) = n * ?k"
    using packed_lengths [of "chunk_items tot mmap" ?k "D ! (i div n)" n] items D by (auto simp: D_def)
  from locate_bin(2) [OF assms(2) n(1,3,2) this] packed_item [OF items i n(1)]
  show "slice_location (chunk_location n i) (D ! (i div n)) = Inr (chunk_items tot mmap ! i)"
    by (simp add: D_def chunk_location_def)
qed

lemma direct_read_chunk_ok:
  assumes "chunk_served E V tot n mmap (Suc room) s" and "i < tot"
  shows "\<exists>dr s'. direct_read_chunk E i drain s = (Inr (chunk_answer tot n mmap i dr), s') \<and>
    chunk_served E V tot n mmap room s'"
proof -
  let ?D = "packed n DIRECT_CHUNK_RECORD_SIZE (chunk_items tot mmap)"
  note loc = chunk_item_location [OF assms]
  have s: "serves E V ?D (Suc room) (dr_oram s)" using assms(1) by (simp add: chunk_served_def)
  obtain o1 m o2 where o: "read_block E (word_of_nat (i div n)) (dr_oram s) = (Inr (?D ! (i div n)), o1)"
    "drain_evictions E drain o1 = (Inr m, o2)" "serves E V ?D room o2 \<and> co_params o2 = co_params (dr_oram s)"
    by (rule oram_server.read_drain [OF conjI [OF s refl] loc(2)])
  have "lo_logical_block (chunk_location n i) = i div n" by (simp add: chunk_location_def)
  then have "direct_read_chunk E i drain s = (Inr (chunk_answer tot n mmap i m), s\<lparr>dr_oram := o2\<rparr>)"
    using o loc by (simp add: direct_read_chunk_def bnd_gets_run bnd_lift_Inr_run bnd_Inr [OF zoom_run] comp_simps)
      (simp add: chunk_answer_def chunk_location_def)
  moreover have "chunk_served E V tot n mmap room (s\<lparr>dr_oram := o2\<rparr>)"
    using assms(1) o(3) by (simp add: chunk_served_def)
  ultimately show ?thesis by blast
qed

lemma direct_read_each_ok:
  assumes "chunk_served E V tot n mmap (length ids + room) s" and "\<forall>i \<in> set ids. i < tot"
  shows "\<exists>drs s'. length drs = length ids \<and> cmapM (\<lambda>i. direct_read_chunk E i drain) ids s =
      (Inr (map (\<lambda>(i, dr). chunk_answer tot n mmap i dr) (zip ids drs)), s') \<and> chunk_served E V tot n mmap room s'"
  using assms
proof (induction ids arbitrary: s)
  case Nil
  then show ?case by (simp add: comp_simps)
next
  case (Cons i ids)
  then have "chunk_served E V tot n mmap (Suc (length ids + room)) s" "i < tot" by simp_all
  from direct_read_chunk_ok [OF this, of drain] obtain dr s1 where 1:
    "direct_read_chunk E i drain s = (Inr (chunk_answer tot n mmap i dr), s1)"
    "chunk_served E V tot n mmap (length ids + room) s1" by blast
  from Cons.IH [OF 1(2)] Cons.prems(2) obtain drs s2 where 2: "length drs = length ids"
    "cmapM (\<lambda>i. direct_read_chunk E i drain) ids s1 = (Inr (map (\<lambda>(i, dr). chunk_answer tot n mmap i dr) (zip ids drs)), s2)"
    "chunk_served E V tot n mmap room s2" by auto
  from 1(1) 2 show ?case by (intro exI [of _ "dr # drs"] exI [of _ s2]) (simp add: comp_simps bnd_Inr_iff)
qed

lemma direct_read_chunks_ok:
  assumes "chunk_served E V tot n mmap (length ids + room) s" and "\<forall>i \<in> set ids. i < tot"
  shows "\<exists>dr s'. direct_read_chunks E ids drain s =
      (Inr \<lparr>cx_reads = map (\<lambda>i. chunk_answer tot n mmap i 0) ids, cx_drained_evictions = dr\<rparr>, s') \<and>
    chunk_served E V tot n mmap room s' \<and> co_params (dr_oram s') = co_params (dr_oram s)"
proof -
  let ?D = "packed n DIRECT_CHUNK_RECORD_SIZE (chunk_items tot mmap)" and ?ids = "map (\<lambda>i. i div n) ids"
  note loc = chunk_item_location [OF assms(1)]
  have locs: "rmapM (locate_item (dr_metadata s)) ids = Inr (map (chunk_location n) ids)"
    using assms(2) loc(1) by (intro rmapM_Inr) simp
  have words: "map (\<lambda>l. word_of_nat (lo_logical_block l)) (map (chunk_location n) ids) = (map word_of_nat ?ids :: u64 list)"
    by (simp add: chunk_location_def)
  have s: "serves E V ?D (length ?ids + room) (dr_oram s)" using assms(1) by (simp add: chunk_served_def)
  have in_range: "i < length ?D" if "i \<in> set ?ids" for i using that assms(2) loc(2) by auto
  obtain o1 m o2 where o: "read_batch E (map word_of_nat ?ids) (dr_oram s) = (Inr (map ((!) ?D) ?ids), o1)"
    "drain_evictions E (drain * word_of_nat (length ids)) o1 = (Inr m, o2)" "serves E V ?D room o2 \<and> co_params o2 = co_params (dr_oram s)"
    by (rule oram_server.read_many_drain [OF conjI [OF s refl] in_range])
  have "chunk_result i (chunk_location n i) (?D ! (i div n)) 0 = Inr (chunk_answer tot n mmap i 0)" if "i < tot" for i
    using loc(3) [OF that] by (simp add: chunk_result_def chunk_answer_def) (simp add: chunk_location_def)
  then have reads: "rmapM (\<lambda>(i, location, block). chunk_result i location block 0)
      (zip ids (zip (map (chunk_location n) ids) (map ((!) ?D) ?ids))) = Inr (map (\<lambda>i. chunk_answer tot n mmap i 0) ids)"
    using assms(2) by (induction ids) simp_all
  have "direct_read_chunks E ids drain s =
      (Inr \<lparr>cx_reads = map (\<lambda>i. chunk_answer tot n mmap i 0) ids, cx_drained_evictions = m\<rparr>, s\<lparr>dr_oram := o2\<rparr>)"
    using o locs words reads
    by (simp add: direct_read_chunks_def bnd_gets_run bnd_lift_Inr_run bnd_Inr [OF zoom_run] comp_simps del: map_map)
  moreover have "chunk_served E V tot n mmap room (s\<lparr>dr_oram := o2\<rparr>)"
    "co_params (dr_oram (s\<lparr>dr_oram := o2\<rparr>)) = co_params (dr_oram s)"
    using assms(1) o(3) by (simp_all add: chunk_served_def)
  ultimately show ?thesis by blast
qed

section \<open>From the file to the answers\<close>

text \<open>
  C35. From the chunk file to the answers. Open a chunk file, pack \<open>n\<close> records per block, build a
  controller from the packed reader over honest stores of the right dimensions with a roomy stash,
  and wrap it in a chunk reader: every step succeeds, any sequence of chunk reads returns the 40
  bytes the file has for each of them, and one batch of these reads returns the same.
\<close>

theorem direct_chunks_served:
  assumes t: "from_chunks_file F fs path = Inr t" "fs path = Some mmap" "length mmap < 2 ^ 64"
    and rd: "chunk_open F fs t n = Inr rd" "n * DIRECT_CHUNK_RECORD_SIZE < 2 ^ 64"
    and spec: "subtle_spec sb" "page_store_spec mps mok mpages" "page_store_spec pps pok ppages"
    and p: "params_ok p" "logical_blocks p = dm_logical_blocks (ck_metadata rd)"
      "block_size p = dm_block_payload_bytes (ck_metadata rd)" "logical_blocks p < stash_capacity p"
    and m: "mok m" "ps_page_count mps m = bucket_count p" "ps_page_size mps m = circuit_meta_page_bytes (bucket_size p)"
    and q: "pok q" "ps_page_count pps q = bucket_count p"
      "ps_page_size pps q = circuit_payload_page_bytes (bucket_size p) (block_size p)"
    and E: "E = \<lparr>e_ct = sb, e_next_u64 = next_u64, e_meta = path_of_page_store mps, e_payload = path_of_page_store pps\<rparr>"
    and ids: "\<forall>i \<in> set ids. i < dt_records t" "length ids * 2 < 2 ^ 64"
  shows "\<exists>oram br reads br' batch br''.
    build_trusted_from_source sb next_u64 from_seed mps pps chunk_source_ops p m q rd s0 = Inr oram \<and>
    chunk_reader_new (ck_metadata rd) oram = Inr br \<and>
    cmapM (\<lambda>i. direct_read_chunk E i drain) ids br = (Inr reads, br') \<and>
    map ch_payload reads = map (\<lambda>i. slice (i * DIRECT_CHUNK_RECORD_SIZE)
      (i * DIRECT_CHUNK_RECORD_SIZE + DIRECT_CHUNK_RECORD_SIZE) mmap) ids \<and>
    direct_read_chunks E ids drain br = (Inr batch, br'') \<and>
    cx_reads batch = map (\<lambda>r. r\<lparr>ch_drained_evictions := 0\<rparr>) reads"
proof -
  let ?k = DIRECT_CHUNK_RECORD_SIZE
  define V where "V = \<lparr>v_meta_ok = mok, v_meta_pages = mpages, v_payload_ok = pok, v_payload_pages = ppages\<rparr>"
  note tf = from_chunks_file_ok [OF t(1)]
  from tf(2,3) rd(1) t(2) obtain md where b: "metadata_from_info F t n = Inr md"
    "rd = \<lparr>ck_metadata = md, ck_next_block = 0, ck_mmap = mmap\<rparr>"
    by (auto simp: chunk_open_def open_file_def)
  note f = metadata_from_info_fields [OF b(1)]
  let ?tot = "dt_records t" and ?items = "chunk_items (dt_records t) mmap"
  have len: "length mmap = ?tot * ?k" using tf(6) t(2) by auto
  have ok: "chunk_source_ok ?tot n mmap rd"
    using f tf(4,5) len t(3) rd(2) by (simp add: chunk_source_ok_def b(2) mult.commute [of _ n])
  have build: "circuit_build_spec sb mps pps V chunk_source_ops (chunk_source_ok ?tot n mmap) (packed n ?k ?items)"
    using spec chunk_source.block_source_spec_axioms unfolding V_def by (simp add: circuit_build_spec_def)
  have "\<forall>d \<in> set (packed n ?k ?items). length d = block_size p"
    using packed_lengths [of ?items ?k _ n] flat_items_lengths [of 0 ?tot ?k mmap] len p(3) ok
    by (auto simp: chunk_source_ok_def chunk_items_def)
  moreover have "length (packed n ?k ?items) = logical_blocks p"
    using p(2) ok by (simp add: chunk_source_ok_def chunk_items_def)
  moreover have "bs_block_size chunk_source_ops rd = block_size p" using p(3) by (simp add: chunk_source_ops_def)
  ultimately obtain oram where o:
    "build_trusted_from_source sb next_u64 from_seed mps pps chunk_source_ops p m q rd s0 = Inr oram"
    "serves E V (packed n ?k ?items) (length ids) oram" "co_params oram = p"
    using circuit_build_spec.build_serves [OF build p(1) _ _ _ m(2,3) _ q(2,3) ok _ E p(4) ids(2), of from_seed s0]
      m(1) q(1) by (auto simp: V_def)
  let ?br = "\<lparr>dr_metadata = md, dr_oram = oram\<rparr>"
  have "metadata_validate md = Inr ()"
    using metadata_from_info_valid [OF b(1) tf(1)] tf(5) by (simp add: direct_sizes)
  then have new: "chunk_reader_new (ck_metadata rd) oram = Inr ?br"
    using f(3) tf(2) o(3) p(2,3) by (simp add: chunk_reader_new_def validate_oram_dimensions_def b(2))
  have served: "chunk_served E V ?tot n mmap (length ids + 0) ?br"
    using o(2) f tf(4,5) rd(2) len by (simp add: chunk_served_def)
  obtain drs br' where r: "length drs = length ids" "cmapM (\<lambda>i. direct_read_chunk E i drain) ids ?br =
      (Inr (map (\<lambda>(i, dr). chunk_answer ?tot n mmap i dr) (zip ids drs)), br')"
    using direct_read_each_ok [OF served ids(1), of drain] by blast
  obtain dr br'' where c: "direct_read_chunks E ids drain ?br =
      (Inr \<lparr>cx_reads = map (\<lambda>i. chunk_answer ?tot n mmap i 0) ids, cx_drained_evictions = dr\<rparr>, br'')"
    using direct_read_chunks_ok [OF served ids(1), of drain] by blast
  let ?reads = "map (\<lambda>(i, dr). chunk_answer ?tot n mmap i dr) (zip ids drs)"
  have "map ch_payload ?reads = map (\<lambda>i. slice (i * ?k) (i * ?k + ?k) mmap) ids"
    using r(1) ids(1) by (auto simp: list_eq_iff_nth_eq chunk_answer_def chunk_item)
  moreover have "map (\<lambda>i. chunk_answer ?tot n mmap i 0) ids = map (\<lambda>r. r\<lparr>ch_drained_evictions := 0\<rparr>) ?reads"
    using r(1) by (auto simp: list_eq_iff_nth_eq chunk_answer_def)
  ultimately show ?thesis using o(1) new r(2) c by auto
qed

text \<open>A chunk file of three records, two per block.\<close>

definition three_chunks :: bytes where
  "three_chunks = replicate 40 1 @ replicate 40 2 @ replicate 40 3"

definition chunk_floats :: "unit float_lib" where
  "chunk_floats = \<lparr>fl_in_unit = (\<lambda>_. True), fl_bins = (\<lambda>r s _. r div s), fl_ppb = (\<lambda>_. 1000000000), fl_one = ()\<rparr>"

definition chunk_table :: "unit direct_table" where
  "chunk_table = \<lparr>dt_level = DirectChunk, dt_path = ''c'', dt_file_bytes = 120, dt_records = 3, dt_slots_per_bin = 1,
      dt_hash_fns = 0, dt_load_factor = (), dt_seed = 0, dt_total_items = 3, dt_item_size = 40\<rparr>"

definition chunk_metadata :: direct_metadata where
  "chunk_metadata = \<lparr>dm_version = 1, dm_level = DirectChunk, dm_source_path = ''c'', dm_source_file_bytes = 120,
      dm_source_records = 3, dm_total_items = 3, dm_item_size = 40, dm_items_per_block = 2, dm_slots_per_bin = 1,
      dm_hash_fns = 0, dm_load_factor_ppb = 1000000000, dm_seed = 0, dm_logical_blocks = 2, dm_block_payload_bytes = 80\<rparr>"

definition chunk_source_reader :: chunk_reader where
  "chunk_source_reader = \<lparr>ck_metadata = chunk_metadata, ck_next_block = 0, ck_mmap = three_chunks\<rparr>"

definition chunk_params :: oram_params where
  "chunk_params = \<lparr>logical_blocks = 2, block_size = 80, bucket_size = 1, leaves = 2, stash_capacity = 3\<rparr>"

lemma chunk_opens:
  "from_chunks_file chunk_floats [''c'' \<mapsto> three_chunks] ''c'' = Inr chunk_table"
  "chunk_open chunk_floats [''c'' \<mapsto> three_chunks] chunk_table 2 = Inr chunk_source_reader"
proof -
  have "length three_chunks = 120" by (simp add: three_chunks_def)
  then show "from_chunks_file chunk_floats [''c'' \<mapsto> three_chunks] ''c'' = Inr chunk_table"
    by (simp add: from_chunks_file_def open_file_def chunk_floats_def direct_sizes chunk_table_def Let_def)
  show "chunk_open chunk_floats [''c'' \<mapsto> three_chunks] chunk_table 2 = Inr chunk_source_reader"
    by (simp add: chunk_open_def open_file_def metadata_from_info_def Let_def div_ceil_def
        DIRECT_METADATA_VERSION_def chunk_floats_def chunk_source_reader_def chunk_metadata_def chunk_table_def)
qed

lemma chunk_params_ok: "params_ok chunk_params"
  by (simp add: params_ok_def chunk_params_def height_def leaf_bits_def is_power_of_two.simps trailing_zeros.simps)

theorem direct_chunks_served_witness:
  "\<exists>oram br reads br' batch br''.
    build_trusted_from_source bit_choice counter_next (\<lambda>_. 0) mem_store_ops mem_store_ops chunk_source_ops chunk_params
      \<lparr>mem_page_size = 13, mem_pages = replicate 39 0\<rparr> \<lparr>mem_page_size = 80, mem_pages = replicate 240 0\<rparr>
      chunk_source_reader [] = Inr oram \<and>
    chunk_reader_new chunk_metadata oram = Inr br \<and>
    cmapM (\<lambda>i. direct_read_chunk mem_env i 2) [2, 0] br = (Inr reads, br') \<and>
    map ch_payload reads = map (\<lambda>i. slice (i * 40) (i * 40 + 40) three_chunks) [2, 0] \<and>
    direct_read_chunks mem_env [2, 0] 2 br = (Inr batch, br'') \<and>
    cx_reads batch = map (\<lambda>r. r\<lparr>ch_drained_evictions := 0\<rparr>) reads"
proof -
  have bins: "bucket_count chunk_params = 3" by (simp add: bucket_count_def chunk_params_def)
  have fields: "dt_records chunk_table = 3" "ck_metadata chunk_source_reader = chunk_metadata" "length three_chunks = 120"
    by (simp_all add: chunk_table_def chunk_source_reader_def three_chunks_def)
  from direct_chunks_served [OF chunk_opens(1) _ _ chunk_opens(2) _ bit_choice.subtle_spec_axioms
      mem.page_store_spec_axioms mem.page_store_spec_axioms chunk_params_ok, of three_chunks
      "\<lparr>mem_page_size = 13, mem_pages = replicate 39 0\<rparr>" "\<lparr>mem_page_size = 80, mem_pages = replicate 240 0\<rparr>"
      mem_env counter_next "[2, 0]" "\<lambda>_. 0" "[]" 2] bins fields
  show ?thesis
    by (simp add: DIRECT_CHUNK_RECORD_SIZE_def chunk_params_def chunk_metadata_def mem_store_ops_def mem_ok_def
        mem_page_count_def circuit_meta_page_bytes_def circuit_payload_page_bytes_def mem_env_def)
qed

end
