(* ===== verification/State_Files.thy ===== *)
theory State_Files
  imports Oram_State Aead_Store
begin

text \<open>
  Persistence of the trusted state (src/src/state.rs): the atomic save by temporary file and
  rename, plain and sealed with an AEAD, the matching loads with their fallback to the older
  encodings, for the controller state and for the store-authentication sidecar; and the functions
  of src/src/bin/oramctl.rs that choose between plain and sealed. The file system is a map from
  paths to contents with a record of every state it has been in, so that a property can speak of
  a process killed between two system calls. The encoder (crate \<open>bincode\<close>) is a parameter.
\<close>

section \<open>The host\<close>

text \<open>A path is the list of its components; names are UTF-8.\<close>

type_synonym path = "string list"

text \<open>
  \<open>h_step n\<close> is the outcome of the n-th system call: an I/O error, or success, for a transfer of at
  most so many bytes. \<open>h_seen\<close> lists the contents of the disk after each call that changed it.
\<close>

record 'r host =
  h_files :: "path \<rightharpoonup> bytes"
  h_seen :: "(path \<rightharpoonup> bytes) list"
  h_calls :: nat
  h_step :: "nat \<Rightarrow> nat option"
  h_os_rng :: 'r

definition sys_call :: "('r host, nat) comp" where
  "sys_call h =
     ((case h_step h (h_calls h) of None \<Rightarrow> Inl (Io ''system call failed'') | Some k \<Rightarrow> Inr k),
      h\<lparr>h_calls := h_calls h + 1\<rparr>)"

definition put_files :: "((path \<rightharpoonup> bytes) \<Rightarrow> path \<rightharpoonup> bytes) \<Rightarrow> 'r host \<Rightarrow> 'r host" where
  "put_files f h = h\<lparr>h_files := f (h_files h), h_seen := h_seen h @ [f (h_files h)]\<rparr>"

text \<open>\<open>File::create\<close>, one \<open>write\<close> at the end of the file, \<open>fs::rename\<close> and \<open>fs::read\<close>.\<close>

definition file_create :: "path \<Rightarrow> ('r host, unit) comp" where
  "file_create p = bnd sys_call (\<lambda>_. modify (put_files (\<lambda>files. files(p \<mapsto> []))))"

definition append_some :: "path \<Rightarrow> bytes \<Rightarrow> ('r host, nat) comp" where
  "append_some p input =
     bnd sys_call (\<lambda>k.
     let moved = take k input in
     bnd (modify (put_files (\<lambda>files. files(p := map_option (\<lambda>old. old @ moved) (files p))))) (\<lambda>_.
     ret (length moved)))"

definition fs_rename :: "path \<Rightarrow> path \<Rightarrow> ('r host, unit) comp" where
  "fs_rename src dst =
     bnd sys_call (\<lambda>_.
     bnd (gets (\<lambda>h. h_files h src)) (\<lambda>contents.
     case contents of
       None \<Rightarrow> fail (Io ''no such file'')
     | Some _ \<Rightarrow> modify (put_files (\<lambda>files. (files(src := None))(dst := contents)))))"

definition fs_read :: "path \<Rightarrow> ('r host, bytes) comp" where
  "fs_read p =
     bnd sys_call (\<lambda>_.
     bnd (gets (\<lambda>h. h_files h p)) (\<lambda>contents.
     lift (ok_or contents (Io ''no such file''))))"

text \<open>
  \<open>Write::write_all\<close> to the file behind a \<open>BufWriter\<close>: the operating system takes the bytes in pieces
  of its choice. What the destructor of the writer still appends after an error only lengthens the
  temporary file, which nothing reads, and is left out.
\<close>

function write_file :: "path \<Rightarrow> bytes \<Rightarrow> 'r host \<Rightarrow> unit result \<times> 'r host" where
  "write_file p input h =
     (if input = [] then (Inr (), h)
      else case append_some p input h of
          (Inl e, h) \<Rightarrow> (Inl e, h)
        | (Inr written, h) \<Rightarrow>
            if written = 0 then (Inl (Io ''failed to write the buffered data''), h)
            else write_file p (drop written input) h)"
  by pat_completeness auto
termination
  by (relation "measure (\<lambda>(p, input, h). length input)") auto

declare write_file.simps [simp del]

definition map_err :: "(error \<Rightarrow> error) \<Rightarrow> ('s, 'a) comp \<Rightarrow> ('s, 'a) comp" where
  "map_err f m s = (case m s of (Inl e, t) \<Rightarrow> (Inl (f e), t) | (Inr a, t) \<Rightarrow> (Inr a, t))"

section \<open>Paths\<close>

text \<open>\<open>Path::file_name\<close>, \<open>file_stem\<close>, \<open>extension\<close> and \<open>with_extension\<close> of the standard library.\<close>

definition file_name :: "path \<Rightarrow> string option" where
  "file_name p = (if p = [] \<or> last p \<in> {''/'', ''.'', ''..''} then None else Some (last p))"

definition split_at_last_dot :: "string \<Rightarrow> (string \<times> string) option" where
  "split_at_last_dot name =
     (let after = takeWhile (\<lambda>c. c \<noteq> CHR ''.'') (rev name) in
      if length after \<ge> length name - 1 then None
      else Some (take (length name - length after - 1) name, rev after))"

definition file_stem :: "path \<Rightarrow> string option" where
  "file_stem p = map_option (\<lambda>name. case split_at_last_dot name of None \<Rightarrow> name | Some (stem, _) \<Rightarrow> stem) (file_name p)"

definition extension :: "path \<Rightarrow> string option" where
  "extension p = Option.bind (file_name p) (\<lambda>name. map_option snd (split_at_last_dot name))"

definition with_extension :: "path \<Rightarrow> string \<Rightarrow> path" where
  "with_extension p ext =
     (case file_stem p of
        None \<Rightarrow> p
      | Some stem \<Rightarrow> butlast p @ [if ext = [] then stem else stem @ ''.'' @ ext])"

definition tmp_path :: "path \<Rightarrow> path" where
  "tmp_path p =
     with_extension p ((case extension p of None \<Rightarrow> [] | Some ext \<Rightarrow> ext @ ''.'') @ ''tmp'')"

section \<open>Encodings\<close>

text \<open>
  The \<open>bincode\<close> functions at one type of state and its older type. \<open>bc_early s\<close> is the number of
  bytes that the \<open>BufWriter\<close> has passed on when \<open>serialize_into\<close> returns; an I/O error up to there
  is reported by \<open>bincode\<close>, one in the final flush is not.
\<close>

record ('a, 'l) bincode =
  bc_serialize :: "'a \<Rightarrow> bytes option"
  bc_early :: "'a \<Rightarrow> nat"
  bc_deserialize :: "bytes \<Rightarrow> 'a option"
  bc_deserialize_legacy :: "bytes \<Rightarrow> 'l option"

record 'r legacy_circuit_oram_state =
  ls_magic :: bytes
  ls_params :: oram_params
  ls_pos_map :: "u32 list"
  ls_stash :: "oram_block list"
  ls_rng :: 'r
  ls_schedule :: schedule

record legacy_store_auth_state =
  la_magic :: bytes
  la_meta :: tiered_merkle_state
  la_payload :: tiered_merkle_state

definition circuit_state_from_bytes ::
  "('r circuit_oram_state, 'r legacy_circuit_oram_state) bincode \<Rightarrow> bytes \<Rightarrow> 'r circuit_oram_state result" where
  "circuit_state_from_bytes B bytes =
     (case bc_deserialize B bytes of
        Some state \<Rightarrow> rbind (circuit_state_validate_magic state) (\<lambda>_. Inr state)
      | None \<Rightarrow>
          rbind (ok_or (bc_deserialize_legacy B bytes) Bincode) (\<lambda>legacy.
          if ls_magic legacy \<noteq> CIRCUIT_STATE_MAGIC then
            Inl (InvalidInput ''invalid Circuit ORAM state magic'')
          else Inr \<lparr>cs_magic = ls_magic legacy, cs_params = ls_params legacy,
                    cs_pos_map = ls_pos_map legacy, cs_stash = ls_stash legacy,
                    cs_rng = ls_rng legacy, cs_schedule = ls_schedule legacy, cs_auth = None\<rparr>))"

definition store_auth_from_bytes ::
  "(store_auth_state, legacy_store_auth_state) bincode \<Rightarrow> bytes \<Rightarrow> store_auth_state result" where
  "store_auth_from_bytes B bytes =
     (case bc_deserialize B bytes of
        Some state \<Rightarrow> rbind (store_auth_validate_magic state) (\<lambda>_. Inr state)
      | None \<Rightarrow>
          rbind (ok_or (bc_deserialize_legacy B bytes) Bincode) (\<lambda>legacy.
          if la_magic legacy \<noteq> CIRCUIT_STORE_AUTH_MAGIC then
            Inl (InvalidInput ''invalid Circuit ORAM store-auth magic'')
          else Inr (store_auth_new (la_meta legacy) (la_payload legacy))))"

section \<open>Saving and loading\<close>

definition CIRCUIT_SEALED_STATE_MAGIC :: bytes where
  "CIRCUIT_SEALED_STATE_MAGIC = byte_string ''BPCIRCS1''"

definition CIRCUIT_SEALED_STORE_AUTH_MAGIC :: bytes where
  "CIRCUIT_SEALED_STORE_AUTH_MAGIC = byte_string ''BPCSTAS1''"

definition STATE_NONCE_LEN :: nat where
  "STATE_NONCE_LEN = 12"

text \<open>The two types share the text of their four functions; here they share the definitions.\<close>

definition save_atomic :: "('a, 'l) bincode \<Rightarrow> 'a \<Rightarrow> path \<Rightarrow> ('r host, unit) comp" where
  "save_atomic B state p =
     (let tmp = tmp_path p in
      bnd (file_create tmp) (\<lambda>_.
      bnd (lift (ok_or (bc_serialize B state) Bincode)) (\<lambda>bytes.
      bnd (map_err (\<lambda>_. Bincode) (write_file tmp (take (bc_early B state) bytes))) (\<lambda>_.
      bnd (write_file tmp (drop (bc_early B state) bytes)) (\<lambda>_.
      fs_rename tmp p)))))"

definition save_encrypted_atomic ::
  "'r aead_lib \<Rightarrow> ('a, 'l) bincode \<Rightarrow> bytes \<Rightarrow> 'a \<Rightarrow> path \<Rightarrow> bytes \<Rightarrow> ('r host, unit) comp" where
  "save_encrypted_atomic A B magic state p key =
     bnd (lift (ok_or (bc_serialize B state) Bincode)) (\<lambda>plaintext.
     bnd (gets (\<lambda>h. al_fill_nonce A (h_os_rng h))) (\<lambda>(nonce, os_rng).
     bnd (modify (\<lambda>h. h\<lparr>h_os_rng := os_rng\<rparr>)) (\<lambda>_.
     bnd (lift (ok_or (al_encrypt A key nonce magic plaintext) Aead)) (\<lambda>ciphertext.
     let envelope = magic @ nonce @ ciphertext; tmp = tmp_path p in
     bnd (file_create tmp) (\<lambda>_.
     bnd (write_file tmp envelope) (\<lambda>_.
     fs_rename tmp p))))))"

definition load :: "(bytes \<Rightarrow> 'a result) \<Rightarrow> path \<Rightarrow> ('r host, 'a) comp" where
  "load from_bytes p = bnd (fs_read p) (\<lambda>bytes. lift (from_bytes bytes))"

definition open_envelope ::
  "'r aead_lib \<Rightarrow> bytes \<Rightarrow> string \<Rightarrow> string \<Rightarrow> bytes \<Rightarrow> bytes \<Rightarrow> bytes result" where
  "open_envelope A magic too_short bad_magic key envelope =
     (if length envelope < length magic + STATE_NONCE_LEN + 16 then Inl (InvalidInput too_short)
      else if take (length magic) envelope \<noteq> magic then Inl (InvalidInput bad_magic)
      else
        let nonce_start = length magic; ciphertext_start = nonce_start + STATE_NONCE_LEN;
            nonce = slice nonce_start ciphertext_start envelope in
        ok_or (al_decrypt A key nonce magic (drop ciphertext_start envelope)) Aead)"

definition load_encrypted ::
  "(bytes \<Rightarrow> bytes \<Rightarrow> bytes result) \<Rightarrow> (bytes \<Rightarrow> 'a result) \<Rightarrow> path \<Rightarrow> bytes \<Rightarrow> ('r host, 'a) comp" where
  "load_encrypted opening from_bytes p key =
     bnd (fs_read p) (\<lambda>envelope.
     lift (rbind (opening key envelope) from_bytes))"

definition circuit_state_save_encrypted_atomic ::
  "'h aead_lib \<Rightarrow> ('r circuit_oram_state, 'r legacy_circuit_oram_state) bincode \<Rightarrow>
    'r circuit_oram_state \<Rightarrow> path \<Rightarrow> bytes \<Rightarrow> ('h host, unit) comp" where
  "circuit_state_save_encrypted_atomic A B = save_encrypted_atomic A B CIRCUIT_SEALED_STATE_MAGIC"

definition circuit_state_load ::
  "('r circuit_oram_state, 'r legacy_circuit_oram_state) bincode \<Rightarrow> path \<Rightarrow> ('h host, 'r circuit_oram_state) comp" where
  "circuit_state_load B = load (circuit_state_from_bytes B)"

definition circuit_state_load_encrypted ::
  "'h aead_lib \<Rightarrow> ('r circuit_oram_state, 'r legacy_circuit_oram_state) bincode \<Rightarrow>
    path \<Rightarrow> bytes \<Rightarrow> ('h host, 'r circuit_oram_state) comp" where
  "circuit_state_load_encrypted A B =
     load_encrypted
       (open_envelope A CIRCUIT_SEALED_STATE_MAGIC ''encrypted Circuit ORAM state file is too short''
          ''invalid encrypted Circuit ORAM state magic'')
       (circuit_state_from_bytes B)"

definition store_auth_save_encrypted_atomic ::
  "'h aead_lib \<Rightarrow> (store_auth_state, legacy_store_auth_state) bincode \<Rightarrow>
    store_auth_state \<Rightarrow> path \<Rightarrow> bytes \<Rightarrow> ('h host, unit) comp" where
  "store_auth_save_encrypted_atomic A B = save_encrypted_atomic A B CIRCUIT_SEALED_STORE_AUTH_MAGIC"

definition store_auth_load ::
  "(store_auth_state, legacy_store_auth_state) bincode \<Rightarrow> path \<Rightarrow> ('h host, store_auth_state) comp" where
  "store_auth_load B = load (store_auth_from_bytes B)"

definition store_auth_load_encrypted ::
  "'h aead_lib \<Rightarrow> (store_auth_state, legacy_store_auth_state) bincode \<Rightarrow>
    path \<Rightarrow> bytes \<Rightarrow> ('h host, store_auth_state) comp" where
  "store_auth_load_encrypted A B =
     load_encrypted
       (open_envelope A CIRCUIT_SEALED_STORE_AUTH_MAGIC ''encrypted Circuit ORAM store-auth sidecar is too short''
          ''invalid encrypted Circuit ORAM store-auth magic'')
       (store_auth_from_bytes B)"

section \<open>The choice of the command line\<close>

text \<open>The key is given as hexadecimal text; \<open>hex\<close> is \<open>hex::decode\<close>.\<close>

definition parse_32_hex :: "(string \<Rightarrow> bytes option) \<Rightarrow> string \<Rightarrow> bytes result" where
  "parse_32_hex hex input =
     rbind (ok_or (hex input) Hex) (\<lambda>bytes.
     if length bytes \<noteq> 32 then Inl (InvalidInput ''expected 32-byte hex string, got {} bytes'')
     else Inr bytes)"

definition load_circuit_state ::
  "(string \<Rightarrow> bytes option) \<Rightarrow> 'h aead_lib \<Rightarrow>
    ('r circuit_oram_state, 'r legacy_circuit_oram_state) bincode \<Rightarrow> path \<Rightarrow> string option \<Rightarrow>
    ('h host, 'r circuit_oram_state) comp" where
  "load_circuit_state hex A B p state_key_hex =
     (case state_key_hex of
        Some key_hex \<Rightarrow> bnd (lift (parse_32_hex hex key_hex)) (circuit_state_load_encrypted A B p)
      | None \<Rightarrow> circuit_state_load B p)"

definition load_circuit_store_auth ::
  "(string \<Rightarrow> bytes option) \<Rightarrow> 'h aead_lib \<Rightarrow>
    (store_auth_state, legacy_store_auth_state) bincode \<Rightarrow> path \<Rightarrow> string option \<Rightarrow>
    ('h host, store_auth_state) comp" where
  "load_circuit_store_auth hex A B p state_key_hex =
     (case state_key_hex of
        Some key_hex \<Rightarrow> bnd (lift (parse_32_hex hex key_hex)) (store_auth_load_encrypted A B p)
      | None \<Rightarrow> store_auth_load B p)"

definition save_circuit_state ::
  "(string \<Rightarrow> bytes option) \<Rightarrow> 'h aead_lib \<Rightarrow>
    ('r circuit_oram_state, 'r legacy_circuit_oram_state) bincode \<Rightarrow> 'r circuit_oram_state \<Rightarrow>
    path \<Rightarrow> string option \<Rightarrow> ('h host, unit) comp" where
  "save_circuit_state hex A B state p state_key_hex =
     (case state_key_hex of
        Some key_hex \<Rightarrow>
          bnd (lift (parse_32_hex hex key_hex)) (circuit_state_save_encrypted_atomic A B state p)
      | None \<Rightarrow> save_atomic B state p)"

definition save_circuit_store_auth ::
  "(string \<Rightarrow> bytes option) \<Rightarrow> 'h aead_lib \<Rightarrow>
    (store_auth_state, legacy_store_auth_state) bincode \<Rightarrow> store_auth_state \<Rightarrow>
    path \<Rightarrow> string option \<Rightarrow> ('h host, unit) comp" where
  "save_circuit_store_auth hex A B state p state_key_hex =
     (case state_key_hex of
        Some key_hex \<Rightarrow>
          bnd (lift (parse_32_hex hex key_hex)) (store_auth_save_encrypted_atomic A B state p)
      | None \<Rightarrow> save_atomic B state p)"

end
