(* ===== verification/State_Persistence.thy ===== *)
theory State_Persistence
  imports State_Files
begin

text \<open>
  What the atomic save promises: until the rename only the temporary file changes, so a process
  that is killed between any two system calls leaves either the old file or the complete new one,
  and the new one loads as the state that was saved.
\<close>

section \<open>Temporary files\<close>

lemma split_at_last_dot_Some:
  "split_at_last_dot name = Some (stem, ext) \<Longrightarrow> name = stem @ ''.'' @ ext"
proof -
  assume split: "split_at_last_dot name = Some (stem, ext)"
  define after where "after = takeWhile (\<lambda>c. c \<noteq> CHR ''.'') (rev name)"
  have less: "length after < length name - 1" and parts: "ext = rev after"
      "stem = take (length name - length after - 1) name"
    using split by (auto simp: split_at_last_dot_def after_def [symmetric] Let_def split: if_splits)
  then have "length after < length (rev name)" by simp
  then have dot: "rev name ! length after = CHR ''.''"
    using nth_length_takeWhile [of "\<lambda>c. c \<noteq> CHR ''.''" "rev name"] by (simp add: after_def)
  have "take (length after) (rev name) = after"
    by (simp add: after_def takeWhile_eq_take [symmetric])
  then have "rev name = after @ CHR ''.'' # drop (Suc (length after)) (rev name)"
    using id_take_nth_drop [of "length after" "rev name"] less dot by simp
  then have "name = rev (drop (Suc (length after)) (rev name)) @ ''.'' @ rev after"
    by (metis append.assoc append_Cons append_Nil rev.simps(2) rev_append rev_rev_ident)
  then show ?thesis
    by (simp add: parts rev_drop)
qed

lemma tmp_path_eq: "file_name p = Some name \<Longrightarrow> tmp_path p = butlast p @ [name @ ''.tmp'']"
  by (auto simp: tmp_path_def with_extension_def extension_def file_stem_def
      dest: split_at_last_dot_Some split: option.split)

lemma tmp_path_differs: "file_name p = Some name \<Longrightarrow> tmp_path p \<noteq> p"
  by (auto simp: tmp_path_eq file_name_def split: if_splits)
    (metis append_butlast_last_id last_snoc list.distinct(1) append_self_conv)

section \<open>System calls\<close>

definition agree_off :: "path \<Rightarrow> (path \<rightharpoonup> bytes) \<Rightarrow> (path \<rightharpoonup> bytes) \<Rightarrow> bool" where
  "agree_off t f g \<longleftrightarrow> (\<forall>q. q \<noteq> t \<longrightarrow> f q = g q)"

definition only_tmp :: "path \<Rightarrow> 'r host \<Rightarrow> 'r host \<Rightarrow> bool" where
  "only_tmp t h h' \<longleftrightarrow> agree_off t (h_files h') (h_files h) \<and>
     (\<exists>hist. h_seen h' = h_seen h @ hist \<and> (\<forall>f \<in> set hist. agree_off t f (h_files h)))"

lemma only_tmp_refl [simp]: "h_files h' = h_files h \<Longrightarrow> h_seen h' = h_seen h \<Longrightarrow> only_tmp t h h'"
  by (simp add: only_tmp_def agree_off_def)

lemma only_tmp_trans [trans]: "only_tmp t h h' \<Longrightarrow> only_tmp t h' h'' \<Longrightarrow> only_tmp t h h''"
  unfolding only_tmp_def agree_off_def by (fastforce simp: ball_Un)

lemma only_tmp_put:
  "h_files h' = h_files h \<Longrightarrow> h_seen h' = h_seen h \<Longrightarrow> agree_off t (f (h_files h)) (h_files h) \<Longrightarrow>
    only_tmp t h (put_files f h')"
  by (simp add: only_tmp_def put_files_def)

lemma sys_call_cases:
  obtains e where "sys_call h = (Inl e, h\<lparr>h_calls := h_calls h + 1\<rparr>)"
  | k where "sys_call h = (Inr k, h\<lparr>h_calls := h_calls h + 1\<rparr>)"
  by (cases "h_step h (h_calls h)") (auto simp: sys_call_def)

lemma file_create_frame:
  assumes "file_create t h = (r, h')"
  shows "only_tmp t h h' \<and> (r = Inr () \<longrightarrow> h_files h' t = Some [])"
  using assms
  by (cases h rule: sys_call_cases)
    (auto simp: file_create_def bnd_def modify_def only_tmp_put agree_off_def,
     simp_all add: put_files_def)

lemma append_some_frame:
  assumes "append_some t input h = (r, h')"
  shows "only_tmp t h h' \<and> (\<forall>n old. r = Inr n \<longrightarrow> h_files h t = Some old \<longrightarrow>
    n \<le> length input \<and> h_files h' t = Some (old @ take n input))"
  using assms
  by (cases h rule: sys_call_cases)
    (auto simp: append_some_def bnd_def modify_def ret_def Let_def only_tmp_put agree_off_def,
     simp_all add: put_files_def min_def)

lemma write_file_frame:
  "write_file t input h = (r, h') \<Longrightarrow>
    only_tmp t h h' \<and> (\<forall>old. r = Inr () \<longrightarrow> h_files h t = Some old \<longrightarrow> h_files h' t = Some (old @ input))"
proof (induction t input h arbitrary: r h' rule: write_file.induct)
  case (1 t input h)
  show ?case
  proof (cases "input = []")
    case True
    then show ?thesis using 1(2) by (simp add: write_file.simps)
  next
    case False
    obtain a g where step: "append_some t input h = (a, g)" by fastforce
    note frame = append_some_frame [OF step]
    show ?thesis
    proof (cases a)
      case (Inl e)
      then show ?thesis using 1(2) False step frame by (auto simp: write_file.simps [of t input h])
    next
      case (Inr n)
      show ?thesis
      proof (cases "n = 0")
        case True
        then show ?thesis
          using 1(2) False step frame Inr by (auto simp: write_file.simps [of t input h])
      next
        case nz: False
        then have "write_file t (drop n input) g = (r, h')"
          using 1(2) False step Inr by (simp add: write_file.simps [of t input h])
        then have "only_tmp t g h' \<and> (\<forall>old. r = Inr () \<longrightarrow> h_files g t = Some old \<longrightarrow>
            h_files h' t = Some (old @ drop n input))"
          using "1.IH" [OF False step [symmetric, unfolded Inr] refl nz] by blast
        then show ?thesis
          using frame Inr only_tmp_trans by fastforce
      qed
    qed
  qed
qed

lemma fs_rename_cases:
  assumes "fs_rename t p h = (r, h')"
  shows "(\<exists>e. r = Inl e \<and> h_files h' = h_files h \<and> h_seen h' = h_seen h) \<or>
    (\<exists>c. r = Inr () \<and> h_files h t = Some c \<and> h_files h' = (h_files h)(t := None, p \<mapsto> c) \<and>
      h_seen h' = h_seen h @ [h_files h'])"
  using assms
  by (cases h rule: sys_call_cases; cases "h_files h t")
    (auto simp: fs_rename_def bnd_def gets_def modify_def fail_def put_files_def)

lemma fs_read_run:
  "h_step g (h_calls g) \<noteq> None \<Longrightarrow> h_files g p = Some bytes \<Longrightarrow>
    fs_read p g = (Inr bytes, g\<lparr>h_calls := h_calls g + 1\<rparr>)"
  by (auto simp: fs_read_def sys_call_def bnd_def gets_def lift_def ok_or_def)

text \<open>A host whose system calls succeed and whose writes move something.\<close>

definition live :: "'r host \<Rightarrow> bool" where
  "live h \<longleftrightarrow> (\<forall>n. \<exists>k > 0. h_step h n = Some k)"

lemma live_sys_call: "live h \<Longrightarrow> \<exists>k > 0. sys_call h = (Inr k, h\<lparr>h_calls := h_calls h + 1\<rparr>)"
  unfolding live_def sys_call_def by (metis option.simps(5))

lemma live_steps: "h_step h' = h_step h \<Longrightarrow> live h' = live h"
  by (simp add: live_def)

lemma file_create_live: "live h \<Longrightarrow> \<exists>h'. file_create t h = (Inr (), h') \<and> live h'"
  using live_sys_call [of h]
  by (auto simp: file_create_def bnd_def modify_def live_def put_files_def)

lemma append_some_live:
  assumes "live h" and "input \<noteq> []"
  shows "\<exists>n h'. append_some t input h = (Inr n, h') \<and> live h' \<and> 0 < n"
proof -
  obtain k where "k > 0" "sys_call h = (Inr k, h\<lparr>h_calls := h_calls h + 1\<rparr>)"
    using live_sys_call [OF assms(1)] by blast
  then show ?thesis
    using assms by (auto simp: append_some_def bnd_def modify_def ret_def Let_def live_def put_files_def)
qed

lemma write_file_live: "live h \<Longrightarrow> \<exists>h'. write_file t input h = (Inr (), h') \<and> live h'"
proof (induction t input h rule: write_file.induct)
  case (1 t input h)
  show ?case
  proof (cases "input = []")
    case False
    then obtain n g where step: "append_some t input h = (Inr n, g)" "live g" "0 < n"
      using append_some_live [OF 1(2)] by blast
    then show ?thesis
      using "1.IH" [OF False step(1) [symmetric] refl] False
      by (simp add: write_file.simps [of t input h])
  qed (use 1(2) in \<open>simp add: write_file.simps\<close>)
qed

lemma fs_rename_live:
  "live h \<Longrightarrow> h_files h t = Some c \<Longrightarrow> \<exists>h'. fs_rename t p h = (Inr (), h')"
  using live_sys_call [of h] by (auto simp: fs_rename_def bnd_def gets_def modify_def)

section \<open>Atomic replacement\<close>

text \<open>
  The file \<open>p\<close> goes from its old contents to \<open>new\<close> in one step, nothing else than \<open>p\<close> and the
  temporary file ever changes, and \<open>p\<close> has the new contents exactly when the call succeeds.
\<close>

definition replaces :: "path \<Rightarrow> bytes \<Rightarrow> 'r host \<Rightarrow> unit result \<Rightarrow> 'r host \<Rightarrow> bool" where
  "replaces p new h r h' \<longleftrightarrow>
     (\<exists>hist. h_seen h' = h_seen h @ hist \<and>
       (\<forall>files \<in> insert (h_files h') (set hist).
          (\<forall>q. q \<noteq> p \<and> q \<noteq> tmp_path p \<longrightarrow> files q = h_files h q) \<and>
          (files p = h_files h p \<or> files p = Some new))) \<and>
     h_files h' p = (if r = Inr () then Some new else h_files h p)"

lemma replaces_rng: "replaces p new (h\<lparr>h_os_rng := x\<rparr>) r h' = replaces p new h r h'"
  by (simp add: replaces_def cong: if_cong)

lemma replaces_failed:
  "only_tmp (tmp_path p) h h' \<Longrightarrow> file_name p = Some name \<Longrightarrow> replaces p new h (Inl e) h'"
  using tmp_path_differs [of p name] unfolding replaces_def only_tmp_def agree_off_def
  by (metis Inl_Inr_False insert_iff)

lemma replaces_renamed:
  assumes frame: "only_tmp (tmp_path p) h g" and new: "h_files g (tmp_path p) = Some new"
    and name: "file_name p = Some name" and step: "fs_rename (tmp_path p) p g = (r, h')"
  shows "replaces p new h r h'"
  using fs_rename_cases [OF step]
proof (elim disjE exE conjE)
  fix e
  assume "r = Inl e" "h_files h' = h_files g" "h_seen h' = h_seen g"
  then show ?thesis
    using frame replaces_failed [OF _ name, of h h'] by (simp add: only_tmp_def)
next
  fix c
  assume renamed: "r = Inr ()" "h_files g (tmp_path p) = Some c"
    "h_files h' = (h_files g)(tmp_path p := None, p \<mapsto> c)" "h_seen h' = h_seen g @ [h_files h']"
  obtain hist where "h_seen g = h_seen h @ hist" "\<forall>f \<in> set hist. agree_off (tmp_path p) f (h_files h)"
      "agree_off (tmp_path p) (h_files g) (h_files h)"
    using frame by (auto simp: only_tmp_def)
  then show ?thesis
    using renamed new tmp_path_differs [OF name] unfolding replaces_def agree_off_def
    by (auto intro!: exI [of _ "hist @ [h_files h']"])
qed

lemma map_err_run: "map_err f m h = (r, h') \<Longrightarrow> \<exists>r'. m h = (r', h') \<and> (r = Inr a \<longrightarrow> r' = Inr a)"
  by (auto simp: map_err_def split: prod.splits sum.splits)

lemma bnd_cases:
  assumes "bnd m k h = (r, h')"
  obtains e where "m h = (Inl e, h')" "r = Inl e"
  | a g where "m h = (Inr a, g)" "k a g = (r, h')"
  using assms by (auto simp: bnd_def split: prod.splits sum.splits)

lemma create_write_rename:
  assumes name: "file_name p = Some name" and tmp: "t = tmp_path p" and new: "new = early @ late"
    and run: "bnd (file_create t) (\<lambda>_. bnd (map_err f (write_file t early)) (\<lambda>_.
      bnd (write_file t late) (\<lambda>_. fs_rename t p))) h = (r, h')"
  shows "replaces p new h r h'"
  using run
proof (cases rule: bnd_cases)
  case (1 e)
  then show ?thesis
    using file_create_frame [of t h] replaces_failed [OF _ name] tmp by blast
next
  case (2 a h1)
  note frame1 = file_create_frame [OF 2(1)]
  from 2(2) show ?thesis
  proof (cases rule: bnd_cases)
    case (1 e)
    then show ?thesis
      using map_err_run [OF 1(1)] write_file_frame only_tmp_trans frame1
        replaces_failed [OF _ name] tmp by metis
  next
    case (2 b h2)
    then have "write_file t early h1 = (Inr (), h2)"
      using map_err_run [OF 2(1), of "()"] by auto
    note frame2 = write_file_frame [OF this]
    from 2(2) show ?thesis
    proof (cases rule: bnd_cases)
      case (1 e)
      then show ?thesis
        using write_file_frame [OF 1(1)] only_tmp_trans frame1 frame2
          replaces_failed [OF _ name] tmp by metis
    next
      case (2 c h3)
      note frame3 = write_file_frame [OF 2(1)]
      have "only_tmp t h h3" using frame1 frame2 frame3 only_tmp_trans by metis
      moreover have "h_files h3 t = Some new"
        using \<open>file_create t h = _\<close> frame1 frame2 frame3 new by auto
      ultimately show ?thesis using replaces_renamed [OF _ _ name] 2(2) tmp by blast
    qed
  qed
qed

lemma create_write_rename_live:
  assumes "live h"
  shows "\<exists>h'. bnd (file_create t) (\<lambda>_. bnd (map_err f (write_file t early)) (\<lambda>_.
    bnd (write_file t late) (\<lambda>_. fs_rename t p))) h = (Inr (), h')"
proof -
  obtain h1 where h1: "file_create t h = (Inr (), h1)" "live h1"
    using file_create_live [OF assms] by blast
  obtain h2 where h2: "write_file t early h1 = (Inr (), h2)" "live h2"
    using write_file_live [OF h1(2)] by blast
  obtain h3 where h3: "write_file t late h2 = (Inr (), h3)" "live h3"
    using write_file_live [OF h2(2)] by blast
  have "h_files h3 t = Some (early @ late)"
    using file_create_frame [OF h1(1)] write_file_frame [OF h2(1)] write_file_frame [OF h3(1)] by simp
  then show ?thesis
    using fs_rename_live [OF h3(2)] h1(1) h2(1) h3(1) by (simp add: bnd_def map_err_def)
qed

lemma save_atomic_replaces:
  assumes "file_name p = Some name" and "bc_serialize B state = Some bytes"
    and "save_atomic B state p h = (r, h')"
  shows "replaces p bytes h r h'" and "live h \<Longrightarrow> r = Inr ()"
proof -
  have parts: "bytes = take (bc_early B state) bytes @ drop (bc_early B state) bytes" by simp
  have run: "bnd (file_create (tmp_path p)) (\<lambda>_.
      bnd (map_err (\<lambda>_. Bincode) (write_file (tmp_path p) (take (bc_early B state) bytes))) (\<lambda>_.
      bnd (write_file (tmp_path p) (drop (bc_early B state) bytes)) (\<lambda>_.
      fs_rename (tmp_path p) p))) h = (r, h')"
    using assms(3) by (simp add: save_atomic_def Let_def assms(2) bnd_def lift_def ok_or_def)
  show "replaces p bytes h r h'" by (rule create_write_rename [OF assms(1) refl parts run])
  show "live h \<Longrightarrow> r = Inr ()"
    using create_write_rename_live [of h "tmp_path p" "\<lambda>_. Bincode" "take (bc_early B state) bytes"
        "drop (bc_early B state) bytes" p] run by auto
qed

lemma map_err_id: "map_err (\<lambda>e. e) m = m"
  by (auto simp: map_err_def fun_eq_iff split: prod.split sum.split)

lemma write_file_Nil: "bnd (write_file t []) k = k ()"
  by (simp add: fun_eq_iff bnd_def write_file.simps)

lemma save_encrypted_replaces:
  assumes aead: "aead_spec A" and name: "file_name p = Some name"
    and bytes: "bc_serialize B state = Some bytes" "length bytes < aead_message_limit"
    and run: "save_encrypted_atomic A B magic state p key h = (r, h')"
  shows "\<exists>envelope. open_envelope A magic short bad key envelope = Inr bytes \<and>
    replaces p envelope h r h' \<and> (live h \<longrightarrow> r = Inr ())"
proof -
  obtain nonce r1 where fill: "al_fill_nonce A (h_os_rng h) = (nonce, r1)" by fastforce
  then have nonce: "length nonce = 12"
    using aead_spec.nonce_length [OF aead, of "h_os_rng h"] by simp
  obtain c where c: "al_encrypt A key nonce magic bytes = Some c" "length c = length bytes + 16"
      "al_decrypt A key nonce magic c = Some bytes"
    using aead_spec.encrypts [OF aead nonce bytes(2)] by metis
  let ?e = "magic @ nonce @ c" and ?h = "h\<lparr>h_os_rng := r1\<rparr>"
  have run: "bnd (file_create (tmp_path p)) (\<lambda>_. bnd (write_file (tmp_path p) ?e) (\<lambda>_.
      fs_rename (tmp_path p) p)) ?h = (r, h')"
    using run
    by (simp add: save_encrypted_atomic_def bytes(1) c(1) fill bnd_def lift_def gets_def
        modify_def ok_or_def Let_def)
  then have "replaces p ?e ?h r h'"
    using create_write_rename [OF name refl, of ?e "[]" ?e "\<lambda>e. e" ?h r h']
    by (simp add: map_err_id write_file_Nil)
  then have "replaces p ?e h r h'" by (simp only: replaces_rng)
  moreover have "r = Inr ()" if "live h"
    using create_write_rename_live [of ?h "tmp_path p" "\<lambda>e. e" "[]" ?e p] run that
    by (auto simp: map_err_id write_file_Nil live_def)
  moreover have "open_envelope A magic short bad key ?e = Inr bytes"
    using nonce c
    by (simp add: open_envelope_def STATE_NONCE_LEN_def Let_def slice_def ok_or_def)
  ultimately show ?thesis by blast
qed

section \<open>The controller state\<close>

lemma circuit_state_from_bytes_saved:
  "bc_deserialize B bytes = Some state \<Longrightarrow> cs_magic state = CIRCUIT_STATE_MAGIC \<Longrightarrow>
    circuit_state_from_bytes B bytes = Inr state"
  by (simp add: circuit_state_from_bytes_def circuit_state_validate_magic_def)

lemma store_auth_from_bytes_saved:
  "bc_deserialize B bytes = Some state \<Longrightarrow> sa_magic state = CIRCUIT_STORE_AUTH_MAGIC \<Longrightarrow>
    store_auth_from_bytes B bytes = Inr state"
  by (simp add: store_auth_from_bytes_def store_auth_validate_magic_def)

lemma load_run:
  "h_step g (h_calls g) \<noteq> None \<Longrightarrow> h_files g p = Some bytes \<Longrightarrow>
    fst (load from_bytes p g) = from_bytes bytes"
  by (simp add: load_def fs_read_run bnd_def lift_def)

lemma load_encrypted_run:
  "h_step g (h_calls g) \<noteq> None \<Longrightarrow> h_files g p = Some envelope \<Longrightarrow>
    fst (load_encrypted opening from_bytes p key g) = rbind (opening key envelope) from_bytes"
  by (simp add: load_encrypted_def fs_read_run bnd_def lift_def)

lemma save_circuit_state_replaces:
  assumes aead: "aead_spec A" and name: "file_name p = Some name"
    and bytes: "bc_serialize B state = Some bytes" "length bytes < aead_message_limit"
      "bc_deserialize B bytes = Some state" "cs_magic state = CIRCUIT_STATE_MAGIC"
    and key: "\<forall>k. key_hex = Some k \<longrightarrow> (\<exists>key. parse_32_hex hex k = Inr key)"
    and run: "save_circuit_state hex A B state p key_hex h = (r, h')"
  shows "\<exists>new. replaces p new h r h' \<and> (live h \<longrightarrow> r = Inr ()) \<and> (\<forall>g. h_files g p = Some new \<longrightarrow> h_step g (h_calls g) \<noteq> None \<longrightarrow>
    fst (load_circuit_state hex A B p key_hex g) = Inr state)"
proof (cases key_hex)
  case None
  then have "save_atomic B state p h = (r, h')" using run by (simp add: save_circuit_state_def)
  from save_atomic_replaces [OF name bytes(1) this] show ?thesis
    using None circuit_state_from_bytes_saved [OF bytes(3,4)]
    by (auto simp: load_circuit_state_def circuit_state_load_def load_run)
next
  case (Some k)
  then obtain key where key: "parse_32_hex hex k = Inr key" using key by blast
  then have "save_encrypted_atomic A B CIRCUIT_SEALED_STATE_MAGIC state p key h = (r, h')"
    using run Some
    by (simp add: save_circuit_state_def circuit_state_save_encrypted_atomic_def bnd_def lift_def)
  from save_encrypted_replaces [OF aead name bytes(1,2) this]
  obtain new where "open_envelope A CIRCUIT_SEALED_STATE_MAGIC
        ''encrypted Circuit ORAM state file is too short''
        ''invalid encrypted Circuit ORAM state magic'' key new = Inr bytes"
      "replaces p new h r h'" "live h \<longrightarrow> r = Inr ()"
    by blast
  then show ?thesis
    using Some key circuit_state_from_bytes_saved [OF bytes(3,4)]
    by (auto simp: load_circuit_state_def circuit_state_load_encrypted_def load_encrypted_run
        bnd_def lift_def)
qed

lemma save_circuit_store_auth_replaces:
  assumes aead: "aead_spec A" and name: "file_name p = Some name"
    and bytes: "bc_serialize B state = Some bytes" "length bytes < aead_message_limit"
      "bc_deserialize B bytes = Some state" "sa_magic state = CIRCUIT_STORE_AUTH_MAGIC"
    and key: "\<forall>k. key_hex = Some k \<longrightarrow> (\<exists>key. parse_32_hex hex k = Inr key)"
    and run: "save_circuit_store_auth hex A B state p key_hex h = (r, h')"
  shows "\<exists>new. replaces p new h r h' \<and> (live h \<longrightarrow> r = Inr ()) \<and>
    (\<forall>g. h_files g p = Some new \<longrightarrow> h_step g (h_calls g) \<noteq> None \<longrightarrow>
      fst (load_circuit_store_auth hex A B p key_hex g) = Inr state)"
proof (cases key_hex)
  case None
  then have "save_atomic B state p h = (r, h')" using run by (simp add: save_circuit_store_auth_def)
  from save_atomic_replaces [OF name bytes(1) this] show ?thesis
    using None store_auth_from_bytes_saved [OF bytes(3,4)]
    by (auto simp: load_circuit_store_auth_def store_auth_load_def load_run)
next
  case (Some k)
  then obtain key where key: "parse_32_hex hex k = Inr key" using key by blast
  then have "save_encrypted_atomic A B CIRCUIT_SEALED_STORE_AUTH_MAGIC state p key h = (r, h')"
    using run Some
    by (simp add: save_circuit_store_auth_def store_auth_save_encrypted_atomic_def bnd_def lift_def)
  from save_encrypted_replaces [OF aead name bytes(1,2) this]
  obtain new where "open_envelope A CIRCUIT_SEALED_STORE_AUTH_MAGIC
        ''encrypted Circuit ORAM store-auth sidecar is too short''
        ''invalid encrypted Circuit ORAM store-auth magic'' key new = Inr bytes"
      "replaces p new h r h'" "live h \<longrightarrow> r = Inr ()"
    by blast
  then show ?thesis
    using Some key store_auth_from_bytes_saved [OF bytes(3,4)]
    by (auto simp: load_circuit_store_auth_def store_auth_load_encrypted_def load_encrypted_run
        bnd_def lift_def)
qed

lemma legacy_state_loads:
  "bc_deserialize B bytes = None \<Longrightarrow> bc_deserialize_legacy B bytes = Some old \<Longrightarrow>
    ls_magic old = CIRCUIT_STATE_MAGIC \<Longrightarrow>
    circuit_state_from_bytes B bytes =
      Inr (circuit_state_new (ls_params old) (ls_pos_map old) (ls_stash old) (ls_rng old) (ls_schedule old))"
  by (simp add: circuit_state_from_bytes_def ok_or_def circuit_state_new_def)

text \<open>
  C38. Saving the controller state is safe against crashes, plain or sealed: at every point of the
  save, also when a system call fails or writes are cut short, the state file holds either what
  it held before or a complete new file that loads as the saved state; no file other than it and
  its temporary file changes; the call reports success exactly when the new file is in place; and
  it does succeed when the operating system does its part.
\<close>

theorem state_save_crash_safe:
  assumes "aead_spec A" and "file_name p = Some name"
    and "bc_serialize B state = Some bytes" and "length bytes < aead_message_limit"
    and "bc_deserialize B bytes = Some state" and "cs_magic state = CIRCUIT_STATE_MAGIC"
    and "\<forall>k. key_hex = Some k \<longrightarrow> (\<exists>key. parse_32_hex hex k = Inr key)"
    and "save_circuit_state hex A B state p key_hex h = (r, h')"
  shows "\<exists>new hist. h_seen h' = h_seen h @ hist \<and>
    (\<forall>files \<in> insert (h_files h') (set hist).
      (\<forall>q. q \<noteq> p \<and> q \<noteq> tmp_path p \<longrightarrow> files q = h_files h q) \<and>
      (files p = h_files h p \<or> files p = Some new)) \<and>
    h_files h' p = (if r = Inr () then Some new else h_files h p) \<and>
    (\<forall>g. h_files g p = Some new \<longrightarrow> h_step g (h_calls g) \<noteq> None \<longrightarrow>
      fst (load_circuit_state hex A B p key_hex g) = Inr state) \<and>
    ((\<forall>n. \<exists>k > 0. h_step h n = Some k) \<longrightarrow> r = Inr ())"
proof -
  obtain new where new: "replaces p new h r h'" "live h \<longrightarrow> r = Inr ()"
      "\<forall>g. h_files g p = Some new \<longrightarrow> h_step g (h_calls g) \<noteq> None \<longrightarrow>
        fst (load_circuit_state hex A B p key_hex g) = Inr state"
    using save_circuit_state_replaces [OF assms] by blast
  from new(1) obtain hist where "h_seen h' = h_seen h @ hist"
      "\<forall>files \<in> insert (h_files h') (set hist).
        (\<forall>q. q \<noteq> p \<and> q \<noteq> tmp_path p \<longrightarrow> files q = h_files h q) \<and>
        (files p = h_files h p \<or> files p = Some new)"
      "h_files h' p = (if r = Inr () then Some new else h_files h p)"
    unfolding replaces_def by blast
  then show ?thesis
    using new(2,3) unfolding live_def by (intro exI [of _ new] exI [of _ hist] conjI) assumption+
qed

definition one_state :: "unit circuit_oram_state" where
  "one_state =
     (let p = \<lparr>logical_blocks = 2, block_size = 1, bucket_size = 2, leaves = 2, stash_capacity = 1\<rparr>
      in circuit_state_new p [0, 1] [] () (schedule_new p))"

definition one_codec :: "(unit circuit_oram_state, unit legacy_circuit_oram_state) bincode" where
  "one_codec =
     \<lparr>bc_serialize = (\<lambda>_. Some [1, 2, 3]), bc_early = (\<lambda>_. 1),
      bc_deserialize = (\<lambda>bytes. if bytes = [1, 2, 3] then Some one_state else None),
      bc_deserialize_legacy = (\<lambda>_. None)\<rparr>"

definition one_host :: "nat host" where
  "one_host = \<lparr>h_files = [[''state.bin''] \<mapsto> [9]], h_seen = [], h_calls = 0, h_step = (\<lambda>_. Some 2), h_os_rng = 0\<rparr>"

theorem state_save_crash_safe_witness:
  "\<exists>h'. save_circuit_state (\<lambda>_. Some (replicate 32 7)) tag_cipher one_codec one_state [''state.bin'']
      (Some ''07'') one_host = (Inr (), h') \<and>
    (h_step h' (h_calls h') \<noteq> None \<longrightarrow>
      fst (load_circuit_state (\<lambda>_. Some (replicate 32 7)) tag_cipher one_codec [''state.bin'']
        (Some ''07'') h') = Inr one_state)"
proof -
  let ?hex = "\<lambda>_ :: string. Some (replicate 32 (7 :: u8))" and ?p = "[''state.bin'']"
  obtain r h' where run: "save_circuit_state ?hex tag_cipher one_codec one_state ?p (Some ''07'') one_host = (r, h')"
    by fastforce
  have name: "file_name ?p = Some ''state.bin''" by (simp add: file_name_def)
  have codec: "bc_serialize one_codec one_state = Some [1, 2, 3]"
      "bc_deserialize one_codec [1, 2, 3] = Some one_state"
      "cs_magic one_state = CIRCUIT_STATE_MAGIC" "length ([1, 2, 3] :: bytes) < aead_message_limit"
    by (simp_all add: one_codec_def one_state_def circuit_state_new_def Let_def aead_message_limit_def)
  have key: "\<forall>k. Some ''07'' = Some k \<longrightarrow> (\<exists>key. parse_32_hex ?hex k = Inr key)"
    by (simp add: parse_32_hex_def ok_or_def)
  have live: "\<forall>n. \<exists>k > 0. h_step one_host n = Some k" by (simp add: one_host_def)
  obtain new where new: "h_files h' ?p = (if r = Inr () then Some new else h_files one_host ?p)"
      "\<And>g. h_files g ?p = Some new \<Longrightarrow> h_step g (h_calls g) \<noteq> None \<Longrightarrow>
        fst (load_circuit_state ?hex tag_cipher one_codec ?p (Some ''07'') g) = Inr one_state"
      "r = Inr ()"
    using state_save_crash_safe [OF tag_cipher.aead_spec_axioms name codec(1,4,2,3) key run] live
    by (elim exE conjE) blast
  have "h_files h' ?p = Some new" using new(1,3) by (simp only: if_True simp_thms)
  then show ?thesis using run new(2) [of h'] new(3) by (intro exI [of _ h'] conjI impI) (simp_all only: simp_thms)
qed

end
