(* ===== verification/Stress_Sim.thy ===== *)
theory Stress_Sim
  imports Eviction_Schedule
begin

text \<open>
  The metadata-only tree of the two stress simulators (\<open>CircuitStressSim\<close> in src/src/stress.rs and
  \<open>RingStressSim\<close> in src/src/ring_stress.rs): slots that hold block ids, a position map and an
  unbounded stash. The Ring simulator has the same fields and two more, and the text of the common
  functions is the same in both files, so they are written here once, on any extension of the
  record. The generator (crate \<open>rand_chacha\<close>) is a parameter.
\<close>

section \<open>State\<close>

record 'r chacha =
  rg_from_seed :: "bytes \<Rightarrow> 'r"
  rg_next_u32 :: "'r \<Rightarrow> u32 \<times> 'r"
  rg_next_u64 :: "'r \<Rightarrow> u64 \<times> 'r"

definition EMPTY_BLOCK :: u32 where
  "EMPTY_BLOCK = - 1"

record sim_block =
  sb_id :: u32
  sb_leaf :: u32

record stress_sim =
  ss_params :: oram_params
  ss_slots :: "u32 list"
  ss_position_map :: "u32 list"
  ss_stash :: "sim_block list"
  ss_init_stash :: nat

text \<open>\<open>Vec::swap_remove\<close>: the last element takes the place of the one removed.\<close>

definition swap_remove :: "nat \<Rightarrow> 'a list \<Rightarrow> 'a list" where
  "swap_remove i xs = (if i = length xs - 1 then butlast xs else (butlast xs)[i := last xs])"

section \<open>Operations\<close>

definition sim_random_leaf :: "'r chacha \<Rightarrow> oram_params \<Rightarrow> 'r \<Rightarrow> u32 \<times> 'r" where
  "sim_random_leaf R p rng =
     (let mask = word_of_nat (leaves p) - 1; (w, rng) = rg_next_u32 R rng in (w AND mask, rng))"

definition bucket_base :: "oram_params \<Rightarrow> nat \<Rightarrow> nat" where
  "bucket_base p node_idx = usize_mul node_idx (bucket_size p)"

text \<open>The slot indices of a bucket.\<close>

definition bucket_slots :: "oram_params \<Rightarrow> nat \<Rightarrow> nat list" where
  "bucket_slots p node_idx = (let base = bucket_base p node_idx in [base..<base + bucket_size p])"

fun place_at_depths :: "sim_block \<Rightarrow> nat list \<Rightarrow> 'z stress_sim_scheme \<Rightarrow> bool \<times> 'z stress_sim_scheme" where
  "place_at_depths block [] sim = (False, sim)"
| "place_at_depths block (depth # depths) sim =
     (let node_idx = node_index (ss_params sim) depth (sb_leaf block) in
      case find (\<lambda>i. ss_slots sim ! i = EMPTY_BLOCK) (bucket_slots (ss_params sim) node_idx) of
        Some i \<Rightarrow> (True, sim\<lparr>ss_slots := (ss_slots sim)[i := sb_id block]\<rparr>)
      | None \<Rightarrow> place_at_depths block depths sim)"

definition place_deepest :: "sim_block \<Rightarrow> 'z stress_sim_scheme \<Rightarrow> bool \<times> 'z stress_sim_scheme" where
  "place_deepest block sim = place_at_depths block (rev [0..<height (ss_params sim)]) sim"

definition place_or_stash :: "sim_block \<Rightarrow> 'z stress_sim_scheme \<Rightarrow> 'z stress_sim_scheme" where
  "place_or_stash block sim =
     (let (placed, sim) = place_deepest block sim in
      if \<not> placed then sim\<lparr>ss_stash := ss_stash sim @ [block]\<rparr> else sim)"

fun remove_at_depths :: "u32 \<Rightarrow> u32 \<Rightarrow> nat list \<Rightarrow> 'z stress_sim_scheme \<Rightarrow> sim_block option \<times> 'z stress_sim_scheme" where
  "remove_at_depths logical_id leaf [] sim = (None, sim)"
| "remove_at_depths logical_id leaf (depth # depths) sim =
     (let node_idx = node_index (ss_params sim) depth leaf in
      case find (\<lambda>i. ss_slots sim ! i = logical_id) (bucket_slots (ss_params sim) node_idx) of
        Some i \<Rightarrow>
          (Some \<lparr>sb_id = logical_id, sb_leaf = leaf\<rparr>, sim\<lparr>ss_slots := (ss_slots sim)[i := EMPTY_BLOCK]\<rparr>)
      | None \<Rightarrow> remove_at_depths logical_id leaf depths sim)"

definition remove_from_path :: "u32 \<Rightarrow> u32 \<Rightarrow> 'z stress_sim_scheme \<Rightarrow> sim_block option \<times> 'z stress_sim_scheme" where
  "remove_from_path logical_id leaf sim =
     remove_at_depths logical_id leaf [0..<height (ss_params sim)] sim"

definition remove_from_stash :: "u32 \<Rightarrow> 'z stress_sim_scheme \<Rightarrow> sim_block option \<times> 'z stress_sim_scheme" where
  "remove_from_stash logical_id sim =
     (case find (\<lambda>j. sb_id (ss_stash sim ! j) = logical_id) [0..<length (ss_stash sim)] of
        None \<Rightarrow> (None, sim)
      | Some j \<Rightarrow> (Some (ss_stash sim ! j), sim\<lparr>ss_stash := swap_remove j (ss_stash sim)\<rparr>))"

text \<open>The simulator's \<open>access\<close>; indexing the position map panics out of range.\<close>

definition sim_access ::
  "'r chacha \<Rightarrow> u32 \<Rightarrow> 'z stress_sim_scheme \<Rightarrow> 'r \<Rightarrow> ('z stress_sim_scheme \<times> 'r) result" where
  "sim_access R logical_id sim rng =
     (if unat logical_id \<ge> length (ss_position_map sim) then Inl (Panic ''index out of bounds'')
      else
        let old_leaf = ss_position_map sim ! unat logical_id;
            (found, sim) = remove_from_path logical_id old_leaf sim;
            (found, sim) = (case found of Some block \<Rightarrow> (Some block, sim)
                                        | None \<Rightarrow> remove_from_stash logical_id sim) in
        rbind (ok_or found (BlockNotFound (ucast logical_id))) (\<lambda>block.
        let (leaf, rng) = sim_random_leaf R (ss_params sim) rng; block = block\<lparr>sb_leaf := leaf\<rparr> in
        Inr (sim\<lparr>ss_position_map := (ss_position_map sim)[unat logical_id := leaf],
                 ss_stash := ss_stash sim @ [block]\<rparr>, rng)))"

definition take_slot :: "nat \<Rightarrow> 'z stress_sim_scheme \<Rightarrow> 'z stress_sim_scheme" where
  "take_slot i sim =
     (if ss_slots sim ! i \<noteq> EMPTY_BLOCK then
        let id = ss_slots sim ! i in
        sim\<lparr>ss_slots := (ss_slots sim)[i := EMPTY_BLOCK],
            ss_stash := ss_stash sim @ [\<lparr>sb_id = id, sb_leaf = ss_position_map sim ! unat id\<rparr>]\<rparr>
      else sim)"

definition read_bucket_into_stash :: "nat \<Rightarrow> 'z stress_sim_scheme \<Rightarrow> 'z stress_sim_scheme" where
  "read_bucket_into_stash node_idx sim = fold take_slot (bucket_slots (ss_params sim) node_idx) sim"

definition read_path_into_stash :: "u32 \<Rightarrow> 'z stress_sim_scheme \<Rightarrow> 'z stress_sim_scheme" where
  "read_path_into_stash leaf sim =
     fold (\<lambda>depth sim. read_bucket_into_stash (node_index (ss_params sim) depth leaf) sim)
       [0..<height (ss_params sim)] sim"

definition fill_slot :: "nat \<Rightarrow> nat \<Rightarrow> nat \<Rightarrow> 'z stress_sim_scheme \<Rightarrow> 'z stress_sim_scheme" where
  "fill_slot depth node_idx i sim =
     (if ss_slots sim ! i \<noteq> EMPTY_BLOCK then sim
      else case find (\<lambda>j. node_contains_leaf (ss_params sim) depth node_idx (sb_leaf (ss_stash sim ! j)))
             [0..<length (ss_stash sim)] of
          None \<Rightarrow> sim
        | Some j \<Rightarrow>
            let block = ss_stash sim ! j in
            sim\<lparr>ss_slots := (ss_slots sim)[i := sb_id block], ss_stash := swap_remove j (ss_stash sim)\<rparr>)"

definition write_bucket_from_stash :: "nat \<Rightarrow> nat \<Rightarrow> 'z stress_sim_scheme \<Rightarrow> 'z stress_sim_scheme" where
  "write_bucket_from_stash depth node_idx sim =
     fold (fill_slot depth node_idx) (bucket_slots (ss_params sim) node_idx) sim"

definition write_path_from_stash :: "u32 \<Rightarrow> 'z stress_sim_scheme \<Rightarrow> 'z stress_sim_scheme" where
  "write_path_from_stash leaf sim =
     fold (\<lambda>depth sim. write_bucket_from_stash depth (node_index (ss_params sim) depth leaf) sim)
       (rev [0..<height (ss_params sim)]) sim"

text \<open>\<open>evict_path\<close> always returns \<open>Ok\<close>.\<close>

definition sim_evict_path :: "u32 \<Rightarrow> 'z stress_sim_scheme \<Rightarrow> 'z stress_sim_scheme" where
  "sim_evict_path leaf sim = write_path_from_stash leaf (read_path_into_stash leaf sim)"

definition stash_len :: "'z stress_sim_scheme \<Rightarrow> nat" where
  "stash_len sim = length (ss_stash sim)"

definition tree_slots :: "'z stress_sim_scheme \<Rightarrow> nat" where
  "tree_slots sim = length (ss_slots sim)"

text \<open>One turn of the constructor's loop: draw a leaf, remember it, place the block.\<close>

definition sim_insert :: "'r chacha \<Rightarrow> nat \<Rightarrow> 'z stress_sim_scheme \<times> 'r \<Rightarrow> 'z stress_sim_scheme \<times> 'r" where
  "sim_insert R logical_id = (\<lambda>(sim, rng).
     let (leaf, rng) = sim_random_leaf R (ss_params sim) rng;
         sim = sim\<lparr>ss_position_map := ss_position_map sim @ [leaf]\<rparr> in
     (place_or_stash \<lparr>sb_id = word_of_nat logical_id, sb_leaf = leaf\<rparr> sim, rng))"

definition sim_fill :: "'r chacha \<Rightarrow> bytes \<Rightarrow> 'z stress_sim_scheme \<Rightarrow> 'z stress_sim_scheme" where
  "sim_fill R seed sim =
     (let rng = rg_from_seed R seed;
          (sim, rng) = fold (sim_insert R) [0..<logical_blocks (ss_params sim)] (sim, rng) in
      sim\<lparr>ss_init_stash := length (ss_stash sim)\<rparr>)"

section \<open>Samples\<close>

definition percentile :: "nat list \<Rightarrow> nat \<Rightarrow> nat \<Rightarrow> nat" where
  "percentile sorted_samples numerator denominator =
     (let len = length sorted_samples; rank = max (div_ceil (usize_mul len numerator) denominator) 1 in
      sorted_samples ! (rank - 1))"

text \<open>
  Double-precision arithmetic is a parameter: the conversion of an integer, the product and the
  quotient.
\<close>

record 'f float_ops =
  fo_of :: "nat \<Rightarrow> 'f"
  fo_add :: "'f \<Rightarrow> 'f \<Rightarrow> 'f"
  fo_mul :: "'f \<Rightarrow> 'f \<Rightarrow> 'f"
  fo_div :: "'f \<Rightarrow> 'f \<Rightarrow> 'f"

record 'f stash_stats =
  sa_max :: nat
  sa_avg :: 'f
  sa_p50 :: nat
  sa_p99 :: nat
  sa_p999 :: nat

definition from_samples :: "'f float_ops \<Rightarrow> nat list \<Rightarrow> 'f stash_stats" where
  "from_samples F samples =
     (if samples = [] then \<lparr>sa_max = 0, sa_avg = fo_of F 0, sa_p50 = 0, sa_p99 = 0, sa_p999 = 0\<rparr>
      else
        let sum = sum_list samples mod 2 ^ 64; sorted_samples = sort samples in
        \<lparr>sa_max = last sorted_samples,
         sa_avg = fo_div F (fo_of F sum) (fo_of F (length sorted_samples)),
         sa_p50 = percentile sorted_samples 500 1000,
         sa_p99 = percentile sorted_samples 990 1000,
         sa_p999 = percentile sorted_samples 999 1000\<rparr>)"

datatype stress_pattern = Random | RoundRobin

definition pattern_label :: "stress_pattern \<Rightarrow> string" where
  "pattern_label pattern = (case pattern of Random \<Rightarrow> ''random'' | RoundRobin \<Rightarrow> ''round_robin'')"

definition next_logical_id :: "'r chacha \<Rightarrow> stress_pattern \<Rightarrow> nat \<Rightarrow> nat \<Rightarrow> 'r \<Rightarrow> u32 \<times> 'r" where
  "next_logical_id R pattern step logical_blocks' rng =
     (case pattern of
        Random \<Rightarrow> let (w, rng) = rg_next_u64 R rng in (ucast (w mod word_of_nat logical_blocks'), rng)
      | RoundRobin \<Rightarrow> (word_of_nat (step mod logical_blocks'), rng))"

end
