(* ===== verification/Ring_Stress.thy ===== *)
theory Ring_Stress
  imports Stress_Sim Circuit_Buckets Aead_Store
begin

text \<open>
  The Ring ORAM stress run of src/src/ring_stress.rs: the simulated tree with a read counter per
  bucket, evictions at a public period, early reshuffles of buckets that have been read too often,
  and the cost and state estimates. Buckets and counters are indexed by nodes of the tree, which
  are in range by construction.
\<close>

section \<open>The simulated tree\<close>

record ring_sim = stress_sim +
  rs_read_counters :: "u32 list"
  rs_max_read_counter :: u32

record ring_config =
  rc_params :: oram_params
  rc_dummy_slots :: nat
  rc_ops :: nat
  rc_warmup_ops :: nat
  rc_pattern :: stress_pattern
  rc_seed :: bytes
  rc_eviction_period :: nat
  rc_cache_levels :: nat
  rc_auth_store :: bool
  rc_auth_trusted_levels :: nat
  rc_auth_hash_page_size :: nat

definition ring_path :: "oram_params \<Rightarrow> u32 \<Rightarrow> (nat \<times> nat) list" where
  "ring_path p leaf = map (\<lambda>depth. (depth, node_index p depth leaf)) [0..<height p]"

definition saturating_inc :: "u32 \<Rightarrow> u32" where
  "saturating_inc c = (if c = - 1 then c else c + 1)"

definition count_read :: "nat \<times> nat \<Rightarrow> ring_sim \<Rightarrow> ring_sim" where
  "count_read = (\<lambda>(_, node_idx) sim.
     let c = saturating_inc (rs_read_counters sim ! node_idx) in
     sim\<lparr>rs_read_counters := (rs_read_counters sim)[node_idx := c],
         rs_max_read_counter := max (rs_max_read_counter sim) c\<rparr>)"

definition ring_access ::
  "'r chacha \<Rightarrow> u32 \<Rightarrow> ring_sim \<Rightarrow> 'r \<Rightarrow> ((nat \<times> nat) list \<times> ring_sim \<times> 'r) result" where
  "ring_access R logical_id sim rng =
     (let old_leaf = ss_position_map sim ! unat logical_id in
      rbind (sim_access R logical_id sim rng) (\<lambda>(sim, rng).
      let path = ring_path (ss_params sim) old_leaf in
      Inr (path, fold count_read path sim, rng)))"

definition empty_bucket :: "nat \<times> nat \<Rightarrow> ring_sim \<Rightarrow> ring_sim" where
  "empty_bucket = (\<lambda>(_, node_idx) sim.
     let sim = read_bucket_into_stash node_idx sim in
     sim\<lparr>rs_read_counters := (rs_read_counters sim)[node_idx := 0]\<rparr>)"

text \<open>\<open>evict_path\<close> always returns \<open>Ok\<close>.\<close>

definition ring_evict_path :: "u32 \<Rightarrow> ring_sim \<Rightarrow> ring_sim" where
  "ring_evict_path leaf sim =
     (let path = ring_path (ss_params sim) leaf; sim = fold empty_bucket path sim in
      fold (\<lambda>(depth, node_idx). write_bucket_from_stash depth node_idx) (rev path) sim)"

definition reshuffle_bucket :: "nat \<Rightarrow> nat \<Rightarrow> ring_sim \<Rightarrow> ring_sim" where
  "reshuffle_bucket depth node_idx sim =
     write_bucket_from_stash depth node_idx (empty_bucket (depth, node_idx) sim)"

definition ring_sim_new :: "'r chacha \<Rightarrow> oram_params \<Rightarrow> bytes \<Rightarrow> ring_sim result" where
  "ring_sim_new R p seed =
     rbind (ok_or (checked_mul_usize (bucket_count p) (bucket_size p))
       (InvalidParams ''tree slot count overflow'')) (\<lambda>slots.
     Inr (sim_fill R seed \<lparr>ss_params = p, ss_slots = replicate slots EMPTY_BLOCK,
       ss_position_map = [], ss_stash = [], ss_init_stash = 0,
       rs_read_counters = replicate (bucket_count p) 0, rs_max_read_counter = 0\<rparr>))"

definition ring_eviction_leaf_at :: "oram_params \<Rightarrow> u64 \<Rightarrow> u32" where
  "ring_eviction_leaf_at p eviction_index =
     (let bits = leaf_bits p; mask = (if bits = 32 then - 1 else push_bit bits 1 - 1) in
      drop_bit (32 - bits) (word_reverse (ucast eviction_index AND mask)))"

section \<open>Merkle costs\<close>

record merkle_touch_cost =
  mc_read_touches :: nat
  mc_write_touches :: nat

text \<open>The levels of the hash tree over so many pages, when the trusted ones are among them.\<close>

definition checked_merkle_levels :: "nat \<Rightarrow> nat \<Rightarrow> nat result" where
  "checked_merkle_levels page_count trusted_levels =
     rbind (ok_or (checked_next_power_of_two page_count) (InvalidParams ''auth page_count is too large''))
       (\<lambda>leaf_base.
     let merkle_levels = trailing_zeros leaf_base + 1 in
     if trusted_levels = 0 \<or> trusted_levels > merkle_levels then
       Inl (InvalidParams ''auth_trusted_levels {} out of range 1..={}'')
     else Inr merkle_levels)"

definition merkle_hash_touch_cost :: "nat \<Rightarrow> nat \<Rightarrow> merkle_touch_cost result" where
  "merkle_hash_touch_cost page_count trusted_levels =
     rbind (checked_merkle_levels page_count trusted_levels) (\<lambda>merkle_levels.
     let disk_levels_touched = merkle_levels - trusted_levels in
     Inr \<lparr>mc_read_touches = disk_levels_touched, mc_write_touches = disk_levels_touched * 3\<rparr>)"

definition trusted_merkle_hashes :: "nat \<Rightarrow> nat \<Rightarrow> nat result" where
  "trusted_merkle_hashes page_count trusted_levels =
     rbind (checked_merkle_levels page_count trusted_levels) (\<lambda>_.
     if trusted_levels < 64 then Inr (2 ^ trusted_levels - 1)
     else Inl (InvalidParams ''auth trusted level is too large''))"

definition validate_ring_config :: "ring_config \<Rightarrow> unit result" where
  "validate_ring_config cfg =
     (let p = rc_params cfg in
      if logical_blocks p > 2 ^ 32 - 1 then
        Inl (InvalidParams ''Ring stress simulator supports at most u32::MAX logical blocks'')
      else if rc_dummy_slots cfg = 0 then Inl (InvalidParams ''dummy_slots must be > 0'')
      else if rc_dummy_slots cfg > 2 ^ 32 - 1 then
        Inl (InvalidParams ''dummy_slots must fit in u32 read counters'')
      else if rc_eviction_period cfg = 0 then Inl (InvalidParams ''eviction_period must be > 0'')
      else if rc_auth_hash_page_size cfg < 32 then
        Inl (InvalidParams ''auth_hash_page_size must be at least 32'')
      else rbind (ok_or (checked_mul_usize (bucket_count p) (bucket_size p))
             (InvalidParams ''tree slot count overflow'')) (\<lambda>slots.
        if logical_blocks p > slots then
          Inl (InvalidParams ''logical blocks {} exceed Ring real tree slots {}'')
        else if rc_auth_store cfg then
          rbind (merkle_hash_touch_cost (bucket_count p) (rc_auth_trusted_levels cfg)) (\<lambda>_. Inr ())
        else Inr ()))"

section \<open>The run\<close>

text \<open>The local variables of \<open>stress_ring\<close>.\<close>

record 'r ring_run =
  rr_sim :: ring_sim
  rr_rng :: 'r
  rr_samples :: "nat list"
  rr_overflow_samples :: nat
  rr_completed_evictions :: u64
  rr_measured_evictions :: u64
  rr_early_reshuffles :: u64
  rr_measured_early_reshuffles :: u64
  rr_measured_uncached_early_reshuffles :: u64

definition effective_levels :: "ring_config \<Rightarrow> nat" where
  "effective_levels cfg = min (rc_cache_levels cfg) (height (rc_params cfg))"

definition ring_evict_step :: "ring_config \<Rightarrow> nat \<Rightarrow> bool \<Rightarrow> 'r ring_run \<Rightarrow> 'r ring_run" where
  "ring_evict_step cfg step measured_step run =
     (if (step + 1) mod rc_eviction_period cfg = 0 then
        let leaf = ring_eviction_leaf_at (rc_params cfg) (rr_completed_evictions run);
            run = run\<lparr>rr_sim := ring_evict_path leaf (rr_sim run),
                      rr_completed_evictions := rr_completed_evictions run + 1\<rparr> in
        (if measured_step then run\<lparr>rr_measured_evictions := rr_measured_evictions run + 1\<rparr> else run)
      else run)"

definition early_reshuffle :: "ring_config \<Rightarrow> bool \<Rightarrow> nat \<times> nat \<Rightarrow> 'r ring_run \<Rightarrow> 'r ring_run" where
  "early_reshuffle cfg measured_step = (\<lambda>(depth, node_idx) run.
     if rs_read_counters (rr_sim run) ! node_idx < word_of_nat (rc_dummy_slots cfg) then run
     else
       let run = run\<lparr>rr_sim := reshuffle_bucket depth node_idx (rr_sim run),
                     rr_early_reshuffles := rr_early_reshuffles run + 1\<rparr> in
       if measured_step then
         let run = run\<lparr>rr_measured_early_reshuffles := rr_measured_early_reshuffles run + 1\<rparr> in
         (if depth \<ge> effective_levels cfg then
            run\<lparr>rr_measured_uncached_early_reshuffles := rr_measured_uncached_early_reshuffles run + 1\<rparr>
          else run)
       else run)"

definition ring_sample :: "ring_config \<Rightarrow> 'r ring_run \<Rightarrow> 'r ring_run" where
  "ring_sample cfg run =
     (let len = stash_len (rr_sim run);
          run = (if len > stash_capacity (rc_params cfg)
                 then run\<lparr>rr_overflow_samples := rr_overflow_samples run + 1\<rparr> else run) in
      run\<lparr>rr_samples := rr_samples run @ [len]\<rparr>)"

definition ring_step :: "'r chacha \<Rightarrow> ring_config \<Rightarrow> nat \<Rightarrow> 'r ring_run \<Rightarrow> 'r ring_run result" where
  "ring_step R cfg step run =
     (let measured_step = step \<ge> rc_warmup_ops cfg;
          (logical_id, rng) =
            next_logical_id R (rc_pattern cfg) step (logical_blocks (rc_params cfg)) (rr_rng run) in
      rbind (ring_access R logical_id (rr_sim run) rng) (\<lambda>(read_path, sim, rng).
      let run = run\<lparr>rr_sim := sim, rr_rng := rng\<rparr>;
          run = ring_evict_step cfg step measured_step run;
          run = fold (early_reshuffle cfg measured_step) (rev read_path) run in
      Inr (if measured_step then ring_sample cfg run else run)))"

definition ring_start :: "'r chacha \<Rightarrow> ring_config \<Rightarrow> 'r ring_run result" where
  "ring_start R cfg =
     rbind (validate_ring_config cfg) (\<lambda>_.
     rbind (ring_sim_new R (rc_params cfg) (rc_seed cfg)) (\<lambda>sim.
     Inr \<lparr>rr_sim = sim, rr_rng = rg_from_seed R (rc_seed cfg), rr_samples = [], rr_overflow_samples = 0,
          rr_completed_evictions = 0, rr_measured_evictions = 0, rr_early_reshuffles = 0,
          rr_measured_early_reshuffles = 0, rr_measured_uncached_early_reshuffles = 0\<rparr>))"

definition ring_loop :: "'r chacha \<Rightarrow> ring_config \<Rightarrow> 'r ring_run \<Rightarrow> 'r ring_run result" where
  "ring_loop R cfg = rfoldM (ring_step R cfg) [0..<usize_add (rc_warmup_ops cfg) (rc_ops cfg)]"

section \<open>Estimates\<close>

definition checked_u64_mul :: "nat \<Rightarrow> nat \<Rightarrow> string \<Rightarrow> u64 result" where
  "checked_u64_mul lhs rhs label =
     ok_or (map_option word_of_nat (checked_mul_usize lhs rhs)) (InvalidParams ''{} byte count overflow'')"

definition checked_add_usize :: "nat \<Rightarrow> nat \<Rightarrow> nat option" where
  "checked_add_usize a b = (if a + b < 2 ^ 64 then Some (a + b) else None)"

definition READ_COUNTER_BYTES :: nat where
  "READ_COUNTER_BYTES = 4"

definition PERMUTATION_INDEX_BYTES :: nat where
  "PERMUTATION_INDEX_BYTES = 2"

definition ring_meta_page_bytes :: "nat \<Rightarrow> nat \<Rightarrow> nat result" where
  "ring_meta_page_bytes real_slots dummy_slots =
     rbind (ok_or (checked_add_usize real_slots dummy_slots)
       (InvalidParams ''Ring metadata slot count overflow'')) (\<lambda>total_slots.
     let real_meta = circuit_meta_page_bytes real_slots in
     rbind (ok_or (checked_mul_usize total_slots PERMUTATION_INDEX_BYTES)
       (InvalidParams ''Ring permutation metadata overflow'')) (\<lambda>permutation.
     ok_or (Option.bind (checked_add_usize real_meta permutation) (\<lambda>value.
         checked_add_usize value READ_COUNTER_BYTES))
       (InvalidParams ''Ring metadata page size overflow'')))"

record ring_crash_state =
  cr_position_map_bytes :: u64
  cr_stash_bytes :: u64
  cr_read_counter_bytes :: u64
  cr_permutation_bytes :: u64
  cr_current_auth_trusted_hash_bytes :: u64
  cr_slot_auth_trusted_hash_bytes :: u64
  cr_current_total_state_floor_bytes :: u64
  cr_slot_total_state_floor_bytes :: u64

definition ring_auth_hash_bytes :: "ring_config \<Rightarrow> nat \<Rightarrow> (u64 \<times> u64) result" where
  "ring_auth_hash_bytes cfg total_slots_per_bucket =
     (let pages = bucket_count (rc_params cfg); levels = rc_auth_trusted_levels cfg in
      rbind (if rc_auth_store cfg then
               rbind (trusted_merkle_hashes pages levels) (\<lambda>hashes.
               checked_u64_mul hashes (32 * 2) ''current auth trusted hashes'')
             else Inr 0) (\<lambda>current.
      rbind (if rc_auth_store cfg then
               rbind (ok_or (checked_mul_usize pages total_slots_per_bucket)
                 (InvalidParams ''slot auth page count overflow'')) (\<lambda>slot_page_count.
               rbind (trusted_merkle_hashes pages levels) (\<lambda>meta_hashes.
               rbind (trusted_merkle_hashes slot_page_count levels) (\<lambda>slot_hashes.
               Inr (word_of_nat (usize_add meta_hashes slot_hashes) * 32))))
             else Inr 0) (\<lambda>slot.
      Inr (current, slot))))"

definition estimate_crash_state :: "ring_config \<Rightarrow> nat \<Rightarrow> nat \<Rightarrow> ring_crash_state result" where
  "estimate_crash_state cfg tree_buckets total_slots_per_bucket =
     (let p = rc_params cfg in
      rbind (checked_u64_mul (logical_blocks p) 4 ''position map'') (\<lambda>position_map_bytes.
      let stash_slot_bytes = serialized_len (block_size p) in
      rbind (checked_u64_mul (stash_capacity p) stash_slot_bytes ''stash'') (\<lambda>stash_bytes.
      rbind (checked_u64_mul tree_buckets READ_COUNTER_BYTES ''read counters'') (\<lambda>read_counter_bytes.
      rbind (ok_or (checked_mul_usize tree_buckets total_slots_per_bucket)
        (InvalidParams ''permutation slot count overflow'')) (\<lambda>permutation_slots.
      rbind (checked_u64_mul permutation_slots PERMUTATION_INDEX_BYTES ''permutations'') (\<lambda>permutation_bytes.
      rbind (ring_auth_hash_bytes cfg total_slots_per_bucket) (\<lambda>(current_auth, slot_auth).
      rbind (ok_or (Option.bind (checked_add_u64 position_map_bytes stash_bytes) (\<lambda>value.
               Option.bind (checked_add_u64 value read_counter_bytes) (\<lambda>value.
               checked_add_u64 value permutation_bytes)))
        (InvalidParams ''Ring crash state size overflow'')) (\<lambda>controller_state.
      rbind (ok_or (checked_add_u64 controller_state current_auth)
        (InvalidParams ''current crash state size overflow'')) (\<lambda>current_total.
      rbind (ok_or (checked_add_u64 controller_state slot_auth)
        (InvalidParams ''slot crash state size overflow'')) (\<lambda>slot_total.
      Inr \<lparr>cr_position_map_bytes = position_map_bytes, cr_stash_bytes = stash_bytes,
           cr_read_counter_bytes = read_counter_bytes, cr_permutation_bytes = permutation_bytes,
           cr_current_auth_trusted_hash_bytes = current_auth,
           cr_slot_auth_trusted_hash_bytes = slot_auth,
           cr_current_total_state_floor_bytes = current_total,
           cr_slot_total_state_floor_bytes = slot_total\<rparr>))))))))))"

text \<open>
  The floating-point estimates are written with the operations of the parameter, in the source's
  order; \<open>f\<close> is the conversion \<open>as f64\<close>.
\<close>

record 'f ring_io =
  ri_meta_page_plaintext_bytes :: nat
  ri_current_payload_page_plaintext_bytes :: nat
  ri_slot_payload_plaintext_bytes :: nat
  ri_current_primary_page_reads_per_access :: 'f
  ri_current_primary_page_writes_per_access :: 'f
  ri_current_primary_page_touches_per_access :: 'f
  ri_current_primary_plaintext_bytes_per_access :: 'f
  ri_current_primary_aead_bytes_per_access :: 'f
  ri_current_auth_hash_page_touches_per_access :: 'f
  ri_current_auth_hash_bytes_per_access :: 'f
  ri_current_total_backing_bytes_per_access :: 'f
  ri_slot_metadata_page_touches_per_access :: 'f
  ri_slot_payload_reads_per_access :: 'f
  ri_slot_payload_writes_per_access :: 'f
  ri_slot_payload_plaintext_bytes_per_access :: 'f
  ri_slot_payload_aead_bytes_per_access :: 'f
  ri_slot_auth_hash_page_touches_per_access :: 'f
  ri_slot_auth_hash_bytes_per_access :: 'f
  ri_slot_total_backing_bytes_per_access :: 'f

definition current_auth_cost :: "'f float_ops \<Rightarrow> ring_config \<Rightarrow> 'f \<Rightarrow> 'f \<Rightarrow> ('f \<times> 'f) result" where
  "current_auth_cost F cfg reads writes =
     (let f = fo_of F; mul = fo_mul F; add = fo_add F in
      if rc_auth_store cfg then
        rbind (merkle_hash_touch_cost (bucket_count (rc_params cfg)) (rc_auth_trusted_levels cfg)) (\<lambda>cost.
        let touches = add (mul reads (f (mc_read_touches cost))) (mul writes (f (mc_write_touches cost))) in
        Inr (touches, mul touches (f (rc_auth_hash_page_size cfg))))
      else Inr (f 0, f 0))"

definition slot_auth_cost ::
  "'f float_ops \<Rightarrow> ring_config \<Rightarrow> nat \<Rightarrow> 'f \<Rightarrow> 'f \<Rightarrow> 'f \<Rightarrow> 'f \<Rightarrow> ('f \<times> 'f) result" where
  "slot_auth_cost F cfg total_slots_per_bucket meta_reads meta_writes slot_reads slot_writes =
     (let f = fo_of F; mul = fo_mul F; add = fo_add F;
          pages = bucket_count (rc_params cfg); levels = rc_auth_trusted_levels cfg in
      if rc_auth_store cfg then
        rbind (merkle_hash_touch_cost pages levels) (\<lambda>meta_cost.
        rbind (ok_or (checked_mul_usize pages total_slots_per_bucket)
          (InvalidParams ''slot auth page count overflow'')) (\<lambda>slot_page_count.
        rbind (merkle_hash_touch_cost slot_page_count levels) (\<lambda>slot_cost.
        let touches =
              add (add (add (mul meta_reads (f (mc_read_touches meta_cost)))
                (mul meta_writes (f (mc_write_touches meta_cost))))
                (mul slot_reads (f (mc_read_touches slot_cost))))
                (mul slot_writes (f (mc_write_touches slot_cost))) in
        Inr (touches, mul touches (f (rc_auth_hash_page_size cfg))))))
      else Inr (f 0, f 0))"

definition estimate_ring_io ::
  "'f float_ops \<Rightarrow> ring_config \<Rightarrow> nat \<Rightarrow> u64 \<Rightarrow> u64 \<Rightarrow> nat \<Rightarrow> 'f ring_io result" where
  "estimate_ring_io F cfg total_slots_per_bucket measured_evictions measured_uncached uncached_levels =
     (let f = fo_of F; mul = fo_mul F; add = fo_add F; quot = fo_div F; p = rc_params cfg;
          ops = f (max (rc_ops cfg) 1); read_paths = f (rc_ops cfg);
          evict_paths = f (unat measured_evictions); early_buckets = f (unat measured_uncached);
          uncached = f uncached_levels in
      rbind (ring_meta_page_bytes (bucket_size p) (rc_dummy_slots cfg)) (\<lambda>meta_page.
      rbind (ok_or (checked_mul_usize total_slots_per_bucket (block_size p))
        (InvalidParams ''Ring payload page size overflow'')) (\<lambda>payload_page.
      let slot_bytes = block_size p;
          per_path = add (mul read_paths uncached) (mul evict_paths uncached);
          meta_reads = add per_path early_buckets;
          meta_writes = add per_path early_buckets;
          payload_reads = add per_path early_buckets;
          payload_writes = add (mul evict_paths uncached) early_buckets;
          primary_reads = add meta_reads payload_reads;
          primary_writes = add meta_writes payload_writes;
          plaintext_bytes = add (mul (add meta_reads meta_writes) (f meta_page))
            (mul (add payload_reads payload_writes) (f payload_page));
          aead_bytes = add (mul (add meta_reads meta_writes) (f (usize_add meta_page AEAD_OVERHEAD)))
            (mul (add payload_reads payload_writes) (f (usize_add payload_page AEAD_OVERHEAD)));
          total_slots = f total_slots_per_bucket;
          evict_slots = mul (mul evict_paths uncached) total_slots;
          early_slots = mul early_buckets total_slots;
          slot_reads = add (add (mul read_paths uncached) evict_slots) early_slots;
          slot_writes = add evict_slots early_slots;
          slot_plaintext = mul (add slot_reads slot_writes) (f slot_bytes);
          slot_aead = mul (add slot_reads slot_writes) (f (usize_add slot_bytes AEAD_OVERHEAD));
          slot_metadata = mul (add meta_reads meta_writes) (f (usize_add meta_page AEAD_OVERHEAD)) in
      rbind (current_auth_cost F cfg primary_reads primary_writes) (\<lambda>(current_touches, current_bytes).
      rbind (slot_auth_cost F cfg total_slots_per_bucket meta_reads meta_writes slot_reads slot_writes)
        (\<lambda>(slot_touches, slot_auth_bytes).
      Inr \<lparr>ri_meta_page_plaintext_bytes = meta_page,
           ri_current_payload_page_plaintext_bytes = payload_page,
           ri_slot_payload_plaintext_bytes = slot_bytes,
           ri_current_primary_page_reads_per_access = quot primary_reads ops,
           ri_current_primary_page_writes_per_access = quot primary_writes ops,
           ri_current_primary_page_touches_per_access = quot (add primary_reads primary_writes) ops,
           ri_current_primary_plaintext_bytes_per_access = quot plaintext_bytes ops,
           ri_current_primary_aead_bytes_per_access = quot aead_bytes ops,
           ri_current_auth_hash_page_touches_per_access = quot current_touches ops,
           ri_current_auth_hash_bytes_per_access = quot current_bytes ops,
           ri_current_total_backing_bytes_per_access = quot (add aead_bytes current_bytes) ops,
           ri_slot_metadata_page_touches_per_access = quot (add meta_reads meta_writes) ops,
           ri_slot_payload_reads_per_access = quot slot_reads ops,
           ri_slot_payload_writes_per_access = quot slot_writes ops,
           ri_slot_payload_plaintext_bytes_per_access = quot slot_plaintext ops,
           ri_slot_payload_aead_bytes_per_access = quot slot_aead ops,
           ri_slot_auth_hash_page_touches_per_access = quot slot_touches ops,
           ri_slot_auth_hash_bytes_per_access = quot slot_auth_bytes ops,
           ri_slot_total_backing_bytes_per_access =
             quot (add (add slot_metadata slot_aead) slot_auth_bytes) ops\<rparr>)))))"

section \<open>The report\<close>

record 'f ring_report =
  rp_logical_blocks :: nat
  rp_leaves :: nat
  rp_height :: nat
  rp_bucket_size :: nat
  rp_dummy_slots :: nat
  rp_total_slots_per_bucket :: nat
  rp_stash_capacity :: nat
  rp_tree_buckets :: nat
  rp_real_tree_slots :: nat
  rp_total_tree_slots :: nat
  rp_real_tree_slot_load_percent :: 'f
  rp_total_tree_slot_load_percent :: 'f
  rp_init_stash :: nat
  rp_final_stash :: nat
  rp_stash_stats :: "'f stash_stats"
  rp_overflow_samples :: nat
  rp_warmup_ops :: nat
  rp_ops :: nat
  rp_pattern :: stress_pattern
  rp_eviction_period :: nat
  rp_completed_evictions :: u64
  rp_measured_evictions :: u64
  rp_early_reshuffle_buckets :: u64
  rp_measured_early_reshuffle_buckets :: u64
  rp_measured_uncached_early_reshuffle_buckets :: u64
  rp_max_read_counter :: u32
  rp_cache_levels :: nat
  rp_uncached_levels :: nat
  rp_auth_store :: bool
  rp_auth_trusted_levels :: nat
  rp_auth_hash_page_size :: nat
  rp_io :: "'f ring_io"
  rp_crash_state :: ring_crash_state

text \<open>\<open>rp_stash_stats\<close> holds the fields \<open>max_stash\<close> to \<open>p999_stash\<close> of the source's report.\<close>

definition ring_finish :: "'f float_ops \<Rightarrow> ring_config \<Rightarrow> 'r ring_run \<Rightarrow> 'f ring_report result" where
  "ring_finish F cfg run =
     (let p = rc_params cfg; sim = rr_sim run; tree_buckets = bucket_count p in
      rbind (ok_or (checked_mul_usize tree_buckets (bucket_size p))
        (InvalidParams ''real tree slot count overflow'')) (\<lambda>real_tree_slots.
      rbind (ok_or (checked_add_usize (bucket_size p) (rc_dummy_slots cfg))
        (InvalidParams ''Ring slot count overflow'')) (\<lambda>total_slots_per_bucket.
      rbind (ok_or (checked_mul_usize tree_buckets total_slots_per_bucket)
        (InvalidParams ''total tree slot count overflow'')) (\<lambda>total_tree_slots.
      let uncached_levels = height p - effective_levels cfg;
          load = (\<lambda>slots. fo_div F (fo_mul F (fo_of F (logical_blocks p)) (fo_of F 100)) (fo_of F slots)) in
      rbind (estimate_ring_io F cfg total_slots_per_bucket (rr_measured_evictions run)
        (rr_measured_uncached_early_reshuffles run) uncached_levels) (\<lambda>io.
      rbind (estimate_crash_state cfg tree_buckets total_slots_per_bucket) (\<lambda>crash_state.
      Inr \<lparr>rp_logical_blocks = logical_blocks p, rp_leaves = leaves p, rp_height = height p,
           rp_bucket_size = bucket_size p, rp_dummy_slots = rc_dummy_slots cfg,
           rp_total_slots_per_bucket = total_slots_per_bucket, rp_stash_capacity = stash_capacity p,
           rp_tree_buckets = tree_buckets, rp_real_tree_slots = real_tree_slots,
           rp_total_tree_slots = total_tree_slots,
           rp_real_tree_slot_load_percent = load real_tree_slots,
           rp_total_tree_slot_load_percent = load total_tree_slots,
           rp_init_stash = ss_init_stash sim, rp_final_stash = stash_len sim,
           rp_stash_stats = from_samples F (rr_samples run),
           rp_overflow_samples = rr_overflow_samples run, rp_warmup_ops = rc_warmup_ops cfg,
           rp_ops = rc_ops cfg, rp_pattern = rc_pattern cfg, rp_eviction_period = rc_eviction_period cfg,
           rp_completed_evictions = rr_completed_evictions run,
           rp_measured_evictions = rr_measured_evictions run,
           rp_early_reshuffle_buckets = rr_early_reshuffles run,
           rp_measured_early_reshuffle_buckets = rr_measured_early_reshuffles run,
           rp_measured_uncached_early_reshuffle_buckets = rr_measured_uncached_early_reshuffles run,
           rp_max_read_counter = rs_max_read_counter sim, rp_cache_levels = effective_levels cfg,
           rp_uncached_levels = uncached_levels, rp_auth_store = rc_auth_store cfg,
           rp_auth_trusted_levels = rc_auth_trusted_levels cfg,
           rp_auth_hash_page_size = rc_auth_hash_page_size cfg, rp_io = io,
           rp_crash_state = crash_state\<rparr>))))))"

definition stress_ring :: "'r chacha \<Rightarrow> 'f float_ops \<Rightarrow> ring_config \<Rightarrow> 'f ring_report result" where
  "stress_ring R F cfg =
     rbind (ring_start R cfg) (\<lambda>run.
     rbind (ring_loop R cfg run) (ring_finish F cfg))"

end
