(* ===== verification/Circuit_Stress.thy ===== *)
theory Circuit_Stress
  imports Stress_Sim
begin

text \<open>
  The Circuit ORAM stress run of src/src/stress.rs: accesses to the simulated tree with the public
  eviction schedule of the controller, drained after every access, in bursts, and down to a cap on
  the debt.
\<close>

record stress_config =
  sc_params :: oram_params
  sc_ops :: nat
  sc_warmup_ops :: nat
  sc_pattern :: stress_pattern
  sc_seed :: bytes
  sc_drain_per_access :: u64
  sc_burst_interval :: nat
  sc_burst_budget :: u64
  sc_max_debt :: "u64 option"

record 'f stress_report =
  sp_logical_blocks :: nat
  sp_leaves :: nat
  sp_height :: nat
  sp_bucket_size :: nat
  sp_stash_capacity :: nat
  sp_tree_slots :: nat
  sp_tree_slot_load_percent :: 'f
  sp_init_stash :: nat
  sp_final_stash :: nat
  sp_max_stash :: nat
  sp_avg_stash :: 'f
  sp_p50_stash :: nat
  sp_p99_stash :: nat
  sp_p999_stash :: nat
  sp_overflow_samples :: nat
  sp_warmup_ops :: nat
  sp_ops :: nat
  sp_pattern :: stress_pattern
  sp_evictions_per_access :: u64
  sp_drain_per_access :: u64
  sp_burst_interval :: nat
  sp_burst_budget :: u64
  sp_max_debt_cap :: "u64 option"
  sp_max_eviction_debt :: u64
  sp_final_eviction_debt :: u64
  sp_completed_evictions :: u64
  sp_scheduled_evictions :: u64
  sp_metadata_path_scans_per_access :: 'f
  sp_payload_path_scans_per_access :: 'f

definition validate_stress_config :: "stress_config \<Rightarrow> unit result" where
  "validate_stress_config cfg =
     (let p = sc_params cfg in
      if logical_blocks p > 2 ^ 32 - 1 then
        Inl (InvalidParams ''stress simulator supports at most u32::MAX logical blocks'')
      else rbind (ok_or (checked_mul_usize (bucket_count p) (bucket_size p))
             (InvalidParams ''tree slot count overflow'')) (\<lambda>slots.
        if logical_blocks p > slots then
          Inl (InvalidParams ''logical blocks {} exceed physical tree slots {}'')
        else if sc_burst_interval cfg = 0 \<and> sc_burst_budget cfg \<noteq> 0 then
          Inl (InvalidParams ''burst_budget requires burst_interval > 0'')
        else Inr ()))"

definition stress_sim_new :: "'r chacha \<Rightarrow> oram_params \<Rightarrow> bytes \<Rightarrow> stress_sim result" where
  "stress_sim_new R p seed =
     rbind (ok_or (checked_mul_usize (bucket_count p) (bucket_size p))
       (InvalidParams ''tree slot count overflow'')) (\<lambda>slots.
     Inr (sim_fill R seed \<lparr>ss_params = p, ss_slots = replicate slots EMPTY_BLOCK,
       ss_position_map = [], ss_stash = [], ss_init_stash = 0\<rparr>))"

text \<open>\<open>drain_public_evictions\<close>: \<open>for _ in 0..budget\<close> with \<open>break\<close> when nothing is pending.\<close>

fun drain_public_loop ::
  "nat \<Rightarrow> u64 \<Rightarrow> stress_sim \<Rightarrow> schedule \<Rightarrow> (u64 \<times> stress_sim \<times> schedule) result" where
  "drain_public_loop 0 drained sim sched = Inr (drained, sim, sched)"
| "drain_public_loop (Suc budget) drained sim sched =
     (case complete_one_eviction sched of
        (Inl e, _) \<Rightarrow> Inl e
      | (Inr None, sched) \<Rightarrow> Inr (drained, sim, sched)
      | (Inr (Some leaf), sched) \<Rightarrow>
          drain_public_loop budget (drained + 1) (sim_evict_path leaf sim) sched)"

definition drain_public_evictions ::
  "stress_sim \<Rightarrow> schedule \<Rightarrow> u64 \<Rightarrow> (u64 \<times> stress_sim \<times> schedule) result" where
  "drain_public_evictions sim sched budget = drain_public_loop (unat budget) 0 sim sched"

text \<open>The local variables of \<open>stress_circuit\<close>.\<close>

record 'r stress_run =
  sr_sim :: stress_sim
  sr_schedule :: schedule
  sr_rng :: 'r
  sr_samples :: "nat list"
  sr_overflow_samples :: nat
  sr_max_debt :: u64
  sr_metadata_path_scans :: u64
  sr_payload_path_scans :: u64

definition drain_counted :: "bool \<Rightarrow> u64 \<Rightarrow> 'r stress_run \<Rightarrow> 'r stress_run result" where
  "drain_counted measured_step budget run =
     rbind (drain_public_evictions (sr_sim run) (sr_schedule run) budget) (\<lambda>(drained, sim, sched).
     let run = run\<lparr>sr_sim := sim, sr_schedule := sched\<rparr> in
     Inr (if measured_step then
            run\<lparr>sr_metadata_path_scans := sr_metadata_path_scans run + drained * 2,
                sr_payload_path_scans := sr_payload_path_scans run + drained\<rparr>
          else run))"

lemma drain_public_one:
  "drain_public_evictions sim sched 1 =
     (case complete_one_eviction sched of
        (Inl e, _) \<Rightarrow> Inl e
      | (Inr None, sched) \<Rightarrow> Inr (0, sim, sched)
      | (Inr (Some leaf), sched) \<Rightarrow> Inr (1, sim_evict_path leaf sim, sched))"
  by (simp add: drain_public_evictions_def split: prod.split sum.split option.split)

lemma drain_counted_debt:
  assumes "pending_evictions (sr_schedule run) = Inr d" and "cap < d"
    and "drain_counted measured_step 1 run = Inr run'"
  shows "debt (sr_schedule run') < debt (sr_schedule run)"
proof -
  let ?s = "sr_schedule run"
  have ok: "schedule_ok ?s" using assms(1) pending_evictions_Inr_iff by blast
  have "0 < d" using assms(2) by (metis word_gt_0 word_not_simps(1))
  then have "0 < debt ?s"
    using assms(1) pending_evictions_ok [OF ok] by (cases "debt ?s") auto
  from complete_one_eviction_some [OF ok this] assms(3) this show ?thesis
    by (auto simp: drain_counted_def drain_public_one Let_def split: if_splits)
qed

text \<open>\<open>while pending > max_debt_cap\<close>: every turn pays one eviction of the debt.\<close>

function drain_to_cap :: "bool \<Rightarrow> u64 \<Rightarrow> 'r stress_run \<Rightarrow> 'r stress_run result" where
  "drain_to_cap measured_step cap run =
     (case pending_evictions (sr_schedule run) of
        Inl e \<Rightarrow> Inl e
      | Inr pending \<Rightarrow>
          if pending > cap then
            (case drain_counted measured_step 1 run of
               Inl e \<Rightarrow> Inl e
             | Inr run \<Rightarrow> drain_to_cap measured_step cap run)
          else Inr run)"
  by pat_completeness auto
termination
  by (relation "measure (\<lambda>(_, _, run). debt (sr_schedule run))")
    (auto intro: drain_counted_debt)

declare drain_to_cap.simps [simp del]

definition stress_sample :: "stress_config \<Rightarrow> 'r stress_run \<Rightarrow> 'r stress_run" where
  "stress_sample cfg run =
     (let len = stash_len (sr_sim run);
          run = (if len > stash_capacity (sc_params cfg)
                 then run\<lparr>sr_overflow_samples := sr_overflow_samples run + 1\<rparr> else run) in
      run\<lparr>sr_samples := sr_samples run @ [len]\<rparr>)"

text \<open>What a step does after its access: the drains, the largest debt, the sample.\<close>

definition stress_settle :: "stress_config \<Rightarrow> nat \<Rightarrow> bool \<Rightarrow> 'r stress_run \<Rightarrow> 'r stress_run result" where
  "stress_settle cfg step measured_step run =
     rbind (drain_counted measured_step (sc_drain_per_access cfg) run) (\<lambda>run.
     rbind (if sc_burst_interval cfg \<noteq> 0 \<and> (step + 1) mod sc_burst_interval cfg = 0
            then drain_counted measured_step (sc_burst_budget cfg) run else Inr run) (\<lambda>run.
     rbind (case sc_max_debt cfg of
              Some cap \<Rightarrow> drain_to_cap measured_step cap run
            | None \<Rightarrow> Inr run) (\<lambda>run.
     rbind (pending_evictions (sr_schedule run)) (\<lambda>pending.
     let run = run\<lparr>sr_max_debt := max (sr_max_debt run) pending\<rparr> in
     Inr (if step \<ge> sc_warmup_ops cfg then stress_sample cfg run else run)))))"

definition stress_step :: "'r chacha \<Rightarrow> stress_config \<Rightarrow> nat \<Rightarrow> 'r stress_run \<Rightarrow> 'r stress_run result" where
  "stress_step R cfg step run =
     (let measured_step = step \<ge> sc_warmup_ops cfg;
          (logical_id, rng) =
            next_logical_id R (sc_pattern cfg) step (logical_blocks (sc_params cfg)) (sr_rng run) in
      rbind (sim_access R logical_id (sr_sim run) rng) (\<lambda>(sim, rng).
      case record_access (sr_schedule run) of
        (Inl e, _) \<Rightarrow> Inl e
      | (Inr _, sched) \<Rightarrow>
          let run = run\<lparr>sr_sim := sim, sr_rng := rng, sr_schedule := sched\<rparr> in
          stress_settle cfg step measured_step
            (if measured_step then
               run\<lparr>sr_metadata_path_scans := sr_metadata_path_scans run + 1,
                   sr_payload_path_scans := sr_payload_path_scans run + 1\<rparr>
             else run)))"

definition stress_start :: "'r chacha \<Rightarrow> stress_config \<Rightarrow> 'r stress_run result" where
  "stress_start R cfg =
     rbind (validate_stress_config cfg) (\<lambda>_.
     rbind (stress_sim_new R (sc_params cfg) (sc_seed cfg)) (\<lambda>sim.
     let sched = schedule_new (sc_params cfg); rng = rg_from_seed R (sc_seed cfg) in
     rbind (pending_evictions sched) (\<lambda>max_debt.
     Inr \<lparr>sr_sim = sim, sr_schedule = sched, sr_rng = rng, sr_samples = [], sr_overflow_samples = 0,
          sr_max_debt = max_debt, sr_metadata_path_scans = 0, sr_payload_path_scans = 0\<rparr>)))"

definition stress_loop :: "'r chacha \<Rightarrow> stress_config \<Rightarrow> 'r stress_run \<Rightarrow> 'r stress_run result" where
  "stress_loop R cfg =
     rfoldM (stress_step R cfg) [0..<usize_add (sc_warmup_ops cfg) (sc_ops cfg)]"

definition stress_finish :: "'f float_ops \<Rightarrow> stress_config \<Rightarrow> 'r stress_run \<Rightarrow> 'f stress_report result" where
  "stress_finish F cfg run =
     (let stats = from_samples F (sr_samples run); p = sc_params cfg; sched = sr_schedule run;
          sim = sr_sim run in
      rbind (pending_evictions sched) (\<lambda>final_debt.
      rbind (ok_or (checked_mul_u64 (issued_accesses sched) (evictions_per_access sched))
               (InvalidInput ''eviction counter overflow'')) (\<lambda>scheduled.
      let measured_ops = fo_of F (max (sc_ops cfg) 1) in
      Inr \<lparr>sp_logical_blocks = logical_blocks p, sp_leaves = leaves p, sp_height = height p,
           sp_bucket_size = bucket_size p, sp_stash_capacity = stash_capacity p,
           sp_tree_slots = tree_slots sim,
           sp_tree_slot_load_percent =
             fo_div F (fo_mul F (fo_of F (logical_blocks p)) (fo_of F 100)) (fo_of F (tree_slots sim)),
           sp_init_stash = ss_init_stash sim, sp_final_stash = stash_len sim,
           sp_max_stash = sa_max stats, sp_avg_stash = sa_avg stats, sp_p50_stash = sa_p50 stats,
           sp_p99_stash = sa_p99 stats, sp_p999_stash = sa_p999 stats,
           sp_overflow_samples = sr_overflow_samples run, sp_warmup_ops = sc_warmup_ops cfg,
           sp_ops = sc_ops cfg, sp_pattern = sc_pattern cfg,
           sp_evictions_per_access = evictions_per_access sched,
           sp_drain_per_access = sc_drain_per_access cfg, sp_burst_interval = sc_burst_interval cfg,
           sp_burst_budget = sc_burst_budget cfg, sp_max_debt_cap = sc_max_debt cfg,
           sp_max_eviction_debt = sr_max_debt run, sp_final_eviction_debt = final_debt,
           sp_completed_evictions = completed_evictions sched, sp_scheduled_evictions = scheduled,
           sp_metadata_path_scans_per_access =
             fo_div F (fo_of F (unat (sr_metadata_path_scans run))) measured_ops,
           sp_payload_path_scans_per_access =
             fo_div F (fo_of F (unat (sr_payload_path_scans run))) measured_ops\<rparr>)))"

definition stress_circuit :: "'r chacha \<Rightarrow> 'f float_ops \<Rightarrow> stress_config \<Rightarrow> 'f stress_report result" where
  "stress_circuit R F cfg =
     rbind (stress_start R cfg) (\<lambda>run.
     rbind (stress_loop R cfg run) (stress_finish F cfg))"

end
