(* ===== verification/Stress_Invariant.thy ===== *)
theory Stress_Invariant
  imports Stress_Sim "HOL-Library.Multiset"
begin

text \<open>
  The invariant of the simulated tree: a given multiset of block ids is spread over slots and stash,
  every block in a slot lies on the path of the leaf that the position map gives it, and the stash
  remembers the same leaves. Every operation is a sequence of moves between a slot and the stash.
\<close>

section \<open>The invariant\<close>

definition sim_ids :: "'z stress_sim_scheme \<Rightarrow> u32 multiset" where
  "sim_ids sim =
     filter_mset (\<lambda>x. x \<noteq> EMPTY_BLOCK) (mset (ss_slots sim)) + image_mset sb_id (mset (ss_stash sim))"

definition sim_shape :: "oram_params \<Rightarrow> 'z stress_sim_scheme \<Rightarrow> bool" where
  "sim_shape p sim \<longleftrightarrow> ss_params sim = p \<and> params_ok p \<and>
     length (ss_slots sim) = bucket_count p * bucket_size p \<and> bucket_count p * bucket_size p < 2 ^ 64 \<and>
     (\<forall>l \<in> set (ss_position_map sim). unat l < leaves p)"

definition sim_homes :: "'z stress_sim_scheme \<Rightarrow> bool" where
  "sim_homes sim \<longleftrightarrow>
     (\<forall>b \<in> set (ss_stash sim). sb_leaf b = ss_position_map sim ! unat (sb_id b)) \<and>
     (\<forall>i < length (ss_slots sim). ss_slots sim ! i \<noteq> EMPTY_BLOCK \<longrightarrow>
        i div bucket_size (ss_params sim) \<in>
          set (path_nodes (ss_params sim) (ss_position_map sim ! unat (ss_slots sim ! i))))"

definition sim_ok :: "oram_params \<Rightarrow> u32 multiset \<Rightarrow> 'z stress_sim_scheme \<Rightarrow> bool" where
  "sim_ok p M sim \<longleftrightarrow> sim_shape p sim \<and> sim_homes sim \<and> sim_ids sim = M \<and>
     (\<forall>x \<in># M. x \<noteq> EMPTY_BLOCK \<and> unat x < length (ss_position_map sim))"

lemma sim_okD:
  assumes "sim_ok p M sim"
  shows "ss_params sim = p" "params_ok p" "length (ss_slots sim) = bucket_count p * bucket_size p"
    "bucket_count p * bucket_size p < 2 ^ 64" "sim_ids sim = M"
    "\<And>x. x \<in># M \<Longrightarrow> x \<noteq> EMPTY_BLOCK \<and> unat x < length (ss_position_map sim)"
    "\<And>x. x \<in># M \<Longrightarrow> unat (ss_position_map sim ! unat x) < leaves p"
  using assms by (auto simp: sim_ok_def sim_shape_def)

text \<open>What the simulators add to the record does not matter.\<close>

lemma sim_ok_same:
  assumes "ss_params t = ss_params s" "ss_slots t = ss_slots s"
    "ss_position_map t = ss_position_map s" "ss_stash t = ss_stash s"
  shows "sim_ok p M t = sim_ok p M s"
  using assms by (simp add: sim_ok_def sim_shape_def sim_homes_def sim_ids_def)

lemma find_Some_upt: "find P xs = Some i \<Longrightarrow> i \<in> set xs \<and> P i"
  by (auto simp: find_Some_iff)

lemma bucket_slots_eq:
  assumes "bucket_count p * bucket_size p < 2 ^ 64" "node < bucket_count p"
  shows "bucket_slots p node = [node * bucket_size p..<node * bucket_size p + bucket_size p]"
    and "i \<in> set (bucket_slots p node) \<Longrightarrow> 0 < bucket_size p \<Longrightarrow>
      i div bucket_size p = node \<and> i < bucket_count p * bucket_size p"
proof -
  have "node * bucket_size p \<le> bucket_count p * bucket_size p"
    using assms(2) by simp
  then have "usize_mul node (bucket_size p) = node * bucket_size p"
    using assms(1) by (intro usize_mul_exact) linarith
  then show eq: "bucket_slots p node = [node * bucket_size p..<node * bucket_size p + bucket_size p]"
    by (simp add: bucket_slots_def bucket_base_def Let_def)
  assume i: "i \<in> set (bucket_slots p node)" and z: "0 < bucket_size p"
  have range: "node * bucket_size p \<le> i \<and> i < node * bucket_size p + bucket_size p"
    using i by (simp add: eq)
  have "Suc node * bucket_size p \<le> bucket_count p * bucket_size p"
    using assms(2) by (intro mult_le_mono1) simp
  moreover have "i div bucket_size p = node"
    using range by (intro div_nat_eqI) (simp_all add: mult.commute)
  ultimately show "i div bucket_size p = node \<and> i < bucket_count p * bucket_size p"
    using range by simp
qed

lemma slot_bucket:
  assumes "0 < bucket_size p" "bucket_count p * bucket_size p < 2 ^ 64"
    "i < bucket_count p * bucket_size p"
  shows "i \<in> set (bucket_slots p (i div bucket_size p))"
proof -
  have "i div bucket_size p < bucket_count p"
    using assms(3) by (simp add: less_mult_imp_div_less)
  then show ?thesis
    using assms(1) by (simp add: bucket_slots_eq(1) [OF assms(2)])
      (metis add.commute mod_div_mult_eq mod_less_divisor nat_add_left_cancel_less)
qed

lemma path_node_less:
  "params_ok p \<Longrightarrow> unat leaf < leaves p \<Longrightarrow> d < height p \<Longrightarrow> node_index p d leaf < bucket_count p"
  by (rule node_index_less_count)

section \<open>Moves\<close>

lemma swap_remove_facts:
  assumes "j < length xs"
  shows "add_mset (xs ! j) (mset (swap_remove j xs)) = mset xs"
    and "set (swap_remove j xs) \<subseteq> set xs" and "length (swap_remove j xs) = length xs - 1"
proof -
  obtain ys y where xs: "xs = ys @ [y]" using assms by (cases xs rule: rev_cases) auto
  show mset: "add_mset (xs ! j) (mset (swap_remove j xs)) = mset xs"
    using assms by (auto simp: xs swap_remove_def nth_append mset_update_nth less_Suc_eq)
  then show "set (swap_remove j xs) \<subseteq> set xs"
    by (metis mset_subset_eq_add_right add_mset_add_single union_commute set_mset_mono set_mset_mset)
  show "length (swap_remove j xs) = length xs - 1" by (simp add: xs swap_remove_def)
qed

lemma filter_slots_put:
  assumes "i < length xs" "xs ! i = EMPTY_BLOCK" "x \<noteq> EMPTY_BLOCK"
  shows "filter_mset (\<lambda>x. x \<noteq> EMPTY_BLOCK) (mset (xs[i := x])) =
    add_mset x (filter_mset (\<lambda>x. x \<noteq> EMPTY_BLOCK) (mset xs))"
proof -
  have "filter_mset (\<lambda>x. x \<noteq> EMPTY_BLOCK) (add_mset (xs ! i) (mset (xs[i := x]))) =
    filter_mset (\<lambda>x. x \<noteq> EMPTY_BLOCK) (add_mset x (mset xs))"
    by (simp only: mset_update_nth [OF assms(1)])
  then show ?thesis using assms by simp
qed

lemma filter_slots_clear:
  assumes "i < length xs" "xs ! i \<noteq> EMPTY_BLOCK"
  shows "add_mset (xs ! i) (filter_mset (\<lambda>x. x \<noteq> EMPTY_BLOCK) (mset (xs[i := EMPTY_BLOCK]))) =
    filter_mset (\<lambda>x. x \<noteq> EMPTY_BLOCK) (mset xs)"
proof -
  have "filter_mset (\<lambda>x. x \<noteq> EMPTY_BLOCK) (add_mset (xs ! i) (mset (xs[i := EMPTY_BLOCK]))) =
    filter_mset (\<lambda>x. x \<noteq> EMPTY_BLOCK) (add_mset EMPTY_BLOCK (mset xs))"
    by (simp only: mset_update_nth [OF assms(1)])
  then show ?thesis using assms by simp
qed

lemma sim_okI:
  assumes "sim_ok p N sim" and "ss_params t = ss_params sim"
    and "length (ss_slots t) = length (ss_slots sim)" and "ss_position_map t = ss_position_map sim"
    and "sim_homes t" and "sim_ids t = M"
    and "\<And>x. x \<in># M \<Longrightarrow> x \<noteq> EMPTY_BLOCK \<and> unat x < length (ss_position_map sim)"
  shows "sim_ok p M t"
  using assms by (simp add: sim_ok_def sim_shape_def)

lemma sim_homesD:
  assumes "sim_ok p M sim"
  shows "b \<in> set (ss_stash sim) \<Longrightarrow> sb_leaf b = ss_position_map sim ! unat (sb_id b)"
    and "i < length (ss_slots sim) \<Longrightarrow> ss_slots sim ! i \<noteq> EMPTY_BLOCK \<Longrightarrow>
      i div bucket_size p \<in> set (path_nodes p (ss_position_map sim ! unat (ss_slots sim ! i)))"
  using assms by (auto simp: sim_ok_def sim_homes_def sim_shape_def)

lemma sim_homesI:
  assumes "sim_ok p M sim" and "ss_params t = ss_params sim"
    and "\<And>b. b \<in> set (ss_stash t) \<Longrightarrow> sb_leaf b = ss_position_map t ! unat (sb_id b)"
    and "\<And>i. i < length (ss_slots t) \<Longrightarrow> ss_slots t ! i \<noteq> EMPTY_BLOCK \<Longrightarrow>
      i div bucket_size p \<in> set (path_nodes p (ss_position_map t ! unat (ss_slots t ! i)))"
  shows "sim_homes t"
  using assms by (simp add: sim_homes_def sim_ok_def sim_shape_def)

text \<open>A block is put into an empty slot on its path; it may come from the stash or be new.\<close>

lemma sim_ok_put:
  assumes ok: "sim_ok p M sim" and i: "i < length (ss_slots sim)" "ss_slots sim ! i = EMPTY_BLOCK"
    and x: "x \<noteq> EMPTY_BLOCK" "unat x < length (ss_position_map sim)"
    and home: "i div bucket_size p \<in> set (path_nodes p (ss_position_map sim ! unat x))"
  shows "sim_ok p (add_mset x M) (sim\<lparr>ss_slots := (ss_slots sim)[i := x]\<rparr>)" (is "sim_ok p _ ?t")
proof (rule sim_okI [OF ok])
  show "sim_homes ?t"
  proof (rule sim_homesI [OF ok])
    fix k
    assume "k < length (ss_slots ?t)" "ss_slots ?t ! k \<noteq> EMPTY_BLOCK"
    then show "k div bucket_size p \<in> set (path_nodes p (ss_position_map ?t ! unat (ss_slots ?t ! k)))"
      using sim_homesD(2) [OF ok, of k] home i(1) by (cases "k = i") simp_all
  qed (use sim_homesD(1) [OF ok] in simp_all)
  show "sim_ids ?t = add_mset x M"
    using sim_okD(5) [OF ok, symmetric] filter_slots_put [OF i x(1)] by (simp add: sim_ids_def)
qed (use x sim_okD(6) [OF ok] in auto)

lemma sim_ok_clear:
  assumes ok: "sim_ok p M sim" and i: "i < length (ss_slots sim)" "ss_slots sim ! i \<noteq> EMPTY_BLOCK"
  shows "sim_ok p (M - {#ss_slots sim ! i#}) (sim\<lparr>ss_slots := (ss_slots sim)[i := EMPTY_BLOCK]\<rparr>)"
      (is "sim_ok p _ ?t")
    and "ss_slots sim ! i \<in># M"
proof -
  have M: "M = add_mset (ss_slots sim ! i) (sim_ids ?t)"
    using sim_okD(5) [OF ok, symmetric] filter_slots_clear [OF i] by (simp add: sim_ids_def)
  then show "ss_slots sim ! i \<in># M" by simp
  show "sim_ok p (M - {#ss_slots sim ! i#}) ?t"
  proof (rule sim_okI [OF ok])
    show "sim_homes ?t"
    proof (rule sim_homesI [OF ok])
      fix k
      assume "k < length (ss_slots ?t)" "ss_slots ?t ! k \<noteq> EMPTY_BLOCK"
      then show "k div bucket_size p \<in> set (path_nodes p (ss_position_map ?t ! unat (ss_slots ?t ! k)))"
        using sim_homesD(2) [OF ok, of k] i(1) by (cases "k = i") simp_all
    qed (use sim_homesD(1) [OF ok] in simp_all)
    show "sim_ids ?t = M - {#ss_slots sim ! i#}" using arg_cong [OF M, of "\<lambda>N. N - {#ss_slots sim ! i#}"] by simp
  qed (use sim_okD(6) [OF ok] in \<open>auto dest: in_diffD\<close>)
qed

lemma sim_ok_push:
  assumes ok: "sim_ok p M sim" and b: "sb_id b \<noteq> EMPTY_BLOCK" "unat (sb_id b) < length (ss_position_map sim)"
    "sb_leaf b = ss_position_map sim ! unat (sb_id b)"
  shows "sim_ok p (add_mset (sb_id b) M) (sim\<lparr>ss_stash := ss_stash sim @ [b]\<rparr>)" (is "sim_ok p _ ?t")
proof (rule sim_okI [OF ok])
  show "sim_homes ?t"
    by (rule sim_homesI [OF ok]) (use sim_homesD [OF ok] b(3) in auto)
  show "sim_ids ?t = add_mset (sb_id b) M"
    using sim_okD(5) [OF ok, symmetric] by (simp add: sim_ids_def)
qed (use b sim_okD(6) [OF ok] in auto)

lemma sim_ok_pop:
  assumes ok: "sim_ok p M sim" and j: "j < length (ss_stash sim)"
  shows "sim_ok p (M - {#sb_id (ss_stash sim ! j)#}) (sim\<lparr>ss_stash := swap_remove j (ss_stash sim)\<rparr>)"
      (is "sim_ok p _ ?t")
    and "sb_id (ss_stash sim ! j) \<in># M"
    and "sb_leaf (ss_stash sim ! j) = ss_position_map sim ! unat (sb_id (ss_stash sim ! j))"
proof -
  note sw = swap_remove_facts [OF j]
  have "image_mset sb_id (mset (ss_stash sim)) =
      add_mset (sb_id (ss_stash sim ! j)) (image_mset sb_id (mset (swap_remove j (ss_stash sim))))"
    by (simp flip: sw(1))
  then have M: "M = add_mset (sb_id (ss_stash sim ! j)) (sim_ids ?t)"
    using sim_okD(5) [OF ok, symmetric] by (simp add: sim_ids_def)
  then show "sb_id (ss_stash sim ! j) \<in># M" by simp
  show "sb_leaf (ss_stash sim ! j) = ss_position_map sim ! unat (sb_id (ss_stash sim ! j))"
    using sim_homesD(1) [OF ok] j by simp
  show "sim_ok p (M - {#sb_id (ss_stash sim ! j)#}) ?t"
  proof (rule sim_okI [OF ok])
    show "sim_homes ?t"
      by (rule sim_homesI [OF ok]) (use sim_homesD [OF ok] sw(2) in auto)
    show "sim_ids ?t = M - {#sb_id (ss_stash sim ! j)#}"
      using arg_cong [OF M, of "\<lambda>N. N - {#sb_id (ss_stash sim ! j)#}"] by simp
  qed (use sim_okD(6) [OF ok] in \<open>auto dest: in_diffD\<close>)
qed

section \<open>Buckets and paths\<close>

lemma take_slot_ok:
  assumes ok: "sim_ok p M sim" and i: "i < bucket_count p * bucket_size p"
  shows "sim_ok p M (take_slot i sim)"
proof (cases "ss_slots sim ! i = EMPTY_BLOCK")
  case False
  let ?x = "ss_slots sim ! i"
  have i: "i < length (ss_slots sim)" using i sim_okD(3) [OF ok] by simp
  note clear = sim_ok_clear [OF ok i False]
  have "sim_ok p (add_mset ?x (M - {#?x#}))
      ((sim\<lparr>ss_slots := (ss_slots sim)[i := EMPTY_BLOCK]\<rparr>)
        \<lparr>ss_stash := ss_stash sim @ [\<lparr>sb_id = ?x, sb_leaf = ss_position_map sim ! unat ?x\<rparr>]\<rparr>)"
    using sim_ok_push [OF clear(1), of "\<lparr>sb_id = ?x, sb_leaf = ss_position_map sim ! unat ?x\<rparr>"]
      sim_okD(6) [OF ok clear(2)] by simp
  then show ?thesis using False clear(2) by (simp add: take_slot_def Let_def)
qed (simp add: take_slot_def ok)

lemma take_slot_params [simp]: "ss_params (take_slot i sim) = ss_params sim"
  by (simp add: take_slot_def Let_def)

lemma fold_ok:
  "(\<And>x sim. x \<in> set xs \<Longrightarrow> P sim \<Longrightarrow> P (f x sim)) \<Longrightarrow> P sim \<Longrightarrow> P (fold f xs sim)"
  by (induction xs arbitrary: sim) auto

lemma read_bucket_ok:
  assumes ok: "sim_ok p M sim" and node: "node < bucket_count p"
  shows "sim_ok p M (read_bucket_into_stash node sim)"
  unfolding read_bucket_into_stash_def sim_okD(1) [OF ok]
proof (rule fold_ok [where P = "sim_ok p M"])
  show "sim_ok p M sim" by (rule ok)
next
  fix i sim'
  assume "i \<in> set (bucket_slots p node)" "sim_ok p M sim'"
  then show "sim_ok p M (take_slot i sim')"
    using take_slot_ok bucket_slots_eq(2) [OF sim_okD(4) [OF ok] node]
      params_ok_pos(3) [OF sim_okD(2) [OF ok]] by blast
qed

lemma read_path_ok:
  assumes ok: "sim_ok p M sim" and leaf: "unat leaf < leaves p"
  shows "sim_ok p M (read_path_into_stash leaf sim)"
  unfolding read_path_into_stash_def sim_okD(1) [OF ok]
proof (rule fold_ok [where P = "sim_ok p M"])
  show "sim_ok p M sim" by (rule ok)
next
  fix d sim'
  assume "d \<in> set [0..<height p]" "sim_ok p M sim'"
  then show "sim_ok p M (read_bucket_into_stash (node_index (ss_params sim') d leaf) sim')"
    using read_bucket_ok [of p M sim'] node_index_less_count [OF sim_okD(2) [OF ok] leaf]
      sim_okD(1) [of p M sim'] by simp
qed

text \<open>A block taken from the stash for a node lies on the path of its own leaf there.\<close>

lemma fill_slot_ok:
  assumes ok: "sim_ok p M sim" and d: "d < height p" and node: "node < bucket_count p"
    and i: "i \<in> set (bucket_slots p node)"
  shows "sim_ok p M (fill_slot d node i sim)"
proof (cases "ss_slots sim ! i = EMPTY_BLOCK")
  case True
  let ?P = "\<lambda>j. node_contains_leaf (ss_params sim) d node (sb_leaf (ss_stash sim ! j))"
  have i: "i div bucket_size p = node" "i < length (ss_slots sim)"
    using bucket_slots_eq(2) [OF sim_okD(4) [OF ok] node i]
      params_ok_pos(3) [OF sim_okD(2) [OF ok]] sim_okD(3) [OF ok] by simp_all
  show ?thesis
  proof (cases "find ?P [0..<length (ss_stash sim)]")
    case None
    then show ?thesis using ok True by (simp add: fill_slot_def)
  next
    case (Some j)
    then have j: "j < length (ss_stash sim)" "node_contains_leaf p d node (sb_leaf (ss_stash sim ! j))"
      using find_Some_upt [OF Some] sim_okD(1) [OF ok] by auto
    note pop = sim_ok_pop [OF ok j(1)]
    let ?x = "sb_id (ss_stash sim ! j)"
    let ?s = "sim\<lparr>ss_stash := swap_remove j (ss_stash sim)\<rparr>"
    have home: "node \<in> set (path_nodes p (ss_position_map sim ! unat ?x))"
      using j(2) d pop(3) by (metis length_path_nodes node_contains_leaf_def nth_mem nth_path_nodes)
    have "sim_ok p (add_mset ?x (M - {#?x#})) (?s\<lparr>ss_slots := (ss_slots ?s)[i := ?x]\<rparr>)"
      using sim_okD(6) [OF ok pop(2)] i home True by (intro sim_ok_put [OF pop(1)]) simp_all
    then show ?thesis
      using True Some pop(2) by (subst sim_ok_same [symmetric]) (simp_all add: fill_slot_def Let_def)
  qed
qed (simp add: fill_slot_def ok)

lemma write_bucket_ok:
  assumes ok: "sim_ok p M sim" and d: "d < height p" and node: "node < bucket_count p"
  shows "sim_ok p M (write_bucket_from_stash d node sim)"
  unfolding write_bucket_from_stash_def sim_okD(1) [OF ok]
  by (rule fold_ok [where P = "sim_ok p M"]) (use fill_slot_ok [OF _ d node] ok in auto)

lemma write_path_ok:
  assumes ok: "sim_ok p M sim" and leaf: "unat leaf < leaves p"
  shows "sim_ok p M (write_path_from_stash leaf sim)"
  unfolding write_path_from_stash_def sim_okD(1) [OF ok]
proof (rule fold_ok [where P = "sim_ok p M"])
  show "sim_ok p M sim" by (rule ok)
next
  fix d sim'
  assume "d \<in> set (rev [0..<height p])" "sim_ok p M sim'"
  then show "sim_ok p M (write_bucket_from_stash d (node_index (ss_params sim') d leaf) sim')"
    using write_bucket_ok [of p M sim'] node_index_less_count [OF sim_okD(2) [OF ok] leaf]
      sim_okD(1) [of p M sim'] by simp
qed

lemma sim_evict_path_ok:
  "sim_ok p M sim \<Longrightarrow> unat leaf < leaves p \<Longrightarrow> sim_ok p M (sim_evict_path leaf sim)"
  by (simp add: sim_evict_path_def write_path_ok read_path_ok)

section \<open>Placing and finding blocks\<close>

lemma place_at_depths_ok:
  assumes ok: "sim_ok p M sim" and b: "sb_id b \<noteq> EMPTY_BLOCK" "unat (sb_id b) < length (ss_position_map sim)"
    "sb_leaf b = ss_position_map sim ! unat (sb_id b)" "unat (sb_leaf b) < leaves p"
    and depths: "\<forall>d \<in> set depths. d < height p"
  shows "case place_at_depths b depths sim of (placed, sim') \<Rightarrow>
    if placed then sim_ok p (add_mset (sb_id b) M) sim' \<and> ss_position_map sim' = ss_position_map sim
    else sim' = sim"
  using depths
proof (induction depths)
  case (Cons d depths)
  let ?node = "node_index p d (sb_leaf b)"
  show ?case
  proof (cases "find (\<lambda>i. ss_slots sim ! i = EMPTY_BLOCK) (bucket_slots p ?node)")
    case None
    then show ?thesis using Cons sim_okD(1) [OF ok] by simp
  next
    case (Some i)
    note i = find_Some_upt [OF Some]
    have d: "d < height p" using Cons.prems by simp
    have "?node < bucket_count p"
      using node_index_less_count [OF sim_okD(2) [OF ok] b(4) d] .
    from bucket_slots_eq(2) [OF sim_okD(4) [OF ok] this] i
    have "i div bucket_size p = ?node" "i < length (ss_slots sim)"
      using params_ok_pos(3) [OF sim_okD(2) [OF ok]] sim_okD(3) [OF ok] by simp_all
    moreover have "?node \<in> set (path_nodes p (ss_position_map sim ! unat (sb_id b)))"
      using d b(3) by (metis length_path_nodes nth_mem nth_path_nodes)
    ultimately have "sim_ok p (add_mset (sb_id b) M) (sim\<lparr>ss_slots := (ss_slots sim)[i := sb_id b]\<rparr>)"
      using i b by (intro sim_ok_put [OF ok]) simp_all
    then show ?thesis using Some sim_okD(1) [OF ok] by simp
  qed
qed simp

lemma place_or_stash_ok:
  assumes "sim_ok p M sim" and "sb_id b \<noteq> EMPTY_BLOCK" "unat (sb_id b) < length (ss_position_map sim)"
    "sb_leaf b = ss_position_map sim ! unat (sb_id b)" "unat (sb_leaf b) < leaves p"
  shows "sim_ok p (add_mset (sb_id b) M) (place_or_stash b sim) \<and>
    ss_position_map (place_or_stash b sim) = ss_position_map sim"
proof -
  obtain placed sim' where run: "place_at_depths b (rev [0..<height p]) sim = (placed, sim')" by fastforce
  then have "place_deepest b sim = (placed, sim')"
    by (simp add: place_deepest_def sim_okD(1) [OF assms(1)])
  then show ?thesis
    using place_at_depths_ok [OF assms, of "rev [0..<height p]"] run sim_ok_push [OF assms(1-4)]
    by (auto simp: place_or_stash_def split: if_splits)
qed

lemma remove_at_depths_cases:
  "case remove_at_depths x leaf depths sim of
     (Some b, sim') \<Rightarrow> b = \<lparr>sb_id = x, sb_leaf = leaf\<rparr> \<and>
       (\<exists>d \<in> set depths. \<exists>i \<in> set (bucket_slots (ss_params sim) (node_index (ss_params sim) d leaf)).
         ss_slots sim ! i = x \<and> sim' = sim\<lparr>ss_slots := (ss_slots sim)[i := EMPTY_BLOCK]\<rparr>)
   | (None, sim') \<Rightarrow> sim' = sim \<and>
       (\<forall>d \<in> set depths. \<forall>i \<in> set (bucket_slots (ss_params sim) (node_index (ss_params sim) d leaf)).
         ss_slots sim ! i \<noteq> x)"
proof (induction depths)
  case (Cons d depths)
  show ?case
  proof (cases "find (\<lambda>i. ss_slots sim ! i = x) (bucket_slots (ss_params sim) (node_index (ss_params sim) d leaf))")
    case None
    then have "\<forall>i \<in> set (bucket_slots (ss_params sim) (node_index (ss_params sim) d leaf)). ss_slots sim ! i \<noteq> x"
      by (simp add: find_None_iff)
    then show ?thesis using Cons None by (auto split: prod.splits option.splits)
  next
    case (Some i)
    then show ?thesis using find_Some_upt [OF Some] by auto
  qed
qed simp

text \<open>A block of the invariant is found: on the path of its leaf, or else in the stash.\<close>

lemma sim_find_block:
  assumes ok: "sim_ok p M sim" and x: "x \<in># M"
    and run: "(case remove_from_path x (ss_position_map sim ! unat x) sim of
        (Some b, sim1) \<Rightarrow> (Some b, sim1) | (None, sim1) \<Rightarrow> remove_from_stash x sim1) = (found, sim')"
  shows "\<exists>b. found = Some b \<and> sb_id b = x \<and> sim_ok p (M - {#x#}) sim' \<and>
    ss_position_map sim' = ss_position_map sim"
proof -
  let ?leaf = "ss_position_map sim ! unat x"
  have x: "x \<noteq> EMPTY_BLOCK" "unat ?leaf < leaves p" "x \<in># M"
    using sim_okD(6,7) [OF ok x] x by simp_all
  note z = params_ok_pos(3) [OF sim_okD(2) [OF ok]]
  obtain f s1 where path: "remove_at_depths x ?leaf [0..<height p] sim = (f, s1)" by fastforce
  then have rp: "remove_from_path x ?leaf sim = (f, s1)"
    by (simp add: remove_from_path_def sim_okD(1) [OF ok])
  show ?thesis
  proof (cases f)
    case (Some b)
    then obtain d i where d: "d < height p" "i \<in> set (bucket_slots p (node_index p d ?leaf))"
        "ss_slots sim ! i = x" "s1 = sim\<lparr>ss_slots := (ss_slots sim)[i := EMPTY_BLOCK]\<rparr>" "sb_id b = x"
      using remove_at_depths_cases [where x = x and leaf = ?leaf and depths = "[0..<height p]" and sim = sim] path sim_okD(1) [OF ok] by auto
    have "i < length (ss_slots sim)"
      using bucket_slots_eq(2) [OF sim_okD(4) [OF ok] node_index_less_count [OF sim_okD(2) [OF ok] x(2) d(1)]
        d(2) z] sim_okD(3) [OF ok] by simp
    then have "sim_ok p (M - {#x#}) s1" using sim_ok_clear(1) [OF ok, of i] d x by simp
    then show ?thesis using run rp Some d by auto
  next
    case None
    then have absent: "s1 = sim" "\<And>d i. d < height p \<Longrightarrow>
        i \<in> set (bucket_slots p (node_index p d ?leaf)) \<Longrightarrow> ss_slots sim ! i \<noteq> x"
      using remove_at_depths_cases [where x = x and leaf = ?leaf and depths = "[0..<height p]" and sim = sim] path sim_okD(1) [OF ok] by auto
    have "x \<notin> set (ss_slots sim)"
    proof
      assume "x \<in> set (ss_slots sim)"
      then obtain i where i: "i < length (ss_slots sim)" "ss_slots sim ! i = x"
        by (auto simp: in_set_conv_nth)
      then have "i div bucket_size p \<in> set (path_nodes p ?leaf)"
        using sim_homesD(2) [OF ok i(1)] x(1) by simp
      then obtain d where "d < height p" "i div bucket_size p = node_index p d ?leaf"
        by (auto simp: path_nodes_def)
      then show False
        using slot_bucket [OF z sim_okD(4) [OF ok], of i] i sim_okD(3) [OF ok] absent(2) [of d i] by simp
    qed
    then have "x \<in> sb_id ` set (ss_stash sim)"
      using x(3) sim_okD(5) [OF ok] by (auto simp: sim_ids_def)
    then obtain j where j: "find (\<lambda>j. sb_id (ss_stash sim ! j) = x) [0..<length (ss_stash sim)] = Some j"
      by (cases "find (\<lambda>j. sb_id (ss_stash sim ! j) = x) [0..<length (ss_stash sim)]")
        (auto simp: find_None_iff in_set_conv_nth)
    note at = find_Some_upt [OF j]
    then show ?thesis
      using run rp None absent(1) j sim_ok_pop(1) [OF ok, of j] by (auto simp: remove_from_stash_def)
  qed
qed

lemma sim_ok_remap:
  assumes ok: "sim_ok p M sim" and x: "x \<notin># M" and leaf: "unat leaf < leaves p"
  shows "sim_ok p M (sim\<lparr>ss_position_map := (ss_position_map sim)[unat x := leaf]\<rparr>)" (is "sim_ok p M ?t")
proof -
  have other: "ss_position_map ?t ! unat y = ss_position_map sim ! unat y" if "y \<in># M" for y
    using that x by (metis nth_list_update_neq stress_sim.select_convs(3) stress_sim.surjective
        stress_sim.update_convs(3) word_unat_eq_iff)
  have stash: "sb_id b \<in># M" if "b \<in> set (ss_stash sim)" for b
    using that sim_okD(5) [OF ok] by (auto simp: sim_ids_def)
  have slots: "ss_slots sim ! i \<in># M" if "i < length (ss_slots sim)" "ss_slots sim ! i \<noteq> EMPTY_BLOCK" for i
    using that sim_okD(5) [OF ok] nth_mem [OF that(1)] by (auto simp: sim_ids_def)
  have "sim_homes ?t"
  proof (rule sim_homesI [OF ok])
    fix i
    assume "i < length (ss_slots ?t)" "ss_slots ?t ! i \<noteq> EMPTY_BLOCK"
    then show "i div bucket_size p \<in> set (path_nodes p (ss_position_map ?t ! unat (ss_slots ?t ! i)))"
      using sim_homesD(2) [OF ok, of i] other [OF slots, of i] by simp
  next
    fix b
    assume "b \<in> set (ss_stash ?t)"
    then show "sb_leaf b = ss_position_map ?t ! unat (sb_id b)"
      using sim_homesD(1) [OF ok, of b] other [OF stash, of b] by simp
  qed simp
  moreover have "sim_ids ?t = M" using sim_okD(5) [OF ok] by (simp add: sim_ids_def)
  moreover have "sim_shape p ?t"
    using ok leaf by (auto simp: sim_ok_def sim_shape_def dest!: set_update_subset_insert [THEN subsetD])
  ultimately show ?thesis using ok by (simp add: sim_ok_def)
qed

lemma sim_random_leaf_bound:
  assumes "params_ok p" and "sim_random_leaf R p rng = (leaf, rng')"
  shows "unat leaf < leaves p"
proof -
  define m :: u32 where "m = word_of_nat (leaves p) - 1"
  obtain w where w: "leaf = w AND m"
    using assms(2) by (auto simp: sim_random_leaf_def m_def Let_def split: prod.splits)
  have n: "2 \<le> leaves p" "leaves p < 2 ^ 32" using assms(1) by (auto simp: params_ok_def)
  have m: "m = word_of_nat (leaves p - 1)" using n by (simp add: m_def of_nat_diff)
  have "unat m = leaves p - 1" unfolding m using n by (intro unat_word_of_nat_u32) simp
  moreover have "w AND m \<le> m" by (rule word_and_le1)
  ultimately show ?thesis using n w by (simp add: word_le_nat_alt)
qed

lemma sim_access_ok:
  assumes ok: "sim_ok p M sim" and x: "count M x = 1"
  shows "\<exists>sim' rng'. sim_access R x sim rng = Inr (sim', rng') \<and> sim_ok p M sim' \<and>
    length (ss_position_map sim') = length (ss_position_map sim)"
proof -
  have "x \<in># M" using x by (metis count_eq_zero_iff zero_neq_one)
  moreover have "x \<notin># M - {#x#}" using x by (simp add: not_in_iff)
  ultimately have x: "x \<in># M" "x \<notin># M - {#x#}" by auto
  have px: "x \<noteq> EMPTY_BLOCK" "unat x < length (ss_position_map sim)" using sim_okD(6) [OF ok x(1)] by simp_all
  obtain found s1 where run: "(case remove_from_path x (ss_position_map sim ! unat x) sim of
        (Some b, s) \<Rightarrow> (Some b, s) | (None, s) \<Rightarrow> remove_from_stash x s) = (found, s1)"
    by fastforce
  obtain b where b: "found = Some b" "sb_id b = x" "sim_ok p (M - {#x#}) s1"
      "ss_position_map s1 = ss_position_map sim"
    using sim_find_block [OF ok x(1) run] by blast
  obtain leaf rng' where leaf: "sim_random_leaf R p rng = (leaf, rng')" by fastforce
  note small = sim_random_leaf_bound [OF sim_okD(2) [OF ok] leaf]
  let ?t = "s1\<lparr>ss_position_map := (ss_position_map s1)[unat x := leaf]\<rparr>"
  have ok2: "sim_ok p (M - {#x#}) ?t" by (rule sim_ok_remap [OF b(3) x(2) small])
  have "sim_ok p (add_mset x (M - {#x#})) (?t\<lparr>ss_stash := ss_stash ?t @ [b\<lparr>sb_leaf := leaf\<rparr>]\<rparr>)"
    using sim_ok_push [OF ok2, of "b\<lparr>sb_leaf := leaf\<rparr>"] px b by simp
  moreover have "sim_access R x sim rng =
      Inr (s1\<lparr>ss_position_map := (ss_position_map s1)[unat x := leaf],
        ss_stash := ss_stash s1 @ [b\<lparr>sb_leaf := leaf\<rparr>]\<rparr>, rng')"
    using px run b leaf sim_okD(1) [OF b(3)]
    by (auto simp: sim_access_def Let_def ok_or_def split: prod.splits option.splits)
  ultimately show ?thesis using x(1) b(4) by simp
qed

section \<open>Construction\<close>

abbreviation all_ids :: "nat \<Rightarrow> u32 multiset" where
  "all_ids n \<equiv> mset (map word_of_nat [0..<n])"

lemma all_ids_count:
  assumes "n < 2 ^ 32" and "k < n"
  shows "count (all_ids n) (word_of_nat k) = 1"
proof -
  have "inj_on (word_of_nat :: nat \<Rightarrow> u32) {0..<n}"
    by (rule inj_onI) (metis assms(1) atLeastLessThan_iff less_trans unat_word_of_nat_u32)
  then have "distinct (map (word_of_nat :: nat \<Rightarrow> u32) [0..<n])"
    by (simp add: distinct_map)
  moreover have "word_of_nat k \<in> set (map (word_of_nat :: nat \<Rightarrow> u32) [0..<n])" using assms(2) by simp
  ultimately show ?thesis by (meson distinct_count_atmost_1)
qed

lemma sim_ok_empty:
  assumes "params_ok (ss_params sim)" and "bucket_count (ss_params sim) * bucket_size (ss_params sim) < 2 ^ 64"
    and "ss_slots sim = replicate (bucket_count (ss_params sim) * bucket_size (ss_params sim)) EMPTY_BLOCK"
    and "ss_position_map sim = []" and "ss_stash sim = []"
  shows "sim_ok (ss_params sim) {#} sim"
  using assms by (simp add: sim_ok_def sim_shape_def sim_homes_def sim_ids_def)

lemma not_empty_block: "k < 2 ^ 32 - 1 \<Longrightarrow> word_of_nat k \<noteq> EMPTY_BLOCK"
proof
  assume k: "k < 2 ^ 32 - 1" and eq: "word_of_nat k = EMPTY_BLOCK"
  have "unat (word_of_nat k :: u32) = k" using k by (intro unat_word_of_nat_u32) simp
  moreover have "unat (- 1 :: u32) = 2 ^ 32 - 1" by (simp add: unsigned_minus_1_eq_mask mask_eq_exp_minus_1)
  ultimately show False using k eq by (simp add: EMPTY_BLOCK_def)
qed

lemma sim_insert_ok:
  assumes ok: "sim_ok p (all_ids k) sim" and len: "length (ss_position_map sim) = k" and k: "k < 2 ^ 32 - 1"
  shows "sim_ok p (all_ids (Suc k)) (fst (sim_insert R k (sim, rng))) \<and>
    length (ss_position_map (fst (sim_insert R k (sim, rng)))) = Suc k"
proof -
  obtain leaf rng' where leaf: "sim_random_leaf R p rng = (leaf, rng')" by fastforce
  note small = sim_random_leaf_bound [OF sim_okD(2) [OF ok] leaf]
  let ?t = "sim\<lparr>ss_position_map := ss_position_map sim @ [leaf]\<rparr>"
  have unat: "unat (word_of_nat k :: u32) = k" using k by (intro unat_word_of_nat_u32) simp
  have below: "unat y < k" if "y \<in># all_ids k" for y :: u32
    using sim_okD(6) [OF ok that] len by simp
  have stash: "sb_id b \<in># all_ids k" if "b \<in> set (ss_stash sim)" for b
    using that sim_okD(5) [OF ok, symmetric] by (simp add: sim_ids_def)
  have slots: "ss_slots sim ! i \<in># all_ids k"
    if "i < length (ss_slots sim)" "ss_slots sim ! i \<noteq> EMPTY_BLOCK" for i
    using that nth_mem [OF that(1)] unfolding sim_okD(5) [OF ok, symmetric] sim_ids_def by simp
  have "sim_homes ?t"
  proof (rule sim_homesI [OF ok])
    fix i
    assume "i < length (ss_slots ?t)" "ss_slots ?t ! i \<noteq> EMPTY_BLOCK"
    then show "i div bucket_size p \<in> set (path_nodes p (ss_position_map ?t ! unat (ss_slots ?t ! i)))"
      using sim_homesD(2) [OF ok, of i] below [OF slots, of i] len by (simp add: nth_append)
  next
    fix b
    assume "b \<in> set (ss_stash ?t)"
    then show "sb_leaf b = ss_position_map ?t ! unat (sb_id b)"
      using sim_homesD(1) [OF ok, of b] below [OF stash, of b] len by (simp add: nth_append)
  qed simp
  then have ok2: "sim_ok p (all_ids k) ?t"
    using ok small sim_okD(5) [OF ok] by (fastforce simp: sim_ok_def sim_shape_def sim_ids_def)
  have "sim_ok p (add_mset (word_of_nat k) (all_ids k)) (place_or_stash \<lparr>sb_id = word_of_nat k, sb_leaf = leaf\<rparr> ?t) \<and>
      ss_position_map (place_or_stash \<lparr>sb_id = word_of_nat k, sb_leaf = leaf\<rparr> ?t) = ss_position_map ?t"
    using place_or_stash_ok [OF ok2, of "\<lparr>sb_id = word_of_nat k, sb_leaf = leaf\<rparr>"]
      not_empty_block [OF k] small len unat by (simp add: nth_append)
  then show ?thesis
    using leaf sim_okD(1) [OF ok] len by (simp add: sim_insert_def Let_def)
qed

lemma sim_inserts_ok:
  assumes ok: "sim_ok p {#} sim" and len: "ss_position_map sim = []"
  shows "k \<le> 2 ^ 32 - 1 \<Longrightarrow>
    (\<exists>s r. fold (sim_insert R) [0..<k] (sim, rng) = (s, r) \<and> sim_ok p (all_ids k) s \<and>
      length (ss_position_map s) = k)"
proof (induction k)
  case (Suc k)
  then obtain s r where "fold (sim_insert R) [0..<k] (sim, rng) = (s, r)" "sim_ok p (all_ids k) s"
      "length (ss_position_map s) = k"
    by auto
  then show ?case
    using sim_insert_ok [of p k s R r] Suc.prems by (cases "sim_insert R k (s, r)") simp
qed (use ok len in simp)

lemma sim_fill_ok:
  assumes ok: "sim_ok p {#} sim" and len: "ss_position_map sim = []" and n: "logical_blocks p \<le> 2 ^ 32 - 1"
  shows "sim_ok p (all_ids (logical_blocks p)) (sim_fill R seed sim) \<and>
    length (ss_position_map (sim_fill R seed sim)) = logical_blocks p"
proof -
  obtain s r where run: "fold (sim_insert R) [0..<logical_blocks p] (sim, rg_from_seed R seed) = (s, r)"
      "sim_ok p (all_ids (logical_blocks p)) s" "length (ss_position_map s) = logical_blocks p"
    using sim_inserts_ok [OF ok len n, of R "rg_from_seed R seed"] by blast
  moreover have "sim_ok p (all_ids (logical_blocks p)) (s\<lparr>ss_init_stash := length (ss_stash s)\<rparr>)"
    using run(2) by (subst sim_ok_same [of _ s]) simp_all
  ultimately show ?thesis
    by (simp add: sim_fill_def Let_def sim_okD(1) [OF ok])
qed

end
