(* ===== verification/Stress_Theorems.thy ===== *)
theory Stress_Theorems
  imports Circuit_Stress Stress_Invariant Packed_Blocks
begin

text \<open>
  The Circuit ORAM stress run: it always returns a report, and through the whole run every block is
  held exactly once, on the path of its leaf or in the stash.
\<close>

section \<open>Percentiles\<close>

definition percentile_rank :: "nat \<Rightarrow> nat \<Rightarrow> nat \<Rightarrow> nat" where
  "percentile_rank len num den = max (div_ceil (len * num) den) 1"

lemma percentile_rank_bounds:
  assumes "0 < len" "num \<le> den" "0 < den"
  shows "1 \<le> percentile_rank len num den" "percentile_rank len num den \<le> len"
    "len * num \<le> percentile_rank len num den * den"
proof -
  have "div_ceil (len * num) den \<le> len"
  proof (rule ccontr)
    assume "\<not> div_ceil (len * num) den \<le> len"
    then have "len < div_ceil (len * num) den" by simp
    then have "len * den < len * num" using div_ceil_bounds [OF assms(3)] by blast
    then show False using assms by simp
  qed
  then show "percentile_rank len num den \<le> len" "1 \<le> percentile_rank len num den"
    using assms(1) by (simp_all add: percentile_rank_def)
  have "\<not> div_ceil (len * num) den * den < len * num"
    using div_ceil_bounds [OF assms(3), of "div_ceil (len * num) den" "len * num"] by simp
  then have "len * num \<le> div_ceil (len * num) den * den" by simp
  also have "\<dots> \<le> percentile_rank len num den * den" by (simp add: percentile_rank_def)
  finally show "len * num \<le> percentile_rank len num den * den" .
qed

lemma percentile_rank_mono: "num \<le> num' \<Longrightarrow> percentile_rank len num den \<le> percentile_rank len num' den"
  unfolding percentile_rank_def div_ceil_def by (intro max.mono div_le_mono diff_le_mono add_le_mono) simp_all

lemma percentile_eq:
  "length xs * num < 2 ^ 64 \<Longrightarrow> percentile xs num den = xs ! (percentile_rank (length xs) num den - 1)"
  by (simp add: percentile_def percentile_rank_def Let_def)

lemma percentile_mono:
  assumes "sorted xs" "xs \<noteq> []" "num \<le> num'" "num' \<le> den" "0 < den" "length xs * num' < 2 ^ 64"
  shows "percentile xs num den \<le> percentile xs num' den" "percentile xs num' den \<le> last xs"
proof -
  have len: "0 < length xs" using assms(2) by simp
  have "length xs * num \<le> length xs * num'" using assms(3) by simp
  then have lt: "length xs * num < 2 ^ 64" using assms(6) by linarith
  note b = percentile_rank_bounds [OF len _ assms(5)]
  have r: "percentile_rank (length xs) num den \<le> percentile_rank (length xs) num' den"
      "percentile_rank (length xs) num' den \<le> length xs" "1 \<le> percentile_rank (length xs) num den"
    using percentile_rank_mono [OF assms(3)] b(2) [of num'] b(1) [of num] assms(3,4) by simp_all
  show "percentile xs num den \<le> percentile xs num' den"
    unfolding percentile_eq [OF lt] percentile_eq [OF assms(6)]
    using r len by (intro sorted_nth_mono [OF assms(1)]) linarith+
  show "percentile xs num' den \<le> last xs"
    unfolding percentile_eq [OF assms(6)] last_conv_nth [OF assms(2)]
    using r len by (intro sorted_nth_mono [OF assms(1)]) linarith+
qed

text \<open>At least \<open>num / den\<close> of the samples are at most the percentile.\<close>

lemma percentile_share:
  assumes "sorted xs" "xs \<noteq> []" "num \<le> den" "0 < den" "length xs * num < 2 ^ 64"
  shows "length xs * num \<le> length (filter (\<lambda>x. x \<le> percentile xs num den) xs) * den"
proof -
  let ?r = "percentile_rank (length xs) num den"
  have len: "0 < length xs" using assms(2) by simp
  note b = percentile_rank_bounds [OF len assms(3,4)]
  have "{0..<?r} \<subseteq> {i. i < length xs \<and> xs ! i \<le> percentile xs num den}"
    using b by (auto simp: percentile_eq [OF assms(5)] intro!: sorted_nth_mono [OF assms(1)])
  then have "card {0..<?r} \<le> card {i. i < length xs \<and> xs ! i \<le> percentile xs num den}"
    by (intro card_mono) simp_all
  then have "?r \<le> length (filter (\<lambda>x. x \<le> percentile xs num den) xs)"
    by (simp add: length_filter_conv_card)
  then have "?r * den \<le> length (filter (\<lambda>x. x \<le> percentile xs num den) xs) * den" by simp
  with b(3) show ?thesis by linarith
qed

lemma from_samples_ordered:
  assumes "length samples * 1000 < 2 ^ 64"
  shows "sa_p50 (from_samples F samples) \<le> sa_p99 (from_samples F samples)"
    "sa_p99 (from_samples F samples) \<le> sa_p999 (from_samples F samples)"
    "sa_p999 (from_samples F samples) \<le> sa_max (from_samples F samples)"
proof -
  have *: "samples \<noteq> [] \<Longrightarrow> sort samples \<noteq> []" by (metis length_0_conv length_sort)
  have lt: "length (sort samples) * 990 < 2 ^ 64" "length (sort samples) * 999 < 2 ^ 64"
    using assms by simp_all
  note a = percentile_mono [OF sorted_sort [of samples] *, of 500 990 1000]
    and b = percentile_mono [OF sorted_sort [of samples] *, of 990 999 1000]
  show "sa_p50 (from_samples F samples) \<le> sa_p99 (from_samples F samples)"
    using a(1) lt by (cases "samples = []") (simp_all add: from_samples_def Let_def)
  show "sa_p99 (from_samples F samples) \<le> sa_p999 (from_samples F samples)"
    using b(1) lt by (cases "samples = []") (simp_all add: from_samples_def Let_def)
  show "sa_p999 (from_samples F samples) \<le> sa_max (from_samples F samples)"
    using b(2) lt by (cases "samples = []") (simp_all add: from_samples_def Let_def)
qed

section \<open>The run\<close>

definition run_ok :: "oram_params \<Rightarrow> nat \<Rightarrow> 'r stress_run \<Rightarrow> bool" where
  "run_ok p k run \<longleftrightarrow> sim_ok p (all_ids (logical_blocks p)) (sr_sim run) \<and>
     schedule_ok (sr_schedule run) \<and> s_leaf_bits (sr_schedule run) = leaf_bits p \<and>
     evictions_per_access (sr_schedule run) = 2 \<and> unat (issued_accesses (sr_schedule run)) = k"

lemma next_leaf_bound:
  "params_ok p \<Longrightarrow> s_leaf_bits s = leaf_bits p \<Longrightarrow> unat (next_eviction_leaf s) < leaves p"
  using eviction_leaf_in_range [of p "completed_evictions s"]
  by (simp add: next_eviction_leaf_def eviction_leaf_at_def)

lemma drain_public_loop_ok:
  assumes "sim_ok p M sim" and "schedule_ok s" and "s_leaf_bits s = leaf_bits p"
  shows "\<exists>drained' sim' s'. drain_public_loop b drained sim s = Inr (drained', sim', s') \<and>
    sim_ok p M sim' \<and> schedule_ok s' \<and> s_leaf_bits s' = leaf_bits p \<and>
    evictions_per_access s' = evictions_per_access s \<and> issued_accesses s' = issued_accesses s \<and>
    debt s' = debt s - b"
  using assms
proof (induction b arbitrary: drained sim s)
  case (Suc b)
  show ?case
  proof (cases "debt s = 0")
    case True
    then show ?thesis using Suc.prems by (simp add: complete_one_eviction_none)
  next
    case False
    let ?t = "s\<lparr>completed_evictions := completed_evictions s + 1\<rparr>"
    have one: "complete_one_eviction s = (Inr (Some (next_eviction_leaf s)), ?t)" "schedule_ok ?t"
        "debt ?t = debt s - 1"
      using complete_one_eviction_some [OF Suc.prems(2)] False by simp_all
    have "sim_ok p M (sim_evict_path (next_eviction_leaf s) sim)"
      using sim_evict_path_ok [OF Suc.prems(1)] next_leaf_bound [OF sim_okD(2) [OF Suc.prems(1)] Suc.prems(3)] .
    from Suc.IH [OF this one(2), of "drained + 1"] Suc.prems(3) show ?thesis
      by (simp add: one)
  qed
qed simp

lemma drain_counted_ok:
  assumes "run_ok p k run"
  shows "\<exists>run'. drain_counted m b run = Inr run' \<and> run_ok p k run' \<and>
    debt (sr_schedule run') \<le> debt (sr_schedule run) \<and> sr_max_debt run' = sr_max_debt run \<and>
    sr_samples run' = sr_samples run \<and> sr_rng run' = sr_rng run"
proof -
  have ok: "sim_ok p (all_ids (logical_blocks p)) (sr_sim run)" "schedule_ok (sr_schedule run)"
      "s_leaf_bits (sr_schedule run) = leaf_bits p"
    using assms by (simp_all add: run_ok_def)
  obtain d' sim' s' where "drain_public_evictions (sr_sim run) (sr_schedule run) b = Inr (d', sim', s')"
      "sim_ok p (all_ids (logical_blocks p)) sim'" "schedule_ok s'" "s_leaf_bits s' = leaf_bits p"
      "evictions_per_access s' = evictions_per_access (sr_schedule run)"
      "issued_accesses s' = issued_accesses (sr_schedule run)" "debt s' = debt (sr_schedule run) - unat b"
    using drain_public_loop_ok [OF ok, of "unat b" 0] unfolding drain_public_evictions_def by blast
  then show ?thesis
    using assms by (simp add: drain_counted_def run_ok_def Let_def)
qed

lemma drain_to_cap_ok:
  assumes "run_ok p k run"
  shows "\<exists>run'. drain_to_cap m cap run = Inr run' \<and> run_ok p k run' \<and>
    debt (sr_schedule run') \<le> unat cap \<and> sr_max_debt run' = sr_max_debt run \<and>
    sr_samples run' = sr_samples run \<and> sr_rng run' = sr_rng run"
  using assms
proof (induction m cap run rule: drain_to_cap.induct)
  case (1 m cap run)
  let ?s = "sr_schedule run"
  have ok: "schedule_ok ?s" using 1(2) by (simp add: run_ok_def)
  note pending = pending_evictions_ok [OF ok]
  have un: "unat (word_of_nat (debt ?s) :: u64) = debt ?s" by (rule unat_word_of_nat_u64 [OF debt_bound [OF ok]])
  show ?case
  proof (cases "cap < word_of_nat (debt ?s)")
    case False
    then have "debt ?s \<le> unat cap" using un by (simp add: word_less_nat_alt)
    then show ?thesis using False pending 1(2) by (simp add: drain_to_cap.simps [of m cap run])
  next
    case True
    obtain run1 where run1: "drain_counted m 1 run = Inr run1" "run_ok p k run1"
        "sr_max_debt run1 = sr_max_debt run" "sr_samples run1 = sr_samples run" "sr_rng run1 = sr_rng run"
      using drain_counted_ok [OF 1(2), of m 1] by blast
    then show ?thesis
      using "1.IH" [OF pending True run1(1) run1(2)] pending True
      by (simp add: drain_to_cap.simps [of m cap run])
  qed
qed

lemma next_logical_id_known:
  assumes "next_logical_id R pat step n rng = (x, rng')" and "0 < n" and "n \<le> 2 ^ 32 - 1"
  shows "\<exists>j < n. x = word_of_nat j"
proof (cases pat)
  case RoundRobin
  then show ?thesis using assms by (auto simp: next_logical_id_def intro: exI [of _ "step mod n"])
next
  case Random
  then obtain w where w: "x = ucast (w mod word_of_nat n :: u64)"
    using assms(1) by (auto simp: next_logical_id_def split: prod.splits)
  have n: "unat (word_of_nat n :: u64) = n" using assms(3) by (intro unat_word_of_nat_u64) simp
  have lt: "unat (w mod word_of_nat n) < n" using assms(2) n by (simp add: unat_mod_distrib)
  have "x = word_of_nat (unat (w mod word_of_nat n))" unfolding w by simp
  with lt show ?thesis by blast
qed

lemma record_access_run:
  assumes "run_ok p k run" and "(k + 1) * 2 < 2 ^ 64"
  shows "\<exists>s. record_access (sr_schedule run) = (Inr (), s) \<and> schedule_ok s \<and> s_leaf_bits s = leaf_bits p \<and>
    evictions_per_access s = 2 \<and> unat (issued_accesses s) = k + 1"
proof -
  let ?s = "sr_schedule run"
  have k: "unat (issued_accesses ?s) = k" "evictions_per_access ?s = 2" "schedule_ok ?s"
    using assms(1) by (simp_all add: run_ok_def)
  have lt: "unat (issued_accesses ?s) + 1 < 2 ^ 64" using k assms(2) by simp
  then have "unat (issued_accesses ?s + 1) = k + 1" using k by (simp add: unat_word_ariths)
  then show ?thesis
    using record_access_eq [OF lt] assms k by (auto simp: run_ok_def schedule_ok_def)
qed

text \<open>The debt cap of the configuration is met at the end of a step.\<close>

definition capped :: "stress_config \<Rightarrow> 'r stress_run \<Rightarrow> bool" where
  "capped cfg run \<longleftrightarrow> (\<forall>cap. sc_max_debt cfg = Some cap \<longrightarrow>
     sr_max_debt run \<le> cap \<and> debt (sr_schedule run) \<le> unat cap)"

lemma stress_settle_ok:
  assumes run1: "run_ok p k run"
    and cap: "\<And>cap. sc_max_debt cfg = Some cap \<Longrightarrow> sr_max_debt run \<le> cap"
  shows "\<exists>run'. stress_settle cfg step m run = Inr run' \<and> run_ok p k run' \<and> capped cfg run' \<and>
    length (sr_samples run') = length (sr_samples run) + (if sc_warmup_ops cfg \<le> step then 1 else 0)"
proof -
  obtain run2 where run2: "drain_counted m (sc_drain_per_access cfg) run = Inr run2"
      "run_ok p k run2" "sr_samples run2 = sr_samples run" "sr_max_debt run2 = sr_max_debt run"
    using drain_counted_ok [OF run1, of m "sc_drain_per_access cfg"] by blast
  define burst where "burst = (if sc_burst_interval cfg \<noteq> 0 \<and> (step + 1) mod sc_burst_interval cfg = 0
    then drain_counted m (sc_burst_budget cfg) run2 else Inr run2)"
  obtain run3 where run3: "burst = Inr run3"
      "run_ok p k run3" "sr_samples run3 = sr_samples run" "sr_max_debt run3 = sr_max_debt run"
  proof (cases "sc_burst_interval cfg \<noteq> 0 \<and> (step + 1) mod sc_burst_interval cfg = 0")
    case True
    then show thesis using that drain_counted_ok [OF run2(2), of m "sc_burst_budget cfg"] run2
      unfolding burst_def by (simp only: if_True) metis
  next
    case False
    then show thesis using that run2 unfolding burst_def by (simp only: if_False)
  qed
  define to_cap where "to_cap = (case sc_max_debt cfg of Some cap \<Rightarrow> drain_to_cap m cap run3 | None \<Rightarrow> Inr run3)"
  obtain run4 where run4: "to_cap = Inr run4" "run_ok p k run4" "sr_samples run4 = sr_samples run"
      "sr_max_debt run4 = sr_max_debt run"
      "\<forall>cap. sc_max_debt cfg = Some cap \<longrightarrow> debt (sr_schedule run4) \<le> unat cap"
  proof (cases "sc_max_debt cfg")
    case (Some cap)
    then show thesis using that drain_to_cap_ok [OF run3(2), of m cap] run3 by (auto simp: to_cap_def)
  qed (use that run3 in \<open>auto simp: to_cap_def\<close>)
  have ok4: "schedule_ok (sr_schedule run4)" using run4(2) by (simp add: run_ok_def)
  note pending = pending_evictions_ok [OF ok4]
  let ?d = "word_of_nat (debt (sr_schedule run4)) :: u64"
  have un: "unat ?d = debt (sr_schedule run4)" by (rule unat_word_of_nat_u64 [OF debt_bound [OF ok4]])
  define run5 where "run5 = run4\<lparr>sr_max_debt := max (sr_max_debt run4) ?d\<rparr>"
  define run6 where "run6 = (if sc_warmup_ops cfg \<le> step then stress_sample cfg run5 else run5)"
  have "stress_settle cfg step m run = Inr run6"
    unfolding stress_settle_def run2(1) rbind.simps burst_def [symmetric] run3(1) to_cap_def [symmetric]
      run4(1) pending by (simp only: Let_def run6_def run5_def)
  moreover have "run_ok p k run6"
    using run4(2) by (simp add: run6_def run5_def stress_sample_def run_ok_def Let_def)
  moreover have "capped cfg run6"
    using cap run4(4,5) un by (auto simp: capped_def run6_def run5_def stress_sample_def Let_def word_le_nat_alt)
  moreover have "length (sr_samples run6) = length (sr_samples run) + (if sc_warmup_ops cfg \<le> step then 1 else 0)"
    using run4(3) by (simp add: run6_def run5_def stress_sample_def Let_def)
  ultimately show ?thesis by blast
qed

lemma stress_step_ok:
  assumes ok: "run_ok p k run" and cap: "capped cfg run" and p: "sc_params cfg = p"
    and n: "logical_blocks p \<le> 2 ^ 32 - 1" and k: "(k + 1) * 2 < 2 ^ 64"
  shows "\<exists>run'. stress_step R cfg step run = Inr run' \<and> run_ok p (k + 1) run' \<and> capped cfg run' \<and>
    length (sr_samples run') = length (sr_samples run) + (if sc_warmup_ops cfg \<le> step then 1 else 0)"
proof -
  have sim: "sim_ok p (all_ids (logical_blocks p)) (sr_sim run)" using ok by (simp add: run_ok_def)
  obtain x rng where draw: "next_logical_id R (sc_pattern cfg) step (logical_blocks p) (sr_rng run) = (x, rng)"
    by fastforce
  obtain j where j: "j < logical_blocks p" "x = word_of_nat j"
    using next_logical_id_known [OF draw _ n] params_ok_pos(1) [OF sim_okD(2) [OF sim]] by auto
  have "count (all_ids (logical_blocks p)) x = 1"
    unfolding j(2) using n j(1) by (intro all_ids_count) simp_all
  from sim_access_ok [OF sim this, of R rng]
  obtain sim' rng' where acc: "sim_access R x (sr_sim run) rng = Inr (sim', rng')"
      "sim_ok p (all_ids (logical_blocks p)) sim'"
    by blast
  obtain s where s: "record_access (sr_schedule run) = (Inr (), s)" "schedule_ok s" "s_leaf_bits s = leaf_bits p"
      "evictions_per_access s = 2" "unat (issued_accesses s) = k + 1"
    using record_access_run [OF ok k] by blast
  let ?m = "sc_warmup_ops cfg \<le> step" and ?run0 = "run\<lparr>sr_sim := sim', sr_rng := rng', sr_schedule := s\<rparr>"
  define run1 where "run1 = (if ?m then ?run0\<lparr>sr_metadata_path_scans := sr_metadata_path_scans ?run0 + 1,
      sr_payload_path_scans := sr_payload_path_scans ?run0 + 1\<rparr> else ?run0)"
  have run1: "run_ok p (k + 1) run1" "sr_samples run1 = sr_samples run" "sr_max_debt run1 = sr_max_debt run"
    using acc(2) s by (simp_all add: run1_def run_ok_def)
  have "stress_step R cfg step run = stress_settle cfg step ?m run1"
    unfolding stress_step_def p draw Let_def prod.case acc(1) rbind.simps s(1) sum.case run1_def by (rule refl)
  then show ?thesis
    using stress_settle_ok [OF run1(1), of cfg step ?m] run1 cap by (simp add: capped_def)
qed

lemma stress_loop_ok:
  assumes ok: "run_ok p 0 run" and cap: "capped cfg run" and p: "sc_params cfg = p" and empty: "sr_samples run = []"
    and n: "logical_blocks p \<le> 2 ^ 32 - 1"
  shows "k * 2 < 2 ^ 64 \<Longrightarrow> \<exists>run'. rfoldM (stress_step R cfg) [0..<k] run = Inr run' \<and> run_ok p k run' \<and>
    capped cfg run' \<and> length (sr_samples run') = k - sc_warmup_ops cfg"
proof (induction k)
  case (Suc k)
  then obtain r where r: "rfoldM (stress_step R cfg) [0..<k] run = Inr r" "run_ok p k r" "capped cfg r"
      "length (sr_samples r) = k - sc_warmup_ops cfg"
    by auto
  have "(k + 1) * 2 < 2 ^ 64" using Suc.prems by simp
  from stress_step_ok [OF r(2,3) p n this, of R k]
  obtain r' where r': "stress_step R cfg k r = Inr r'" "run_ok p (k + 1) r'" "capped cfg r'"
      "length (sr_samples r') = length (sr_samples r) + (if sc_warmup_ops cfg \<le> k then 1 else 0)"
    by blast
  then show ?case
    using r by (auto simp: rfoldM_append Suc_diff_le)
qed (use ok cap empty in simp)

lemma stress_start_ok:
  assumes "params_ok (sc_params cfg)" and "validate_stress_config cfg = Inr ()"
  shows "\<exists>start. stress_start R cfg = Inr start \<and> run_ok (sc_params cfg) 0 start \<and> capped cfg start \<and>
    sr_samples start = []"
proof -
  let ?p = "sc_params cfg"
  have n: "logical_blocks ?p \<le> 2 ^ 32 - 1" and slots: "bucket_count ?p * bucket_size ?p < 2 ^ 64"
    using assms(2) by (auto simp: validate_stress_config_def Let_def checked_mul_usize_def ok_or_def split: if_splits)
  define empty where "empty = \<lparr>ss_params = ?p, ss_slots = replicate (bucket_count ?p * bucket_size ?p) EMPTY_BLOCK,
       ss_position_map = [], ss_stash = [], ss_init_stash = 0\<rparr>"
  have "sim_ok ?p {#} empty" using sim_ok_empty [of empty] assms(1) slots by (simp add: empty_def)
  then have fill: "sim_ok ?p (all_ids (logical_blocks ?p)) (sim_fill R (sc_seed cfg) empty)"
    using sim_fill_ok [of ?p empty R "sc_seed cfg"] n by (simp add: empty_def)
  have new: "stress_sim_new R ?p (sc_seed cfg) = Inr (sim_fill R (sc_seed cfg) empty)"
    using slots by (simp add: stress_sim_new_def checked_mul_usize_def ok_or_def empty_def)
  have sched: "schedule_ok (schedule_new ?p)" "debt (schedule_new ?p) = 0" "s_leaf_bits (schedule_new ?p) = leaf_bits ?p"
      "evictions_per_access (schedule_new ?p) = 2" "issued_accesses (schedule_new ?p) = 0"
    by (simp_all add: schedule_new_def with_rate_def schedule_ok_def debt_def DEFAULT_EVICTIONS_PER_ACCESS_def)
  then show ?thesis
    using fill new assms(2) pending_evictions_ok [OF sched(1)]
    by (simp add: stress_start_def run_ok_def capped_def Let_def)
qed

definition finish_ok :: "nat \<Rightarrow> stress_config \<Rightarrow> 'r stress_run \<Rightarrow> 'f stress_report \<Rightarrow> bool" where
  "finish_ok k cfg run report \<longleftrightarrow> sp_final_stash report = length (ss_stash (sr_sim run)) \<and>
    sp_p50_stash report \<le> sp_p99_stash report \<and> sp_p99_stash report \<le> sp_p999_stash report \<and>
    sp_p999_stash report \<le> sp_max_stash report \<and>
    unat (sp_scheduled_evictions report) = 2 * k \<and>
    unat (sp_completed_evictions report) + unat (sp_final_eviction_debt report) =
      unat (sp_scheduled_evictions report) \<and>
    (\<forall>cap. sc_max_debt cfg = Some cap \<longrightarrow>
      sp_max_eviction_debt report \<le> cap \<and> sp_final_eviction_debt report \<le> cap)"

lemma stress_finish_ok:
  assumes ok: "run_ok p k run" and cap: "capped cfg run" and k: "k * 2 < 2 ^ 64"
    and samples: "length (sr_samples run) * 1000 < 2 ^ 64"
  shows "\<exists>report. stress_finish F cfg run = Inr report \<and> finish_ok k cfg run report"
proof -
  let ?s = "sr_schedule run"
  have s: "schedule_ok ?s" "evictions_per_access ?s = 2" "unat (issued_accesses ?s) = k"
    using ok by (simp_all add: run_ok_def)
  have un: "unat (word_of_nat (debt ?s) :: u64) = debt ?s" by (rule unat_word_of_nat_u64 [OF debt_bound [OF s(1)]])
  have mul: "checked_mul_u64 (issued_accesses ?s) (evictions_per_access ?s) = Some (issued_accesses ?s * 2)"
    using s k by (simp add: checked_mul_u64_def)
  then have scheduled: "unat (issued_accesses ?s * 2) = k * 2"
    using unat_checked_mul_u64 [OF mul] s by simp
  have "unat (completed_evictions ?s) + debt ?s = k * 2"
    using s by (simp add: schedule_ok_def debt_def)
  moreover have "word_of_nat (debt ?s) \<le> cap" if "sc_max_debt cfg = Some cap" for cap
    using cap that un by (simp add: capped_def word_le_nat_alt)
  ultimately show ?thesis
    using pending_evictions_ok [OF s(1)] mul scheduled un from_samples_ordered [OF samples, of F] cap
    by (simp add: stress_finish_def finish_ok_def Let_def ok_or_def capped_def stash_len_def)
qed

text \<open>
  C39. A stress run on a validated configuration always returns a report. In the end every logical
  block is held exactly once, in a slot on the path of its leaf or in the stash; there is one
  sample per measured access; the reported percentiles are ordered; the schedule accounts for every
  eviction; and with a cap on the debt, neither the largest nor the final debt exceeds it.
\<close>

theorem stress_run_sound:
  assumes "params_ok (sc_params cfg)" and "validate_stress_config cfg = Inr ()"
    and "(sc_warmup_ops cfg + sc_ops cfg) * 1000 < 2 ^ 64"
  shows "\<exists>start run report. stress_start R cfg = Inr start \<and> stress_loop R cfg start = Inr run \<and>
    stress_circuit R F cfg = Inr report \<and>
    filter_mset (\<lambda>x. x \<noteq> EMPTY_BLOCK) (mset (ss_slots (sr_sim run))) +
      image_mset sb_id (mset (ss_stash (sr_sim run))) =
      mset (map word_of_nat [0..<logical_blocks (sc_params cfg)]) \<and>
    (\<forall>i < length (ss_slots (sr_sim run)). ss_slots (sr_sim run) ! i \<noteq> EMPTY_BLOCK \<longrightarrow>
      i div bucket_size (sc_params cfg) \<in> set (path_nodes (sc_params cfg)
        (ss_position_map (sr_sim run) ! unat (ss_slots (sr_sim run) ! i)))) \<and>
    length (sr_samples run) = sc_ops cfg \<and> sp_final_stash report = length (ss_stash (sr_sim run)) \<and>
    sp_p50_stash report \<le> sp_p99_stash report \<and> sp_p99_stash report \<le> sp_p999_stash report \<and>
    sp_p999_stash report \<le> sp_max_stash report \<and>
    unat (sp_scheduled_evictions report) = 2 * (sc_warmup_ops cfg + sc_ops cfg) \<and>
    unat (sp_completed_evictions report) + unat (sp_final_eviction_debt report) =
      unat (sp_scheduled_evictions report) \<and>
    (\<forall>cap. sc_max_debt cfg = Some cap \<longrightarrow>
      sp_max_eviction_debt report \<le> cap \<and> sp_final_eviction_debt report \<le> cap)"
proof -
  let ?p = "sc_params cfg" and ?k = "sc_warmup_ops cfg + sc_ops cfg"
  have n: "logical_blocks ?p \<le> 2 ^ 32 - 1" using assms(2) by (auto simp: validate_stress_config_def Let_def split: if_splits)
  obtain start where start: "stress_start R cfg = Inr start" "run_ok ?p 0 start" "capped cfg start"
      "sr_samples start = []"
    using stress_start_ok [OF assms(1,2)] by blast
  have lt: "?k * 2 < 2 ^ 64" using assms(3) by simp
  then have total_ops: "usize_add (sc_warmup_ops cfg) (sc_ops cfg) = ?k" by simp
  obtain run where run: "stress_loop R cfg start = Inr run" "run_ok ?p ?k run" "capped cfg run"
      "length (sr_samples run) = sc_ops cfg"
    using stress_loop_ok [OF start(2,3) refl start(4) n lt, of R] by (auto simp: stress_loop_def total_ops)
  have sim: "sim_ok ?p (all_ids (logical_blocks ?p)) (sr_sim run)" using run(2) by (simp add: run_ok_def)
  obtain report where report: "stress_finish F cfg run = Inr report" "finish_ok ?k cfg run report"
    using stress_finish_ok [OF run(2,3) lt] run(4) assms(3) by auto
  then have "stress_circuit R F cfg = Inr report"
    using start(1) run(1) by (simp add: stress_circuit_def)
  moreover note sim_okD(5) [OF sim, unfolded sim_ids_def]
  ultimately show ?thesis
    using start(1) run(1,4) sim_homesD(2) [OF sim] report(2) unfolding finish_ok_def
    by (intro exI [of _ start] exI [of _ run] exI [of _ report]) simp
qed

definition counting_rng :: "nat chacha" where
  "counting_rng = \<lparr>rg_from_seed = (\<lambda>_. 0), rg_next_u32 = (\<lambda>r. (word_of_nat r, Suc r)),
     rg_next_u64 = (\<lambda>r. (word_of_nat r, Suc r))\<rparr>"

definition whole_ops :: "nat float_ops" where
  "whole_ops = \<lparr>fo_of = (\<lambda>n. n), fo_add = (+), fo_mul = (*), fo_div = (div)\<rparr>"

definition small_stress :: stress_config where
  "small_stress =
     \<lparr>sc_params = \<lparr>logical_blocks = 3, block_size = 1, bucket_size = 2, leaves = 4, stash_capacity = 8\<rparr>,
      sc_ops = 5, sc_warmup_ops = 2, sc_pattern = Random, sc_seed = [], sc_drain_per_access = 1,
      sc_burst_interval = 2, sc_burst_budget = 3, sc_max_debt = Some 1\<rparr>"

theorem stress_run_sound_witness:
  "\<exists>report. stress_circuit counting_rng whole_ops small_stress = Inr report \<and>
    sp_p50_stash report \<le> sp_max_stash report \<and> unat (sp_scheduled_evictions report) = 14 \<and>
    sp_final_eviction_debt report \<le> 1"
proof -
  have p: "params_ok (sc_params small_stress)"
    by (simp add: small_stress_def params_ok_def height_def leaf_bits_def is_power_of_two.simps trailing_zeros.simps)
  have v: "validate_stress_config small_stress = Inr ()"
    by (simp add: small_stress_def validate_stress_config_def bucket_count_def checked_mul_usize_def ok_or_def)
  have ops: "(sc_warmup_ops small_stress + sc_ops small_stress) * 1000 < 2 ^ 64"
      "sc_warmup_ops small_stress + sc_ops small_stress = 7" "sc_max_debt small_stress = Some 1"
    by (simp_all add: small_stress_def)
  from stress_run_sound [OF p v ops(1), of counting_rng whole_ops]
  obtain report where "stress_circuit counting_rng whole_ops small_stress = Inr report"
      "sp_p50_stash report \<le> sp_p99_stash report" "sp_p99_stash report \<le> sp_p999_stash report"
      "sp_p999_stash report \<le> sp_max_stash report"
      "unat (sp_scheduled_evictions report) = 2 * (sc_warmup_ops small_stress + sc_ops small_stress)"
      "sp_final_eviction_debt report \<le> 1"
    using ops(3) by (elim exE conjE) blast
  then show ?thesis using ops(2) by (intro exI [of _ report]) simp
qed

end
