(* ===== verification/Ring_Theorems.thy ===== *)
theory Ring_Theorems
  imports Ring_Stress Stress_Theorems
begin

text \<open>
  The Ring ORAM stress run: blocks are conserved as in the Circuit run, and no bucket is ever read
  more often than it has dummy slots before it is rewritten.
\<close>

section \<open>Read counters\<close>

definition same_counters :: "ring_sim \<Rightarrow> ring_sim \<Rightarrow> bool" where
  "same_counters s t \<longleftrightarrow> rs_read_counters t = rs_read_counters s \<and> rs_max_read_counter t = rs_max_read_counter s"

lemma same_counters_refl [simp]: "same_counters s s"
  by (simp add: same_counters_def)

lemma same_counters_slot:
  "same_counters s t \<Longrightarrow> same_counters s (take_slot i t)"
  "same_counters s t \<Longrightarrow> same_counters s (fill_slot d node i t)"
  by (simp_all add: same_counters_def take_slot_def fill_slot_def Let_def split: option.split)

lemma same_counters_bucket:
  "same_counters s (read_bucket_into_stash node s)" "same_counters s (write_bucket_from_stash d node s)"
  unfolding read_bucket_into_stash_def write_bucket_from_stash_def
  by (rule fold_ok [where P = "same_counters s"]; simp add: same_counters_slot)+

lemma same_counters_remove: "remove_at_depths x leaf depths s = (b, t) \<Longrightarrow> same_counters s t"
  by (induction depths) (auto simp: same_counters_def Let_def split: option.splits)

lemma same_counters_access: "sim_access R x s rng = Inr (t, rng') \<Longrightarrow> same_counters s t"
proof -
  assume run: "sim_access R x s rng = Inr (t, rng')"
  obtain b1 s1 where s1: "remove_from_path x (ss_position_map s ! unat x) s = (b1, s1)" by fastforce
  then have "same_counters s s1" by (auto simp: remove_from_path_def dest: same_counters_remove)
  moreover obtain b2 s2 where s2: "remove_from_stash x s1 = (b2, s2)" by fastforce
  then have "same_counters s1 s2"
    by (auto simp: remove_from_stash_def same_counters_def split: option.splits)
  ultimately show ?thesis
    using run s1 s2
    by (auto simp: sim_access_def Let_def ok_or_def same_counters_def split: if_splits option.splits prod.splits)
qed

lemma same_counters_place: "place_at_depths b depths s = (placed, t) \<Longrightarrow> same_counters s t"
  by (induction depths) (auto simp: same_counters_def Let_def split: option.splits)

lemma same_counters_insert: "sim_insert R k (s, r) = (t, r') \<Longrightarrow> same_counters s t"
proof -
  assume run: "sim_insert R k (s, r) = (t, r')"
  obtain leaf r1 where leaf: "sim_random_leaf R (ss_params s) r = (leaf, r1)" by fastforce
  let ?s = "s\<lparr>ss_position_map := ss_position_map s @ [leaf]\<rparr>"
  obtain placed u where u: "place_deepest \<lparr>sb_id = word_of_nat k, sb_leaf = leaf\<rparr> ?s = (placed, u)" by fastforce
  then have "same_counters ?s u" by (auto simp: place_deepest_def dest: same_counters_place)
  then show ?thesis
    using run leaf u by (auto simp: sim_insert_def place_or_stash_def same_counters_def Let_def split: if_splits)
qed

lemma same_counters_fill: "same_counters s (sim_fill R seed s)"
proof -
  have "fold (sim_insert R) ks (s, r) = (t, r') \<Longrightarrow> same_counters s t" for ks r t r'
  proof (induction ks arbitrary: s r)
    case (Cons k ks)
    obtain u r1 where u: "sim_insert R k (s, r) = (u, r1)" by fastforce
    then show ?case
      using Cons same_counters_insert [OF u] by (auto simp: same_counters_def)
  qed simp
  then show ?thesis
    by (auto simp: sim_fill_def Let_def same_counters_def split: prod.split)
qed

text \<open>
  Every counter is at most \<open>c\<close>, and less than \<open>c\<close> outside the nodes of \<open>hot\<close>; the largest counter
  ever seen is at most \<open>c\<close>.
\<close>

definition counters_ok :: "nat \<Rightarrow> u32 \<Rightarrow> nat set \<Rightarrow> ring_sim \<Rightarrow> bool" where
  "counters_ok n c hot sim \<longleftrightarrow> length (rs_read_counters sim) = n \<and> rs_max_read_counter sim \<le> c \<and>
     (\<forall>i < n. rs_read_counters sim ! i \<le> c \<and> (i \<notin> hot \<longrightarrow> rs_read_counters sim ! i < c))"

lemma counters_ok_same: "same_counters s t \<Longrightarrow> counters_ok n c hot t = counters_ok n c hot s"
  by (simp add: counters_ok_def same_counters_def)

lemma count_read_ok:
  assumes ok: "counters_ok n c hot sim" and node: "node < n" "node \<notin> hot"
  shows "counters_ok n c (insert node hot) (count_read (d, node) sim)"
proof -
  let ?x = "rs_read_counters sim ! node"
  have lt: "?x < c" using ok node by (simp add: counters_ok_def)
  then have "?x \<noteq> - 1" by (metis word_order.extremum_strict)
  moreover have "?x + 1 \<le> c" using lt by (rule inc_le)
  ultimately show ?thesis
    using ok node by (auto simp: counters_ok_def count_read_def saturating_inc_def Let_def nth_list_update)
qed

lemma count_reads_ok:
  "counters_ok n c hot sim \<Longrightarrow> distinct (map snd path) \<Longrightarrow> \<forall>node \<in> set (map snd path). node < n \<and> node \<notin> hot \<Longrightarrow>
    counters_ok n c (hot \<union> set (map snd path)) (fold count_read path sim)"
proof (induction path arbitrary: hot sim)
  case (Cons x path)
  obtain d node where x: "x = (d, node)" by fastforce
  have "counters_ok n c (insert node hot) (count_read x sim)"
    using count_read_ok [OF Cons.prems(1)] Cons.prems(3) x by simp
  moreover have "\<forall>k \<in> set (map snd path). k < n \<and> k \<notin> insert node hot" "distinct (map snd path)"
    using Cons.prems(2,3) x by auto
  ultimately show ?case using Cons.IH x by fastforce
qed simp

text \<open>The counters do not matter to the tree.\<close>

lemma count_read_sim: "sim_ok p M (fold count_read path sim) = sim_ok p M sim"
proof (induction path arbitrary: sim)
  case (Cons x path)
  have "sim_ok p M (count_read x sim) = sim_ok p M sim"
    by (rule sim_ok_same) (simp_all add: count_read_def Let_def split: prod.split)
  then show ?case using Cons by simp
qed simp

lemma empty_bucket_ok:
  assumes "sim_ok p M sim" and "counters_ok (bucket_count p) c hot sim" and "node < bucket_count p" and "0 < c"
  shows "sim_ok p M (empty_bucket (d, node) sim)"
    and "counters_ok (bucket_count p) c (hot - {node}) (empty_bucket (d, node) sim)"
proof -
  have "sim_ok p M (read_bucket_into_stash node sim)" by (rule read_bucket_ok [OF assms(1,3)])
  then show "sim_ok p M (empty_bucket (d, node) sim)"
    unfolding empty_bucket_def prod.case Let_def by (subst sim_ok_same) simp_all
  have "counters_ok (bucket_count p) c hot (read_bucket_into_stash node sim)"
    using assms(2) counters_ok_same [OF same_counters_bucket(1)] by blast
  then show "counters_ok (bucket_count p) c (hot - {node}) (empty_bucket (d, node) sim)"
    using assms(3,4) by (auto simp: counters_ok_def empty_bucket_def Let_def nth_list_update)
qed

lemma counters_ok_mono: "counters_ok n c hot sim \<Longrightarrow> hot \<subseteq> hot' \<Longrightarrow> counters_ok n c hot' sim"
  by (auto simp: counters_ok_def)

definition ring_ok :: "oram_params \<Rightarrow> u32 \<Rightarrow> nat set \<Rightarrow> ring_sim \<Rightarrow> bool" where
  "ring_ok p c hot sim \<longleftrightarrow> sim_ok p (all_ids (logical_blocks p)) sim \<and> counters_ok (bucket_count p) c hot sim \<and> 0 < c"

lemma ring_path_nodes:
  assumes "params_ok p" and "unat leaf < leaves p"
  shows "distinct (map snd (ring_path p leaf))"
    and "(d, node) \<in> set (ring_path p leaf) \<Longrightarrow> d < height p \<and> node < bucket_count p"
  using distinct_path_nodes [OF assms] node_index_less_count [OF assms]
  by (auto simp: ring_path_def path_nodes_def o_def)

lemma empty_buckets_ok:
  assumes ok: "ring_ok p c hot sim" and leaf: "unat leaf < leaves p"
  shows "ring_ok p c hot (fold empty_bucket (ring_path p leaf) sim)"
proof (rule fold_ok [where P = "ring_ok p c hot"])
  fix x sim
  assume "x \<in> set (ring_path p leaf)" and ok: "ring_ok p c hot sim"
  moreover from ok have "params_ok p" using sim_okD(2) by (auto simp: ring_ok_def)
  ultimately obtain d node where x: "x = (d, node)" "node < bucket_count p"
    using ring_path_nodes(2) [OF _ leaf] by (metis surj_pair)
  show "ring_ok p c hot (empty_bucket x sim)"
    using empty_bucket_ok [OF _ _ x(2), of "all_ids (logical_blocks p)" sim c hot d] ok
      counters_ok_mono [of _ c "hot - {node}" _ hot] unfolding ring_ok_def x(1) by blast
qed (rule ok)

lemma ring_evict_path_ok:
  assumes ok: "ring_ok p c hot sim" and leaf: "unat leaf < leaves p"
  shows "ring_ok p c hot (ring_evict_path leaf sim)"
proof -
  have p: "ss_params sim = p" "params_ok p" using ok sim_okD(1,2) by (auto simp: ring_ok_def)
  note nodes = ring_path_nodes [OF p(2) leaf]
  have "ring_ok p c hot (fold (\<lambda>(depth, node_idx). write_bucket_from_stash depth node_idx)
      (rev (ring_path p leaf)) (fold empty_bucket (ring_path p leaf) sim))"
  proof (rule fold_ok [where P = "ring_ok p c hot"])
    fix x sim
    assume "x \<in> set (rev (ring_path p leaf))" and ok: "ring_ok p c hot sim"
    then obtain d node where x: "x = (d, node)" "d < height p" "node < bucket_count p"
      using nodes(2) by (metis set_rev surj_pair)
    show "ring_ok p c hot ((case x of (depth, node_idx) \<Rightarrow> write_bucket_from_stash depth node_idx) sim)"
      using write_bucket_ok [of p _ sim, OF _ x(2,3)] counters_ok_same [OF same_counters_bucket(2)] ok x(1)
      by (auto simp: ring_ok_def)
  qed (rule empty_buckets_ok [OF ok leaf])
  then show ?thesis by (simp add: ring_evict_path_def Let_def p(1))
qed

section \<open>What an eviction does\<close>

text \<open>
  A slot of a bucket is settled when it is filled, or no block in the stash could go there. Filling
  a slot settles it, and unsettles no other: the stash only shrinks.
\<close>

definition slot_settled :: "oram_params \<Rightarrow> nat \<Rightarrow> nat \<Rightarrow> nat \<Rightarrow> 'z stress_sim_scheme \<Rightarrow> bool" where
  "slot_settled p d node i sim \<longleftrightarrow> ss_slots sim ! i \<noteq> EMPTY_BLOCK \<or>
     (\<forall>b \<in> set (ss_stash sim). \<not> node_contains_leaf p d node (sb_leaf b))"

definition settled :: "oram_params \<Rightarrow> (nat \<times> nat \<times> nat) set \<Rightarrow> 'z stress_sim_scheme \<Rightarrow> bool" where
  "settled p W sim \<longleftrightarrow> (\<forall>(d, node, i) \<in> W. slot_settled p d node i sim)"

lemma fill_slot_keeps_settled:
  assumes "slot_settled p d' node' k sim"
  shows "slot_settled p d' node' k (fill_slot d node i sim)"
proof (cases "ss_slots sim ! i = EMPTY_BLOCK")
  case True
  show ?thesis
  proof (cases "find (\<lambda>j. node_contains_leaf (ss_params sim) d node (sb_leaf (ss_stash sim ! j))) [0..<length (ss_stash sim)]")
    case None
    with assms show ?thesis by (simp add: fill_slot_def)
  next
    case (Some j)
    then have "set (swap_remove j (ss_stash sim)) \<subseteq> set (ss_stash sim)"
      using find_Some_upt [OF Some] by (intro swap_remove_facts(2)) simp
    with assms True Some show ?thesis
      by (cases "k = i") (auto simp: slot_settled_def fill_slot_def Let_def)
  qed
qed (use assms in \<open>simp add: fill_slot_def\<close>)

lemma fill_slot_settles:
  assumes ok: "sim_ok p M sim" and i: "i < bucket_count p * bucket_size p"
  shows "slot_settled p d node i (fill_slot d node i sim)"
proof (cases "ss_slots sim ! i = EMPTY_BLOCK")
  case True
  show ?thesis
  proof (cases "find (\<lambda>j. node_contains_leaf (ss_params sim) d node (sb_leaf (ss_stash sim ! j))) [0..<length (ss_stash sim)]")
    case None
    then have "fill_slot d node i sim = sim" by (simp add: fill_slot_def)
    with None show ?thesis using sim_okD(1) [OF ok]
      by (auto simp: slot_settled_def find_None_iff in_set_conv_nth)
  next
    case (Some j)
    have "sb_id (ss_stash sim ! j) \<in># sim_ids sim"
      using find_Some_upt [OF Some] by (auto simp: sim_ids_def)
    then have "sb_id (ss_stash sim ! j) \<noteq> EMPTY_BLOCK" using sim_okD(5,6) [OF ok] by simp
    with True Some i show ?thesis using sim_okD(3) [OF ok] by (simp add: slot_settled_def fill_slot_def Let_def)
  qed
qed (simp add: slot_settled_def fill_slot_def)

lemma fill_slots_settle:
  assumes "sim_ok p M sim" and "d < height p" "node < bucket_count p" and "set slots \<subseteq> set (bucket_slots p node)"
    and "settled p W sim"
  shows "settled p (W \<union> (\<lambda>i. (d, node, i)) ` set slots) (fold (fill_slot d node) slots sim)"
  using assms(1,4,5)
proof (induction slots arbitrary: W sim)
  case (Cons i slots)
  have i: "i \<in> set (bucket_slots p node)" using Cons.prems(2) by simp
  have "i < bucket_count p * bucket_size p"
    using bucket_slots_eq(2) [OF sim_okD(4) [OF Cons.prems(1)] assms(3) i] params_ok_pos(3) [OF sim_okD(2) [OF Cons.prems(1)]] by simp
  from fill_slot_settles [OF Cons.prems(1) this] Cons.prems(3)
  have "settled p (insert (d, node, i) W) (fill_slot d node i sim)"
    by (auto simp: settled_def intro: fill_slot_keeps_settled)
  from Cons.IH [OF fill_slot_ok [OF Cons.prems(1) assms(2,3) i] _ this] Cons.prems(2) show ?case by simp
qed simp

lemma write_buckets_settle:
  assumes "sim_ok p M sim" and "\<forall>(d, node) \<in> set path. d < height p \<and> node < bucket_count p" and "settled p W sim"
  shows "settled p (W \<union> (\<Union>(d, node) \<in> set path. (\<lambda>i. (d, node, i)) ` set (bucket_slots p node)))
    (fold (\<lambda>(d, node). write_bucket_from_stash d node) path sim)"
  using assms
proof (induction path arbitrary: W sim)
  case (Cons x path)
  obtain d node where x: "x = (d, node)" "d < height p" "node < bucket_count p" using Cons.prems(2) by (cases x) auto
  have "settled p (W \<union> (\<lambda>i. (d, node, i)) ` set (bucket_slots p node)) (write_bucket_from_stash d node sim)"
    using fill_slots_settle [OF Cons.prems(1) x(2,3) _ Cons.prems(3), of "bucket_slots p node"] sim_okD(1) [OF Cons.prems(1)]
    by (simp add: write_bucket_from_stash_def)
  from Cons.IH [OF write_bucket_ok [OF Cons.prems(1) x(2,3)] _ this] Cons.prems(2) x(1) show ?case
    by (simp add: Un_assoc)
qed simp

text \<open>
  A path is evicted when its buckets may be read afresh and hold, from the leaf up, what they can:
  no block is left in the stash that would fit an empty slot on the path.
\<close>

definition evicted :: "oram_params \<Rightarrow> u32 \<Rightarrow> ring_sim \<Rightarrow> bool" where
  "evicted p leaf sim \<longleftrightarrow> (\<forall>(d, node) \<in> set (ring_path p leaf). rs_read_counters sim ! node = 0 \<and>
     (\<forall>i \<in> set (bucket_slots p node). ss_slots sim ! i = EMPTY_BLOCK \<longrightarrow>
        (\<forall>b \<in> set (ss_stash sim). \<not> node_contains_leaf p d node (sb_leaf b))))"

lemma empty_bucket_counters:
  "rs_read_counters (empty_bucket (d, node) sim) = (rs_read_counters sim)[node := 0]"
  using same_counters_bucket(1) [of sim node] by (simp add: empty_bucket_def same_counters_def Let_def)

lemma empty_buckets_counters:
  assumes "node \<in> snd ` set path \<or> rs_read_counters sim ! node = 0" and "node < length (rs_read_counters sim)"
  shows "rs_read_counters (fold empty_bucket path sim) ! node = 0"
  using assms
proof (induction path arbitrary: sim)
  case (Cons x path)
  obtain d k where x: "x = (d, k)" by (cases x)
  have "(rs_read_counters sim)[k := 0] ! node = 0" if "rs_read_counters sim ! node = 0 \<or> k = node"
    using that Cons.prems(2) by (cases "k = node") auto
  with Cons.prems show ?case unfolding fold_simps o_apply x
    by (intro Cons.IH) (auto simp: empty_bucket_counters)
qed simp

lemma write_buckets_counters:
  "rs_read_counters (fold (\<lambda>(d, node). write_bucket_from_stash d node) path sim) = rs_read_counters (sim :: ring_sim)"
  by (induction path arbitrary: sim) (use same_counters_bucket(2) in \<open>auto simp: same_counters_def\<close>)

lemma ring_evict_path_evicts:
  assumes ok: "ring_ok p c hot sim" and leaf: "unat leaf < leaves p"
  shows "evicted p leaf (ring_evict_path leaf sim)"
proof -
  have p: "ss_params sim = p" "params_ok p" and n: "length (rs_read_counters sim) = bucket_count p"
    using ok sim_okD(1,2) by (auto simp: ring_ok_def counters_ok_def)
  note nodes = ring_path_nodes [OF p(2) leaf]
  let ?path = "ring_path p leaf" and ?s = "fold empty_bucket (ring_path p leaf) sim"
  have "ring_ok p c hot ?s" by (rule empty_buckets_ok [OF ok leaf])
  then have s: "sim_ok p (all_ids (logical_blocks p)) ?s" by (simp add: ring_ok_def)
  have evict: "ring_evict_path leaf sim = fold (\<lambda>(d, node). write_bucket_from_stash d node) (rev ?path) ?s"
    by (simp add: ring_evict_path_def Let_def p(1))
  have range: "\<forall>(d, node) \<in> set (rev ?path). d < height p \<and> node < bucket_count p" using nodes(2) by auto
  have "settled p {} ?s" by (simp add: settled_def)
  from write_buckets_settle [OF s range this] have
    "settled p (\<Union>(d, node) \<in> set ?path. (\<lambda>i. (d, node, i)) ` set (bucket_slots p node)) (ring_evict_path leaf sim)"
    by (simp add: evict)
  then have filled: "slot_settled p d node i (ring_evict_path leaf sim)"
    if "(d, node) \<in> set ?path" "i \<in> set (bucket_slots p node)" for d node i
    using that by (fastforce simp: settled_def)
  have zero: "rs_read_counters (ring_evict_path leaf sim) ! node = 0" if "(d, node) \<in> set ?path" for d node
    using empty_buckets_counters [of node ?path sim] that nodes(2) [OF that] n
    by (force simp: evict write_buckets_counters)
  show ?thesis using filled zero by (auto simp: evicted_def slot_settled_def)
qed

section \<open>Reshuffles and accesses\<close>

lemma reshuffle_bucket_ok:
  assumes ok: "ring_ok p c hot sim" and d: "d < height p" and node: "node < bucket_count p"
  shows "ring_ok p c (hot - {node}) (reshuffle_bucket d node sim)"
proof -
  let ?t = "empty_bucket (d, node) sim"
  have t: "sim_ok p (all_ids (logical_blocks p)) ?t" "counters_ok (bucket_count p) c (hot - {node}) ?t" "0 < c"
    using empty_bucket_ok [OF _ _ node, of "all_ids (logical_blocks p)" sim c hot d] ok
    unfolding ring_ok_def by blast+
  then show ?thesis
    using write_bucket_ok [OF t(1) d node] counters_ok_same [OF same_counters_bucket(2)]
    by (simp add: ring_ok_def reshuffle_bucket_def)
qed

lemma ring_access_ok:
  assumes ok: "ring_ok p c {} sim" and x: "count (all_ids (logical_blocks p)) x = 1"
  shows "\<exists>leaf sim' rng'. ring_access R x sim rng = Inr (ring_path p leaf, sim', rng') \<and> unat leaf < leaves p \<and>
    ring_ok p c (set (map snd (ring_path p leaf))) sim'"
proof -
  have sim: "sim_ok p (all_ids (logical_blocks p)) sim" and c: "counters_ok (bucket_count p) c {} sim" "0 < c"
    using ok by (simp_all add: ring_ok_def)
  let ?leaf = "ss_position_map sim ! unat x"
  have "x \<in># all_ids (logical_blocks p)" using x by (metis count_eq_zero_iff zero_neq_one)
  then have leaf: "unat ?leaf < leaves p" using sim_okD(7) [OF sim] by blast
  note nodes = ring_path_nodes [OF sim_okD(2) [OF sim] leaf]
  obtain s1 rng1 where acc: "sim_access R x sim rng = Inr (s1, rng1)" "sim_ok p (all_ids (logical_blocks p)) s1"
    using sim_access_ok [OF sim x, of R rng] by blast
  have "counters_ok (bucket_count p) c {} s1"
    using c counters_ok_same [OF same_counters_access [OF acc(1)]] by blast
  then have "counters_ok (bucket_count p) c ({} \<union> set (map snd (ring_path p ?leaf))) (fold count_read (ring_path p ?leaf) s1)"
    using nodes by (intro count_reads_ok) auto
  then have "ring_ok p c (set (map snd (ring_path p ?leaf))) (fold count_read (ring_path p ?leaf) s1)"
    using acc(2) c(2) by (simp add: ring_ok_def count_read_sim)
  moreover have "ring_access R x sim rng = Inr (ring_path p ?leaf, fold count_read (ring_path p ?leaf) s1, rng1)"
    using acc sim_okD(1) [OF acc(2)] by (simp add: ring_access_def Let_def)
  ultimately show ?thesis using leaf by blast
qed

section \<open>The run\<close>

lemma ring_eviction_leaf: "ring_eviction_leaf_at p i = eviction_leaf_at p i"
  by (simp add: ring_eviction_leaf_at_def eviction_leaf_at_def reverse_bits_mod_def Let_def)

definition ring_run_ok :: "ring_config \<Rightarrow> nat set \<Rightarrow> nat \<Rightarrow> 'r ring_run \<Rightarrow> bool" where
  "ring_run_ok cfg hot k run \<longleftrightarrow>
     ring_ok (rc_params cfg) (word_of_nat (rc_dummy_slots cfg)) hot (rr_sim run) \<and>
     rr_completed_evictions run = word_of_nat (k div rc_eviction_period cfg)"

lemma div_step: "(k + 1) div m = k div m + (if (k + 1) mod m = 0 then 1 else 0)" if "0 < m" for k m :: nat
  using that by (simp add: div_Suc)

lemma ring_evict_step_ok:
  assumes ok: "ring_run_ok cfg hot k run" and "0 < rc_eviction_period cfg"
  shows "ring_run_ok cfg hot (k + 1) (ring_evict_step cfg k m run) \<and>
    rr_samples (ring_evict_step cfg k m run) = rr_samples run"
proof -
  let ?p = "rc_params cfg"
  have p: "params_ok ?p" using ok sim_okD(2) by (auto simp: ring_run_ok_def ring_ok_def)
  have leaf: "unat (ring_eviction_leaf_at ?p (rr_completed_evictions run)) < leaves ?p"
    using eviction_leaf_in_range [OF p] by (simp add: ring_eviction_leaf)
  show ?thesis
    using ok ring_evict_path_ok [OF _ leaf] div_step [OF assms(2), of k]
    by (auto simp: ring_run_ok_def ring_evict_step_def Let_def)
qed

lemma early_reshuffle_ok:
  assumes ok: "ring_run_ok cfg hot k run" and d: "d < height (rc_params cfg)" and node: "node < bucket_count (rc_params cfg)"
  shows "ring_run_ok cfg (hot - {node}) k (early_reshuffle cfg m (d, node) run) \<and>
    rr_samples (early_reshuffle cfg m (d, node) run) = rr_samples run"
proof (cases "rs_read_counters (rr_sim run) ! node < word_of_nat (rc_dummy_slots cfg)")
  case True
  then show ?thesis
    using ok by (auto simp: early_reshuffle_def ring_run_ok_def ring_ok_def counters_ok_def)
next
  case False
  then show ?thesis
    using ok reshuffle_bucket_ok [OF _ d node] by (simp add: early_reshuffle_def ring_run_ok_def Let_def)
qed

lemma early_reshuffles_ok:
  "ring_run_ok cfg hot k run \<Longrightarrow>
    \<forall>(d, node) \<in> set path. d < height (rc_params cfg) \<and> node < bucket_count (rc_params cfg) \<Longrightarrow>
    ring_run_ok cfg (hot - set (map snd path)) k (fold (early_reshuffle cfg m) path run) \<and>
    rr_samples (fold (early_reshuffle cfg m) path run) = rr_samples run"
proof (induction path arbitrary: hot run)
  case (Cons x path)
  obtain d node where x: "x = (d, node)" by fastforce
  have "ring_run_ok cfg (hot - {node}) k (early_reshuffle cfg m x run) \<and>
      rr_samples (early_reshuffle cfg m x run) = rr_samples run"
    using early_reshuffle_ok [OF Cons.prems(1)] Cons.prems(2) x by simp
  then show ?case
    using Cons.IH [of "hot - {node}" "early_reshuffle cfg m x run"] Cons.prems(2) x
    by (simp add: Diff_insert2 [symmetric])
qed simp

lemma ring_step_ok:
  assumes ok: "ring_run_ok cfg {} k run" and n: "logical_blocks (rc_params cfg) \<le> 2 ^ 32 - 1"
    and period: "0 < rc_eviction_period cfg"
  shows "\<exists>run'. ring_step R cfg k run = Inr run' \<and> ring_run_ok cfg {} (k + 1) run' \<and>
    length (rr_samples run') = length (rr_samples run) + (if rc_warmup_ops cfg \<le> k then 1 else 0)"
proof -
  let ?p = "rc_params cfg" and ?m = "rc_warmup_ops cfg \<le> k"
  have ring: "ring_ok ?p (word_of_nat (rc_dummy_slots cfg)) {} (rr_sim run)"
    and done0: "rr_completed_evictions run = word_of_nat (k div rc_eviction_period cfg)"
    using ok by (simp_all add: ring_run_ok_def)
  then have p: "params_ok ?p" using sim_okD(2) by (auto simp: ring_ok_def)
  obtain x rng where draw: "next_logical_id R (rc_pattern cfg) k (logical_blocks ?p) (rr_rng run) = (x, rng)"
    by fastforce
  obtain j where j: "j < logical_blocks ?p" "x = word_of_nat j"
    using next_logical_id_known [OF draw _ n] params_ok_pos(1) [OF p] by auto
  have "count (all_ids (logical_blocks ?p)) x = 1"
    unfolding j(2) using n j(1) by (intro all_ids_count) simp_all
  from ring_access_ok [OF ring this, of R rng]
  obtain leaf sim rng' where acc: "ring_access R x (rr_sim run) rng = Inr (ring_path ?p leaf, sim, rng')"
      "unat leaf < leaves ?p" "ring_ok ?p (word_of_nat (rc_dummy_slots cfg)) (set (map snd (ring_path ?p leaf))) sim"
    by blast
  define run1 where "run1 = run\<lparr>rr_sim := sim, rr_rng := rng'\<rparr>"
  define run2 where "run2 = ring_evict_step cfg k ?m run1"
  define run3 where "run3 = fold (early_reshuffle cfg ?m) (rev (ring_path ?p leaf)) run2"
  have "ring_run_ok cfg (set (map snd (ring_path ?p leaf))) k run1"
    using acc(3) done0 by (simp add: run1_def ring_run_ok_def)
  then have run2: "ring_run_ok cfg (set (map snd (ring_path ?p leaf))) (k + 1) run2" "rr_samples run2 = rr_samples run"
    using ring_evict_step_ok [OF _ period, of _ k run1 ?m] by (simp_all add: run2_def) (simp add: run1_def)
  have run3: "ring_run_ok cfg {} (k + 1) run3" "rr_samples run3 = rr_samples run"
    using early_reshuffles_ok [OF run2(1), of "rev (ring_path ?p leaf)" ?m] ring_path_nodes(2) [OF p acc(2)] run2(2)
    by (auto simp: run3_def)
  have "ring_step R cfg k run = Inr (if ?m then ring_sample cfg run3 else run3)"
    unfolding ring_step_def draw Let_def prod.case acc(1) rbind.simps run3_def run2_def run1_def by (rule refl)
  moreover have "ring_run_ok cfg {} (k + 1) (if ?m then ring_sample cfg run3 else run3)"
    using run3(1) by (simp add: ring_run_ok_def ring_sample_def Let_def)
  moreover have "length (rr_samples (if ?m then ring_sample cfg run3 else run3)) =
      length (rr_samples run) + (if ?m then 1 else 0)"
    using run3(2) by (simp add: ring_sample_def Let_def)
  ultimately show ?thesis by blast
qed

lemma ring_loop_ok:
  assumes ok: "ring_run_ok cfg {} 0 run" and empty: "rr_samples run = []"
    and n: "logical_blocks (rc_params cfg) \<le> 2 ^ 32 - 1" and period: "0 < rc_eviction_period cfg"
  shows "\<exists>run'. rfoldM (ring_step R cfg) [0..<k] run = Inr run' \<and> ring_run_ok cfg {} k run' \<and>
    length (rr_samples run') = k - rc_warmup_ops cfg"
proof (induction k)
  case (Suc k)
  then obtain r where r: "rfoldM (ring_step R cfg) [0..<k] run = Inr r" "ring_run_ok cfg {} k r"
      "length (rr_samples r) = k - rc_warmup_ops cfg"
    by auto
  from ring_step_ok [OF r(2) n period, of R] r show ?case
    by (auto simp: rfoldM_append Suc_diff_le)
qed (use ok empty in simp)

text \<open>
  The eviction at the end of step \<open>k\<close>: of the state that the first \<open>k\<close> steps and the access of this
  step leave, the eviction step evicts the path that is next in the public order.
\<close>

definition evicts_at :: "'r chacha \<Rightarrow> ring_config \<Rightarrow> 'r ring_run \<Rightarrow> nat \<Rightarrow> bool" where
  "evicts_at R cfg start k \<longleftrightarrow> (\<exists>run logical_id rng read_path sim rng'.
     rfoldM (ring_step R cfg) [0..<k] start = Inr run \<and>
     next_logical_id R (rc_pattern cfg) k (logical_blocks (rc_params cfg)) (rr_rng run) = (logical_id, rng) \<and>
     ring_access R logical_id (rr_sim run) rng = Inr (read_path, sim, rng') \<and>
     evicted (rc_params cfg) (eviction_leaf_at (rc_params cfg) (word_of_nat (k div rc_eviction_period cfg)))
       (rr_sim (ring_evict_step cfg k (k \<ge> rc_warmup_ops cfg) (run\<lparr>rr_sim := sim, rr_rng := rng'\<rparr>))))"

lemma evicts_at_ok:
  assumes run: "rfoldM (ring_step R cfg) [0..<k] start = Inr run" "ring_run_ok cfg {} k run"
    and n: "logical_blocks (rc_params cfg) \<le> 2 ^ 32 - 1" and k: "(k + 1) mod rc_eviction_period cfg = 0"
  shows "evicts_at R cfg start k"
proof -
  let ?p = "rc_params cfg"
  have ring: "ring_ok ?p (word_of_nat (rc_dummy_slots cfg)) {} (rr_sim run)"
    and done0: "rr_completed_evictions run = word_of_nat (k div rc_eviction_period cfg)"
    using run(2) by (simp_all add: ring_run_ok_def)
  then have p: "params_ok ?p" using sim_okD(2) by (auto simp: ring_ok_def)
  obtain x rng where draw: "next_logical_id R (rc_pattern cfg) k (logical_blocks ?p) (rr_rng run) = (x, rng)"
    by fastforce
  obtain j where j: "j < logical_blocks ?p" "x = word_of_nat j"
    using next_logical_id_known [OF draw _ n] params_ok_pos(1) [OF p] by auto
  have "count (all_ids (logical_blocks ?p)) x = 1"
    unfolding j(2) using n j(1) by (intro all_ids_count) simp_all
  from ring_access_ok [OF ring this, of R rng] obtain leaf sim rng' where
    acc: "ring_access R x (rr_sim run) rng = Inr (ring_path ?p leaf, sim, rng')"
      "ring_ok ?p (word_of_nat (rc_dummy_slots cfg)) (set (map snd (ring_path ?p leaf))) sim" by blast
  let ?leaf = "eviction_leaf_at ?p (word_of_nat (k div rc_eviction_period cfg))"
  have "evicted ?p ?leaf (ring_evict_path ?leaf sim)"
    using ring_evict_path_evicts [OF acc(2)] eviction_leaf_in_range [OF p] by simp
  then have "evicted ?p ?leaf (rr_sim (ring_evict_step cfg k (k \<ge> rc_warmup_ops cfg) (run\<lparr>rr_sim := sim, rr_rng := rng'\<rparr>)))"
    using k done0 by (simp add: ring_evict_step_def Let_def ring_eviction_leaf)
  with run(1) draw acc(1) show ?thesis unfolding evicts_at_def by blast
qed

lemma validate_ring_config_facts:
  assumes "validate_ring_config cfg = Inr ()"
  shows "logical_blocks (rc_params cfg) \<le> 2 ^ 32 - 1" "0 < rc_dummy_slots cfg" "rc_dummy_slots cfg < 2 ^ 32"
    "0 < rc_eviction_period cfg" "bucket_count (rc_params cfg) * bucket_size (rc_params cfg) < 2 ^ 64"
  using assms by (auto simp: validate_ring_config_def checked_mul_usize_def ok_or_def Let_def split: if_splits)

lemma ring_start_ok:
  assumes p: "params_ok (rc_params cfg)" and v: "validate_ring_config cfg = Inr ()"
  shows "\<exists>start. ring_start R cfg = Inr start \<and> ring_run_ok cfg {} 0 start \<and> rr_samples start = []"
proof -
  let ?p = "rc_params cfg" and ?c = "word_of_nat (rc_dummy_slots cfg) :: u32"
  note facts = validate_ring_config_facts [OF v]
  define empty where "empty = \<lparr>ss_params = ?p, ss_slots = replicate (bucket_count ?p * bucket_size ?p) EMPTY_BLOCK,
       ss_position_map = [], ss_stash = [], ss_init_stash = 0,
       rs_read_counters = replicate (bucket_count ?p) 0, rs_max_read_counter = 0\<rparr>"
  have "sim_ok ?p {#} empty" using sim_ok_empty [of empty] p facts by (simp add: empty_def)
  then have fill: "sim_ok ?p (all_ids (logical_blocks ?p)) (sim_fill R (rc_seed cfg) empty)"
    using sim_fill_ok [of ?p empty R "rc_seed cfg"] facts(1) by (simp add: empty_def)
  have "unat ?c = rc_dummy_slots cfg" by (rule unat_word_of_nat_u32 [OF facts(3)])
  then have c: "0 < ?c" using facts(2) by (simp add: word_less_nat_alt)
  have "counters_ok (bucket_count ?p) ?c {} empty"
    using c by (simp add: counters_ok_def empty_def word_coorder.not_eq_extremum order.strict_implies_order)
  then have "counters_ok (bucket_count ?p) ?c {} (sim_fill R (rc_seed cfg) empty)"
    using counters_ok_same [OF same_counters_fill] by blast
  then have "ring_ok ?p ?c {} (sim_fill R (rc_seed cfg) empty)" using fill c by (simp add: ring_ok_def)
  moreover have "ring_sim_new R ?p (rc_seed cfg) = Inr (sim_fill R (rc_seed cfg) empty)"
    using facts(5) by (simp add: ring_sim_new_def checked_mul_usize_def ok_or_def empty_def)
  ultimately show ?thesis using v by (simp add: ring_start_def ring_run_ok_def)
qed

text \<open>
  C40. A Ring run on a validated configuration: the start and the loop succeed. At the end of every
  period an eviction runs along the path that is next in the public order: it resets the counters
  of the path and leaves no block in the stash that would fit an empty slot there. In the end every
  logical block is held exactly once, in a slot on the path of its leaf or in the stash; no bucket
  was ever read more often than it has dummy slots since it was last rewritten, and every bucket
  can still be read; the evictions are counted, and there is one sample per measured access. A
  report (the estimates behind it may still overflow) carries these figures.
\<close>

theorem ring_run_sound:
  assumes "params_ok (rc_params cfg)" and "validate_ring_config cfg = Inr ()"
    and "rc_warmup_ops cfg + rc_ops cfg < 2 ^ 64"
  shows "\<exists>start run. ring_start R cfg = Inr start \<and> ring_loop R cfg start = Inr run \<and>
    filter_mset (\<lambda>x. x \<noteq> EMPTY_BLOCK) (mset (ss_slots (rr_sim run))) +
      image_mset sb_id (mset (ss_stash (rr_sim run))) =
      mset (map word_of_nat [0..<logical_blocks (rc_params cfg)]) \<and>
    (\<forall>i < length (ss_slots (rr_sim run)). ss_slots (rr_sim run) ! i \<noteq> EMPTY_BLOCK \<longrightarrow>
      i div bucket_size (rc_params cfg) \<in> set (path_nodes (rc_params cfg)
        (ss_position_map (rr_sim run) ! unat (ss_slots (rr_sim run) ! i)))) \<and>
    unat (rs_max_read_counter (rr_sim run)) \<le> rc_dummy_slots cfg \<and>
    (\<forall>node < bucket_count (rc_params cfg). unat (rs_read_counters (rr_sim run) ! node) < rc_dummy_slots cfg) \<and>
    unat (rr_completed_evictions run) = (rc_warmup_ops cfg + rc_ops cfg) div rc_eviction_period cfg \<and>
    length (rr_samples run) = rc_ops cfg \<and>
    (\<forall>k < rc_warmup_ops cfg + rc_ops cfg. (k + 1) mod rc_eviction_period cfg = 0 \<longrightarrow> evicts_at R cfg start k) \<and>
    (\<forall>report. stress_ring R F cfg = Inr report \<longrightarrow>
      unat (rp_max_read_counter report) \<le> rc_dummy_slots cfg \<and>
      rp_completed_evictions report = rr_completed_evictions run)"
proof -
  let ?p = "rc_params cfg" and ?k = "rc_warmup_ops cfg + rc_ops cfg"
  let ?c = "word_of_nat (rc_dummy_slots cfg) :: u32"
  note facts = validate_ring_config_facts [OF assms(2)]
  have c: "unat ?c = rc_dummy_slots cfg" by (rule unat_word_of_nat_u32 [OF facts(3)])
  obtain start where start: "ring_start R cfg = Inr start" "ring_run_ok cfg {} 0 start" "rr_samples start = []"
    using ring_start_ok [OF assms(1,2), of R] by blast
  obtain run where run: "ring_loop R cfg start = Inr run" "ring_run_ok cfg {} ?k run"
      "length (rr_samples run) = rc_ops cfg"
    using ring_loop_ok [OF start(2,3) facts(1,4), of R ?k] assms(3) by (auto simp: ring_loop_def)
  have sim: "sim_ok ?p (all_ids (logical_blocks ?p)) (rr_sim run)"
    and counters: "counters_ok (bucket_count ?p) ?c {} (rr_sim run)"
    and completed: "rr_completed_evictions run = word_of_nat (?k div rc_eviction_period cfg)"
    using run(2) by (simp_all add: ring_run_ok_def ring_ok_def)
  have "?k div rc_eviction_period cfg < 2 ^ 64"
    using assms(3) div_le_dividend [of ?k "rc_eviction_period cfg"] by linarith
  then have ev: "unat (rr_completed_evictions run) = ?k div rc_eviction_period cfg"
    unfolding completed by (rule unat_word_of_nat_u64)
  have reads: "unat (rs_max_read_counter (rr_sim run)) \<le> rc_dummy_slots cfg"
      "\<forall>node < bucket_count ?p. unat (rs_read_counters (rr_sim run) ! node) < rc_dummy_slots cfg"
    using counters c by (simp_all add: counters_ok_def word_le_nat_alt word_less_nat_alt)
  have "rp_max_read_counter report = rs_max_read_counter (rr_sim run) \<and>
      rp_completed_evictions report = rr_completed_evictions run"
    if "stress_ring R F cfg = Inr report" for report
  proof -
    have "ring_finish F cfg run = Inr report" using that start(1) run(1) by (simp add: stress_ring_def)
    then show ?thesis by (auto simp: ring_finish_def Let_def)
  qed
  moreover have "evicts_at R cfg start k" if "(k + 1) mod rc_eviction_period cfg = 0" for k
    using ring_loop_ok [OF start(2,3) facts(1,4), of R k] evicts_at_ok [OF _ _ facts(1) that] by blast
  ultimately show ?thesis
    using start(1) run(1,3) sim_okD(5) [OF sim, unfolded sim_ids_def] sim_homesD(2) [OF sim] reads ev
    by (intro exI [of _ start] exI [of _ run]) simp
qed

definition small_ring :: ring_config where
  "small_ring =
     \<lparr>rc_params = \<lparr>logical_blocks = 3, block_size = 1, bucket_size = 2, leaves = 4, stash_capacity = 8\<rparr>,
      rc_dummy_slots = 2, rc_ops = 5, rc_warmup_ops = 2, rc_pattern = Random, rc_seed = [],
      rc_eviction_period = 3, rc_cache_levels = 1, rc_auth_store = False, rc_auth_trusted_levels = 0,
      rc_auth_hash_page_size = 32\<rparr>"

theorem ring_run_sound_witness:
  "\<exists>start run. ring_start counting_rng small_ring = Inr start \<and> ring_loop counting_rng small_ring start = Inr run \<and>
    unat (rs_max_read_counter (rr_sim run)) \<le> 2 \<and> unat (rr_completed_evictions run) = 2 \<and>
    evicts_at counting_rng small_ring start 2 \<and> evicts_at counting_rng small_ring start 5"
proof -
  have p: "params_ok (rc_params small_ring)"
    by (simp add: small_ring_def params_ok_def height_def leaf_bits_def is_power_of_two.simps trailing_zeros.simps)
  have v: "validate_ring_config small_ring = Inr ()"
    by (simp add: small_ring_def validate_ring_config_def bucket_count_def checked_mul_usize_def ok_or_def)
  have ops: "rc_warmup_ops small_ring + rc_ops small_ring = 7" "rc_eviction_period small_ring = 3" "7 div 3 = (2 :: nat)"
      "rc_dummy_slots small_ring = 2"
    by (simp_all add: small_ring_def)
  then have total: "rc_warmup_ops small_ring + rc_ops small_ring < 2 ^ 64" by simp
  from ring_run_sound [OF p v total, of counting_rng whole_ops, unfolded ops]
  obtain start run where r: "ring_start counting_rng small_ring = Inr start"
      "ring_loop counting_rng small_ring start = Inr run"
      "unat (rs_max_read_counter (rr_sim run)) \<le> 2" "unat (rr_completed_evictions run) = 2"
      "\<forall>k < 7. (k + 1) mod 3 = 0 \<longrightarrow> evicts_at counting_rng small_ring start k"
    by (elim exE conjE) blast
  from spec [OF r(5), of 2] spec [OF r(5), of 5] r(1-4) show ?thesis by auto
qed

end
