(* ===== verification/Image_Stores.thy ===== *)
theory Image_Stores
  imports File_Refinement Aead_Store Tiered_Merkle Embedded_Tree State_Files Cuckoo_Table Direct_Table
begin

text \<open>
  How the command line (src/src/bin/oramctl.rs) puts the stores together: an image file, encrypted
  or not, behind an optional front cache, and over a pair of them one of the three authentication
  layouts. A \<open>Box<dyn PageStore>\<close> is a sum of the stacks that the code puts into it. The four image
  files of a table are the state of the functions that open them: opening sets the length of a file
  before anything is checked against it, and closing leaves the bytes the store wrote.
\<close>

section \<open>Dynamic dispatch\<close>

definition either_comp :: "('a, 'x) comp \<Rightarrow> ('b, 'x) comp \<Rightarrow> ('a + 'b, 'x) comp" where
  "either_comp m n s = (case s of Inl a \<Rightarrow> apsnd Inl (m a) | Inr b \<Rightarrow> apsnd Inr (n b))"

definition either_ops :: "'a page_store \<Rightarrow> 'b page_store \<Rightarrow> ('a + 'b) page_store" where
  "either_ops p q =
     \<lparr>ps_page_size = case_sum (ps_page_size p) (ps_page_size q),
      ps_page_count = case_sum (ps_page_count p) (ps_page_count q),
      ps_read_page = (\<lambda>i n. either_comp (ps_read_page p i n) (ps_read_page q i n)),
      ps_write_page = (\<lambda>i page. either_comp (ps_write_page p i page) (ps_write_page q i page)),
      ps_read_pages = (\<lambda>idxs. either_comp (ps_read_pages p idxs) (ps_read_pages q idxs)),
      ps_write_pages = (\<lambda>idxs pgs. either_comp (ps_write_pages p idxs pgs) (ps_write_pages q idxs pgs)),
      ps_flush = either_comp (ps_flush p) (ps_flush q),
      ps_tiered_merkle_state = case_sum (ps_tiered_merkle_state p) (ps_tiered_merkle_state q)\<rparr>"

section \<open>Image files\<close>

type_synonym 'r backing = "file_store + (file_store, 'r) aead_store"
type_synonym 'r image = "'r backing + 'r backing front_cached"

definition backing_ops :: "'r aead_lib \<Rightarrow> 'r backing page_store" where
  "backing_ops A = either_ops file_store_ops (aead_ops A file_store_ops)"

definition image_ops :: "'r aead_lib \<Rightarrow> 'r image page_store" where
  "image_ops A = either_ops (backing_ops A) (front_cached_ops (backing_ops A))"

definition parse_required_key :: "(string \<Rightarrow> bytes option) \<Rightarrow> string option \<Rightarrow> bytes result" where
  "parse_required_key hex key_hex =
     rbind (ok_or key_hex (InvalidInput ''--key-hex is required with --encrypted'')) (parse_32_hex hex)"

definition backing_page_bytes :: "nat \<Rightarrow> bool \<Rightarrow> nat" where
  "backing_page_bytes plaintext_page_size encrypted =
     usize_add plaintext_page_size (if encrypted then AEAD_OVERHEAD else 0)"

definition cached_pages_for_levels :: "oram_params \<Rightarrow> nat \<Rightarrow> nat result" where
  "cached_pages_for_levels p cache_levels =
     (if cache_levels = 0 then Inr 0
      else if cache_levels > height p then Inl (InvalidInput ''cache-levels {} > tree height {}'')
      else Inr (2 ^ cache_levels - 1))"

text \<open>
  The settings of an invocation: \<open>hex::decode\<close>, the cipher and its source of nonces, the flags.
\<close>

record 'r image_env =
  ie_hex :: "string \<Rightarrow> bytes option"
  ie_aead :: "'r aead_lib"
  ie_os_rng :: 'r
  ie_encrypted :: bool
  ie_key_hex :: "string option"

text \<open>The images of a table, at the paths of \<open>CircuitOutputPaths\<close>.\<close>

datatype image_slot = MetaImage | PayloadImage | MetaHashImage | PayloadHashImage

type_synonym image_files = "image_slot \<Rightarrow> os_file"

definition open_slot :: "image_slot \<Rightarrow> nat \<Rightarrow> nat \<Rightarrow> (image_files, file_store) comp" where
  "open_slot slot page_count page_size =
     zoom (\<lambda>files. files slot) (\<lambda>file files. files(slot := file)) (file_open page_count page_size)"

definition open_backing :: "'r image_env \<Rightarrow> image_slot \<Rightarrow> nat \<Rightarrow> nat \<Rightarrow> (image_files, 'r backing) comp" where
  "open_backing I slot page_count plaintext_page_size =
     (if ie_encrypted I then
        bnd (lift (parse_required_key (ie_hex I) (ie_key_hex I))) (\<lambda>key.
        bnd (open_slot slot page_count (backing_page_bytes plaintext_page_size True)) (\<lambda>file_store.
        bnd (lift (aead_new file_store_ops file_store key plaintext_page_size (ie_os_rng I))) (\<lambda>s.
        ret (Inr s))))
      else bnd (open_slot slot page_count plaintext_page_size) (\<lambda>s. ret (Inl s)))"

definition open_sized_file_store ::
  "'r image_env \<Rightarrow> image_slot \<Rightarrow> nat \<Rightarrow> nat \<Rightarrow> nat \<Rightarrow> bool \<Rightarrow> (image_files, 'r image) comp" where
  "open_sized_file_store I slot page_count plaintext_page_size cached_pages load_cached_pages =
     bnd (open_backing I slot page_count plaintext_page_size) (\<lambda>store.
     if cached_pages = 0 then ret (Inl store)
     else if load_cached_pages then
       bnd (lift (fc_new (backing_ops (ie_aead I)) store cached_pages)) (\<lambda>s. ret (Inr s))
     else
       bnd (lift (fc_new_zeroed (backing_ops (ie_aead I)) store cached_pages)) (\<lambda>s. ret (Inr s)))"

text \<open>The file under a store: what is on disk when the store is dropped.\<close>

definition backing_file :: "'r backing \<Rightarrow> os_file" where
  "backing_file b = (case b of Inl s \<Rightarrow> fs_file s | Inr s \<Rightarrow> fs_file (as_inner s))"

definition image_file :: "'r image \<Rightarrow> os_file" where
  "image_file s = (case s of Inl b \<Rightarrow> backing_file b | Inr s \<Rightarrow> backing_file (fc_inner s))"

definition zero_page_store :: "'s page_store \<Rightarrow> ('s, unit) comp" where
  "zero_page_store ps =
     bnd (gets (\<lambda>s. replicate (ps_page_size ps s) 0)) (\<lambda>zero.
     bnd (gets (ps_page_count ps)) (\<lambda>page_count.
     bnd (citer (\<lambda>page_idx. ps_write_page ps page_idx zero) [0..<page_count]) (\<lambda>_.
     ps_flush ps)))"

section \<open>LogicalPrefixPageStore\<close>

text \<open>The logical page is the front of a longer physical page; a write zeroes the rest.\<close>

record 's logical_prefix =
  lp_inner :: 's
  lp_logical_page_size :: nat
  lp_physical_page_size :: nat

abbreviation lp_zoom :: "('s, 'a) comp \<Rightarrow> ('s logical_prefix, 'a) comp" where
  "lp_zoom \<equiv> zoom lp_inner (\<lambda>t s. s\<lparr>lp_inner := t\<rparr>)"

definition prefix_new :: "'s page_store \<Rightarrow> 's \<Rightarrow> nat \<Rightarrow> 's logical_prefix result" where
  "prefix_new ps inner logical_page_size =
     (let physical_page_size = ps_page_size ps inner in
      if logical_page_size = 0 \<or> logical_page_size > physical_page_size then
        Inl (InvalidInput ''logical page size {} is not in 1..={}'')
      else Inr \<lparr>lp_inner = inner, lp_logical_page_size = logical_page_size,
                lp_physical_page_size = physical_page_size\<rparr>)"

definition prefix_read_page :: "'s page_store \<Rightarrow> nat \<Rightarrow> nat \<Rightarrow> ('s logical_prefix, bytes) comp" where
  "prefix_read_page ps page_idx len =
     bnd (gets (\<lambda>s. len = lp_logical_page_size s)) (\<lambda>fits.
     bnd (require fits (InvalidInput ''logical prefix read len {} != page_size {}'')) (\<lambda>_.
     bnd (gets lp_physical_page_size) (\<lambda>n.
     bnd (lp_zoom (ps_read_page ps page_idx n)) (\<lambda>physical.
     ret (take len physical)))))"

definition prefix_write_page :: "'s page_store \<Rightarrow> nat \<Rightarrow> bytes \<Rightarrow> ('s logical_prefix, unit) comp" where
  "prefix_write_page ps page_idx input =
     bnd (gets (\<lambda>s. length input = lp_logical_page_size s)) (\<lambda>fits.
     bnd (require fits (InvalidInput ''logical prefix write len {} != page_size {}'')) (\<lambda>_.
     bnd (gets lp_physical_page_size) (\<lambda>n.
     lp_zoom (ps_write_page ps page_idx (copy_into 0 input (replicate n 0))))))"

definition prefix_ops :: "'s page_store \<Rightarrow> 's logical_prefix page_store" where
  "prefix_ops ps =
     \<lparr>ps_page_size = lp_logical_page_size,
      ps_page_count = (\<lambda>s. ps_page_count ps (lp_inner s)),
      ps_read_page = prefix_read_page ps,
      ps_write_page = prefix_write_page ps,
      ps_read_pages = default_read_pages lp_logical_page_size (prefix_read_page ps),
      ps_write_pages = default_write_pages lp_logical_page_size (prefix_write_page ps),
      ps_flush = lp_zoom (ps_flush ps),
      ps_tiered_merkle_state = (\<lambda>_. None)\<rparr>"

type_synonym 'r data_store = "'r image + 'r image logical_prefix"

definition data_ops :: "'r aead_lib \<Rightarrow> 'r data_store page_store" where
  "data_ops A = either_ops (image_ops A) (prefix_ops (image_ops A))"

section \<open>CircuitReopenPageStore\<close>

datatype 'r reopen_store =
    ReopenPlain "'r data_store"
  | ReopenSidecar "('r data_store, 'r image) tiered_store"
  | ReopenEmbedded "'r image embedded_store"

fun reopen_comp ::
  "('r data_store, 'x) comp \<Rightarrow> (('r data_store, 'r image) tiered_store, 'x) comp \<Rightarrow>
    ('r image embedded_store, 'x) comp \<Rightarrow> ('r reopen_store, 'x) comp" where
  "reopen_comp p t e (ReopenPlain s) = apsnd ReopenPlain (p s)"
| "reopen_comp p t e (ReopenSidecar s) = apsnd ReopenSidecar (t s)"
| "reopen_comp p t e (ReopenEmbedded s) = apsnd ReopenEmbedded (e s)"

definition read_plain_path_pages :: "'s page_store \<Rightarrow> nat list \<Rightarrow> ('s, bytes list) comp" where
  "read_plain_path_pages ps path =
     bnd (gets (ps_page_size ps)) (\<lambda>page_size.
     cmapM (\<lambda>page_idx. ps_read_page ps page_idx page_size) path)"

definition write_plain_path_pages :: "'s page_store \<Rightarrow> nat list \<Rightarrow> bytes list \<Rightarrow> ('s, unit) comp" where
  "write_plain_path_pages ps path pages =
     bnd (require (length path = length pages) (InvalidInput ''path length {} != page count {}'')) (\<lambda>_.
     bnd (gets (ps_page_size ps)) (\<lambda>page_size.
     citer (\<lambda>(page_idx, page).
       bnd (require (length page = page_size) (InvalidInput ''path page len {} != page_size {}'')) (\<lambda>_.
       ps_write_page ps page_idx page)) (zip path pages)))"

text \<open>The batch functions for plain stores repeat the text of the blanket implementation.\<close>

definition read_plain_paths_pages :: "'s page_store \<Rightarrow> nat list list \<Rightarrow> ('s, bytes list list) comp" where
  "read_plain_paths_pages ps paths =
     bnd (ps_read_pages ps (concat paths)) (\<lambda>flat_pages.
       if length flat_pages < length (concat paths) then
         fail (Panic ''flat page count matches path lengths'')
       else ret (split_like paths flat_pages))"

definition write_plain_paths_pages :: "'s page_store \<Rightarrow> nat list list \<Rightarrow> bytes list list \<Rightarrow> ('s, unit) comp" where
  "write_plain_paths_pages ps paths pages =
     bnd (require (length paths = length pages)
            (InvalidInput ''path count {} != page-path count {}'')) (\<lambda>_.
     bnd (citer (\<lambda>(path, path_pages).
            require (length path = length path_pages)
              (InvalidInput ''path length {} != page count {}'')) (zip paths pages)) (\<lambda>_.
     ps_write_pages ps (concat paths) (concat pages)))"

text \<open>These four functions and the methods of the store itself are what the variant \<open>Plain\<close> offers.\<close>

definition plain_path_ops :: "'s page_store \<Rightarrow> 's path_page_store" where
  "plain_path_ops ps =
     \<lparr>pp_page_size = ps_page_size ps,
      pp_page_count = ps_page_count ps,
      pp_read_path_pages = read_plain_path_pages ps,
      pp_write_path_pages = write_plain_path_pages ps,
      pp_read_paths_pages = read_plain_paths_pages ps,
      pp_write_paths_pages = write_plain_paths_pages ps,
      pp_flush = ps_flush ps,
      pp_tiered_merkle_state = ps_tiered_merkle_state ps,
      pp_embedded_tree_state = (\<lambda>_. None)\<rparr>"

definition dispatch_reopen ::
  "'r data_store path_page_store \<Rightarrow> ('r data_store, 'r image) tiered_store path_page_store \<Rightarrow>
    'r image embedded_store path_page_store \<Rightarrow> 'r reopen_store path_page_store" where
  "dispatch_reopen p t e =
     \<lparr>pp_page_size = case_reopen_store (pp_page_size p) (pp_page_size t) (pp_page_size e),
      pp_page_count = case_reopen_store (pp_page_count p) (pp_page_count t) (pp_page_count e),
      pp_read_path_pages = (\<lambda>path. reopen_comp (pp_read_path_pages p path)
        (pp_read_path_pages t path) (pp_read_path_pages e path)),
      pp_write_path_pages = (\<lambda>path pages. reopen_comp (pp_write_path_pages p path pages)
        (pp_write_path_pages t path pages) (pp_write_path_pages e path pages)),
      pp_read_paths_pages = (\<lambda>paths. reopen_comp (pp_read_paths_pages p paths)
        (pp_read_paths_pages t paths) (pp_read_paths_pages e paths)),
      pp_write_paths_pages = (\<lambda>paths pages. reopen_comp (pp_write_paths_pages p paths pages)
        (pp_write_paths_pages t paths pages) (pp_write_paths_pages e paths pages)),
      pp_flush = reopen_comp (pp_flush p) (pp_flush t) (pp_flush e),
      pp_tiered_merkle_state = case_reopen_store (pp_tiered_merkle_state p) (pp_tiered_merkle_state t) (\<lambda>_. None),
      pp_embedded_tree_state = case_reopen_store (\<lambda>_. None) (\<lambda>_. None) (pp_embedded_tree_state e)\<rparr>"

definition reopen_ops :: "(bytes \<Rightarrow> bytes) \<Rightarrow> 'r aead_lib \<Rightarrow> 'r reopen_store path_page_store" where
  "reopen_ops H A =
     dispatch_reopen (plain_path_ops (data_ops A))
       (path_of_page_store (tiered_ops H (data_ops A) (image_ops A))) (embedded_ops H (image_ops A))"

section \<open>Opening\<close>

datatype auth_layout_arg = SidecarArg | EmbeddedTreeArg

definition active_auth_layout :: "bool \<Rightarrow> auth_layout_arg \<Rightarrow> auth_layout_arg" where
  "active_auth_layout auth_store layout = (if auth_store then layout else SidecarArg)"

definition auth_plaintext_page_bytes :: "nat \<Rightarrow> auth_layout_arg \<Rightarrow> nat" where
  "auth_plaintext_page_bytes logical_page_bytes layout =
     (case layout of
        SidecarArg \<Rightarrow> logical_page_bytes
      | EmbeddedTreeArg \<Rightarrow> usize_add logical_page_bytes EMBEDDED_TREE_AUTH_BYTES_PER_PAGE)"

definition open_circuit_physical_file_stores ::
  "'r image_env \<Rightarrow> oram_params \<Rightarrow> nat \<Rightarrow> bool \<Rightarrow> auth_layout_arg \<Rightarrow>
    (image_files, 'r image \<times> 'r image) comp" where
  "open_circuit_physical_file_stores I p cached_pages load_cached_pages layout =
     (let meta_page_bytes = auth_plaintext_page_bytes (circuit_meta_page_bytes (bucket_size p)) layout;
          payload_page_bytes =
            auth_plaintext_page_bytes (circuit_payload_page_bytes (bucket_size p) (block_size p)) layout in
      bnd (open_sized_file_store I MetaImage (bucket_count p) meta_page_bytes cached_pages load_cached_pages)
        (\<lambda>meta_store.
      bnd (open_sized_file_store I PayloadImage (bucket_count p) payload_page_bytes cached_pages load_cached_pages)
        (\<lambda>payload_store.
      ret (meta_store, payload_store))))"

definition open_circuit_file_stores ::
  "'r image_env \<Rightarrow> oram_params \<Rightarrow> nat \<Rightarrow> bool \<Rightarrow> auth_layout_arg \<Rightarrow>
    (image_files, 'r data_store \<times> 'r data_store) comp" where
  "open_circuit_file_stores I p cached_pages load_cached_pages layout =
     (let meta_logical_page_bytes = circuit_meta_page_bytes (bucket_size p);
          payload_logical_page_bytes = circuit_payload_page_bytes (bucket_size p) (block_size p);
          meta_physical_page_bytes = auth_plaintext_page_bytes meta_logical_page_bytes layout;
          payload_physical_page_bytes = auth_plaintext_page_bytes payload_logical_page_bytes layout;
          ps = image_ops (ie_aead I) in
      bnd (open_sized_file_store I MetaImage (bucket_count p) meta_physical_page_bytes cached_pages
        load_cached_pages) (\<lambda>meta_store.
      bnd (open_sized_file_store I PayloadImage (bucket_count p) payload_physical_page_bytes cached_pages
        load_cached_pages) (\<lambda>payload_store.
      case layout of
        SidecarArg \<Rightarrow> ret (Inl meta_store, Inl payload_store)
      | EmbeddedTreeArg \<Rightarrow>
          bnd (lift (prefix_new ps meta_store meta_logical_page_bytes)) (\<lambda>meta.
          bnd (lift (prefix_new ps payload_store payload_logical_page_bytes)) (\<lambda>payload.
          ret (Inr meta, Inr payload))))))"

definition tiered_hash_pages :: "nat \<Rightarrow> nat \<Rightarrow> nat \<Rightarrow> nat result" where
  "tiered_hash_pages data_pages hash_page_size trusted_levels =
     required_hash_pages data_pages hash_page_size trusted_levels"

definition open_hash_store_for_auth ::
  "'r image_env \<Rightarrow> image_slot \<Rightarrow> tiered_merkle_state \<Rightarrow> (image_files, 'r image) comp" where
  "open_hash_store_for_auth I slot auth =
     bnd (lift (tiered_hash_pages (tm_page_count auth) (tm_hash_page_size auth) (tm_trusted_levels auth)))
       (\<lambda>hash_pages.
     open_sized_file_store I slot hash_pages (tm_hash_page_size auth) 0 False)"

datatype auth_store_kind = MetaStore | PayloadStore

definition circuit_auth_store_id :: "cuckoo_level \<Rightarrow> auth_store_kind \<Rightarrow> bytes" where
  "circuit_auth_store_id level kind =
     byte_string (case (level, kind) of
        (CuckooIndex, MetaStore) \<Rightarrow> ''bpir-idx-meta-v1''
      | (CuckooIndex, PayloadStore) \<Rightarrow> ''bpir-idx-data-v1''
      | (CuckooChunk, MetaStore) \<Rightarrow> ''bpir-chk-meta-v1''
      | (CuckooChunk, PayloadStore) \<Rightarrow> ''bpir-chk-data-v1'')"

definition direct_auth_store_id :: "direct_level \<Rightarrow> auth_store_kind \<Rightarrow> bytes" where
  "direct_auth_store_id level kind =
     byte_string (case (level, kind) of
        (DirectIndex, MetaStore) \<Rightarrow> ''bpir-diridx-meta''
      | (DirectIndex, PayloadStore) \<Rightarrow> ''bpir-diridx-data''
      | (DirectChunk, MetaStore) \<Rightarrow> ''bpir-dirchk-meta''
      | (DirectChunk, PayloadStore) \<Rightarrow> ''bpir-dirchk-data'')"

text \<open>
  The two functions that reopen a table, for cuckoo and for direct tables, share their text: \<open>store_id\<close>
  is the identifier of a store at the level asked for. \<open>bound_auth\<close> is the authentication state in
  the controller's state, \<open>sidecar\<close> what \<open>load_circuit_store_auth\<close> returns when there is none.
\<close>

definition reopen_sidecar ::
  "'r image_env \<Rightarrow> (auth_store_kind \<Rightarrow> bytes) \<Rightarrow> oram_params \<Rightarrow> nat \<Rightarrow> tiered_merkle_state \<Rightarrow>
    tiered_merkle_state \<Rightarrow> (image_files, 'r reopen_store \<times> 'r reopen_store) comp" where
  "reopen_sidecar I store_id p cached_pages meta payload =
     (let d = data_ops (ie_aead I); im = image_ops (ie_aead I) in
      bnd (open_circuit_file_stores I p cached_pages True SidecarArg) (\<lambda>(meta_store, payload_store).
      bnd (open_hash_store_for_auth I MetaHashImage meta) (\<lambda>meta_hash_store.
      bnd (open_hash_store_for_auth I PayloadHashImage payload) (\<lambda>payload_hash_store.
      bnd (lift (from_trusted_state d im meta_store meta_hash_store meta)) (\<lambda>meta.
      bnd (lift (from_trusted_state d im payload_store payload_hash_store payload)) (\<lambda>payload.
      bnd (require (td_store_id meta = store_id MetaStore \<and> td_store_id payload = store_id PayloadStore)
        (InvalidInput ''{} auth sidecar store_id does not match expected level/store domains'')) (\<lambda>_.
      ret (ReopenSidecar meta, ReopenSidecar payload))))))))"

definition reopen_embedded ::
  "'r image_env \<Rightarrow> (auth_store_kind \<Rightarrow> bytes) \<Rightarrow> oram_params \<Rightarrow> nat \<Rightarrow> embedded_tree_state \<Rightarrow>
    embedded_tree_state \<Rightarrow> (image_files, 'r reopen_store \<times> 'r reopen_store) comp" where
  "reopen_embedded I store_id p cached_pages meta payload =
     (let im = image_ops (ie_aead I) in
      bnd (open_circuit_physical_file_stores I p cached_pages True EmbeddedTreeArg)
        (\<lambda>(meta_store, payload_store).
      bnd (require (et_store_id meta = store_id MetaStore \<and> et_store_id payload = store_id PayloadStore)
        (InvalidInput ''{} embedded auth store_id does not match expected level/store domains'')) (\<lambda>_.
      bnd (lift (embedded_from_state im meta_store meta)) (\<lambda>meta.
      bnd (lift (embedded_from_state im payload_store payload)) (\<lambda>payload.
      ret (ReopenEmbedded meta, ReopenEmbedded payload))))))"

definition open_file_stores_for_reopen ::
  "'r image_env \<Rightarrow> (auth_store_kind \<Rightarrow> bytes) \<Rightarrow> oram_params \<Rightarrow> nat \<Rightarrow> bool \<Rightarrow> store_auth_state option \<Rightarrow>
    store_auth_state result \<Rightarrow> (image_files, 'r reopen_store \<times> 'r reopen_store) comp" where
  "open_file_stores_for_reopen I store_id p cached_pages auth_store bound_auth sidecar =
     (if \<not> auth_store then
        bnd (open_circuit_file_stores I p cached_pages True SidecarArg) (\<lambda>(meta_store, payload_store).
        ret (ReopenPlain meta_store, ReopenPlain payload_store))
      else
        bnd (lift (case bound_auth of Some auth \<Rightarrow> Inr auth | None \<Rightarrow> sidecar)) (\<lambda>auth.
        case sa_layout auth of
          TieredMerkle meta payload \<Rightarrow> reopen_sidecar I store_id p cached_pages meta payload
        | EmbeddedTree meta payload \<Rightarrow> reopen_embedded I store_id p cached_pages meta payload))"

definition open_circuit_file_stores_for_reopen ::
  "'r image_env \<Rightarrow> cuckoo_level \<Rightarrow> oram_params \<Rightarrow> nat \<Rightarrow> bool \<Rightarrow> store_auth_state option \<Rightarrow>
    store_auth_state result \<Rightarrow> (image_files, 'r reopen_store \<times> 'r reopen_store) comp" where
  "open_circuit_file_stores_for_reopen I level = open_file_stores_for_reopen I (circuit_auth_store_id level)"

definition open_direct_file_stores_for_reopen ::
  "'r image_env \<Rightarrow> direct_level \<Rightarrow> oram_params \<Rightarrow> nat \<Rightarrow> bool \<Rightarrow> store_auth_state option \<Rightarrow>
    store_auth_state result \<Rightarrow> (image_files, 'r reopen_store \<times> 'r reopen_store) comp" where
  "open_direct_file_stores_for_reopen I level = open_file_stores_for_reopen I (direct_auth_store_id level)"

text \<open>Dropping a pair of stores: the files under them stay as they are.\<close>

definition data_file :: "'r data_store \<Rightarrow> os_file" where
  "data_file d = (case d of Inl s \<Rightarrow> image_file s | Inr s \<Rightarrow> image_file (lp_inner s))"

fun close_store :: "image_slot \<Rightarrow> image_slot \<Rightarrow> 'r reopen_store \<Rightarrow> image_files \<Rightarrow> image_files" where
  "close_store slot hash_slot (ReopenPlain s) files = files(slot := data_file s)"
| "close_store slot hash_slot (ReopenSidecar s) files =
     files(slot := data_file (td_inner s), hash_slot := image_file (td_hash_store s))"
| "close_store slot hash_slot (ReopenEmbedded s) files = files(slot := image_file (es_inner s))"

definition close_stores :: "'r reopen_store \<Rightarrow> 'r reopen_store \<Rightarrow> image_files \<Rightarrow> image_files" where
  "close_stores meta_store payload_store files =
     close_store PayloadImage PayloadHashImage payload_store (close_store MetaImage MetaHashImage meta_store files)"

end
