(* ===== verification/Table_Sessions.thy ===== *)
theory Table_Sessions
  imports Image_Stores Circuit_Build Direct_Reader
begin

text \<open>
  The commands of src/src/bin/oramctl.rs that use a built table: \<open>verify-circuit-bins\<close>,
  \<open>bench-circuit\<close> and \<open>bench-direct\<close>. Each loads the saved state, opens the images, lets a
  controller answer random queries, compares the answers with the source file, flushes, saves the
  state and drops the stores. The state of a session is the table on disk: the file system of the
  state files and the images. Printed text is left out; a function returns the figures it prints.
\<close>

section \<open>Settings and paths\<close>

record ('c, 'h, 'r) oramctl =
  ctl_images :: "'h image_env"
  ctl_sha256 :: "bytes \<Rightarrow> bytes"
  ctl_ct :: "'c subtle"
  ctl_next_u64 :: "'r \<Rightarrow> u64 \<times> 'r"
  ctl_from_seed :: "bytes \<Rightarrow> 'r"
  ctl_state_codec :: "('r circuit_oram_state, 'r legacy_circuit_oram_state) bincode"
  ctl_auth_codec :: "(store_auth_state, legacy_store_auth_state) bincode"
  ctl_metadata_codec :: "bytes \<Rightarrow> direct_metadata result"
  ctl_state_key_hex :: "string option"
  ctl_cache_levels :: nat
  ctl_auth_store :: bool
  ctl_no_save :: bool
  ctl_sources :: "string \<rightharpoonup> bytes"

abbreviation ctl_reopen :: "('c, 'h, 'r) oramctl \<Rightarrow> 'h reopen_store path_page_store" where
  "ctl_reopen T \<equiv> reopen_ops (ctl_sha256 T) (ie_aead (ctl_images T))"

definition ctl_env :: "('c, 'h, 'r) oramctl \<Rightarrow> ('c, 'h reopen_store, 'h reopen_store, 'r) circuit_env" where
  "ctl_env T = \<lparr>e_ct = ctl_ct T, e_next_u64 = ctl_next_u64 T, e_meta = ctl_reopen T, e_payload = ctl_reopen T\<rparr>"

record output_paths =
  op_image :: "image_slot \<Rightarrow> path"
  op_state :: path
  op_auth_state :: path
  op_metadata :: path

definition output_paths_for :: "path \<Rightarrow> string \<Rightarrow> output_paths" where
  "output_paths_for out_dir label =
     \<lparr>op_image = (\<lambda>slot. out_dir @ [label @ (case slot of
        MetaImage \<Rightarrow> ''.meta.oram'' | PayloadImage \<Rightarrow> ''.payload.oram''
      | MetaHashImage \<Rightarrow> ''.meta.hash.oram'' | PayloadHashImage \<Rightarrow> ''.payload.hash.oram'')]),
      op_state = out_dir @ [label @ ''.state''],
      op_auth_state = out_dir @ [label @ ''.auth.state''],
      op_metadata = out_dir @ [label @ ''.metadata'']\<rparr>"

definition cuckoo_label :: "cuckoo_level \<Rightarrow> string" where
  "cuckoo_label level = (case level of CuckooIndex \<Rightarrow> ''index'' | CuckooChunk \<Rightarrow> ''chunk'')"

definition direct_label :: "direct_level \<Rightarrow> string" where
  "direct_label level = (case level of DirectIndex \<Rightarrow> ''index'' | DirectChunk \<Rightarrow> ''chunk'')"

definition circuit_output_paths :: "path \<Rightarrow> cuckoo_level \<Rightarrow> output_paths" where
  "circuit_output_paths out_dir level = output_paths_for out_dir (cuckoo_label level)"

definition direct_output_paths :: "path \<Rightarrow> direct_level \<Rightarrow> output_paths" where
  "direct_output_paths out_dir level = output_paths_for out_dir (''direct-'' @ direct_label level)"

definition derive_level_seed :: "bytes \<Rightarrow> cuckoo_level \<Rightarrow> bytes" where
  "derive_level_seed seed level =
     seed[31 := seed ! 31 XOR (case level of CuckooIndex \<Rightarrow> 0x11 | CuckooChunk \<Rightarrow> 0x22)]"

definition derive_direct_level_seed :: "bytes \<Rightarrow> direct_level \<Rightarrow> bytes" where
  "derive_direct_level_seed seed level =
     seed[31 := seed ! 31 XOR (case level of DirectIndex \<Rightarrow> 0x33 | DirectChunk \<Rightarrow> 0x44)]"

definition parse_seed :: "(string \<Rightarrow> bytes option) \<Rightarrow> string option \<Rightarrow> u8 \<Rightarrow> bytes result" where
  "parse_seed hex seed_hex default_byte =
     (case seed_hex of Some seed_hex \<Rightarrow> parse_32_hex hex seed_hex | None \<Rightarrow> Inr (replicate 32 default_byte))"

text \<open>\<open>payload.chunks(8)\<close>, the last chunk padded with zeros.\<close>

function checksum_payload :: "u64 \<Rightarrow> bytes \<Rightarrow> u64" where
  "checksum_payload checksum payload =
     (if payload = [] then checksum
      else checksum_payload
        (word_rotl 5 checksum XOR u64_from_le_bytes (copy_into 0 (take 8 payload) (replicate 8 0))) (drop 8 payload))"
  by pat_completeness auto
termination
  by (relation "measure (\<lambda>(checksum, payload). length payload)") auto

declare checksum_payload.simps [simp del]

section \<open>Opening and closing\<close>

text \<open>The files of one table.\<close>

record 'h table_disk =
  tb_host :: "'h host"
  tb_images :: image_files

abbreviation on_host :: "('h host, 'a) comp \<Rightarrow> ('h table_disk, 'a) comp" where
  "on_host \<equiv> zoom tb_host (\<lambda>t d. d\<lparr>tb_host := t\<rparr>)"

abbreviation on_images :: "(image_files, 'a) comp \<Rightarrow> ('h table_disk, 'a) comp" where
  "on_images \<equiv> zoom tb_images (\<lambda>t d. d\<lparr>tb_images := t\<rparr>)"

text \<open>The sidecar is read only when the state holds no authentication state; its error is the caller's.\<close>

definition sidecar_auth ::
  "('c, 'h, 'r) oramctl \<Rightarrow> output_paths \<Rightarrow> store_auth_state option \<Rightarrow> ('h table_disk, store_auth_state result) comp" where
  "sidecar_auth T paths bound_auth =
     (if ctl_auth_store T \<and> bound_auth = None then
        on_host (\<lambda>h. let I = ctl_images T;
            (r, h) = load_circuit_store_auth (ie_hex I) (ie_aead I) (ctl_auth_codec T) (op_auth_state paths)
              (ctl_state_key_hex T) h
          in (Inr r, h))
      else ret (Inl (Io ''not read'')))"

text \<open>From the load of the state to \<open>from_state\<close>; a refused pair of stores is dropped.\<close>

definition open_table ::
  "('c, 'h, 'r) oramctl \<Rightarrow> (auth_store_kind \<Rightarrow> bytes) \<Rightarrow> output_paths \<Rightarrow>
    ('h table_disk, nat \<times> ('h reopen_store, 'h reopen_store, 'r) circuit_oram) comp" where
  "open_table T store_id paths =
     (let I = ctl_images T in
      bnd (on_host (load_circuit_state (ie_hex I) (ie_aead I) (ctl_state_codec T) (op_state paths) (ctl_state_key_hex T)))
        (\<lambda>loaded.
      bnd (lift (cached_pages_for_levels (cs_params loaded) (ctl_cache_levels T))) (\<lambda>cached_pages.
      bnd (sidecar_auth T paths (cs_auth loaded)) (\<lambda>sidecar.
      bnd (on_images (open_file_stores_for_reopen I store_id (cs_params loaded) cached_pages (ctl_auth_store T)
             (cs_auth loaded) sidecar)) (\<lambda>(meta_store, payload_store).
      case from_state (ctl_env T) meta_store payload_store loaded of
        Inl e \<Rightarrow> bnd (on_images (modify (close_stores meta_store payload_store))) (\<lambda>_. fail e)
      | Inr oram \<Rightarrow> ret (cached_pages, oram))))))"

text \<open>While a controller is open: the controller and the files beside its images.\<close>

record ('h, 'r) session =
  se_oram :: "('h reopen_store, 'h reopen_store, 'r) circuit_oram"
  se_host :: "'h host"

definition close_session :: "'a result \<times> ('h, 'r) session \<Rightarrow> 'h table_disk \<Rightarrow> 'a result \<times> 'h table_disk" where
  "close_session out d =
     (case out of (r, s) \<Rightarrow>
        (r, \<lparr>tb_host = se_host s,
             tb_images = close_stores (co_meta_store (se_oram s)) (co_payload_store (se_oram s)) (tb_images d)\<rparr>))"

abbreviation on_oram ::
  "(('h reopen_store, 'h reopen_store, 'r) circuit_oram, 'a) comp \<Rightarrow> (('h, 'r) session, 'a) comp" where
  "on_oram \<equiv> zoom se_oram (\<lambda>t s. s\<lparr>se_oram := t\<rparr>)"

abbreviation on_files :: "('h host, 'a) comp \<Rightarrow> (('h, 'r) session, 'a) comp" where
  "on_files \<equiv> zoom se_host (\<lambda>t s. s\<lparr>se_host := t\<rparr>)"

text \<open>A reader takes the controller in and hands it back.\<close>

definition with_cuckoo_reader ::
  "('h reopen_store, 'h reopen_store, 'r) cuckoo_bin_reader \<Rightarrow>
    (('h reopen_store, 'h reopen_store, 'r) cuckoo_bin_reader, 'a) comp \<Rightarrow> (('h, 'r) session, 'a) comp" where
  "with_cuckoo_reader reader m =
     (\<lambda>s. case m (reader\<lparr>cb_oram := se_oram s\<rparr>) of (r, reader) \<Rightarrow> (r, s\<lparr>se_oram := cb_oram reader\<rparr>))"

definition with_direct_reader ::
  "('h reopen_store, 'h reopen_store, 'r) direct_reader \<Rightarrow>
    (('h reopen_store, 'h reopen_store, 'r) direct_reader \<Rightarrow>
      ('a result \<times> ('h reopen_store, 'h reopen_store, 'r) direct_reader) option) \<Rightarrow>
    ('h, 'r) session \<Rightarrow> ('a result \<times> ('h, 'r) session) option" where
  "with_direct_reader reader m s =
     map_option (\<lambda>(r, reader). (r, s\<lparr>se_oram := dr_oram reader\<rparr>)) (m (reader\<lparr>dr_oram := se_oram s\<rparr>))"

text \<open>The flush and the save that every session ends with, unless \<open>--no-save\<close> is given.\<close>

definition save_session :: "('c, 'h, 'r) oramctl \<Rightarrow> output_paths \<Rightarrow> (('h, 'r) session, unit) comp" where
  "save_session T paths =
     (let I = ctl_images T; E = ctl_env T in
      bnd (on_oram (oram_flush E)) (\<lambda>_.
      if ctl_no_save T then ret ()
      else
        bnd (gets (\<lambda>s. snapshot E (se_oram s))) (\<lambda>state.
        bnd (on_files (save_circuit_state (ie_hex I) (ie_aead I) (ctl_state_codec T) state (op_state paths)
               (ctl_state_key_hex T))) (\<lambda>_.
        if ctl_auth_store T then
          bnd (gets (\<lambda>s. oram_store_auth_state E (se_oram s))) (\<lambda>auth_state.
          bnd (lift (ok_or auth_state (InvalidInput ''authenticated stores did not expose auth state''))) (\<lambda>auth_state.
          on_files (save_circuit_store_auth (ie_hex I) (ie_aead I) (ctl_auth_codec T) auth_state
            (op_auth_state paths) (ctl_state_key_hex T))))
        else ret ()))))"

text \<open>What the loops count.\<close>

record 'r tally =
  ty_rng :: 'r
  ty_checksum :: u64
  ty_verified :: nat
  ty_drained :: u64

definition tally_new :: "'r \<Rightarrow> 'r tally" where
  "tally_new rng = \<lparr>ty_rng = rng, ty_checksum = 0, ty_verified = 0, ty_drained = 0\<rparr>"

record session_report =
  rp_verified :: nat
  rp_params :: oram_params
  rp_cached_pages :: nat
  rp_stash_len :: nat
  rp_pending_before :: u64
  rp_pending_after :: u64
  rp_drained_evictions :: u64
  rp_checksum :: u64

definition finish_report ::
  "('c, 'h, 'r) oramctl \<Rightarrow> nat \<Rightarrow> u64 \<Rightarrow> 'r tally \<Rightarrow> (('h, 'r) session, session_report) comp" where
  "finish_report T cached_pages pending_before y =
     bnd (gets se_oram) (\<lambda>oram.
     bnd (lift (pending_evictions (co_schedule oram))) (\<lambda>pending_after.
     ret \<lparr>rp_verified = ty_verified y, rp_params = co_params oram, rp_cached_pages = cached_pages,
          rp_stash_len = occupied_stash_len (ctl_ct T) (co_stash oram), rp_pending_before = pending_before,
          rp_pending_after = pending_after, rp_drained_evictions = ty_drained y, rp_checksum = ty_checksum y\<rparr>))"

section \<open>verify-circuit-bins\<close>

definition verify_bin ::
  "('c, 'h, 'r) oramctl \<Rightarrow> cuckoo_table \<Rightarrow> u64 \<Rightarrow> packed_reader \<Rightarrow> 'r tally \<Rightarrow>
    (('h reopen_store, 'h reopen_store, 'r) cuckoo_bin_reader, 'r tally) comp" where
  "verify_bin T t drain_per_access source_reader y =
     (let (w, rng) = ctl_next_u64 T (ty_rng y) in
      bnd (require (total_bins t \<noteq> 0) (Panic ''attempt to calculate the remainder with a divisor of zero'')) (\<lambda>_.
      let bin_id = unat w mod total_bins t in
      bnd (cuckoo_read_bin (ctl_env T) bin_id drain_per_access) (\<lambda>got.
      bnd (lift (packed_read_bin bin_id source_reader)) (\<lambda>expected.
      bnd (require (cr_payload got = expected)
        (InvalidInput ''{} bin {} did not match original cuckoo payload'')) (\<lambda>_.
      ret \<lparr>ty_rng = rng, ty_checksum = checksum_payload (ty_checksum y) (cr_payload got),
           ty_verified = ty_verified y + 1, ty_drained = ty_drained y + cr_drained_evictions got\<rparr>)))))"

fun verify_bins ::
  "('c, 'h, 'r) oramctl \<Rightarrow> cuckoo_table \<Rightarrow> u64 \<Rightarrow> packed_reader \<Rightarrow> nat \<Rightarrow> 'r tally \<Rightarrow>
    (('h reopen_store, 'h reopen_store, 'r) cuckoo_bin_reader, 'r tally) comp" where
  "verify_bins T t drain_per_access source_reader 0 y = ret y"
| "verify_bins T t drain_per_access source_reader (Suc n) y =
     bnd (verify_bin T t drain_per_access source_reader y) (verify_bins T t drain_per_access source_reader n)"

definition verify_queries ::
  "('c, 'h, 'r) oramctl \<Rightarrow> cuckoo_table \<Rightarrow> nat \<Rightarrow> nat \<Rightarrow> u64 \<Rightarrow> bytes \<Rightarrow> (('h, 'r) session, u64 \<times> 'r tally) comp" where
  "verify_queries T t pack bins drain_per_access query_seed =
     bnd (gets (\<lambda>s. cuckoo_reader_new t pack (se_oram s))) (\<lambda>r.
     bnd (lift r) (\<lambda>oram_reader.
     bnd (lift (packed_open (ctl_sources T) t pack)) (\<lambda>source_reader.
     bnd (lift (pending_evictions (co_schedule (cb_oram oram_reader)))) (\<lambda>pending_before.
     bnd (with_cuckoo_reader oram_reader
       (verify_bins T t drain_per_access source_reader bins (tally_new (ctl_from_seed T query_seed)))) (\<lambda>y.
     ret (pending_before, y))))))"

definition verify_session ::
  "('c, 'h, 'r) oramctl \<Rightarrow> output_paths \<Rightarrow> cuckoo_table \<Rightarrow> nat \<Rightarrow> nat \<Rightarrow> u64 \<Rightarrow> bytes \<Rightarrow> nat \<Rightarrow>
    (('h, 'r) session, session_report) comp" where
  "verify_session T paths t pack bins drain_per_access query_seed cached_pages =
     bnd (verify_queries T t pack bins drain_per_access query_seed) (\<lambda>(pending_before, y).
     bnd (save_session T paths) (\<lambda>_. finish_report T cached_pages pending_before y))"

definition verify_circuit_bin_table ::
  "('c, 'h, 'r) oramctl \<Rightarrow> path \<Rightarrow> cuckoo_table \<Rightarrow> nat \<Rightarrow> nat \<Rightarrow> u64 \<Rightarrow> bytes \<Rightarrow> ('h table_disk, session_report) comp" where
  "verify_circuit_bin_table T oram_dir t pack bins drain_per_access query_seed =
     (let paths = circuit_output_paths oram_dir (cu_level t) in
      bnd (open_table T (circuit_auth_store_id (cu_level t)) paths) (\<lambda>(cached_pages, oram) d.
      close_session (verify_session T paths t pack bins drain_per_access query_seed cached_pages
        \<lparr>se_oram = oram, se_host = tb_host d\<rparr>) d))"

section \<open>bench-circuit\<close>

text \<open>The ids of a batch, each drawn with a \<open>next_u64\<close> of its own.\<close>

fun draw_ids :: "('r \<Rightarrow> u64 \<times> 'r) \<Rightarrow> u64 \<Rightarrow> nat \<Rightarrow> 'r \<Rightarrow> u64 list \<times> 'r" where
  "draw_ids next_u64 m 0 rng = ([], rng)"
| "draw_ids next_u64 m (Suc n) rng =
     (let (w, rng) = next_u64 rng; (ids, rng) = draw_ids next_u64 m n rng in (w mod m # ids, rng))"

definition check_payload ::
  "packed_reader option \<Rightarrow> u64 \<times> bytes \<Rightarrow> u64 \<times> nat \<Rightarrow> (u64 \<times> nat) result" where
  "check_payload verifier = (\<lambda>(logical_id, payload) (checksum, verified).
     let checksum = checksum_payload checksum payload in
     case verifier of
       None \<Rightarrow> Inr (checksum, verified)
     | Some reader \<Rightarrow>
         rbind (packed_read_block (unat logical_id) reader) (\<lambda>expected.
         if payload \<noteq> expected then
           Inl (InvalidInput ''{} logical block {} did not match original cuckoo payload'')
         else Inr (checksum, verified + 1)))"

definition bench_batch ::
  "('c, 'h, 'r) oramctl \<Rightarrow> packed_reader option \<Rightarrow> oram_params \<Rightarrow> u64 \<Rightarrow> nat \<Rightarrow> 'r tally \<Rightarrow>
    (('h reopen_store, 'h reopen_store, 'r) circuit_oram, 'r tally) comp" where
  "bench_batch T verifier p drain_per_access batch_len y =
     bnd (require (logical_blocks p \<noteq> 0) (Panic ''attempt to calculate the remainder with a divisor of zero'')) (\<lambda>_.
     let (logical_ids, rng) = draw_ids (ctl_next_u64 T) (word_of_nat (logical_blocks p)) batch_len (ty_rng y) in
     bnd (read_batch (ctl_env T) logical_ids) (\<lambda>payloads.
     bnd (lift (rfoldM (check_payload verifier) (zip logical_ids payloads) (ty_checksum y, ty_verified y)))
       (\<lambda>(checksum, verified).
     bnd (drain_evictions (ctl_env T) (drain_per_access * word_of_nat batch_len)) (\<lambda>drained.
     ret \<lparr>ty_rng = rng, ty_checksum = checksum, ty_verified = verified, ty_drained = ty_drained y + drained\<rparr>))))"

text \<open>
  The loop over batches. The callers refuse a batch size of 0, with which the loop would not end:
  here \<open>b\<close> is the batch size less one.
\<close>

function bench_batches ::
  "('c, 'h, 'r) oramctl \<Rightarrow> packed_reader option \<Rightarrow> oram_params \<Rightarrow> u64 \<Rightarrow> nat \<Rightarrow> nat \<Rightarrow> nat \<Rightarrow> 'r tally \<Rightarrow>
    (('h reopen_store, 'h reopen_store, 'r) circuit_oram, 'r tally) comp" where
  "bench_batches T verifier p drain_per_access b ops completed_ops y =
     (if completed_ops < ops then
        let batch_len = min (Suc b) (ops - completed_ops) in
        bnd (bench_batch T verifier p drain_per_access batch_len y)
          (bench_batches T verifier p drain_per_access b ops (completed_ops + batch_len))
      else ret y)"
  by pat_completeness auto
termination
  by (relation "measure (\<lambda>(T, verifier, p, d, b, ops, completed_ops, y). ops - completed_ops)") auto

declare bench_batches.simps [simp del]

definition open_verifier ::
  "('c, 'h, 'r) oramctl \<Rightarrow> cuckoo_table option \<Rightarrow> nat \<Rightarrow> oram_params \<Rightarrow> packed_reader option result" where
  "open_verifier T table pack p =
     (case table of
        None \<Rightarrow> Inr None
      | Some t \<Rightarrow>
          rbind (packed_open (ctl_sources T) t pack) (\<lambda>reader.
          if pr_logical_blocks reader \<noteq> logical_blocks p \<or> pr_block_payload_bytes reader \<noteq> block_size p then
            Inl (InvalidInput ''{} verifier dimensions do not match Circuit ORAM state'')
          else Inr (Some reader)))"

definition bench_queries ::
  "('c, 'h, 'r) oramctl \<Rightarrow> cuckoo_table option \<Rightarrow> nat \<Rightarrow> nat \<Rightarrow> nat \<Rightarrow> u64 \<Rightarrow> bytes \<Rightarrow>
    (('h, 'r) session, u64 \<times> 'r tally) comp" where
  "bench_queries T table pack ops b drain_per_access query_seed =
     bnd (gets (\<lambda>s. co_params (se_oram s))) (\<lambda>p.
     bnd (lift (open_verifier T table pack p)) (\<lambda>verifier.
     bnd (gets (\<lambda>s. pending_evictions (co_schedule (se_oram s)))) (\<lambda>r.
     bnd (lift r) (\<lambda>pending_before.
     bnd (on_oram (bench_batches T verifier p drain_per_access b ops 0 (tally_new (ctl_from_seed T query_seed)))) (\<lambda>y.
     ret (pending_before, y))))))"

definition bench_session ::
  "('c, 'h, 'r) oramctl \<Rightarrow> output_paths \<Rightarrow> cuckoo_table option \<Rightarrow> nat \<Rightarrow> nat \<Rightarrow> nat \<Rightarrow> u64 \<Rightarrow> bytes \<Rightarrow> nat \<Rightarrow>
    (('h, 'r) session, session_report) comp" where
  "bench_session T paths table pack ops b drain_per_access query_seed cached_pages =
     bnd (bench_queries T table pack ops b drain_per_access query_seed) (\<lambda>(pending_before, y).
     bnd (save_session T paths) (\<lambda>_. finish_report T cached_pages pending_before y))"

definition bench_circuit_table ::
  "('c, 'h, 'r) oramctl \<Rightarrow> path \<Rightarrow> cuckoo_level \<Rightarrow> cuckoo_table option \<Rightarrow> nat \<Rightarrow> nat \<Rightarrow> nat \<Rightarrow> u64 \<Rightarrow> bytes \<Rightarrow>
    ('h table_disk, session_report) comp" where
  "bench_circuit_table T oram_dir level table pack ops b drain_per_access query_seed =
     (let paths = circuit_output_paths oram_dir level in
      bnd (open_table T (circuit_auth_store_id level) paths) (\<lambda>(cached_pages, oram) d.
      close_session (bench_session T paths table pack ops b drain_per_access query_seed cached_pages
        \<lparr>se_oram = oram, se_host = tb_host d\<rparr>) d))"

section \<open>bench-direct\<close>

definition load_direct_metadata :: "('c, 'h, 'r) oramctl \<Rightarrow> path \<Rightarrow> ('h host, direct_metadata) comp" where
  "load_direct_metadata T p =
     bnd (fs_read p) (\<lambda>contents.
     bnd (lift (ctl_metadata_codec T contents)) (\<lambda>metadata.
     bnd (lift (metadata_validate metadata)) (\<lambda>_. ret metadata)))"

definition validate_direct_source_for_metadata :: "bytes \<Rightarrow> direct_metadata \<Rightarrow> unit result" where
  "validate_direct_source_for_metadata source metadata =
     ensure (length source = dm_source_file_bytes metadata) (InvalidInput ''direct source {} has {} bytes, expected {}'')"

text \<open>\<open>seek\<close> and \<open>read_exact\<close> on the source file.\<close>

definition read_direct_record :: "nat \<Rightarrow> bytes \<Rightarrow> nat \<Rightarrow> bytes result" where
  "read_direct_record record_size source idx =
     (let start = usize_mul idx record_size in
      if length source < start + record_size then Inl (Io ''failed to fill whole buffer'')
      else Inr (slice start (start + record_size) source))"

definition read_direct_index_record :: "bytes \<Rightarrow> nat \<Rightarrow> bytes result" where
  "read_direct_index_record = read_direct_record DIRECT_INDEX_INPUT_RECORD_SIZE"

definition read_direct_chunk_record :: "bytes \<Rightarrow> nat \<Rightarrow> bytes result" where
  "read_direct_chunk_record = read_direct_record DIRECT_CHUNK_RECORD_SIZE"

fun random_index_hashes :: "('r \<Rightarrow> u64 \<times> 'r) \<Rightarrow> bytes \<Rightarrow> nat \<Rightarrow> nat \<Rightarrow> 'r \<Rightarrow> (bytes list \<times> 'r) result" where
  "random_index_hashes next_u64 source records 0 rng = Inr ([], rng)"
| "random_index_hashes next_u64 source records (Suc n) rng =
     (let (w, rng) = next_u64 rng in
      rbind (read_direct_index_record source (unat w mod records)) (\<lambda>rec.
      rbind (random_index_hashes next_u64 source records n rng) (\<lambda>(hashes, rng).
      Inr (take DIRECT_SCRIPT_HASH_SIZE rec # hashes, rng))))"

definition read_random_direct_index_hashes ::
  "('r \<Rightarrow> u64 \<times> 'r) \<Rightarrow> bytes \<Rightarrow> nat \<Rightarrow> nat \<Rightarrow> 'r \<Rightarrow> (bytes list \<times> 'r) result" where
  "read_random_direct_index_hashes next_u64 source records batch_len rng =
     (if records = 0 then Inl (InvalidInput ''direct index source has no records'')
      else random_index_hashes next_u64 source records batch_len rng)"

definition checksum_lookup :: "index_lookup \<Rightarrow> u64 \<Rightarrow> u64 result" where
  "checksum_lookup lookup checksum =
     (if \<not> il_found lookup then Inl (InvalidInput ''direct index batch lookup missed source script hash'')
      else
        let checksum = checksum_payload checksum (il_script_hash lookup);
            checksum = checksum_payload checksum (u32_to_le_bytes (il_start_chunk_id lookup))
        in Inr (checksum_payload checksum [il_num_chunks lookup]))"

text \<open>One batch of lookups; \<open>None\<close> when a candidate search does not return.\<close>

definition bench_lookups ::
  "('c, 'h, 'r) oramctl \<Rightarrow> bytes \<Rightarrow> direct_metadata \<Rightarrow> u64 \<Rightarrow> nat \<Rightarrow> 'r tally \<Rightarrow>
    ('h reopen_store, 'h reopen_store, 'r) direct_reader \<Rightarrow>
    ('r tally result \<times> ('h reopen_store, 'h reopen_store, 'r) direct_reader) option" where
  "bench_lookups T source metadata drain_per_access current_batch y s =
     (case read_random_direct_index_hashes (ctl_next_u64 T) source (dm_source_records metadata) current_batch (ty_rng y) of
        Inl e \<Rightarrow> Some (Inl e, s)
      | Inr (script_hashes, rng) \<Rightarrow>
          map_option (\<lambda>(r, s). (rbind r (\<lambda>got.
              rbind (rfoldM checksum_lookup (ib_lookups got) (ty_checksum y)) (\<lambda>checksum.
              Inr \<lparr>ty_rng = rng, ty_checksum = checksum, ty_verified = ty_verified y + length (ib_lookups got),
                   ty_drained = ty_drained y + ib_drained_evictions got\<rparr>)), s))
            (lookup_many_batched (ctl_env T) script_hashes drain_per_access s))"

definition checksum_chunk :: "bytes \<Rightarrow> chunk_read \<Rightarrow> u64 \<Rightarrow> u64 result" where
  "checksum_chunk source read checksum =
     rbind (read_direct_chunk_record source (ch_chunk_id read)) (\<lambda>expected.
     if ch_payload read \<noteq> expected then Inl (InvalidInput ''direct chunk {} did not match source'')
     else Inr (checksum_payload checksum (ch_payload read)))"

fun draw_chunk_ids :: "('r \<Rightarrow> u64 \<times> 'r) \<Rightarrow> nat \<Rightarrow> nat \<Rightarrow> 'r \<Rightarrow> nat list \<times> 'r" where
  "draw_chunk_ids next_u64 m 0 rng = ([], rng)"
| "draw_chunk_ids next_u64 m (Suc n) rng =
     (let (w, rng) = next_u64 rng; (ids, rng) = draw_chunk_ids next_u64 m n rng in (unat w mod m # ids, rng))"

definition bench_chunks ::
  "('c, 'h, 'r) oramctl \<Rightarrow> bytes \<Rightarrow> direct_metadata \<Rightarrow> u64 \<Rightarrow> nat \<Rightarrow> 'r tally \<Rightarrow>
    (('h reopen_store, 'h reopen_store, 'r) direct_reader, 'r tally) comp" where
  "bench_chunks T source metadata drain_per_access current_batch y =
     bnd (require (dm_total_items metadata \<noteq> 0)
       (Panic ''attempt to calculate the remainder with a divisor of zero'')) (\<lambda>_.
     let (chunk_ids, rng) = draw_chunk_ids (ctl_next_u64 T) (dm_total_items metadata) current_batch (ty_rng y) in
     bnd (direct_read_chunks (ctl_env T) chunk_ids drain_per_access) (\<lambda>got.
     bnd (lift (rfoldM (checksum_chunk source) (cx_reads got) (ty_checksum y))) (\<lambda>checksum.
     ret \<lparr>ty_rng = rng, ty_checksum = checksum, ty_verified = ty_verified y + length (cx_reads got),
          ty_drained = ty_drained y + cx_drained_evictions got\<rparr>)))"

definition bench_direct_batch ::
  "('c, 'h, 'r) oramctl \<Rightarrow> bytes \<Rightarrow> direct_metadata \<Rightarrow> u64 \<Rightarrow> nat \<Rightarrow> 'r tally \<Rightarrow>
    ('h reopen_store, 'h reopen_store, 'r) direct_reader \<Rightarrow>
    ('r tally result \<times> ('h reopen_store, 'h reopen_store, 'r) direct_reader) option" where
  "bench_direct_batch T source metadata drain_per_access current_batch y s =
     (case dm_level metadata of
        DirectIndex \<Rightarrow> bench_lookups T source metadata drain_per_access current_batch y s
      | DirectChunk \<Rightarrow> Some (bench_chunks T source metadata drain_per_access current_batch y s))"

text \<open>The loop over batches, \<open>b\<close> again the batch size less one.\<close>

function bench_direct_batches ::
  "('c, 'h, 'r) oramctl \<Rightarrow> bytes \<Rightarrow> direct_metadata \<Rightarrow> u64 \<Rightarrow> nat \<Rightarrow> nat \<Rightarrow> nat \<Rightarrow> 'r tally \<Rightarrow>
    ('h reopen_store, 'h reopen_store, 'r) direct_reader \<Rightarrow>
    ('r tally result \<times> ('h reopen_store, 'h reopen_store, 'r) direct_reader) option" where
  "bench_direct_batches T source metadata drain_per_access b ops completed_ops y s =
     (if completed_ops < ops then
        let current_batch = min (Suc b) (ops - completed_ops) in
        case bench_direct_batch T source metadata drain_per_access current_batch y s of
          None \<Rightarrow> None
        | Some (Inl e, s) \<Rightarrow> Some (Inl e, s)
        | Some (Inr y, s) \<Rightarrow>
            bench_direct_batches T source metadata drain_per_access b ops (completed_ops + current_batch) y s
      else Some (Inr y, s))"
  by pat_completeness auto
termination
  by (relation "measure (\<lambda>(T, source, m, d, b, ops, completed_ops, y, s). ops - completed_ops)") auto

declare bench_direct_batches.simps [simp del]

definition direct_reader_new ::
  "direct_metadata \<Rightarrow> ('h reopen_store, 'h reopen_store, 'r) circuit_oram \<Rightarrow>
    ('h reopen_store, 'h reopen_store, 'r) direct_reader result" where
  "direct_reader_new metadata =
     (case dm_level metadata of DirectIndex \<Rightarrow> index_reader_new metadata | DirectChunk \<Rightarrow> chunk_reader_new metadata)"

definition bench_direct_session ::
  "('c, 'h, 'r) oramctl \<Rightarrow> output_paths \<Rightarrow> string \<Rightarrow> direct_metadata \<Rightarrow> nat \<Rightarrow> nat \<Rightarrow> u64 \<Rightarrow> nat \<Rightarrow> bytes \<Rightarrow>
    ('h, 'r) session \<Rightarrow> (session_report result \<times> ('h, 'r) session) option" where
  "bench_direct_session T paths source_file metadata ops b drain_per_access cached_pages query_seed s =
     (let start = rbind (open_file (ctl_sources T) source_file) (\<lambda>source.
        rbind (pending_evictions (co_schedule (se_oram s))) (\<lambda>pending_before.
        rbind (direct_reader_new metadata (se_oram s)) (\<lambda>reader. Inr (source, pending_before, reader)))) in
      case start of
        Inl e \<Rightarrow> Some (Inl e, s)
      | Inr (source, pending_before, reader) \<Rightarrow>
          map_option (\<lambda>(r, s). bnd (lift r) (\<lambda>y.
              bnd (save_session T paths) (\<lambda>_. finish_report T cached_pages pending_before y)) s)
            (with_direct_reader reader
              (bench_direct_batches T source metadata drain_per_access b ops 0 (tally_new (ctl_from_seed T query_seed))) s))"

definition bench_direct_table ::
  "('c, 'h, 'r) oramctl \<Rightarrow> path \<Rightarrow> direct_level \<Rightarrow> string \<Rightarrow> nat \<Rightarrow> nat \<Rightarrow> u64 \<Rightarrow> bytes \<Rightarrow> 'h table_disk \<Rightarrow>
    (session_report result \<times> 'h table_disk) option" where
  "bench_direct_table T oram_dir level source_file ops b drain_per_access query_seed d =
     (let paths = direct_output_paths oram_dir level;
          (r, d) = bnd (on_host (load_direct_metadata T (op_metadata paths))) (\<lambda>metadata.
            bnd (require (dm_level metadata = level) (InvalidInput ''direct metadata level {} != requested {}'')) (\<lambda>_.
            bnd (lift (rbind (open_file (ctl_sources T) source_file) (\<lambda>source.
              validate_direct_source_for_metadata source metadata))) (\<lambda>_.
            bnd (open_table T (direct_auth_store_id level) paths) (\<lambda>(cached_pages, oram).
            ret (metadata, cached_pages, oram))))) d
      in case r of
           Inl e \<Rightarrow> Some (Inl e, d)
         | Inr (metadata, cached_pages, oram) \<Rightarrow>
             map_option (\<lambda>out. close_session out d)
               (bench_direct_session T paths source_file metadata ops b drain_per_access cached_pages query_seed
                 \<lparr>se_oram = oram, se_host = tb_host d\<rparr>))"

section \<open>The commands\<close>

datatype level_arg = LevelAll | LevelIndex | LevelChunk

definition levels :: "level_arg \<Rightarrow> cuckoo_level list" where
  "levels a = (case a of LevelAll \<Rightarrow> [CuckooIndex, CuckooChunk] | LevelIndex \<Rightarrow> [CuckooIndex] | LevelChunk \<Rightarrow> [CuckooChunk])"

text \<open>The tables of a directory: one file system, the images of each level.\<close>

record ('l, 'h) oram_dir =
  od_host :: "'h host"
  od_images :: "'l \<Rightarrow> image_files"

abbreviation on_table :: "'l \<Rightarrow> ('h table_disk, 'a) comp \<Rightarrow> (('l, 'h) oram_dir, 'a) comp" where
  "on_table level \<equiv> zoom (\<lambda>d. \<lparr>tb_host = od_host d, tb_images = od_images d level\<rparr>)
     (\<lambda>t d. d\<lparr>od_host := tb_host t, od_images := (od_images d)(level := tb_images t)\<rparr>)"

definition check_key :: "'h image_env \<Rightarrow> unit result" where
  "check_key I =
     (if ie_encrypted I then rbind (parse_required_key (ie_hex I) (ie_key_hex I)) (\<lambda>_. Inr ()) else Inr ())"

definition table_of_level :: "cuckoo_table \<times> cuckoo_table \<Rightarrow> cuckoo_level \<Rightarrow> cuckoo_table option" where
  "table_of_level tables level = find (\<lambda>t. cu_level t = level) [fst tables, snd tables]"

definition verify_circuit_bins ::
  "('c, 'h, 'r) oramctl \<Rightarrow> (string \<Rightarrow> string \<Rightarrow> string) \<Rightarrow> path \<Rightarrow> string \<Rightarrow> level_arg \<Rightarrow> nat \<Rightarrow> nat \<Rightarrow> u64 \<Rightarrow> bytes \<Rightarrow>
    ((cuckoo_level, 'h) oram_dir, session_report list) comp" where
  "verify_circuit_bins T join oram_dir db_dir level pack bins drain_per_access query_seed =
     bnd (require (pack \<noteq> 0) (InvalidInput ''--pack must be > 0'')) (\<lambda>_.
     bnd (lift (check_key (ctl_images T))) (\<lambda>_.
     bnd (lift (load_pair (ctl_sources T) join db_dir)) (\<lambda>tables.
     cmapM (\<lambda>selected_level.
       bnd (lift (ok_or (table_of_level tables selected_level) (Panic ''load_pair returns both levels''))) (\<lambda>table.
       on_table selected_level (verify_circuit_bin_table T oram_dir table pack bins drain_per_access
         (derive_level_seed query_seed selected_level)))) (levels level))))"

definition bench_circuit_images ::
  "('c, 'h, 'r) oramctl \<Rightarrow> (string \<Rightarrow> string \<Rightarrow> string) \<Rightarrow> path \<Rightarrow> string option \<Rightarrow> level_arg \<Rightarrow> nat \<Rightarrow> nat \<Rightarrow> nat \<Rightarrow>
    u64 \<Rightarrow> bytes \<Rightarrow> ((cuckoo_level, 'h) oram_dir, session_report list) comp" where
  "bench_circuit_images T join oram_dir db_dir level pack ops batch_size drain_per_access query_seed =
     bnd (require (pack \<noteq> 0) (InvalidInput ''--pack must be > 0'')) (\<lambda>_.
     case batch_size of
       0 \<Rightarrow> fail (InvalidInput ''--batch-size must be > 0'')
     | Suc b \<Rightarrow>
         bnd (lift (check_key (ctl_images T))) (\<lambda>_.
         bnd (lift (case db_dir of
             None \<Rightarrow> Inr None
           | Some db_dir \<Rightarrow> rbind (load_pair (ctl_sources T) join db_dir) (\<lambda>tables. Inr (Some tables)))) (\<lambda>tables.
         cmapM (\<lambda>selected_level.
           on_table selected_level (bench_circuit_table T oram_dir selected_level
             (Option.bind tables (\<lambda>tables. table_of_level tables selected_level)) pack ops b drain_per_access
             (derive_level_seed query_seed selected_level))) (levels level))))"

end
