(* ===== verification/Table_Build.thy ===== *)
theory Table_Build
  imports Table_Sessions
begin

text \<open>
  The command \<open>build-circuit\<close> of src/src/bin/oramctl.rs: it fills fresh images from a cuckoo file,
  builds the authentication layout over them and saves the state. A store that is dropped leaves
  its file; when a function in the middle of a build returns an error the model keeps the images
  as they were last opened, not the pages written since.
\<close>

section \<open>Authentication layouts\<close>

text \<open>
  The functions for cuckoo and for direct tables share their text here too: \<open>store_id\<close> is the
  identifier of a store at the level at hand.
\<close>

definition build_sidecar_store_auth ::
  "(bytes \<Rightarrow> bytes) \<Rightarrow> 'r image_env \<Rightarrow> (auth_store_kind \<Rightarrow> bytes) \<Rightarrow> oram_params \<Rightarrow> nat \<Rightarrow> nat \<Rightarrow> nat \<Rightarrow>
    (image_files, store_auth_state) comp" where
  "build_sidecar_store_auth H I store_id p cached_pages trusted_levels hash_page_size =
     (let d = data_ops (ie_aead I); im = image_ops (ie_aead I) in
      bnd (open_circuit_file_stores I p cached_pages True SidecarArg) (\<lambda>(meta_store, payload_store).
      bnd (lift (tiered_hash_pages (bucket_count p) hash_page_size trusted_levels)) (\<lambda>meta_hash_pages.
      bnd (lift (tiered_hash_pages (bucket_count p) hash_page_size trusted_levels)) (\<lambda>payload_hash_pages.
      bnd (open_sized_file_store I MetaHashImage meta_hash_pages hash_page_size 0 False) (\<lambda>meta_hash_store.
      bnd (open_sized_file_store I PayloadHashImage payload_hash_pages hash_page_size 0 False) (\<lambda>payload_hash_store.
      bnd (lift (run_owned (zero_page_store im) meta_hash_store)) (\<lambda>(_, meta_hash_store).
      bnd (lift (run_owned (zero_page_store im) payload_hash_store)) (\<lambda>(_, payload_hash_store).
      bnd (lift (tiered_build H d im meta_store meta_hash_store (store_id MetaStore) trusted_levels)) (\<lambda>meta.
      bnd (lift (tiered_build H d im payload_store payload_hash_store (store_id PayloadStore) trusted_levels)) (\<lambda>payload.
      bnd (lift (run_owned (ps_flush (tiered_ops H d im)) meta)) (\<lambda>(_, meta).
      bnd (lift (run_owned (ps_flush (tiered_ops H d im)) payload)) (\<lambda>(_, payload).
      bnd (modify (close_stores (ReopenSidecar meta) (ReopenSidecar payload))) (\<lambda>_.
      ret (store_auth_new (trusted_state im meta) (trusted_state im payload)))))))))))))))"

definition build_circuit_embedded_store_auth ::
  "(bytes \<Rightarrow> bytes) \<Rightarrow> 'r image_env \<Rightarrow> (auth_store_kind \<Rightarrow> bytes) \<Rightarrow> oram_params \<Rightarrow> nat \<Rightarrow>
    (image_files, store_auth_state) comp" where
  "build_circuit_embedded_store_auth H I store_id p cached_pages =
     (let im = image_ops (ie_aead I) in
      bnd (open_circuit_physical_file_stores I p cached_pages True EmbeddedTreeArg) (\<lambda>(meta_store, payload_store).
      let meta_logical_page_bytes = circuit_meta_page_bytes (bucket_size p);
          payload_logical_page_bytes = circuit_payload_page_bytes (bucket_size p) (block_size p) in
      bnd (lift (embedded_build H im meta_store (store_id MetaStore) meta_logical_page_bytes)) (\<lambda>meta.
      bnd (lift (embedded_build H im payload_store (store_id PayloadStore) payload_logical_page_bytes)) (\<lambda>payload.
      bnd (lift (run_owned (pp_flush (embedded_ops H im)) meta)) (\<lambda>(_, meta).
      bnd (lift (run_owned (pp_flush (embedded_ops H im)) payload)) (\<lambda>(_, payload).
      bnd (modify (close_stores (ReopenEmbedded meta) (ReopenEmbedded payload))) (\<lambda>_.
      ret (store_auth_new_embedded (embedded_state meta) (embedded_state payload)))))))))"

definition build_store_auth ::
  "(bytes \<Rightarrow> bytes) \<Rightarrow> 'r image_env \<Rightarrow> (auth_store_kind \<Rightarrow> bytes) \<Rightarrow> oram_params \<Rightarrow> nat \<Rightarrow> auth_layout_arg \<Rightarrow>
    nat \<Rightarrow> nat \<Rightarrow> (image_files, store_auth_state) comp" where
  "build_store_auth H I store_id p cached_pages layout trusted_levels hash_page_size =
     (case layout of
        SidecarArg \<Rightarrow> build_sidecar_store_auth H I store_id p cached_pages trusted_levels hash_page_size
      | EmbeddedTreeArg \<Rightarrow> build_circuit_embedded_store_auth H I store_id p cached_pages)"

text \<open>The functions of the two kinds of table.\<close>

definition build_circuit_sidecar_store_auth ::
  "(bytes \<Rightarrow> bytes) \<Rightarrow> 'r image_env \<Rightarrow> cuckoo_level \<Rightarrow> oram_params \<Rightarrow> nat \<Rightarrow> nat \<Rightarrow> nat \<Rightarrow>
    (image_files, store_auth_state) comp" where
  "build_circuit_sidecar_store_auth H I level = build_sidecar_store_auth H I (circuit_auth_store_id level)"

definition build_direct_sidecar_store_auth ::
  "(bytes \<Rightarrow> bytes) \<Rightarrow> 'r image_env \<Rightarrow> direct_level \<Rightarrow> oram_params \<Rightarrow> nat \<Rightarrow> nat \<Rightarrow> nat \<Rightarrow>
    (image_files, store_auth_state) comp" where
  "build_direct_sidecar_store_auth H I level = build_sidecar_store_auth H I (direct_auth_store_id level)"

definition build_circuit_store_auth ::
  "(bytes \<Rightarrow> bytes) \<Rightarrow> 'r image_env \<Rightarrow> cuckoo_level \<Rightarrow> oram_params \<Rightarrow> nat \<Rightarrow> auth_layout_arg \<Rightarrow>
    nat \<Rightarrow> nat \<Rightarrow> (image_files, store_auth_state) comp" where
  "build_circuit_store_auth H I level = build_store_auth H I (circuit_auth_store_id level)"

definition build_direct_store_auth ::
  "(bytes \<Rightarrow> bytes) \<Rightarrow> 'r image_env \<Rightarrow> direct_level \<Rightarrow> oram_params \<Rightarrow> nat \<Rightarrow> auth_layout_arg \<Rightarrow>
    nat \<Rightarrow> nat \<Rightarrow> (image_files, store_auth_state) comp" where
  "build_direct_store_auth H I level = build_store_auth H I (direct_auth_store_id level)"

section \<open>build-circuit\<close>

record build_args =
  ba_pack :: nat
  ba_leaf_divisor :: nat
  ba_bucket_size :: nat
  ba_stash_capacity :: nat
  ba_auth_layout :: auth_layout_arg
  ba_auth_trusted_levels :: nat
  ba_auth_hash_page_size :: nat

definition sizing_of :: "('c, 'h, 'r) oramctl \<Rightarrow> build_args \<Rightarrow> oram_sizing" where
  "sizing_of T a =
     \<lparr>sz_per_block = ba_pack a, sz_leaf_divisor = ba_leaf_divisor a, sz_bucket_size = ba_bucket_size a,
      sz_stash_capacity = ba_stash_capacity a, sz_cache_levels = ctl_cache_levels T\<rparr>"

definition estimate_params :: "build_args \<Rightarrow> 'e image_estimate_scheme \<Rightarrow> oram_params result" where
  "estimate_params a estimate =
     rbind (with_leaves (ie_logical_blocks estimate) (ie_block_payload_bytes estimate) (ie_leaves estimate)) (\<lambda>p.
     rbind (with_bucket_size p (ba_bucket_size a)) (\<lambda>p.
     with_stash_capacity p (ba_stash_capacity a)))"

definition build_params :: "('c, 'h, 'r) oramctl \<Rightarrow> build_args \<Rightarrow> cuckoo_table \<Rightarrow> oram_params result" where
  "build_params T a t = rbind (cuckoo_estimate_sizes (sizing_of T a) t) (estimate_params a)"

definition data_env :: "('c, 'h, 'r) oramctl \<Rightarrow> ('c, 'h data_store, 'h data_store, 'r) circuit_env" where
  "data_env T =
     (let ps = path_of_page_store (data_ops (ie_aead (ctl_images T))) in
      \<lparr>e_ct = ctl_ct T, e_next_u64 = ctl_next_u64 T, e_meta = ps, e_payload = ps\<rparr>)"

text \<open>
  The controller is built over the two data stores, flushed and snapshot; the stores are then left
  alone, and the authentication layout is built over their files.
\<close>

definition build_data ::
  "('c, 'h, 'r) oramctl \<Rightarrow> oram_params \<Rightarrow> 's block_source \<Rightarrow> 'h data_store \<Rightarrow> 'h data_store \<Rightarrow> 's \<Rightarrow> bytes \<Rightarrow>
    (image_files, 'r circuit_oram_state) comp" where
  "build_data T p src meta_store payload_store source seed =
     (let d = data_ops (ie_aead (ctl_images T)) in
      bnd (lift (build_trusted_from_source (ctl_ct T) (ctl_next_u64 T) (ctl_from_seed T) d d src p
             meta_store payload_store source seed)) (\<lambda>oram.
      bnd (lift (run_owned (oram_flush (data_env T)) oram)) (\<lambda>(_, oram).
      bnd (modify (close_stores (ReopenPlain (co_meta_store oram)) (ReopenPlain (co_payload_store oram)))) (\<lambda>_.
      ret (snapshot (data_env T) oram)))))"

definition build_auth ::
  "('c, 'h, 'r) oramctl \<Rightarrow> build_args \<Rightarrow> (auth_store_kind \<Rightarrow> bytes) \<Rightarrow> oram_params \<Rightarrow> nat \<Rightarrow> 'r circuit_oram_state \<Rightarrow>
    (image_files, 'r circuit_oram_state \<times> store_auth_state option) comp" where
  "build_auth T a store_id p cached_pages controller_state =
     (if ctl_auth_store T then
        bnd (build_store_auth (ctl_sha256 T) (ctl_images T) store_id p cached_pages (ba_auth_layout a)
               (ba_auth_trusted_levels a) (ba_auth_hash_page_size a)) (\<lambda>auth_state.
        ret (with_auth controller_state (Some auth_state), Some auth_state))
      else ret (controller_state, None))"

text \<open>The two files that every build ends with.\<close>

definition save_states ::
  "('c, 'h, 'r) oramctl \<Rightarrow> output_paths \<Rightarrow> 'r circuit_oram_state \<times> store_auth_state option \<Rightarrow>
    ('h host, unit) comp" where
  "save_states T paths =
     (\<lambda>(controller_state, auth_state). let I = ctl_images T in
      bnd (case auth_state of
             None \<Rightarrow> ret ()
           | Some auth_state \<Rightarrow>
               save_circuit_store_auth (ie_hex I) (ie_aead I) (ctl_auth_codec T) auth_state
                 (op_auth_state paths) (ctl_state_key_hex T)) (\<lambda>_.
      save_circuit_state (ie_hex I) (ie_aead I) (ctl_state_codec T) controller_state (op_state paths)
        (ctl_state_key_hex T)))"

text \<open>What \<open>build-circuit\<close> does with the images of a table, up to the states it saves.\<close>

definition build_states ::
  "('c, 'h, 'r) oramctl \<Rightarrow> build_args \<Rightarrow> cuckoo_table \<Rightarrow> bytes \<Rightarrow>
    (image_files, 'r circuit_oram_state \<times> store_auth_state option) comp" where
  "build_states T a t seed =
     bnd (lift (build_params T a t)) (\<lambda>p.
     bnd (lift (cached_pages_for_levels p (ctl_cache_levels T))) (\<lambda>cached_pages.
     bnd (open_circuit_file_stores (ctl_images T) p cached_pages False
            (active_auth_layout (ctl_auth_store T) (ba_auth_layout a))) (\<lambda>(meta_store, payload_store).
     bnd (lift (packed_open (ctl_sources T) t (ba_pack a))) (\<lambda>reader.
     bnd (require (pr_logical_blocks reader = logical_blocks p \<and> pr_block_payload_bytes reader = block_size p)
            (InvalidInput ''packed cuckoo reader dimensions do not match ORAM params'')) (\<lambda>_.
     bnd (build_data T p packed_source_ops meta_store payload_store reader seed)
       (build_auth T a (circuit_auth_store_id (cu_level t)) p cached_pages))))))"

definition build_circuit_table ::
  "('c, 'h, 'r) oramctl \<Rightarrow> build_args \<Rightarrow> path \<Rightarrow> cuckoo_table \<Rightarrow> bytes \<Rightarrow> ('h table_disk, unit) comp" where
  "build_circuit_table T a out_dir t seed =
     bnd (on_images (build_states T a t seed)) (\<lambda>states.
     on_host (save_states T (circuit_output_paths out_dir (cu_level t)) states))"

text \<open>The command: one table or both. That the output directory exists is a matter of the host.\<close>

definition build_circuit_images ::
  "('c, 'h, 'r) oramctl \<Rightarrow> build_args \<Rightarrow> (string \<Rightarrow> string \<Rightarrow> string) \<Rightarrow> string \<Rightarrow> path \<Rightarrow> level_arg \<Rightarrow> bytes \<Rightarrow>
    ((cuckoo_level, 'h) oram_dir, unit) comp" where
  "build_circuit_images T a join db_dir out_dir level seed =
     bnd (require (ba_pack a \<noteq> 0) (InvalidInput ''--pack must be > 0'')) (\<lambda>_.
     bnd (require (ba_leaf_divisor a \<noteq> 0) (InvalidInput ''--leaf-divisor must be > 0'')) (\<lambda>_.
     bnd (lift (check_key (ctl_images T))) (\<lambda>_.
     bnd (lift (load_pair (ctl_sources T) join db_dir)) (\<lambda>tables.
     citer (\<lambda>selected_level.
       bnd (lift (ok_or (table_of_level tables selected_level) (Panic ''load_pair returns both levels''))) (\<lambda>table.
       on_table selected_level (build_circuit_table T a out_dir table (derive_level_seed seed (cu_level table)))))
       (levels level)))))"

end
