(* ===== verification/Store_Frames.thy ===== *)
theory Store_Frames
  imports Image_Stores
begin

text \<open>
  What no operation of a store changes: the key of an encrypted image, the identifier of an
  authenticated store, the way the stack is put together. \<open>frames g c\<close> says that the computation
  \<open>c\<close> leaves \<open>g\<close> of the state alone, whether it succeeds or fails; it is closed under the
  combinators, so the frame of a store is read off its text. A framed quantity can be added to the
  invariant of a store contract.
\<close>

section \<open>Computations that leave a part of the state alone\<close>

named_theorems frame_intros

definition frames :: "('s \<Rightarrow> 'c) \<Rightarrow> ('s, 'a) comp \<Rightarrow> bool" where
  "frames g c \<longleftrightarrow> (\<forall>s. g (snd (c s)) = g s)"

lemma framesD: "frames g c \<Longrightarrow> c s = (r, s') \<Longrightarrow> g s' = g s"
  by (auto simp: frames_def dest: spec [of _ s])

lemma frames_atoms [frame_intros]:
  "frames g (ret a)" "frames g (fail e)" "frames g (lift r)" "frames g (gets f)" "frames g (require b e)"
  by (simp_all add: frames_def comp_simps)

lemma frames_modify: "(\<And>s. g (f s) = g s) \<Longrightarrow> frames g (modify f)"
  by (simp add: frames_def comp_simps)

lemma frames_bnd [frame_intros]: "frames g m \<Longrightarrow> (\<And>a. frames g (f a)) \<Longrightarrow> frames g (bnd m f)"
  by (auto simp: frames_def bnd_def split: prod.split sum.split) (metis snd_conv)+

lemma frames_cmapM [frame_intros]: "(\<And>x. frames g (f x)) \<Longrightarrow> frames g (cmapM f xs)"
  by (induction xs) (auto intro!: frame_intros)

lemma frames_citer [frame_intros]: "(\<And>x. frames g (f x)) \<Longrightarrow> frames g (citer f xs)"
  by (induction xs) (auto intro!: frame_intros)

lemma frames_if [frame_intros]: "(b \<Longrightarrow> frames g c) \<Longrightarrow> (\<not> b \<Longrightarrow> frames g d) \<Longrightarrow> frames g (if b then c else d)"
  by simp

lemma frames_prod [frame_intros]: "(\<And>a b. frames g (f a b)) \<Longrightarrow> frames g (case x of (a, b) \<Rightarrow> f a b)"
  by (cases x) simp

lemma frames_option [frame_intros]:
  "frames g c \<Longrightarrow> (\<And>a. frames g (f a)) \<Longrightarrow> frames g (case x of None \<Rightarrow> c | Some a \<Rightarrow> f a)"
  by (cases x) simp_all

lemma frames_let [frame_intros]: "frames g (f a) \<Longrightarrow> frames g (let x = a in f x)"
  by simp

lemma frames_zoom:
  assumes "frames h c" and "\<And>s t. h t = h (get s) \<Longrightarrow> g (put t s) = g s"
  shows "frames g (zoom get put c)"
proof -
  have "g (snd (zoom get put c s)) = g s" for s
  proof -
    obtain r t where "c (get s) = (r, t)" by fastforce
    with framesD [OF assms(1) this] assms(2) show ?thesis by (simp add: zoom_def)
  qed
  then show ?thesis by (simp add: frames_def)
qed

lemma frames_const [simp]: "frames (\<lambda>_. c) m"
  by (simp add: frames_def)

section \<open>Stores\<close>

definition page_frames :: "'s page_store \<Rightarrow> ('s \<Rightarrow> 'c) \<Rightarrow> bool" where
  "page_frames ps g \<longleftrightarrow>
     (\<forall>i n. frames g (ps_read_page ps i n)) \<and> (\<forall>i p. frames g (ps_write_page ps i p)) \<and>
     (\<forall>is. frames g (ps_read_pages ps is)) \<and> (\<forall>is pgs. frames g (ps_write_pages ps is pgs)) \<and>
     frames g (ps_flush ps)"

definition path_frames :: "'s path_page_store \<Rightarrow> ('s \<Rightarrow> 'c) \<Rightarrow> bool" where
  "path_frames pp g \<longleftrightarrow>
     (\<forall>is. frames g (pp_read_path_pages pp is)) \<and> (\<forall>is pgs. frames g (pp_write_path_pages pp is pgs)) \<and>
     (\<forall>is. frames g (pp_read_paths_pages pp is)) \<and> (\<forall>is pgs. frames g (pp_write_paths_pages pp is pgs)) \<and>
     frames g (pp_flush pp)"

lemma page_framesD [frame_intros]:
  assumes "page_frames ps g"
  shows "frames g (ps_read_page ps i n)" "frames g (ps_write_page ps i p)" "frames g (ps_read_pages ps is)"
    "frames g (ps_write_pages ps is pgs)" "frames g (ps_flush ps)"
  using assms by (simp_all add: page_frames_def)

lemma path_framesD:
  assumes "path_frames pp g"
  shows "frames g (pp_read_path_pages pp is)" "frames g (pp_write_path_pages pp is pgs)"
    "frames g (pp_read_paths_pages pp iss)" "frames g (pp_write_paths_pages pp iss pgss)" "frames g (pp_flush pp)"
  using assms by (simp_all add: path_frames_def)

text \<open>A framed quantity joins the invariant.\<close>

lemma kept_fixed:
  "kept ok sz cnt s s' \<Longrightarrow> g s' = g s \<Longrightarrow> kept (\<lambda>s. ok s \<and> g s = c) sz cnt s s' \<longleftrightarrow> g s = c"
  by (simp add: kept_def)

context page_store_spec
begin

lemma page_store_fixed:
  assumes "page_frames ps g"
  shows "page_store_spec ps (\<lambda>s. ok s \<and> g s = c) pages"
proof -
  note fr = page_framesD [OF assms, THEN framesD]
  show ?thesis
  proof unfold_locales
    fix s i p assume s: "ok s \<and> g s = c" "pages s i = Some p"
    then show "i < ps_page_count ps s" "length p = ps_page_size ps s"
      by (auto simp: page_index page_length)
    from s read_page [of s i p] fr(1) [of i "ps_page_size ps s" s]
    show "\<exists>s'. ps_read_page ps i (ps_page_size ps s) s = (Inr p, s') \<and>
        kept (\<lambda>s. ok s \<and> g s = c) (ps_page_size ps) (ps_page_count ps) s s' \<and> pages s' = pages s"
      by (auto simp: kept_fixed)
  next
    fix s i and p :: bytes assume "ok s \<and> g s = c" "i < ps_page_count ps s" "length p = ps_page_size ps s"
    with write_page [of s i p] fr(2) [of i p s]
    show "\<exists>s'. ps_write_page ps i p s = (Inr (), s') \<and>
        kept (\<lambda>s. ok s \<and> g s = c) (ps_page_size ps) (ps_page_count ps) s s' \<and> pages s' = (pages s)(i \<mapsto> p)"
      by (auto simp: kept_fixed)
  next
    fix s idxs and f :: "nat \<Rightarrow> bytes"
    assume "ok s \<and> g s = c" "\<And>i. i \<in> set idxs \<Longrightarrow> pages s i = Some (f i)"
    with read_pages [of s idxs f] fr(3) [of idxs s]
    show "\<exists>s'. ps_read_pages ps idxs s = (Inr (map f idxs), s') \<and>
        kept (\<lambda>s. ok s \<and> g s = c) (ps_page_size ps) (ps_page_count ps) s s' \<and> pages s' = pages s"
      by (auto simp: kept_fixed)
  next
    fix s idxs and pgs :: "bytes list"
    assume "ok s \<and> g s = c" "length idxs = length pgs" "\<And>i. i \<in> set idxs \<Longrightarrow> i < ps_page_count ps s"
      "\<And>p. p \<in> set pgs \<Longrightarrow> length p = ps_page_size ps s"
    with write_pages [of s idxs pgs] fr(4) [of idxs pgs s]
    show "\<exists>s'. ps_write_pages ps idxs pgs s = (Inr (), s') \<and>
        kept (\<lambda>s. ok s \<and> g s = c) (ps_page_size ps) (ps_page_count ps) s s' \<and> pages s' = (pages s)(idxs [\<mapsto>] pgs)"
      by (auto simp: kept_fixed)
  next
    fix s assume "ok s \<and> g s = c"
    with flush [of s] fr(5) [of s]
    show "\<exists>s'. ps_flush ps s = (Inr (), s') \<and>
        kept (\<lambda>s. ok s \<and> g s = c) (ps_page_size ps) (ps_page_count ps) s s' \<and> pages s' = pages s"
      by (auto simp: kept_fixed)
  qed
qed

end

context path_store_spec
begin

lemma path_store_fixed:
  assumes "path_frames pp g"
  shows "path_store_spec pp (\<lambda>s. ok s \<and> g s = c) pages"
proof -
  note fr = path_framesD [OF assms, THEN framesD]
  show ?thesis
  proof unfold_locales
    fix s i p assume s: "ok s \<and> g s = c" "pages s i = Some p"
    then show "i < pp_page_count pp s" "length p = pp_page_size pp s"
      by (auto simp: page_index page_length)
  next
    fix s path and f :: "nat \<Rightarrow> bytes"
    assume "ok s \<and> g s = c" "root_path (pp_page_count pp s) path" "\<And>i. i \<in> set path \<Longrightarrow> pages s i = Some (f i)"
    with read_path [of s path f] fr(1) [of path s]
    show "\<exists>s'. pp_read_path_pages pp path s = (Inr (map f path), s') \<and>
        kept (\<lambda>s. ok s \<and> g s = c) (pp_page_size pp) (pp_page_count pp) s s' \<and> pages s' = pages s"
      by (auto simp: kept_fixed)
  next
    fix s path and f :: "nat \<Rightarrow> bytes"
    assume "ok s \<and> g s = c" "root_path (pp_page_count pp s) path"
      "\<And>i. i \<in> set path \<Longrightarrow> length (f i) = pp_page_size pp s" "\<And>i. i \<in> set path \<Longrightarrow> pages s i \<noteq> None"
    with write_path [of s path f] fr(2) [of path "map f path" s]
    show "\<exists>s'. pp_write_path_pages pp path (map f path) s = (Inr (), s') \<and>
        kept (\<lambda>s. ok s \<and> g s = c) (pp_page_size pp) (pp_page_count pp) s s' \<and> pages s' = overwrite (pages s) f path"
      by (auto simp: kept_fixed)
  next
    fix s paths and f :: "nat \<Rightarrow> bytes"
    assume "ok s \<and> g s = c" "\<And>path. path \<in> set paths \<Longrightarrow> root_path (pp_page_count pp s) path"
      "\<And>i. i \<in> set (concat paths) \<Longrightarrow> pages s i = Some (f i)"
    with read_paths [of s paths f] fr(3) [of paths s]
    show "\<exists>s'. pp_read_paths_pages pp paths s = (Inr (map (map f) paths), s') \<and>
        kept (\<lambda>s. ok s \<and> g s = c) (pp_page_size pp) (pp_page_count pp) s s' \<and> pages s' = pages s"
      by (auto simp: kept_fixed)
  next
    fix s paths and f :: "nat \<Rightarrow> bytes"
    assume "ok s \<and> g s = c" "\<And>path. path \<in> set paths \<Longrightarrow> root_path (pp_page_count pp s) path"
      "\<And>i. i \<in> set (concat paths) \<Longrightarrow> length (f i) = pp_page_size pp s"
      "\<And>i. i \<in> set (concat paths) \<Longrightarrow> pages s i \<noteq> None"
    with write_paths [of s paths f] fr(4) [of paths "map (map f) paths" s]
    show "\<exists>s'. pp_write_paths_pages pp paths (map (map f) paths) s = (Inr (), s') \<and>
        kept (\<lambda>s. ok s \<and> g s = c) (pp_page_size pp) (pp_page_count pp) s s' \<and>
        pages s' = overwrite (pages s) f (concat paths)"
      by (auto simp: kept_fixed)
  next
    fix s assume "ok s \<and> g s = c"
    with flush_paths [of s] fr(5) [of s]
    show "\<exists>s'. pp_flush pp s = (Inr (), s') \<and>
        kept (\<lambda>s. ok s \<and> g s = c) (pp_page_size pp) (pp_page_count pp) s s' \<and> pages s' = pages s"
      by (auto simp: kept_fixed)
  qed
qed

end

section \<open>The layers\<close>

lemma frames_default_pages [frame_intros]:
  "(\<And>i n. frames g (rd i n)) \<Longrightarrow> frames g (default_read_pages sz rd is)"
  "(\<And>i p. frames g (wr i p)) \<Longrightarrow> frames g (default_write_pages sz wr is pgs)"
  by (auto simp: default_read_pages_def default_write_pages_def intro!: frame_intros)

lemma frames_either:
  "frames g m \<Longrightarrow> frames h n \<Longrightarrow> frames (case_sum g h) (either_comp m n)"
  by (auto simp: frames_def either_comp_def split: sum.split)

lemma either_frames:
  "page_frames p g \<Longrightarrow> page_frames q h \<Longrightarrow> page_frames (either_ops p q) (case_sum g h)"
  unfolding page_frames_def either_ops_def by (auto intro!: frames_either)

lemma aead_zoom_frames: "frames as_cipher (zoom as_inner (\<lambda>t s. s\<lparr>as_inner := t\<rparr>) c)"
  by (rule frames_zoom [where h = "\<lambda>_. ()"]) simp_all

lemma aead_frames: "page_frames (aead_ops A ps) as_cipher"
  unfolding page_frames_def aead_ops_def aead_read_page_def aead_write_page_def aead_read_pages_def
    aead_write_pages_def encrypt_page_def decrypt_page_def
  by (auto intro!: frame_intros aead_zoom_frames frames_modify)

lemma fc_put_inner [simp]: "fc_inner (fc_put i p s) = fc_inner s"
  by (simp add: fc_put_def)

lemma fc_zoom_frames: "frames g c \<Longrightarrow> frames (\<lambda>s. g (fc_inner s)) (zoom fc_inner (\<lambda>t s. s\<lparr>fc_inner := t\<rparr>) c)"
  by (erule frames_zoom) simp

lemma front_cached_frames:
  assumes "page_frames ps g"
  shows "page_frames (front_cached_ops ps) (\<lambda>s. g (fc_inner s))"
proof -
  have loop: "frames (\<lambda>s. g (fc_inner s)) (fc_write_loop n l inner)" for n l inner
    by (induction n l inner rule: fc_write_loop.induct) (auto intro!: frame_intros frames_modify)
  show ?thesis
    unfolding page_frames_def front_cached_ops_def fc_read_page_def fc_write_page_def fc_read_pages_def
      fc_write_pages_def fc_flush_def fc_flush_page_def
    by (auto intro!: frame_intros fc_zoom_frames loop frames_modify page_framesD [OF assms])
qed

lemma lp_zoom_frames: "frames g c \<Longrightarrow> frames (\<lambda>s. g (lp_inner s)) (zoom lp_inner (\<lambda>t s. s\<lparr>lp_inner := t\<rparr>) c)"
  by (erule frames_zoom) simp

lemma prefix_frames:
  assumes "page_frames ps g"
  shows "page_frames (prefix_ops ps) (\<lambda>s. g (lp_inner s))"
  unfolding page_frames_def prefix_ops_def prefix_read_page_def prefix_write_page_def
  by (auto intro!: frame_intros lp_zoom_frames page_framesD [OF assms])

text \<open>
  The tiered store: its identifier, whether any hash is on disk, and a frame of each of the two
  stores below.
\<close>

definition td_parts :: "('s \<Rightarrow> 'c) \<Rightarrow> ('h \<Rightarrow> 'd) \<Rightarrow> ('s, 'h) tiered_store \<Rightarrow> bytes \<times> bool \<times> 'c \<times> 'd" where
  "td_parts g h s = (td_store_id s, 0 < td_required s, g (td_inner s), h (td_hash_store s))"

lemma td_zoom_frames:
  "frames g c \<Longrightarrow> frames (td_parts g h) (zoom td_inner (\<lambda>t s. s\<lparr>td_inner := t\<rparr>) c)"
  by (erule frames_zoom) (simp add: td_parts_def td_required_def)

lemma td_hash_zoom_frames:
  "frames h c \<Longrightarrow> frames (td_parts g h) (zoom td_hash_store (\<lambda>t s. s\<lparr>td_hash_store := t\<rparr>) c)"
  by (erule frames_zoom) (simp add: td_parts_def td_required_def)

lemma tiered_frames:
  assumes "page_frames ps g" and "page_frames hs h"
  shows "page_frames (tiered_ops H ps hs) (td_parts g h)"
proof -
  let ?F = "td_parts g h"
  have read: "frames ?F (read_hash hs n)" for n
    unfolding read_hash_def check_node_idx_def read_disk_hash_def
    by (auto intro!: frame_intros td_hash_zoom_frames page_framesD [OF assms(2)])
  have wr: "frames ?F (write_hash hs n x)" for n x
    unfolding write_hash_def check_node_idx_def write_disk_hash_def
    by (auto intro!: frame_intros td_hash_zoom_frames page_framesD [OF assms(2)] frames_modify simp: td_parts_def td_required_def)
  have verify: "frames ?F (verify_walk H hs n x)" for n x
  proof (induction n arbitrary: x rule: less_induct)
    case (less n)
    show ?case by (subst verify_walk.simps) (intro frame_intros read less.IH; simp)
  qed
  have update: "frames ?F (update_walk H hs n x)" for n x
  proof (induction n arbitrary: x rule: less_induct)
    case (less n)
    show ?case by (subst update_walk.simps) (intro frame_intros read wr less.IH; simp)
  qed
  show ?thesis
    unfolding page_frames_def tiered_ops_def tiered_read_page_def tiered_write_page_def verify_page_hash_def
      update_page_hash_def
    by (auto intro!: frame_intros td_zoom_frames td_hash_zoom_frames verify update wr page_framesD [OF assms(1)]
        page_framesD [OF assms(2)])
qed

definition es_parts :: "('s \<Rightarrow> 'c) \<Rightarrow> 's embedded_store \<Rightarrow> bytes \<times> 'c" where
  "es_parts g s = (es_store_id s, g (es_inner s))"

lemma es_zoom_frames: "frames g c \<Longrightarrow> frames (es_parts g) (zoom es_inner (\<lambda>t s. s\<lparr>es_inner := t\<rparr>) c)"
  by (erule frames_zoom) (simp add: es_parts_def)

lemma embedded_frames:
  assumes "page_frames ps g"
  shows "path_frames (embedded_ops H ps) (es_parts g)"
proof -
  note ps = page_framesD [OF assms]
  have verified: "frames (es_parts g) (read_verified_paths H ps paths)" for paths
    unfolding read_verified_paths_def by (auto intro!: frame_intros es_zoom_frames ps simp: Let_def)
  have one: "frames (es_parts g) (write_one_path H e ov)" for e ov
    unfolding write_one_path_def by (auto intro!: frame_intros frames_modify simp: Let_def es_parts_def)
  have loop: "frames (es_parts g) (write_path_loop H es ov)" for es ov
    by (induction es arbitrary: ov) (auto intro!: frame_intros one)
  have update: "frames (es_parts g) (pages_to_update H ps paths)" for paths
    unfolding pages_to_update_def by (auto intro!: frame_intros frames_modify verified simp: es_parts_def)
  have read: "frames (es_parts g) (es_read_paths H ps paths)" for paths
    unfolding es_read_paths_def by (auto intro!: frame_intros frames_modify verified simp: es_parts_def)
  have wr: "frames (es_parts g) (es_write_paths H ps paths pgs)" for paths pgs
    unfolding es_write_paths_def
    by (auto intro!: frame_intros update loop es_zoom_frames ps simp: Let_def)
  show ?thesis
    unfolding path_frames_def embedded_ops_def es_read_path_def es_write_path_def
    by (auto intro!: frame_intros read wr es_zoom_frames ps)
qed

lemma plain_path_frames: "page_frames ps g \<Longrightarrow> path_frames (plain_path_ops ps) g"
  unfolding path_frames_def plain_path_ops_def read_plain_path_pages_def write_plain_path_pages_def
    read_plain_paths_pages_def write_plain_paths_pages_def
  by (auto intro!: frame_intros simp: page_frames_def)

lemma blanket_frames: "page_frames ps g \<Longrightarrow> path_frames (path_of_page_store ps) g"
  unfolding path_frames_def path_of_page_store_def blanket_read_paths_pages_def blanket_write_paths_pages_def
  by (auto intro!: frame_intros simp: page_frames_def)

lemma reopen_comp_frames:
  "frames g a \<Longrightarrow> frames h b \<Longrightarrow> frames k c \<Longrightarrow> frames (case_reopen_store g h k) (reopen_comp a b c)"
  unfolding frames_def
proof
  fix s assume "\<forall>s. g (snd (a s)) = g s" "\<forall>s. h (snd (b s)) = h s" "\<forall>s. k (snd (c s)) = k s"
  then show "case_reopen_store g h k (snd (reopen_comp a b c s)) = case_reopen_store g h k s"
    by (cases s) simp_all
qed

lemma dispatch_frames:
  "path_frames p g \<Longrightarrow> path_frames t h \<Longrightarrow> path_frames e k \<Longrightarrow>
    path_frames (dispatch_reopen p t e) (case_reopen_store g h k)"
  unfolding path_frames_def dispatch_reopen_def by (simp add: reopen_comp_frames)

section \<open>The stacks of the command line\<close>

definition backing_key :: "'r backing \<Rightarrow> bytes option" where
  "backing_key = case_sum (\<lambda>_. None) (\<lambda>s. Some (as_cipher s))"

definition image_key :: "'r image \<Rightarrow> bytes option" where
  "image_key = case_sum backing_key (\<lambda>s. backing_key (fc_inner s))"

definition data_key :: "'r data_store \<Rightarrow> bytes option option" where
  "data_key = case_sum (\<lambda>s. Some (image_key s)) (\<lambda>_. None)"

text \<open>How a reopened store is made: the layout, the identifier, the keys of its image files.\<close>

datatype stack_config =
    PlainStack "bytes option option"
  | SidecarStack bytes bool "bytes option option" "bytes option"
  | EmbeddedStack bytes "bytes option"

definition stack_config :: "'r reopen_store \<Rightarrow> stack_config" where
  "stack_config = case_reopen_store (\<lambda>d. PlainStack (data_key d))
     (\<lambda>t. (\<lambda>(i, b, d, h). SidecarStack i b d h) (td_parts data_key image_key t))
     (\<lambda>e. (\<lambda>(i, k). EmbeddedStack i k) (es_parts image_key e))"

lemma frames_comp: "frames g c \<Longrightarrow> frames (\<lambda>s. f (g s)) c"
  by (simp add: frames_def)

lemma page_frames_comp: "page_frames ps g \<Longrightarrow> page_frames ps (\<lambda>s. f (g s))"
  by (simp add: page_frames_def frames_comp)

lemma path_frames_comp: "path_frames ps g \<Longrightarrow> path_frames ps (\<lambda>s. f (g s))"
  by (simp add: path_frames_def frames_comp)

lemma backing_frames: "page_frames (backing_ops A) backing_key"
  unfolding backing_ops_def backing_key_def
  by (intro either_frames page_frames_comp [OF aead_frames]) (simp add: page_frames_def)

lemma image_frames: "page_frames (image_ops A) image_key"
  unfolding image_ops_def image_key_def by (intro either_frames front_cached_frames backing_frames)

lemma data_frames: "page_frames (data_ops A) data_key"
  unfolding data_ops_def data_key_def
  by (intro either_frames page_frames_comp [OF image_frames]) (simp add: page_frames_def)

lemma reopen_frames: "path_frames (reopen_ops H A) stack_config"
  unfolding reopen_ops_def stack_config_def
  by (intro dispatch_frames path_frames_comp [OF plain_path_frames [OF data_frames]]
      path_frames_comp [OF blanket_frames [OF tiered_frames [OF data_frames image_frames]]]
      path_frames_comp [OF embedded_frames [OF image_frames]])

end
