(* ===== verification/Image_Contracts.thy ===== *)
theory Image_Contracts
  imports Store_Frames Embedded_Auth
begin

text \<open>
  The stacks of the command line meet the store contracts: dynamic dispatch, the logical prefix and
  the plain path functions preserve them, so every store a table is reopened with is one the
  controller can use.
\<close>

section \<open>Dispatch over two page stores\<close>

lemma kept_sum [simp]:
  "kept (case_sum oka okb) (case_sum sza szb) (case_sum cnta cntb) (Inl a) (Inl a') \<longleftrightarrow> kept oka sza cnta a a'"
  "kept (case_sum oka okb) (case_sum sza szb) (case_sum cnta cntb) (Inr b) (Inr b') \<longleftrightarrow> kept okb szb cntb b b'"
  by (simp_all add: kept_def)

lemma either_comp_run:
  "m a = (r, a') \<Longrightarrow> either_comp m n (Inl a) = (r, Inl a')"
  "n b = (r, b') \<Longrightarrow> either_comp m n (Inr b) = (r, Inr b')"
  by (simp_all add: either_comp_def)

lemmas page_store_ruleD =
  page_io.page_index [OF page_store_spec.axioms(1)] page_io.page_length [OF page_store_spec.axioms(1)]
  page_io.read_page [OF page_store_spec.axioms(1)] page_io.write_page [OF page_store_spec.axioms(1)]
  page_store_spec.read_pages page_store_spec.write_pages page_store_spec.flush

lemma either_spec:
  assumes "page_store_spec p okp pgp" and "page_store_spec q okq pgq"
  shows "page_store_spec (either_ops p q) (case_sum okp okq) (case_sum pgp pgq)"
proof -
  note p = page_store_ruleD [OF assms(1)] and q = page_store_ruleD [OF assms(2)]
  note sel = either_ops_def page_store.simps
  show ?thesis
  proof unfold_locales
    fix s i and x :: bytes
    assume s: "case_sum okp okq s" "case_sum pgp pgq s i = Some x"
    then show "i < ps_page_count (either_ops p q) s" "length x = ps_page_size (either_ops p q) s"
      by (cases s; auto simp: sel p(1) p(2) q(1) q(2))+
    show "\<exists>s'. ps_read_page (either_ops p q) i (ps_page_size (either_ops p q) s) s = (Inr x, s') \<and>
        kept (case_sum okp okq) (ps_page_size (either_ops p q)) (ps_page_count (either_ops p q)) s s' \<and>
        case_sum pgp pgq s' = case_sum pgp pgq s"
    proof (cases s)
      case (Inl a)
      with s p(3) [of a i x] show ?thesis by (auto simp: sel dest: either_comp_run(1))
    next
      case (Inr b)
      with s q(3) [of b i x] show ?thesis by (auto simp: sel dest: either_comp_run(2))
    qed
  next
    fix s i and x :: bytes
    assume s: "case_sum okp okq s" "i < ps_page_count (either_ops p q) s" "length x = ps_page_size (either_ops p q) s"
    show "\<exists>s'. ps_write_page (either_ops p q) i x s = (Inr (), s') \<and>
        kept (case_sum okp okq) (ps_page_size (either_ops p q)) (ps_page_count (either_ops p q)) s s' \<and>
        case_sum pgp pgq s' = (case_sum pgp pgq s)(i \<mapsto> x)"
    proof (cases s)
      case (Inl a)
      with s p(4) [of a i x] show ?thesis by (auto simp: sel dest: either_comp_run(1))
    next
      case (Inr b)
      with s q(4) [of b i x] show ?thesis by (auto simp: sel dest: either_comp_run(2))
    qed
  next
    fix s idxs and f :: "nat \<Rightarrow> bytes"
    assume s: "case_sum okp okq s" "\<And>i. i \<in> set idxs \<Longrightarrow> case_sum pgp pgq s i = Some (f i)"
    show "\<exists>s'. ps_read_pages (either_ops p q) idxs s = (Inr (map f idxs), s') \<and>
        kept (case_sum okp okq) (ps_page_size (either_ops p q)) (ps_page_count (either_ops p q)) s s' \<and>
        case_sum pgp pgq s' = case_sum pgp pgq s"
    proof (cases s)
      case (Inl a)
      with s p(5) [of a idxs f] show ?thesis by (auto simp: sel dest: either_comp_run(1))
    next
      case (Inr b)
      with s q(5) [of b idxs f] show ?thesis by (auto simp: sel dest: either_comp_run(2))
    qed
  next
    fix s idxs and pgs :: "bytes list"
    assume s: "case_sum okp okq s" "length idxs = length pgs" "\<And>i. i \<in> set idxs \<Longrightarrow> i < ps_page_count (either_ops p q) s"
      "\<And>x. x \<in> set pgs \<Longrightarrow> length x = ps_page_size (either_ops p q) s"
    show "\<exists>s'. ps_write_pages (either_ops p q) idxs pgs s = (Inr (), s') \<and>
        kept (case_sum okp okq) (ps_page_size (either_ops p q)) (ps_page_count (either_ops p q)) s s' \<and>
        case_sum pgp pgq s' = (case_sum pgp pgq s)(idxs [\<mapsto>] pgs)"
    proof (cases s)
      case (Inl a)
      with s p(6) [of a idxs pgs] show ?thesis by (auto simp: sel dest: either_comp_run(1))
    next
      case (Inr b)
      with s q(6) [of b idxs pgs] show ?thesis by (auto simp: sel dest: either_comp_run(2))
    qed
  next
    fix s assume s: "case_sum okp okq s"
    show "\<exists>s'. ps_flush (either_ops p q) s = (Inr (), s') \<and>
        kept (case_sum okp okq) (ps_page_size (either_ops p q)) (ps_page_count (either_ops p q)) s s' \<and>
        case_sum pgp pgq s' = case_sum pgp pgq s"
    proof (cases s)
      case (Inl a)
      with s p(7) [of a] show ?thesis by (auto simp: sel dest: either_comp_run(1))
    next
      case (Inr b)
      with s q(7) [of b] show ?thesis by (auto simp: sel dest: either_comp_run(2))
    qed
  qed
qed

section \<open>The logical prefix\<close>

definition lp_ok :: "'s page_store \<Rightarrow> ('s \<Rightarrow> bool) \<Rightarrow> 's logical_prefix \<Rightarrow> bool" where
  "lp_ok ps ok s \<longleftrightarrow> ok (lp_inner s) \<and> lp_physical_page_size s = ps_page_size ps (lp_inner s) \<and>
     lp_logical_page_size s \<le> lp_physical_page_size s"

definition lp_contents :: "('s \<Rightarrow> nat \<rightharpoonup> bytes) \<Rightarrow> 's logical_prefix \<Rightarrow> nat \<rightharpoonup> bytes" where
  "lp_contents pages s i = map_option (take (lp_logical_page_size s)) (pages (lp_inner s) i)"

context page_store_spec
begin

lemma lp_kept:
  assumes "lp_ok ps ok s" and "kept ok (ps_page_size ps) (ps_page_count ps) (lp_inner s) t"
  shows "kept (lp_ok ps ok) lp_logical_page_size (\<lambda>s. ps_page_count ps (lp_inner s)) s (s\<lparr>lp_inner := t\<rparr>)"
  using assms by (simp add: kept_def lp_ok_def)

lemma prefix_io:
  "page_io lp_logical_page_size (\<lambda>s. ps_page_count ps (lp_inner s)) (prefix_read_page ps) (prefix_write_page ps)
    (lp_ok ps ok) (lp_contents pages)"
proof unfold_locales
  fix s i and p :: bytes
  assume s: "lp_ok ps ok s" "lp_contents pages s i = Some p"
  then obtain q where q: "pages (lp_inner s) i = Some q" "p = take (lp_logical_page_size s) q"
    by (auto simp: lp_contents_def)
  from s q show "i < ps_page_count ps (lp_inner s)" "length p = lp_logical_page_size s"
    by (auto simp: lp_ok_def page_index page_length)
  obtain t where t: "ps_read_page ps i (ps_page_size ps (lp_inner s)) (lp_inner s) = (Inr q, t)"
    "kept ok (ps_page_size ps) (ps_page_count ps) (lp_inner s) t" "pages t = pages (lp_inner s)"
    using read_page [of "lp_inner s" i q] s(1) q(1) by (auto simp: lp_ok_def)
  have "prefix_read_page ps i (lp_logical_page_size s) s = (Inr p, s\<lparr>lp_inner := t\<rparr>)"
    using t(1) s(1) q(2) by (simp add: prefix_read_page_def comp_simps lp_ok_def)
  with lp_kept [OF s(1) t(2)] t(3) show "\<exists>s'. prefix_read_page ps i (lp_logical_page_size s) s = (Inr p, s') \<and>
      kept (lp_ok ps ok) lp_logical_page_size (\<lambda>s. ps_page_count ps (lp_inner s)) s s' \<and>
      lp_contents pages s' = lp_contents pages s"
    by (auto simp: lp_contents_def fun_eq_iff)
next
  fix s i and p :: bytes
  assume s: "lp_ok ps ok s" "i < ps_page_count ps (lp_inner s)" "length p = lp_logical_page_size s"
  let ?q = "copy_into 0 p (replicate (lp_physical_page_size s) 0)"
  have q: "take (lp_logical_page_size s) ?q = p"
    using s(1,3) by (simp add: copy_into_def lp_ok_def)
  have "length ?q = ps_page_size ps (lp_inner s)" using s(1,3) by (simp add: lp_ok_def)
  then obtain t where t: "ps_write_page ps i ?q (lp_inner s) = (Inr (), t)"
    "kept ok (ps_page_size ps) (ps_page_count ps) (lp_inner s) t" "pages t = (pages (lp_inner s))(i \<mapsto> ?q)"
    using write_page [of "lp_inner s" i ?q] s(1,2) by (auto simp: lp_ok_def)
  have "prefix_write_page ps i p s = (Inr (), s\<lparr>lp_inner := t\<rparr>)"
    using t(1) s(3) by (simp add: prefix_write_page_def comp_simps)
  with lp_kept [OF s(1) t(2)] t(3) q show "\<exists>s'. prefix_write_page ps i p s = (Inr (), s') \<and>
      kept (lp_ok ps ok) lp_logical_page_size (\<lambda>s. ps_page_count ps (lp_inner s)) s s' \<and>
      lp_contents pages s' = (lp_contents pages s)(i \<mapsto> p)"
    by (auto simp: lp_contents_def fun_eq_iff)
qed

lemma prefix_spec: "page_store_spec (prefix_ops ps) (lp_ok ps ok) (lp_contents pages)"
proof -
  have "\<exists>s'. zoom lp_inner (\<lambda>t s. s\<lparr>lp_inner := t\<rparr>) (ps_flush ps) s = (Inr (), s') \<and>
      kept (lp_ok ps ok) lp_logical_page_size (\<lambda>s. ps_page_count ps (lp_inner s)) s s' \<and>
      lp_contents pages s' = lp_contents pages s" if s: "lp_ok ps ok s" for s
  proof -
    obtain t where "ps_flush ps (lp_inner s) = (Inr (), t)"
      "kept ok (ps_page_size ps) (ps_page_count ps) (lp_inner s) t" "pages t = pages (lp_inner s)"
      using flush [of "lp_inner s"] s by (auto simp: lp_ok_def)
    with lp_kept [OF s] show ?thesis by (auto simp: comp_simps lp_contents_def fun_eq_iff)
  qed
  with prefix_io page_io.default_read [OF prefix_io] page_io.default_write [OF prefix_io] show ?thesis
    by (simp add: page_store_spec_def page_store_spec_axioms_def prefix_ops_def)
qed

end

section \<open>The plain path functions\<close>

context page_store_spec
begin

text \<open>Reading one page after the other and the batch of a path give the same pages.\<close>

lemma write_plain_path_default:
  assumes "\<And>p. p \<in> set pgs \<Longrightarrow> length p = ps_page_size ps s" and "length path = length pgs"
  shows "write_plain_path_pages ps path pgs s =
    default_write_pages (ps_page_size ps) (ps_write_page ps) path pgs s"
  using assms(2) citer_write_pages [where n = "ps_page_size ps s" and w = "ps_write_page ps", OF assms(1)]
  by (simp add: write_plain_path_pages_def default_write_pages_def comp_simps bnd_gets_run)

lemma blanket_spec: "path_store_spec (path_of_page_store ps) ok pages"
  by (rule blanket.path_store_spec_axioms)

lemma plain_path_spec: "path_store_spec (plain_path_ops ps) ok pages"
proof -
  have "plain_path_ops ps = (path_of_page_store ps)
      \<lparr>pp_read_path_pages := read_plain_path_pages ps, pp_write_path_pages := write_plain_path_pages ps\<rparr>"
    by (simp add: plain_path_ops_def path_of_page_store_def read_plain_paths_pages_def blanket_read_paths_pages_def
        write_plain_paths_pages_def blanket_write_paths_pages_def fun_eq_iff)
  then have eq: "plain_path_ops ps = (path_of_page_store ps)
      \<lparr>pp_read_path_pages := default_read_pages (ps_page_size ps) (ps_read_page ps),
       pp_write_path_pages := write_plain_path_pages ps\<rparr>"
    by (simp add: read_plain_path_pages_def default_read_pages_def fun_eq_iff)
  let ?b = "path_of_page_store ps"
  have dim: "pp_page_size ?b = ps_page_size ps" "pp_page_count ?b = ps_page_count ps"
    by (simp_all add: path_of_page_store_def)
  show ?thesis
    unfolding eq
  proof (unfold_locales, goal_cases)
    case (1 s i p) then show ?case using blanket.page_index by simp
  next
    case (2 s i p) then show ?case using blanket.page_length by simp
  next
    case (3 s path f) then show ?case using default_read [of s path f] by (simp add: dim)
  next
    case (4 s path f)
    then have lens: "length x = ps_page_size ps s" if "x \<in> set (map f path)" for x
      using that by (auto simp: dim)
    with 4 show ?case
      using default_write [of s path "map f path"] write_plain_path_default [of "map f path" s path, OF lens]
      by (simp add: dim root_path_def map_upds_map)
  next
    case (5 s paths f) then show ?case using blanket.read_paths [of s paths f] by simp
  next
    case (6 s paths f) then show ?case using blanket.write_paths [of s paths f] by simp
  next
    case (7 s) then show ?case using blanket.flush_paths [of s] by simp
  qed
qed

end

section \<open>The stacks\<close>

lemma reopen_comp_run:
  "m a = (r, a') \<Longrightarrow> reopen_comp m n k (ReopenPlain a) = (r, ReopenPlain a')"
  "n b = (r, b') \<Longrightarrow> reopen_comp m n k (ReopenSidecar b) = (r, ReopenSidecar b')"
  "k c = (r, c') \<Longrightarrow> reopen_comp m n k (ReopenEmbedded c) = (r, ReopenEmbedded c')"
  by simp_all

lemma kept_reopen [simp]:
  "kept (case_reopen_store o1 o2 o3) (case_reopen_store z1 z2 z3) (case_reopen_store n1 n2 n3)
     (ReopenPlain a) (ReopenPlain a') \<longleftrightarrow> kept o1 z1 n1 a a'"
  "kept (case_reopen_store o1 o2 o3) (case_reopen_store z1 z2 z3) (case_reopen_store n1 n2 n3)
     (ReopenSidecar b) (ReopenSidecar b') \<longleftrightarrow> kept o2 z2 n2 b b'"
  "kept (case_reopen_store o1 o2 o3) (case_reopen_store z1 z2 z3) (case_reopen_store n1 n2 n3)
     (ReopenEmbedded c) (ReopenEmbedded c') \<longleftrightarrow> kept o3 z3 n3 c c'"
  by (simp_all add: kept_def)

lemmas path_store_ruleD =
  path_store_spec.page_index path_store_spec.page_length path_store_spec.read_path path_store_spec.write_path
  path_store_spec.read_paths path_store_spec.write_paths path_store_spec.flush_paths

lemma dispatch_spec:
  assumes "path_store_spec p okp pgp" and "path_store_spec t okt pgt" and "path_store_spec e oke pge"
  shows "path_store_spec (dispatch_reopen p t e) (case_reopen_store okp okt oke) (case_reopen_store pgp pgt pge)"
proof -
  note p = path_store_ruleD [OF assms(1)] and t = path_store_ruleD [OF assms(2)]
    and e = path_store_ruleD [OF assms(3)]
  show ?thesis
    unfolding dispatch_reopen_def
  proof (unfold_locales, simp_all only: path_page_store.simps, goal_cases)
    case (1 s i x) then show ?case by (cases s) (auto simp: p(1) t(1) e(1))
  next
    case (2 s i x) then show ?case by (cases s) (auto simp: p(2) t(2) e(2))
  next
    case (3 s path f)
    show ?case
    proof (cases s)
      case (ReopenPlain a) with 3 p(3) [of a path f] show ?thesis by auto
    next
      case (ReopenSidecar b) with 3 t(3) [of b path f] show ?thesis by auto
    next
      case (ReopenEmbedded c) with 3 e(3) [of c path f] show ?thesis by auto
    qed
  next
    case (4 s path f)
    show ?case
    proof (cases s)
      case (ReopenPlain a) with 4 p(4) [of a path f] show ?thesis by auto
    next
      case (ReopenSidecar b) with 4 t(4) [of b path f] show ?thesis by auto
    next
      case (ReopenEmbedded c) with 4 e(4) [of c path f] show ?thesis by auto
    qed
  next
    case (5 s paths f)
    show ?case
    proof (cases s)
      case (ReopenPlain a) with 5 p(5) [of a paths f] show ?thesis by auto
    next
      case (ReopenSidecar b) with 5 t(5) [of b paths f] show ?thesis by auto
    next
      case (ReopenEmbedded c) with 5 e(5) [of c paths f] show ?thesis by auto
    qed
  next
    case (6 s paths f)
    show ?case
    proof (cases s)
      case (ReopenPlain a) with 6 p(6) [of a paths f] show ?thesis by auto
    next
      case (ReopenSidecar b) with 6 t(6) [of b paths f] show ?thesis by auto
    next
      case (ReopenEmbedded c) with 6 e(6) [of c paths f] show ?thesis by auto
    qed
  next
    case (7 s)
    show ?case
    proof (cases s)
      case (ReopenPlain a) with 7 p(7) [of a] show ?thesis by auto
    next
      case (ReopenSidecar b) with 7 t(7) [of b] show ?thesis by auto
    next
      case (ReopenEmbedded c) with 7 e(7) [of c] show ?thesis by auto
    qed
  qed
qed

text \<open>Which states are usable, and the pages they show.\<close>

definition backing_ok :: "'r backing \<Rightarrow> bool" where
  "backing_ok = case_sum file_ok (aead_ok file_store_ops file_ok)"

definition backing_pages :: "'r aead_lib \<Rightarrow> 'r backing \<Rightarrow> nat \<rightharpoonup> bytes" where
  "backing_pages A = case_sum file_contents (aead_contents A file_contents)"

definition image_ok :: "'r aead_lib \<Rightarrow> 'r image \<Rightarrow> bool" where
  "image_ok A = case_sum backing_ok
     (\<lambda>s. fc_ok (backing_ops A) backing_ok s \<and> fc_coherent (backing_pages A) s)"

definition image_pages :: "'r aead_lib \<Rightarrow> 'r image \<Rightarrow> nat \<rightharpoonup> bytes" where
  "image_pages A = case_sum (backing_pages A) (fc_contents (backing_pages A))"

definition data_ok :: "'r aead_lib \<Rightarrow> 'r data_store \<Rightarrow> bool" where
  "data_ok A = case_sum (image_ok A) (lp_ok (image_ops A) (image_ok A))"

definition data_pages :: "'r aead_lib \<Rightarrow> 'r data_store \<Rightarrow> nat \<rightharpoonup> bytes" where
  "data_pages A = case_sum (image_pages A) (lp_contents (image_pages A))"

definition reopen_ok :: "(bytes \<Rightarrow> bytes) \<Rightarrow> 'r aead_lib \<Rightarrow> 'r reopen_store \<Rightarrow> bool" where
  "reopen_ok H A = case_reopen_store (data_ok A)
     (td_ok H (data_ops A) (data_ok A) (data_pages A) (image_ops A) (image_ok A) (image_pages A))
     (es_ok H (image_ops A) (image_ok A) (image_pages A))"

definition reopen_pages :: "'r aead_lib \<Rightarrow> 'r reopen_store \<Rightarrow> nat \<rightharpoonup> bytes" where
  "reopen_pages A = case_reopen_store (data_pages A) (td_contents (data_pages A)) (es_contents (image_pages A))"

context aead_spec
begin

lemma backing_spec: "page_store_spec (backing_ops A) backing_ok (backing_pages A)"
proof -
  have "aead_over A file_store_ops file_ok file_contents"
    by (simp add: aead_over_def aead_spec_axioms disk.page_store_spec_axioms)
  from aead_over.aead_store_spec [OF this] show ?thesis
    unfolding backing_ops_def backing_ok_def backing_pages_def
    by (intro either_spec disk.page_store_spec_axioms)
qed

lemma image_spec: "page_store_spec (image_ops A) (image_ok A) (image_pages A)"
  unfolding image_ops_def image_ok_def image_pages_def
  by (intro either_spec backing_spec page_store_spec.front_cached_coherent_spec)

lemma data_spec: "page_store_spec (data_ops A) (data_ok A) (data_pages A)"
  unfolding data_ops_def data_ok_def data_pages_def
  by (intro either_spec image_spec page_store_spec.prefix_spec)

end

text \<open>Every store a table is reopened with meets the contract of the controller.\<close>

locale table_libs = aead_spec A + sha256_spec H
  for A :: "'r aead_lib" and H
begin

lemma over_images:
  "tiered_over H (data_ops A) (data_ok A) (data_pages A) (image_ops A) (image_ok A) (image_pages A)"
  "embedded_over H (image_ops A) (image_ok A) (image_pages A)"
  by (simp_all add: tiered_over_def embedded_over_def node_store_def sha256_spec_axioms data_spec image_spec)

lemma reopen_spec: "path_store_spec (reopen_ops H A) (reopen_ok H A) (reopen_pages A)"
  unfolding reopen_ops_def reopen_ok_def reopen_pages_def
  by (intro dispatch_spec page_store_spec.plain_path_spec [OF data_spec]
      page_store_spec.blanket_spec [OF tiered_over.tiered_store_spec [OF over_images(1)]]
      embedded_over.embedded_store_spec [OF over_images(2)])

lemma reopen_fixed_spec:
  "path_store_spec (reopen_ops H A) (\<lambda>s. reopen_ok H A s \<and> stack_config s = c) (reopen_pages A)"
  by (intro path_store_spec.path_store_fixed [OF reopen_spec] reopen_frames)

end

end
