(* ===== verification/Image_Reopen.thy ===== *)
theory Image_Reopen
  imports Image_Contracts
begin

text \<open>
  Closing a table and opening it again. After a flush the files alone hold what the stores show
  (\<open>durable\<close>); a store opened on such a file, with any front cache, shows the same pages; and the
  authenticated stores take up their roots again, so the controller finds every page it left.
\<close>

section \<open>What the files hold\<close>

definition image_durable :: "'r aead_lib \<Rightarrow> 'r image \<Rightarrow> bool" where
  "image_durable A s = (case s of Inl b \<Rightarrow> True | Inr c \<Rightarrow> backing_pages A (fc_inner c) = image_pages A s)"

definition data_durable :: "'r aead_lib \<Rightarrow> 'r data_store \<Rightarrow> bool" where
  "data_durable A = case_sum (image_durable A) (\<lambda>s. image_durable A (lp_inner s))"

definition reopen_durable :: "'r aead_lib \<Rightarrow> 'r reopen_store \<Rightarrow> bool" where
  "reopen_durable A = case_reopen_store (data_durable A)
     (\<lambda>t. data_durable A (td_inner t) \<and> image_durable A (td_hash_store t)) (\<lambda>e. image_durable A (es_inner e))"

lemma image_ops_sel:
  "ps_page_size (image_ops A) = case_sum (ps_page_size (backing_ops A)) fc_page_size"
  "ps_page_count (image_ops A) = case_sum (ps_page_count (backing_ops A)) (fc_page_count (backing_ops A))"
  "ps_flush (image_ops A) = either_comp (ps_flush (backing_ops A)) (fc_flush (backing_ops A))"
  by (simp_all add: image_ops_def either_ops_def front_cached_ops_def)

lemma data_ops_sel:
  "ps_page_size (data_ops A) = case_sum (ps_page_size (image_ops A)) lp_logical_page_size"
  "ps_page_count (data_ops A) = case_sum (ps_page_count (image_ops A)) (\<lambda>s. ps_page_count (image_ops A) (lp_inner s))"
  "ps_flush (data_ops A) = either_comp (ps_flush (image_ops A)) (zoom lp_inner (\<lambda>t s. s\<lparr>lp_inner := t\<rparr>) (ps_flush (image_ops A)))"
  by (simp_all add: data_ops_def either_ops_def prefix_ops_def)

lemma backing_ops_sel:
  "ps_page_size (backing_ops A) = case_sum fs_page_size as_plaintext_page_size"
  "ps_page_count (backing_ops A) = case_sum fs_page_count (\<lambda>s. fs_page_count (as_inner s))"
  by (simp_all add: backing_ops_def either_ops_def file_store_ops_def aead_ops_def)

context aead_spec
begin

lemma image_flush:
  assumes "image_ok A s" and "ps_flush (image_ops A) s = (r, s')"
  shows "image_durable A s'"
proof (cases s)
  case (Inl b)
  with assms(2) show ?thesis
    by (cases "ps_flush (backing_ops A) b") (auto simp: image_ops_sel either_comp_def image_durable_def)
next
  case (Inr c)
  then have c: "fc_ok (backing_ops A) backing_ok c" "fc_coherent (backing_pages A) c"
    using assms(1) by (simp_all add: image_ok_def)
  from page_store_spec.fc_flush_spec [OF backing_spec c(1)] c(2) obtain c' where
    "fc_flush (backing_ops A) c = (Inr (), c')" "fc_contents (backing_pages A) c' = fc_contents (backing_pages A) c"
    "backing_pages A (fc_inner c') = fc_contents (backing_pages A) c" by blast
  with assms(2) Inr show ?thesis
    by (auto simp: image_ops_sel either_comp_def image_durable_def image_pages_def)
qed

lemma data_flush:
  assumes "data_ok A s" and "ps_flush (data_ops A) s = (r, s')"
  shows "data_durable A s'"
proof (cases s)
  case (Inl b)
  with assms image_flush [of b] show ?thesis
    by (cases "ps_flush (image_ops A) b") (auto simp: data_ops_sel either_comp_def data_durable_def data_ok_def)
next
  case (Inr c)
  with assms image_flush [of "lp_inner c"] show ?thesis
    by (cases "ps_flush (image_ops A) (lp_inner c)")
      (auto simp: data_ops_sel either_comp_def data_durable_def data_ok_def lp_ok_def zoom_def)
qed

end

context table_libs
begin

text \<open>A flush that returns has put everything into the files.\<close>

lemma reopen_flush:
  assumes "reopen_ok H A s" and "pp_flush (reopen_ops H A) s = (Inr (), s')"
  shows "reopen_durable A s'"
proof (cases s)
  case (ReopenPlain d)
  with assms data_flush [of d] show ?thesis
    by (cases "ps_flush (data_ops A) d")
      (auto simp: reopen_ops_def dispatch_reopen_def plain_path_ops_def reopen_ok_def reopen_durable_def)
next
  case (ReopenEmbedded e)
  moreover from this assms(1) have "image_ok A (es_inner e)"
    by (auto simp: reopen_ok_def es_ok_def es_rep_def)
  ultimately show ?thesis using assms(2) image_flush [of "es_inner e"]
    by (cases "ps_flush (image_ops A) (es_inner e)")
      (auto simp: reopen_ops_def dispatch_reopen_def embedded_ops_def reopen_durable_def zoom_def)
next
  case (ReopenSidecar t)
  from ReopenSidecar assms(1) have ok: "data_ok A (td_inner t)" "image_ok A (td_hash_store t)"
    by (auto simp: reopen_ok_def td_ok_def td_honest_def td_shape_def)
  obtain r1 d where d: "ps_flush (data_ops A) (td_inner t) = (r1, d)" by fastforce
  obtain r2 h where h: "ps_flush (image_ops A) (td_hash_store t) = (r2, h)" by fastforce
  show ?thesis using ReopenSidecar assms(2) d h data_flush [OF ok(1) d] image_flush [OF ok(2) h]
    by (auto simp: reopen_ops_def dispatch_reopen_def path_of_page_store_def tiered_ops_def reopen_durable_def
        bnd_def zoom_def split: sum.splits)
qed

end

section \<open>Opening a file that a store left\<close>

text \<open>The file under a store, and what an invocation must say to read it.\<close>

definition key_opens :: "'r image_env \<Rightarrow> bytes option \<Rightarrow> bool" where
  "key_opens I k \<longleftrightarrow>
     (if ie_encrypted I then \<exists>key. parse_required_key (ie_hex I) (ie_key_hex I) = Inr key \<and> k = Some key
      else k = None)"

text \<open>On a file whose calls succeed, opening sets the length and uses up two of them.\<close>

lemma file_open_run:
  assumes "fd_live f" and "0 < n" and "0 < k"
  shows "file_open n k f =
    (let f' = set_len (usize_mul n k) (f\<lparr>fd_calls := fd_calls f + 2\<rparr>)
     in (Inr \<lparr>fs_page_size = k, fs_page_count = n, fs_file = f'\<rparr>, f'))"
proof -
  have "\<exists>m. io_next g = (Inr m, g\<lparr>fd_calls := fd_calls g + 1\<rparr>)" if "fd_live g" for g
    using that by (auto simp: io_next_def fd_live_def split: option.split)
  moreover have "fd_live (f\<lparr>fd_calls := fd_calls f + 1\<rparr>)" using assms(1) by (simp add: fd_live_def)
  ultimately obtain m m' where "io_next f = (Inr m, f\<lparr>fd_calls := fd_calls f + 1\<rparr>)"
    "io_next (f\<lparr>fd_calls := fd_calls f + 1\<rparr>) = (Inr m', f\<lparr>fd_calls := fd_calls f + 2\<rparr>)"
    using assms(1) by fastforce
  with assms(2,3) show ?thesis by (simp add: file_open_def comp_simps Let_def)
qed

lemma file_reopen:
  assumes "file_ok s" and "0 < n" and "n \<le> fs_page_count s"
  shows "\<exists>s'. file_open n (fs_page_size s) (fs_file s) = (Inr s', fs_file s') \<and> file_ok s' \<and>
    fs_page_size s' = fs_page_size s \<and> fs_page_count s' = n \<and>
    (\<forall>i. file_contents s' i = (if i < n then file_contents s i else None))"
proof -
  let ?k = "fs_page_size s"
  have sized: "file_sized s" and live: "fd_live (fs_file s)" using assms(1) by (simp_all add: file_ok_def)
  have k: "0 < ?k" using sized by (simp add: file_sized_def)
  have le: "n * ?k \<le> length (fd_bytes (fs_file s))" using sized assms(3) by (simp add: file_sized_def)
  moreover have "length (fd_bytes (fs_file s)) < 2 ^ 64" using sized by (simp add: file_sized_def)
  ultimately have mul: "usize_mul n ?k = n * ?k" by simp
  let ?s = "\<lparr>fs_page_size = ?k, fs_page_count = n, fs_file = set_len (n * ?k) ((fs_file s)\<lparr>fd_calls := fd_calls (fs_file s) + 2\<rparr>)\<rparr>"
  have bytes: "fd_bytes (fs_file ?s) = take (n * ?k) (fd_bytes (fs_file s))" using le by (simp add: set_len_def)
  have ok: "file_ok ?s"
    using le live \<open>length (fd_bytes (fs_file s)) < 2 ^ 64\<close> k
    by (auto simp: file_ok_def file_sized_def set_len_def fd_live_def)
  moreover have "file_contents ?s i = (if i < n then file_contents s i else None)" for i
  proof (cases "i < n")
    case True
    then have "i * ?k + ?k \<le> n * ?k" using page_range_bound [of i n ?k] by simp
    then have "take ?k (drop (i * ?k) (take (n * ?k) bs)) = take ?k (drop (i * ?k) bs)" for bs :: bytes
      by (simp add: drop_take min_def)
    moreover have "file_sized ?s" using ok by (simp add: file_ok_def)
    ultimately show ?thesis
      using True assms(3) file_contents_page [of ?s i] file_contents_page [OF sized, of i] bytes
      by (simp add: slice_def)
  next
    case False
    moreover have "file_sized ?s" using ok by (simp add: file_ok_def)
    ultimately show ?thesis by (simp add: file_contents_def mem_contents_def as_mem_count)
  qed
  ultimately show ?thesis using file_open_run [OF live assms(2) k] mul by (simp add: Let_def)
qed

lemma open_slot_run:
  "file_open n k (files slot) = (Inr s, fs_file s) \<Longrightarrow> open_slot slot n k files = (Inr s, files(slot := fs_file s))"
  by (simp add: open_slot_def zoom_def)

context aead_spec
begin

lemma backing_reopen:
  assumes "ie_aead I = A" and "backing_ok b" and "key_opens I (backing_key b)"
    and "0 < n" and "n \<le> ps_page_count (backing_ops A) b" and "files slot = backing_file b"
  shows "\<exists>b'. open_backing I slot n (ps_page_size (backing_ops A) b) files = (Inr b', files(slot := backing_file b')) \<and>
    backing_ok b' \<and> backing_key b' = backing_key b \<and>
    ps_page_size (backing_ops A) b' = ps_page_size (backing_ops A) b \<and> ps_page_count (backing_ops A) b' = n \<and>
    (\<forall>i. backing_pages A b' i = (if i < n then backing_pages A b i else None))"
proof (cases b)
  case (Inl s)
  then have s: "file_ok s" "n \<le> fs_page_count s" "\<not> ie_encrypted I" "files slot = fs_file s"
    using assms by (auto simp: backing_ok_def backing_ops_sel backing_key_def backing_file_def key_opens_def split: if_splits)
  from file_reopen [OF s(1) assms(4) s(2)] obtain s' where s': "file_open n (fs_page_size s) (fs_file s) = (Inr s', fs_file s')"
    "file_ok s'" "fs_page_size s' = fs_page_size s" "fs_page_count s' = n"
    "\<forall>i. file_contents s' i = (if i < n then file_contents s i else None)" by blast
  with open_slot_run [of n "fs_page_size s" files slot s'] s(3,4) Inl show ?thesis
    by (intro exI [of _ "Inl s'"])
      (simp add: open_backing_def comp_simps backing_ops_sel backing_ok_def backing_key_def backing_file_def backing_pages_def)
next
  case (Inr a)
  then obtain key where a: "aead_ok file_store_ops file_ok a" "n \<le> fs_page_count (as_inner a)" "ie_encrypted I"
    "files slot = fs_file (as_inner a)" "parse_required_key (ie_hex I) (ie_key_hex I) = Inr key" "as_cipher a = key"
    using assms by (auto simp: backing_ok_def backing_ops_sel backing_key_def backing_file_def key_opens_def split: if_splits)
  let ?k = "as_plaintext_page_size a"
  have ok: "file_ok (as_inner a)" and size: "fs_page_size (as_inner a) = ?k + AEAD_OVERHEAD"
    and limit: "?k < aead_message_limit"
    using a(1) by (simp_all add: aead_ok_def file_store_ops_def)
  from file_reopen [OF ok assms(4) a(2)] obtain s' where s': "file_open n (?k + AEAD_OVERHEAD) (fs_file (as_inner a)) = (Inr s', fs_file s')"
    "file_ok s'" "fs_page_size s' = ?k + AEAD_OVERHEAD" "fs_page_count s' = n"
    "\<forall>i. file_contents s' i = (if i < n then file_contents (as_inner a) i else None)"
    using size by auto
  have "?k + AEAD_OVERHEAD < 2 ^ 64" using limit by (simp add: aead_message_limit_def AEAD_OVERHEAD_def)
  then have bytes: "backing_page_bytes ?k True = ?k + AEAD_OVERHEAD"
    by (simp add: backing_page_bytes_def)
  let ?a = "\<lparr>as_inner = s', as_cipher = key, as_plaintext_page_size = ?k, as_os_rng = ie_os_rng I\<rparr>"
  have new: "aead_new file_store_ops s' key ?k (ie_os_rng I) = Inr ?a"
    using s'(3) by (simp add: aead_new_def file_store_ops_def)
  have plain: "aead_plain A ?a = aead_plain A a" using a(6) by (simp add: aead_plain_def fun_eq_iff split: option.split)
  have "open_backing I slot n ?k files = (Inr (Inr ?a), files(slot := fs_file s'))"
    using a(3,5) open_slot_run [of n "?k + AEAD_OVERHEAD" files slot s'] s'(1) a(4) new bytes
    by (simp add: open_backing_def comp_simps)
  moreover have "aead_ok file_store_ops file_ok ?a" using s'(2,3) limit by (simp add: aead_ok_def file_store_ops_def)
  moreover have "aead_contents A file_contents ?a i = (if i < n then aead_contents A file_contents a i else None)" for i
    using s'(5) by (simp add: aead_contents_def plain)
  ultimately show ?thesis
    using Inr s'(4) a(6)
    by (intro exI [of _ "Inr ?a"])
      (simp add: backing_ops_sel backing_ok_def backing_key_def backing_file_def backing_pages_def)
qed

lemma fc_new_reopen:
  assumes "backing_ok b" and "c \<le> ps_page_count (backing_ops A) b" and "\<forall>i < c. backing_pages A b i \<noteq> None"
  shows "\<exists>s. fc_new (backing_ops A) b c = Inr s \<and> image_ok A (Inr s) \<and> image_durable A (Inr s) \<and>
    image_pages A (Inr s) = backing_pages A b \<and> image_key (Inr s) = backing_key b \<and>
    fc_page_size s = ps_page_size (backing_ops A) b \<and>
    fc_page_count (backing_ops A) s = ps_page_count (backing_ops A) b"
proof -
  let ?f = "\<lambda>i. the (backing_pages A b i)" and ?k = "ps_page_size (backing_ops A) b"
  have pg: "backing_pages A b i = Some (?f i)" if "i < c" for i using assms(3) that by auto
  note io = page_store_spec.axioms(1) [OF backing_spec]
  from page_io.cmapM_read [OF io assms(1), of "[0..<c]" ?f] pg obtain b' where
    b': "cmapM (\<lambda>i. ps_read_page (backing_ops A) i ?k) [0..<c] b = (Inr (map ?f [0..<c]), b')"
    "kept backing_ok (ps_page_size (backing_ops A)) (ps_page_count (backing_ops A)) b b'"
    "backing_pages A b' = backing_pages A b" by auto
  then obtain s where s: "fc_new (backing_ops A) b c = Inr s" "fc_inner s = b'" "fc_page_size s = ?k" "fc_cached_pages s = c"
    using assms(2) by (auto simp: fc_new_def Let_def)
  note spec = fc_new_spec [OF backing_spec assms(1) s(1), of ?f, OF pg]
  have "frames backing_key (cmapM (\<lambda>i. ps_read_page (backing_ops A) i ?k) [0..<c])"
    by (intro frames_cmapM page_framesD [OF backing_frames])
  from framesD [OF this b'(1)] have key: "backing_key b' = backing_key b" .
  have "image_ok A (Inr s)" "image_durable A (Inr s)" "image_pages A (Inr s) = backing_pages A b"
    using spec s(2) b'(3) by (simp_all add: image_ok_def image_durable_def image_pages_def)
  moreover have "image_key (Inr s) = backing_key b" using s(2) key by (simp add: image_key_def)
  moreover have "fc_page_count (backing_ops A) s = ps_page_count (backing_ops A) b"
    using s(2) b'(2) by (simp add: kept_def fc_page_count_def)
  ultimately show ?thesis using s(1,3) by simp
qed

lemma image_reopen:
  assumes "ie_aead I = A" and "image_ok A s" and "image_durable A s" and "key_opens I (image_key s)"
    and "0 < n" and "n \<le> ps_page_count (image_ops A) s" and "files slot = image_file s"
    and "c \<le> n" and "\<forall>i < c. image_pages A s i \<noteq> None" and "full \<or> c = 0"
  shows "\<exists>s' f. open_sized_file_store I slot n (ps_page_size (image_ops A) s) c full files = (Inr s', files(slot := f)) \<and>
    image_ok A s' \<and> image_durable A s' \<and> image_key s' = image_key s \<and>
    ps_page_size (image_ops A) s' = ps_page_size (image_ops A) s \<and> ps_page_count (image_ops A) s' = n \<and>
    (\<forall>i. image_pages A s' i = (if i < n then image_pages A s i else None))"
proof -
  define b where "b = (case s of Inl b \<Rightarrow> b | Inr x \<Rightarrow> fc_inner x)"
  have b: "backing_ok b" "image_key s = backing_key b" "image_file s = backing_file b"
    "ps_page_size (image_ops A) s = ps_page_size (backing_ops A) b"
    "ps_page_count (image_ops A) s = ps_page_count (backing_ops A) b" "backing_pages A b = image_pages A s"
    using assms(2,3) unfolding b_def
    by (cases s; auto simp: image_ok_def fc_ok_def image_key_def image_file_def image_ops_sel fc_page_count_def
        image_durable_def image_pages_def)+
  from backing_reopen [OF assms(1) b(1), of n files slot] assms(4-7) b(2,3,5) obtain b' where
    b': "open_backing I slot n (ps_page_size (backing_ops A) b) files = (Inr b', files(slot := backing_file b'))"
    "backing_ok b'" "backing_key b' = backing_key b" "ps_page_size (backing_ops A) b' = ps_page_size (backing_ops A) b"
    "ps_page_count (backing_ops A) b' = n" "\<forall>i. backing_pages A b' i = (if i < n then backing_pages A b i else None)"
    by auto
  show ?thesis
  proof (cases "c = 0")
    case True
    then have "open_sized_file_store I slot n (ps_page_size (image_ops A) s) c full files =
        (Inr (Inl b'), files(slot := backing_file b'))"
      using b'(1) b(4) by (simp add: open_sized_file_store_def comp_simps)
    then show ?thesis using b' b
      by (intro exI [of _ "Inl b'"] exI [of _ "backing_file b'"])
        (simp add: image_ok_def image_durable_def image_key_def image_ops_sel image_pages_def)
  next
    case False
    have "\<forall>i < c. backing_pages A b' i \<noteq> None" using assms(8,9) b'(6) b(6) by simp
    with fc_new_reopen [OF b'(2), of c] assms(8) b'(5) obtain x where
      x: "fc_new (backing_ops A) b' c = Inr x" "image_ok A (Inr x)" "image_durable A (Inr x)"
        "image_pages A (Inr x) = backing_pages A b'" "image_key (Inr x) = backing_key b'"
        "fc_page_size x = ps_page_size (backing_ops A) b'" "fc_page_count (backing_ops A) x = ps_page_count (backing_ops A) b'"
      by auto
    have "open_sized_file_store I slot n (ps_page_size (image_ops A) s) c full files =
        (Inr (Inr x), files(slot := backing_file b'))"
      using False assms(1,10) b'(1) b(4) x(1) by (simp add: open_sized_file_store_def comp_simps)
    then show ?thesis using b' b x
      by (intro exI [of _ "Inr x"] exI [of _ "backing_file b'"]) (simp add: image_ops_sel)
  qed
qed

definition same_image :: "'r image \<Rightarrow> 'r image \<Rightarrow> bool" where
  "same_image s s' \<longleftrightarrow> image_ok A s' \<and> image_durable A s' \<and> image_key s' = image_key s \<and>
     ps_page_size (image_ops A) s' = ps_page_size (image_ops A) s \<and>
     ps_page_count (image_ops A) s' = ps_page_count (image_ops A) s \<and> image_pages A s' = image_pages A s"

text \<open>\<open>left_at I files slot n k s\<close>: the file of \<open>s\<close> is at \<open>slot\<close>, with \<open>n\<close> pages of \<open>k\<close> bytes, all there.\<close>

definition left_at :: "'r image_env \<Rightarrow> image_files \<Rightarrow> image_slot \<Rightarrow> nat \<Rightarrow> nat \<Rightarrow> 'r image \<Rightarrow> bool" where
  "left_at I files slot n k s \<longleftrightarrow> image_ok A s \<and> image_durable A s \<and> key_opens I (image_key s) \<and>
     ps_page_count (image_ops A) s = n \<and> ps_page_size (image_ops A) s = k \<and> 0 < n \<and>
     (\<forall>i < n. image_pages A s i \<noteq> None) \<and> files slot = image_file s"

lemma left_at_other: "slot \<noteq> slot' \<Longrightarrow> left_at I (files(slot' := f)) slot n k s \<longleftrightarrow> left_at I files slot n k s"
  by (simp add: left_at_def)

lemma open_left:
  assumes "ie_aead I = A" and "left_at I files slot n k s" and "c \<le> n"
  shows "\<exists>s' f. open_sized_file_store I slot n k c True files = (Inr s', files(slot := f)) \<and> same_image s s'"
proof -
  have s: "image_ok A s" "image_durable A s" "key_opens I (image_key s)" "0 < n" "n \<le> ps_page_count (image_ops A) s"
    "files slot = image_file s" "\<forall>i < c. image_pages A s i \<noteq> None" "ps_page_count (image_ops A) s = n" "ps_page_size (image_ops A) s = k"
    using assms(2,3) by (simp_all add: left_at_def)
  from image_reopen [of I s n files slot c True, OF assms(1) s(1-6) assms(3) s(7)] s(9) obtain s' f where
    s': "open_sized_file_store I slot n k c True files = (Inr s', files(slot := f))" "image_ok A s'" "image_durable A s'"
    "image_key s' = image_key s" "ps_page_size (image_ops A) s' = k" "ps_page_count (image_ops A) s' = n"
    "\<forall>i. image_pages A s' i = (if i < n then image_pages A s i else None)" by auto
  have "image_pages A s i = None" if "\<not> i < n" for i
    using page_io.page_index [OF page_store_spec.axioms(1) [OF image_spec] s(1), of i] that s(8)
    by (cases "image_pages A s i") auto
  with s'(7) have "image_pages A s' = image_pages A s" by (auto simp: fun_eq_iff)
  with s' s(8,9) show ?thesis by (auto simp: same_image_def)
qed

abbreviation meta_bytes :: "oram_params \<Rightarrow> auth_layout_arg \<Rightarrow> nat" where
  "meta_bytes p layout \<equiv> auth_plaintext_page_bytes (circuit_meta_page_bytes (bucket_size p)) layout"

abbreviation payload_bytes :: "oram_params \<Rightarrow> auth_layout_arg \<Rightarrow> nat" where
  "payload_bytes p layout \<equiv> auth_plaintext_page_bytes (circuit_payload_page_bytes (bucket_size p) (block_size p)) layout"

lemma open_left_pair:
  assumes "ie_aead I = A" and "left_at I files MetaImage (bucket_count p) (meta_bytes p layout) m"
    and "left_at I files PayloadImage (bucket_count p) (payload_bytes p layout) q" and "c \<le> bucket_count p"
  obtains m' q' f g where "same_image m m'" "same_image q q'"
    "open_circuit_physical_file_stores I p c True layout files = (Inr (m', q'), files(MetaImage := f, PayloadImage := g))"
    "layout = SidecarArg \<Longrightarrow>
      open_circuit_file_stores I p c True layout files = (Inr (Inl m', Inl q'), files(MetaImage := f, PayloadImage := g))"
proof -
  obtain m' f where m': "open_sized_file_store I MetaImage (bucket_count p) (meta_bytes p layout) c True files =
      (Inr m', files(MetaImage := f))" "same_image m m'"
    using open_left [OF assms(1,2,4)] by blast
  have "left_at I (files(MetaImage := f)) PayloadImage (bucket_count p) (payload_bytes p layout) q"
    using assms(3) by (simp add: left_at_other)
  from open_left [OF assms(1) this assms(4)] obtain q' g where
    q': "open_sized_file_store I PayloadImage (bucket_count p) (payload_bytes p layout) c True (files(MetaImage := f)) =
      (Inr q', files(MetaImage := f, PayloadImage := g))" "same_image q q'" by auto
  show ?thesis
    using m' q'
    by (intro that [of m' q' f g])
      (simp_all add: open_circuit_physical_file_stores_def open_circuit_file_stores_def Let_def comp_simps)
qed

end

text \<open>Two reopened stores that the controller and its saved state cannot tell apart.\<close>

definition same_reopen :: "(bytes \<Rightarrow> bytes) \<Rightarrow> 'r aead_lib \<Rightarrow> 'r reopen_store \<Rightarrow> 'r reopen_store \<Rightarrow> bool" where
  "same_reopen H A s s' \<longleftrightarrow>
     reopen_ok H A s' \<and> stack_config s' = stack_config s \<and> reopen_pages A s' = reopen_pages A s \<and>
     pp_page_size (reopen_ops H A) s' = pp_page_size (reopen_ops H A) s \<and>
     pp_page_count (reopen_ops H A) s' = pp_page_count (reopen_ops H A) s \<and>
     pp_tiered_merkle_state (reopen_ops H A) s' = pp_tiered_merkle_state (reopen_ops H A) s \<and>
     pp_embedded_tree_state (reopen_ops H A) s' = pp_embedded_tree_state (reopen_ops H A) s"

context table_libs
begin

text \<open>The authenticated layouts take up their roots over images that show the same pages.\<close>

lemma tiered_reopen:
  assumes "td_ok H (data_ops A) (data_ok A) (data_pages A) (image_ops A) (image_ok A) (image_pages A) t"
    and "td_inner t = Inl m" and "same_image m m'" and "image_ok A h'" and "image_durable A h'"
    and "ps_page_size (image_ops A) h' = ps_page_size (image_ops A) (td_hash_store t)"
    and "ps_page_count (image_ops A) h' = td_required t"
    and "\<forall>i < td_required t. image_pages A h' i = image_pages A (td_hash_store t) i"
  shows "from_trusted_state (data_ops A) (image_ops A) (Inl m') h' (trusted_state (image_ops A) t) =
      Inr (t\<lparr>td_inner := Inl m', td_hash_store := h'\<rparr>)"
    and "td_ok H (data_ops A) (data_ok A) (data_pages A) (image_ops A) (image_ok A) (image_pages A)
      (t\<lparr>td_inner := Inl m', td_hash_store := h'\<rparr>)"
proof -
  let ?t = "t\<lparr>td_inner := Inl m', td_hash_store := h'\<rparr>"
  have hon: "td_honest (data_ops A) (data_ok A) (data_pages A) (image_ops A) (image_ok A) (image_pages A) t"
    using assms(1) by (simp add: td_ok_def)
  have lay: "td_layout (image_ops A) t" using hon by (simp add: td_honest_def td_shape_def)
  have req: "td_required ?t = td_required t" by (simp add: td_required_def)
  have lay': "td_layout (image_ops A) ?t"
    using lay assms(6,7) req by (simp add: td_layout_def)
  have hon': "td_honest (data_ops A) (data_ok A) (data_pages A) (image_ops A) (image_ok A) (image_pages A) ?t"
    using hon lay' assms(2-4,8) req
    by (simp add: td_honest_def td_shape_def same_image_def data_ok_def data_pages_def data_ops_sel)
  have same: "from_trusted_state (data_ops A) (image_ops A) (Inl m') h' (trusted_state (image_ops A) ?t) = Inr ?t"
    using lay' hon' req
    by (auto simp: from_trusted_state_def trusted_state_def td_honest_def td_layout_def td_required_def Let_def not_less
        simp del: rbind_Inr_iff)
  have "trusted_state (image_ops A) ?t = trusted_state (image_ops A) t"
    using assms(6) by (simp add: trusted_state_def)
  with same show "from_trusted_state (data_ops A) (image_ops A) (Inl m') h' (trusted_state (image_ops A) t) = Inr ?t"
    by simp
  have "hash_at (image_pages A) ?t n = hash_at (image_pages A) t n" if "n < td_leaf_base t * 2" for n
  proof (cases "td_trusted_node_limit t \<le> n")
    case True
    from disk_hash_position_ok [OF lay True that] obtain pg off where pg: "disk_hash_position n t = Inr (pg, off)" "pg < td_required t"
      by blast
    moreover have "disk_hash_position n ?t = disk_hash_position n t" by (simp add: disk_hash_position_def Let_def)
    ultimately show ?thesis using True assms(8) by (simp add: hash_at_def)
  next
    case False
    then show ?thesis by (simp add: hash_at_def)
  qed
  moreover have "td_tree H D ?t = td_tree H D t" for D
    by (simp add: td_tree_def td_leaf_def)
  moreover have "data_pages A (Inl m') = data_pages A (td_inner t)"
    using assms(2,3) by (simp add: data_pages_def same_image_def)
  ultimately show "td_ok H (data_ops A) (data_ok A) (data_pages A) (image_ops A) (image_ok A) (image_pages A) ?t"
    using hon' assms(1) by (simp add: td_ok_def)
qed

lemma embedded_reopen:
  assumes "es_ok H (image_ops A) (image_ok A) (image_pages A) e" and "same_image (es_inner e) m'"
  shows "embedded_from_state (image_ops A) m' (embedded_state e) = Inr (e\<lparr>es_inner := m', es_cache := None\<rparr>)"
    and "es_ok H (image_ops A) (image_ok A) (image_pages A) (e\<lparr>es_inner := m', es_cache := None\<rparr>)"
proof -
  obtain D where D: "es_rep H (image_ops A) (image_ok A) (image_pages A) D e" using assms(1) by (auto simp: es_ok_def)
  then show "embedded_from_state (image_ops A) m' (embedded_state e) = Inr (e\<lparr>es_inner := m', es_cache := None\<rparr>)"
    using assms(2) by (simp add: es_rep_def es_auth_def same_image_def embedded_from_state_def embedded_state_def validate_dimensions_def)
  have "es_rep H (image_ops A) (image_ok A) (image_pages A) D (e\<lparr>es_inner := m', es_cache := None\<rparr>)"
    using D assms(2) by (simp add: es_rep_def same_image_def es_auth_def)
  then show "es_ok H (image_ops A) (image_ok A) (image_pages A) (e\<lparr>es_inner := m', es_cache := None\<rparr>)"
    by (auto simp: es_ok_def)
qed

lemma tiered_reopen_store:
  assumes "reopen_ok H A (ReopenSidecar t)" and "td_inner t = Inl m" and "same_image m m'" and "image_ok A h'"
    and "image_durable A h'" and "image_key h' = image_key (td_hash_store t)"
    and "ps_page_size (image_ops A) h' = ps_page_size (image_ops A) (td_hash_store t)"
    and "ps_page_count (image_ops A) h' = td_required t"
    and "\<forall>i < td_required t. image_pages A h' i = image_pages A (td_hash_store t) i"
  shows "from_trusted_state (data_ops A) (image_ops A) (Inl m') h' (trusted_state (image_ops A) t) =
      Inr (t\<lparr>td_inner := Inl m', td_hash_store := h'\<rparr>)"
    and "same_reopen H A (ReopenSidecar t) (ReopenSidecar (t\<lparr>td_inner := Inl m', td_hash_store := h'\<rparr>))"
proof -
  let ?t = "t\<lparr>td_inner := Inl m', td_hash_store := h'\<rparr>"
  have ok: "td_ok H (data_ops A) (data_ok A) (data_pages A) (image_ops A) (image_ok A) (image_pages A) t"
    using assms(1) by (simp add: reopen_ok_def)
  note r = tiered_reopen [OF ok assms(2-5,7-9)]
  show "from_trusted_state (data_ops A) (image_ops A) (Inl m') h' (trusted_state (image_ops A) t) = Inr ?t"
    by (rule r(1))
  have "td_parts data_key image_key ?t = td_parts data_key image_key t"
    using assms(2,3,6) by (simp add: td_parts_def td_required_def data_key_def same_image_def)
  moreover have "trusted_state (image_ops A) ?t = trusted_state (image_ops A) t"
    using assms(7) by (simp add: trusted_state_def)
  moreover have "td_contents (data_pages A) ?t = td_contents (data_pages A) t"
    using assms(2,3) by (simp add: td_contents_def data_pages_def same_image_def)
  ultimately show "same_reopen H A (ReopenSidecar t) (ReopenSidecar ?t)"
    using r(2) by (simp add: same_reopen_def reopen_ok_def stack_config_def reopen_pages_def reopen_ops_def
        dispatch_reopen_def path_of_page_store_def tiered_ops_def)
qed

lemma open_hash_left:
  assumes "ie_aead I = A" and "reopen_ok H A (ReopenSidecar t)" and "reopen_durable A (ReopenSidecar t)"
    and "0 < td_required t" and "key_opens I (image_key (td_hash_store t))" and "files slot = image_file (td_hash_store t)"
  obtains h' f where "open_hash_store_for_auth I slot (trusted_state (image_ops A) t) files = (Inr h', files(slot := f))"
    "image_ok A h'" "image_durable A h'" "image_key h' = image_key (td_hash_store t)"
    "ps_page_size (image_ops A) h' = ps_page_size (image_ops A) (td_hash_store t)"
    "ps_page_count (image_ops A) h' = td_required t"
    "\<forall>i < td_required t. image_pages A h' i = image_pages A (td_hash_store t) i"
proof -
  have ok: "td_layout (image_ops A) t" "image_ok A (td_hash_store t)" "image_durable A (td_hash_store t)"
    using assms(2,3) by (simp_all add: reopen_ok_def reopen_durable_def td_ok_def td_honest_def td_shape_def)
  from ok(1) have le: "td_required t \<le> ps_page_count (image_ops A) (td_hash_store t)" by (simp add: td_layout_def)
  from image_reopen [of I "td_hash_store t" "td_required t" files slot 0 False, OF assms(1) ok(2,3) assms(5,4) le assms(6)]
  obtain h' f where h': "open_sized_file_store I slot (td_required t) (ps_page_size (image_ops A) (td_hash_store t)) 0 False files =
      (Inr h', files(slot := f))" "image_ok A h'" "image_durable A h'" "image_key h' = image_key (td_hash_store t)"
    "ps_page_size (image_ops A) h' = ps_page_size (image_ops A) (td_hash_store t)" "ps_page_count (image_ops A) h' = td_required t"
    "\<forall>i. image_pages A h' i = (if i < td_required t then image_pages A (td_hash_store t) i else None)" by auto
  have "tiered_hash_pages (td_page_count t) (ps_page_size (image_ops A) (td_hash_store t)) (td_trusted_levels t) = Inr (td_required t)"
    using ok(1) by (auto simp: tiered_hash_pages_def required_hash_pages_def td_layout_def td_required_def)
  with h' show ?thesis
    by (intro that [of h' f]) (simp_all add: open_hash_store_for_auth_def trusted_state_def comp_simps)
qed

lemma embedded_reopen_store:
  assumes "reopen_ok H A (ReopenEmbedded e)" and "same_image (es_inner e) m'"
  shows "embedded_from_state (image_ops A) m' (embedded_state e) = Inr (e\<lparr>es_inner := m', es_cache := None\<rparr>)"
    and "same_reopen H A (ReopenEmbedded e) (ReopenEmbedded (e\<lparr>es_inner := m', es_cache := None\<rparr>))"
proof -
  have "es_ok H (image_ops A) (image_ok A) (image_pages A) e" using assms(1) by (simp add: reopen_ok_def)
  note r = embedded_reopen [OF this assms(2)]
  show "embedded_from_state (image_ops A) m' (embedded_state e) = Inr (e\<lparr>es_inner := m', es_cache := None\<rparr>)"
    by (rule r(1))
  show "same_reopen H A (ReopenEmbedded e) (ReopenEmbedded (e\<lparr>es_inner := m', es_cache := None\<rparr>))"
    using r(2) assms(2)
    by (simp add: same_reopen_def reopen_ok_def stack_config_def es_parts_def reopen_pages_def es_contents_def
        same_image_def reopen_ops_def dispatch_reopen_def embedded_ops_def embedded_state_def fun_eq_iff)
qed

end

end
