(* ===== verification/Table_Reopen.thy ===== *)
theory Table_Reopen
  imports Image_Reopen Circuit_Theorems
begin

text \<open>
  A table between two invocations of the command line: the controller flushes, its state is saved,
  the stores are dropped, and the next invocation opens the files and continues. The controller of
  an invocation is the Circuit ORAM over a pair of reopened stores.
\<close>

section \<open>The pair of stores\<close>

fun config_of :: "auth_layout_arg option \<Rightarrow> bytes \<Rightarrow> bytes option \<Rightarrow> stack_config" where
  "config_of None i k = PlainStack (Some k)"
| "config_of (Some SidecarArg) i k = SidecarStack i True (Some k) k"
| "config_of (Some EmbeddedTreeArg) i k = EmbeddedStack i k"

lemma stack_config_simps [simp]:
  "stack_config (ReopenPlain d) = PlainStack (data_key d)"
  "stack_config (ReopenSidecar t) = SidecarStack (td_store_id t) (0 < td_required t) (data_key (td_inner t)) (image_key (td_hash_store t))"
  "stack_config (ReopenEmbedded e) = EmbeddedStack (es_store_id e) (image_key (es_inner e))"
  by (simp_all add: stack_config_def td_parts_def es_parts_def)

lemma data_key_Some: "data_key d = Some k \<longleftrightarrow> (\<exists>s. d = Inl s \<and> image_key s = k)"
  by (cases d) (auto simp: data_key_def)

lemma plain_stack:
  assumes "stack_config s = config_of None i k"
  obtains m where "s = ReopenPlain (Inl m)" "image_key m = k"
  using assms by (cases s) (auto simp: data_key_Some)

lemma sidecar_stack:
  assumes "stack_config s = config_of (Some SidecarArg) i k"
  obtains t m where "s = ReopenSidecar t" "td_inner t = Inl m" "image_key m = k" "image_key (td_hash_store t) = k"
    "td_store_id t = i" "0 < td_required t"
  using assms by (cases s) (auto simp: data_key_Some)

lemma embedded_stack:
  assumes "stack_config s = config_of (Some EmbeddedTreeArg) i k"
  obtains e where "s = ReopenEmbedded e" "image_key (es_inner e) = k" "es_store_id e = i"
  using assms by (cases s) auto

lemma reopen_ops_sel:
  "pp_page_size (reopen_ops H A) = case_reopen_store (ps_page_size (data_ops A)) td_page_size es_logical_page_size"
  "pp_page_count (reopen_ops H A) = case_reopen_store (ps_page_count (data_ops A)) td_page_count es_page_count"
  "pp_tiered_merkle_state (reopen_ops H A) =
     case_reopen_store (ps_tiered_merkle_state (data_ops A)) (\<lambda>t. Some (trusted_state (image_ops A) t)) (\<lambda>_. None)"
  "pp_embedded_tree_state (reopen_ops H A) = case_reopen_store (\<lambda>_. None) (\<lambda>_. None) (\<lambda>e. Some (embedded_state e))"
  by (simp_all add: reopen_ops_def dispatch_reopen_def plain_path_ops_def path_of_page_store_def tiered_ops_def embedded_ops_def)

text \<open>What a controller knows of a store: its dimensions, and that all its pages are there.\<close>

definition reopen_full :: "(bytes \<Rightarrow> bytes) \<Rightarrow> 'r aead_lib \<Rightarrow> nat \<Rightarrow> nat \<Rightarrow> 'r reopen_store \<Rightarrow> bool" where
  "reopen_full H A n k s \<longleftrightarrow> reopen_ok H A s \<and> reopen_durable A s \<and> 0 < n \<and>
     pp_page_count (reopen_ops H A) s = n \<and> pp_page_size (reopen_ops H A) s = k \<and> (\<forall>i < n. reopen_pages A s i \<noteq> None)"

context aead_spec
begin

lemma image_size_bound: "image_ok A s \<Longrightarrow> 0 < ps_page_count (image_ops A) s \<Longrightarrow> ps_page_size (image_ops A) s < 2 ^ 64"
proof -
  have backing: "ps_page_size (backing_ops A) b < 2 ^ 64" if "backing_ok b" "0 < ps_page_count (backing_ops A) b" for b
  proof -
    have bound: "fs_page_size f < 2 ^ 64" if "file_ok f" "0 < fs_page_count f" for f
    proof -
      have "fs_page_size f \<le> fs_page_count f * fs_page_size f" using that(2) by simp
      moreover have "fs_page_count f * fs_page_size f < 2 ^ 64" using that(1) unfolding file_ok_def file_sized_def by blast
      ultimately show ?thesis by (rule le_less_trans)
    qed
    show ?thesis
    proof (cases b)
      case (Inl f) with that bound [of f] show ?thesis by (simp add: backing_ok_def backing_ops_sel)
    next
      case (Inr a)
      with that bound [of "as_inner a"] show ?thesis
        by (simp add: backing_ok_def backing_ops_sel aead_ok_def file_store_ops_def)
    qed
  qed
  assume "image_ok A s" "0 < ps_page_count (image_ops A) s"
  with backing show ?thesis
    by (cases s) (auto simp: image_ok_def image_ops_sel fc_ok_def fc_page_count_def)
qed

end

context table_libs
begin

lemma plain_left:
  assumes "reopen_full H A n k (ReopenPlain (Inl m))" and "key_opens I (image_key m)"
    and "files slot = image_file m"
  shows "left_at I files slot n (auth_plaintext_page_bytes k SidecarArg) m"
  using assms
  by (simp add: left_at_def reopen_full_def reopen_ok_def data_ok_def reopen_durable_def data_durable_def reopen_ops_sel
      data_ops_sel reopen_pages_def data_pages_def auth_plaintext_page_bytes_def)

lemma sidecar_left:
  assumes "reopen_full H A n k (ReopenSidecar t)" and "td_inner t = Inl m" and "key_opens I (image_key m)"
    and "files slot = image_file m"
  shows "left_at I files slot n (auth_plaintext_page_bytes k SidecarArg) m"
  using assms
  by (simp add: left_at_def reopen_full_def reopen_ok_def td_ok_def td_honest_def data_ok_def reopen_durable_def
      data_durable_def reopen_ops_sel data_ops_sel reopen_pages_def td_contents_def data_pages_def auth_plaintext_page_bytes_def)

lemma embedded_left:
  assumes "reopen_full H A n k (ReopenEmbedded e)" and "key_opens I (image_key (es_inner e))"
    and "files slot = image_file (es_inner e)"
  shows "left_at I files slot n (auth_plaintext_page_bytes k EmbeddedTreeArg) (es_inner e)"
proof -
  obtain D where D: "es_rep H (image_ops A) (image_ok A) (image_pages A) D e"
    using assms(1) by (auto simp: reopen_full_def reopen_ok_def es_ok_def)
  then have e: "image_ok A (es_inner e)" "es_page_count e = ps_page_count (image_ops A) (es_inner e)"
    "es_physical_page_size e = ps_page_size (image_ops A) (es_inner e)"
    "es_physical_page_size e = es_logical_page_size e + EMBEDDED_TREE_AUTH_BYTES_PER_PAGE"
    by (simp_all add: es_rep_def es_auth_def physical_page_size_for_def)
  moreover have n: "es_page_count e = n" "es_logical_page_size e = k" "0 < n"
    using assms(1) by (simp_all add: reopen_full_def reopen_ops_sel)
  ultimately have "k + EMBEDDED_TREE_AUTH_BYTES_PER_PAGE < 2 ^ 64"
    using image_size_bound [of "es_inner e"] by simp
  then have size: "auth_plaintext_page_bytes k EmbeddedTreeArg = ps_page_size (image_ops A) (es_inner e)"
    using e n by (simp add: auth_plaintext_page_bytes_def)
  have "image_pages A (es_inner e) i \<noteq> None" if "i < n" for i
    using assms(1) that by (auto simp: reopen_full_def reopen_pages_def es_contents_def)
  then show ?thesis
    using assms e(1,2) n size
    by (simp add: left_at_def reopen_full_def reopen_durable_def)
qed

lemma same_plain: "same_image m m' \<Longrightarrow> same_reopen H A (ReopenPlain (Inl m)) (ReopenPlain (Inl m'))"
  by (cases m; cases m')
    (auto simp: same_reopen_def same_image_def reopen_ok_def data_ok_def data_key_def reopen_pages_def data_pages_def
      reopen_ops_sel data_ops_sel data_ops_def either_ops_def image_ops_def backing_ops_def file_store_ops_def aead_ops_def
      front_cached_ops_def split: sum.splits)

text \<open>
  The reopened pair is the pair that was closed: same pages, same dimensions, same trusted state,
  whatever front cache the new invocation asks for.
\<close>

lemma reopen_pair:
  assumes "ie_aead I = A" and "key_opens I key"
    and "reopen_full H A (bucket_count p) (circuit_meta_page_bytes (bucket_size p)) m"
    and "reopen_full H A (bucket_count p) (circuit_payload_page_bytes (bucket_size p) (block_size p)) q"
    and "stack_config m = config_of lay (ids MetaStore) key" and "stack_config q = config_of lay (ids PayloadStore) key"
    and "c \<le> bucket_count p"
    and "auth = store_auth_state_from_stores (reopen_ops H A) m (reopen_ops H A) q"
  shows "\<exists>m' q' files'. open_file_stores_for_reopen I ids p c (lay \<noteq> None) auth sidecar (close_stores m q files) =
      (Inr (m', q'), files') \<and> same_reopen H A m m' \<and> same_reopen H A q q'"
proof -
  let ?files = "close_stores m q files"
  consider "lay = None" | "lay = Some SidecarArg" | "lay = Some EmbeddedTreeArg"
    by (metis auth_layout_arg.exhaust option.exhaust)
  then show ?thesis
  proof cases
    case 1
    obtain x where x: "m = ReopenPlain (Inl x)" "image_key x = key" using plain_stack assms(5) 1 by metis
    obtain y where y: "q = ReopenPlain (Inl y)" "image_key y = key" using plain_stack assms(6) 1 by metis
    have fx: "?files MetaImage = image_file x" and fy: "?files PayloadImage = image_file y"
      by (simp_all add: close_stores_def x y data_file_def)
    have lx: "left_at I ?files MetaImage (bucket_count p) (meta_bytes p SidecarArg) x"
      using plain_left [of "bucket_count p" "circuit_meta_page_bytes (bucket_size p)" x I ?files MetaImage] assms(2,3) x fx
      by simp
    have ly: "left_at I ?files PayloadImage (bucket_count p) (payload_bytes p SidecarArg) y"
      using plain_left [of "bucket_count p" "circuit_payload_page_bytes (bucket_size p) (block_size p)" y I ?files PayloadImage]
        assms(2,4) y fy by simp
    obtain x' y' f g where o': "same_image x x'" "same_image y y'"
      "open_circuit_file_stores I p c True SidecarArg ?files = (Inr (Inl x', Inl y'), ?files(MetaImage := f, PayloadImage := g))"
      using open_left_pair [OF assms(1) lx ly assms(7)] by metis
    then have "open_file_stores_for_reopen I ids p c (lay \<noteq> None) auth sidecar ?files =
        (Inr (ReopenPlain (Inl x'), ReopenPlain (Inl y')), ?files(MetaImage := f, PayloadImage := g))"
      using 1 by (simp add: open_file_stores_for_reopen_def comp_simps)
    with same_plain [OF o'(1)] same_plain [OF o'(2)] show ?thesis unfolding x(1) y(1) by blast
  next
    case 2
    obtain t x where x: "m = ReopenSidecar t" "td_inner t = Inl x" "image_key x = key" "image_key (td_hash_store t) = key"
      "td_store_id t = ids MetaStore" "0 < td_required t" using sidecar_stack assms(5) 2 by metis
    obtain u y where y: "q = ReopenSidecar u" "td_inner u = Inl y" "image_key y = key" "image_key (td_hash_store u) = key"
      "td_store_id u = ids PayloadStore" "0 < td_required u" using sidecar_stack assms(6) 2 by metis
    have fs: "?files MetaImage = image_file x" "?files PayloadImage = image_file y"
      "?files MetaHashImage = image_file (td_hash_store t)" "?files PayloadHashImage = image_file (td_hash_store u)"
      by (simp_all add: close_stores_def x(1,2) y(1,2) data_file_def)
    note okm = assms(3) [unfolded x(1)] and okq = assms(4) [unfolded y(1)]
    have lx: "left_at I ?files MetaImage (bucket_count p) (meta_bytes p SidecarArg) x"
      using sidecar_left [of "bucket_count p" "circuit_meta_page_bytes (bucket_size p)" t x I ?files MetaImage] assms(2,3) x fs(1)
      by simp
    have ly: "left_at I ?files PayloadImage (bucket_count p) (payload_bytes p SidecarArg) y"
      using sidecar_left [of "bucket_count p" "circuit_payload_page_bytes (bucket_size p) (block_size p)" u y I ?files PayloadImage]
        assms(2,4) y fs(2) by simp
    obtain x' y' f g where o': "same_image x x'" "same_image y y'"
      "open_circuit_file_stores I p c True SidecarArg ?files = (Inr (Inl x', Inl y'), ?files(MetaImage := f, PayloadImage := g))"
      using open_left_pair [OF assms(1) lx ly assms(7)] by metis
    let ?f1 = "?files(MetaImage := f, PayloadImage := g)"
    have km: "key_opens I (image_key (td_hash_store t))" and kq: "key_opens I (image_key (td_hash_store u))"
      using x(4) y(4) assms(2) by simp_all
    have rm: "reopen_ok H A (ReopenSidecar t)" "reopen_durable A (ReopenSidecar t)" using okm by (simp_all add: reopen_full_def)
    have rq: "reopen_ok H A (ReopenSidecar u)" "reopen_durable A (ReopenSidecar u)" using okq by (simp_all add: reopen_full_def)
    have "?f1 MetaHashImage = image_file (td_hash_store t)" using fs by simp
    from open_hash_left [where files = ?f1 and slot = MetaHashImage, OF assms(1) rm x(6) km this] obtain h f2 where h:
      "open_hash_store_for_auth I MetaHashImage (trusted_state (image_ops A) t) ?f1 = (Inr h, ?f1(MetaHashImage := f2))"
      "image_ok A h" "image_durable A h" "image_key h = image_key (td_hash_store t)"
      "ps_page_size (image_ops A) h = ps_page_size (image_ops A) (td_hash_store t)" "ps_page_count (image_ops A) h = td_required t"
      "\<forall>i < td_required t. image_pages A h i = image_pages A (td_hash_store t) i" by blast
    let ?f2 = "?f1(MetaHashImage := f2)"
    have "?f2 PayloadHashImage = image_file (td_hash_store u)" using fs by simp
    from open_hash_left [where files = ?f2 and slot = PayloadHashImage, OF assms(1) rq y(6) kq this] obtain k f3 where k:
      "open_hash_store_for_auth I PayloadHashImage (trusted_state (image_ops A) u) ?f2 = (Inr k, ?f2(PayloadHashImage := f3))"
      "image_ok A k" "image_durable A k" "image_key k = image_key (td_hash_store u)"
      "ps_page_size (image_ops A) k = ps_page_size (image_ops A) (td_hash_store u)" "ps_page_count (image_ops A) k = td_required u"
      "\<forall>i < td_required u. image_pages A k i = image_pages A (td_hash_store u) i" by blast
    note tm = tiered_reopen_store [OF rm(1) x(2) o'(1) h(2-7)] and tq = tiered_reopen_store [OF rq(1) y(2) o'(2) k(2-7)]
    let ?t = "t\<lparr>td_inner := Inl x', td_hash_store := h\<rparr>" and ?u = "u\<lparr>td_inner := Inl y', td_hash_store := k\<rparr>"
    have "auth = Some (store_auth_new (trusted_state (image_ops A) t) (trusted_state (image_ops A) u))"
      using assms(8) by (simp add: x(1) y(1) store_auth_state_from_stores_def reopen_ops_sel)
    then have "open_file_stores_for_reopen I ids p c (lay \<noteq> None) auth sidecar ?files =
        (Inr (ReopenSidecar ?t, ReopenSidecar ?u), ?f2(PayloadHashImage := f3))"
      using 2 o'(3) h(1) k(1) tm(1) tq(1) x(5) y(5) assms(1)
      by (simp add: open_file_stores_for_reopen_def reopen_sidecar_def store_auth_new_def comp_simps Let_def)
    with tm(2) tq(2) show ?thesis unfolding x(1) y(1) by blast
  next
    case 3
    obtain t where x: "m = ReopenEmbedded t" "image_key (es_inner t) = key" "es_store_id t = ids MetaStore"
      using embedded_stack assms(5) 3 by metis
    obtain u where y: "q = ReopenEmbedded u" "image_key (es_inner u) = key" "es_store_id u = ids PayloadStore"
      using embedded_stack assms(6) 3 by metis
    have fs: "?files MetaImage = image_file (es_inner t)" "?files PayloadImage = image_file (es_inner u)"
      by (simp_all add: close_stores_def x(1) y(1))
    note okm = assms(3) [unfolded x(1)] and okq = assms(4) [unfolded y(1)]
    have lx: "left_at I ?files MetaImage (bucket_count p) (meta_bytes p EmbeddedTreeArg) (es_inner t)"
      using embedded_left [of "bucket_count p" "circuit_meta_page_bytes (bucket_size p)" t I ?files MetaImage] assms(2,3) x fs(1)
      by simp
    have ly: "left_at I ?files PayloadImage (bucket_count p) (payload_bytes p EmbeddedTreeArg) (es_inner u)"
      using embedded_left [of "bucket_count p" "circuit_payload_page_bytes (bucket_size p) (block_size p)" u I ?files PayloadImage]
        assms(2,4) y fs(2) by simp
    obtain x' y' f g where o': "same_image (es_inner t) x'" "same_image (es_inner u) y'"
      "open_circuit_physical_file_stores I p c True EmbeddedTreeArg ?files =
        (Inr (x', y'), ?files(MetaImage := f, PayloadImage := g))"
      using open_left_pair [OF assms(1) lx ly assms(7)] by metis
    have "reopen_ok H A (ReopenEmbedded t)" "reopen_ok H A (ReopenEmbedded u)"
      using okm okq by (simp_all add: reopen_full_def)
    note em = embedded_reopen_store [OF this(1) o'(1)] and eq = embedded_reopen_store [OF this(2) o'(2)]
    have "auth = Some (store_auth_new_embedded (embedded_state t) (embedded_state u))"
      using assms(8) by (simp add: x(1) y(1) store_auth_state_from_stores_def reopen_ops_sel)
    then have "open_file_stores_for_reopen I ids p c (lay \<noteq> None) auth sidecar ?files =
        (Inr (ReopenEmbedded (t\<lparr>es_inner := x', es_cache := None\<rparr>), ReopenEmbedded (u\<lparr>es_inner := y', es_cache := None\<rparr>)),
         ?files(MetaImage := f, PayloadImage := g))"
      using 3 o'(3) em(1) eq(1) x(3) y(3) assms(1)
      by (simp add: open_file_stores_for_reopen_def reopen_embedded_def store_auth_new_embedded_def embedded_state_def
          comp_simps Let_def)
    with em(2) eq(2) show ?thesis unfolding x(1) y(1) by blast
  qed
qed

end

end
