(* ===== verification/Session_Core.thy ===== *)
theory Session_Core
  imports Table_Sessions Table_Reopen State_Persistence
begin

text \<open>
  A table between sessions. \<open>table_on_disk\<close> says that the files hold an array: the images hold what
  the stores of some controller show after a flush, and the state file loads as the snapshot of
  that controller. Opening such a table gives a controller for the same array (\<open>open_table_ok\<close>), and
  flushing, saving and dropping a controller leaves such a table (\<open>save_session_ok\<close>).
\<close>

interpretation table_stores: table_libs tag_cipher "table_hash qs" for qs
  by (simp add: table_libs_def tag_cipher.aead_spec_axioms table_hash.sha256_spec_axioms)

section \<open>A usable invocation\<close>

text \<open>
  The libraries do what they document, the keys given are well formed, and \<open>--auth-store\<close> says how
  the table was built: \<open>lay\<close> is its layout, \<open>key\<close> the key of its images.
\<close>

definition ctl_ok :: "('c, 'h, 'r) oramctl \<Rightarrow> auth_layout_arg option \<Rightarrow> bytes option \<Rightarrow> bool" where
  "ctl_ok T lay key \<longleftrightarrow>
     aead_spec (ie_aead (ctl_images T)) \<and> sha256_spec (ctl_sha256 T) \<and> subtle_spec (ctl_ct T) \<and>
     key_opens (ctl_images T) key \<and> ctl_auth_store T = (lay \<noteq> None) \<and>
     (\<forall>k. ctl_state_key_hex T = Some k \<longrightarrow> (\<exists>key. parse_32_hex (ie_hex (ctl_images T)) k = Inr key))"

definition ctl_views ::
  "('c, 'h, 'r) oramctl \<Rightarrow> auth_layout_arg option \<Rightarrow> (auth_store_kind \<Rightarrow> bytes) \<Rightarrow> bytes option \<Rightarrow>
    ('h reopen_store, 'h reopen_store) store_views" where
  "ctl_views T lay ids key =
     (let A = ie_aead (ctl_images T); H = ctl_sha256 T;
          ok = (\<lambda>kind s. reopen_ok H A s \<and> stack_config s = config_of lay (ids kind) key) in
      \<lparr>v_meta_ok = ok MetaStore, v_meta_pages = reopen_pages A,
       v_payload_ok = ok PayloadStore, v_payload_pages = reopen_pages A\<rparr>)"

definition encodes :: "('a, 'l) bincode \<Rightarrow> 'a \<Rightarrow> bool" where
  "encodes B s \<longleftrightarrow> (\<exists>bytes. bc_serialize B s = Some bytes \<and> length bytes < aead_message_limit \<and>
     bc_deserialize B bytes = Some s)"

text \<open>The state file holds \<open>state\<close>: whoever reads it from a working disk gets it.\<close>

definition state_on_disk ::
  "('c, 'h, 'r) oramctl \<Rightarrow> output_paths \<Rightarrow> 'r circuit_oram_state \<Rightarrow> 'h host \<Rightarrow> bool" where
  "state_on_disk T paths state h \<longleftrightarrow> (\<exists>contents. h_files h (op_state paths) = Some contents \<and>
     (\<forall>g. h_files g (op_state paths) = Some contents \<longrightarrow> h_step g (h_calls g) \<noteq> None \<longrightarrow>
       fst (load_circuit_state (ie_hex (ctl_images T)) (ie_aead (ctl_images T)) (ctl_state_codec T)
         (op_state paths) (ctl_state_key_hex T) g) = Inr state))"

text \<open>So for the file of the authentication state.\<close>

definition auth_on_disk ::
  "('c, 'h, 'r) oramctl \<Rightarrow> output_paths \<Rightarrow> store_auth_state \<Rightarrow> 'h host \<Rightarrow> bool" where
  "auth_on_disk T paths auth h \<longleftrightarrow> (\<exists>contents. h_files h (op_auth_state paths) = Some contents \<and>
     (\<forall>g. h_files g (op_auth_state paths) = Some contents \<longrightarrow> h_step g (h_calls g) \<noteq> None \<longrightarrow>
       fst (load_circuit_store_auth (ie_hex (ctl_images T)) (ie_aead (ctl_images T)) (ctl_auth_codec T)
         (op_auth_state paths) (ctl_state_key_hex T) g) = Inr auth))"

definition stores_durable :: "('c, 'h, 'r) oramctl \<Rightarrow> ('h reopen_store, 'h reopen_store, 'r) circuit_oram \<Rightarrow> bool" where
  "stores_durable T oram \<longleftrightarrow> reopen_durable (ie_aead (ctl_images T)) (co_meta_store oram) \<and>
     reopen_durable (ie_aead (ctl_images T)) (co_payload_store oram)"

definition table_on_disk ::
  "('c, 'h, 'r) oramctl \<Rightarrow> auth_layout_arg option \<Rightarrow> (auth_store_kind \<Rightarrow> bytes) \<Rightarrow> bytes option \<Rightarrow> output_paths \<Rightarrow>
    oram_params \<Rightarrow> bytes list \<Rightarrow> nat \<Rightarrow> 'h table_disk \<Rightarrow> bool" where
  "table_on_disk T lay ids key paths p D n d \<longleftrightarrow> live (tb_host d) \<and>
     (\<exists>oram files. serves (ctl_env T) (ctl_views T lay ids key) D n oram \<and> co_params oram = p \<and>
        stores_durable T oram \<and> state_on_disk T paths (snapshot (ctl_env T) oram) (tb_host d) \<and>
        tb_images d = close_stores (co_meta_store oram) (co_payload_store oram) files)"

lemma ctl_ok_libs: "ctl_ok T lay key \<Longrightarrow> table_libs (ie_aead (ctl_images T)) (ctl_sha256 T)"
  by (simp add: ctl_ok_def table_libs_def)

lemma ctl_env_ok:
  assumes "ctl_ok T lay key"
  shows "circuit_env_spec (ctl_env T) (ctl_views T lay ids key)"
proof -
  note fixed = table_libs.reopen_fixed_spec [OF ctl_ok_libs [OF assms]]
  have "subtle_spec (ctl_ct T)" using assms by (simp add: ctl_ok_def)
  with fixed [of "config_of lay (ids MetaStore) key"] fixed [of "config_of lay (ids PayloadStore) key"]
  show ?thesis by (simp add: circuit_env_spec_def ctl_env_def ctl_views_def Let_def)
qed

lemma views_sel:
  "v_meta_ok (ctl_views T lay ids key) s \<longleftrightarrow>
     reopen_ok (ctl_sha256 T) (ie_aead (ctl_images T)) s \<and> stack_config s = config_of lay (ids MetaStore) key"
  "v_payload_ok (ctl_views T lay ids key) s \<longleftrightarrow>
     reopen_ok (ctl_sha256 T) (ie_aead (ctl_images T)) s \<and> stack_config s = config_of lay (ids PayloadStore) key"
  "v_meta_pages (ctl_views T lay ids key) = reopen_pages (ie_aead (ctl_images T))"
  "v_payload_pages (ctl_views T lay ids key) = reopen_pages (ie_aead (ctl_images T))"
  by (simp_all add: ctl_views_def Let_def)

lemma env_sel:
  "e_meta (ctl_env T) = ctl_reopen T" "e_payload (ctl_env T) = ctl_reopen T" "e_ct (ctl_env T) = ctl_ct T"
  by (simp_all add: ctl_env_def)

section \<open>The controller over other stores\<close>

lemma oram_inv_stores:
  assumes "oram_inv E V D oram"
  shows "v_meta_ok V (co_meta_store oram)" "v_payload_ok V (co_payload_store oram)"
    "pp_page_count (e_meta E) (co_meta_store oram) = bucket_count (co_params oram)"
    "pp_page_count (e_payload E) (co_payload_store oram) = bucket_count (co_params oram)"
    "pp_page_size (e_meta E) (co_meta_store oram) = circuit_meta_page_bytes (bucket_size (co_params oram))"
    "pp_page_size (e_payload E) (co_payload_store oram) =
       circuit_payload_page_bytes (bucket_size (co_params oram)) (block_size (co_params oram))"
    "\<forall>i < bucket_count (co_params oram). v_meta_pages V (co_meta_store oram) i \<noteq> None"
    "\<forall>i < bucket_count (co_params oram). v_payload_pages V (co_payload_store oram) i \<noteq> None"
  using assms by (auto simp: oram_inv_def oram_rep_def stores_hold_def store_rep_def)

text \<open>The same controller over two stores that show the same pages, of whatever kind.\<close>

definition with_stores :: "('m, 'p, 'r) circuit_oram \<Rightarrow> 'n \<Rightarrow> 'q \<Rightarrow> ('n, 'q, 'r) circuit_oram" where
  "with_stores oram m q =
     \<lparr>co_params = co_params oram, co_meta_store = m, co_payload_store = q, co_pos_map = co_pos_map oram,
      co_stash = co_stash oram, co_rng = co_rng oram, co_schedule = co_schedule oram\<rparr>"

lemma with_stores_sel [simp]:
  "co_params (with_stores oram m q) = co_params oram" "co_schedule (with_stores oram m q) = co_schedule oram"
  "co_meta_store (with_stores oram m q) = m" "co_payload_store (with_stores oram m q) = q"
  by (simp_all add: with_stores_def)

lemma oram_inv_with_stores:
  assumes "oram_inv E V D oram"
    and "v_meta_ok V' m" "pp_page_count (e_meta E') m = pp_page_count (e_meta E) (co_meta_store oram)"
      "pp_page_size (e_meta E') m = pp_page_size (e_meta E) (co_meta_store oram)"
      "\<forall>i < bucket_count (co_params oram). v_meta_pages V' m i = v_meta_pages V (co_meta_store oram) i"
    and "v_payload_ok V' q" "pp_page_count (e_payload E') q = pp_page_count (e_payload E) (co_payload_store oram)"
      "pp_page_size (e_payload E') q = pp_page_size (e_payload E) (co_payload_store oram)"
      "\<forall>i < bucket_count (co_params oram). v_payload_pages V' q i = v_payload_pages V (co_payload_store oram) i"
  shows "oram_inv E' V' D (with_stores oram m q)"
  using assms by (auto simp: oram_inv_def oram_rep_def stores_hold_def store_rep_def with_stores_def)

lemma serves_with_stores:
  assumes "serves E V D n oram" and "circuit_env_spec E' V'" and "oram_inv E' V' D (with_stores oram m q)"
  shows "serves E' V' D n (with_stores oram m q)"
  using assms by (simp add: serves_def)

lemma serves_reopened:
  assumes "serves (ctl_env T) (ctl_views T lay ids key) D n oram" and "ctl_ok T lay key"
    and "same_reopen (ctl_sha256 T) (ie_aead (ctl_images T)) (co_meta_store oram) m"
    and "same_reopen (ctl_sha256 T) (ie_aead (ctl_images T)) (co_payload_store oram) q"
  shows "serves (ctl_env T) (ctl_views T lay ids key) D n (with_stores oram m q)"
    and "snapshot (ctl_env T) (with_stores oram m q) = snapshot (ctl_env T) oram"
proof -
  have inv: "oram_inv (ctl_env T) (ctl_views T lay ids key) D oram" using assms(1) by (simp add: serves_def)
  show "serves (ctl_env T) (ctl_views T lay ids key) D n (with_stores oram m q)"
    using assms oram_inv_stores [OF inv]
    by (intro serves_with_stores [OF assms(1) ctl_env_ok] oram_inv_with_stores [OF inv])
      (simp_all add: views_sel env_sel same_reopen_def)
  show "snapshot (ctl_env T) (with_stores oram m q) = snapshot (ctl_env T) oram"
    using assms(3,4)
    by (simp add: snapshot_def oram_store_auth_state_def store_auth_state_from_stores_def env_sel same_reopen_def
        with_stores_def cong: option.case_cong)
qed

section \<open>Loading\<close>

lemma load_frame:
  "load from_bytes p h = (r, h') \<Longrightarrow> h_files h' = h_files h \<and> h_step h' = h_step h"
  "load_encrypted op from_bytes p key h = (r, h') \<Longrightarrow> h_files h' = h_files h \<and> h_step h' = h_step h"
  by (cases h rule: sys_call_cases;
      auto simp: load_def load_encrypted_def fs_read_def bnd_def gets_def lift_def split: sum.splits prod.splits)+

lemma load_circuit_state_frame:
  assumes "load_circuit_state hex A B p k h = (r, h')"
  shows "h_files h' = h_files h \<and> h_step h' = h_step h"
proof (cases k)
  case None
  with assms show ?thesis
    using load_frame(1) [of "circuit_state_from_bytes B" p h r h']
    by (simp add: load_circuit_state_def circuit_state_load_def)
next
  case (Some x)
  with assms show ?thesis
    by (cases "parse_32_hex hex x")
      (auto simp: load_circuit_state_def circuit_state_load_encrypted_def comp_simps dest: load_frame(2))
qed

lemma height_pages:
  assumes "params_ok p" and "cached_pages_for_levels p l = Inr c"
  shows "c \<le> bucket_count p"
proof (cases "l = 0")
  case True
  with assms(2) show ?thesis by (simp add: cached_pages_for_levels_def)
next
  case False
  with assms(2) have l: "l \<le> height p" "c = 2 ^ l - 1"
    by (auto simp: cached_pages_for_levels_def split: if_splits)
  then have "(2 :: nat) ^ l \<le> 2 ^ Suc (leaf_bits p)" by (intro power_increasing) (simp_all add: height_def)
  moreover have "bucket_count p = 2 ^ Suc (leaf_bits p) - 1"
    using params_ok_leaves [OF assms(1)] by (simp add: bucket_count_def)
  ultimately show ?thesis unfolding l(2) by simp
qed

lemma data_no_auth: "ps_tiered_merkle_state (data_ops A) s = None"
proof -
  have "ps_tiered_merkle_state (image_ops A) x = None" for x
    by (cases x)
      (simp_all add: image_ops_def either_ops_def backing_ops_def front_cached_ops_def file_store_ops_def aead_ops_def
        split: sum.split)
  then show ?thesis by (cases s) (simp_all add: data_ops_def either_ops_def prefix_ops_def)
qed

lemma bucket_count_pos: "params_ok p \<Longrightarrow> 0 < bucket_count p"
  by (auto simp: params_ok_def bucket_count_def)

lemma auth_of_config:
  assumes "stack_config m = config_of lay i key" and "stack_config q = config_of lay j key"
  shows "store_auth_state_from_stores (reopen_ops H A) m (reopen_ops H A) q = None \<longleftrightarrow> lay = None"
proof -
  consider "lay = None" | "lay = Some SidecarArg" | "lay = Some EmbeddedTreeArg"
    by (metis auth_layout_arg.exhaust option.exhaust)
  then show ?thesis
  proof cases
    case 1
    then obtain x y where "m = ReopenPlain x" "q = ReopenPlain y" using plain_stack assms by metis
    then show ?thesis by (simp add: store_auth_state_from_stores_def reopen_ops_sel data_no_auth 1)
  next
    case 2
    then obtain x y where "m = ReopenSidecar x" "q = ReopenSidecar y" using sidecar_stack assms by metis
    then show ?thesis by (simp add: store_auth_state_from_stores_def reopen_ops_sel 2)
  next
    case 3
    then obtain x y where "m = ReopenEmbedded x" "q = ReopenEmbedded y" using embedded_stack assms by metis
    then show ?thesis by (simp add: store_auth_state_from_stores_def reopen_ops_sel 3)
  qed
qed

section \<open>Opening a table\<close>

lemma open_table_ok:
  assumes "ctl_ok T lay key" and "table_on_disk T lay ids key paths p D n d"
    and "cached_pages_for_levels p (ctl_cache_levels T) = Inr c"
  shows "\<exists>oram d'. open_table T ids paths d = (Inr (c, oram), d') \<and>
    serves (ctl_env T) (ctl_views T lay ids key) D n oram \<and> co_params oram = p \<and> live (tb_host d')"
proof -
  let ?I = "ctl_images T" and ?A = "ie_aead (ctl_images T)" and ?H = "ctl_sha256 T" and ?E = "ctl_env T"
    and ?V = "ctl_views T lay ids key"
  obtain oram files contents where d: "live (tb_host d)" "serves ?E ?V D n oram" "co_params oram = p"
    "stores_durable T oram" "tb_images d = close_stores (co_meta_store oram) (co_payload_store oram) files"
    "h_files (tb_host d) (op_state paths) = Some contents"
    "\<And>g. h_files g (op_state paths) = Some contents \<Longrightarrow> h_step g (h_calls g) \<noteq> None \<Longrightarrow>
       fst (load_circuit_state (ie_hex ?I) ?A (ctl_state_codec T) (op_state paths) (ctl_state_key_hex T) g) =
         Inr (snapshot ?E oram)"
    using assms(2) unfolding table_on_disk_def state_on_disk_def by blast
  let ?m = "co_meta_store oram" and ?q = "co_payload_store oram" and ?state = "snapshot ?E oram"
  have inv: "oram_inv ?E ?V D oram" and leaf_bits: "s_leaf_bits (co_schedule oram) = leaf_bits p"
    and room: "schedule_ok (co_schedule oram)"
    using d(2,3) by (simp_all add: serves_def schedule_room_def)
  note st = oram_inv_stores [OF inv, unfolded views_sel env_sel d(3)]
  obtain T' where rep: "oram_rep ?E ?V T' D oram" and p: "params_ok p"
    using oram_invE [OF inv] d(3) by blast
  obtain k where "h_step (tb_host d) (h_calls (tb_host d)) = Some k" using d(1) by (auto simp: live_def)
  then obtain h' where load: "load_circuit_state (ie_hex ?I) ?A (ctl_state_codec T) (op_state paths)
      (ctl_state_key_hex T) (tb_host d) = (Inr ?state, h')"
    using d(7) [OF d(6)] by (metis option.distinct(1) prod.collapse)
  have h': "live h'" using load_circuit_state_frame [OF load] d(1) live_steps by blast
  have auth: "cs_auth ?state = store_auth_state_from_stores (reopen_ops ?H ?A) ?m (reopen_ops ?H ?A) ?q"
    and par: "cs_params ?state = p"
    by (simp_all add: snapshot_def with_auth_def circuit_state_new_def oram_store_auth_state_def env_sel d(3))
  have full: "reopen_full ?H ?A (bucket_count p) (circuit_meta_page_bytes (bucket_size p)) ?m"
    "reopen_full ?H ?A (bucket_count p) (circuit_payload_page_bytes (bucket_size p) (block_size p)) ?q"
    using st d(4) bucket_count_pos [OF p] by (simp_all add: reopen_full_def stores_durable_def)
  have opens: "ctl_auth_store T = (lay \<noteq> None)" "key_opens ?I key" using assms(1) by (simp_all add: ctl_ok_def)
  have side: "sidecar_auth T paths (cs_auth ?state) e = (Inr (Inl (Io ''not read'')), e)" for e
    using auth_of_config [OF conjunct2 [OF st(1)] conjunct2 [OF st(2)], of ?H ?A] opens(1)
    by (auto simp: sidecar_auth_def auth comp_simps)
  from table_libs.reopen_pair [OF ctl_ok_libs [OF assms(1)] refl opens(2) full conjunct2 [OF st(1)] conjunct2 [OF st(2)]
      height_pages [OF p assms(3)] auth, of "Inl (Io ''not read'')" files]
  obtain m' q' files' where o': "open_file_stores_for_reopen ?I ids p c (lay \<noteq> None) (cs_auth ?state)
      (Inl (Io ''not read'')) (close_stores ?m ?q files) = (Inr (m', q'), files')"
    "same_reopen ?H ?A ?m m'" "same_reopen ?H ?A ?q q'" by blast
  let ?oram = "with_stores oram m' q'"
  note again = serves_reopened [OF d(2) assms(1) o'(2,3)]
  have "oram_inv ?E ?V D ?oram" using again(1) by (simp add: serves_def)
  then have "from_state ?E m' q' (snapshot ?E ?oram) = Inr ?oram"
    using circuit_env_spec.from_snapshot [OF ctl_env_ok [OF assms(1)], of ids] room leaf_bits d(3)
    unfolding oram_inv_def by fastforce
  then have "from_state ?E m' q' ?state = Inr ?oram" by (simp only: again(2))
  then have "open_table T ids paths d = (Inr (c, ?oram), d\<lparr>tb_host := h', tb_images := files'\<rparr>)"
    using load assms(3) side o'(1) d(5) opens(1)
    by (simp add: open_table_def Let_def comp_simps par)
  with again(1) d(3) h' show ?thesis by auto
qed

section \<open>Saving\<close>

text \<open>System calls leave the behaviour of later system calls alone.\<close>

definition keeps_steps :: "('h host, 'a) comp \<Rightarrow> bool" where
  "keeps_steps m \<longleftrightarrow> (\<forall>h. h_step (snd (m h)) = h_step h)"

named_theorems keeps_intros \<open>computations that keep the schedule of system calls\<close>

lemma keepsD: "keeps_steps m \<Longrightarrow> m h = (r, h') \<Longrightarrow> live h \<Longrightarrow> live h'"
  unfolding keeps_steps_def live_def by (metis snd_conv)

lemma keeps_bnd [keeps_intros]: "keeps_steps m \<Longrightarrow> (\<And>a. keeps_steps (f a)) \<Longrightarrow> keeps_steps (bnd m f)"
  unfolding keeps_steps_def bnd_def by (auto split: prod.split sum.split) (metis snd_conv)+

lemma keeps_pure [keeps_intros]:
  "keeps_steps (ret a)" "keeps_steps (fail e)" "keeps_steps (lift r)" "keeps_steps (gets g)" "keeps_steps sys_call"
  "keeps_steps (modify (put_files f))" "keeps_steps (modify (\<lambda>h. h\<lparr>h_os_rng := x\<rparr>))"
  by (simp_all add: keeps_steps_def comp_simps put_files_def sys_call_def)

lemma keeps_map_err [keeps_intros]: "keeps_steps m \<Longrightarrow> keeps_steps (map_err f m)"
  unfolding keeps_steps_def map_err_def by (auto split: prod.split sum.split) (metis snd_conv)+

lemma keeps_option [keeps_intros]:
  "keeps_steps m \<Longrightarrow> (\<And>a. keeps_steps (f a)) \<Longrightarrow> keeps_steps (case x of None \<Rightarrow> m | Some a \<Rightarrow> f a)"
  by (cases x) simp_all

lemma keeps_prod [keeps_intros]: "(\<And>a b. keeps_steps (f a b)) \<Longrightarrow> keeps_steps (case x of (a, b) \<Rightarrow> f a b)"
  by (cases x) simp

lemma keeps_append_some [keeps_intros]: "keeps_steps (append_some p input)"
  unfolding append_some_def Let_def by (intro keeps_intros)

lemma keeps_write_file [keeps_intros]: "keeps_steps (write_file p input)"
proof -
  have "h_step (snd (write_file p input h)) = h_step h" for h :: "'a host"
  proof (induction p input h rule: write_file.induct)
    case (1 p input h)
    obtain r g where step: "append_some p input h = (r, g)" by fastforce
    have "h_step g = h_step h" using keeps_append_some [of p input] step unfolding keeps_steps_def by (metis snd_conv)
    with 1 [of r g] step show ?case
      by (subst write_file.simps) (cases r; auto)
  qed
  then show ?thesis by (simp add: keeps_steps_def)
qed

lemma keeps_files [keeps_intros]: "keeps_steps (file_create p)" "keeps_steps (fs_rename p q)"
  unfolding file_create_def fs_rename_def by (intro keeps_intros)+

lemma keeps_save [keeps_intros]:
  "keeps_steps (save_circuit_state hex A B state p k)" "keeps_steps (save_circuit_store_auth hex A C auth p k)"
  unfolding save_circuit_state_def save_circuit_store_auth_def circuit_state_save_encrypted_atomic_def
    store_auth_save_encrypted_atomic_def save_atomic_def save_encrypted_atomic_def Let_def
  by (intro keeps_intros)+

text \<open>The files of a table have different names, and no temporary file is one of them.\<close>

definition paths_ok :: "output_paths \<Rightarrow> bool" where
  "paths_ok paths \<longleftrightarrow> (\<exists>name. file_name (op_state paths) = Some name) \<and>
     (\<exists>name. file_name (op_auth_state paths) = Some name) \<and>
     op_auth_state paths \<noteq> op_state paths \<and> tmp_path (op_auth_state paths) \<noteq> op_state paths \<and>
     tmp_path (op_state paths) \<noteq> op_auth_state paths"

lemma output_paths_ok: "paths_ok (output_paths_for dir label)"
proof -
  let ?p = "output_paths_for dir label"
  have names: "file_name (op_state ?p) = Some (label @ ''.state'')"
    "file_name (op_auth_state ?p) = Some (label @ ''.auth.state'')"
    by (auto simp: file_name_def output_paths_for_def append_eq_Cons_conv)
  have "tmp_path (op_auth_state ?p) = dir @ [label @ ''.auth.state.tmp'']"
    using tmp_path_eq [OF names(2)] by (simp add: output_paths_for_def)
  moreover have "tmp_path (op_state ?p) = dir @ [label @ ''.state.tmp'']"
    using tmp_path_eq [OF names(1)] by (simp add: output_paths_for_def)
  ultimately show ?thesis using names by (simp add: paths_ok_def output_paths_for_def)
qed

lemma flush_durable:
  assumes "ctl_ok T lay key" and "serves (ctl_env T) (ctl_views T lay ids key) D n oram"
  shows "\<exists>oram'. oram_flush (ctl_env T) oram = (Inr (), oram') \<and>
    serves (ctl_env T) (ctl_views T lay ids key) D n oram' \<and> co_params oram' = co_params oram \<and> stores_durable T oram'"
proof -
  let ?E = "ctl_env T" and ?A = "ie_aead (ctl_images T)" and ?H = "ctl_sha256 T"
  have "serves ?E (ctl_views T lay ids key) D (op_cost Flush + n) oram" using assms(2) by simp
  from serves_run [OF this, of "[]" D] obtain oram' where o': "oram_flush ?E oram = (Inr (), oram')"
    "serves ?E (ctl_views T lay ids key) D n oram'" "co_params oram' = co_params oram"
    by (auto simp: bnd_Inr_iff comp_simps)
  have "oram_inv ?E (ctl_views T lay ids key) D oram" using assms(2) by (simp add: serves_def)
  note st = oram_inv_stores(1,2) [OF this, unfolded views_sel]
  obtain m q where f: "pp_flush (reopen_ops ?H ?A) (co_meta_store oram) = (Inr (), m)"
    "pp_flush (reopen_ops ?H ?A) (co_payload_store oram) = (Inr (), q)"
    "co_meta_store oram' = m" "co_payload_store oram' = q"
    using o'(1) by (auto simp: oram_flush_def bnd_Inr_iff zoom_Inr_iff env_sel)
  have "stores_durable T oram'"
    using table_libs.reopen_flush [OF ctl_ok_libs [OF assms(1)] conjunct1 [OF st(1)] f(1)]
      table_libs.reopen_flush [OF ctl_ok_libs [OF assms(1)] conjunct1 [OF st(2)] f(2)] f(3,4)
    by (simp add: stores_durable_def)
  with o' show ?thesis by blast
qed

lemma state_saved:
  assumes "ctl_ok T lay key" and "paths_ok paths" and "live h" and "encodes (ctl_state_codec T) state"
    and "cs_magic state = CIRCUIT_STATE_MAGIC"
  shows "\<exists>h'. save_circuit_state (ie_hex (ctl_images T)) (ie_aead (ctl_images T)) (ctl_state_codec T) state
      (op_state paths) (ctl_state_key_hex T) h = (Inr (), h') \<and> live h' \<and> state_on_disk T paths state h' \<and>
    h_files h' (op_auth_state paths) = h_files h (op_auth_state paths)"
proof -
  let ?I = "ctl_images T"
  obtain name where name: "file_name (op_state paths) = Some name" using assms(2) by (auto simp: paths_ok_def)
  obtain bytes where bytes: "bc_serialize (ctl_state_codec T) state = Some bytes" "length bytes < aead_message_limit"
    "bc_deserialize (ctl_state_codec T) bytes = Some state" using assms(4) by (auto simp: encodes_def)
  have ok: "aead_spec (ie_aead ?I)" "\<forall>k. ctl_state_key_hex T = Some k \<longrightarrow> (\<exists>key. parse_32_hex (ie_hex ?I) k = Inr key)"
    using assms(1) by (simp_all add: ctl_ok_def)
  obtain r h' where run: "save_circuit_state (ie_hex ?I) (ie_aead ?I) (ctl_state_codec T) state (op_state paths)
      (ctl_state_key_hex T) h = (r, h')" by fastforce
  from save_circuit_state_replaces [OF ok(1) name bytes assms(5) ok(2) run] obtain new where new:
    "replaces (op_state paths) new h r h'" "r = Inr ()"
    "\<forall>g. h_files g (op_state paths) = Some new \<longrightarrow> h_step g (h_calls g) \<noteq> None \<longrightarrow>
      fst (load_circuit_state (ie_hex ?I) (ie_aead ?I) (ctl_state_codec T) (op_state paths) (ctl_state_key_hex T) g) =
        Inr state"
    using assms(3) by blast
  have "h_files h' (op_state paths) = Some new" using new(1,2) by (simp add: replaces_def)
  moreover have "h_files h' (op_auth_state paths) = h_files h (op_auth_state paths)"
    using new(1) assms(2) by (auto simp: replaces_def paths_ok_def)
  moreover have "live h'" using keepsD [OF keeps_save(1) run assms(3)] .
  ultimately show ?thesis using run new(2,3) unfolding state_on_disk_def by blast
qed

lemma auth_written:
  assumes "ctl_ok T lay key" and "paths_ok paths" and "live h" and "encodes (ctl_auth_codec T) auth"
    and "sa_magic auth = CIRCUIT_STORE_AUTH_MAGIC"
  shows "\<exists>h'. save_circuit_store_auth (ie_hex (ctl_images T)) (ie_aead (ctl_images T)) (ctl_auth_codec T) auth
      (op_auth_state paths) (ctl_state_key_hex T) h = (Inr (), h') \<and> live h' \<and>
    h_files h' (op_state paths) = h_files h (op_state paths) \<and> auth_on_disk T paths auth h'"
proof -
  let ?I = "ctl_images T"
  obtain name where name: "file_name (op_auth_state paths) = Some name" using assms(2) by (auto simp: paths_ok_def)
  obtain bytes where bytes: "bc_serialize (ctl_auth_codec T) auth = Some bytes" "length bytes < aead_message_limit"
    "bc_deserialize (ctl_auth_codec T) bytes = Some auth" using assms(4) by (auto simp: encodes_def)
  have ok: "aead_spec (ie_aead ?I)" "\<forall>k. ctl_state_key_hex T = Some k \<longrightarrow> (\<exists>key. parse_32_hex (ie_hex ?I) k = Inr key)"
    using assms(1) by (simp_all add: ctl_ok_def)
  obtain r h' where run: "save_circuit_store_auth (ie_hex ?I) (ie_aead ?I) (ctl_auth_codec T) auth (op_auth_state paths)
      (ctl_state_key_hex T) h = (r, h')" by fastforce
  from save_circuit_store_auth_replaces [OF ok(1) name bytes assms(5) ok(2) run] obtain new where new:
    "replaces (op_auth_state paths) new h r h'" "r = Inr ()"
    "\<forall>g. h_files g (op_auth_state paths) = Some new \<longrightarrow> h_step g (h_calls g) \<noteq> None \<longrightarrow>
      fst (load_circuit_store_auth (ie_hex ?I) (ie_aead ?I) (ctl_auth_codec T) (op_auth_state paths) (ctl_state_key_hex T) g) =
        Inr auth"
    using assms(3) by blast
  moreover from new(1,2) have "h_files h' (op_auth_state paths) = Some new" by (simp add: replaces_def)
  ultimately have "auth_on_disk T paths auth h'" unfolding auth_on_disk_def by blast
  moreover have "h_files h' (op_state paths) = h_files h (op_state paths)"
    using new(1) assms(2) by (auto simp: replaces_def paths_ok_def)
  moreover have "live h'" using keepsD [OF keeps_save(2) run assms(3)] .
  ultimately show ?thesis using run new(2) by blast
qed

lemma auth_saved:
  assumes "ctl_ok T lay key" and "paths_ok paths" and "live h" and "encodes (ctl_auth_codec T) auth"
    and "sa_magic auth = CIRCUIT_STORE_AUTH_MAGIC" and "state_on_disk T paths state h"
  shows "\<exists>h'. save_circuit_store_auth (ie_hex (ctl_images T)) (ie_aead (ctl_images T)) (ctl_auth_codec T) auth
      (op_auth_state paths) (ctl_state_key_hex T) h = (Inr (), h') \<and> live h' \<and> state_on_disk T paths state h'"
  using auth_written [OF assms(1-5)] assms(6) by (auto simp: state_on_disk_def)

text \<open>What a save needs of the encoder: it handles this one state, and its authentication state.\<close>

definition savable :: "('c, 'h, 'r) oramctl \<Rightarrow> ('h reopen_store, 'h reopen_store, 'r) circuit_oram \<Rightarrow> bool" where
  "savable T oram \<longleftrightarrow> encodes (ctl_state_codec T) (snapshot (ctl_env T) oram) \<and>
     (\<forall>auth. oram_store_auth_state (ctl_env T) oram = Some auth \<longrightarrow> encodes (ctl_auth_codec T) auth)"

lemma store_auth_magic:
  "store_auth_state_from_stores mo m po q = Some auth \<Longrightarrow> sa_magic auth = CIRCUIT_STORE_AUTH_MAGIC"
  by (auto simp: store_auth_state_from_stores_def store_auth_new_def store_auth_new_embedded_def split: option.splits)

lemma save_session_ok:
  assumes ok: "ctl_ok T lay key" "paths_ok paths" "live (se_host s)"
    and oram: "serves (ctl_env T) (ctl_views T lay ids key) D n (se_oram s)"
    and fl: "oram_flush (ctl_env T) (se_oram s) = (Inr (), oram)"
    and enc: "\<not> ctl_no_save T \<Longrightarrow> savable T oram"
  shows "\<exists>h. save_session T paths s = (Inr (), s\<lparr>se_oram := oram, se_host := h\<rparr>) \<and> live h \<and>
    (ctl_no_save T \<or> state_on_disk T paths (snapshot (ctl_env T) oram) h)"
proof (cases "ctl_no_save T")
  case True
  with fl ok(3) show ?thesis
    by (intro exI [of _ "se_host s"]) (simp add: save_session_def Let_def comp_simps)
next
  case False
  let ?E = "ctl_env T" and ?A = "ie_aead (ctl_images T)" and ?H = "ctl_sha256 T" and ?V = "ctl_views T lay ids key"
  have enc: "encodes (ctl_state_codec T) (snapshot ?E oram)"
    "\<And>auth. oram_store_auth_state ?E oram = Some auth \<Longrightarrow> encodes (ctl_auth_codec T) auth"
    using enc [OF False] by (simp_all add: savable_def)
  have "cs_magic (snapshot ?E oram) = CIRCUIT_STATE_MAGIC"
    by (simp add: snapshot_def with_auth_def circuit_state_new_def)
  from state_saved [OF ok enc(1) this] obtain h1 where h1: "save_circuit_state (ie_hex (ctl_images T)) ?A (ctl_state_codec T)
      (snapshot ?E oram) (op_state paths) (ctl_state_key_hex T) (se_host s) = (Inr (), h1)" "live h1"
    "state_on_disk T paths (snapshot ?E oram) h1" by blast
  show ?thesis
  proof (cases "ctl_auth_store T")
    case no: False
    with h1 fl False show ?thesis by (intro exI [of _ h1]) (simp add: save_session_def Let_def comp_simps)
  next
    case True
    then have lay: "lay \<noteq> None" using ok(1) by (simp add: ctl_ok_def)
    have "oram_inv ?E ?V D oram"
      using flush_durable [OF ok(1) oram] fl by (auto simp: serves_def)
    note st = oram_inv_stores(1,2) [OF this, unfolded views_sel]
    obtain auth where auth: "oram_store_auth_state ?E oram = Some auth"
      using auth_of_config [OF conjunct2 [OF st(1)] conjunct2 [OF st(2)], of ?H ?A] lay
      by (auto simp: oram_store_auth_state_def env_sel)
    then have "sa_magic auth = CIRCUIT_STORE_AUTH_MAGIC" by (simp add: oram_store_auth_state_def store_auth_magic)
    from auth_saved [OF ok(1,2) h1(2) enc(2) [OF auth] this h1(3)] obtain h2 where
      h2: "save_circuit_store_auth (ie_hex (ctl_images T)) ?A (ctl_auth_codec T) auth (op_auth_state paths)
        (ctl_state_key_hex T) h1 = (Inr (), h2)" "live h2" "state_on_disk T paths (snapshot ?E oram) h2" by blast
    with h1 fl False True auth show ?thesis
      by (intro exI [of _ h2]) (simp add: save_session_def Let_def comp_simps)
  qed
qed

text \<open>A session that ends with a save leaves a table; without one it still ends well.\<close>

lemma close_session_ok:
  assumes ok: "ctl_ok T lay key" "paths_ok paths" "live (se_host s)"
    and oram: "serves (ctl_env T) (ctl_views T lay ids key) D n (se_oram s)" "co_params (se_oram s) = p"
    and enc: "\<And>oram. oram_flush (ctl_env T) (se_oram s) = (Inr (), oram) \<Longrightarrow> \<not> ctl_no_save T \<Longrightarrow> savable T oram"
  shows "\<exists>report d'. close_session (bnd (save_session T paths) (\<lambda>_. finish_report T c pb y) s) d = (Inr report, d') \<and>
    rp_verified report = ty_verified y \<and> rp_drained_evictions report = ty_drained y \<and>
    rp_checksum report = ty_checksum y \<and> (\<not> ctl_no_save T \<longrightarrow> table_on_disk T lay ids key paths p D n d')"
proof -
  obtain oram where o: "oram_flush (ctl_env T) (se_oram s) = (Inr (), oram)"
    "serves (ctl_env T) (ctl_views T lay ids key) D n oram" "co_params oram = p" "stores_durable T oram"
    using flush_durable [OF ok(1) oram(1)] oram(2) by auto
  obtain h where h: "save_session T paths s = (Inr (), s\<lparr>se_oram := oram, se_host := h\<rparr>)" "live h"
    "ctl_no_save T \<or> state_on_disk T paths (snapshot (ctl_env T) oram) h"
    using save_session_ok [OF ok oram(1) o(1) enc [OF o(1)]] by blast
  have "schedule_ok (co_schedule oram)" using o(2) by (simp add: serves_def schedule_room_def)
  then obtain k where "pending_evictions (co_schedule oram) = Inr k" using pending_evictions_ok by blast
  then show ?thesis
    using h o(2-4)
    by (auto simp: close_session_def finish_report_def table_on_disk_def comp_simps)
qed

end
