(* ===== verification/Build_Core.thy ===== *)
theory Build_Core
  imports Table_Build Session_Core Tiered_Theorems Embedded_Theorems
begin

text \<open>
  What a build goes through, below the controller: images created at their length, the data stores
  over them, and the authentication layouts built over the finished images.
\<close>

section \<open>Fresh images\<close>

text \<open>An image of \<open>n\<close> pages of \<open>k\<close> bytes that the cipher and the file offsets can handle.\<close>

definition image_fits :: "nat \<Rightarrow> nat \<Rightarrow> bool" where
  "image_fits n k \<longleftrightarrow> 0 < n \<and> 0 < k \<and> k < aead_message_limit \<and> n * (k + AEAD_OVERHEAD) < 2 ^ 64"

lemma file_fresh:
  assumes "0 < n" "0 < k" "n * k < 2 ^ 64" "fd_live f"
  shows "\<exists>s. file_open n k f = (Inr s, fs_file s) \<and> file_ok s \<and> fs_page_size s = k \<and> fs_page_count s = n"
  using assms file_open_run [OF assms(4,1,2)] by (auto simp: file_ok_def file_sized_def set_len_def fd_live_def Let_def)

context aead_spec
begin

lemma image_fresh:
  assumes "ie_aead I = A" and "key_opens I key" and "image_fits n k" and "fd_live (files slot)"
  shows "\<exists>s. open_sized_file_store I slot n k 0 full files = (Inr s, files(slot := image_file s)) \<and>
    image_ok A s \<and> image_durable A s \<and> image_key s = key \<and> ps_page_size (image_ops A) s = k \<and>
    ps_page_count (image_ops A) s = n"
proof -
  have nk: "0 < n" "0 < k" "k < aead_message_limit" "n * (k + AEAD_OVERHEAD) < 2 ^ 64"
    using assms(3) by (simp_all add: image_fits_def)
  show ?thesis
  proof (cases "ie_encrypted I")
    case False
    have "n * k \<le> n * (k + AEAD_OVERHEAD)" by simp
    with nk have "n * k < 2 ^ 64" by linarith
    from file_fresh [OF nk(1,2) this assms(4)] obtain s where s: "file_open n k (files slot) = (Inr s, fs_file s)" "file_ok s"
      "fs_page_size s = k" "fs_page_count s = n" by blast
    with open_slot_run [of n k files slot s] False assms(2) show ?thesis
      by (intro exI [of _ "Inl (Inl s)"])
        (simp add: open_sized_file_store_def open_backing_def comp_simps image_ok_def backing_ok_def image_durable_def
          image_key_def backing_key_def image_file_def backing_file_def image_ops_sel backing_ops_sel key_opens_def)
  next
    case True
    then obtain x where x: "parse_required_key (ie_hex I) (ie_key_hex I) = Inr x" "key = Some x"
      using assms(2) by (auto simp: key_opens_def)
    have "k + AEAD_OVERHEAD < 2 ^ 64" using nk(3) by (simp add: aead_message_limit_def AEAD_OVERHEAD_def)
    then have bytes: "backing_page_bytes k True = k + AEAD_OVERHEAD" by (simp add: backing_page_bytes_def)
    from file_fresh [OF nk(1) _ nk(4) assms(4)] nk(2) obtain s where s: "file_open n (k + AEAD_OVERHEAD) (files slot) = (Inr s, fs_file s)"
      "file_ok s" "fs_page_size s = k + AEAD_OVERHEAD" "fs_page_count s = n" by auto
    let ?a = "\<lparr>as_inner = s, as_cipher = x, as_plaintext_page_size = k, as_os_rng = ie_os_rng I\<rparr>"
    have "aead_new file_store_ops s x k (ie_os_rng I) = Inr ?a"
      using s(3) by (simp add: aead_new_def file_store_ops_def)
    with open_slot_run [of n "k + AEAD_OVERHEAD" files slot s] s True x nk(3) bytes show ?thesis
      by (intro exI [of _ "Inl (Inr ?a)"])
        (simp add: open_sized_file_store_def open_backing_def comp_simps image_ok_def backing_ok_def image_durable_def
          image_key_def backing_key_def image_file_def backing_file_def image_ops_sel backing_ops_sel key_opens_def
          aead_ok_def file_store_ops_def)
  qed
qed

end

section \<open>Data stores of a build\<close>

text \<open>
  Whether a data store is the logical prefix of an image, the key of that image, and the length of
  its pages.
\<close>

definition data_shape :: "'r data_store \<Rightarrow> auth_layout_arg \<times> bytes option \<times> nat" where
  "data_shape = case_sum (\<lambda>s. (SidecarArg, image_key s, 0))
     (\<lambda>s. (EmbeddedTreeArg, image_key (lp_inner s), lp_physical_page_size s))"

lemma page_frames_pair: "page_frames ps g \<Longrightarrow> page_frames ps h \<Longrightarrow> page_frames ps (\<lambda>s. (g s, h s))"
  by (simp add: page_frames_def frames_def)

lemma prefix_physical_frames: "page_frames (prefix_ops ps) lp_physical_page_size"
  unfolding page_frames_def prefix_ops_def prefix_read_page_def prefix_write_page_def
  by (auto intro!: frame_intros frames_zoom [where h = "\<lambda>_. ()"] simp: page_frames_def)

lemma data_shape_frames: "page_frames (data_ops A) data_shape"
proof -
  have "page_frames (image_ops A) (\<lambda>s. (SidecarArg, image_key s, 0 :: nat))"
    by (rule page_frames_comp [where f = "\<lambda>k. (SidecarArg, k, 0 :: nat)", OF image_frames])
  moreover have "page_frames (prefix_ops (image_ops A)) (\<lambda>s. (EmbeddedTreeArg, image_key (lp_inner s), lp_physical_page_size s))"
    by (rule page_frames_comp [where f = "\<lambda>x. (EmbeddedTreeArg, x)",
        OF page_frames_pair [OF prefix_frames [OF image_frames] prefix_physical_frames]])
  ultimately show ?thesis unfolding data_ops_def data_shape_def by (rule either_frames)
qed

abbreviation shape_of :: "auth_layout_arg \<Rightarrow> bytes option \<Rightarrow> nat \<Rightarrow> auth_layout_arg \<times> bytes option \<times> nat" where
  "shape_of layout key k \<equiv>
     (layout, key, case layout of SidecarArg \<Rightarrow> 0 | EmbeddedTreeArg \<Rightarrow> k + EMBEDDED_TREE_AUTH_BYTES_PER_PAGE)"

definition data_fresh :: "'r aead_lib \<Rightarrow> auth_layout_arg \<Rightarrow> bytes option \<Rightarrow> nat \<Rightarrow> nat \<Rightarrow> 'r data_store \<Rightarrow> bool" where
  "data_fresh A layout key n k d \<longleftrightarrow> data_ok A d \<and> data_shape d = shape_of layout key k \<and>
     ps_page_count (data_ops A) d = n \<and> ps_page_size (data_ops A) d = k"

lemma live_image:
  "image_ok A s \<Longrightarrow> fd_live (image_file s)"
  by (cases s) (auto simp: image_ok_def image_file_def backing_ok_def backing_file_def file_ok_def aead_ok_def fc_ok_def
      split: sum.splits)

lemma fits_embedded:
  "image_fits n (k + EMBEDDED_TREE_AUTH_BYTES_PER_PAGE) \<Longrightarrow> 0 < k \<Longrightarrow>
    image_fits n k \<and> auth_plaintext_page_bytes k layout = (case layout of SidecarArg \<Rightarrow> k
      | EmbeddedTreeArg \<Rightarrow> k + EMBEDDED_TREE_AUTH_BYTES_PER_PAGE)"
proof -
  assume f: "image_fits n (k + EMBEDDED_TREE_AUTH_BYTES_PER_PAGE)" "0 < k"
  have "n * (k + AEAD_OVERHEAD) \<le> n * (k + EMBEDDED_TREE_AUTH_BYTES_PER_PAGE + AEAD_OVERHEAD)" by simp
  moreover have "n * (k + EMBEDDED_TREE_AUTH_BYTES_PER_PAGE + AEAD_OVERHEAD) < 2 ^ 64" "k < aead_message_limit"
    using f by (simp_all add: image_fits_def)
  ultimately have "n * (k + AEAD_OVERHEAD) < 2 ^ 64" by linarith
  moreover have "k + EMBEDDED_TREE_AUTH_BYTES_PER_PAGE < 2 ^ 64"
    using f by (simp add: image_fits_def aead_message_limit_def)
  ultimately show ?thesis using f
    by (cases layout) (simp_all add: image_fits_def auth_plaintext_page_bytes_def)
qed

context aead_spec
begin

text \<open>The two data stores a build opens, and the files they are on.\<close>

lemma build_stores:
  fixes p
  defines "mk \<equiv> circuit_meta_page_bytes (bucket_size p)" and "pk \<equiv> circuit_payload_page_bytes (bucket_size p) (block_size p)"
  assumes "ie_aead I = A" and "key_opens I key" and "0 < mk" "0 < pk"
    and "image_fits (bucket_count p) (mk + EMBEDDED_TREE_AUTH_BYTES_PER_PAGE)"
    and "image_fits (bucket_count p) (pk + EMBEDDED_TREE_AUTH_BYTES_PER_PAGE)"
    and "fd_live (files MetaImage)" "fd_live (files PayloadImage)"
  shows "\<exists>m q f g. open_circuit_file_stores I p 0 False layout files = (Inr (m, q), files(MetaImage := f, PayloadImage := g)) \<and>
    data_fresh A layout key (bucket_count p) mk m \<and> data_fresh A layout key (bucket_count p) pk q"
proof -
  let ?n = "bucket_count p"
  have fits: "image_fits ?n (auth_plaintext_page_bytes mk layout)" "image_fits ?n (auth_plaintext_page_bytes pk layout)"
    using fits_embedded [OF assms(7,5), of layout] fits_embedded [OF assms(8,6), of layout] assms(7,8)
    by (cases layout; simp)+
  obtain m where m: "open_sized_file_store I MetaImage ?n (auth_plaintext_page_bytes mk layout) 0 False files =
      (Inr m, files(MetaImage := image_file m))" "image_ok A m" "image_key m = key"
    "ps_page_size (image_ops A) m = auth_plaintext_page_bytes mk layout" "ps_page_count (image_ops A) m = ?n"
    using image_fresh [where slot = MetaImage and full = False and files = files, OF assms(3,4) fits(1) assms(9)] by blast
  have "fd_live ((files(MetaImage := image_file m)) PayloadImage)" using assms(10) by simp
  from image_fresh [where slot = PayloadImage and full = False and files = "files(MetaImage := image_file m)", OF assms(3,4) fits(2) this] obtain q where
    q: "open_sized_file_store I PayloadImage ?n (auth_plaintext_page_bytes pk layout) 0 False (files(MetaImage := image_file m)) =
      (Inr q, files(MetaImage := image_file m, PayloadImage := image_file q))" "image_ok A q" "image_key q = key"
    "ps_page_size (image_ops A) q = auth_plaintext_page_bytes pk layout" "ps_page_count (image_ops A) q = ?n" by auto
  show ?thesis
  proof (cases layout)
    case SidecarArg
    with m q assms(3) show ?thesis
      by (intro exI [of _ "Inl m"] exI [of _ "Inl q"] exI [of _ "image_file m"] exI [of _ "image_file q"])
        (simp add: open_circuit_file_stores_def Let_def comp_simps mk_def pk_def data_fresh_def data_ok_def data_shape_def
          data_ops_sel auth_plaintext_page_bytes_def)
  next
    case EmbeddedTreeArg
    have sz: "auth_plaintext_page_bytes mk layout = mk + EMBEDDED_TREE_AUTH_BYTES_PER_PAGE"
      "auth_plaintext_page_bytes pk layout = pk + EMBEDDED_TREE_AUTH_BYTES_PER_PAGE"
      using fits_embedded [OF assms(7,5), of layout] fits_embedded [OF assms(8,6), of layout] EmbeddedTreeArg by simp_all
    let ?m = "\<lparr>lp_inner = m, lp_logical_page_size = mk, lp_physical_page_size = ps_page_size (image_ops A) m\<rparr>"
      and ?q = "\<lparr>lp_inner = q, lp_logical_page_size = pk, lp_physical_page_size = ps_page_size (image_ops A) q\<rparr>"
    have "prefix_new (image_ops A) m mk = Inr ?m" "prefix_new (image_ops A) q pk = Inr ?q"
      using m(4) q(4) sz assms(5,6) by (simp_all add: prefix_new_def Let_def)
    then have "open_circuit_file_stores I p 0 False layout files =
        (Inr (Inr ?m, Inr ?q), files(MetaImage := image_file m, PayloadImage := image_file q))"
      using m(1) q(1) assms(3) EmbeddedTreeArg
      by (simp add: open_circuit_file_stores_def Let_def comp_simps mk_def [symmetric] pk_def [symmetric])
    moreover have "data_fresh A layout key ?n mk (Inr ?m)" "data_fresh A layout key ?n pk (Inr ?q)"
      using m q sz EmbeddedTreeArg
      by (simp_all add: data_fresh_def data_ok_def lp_ok_def data_shape_def data_ops_sel)
    ultimately show ?thesis by blast
  qed
qed

text \<open>The contract of a build's data store, its shape included.\<close>

lemma shaped_spec: "page_store_spec (data_ops A) (\<lambda>d. data_ok A d \<and> data_shape d = sh) (data_pages A)"
  by (rule page_store_spec.page_store_fixed [OF data_spec data_shape_frames])

lemma shaped_flush:
  assumes "data_ok A d" and "data_shape d = sh"
  shows "\<exists>d'. ps_flush (data_ops A) d = (Inr (), d') \<and> data_ok A d' \<and> data_shape d' = sh \<and> data_durable A d' \<and>
    ps_page_count (data_ops A) d' = ps_page_count (data_ops A) d \<and> ps_page_size (data_ops A) d' = ps_page_size (data_ops A) d \<and>
    data_pages A d' = data_pages A d"
  using page_store_spec.flush [OF shaped_spec, of d sh] assms data_flush [OF assms(1)] by (fastforce simp: kept_def)

text \<open>What a finished data store is: every page there, all of it in the file.\<close>

definition data_built :: "auth_layout_arg \<Rightarrow> bytes option \<Rightarrow> nat \<Rightarrow> nat \<Rightarrow> 'r data_store \<Rightarrow> bool" where
  "data_built layout key n k d \<longleftrightarrow> data_fresh A layout key n k d \<and> data_durable A d \<and> 0 < n \<and>
     (\<forall>i < n. data_pages A d i \<noteq> None)"

end

context table_libs
begin

lemma built_plain:
  assumes "data_built SidecarArg key n k d"
  obtains s where "d = Inl s" "reopen_full H A n k (ReopenPlain (Inl s))" "image_key s = key"
  using assms
  by (cases d) (auto simp: data_built_def data_fresh_def data_shape_def reopen_full_def reopen_ok_def reopen_durable_def
      reopen_ops_sel reopen_pages_def data_pages_def)

lemma built_left:
  assumes "data_built layout key n k d" and "key_opens I key" and "files slot = data_file d"
    and "k + EMBEDDED_TREE_AUTH_BYTES_PER_PAGE < 2 ^ 64"
  obtains s where "left_at I files slot n (auth_plaintext_page_bytes k layout) s" "image_key s = key"
    "layout = SidecarArg \<Longrightarrow> d = Inl s" "data_file d = image_file s"
    "data_pages A d = (\<lambda>i. map_option (take k) (image_pages A s i))"
proof (cases d)
  case (Inl s)
  with assms(1) have s: "layout = SidecarArg" "image_key s = key" "image_ok A s" "image_durable A s" "0 < n"
    "ps_page_count (image_ops A) s = n" "ps_page_size (image_ops A) s = k" "\<forall>i < n. image_pages A s i \<noteq> None"
    by (auto simp: data_built_def data_fresh_def data_shape_def data_ok_def data_durable_def data_ops_sel data_pages_def
        split: auth_layout_arg.splits)
  have "map_option (take k) (image_pages A s i) = image_pages A s i" for i
    using page_io.page_length [OF page_store_spec.axioms(1) [OF image_spec] s(3), of i] s(7)
    by (cases "image_pages A s i") auto
  with s Inl assms(2,3) show ?thesis
    by (intro that [of s]) (auto simp: left_at_def data_file_def auth_plaintext_page_bytes_def data_pages_def)
next
  case (Inr s)
  with assms(1) have s: "layout = EmbeddedTreeArg" "image_key (lp_inner s) = key" "lp_ok (image_ops A) (image_ok A) s"
    "image_durable A (lp_inner s)" "0 < n" "ps_page_count (image_ops A) (lp_inner s) = n" "lp_logical_page_size s = k"
    "lp_physical_page_size s = k + EMBEDDED_TREE_AUTH_BYTES_PER_PAGE" "\<forall>i < n. image_pages A (lp_inner s) i \<noteq> None"
    by (auto simp: data_built_def data_fresh_def data_shape_def data_ok_def data_durable_def data_ops_sel data_pages_def
        lp_contents_def split: auth_layout_arg.splits)
  have "data_pages A d = (\<lambda>i. map_option (take k) (image_pages A (lp_inner s) i))"
    using Inr s(7) by (simp add: data_pages_def lp_contents_def fun_eq_iff)
  with s Inr assms(2-4) show ?thesis
    by (intro that [of "lp_inner s"]) (auto simp: left_at_def lp_ok_def data_file_def auth_plaintext_page_bytes_def)
qed

end

section \<open>Hash images\<close>

context page_store_spec
begin

lemma write_everywhere:
  assumes "ok s" and "\<forall>i \<in> set is. i < ps_page_count ps s" and "length p = ps_page_size ps s"
  shows "\<exists>s'. citer (\<lambda>i. ps_write_page ps i p) is s = (Inr (), s') \<and> kept ok (ps_page_size ps) (ps_page_count ps) s s' \<and>
    (\<forall>i. i \<in> set is \<or> pages s i \<noteq> None \<longrightarrow> pages s' i \<noteq> None)"
  using assms
proof (induction "is" arbitrary: s)
  case Nil
  then show ?case by (simp add: comp_simps kept_def)
next
  case (Cons i "is")
  obtain s1 where s1: "ps_write_page ps i p s = (Inr (), s1)" "kept ok (ps_page_size ps) (ps_page_count ps) s s1"
    "pages s1 = (pages s)(i \<mapsto> p)"
    using write_page [of s i p] Cons.prems by auto
  note k = keptD [OF s1(2)]
  obtain s2 where s2: "citer (\<lambda>i. ps_write_page ps i p) is s1 = (Inr (), s2)"
    "kept ok (ps_page_size ps) (ps_page_count ps) s1 s2"
    "\<forall>j. j \<in> set is \<or> pages s1 j \<noteq> None \<longrightarrow> pages s2 j \<noteq> None"
    using Cons.IH [of s1] Cons.prems k by auto
  with s1 show ?case by (auto simp: bnd_Inr intro: kept_trans)
qed

lemma zero_page_store_ok:
  assumes "ok s"
  shows "\<exists>s'. zero_page_store ps s = (Inr (), s') \<and> kept ok (ps_page_size ps) (ps_page_count ps) s s' \<and>
    (\<forall>i < ps_page_count ps s. pages s' i \<noteq> None)"
proof -
  obtain s1 where s1: "citer (\<lambda>i. ps_write_page ps i (replicate (ps_page_size ps s) 0)) [0..<ps_page_count ps s] s = (Inr (), s1)"
    "kept ok (ps_page_size ps) (ps_page_count ps) s s1" "\<forall>i < ps_page_count ps s. pages s1 i \<noteq> None"
    using write_everywhere [OF assms, of "[0..<ps_page_count ps s]" "replicate (ps_page_size ps s) 0"] by auto
  obtain s2 where "ps_flush ps s1 = (Inr (), s2)" "kept ok (ps_page_size ps) (ps_page_count ps) s1 s2" "pages s2 = pages s1"
    using flush [of s1] keptD [OF s1(2)] by auto
  with s1 show ?thesis by (auto simp: zero_page_store_def comp_simps intro: kept_trans)
qed

end

context table_libs
begin

lemma image_fixed_spec: "page_store_spec (image_ops A) (\<lambda>s. image_ok A s \<and> image_key s = key) (image_pages A)"
  by (rule page_store_spec.page_store_fixed [OF image_spec image_frames])

text \<open>A hash image, created and filled with zeros.\<close>

lemma hash_fresh:
  assumes "ie_aead I = A" and "key_opens I key" and "image_fits n k" and "fd_live (files slot)"
  shows "\<exists>s s' f. open_sized_file_store I slot n k 0 False files = (Inr s, files(slot := f)) \<and>
    run_owned (zero_page_store (image_ops A)) s = Inr ((), s') \<and>
    image_ok A s' \<and> image_key s' = key \<and> ps_page_size (image_ops A) s' = k \<and>
    ps_page_count (image_ops A) s' = n \<and> (\<forall>i < n. image_pages A s' i \<noteq> None)"
proof -
  obtain s where s: "open_sized_file_store I slot n k 0 False files = (Inr s, files(slot := image_file s))"
    "image_ok A s \<and> image_key s = key" "ps_page_size (image_ops A) s = k" "ps_page_count (image_ops A) s = n"
    using image_fresh [where files = files and slot = slot and full = False, OF assms] by blast
  with page_store_spec.zero_page_store_ok [OF image_fixed_spec s(2)] show ?thesis
    by (auto simp: run_owned_def kept_def)
qed

text \<open>A flush of a complete reopened store.\<close>

lemma stack_flush:
  assumes "reopen_ok H A s" and "stack_config s = c"
  shows "\<exists>s'. pp_flush (reopen_ops H A) s = (Inr (), s') \<and> reopen_ok H A s' \<and> stack_config s' = c \<and> reopen_durable A s' \<and>
    pp_page_size (reopen_ops H A) s' = pp_page_size (reopen_ops H A) s \<and>
    pp_page_count (reopen_ops H A) s' = pp_page_count (reopen_ops H A) s \<and> reopen_pages A s' = reopen_pages A s"
  using path_store_spec.flush_paths [OF reopen_fixed_spec, of s c] assms reopen_flush [OF assms(1)]
  by (fastforce simp: kept_def)

lemma td_ok_fixed:
  "td_ok H ps (\<lambda>s. ok s \<and> g s = a) pgs hs (\<lambda>s. okh s \<and> h s = b) hpgs t \<longleftrightarrow>
     td_ok H ps ok pgs hs okh hpgs t \<and> g (td_inner t) = a \<and> h (td_hash_store t) = b"
  by (auto simp: td_ok_def td_honest_def td_shape_def)

lemma sidecar_built:
  assumes m: "left_at I files slot n k m" "image_key m = key" and h: "image_ok A h" "image_key h = key"
    "ps_page_count (image_ops A) h = need" "\<forall>i < need. image_pages A h i \<noteq> None"
    and "required_hash_pages n (ps_page_size (image_ops A) h) lv = Inr need" "0 < need" "0 < k"
  shows "\<exists>t t'. tiered_build H (data_ops A) (image_ops A) (Inl m) h sid lv = Inr t \<and>
    run_owned (ps_flush (tiered_ops H (data_ops A) (image_ops A))) t = Inr ((), t') \<and>
    reopen_full H A n k (ReopenSidecar t') \<and> stack_config (ReopenSidecar t') = config_of (Some SidecarArg) sid key \<and>
    reopen_pages A (ReopenSidecar t') = image_pages A m"
proof -
  have m': "data_ok A (Inl m) \<and> data_key (Inl m) = Some key" "ps_page_count (data_ops A) (Inl m) = n"
    "ps_page_size (data_ops A) (Inl m) = k" "\<forall>i < n. data_pages A (Inl m) i \<noteq> None" "0 < n"
    using m by (auto simp: left_at_def data_ok_def data_key_def data_ops_sel data_pages_def)
  obtain t where t: "tiered_build H (data_ops A) (image_ops A) (Inl m) h sid lv = Inr t"
    "td_ok H (data_ops A) (\<lambda>d. data_ok A d \<and> data_key d = Some key) (data_pages A)
      (image_ops A) (\<lambda>s. image_ok A s \<and> image_key s = key) (image_pages A) t"
    "td_contents (data_pages A) t = data_pages A (Inl m)" "td_store_id t = sid" "td_required t = need"
    "td_page_count t = n" "td_page_size t = k"
    using tiered_build_spec [OF sha256_spec_axioms page_store_spec.page_store_fixed [OF data_spec data_frames]
        image_fixed_spec m'(1) conjI [OF h(1,2)], where levels = lv and need = need and store_id = sid]
      m' h assms(7-9) by auto
  from t(2) have ok: "reopen_ok H A (ReopenSidecar t)" and key: "data_key (td_inner t) = Some key" "image_key (td_hash_store t) = key"
    and lay: "td_layout (image_ops A) t"
    by (simp_all add: td_ok_fixed reopen_ok_def) (simp add: td_ok_def td_honest_def td_shape_def)
  have config: "stack_config (ReopenSidecar t) = config_of (Some SidecarArg) sid key"
    using key t(4,5) assms(8) by simp
  have dims: "pp_page_size (reopen_ops H A) (ReopenSidecar t) = k" "pp_page_count (reopen_ops H A) (ReopenSidecar t) = n"
    "reopen_pages A (ReopenSidecar t) = image_pages A m"
    using t(3,6,7) by (simp_all add: reopen_ops_sel reopen_pages_def data_pages_def)
  obtain s where s: "pp_flush (reopen_ops H A) (ReopenSidecar t) = (Inr (), s)" "reopen_ok H A s"
    "stack_config s = config_of (Some SidecarArg) sid key" "reopen_durable A s" "pp_page_size (reopen_ops H A) s = k"
    "pp_page_count (reopen_ops H A) s = n" "reopen_pages A s = image_pages A m"
    using stack_flush [OF ok config] dims by auto
  obtain t' where t': "ps_flush (tiered_ops H (data_ops A) (image_ops A)) t = (Inr (), t')" "s = ReopenSidecar t'"
    using s(1) by (cases "ps_flush (tiered_ops H (data_ops A) (image_ops A)) t")
      (auto simp: reopen_ops_def dispatch_reopen_def path_of_page_store_def)
  have "reopen_full H A n k s" using s m'(4,5) by (simp add: reopen_full_def data_pages_def)
  with t(1) t' s show ?thesis by (auto simp: run_owned_def)
qed

section \<open>The authentication layouts over finished images\<close>

lemma es_ok_fixed:
  "es_ok H ps (\<lambda>s. ok s \<and> g s = a) pgs e \<longleftrightarrow> es_ok H ps ok pgs e \<and> g (es_inner e) = a"
  by (auto simp: es_ok_def es_rep_def)

lemma embedded_built:
  assumes m: "left_at I files slot n (k + EMBEDDED_TREE_AUTH_BYTES_PER_PAGE) m" "image_key m = key" and "0 < k"
  shows "\<exists>e e'. embedded_build H (image_ops A) m sid k = Inr e \<and>
    run_owned (pp_flush (embedded_ops H (image_ops A))) e = Inr ((), e') \<and>
    reopen_full H A n k (ReopenEmbedded e') \<and> stack_config (ReopenEmbedded e') = config_of (Some EmbeddedTreeArg) sid key \<and>
    reopen_pages A (ReopenEmbedded e') = (\<lambda>i. map_option (take k) (image_pages A m i))"
proof -
  have m': "image_ok A m \<and> image_key m = key" "ps_page_count (image_ops A) m = n"
    "ps_page_size (image_ops A) m = physical_page_size_for k" "\<forall>i < n. image_pages A m i \<noteq> None" "0 < n"
    using m by (simp_all add: left_at_def physical_page_size_for_def)
  have over: "embedded_over H (image_ops A) (\<lambda>s. image_ok A s \<and> image_key s = key) (image_pages A)"
    by (simp add: embedded_over_def sha256_spec_axioms image_fixed_spec)
  define D where "D = (\<lambda>i. if i < n then take k (the (image_pages A m i)) else replicate k 0)"
  obtain e where e: "embedded_build H (image_ops A) m sid k = Inr e"
    "es_rep H (image_ops A) (\<lambda>s. image_ok A s \<and> image_key s = key) (image_pages A) D e"
    "es_page_count e = n" "es_logical_page_size e = k" "es_store_id e = sid"
    using embedded_over.embedded_build_spec [OF over m'(1) assms(3) m'(3), of D sid] m' D_def by auto
  have ok: "reopen_ok H A (ReopenEmbedded e)" and key: "image_key (es_inner e) = key"
    using e(2) by (auto simp: reopen_ok_def es_ok_def es_rep_def)
  have config: "stack_config (ReopenEmbedded e) = config_of (Some EmbeddedTreeArg) sid key" using key e(5) by simp
  have pages: "reopen_pages A (ReopenEmbedded e) = (\<lambda>i. map_option (take k) (image_pages A m i))"
  proof
    fix i
    show "reopen_pages A (ReopenEmbedded e) i = map_option (take k) (image_pages A m i)"
    proof (cases "i < n")
      case True
      with m'(4) obtain x where "image_pages A m i = Some x" by auto
      with True show ?thesis
        using embedded_over.es_contents_rep [OF over e(2), of i] e(3) by (simp add: reopen_pages_def D_def)
    next
      case False
      then have "image_pages A m i = None"
        using page_io.page_index [OF page_store_spec.axioms(1) [OF image_spec], of m i] m'(1,2)
        by (cases "image_pages A m i") auto
      with False show ?thesis
        using embedded_over.es_contents_rep [OF over e(2), of i] e(3) by (simp add: reopen_pages_def)
    qed
  qed
  have dims: "pp_page_size (reopen_ops H A) (ReopenEmbedded e) = k" "pp_page_count (reopen_ops H A) (ReopenEmbedded e) = n"
    using e(3,4) by (simp_all add: reopen_ops_sel)
  obtain s where s: "pp_flush (reopen_ops H A) (ReopenEmbedded e) = (Inr (), s)" "reopen_ok H A s"
    "stack_config s = config_of (Some EmbeddedTreeArg) sid key" "reopen_durable A s" "pp_page_size (reopen_ops H A) s = k"
    "pp_page_count (reopen_ops H A) s = n" "reopen_pages A s = (\<lambda>i. map_option (take k) (image_pages A m i))"
    using stack_flush [OF ok config] dims pages by auto
  obtain e' where e': "pp_flush (embedded_ops H (image_ops A)) e = (Inr (), e')" "s = ReopenEmbedded e'"
    using s(1) by (cases "pp_flush (embedded_ops H (image_ops A)) e") (auto simp: reopen_ops_def dispatch_reopen_def)
  have "reopen_full H A n k s" using s m'(4,5) by (simp add: reopen_full_def)
  with e(1) e' s show ?thesis by (auto simp: run_owned_def)
qed

lemma sidecar_auth_built:
  fixes p
  defines "n \<equiv> bucket_count p" and "mk \<equiv> circuit_meta_page_bytes (bucket_size p)"
    and "pk \<equiv> circuit_payload_page_bytes (bucket_size p) (block_size p)"
  assumes I: "ie_aead I = A" "key_opens I key" and m: "data_built SidecarArg key n mk m" "files MetaImage = data_file m"
    and q: "data_built SidecarArg key n pk q" "files PayloadImage = data_file q"
    and k: "0 < mk" "mk + EMBEDDED_TREE_AUTH_BYTES_PER_PAGE < 2 ^ 64" "0 < pk" "pk + EMBEDDED_TREE_AUTH_BYTES_PER_PAGE < 2 ^ 64"
    and h: "fd_live (files MetaHashImage)" "fd_live (files PayloadHashImage)"
    "required_hash_pages n hps lv = Inr need" "0 < need" "image_fits need hps"
  shows "\<exists>M Q files' auth. build_sidecar_store_auth H I sid p 0 lv hps files = (Inr auth, close_stores M Q files') \<and>
    reopen_full H A n mk M \<and> stack_config M = config_of (Some SidecarArg) (sid MetaStore) key \<and>
    reopen_pages A M = data_pages A m \<and>
    reopen_full H A n pk Q \<and> stack_config Q = config_of (Some SidecarArg) (sid PayloadStore) key \<and>
    reopen_pages A Q = data_pages A q \<and>
    store_auth_state_from_stores (reopen_ops H A) M (reopen_ops H A) Q = Some auth"
proof -
  obtain x where x: "left_at I files MetaImage n (auth_plaintext_page_bytes mk SidecarArg) x" "image_key x = key"
    "m = Inl x" "data_file m = image_file x"
    using built_left [where files = files and slot = MetaImage, OF m(1) I(2) m(2) k(2)] by metis
  obtain y where y: "left_at I files PayloadImage n (auth_plaintext_page_bytes pk SidecarArg) y" "image_key y = key"
    "q = Inl y" "data_file q = image_file y"
    using built_left [where files = files and slot = PayloadImage, OF q(1) I(2) q(2) k(4)] by metis
  have "0 \<le> bucket_count p" by simp
  from open_left_pair [OF I(1) x(1) [unfolded n_def mk_def] y(1) [unfolded n_def pk_def] this] obtain x' y' f g where
    o': "same_image x x'" "same_image y y'"
      "open_circuit_file_stores I p 0 True SidecarArg files = (Inr (Inl x', Inl y'), files(MetaImage := f, PayloadImage := g))"
    by metis
  let ?f1 = "files(MetaImage := f, PayloadImage := g)"
  have "fd_live (?f1 MetaHashImage)" using h(1) by simp
  from hash_fresh [where files = ?f1 and slot = MetaHashImage, OF I h(5) this] obtain a a' fa where
    a: "open_sized_file_store I MetaHashImage need hps 0 False ?f1 = (Inr a, ?f1(MetaHashImage := fa))"
      "run_owned (zero_page_store (image_ops A)) a = Inr ((), a')" "image_ok A a'" "image_key a' = key"
      "ps_page_size (image_ops A) a' = hps" "ps_page_count (image_ops A) a' = need" "\<forall>i < need. image_pages A a' i \<noteq> None"
    by blast
  let ?f2 = "?f1(MetaHashImage := fa)"
  have "fd_live (?f2 PayloadHashImage)" using h(2) by simp
  from hash_fresh [where files = ?f2 and slot = PayloadHashImage, OF I h(5) this] obtain b b' fb where
    b: "open_sized_file_store I PayloadHashImage need hps 0 False ?f2 = (Inr b, ?f2(PayloadHashImage := fb))"
      "run_owned (zero_page_store (image_ops A)) b = Inr ((), b')" "image_ok A b'" "image_key b' = key"
      "ps_page_size (image_ops A) b' = hps" "ps_page_count (image_ops A) b' = need" "\<forall>i < need. image_pages A b' i \<noteq> None"
    by blast
  let ?f3 = "?f2(PayloadHashImage := fb)"
  have left: "left_at I (files(slot := image_file s')) slot n' k' s'" if "left_at I files slot n' k' s" "same_image s s'"
    for slot n' k' s s'
    using that by (auto simp: left_at_def same_image_def)
  have keys: "image_key x' = key" "image_key y' = key" using o'(1,2) x(2) y(2) by (simp_all add: same_image_def)
  have sizes: "auth_plaintext_page_bytes mk SidecarArg = mk" "auth_plaintext_page_bytes pk SidecarArg = pk"
    by (simp_all add: auth_plaintext_page_bytes_def)
  note bm = sidecar_built [OF left [OF x(1) o'(1), unfolded sizes] keys(1) a(3,4,6,7) h(3) [folded a(5)] h(4) k(1),
      of "sid MetaStore"]
  note bq = sidecar_built [OF left [OF y(1) o'(2), unfolded sizes] keys(2) b(3,4,6,7) h(3) [folded b(5)] h(4) k(3),
      of "sid PayloadStore"]
  obtain t t' where t: "tiered_build H (data_ops A) (image_ops A) (Inl x') a' (sid MetaStore) lv = Inr t"
    "run_owned (ps_flush (tiered_ops H (data_ops A) (image_ops A))) t = Inr ((), t')"
    "reopen_full H A n mk (ReopenSidecar t')" "stack_config (ReopenSidecar t') = config_of (Some SidecarArg) (sid MetaStore) key"
    "reopen_pages A (ReopenSidecar t') = image_pages A x'" using bm by blast
  obtain u u' where u: "tiered_build H (data_ops A) (image_ops A) (Inl y') b' (sid PayloadStore) lv = Inr u"
    "run_owned (ps_flush (tiered_ops H (data_ops A) (image_ops A))) u = Inr ((), u')"
    "reopen_full H A n pk (ReopenSidecar u')" "stack_config (ReopenSidecar u') = config_of (Some SidecarArg) (sid PayloadStore) key"
    "reopen_pages A (ReopenSidecar u') = image_pages A y'" using bq by blast
  let ?auth = "store_auth_new (trusted_state (image_ops A) t') (trusted_state (image_ops A) u')"
  have pages: "image_pages A x' = data_pages A m" "image_pages A y' = data_pages A q"
    using o'(1,2) x(3) y(3) by (simp_all add: same_image_def data_pages_def)
  have "build_sidecar_store_auth H I sid p 0 lv hps files = (Inr ?auth, close_stores (ReopenSidecar t') (ReopenSidecar u') ?f3)"
    using o'(3) a(1,2) b(1,2) t(1,2) u(1,2) h(3) I(1)
    by (simp add: build_sidecar_store_auth_def Let_def comp_simps tiered_hash_pages_def n_def)
  moreover have "store_auth_state_from_stores (reopen_ops H A) (ReopenSidecar t') (reopen_ops H A) (ReopenSidecar u') = Some ?auth"
    by (simp add: store_auth_state_from_stores_def reopen_ops_sel)
  ultimately show ?thesis using t(3-5) u(3-5) pages
    by (intro exI [of _ "ReopenSidecar t'"] exI [of _ "ReopenSidecar u'"] exI [of _ ?f3] exI [of _ ?auth]) simp
qed

lemma embedded_auth_built:
  fixes p
  defines "n \<equiv> bucket_count p" and "mk \<equiv> circuit_meta_page_bytes (bucket_size p)"
    and "pk \<equiv> circuit_payload_page_bytes (bucket_size p) (block_size p)"
  assumes I: "ie_aead I = A" "key_opens I key" and m: "data_built EmbeddedTreeArg key n mk m" "files MetaImage = data_file m"
    and q: "data_built EmbeddedTreeArg key n pk q" "files PayloadImage = data_file q"
    and k: "0 < mk" "mk + EMBEDDED_TREE_AUTH_BYTES_PER_PAGE < 2 ^ 64" "0 < pk" "pk + EMBEDDED_TREE_AUTH_BYTES_PER_PAGE < 2 ^ 64"
  shows "\<exists>M Q files' auth. build_circuit_embedded_store_auth H I sid p 0 files = (Inr auth, close_stores M Q files') \<and>
    reopen_full H A n mk M \<and> stack_config M = config_of (Some EmbeddedTreeArg) (sid MetaStore) key \<and>
    reopen_pages A M = data_pages A m \<and>
    reopen_full H A n pk Q \<and> stack_config Q = config_of (Some EmbeddedTreeArg) (sid PayloadStore) key \<and>
    reopen_pages A Q = data_pages A q \<and>
    store_auth_state_from_stores (reopen_ops H A) M (reopen_ops H A) Q = Some auth"
proof -
  obtain x where x: "left_at I files MetaImage n (auth_plaintext_page_bytes mk EmbeddedTreeArg) x" "image_key x = key"
    "data_pages A m = (\<lambda>i. map_option (take mk) (image_pages A x i))"
    using built_left [where files = files and slot = MetaImage, OF m(1) I(2) m(2) k(2)] by metis
  obtain y where y: "left_at I files PayloadImage n (auth_plaintext_page_bytes pk EmbeddedTreeArg) y" "image_key y = key"
    "data_pages A q = (\<lambda>i. map_option (take pk) (image_pages A y i))"
    using built_left [where files = files and slot = PayloadImage, OF q(1) I(2) q(2) k(4)] by metis
  have "0 \<le> bucket_count p" by simp
  from open_left_pair [OF I(1) x(1) [unfolded n_def mk_def] y(1) [unfolded n_def pk_def] this] obtain x' y' f g where
    o': "same_image x x'" "same_image y y'"
      "open_circuit_physical_file_stores I p 0 True EmbeddedTreeArg files = (Inr (x', y'), files(MetaImage := f, PayloadImage := g))"
    by metis
  have left: "left_at I (files(slot := image_file s')) slot n' k' s'" if "left_at I files slot n' k' s" "same_image s s'"
    for slot n' k' s s'
    using that by (auto simp: left_at_def same_image_def)
  have keys: "image_key x' = key" "image_key y' = key" using o'(1,2) x(2) y(2) by (simp_all add: same_image_def)
  have sizes: "auth_plaintext_page_bytes mk EmbeddedTreeArg = mk + EMBEDDED_TREE_AUTH_BYTES_PER_PAGE"
    "auth_plaintext_page_bytes pk EmbeddedTreeArg = pk + EMBEDDED_TREE_AUTH_BYTES_PER_PAGE"
    using k(2,4) by (simp_all add: auth_plaintext_page_bytes_def)
  note bm = embedded_built [OF left [OF x(1) o'(1), unfolded sizes] keys(1) k(1), of "sid MetaStore"]
  note bq = embedded_built [OF left [OF y(1) o'(2), unfolded sizes] keys(2) k(3), of "sid PayloadStore"]
  obtain t t' where t: "embedded_build H (image_ops A) x' (sid MetaStore) mk = Inr t"
    "run_owned (pp_flush (embedded_ops H (image_ops A))) t = Inr ((), t')"
    "reopen_full H A n mk (ReopenEmbedded t')"
    "stack_config (ReopenEmbedded t') = config_of (Some EmbeddedTreeArg) (sid MetaStore) key"
    "reopen_pages A (ReopenEmbedded t') = (\<lambda>i. map_option (take mk) (image_pages A x' i))" using bm by blast
  obtain u u' where u: "embedded_build H (image_ops A) y' (sid PayloadStore) pk = Inr u"
    "run_owned (pp_flush (embedded_ops H (image_ops A))) u = Inr ((), u')"
    "reopen_full H A n pk (ReopenEmbedded u')"
    "stack_config (ReopenEmbedded u') = config_of (Some EmbeddedTreeArg) (sid PayloadStore) key"
    "reopen_pages A (ReopenEmbedded u') = (\<lambda>i. map_option (take pk) (image_pages A y' i))" using bq by blast
  let ?auth = "store_auth_new_embedded (embedded_state t') (embedded_state u')"
  let ?files = "files(MetaImage := f, PayloadImage := g)"
  have pages: "image_pages A x' = image_pages A x" "image_pages A y' = image_pages A y"
    using o'(1,2) by (simp_all add: same_image_def)
  have "build_circuit_embedded_store_auth H I sid p 0 files = (Inr ?auth, close_stores (ReopenEmbedded t') (ReopenEmbedded u') ?files)"
    using o'(3) t(1,2) u(1,2) I(1)
    by (simp add: build_circuit_embedded_store_auth_def Let_def comp_simps mk_def pk_def)
  moreover have "store_auth_state_from_stores (reopen_ops H A) (ReopenEmbedded t') (reopen_ops H A) (ReopenEmbedded u') = Some ?auth"
    by (simp add: store_auth_state_from_stores_def reopen_ops_sel)
  ultimately show ?thesis using t(3-5) u(3-5) pages x(3) y(3)
    by (intro exI [of _ "ReopenEmbedded t'"] exI [of _ "ReopenEmbedded u'"] exI [of _ ?files] exI [of _ ?auth]) simp
qed

end

end
