(* ===== verification/Session_Theorems.thy ===== *)
theory Session_Theorems
  imports Session_Core Cuckoo_Theorems
begin

text \<open>
  Sessions on a cuckoo table: what \<open>verify-circuit-bins\<close> and \<open>bench-circuit\<close> find on a table that is
  on disk, and what they leave there.
\<close>

section \<open>The source file and the stored table\<close>

definition cuckoo_source :: "(string \<rightharpoonup> bytes) \<Rightarrow> cuckoo_table \<Rightarrow> nat \<Rightarrow> bytes \<Rightarrow> bool" where
  "cuckoo_source fs t pack file \<longleftrightarrow> cuckoo_from_file fs (cu_level t) (cu_path t) = Inr t \<and>
     fs (cu_path t) = Some file \<and> cuckoo_exact t \<and> 0 < pack \<and> cuckoo_bin_size t * pack < 2 ^ 64"

abbreviation cuckoo_blocks :: "cuckoo_table \<Rightarrow> nat \<Rightarrow> bytes \<Rightarrow> bytes list" where
  "cuckoo_blocks t pack file \<equiv> packed pack (cuckoo_bin_size t) (cuckoo_bins t file)"

lemma cuckoo_source_opens:
  assumes "cuckoo_source fs t pack file"
  obtains rd where "packed_open fs t pack = Inr rd" "reader_ok t pack file rd" "0 < cuckoo_bin_size t" "0 < total_bins t"
    "length (cuckoo_bins t file) = total_bins t" "\<And>x. x \<in> set (cuckoo_bins t file) \<Longrightarrow> length x = cuckoo_bin_size t"
proof -
  have a: "cuckoo_from_file fs (cu_level t) (cu_path t) = Inr t" "fs (cu_path t) = Some file" "cuckoo_exact t" "0 < pack"
    "cuckoo_bin_size t * pack < 2 ^ 64" using assms by (simp_all add: cuckoo_source_def)
  then obtain rd where rd: "packed_open fs t pack = Inr rd" by (simp add: packed_open_def open_file_def)
  note ok = packed_open_ok [OF a(1,3,2) rd a(5)]
  obtain bs where f: "0 < cu_k t" "0 < cu_slots_per_bin t" "0 < cu_bins_per_table t" "0 < cu_slot_size t"
    by (rule cuckoo_from_file_fields [OF a(1)])
  have len: "cu_data_offset t + total_bins t * cuckoo_bin_size t \<le> length file" using ok(1) by (simp add: reader_ok_def)
  show thesis
    using rd ok cuckoo_exact_sizes(5) [OF a(3) f] flat_items_lengths [OF len]
    by (intro that [of rd]) (simp_all add: cuckoo_bins_def)
qed

lemma packed_read_bin_eq:
  assumes "reader_ok t n file rd" and "0 < cuckoo_bin_size t" and "i < length (cuckoo_bins t file)"
    and "length (cuckoo_bins t file) = total_bins t"
    and "\<And>x. x \<in> set (cuckoo_bins t file) \<Longrightarrow> length x = cuckoo_bin_size t"
  shows "packed_read_bin i rd = Inr (cuckoo_bins t file ! i)"
proof -
  let ?k = "cuckoo_bin_size t" and ?items = "cuckoo_bins t file"
  have rd: "pr_table rd = t" "pr_bins_per_block rd = n" "0 < n" "?k * n < 2 ^ 64"
    using assms(1) by (simp_all add: reader_ok_def)
  have b: "i div n < div_ceil (total_bins t) n" using div_ceil_item [OF assms(3) rd(3)] assms(4) by simp
  then have "packed n ?k ?items ! (i div n) \<in> set (packed n ?k ?items)"
    using assms(4) by (intro nth_mem) (simp add: packed_def)
  from packed_lengths [OF assms(5) this] have len: "length (packed n ?k ?items ! (i div n)) = n * ?k" .
  show ?thesis
    using locate_bin [OF assms(3) rd(3) assms(2) rd(4)] packed_read_block_eq [OF assms(1) b] len assms(4)
      packed_item [OF assms(5) assms(3) rd(3)]
    by (simp add: packed_read_bin_def Let_def rd(1,2))
qed

lemma served_dimensions:
  assumes "serves E V (packed n k items) m oram" and "0 < length items" "0 < n"
    and "\<And>x. x \<in> set items \<Longrightarrow> length x = k"
  shows "logical_blocks (co_params oram) = div_ceil (length items) n" "block_size (co_params oram) = n * k"
proof -
  have inv: "oram_inv E V (packed n k items) oram" using assms(1) by (simp add: serves_def)
  then have "length (packed n k items) = logical_blocks (co_params oram)"
    and size: "\<And>i. i < length (packed n k items) \<Longrightarrow> length (packed n k items ! i) = block_size (co_params oram)"
    by (auto elim!: oram_invE)
  then show "logical_blocks (co_params oram) = div_ceil (length items) n" by (simp add: packed_def)
  have "0 < length (packed n k items)" using div_ceil_pos [OF assms(2,3)] by (simp add: packed_def)
  then show "block_size (co_params oram) = n * k"
    using size [of 0] packed_lengths [OF assms(4), where d = "packed n k items ! 0" and n = n] by simp
qed

section \<open>verify-circuit-bins\<close>

lemma verify_bins_ok:
  assumes "bin_reader_ok (ctl_env T) V (cuckoo_bins t file) n (cuckoo_bin_size t) (bins + room) s"
    and "reader_ok t n file rd" and "length (cuckoo_bins t file) = total_bins t" "0 < total_bins t"
  shows "\<exists>y' s'. verify_bins T t drain rd bins y s = (Inr y', s') \<and> ty_verified y' = ty_verified y + bins \<and>
    bin_reader_ok (ctl_env T) V (cuckoo_bins t file) n (cuckoo_bin_size t) room s' \<and>
    co_params (cb_oram s') = co_params (cb_oram s)"
  using assms(1)
proof (induction bins arbitrary: y s)
  case 0
  then show ?case by (simp add: comp_simps)
next
  case (Suc bins)
  let ?items = "cuckoo_bins t file"
  obtain w rng where w: "ctl_next_u64 T (ty_rng y) = (w, rng)" by fastforce
  let ?i = "unat w mod total_bins t"
  have i: "?i < length ?items" using assms(3,4) by simp
  have items: "0 < cuckoo_bin_size t" "\<And>x. x \<in> set ?items \<Longrightarrow> length x = cuckoo_bin_size t"
    using Suc.prems by (simp_all add: bin_reader_ok_def)
  have "bin_reader_ok (ctl_env T) V ?items n (cuckoo_bin_size t) (Suc (bins + room)) s" using Suc.prems by simp
  from cuckoo_read_bin_ok [OF this i] obtain read s1 where
    r: "cuckoo_read_bin (ctl_env T) ?i drain s = (Inr read, s1)" "cr_payload read = ?items ! ?i"
      "bin_reader_ok (ctl_env T) V ?items n (cuckoo_bin_size t) (bins + room) s1"
      "co_params (cb_oram s1) = co_params (cb_oram s)" by blast
  let ?y = "\<lparr>ty_rng = rng, ty_checksum = checksum_payload (ty_checksum y) (?items ! ?i),
    ty_verified = ty_verified y + 1, ty_drained = ty_drained y + cr_drained_evictions read\<rparr>"
  have "verify_bin T t drain rd y s = (Inr ?y, s1)"
    using w r assms(4) packed_read_bin_eq [OF assms(2) items(1) i assms(3) items(2)]
    by (simp add: verify_bin_def Let_def comp_simps)
  with Suc.IH [OF r(3), of ?y] r(4) show ?case by (auto simp: comp_simps)
qed

text \<open>Queries do not look at \<open>--no-save\<close>.\<close>

lemma env_no_save [simp]: "ctl_env (T\<lparr>ctl_no_save := b\<rparr>) = ctl_env T"
  by (simp add: ctl_env_def)

lemma verify_no_save: "verify_queries (T\<lparr>ctl_no_save := b\<rparr>) = verify_queries T"
proof -
  have bin: "verify_bin (T\<lparr>ctl_no_save := b\<rparr>) = verify_bin T" by (simp add: verify_bin_def fun_eq_iff)
  have "verify_bins (T\<lparr>ctl_no_save := b\<rparr>) t dr rd n = verify_bins T t dr rd n" for t dr rd n
    by (induction n) (rule ext, simp add: bin)+
  then have "verify_bins (T\<lparr>ctl_no_save := b\<rparr>) = verify_bins T" by (simp add: fun_eq_iff)
  then show ?thesis by (intro ext) (simp add: verify_queries_def)
qed

text \<open>The controller that a session would save: the one its body leaves when it does not save.\<close>

definition session_leaves ::
  "('c, 'h, 'r) oramctl \<Rightarrow> (auth_store_kind \<Rightarrow> bytes) \<Rightarrow> output_paths \<Rightarrow>
    (('c, 'h, 'r) oramctl \<Rightarrow> nat \<Rightarrow> (('h, 'r) session, session_report) comp) \<Rightarrow> 'h table_disk \<Rightarrow>
    ('h reopen_store, 'h reopen_store, 'r) circuit_oram option" where
  "session_leaves T ids paths body d =
     (case open_table T ids paths d of
        (Inl e, d) \<Rightarrow> None
      | (Inr (cached_pages, oram), d) \<Rightarrow>
          Some (se_oram (snd (body (T\<lparr>ctl_no_save := True\<rparr>) cached_pages \<lparr>se_oram = oram, se_host = tb_host d\<rparr>))))"

definition saves_what_it_leaves ::
  "('c, 'h, 'r) oramctl \<Rightarrow> (auth_store_kind \<Rightarrow> bytes) \<Rightarrow> output_paths \<Rightarrow>
    (('c, 'h, 'r) oramctl \<Rightarrow> nat \<Rightarrow> (('h, 'r) session, session_report) comp) \<Rightarrow> 'h table_disk \<Rightarrow> bool" where
  "saves_what_it_leaves T ids paths body d \<longleftrightarrow>
     ctl_no_save T \<or> (case session_leaves T ids paths body d of None \<Rightarrow> True | Some oram \<Rightarrow> savable T oram)"

text \<open>A session: queries, then the save and the report.\<close>

lemma session_closes:
  assumes ok: "ctl_ok T lay key" "paths_ok paths" "cached_pages_for_levels p (ctl_cache_levels T) = Inr c"
    and disk: "table_on_disk T lay ids key paths p D (k + n) d"
    and body: "\<And>T. body T c = bnd (query T) (\<lambda>(pb, y). bnd (save_session T paths) (\<lambda>_. finish_report T c pb y))"
    and query: "\<And>b. query (T\<lparr>ctl_no_save := b\<rparr>) = query T"
    and run: "\<And>oram h. serves (ctl_env T) (ctl_views T lay ids key) D (k + n) oram \<Longrightarrow> co_params oram = p \<Longrightarrow>
      \<exists>pb y oram'. query T \<lparr>se_oram = oram, se_host = h\<rparr> = (Inr (pb, y), \<lparr>se_oram = oram', se_host = h\<rparr>) \<and>
        P (ty_verified y) (ty_checksum y) \<and> serves (ctl_env T) (ctl_views T lay ids key) D n oram' \<and> co_params oram' = p"
    and enc: "saves_what_it_leaves T ids paths body d"
  shows "\<exists>report d'. bnd (open_table T ids paths) (\<lambda>(c, oram) d.
      close_session (body T c \<lparr>se_oram = oram, se_host = tb_host d\<rparr>) d) d = (Inr report, d') \<and>
    P (rp_verified report) (rp_checksum report) \<and> (\<not> ctl_no_save T \<longrightarrow> table_on_disk T lay ids key paths p D n d')"
proof -
  let ?E = "ctl_env T" and ?V = "ctl_views T lay ids key" and ?T = "T\<lparr>ctl_no_save := True\<rparr>"
  obtain oram d1 where o: "open_table T ids paths d = (Inr (c, oram), d1)" "serves ?E ?V D (k + n) oram"
    "co_params oram = p" "live (tb_host d1)"
    using open_table_ok [OF ok(1) disk ok(3)] by blast
  let ?s = "\<lparr>se_oram = oram, se_host = tb_host d1\<rparr>"
  obtain pb y oram1 where q: "query T ?s = (Inr (pb, y), \<lparr>se_oram = oram1, se_host = tb_host d1\<rparr>)"
    "P (ty_verified y) (ty_checksum y)" "serves ?E ?V D n oram1" "co_params oram1 = p"
    using run [OF o(2,3)] by blast
  let ?s1 = "\<lparr>se_oram = oram1, se_host = tb_host d1\<rparr>"
  have "savable T o2" if fl: "oram_flush ?E oram1 = (Inr (), o2)" and save: "\<not> ctl_no_save T" for o2
  proof -
    have "schedule_ok (co_schedule o2)"
      using flush_durable [OF ok(1) q(3)] fl by (auto simp: serves_def schedule_room_def)
    then obtain j where "pending_evictions (co_schedule o2) = Inr j" using pending_evictions_ok by blast
    then have "se_oram (snd (body ?T c ?s)) = o2"
      unfolding body query using q(1) fl
      by (simp add: comp_simps save_session_def finish_report_def Let_def)
    then have "session_leaves T ids paths body d = Some o2" using o(1) by (simp add: session_leaves_def)
    with enc save show ?thesis by (simp add: saves_what_it_leaves_def)
  qed
  then have "\<exists>report d'. close_session (bnd (save_session T paths) (\<lambda>_. finish_report T c pb y) ?s1) d1 = (Inr report, d') \<and>
    rp_verified report = ty_verified y \<and> rp_checksum report = ty_checksum y \<and>
    (\<not> ctl_no_save T \<longrightarrow> table_on_disk T lay ids key paths p D n d')"
    using close_session_ok [OF ok(1,2), of ?s1 ids D n p c pb y d1] o(4) q(3,4) by fastforce
  moreover have "body T c ?s = bnd (save_session T paths) (\<lambda>_. finish_report T c pb y) ?s1"
    unfolding body using q(1) by (simp add: comp_simps)
  ultimately show ?thesis using o(1) q(2) by (auto simp: comp_simps)
qed

lemma cached_pages_exist: "l \<le> height p \<Longrightarrow> \<exists>c. cached_pages_for_levels p l = Inr c"
  by (cases "l = 0") (simp_all add: cached_pages_for_levels_def)

section \<open>bench-circuit\<close>

lemma draw_ids_range:
  assumes "0 < m" "m < 2 ^ 64" and "draw_ids next_u64 (word_of_nat m) n rng = (ids, rng')"
  shows "length ids = n" "\<forall>w \<in> set ids. unat w < m"
proof -
  have "length ids = n \<and> (\<forall>w \<in> set ids. unat w < m)"
    using assms(3)
  proof (induction n arbitrary: rng ids)
    case (Suc n)
    obtain w r where w: "next_u64 rng = (w, r)" by fastforce
    obtain xs r' where i: "draw_ids next_u64 (word_of_nat m) n r = (xs, r')" by fastforce
    have m: "unat (word_of_nat m :: u64) = m" using assms(2) by simp
    have "unat (w mod word_of_nat m) < m" unfolding unat_mod m using assms(1) by simp
    with Suc w i show ?case by auto
  qed simp
  then show "length ids = n" "\<forall>w \<in> set ids. unat w < m" by simp_all
qed

lemma draw_ids_add:
  "draw_ids next_u64 m (a + b) rng =
    (let (ids, rng) = draw_ids next_u64 m a rng; (ids', rng) = draw_ids next_u64 m b rng in (ids @ ids', rng))"
  by (induction a arbitrary: rng) (auto simp: Let_def split: prod.split)

text \<open>The checksum over payloads, which a benchmark reports.\<close>

definition checksum_payloads :: "u64 \<Rightarrow> bytes list \<Rightarrow> u64" where
  "checksum_payloads = foldl checksum_payload"

abbreviation checks_of :: "'a option \<Rightarrow> nat" where
  "checks_of v \<equiv> (case v of None \<Rightarrow> 0 | Some _ \<Rightarrow> 1)"

lemma check_payloads_ok:
  assumes "\<And>rd. v = Some rd \<Longrightarrow> reader_ok t pack file rd" and "\<forall>w \<in> set ids. unat w < div_ceil (total_bins t) pack"
  shows "rfoldM (check_payload v) (zip ids (map (\<lambda>w. cuckoo_blocks t pack file ! unat w) ids)) (checksum, k) =
    Inr (checksum_payloads checksum (map (\<lambda>w. cuckoo_blocks t pack file ! unat w) ids), k + checks_of v * length ids)"
  using assms(2)
proof (induction ids arbitrary: checksum k)
  case (Cons w ids)
  let ?d = "cuckoo_blocks t pack file ! unat w"
  have "check_payload v (w, ?d) (checksum, k) = Inr (checksum_payload checksum ?d, k + checks_of v)"
    using packed_read_block_eq [OF assms(1), of _ "unat w"] Cons.prems
    by (cases v) (simp_all add: check_payload_def Let_def)
  with Cons.IH [of "checksum_payload checksum ?d" "k + checks_of v"] Cons.prems show ?case by (simp add: algebra_simps checksum_payloads_def)
qed (simp add: checksum_payloads_def)

text \<open>A tally after \<open>k\<close> more blocks have been drawn, read and added to the checksum.\<close>

definition tallied ::
  "('c, 'h, 'r) oramctl \<Rightarrow> oram_params \<Rightarrow> bytes list \<Rightarrow> packed_reader option \<Rightarrow> nat \<Rightarrow> 'r tally \<Rightarrow> 'r tally \<Rightarrow> bool" where
  "tallied T p D v k y y' \<longleftrightarrow>
     (let (ids, rng) = draw_ids (ctl_next_u64 T) (word_of_nat (logical_blocks p)) k (ty_rng y) in
      ty_rng y' = rng \<and> ty_verified y' = ty_verified y + checks_of v * k \<and>
      ty_checksum y' = checksum_payloads (ty_checksum y) (map (\<lambda>w. D ! unat w) ids))"

lemma tallied_0: "tallied T p D v 0 y y"
  by (simp add: tallied_def checksum_payloads_def)

lemma tallied_add: "tallied T p D v a x y \<Longrightarrow> tallied T p D v b y z \<Longrightarrow> tallied T p D v (a + b) x z"
  by (auto simp: tallied_def draw_ids_add checksum_payloads_def algebra_simps split: prod.splits)

lemma bench_batch_ok:
  assumes "serves (ctl_env T) V (cuckoo_blocks t pack file) (k + n) oram" and "co_params oram = p"
    and "\<And>rd. v = Some rd \<Longrightarrow> reader_ok t pack file rd" and "logical_blocks p = div_ceil (total_bins t) pack"
    "0 < logical_blocks p" and "length (cuckoo_bins t file) = total_bins t"
  shows "\<exists>y' oram'. bench_batch T v p drain k y oram = (Inr y', oram') \<and> tallied T p (cuckoo_blocks t pack file) v k y y' \<and>
    serves (ctl_env T) V (cuckoo_blocks t pack file) n oram' \<and> co_params oram' = p"
proof -
  let ?D = "cuckoo_blocks t pack file"
  have len: "length ?D = logical_blocks p" using assms(4,6) by simp
  then have lt: "logical_blocks p < 2 ^ 64" using serves_size(2) [OF assms(1)] by simp
  obtain ids rng where ids: "draw_ids (ctl_next_u64 T) (word_of_nat (logical_blocks p)) k (ty_rng y) = (ids, rng)" by fastforce
  note range = draw_ids_range [OF assms(5) lt ids]
  have "serves (ctl_env T) V ?D (length (map unat ids) + n) oram" using assms(1) range(1) by simp
  from serves_read_batch [OF this] range(2) len assms(2) obtain o1 where
    o1: "read_batch (ctl_env T) ids oram = (Inr (map (\<lambda>w. ?D ! unat w) ids), o1)" "serves (ctl_env T) V ?D n o1" "co_params o1 = p"
    by (auto simp: comp_def)
  have c: "rfoldM (check_payload v) (zip ids (map (\<lambda>w. ?D ! unat w) ids)) (ty_checksum y, ty_verified y) =
      Inr (checksum_payloads (ty_checksum y) (map (\<lambda>w. ?D ! unat w) ids), ty_verified y + checks_of v * k)"
    using check_payloads_ok [where v = v and t = t and ids = ids and checksum = "ty_checksum y" and k = "ty_verified y", OF assms(3)]
      assms(4) range by auto
  obtain m o2 where o2: "drain_evictions (ctl_env T) (drain * word_of_nat k) o1 = (Inr m, o2)" "serves (ctl_env T) V ?D n o2"
    "co_params o2 = p"
    using serves_drain [OF o1(2), of "drain * word_of_nat k"] o1(3) by auto
  from o1 o2 ids c assms(5) show ?thesis by (simp add: bench_batch_def comp_simps tallied_def)
qed

lemma bench_batches_ok:
  assumes "serves (ctl_env T) V (cuckoo_blocks t pack file) (ops - completed + n) oram" and "co_params oram = p"
    and "\<And>rd. v = Some rd \<Longrightarrow> reader_ok t pack file rd" and "logical_blocks p = div_ceil (total_bins t) pack"
    "0 < logical_blocks p" and "length (cuckoo_bins t file) = total_bins t"
  shows "\<exists>y' oram'. bench_batches T v p drain b ops completed y oram = (Inr y', oram') \<and>
    tallied T p (cuckoo_blocks t pack file) v (ops - completed) y y' \<and>
    serves (ctl_env T) V (cuckoo_blocks t pack file) n oram' \<and> co_params oram' = p"
  using assms(1,2)
proof (induction "ops - completed" arbitrary: completed y oram rule: less_induct)
  case less
  show ?case
  proof (cases "completed < ops")
    case False
    with less.prems show ?thesis by (subst bench_batches.simps) (simp add: comp_simps tallied_0)
  next
    case True
    let ?k = "min (Suc b) (ops - completed)"
    have split: "ops - completed = ?k + (ops - (completed + ?k))" "0 < ?k" using True by auto
    then have "serves (ctl_env T) V (cuckoo_blocks t pack file) (?k + (ops - (completed + ?k) + n)) oram"
      using less.prems(1) by (simp add: add.assoc [symmetric])
    from bench_batch_ok [where v = v and drain = drain and y = y, OF this less.prems(2) assms(3-6)] obtain y1 o1 where
      1: "bench_batch T v p drain ?k y oram = (Inr y1, o1)" "tallied T p (cuckoo_blocks t pack file) v ?k y y1"
        "serves (ctl_env T) V (cuckoo_blocks t pack file) (ops - (completed + ?k) + n) o1" "co_params o1 = p" by blast
    have "ops - (completed + ?k) < ops - completed" using split True by linarith
    from less.hyps [OF this 1(3,4), of y1] obtain y' oram' where
      2: "bench_batches T v p drain b ops (completed + ?k) y1 o1 = (Inr y', oram')"
        "tallied T p (cuckoo_blocks t pack file) v (ops - (completed + ?k)) y1 y'"
        "serves (ctl_env T) V (cuckoo_blocks t pack file) n oram'" "co_params oram' = p" by blast
    have "bench_batches T v p drain b ops completed y oram = (Inr y', oram')"
      using True 1(1) 2(1) by (subst bench_batches.simps) (simp add: comp_simps Let_def)
    moreover have "tallied T p (cuckoo_blocks t pack file) v (ops - completed) y y'"
      using tallied_add [OF 1(2) 2(2)] split(1) by simp
    ultimately show ?thesis using 2(3,4) by blast
  qed
qed

lemma bench_no_save: "bench_queries (T\<lparr>ctl_no_save := b\<rparr>) = bench_queries T"
proof -
  have batch: "bench_batch (T\<lparr>ctl_no_save := b\<rparr>) = bench_batch T" by (intro ext) (simp add: bench_batch_def)
  have "bench_batches (T\<lparr>ctl_no_save := b\<rparr>) v p dr k ops i y = bench_batches T v p dr k ops i y" for v p dr k ops i y
  proof (induction "ops - i" arbitrary: i y rule: less_induct)
    case less
    show ?case
      by (rule ext, subst (1 2) bench_batches.simps) (simp add: batch less Let_def bnd_def split: prod.split sum.split)
  qed
  then have "bench_batches (T\<lparr>ctl_no_save := b\<rparr>) = bench_batches T" by (simp add: fun_eq_iff)
  then show ?thesis by (intro ext) (simp add: bench_queries_def open_verifier_def cong: option.case_cong)
qed

end
