(* ===== verification/Build_Theorems.thy ===== *)
theory Build_Theorems
  imports Build_Core Session_Theorems
begin

text \<open>
  What \<open>build-circuit\<close> leaves on disk: a table that the later commands can open.
\<close>

section \<open>The parameters\<close>

lemma estimate_params_sizing:
  assumes "estimate_params a e = Inr p" and "ie_logical_blocks e < 2 ^ 64"
    and "ba_stash_capacity a + 33 * ba_bucket_size a < 2 ^ 64"
  shows "params_ok p" "logical_blocks p = ie_logical_blocks e" "block_size p = ie_block_payload_bytes e"
    "bucket_size p = ba_bucket_size a" "stash_capacity p = ba_stash_capacity a" "0 < bucket_size p"
proof -
  let ?sz = "sizing_of T a"
  have s: "sizing_params ?sz (ie_logical_blocks e) (ie_block_payload_bytes e) (ie_leaves e) = Inr p"
    using assms(1) by (simp add: estimate_params_def sizing_params_def sizing_of_def)
  from sizing_params_ok [OF s assms(2)] assms(3) show "params_ok p" "logical_blocks p = ie_logical_blocks e"
    "block_size p = ie_block_payload_bytes e" "bucket_size p = ba_bucket_size a" "stash_capacity p = ba_stash_capacity a"
    by (simp_all add: sizing_of_def)
  show "0 < bucket_size p" using assms(1)
    by (auto simp: estimate_params_def with_bucket_size_def with_stash_capacity_def split: if_splits)
qed

lemma build_params_ok:
  assumes "build_params T a t = Inr p" and "cuckoo_bin_size t * ba_pack a < 2 ^ 64"
    and "ba_stash_capacity a + 33 * ba_bucket_size a < 2 ^ 64"
  shows "params_ok p" "logical_blocks p = div_ceil (total_bins t) (ba_pack a)" "block_size p = cuckoo_bin_size t * ba_pack a"
    "bucket_size p = ba_bucket_size a" "stash_capacity p = ba_stash_capacity a" "0 < bucket_size p"
proof -
  obtain e where e: "cuckoo_estimate_sizes (sizing_of T a) t = Inr e" "estimate_params a e = Inr p"
    using assms(1) by (auto simp: build_params_def)
  then have pack: "0 < ba_pack a" by (simp add: cuckoo_estimate_sizes_def sizing_of_def split: if_splits)
  have fields: "ie_logical_blocks e = div_ceil (total_bins t) (ba_pack a)" "ie_block_payload_bytes e = cuckoo_bin_size t * ba_pack a"
    using e(1) assms(2)
    by (auto simp: cuckoo_estimate_sizes_def estimate_image_def estimate_fields_def Let_def image_estimate.defs sizing_of_def
        split: if_splits)
  have "total_bins t < 2 ^ 64" by (simp add: total_bins_def usize_mul_def)
  with div_ceil_le [OF pack, of "total_bins t"] have "ie_logical_blocks e < 2 ^ 64" unfolding fields by linarith
  from estimate_params_sizing [OF e(2) this assms(3)] fields show "params_ok p"
    "logical_blocks p = div_ceil (total_bins t) (ba_pack a)" "block_size p = cuckoo_bin_size t * ba_pack a"
    "bucket_size p = ba_bucket_size a" "stash_capacity p = ba_stash_capacity a" "0 < bucket_size p" by simp_all
qed

section \<open>The controller over the data stores\<close>

definition build_views ::
  "('c, 'h, 'r) oramctl \<Rightarrow> auth_layout_arg \<Rightarrow> bytes option \<Rightarrow> oram_params \<Rightarrow> ('h data_store, 'h data_store) store_views" where
  "build_views T layout key p =
     (let A = ie_aead (ctl_images T);
          ok = (\<lambda>k d. data_ok A d \<and> data_shape d = shape_of layout key k) in
      \<lparr>v_meta_ok = ok (circuit_meta_page_bytes (bucket_size p)), v_meta_pages = data_pages A,
       v_payload_ok = ok (circuit_payload_page_bytes (bucket_size p) (block_size p)), v_payload_pages = data_pages A\<rparr>)"

lemma build_views_sel:
  "v_meta_ok (build_views T layout key p) d \<longleftrightarrow> data_ok (ie_aead (ctl_images T)) d \<and>
     data_shape d = shape_of layout key (circuit_meta_page_bytes (bucket_size p))"
  "v_payload_ok (build_views T layout key p) d \<longleftrightarrow> data_ok (ie_aead (ctl_images T)) d \<and>
     data_shape d = shape_of layout key (circuit_payload_page_bytes (bucket_size p) (block_size p))"
  "v_meta_pages (build_views T layout key p) = data_pages (ie_aead (ctl_images T))"
  "v_payload_pages (build_views T layout key p) = data_pages (ie_aead (ctl_images T))"
  by (simp_all add: build_views_def Let_def)

lemma data_env_sel:
  "e_meta (data_env T) = path_of_page_store (data_ops (ie_aead (ctl_images T)))"
  "e_payload (data_env T) = path_of_page_store (data_ops (ie_aead (ctl_images T)))"
  by (simp_all add: data_env_def Let_def)

lemma no_build_auth: "oram_store_auth_state (data_env T) oram = None"
  by (simp add: oram_store_auth_state_def store_auth_state_from_stores_def data_env_sel path_of_page_store_def data_no_auth)

abbreviation data_finished ::
  "('c, 'h, 'r) oramctl \<Rightarrow> auth_layout_arg \<Rightarrow> bytes option \<Rightarrow> oram_params \<Rightarrow> 'h data_store \<Rightarrow> 'h data_store \<Rightarrow> bool" where
  "data_finished T layout key p m q \<equiv>
     aead_spec.data_built (ie_aead (ctl_images T)) layout key (bucket_count p) (circuit_meta_page_bytes (bucket_size p)) m \<and>
     aead_spec.data_built (ie_aead (ctl_images T)) layout key (bucket_count p)
       (circuit_payload_page_bytes (bucket_size p) (block_size p)) q"

lemma controller_built:
  fixes p layout key
  defines "mk \<equiv> circuit_meta_page_bytes (bucket_size p)" and "pk \<equiv> circuit_payload_page_bytes (bucket_size p) (block_size p)"
  assumes "ctl_ok T lay k" and p: "params_ok p" "length D = logical_blocks p"
    "\<forall>x \<in> set D. length x = block_size p" "logical_blocks p < stash_capacity p"
    and src: "block_source_spec src sok D" "sok rd" "bs_block_size src rd = block_size p"
    and m: "data_fresh (ie_aead (ctl_images T)) layout key (bucket_count p) mk m"
    and q: "data_fresh (ie_aead (ctl_images T)) layout key (bucket_count p) pk q" and "n * 2 < 2 ^ 64"
  shows "\<exists>oram oram'. build_trusted_from_source (ctl_ct T) (ctl_next_u64 T) (ctl_from_seed T) (data_ops (ie_aead (ctl_images T)))
      (data_ops (ie_aead (ctl_images T))) src p m q rd seed = Inr oram \<and>
    run_owned (oram_flush (data_env T)) oram = Inr ((), oram') \<and>
    serves (data_env T) (build_views T layout key p) D n oram' \<and> co_params oram' = p \<and>
    data_finished T layout key p (co_meta_store oram') (co_payload_store oram')"
proof -
  let ?A = "ie_aead (ctl_images T)" and ?V = "build_views T layout key p"
  let ?d = "data_ops ?A"
  have libs: "aead_spec ?A" "subtle_spec (ctl_ct T)" using assms(3) by (simp_all add: ctl_ok_def)
  note shaped = aead_spec.shaped_spec [OF libs(1)]
  have build: "circuit_build_spec (ctl_ct T) ?d ?d ?V src sok D"
    using libs(2) shaped src(1) by (simp add: circuit_build_spec_def build_views_def Let_def)
  obtain oram where o: "build_trusted_from_source (ctl_ct T) (ctl_next_u64 T) (ctl_from_seed T) ?d ?d
      src p m q rd seed = Inr oram" "serves (data_env T) ?V D n oram" "co_params oram = p"
    using circuit_build_spec.build_serves [OF build p(1-3) _ _ _ _ _ _ src(2,3) _ p(4) assms(13),
        of m q "data_env T" "ctl_next_u64 T" "ctl_from_seed T" seed] m q
    by (auto simp: data_fresh_def build_views_sel mk_def pk_def data_env_def Let_def)
  have "serves (data_env T) ?V D (op_cost Flush + n) oram" using o(2) by simp
  from serves_run [OF this, of "[]" D] obtain o' where o': "oram_flush (data_env T) oram = (Inr (), o')"
    "serves (data_env T) ?V D n o'" "co_params o' = co_params oram"
    by (auto simp: bnd_Inr_iff comp_simps)
  have "oram_inv (data_env T) ?V D oram" using o(2) by (simp add: serves_def)
  note st = oram_inv_stores(1,2) [OF this, unfolded build_views_sel]
  obtain m' q' where f: "ps_flush ?d (co_meta_store oram) = (Inr (), m')" "ps_flush ?d (co_payload_store oram) = (Inr (), q')"
    "co_meta_store o' = m'" "co_payload_store o' = q'"
    using o'(1) by (auto simp: oram_flush_def bnd_Inr_iff zoom_Inr_iff data_env_sel path_of_page_store_def)
  have "oram_inv (data_env T) ?V D o'" using o'(2) by (simp add: serves_def)
  note st' = oram_inv_stores [OF this, unfolded build_views_sel]
  have "data_durable ?A m'" "data_durable ?A q'"
    using aead_spec.data_flush [OF libs(1) conjunct1 [OF st(1)] f(1)]
      aead_spec.data_flush [OF libs(1) conjunct1 [OF st(2)] f(2)] by simp_all
  then have "data_finished T layout key p (co_meta_store o') (co_payload_store o')"
    using st' f(3,4) o'(3) o(3) bucket_count_pos [OF p(1)]
    by (simp add: aead_spec.data_built_def [OF libs(1)] data_fresh_def data_env_sel path_of_page_store_def)
  with o o' show ?thesis by (auto simp: run_owned_def)
qed

section \<open>The stores the table will be opened with\<close>

definition build_fits :: "build_args \<Rightarrow> auth_layout_arg option \<Rightarrow> oram_params \<Rightarrow> bool" where
  "build_fits a lay p \<longleftrightarrow> (\<forall>l. lay = Some l \<longrightarrow> l = ba_auth_layout a) \<and>
     image_fits (bucket_count p) (circuit_meta_page_bytes (bucket_size p) + EMBEDDED_TREE_AUTH_BYTES_PER_PAGE) \<and>
     image_fits (bucket_count p)
       (circuit_payload_page_bytes (bucket_size p) (block_size p) + EMBEDDED_TREE_AUTH_BYTES_PER_PAGE) \<and>
     (lay = Some SidecarArg \<longrightarrow> (\<exists>need. required_hash_pages (bucket_count p) (ba_auth_hash_page_size a)
        (ba_auth_trusted_levels a) = Inr need \<and> 0 < need \<and> image_fits need (ba_auth_hash_page_size a)))"

definition stores_finished ::
  "('c, 'h, 'r) oramctl \<Rightarrow> auth_layout_arg option \<Rightarrow> (auth_store_kind \<Rightarrow> bytes) \<Rightarrow> bytes option \<Rightarrow> oram_params \<Rightarrow>
    'h data_store \<Rightarrow> 'h data_store \<Rightarrow> 'h reopen_store \<Rightarrow> 'h reopen_store \<Rightarrow> bool" where
  "stores_finished T lay ids key p m q M Q \<longleftrightarrow>
     (let A = ie_aead (ctl_images T); H = ctl_sha256 T; n = bucket_count p in
      reopen_full H A n (circuit_meta_page_bytes (bucket_size p)) M \<and>
      stack_config M = config_of lay (ids MetaStore) key \<and> reopen_pages A M = data_pages A m \<and>
      reopen_full H A n (circuit_payload_page_bytes (bucket_size p) (block_size p)) Q \<and>
      stack_config Q = config_of lay (ids PayloadStore) key \<and> reopen_pages A Q = data_pages A q)"

lemma auth_built:
  assumes "ctl_ok T (Some layout) key" and "data_finished T layout key p m q" and "0 < bucket_size p" "0 < block_size p"
    and "build_fits a (Some layout) p" and "files MetaImage = data_file m" "files PayloadImage = data_file q"
    and "fd_live (files MetaHashImage)" "fd_live (files PayloadHashImage)"
  shows "\<exists>M Q files' auth. build_store_auth (ctl_sha256 T) (ctl_images T) ids p 0 (ba_auth_layout a) (ba_auth_trusted_levels a)
      (ba_auth_hash_page_size a) files = (Inr auth, close_stores M Q files') \<and>
    stores_finished T (Some layout) ids key p m q M Q \<and>
    store_auth_state_from_stores (ctl_reopen T) M (ctl_reopen T) Q = Some auth"
proof -
  note libs = ctl_ok_libs [OF assms(1)]
  have key: "key_opens (ctl_images T) key" using assms(1) by (simp add: ctl_ok_def)
  let ?mk = "circuit_meta_page_bytes (bucket_size p)" and ?pk = "circuit_payload_page_bytes (bucket_size p) (block_size p)"
  have fits: "ba_auth_layout a = layout" "image_fits (bucket_count p) (?mk + EMBEDDED_TREE_AUTH_BYTES_PER_PAGE)"
    "image_fits (bucket_count p) (?pk + EMBEDDED_TREE_AUTH_BYTES_PER_PAGE)"
    using assms(5) by (simp_all add: build_fits_def)
  then have k: "?mk + EMBEDDED_TREE_AUTH_BYTES_PER_PAGE < 2 ^ 64" "?pk + EMBEDDED_TREE_AUTH_BYTES_PER_PAGE < 2 ^ 64"
    by (simp_all add: image_fits_def aead_message_limit_def)
  have pos: "0 < ?mk" "0 < ?pk"
    using assms(3,4) by (simp_all add: circuit_meta_page_bytes_def circuit_payload_page_bytes_def)
  have d: "aead_spec.data_built (ie_aead (ctl_images T)) layout key (bucket_count p) ?mk m"
    "aead_spec.data_built (ie_aead (ctl_images T)) layout key (bucket_count p) ?pk q" using assms(2) by simp_all
  show ?thesis
  proof (cases layout)
    case EmbeddedTreeArg
    from table_libs.embedded_auth_built [OF libs refl key d(1) [unfolded EmbeddedTreeArg] assms(6)
        d(2) [unfolded EmbeddedTreeArg] assms(7) pos(1) k(1) pos(2) k(2), of ids] fits(1) EmbeddedTreeArg
    show ?thesis by (fastforce simp: build_store_auth_def stores_finished_def Let_def)
  next
    case SidecarArg
    with assms(5) obtain need where need: "required_hash_pages (bucket_count p) (ba_auth_hash_page_size a)
        (ba_auth_trusted_levels a) = Inr need" "0 < need" "image_fits need (ba_auth_hash_page_size a)"
      by (auto simp: build_fits_def)
    from table_libs.sidecar_auth_built [OF libs refl key d(1) [unfolded SidecarArg] assms(6)
        d(2) [unfolded SidecarArg] assms(7) pos(1) k(1) pos(2) k(2) assms(8,9) need, of ids] fits(1) SidecarArg
    show ?thesis by (fastforce simp: build_store_auth_def stores_finished_def Let_def)
  qed
qed

lemma plain_finished:
  assumes "ctl_ok T None key" and "data_finished T SidecarArg key p m q"
  shows "stores_finished T None ids key p m q (ReopenPlain m) (ReopenPlain q)"
  using table_libs.built_plain [OF ctl_ok_libs [OF assms(1)]] assms(2)
  by (auto simp: stores_finished_def Let_def reopen_pages_def data_key_def elim!: table_libs.built_plain [OF ctl_ok_libs [OF assms(1)]])

text \<open>The controller moves onto them.\<close>

lemma serves_finished:
  assumes "ctl_ok T lay key" and "serves (data_env T) (build_views T layout key p) D n oram" and "co_params oram = p"
    and "stores_finished T lay ids key p (co_meta_store oram) (co_payload_store oram) M Q"
  shows "serves (ctl_env T) (ctl_views T lay ids key) D n (with_stores oram M Q)"
    and "stores_durable T (with_stores oram M Q)"
    and "snapshot (ctl_env T) (with_stores oram M Q) = with_auth (snapshot (data_env T) oram)
      (store_auth_state_from_stores (ctl_reopen T) M (ctl_reopen T) Q)"
    and "oram_store_auth_state (ctl_env T) (with_stores oram M Q) = store_auth_state_from_stores (ctl_reopen T) M (ctl_reopen T) Q"
proof -
  have inv: "oram_inv (data_env T) (build_views T layout key p) D oram" using assms(2) by (simp add: serves_def)
  note st = oram_inv_stores [OF inv, unfolded assms(3)]
  show "serves (ctl_env T) (ctl_views T lay ids key) D n (with_stores oram M Q)"
    using assms(3,4) st
    by (intro serves_with_stores [OF assms(2) ctl_env_ok [OF assms(1)]] oram_inv_with_stores [OF inv])
      (simp_all add: views_sel env_sel build_views_sel stores_finished_def Let_def reopen_full_def)
  show "stores_durable T (with_stores oram M Q)"
    using assms(4) by (simp add: stores_durable_def stores_finished_def Let_def reopen_full_def)
  show auth: "oram_store_auth_state (ctl_env T) (with_stores oram M Q) = store_auth_state_from_stores (ctl_reopen T) M (ctl_reopen T) Q"
    by (simp add: oram_store_auth_state_def env_sel)
  show "snapshot (ctl_env T) (with_stores oram M Q) = with_auth (snapshot (data_env T) oram)
      (store_auth_state_from_stores (ctl_reopen T) M (ctl_reopen T) Q)"
    unfolding snapshot_def auth by (simp add: with_stores_def with_auth_def)
qed

section \<open>The build of the images\<close>

text \<open>Sizes and files that a build can work with: no front cache, a stash that can take every block.\<close>

definition build_room ::
  "('c, 'h, 'r) oramctl \<Rightarrow> build_args \<Rightarrow> auth_layout_arg option \<Rightarrow> oram_params \<Rightarrow> image_files \<Rightarrow> bool" where
  "build_room T a lay p files \<longleftrightarrow>
     ctl_cache_levels T = 0 \<and> ba_stash_capacity a + 33 * ba_bucket_size a < 2 ^ 64 \<and> logical_blocks p < ba_stash_capacity a \<and>
     build_fits a lay p \<and> (\<forall>slot. fd_live (files slot))"

definition stores_left ::
  "('c, 'h, 'r) oramctl \<Rightarrow> auth_layout_arg option \<Rightarrow> (auth_store_kind \<Rightarrow> bytes) \<Rightarrow> bytes option \<Rightarrow> oram_params \<Rightarrow>
    bytes list \<Rightarrow> nat \<Rightarrow> ('h reopen_store, 'h reopen_store, 'r) circuit_oram \<Rightarrow> bool" where
  "stores_left T lay ids key p D n oram \<longleftrightarrow>
     serves (ctl_env T) (ctl_views T lay ids key) D n oram \<and> co_params oram = p \<and> stores_durable T oram"

lemma images_built:
  fixes p
  defines "layout T a \<equiv> active_auth_layout (ctl_auth_store T) (ba_auth_layout a)"
  assumes ok: "ctl_ok T lay key" and room: "build_room T a lay p files" and "n * 2 < 2 ^ 64"
    and p: "params_ok p" "stash_capacity p = ba_stash_capacity a" "0 < bucket_size p" "0 < block_size p"
    and D: "length D = logical_blocks p" "\<forall>x \<in> set D. length x = block_size p"
    and src: "block_source_spec src sok D" "sok rd" "bs_block_size src rd = block_size p"
  shows "\<exists>m q files1 s1 files2 oram files3.
    open_circuit_file_stores (ctl_images T) p 0 False (layout T a) files = (Inr (m, q), files1) \<and>
    build_data T p src m q rd seed files1 = (Inr s1, files2) \<and>
    build_auth T a ids p 0 s1 files2 = (Inr (snapshot (ctl_env T) oram, oram_store_auth_state (ctl_env T) oram),
      close_stores (co_meta_store oram) (co_payload_store oram) files3) \<and>
    stores_left T lay ids key p D n oram"
proof -
  let ?I = "ctl_images T" and ?A = "ie_aead (ctl_images T)" and ?n = "bucket_count p"
  let ?mk = "circuit_meta_page_bytes (bucket_size p)" and ?pk = "circuit_payload_page_bytes (bucket_size p) (block_size p)"
  define l where "l = layout T a"
  have r: "logical_blocks p < ba_stash_capacity a" "build_fits a lay p" "\<And>slot. fd_live (files slot)"
    using room by (simp_all add: build_room_def)
  have T: "aead_spec ?A" "key_opens ?I key" "ctl_auth_store T = (lay \<noteq> None)" using ok by (simp_all add: ctl_ok_def)
  have lay: "l = (case lay of None \<Rightarrow> SidecarArg | Some l \<Rightarrow> l)"
    using T(3) r(2) by (auto simp: l_def layout_def active_auth_layout_def build_fits_def split: option.split)
  have fits: "image_fits ?n (?mk + EMBEDDED_TREE_AUTH_BYTES_PER_PAGE)" "image_fits ?n (?pk + EMBEDDED_TREE_AUTH_BYTES_PER_PAGE)"
    using r(2) by (simp_all add: build_fits_def)
  obtain m q f g where st: "open_circuit_file_stores ?I p 0 False l files = (Inr (m, q), files(MetaImage := f, PayloadImage := g))"
    "data_fresh ?A l key ?n ?mk m" "data_fresh ?A l key ?n ?pk q"
    using aead_spec.build_stores [where files = files, OF T(1) refl T(2) _ _ fits r(3,3), of l] p(3,4)
    by (auto simp: circuit_meta_page_bytes_def circuit_payload_page_bytes_def)
  let ?files1 = "files(MetaImage := f, PayloadImage := g)"
  have stash: "logical_blocks p < stash_capacity p" using r(1) p(2) by simp
  from controller_built [OF ok p(1) D stash src st(2,3) assms(4), of seed] obtain oram oram' where
    o': "build_trusted_from_source (ctl_ct T) (ctl_next_u64 T) (ctl_from_seed T) (data_ops ?A)
      (data_ops ?A) src p m q rd seed = Inr oram"
    "run_owned (oram_flush (data_env T)) oram = Inr ((), oram')"
    "serves (data_env T) (build_views T l key p) D n oram'" "co_params oram' = p"
    "data_finished T l key p (co_meta_store oram') (co_payload_store oram')" by blast
  let ?m = "co_meta_store oram'" and ?q = "co_payload_store oram'"
  let ?files = "close_stores (ReopenPlain ?m) (ReopenPlain ?q) ?files1" and ?s = "snapshot (data_env T) oram'"
  have data: "build_data T p src m q rd seed ?files1 = (Inr ?s, ?files)"
    using o'(1,2) by (simp add: build_data_def Let_def comp_simps)
  have files: "?files MetaImage = data_file ?m" "?files PayloadImage = data_file ?q"
    "fd_live (?files MetaHashImage)" "fd_live (?files PayloadHashImage)"
    using r(3) by (simp_all add: close_stores_def)
  have finish: ?thesis
    if "build_auth T a ids p 0 ?s ?files = (Inr (with_auth ?s auth, auth), close_stores M Q files3)"
      and "auth = store_auth_state_from_stores (ctl_reopen T) M (ctl_reopen T) Q"
      and "stores_finished T lay ids key p ?m ?q M Q" for M Q auth files3
    using serves_finished [OF ok o'(3,4) that(3)] that(1,2) o'(4) st(1) data
    unfolding l_def stores_left_def
    by (intro exI [of _ m] exI [of _ q] exI [of _ ?files1] exI [of _ ?s] exI [of _ ?files]
        exI [of _ "with_stores oram' M Q"] exI [of _ files3]) simp
  show ?thesis
  proof (cases lay)
    case None
    with lay o'(5) have "data_finished T SidecarArg key p ?m ?q" by simp
    note fin = plain_finished [OF ok [unfolded None] this, of ids]
    have auth: "None = store_auth_state_from_stores (ctl_reopen T) (ReopenPlain ?m) (ctl_reopen T) (ReopenPlain ?q)"
      using fin by (intro sym [OF iffD2 [OF auth_of_config [where lay = None and key = key]]])
        (simp_all add: stores_finished_def Let_def)
    have "with_auth ?s None = ?s" by (simp add: snapshot_def no_build_auth with_auth_def)
    with T(3) None show ?thesis
      by (intro finish [OF _ auth fin [folded None]]) (simp add: build_auth_def comp_simps)
  next
    case (Some x)
    with lay have l: "l = x" by simp
    obtain M Q files' auth where b: "build_store_auth (ctl_sha256 T) ?I ids p 0 (ba_auth_layout a) (ba_auth_trusted_levels a)
        (ba_auth_hash_page_size a) ?files = (Inr auth, close_stores M Q files')"
      "stores_finished T (Some x) ids key p ?m ?q M Q"
      "store_auth_state_from_stores (ctl_reopen T) M (ctl_reopen T) Q = Some auth"
      using auth_built [OF ok [unfolded Some] o'(5) [unfolded l] p(3,4) r(2) [unfolded Some] files, of ids] by blast
    have "build_auth T a ids p 0 ?s ?files = (Inr (with_auth ?s (Some auth), Some auth), close_stores M Q files')"
      using T(3) Some b(1) by (simp add: build_auth_def comp_simps)
    then show ?thesis by (rule finish [OF _ b(3) [symmetric] b(2) [folded Some]])
  qed
qed

text \<open>Both states are saved, and the table is on disk.\<close>

lemma states_saved:
  assumes "ctl_ok T lay key" "paths_ok paths" "live h" "stores_left T lay ids key p D n oram"
    and "encodes (ctl_state_codec T) (snapshot (ctl_env T) oram)"
    and "\<forall>s. oram_store_auth_state (ctl_env T) oram = Some s \<longrightarrow> encodes (ctl_auth_codec T) s"
  shows "\<exists>h'. save_states T paths (snapshot (ctl_env T) oram, oram_store_auth_state (ctl_env T) oram) h = (Inr (), h') \<and> live h' \<and>
    state_on_disk T paths (snapshot (ctl_env T) oram) h' \<and>
    (\<forall>s. oram_store_auth_state (ctl_env T) oram = Some s \<longrightarrow> auth_on_disk T paths s h') \<and>
    table_on_disk T lay ids key paths p D n
      \<lparr>tb_host = h', tb_images = close_stores (co_meta_store oram) (co_payload_store oram) files\<rparr>"
proof -
  let ?I = "ctl_images T" and ?state = "snapshot (ctl_env T) oram" and ?auth = "oram_store_auth_state (ctl_env T) oram"
  have "\<exists>h'. (case ?auth of None \<Rightarrow> ret () | Some s \<Rightarrow> save_circuit_store_auth (ie_hex ?I) (ie_aead ?I) (ctl_auth_codec T) s
      (op_auth_state paths) (ctl_state_key_hex T)) h = (Inr (), h') \<and> live h' \<and> (\<forall>s. ?auth = Some s \<longrightarrow> auth_on_disk T paths s h')"
  proof (cases ?auth)
    case None
    with assms(3) show ?thesis by (simp add: comp_simps)
  next
    case (Some s)
    then have "sa_magic s = CIRCUIT_STORE_AUTH_MAGIC" by (simp add: oram_store_auth_state_def store_auth_magic)
    with auth_written [OF assms(1-3), of s] assms(6) Some show ?thesis by auto
  qed
  then obtain h1 where h1: "(case ?auth of None \<Rightarrow> ret () | Some s \<Rightarrow> save_circuit_store_auth (ie_hex ?I) (ie_aead ?I)
      (ctl_auth_codec T) s (op_auth_state paths) (ctl_state_key_hex T)) h = (Inr (), h1)" "live h1"
    "\<And>s. ?auth = Some s \<Longrightarrow> auth_on_disk T paths s h1" by blast
  have "cs_magic ?state = CIRCUIT_STATE_MAGIC" by (simp add: snapshot_def with_auth_def circuit_state_new_def)
  from state_saved [OF assms(1,2) h1(2) assms(5) this] obtain h' where h': "save_circuit_state (ie_hex ?I) (ie_aead ?I)
      (ctl_state_codec T) ?state (op_state paths) (ctl_state_key_hex T) h1 = (Inr (), h')" "live h'"
    "state_on_disk T paths ?state h'" "h_files h' (op_auth_state paths) = h_files h1 (op_auth_state paths)" by blast
  have "save_states T paths (?state, ?auth) h = (Inr (), h')"
    using h1(1) h'(1) by (simp add: save_states_def Let_def comp_simps)
  moreover have "auth_on_disk T paths s h'" if "?auth = Some s" for s
    using h1(3) [OF that] h'(4) by (simp add: auth_on_disk_def)
  ultimately show ?thesis using h'(2,3) assms(4) by (auto simp: table_on_disk_def stores_left_def)
qed

section \<open>build-circuit\<close>

definition build_ready ::
  "('c, 'h, 'r) oramctl \<Rightarrow> build_args \<Rightarrow> auth_layout_arg option \<Rightarrow> cuckoo_table \<Rightarrow> bytes \<Rightarrow> oram_params \<Rightarrow> image_files \<Rightarrow> bool" where
  "build_ready T a lay t file p files \<longleftrightarrow>
     cuckoo_source (ctl_sources T) t (ba_pack a) file \<and> build_params T a t = Inr p \<and> build_room T a lay p files"

lemma build_states_ok:
  assumes ok: "ctl_ok T lay key" and ready: "build_ready T a lay t file p files" and "n * 2 < 2 ^ 64"
  shows "\<exists>oram files'. build_states T a t seed files =
      (Inr (snapshot (ctl_env T) oram, oram_store_auth_state (ctl_env T) oram),
        close_stores (co_meta_store oram) (co_payload_store oram) files') \<and>
    stores_left T lay (circuit_auth_store_id (cu_level t)) key p (cuckoo_blocks t (ba_pack a) file) n oram"
proof -
  let ?D = "cuckoo_blocks t (ba_pack a) file"
  have r: "cuckoo_source (ctl_sources T) t (ba_pack a) file" "build_params T a t = Inr p" "build_room T a lay p files"
    using ready by (simp_all add: build_ready_def)
  have size: "cuckoo_bin_size t * ba_pack a < 2 ^ 64" using r(1) by (simp add: cuckoo_source_def)
  have stash: "ba_stash_capacity a + 33 * ba_bucket_size a < 2 ^ 64" and c: "cached_pages_for_levels p (ctl_cache_levels T) = Inr 0"
    using r(3) by (simp_all add: build_room_def cached_pages_for_levels_def)
  note p = build_params_ok [OF r(2) size stash]
  obtain rd where rd: "packed_open (ctl_sources T) t (ba_pack a) = Inr rd" "reader_ok t (ba_pack a) file rd"
    "0 < cuckoo_bin_size t" "length (cuckoo_bins t file) = total_bins t"
    "\<And>x. x \<in> set (cuckoo_bins t file) \<Longrightarrow> length x = cuckoo_bin_size t"
    using cuckoo_source_opens [OF r(1)] by blast
  have D: "length ?D = logical_blocks p" "\<forall>x \<in> set ?D. length x = block_size p"
    using packed_lengths [of "cuckoo_bins t file" "cuckoo_bin_size t" _ "ba_pack a"] rd(4,5) p(2,3)
    by (auto simp: mult.commute)
  have dims: "pr_logical_blocks rd = logical_blocks p" "pr_block_payload_bytes rd = block_size p" "0 < block_size p"
    using rd(2,3) p(2,3) by (simp_all add: reader_ok_def)
  then have bs: "bs_block_size packed_source_ops rd = block_size p" by (simp add: packed_source_ops_def)
  from images_built [OF ok r(3) assms(3) p(1,5,6) dims(3) D packed_source.block_source_spec_axioms rd(2) bs,
      of seed "circuit_auth_store_id (cu_level t)"]
  show ?thesis using r(2) c rd(1) dims
    by (elim exE conjE) (auto simp: build_states_def comp_simps)
qed

lemma build_table_ok:
  fixes T dir t seed
  defines "ids \<equiv> circuit_auth_store_id (cu_level t)" and "paths \<equiv> circuit_output_paths dir (cu_level t)"
  assumes "ctl_ok T lay key" and "build_ready T a lay t file p (tb_images d)" and "live (tb_host d)" and "n * 2 < 2 ^ 64"
    and "\<And>state auth files. build_states T a t seed (tb_images d) = (Inr (state, auth), files) \<Longrightarrow>
      encodes (ctl_state_codec T) state \<and> (\<forall>s. auth = Some s \<longrightarrow> encodes (ctl_auth_codec T) s)"
  shows "\<exists>d' state auth. build_circuit_table T a dir t seed d = (Inr (), d') \<and>
    table_on_disk T lay ids key paths p (cuckoo_blocks t (ba_pack a) file) n d' \<and>
    build_states T a t seed (tb_images d) = (Inr (state, auth), tb_images d') \<and>
    state_on_disk T paths state (tb_host d') \<and> cs_auth state = auth \<and> (auth = None \<longleftrightarrow> lay = None) \<and>
    (\<forall>s. auth = Some s \<longrightarrow> auth_on_disk T paths s (tb_host d'))"
proof -
  obtain oram files where b: "build_states T a t seed (tb_images d) =
      (Inr (snapshot (ctl_env T) oram, oram_store_auth_state (ctl_env T) oram),
        close_stores (co_meta_store oram) (co_payload_store oram) files)"
    "stores_left T lay ids key p (cuckoo_blocks t (ba_pack a) file) n oram"
    using build_states_ok [OF assms(3,4,6), of seed] unfolding ids_def by blast
  have paths: "paths_ok paths" by (simp add: paths_def circuit_output_paths_def output_paths_ok)
  from states_saved [OF assms(3) paths assms(5) b(2), of files] assms(7) [OF b(1)] obtain h where
    h: "save_states T paths (snapshot (ctl_env T) oram, oram_store_auth_state (ctl_env T) oram) (tb_host d) = (Inr (), h)"
    "live h" "state_on_disk T paths (snapshot (ctl_env T) oram) h"
    "\<forall>s. oram_store_auth_state (ctl_env T) oram = Some s \<longrightarrow> auth_on_disk T paths s h"
    "table_on_disk T lay ids key paths p (cuckoo_blocks t (ba_pack a) file) n
      \<lparr>tb_host = h, tb_images = close_stores (co_meta_store oram) (co_payload_store oram) files\<rparr>" by blast
  have "build_circuit_table T a dir t seed d =
      (Inr (), \<lparr>tb_host = h, tb_images = close_stores (co_meta_store oram) (co_payload_store oram) files\<rparr>)"
    using b(1) h(1) by (simp add: build_circuit_table_def paths_def comp_simps)
  moreover have "cs_auth (snapshot (ctl_env T) oram) = oram_store_auth_state (ctl_env T) oram"
    by (simp add: snapshot_def with_auth_def)
  moreover have "oram_store_auth_state (ctl_env T) oram = None \<longleftrightarrow> lay = None"
  proof -
    have "oram_inv (ctl_env T) (ctl_views T lay ids key) (cuckoo_blocks t (ba_pack a) file) oram"
      using b(2) by (simp add: stores_left_def serves_def)
    note st = oram_inv_stores(1,2) [OF this, unfolded views_sel]
    show ?thesis using auth_of_config [OF conjunct2 [OF st(1)] conjunct2 [OF st(2)]]
      by (simp add: oram_store_auth_state_def env_sel)
  qed
  ultimately show ?thesis using b(1) h by fastforce
qed

end
