(* ===== verification/Table_Theorems.thy ===== *)
theory Table_Theorems
  imports Build_Theorems
begin

text \<open>
  The life of a cuckoo table on disk: \<open>build-circuit\<close> leaves it, \<open>verify-circuit-bins\<close> and
  \<open>bench-circuit\<close> open it, answer from it and leave it again. The properties, and an example table that
  goes through all three.
\<close>

section \<open>What the commands promise\<close>

text \<open>
  C16. A build leaves a table. Given a well-formed cuckoo file, sizes that fit the host, a stash
  larger than the number of blocks, no front cache (\<open>--cache-levels 0\<close>), and encoders for the states
  it saves, \<open>build-circuit\<close> succeeds in every layout, encrypted or not. The images it leaves hold the
  packed bins of the source file: the commands that open the table find them. Both state files hold
  what the build made: the controller state, bound to the authentication state if the table has one,
  loads from its file, and so does the authentication state from the file of its own; a table has one
  exactly when it was built with an authentication layout.
\<close>

theorem build_circuit_leaves_table:
  fixes T dir t seed
  defines "ids \<equiv> circuit_auth_store_id (cu_level t)" and "paths \<equiv> circuit_output_paths dir (cu_level t)"
  assumes "ctl_ok T lay key" and "build_ready T a lay t file p (tb_images d)" and "live (tb_host d)" and "n * 2 < 2 ^ 64"
    and "\<And>state auth files. build_states T a t seed (tb_images d) = (Inr (state, auth), files) \<Longrightarrow>
      encodes (ctl_state_codec T) state \<and> (\<forall>s. auth = Some s \<longrightarrow> encodes (ctl_auth_codec T) s)"
  shows "\<exists>d' state auth. build_circuit_table T a dir t seed d = (Inr (), d') \<and>
    table_on_disk T lay ids key paths p (cuckoo_blocks t (ba_pack a) file) n d' \<and>
    build_states T a t seed (tb_images d) = (Inr (state, auth), tb_images d') \<and>
    state_on_disk T paths state (tb_host d') \<and> cs_auth state = auth \<and> (auth = None \<longleftrightarrow> lay = None) \<and>
    (\<forall>s. auth = Some s \<longrightarrow> auth_on_disk T paths s (tb_host d'))"
proof -
  from build_table_ok [OF assms(3-6), of seed dir] assms(7) show ?thesis unfolding ids_def paths_def by blast
qed

text \<open>
  C17. A table that survives its sessions. When the images and the state file of a cuckoo table hold
  the packed bins of the source file, in whatever layout (plain, sidecar or embedded authentication,
  encrypted or not), then \<open>verify-circuit-bins\<close> with any front cache opens it, reads as many random
  bins as asked, finds each equal to the bin in the source file, and reports success; and unless
  \<open>--no-save\<close> is given the files it leaves hold the table again, so that the next session can follow.
\<close>

theorem verify_session_serves:
  fixes T dir t pack bins drain seed
  defines "ids \<equiv> circuit_auth_store_id (cu_level t)" and "paths \<equiv> circuit_output_paths dir (cu_level t)"
  assumes "ctl_ok T lay key" and "cuckoo_source (ctl_sources T) t pack file"
    and "table_on_disk T lay ids key paths p (cuckoo_blocks t pack file) (bins + n) d"
    and "ctl_cache_levels T \<le> height p"
    and "saves_what_it_leaves T ids paths (\<lambda>T. verify_session T paths t pack bins drain seed) d"
  shows "\<exists>report d'. verify_circuit_bin_table T dir t pack bins drain seed d = (Inr report, d') \<and>
    rp_verified report = bins \<and>
    (\<not> ctl_no_save T \<longrightarrow> table_on_disk T lay ids key paths p (cuckoo_blocks t pack file) n d')"
proof -
  let ?D = "cuckoo_blocks t pack file" and ?items = "cuckoo_bins t file" and ?k = "cuckoo_bin_size t"
    and ?E = "ctl_env T" and ?V = "ctl_views T lay ids key"
  obtain rd where rd: "packed_open (ctl_sources T) t pack = Inr rd" "reader_ok t pack file rd" "0 < ?k" "0 < total_bins t"
    "length ?items = total_bins t" "\<And>x. x \<in> set ?items \<Longrightarrow> length x = ?k"
    using cuckoo_source_opens [OF assms(4)] by blast
  have n: "0 < pack" "?k * pack < 2 ^ 64" using assms(4) by (simp_all add: cuckoo_source_def)
  obtain c where c: "cached_pages_for_levels p (ctl_cache_levels T) = Inr c" using cached_pages_exist [OF assms(6)] ..
  have run: "\<exists>pb y oram'. verify_queries T t pack bins drain seed \<lparr>se_oram = oram, se_host = h\<rparr> =
      (Inr (pb, y), \<lparr>se_oram = oram', se_host = h\<rparr>) \<and> ty_verified y = bins \<and> serves ?E ?V ?D n oram' \<and> co_params oram' = p"
    if o: "serves ?E ?V ?D (bins + n) oram" "co_params oram = p" for oram h
  proof -
    have dims: "logical_blocks p = div_ceil (total_bins t) pack" "block_size p = pack * ?k"
      using served_dimensions [OF o(1) _ n(1) rd(6)] rd(4,5) o(2) by simp_all
    let ?br = "\<lparr>cb_level = cu_level t, cb_total_bins = total_bins t, cb_bins_per_block = pack, cb_bin_size = ?k, cb_oram = oram\<rparr>"
    have br: "cuckoo_reader_new t pack oram = Inr ?br"
      using n dims o(2) by (simp add: cuckoo_reader_new_def mult.commute)
    have "bin_reader_ok ?E ?V ?items pack ?k (bins + n) ?br" using o(1) rd n by (simp add: bin_reader_ok_def)
    from verify_bins_ok [OF this rd(2,5,4), of drain "tally_new (ctl_from_seed T seed)"] obtain y br' where
      y: "verify_bins T t drain rd bins (tally_new (ctl_from_seed T seed)) ?br = (Inr y, br')" "ty_verified y = bins"
        "serves ?E ?V ?D n (cb_oram br')" "co_params (cb_oram br') = p"
      using o(2) by (auto simp: tally_new_def bin_reader_ok_def)
    have "schedule_ok (co_schedule oram)" using o(1) by (simp add: serves_def schedule_room_def)
    then obtain pb where "pending_evictions (co_schedule oram) = Inr pb" using pending_evictions_ok by blast
    with br rd(1) y show ?thesis
      by (intro exI [of _ pb] exI [of _ y] exI [of _ "cb_oram br'"])
        (simp add: verify_queries_def with_cuckoo_reader_def comp_simps)
  qed
  show ?thesis
    unfolding verify_circuit_bin_table_def Let_def paths_def [symmetric] ids_def [symmetric]
    by (rule session_closes [where body = "\<lambda>T. verify_session T paths t pack bins drain seed"
        and query = "\<lambda>T. verify_queries T t pack bins drain seed" and k = bins and P = "\<lambda>v _. v = bins", OF assms(3) _ c assms(5) _ _ run assms(7)])
      (simp_all add: verify_no_save verify_session_def paths_def circuit_output_paths_def output_paths_ok)
qed

text \<open>
  C18. Benchmarks on a table. \<open>bench-circuit\<close> on a table on disk, with or without the source file to
  check against, reads as many random blocks as asked, in batches of any size. What it reads is what
  the source holds, whether or not it was given the source: the ids are the first so many that its
  generator draws, and the checksum that it reports is that of the packed bins of the source file at
  these ids. When the source is given it also compares every block read, and counts as many equal
  blocks as it read; without it the count is 0. Unless \<open>--no-save\<close> is given the files it leaves hold
  the table again.
\<close>

theorem bench_session_serves:
  fixes T dir level table pack ops b drain seed
  defines "ids \<equiv> circuit_auth_store_id level" and "paths \<equiv> circuit_output_paths dir level"
  assumes "ctl_ok T lay key" and "cuckoo_source (ctl_sources T) t pack file" and "table = None \<or> table = Some t"
    and "table_on_disk T lay ids key paths p (cuckoo_blocks t pack file) (ops + n) d"
    and "ctl_cache_levels T \<le> height p"
    and "saves_what_it_leaves T ids paths (\<lambda>T. bench_session T paths table pack ops b drain seed) d"
  shows "\<exists>report d'. bench_circuit_table T dir level table pack ops b drain seed d = (Inr report, d') \<and>
    rp_verified report = checks_of table * ops \<and>
    rp_checksum report = checksum_payloads 0 (map (\<lambda>w. cuckoo_blocks t pack file ! unat w)
      (fst (draw_ids (ctl_next_u64 T) (word_of_nat (logical_blocks p)) ops (ctl_from_seed T seed)))) \<and>
    (\<not> ctl_no_save T \<longrightarrow> table_on_disk T lay ids key paths p (cuckoo_blocks t pack file) n d')"
proof -
  let ?D = "cuckoo_blocks t pack file" and ?E = "ctl_env T" and ?V = "ctl_views T lay ids key"
  let ?sum = "checksum_payloads 0 (map (\<lambda>w. ?D ! unat w)
      (fst (draw_ids (ctl_next_u64 T) (word_of_nat (logical_blocks p)) ops (ctl_from_seed T seed))))"
  obtain rd where rd: "packed_open (ctl_sources T) t pack = Inr rd" "reader_ok t pack file rd" "0 < total_bins t"
    "length (cuckoo_bins t file) = total_bins t" "\<And>x. x \<in> set (cuckoo_bins t file) \<Longrightarrow> length x = cuckoo_bin_size t"
    using cuckoo_source_opens [OF assms(4)] by blast
  have n: "0 < pack" using assms(4) by (simp add: cuckoo_source_def)
  obtain c where c: "cached_pages_for_levels p (ctl_cache_levels T) = Inr c" using cached_pages_exist [OF assms(7)] ..
  have run: "\<exists>pb y oram'. bench_queries T table pack ops b drain seed \<lparr>se_oram = oram, se_host = h\<rparr> =
      (Inr (pb, y), \<lparr>se_oram = oram', se_host = h\<rparr>) \<and>
      (ty_verified y = checks_of table * ops \<and> ty_checksum y = ?sum) \<and> serves ?E ?V ?D n oram' \<and> co_params oram' = p"
    if o: "serves ?E ?V ?D (ops + n) oram" "co_params oram = p" for oram h
  proof -
    have dims: "logical_blocks p = div_ceil (total_bins t) pack" "block_size p = pack * cuckoo_bin_size t"
      using served_dimensions [OF o(1) _ n rd(5)] rd(3,4) o(2) by simp_all
    then have pos: "0 < logical_blocks p" using div_ceil_pos [OF rd(3) n] by simp
    define v where "v = (case table of None \<Rightarrow> None | Some _ \<Rightarrow> Some rd)"
    have v: "open_verifier T table pack p = Inr v" "checks_of v = checks_of table" "\<And>r. v = Some r \<Longrightarrow> reader_ok t pack file r"
      using assms(5) rd(1,2) dims
      by (auto simp: open_verifier_def v_def reader_ok_def mult.commute)
    have o': "serves ?E ?V ?D (ops - 0 + n) oram" using o(1) by simp
    from bench_batches_ok [where v = v and drain = drain and b = b and y = "tally_new (ctl_from_seed T seed)",
        OF this o(2) v(3) dims(1) pos rd(4)] obtain y oram' where
      y: "bench_batches T v p drain b ops 0 (tally_new (ctl_from_seed T seed)) oram = (Inr y, oram')"
        "tallied T p ?D v ops (tally_new (ctl_from_seed T seed)) y" "serves ?E ?V ?D n oram'" "co_params oram' = p"
      by (auto simp: tally_new_def)
    have "ty_verified y = checks_of table * ops \<and> ty_checksum y = ?sum"
      using y(2) v(2) by (auto simp: tallied_def tally_new_def split: prod.splits)
    have "schedule_ok (co_schedule oram)" using o(1) by (simp add: serves_def schedule_room_def)
    then obtain pb where "pending_evictions (co_schedule oram) = Inr pb" using pending_evictions_ok by blast
    with v(1) y(1,3,4) o(2) \<open>ty_verified y = checks_of table * ops \<and> ty_checksum y = ?sum\<close> show ?thesis
      by (intro exI [of _ pb] exI [of _ y] exI [of _ oram']) (simp add: bench_queries_def comp_simps)
  qed
  show ?thesis
    unfolding bench_circuit_table_def Let_def paths_def [symmetric] ids_def [symmetric]
    by (rule session_closes [where body = "\<lambda>T. bench_session T paths table pack ops b drain seed"
        and query = "\<lambda>T. bench_queries T table pack ops b drain seed" and k = ops
        and P = "\<lambda>v c. v = checks_of table * ops \<and> c = ?sum", OF assms(3) _ c assms(6) _ _ run assms(8),
        unfolded conj_assoc])
      (simp_all add: bench_no_save bench_session_def paths_def circuit_output_paths_def output_paths_ok)
qed

section \<open>A table of two bins\<close>

definition tiny_ctl where
  "tiny_ctl lay B C =
     \<lparr>ctl_images = \<lparr>ie_hex = (\<lambda>_. Some (replicate 32 0)), ie_aead = tag_cipher, ie_os_rng = 0, ie_encrypted = True,
        ie_key_hex = Some ''00''\<rparr>,
      ctl_sha256 = table_hash [], ctl_ct = bit_choice, ctl_next_u64 = counter_next, ctl_from_seed = (\<lambda>_. 0),
      ctl_state_codec = B, ctl_auth_codec = C, ctl_metadata_codec = (\<lambda>_. Inl Bincode), ctl_state_key_hex = None,
      ctl_cache_levels = 0, ctl_auth_store = (lay \<noteq> (None :: auth_layout_arg option)), ctl_no_save = False,
      ctl_sources = [''db'' \<mapsto> tiny_file]\<rparr>"

definition tiny_args :: "auth_layout_arg option \<Rightarrow> build_args" where
  "tiny_args lay = \<lparr>ba_pack = 1, ba_leaf_divisor = 1, ba_bucket_size = 1, ba_stash_capacity = 3,
     ba_auth_layout = (case lay of None \<Rightarrow> SidecarArg | Some l \<Rightarrow> l), ba_auth_trusted_levels = 1, ba_auth_hash_page_size = 64\<rparr>"

definition tiny_disk :: "nat table_disk" where
  "tiny_disk =
     \<lparr>tb_host = \<lparr>h_files = Map.empty, h_seen = [], h_calls = 0, h_step = (\<lambda>_. Some 1), h_os_rng = 0\<rparr>,
      tb_images = (\<lambda>_. \<lparr>fd_bytes = [], fd_calls = 0, fd_step = (\<lambda>_. Some 1)\<rparr>)\<rparr>"

text \<open>A codec for two values.\<close>

definition pair_codec :: "'a \<Rightarrow> 'a \<Rightarrow> ('a, 'l) bincode" where
  "pair_codec x y = \<lparr>bc_serialize = (\<lambda>s. Some (if s = x then [0] else [1])), bc_early = (\<lambda>_. 0),
     bc_deserialize = (\<lambda>bs. Some (if bs = [0] then x else y)), bc_deserialize_legacy = (\<lambda>_. None)\<rparr>"

lemma pair_codec_encodes: "s = x \<or> s = y \<Longrightarrow> encodes (pair_codec x y) s"
  by (auto simp: pair_codec_def encodes_def aead_message_limit_def)

lemma tiny_ctl_ok: "ctl_ok (tiny_ctl lay B C) lay (Some (replicate 32 0))"
  by (simp add: ctl_ok_def tiny_ctl_def tag_cipher.aead_spec_axioms table_hash.sha256_spec_axioms
      bit_choice.subtle_spec_axioms key_opens_def parse_required_key_def parse_32_hex_def)

lemma tiny_build_params: "build_params (tiny_ctl lay B C) (tiny_args lay) tiny_table = Inr tiny_params"
proof -
  have pow: "checked_next_power_of_two 2 = Some 2"
    by (simp add: checked_next_power_of_two_def Let_def pow2_at_least.simps)
  have bits: "trailing_zeros 2 = 1" using trailing_zeros_power [of 1] by simp
  have two: "is_power_of_two 2" by (simp add: is_power_of_two.simps)
  show ?thesis
    by (simp add: build_params_def sizing_of_def estimate_params_def cuckoo_estimate_sizes_def estimate_image_def tiny_args_def tiny_ctl_def tiny_sizes
        div_ceil_def next_power_of_two_or_err_def pow sizing_params_def with_leaves_def two with_bucket_size_def
        with_stash_capacity_def height_def leaf_bits_def bits estimate_fields_def Let_def image_estimate.defs tiny_params_def)
qed

lemma tiny_sidecar: "required_hash_pages 3 64 1 = Inr 3"
proof -
  have "checked_next_power_of_two 3 = Some 4"
    by (simp add: checked_next_power_of_two_def Let_def pow2_at_least.simps)
  moreover have "trailing_zeros 4 = 2" using trailing_zeros_power [of 2] by simp
  ultimately show ?thesis
    by (simp add: required_hash_pages_def leaf_base_for_page_count_def trusted_node_limit_def
        hashes_per_page_def disk_hash_nodes_def pages_for_hash_nodes_def div_ceil_def Let_def)
qed

lemma tiny_ready: "build_ready (tiny_ctl lay B C) (tiny_args lay) lay tiny_table tiny_file tiny_params (tb_images tiny_disk)"
proof -
  have "bucket_count tiny_params = 3" by (simp add: bucket_count_def tiny_params_def)
  then have fits: "build_fits (tiny_args lay) lay tiny_params"
    using tiny_sidecar
    by (auto simp: build_fits_def tiny_args_def tiny_params_def circuit_meta_page_bytes_def circuit_payload_page_bytes_def
        image_fits_def aead_message_limit_def AEAD_OVERHEAD_def auth_bytes)
  have "cu_level tiny_table = CuckooChunk" "cu_path tiny_table = ''db''" by (simp_all add: tiny_table_def)
  then have "cuckoo_source (ctl_sources (tiny_ctl lay B C)) tiny_table (ba_pack (tiny_args lay)) tiny_file"
    using tiny_opens by (simp add: cuckoo_source_def tiny_ctl_def tiny_args_def tiny_sizes)
  with fits tiny_build_params show ?thesis
    by (simp add: build_ready_def build_room_def tiny_args_def tiny_disk_def fd_live_def)
     (simp add: tiny_ctl_def tiny_params_def)
qed

text \<open>What the build of the example saves.\<close>

definition tiny_states where
  "tiny_states lay = fst (build_states (tiny_ctl lay undefined undefined) (tiny_args lay) tiny_table [] (tb_images tiny_disk))"

lemma build_data_codec: "build_data (T\<lparr>ctl_state_codec := B, ctl_auth_codec := C\<rparr>) = build_data T"
proof -
  have "data_env (T\<lparr>ctl_state_codec := B, ctl_auth_codec := C\<rparr>) = data_env T" by (simp add: data_env_def)
  then show ?thesis by (intro ext) (simp add: build_data_def)
qed

lemma build_states_codec: "build_states (T\<lparr>ctl_state_codec := B, ctl_auth_codec := C\<rparr>) = build_states T"
proof -
  let ?T = "T\<lparr>ctl_state_codec := B, ctl_auth_codec := C\<rparr>"
  have "build_params ?T = build_params T" by (intro ext) (simp add: build_params_def sizing_of_def)
  moreover have "build_auth ?T = build_auth T" by (intro ext) (simp add: build_auth_def)
  ultimately show ?thesis by (intro ext) (simp add: build_states_def build_data_codec)
qed

lemma tiny_states_codec:
  "fst (build_states (tiny_ctl lay B C) (tiny_args lay) tiny_table [] (tb_images tiny_disk)) = tiny_states lay"
proof -
  have "tiny_ctl lay B C = (tiny_ctl lay undefined undefined)\<lparr>ctl_state_codec := B, ctl_auth_codec := C\<rparr>"
    by (simp add: tiny_ctl_def)
  then have "build_states (tiny_ctl lay B C) = build_states (tiny_ctl lay undefined undefined)"
    by (simp only: build_states_codec)
  then show ?thesis by (simp add: tiny_states_def)
qed

definition tiny_state where
  "tiny_state lay = (case tiny_states lay of Inl e \<Rightarrow> undefined | Inr (s, auth) \<Rightarrow> s)"

definition tiny_auth where
  "tiny_auth lay = (case tiny_states lay of Inr (s, Some auth) \<Rightarrow> auth | _ \<Rightarrow> undefined)"

definition tiny_ctl_for where
  "tiny_ctl_for lay s a = tiny_ctl lay (pair_codec (tiny_state lay) s) (pair_codec (tiny_auth lay) a)"

lemma tiny_saves:
  assumes "build_states (tiny_ctl_for lay s a) (tiny_args lay) tiny_table [] (tb_images tiny_disk) = (Inr (state, auth), files)"
  shows "state = tiny_state lay" and "auth = Some x \<Longrightarrow> x = tiny_auth lay"
    and "encodes (ctl_state_codec (tiny_ctl_for lay s a)) state \<and> (\<forall>x. auth = Some x \<longrightarrow> encodes (ctl_auth_codec (tiny_ctl_for lay s a)) x)"
proof -
  have "tiny_states lay = Inr (state, auth)"
    using tiny_states_codec [of lay] assms unfolding tiny_ctl_for_def by (metis fst_conv)
  then show s: "state = tiny_state lay" and a: "auth = Some x \<Longrightarrow> x = tiny_auth lay" for x
    by (simp_all add: tiny_state_def tiny_auth_def)
  then show "encodes (ctl_state_codec (tiny_ctl_for lay s a)) state \<and>
      (\<forall>x. auth = Some x \<longrightarrow> encodes (ctl_auth_codec (tiny_ctl_for lay s a)) x)"
    by (auto simp: tiny_ctl_for_def tiny_ctl_def intro!: pair_codec_encodes)
qed

lemma tiny_live: "live (tb_host tiny_disk)"
  by (simp add: live_def tiny_disk_def)

theorem build_circuit_leaves_table_witness:
  "let lay = Some EmbeddedTreeArg; T = tiny_ctl_for lay (tiny_state lay) (tiny_auth lay) in
    \<exists>d. build_circuit_table T (tiny_args lay) [] tiny_table [] tiny_disk = (Inr (), d) \<and>
      table_on_disk T lay (circuit_auth_store_id CuckooChunk) (Some (replicate 32 0)) (circuit_output_paths [] CuckooChunk)
        tiny_params (cuckoo_blocks tiny_table 1 tiny_file) 9 d \<and>
      state_on_disk T (circuit_output_paths [] CuckooChunk) (tiny_state lay) (tb_host d) \<and>
      auth_on_disk T (circuit_output_paths [] CuckooChunk) (tiny_auth lay) (tb_host d)"
proof -
  let ?l = "Some EmbeddedTreeArg"
  let ?T = "tiny_ctl_for ?l (tiny_state ?l) (tiny_auth ?l)"
  have T: "ctl_ok ?T ?l (Some (replicate 32 0))"
    "build_ready ?T (tiny_args ?l) ?l tiny_table tiny_file tiny_params (tb_images tiny_disk)"
    unfolding tiny_ctl_for_def by (rule tiny_ctl_ok, rule tiny_ready)
  have "cu_level tiny_table = CuckooChunk" "ba_pack (tiny_args ?l) = 1" by (simp_all add: tiny_table_def tiny_args_def)
  note level = this
  have nine: "(9 :: nat) * 2 < 2 ^ 64" by simp
  have enc: "encodes (ctl_state_codec ?T) state \<and> (\<forall>x. auth = Some x \<longrightarrow> encodes (ctl_auth_codec ?T) x)"
    if "build_states ?T (tiny_args ?l) tiny_table [] (tb_images tiny_disk) = (Inr (state, auth), files)" for state auth files
    using that by (rule tiny_saves(3))
  obtain d state a where d: "build_circuit_table ?T (tiny_args ?l) [] tiny_table [] tiny_disk = (Inr (), d)"
    "table_on_disk ?T ?l (circuit_auth_store_id CuckooChunk) (Some (replicate 32 0)) (circuit_output_paths [] CuckooChunk)
      tiny_params (cuckoo_blocks tiny_table 1 tiny_file) 9 d"
    "build_states ?T (tiny_args ?l) tiny_table [] (tb_images tiny_disk) = (Inr (state, a), tb_images d)"
    "state_on_disk ?T (circuit_output_paths [] CuckooChunk) state (tb_host d)"
    "a = None \<longleftrightarrow> ?l = None" "\<forall>s. a = Some s \<longrightarrow> auth_on_disk ?T (circuit_output_paths [] CuckooChunk) s (tb_host d)"
  proof -
    have "\<exists>d' state auth. build_circuit_table ?T (tiny_args ?l) [] tiny_table [] tiny_disk = (Inr (), d') \<and>
      table_on_disk ?T ?l (circuit_auth_store_id (cu_level tiny_table)) (Some (replicate 32 0))
        (circuit_output_paths [] (cu_level tiny_table)) tiny_params (cuckoo_blocks tiny_table (ba_pack (tiny_args ?l)) tiny_file) 9 d' \<and>
      build_states ?T (tiny_args ?l) tiny_table [] (tb_images tiny_disk) = (Inr (state, auth), tb_images d') \<and>
      state_on_disk ?T (circuit_output_paths [] (cu_level tiny_table)) state (tb_host d') \<and> cs_auth state = auth \<and>
      (auth = None \<longleftrightarrow> ?l = None) \<and>
      (\<forall>s. auth = Some s \<longrightarrow> auth_on_disk ?T (circuit_output_paths [] (cu_level tiny_table)) s (tb_host d'))"
      by (rule build_circuit_leaves_table [OF T tiny_live nine]) (rule enc)
    then show thesis unfolding level by (elim exE conjE) (rule that)
  qed
  from d(5) obtain auth where "a = Some auth" by auto
  with d(6) have "auth_on_disk ?T (circuit_output_paths [] CuckooChunk) auth (tb_host d)" by simp
  moreover have "state = tiny_state ?l" "auth = tiny_auth ?l" using tiny_saves(1,2) [OF d(3)] \<open>a = Some auth\<close> by simp_all
  ultimately have "auth_on_disk ?T (circuit_output_paths [] CuckooChunk) (tiny_auth ?l) (tb_host d)"
    "state_on_disk ?T (circuit_output_paths [] CuckooChunk) (tiny_state ?l) (tb_host d)" using d(4) by simp_all
  with d(1,2) show ?thesis unfolding Let_def by (intro exI [of _ d] conjI)
qed

section \<open>A session on the example\<close>

text \<open>Neither the build nor an opening depends on what the codec would do to other states.\<close>

lemma save_pair_codec: "save_atomic (pair_codec x y) = save_atomic (pair_codec x z)"
  by (intro ext) (simp add: save_atomic_def pair_codec_def)

lemma tiny_build_codec:
  "build_circuit_table (tiny_ctl_for lay s a) = build_circuit_table (tiny_ctl_for lay s' a')"
proof -
  let ?T = "tiny_ctl_for lay s a" and ?T' = "tiny_ctl_for lay s' a'"
  have "?T = ?T'\<lparr>ctl_state_codec := pair_codec (tiny_state lay) s, ctl_auth_codec := pair_codec (tiny_auth lay) a\<rparr>"
    by (simp add: tiny_ctl_for_def tiny_ctl_def)
  then have "build_states ?T = build_states ?T'" by (simp only: build_states_codec)
  moreover have "ctl_images ?T = ctl_images ?T'" "ctl_state_key_hex ?T = None" "ctl_state_key_hex ?T' = None"
    by (simp_all add: tiny_ctl_for_def tiny_ctl_def)
  moreover have "(save_atomic (ctl_state_codec ?T) :: _ \<Rightarrow> _ \<Rightarrow> (nat host, unit) comp) = save_atomic (ctl_state_codec ?T')"
    "(save_atomic (ctl_auth_codec ?T) :: _ \<Rightarrow> _ \<Rightarrow> (nat host, unit) comp) = save_atomic (ctl_auth_codec ?T')"
    unfolding tiny_ctl_for_def tiny_ctl_def by (simp_all add: save_pair_codec [of _ s s'] save_pair_codec [of _ a a'])
  ultimately show ?thesis
    by (intro ext) (simp add: build_circuit_table_def save_states_def save_circuit_state_def save_circuit_store_auth_def Let_def
        cong: option.case_cong)
qed

lemma load_snd: "snd (load f p h) = snd (load g p h)"
  by (cases "fs_read p h") (auto simp: load_def bnd_def lift_def split: sum.split)

lemma open_table_codec:
  assumes "load_circuit_state (ie_hex (ctl_images T)) (ie_aead (ctl_images T)) B (op_state paths) (ctl_state_key_hex T) (tb_host d) =
      load_circuit_state (ie_hex (ctl_images T)) (ie_aead (ctl_images T)) (ctl_state_codec T) (op_state paths) (ctl_state_key_hex T) (tb_host d)"
    and "\<not> ctl_auth_store T"
  shows "open_table (T\<lparr>ctl_state_codec := B, ctl_auth_codec := C\<rparr>) ids paths d = open_table T ids paths d"
proof -
  let ?T = "T\<lparr>ctl_state_codec := B, ctl_auth_codec := C\<rparr>"
  have "ctl_env ?T = ctl_env T" by (simp add: ctl_env_def)
  moreover have "sidecar_auth ?T paths bound = sidecar_auth T paths bound" for bound
    using assms(2) by (intro ext) (simp add: sidecar_auth_def)
  ultimately show ?thesis
    using assms(1) unfolding open_table_def Let_def
    by (simp add: bnd_def zoom_def split: prod.split sum.split)
qed

lemma env_codec: "ctl_env (T\<lparr>ctl_state_codec := B, ctl_auth_codec := C\<rparr>) = ctl_env T"
  by (simp add: ctl_env_def)

lemma verify_queries_codec: "verify_queries (T\<lparr>ctl_state_codec := B, ctl_auth_codec := C\<rparr>) = verify_queries T"
proof -
  let ?T = "T\<lparr>ctl_state_codec := B, ctl_auth_codec := C\<rparr>"
  have bin: "verify_bin ?T = verify_bin T" by (intro ext) (simp add: verify_bin_def env_codec)
  have "verify_bins ?T t dr rd n = verify_bins T t dr rd n" for t dr rd n
    by (induction n) (rule ext, simp add: bin)+
  then have "verify_bins ?T = verify_bins T" by (simp add: fun_eq_iff)
  then show ?thesis by (intro ext) (simp add: verify_queries_def)
qed

lemma end_codec:
  "save_session ((T\<lparr>ctl_state_codec := B, ctl_auth_codec := C\<rparr>)\<lparr>ctl_no_save := True\<rparr>) = save_session (T\<lparr>ctl_no_save := True\<rparr>)"
  "finish_report ((T\<lparr>ctl_state_codec := B, ctl_auth_codec := C\<rparr>)\<lparr>ctl_no_save := True\<rparr>) = finish_report (T\<lparr>ctl_no_save := True\<rparr>)"
proof -
  let ?T = "T\<lparr>ctl_state_codec := B, ctl_auth_codec := C\<rparr>"
  have "ctl_env (?T\<lparr>ctl_no_save := True\<rparr>) = ctl_env (T\<lparr>ctl_no_save := True\<rparr>)"
    by (simp only: env_no_save env_codec)
  then show "save_session (?T\<lparr>ctl_no_save := True\<rparr>) = save_session (T\<lparr>ctl_no_save := True\<rparr>)"
    by (intro ext) (simp add: save_session_def Let_def)
  show "finish_report (?T\<lparr>ctl_no_save := True\<rparr>) = finish_report (T\<lparr>ctl_no_save := True\<rparr>)"
    by (intro ext) (simp add: finish_report_def)
qed

lemma verify_session_codec:
  "verify_session ((T\<lparr>ctl_state_codec := B, ctl_auth_codec := C\<rparr>)\<lparr>ctl_no_save := True\<rparr>) =
    verify_session (T\<lparr>ctl_no_save := True\<rparr>)"
  by (intro ext) (simp only: verify_session_def verify_no_save verify_queries_codec end_codec)

lemma bench_queries_codec: "bench_queries (T\<lparr>ctl_state_codec := B, ctl_auth_codec := C\<rparr>) = bench_queries T"
proof -
  let ?T = "T\<lparr>ctl_state_codec := B, ctl_auth_codec := C\<rparr>"
  have batch: "bench_batch ?T = bench_batch T" by (intro ext) (simp add: bench_batch_def env_codec)
  have "bench_batches ?T v p dr k ops i y = bench_batches T v p dr k ops i y" for v p dr k ops i y
  proof (induction "ops - i" arbitrary: i y rule: less_induct)
    case less
    show ?case
      by (rule ext, subst (1 2) bench_batches.simps) (simp add: batch less Let_def bnd_def split: prod.split sum.split)
  qed
  then have "bench_batches ?T = bench_batches T" by (simp add: fun_eq_iff)
  then show ?thesis by (intro ext) (simp add: bench_queries_def open_verifier_def cong: option.case_cong)
qed

lemma bench_session_codec:
  "bench_session ((T\<lparr>ctl_state_codec := B, ctl_auth_codec := C\<rparr>)\<lparr>ctl_no_save := True\<rparr>) =
    bench_session (T\<lparr>ctl_no_save := True\<rparr>)"
  by (intro ext) (simp only: bench_session_def bench_no_save bench_queries_codec end_codec)

text \<open>The table that the build leaves, and the controller that the session leaves.\<close>

definition tiny_table_disk :: "nat table_disk" where
  "tiny_table_disk =
     snd (build_circuit_table (tiny_ctl_for None undefined undefined) (tiny_args None) [] tiny_table [] tiny_disk)"

definition tiny_left where
  "tiny_left body = session_leaves (tiny_ctl_for None undefined undefined) (circuit_auth_store_id CuckooChunk)
     (circuit_output_paths [] CuckooChunk) body tiny_table_disk"

definition tiny_saved_ctl where
  "tiny_saved_ctl body = (let E = ctl_env (tiny_ctl_for None undefined undefined); oram = the (tiny_left body) in
     tiny_ctl_for None (snapshot E oram) (the (oram_store_auth_state E oram)))"

lemma tiny_built:
  fixes s a
  defines "T \<equiv> tiny_ctl_for None s a"
  shows "table_on_disk T None (circuit_auth_store_id CuckooChunk) (Some (replicate 32 0)) (circuit_output_paths [] CuckooChunk)
      tiny_params (cuckoo_blocks tiny_table 1 tiny_file) 9 tiny_table_disk"
    and "fst (load_circuit_state (ie_hex (ctl_images T)) (ie_aead (ctl_images T)) (ctl_state_codec T)
      (op_state (circuit_output_paths [] CuckooChunk)) (ctl_state_key_hex T) (tb_host tiny_table_disk)) = Inr (tiny_state None)"
proof -
  have T: "ctl_ok T None (Some (replicate 32 0))"
    "build_ready T (tiny_args None) None tiny_table tiny_file tiny_params (tb_images tiny_disk)"
    unfolding T_def tiny_ctl_for_def by (rule tiny_ctl_ok, rule tiny_ready)
  have c: "cu_level tiny_table = CuckooChunk" "ba_pack (tiny_args None) = 1" by (simp_all add: tiny_table_def tiny_args_def)
  have enc: "encodes (ctl_state_codec T) state \<and> (\<forall>x. auth = Some x \<longrightarrow> encodes (ctl_auth_codec T) x)"
    if "build_states T (tiny_args None) tiny_table [] (tb_images tiny_disk) = (Inr (state, auth), files)" for state auth files
    using that unfolding T_def by (rule tiny_saves(3))
  obtain d state auth where d: "build_circuit_table T (tiny_args None) [] tiny_table [] tiny_disk = (Inr (), d)"
    "table_on_disk T None (circuit_auth_store_id CuckooChunk) (Some (replicate 32 0)) (circuit_output_paths [] CuckooChunk)
      tiny_params (cuckoo_blocks tiny_table 1 tiny_file) 9 d"
    "build_states T (tiny_args None) tiny_table [] (tb_images tiny_disk) = (Inr (state, auth), tb_images d)"
    "state_on_disk T (circuit_output_paths [] CuckooChunk) state (tb_host d)"
    using build_table_ok [where n = 9 and seed = "[]" and dir = "[]", OF T tiny_live] enc c by auto
  have "d = tiny_table_disk"
    using d(1) tiny_build_codec [of None s a undefined undefined] by (simp add: tiny_table_disk_def T_def)
  with d(2) show "table_on_disk T None (circuit_auth_store_id CuckooChunk) (Some (replicate 32 0))
      (circuit_output_paths [] CuckooChunk) tiny_params (cuckoo_blocks tiny_table 1 tiny_file) 9 tiny_table_disk" by simp
  have "state = tiny_state None" using d(3) unfolding T_def by (rule tiny_saves(1))
  moreover have "live (tb_host d)" using d(2) by (simp add: table_on_disk_def)
  ultimately show "fst (load_circuit_state (ie_hex (ctl_images T)) (ie_aead (ctl_images T))
      (ctl_state_codec T) (op_state (circuit_output_paths [] CuckooChunk)) (ctl_state_key_hex T) (tb_host tiny_table_disk)) =
      Inr (tiny_state None)"
    using d(4) \<open>d = tiny_table_disk\<close> unfolding state_on_disk_def live_def by (metis option.distinct(1))
qed

lemma tiny_saves_what_it_leaves:
  assumes "\<And>T B C. body ((T\<lparr>ctl_state_codec := B, ctl_auth_codec := C\<rparr>)\<lparr>ctl_no_save := True\<rparr>) = body (T\<lparr>ctl_no_save := True\<rparr>)"
  shows   "saves_what_it_leaves (tiny_saved_ctl body) (circuit_auth_store_id CuckooChunk) (circuit_output_paths [] CuckooChunk) body
    tiny_table_disk"
proof -
  let ?T = "tiny_ctl_for None undefined undefined" and ?ids = "circuit_auth_store_id CuckooChunk"
    and ?paths = "circuit_output_paths [] CuckooChunk"
  define s where "s = snapshot (ctl_env ?T) (the (tiny_left body))"
  define a where "a = the (oram_store_auth_state (ctl_env ?T) (the (tiny_left body)))"
  have T: "tiny_saved_ctl body = tiny_ctl_for None s a" by (simp add: tiny_saved_ctl_def Let_def s_def a_def)
  let ?B = "pair_codec (tiny_state None) s" and ?C = "pair_codec (tiny_auth None) a"
  have upd: "tiny_saved_ctl body = ?T\<lparr>ctl_state_codec := ?B, ctl_auth_codec := ?C\<rparr>"
    unfolding T by (simp add: tiny_ctl_for_def tiny_ctl_def)
  have par: "ctl_images ?T = ctl_images (tiny_saved_ctl body)" "ctl_state_key_hex ?T = None" "ctl_state_key_hex (tiny_saved_ctl body) = None"
    "ctl_state_codec (tiny_saved_ctl body) = ?B"
    by (simp_all add: T tiny_ctl_for_def tiny_ctl_def)
  have "fst (circuit_state_load ?B (op_state ?paths) (tb_host tiny_table_disk)) =
      fst (circuit_state_load (ctl_state_codec ?T) (op_state ?paths) (tb_host tiny_table_disk))"
    using tiny_built(2) [of s a, folded T] tiny_built(2) [of undefined undefined] par
    by (simp add: load_circuit_state_def)
  moreover have "snd (circuit_state_load ?B (op_state ?paths) (tb_host tiny_table_disk)) =
      snd (circuit_state_load (ctl_state_codec ?T) (op_state ?paths) (tb_host tiny_table_disk))"
    unfolding circuit_state_load_def by (rule load_snd)
  ultimately have load: "circuit_state_load ?B (op_state ?paths) (tb_host tiny_table_disk) =
      circuit_state_load (ctl_state_codec ?T) (op_state ?paths) (tb_host tiny_table_disk)"
    by (rule prod_eqI)
  have "open_table (tiny_saved_ctl body) ?ids ?paths tiny_table_disk = open_table ?T ?ids ?paths tiny_table_disk"
    unfolding upd using load par(2)
    by (intro open_table_codec) (simp_all add: load_circuit_state_def, simp add: tiny_ctl_for_def tiny_ctl_def)
  moreover have "body ((tiny_saved_ctl body)\<lparr>ctl_no_save := True\<rparr>) = body (?T\<lparr>ctl_no_save := True\<rparr>)"
    unfolding upd by (rule assms)
  ultimately have left: "session_leaves (tiny_saved_ctl body) ?ids ?paths body tiny_table_disk = tiny_left body"
    by (simp only: tiny_left_def session_leaves_def)
  have env: "ctl_env (tiny_saved_ctl body) = ctl_env ?T" unfolding upd by (rule env_codec)
  have "savable (tiny_saved_ctl body) (the (tiny_left body))"
    unfolding savable_def env
    by (auto simp: T tiny_ctl_for_def tiny_ctl_def s_def a_def intro!: pair_codec_encodes)
  then have "\<And>oram. tiny_left body = Some oram \<Longrightarrow> savable (tiny_saved_ctl body) oram" by (metis option.sel)
  then show ?thesis unfolding saves_what_it_leaves_def left by (simp split: option.split)
qed

text \<open>The example's invocation for a session.\<close>

lemma tiny_session:
  fixes body
  defines "T \<equiv> tiny_saved_ctl body" and "ids \<equiv> circuit_auth_store_id CuckooChunk"
    and "paths \<equiv> circuit_output_paths [] CuckooChunk"
  shows "ctl_ok T None (Some (replicate 32 0))" "cuckoo_source (ctl_sources T) tiny_table 1 tiny_file"
    "\<not> ctl_no_save T" "ctl_cache_levels T \<le> height tiny_params"
    "table_on_disk T None ids (Some (replicate 32 0)) paths tiny_params (cuckoo_blocks tiny_table 1 tiny_file) (3 + 6)
      tiny_table_disk"
proof -
  obtain s a where T: "T = tiny_ctl_for None s a" by (auto simp: T_def tiny_saved_ctl_def Let_def)
  show "ctl_ok T None (Some (replicate 32 0))" unfolding T tiny_ctl_for_def by (rule tiny_ctl_ok)
  have "build_ready T (tiny_args None) None tiny_table tiny_file tiny_params (tb_images tiny_disk)"
    unfolding T tiny_ctl_for_def by (rule tiny_ready)
  then show "cuckoo_source (ctl_sources T) tiny_table 1 tiny_file" by (simp add: build_ready_def tiny_args_def)
  show "\<not> ctl_no_save T" "ctl_cache_levels T \<le> height tiny_params"
    by (simp_all add: T tiny_ctl_for_def tiny_ctl_def)
  show "table_on_disk T None ids (Some (replicate 32 0)) paths tiny_params (cuckoo_blocks tiny_table 1 tiny_file) (3 + 6)
      tiny_table_disk"
    using tiny_built(1) [of s a] by (simp add: T ids_def paths_def)
qed

abbreviation tiny_verify where
  "tiny_verify T \<equiv> verify_session T (circuit_output_paths [] CuckooChunk) tiny_table 1 3 2 []"

abbreviation tiny_bench where
  "tiny_bench T \<equiv> bench_session T (circuit_output_paths [] CuckooChunk) (Some tiny_table) 1 3 1 2 []"

theorem verify_session_serves_witness:
  "\<exists>report d. verify_circuit_bin_table (tiny_saved_ctl tiny_verify) [] tiny_table 1 3 2 [] tiny_table_disk = (Inr report, d) \<and>
    rp_verified report = 3 \<and>
    table_on_disk (tiny_saved_ctl tiny_verify) None (circuit_auth_store_id CuckooChunk) (Some (replicate 32 0))
      (circuit_output_paths [] CuckooChunk) tiny_params (cuckoo_blocks tiny_table 1 tiny_file) 6 d"
proof -
  note T = tiny_session [of tiny_verify]
  have level: "cu_level tiny_table = CuckooChunk" by (simp add: tiny_table_def)
  have leaves: "saves_what_it_leaves (tiny_saved_ctl tiny_verify) (circuit_auth_store_id CuckooChunk)
      (circuit_output_paths [] CuckooChunk) tiny_verify tiny_table_disk"
    by (rule tiny_saves_what_it_leaves) (simp only: verify_session_codec)
  from verify_session_serves [where t = tiny_table and dir = "[]", unfolded level, OF T(1,2,5,4) leaves] T(3)
  show ?thesis by auto
qed

theorem bench_session_serves_witness:
  "\<exists>report d. bench_circuit_table (tiny_saved_ctl tiny_bench) [] CuckooChunk (Some tiny_table) 1 3 1 2 [] tiny_table_disk =
      (Inr report, d) \<and>
    rp_verified report = 3 \<and>
    rp_checksum report = checksum_payloads 0 (map (\<lambda>w. cuckoo_blocks tiny_table 1 tiny_file ! unat w)
      (fst (draw_ids counter_next 2 3 0))) \<and>
    table_on_disk (tiny_saved_ctl tiny_bench) None (circuit_auth_store_id CuckooChunk) (Some (replicate 32 0))
      (circuit_output_paths [] CuckooChunk) tiny_params (cuckoo_blocks tiny_table 1 tiny_file) 6 d"
proof -
  note T = tiny_session [of tiny_bench]
  have leaves: "saves_what_it_leaves (tiny_saved_ctl tiny_bench) (circuit_auth_store_id CuckooChunk)
      (circuit_output_paths [] CuckooChunk) tiny_bench tiny_table_disk"
    by (rule tiny_saves_what_it_leaves) (simp only: bench_session_codec)
  have lib: "ctl_next_u64 (tiny_saved_ctl tiny_bench) = counter_next" "ctl_from_seed (tiny_saved_ctl tiny_bench) [] = 0"
    "logical_blocks tiny_params = 2"
    by (simp_all add: tiny_saved_ctl_def tiny_ctl_for_def tiny_ctl_def tiny_params_def Let_def)
  from bench_session_serves [where dir = "[]", OF T(1,2) _ T(5,4) leaves] T(3) lib show ?thesis by auto
qed

end
