(* ===== verification/Spec2Isabelle.thy ===== *)
theory Spec2Isabelle
  imports Store_Wrappers File_Refinement Circuit_Theorems Circuit_Trace Tiered_Theorems Embedded_Theorems Cuckoo_Theorems Direct_Theorems Direct_Chunks State_Persistence Ring_Theorems
    Table_Theorems
begin

text \<open>
  A verification of the oblivious RAM of this repository (crate \<open>bitcoinpir-oram\<close>, sources under
  src/src).

  The program. A Circuit ORAM controller (circuit.rs) keeps an array of fixed-size blocks in two
  page images, one of slot metadata and one of payloads, arranged as a binary tree of buckets. The
  position map, a bounded stash, the generator and a public eviction schedule stay in trusted
  memory. The images are page stores (store.rs): files, wrapped by page encryption (aead.rs), by a
  trusted cache of the first pages, by Merkle trees held beside the pages (merkle.rs) or inside
  them (embedded_tree.rs). The controller is built from tables of packed bins (cuckoo.rs) or of
  individual records (direct.rs) and serves lookups in them; its trusted state is saved and
  reloaded (state.rs). Two simulators predict stash occupancy and cost (stress.rs,
  ring_stress.rs). The command line (bin/oramctl.rs) puts the parts together.

  How it is modelled. Structs are records, enums datatypes, a method behind \<open>&mut self\<close> is a
  computation \<open>('s, 'a) comp\<close> that returns the state on the error path too, a fallible pure
  function returns \<open>error + 'a\<close>. Integers of 8, 32 and 64 bits are words. A \<open>usize\<close> is a natural
  number; where the code multiplies or adds unchecked values that nothing has bounded, the model
  wraps at 64 bits (\<open>usize_mul\<close>, \<open>usize_add\<close>), and the checked operations fail there. A panic is
  the error value \<open>Panic\<close>. Error messages are their format strings. Traits are records of
  operations (\<open>page_store\<close>, \<open>path_page_store\<close>, \<open>block_source\<close>), and wrappers take the record of
  what they wrap, as the generic Rust types do.

  The theories, in the order of dependency:

  \<^item> Oram_Prelude: machine types, the error type, results and computations, word and list lemmas.
  \<^item> Constant_Time (ct.rs), Oram_Block (block.rs), Oram_Params (params.rs): branch-free selection
    over the interface of the crate \<open>subtle\<close>; blocks and their encoding; the geometry of the tree.
  \<^item> Eviction_Schedule (circuit.rs): the schedule, its overflow checks, and the order of leaves.
  \<^item> Page_Store, Store_Wrappers, File_Store, File_Refinement (store.rs): the traits and their
    contracts (the locales \<open>page_io\<close>, \<open>page_store_spec\<close>, \<open>path_store_spec\<close>), the memory store, the
    front cache, the tracing store, and the file store with its batches of runs over an operating
    system that may shorten any transfer and fail any call, opening and resizing included.
  \<^item> Circuit_Buckets, Circuit_Stash, Circuit_Eviction, Circuit_Oram, Circuit_Build (circuit.rs): the
    bucket pages, the scans of the stash and position map, the eviction planner and the controller
    with all its operations, as the code has them.
  \<^item> Greedy_Eviction, Eviction_Refinement: a plain description of an eviction on blocks, and the
    proof that the branch-free planner on pages implements it.
  \<^item> Circuit_Invariant, Circuit_Correct, Circuit_Batch, Circuit_Theorems, Circuit_Trace: the
    invariant (every block once, on the path of its leaf or in the stash), each operation against
    it, refinement of a plain array, and the storage trace.
  \<^item> Oram_State, State_Files, State_Persistence (state.rs and the functions of oramctl.rs that
    choose between plain and sealed state): the trusted state, its encodings, and the atomic save
    on a file system with a history.
  \<^item> Aead_Store (aead.rs); Merkle_Hash, Merkle_Store, Tiered_Merkle, Tiered_Theorems (merkle.rs);
    Embedded_Tree, Embedded_Auth, Embedded_Theorems (embedded_tree.rs): the protecting stores.
  \<^item> Packed_Blocks: packing of items into blocks, and what a controller over packed blocks serves;
    Oram_Sizing, Cuckoo_Table, Cuckoo_Theorems (cuckoo.rs).
  \<^item> Direct_Table, Direct_Cuckoo, Direct_Placement, Direct_Reader, Direct_Index, Direct_Lookup,
    Direct_Theorems, Direct_Chunks (direct.rs): files and metadata, the candidate bins, the
    placement by evictions, the readers and the lookups from the index file to the answer.
  \<^item> Image_Stores, Store_Frames, Image_Contracts, Image_Reopen, Table_Reopen (bin/oramctl.rs): the
    stores that the commands stack on a file (cipher, hash tree, cache, authentication layout),
    their contracts, and opening and reopening the images of a table.
  \<^item> Table_Sessions, Session_Core, Session_Theorems (bin/oramctl.rs): the commands that use a table
    (\<open>verify-circuit-bins\<close>, \<open>bench-circuit\<close>, \<open>bench-direct\<close>), with the load and save of the state.
  \<^item> Table_Build, Build_Core, Build_Theorems, Table_Theorems (bin/oramctl.rs): \<open>build-circuit\<close>, from
    the cuckoo file to the images and states on disk, and its composition with the sessions.
  \<^item> Stress_Sim, Stress_Invariant, Circuit_Stress, Stress_Theorems (stress.rs); Ring_Stress,
    Ring_Theorems (ring_stress.rs): the simulated tree, the two runs, statistics and estimates.

  What is proved. The controller refines an array: any run of accesses, batches, dummies, evictions
  and flushes returns what the array returns, without error when the stash is roomy and the
  counters last; a batch equals its accesses in sequence; overflow of the stash leaves everything
  unchanged. Its storage trace depends only on drawn leaves, the budgets of background evictions and
  public counters, the number of evictions included. Every store meets
  the page-store contract over any store that does; over an arbitrary, hostile store a Merkle or
  embedded-tree read that succeeds returns the page last written, and a read of the encrypting store
  one that was written to the same index. The file store refines the
  memory store, and an I/O fault changes no byte outside the pages being written. Lookups of the
  cuckoo and direct tables, from file to answer, return what the files hold. A save of the state is
  atomic whatever fails. A build leaves a table on disk which opens in every authentication layout,
  with the states of controller and authentication in their files,
  and a session on such a table finds in it what the source file holds and leaves such a table
  again; these theorems are about sessions in which no file operation fails, and the one on builds
  about tables without a front cache whose stash is roomy. The simulators conserve their blocks and
  their runs end; the Ring simulator evicts the next path of the public order in every period. Where the code
  does less than one expects, a theorem says so: a search for candidate bins that never ends, a
  header check that wraps, an access counted after it was applied, a Merkle write that trusts
  sibling hashes from disk, a batch that moves the trusted root before it can fail.

  Bounds and fuel. No definition uses fuel. Loops that may not end are \<open>partial_function (option)\<close>
  (the candidate bins and the code that calls them) and are proved to return when the hash reaches
  enough bins, and to diverge otherwise. \<open>params_ok\<close> collects what the constructors of the
  parameters check; its bounds of \<open>2 ^ 32\<close> leaves and \<open>2 ^ 64\<close> elements are those of the code's
  types.

  Parameters. Code outside the repository enters as an argument with documented behaviour as the
  assumptions of a locale: \<open>subtle_spec\<close> (branch-free choice), \<open>aead_spec\<close> (ChaCha20-Poly1305:
  decryption inverts encryption, tags have 16 bytes; that ciphertexts cannot be forged and bind their
  message and associated data are hypotheses of the one theorem on hostile storage), \<open>sha256_spec\<close> (32-byte digests; that the
  inputs which occur do not collide is a hypothesis of the theorems that need it). The generator
  ChaCha20, \<open>bincode\<close>, \<open>hex\<close> and double-precision arithmetic are uninterpreted functions. Every
  locale is interpreted on the model's own stores, or on a concrete function for a parameter.

  Not modelled: message interpolation, \<open>Debug\<close> and display code, erasing of memory, memory maps
  beyond the bytes they show (a file that cannot be opened, read or mapped is one without bytes, with
  the I/O error the code returns), a failing write of the metadata file of a direct table, concurrency between processes on one file. Of the command line the
  parsing of arguments, the printed text (a session returns the figures it prints), the timing and
  the commands that only estimate sizes or costs are left out.
\<close>

end
